(* ===== verification/Sos_Prelude.thy ===== *)
theory Sos_Prelude
  imports Main "HOL-Library.Word" "HOL-Library.Monad_Syntax"
begin

text \<open>
  What every theory of the development shares: the machine types of the kernel
  (\<^verbatim>\<open>kernel/include/sos_inttypes.h\<close>), the error numbers of
  \<^verbatim>\<open>kernel/include/sos_types.h\<close>, the module identifiers of
  \<^verbatim>\<open>kernel/include/pid.h\<close>, the collections of rewrite rules, and the generic facts on
  lists and 16-bit words that the components use.

  Conventions of the model. An \<^verbatim>\<open>int8_t\<close> result is an \<open>int\<close>: 0 for
  \<^verbatim>\<open>SOS_OK\<close> and the negated error number otherwise. A \<^verbatim>\<open>void *\<close> is a
  natural number, the address, with 0 for \<^verbatim>\<open>NULL\<close>. A function whose loops may run
  forever on a corrupted state has a result of type \<open>option\<close>, in which \<open>None\<close> means that
  the call does not return; the theorems show that it returns on every state that satisfies
  the component's invariant.
\<close>

unbundle bit_operations_syntax

section \<open>Machine types\<close>

type_synonym u8 = "8 word"
type_synonym u16 = "16 word"
type_synonym u32 = "32 word"
type_synonym sos_pid_t = u8
type_synonym addr = nat

abbreviation (input) NULL :: addr where "NULL \<equiv> 0"

section \<open>Error numbers\<close>

definition SOS_OK :: int where "SOS_OK = 0"
definition EPERM :: int where "EPERM = 1"
definition ESRCH :: int where "ESRCH = 3"
definition ENXIO :: int where "ENXIO = 6"
definition EBADF :: int where "EBADF = 9"
definition ENOMEM :: int where "ENOMEM = 12"
definition EBUSY :: int where "EBUSY = 16"
definition EEXIST :: int where "EEXIST = 17"
definition EINVAL :: int where "EINVAL = 22"

lemmas errno_defs =
  SOS_OK_def EPERM_def ESRCH_def ENXIO_def EBADF_def ENOMEM_def EBUSY_def EEXIST_def EINVAL_def

section \<open>Module identifiers\<close>

definition KER_SCHED_PID :: sos_pid_t where "KER_SCHED_PID = 2"
definition KER_MEM_PID :: sos_pid_t where "KER_MEM_PID = 3"
definition TIMER_PID :: sos_pid_t where "TIMER_PID = 4"
definition MSG_QUEUE_PID :: sos_pid_t where "MSG_QUEUE_PID = 11"
definition FNTABLE_PID :: sos_pid_t where "FNTABLE_PID = 12"
definition KER_TS_PID :: sos_pid_t where "KER_TS_PID = 14"
definition KER_SHM_PID :: sos_pid_t where "KER_SHM_PID = 19"
definition KER_SENSOR_PID :: sos_pid_t where "KER_SENSOR_PID = 6"
definition NULL_PID :: sos_pid_t where "NULL_PID = 255"
definition APP_MOD_MAX_PID :: sos_pid_t where "APP_MOD_MAX_PID = 223"
definition SOS_MAX_PID :: sos_pid_t where "SOS_MAX_PID = 254"

lemmas pid_defs =
  KER_SCHED_PID_def KER_MEM_PID_def TIMER_PID_def MSG_QUEUE_PID_def FNTABLE_PID_def
  KER_TS_PID_def KER_SHM_PID_def KER_SENSOR_PID_def NULL_PID_def APP_MOD_MAX_PID_def
  SOS_MAX_PID_def

section \<open>Collections of rewrite rules\<close>

named_theorems mem_simps \<open>reads after writes on the memory of a component\<close>
named_theorems frame_simps \<open>fields that an operation leaves as they are\<close>

section \<open>Generic facts\<close>

lemma bind_eq_Some_iff [simp]:
  "(Option.bind m f = Some y) = (\<exists>x. m = Some x \<and> f x = Some y)"
  by (cases m) auto

lemma nth_list_update_if:
  "i < length xs \<Longrightarrow> xs[i := x] ! j = (if j = i then x else xs ! j)"
  by auto

lemma sum_list_append_nat: "sum_list (xs @ ys :: nat list) = sum_list xs + sum_list ys"
  by simp

lemma sorted_wrt_less_insort:
  fixes b :: nat
  assumes "sorted_wrt (<) (xs @ ys)" and "\<forall>x \<in> set xs. x < b" and "\<forall>y \<in> set ys. b < y"
  shows "sorted_wrt (<) (xs @ b # ys)"
  using assms by (auto simp: sorted_wrt_append)

lemma sorted_wrt_less_distinct: "sorted_wrt (<) (xs :: nat list) \<Longrightarrow> distinct xs"
  by (induction xs) auto

lemma unat_plus_no_wrap:
  fixes a b :: "'a::len word"
  assumes "unat a + unat b < 2 ^ LENGTH('a)"
  shows "unat (a + b) = unat a + unat b"
  using assms by (simp add: unat_word_ariths)

lemma unat_minus_no_wrap:
  fixes a b :: "'a::len word"
  assumes "unat b \<le> unat a"
  shows "unat (a - b) = unat a - unat b"
  using assms by (simp add: unat_sub word_le_nat_alt)

lemma find_SomeD: "List.find P xs = Some x \<Longrightarrow> x \<in> set xs \<and> P x"
  by (induction xs) (auto split: if_splits)

lemma unat8_less: "unat (w :: u8) < 256" and unat16_less: "unat (v :: u16) < 65536"
  using unsigned_less [of w] unsigned_less [of v] by simp_all

text \<open>
  The outcome of a call that may end in \<^verbatim>\<open>ker_panic\<close>, which does not return to its
  caller.
\<close>

datatype 'a outcome = Done 'a | Panic

end
