(* ===== verification/Links.thy ===== *)
theory Links
  imports Sos_Prelude
begin

text \<open>
  Circular doubly linked lists with a head node, the data structure of the kernel's lists
  (\<^verbatim>\<open>kernel/sos_list.c\<close>) and of the free list of the memory manager
  (\<^verbatim>\<open>kernel/malloc.c\<close>). A list is described by the two functions that read the
  link fields of a node; \<open>ring n p s xs\<close> says that following \<open>n\<close> from the head \<open>s\<close> visits
  exactly the nodes \<open>xs\<close> and comes back to \<open>s\<close>, and that \<open>p\<close> follows the same circle
  backwards. The locale \<open>link_store\<close> is the interface to the memory that holds the links:
  whatever satisfies its laws gets the correctness of unlinking and of the two orders of
  assignments in which the code links a node in.
\<close>

section \<open>Segments and rings\<close>

primrec links :: "(nat \<Rightarrow> nat) \<Rightarrow> (nat \<Rightarrow> nat) \<Rightarrow> nat \<Rightarrow> nat list \<Rightarrow> nat \<Rightarrow> bool" where
  "links n p a [] b = (n a = b \<and> p b = a)"
| "links n p a (x # xs) b = (n a = x \<and> p x = a \<and> links n p x xs b)"

definition ring :: "(nat \<Rightarrow> nat) \<Rightarrow> (nat \<Rightarrow> nat) \<Rightarrow> nat \<Rightarrow> nat list \<Rightarrow> bool" where
  "ring n p s xs \<longleftrightarrow> distinct (s # xs) \<and> links n p s xs s"

lemma links_append:
  "links n p a (xs @ x # ys) b = (links n p a xs x \<and> links n p x ys b)"
  by (induction xs arbitrary: a) auto

lemma links_cong:
  assumes "\<And>i. i \<in> set (a # xs) \<Longrightarrow> n' i = n i" and "\<And>i. i \<in> set (b # xs) \<Longrightarrow> p' i = p i"
  shows "links n' p' a xs b = links n p a xs b"
  using assms by (induction xs arbitrary: a) auto

lemma links_last: "links n p a xs b \<Longrightarrow> p b = last (a # xs)"
  by (induction xs arbitrary: a) auto

lemma links_first: "links n p a xs b \<Longrightarrow> n a = hd (xs @ [b])"
  by (cases xs) auto

lemma ring_cong:
  assumes "\<And>i. i \<in> set (s # xs) \<Longrightarrow> n' i = n i" and "\<And>i. i \<in> set (s # xs) \<Longrightarrow> p' i = p i"
  shows "ring n' p' s xs = ring n p s xs"
  using links_cong [of s xs n' n s p' p] assms by (auto simp: ring_def)

lemma ring_distinct: "ring n p s xs \<Longrightarrow> distinct (s # xs)"
  by (simp add: ring_def)

lemma ring_next_head: "ring n p s xs \<Longrightarrow> n s = hd (xs @ [s])"
  by (auto simp: ring_def dest: links_first)

lemma ring_next: "ring n p s (xs @ x # ys) \<Longrightarrow> n x = hd (ys @ [s])"
  by (auto simp: ring_def links_append dest: links_first)

lemma ring_prev: "ring n p s (xs @ x # ys) \<Longrightarrow> p x = last (s # xs)"
  by (auto simp: ring_def links_append dest: links_last)

lemma ring_prev_head: "ring n p s xs \<Longrightarrow> p s = last (s # xs)"
  by (auto simp: ring_def dest: links_last)

text \<open>Taking a node out of a segment.\<close>

lemma links_remove:
  assumes "links n p a xs b" "links n p b ys c"
    and "distinct (xs @ b # ys)" "a \<notin> set (xs @ b # ys)" "c \<notin> set (xs @ b # ys)"
  shows "links (n(p b := n b)) (p(n b := p b)) a (xs @ ys) c"
  using assms
proof (induction xs arbitrary: a)
  case Nil
  then have pb: "p b = a" by simp
  show ?case
  proof (cases ys)
    case Nil
    with \<open>links n p b ys c\<close> pb show ?thesis by simp
  next
    case (Cons y zs)
    with Nil.prems have "links n p y zs c" "n b = y" by auto
    moreover from Nil.prems Cons have "a \<notin> set (y # zs)" "y \<notin> set (c # zs)" by auto
    ultimately have "links (n(p b := n b)) (p(n b := p b)) y zs c"
      using pb by (subst links_cong [of y zs _ n c _ p]) auto
    with pb \<open>n b = y\<close> Cons show ?thesis by (simp add: fun_upd_def)
  qed
next
  case (Cons x xs)
  then have IH: "links (n(p b := n b)) (p(n b := p b)) x (xs @ ys) c"
    by (intro Cons.IH) auto
  have "p b = last (x # xs)" using Cons.prems(1) links_last [of n p x xs b] by simp
  then have "p b \<in> set (x # xs)" by (metis last_in_set list.distinct(1))
  with Cons.prems have "p b \<noteq> a" by auto
  moreover have "n b = hd (ys @ [c])" using Cons.prems(2) by (rule links_first)
  then have "n b \<in> set (ys @ [c])" by (metis hd_in_set snoc_eq_iff_butlast)
  with Cons.prems have "n b \<noteq> x" by auto
  ultimately show ?case using IH Cons.prems by (simp add: fun_upd_def)
qed

lemma ring_remove:
  assumes "ring n p s (xs @ b # ys)"
  shows "ring (n(p b := n b)) (p(n b := p b)) s (xs @ ys)"
  using assms links_remove [of n p s xs b ys s] by (auto simp: ring_def links_append)

text \<open>Putting a node before the end of a segment.\<close>

lemma links_snoc:
  assumes "links n p a xs c" "distinct (a # xs)" "c \<notin> set xs" "b \<notin> set (a # c # xs)"
  shows "links (n(p c := b, b := c)) (p(b := p c, c := b)) a (xs @ [b]) c"
  using assms
proof (induction xs arbitrary: a)
  case Nil
  then show ?case by auto
next
  case (Cons x xs)
  then have IH: "links (n(p c := b, b := c)) (p(b := p c, c := b)) x (xs @ [b]) c"
    by (intro Cons.IH) auto
  have "p c = last (x # xs)" using Cons.prems(1) links_last [of n p x xs c] by simp
  then have "p c \<in> set (x # xs)" by (metis last_in_set list.distinct(1))
  with Cons.prems have "p c \<noteq> a" by auto
  with Cons.prems IH show ?case by (simp add: fun_upd_def)
qed

lemma ring_insert:
  assumes "ring n p s (xs @ ys)" "b \<notin> set (s # xs @ ys)" "c = hd (ys @ [s])"
  shows "ring (n(p c := b, b := c)) (p(b := p c, c := b)) s (xs @ b # ys)"
proof (cases ys)
  case Nil
  with assms links_snoc [of n p s xs s b] show ?thesis by (auto simp: ring_def)
next
  case (Cons y zs)
  with assms have c: "c = y" and lk: "links n p s xs y" "links n p y zs s"
    by (auto simp: ring_def links_append)
  from assms Cons have d: "distinct (s # xs)" "y \<notin> set xs" "y \<noteq> s" "b \<notin> set (s # y # xs)"
      "b \<notin> set (y # zs)" "y \<notin> set zs" "distinct (s # xs @ b # y # zs)" "set (s # xs) \<inter> set (y # zs) = {}"
    by (auto simp: ring_def)
  have 1: "links (n(p y := b, b := y)) (p(b := p y, y := b)) s (xs @ [b]) y"
    using lk(1) d by (intro links_snoc) auto
  have "p y \<in> set (s # xs)" using links_last [OF lk(1)] by (metis last_in_set list.distinct(1))
  with d have "p y \<notin> set (y # zs)" by auto
  then have 2: "links (n(p y := b, b := y)) (p(b := p y, y := b)) y zs s"
    using lk(2) d by (subst links_cong [of y zs _ n s _ p]) auto
  have "links (n(p y := b, b := y)) (p(b := p y, y := b)) s ((xs @ [b]) @ y # zs) s"
    using 1 2 by (simp only: links_append [of _ _ s "xs @ [b]" y zs s])
  with d c Cons show ?thesis by (simp add: ring_def)
qed

section \<open>Singly linked lists\<close>

text \<open>
  \<open>path nx p xs e\<close>: following \<open>nx\<close> from \<open>p\<close> visits the nodes \<open>xs\<close>, none of them null, and
  arrives at \<open>e\<close>. A null-terminated list is a path to 0.
\<close>

primrec path :: "(nat \<Rightarrow> nat) \<Rightarrow> nat \<Rightarrow> nat list \<Rightarrow> nat \<Rightarrow> bool" where
  "path nx p [] e \<longleftrightarrow> p = e"
| "path nx p (x # xs) e \<longleftrightarrow> p = x \<and> x \<noteq> 0 \<and> path nx (nx x) xs e"

lemma path_append: "path nx p (xs @ ys) e \<longleftrightarrow> (\<exists>q. path nx p xs q \<and> path nx q ys e)"
  by (induction xs arbitrary: p) auto

lemma path_cong: "(\<And>x. x \<in> set xs \<Longrightarrow> nx' x = nx x) \<Longrightarrow> path nx' p xs e = path nx p xs e"
  by (induction xs arbitrary: p) auto

lemma path_update: "x \<notin> set xs \<Longrightarrow> path (nx(x := v)) p xs e = path nx p xs e"
  by (rule path_cong) auto

lemma path_unique: "path nx p xs 0 \<Longrightarrow> path nx p ys 0 \<Longrightarrow> xs = ys"
proof (induction xs arbitrary: p ys)
  case Nil
  then show ?case by (cases ys) auto
next
  case (Cons x xs)
  then show ?case by (cases ys) auto
qed

lemma path_nonnull: "path nx p xs e \<Longrightarrow> 0 \<notin> set xs"
  by (induction xs arbitrary: p) auto

lemma path_empty_iff: "path nx p xs 0 \<Longrightarrow> p = 0 \<longleftrightarrow> xs = []"
  by (cases xs) auto

lemma path_suffix: "path nx p (xs @ x # ys) 0 \<Longrightarrow> path nx x (x # ys) 0"
  by (auto simp: path_append)

lemma path_distinct: "path nx p xs 0 \<Longrightarrow> distinct xs"
proof (induction xs arbitrary: p)
  case (Cons x xs)
  have "x \<notin> set xs"
  proof
    assume "x \<in> set xs"
    then obtain ys zs where "xs = ys @ x # zs" by (auto simp: in_set_conv_decomp)
    with Cons.prems have "path nx x (x # zs) 0" "path nx x (x # xs) 0"
      using path_suffix [of nx "nx x" ys x zs] by auto
    then have "x # zs = x # xs" by (rule path_unique)
    with \<open>xs = ys @ x # zs\<close> show False by simp
  qed
  with Cons show ?case by auto
qed simp

text \<open>A new node behind the last one, and in the middle.\<close>

lemma path_snoc:
  assumes "path nx p (xs @ [x]) 0" "y \<noteq> 0" "y \<notin> set (xs @ [x])"
  shows "path (nx(y := 0, x := y)) p (xs @ [x, y]) 0"
proof -
  have d: "x \<notin> set xs" using path_distinct [OF assms(1)] by simp
  have "path nx p xs x" "x \<noteq> 0" using assms(1) by (auto simp: path_append)
  moreover have "path (nx(y := 0, x := y)) p xs x = path nx p xs x"
    using d assms(3) by (intro path_cong) auto
  ultimately show ?thesis using assms(2,3) by (auto simp: path_append)
qed

lemma path_insert:
  assumes "path nx p (xs @ x # ys) 0" "y \<noteq> 0" "y \<notin> set (xs @ x # ys)"
  shows "path (nx(y := nx x, x := y)) p (xs @ x # y # ys) 0"
proof -
  have d: "x \<notin> set xs" "x \<notin> set ys" using path_distinct [OF assms(1)] by auto
  have "path nx p xs x" "x \<noteq> 0" "path nx (nx x) ys 0" using assms(1) by (auto simp: path_append)
  moreover have "path (nx(y := nx x, x := y)) p xs x = path nx p xs x"
    "path (nx(y := nx x, x := y)) (nx x) ys 0 = path nx (nx x) ys 0"
    using d assms(3) by (auto intro!: path_cong)
  ultimately show ?thesis using assms(2,3) by (auto simp: path_append)
qed

text \<open>Taking out a node that is not the first one.\<close>

lemma path_remove:
  assumes "path nx p (xs @ x # y # ys) 0"
  shows "path (nx(x := nx y)) p (xs @ x # ys) 0"
proof -
  have d: "x \<notin> set xs" "x \<notin> set ys" using path_distinct [OF assms] by auto
  have "path nx p xs x" "x \<noteq> 0" "path nx (nx y) ys 0" using assms by (auto simp: path_append)
  with d show ?thesis by (auto simp: path_append path_update)
qed

section \<open>The interface to the memory that holds the links\<close>

locale link_store =
  fixes nx :: "'h \<Rightarrow> nat \<Rightarrow> nat"
    and pv :: "'h \<Rightarrow> nat \<Rightarrow> nat"
    and set_nx :: "nat \<Rightarrow> nat \<Rightarrow> 'h \<Rightarrow> 'h"
    and set_pv :: "nat \<Rightarrow> nat \<Rightarrow> 'h \<Rightarrow> 'h"
    and node :: "'h \<Rightarrow> nat \<Rightarrow> bool"
  assumes nx_set_nx: "node h a \<Longrightarrow> node h v \<Longrightarrow> nx (set_nx a v h) = (nx h)(a := v)"
    and pv_set_nx: "pv (set_nx a v h) = pv h"
    and nx_set_pv: "nx (set_pv a v h) = nx h"
    and pv_set_pv: "node h a \<Longrightarrow> node h v \<Longrightarrow> pv (set_pv a v h) = (pv h)(a := v)"
    and node_set_nx: "node (set_nx a v h) = node h"
    and node_set_pv: "node (set_pv a v h) = node h"
begin

lemmas store_simps = nx_set_nx pv_set_nx nx_set_pv pv_set_pv node_set_nx node_set_pv

text \<open>\<^verbatim>\<open>b->prev->next = b->next; b->next->prev = b->prev\<close>\<close>

lemma ring_unlink:
  assumes r: "ring (nx h) (pv h) s (xs @ b # ys)" and v: "\<forall>i \<in> set (s # xs @ b # ys). node h i"
    and h1: "h1 = set_nx (pv h b) (nx h b) h" and h2: "h2 = set_pv (nx h1 b) (pv h1 b) h1"
  shows "ring (nx h2) (pv h2) s (xs @ ys)"
proof -
  have pb: "pv h b = last (s # xs)" and nb: "nx h b = hd (ys @ [s])"
    using ring_prev [OF r] ring_next [OF r] by auto
  have "pv h b \<in> set (s # xs)" using pb by (metis last_in_set list.distinct(1))
  then have vp: "node h (pv h b)" and pbb: "pv h b \<noteq> b"
    using v ring_distinct [OF r] by auto
  have "nx h b \<in> set (ys @ [s])" using nb by (metis hd_in_set snoc_eq_iff_butlast)
  then have vn: "node h (nx h b)" using v by auto
  have "nx h1 = (nx h)(pv h b := nx h b)" "pv h1 = pv h" "node h1 = node h"
    using vp vn by (simp_all add: h1 store_simps)
  moreover have "nx h1 b = nx h b" using calculation pbb by simp
  ultimately have "nx h2 = (nx h)(pv h b := nx h b)" "pv h2 = (pv h)(nx h b := pv h b)"
    using vn vp by (simp_all add: h2 store_simps)
  with ring_remove [OF r] show ?thesis by simp
qed

text \<open>
  The order of assignments of \<^verbatim>\<open>list_insert_before\<close>: the new node first, then its
  neighbours.
\<close>

lemma ring_link_new_first:
  assumes r: "ring (nx h) (pv h) s (xs @ ys)" and b: "b \<notin> set (s # xs @ ys)"
    and c: "c = hd (ys @ [s])" and v: "\<forall>i \<in> set (b # s # xs @ ys). node h i"
    and h1: "h1 = set_nx b c h" and h2: "h2 = set_pv b (pv h1 c) h1"
    and h3: "h3 = set_nx (pv h2 c) b h2" and h4: "h4 = set_pv c b h3"
  shows "ring (nx h4) (pv h4) s (xs @ b # ys)"
proof -
  have ci: "c \<in> set (s # xs @ ys)" using c by (cases ys) auto
  have "pv h c \<in> set (s # xs)"
  proof (cases ys)
    case Nil
    with c r have "pv h c = last (s # xs)" by (simp add: ring_prev_head)
    then show ?thesis by (metis last_in_set list.distinct(1))
  next
    case (Cons y zs)
    with c r have "pv h c = last (s # xs)" by (simp add: ring_prev)
    then show ?thesis by (metis last_in_set list.distinct(1))
  qed
  then have vp: "node h (pv h c)" "pv h c \<noteq> b" using v b by auto
  have vs: "node h b" "node h c" using v ci by auto
  have cb: "c \<noteq> b" using ci b by auto
  have "nx h4 = (nx h)(pv h c := b, b := c)" "pv h4 = (pv h)(b := pv h c, c := b)"
    using vp vs cb by (auto simp: h1 h2 h3 h4 store_simps fun_eq_iff)
  with ring_insert [OF r b c] show ?thesis by simp
qed

text \<open>
  The order of assignments of \<^verbatim>\<open>InsertAfter\<close>: the predecessor first, the new node's
  own \<^verbatim>\<open>next\<close> last.
\<close>

lemma ring_link_pred_first:
  assumes r: "ring (nx h) (pv h) s (xs @ ys)" and b: "b \<notin> set (s # xs @ ys)"
    and c: "c = hd (ys @ [s])" and v: "\<forall>i \<in> set (b # s # xs @ ys). node h i"
    and h1: "h1 = set_nx (pv h c) b h" and h2: "h2 = set_pv b (pv h1 c) h1"
    and h3: "h3 = set_pv c b h2" and h4: "h4 = set_nx b c h3"
  shows "ring (nx h4) (pv h4) s (xs @ b # ys)"
proof -
  have ci: "c \<in> set (s # xs @ ys)" using c by (cases ys) auto
  have "pv h c = last (s # xs)"
    using c r by (cases ys) (simp_all add: ring_prev_head ring_prev)
  then have "pv h c \<in> set (s # xs)" by (metis last_in_set list.distinct(1))
  then have vp: "node h (pv h c)" "pv h c \<noteq> b" using v b by auto
  have vs: "node h b" "node h c" using v ci by auto
  have cb: "c \<noteq> b" using ci b by auto
  have "nx h4 = (nx h)(pv h c := b, b := c)" "pv h4 = (pv h)(b := pv h c, c := b)"
    using vp vs cb by (auto simp: h1 h2 h3 h4 store_simps fun_eq_iff)
  with ring_insert [OF r b c] show ?thesis by simp
qed

end

end
