(* ===== verification/Malloc.thy ===== *)
theory Malloc
  imports Links
begin

text \<open>
  The memory manager, \<^verbatim>\<open>kernel/malloc.c\<close>, as it is built for the AVR nodes (mica2 and
  micaz: \<^verbatim>\<open>platform/mica2/include/malloc_conf.h\<close>) without the fault isolation mode
  \<^verbatim>\<open>SOS_SFI\<close>: blocks of 8 bytes, a header of 3 bytes without padding, 16-bit pointers
  and a 16-bit \<^verbatim>\<open>int\<close>. This theory holds the definitions only; the abstract
  specification and the proofs are in the theories \<open>Malloc_Spec\<close> and \<open>Malloc_Correct\<close>.

  The heap is the array \<^verbatim>\<open>malloc_heap\<close>, here a list of blocks of any length together
  with the address the linker gives to it. A \<^verbatim>\<open>Block*\<close> is the index of the block in the
  array, so that the pointer arithmetic \<^verbatim>\<open>block + n\<close> is addition. The five fields of a
  block cover its eight bytes exactly: the header (\<open>blocks\<close>, \<open>owner\<close>), the two links, and the
  last byte, in which the last block of an area keeps the guard byte. In an area that is in
  use the bytes of the links belong to the user part, as in the union of the source.

  Reads outside the array are unspecified and writes outside it are dropped: the theorems are
  about heaps in which neither happens. \<open>None\<close> stands for a call without a defined result: a
  loop over a corrupted list that never ends, or a pointer that is not the start of a block.
  The parameter \<^verbatim>\<open>bCallFromModule\<close> is read only by the fault isolation mode and is left
  out, as are the critical sections (every operation is atomic here) and the log calls.
\<close>

section \<open>Constants\<close>

definition RESERVED :: u16 where "RESERVED = 0x8000"
definition GC_MARK :: u16 where "GC_MARK = 0x4000"
definition MEM_MASK :: u16 where "MEM_MASK = RESERVED OR GC_MARK"
definition BLOCK_SIZE :: nat where "BLOCK_SIZE = 8"
definition SHIFT_VALUE :: nat where "SHIFT_VALUE = 3"
definition HEADER_SIZE :: nat where "HEADER_SIZE = 3"
definition BLOCKOVERHEAD :: nat where "BLOCKOVERHEAD = HEADER_SIZE + 1"

lemmas malloc_consts =
  RESERVED_def GC_MARK_def MEM_MASK_def BLOCK_SIZE_def SHIFT_VALUE_def HEADER_SIZE_def
  BLOCKOVERHEAD_def

section \<open>Data\<close>

record block =
  blocks :: u16
  owner :: u8
  prev :: u16
  nxt :: u16
  last_byte :: u8

record heap =
  malloc_heap :: addr
  mem :: "block list"
  mSentinel :: nat

abbreviation blk :: "heap \<Rightarrow> nat \<Rightarrow> block" where "blk h i \<equiv> mem h ! i"

definition NUM_HEAP_BLOCKS :: "heap \<Rightarrow> nat" where
  "NUM_HEAP_BLOCKS h = length (mem h)"

text \<open>The address of a block, and the block a stored 16-bit pointer refers to.\<close>

definition blk_addr :: "heap \<Rightarrow> nat \<Rightarrow> addr" where
  "blk_addr h i = malloc_heap h + BLOCK_SIZE * i"

definition ptr_blk :: "heap \<Rightarrow> u16 \<Rightarrow> nat" where
  "ptr_blk h w = (unat w - malloc_heap h) div BLOCK_SIZE"

definition user_part :: "heap \<Rightarrow> nat \<Rightarrow> addr" where
  "user_part h i = blk_addr h i + HEADER_SIZE"

text \<open>
  \<^verbatim>\<open>TO_BLOCK_PTR\<close>, as a 16-bit address and, where the address is that of a block, as an
  index.
\<close>

definition TO_BLOCK_PTR :: "addr \<Rightarrow> addr" where
  "TO_BLOCK_PTR p = (p + 65536 - HEADER_SIZE) mod 65536"

definition in_heap :: "heap \<Rightarrow> addr \<Rightarrow> bool" where
  "in_heap h a \<longleftrightarrow> malloc_heap h \<le> a \<and> a < malloc_heap h + BLOCK_SIZE * NUM_HEAP_BLOCKS h"

definition addr_blk :: "heap \<Rightarrow> addr \<Rightarrow> nat option" where
  "addr_blk h a =
     (if in_heap h a \<and> (a - malloc_heap h) mod BLOCK_SIZE = 0
      then Some ((a - malloc_heap h) div BLOCK_SIZE) else None)"

section \<open>Reading and writing a block\<close>

definition upd :: "nat \<Rightarrow> (block \<Rightarrow> block) \<Rightarrow> heap \<Rightarrow> heap" where
  "upd i f h = h\<lparr>mem := (mem h)[i := f (mem h ! i)]\<rparr>"

definition set_blocks :: "nat \<Rightarrow> u16 \<Rightarrow> heap \<Rightarrow> heap" where
  "set_blocks i v = upd i (\<lambda>b. b\<lparr>blocks := v\<rparr>)"

definition set_owner :: "nat \<Rightarrow> u8 \<Rightarrow> heap \<Rightarrow> heap" where
  "set_owner i v = upd i (\<lambda>b. b\<lparr>owner := v\<rparr>)"

definition nextp :: "heap \<Rightarrow> nat \<Rightarrow> nat" where
  "nextp h i = ptr_blk h (nxt (blk h i))"

definition prevp :: "heap \<Rightarrow> nat \<Rightarrow> nat" where
  "prevp h i = ptr_blk h (prev (blk h i))"

definition set_next :: "nat \<Rightarrow> nat \<Rightarrow> heap \<Rightarrow> heap" where
  "set_next i j h = upd i (\<lambda>b. b\<lparr>nxt := of_nat (blk_addr h j)\<rparr>) h"

definition set_prev :: "nat \<Rightarrow> nat \<Rightarrow> heap \<Rightarrow> heap" where
  "set_prev i j h = upd i (\<lambda>b. b\<lparr>prev := of_nat (blk_addr h j)\<rparr>) h"

text \<open>The size of an area in blocks, as the walks over the heap read it.\<close>

definition area_blocks :: "heap \<Rightarrow> nat \<Rightarrow> nat" where
  "area_blocks h i = unat (blocks (blk h i) AND NOT MEM_MASK)"

definition is_reserved :: "heap \<Rightarrow> nat \<Rightarrow> bool" where
  "is_reserved h i \<longleftrightarrow> blocks (blk h i) AND RESERVED \<noteq> 0"

definition is_marked :: "heap \<Rightarrow> nat \<Rightarrow> bool" where
  "is_marked h i \<longleftrightarrow> blocks (blk h i) AND GC_MARK \<noteq> 0"

definition BLOCK_GUARD_BYTE :: "heap \<Rightarrow> nat \<Rightarrow> u8" where
  "BLOCK_GUARD_BYTE h i = last_byte (blk h (i + area_blocks h i - 1))"

definition set_guard :: "nat \<Rightarrow> u8 \<Rightarrow> heap \<Rightarrow> heap" where
  "set_guard i v h = upd (i + area_blocks h i - 1) (\<lambda>b. b\<lparr>last_byte := v\<rparr>) h"

definition req_blocks :: "u16 \<Rightarrow> u16" where
  "req_blocks sz = drop_bit SHIFT_VALUE (sz + of_nat BLOCKOVERHEAD + of_nat BLOCK_SIZE - 1)"

section \<open>The free list\<close>

definition Unlink :: "nat \<Rightarrow> heap \<Rightarrow> heap" where
  "Unlink block h =
     (let h1 = set_next (prevp h block) (nextp h block) h
      in set_prev (nextp h1 block) (prevp h1 block) h1)"

partial_function (option) InsertAfter_find :: "heap \<Rightarrow> nat \<Rightarrow> nat \<Rightarrow> nat option" where
  "InsertAfter_find h block p =
     (if p < block \<and> p \<noteq> mSentinel h then InsertAfter_find h block (nextp h p) else Some p)"

declare InsertAfter_find.simps [code]

definition InsertAfter :: "nat \<Rightarrow> heap \<Rightarrow> heap option" where
  "InsertAfter block h = do {
     p \<leftarrow> InsertAfter_find h block (nextp h (mSentinel h));
     let h1 = set_next (prevp h p) block h;
     let h2 = set_prev block (prevp h1 p) h1;
     let h3 = set_prev p block h2;
     Some (set_next block p h3)
   }"

section \<open>Merging and splitting areas\<close>

text \<open>\<^verbatim>\<open>MergeBlocks\<close> and \<^verbatim>\<open>MergeBlocksQuick\<close> return their first argument.\<close>

partial_function (option) MergeBlocks :: "nat \<Rightarrow> heap \<Rightarrow> heap option" where
  "MergeBlocks block h =
     (let successor = block + unat (blocks (blk h block))
      in if is_reserved h successor then Some h
         else let h1 = Unlink successor h;
                  h2 = set_blocks block (blocks (blk h1 block) + blocks (blk h1 successor)) h1
              in MergeBlocks block h2)"

declare MergeBlocks.simps [code]

partial_function (option) MergeBlocksQuick :: "nat \<Rightarrow> u16 \<Rightarrow> heap \<Rightarrow> heap option" where
  "MergeBlocksQuick block req h =
     (let successor = block + unat (blocks (blk h block))
      in if is_reserved h successor then Some h
         else let h1 = Unlink successor h;
                  h2 = set_blocks block (blocks (blk h1 block) + blocks (blk h1 successor)) h1
              in if blocks (blk h2 block) \<ge> req then Some h2
                 else MergeBlocksQuick block req h2)"

declare MergeBlocksQuick.simps [code]

definition SplitBlock :: "nat \<Rightarrow> u16 \<Rightarrow> heap \<Rightarrow> heap option" where
  "SplitBlock block reqBlocks h =
     (let newBlock = block + unat reqBlocks;
          h1 = set_blocks newBlock (blocks (blk h block) - reqBlocks) h;
          h2 = set_blocks block reqBlocks h1;
          h3 = set_blocks newBlock (blocks (blk h2 newBlock) AND NOT MEM_MASK) h2
      in InsertAfter newBlock h3)"

definition mem_init :: "addr \<Rightarrow> block list \<Rightarrow> heap option" where
  "mem_init base arr =
     (let s = length arr - 1;
          h0 = \<lparr>malloc_heap = base, mem = arr, mSentinel = s\<rparr>;
          h1 = set_blocks s 1 h0;
          h2 = set_blocks s (blocks (blk h1 s) OR RESERVED) h1;
          h3 = set_prev s s h2;
          h4 = set_next s s h3;
          h5 = set_blocks 0 (of_nat (NUM_HEAP_BLOCKS h4 - 1)) h4
      in InsertAfter 0 h5)"

section \<open>Allocation\<close>

text \<open>The first-fit search over the free list of \<^verbatim>\<open>sos_blk_mem_alloc\<close>.\<close>

partial_function (option) alloc_search :: "u16 \<Rightarrow> nat \<Rightarrow> heap \<Rightarrow> (heap \<times> nat) option" where
  "alloc_search reqBlocks block h =
     (if block = mSentinel h then Some (h, block)
      else do {
        h1 \<leftarrow> MergeBlocksQuick block reqBlocks h;
        if blocks (blk h1 block) \<ge> reqBlocks then Some (h1, block)
        else alloc_search reqBlocks (nextp h1 block) h1
      })"

declare alloc_search.simps [code]

text \<open>Marking an area as in use: the header, the owner and the guard byte.\<close>

definition reserve :: "nat \<Rightarrow> sos_pid_t \<Rightarrow> heap \<Rightarrow> heap" where
  "reserve block pid h =
     (let h1 = set_blocks block (blocks (blk h block) OR RESERVED) h;
          h2 = set_owner block pid h1
      in set_guard block pid h2)"

definition sos_blk_mem_alloc :: "u16 \<Rightarrow> sos_pid_t \<Rightarrow> heap \<Rightarrow> (heap \<times> addr) option" where
  "sos_blk_mem_alloc sz pid h =
     (if sz = 0 then Some (h, NULL)
      else let reqBlocks = req_blocks sz in do {
        (h1, block) \<leftarrow> alloc_search reqBlocks (nextp h (mSentinel h)) h;
        if block = mSentinel h1 then Some (h1, NULL)
        else do {
          h2 \<leftarrow> (if blocks (blk h1 block) > reqBlocks then SplitBlock block reqBlocks h1 else Some h1);
          let h3 = reserve block pid (Unlink block h2);
          Some (h3, user_part h3 block)
        }
      })"

text \<open>
  The two loops of \<^verbatim>\<open>sos_blk_mem_longterm_alloc\<close>: merge every free area with the free
  areas that follow it, then find the free area with the largest address that is large enough.
\<close>

partial_function (option) defrag_loop :: "nat \<Rightarrow> heap \<Rightarrow> heap option" where
  "defrag_loop block h =
     (if block = mSentinel h then Some h
      else do {
        h1 \<leftarrow> MergeBlocks block h;
        defrag_loop (nextp h1 block) h1
      })"

declare defrag_loop.simps [code]

text \<open>\<^verbatim>\<open>max_block\<close> is \<open>None\<close> while it is \<^verbatim>\<open>NULL\<close>.\<close>

partial_function (option) find_max ::
    "u16 \<Rightarrow> nat \<Rightarrow> nat option \<Rightarrow> heap \<Rightarrow> nat option option" where
  "find_max reqBlocks block max_block h =
     (if block = mSentinel h then Some max_block
      else find_max reqBlocks (nextp h block)
             (if (case max_block of None \<Rightarrow> True | Some m \<Rightarrow> m < block) \<and>
                 blocks (blk h block) \<ge> reqBlocks
              then Some block else max_block) h)"

declare find_max.simps [code]

definition sos_blk_mem_longterm_alloc :: "u16 \<Rightarrow> sos_pid_t \<Rightarrow> heap \<Rightarrow> (heap \<times> addr) option" where
  "sos_blk_mem_longterm_alloc sz pid h =
     (if sz = 0 then Some (h, NULL)
      else let reqBlocks = req_blocks sz in do {
        h1 \<leftarrow> defrag_loop (nextp h (mSentinel h)) h;
        max_block \<leftarrow> find_max reqBlocks (nextp h1 (mSentinel h1)) None h1;
        case max_block of
          None \<Rightarrow> Some (h1, NULL)
        | Some m \<Rightarrow>
            let newBlock = m + unat (blocks (blk h1 m) - reqBlocks);
                h2 = (if newBlock = m then Unlink newBlock h1
                      else set_blocks newBlock reqBlocks
                             (set_blocks m (blocks (blk h1 m) - reqBlocks) h1));
                h3 = reserve newBlock pid h2
            in Some (h3, user_part h3 newBlock)
      })"

section \<open>Release and change of owner\<close>

definition sos_blk_mem_free :: "addr \<Rightarrow> heap \<Rightarrow> heap option" where
  "sos_blk_mem_free pntr h =
     (if pntr = NULL then Some h
      else if \<not> in_heap h (TO_BLOCK_PTR pntr) then Some h
      else do {
        baseArea \<leftarrow> addr_blk h (TO_BLOCK_PTR pntr);
        if owner (blk h baseArea) \<noteq> BLOCK_GUARD_BYTE h baseArea then Some h
        else let h1 = set_blocks baseArea (blocks (blk h baseArea) AND NOT MEM_MASK) h;
                 h2 = set_owner baseArea NULL_PID h1
             in InsertAfter baseArea h2
      })"

definition sos_blk_mem_change_own :: "addr \<Rightarrow> sos_pid_t \<Rightarrow> heap \<Rightarrow> (heap \<times> int) option" where
  "sos_blk_mem_change_own ptr pid h =
     (if pid = NULL_PID \<or> ptr = NULL then Some (h, SOS_OK)
      else if \<not> in_heap h (TO_BLOCK_PTR ptr) then Some (h, - EINVAL)
      else do {
        blockptr \<leftarrow> addr_blk h (TO_BLOCK_PTR ptr);
        if owner (blk h blockptr) \<noteq> BLOCK_GUARD_BYTE h blockptr then Some (h, - EINVAL)
        else Some (set_owner blockptr pid (set_guard blockptr pid h), SOS_OK)
      })"

abbreviation ker_malloc :: "u16 \<Rightarrow> sos_pid_t \<Rightarrow> heap \<Rightarrow> (heap \<times> addr) option" where
  "ker_malloc \<equiv> sos_blk_mem_alloc"
abbreviation malloc_longterm :: "u16 \<Rightarrow> sos_pid_t \<Rightarrow> heap \<Rightarrow> (heap \<times> addr) option" where
  "malloc_longterm \<equiv> sos_blk_mem_longterm_alloc"
abbreviation ker_free :: "addr \<Rightarrow> heap \<Rightarrow> heap option" where
  "ker_free \<equiv> sos_blk_mem_free"
abbreviation ker_change_own :: "addr \<Rightarrow> sos_pid_t \<Rightarrow> heap \<Rightarrow> (heap \<times> int) option" where
  "ker_change_own \<equiv> sos_blk_mem_change_own"

text \<open>The walk of \<^verbatim>\<open>mem_remove_all\<close> over all areas.\<close>

partial_function (option) remove_walk :: "sos_pid_t \<Rightarrow> nat \<Rightarrow> heap \<Rightarrow> heap option" where
  "remove_walk pid block h =
     (if block = mSentinel h then Some h
      else do {
        h1 \<leftarrow> (if owner (blk h block) = pid \<and> is_reserved h block
               then ker_free (user_part h block) h else Some h);
        remove_walk pid (block + area_blocks h1 block) h1
      })"

declare remove_walk.simps [code]

definition mem_remove_all :: "sos_pid_t \<Rightarrow> heap \<Rightarrow> (heap \<times> int) option" where
  "mem_remove_all pid h = do { h1 \<leftarrow> remove_walk pid 0 h; Some (h1, SOS_OK) }"

section \<open>Reallocation\<close>

text \<open>
  The \<^verbatim>\<open>memcpy\<close> of \<^verbatim>\<open>sos_blk_mem_realloc\<close>: all bytes of an area of \<open>n\<close> blocks
  but the header of its first block.
\<close>

definition copy_user :: "nat \<Rightarrow> nat \<Rightarrow> nat \<Rightarrow> heap \<Rightarrow> heap" where
  "copy_user dst src n h =
     h\<lparr>mem := map (\<lambda>i.
         if i = dst \<and> 0 < n then (blk h dst)\<lparr>prev := prev (blk h src), nxt := nxt (blk h src),
                                  last_byte := last_byte (blk h src)\<rparr>
         else if dst < i \<and> i < dst + n then blk h (src + (i - dst))
         else blk h i) [0..<length (mem h)]\<rparr>"

definition sos_blk_mem_realloc :: "addr \<Rightarrow> u16 \<Rightarrow> heap \<Rightarrow> (heap \<times> addr) option" where
  "sos_blk_mem_realloc pntr newSize h =
     (if pntr = NULL \<or> newSize = 0 then Some (h, pntr)
      else do {
        block \<leftarrow> addr_blk h (TO_BLOCK_PTR pntr);
        let reqBlocks = req_blocks newSize;
        let pid = owner (blk h block);
        let h1 = set_blocks block (blocks (blk h block) AND NOT RESERVED) h;
        h2 \<leftarrow> MergeBlocks block h1;
        if blocks (blk h2 block) > reqBlocks then do {
          h3 \<leftarrow> SplitBlock block reqBlocks h2;
          let h4 = reserve block pid h3;
          Some (h4, user_part h4 block)
        }
        else if blocks (blk h2 block) < reqBlocks then do {
          let oldBlocks = area_blocks h2 block;
          let h3 = set_blocks block (blocks (blk h2 block) OR RESERVED) h2;
          (h4, p) \<leftarrow> ker_malloc newSize pid h3;
          if p \<noteq> NULL then do {
            newb \<leftarrow> addr_blk h4 (TO_BLOCK_PTR p);
            h5 \<leftarrow> sos_blk_mem_free pntr (copy_user newb block oldBlocks h4);
            let h6 = reserve newb pid h5;
            Some (h6, user_part h6 newb)
          }
          else Some (h4, NULL)
        }
        else let h4 = reserve block pid h2 in Some (h4, user_part h4 block)
      })"

section \<open>Garbage collection\<close>

partial_function (option) gc_mark_walk ::
    "sos_pid_t \<Rightarrow> addr \<Rightarrow> nat \<Rightarrow> heap \<Rightarrow> (heap \<times> int) option" where
  "gc_mark_walk pid baseArea itr h =
     (if itr \<noteq> mSentinel h \<and> itr < NUM_HEAP_BLOCKS h
      then if blk_addr h itr = baseArea
           then if owner (blk h itr) = pid \<and> is_reserved h itr
                then Some (set_blocks itr (blocks (blk h itr) OR GC_MARK) h, SOS_OK)
                else Some (h, - EINVAL)
           else gc_mark_walk pid baseArea (itr + area_blocks h itr) h
      else Some (h, - EINVAL))"

declare gc_mark_walk.simps [code]

definition ker_gc_mark :: "sos_pid_t \<Rightarrow> addr \<Rightarrow> heap \<Rightarrow> (heap \<times> int) option" where
  "ker_gc_mark pid pntr h =
     (if \<not> in_heap h (TO_BLOCK_PTR pntr) then Some (h, - EINVAL)
      else gc_mark_walk pid (TO_BLOCK_PTR pntr) 0 h)"

partial_function (option) gc_walk :: "sos_pid_t \<Rightarrow> nat \<Rightarrow> heap \<Rightarrow> heap option" where
  "gc_walk pid block h =
     (if block \<noteq> mSentinel h \<and> block < NUM_HEAP_BLOCKS h
      then do {
        h1 \<leftarrow> (if owner (blk h block) = pid \<and> is_reserved h block
               then if \<not> is_marked h block then ker_free (user_part h block) h
                    else Some (set_blocks block (blocks (blk h block) AND NOT GC_MARK) h)
               else Some h);
        gc_walk pid (block + area_blocks h1 block) h1
      }
      else Some h)"

declare gc_walk.simps [code]

definition malloc_gc :: "sos_pid_t \<Rightarrow> heap \<Rightarrow> heap option" where
  "malloc_gc pid h = gc_walk pid 0 h"

end
