(* ===== verification/Malloc_Spec.thy ===== *)
theory Malloc_Spec
  imports Malloc
begin

text \<open>
  What the memory manager promises, without pointers: the heap is the list of its areas in the
  order of their addresses, and every operation is a function on that list. An area is free,
  in use (with its owner, its guard byte and its collection mark), or held: taken off the free
  list but not marked as reserved, the state of an area in the middle of a reallocation.
  The theory \<open>Malloc_Rep\<close> relates these lists to heaps, \<open>Malloc_Correct\<close> shows that the code
  computes them.
\<close>

section \<open>Areas\<close>

datatype area =
    Free (asz: nat)
  | Used (asz: nat) (aown: u8) (aguard: u8) (amark: bool)
  | Held (asz: nat)

abbreviation tot :: "area list \<Rightarrow> nat" where "tot as \<equiv> sum_list (map asz as)"

fun is_free :: "area \<Rightarrow> bool" where
  "is_free (Free n) = True"
| "is_free _ = False"

fun is_used :: "area \<Rightarrow> bool" where
  "is_used (Used n pid g k) = True"
| "is_used _ = False"

fun fstarts :: "nat \<Rightarrow> area list \<Rightarrow> nat list" where
  "fstarts p [] = []"
| "fstarts p (a # as) = (if is_free a then [p] else []) @ fstarts (p + asz a) as"

fun used_idx :: "nat \<Rightarrow> area list \<Rightarrow> nat set" where
  "used_idx p [] = {}"
| "used_idx p (a # as) = (if is_used a then {p..<p + asz a} else {}) \<union> used_idx (p + asz a) as"

fun is_held :: "area \<Rightarrow> bool" where
  "is_held (Held n) = True"
| "is_held _ = False"

text \<open>Between two calls of the memory manager no area is held.\<close>

definition settled :: "area list \<Rightarrow> bool" where
  "settled as \<longleftrightarrow> (\<forall>a \<in> set as. \<not> is_held a)"

lemma settled_simps [simp]:
  "settled []" "settled (a # as) \<longleftrightarrow> \<not> is_held a \<and> settled as"
  "settled (as @ bs) \<longleftrightarrow> settled as \<and> settled bs"
  by (auto simp: settled_def)

text \<open>The areas in use, with their start: what a client of the heap can rely on.\<close>

fun live :: "nat \<Rightarrow> area list \<Rightarrow> (nat \<times> area) list" where
  "live p [] = []"
| "live p (a # as) = (if is_used a then [(p, a)] else []) @ live (p + asz a) as"

section \<open>The operations on areas\<close>

fun merge_all :: "nat \<Rightarrow> area list \<Rightarrow> nat \<times> area list" where
  "merge_all n (Free m # as) = merge_all (n + m) as"
| "merge_all n as = (n, as)"

fun merge_quick :: "nat \<Rightarrow> nat \<Rightarrow> area list \<Rightarrow> nat \<times> area list" where
  "merge_quick req n (Free m # as) =
     (if req \<le> n + m then (n + m, as) else merge_quick req (n + m) as)"
| "merge_quick req n as = (n, as)"

lemma merge_all_length: "length (snd (merge_all n as)) \<le> length as"
  by (induction n as rule: merge_all.induct) auto

lemma merge_quick_length: "length (snd (merge_quick req n as)) \<le> length as"
  by (induction req n as rule: merge_quick.induct) auto

definition split_off :: "nat \<Rightarrow> nat \<Rightarrow> area list" where
  "split_off req n = (if req < n then [Free (n - req)] else [])"

text \<open>First fit: the new list of areas, and the block at which the new area starts.\<close>

function alloc_areas :: "nat \<Rightarrow> u8 \<Rightarrow> nat \<Rightarrow> area list \<Rightarrow> area list \<times> nat option" where
  "alloc_areas req pid p [] = ([], None)"
| "alloc_areas req pid p (Free n # as) =
     (let n' = fst (merge_quick req n as); as' = snd (merge_quick req n as)
      in if req \<le> n' then (Used req pid pid False # split_off req n' @ as', Some p)
         else (Free n' # fst (alloc_areas req pid (p + n') as'),
               snd (alloc_areas req pid (p + n') as')))"
| "alloc_areas req pid p (Used n pid' g k # as) =
     (Used n pid' g k # fst (alloc_areas req pid (p + n) as), snd (alloc_areas req pid (p + n) as))"
| "alloc_areas req pid p (Held n # as) =
     (Held n # fst (alloc_areas req pid (p + n) as), snd (alloc_areas req pid (p + n) as))"
  by pat_completeness auto
termination
  by (relation "measure (\<lambda>(req, pid, p, as). length as)")
     (auto simp: le_imp_less_Suc merge_quick_length)

text \<open>Merge every run of free areas into one.\<close>

function defrag :: "area list \<Rightarrow> area list" where
  "defrag [] = []"
| "defrag (Free n # as) = Free (fst (merge_all n as)) # defrag (snd (merge_all n as))"
| "defrag (Used n pid g k # as) = Used n pid g k # defrag as"
| "defrag (Held n # as) = Held n # defrag as"
  by pat_completeness auto
termination
  by (relation "measure length") (auto simp: le_imp_less_Suc merge_all_length)

text \<open>The last free area that is large enough, and the allocation of its tail.\<close>

fun take_last :: "nat \<Rightarrow> u8 \<Rightarrow> nat \<Rightarrow> area list \<Rightarrow> (area list \<times> nat) option" where
  "take_last req pid p [] = None"
| "take_last req pid p (a # as) =
     (case take_last req pid (p + asz a) as of
        Some (bs, q) \<Rightarrow> Some (a # bs, q)
      | None \<Rightarrow>
          (if is_free a \<and> req \<le> asz a
           then Some ((if req < asz a then [Free (asz a - req)] else []) @ Used req pid pid False # as,
                      p + (asz a - req))
           else None))"

definition longterm_areas :: "nat \<Rightarrow> u8 \<Rightarrow> nat \<Rightarrow> area list \<Rightarrow> area list \<times> nat option" where
  "longterm_areas req pid p as =
     (case take_last req pid p (defrag as) of
        None \<Rightarrow> (defrag as, None)
      | Some (bs, q) \<Rightarrow> (bs, Some q))"

text \<open>The size of the largest run of adjacent free areas; \<open>c\<close> is the size of the run so far.\<close>

fun max_free :: "nat \<Rightarrow> area list \<Rightarrow> nat" where
  "max_free c [] = c"
| "max_free c (a # as) = (if is_free a then max_free (c + asz a) as else max c (max_free 0 as))"

text \<open>Release of all areas that satisfy a condition, and of those with an intact guard byte.\<close>

fun release :: "(area \<Rightarrow> bool) \<Rightarrow> area \<Rightarrow> area" where
  "release P (Used n pid g k) = (if P (Used n pid g k) \<and> pid = g then Free n else Used n pid g k)"
| "release P a = a"

definition remove_all_areas :: "u8 \<Rightarrow> area list \<Rightarrow> area list" where
  "remove_all_areas pid = map (release (\<lambda>a. aown a = pid))"

text \<open>One sweep of the collector: unmarked areas of the owner are freed, marks are cleared.\<close>

fun sweep :: "u8 \<Rightarrow> area \<Rightarrow> area" where
  "sweep pid (Used n own g k) =
     (if own \<noteq> pid then Used n own g k
      else if k then Used n own g False
      else if own = g then Free n else Used n own g k)"
| "sweep pid a = a"

section \<open>Facts about the operations on areas\<close>

lemma fstarts_append: "fstarts p (as @ bs) = fstarts p as @ fstarts (p + tot as) bs"
  by (induction as arbitrary: p) (auto simp: add.assoc)

lemma used_idx_append: "used_idx p (as @ bs) = used_idx p as \<union> used_idx (p + tot as) bs"
  by (induction as arbitrary: p) (auto simp: add.assoc)

lemma live_append: "live p (as @ bs) = live p as @ live (p + tot as) bs"
  by (induction as arbitrary: p) (auto simp: add.assoc)

lemma fstarts_bounds: "x \<in> set (fstarts p as) \<Longrightarrow> p \<le> x \<and> x \<le> p + tot as"
  by (induction as arbitrary: p) fastforce+

lemma fstarts_less:
  "\<forall>a \<in> set as. 0 < asz a \<Longrightarrow> x \<in> set (fstarts p as) \<Longrightarrow> p \<le> x \<and> x < p + tot as"
  by (induction as arbitrary: p) (fastforce split: if_splits)+

lemma fstarts_sorted: "\<forall>a \<in> set as. 0 < asz a \<Longrightarrow> sorted_wrt (<) (fstarts p as)"
  by (induction as arbitrary: p) (fastforce dest: fstarts_less)+

lemma used_idx_bounds: "x \<in> used_idx p as \<Longrightarrow> p \<le> x \<and> x < p + tot as"
  by (induction as arbitrary: p) (fastforce split: if_splits)+

lemma merge_all_tot: "fst (merge_all n as) + tot (snd (merge_all n as)) = n + tot as"
  by (induction n as rule: merge_all.induct) auto

lemma merge_quick_tot: "fst (merge_quick req n as) + tot (snd (merge_quick req n as)) = n + tot as"
  by (induction req n as rule: merge_quick.induct) auto

lemma merge_quick_ge: "n \<le> fst (merge_quick req n as)"
  by (induction req n as rule: merge_quick.induct) auto

lemma merge_all_ge: "n \<le> fst (merge_all n as)"
  by (induction n as rule: merge_all.induct) auto


lemma merge_all_settled: "settled as \<Longrightarrow> settled (snd (merge_all n as))"
  by (induction n as rule: merge_all.induct) auto

lemma merge_quick_settled: "settled as \<Longrightarrow> settled (snd (merge_quick req n as))"
  by (induction req n as rule: merge_quick.induct) auto

lemma merge_all_live: "live (p + fst (merge_all n as)) (snd (merge_all n as)) = live (p + n) as"
  by (induction n as rule: merge_all.induct) (auto simp: add.assoc)

lemma merge_quick_live:
  "live (p + fst (merge_quick req n as)) (snd (merge_quick req n as)) = live (p + n) as"
  by (induction req n as rule: merge_quick.induct) (auto simp: add.assoc)

lemma merge_all_used:
  "used_idx (p + fst (merge_all n as)) (snd (merge_all n as)) = used_idx (p + n) as"
  by (induction n as rule: merge_all.induct) (auto simp: add.assoc)

lemma merge_quick_used:
  "used_idx (p + fst (merge_quick req n as)) (snd (merge_quick req n as)) = used_idx (p + n) as"
  by (induction req n as rule: merge_quick.induct) (auto simp: add.assoc)

lemma defrag_settled: "settled as \<Longrightarrow> settled (defrag as)"
  by (induction as rule: defrag.induct) (auto simp: merge_all_settled)

lemma defrag_tot: "tot (defrag as) = tot as"
  by (induction as rule: defrag.induct) (auto simp: merge_all_tot)

lemma defrag_live: "live p (defrag as) = live p as"
  by (induction as arbitrary: p rule: defrag.induct) (auto simp: merge_all_live)

lemma defrag_used: "used_idx p (defrag as) = used_idx p as"
  by (induction as arbitrary: p rule: defrag.induct) (auto simp: merge_all_used)

lemma max_free_ge: "c \<le> max_free c as"
  by (induction as arbitrary: c) (auto intro: add_leD1)

lemma max_free_max: "max_free c as = max c (max_free c as)"
  using max_free_ge [of c as] by simp

lemma merge_all_max_free: "max_free n as = max (fst (merge_all n as)) (max_free 0 (snd (merge_all n as)))"
  by (induction n as rule: merge_all.induct) auto

lemma merge_quick_fits: "req \<le> fst (merge_quick req n as) \<Longrightarrow> req \<le> max_free n as"
  by (induction req n as rule: merge_quick.induct)
     (auto split: if_splits intro: order_trans [OF _ max_free_ge] simp: le_max_iff_disj)

lemma merge_quick_max_free:
  "fst (merge_quick req n as) < req \<Longrightarrow>
   max_free n as = max (fst (merge_quick req n as)) (max_free 0 (snd (merge_quick req n as)))"
  by (induction req n as rule: merge_quick.induct) (auto split: if_splits)

text \<open>The laws that a client of either allocator relies on.\<close>

lemma live_split_off [simp]: "live p (split_off req n @ as) = live (p + (n - req)) as"
  by (auto simp: split_off_def)

lemma alloc_areas_None:
  "snd (alloc_areas req pid p as) = None \<longleftrightarrow> as = [] \<or> max_free 0 as < req"
  if "0 < req"
  using that
proof (induction req pid p as rule: alloc_areas.induct)
  case (2 req pid p n as)
  then show ?case
    using merge_quick_fits [of req n as] merge_quick_max_free [of req n as]
    by (cases "req \<le> fst (merge_quick req n as)") (auto simp: Let_def not_le)
qed (auto simp: max_def)

lemma alloc_areas_live:
  "set (live p (fst (alloc_areas req pid p as))) =
     (case snd (alloc_areas req pid p as) of
        None \<Rightarrow> set (live p as) | Some q \<Rightarrow> insert (q, Used req pid pid False) (set (live p as)))"
proof (induction req pid p as rule: alloc_areas.induct)
  case (2 req pid p n as)
  define n' as' where "n' = fst (merge_quick req n as)" and "as' = snd (merge_quick req n as)"
  have l: "live (p + n') as' = live (p + n) as"
    by (simp add: n'_def as'_def merge_quick_live)
  show ?case
  proof (cases "req \<le> n'")
    case True
    then show ?thesis using l by (simp add: n'_def [symmetric] as'_def [symmetric] Let_def)
  next
    case False
    then show ?thesis
      using 2 l by (cases "snd (alloc_areas req pid (p + n') as')")
        (simp_all add: n'_def [symmetric] as'_def [symmetric] Let_def)
  qed
next
  case (3 req pid p n pid' g k as)
  then show ?case by (cases "snd (alloc_areas req pid (p + n) as)") (simp_all add: insert_commute)
next
  case (4 req pid p n as)
  then show ?case by (cases "snd (alloc_areas req pid (p + n) as)") simp_all
qed simp

lemma alloc_areas_tot: "tot (fst (alloc_areas req pid p as)) = tot as"
proof (induction req pid p as rule: alloc_areas.induct)
  case (2 req pid p n as)
  then show ?case
    using merge_quick_tot [of req n as] by (auto simp: Let_def split_off_def)
qed auto

lemma alloc_areas_settled: "settled as \<Longrightarrow> settled (fst (alloc_areas req pid p as))"
  by (induction req pid p as rule: alloc_areas.induct)
     (auto simp: Let_def split_off_def merge_quick_settled)

lemma alloc_areas_fresh:
  "snd (alloc_areas req pid p as) = Some q \<Longrightarrow>
     p \<le> q \<and> q + req \<le> p + tot as \<and> {q..<q + req} \<inter> used_idx p as = {}"
proof (induction req pid p as rule: alloc_areas.induct)
  case (2 req pid p n as)
  define n' as' where "n' = fst (merge_quick req n as)" and "as' = snd (merge_quick req n as)"
  have t: "n' + tot as' = n + tot as" and u: "used_idx (p + n') as' = used_idx (p + n) as"
    by (simp_all add: n'_def as'_def merge_quick_tot merge_quick_used)
  show ?case
  proof (cases "req \<le> n'")
    case True
    then have "q = p" using 2 by (simp add: n'_def Let_def)
    moreover have "x \<notin> used_idx (p + n) as" if "x < p + req" for x
      using used_idx_bounds [of x "p + n'" as'] that True u by auto
    ultimately show ?thesis using t True by fastforce
  next
    case False
    then have "p + n' \<le> q \<and> q + req \<le> p + n' + tot as' \<and> {q..<q + req} \<inter> used_idx (p + n') as' = {}"
      using 2 by (simp add: n'_def as'_def Let_def)
    then show ?thesis using t u by simp
  qed
next
  case (3 req pid p n pid' g k as)
  then have "p + n \<le> q \<and> q + req \<le> p + n + tot as \<and> {q..<q + req} \<inter> used_idx (p + n) as = {}"
    by simp
  then show ?case by (auto simp: disjoint_iff)
next
  case (4 req pid p n as)
  then have "p + n \<le> q \<and> q + req \<le> p + n + tot as \<and> {q..<q + req} \<inter> used_idx (p + n) as = {}"
    by simp
  then show ?case by simp
qed simp

lemma defrag_fits:
  "0 < req \<Longrightarrow> (\<exists>a \<in> set (defrag as). is_free a \<and> req \<le> asz a) \<longleftrightarrow> req \<le> max_free 0 as"
proof (induction as rule: defrag.induct)
  case (2 n as)
  then show ?case by (simp add: merge_all_max_free [of n as] le_max_iff_disj)
qed (simp_all add: le_max_iff_disj)

lemma take_last_None:
  "take_last req pid p as = None \<longleftrightarrow> \<not> (\<exists>a \<in> set as. is_free a \<and> req \<le> asz a)"
proof (induction as arbitrary: p)
  case (Cons a as)
  from Cons.IH [of "p + asz a"] show ?case
    by (cases "take_last req pid (p + asz a) as") auto
qed simp

text \<open>The place of the new area: a free area is cut, the rest of the list stays.\<close>

lemma take_last_SomeE:
  assumes "take_last req pid p as = Some (bs, q)"
  obtains as1 n as2 where "as = as1 @ Free n # as2" "req \<le> n" "q = p + tot as1 + (n - req)"
    "bs = as1 @ split_off req n @ Used req pid pid False # as2"
    "\<not> (\<exists>a \<in> set as2. is_free a \<and> req \<le> asz a)"
  using assms
proof (induction as arbitrary: p bs thesis)
  case (Cons a as)
  show ?case
  proof (cases "take_last req pid (p + asz a) as")
    case None
    with Cons.prems(2) have "is_free a" "req \<le> asz a"
      "bs = split_off req (asz a) @ Used req pid pid False # as" "q = p + (asz a - req)"
      by (auto simp: split_off_def split: if_splits)
    with None show ?thesis
      by (cases a) (auto simp: take_last_None intro: Cons.prems(1) [of "[]" "asz a" as])
  next
    case (Some r)
    with Cons.prems(2) obtain bs' where bs': "take_last req pid (p + asz a) as = Some (bs', q)" "bs = a # bs'"
      by (cases r) auto
    from Cons.IH [OF _ bs'(1)] obtain as1 n as2 where
      "as = as1 @ Free n # as2" "req \<le> n" "q = p + asz a + tot as1 + (n - req)"
      "bs' = as1 @ split_off req n @ Used req pid pid False # as2"
      "\<not> (\<exists>a \<in> set as2. is_free a \<and> req \<le> asz a)" by metis
    with bs'(2) show ?thesis by (auto intro!: Cons.prems(1) [of "a # as1" n as2])
  qed
qed simp

lemma take_last_props:
  assumes "take_last req pid p as = Some (bs, q)"
  shows "tot bs = tot as" "set (live p bs) = insert (q, Used req pid pid False) (set (live p as))"
    "settled as \<Longrightarrow> settled bs"
    "p \<le> q \<and> q + req \<le> p + tot as \<and> {q..<q + req} \<inter> used_idx p as = {}"
proof -
  obtain as1 n as2 where a: "as = as1 @ Free n # as2" "req \<le> n" "q = p + tot as1 + (n - req)"
    "bs = as1 @ split_off req n @ Used req pid pid False # as2"
    by (rule take_last_SomeE [OF assms])
  then show "tot bs = tot as" "settled as \<Longrightarrow> settled bs" by (auto simp: split_off_def)
  show "set (live p bs) = insert (q, Used req pid pid False) (set (live p as))"
    using a by (auto simp: live_append split_off_def add.assoc)
  have "x \<notin> used_idx p as" if "q \<le> x" "x < q + req" for x
    using that a used_idx_bounds [of x p as1] used_idx_bounds [of x "p + tot as1 + n" as2]
    by (auto simp: used_idx_append)
  with a show "p \<le> q \<and> q + req \<le> p + tot as \<and> {q..<q + req} \<inter> used_idx p as = {}" by auto
qed

lemma longterm_areas_None:
  "0 < req \<Longrightarrow> snd (longterm_areas req pid p as) = None \<longleftrightarrow> max_free 0 as < req"
  using defrag_fits [of req as] take_last_None [of req pid p "defrag as"]
  by (cases "take_last req pid p (defrag as)") (auto simp: longterm_areas_def)

lemma longterm_areas_live:
  "set (live p (fst (longterm_areas req pid p as))) =
     (case snd (longterm_areas req pid p as) of
        None \<Rightarrow> set (live p as) | Some q \<Rightarrow> insert (q, Used req pid pid False) (set (live p as)))"
  by (auto simp: longterm_areas_def defrag_live take_last_props(2) split: option.splits)

lemma longterm_areas_tot: "tot (fst (longterm_areas req pid p as)) = tot as"
  by (auto simp: longterm_areas_def defrag_tot take_last_props(1) split: option.splits)

lemma longterm_areas_settled: "settled as \<Longrightarrow> settled (fst (longterm_areas req pid p as))"
  by (auto simp: longterm_areas_def defrag_settled take_last_props(3) split: option.splits)

lemma longterm_areas_fresh:
  "snd (longterm_areas req pid p as) = Some q \<Longrightarrow>
     p \<le> q \<and> q + req \<le> p + tot as \<and> {q..<q + req} \<inter> used_idx p as = {}"
  by (auto simp: longterm_areas_def defrag_tot defrag_used dest!: take_last_props(4) split: option.splits)

lemma used_idx_live: "used_idx p as = (\<Union>(q, a) \<in> set (live p as). {q..<q + asz a})"
  by (induction as arbitrary: p) auto

lemma alloc_areas_used:
  "snd (alloc_areas req pid p as) = Some q \<Longrightarrow>
   used_idx p (fst (alloc_areas req pid p as)) = {q..<q + req} \<union> used_idx p as"
  unfolding used_idx_live [of p "fst (alloc_areas req pid p as)"] alloc_areas_live
  by (simp add: used_idx_live [of p as])

lemma longterm_areas_used:
  "snd (longterm_areas req pid p as) = Some q \<Longrightarrow>
   used_idx p (fst (longterm_areas req pid p as)) = {q..<q + req} \<union> used_idx p as"
  unfolding used_idx_live [of p "fst (longterm_areas req pid p as)"] longterm_areas_live
  by (simp add: used_idx_live [of p as])

end
