(* ===== verification/Malloc_Rep.thy ===== *)
theory Malloc_Rep
  imports Malloc_Spec
begin

text \<open>
  The relation \<open>rep h as\<close> between a heap and the list of its areas, which is also the
  invariant of the memory manager, and what the primitive steps of
  \<^verbatim>\<open>kernel/malloc.c\<close> do to it: unlinking and linking an area, merging, splitting,
  reserving. Every lemma has a frame part: no step writes a block of another area in use.
\<close>

section \<open>The bits of a header\<close>

lemma bit_small: "unat (w::u16) < 16384 \<Longrightarrow> bit w i \<Longrightarrow> i < 14"
proof -
  assume a: "unat w < 16384" and b: "bit w i"
  have "unat (take_bit 14 w) = unat w"
    using a by (simp add: unsigned_take_bit_eq take_bit_nat_eq_self)
  then have "take_bit 14 w = w" by (simp only: unsigned_word_eqI)
  with b show "i < 14" by (metis bit_take_bit_iff)
qed

lemma RESERVED_exp: "RESERVED = 2 ^ 15" and GC_MARK_exp: "GC_MARK = 2 ^ 14"
  by (simp_all add: RESERVED_def GC_MARK_def)

lemma bit_RESERVED: "bit RESERVED i \<longleftrightarrow> i = 15" and bit_GC_MARK: "bit GC_MARK i \<longleftrightarrow> i = 14"
  unfolding RESERVED_exp GC_MARK_exp bit_exp_iff by (auto simp: possible_bit_word)

lemma and_RESERVED: "(w AND RESERVED \<noteq> 0) = bit w 15" and and_GC_MARK: "(w AND GC_MARK \<noteq> 0) = bit w 14"
  unfolding RESERVED_exp GC_MARK_exp and_exp_eq_0_iff_not_bit by auto

lemmas hdr_bits = MEM_MASK_def bit_and_iff bit_not_iff bit_or_iff bit_RESERVED bit_GC_MARK bit_take_bit_iff

lemma mask_free: "unat w < 16384 \<Longrightarrow> w AND NOT MEM_MASK = w"
  by (rule bit_word_eqI) (auto simp: hdr_bits dest: bit_small)
lemma mask_or_RESERVED: "unat w < 16384 \<Longrightarrow> (w OR RESERVED) AND NOT MEM_MASK = w"
  by (rule bit_word_eqI) (auto simp: hdr_bits dest: bit_small)
lemma unat_mask: "unat (w AND NOT MEM_MASK) < 16384"
proof -
  have "w AND NOT MEM_MASK = take_bit 14 w"
   by (rule bit_word_eqI) (auto simp: hdr_bits)
  then show ?thesis by (simp add: unsigned_take_bit_eq take_bit_nat_def)
qed
lemma mask_or_GC: "(w OR GC_MARK) AND NOT MEM_MASK = w AND NOT MEM_MASK"
  by (rule bit_word_eqI) (auto simp: hdr_bits)
lemma mask_andnot_GC: "(w AND NOT GC_MARK) AND NOT MEM_MASK = w AND NOT MEM_MASK"
  by (rule bit_word_eqI) (auto simp: hdr_bits)
lemma andnot_RESERVED: "\<not> bit w 14 \<Longrightarrow> w AND NOT RESERVED = w AND NOT MEM_MASK"
  by (rule bit_word_eqI) (auto simp: hdr_bits)
section \<open>Reads after writes\<close>

lemma upd_fields [mem_simps, simp]:
  "length (mem (upd i f h)) = length (mem h)" "malloc_heap (upd i f h) = malloc_heap h"
  "mSentinel (upd i f h) = mSentinel h"
  by (simp_all add: upd_def)

lemma mem_upd [mem_simps]:
  "i < length (mem h) \<Longrightarrow> mem (upd i f h) ! j = (if j = i then f (mem h ! i) else mem h ! j)"
  by (simp add: upd_def)

lemma mem_upd_other [mem_simps]: "j \<noteq> i \<Longrightarrow> mem (upd i f h) ! j = mem h ! j"
  by (simp add: upd_def)

lemmas setters =
  set_blocks_def set_owner_def set_next_def set_prev_def set_guard_def

lemma setter_fields [simp]:
  "length (mem (set_blocks i v h)) = length (mem h)" "length (mem (set_owner i w h)) = length (mem h)"
  "length (mem (set_next i j h)) = length (mem h)" "length (mem (set_prev i j h)) = length (mem h)"
  "length (mem (set_guard i w h)) = length (mem h)"
  "malloc_heap (set_blocks i v h) = malloc_heap h" "malloc_heap (set_owner i w h) = malloc_heap h"
  "malloc_heap (set_next i j h) = malloc_heap h" "malloc_heap (set_prev i j h) = malloc_heap h"
  "malloc_heap (set_guard i w h) = malloc_heap h"
  "mSentinel (set_blocks i v h) = mSentinel h" "mSentinel (set_owner i w h) = mSentinel h"
  "mSentinel (set_next i j h) = mSentinel h" "mSentinel (set_prev i j h) = mSentinel h"
  "mSentinel (set_guard i w h) = mSentinel h"
  by (simp_all add: setters)

text \<open>Link writes leave headers and guard bytes alone, header writes leave links alone.\<close>

lemma upd_field_cong:
  assumes "\<And>b. F (f b) = F b"
  shows "F (mem (upd i f h) ! j) = F (mem h ! j)"
  using assms by (cases "i < length (mem h)") (auto simp: upd_def nth_list_update_if list_update_beyond)

lemma link_writes [simp]:
  "blocks (mem (set_next i k h) ! j) = blocks (mem h ! j)"
  "owner (mem (set_next i k h) ! j) = owner (mem h ! j)"
  "last_byte (mem (set_next i k h) ! j) = last_byte (mem h ! j)"
  "blocks (mem (set_prev i k h) ! j) = blocks (mem h ! j)"
  "owner (mem (set_prev i k h) ! j) = owner (mem h ! j)"
  "last_byte (mem (set_prev i k h) ! j) = last_byte (mem h ! j)"
  by (simp_all add: setters upd_field_cong)

lemma header_writes [simp]:
  "nextp (set_blocks i v h) = nextp h" "prevp (set_blocks i v h) = prevp h"
  "nextp (set_owner i w h) = nextp h" "prevp (set_owner i w h) = prevp h"
  "nextp (set_guard i w h) = nextp h" "prevp (set_guard i w h) = prevp h"
  by (simp_all add: setters nextp_def prevp_def ptr_blk_def upd_field_cong fun_eq_iff)

text \<open>The blocks of the array are the nodes of the free list.\<close>

definition is_node :: "heap \<Rightarrow> nat \<Rightarrow> bool" where
  "is_node h i \<longleftrightarrow> i < length (mem h) \<and> blk_addr h i < 65536"

lemma unat_of_nat16: "x < 65536 \<Longrightarrow> unat (of_nat x :: u16) = x"
  by (simp add: unat_of_nat)

lemma ptr_blk_addr:
  assumes "blk_addr h v < 65536"
  shows "ptr_blk h (of_nat (blk_addr h v)) = v"
  unfolding ptr_blk_def unat_of_nat16 [OF assms] by (simp add: blk_addr_def BLOCK_SIZE_def)

lemma ptr_blk_upd [simp]: "ptr_blk (upd i f h) = ptr_blk h"
  by (simp add: ptr_blk_def fun_eq_iff)

lemma blk_addr_upd [simp]: "blk_addr (upd i f h) = blk_addr h"
  by (simp add: blk_addr_def fun_eq_iff)

interpretation fl: link_store nextp prevp set_next set_prev is_node
proof
  fix h a v
  assume "is_node h a" "is_node h v"
  then show "nextp (set_next a v h) = (nextp h)(a := v)"
    and "prevp (set_prev a v h) = (prevp h)(a := v)"
    by (auto simp: fun_eq_iff nextp_def prevp_def setters is_node_def mem_upd ptr_blk_addr)
next
  fix h a v
  show "prevp (set_next a v h) = prevp h" and "nextp (set_prev a v h) = nextp h"
    by (simp_all add: fun_eq_iff nextp_def prevp_def setters upd_field_cong)
  show "is_node (set_next a v h) = is_node h" and "is_node (set_prev a v h) = is_node h"
    by (simp_all add: is_node_def setters fun_eq_iff)
qed

section \<open>The representation relation\<close>

fun area_at :: "block list \<Rightarrow> nat \<Rightarrow> area \<Rightarrow> bool" where
  "area_at m p (Free n) \<longleftrightarrow> 0 < n \<and> unat (blocks (m ! p)) = n"
| "area_at m p (Held n) \<longleftrightarrow> 0 < n \<and> unat (blocks (m ! p)) = n"
| "area_at m p (Used n pid g k) \<longleftrightarrow>
     0 < n \<and> unat (blocks (m ! p) AND NOT MEM_MASK) = n \<and> bit (blocks (m ! p)) 15 \<and>
     bit (blocks (m ! p)) 14 = k \<and> owner (m ! p) = pid \<and> last_byte (m ! (p + n - 1)) = g"

fun layout :: "block list \<Rightarrow> nat \<Rightarrow> area list \<Rightarrow> bool" where
  "layout m p [] = True"
| "layout m p (a # as) = (area_at m p a \<and> layout m (p + asz a) as)"

definition rep :: "heap \<Rightarrow> area list \<Rightarrow> bool" where
  "rep h as \<longleftrightarrow>
     length (mem h) = Suc (tot as) \<and> mSentinel h = tot as \<and>
     malloc_heap h + BLOCK_SIZE * Suc (tot as) \<le> 65536 \<and>
     layout (mem h) 0 as \<and> blocks (mem h ! tot as) = RESERVED OR 1 \<and>
     ring (nextp h) (prevp h) (tot as) (fstarts 0 as)"

definition frame :: "nat set \<Rightarrow> heap \<Rightarrow> heap \<Rightarrow> bool" where
  "frame U h h' \<longleftrightarrow> (\<forall>i \<in> U. mem h' ! i = mem h ! i) \<and> malloc_heap h' = malloc_heap h"

lemma frame_refl [simp]: "frame U h h"
  by (simp add: frame_def)

lemma frame_trans: "frame U h h1 \<Longrightarrow> frame U h1 h2 \<Longrightarrow> frame U h h2"
  by (simp add: frame_def)

lemma frame_mono: "frame V h h' \<Longrightarrow> U \<subseteq> V \<Longrightarrow> frame U h h'"
  by (auto simp: frame_def)

lemma frame_upd: "i \<notin> U \<Longrightarrow> frame U h (upd i f h)"
  by (auto simp: frame_def upd_def) (metis nth_list_update_neq)

lemma area_at_pos: "area_at m p a \<Longrightarrow> 0 < asz a"
  by (cases a) auto

lemma area_at_cong:
  assumes "\<And>i. p \<le> i \<Longrightarrow> i < p + asz a \<Longrightarrow>
    blocks (m' ! i) = blocks (m ! i) \<and> owner (m' ! i) = owner (m ! i) \<and>
    last_byte (m' ! i) = last_byte (m ! i)"
  shows "area_at m' p a = area_at m p a"
proof (cases "0 < asz a")
  case True
  with assms [of p] assms [of "p + asz a - 1"] show ?thesis by (cases a) auto
next
  case False
  then show ?thesis by (cases a) auto
qed

lemma layout_cong:
  assumes "\<And>i. p \<le> i \<Longrightarrow> i < p + tot as \<Longrightarrow>
    blocks (m' ! i) = blocks (m ! i) \<and> owner (m' ! i) = owner (m ! i) \<and>
    last_byte (m' ! i) = last_byte (m ! i)"
  shows "layout m' p as = layout m p as"
  using assms
proof (induction as arbitrary: p)
  case (Cons a as)
  have "layout m' (p + asz a) as = layout m (p + asz a) as"
    by (rule Cons.IH) (use Cons.prems in auto)
  moreover have "area_at m' p a = area_at m p a"
    by (rule area_at_cong) (use Cons.prems in auto)
  ultimately show ?case by simp
qed simp

lemma layout_append: "layout m p (as @ bs) = (layout m p as \<and> layout m (p + tot as) bs)"
  by (induction as arbitrary: p) (auto simp: add.assoc)

lemma layout_pos: "layout m p as \<Longrightarrow> a \<in> set as \<Longrightarrow> 0 < asz a"
  by (induction as arbitrary: p) (auto dest: area_at_pos)

lemma rep_pos: "rep h as \<Longrightarrow> \<forall>a \<in> set as. 0 < asz a"
  by (auto simp: rep_def dest: layout_pos)

lemma rep_small: "rep h as \<Longrightarrow> tot as < 8192"
  by (auto simp: rep_def BLOCK_SIZE_def)

lemma rep_node: "rep h as \<Longrightarrow> i \<le> tot as \<Longrightarrow> is_node h i"
  by (auto simp: rep_def is_node_def blk_addr_def BLOCK_SIZE_def)

lemma fstarts_not_used:
  "\<forall>a \<in> set as. 0 < asz a \<Longrightarrow> x \<in> set (fstarts p as) \<Longrightarrow> x \<notin> used_idx p as"
proof (induction as arbitrary: p)
  case (Cons a as)
  have u: "y \<in> used_idx (p + asz a) as \<Longrightarrow> p + asz a \<le> y" for y
    using used_idx_bounds by blast
  have f: "y \<in> set (fstarts (p + asz a) as) \<Longrightarrow> p + asz a \<le> y" for y
    using fstarts_bounds by blast
  from Cons.prems(2) consider "is_free a" "x = p" | "x \<in> set (fstarts (p + asz a) as)"
    by (auto split: if_splits)
  then show ?case
  proof cases
    case 1
    with Cons.prems(1) u [of p] show ?thesis by (cases a) auto
  next
    case 2
    with Cons.IH [of "p + asz a"] Cons.prems(1) f [of x] show ?thesis by auto
  qed
qed simp

section \<open>Writes that only touch links\<close>

lemma rep_frame_start:
  assumes "rep h as" "x \<in> set (tot as # fstarts 0 as)"
  shows "x \<notin> used_idx 0 as" "x \<le> tot as"
  using assms fstarts_not_used [OF rep_pos] fstarts_bounds [of x 0 as] used_idx_bounds [of x 0 as]
  by auto

lemma Unlink_links [simp]:
  "blocks (mem (Unlink b h) ! j) = blocks (mem h ! j)"
  "owner (mem (Unlink b h) ! j) = owner (mem h ! j)"
  "last_byte (mem (Unlink b h) ! j) = last_byte (mem h ! j)"
  "length (mem (Unlink b h)) = length (mem h)" "malloc_heap (Unlink b h) = malloc_heap h"
  "mSentinel (Unlink b h) = mSentinel h"
  by (simp_all add: Unlink_def Let_def)

lemma area_at_Held [simp]: "area_at m p (Held n) = area_at m p (Free n)"
  by simp

text \<open>The blocks that linking and unlinking write to: those on the list, and the sentinel.\<close>

lemma Unlink_writes:
  assumes r: "rep h (as1 @ Free n # as2)"
  shows "frame (- set (tot (as1 @ Free n # as2) # fstarts 0 (as1 @ Free n # as2))) h (Unlink (tot as1) h)"
proof -
  let ?as = "as1 @ Free n # as2" and ?b = "tot as1"
  let ?xs = "fstarts 0 as1" and ?ys = "fstarts (tot as1 + n) as2"
  have fs: "fstarts 0 ?as = ?xs @ ?b # ?ys" by (simp add: fstarts_append)
  from r have ring: "ring (nextp h) (prevp h) (tot ?as) (?xs @ ?b # ?ys)"
    unfolding rep_def fs by blast
  have "prevp h ?b = last (tot ?as # ?xs)" "nextp h ?b = hd (?ys @ [tot ?as])"
    using ring by (auto dest: ring_prev ring_next)
  then have pn: "prevp h ?b \<in> set (tot ?as # fstarts 0 ?as)" "nextp h ?b \<in> set (tot ?as # fstarts 0 ?as)"
    unfolding fs by (auto simp: hd_append split: if_splits)
  moreover have "nextp (set_next (prevp h ?b) (nextp h ?b) h) ?b = nextp h ?b"
    using rep_frame_start [OF r pn(1)] rep_frame_start [OF r pn(2)] rep_node [OF r]
    by (simp add: fl.nx_set_nx)
  ultimately show ?thesis
    unfolding Unlink_def Let_def set_next_def set_prev_def
    by (intro frame_trans [OF frame_upd frame_upd]) (auto simp: set_next_def)
qed

lemma rep_Unlink:
  assumes r: "rep h (as1 @ Free n # as2)"
  shows "rep (Unlink (tot as1) h) (as1 @ Held n # as2)"
    and "frame (used_idx 0 (as1 @ Held n # as2)) h (Unlink (tot as1) h)"
proof -
  let ?as = "as1 @ Free n # as2" and ?b = "tot as1"
  let ?xs = "fstarts 0 as1" and ?ys = "fstarts (tot as1 + n) as2"
  have fs: "fstarts 0 ?as = ?xs @ ?b # ?ys" by (simp add: fstarts_append)
  from r have ring: "ring (nextp h) (prevp h) (tot ?as) (?xs @ ?b # ?ys)"
    unfolding rep_def fs by blast
  have nodes: "\<forall>i \<in> set (tot ?as # ?xs @ ?b # ?ys). is_node h i"
    using rep_node [OF r] rep_frame_start(2) [OF r] fs by auto
  have "ring (nextp (Unlink ?b h)) (prevp (Unlink ?b h)) (tot ?as) (?xs @ ?ys)"
    unfolding Unlink_def Let_def by (rule fl.ring_unlink [OF ring nodes refl refl])
  moreover have "layout (mem (Unlink ?b h)) 0 (as1 @ Held n # as2)"
    using r by (auto simp: rep_def layout_append layout_cong [of _ _ "mem (Unlink ?b h)" "mem h"])
  ultimately show "rep (Unlink ?b h) (as1 @ Held n # as2)"
    using r by (simp add: rep_def fstarts_append)
  show "frame (used_idx 0 (as1 @ Held n # as2)) h (Unlink ?b h)"
    by (rule frame_mono [OF Unlink_writes [OF r]]) (use rep_frame_start(1) [OF r] in \<open>auto simp: used_idx_append\<close>)
qed

lemma InsertAfter_find_ring:
  assumes "ring (nextp h) (prevp h) (mSentinel h) (zs @ xs @ ys)"
    and "\<forall>x \<in> set xs. x < b" and "\<forall>y \<in> set ys. b < y"
  shows "InsertAfter_find h b (hd (xs @ ys @ [mSentinel h])) = Some (hd (ys @ [mSentinel h]))"
  using assms
proof (induction xs arbitrary: zs)
  case Nil
  then show ?case by (cases ys) (auto simp: InsertAfter_find.simps)
next
  case (Cons x xs)
  from Cons.prems(1) have nx: "nextp h x = hd (xs @ ys @ [mSentinel h])"
    using ring_next [of "nextp h" "prevp h" "mSentinel h" zs x "xs @ ys"] by simp
  have "x \<noteq> mSentinel h" using ring_distinct [OF Cons.prems(1)] by auto
  moreover have "InsertAfter_find h b (hd (xs @ ys @ [mSentinel h])) = Some (hd (ys @ [mSentinel h]))"
    by (rule Cons.IH [of "zs @ [x]"]) (use Cons.prems in auto)
  ultimately show ?case using Cons.prems nx by (subst InsertAfter_find.simps) auto
qed

lemma rep_InsertAfter:
  assumes r: "rep h (as1 @ Held n # as2)"
  obtains h' where "InsertAfter (tot as1) h = Some h'" "rep h' (as1 @ Free n # as2)"
    "frame (used_idx 0 (as1 @ Held n # as2)) h h'"
    "\<And>i. blocks (mem h' ! i) = blocks (mem h ! i)" "\<And>i. owner (mem h' ! i) = owner (mem h ! i)"
    "\<And>i. last_byte (mem h' ! i) = last_byte (mem h ! i)"
    "frame (- set (tot (as1 @ Free n # as2) # fstarts 0 (as1 @ Free n # as2))) h h'"
proof -
  let ?as = "as1 @ Held n # as2" and ?b = "tot as1"
  let ?s = "tot ?as" and ?xs = "fstarts 0 as1" and ?ys = "fstarts (tot as1 + n) as2"
  let ?p = "hd (?ys @ [?s])"
  let ?h1 = "set_next (prevp h ?p) ?b h"
  let ?h2 = "set_prev ?b (prevp ?h1 ?p) ?h1"
  let ?h3 = "set_prev ?p ?b ?h2"
  let ?h4 = "set_next ?b ?p ?h3"
  have fs: "fstarts 0 ?as = ?xs @ ?ys" by (simp add: fstarts_append)
  have pos: "\<forall>a \<in> set as1. 0 < asz a" "0 < n" "\<forall>a \<in> set as2. 0 < asz a"
    using rep_pos [OF r] by auto
  from r have ring: "ring (nextp h) (prevp h) ?s (?xs @ ?ys)" and s: "mSentinel h = ?s"
    unfolding rep_def fs by blast+
  have lt: "\<forall>x \<in> set ?xs. x < ?b" "\<forall>y \<in> set ?ys. ?b < y"
    using fstarts_less [OF pos(1)] fstarts_less [OF pos(3)] pos(2) by fastforce+
  have "nextp h (mSentinel h) = hd (?xs @ ?ys @ [?s])"
    using ring_next_head [OF ring] s by simp
  then have find: "InsertAfter_find h ?b (nextp h (mSentinel h)) = Some ?p"
    using InsertAfter_find_ring [of h "[]" ?xs ?ys ?b] ring lt s by simp
  have ins: "InsertAfter ?b h = Some ?h4"
    by (simp add: InsertAfter_def find Let_def)
  have bs: "?b \<notin> set (?s # ?xs @ ?ys)" using lt pos(2) by auto
  have bn: "is_node h ?b" by (rule rep_node [OF r]) simp
  have nodes: "\<forall>i \<in> set (?b # ?s # ?xs @ ?ys). is_node h i"
    using rep_node [OF r] rep_frame_start(2) [OF r] fs bn by auto
  have ring4: "ring (nextp ?h4) (prevp ?h4) ?s (?xs @ ?b # ?ys)"
    by (rule fl.ring_link_pred_first [OF ring bs refl nodes refl refl refl refl])
  have "layout (mem ?h4) 0 ?as = layout (mem h) 0 ?as" by (rule layout_cong) simp
  then have lay: "layout (mem ?h4) 0 (as1 @ Free n # as2)"
    using r by (simp add: rep_def layout_append)
  have rep4: "rep ?h4 (as1 @ Free n # as2)"
    using r ring4 lay by (simp add: rep_def fstarts_append)
  have pin: "?p \<in> set (?s # fstarts 0 ?as)" unfolding fs by (cases ?ys) auto
  have "prevp h ?p = last (?s # ?xs)"
    using ring by (cases ?ys) (auto dest: ring_prev ring_prev_head)
  then have ppin: "prevp h ?p \<in> set (?s # fstarts 0 ?as)" unfolding fs by auto
  have bu: "?b \<notin> used_idx 0 ?as" using used_idx_bounds pos by (fastforce simp: used_idx_append)
  have fs': "set (tot (as1 @ Free n # as2) # fstarts 0 (as1 @ Free n # as2)) = insert ?b (set (?s # fstarts 0 ?as))"
    by (auto simp: fstarts_append)
  have writes: "frame (- insert ?b (set (?s # fstarts 0 ?as))) h ?h4"
    unfolding set_next_def set_prev_def using pin ppin
    by (intro frame_trans [OF frame_trans [OF frame_trans [OF frame_upd frame_upd] frame_upd] frame_upd]) auto
  moreover have "frame (used_idx 0 ?as) h ?h4"
    by (rule frame_mono [OF writes]) (use rep_frame_start(1) [OF r] bu in auto)
  ultimately show thesis using that [OF ins rep4] unfolding fs' by simp
qed

section \<open>Writes that only touch headers\<close>

text \<open>
  One lemma for all of them: a write inside a run of areas that keeps the start of the free
  ones turns this run into the run that the new headers describe.
\<close>

lemma rep_replace:
  assumes r: "rep h (as1 @ old @ as2)"
    and eqs: "length (mem h') = length (mem h)" "malloc_heap h' = malloc_heap h"
      "mSentinel h' = mSentinel h" "nextp h' = nextp h" "prevp h' = prevp h"
    and out: "\<And>i. i < tot as1 \<or> tot as1 + tot old \<le> i \<Longrightarrow> mem h' ! i = mem h ! i"
    and new: "tot new = tot old" "layout (mem h') (tot as1) new"
      "fstarts (tot as1) new = fstarts (tot as1) old"
  shows "rep h' (as1 @ new @ as2)"
proof -
  have "layout (mem h') 0 as1 = layout (mem h) 0 as1"
    by (rule layout_cong) (simp add: out)
  moreover have "layout (mem h') (tot as1 + tot old) as2 = layout (mem h) (tot as1 + tot old) as2"
    by (rule layout_cong) (simp add: out)
  ultimately have "layout (mem h') 0 (as1 @ new @ as2)"
    using r new by (simp add: rep_def layout_append)
  moreover have "mem h' ! (tot as1 + (tot old + tot as2)) = mem h ! (tot as1 + (tot old + tot as2))"
    by (rule out) simp
  ultimately show ?thesis
    using r eqs new by (simp add: rep_def fstarts_append)
qed

lemma rep_len: "rep h as \<Longrightarrow> length (mem h) = Suc (tot as)"
  by (simp add: rep_def)

lemma rep_area: "rep h (as1 @ a # as2) \<Longrightarrow> area_at (mem h) (tot as1) a"
  by (simp add: rep_def layout_append)

definition other_used :: "area list \<Rightarrow> nat \<Rightarrow> area list \<Rightarrow> nat set" where
  "other_used as1 n as2 = used_idx 0 as1 \<union> used_idx (tot as1 + n) as2"

lemma frame_inside:
  assumes "tot as1 \<le> i" "i < tot as1 + n"
  shows "frame (other_used as1 n as2) h (upd i f h)"
  using assms used_idx_bounds [of i 0 as1] used_idx_bounds [of i "tot as1 + n" as2]
  by (intro frame_upd) (auto simp: other_used_def)

lemma other_used_Free [simp]: "used_idx 0 (as1 @ Free n # as2) = other_used as1 n as2"
  and other_used_Held [simp]: "used_idx 0 (as1 @ Held n # as2) = other_used as1 n as2"
  by (simp_all add: other_used_def used_idx_append)

definition vacant :: "bool \<Rightarrow> nat \<Rightarrow> area" where
  "vacant f n = (if f then Free n else Held n)"

lemma vacant_simps [simp]:
  "asz (vacant f n) = n" "is_free (vacant f n) = f" "is_used (vacant f n) = False"
  "is_held (vacant f n) = (\<not> f)" "vacant True n = Free n" "vacant False n = Held n"
  "area_at m p (vacant f n) \<longleftrightarrow> 0 < n \<and> unat (blocks (m ! p)) = n"
  "used_idx 0 (as1 @ vacant f n # as2) = other_used as1 n as2"
  by (auto simp: vacant_def)

lemma mem_set_blocks:
  "i < length (mem h) \<Longrightarrow> mem (set_blocks i v h) ! j = (if j = i then (mem h ! i)\<lparr>blocks := v\<rparr> else mem h ! j)"
  by (simp add: set_blocks_def mem_upd)

lemma mem_set_owner:
  "i < length (mem h) \<Longrightarrow> mem (set_owner i v h) ! j = (if j = i then (mem h ! i)\<lparr>owner := v\<rparr> else mem h ! j)"
  by (simp add: set_owner_def mem_upd)

lemma rep_join:
  assumes r: "rep h (as1 @ vacant f n # Held m # as2)" and b: "b = tot as1"
    and h': "h' = set_blocks b (blocks (blk h b) + blocks (blk h (b + n))) h"
  shows "rep h' (as1 @ vacant f (n + m) # as2)" "frame (other_used as1 (n + m) as2) h h'"
    and "unat (blocks (blk h' b)) = n + m"
proof -
  have len: "b < length (mem h)" using rep_len [OF r] b by simp
  have a1: "0 < n" "unat (blocks (blk h b)) = n" using rep_area [OF r] b by (auto split: if_splits)
  have a2: "0 < m" "unat (blocks (blk h (b + n))) = m"
    using rep_area [of h "as1 @ [vacant f n]" "Held m" as2] r b by auto
  have "n + m < 8192" using rep_small [OF r] by (simp split: if_splits)
  then have "unat (blocks (blk h b) + blocks (blk h (b + n))) = n + m"
    using a1 a2 by (subst unat_plus_no_wrap) auto
  then show un: "unat (blocks (blk h' b)) = n + m"
    using len by (simp add: h' mem_set_blocks)
  have "rep h' (as1 @ [vacant f (n + m)] @ as2)"
  proof (rule rep_replace [where old = "[vacant f n, Held m]" and h = h])
    show "rep h (as1 @ [vacant f n, Held m] @ as2)" using r by simp
    show "layout (mem h') (tot as1) [vacant f (n + m)]" using un a1 b by simp
    show "mem h' ! i = blk h i" if "i < tot as1 \<or> tot as1 + tot [vacant f n, Held m] \<le> i" for i
      using that len a1 b by (auto simp: h' mem_set_blocks split: if_splits)
  qed (use b in \<open>auto simp: h' split: if_splits\<close>)
  then show "rep h' (as1 @ vacant f (n + m) # as2)" by simp
  show "frame (other_used as1 (n + m) as2) h h'"
    unfolding h' set_blocks_def using a1 b by (intro frame_inside) auto
qed

lemma rep_cut:
  assumes r: "rep h (as1 @ vacant f n # as2)" and q: "0 < unat q" "unat q < n" and b: "b = tot as1"
    and h1: "h1 = set_blocks (b + unat q) (blocks (blk h b) - q) h"
    and h2: "h2 = set_blocks b q h1"
    and h3: "h3 = set_blocks (b + unat q) (blocks (blk h2 (b + unat q)) AND NOT MEM_MASK) h2"
  shows "rep h3 (as1 @ vacant f (unat q) # Held (n - unat q) # as2)"
    "frame (other_used as1 n as2) h h3"
proof -
  have len: "b < length (mem h)" "b + unat q < length (mem h)"
    using rep_len [OF r] b q by (auto split: if_splits)
  have a1: "unat (blocks (blk h b)) = n" using rep_area [OF r] b by (auto split: if_splits)
  have small: "n < 8192" using rep_small [OF r] by (simp split: if_splits)
  have d: "unat (blocks (blk h b) - q) = n - unat q"
    using a1 q by (subst unat_minus_no_wrap) auto
  then have m: "(blocks (blk h b) - q) AND NOT MEM_MASK = blocks (blk h b) - q"
    using small by (intro mask_free) auto
  have at: "unat (blocks (blk h3 b)) = unat q" "unat (blocks (blk h3 (b + unat q))) = n - unat q"
    using len q d m by (simp_all add: h1 h2 h3 mem_set_blocks)
  have "rep h3 (as1 @ [vacant f (unat q), Held (n - unat q)] @ as2)"
  proof (rule rep_replace [where old = "[vacant f n]" and h = h])
    show "rep h (as1 @ [vacant f n] @ as2)" using r by simp
    show "layout (mem h3) (tot as1) [vacant f (unat q), Held (n - unat q)]"
      using at q b by simp
    show "mem h3 ! i = blk h i" if "i < tot as1 \<or> tot as1 + tot [vacant f n] \<le> i" for i
      using that len q b by (auto simp: h1 h2 h3 mem_set_blocks split: if_splits)
  qed (use b q in \<open>auto simp: h1 h2 h3 split: if_splits\<close>)
  then show "rep h3 (as1 @ vacant f (unat q) # Held (n - unat q) # as2)" by simp
  show "frame (other_used as1 n as2) h h3"
    unfolding h1 h2 h3 set_blocks_def using q b
    by (intro frame_trans [OF frame_trans [OF frame_inside frame_inside] frame_inside]) auto
qed

text \<open>Writes to the header and the guard byte of one area.\<close>

lemma rep_header:
  assumes r: "rep h (as1 @ a # as2)" and nf: "\<not> is_free a" "\<not> is_free a'" and sz: "asz a' = asz a"
    and eqs: "length (mem h') = length (mem h)" "malloc_heap h' = malloc_heap h"
      "mSentinel h' = mSentinel h" "nextp h' = nextp h" "prevp h' = prevp h"
    and out: "\<And>i. i < tot as1 \<or> tot as1 + asz a \<le> i \<Longrightarrow> mem h' ! i = mem h ! i"
    and at: "area_at (mem h') (tot as1) a'"
  shows "rep h' (as1 @ a' # as2)" "frame (other_used as1 (asz a) as2) h h'"
proof -
  have "rep h' (as1 @ [a'] @ as2)"
    by (rule rep_replace [where old = "[a]" and h = h]) (use assms in auto)
  then show "rep h' (as1 @ a' # as2)" by simp
  have "i < tot as1 \<or> tot as1 + asz a \<le> i" if "i \<in> other_used as1 (asz a) as2" for i
    using that used_idx_bounds [of i 0 as1] used_idx_bounds [of i "tot as1 + asz a" as2]
    by (auto simp: other_used_def)
  with out eqs show "frame (other_used as1 (asz a) as2) h h'" by (auto simp: frame_def)
qed

lemma mem_set_guard:
  "i + area_blocks h i - 1 < length (mem h) \<Longrightarrow>
   mem (set_guard i v h) ! j =
     (if j = i + area_blocks h i - 1 then (mem h ! j)\<lparr>last_byte := v\<rparr> else mem h ! j)"
  by (simp add: set_guard_def mem_upd)

lemma reserve_fields [simp]:
  "length (mem (reserve b pid h)) = length (mem h)" "malloc_heap (reserve b pid h) = malloc_heap h"
  "mSentinel (reserve b pid h) = mSentinel h" "nextp (reserve b pid h) = nextp h"
  "prevp (reserve b pid h) = prevp h"
  by (simp_all add: reserve_def Let_def)

lemma rep_reserve:
  assumes r: "rep h (as1 @ Held n # as2)" and b: "b = tot as1"
  shows "rep (reserve b pid h) (as1 @ Used n pid pid False # as2)"
    "frame (other_used as1 n as2) h (reserve b pid h)"
proof -
  let ?w = "blocks (blk h b) OR RESERVED"
  let ?h2 = "set_owner b pid (set_blocks b ?w h)"
  have len: "b < length (mem h)" "b + n - 1 < length (mem h)" using rep_len [OF r] b by auto
  have a: "0 < n" "unat (blocks (blk h b)) = n" using rep_area [OF r] b by auto
  have small: "n < 16384" using rep_small [OF r] by simp
  then have w: "?w AND NOT MEM_MASK = blocks (blk h b)" "bit ?w 15" "\<not> bit ?w 14"
    using a bit_small [of "blocks (blk h b)" 14] by (auto simp: mask_or_RESERVED bit_or_iff bit_RESERVED)
  have m2: "mem ?h2 ! j = (if j = b then (blk h b)\<lparr>blocks := ?w, owner := pid\<rparr> else blk h j)" for j
    using len by (simp add: mem_set_owner mem_set_blocks)
  have ab: "area_blocks ?h2 b = n" using a w by (simp add: area_blocks_def m2)
  have m: "mem (reserve b pid h) ! j =
      (if j = b + n - 1 then (mem ?h2 ! j)\<lparr>last_byte := pid\<rparr> else mem ?h2 ! j)" for j
    unfolding reserve_def Let_def using len ab by (subst mem_set_guard) auto
  have at: "area_at (mem (reserve b pid h)) (tot as1) (Used n pid pid False)"
    unfolding b [symmetric] using a w by (auto simp: m m2)
  have out: "mem (reserve b pid h) ! i = mem h ! i" if "i < tot as1 \<or> tot as1 + n \<le> i" for i
    using that a unfolding b [symmetric] by (auto simp: m m2)
  show "rep (reserve b pid h) (as1 @ Used n pid pid False # as2)"
    by (rule rep_header(1) [OF r]) (use at out in auto)
  show "frame (other_used as1 n as2) h (reserve b pid h)"
    using rep_header(2) [OF r, of "Used n pid pid False" "reserve b pid h"] at out by auto
qed

lemma rep_unreserve:
  assumes r: "rep h (as1 @ Used n pid g k # as2)" and b: "b = tot as1"
    and h': "h' = set_owner b x (set_blocks b (blocks (blk h b) AND NOT MEM_MASK) h)"
  shows "rep h' (as1 @ Held n # as2)" "frame (other_used as1 n as2) h h'"
proof -
  have len: "b < length (mem h)" using rep_len [OF r] b by auto
  have m: "mem h' ! j = (if j = b then (blk h b)\<lparr>blocks := blocks (blk h b) AND NOT MEM_MASK, owner := x\<rparr>
      else blk h j)" for j
    using len by (simp add: h' mem_set_owner mem_set_blocks)
  have at: "area_at (mem h') (tot as1) (Held n)" using rep_area [OF r] b by (simp add: m)
  have out: "mem h' ! i = mem h ! i" if "i < tot as1 \<or> tot as1 + n \<le> i" for i
    using that rep_area [OF r] b by (auto simp: m)
  show "rep h' (as1 @ Held n # as2)"
    by (rule rep_header(1) [OF r]) (use at out in \<open>auto simp: h'\<close>)
  show "frame (other_used as1 n as2) h h'"
    using rep_header(2) [OF r, of "Held n" h'] at out by (auto simp: h')
qed

text \<open>Any write to the header word that keeps the size, and the collection mark in particular.\<close>

lemma rep_rehead:
  assumes r: "rep h (as1 @ Used n pid g k # as2)" and b: "b = tot as1"
    and w: "unat (w AND NOT MEM_MASK) = n" "bit w 15" "bit w 14 = k'"
  shows "rep (set_blocks b w h) (as1 @ Used n pid g k' # as2)"
    "frame (other_used as1 n as2) h (set_blocks b w h)"
proof -
  have len: "b < length (mem h)" using rep_len [OF r] b by auto
  have at: "area_at (mem (set_blocks b w h)) (tot as1) (Used n pid g k')"
    using rep_area [OF r] b w len by (auto simp: mem_set_blocks)
  have out: "mem (set_blocks b w h) ! i = mem h ! i" if "i < tot as1 \<or> tot as1 + n \<le> i" for i
    using that rep_area [OF r] b len by (auto simp: mem_set_blocks)
  show "rep (set_blocks b w h) (as1 @ Used n pid g k' # as2)"
    by (rule rep_header(1) [OF r]) (use at out in auto)
  show "frame (other_used as1 n as2) h (set_blocks b w h)"
    using rep_header(2) [OF r, of "Used n pid g k'" "set_blocks b w h"] at out by auto
qed

lemma rep_used_word:
  assumes "rep h (as1 @ Used n pid g k # as2)" "b = tot as1"
  shows "unat (blocks (blk h b) AND NOT MEM_MASK) = n" "bit (blocks (blk h b)) 15"
    "bit (blocks (blk h b)) 14 = k" "owner (blk h b) = pid" "area_blocks h b = n"
    "is_reserved h b" "is_marked h b = k" "BLOCK_GUARD_BYTE h b = g"
  using rep_area [OF assms(1)] assms(2)
  by (auto simp: area_blocks_def is_reserved_def is_marked_def and_RESERVED and_GC_MARK BLOCK_GUARD_BYTE_def)

lemma rep_mark:
  assumes r: "rep h (as1 @ Used n pid g k # as2)" and b: "b = tot as1"
  shows "rep (set_blocks b (blocks (blk h b) OR GC_MARK) h) (as1 @ Used n pid g True # as2)"
    "rep (set_blocks b (blocks (blk h b) AND NOT GC_MARK) h) (as1 @ Used n pid g False # as2)"
    "frame (other_used as1 n as2) h (set_blocks b (blocks (blk h b) OR GC_MARK) h)"
    "frame (other_used as1 n as2) h (set_blocks b (blocks (blk h b) AND NOT GC_MARK) h)"
proof -
  let ?u = "blocks (blk h b) OR GC_MARK" and ?v = "blocks (blk h b) AND NOT GC_MARK"
  have u: "unat (?u AND NOT MEM_MASK) = n" "bit ?u 15" "bit ?u 14 = True"
    and v: "unat (?v AND NOT MEM_MASK) = n" "bit ?v 15" "bit ?v 14 = False"
    using rep_used_word(1,2) [OF r b]
    by (simp_all add: mask_or_GC mask_andnot_GC bit_or_iff bit_and_iff bit_not_iff bit_GC_MARK)
  show "rep (set_blocks b ?u h) (as1 @ Used n pid g True # as2)"
    "frame (other_used as1 n as2) h (set_blocks b ?u h)"
    using rep_rehead [OF r b u] by simp_all
  show "rep (set_blocks b ?v h) (as1 @ Used n pid g False # as2)"
    "frame (other_used as1 n as2) h (set_blocks b ?v h)"
    using rep_rehead [OF r b v] by simp_all
qed

lemma rep_expose:
  assumes r: "rep h (as1 @ Used n pid g False # as2)" and b: "b = tot as1"
  shows "rep (set_blocks b (blocks (blk h b) AND NOT RESERVED) h) (as1 @ Held n # as2)"
    "frame (other_used as1 n as2) h (set_blocks b (blocks (blk h b) AND NOT RESERVED) h)"
proof -
  let ?h = "set_blocks b (blocks (blk h b) AND NOT RESERVED) h"
  have len: "b < length (mem h)" using rep_len [OF r] b by auto
  have at: "area_at (mem ?h) (tot as1) (Held n)"
    using rep_area [OF r] b len by (auto simp: mem_set_blocks andnot_RESERVED)
  have out: "mem ?h ! i = mem h ! i" if "i < tot as1 \<or> tot as1 + n \<le> i" for i
    using that rep_area [OF r] b len by (auto simp: mem_set_blocks)
  show "rep ?h (as1 @ Held n # as2)"
    by (rule rep_header(1) [OF r]) (use at out in auto)
  show "frame (other_used as1 n as2) h ?h"
    using rep_header(2) [OF r, of "Held n" ?h] at out by auto
qed

lemma rep_hide:
  assumes r: "rep h (as1 @ Held n # as2)" and b: "b = tot as1"
  shows "rep (set_blocks b (blocks (blk h b) OR RESERVED) h)
           (as1 @ Used n (owner (blk h b)) (last_byte (blk h (b + n - 1))) False # as2)"
    "frame (other_used as1 n as2) h (set_blocks b (blocks (blk h b) OR RESERVED) h)"
proof -
  let ?w = "blocks (blk h b) OR RESERVED" and ?a = "Used n (owner (blk h b)) (last_byte (blk h (b + n - 1))) False"
  have len: "b < length (mem h)" using rep_len [OF r] b by auto
  have a: "0 < n" "unat (blocks (blk h b)) = n" using rep_area [OF r] b by auto
  have w: "?w AND NOT MEM_MASK = blocks (blk h b)" "bit ?w 15" "\<not> bit ?w 14"
    using rep_small [OF r] a bit_small [of "blocks (blk h b)" 14]
    by (auto simp: mask_or_RESERVED bit_or_iff bit_RESERVED)
  have at: "area_at (mem (set_blocks b ?w h)) (tot as1) ?a"
    using a w b len by (auto simp: mem_set_blocks)
  have out: "mem (set_blocks b ?w h) ! i = mem h ! i" if "i < tot as1 \<or> tot as1 + n \<le> i" for i
    using that a b len by (auto simp: mem_set_blocks)
  show "rep (set_blocks b ?w h) (as1 @ ?a # as2)"
    by (rule rep_header(1) [OF r]) (use at out in auto)
  show "frame (other_used as1 n as2) h (set_blocks b ?w h)"
    using rep_header(2) [OF r, of ?a "set_blocks b ?w h"] at out by auto
qed

end
