(* ===== verification/Malloc_Correct.thy ===== *)
theory Malloc_Correct
  imports Malloc_Rep
begin

text \<open>
  The memory manager computes what \<open>Malloc_Spec\<close> says: each operation of
  \<^verbatim>\<open>kernel/malloc.c\<close> on a heap that represents a list of areas returns, and the heap it
  leaves represents the list that the specification gives. The loops over the free list and
  over the areas end.
\<close>

section \<open>Merging and splitting\<close>

lemma succ_reserved:
  assumes r: "rep h (as1 @ a # as2)" and s: "settled as2"
  shows "is_reserved h (tot as1 + asz a) \<longleftrightarrow> (as2 = [] \<or> is_used (hd as2))"
proof (cases as2)
  case Nil
  have "blocks (mem h ! (tot as1 + asz a)) = RESERVED OR 1" using r Nil by (simp add: rep_def)
  then show ?thesis using Nil unfolding is_reserved_def and_RESERVED by (simp add: bit_or_iff bit_RESERVED)
next
  case (Cons c cs)
  have at: "area_at (mem h) (tot as1 + asz a) c"
    using rep_area [of h "as1 @ [a]" c cs] r Cons by simp
  have "asz c < 16384" using rep_small [OF r] Cons by simp
  then have "\<not> is_used c \<Longrightarrow> \<not> bit (blocks (mem h ! (tot as1 + asz a))) 15"
    using at s Cons by (cases c) (auto dest: bit_small)
  moreover have "is_used c \<Longrightarrow> bit (blocks (mem h ! (tot as1 + asz a))) 15"
    using at by (cases c) auto
  ultimately show ?thesis using Cons by (auto simp: is_reserved_def and_RESERVED)
qed

lemma vacant_size:
  "rep h (as1 @ vacant f n # as2) \<Longrightarrow> unat (blocks (blk h (tot as1))) = n \<and> 0 < n \<and> n < 8192"
  using rep_area [of h as1 "vacant f n" as2] rep_small by (fastforce split: if_splits)

text \<open>One round of a merge loop: the free successor is unlinked and joined.\<close>

lemma rep_absorb:
  assumes r: "rep h (as1 @ vacant f n # Free m # as2)"
    and b: "b = tot as1" "s = b + unat (blocks (blk h b))"
    and h1: "h1 = Unlink s h" and h2: "h2 = set_blocks b (blocks (blk h1 b) + blocks (blk h1 s)) h1"
  shows "rep h2 (as1 @ vacant f (n + m) # as2)" "frame (other_used as1 (n + m) as2) h h2"
    "unat (blocks (blk h2 b)) = n + m"
proof -
  have s: "s = tot (as1 @ [vacant f n])" using vacant_size [OF r] b by simp
  have r0: "rep h ((as1 @ [vacant f n]) @ Free m # as2)" using r by simp
  have f: "other_used as1 n (Held m # as2) = other_used as1 (n + m) as2"
    by (simp add: other_used_def add.assoc)
  have u: "rep h1 (as1 @ vacant f n # Held m # as2)" "frame (other_used as1 (n + m) as2) h h1"
    using rep_Unlink [OF r0] unfolding h1 s by (simp_all add: f)
  have sn: "s = b + n" using s b by simp
  note j = rep_join [OF u(1) b(1) h2 [unfolded sn]]
  show "rep h2 (as1 @ vacant f (n + m) # as2)" "unat (blocks (blk h2 b)) = n + m"
    by (rule j)+
  show "frame (other_used as1 (n + m) as2) h h2"
    using frame_trans [OF u(2) j(2)] .
qed

lemma merge_stop:
  assumes r: "rep h (as1 @ vacant f n # as2)" and s: "settled as2" and u: "as2 = [] \<or> is_used (hd as2)"
  shows "MergeBlocks (tot as1) h = Some h" "MergeBlocksQuick (tot as1) req h = Some h"
proof -
  have u: "is_reserved h (tot as1 + unat (blocks (blk h (tot as1))))"
    using succ_reserved [OF r s] vacant_size [OF r] u by simp
  show "MergeBlocks (tot as1) h = Some h" using u by (subst MergeBlocks.simps) (simp add: Let_def)
  show "MergeBlocksQuick (tot as1) req h = Some h"
    using u by (subst MergeBlocksQuick.simps) (simp add: Let_def)
qed

lemma rep_MergeBlocks:
  assumes "rep h (as1 @ vacant f n # as2)" "settled as2"
  shows "\<exists>h'. MergeBlocks (tot as1) h = Some h' \<and>
    rep h' (as1 @ vacant f (fst (merge_all n as2)) # snd (merge_all n as2)) \<and>
    frame (other_used as1 n as2) h h'"
  using assms
proof (induction as2 arbitrary: n h)
  case Nil
  then show ?case using merge_stop(1) [OF Nil] by simp
next
  case (Cons a as)
  show ?case
  proof (cases a)
    case (Free m)
    let ?b = "tot as1"
    let ?s = "?b + unat (blocks (blk h ?b))"
    let ?h1 = "Unlink ?s h"
    let ?h2 = "set_blocks ?b (blocks (blk ?h1 ?b) + blocks (blk ?h1 ?s)) ?h1"
    have r: "rep h (as1 @ vacant f n # Free m # as)" and s: "settled (Free m # as)"
      using Cons.prems Free by simp_all
    have ab: "rep ?h2 (as1 @ vacant f (n + m) # as)" "frame (other_used as1 (n + m) as) h ?h2"
      using rep_absorb [OF r refl refl refl refl] by auto
    have "\<not> is_reserved h ?s" using succ_reserved [OF r s] vacant_size [OF r] by simp
    then have "MergeBlocks ?b h = MergeBlocks ?b ?h2"
      by (subst MergeBlocks.simps) (simp add: Let_def)
    moreover have "other_used as1 n (a # as) = other_used as1 (n + m) as"
      using Free by (simp add: other_used_def add.assoc)
    ultimately show ?thesis
      using Cons.IH [OF ab(1)] s ab(2) Free by (auto intro: frame_trans)
  qed (use Cons.prems merge_stop(1) [OF Cons.prems] in simp_all)
qed

lemma rep_MergeBlocksQuick:
  assumes "rep h (as1 @ vacant f n # as2)" "settled as2"
  shows "\<exists>h'. MergeBlocksQuick (tot as1) req h = Some h' \<and>
    rep h' (as1 @ vacant f (fst (merge_quick (unat req) n as2)) # snd (merge_quick (unat req) n as2)) \<and>
    frame (other_used as1 n as2) h h'"
  using assms
proof (induction as2 arbitrary: n h)
  case Nil
  then show ?case using merge_stop(2) [OF Nil] by simp
next
  case (Cons a as)
  show ?case
  proof (cases a)
    case (Free m)
    let ?b = "tot as1"
    let ?s = "?b + unat (blocks (blk h ?b))"
    let ?h1 = "Unlink ?s h"
    let ?h2 = "set_blocks ?b (blocks (blk ?h1 ?b) + blocks (blk ?h1 ?s)) ?h1"
    have r: "rep h (as1 @ vacant f n # Free m # as)" and s: "settled (Free m # as)"
      using Cons.prems Free by simp_all
    have ab: "rep ?h2 (as1 @ vacant f (n + m) # as)" "frame (other_used as1 (n + m) as) h ?h2"
      "unat (blocks (blk ?h2 ?b)) = n + m"
      using rep_absorb [OF r refl refl refl refl] by auto
    have "\<not> is_reserved h ?s" using succ_reserved [OF r s] vacant_size [OF r] by simp
    then have eq: "MergeBlocksQuick ?b req h =
        (if req \<le> blocks (blk ?h2 ?b) then Some ?h2 else MergeBlocksQuick ?b req ?h2)"
      by (subst MergeBlocksQuick.simps) (simp add: Let_def)
    have le: "req \<le> blocks (blk ?h2 ?b) \<longleftrightarrow> unat req \<le> n + m"
      unfolding word_le_nat_alt ab(3) ..
    have ou: "other_used as1 n (a # as) = other_used as1 (n + m) as"
      using Free by (simp add: other_used_def add.assoc)
    show ?thesis
    proof (cases "unat req \<le> n + m")
      case True
      then show ?thesis using eq le ab ou Free by simp
    next
      case False
      with Cons.IH [OF ab(1)] s ab(2) eq le ou Free show ?thesis by (auto intro: frame_trans)
    qed
  qed (use Cons.prems merge_stop(2) [OF Cons.prems] in simp_all)
qed

lemma rep_SplitBlock:
  assumes r: "rep h (as1 @ vacant f n # as2)" and q: "0 < unat q" "unat q < n"
  shows "\<exists>h'. SplitBlock (tot as1) q h = Some h' \<and>
    rep h' (as1 @ vacant f (unat q) # Free (n - unat q) # as2) \<and> frame (other_used as1 n as2) h h'"
proof -
  define b h1 where "b = tot as1" and "h1 = set_blocks (b + unat q) (blocks (blk h b) - q) h"
  define h2 where "h2 = set_blocks b q h1"
  define h3 where "h3 = set_blocks (b + unat q) (blocks (blk h2 (b + unat q)) AND NOT MEM_MASK) h2"
  note c = rep_cut [OF r q b_def h1_def h2_def h3_def]
  have c': "rep h3 ((as1 @ [vacant f (unat q)]) @ Held (n - unat q) # as2)" using c(1) by simp
  have ou: "other_used as1 (unat q) (Held (n - unat q) # as2) = other_used as1 n as2"
    using q by (simp add: other_used_def)
  have "SplitBlock (tot as1) q h = InsertAfter (tot (as1 @ [vacant f (unat q)])) h3"
    by (simp add: SplitBlock_def Let_def b_def h1_def h2_def h3_def)
  then show ?thesis
    by (rule_tac rep_InsertAfter [OF c'])
       (use frame_trans [OF c(2)] ou in \<open>auto\<close>)
qed

section \<open>First fit\<close>

lemma rep_next_free:
  assumes "rep h (as1 @ Free n # as2)"
  shows "nextp h (tot as1) = hd (fstarts (tot as1 + n) as2 @ [mSentinel h])"
proof -
  have "ring (nextp h) (prevp h) (mSentinel h)
      (fstarts 0 as1 @ tot as1 # fstarts (tot as1 + n) as2)"
    using assms by (simp add: rep_def fstarts_append)
  from ring_next [OF this] show ?thesis .
qed

lemma rep_first_free:
  "rep h as \<Longrightarrow> nextp h (mSentinel h) = hd (fstarts 0 as @ [mSentinel h])"
  using ring_next_head by (fastforce simp: rep_def)

text \<open>
  What the search hands to the rest of \<^verbatim>\<open>sos_blk_mem_alloc\<close>: the sentinel, or a free
  area that is large enough, whose allocation gives the specified list.
\<close>

definition search_result ::
    "nat \<Rightarrow> u8 \<Rightarrow> nat \<Rightarrow> heap \<Rightarrow> area list \<Rightarrow> nat option \<Rightarrow> bool" where
  "search_result req pid b h as res \<longleftrightarrow>
     (case res of
        None \<Rightarrow> b = mSentinel h \<and> rep h as
      | Some q \<Rightarrow> b = q \<and> q \<noteq> mSentinel h \<and>
          (\<exists>as1 n as2. rep h (as1 @ Free n # as2) \<and> q = tot as1 \<and> req \<le> n \<and>
             as = as1 @ Used req pid pid False # split_off req n @ as2))"

lemma rep_alloc_search:
  assumes "rep h (as1 @ as2)" "settled as2"
  shows "\<exists>h' b. alloc_search req (hd (fstarts (tot as1) as2 @ [mSentinel h])) h = Some (h', b) \<and>
     frame (used_idx 0 (as1 @ as2)) h h' \<and>
     search_result (unat req) pid b h' (as1 @ fst (alloc_areas (unat req) pid (tot as1) as2))
       (snd (alloc_areas (unat req) pid (tot as1) as2))"
  using assms
proof (induction "unat req" pid "tot as1" as2 arbitrary: h as1 rule: alloc_areas.induct)
  case (1 pid)
  then show ?case by (subst alloc_search.simps) (auto simp: search_result_def)
next
  case (2 pid n as2)
  define n' as' where "n' = fst (merge_quick (unat req) n as2)" and "as' = snd (merge_quick (unat req) n as2)"
  obtain h1 where h1: "MergeBlocksQuick (tot as1) req h = Some h1"
    "rep h1 (as1 @ Free n' # as')" "frame (other_used as1 n as2) h h1"
    using rep_MergeBlocksQuick [of h as1 True n as2 req] 2(3,4) by (auto simp: n'_def as'_def)
  have ns: "tot as1 \<noteq> mSentinel h" "mSentinel h1 = mSentinel h"
    using 2(3) h1(2) rep_pos [OF 2(3)] merge_quick_tot [of "unat req" n as2]
    by (auto simp: rep_def n'_def as'_def)
  have sz: "unat (blocks (blk h1 (tot as1))) = n'" using rep_area [OF h1(2)] by simp
  have step: "alloc_search req (tot as1) h =
      (if unat req \<le> n' then Some (h1, tot as1) else alloc_search req (nextp h1 (tot as1)) h1)"
    using ns h1(1) by (subst alloc_search.simps) (simp add: word_le_nat_alt sz)
  have ou: "other_used as1 n as2 = used_idx 0 ((as1 @ [Free n']) @ as')"
    using merge_quick_used [of "tot as1" "unat req" n as2]
    by (simp add: other_used_def n'_def as'_def)
  show ?case
  proof (cases "unat req \<le> n'")
    case True
    then show ?thesis
      using h1 ns step by (auto simp: search_result_def n'_def as'_def Let_def)
  next
    case False
    have "\<exists>h' b. alloc_search req (hd (fstarts (tot as1 + n') as' @ [mSentinel h1])) h1 = Some (h', b) \<and>
      frame (used_idx 0 ((as1 @ [Free n']) @ as')) h1 h' \<and>
      search_result (unat req) pid b h' ((as1 @ [Free n']) @ fst (alloc_areas (unat req) pid (tot as1 + n') as'))
       (snd (alloc_areas (unat req) pid (tot as1 + n') as'))"
      using 2(1) [OF n'_def as'_def _ _, of "as1 @ [Free n']" h1] False h1(2) 2(4)
      by (simp add: as'_def merge_quick_settled)
    then show ?thesis
      using step False rep_next_free [OF h1(2)] h1(3) ou
      by (auto simp: n'_def [symmetric] as'_def [symmetric] Let_def intro: frame_trans)
  qed
next
  case (3 pid n pid' g k as2)
  from 3(1) [of "as1 @ [Used n pid' g k]" h] 3(3,4) show ?case by simp
qed simp

text \<open>The number of blocks of a request, for the sizes at which the 16-bit sum does not wrap.\<close>

lemma unat_req_blocks:
  assumes "unat sz \<le> 65524"
  shows "unat (req_blocks sz) = (unat sz + 11) div 8"
proof -
  have e: "sz + of_nat BLOCKOVERHEAD + of_nat BLOCK_SIZE - 1 = sz + 11"
    by (simp add: malloc_consts)
  have "unat (sz + 11) = unat sz + 11"
    using assms by (subst unat_plus_no_wrap) auto
  then show ?thesis
    unfolding req_blocks_def e SHIFT_VALUE_def by (simp add: drop_bit_eq_div unat_div)
qed

lemma req_blocks_pos: "unat sz \<le> 65524 \<Longrightarrow> 0 < unat (req_blocks sz)"
  by (simp add: unat_req_blocks div_greater_zero_iff)

lemma user_part_cong: "malloc_heap h' = malloc_heap h \<Longrightarrow> user_part h' q = user_part h q"
  by (simp add: user_part_def blk_addr_def)

lemma unlink_reserve:
  assumes r: "rep h (as1 @ Free n # as2)"
  shows "rep (reserve (tot as1) pid (Unlink (tot as1) h)) (as1 @ Used n pid pid False # as2)"
    "frame (other_used as1 n as2) h (reserve (tot as1) pid (Unlink (tot as1) h))"
  using rep_Unlink [OF r] rep_reserve [of "Unlink (tot as1) h" as1 n as2 "tot as1" pid]
  by (auto intro: frame_trans)

lemma rep_alloc:
  assumes r: "rep h as" "settled as" and sz: "sz \<noteq> 0" "0 < unat (req_blocks sz)"
    and res: "(as', q) = alloc_areas (unat (req_blocks sz)) pid 0 as"
  shows "\<exists>h'. sos_blk_mem_alloc sz pid h = Some (h', case q of None \<Rightarrow> NULL | Some b \<Rightarrow> user_part h b) \<and>
    rep h' as' \<and> frame (used_idx 0 as) h h'"
proof -
  let ?req = "req_blocks sz"
  obtain h1 b where h1: "alloc_search ?req (nextp h (mSentinel h)) h = Some (h1, b)"
    "frame (used_idx 0 as) h h1" "search_result (unat ?req) pid b h1 as' q"
    using rep_alloc_search [of h "[]" as ?req pid] r res [symmetric] rep_first_free [OF r(1)] by auto
  show ?thesis
  proof (cases q)
    case None
    with h1 sz show ?thesis by (auto simp: sos_blk_mem_alloc_def search_result_def Let_def)
  next
    case (Some b')
    with h1(3) obtain as1 n as2 where a: "rep h1 (as1 @ Free n # as2)" "b = tot as1" "b' = b"
      "unat ?req \<le> n" "b \<noteq> mSentinel h1"
      "as' = as1 @ Used (unat ?req) pid pid False # split_off (unat ?req) n @ as2"
      by (auto simp: search_result_def)
    have n: "unat (blocks (blk h1 b)) = n" using rep_area [OF a(1)] a(2) by simp
    define sp where "sp = (if blocks (blk h1 b) > ?req then SplitBlock b ?req h1 else Some h1)"
    obtain h2 where h2: "sp = Some h2" "rep h2 (as1 @ Free (unat ?req) # split_off (unat ?req) n @ as2)"
      "frame (other_used as1 n as2) h1 h2"
      using rep_SplitBlock [of h1 as1 True n as2 ?req] a(1,2,4) sz(2) n
      unfolding sp_def split_off_def word_less_nat_alt n
      by (cases "unat ?req < n") auto
    let ?h3 = "reserve b pid (Unlink b h2)"
    have h3: "rep ?h3 as'" "frame (other_used as1 (unat ?req) (split_off (unat ?req) n @ as2)) h2 ?h3"
      using unlink_reserve [OF h2(2), of pid] a(2,6) by simp_all
    have ou: "other_used as1 (unat ?req) (split_off (unat ?req) n @ as2) = other_used as1 n as2"
      using a(4) by (auto simp: other_used_def split_off_def)
    have q: "snd (alloc_areas (unat ?req) pid 0 as) = Some b" "fst (alloc_areas (unat ?req) pid 0 as) = as'"
      using res [symmetric] Some a(3) by simp_all
    have "used_idx 0 as' = {b..<b + unat ?req} \<union> other_used as1 n as2"
      unfolding ou [symmetric] a(2,6) by (auto simp: used_idx_append other_used_def)
    then have "used_idx 0 as \<subseteq> other_used as1 n as2"
      using alloc_areas_used [OF q(1)] alloc_areas_fresh [OF q(1)] unfolding q(2) by blast
    then have "frame (used_idx 0 as) h1 ?h3"
      by (rule frame_mono [OF frame_trans [OF h2(3) h3(2) [unfolded ou]]])
    with h1(2) have fr: "frame (used_idx 0 as) h ?h3" by (rule frame_trans)
    then have "user_part ?h3 b = user_part h b" by (intro user_part_cong) (simp add: frame_def)
    moreover have "sos_blk_mem_alloc sz pid h = Some (?h3, user_part ?h3 b)"
      using sz(1) a(5) unfolding sos_blk_mem_alloc_def Let_def h1(1) Option.bind.bind_lunit prod.case
        sp_def [symmetric] h2(1) by simp
    ultimately show ?thesis using h3(1) fr Some a(3) by simp
  qed
qed

section \<open>Allocation at the far end\<close>

lemma rep_defrag_loop:
  assumes "rep h (as1 @ as2)" "settled as2"
  shows "\<exists>h'. defrag_loop (hd (fstarts (tot as1) as2 @ [mSentinel h])) h = Some h' \<and>
     rep h' (as1 @ defrag as2) \<and> frame (used_idx 0 (as1 @ as2)) h h'"
  using assms
proof (induction as2 arbitrary: h as1 rule: defrag.induct)
  case 1
  then show ?case by (subst defrag_loop.simps) simp
next
  case (2 n as2)
  define n' as' where "n' = fst (merge_all n as2)" and "as' = snd (merge_all n as2)"
  obtain h1 where h1: "MergeBlocks (tot as1) h = Some h1"
    "rep h1 (as1 @ Free n' # as')" "frame (other_used as1 n as2) h h1"
    using rep_MergeBlocks [of h as1 True n as2] 2(2,3) by (auto simp: n'_def as'_def)
  have ns: "tot as1 \<noteq> mSentinel h" "mSentinel h1 = mSentinel h"
    using 2(2) h1(2) rep_pos [OF 2(2)] merge_all_tot [of n as2]
    by (auto simp: rep_def n'_def as'_def)
  have step: "defrag_loop (tot as1) h = defrag_loop (hd (fstarts (tot as1 + n') as' @ [mSentinel h1])) h1"
    using ns h1(1) rep_next_free [OF h1(2)] by (subst defrag_loop.simps) simp
  have ou: "other_used as1 n as2 = used_idx 0 ((as1 @ [Free n']) @ as')"
    using merge_all_used [of "tot as1" n as2] by (simp add: other_used_def n'_def as'_def)
  have "settled as'" using 2(3) by (simp add: as'_def merge_all_settled)
  with 2(1) [of h1 "as1 @ [Free n']", folded as'_def] h1(2)
  show ?case
    using step h1(3) ou by (auto simp: n'_def [symmetric] as'_def [symmetric] intro: frame_trans)
next
  case (3 n pid g k as2)
  from 3(1) [of h "as1 @ [Used n pid g k]"] 3(2,3) show ?case by simp
qed simp

fun last_fit :: "nat \<Rightarrow> nat \<Rightarrow> area list \<Rightarrow> nat option" where
  "last_fit req p [] = None"
| "last_fit req p (a # as) =
     (case last_fit req (p + asz a) as of
        None \<Rightarrow> (if is_free a \<and> req \<le> asz a then Some p else None)
      | Some q \<Rightarrow> Some q)"

lemma last_fit_None: "\<not> (\<exists>a \<in> set as. is_free a \<and> req \<le> asz a) \<Longrightarrow> last_fit req p as = None"
  by (induction as arbitrary: p) auto

lemma last_fit_at:
  "req \<le> n \<Longrightarrow> \<not> (\<exists>a \<in> set as2. is_free a \<and> req \<le> asz a) \<Longrightarrow>
   last_fit req p (as1 @ Free n # as2) = Some (p + tot as1)"
  by (induction as1 arbitrary: p) (auto simp: last_fit_None add.assoc)

lemma rep_find_max:
  assumes "rep h (as1 @ as2)" "settled as2" "\<forall>m. mx = Some m \<longrightarrow> m < tot as1"
  shows "find_max req (hd (fstarts (tot as1) as2 @ [mSentinel h])) mx h =
    Some (case last_fit (unat req) (tot as1) as2 of None \<Rightarrow> mx | Some b \<Rightarrow> Some b)"
  using assms
proof (induction as2 arbitrary: as1 mx)
  case Nil
  then show ?case by (subst find_max.simps) simp
next
  case (Cons a as2)
  have r: "rep h ((as1 @ [a]) @ as2)" using Cons.prems(1) by simp
  show ?case
  proof (cases a)
    case (Free n)
    let ?mx = "if unat req \<le> n then Some (tot as1) else mx"
    have pos: "0 < n" "tot as1 \<noteq> mSentinel h"
      using Cons.prems(1) rep_pos [OF Cons.prems(1)] Free by (auto simp: rep_def)
    have sz: "unat (blocks (blk h (tot as1))) = n" using rep_area [OF Cons.prems(1)] Free by simp
    have "find_max req (tot as1) mx h = find_max req (nextp h (tot as1)) ?mx h"
      using Cons.prems(3) pos by (subst find_max.simps) (auto simp: word_le_nat_alt sz split: option.splits)
    moreover have "nextp h (tot as1) = hd (fstarts (tot (as1 @ [a])) as2 @ [mSentinel h])"
      using rep_next_free [of h as1 n as2] Cons.prems(1) Free by simp
    moreover have "\<forall>m. ?mx = Some m \<longrightarrow> m < tot (as1 @ [a])"
      using Cons.prems(3) pos Free by auto
    ultimately show ?thesis
      using Cons.IH [OF r] Cons.prems(2) Free by (auto split: option.splits)
  next
    case (Used n pid g k)
    have "\<forall>m. mx = Some m \<longrightarrow> m < tot (as1 @ [a])" using Cons.prems(3) by auto
    from Cons.IH [OF r _ this] Cons.prems(2) Used show ?thesis by (auto split: option.splits)
  qed (use Cons.prems in simp)
qed

lemma rep_cut_tail:
  assumes r: "rep h (as1 @ Free n # as2)" and q: "0 < unat q" "unat q < n" and b: "b = tot as1"
    and h': "h' = set_blocks (b + unat (blocks (blk h b) - q)) q (set_blocks b (blocks (blk h b) - q) h)"
  shows "rep h' (as1 @ Free (n - unat q) # Held (unat q) # as2)" "frame (other_used as1 n as2) h h'"
proof -
  have a1: "unat (blocks (blk h b)) = n" using rep_area [OF r] b by auto
  have d: "unat (blocks (blk h b) - q) = n - unat q"
    using a1 q by (subst unat_minus_no_wrap) auto
  have len: "b < length (mem h)" "b + (n - unat q) < length (mem h)"
    using rep_len [OF r] b q by auto
  have at: "unat (blocks (blk h' b)) = n - unat q" "unat (blocks (blk h' (b + (n - unat q)))) = unat q"
    using len q d by (simp_all add: h' mem_set_blocks)
  have "rep h' (as1 @ [Free (n - unat q), Held (unat q)] @ as2)"
  proof (rule rep_replace [where old = "[Free n]" and h = h])
    show "rep h (as1 @ [Free n] @ as2)" using r by simp
    show "layout (mem h') (tot as1) [Free (n - unat q), Held (unat q)]"
      using at q b by simp
    show "mem h' ! i = blk h i" if "i < tot as1 \<or> tot as1 + tot [Free n] \<le> i" for i
      using that len q b d by (auto simp: h' mem_set_blocks)
  qed (use b q in \<open>auto simp: h'\<close>)
  then show "rep h' (as1 @ Free (n - unat q) # Held (unat q) # as2)" by simp
  show "frame (other_used as1 n as2) h h'"
    unfolding h' set_blocks_def d using q b by (intro frame_trans [OF frame_inside frame_inside]) auto
qed

lemma rep_longterm_alloc:
  assumes r: "rep h as" "settled as" and sz: "sz \<noteq> 0" "0 < unat (req_blocks sz)"
    and res: "(as', q) = longterm_areas (unat (req_blocks sz)) pid 0 as"
  shows "\<exists>h'. sos_blk_mem_longterm_alloc sz pid h =
      Some (h', case q of None \<Rightarrow> NULL | Some b \<Rightarrow> user_part h b) \<and>
    rep h' as' \<and> frame (used_idx 0 as) h h'"
proof -
  let ?req = "req_blocks sz"
  obtain h1 where h1: "defrag_loop (nextp h (mSentinel h)) h = Some h1" "rep h1 (defrag as)"
    "frame (used_idx 0 as) h h1"
    using rep_defrag_loop [of h "[]" as] r rep_first_free [OF r(1)] by auto
  have mx: "find_max ?req (nextp h1 (mSentinel h1)) None h1 = Some (last_fit (unat ?req) 0 (defrag as))"
    using rep_find_max [of h1 "[]" "defrag as" None ?req] h1(2) defrag_settled [OF r(2)]
      rep_first_free [OF h1(2)] by (simp split: option.splits)
  show ?thesis
  proof (cases "take_last (unat ?req) pid 0 (defrag as)")
    case None
    then have "q = None" "as' = defrag as" using res by (simp_all add: longterm_areas_def)
    moreover have "last_fit (unat ?req) 0 (defrag as) = None"
      using None by (intro last_fit_None) (simp add: take_last_None)
    ultimately show ?thesis
      using h1 mx sz by (simp add: sos_blk_mem_longterm_alloc_def Let_def)
  next
    case (Some t)
    then have t: "take_last (unat ?req) pid 0 (defrag as) = Some (as', the q)" "q = Some (the q)"
      using res by (cases t; simp add: longterm_areas_def)+
    obtain as1 n as2 where a: "defrag as = as1 @ Free n # as2" "unat ?req \<le> n"
      "the q = tot as1 + (n - unat ?req)" "as' = as1 @ split_off (unat ?req) n @ Used (unat ?req) pid pid False # as2"
      "last_fit (unat ?req) 0 (defrag as) = Some (tot as1)"
      by (rule take_last_SomeE [OF t(1)]) (metis add_0 last_fit_at)
    have r1: "rep h1 (as1 @ Free n # as2)" using h1(2) a(1) by simp
    have n: "unat (blocks (blk h1 (tot as1))) = n" using rep_area [OF r1] by simp
    then have nb: "unat (blocks (blk h1 (tot as1)) - ?req) = n - unat ?req"
      using a(2) by (simp add: unat_minus_no_wrap)
    define h2 where "h2 = (if n = unat ?req then Unlink (tot as1) h1
      else set_blocks (tot as1 + unat (blocks (blk h1 (tot as1)) - ?req)) ?req
             (set_blocks (tot as1) (blocks (blk h1 (tot as1)) - ?req) h1))"
    have h2: "rep h2 ((as1 @ split_off (unat ?req) n) @ Held (unat ?req) # as2)"
      "frame (other_used as1 n as2) h1 h2"
      using a(2) rep_Unlink [OF r1] rep_cut_tail [OF r1 sz(2) _ refl refl]
      by (auto simp: h2_def split_off_def)
    have b: "the q = tot (as1 @ split_off (unat ?req) n)" using a(2,3) by (auto simp: split_off_def)
    note h3 = rep_reserve [OF h2(1) b, of pid]
    have ou: "other_used (as1 @ split_off (unat ?req) n) (unat ?req) as2 = other_used as1 n as2"
      "used_idx 0 as = other_used as1 n as2"
      using a(1,2) defrag_used [of 0 as] by (auto simp: other_used_def split_off_def used_idx_append)
    have fr: "frame (used_idx 0 as) h (reserve (the q) pid h2)"
      using frame_trans [OF h1(3) frame_trans [OF h2(2) h3(2) [unfolded ou(1)], folded ou(2)]] .
    then have up: "user_part (reserve (the q) pid h2) (the q) = user_part h (the q)"
      by (intro user_part_cong) (simp add: frame_def)
    have "sos_blk_mem_longterm_alloc sz pid h = Some (reserve (the q) pid h2, user_part (reserve (the q) pid h2) (the q))"
      using sz(1) a(2,3) h1(1) mx unfolding a(5)
      by (auto simp: sos_blk_mem_longterm_alloc_def Let_def nb h2_def)
    then show ?thesis using h3(1) fr a(4) t(2) up by (cases q) auto
  qed
qed

section \<open>The contract of an allocator\<close>

text \<open>
  What the rest of the kernel relies on when it allocates, for both allocation functions: a
  request is answered with \<^verbatim>\<open>NULL\<close> exactly when no run of adjacent free areas is large
  enough, and otherwise with an area that overlaps no other one and is owned by the caller.
\<close>

locale allocator =
  fixes alloc :: "u16 \<Rightarrow> sos_pid_t \<Rightarrow> heap \<Rightarrow> (heap \<times> addr) option"
    and spec :: "nat \<Rightarrow> u8 \<Rightarrow> nat \<Rightarrow> area list \<Rightarrow> area list \<times> nat option"
  assumes alloc_zero: "alloc 0 pid h = Some (h, NULL)"
    and alloc_refines: "rep h as \<Longrightarrow> settled as \<Longrightarrow> sz \<noteq> 0 \<Longrightarrow> unat sz \<le> 65524 \<Longrightarrow>
      (as', r) = spec (unat (req_blocks sz)) pid 0 as \<Longrightarrow>
      \<exists>h'. alloc sz pid h = Some (h', case r of None \<Rightarrow> NULL | Some b \<Rightarrow> user_part h b) \<and>
        rep h' as' \<and> frame (used_idx 0 as) h h'"
    and spec_None: "0 < req \<Longrightarrow> snd (spec req pid p as) = None \<longleftrightarrow> max_free 0 as < req"
    and spec_live: "set (live p (fst (spec req pid p as))) =
      (case snd (spec req pid p as) of
         None \<Rightarrow> set (live p as) | Some q \<Rightarrow> insert (q, Used req pid pid False) (set (live p as)))"
    and spec_settled: "settled as \<Longrightarrow> settled (fst (spec req pid p as))"
    and spec_tot: "tot (fst (spec req pid p as)) = tot as"
    and spec_fresh: "snd (spec req pid p as) = Some q \<Longrightarrow>
      p \<le> q \<and> q + req \<le> p + tot as \<and> {q..<q + req} \<inter> used_idx p as = {}"
begin

lemma alloc_contract:
  assumes "rep h as" "settled as" "sz \<noteq> 0" "unat sz \<le> 65524" and req: "req = unat (req_blocks sz)"
  shows "\<exists>h' p as'. alloc sz pid h = Some (h', p) \<and> rep h' as' \<and> settled as' \<and>
    frame (used_idx 0 as) h h' \<and>
    (if max_free 0 as < req then p = NULL \<and> set (live 0 as') = set (live 0 as)
     else \<exists>q. p = user_part h q \<and> unat sz + BLOCKOVERHEAD \<le> BLOCK_SIZE * req \<and>
       q + req \<le> tot as \<and> {q..<q + req} \<inter> used_idx 0 as = {} \<and>
       set (live 0 as') = insert (q, Used req pid pid False) (set (live 0 as)))"
proof -
  let ?s = "spec req pid 0 as"
  have pos: "0 < req" using req assms(4) by (simp add: req_blocks_pos)
  have fit: "unat sz + BLOCKOVERHEAD \<le> BLOCK_SIZE * req"
    using assms(4) req by (simp add: unat_req_blocks malloc_consts)
  obtain h' where h': "alloc sz pid h = Some (h', case snd ?s of None \<Rightarrow> NULL | Some b \<Rightarrow> user_part h b)"
    "rep h' (fst ?s)" "frame (used_idx 0 as) h h'"
    using alloc_refines [OF assms(1-4) prod.collapse, of pid] req by auto
  show ?thesis
  proof (intro exI [of _ h'] exI [of _ "fst ?s"] exI conjI)
    show "if max_free 0 as < req
      then (case snd ?s of None \<Rightarrow> NULL | Some b \<Rightarrow> user_part h b) = NULL \<and>
        set (live 0 (fst ?s)) = set (live 0 as)
      else \<exists>q. (case snd ?s of None \<Rightarrow> NULL | Some b \<Rightarrow> user_part h b) = user_part h q \<and>
       unat sz + BLOCKOVERHEAD \<le> BLOCK_SIZE * req \<and>
       q + req \<le> tot as \<and> {q..<q + req} \<inter> used_idx 0 as = {} \<and>
       set (live 0 (fst ?s)) = insert (q, Used req pid pid False) (set (live 0 as))"
      using spec_None [OF pos, of pid 0 as] spec_live [of 0 req pid as] fit spec_fresh [of req pid 0 as]
      by (cases "snd ?s") auto
  qed (use h' spec_settled [OF assms(2)] in auto)
qed

end

interpretation first_fit: allocator sos_blk_mem_alloc alloc_areas
proof
  show "sos_blk_mem_alloc 0 pid h = Some (h, NULL)" for pid h
    by (simp add: sos_blk_mem_alloc_def)
  show "snd (alloc_areas req pid p as) = None \<longleftrightarrow> max_free 0 as < req" if "0 < req" for req pid p as
    using alloc_areas_None [OF that] that by auto
qed (simp_all add: rep_alloc req_blocks_pos alloc_areas_live alloc_areas_settled alloc_areas_tot alloc_areas_fresh
       del: split_paired_All split_paired_Ex)

interpretation far_end: allocator sos_blk_mem_longterm_alloc longterm_areas
proof
  show "sos_blk_mem_longterm_alloc 0 pid h = Some (h, NULL)" for pid h
    by (simp add: sos_blk_mem_longterm_alloc_def)
qed (simp_all add: rep_longterm_alloc req_blocks_pos longterm_areas_None longterm_areas_live longterm_areas_settled
       longterm_areas_tot longterm_areas_fresh)

end
