(* ===== verification/Malloc_Release.thy ===== *)
theory Malloc_Release
  imports Malloc_Correct
begin

text \<open>
  Release, change of owner, the two walks over all areas (\<^verbatim>\<open>mem_remove_all\<close> and the
  garbage collector), and the start of the memory manager, related to the lists of areas.
\<close>

section \<open>Pointers to areas\<close>

lemma live_split:
  assumes "(q, a) \<in> set (live p as)"
  obtains as1 as2 where "as = as1 @ a # as2" "q = p + tot as1" "is_used a"
  using assms
proof (induction as arbitrary: p thesis)
  case (Cons c as)
  show ?case
  proof (cases "(q, a) \<in> set (live (p + asz c) as)")
    case True
    with Cons.IH obtain as1 as2 where "as = as1 @ a # as2" "q = p + asz c + tot as1" "is_used a"
      by metis
    then show ?thesis by (auto intro!: Cons.prems(1) [of "c # as1" as2])
  next
    case False
    with Cons.prems(2) show ?thesis
      by (auto intro!: Cons.prems(1) [of "[]" as] split: if_splits)
  qed
qed simp

lemma TO_BLOCK_PTR_user: "blk_addr h i + 3 < 65536 \<Longrightarrow> TO_BLOCK_PTR (user_part h i) = blk_addr h i"
  by (simp add: TO_BLOCK_PTR_def user_part_def HEADER_SIZE_def)

lemma addr_blk_addr: "i < length (mem h) \<Longrightarrow> addr_blk h (blk_addr h i) = Some i"
  and in_heap_addr: "in_heap h (blk_addr h i) \<longleftrightarrow> i < length (mem h)"
  by (simp_all add: addr_blk_def in_heap_def blk_addr_def BLOCK_SIZE_def NUM_HEAP_BLOCKS_def)

lemma rep_ptr:
  assumes "rep h (as1 @ a # as2)" and b: "b = tot as1"
  shows "TO_BLOCK_PTR (user_part h b) = blk_addr h b" "in_heap h (blk_addr h b)"
    "addr_blk h (blk_addr h b) = Some b" "user_part h b \<noteq> NULL"
proof -
  have "blk_addr h b + 8 \<le> 65536" "b < length (mem h)"
    using assms by (simp_all add: rep_def blk_addr_def BLOCK_SIZE_def)
  then show "TO_BLOCK_PTR (user_part h b) = blk_addr h b" "in_heap h (blk_addr h b)"
    "addr_blk h (blk_addr h b) = Some b"
    by (simp_all add: TO_BLOCK_PTR_user addr_blk_addr in_heap_addr)
  show "user_part h b \<noteq> NULL" by (simp add: user_part_def HEADER_SIZE_def)
qed

text \<open>What the walks read in the header of any area.\<close>

lemma rep_walk:
  assumes r: "rep h (as1 @ a # as2)" and s: "settled as2" "\<not> is_held a"
  shows "area_blocks h (tot as1) = asz a" "is_reserved h (tot as1) = is_used a"
    "tot as1 \<noteq> mSentinel h" "tot as1 < NUM_HEAP_BLOCKS h"
proof -
  have at: "area_at (mem h) (tot as1) a" by (rule rep_area [OF r])
  have small: "asz a < 16384" using rep_small [OF r] by simp
  show "area_blocks h (tot as1) = asz a"
    using at small by (cases a) (auto simp: area_blocks_def mask_free)
  show "is_reserved h (tot as1) = is_used a"
    using at small s by (cases a) (auto simp: is_reserved_def and_RESERVED dest: bit_small)
  show "tot as1 \<noteq> mSentinel h" "tot as1 < NUM_HEAP_BLOCKS h"
    using r rep_pos [OF r] by (auto simp: rep_def NUM_HEAP_BLOCKS_def)
qed

section \<open>Release\<close>

lemma rep_free:
  assumes r: "rep h (as1 @ Used n pid pid k # as2)"
  shows "\<exists>h'. sos_blk_mem_free (user_part h (tot as1)) h = Some h' \<and>
    rep h' (as1 @ Free n # as2) \<and> frame (other_used as1 n as2) h h'"
proof -
  let ?b = "tot as1"
  let ?h = "set_owner ?b NULL_PID (set_blocks ?b (blocks (blk h ?b) AND NOT MEM_MASK) h)"
  note u = rep_unreserve [OF r refl, where x = NULL_PID, OF refl]
  have "sos_blk_mem_free (user_part h ?b) h = InsertAfter ?b ?h"
    using rep_ptr [OF r refl] rep_used_word [OF r refl] by (simp add: sos_blk_mem_free_def Let_def)
  then show ?thesis
    by (rule_tac rep_InsertAfter [OF u(1)]) (auto intro: frame_trans [OF u(2)])
qed

lemma rep_free_damaged:
  assumes r: "rep h (as1 @ Used n pid g k # as2)" and "pid \<noteq> g"
  shows "sos_blk_mem_free (user_part h (tot as1)) h = Some h"
  using assms rep_ptr [OF r refl] rep_used_word [OF r refl] by (simp add: sos_blk_mem_free_def)

lemma rep_free_release:
  assumes r: "rep h (as1 @ Used n pid g k # as2)"
    and P: "P (Used n pid g k)" and a: "a = release P (Used n pid g k)"
  shows "\<exists>h'. sos_blk_mem_free (user_part h (tot as1)) h = Some h' \<and>
    rep h' (as1 @ a # as2) \<and> frame (used_idx 0 (as1 @ a # as2)) h h'"
proof (cases "pid = g")
  case True
  then show ?thesis using rep_free r P a by simp
next
  case False
  then show ?thesis using rep_free_damaged [OF r] r a by simp
qed

lemma rep_change_own:
  assumes r: "rep h (as1 @ Used n own own k # as2)" and pid: "pid \<noteq> NULL_PID"
  shows "\<exists>h'. sos_blk_mem_change_own (user_part h (tot as1)) pid h = Some (h', SOS_OK) \<and>
    rep h' (as1 @ Used n pid pid k # as2) \<and> frame (other_used as1 n as2) h h' \<and>
    (\<forall>i. prev (blk h' i) = prev (blk h i) \<and> nxt (blk h' i) = nxt (blk h i))"
proof -
  let ?b = "tot as1" and ?a = "Used n pid pid k"
  let ?h = "set_owner ?b pid (set_guard ?b pid h)"
  have len: "?b < length (mem h)" "?b + n - 1 < length (mem h)" using rep_len [OF r] by auto
  have n: "0 < n" using rep_area [OF r] by simp
  have ab: "area_blocks h ?b = n" using rep_used_word [OF r refl] by simp
  have m: "mem ?h ! j = (let c = if j = ?b + n - 1 then (blk h j)\<lparr>last_byte := pid\<rparr> else blk h j
      in if j = ?b then c\<lparr>owner := pid\<rparr> else c)" for j
    using len ab by (auto simp: mem_set_owner mem_set_guard Let_def)
  have at: "area_at (mem ?h) ?b ?a"
    using rep_area [OF r] unfolding area_at.simps m by (auto simp: Let_def)
  have out: "mem ?h ! i = mem h ! i" if "i < ?b \<or> ?b + n \<le> i" for i
    using that n unfolding m by (auto simp: Let_def)
  have "rep ?h (as1 @ ?a # as2)" by (rule rep_header(1) [OF r]) (use at out in auto)
  moreover have "frame (other_used as1 n as2) h ?h"
    using rep_header(2) [OF r, of ?a ?h] at out by auto
  moreover have "prev (blk ?h i) = prev (blk h i) \<and> nxt (blk ?h i) = nxt (blk h i)" for i
    unfolding m by (simp add: Let_def)
  moreover have "sos_blk_mem_change_own (user_part h ?b) pid h = Some (?h, SOS_OK)"
    using rep_ptr [OF r refl] rep_used_word [OF r refl] pid by (simp add: sos_blk_mem_change_own_def)
  ultimately show ?thesis by blast
qed

section \<open>The walks over all areas\<close>

lemma used_idx_map_release: "used_idx p (map (release P) as) \<subseteq> used_idx p as"
proof (induction as arbitrary: p)
  case (Cons a as)
  have "asz (release P a) = asz a" "is_used (release P a) \<Longrightarrow> is_used a" by (cases a; simp)+
  with Cons.IH [of "p + asz a"] show ?case by auto
qed simp

lemma asz_release [simp]: "asz (release P a) = asz a" and asz_sweep [simp]: "asz (sweep pid a) = asz a"
  by (cases a; simp)+

lemma tot_release [simp]: "tot (map (release P) as) = tot as"
  and tot_sweep [simp]: "tot (map (sweep pid) as) = tot as"
  by (induction as) auto

lemma rep_remove_walk:
  assumes "rep h (as1 @ as2)" "settled as2"
  shows "\<exists>h'. remove_walk pid (tot as1) h = Some h' \<and>
     rep h' (as1 @ map (release (\<lambda>a. aown a = pid)) as2) \<and>
     frame (used_idx 0 (as1 @ map (release (\<lambda>a. aown a = pid)) as2)) h h'"
  using assms
proof (induction as2 arbitrary: h as1)
  case Nil
  then show ?case by (subst remove_walk.simps) (simp add: rep_def)
next
  case (Cons a as2)
  let ?P = "\<lambda>a. aown a = pid" and ?b = "tot as1"
  let ?step = "if owner (blk h ?b) = pid \<and> is_reserved h ?b then ker_free (user_part h ?b) h else Some h"
  have s: "settled as2" "\<not> is_held a" using Cons.prems(2) by auto
  note w = rep_walk [OF Cons.prems(1) s]
  obtain h1 where h1: "?step = Some h1" "rep h1 (as1 @ release ?P a # as2)"
    "frame (used_idx 0 (as1 @ release ?P a # as2)) h h1"
  proof (cases "is_used a")
    case True
    then obtain n own g k where a: "a = Used n own g k" by (cases a) auto
    with Cons.prems(1) have r: "rep h (as1 @ Used n own g k # as2)" by simp
    show thesis
      using rep_free_release [OF r, of ?P] rep_used_word [OF r refl] a that Cons.prems(1)
      by (cases "own = pid") auto
  next
    case False
    then show thesis using w(2) that Cons.prems(1) by (cases a) auto
  qed
  have s': "\<not> is_held (release ?P a)" using s(2) by (cases a) auto
  have r1: "rep h1 ((as1 @ [release ?P a]) @ as2)" using h1(2) by simp
  obtain h' where h': "remove_walk pid (tot (as1 @ [release ?P a])) h1 = Some h'"
    "rep h' ((as1 @ [release ?P a]) @ map (release ?P) as2)"
    "frame (used_idx 0 ((as1 @ [release ?P a]) @ map (release ?P) as2)) h1 h'"
    using Cons.IH [OF r1 s(1)] by blast
  have "remove_walk pid ?b h = remove_walk pid (?b + area_blocks h1 ?b) h1"
    using w(3) h1(1) by (subst remove_walk.simps) simp
  also have "area_blocks h1 ?b = asz a" using rep_walk(1) [OF h1(2) s(1) s'] by simp
  finally have "remove_walk pid ?b h = Some h'" using h'(1) by simp
  moreover have "frame (used_idx 0 (as1 @ map (release ?P) (a # as2))) h h1"
    by (rule frame_mono [OF h1(3)]) (use used_idx_map_release in \<open>auto simp: used_idx_append\<close>)
  ultimately show ?case using h'(2,3) by (auto intro: frame_trans)
qed

text \<open>
  The collector keeps the bytes of an area that stays in use, up to the collection mark in its
  header: \<open>same_user\<close> compares all the rest.
\<close>

definition same_user :: "nat set \<Rightarrow> heap \<Rightarrow> heap \<Rightarrow> bool" where
  "same_user U h h' \<longleftrightarrow>
     (\<forall>i \<in> U. owner (blk h' i) = owner (blk h i) \<and> prev (blk h' i) = prev (blk h i) \<and>
        nxt (blk h' i) = nxt (blk h i) \<and> last_byte (blk h' i) = last_byte (blk h i))"

lemma same_user_trans: "same_user U h h1 \<Longrightarrow> same_user U h1 h2 \<Longrightarrow> same_user U h h2"
  and same_user_mono: "same_user V h h' \<Longrightarrow> U \<subseteq> V \<Longrightarrow> same_user U h h'"
  and frame_same_user: "frame U h h' \<Longrightarrow> same_user U h h'"
  and set_blocks_same_user: "same_user U h (set_blocks i v h)"
  by (auto simp: same_user_def frame_def set_blocks_def upd_field_cong)

lemma used_idx_map_sweep: "used_idx p (map (sweep pid) as) \<subseteq> used_idx p as"
proof (induction as arbitrary: p)
  case (Cons a as)
  have "is_used (sweep pid a) \<Longrightarrow> is_used a" by (cases a) simp_all
  with Cons.IH [of "p + asz a"] show ?case by auto
qed simp

text \<open>One step of the collector on the area at hand.\<close>

lemma rep_gc_step:
  assumes r: "rep h (as1 @ a # as2)" and s: "settled as2" "\<not> is_held a" and b: "b = tot as1"
  shows "\<exists>h'. (if owner (blk h b) = pid \<and> is_reserved h b
     then if \<not> is_marked h b then ker_free (user_part h b) h
          else Some (set_blocks b (blocks (blk h b) AND NOT GC_MARK) h)
     else Some h) = Some h' \<and> rep h' (as1 @ sweep pid a # as2) \<and>
    same_user (used_idx 0 (as1 @ sweep pid a # as2)) h h'"
proof (cases a)
  case (Used n own g k)
  with r have r: "rep h (as1 @ Used n own g k # as2)" by simp
  note w = rep_used_word [OF r b]
  consider "own \<noteq> pid" | "own = pid" "k" | "own = pid" "\<not> k" "own = g" | "own = pid" "\<not> k" "own \<noteq> g"
    by blast
  then show ?thesis
  proof cases
    case 2
    then show ?thesis using w rep_mark(2) [OF r b] Used by (simp add: set_blocks_same_user)
  next
    case 3
    then show ?thesis
      using w rep_free [of h as1 n own k as2] r b Used by (auto intro: frame_same_user)
  next
    case 4
    then show ?thesis using w rep_free_damaged [OF r] r b Used by (simp add: frame_same_user)
  qed (use w r b Used in \<open>simp add: frame_same_user\<close>)
next
  case (Free n)
  then show ?thesis using rep_walk [OF r s] r b by (simp add: frame_same_user)
qed (use s in simp)

lemma rep_gc_walk:
  assumes "rep h (as1 @ as2)" "settled as2"
  shows "\<exists>h'. gc_walk pid (tot as1) h = Some h' \<and>
     rep h' (as1 @ map (sweep pid) as2) \<and> same_user (used_idx 0 (as1 @ map (sweep pid) as2)) h h'"
  using assms
proof (induction as2 arbitrary: h as1)
  case Nil
  then show ?case by (subst gc_walk.simps) (simp add: rep_def frame_same_user)
next
  case (Cons a as2)
  let ?b = "tot as1"
  have s: "settled as2" "\<not> is_held a" using Cons.prems(2) by auto
  have s': "\<not> is_held (sweep pid a)" using s(2) by (cases a) auto
  note w = rep_walk [OF Cons.prems(1) s]
  obtain h1 where h1: "(if owner (blk h ?b) = pid \<and> is_reserved h ?b
     then if \<not> is_marked h ?b then ker_free (user_part h ?b) h
          else Some (set_blocks ?b (blocks (blk h ?b) AND NOT GC_MARK) h)
     else Some h) = Some h1" "rep h1 (as1 @ sweep pid a # as2)"
    "same_user (used_idx 0 (as1 @ sweep pid a # as2)) h h1"
    using rep_gc_step [OF Cons.prems(1) s refl, of pid] by blast
  have r1: "rep h1 ((as1 @ [sweep pid a]) @ as2)" using h1(2) by simp
  obtain h' where h': "gc_walk pid (tot (as1 @ [sweep pid a])) h1 = Some h'"
    "rep h' ((as1 @ [sweep pid a]) @ map (sweep pid) as2)"
    "same_user (used_idx 0 ((as1 @ [sweep pid a]) @ map (sweep pid) as2)) h1 h'"
    using Cons.IH [OF r1 s(1)] by blast
  have "gc_walk pid ?b h = gc_walk pid (?b + area_blocks h1 ?b) h1"
    using w(3,4) unfolding gc_walk.simps [of pid ?b h] h1(1) by simp
  also have "area_blocks h1 ?b = asz a" using rep_walk(1) [OF h1(2) s(1) s'] by simp
  finally have "gc_walk pid ?b h = Some h'" using h'(1) by simp
  moreover have "same_user (used_idx 0 (as1 @ map (sweep pid) (a # as2))) h h1"
    by (rule same_user_mono [OF h1(3)]) (use used_idx_map_sweep in \<open>auto simp: used_idx_append\<close>)
  ultimately show ?case using h'(2,3) by (auto intro: same_user_trans)
qed

lemma rep_gc_mark_walk:
  assumes "rep h (as1 @ as2)" "settled as2"
  shows "gc_mark_walk pid ba (tot as1) h =
    (case List.find (\<lambda>(q, a). blk_addr h q = ba \<and> aown a = pid) (live (tot as1) as2) of
       None \<Rightarrow> Some (h, - EINVAL)
     | Some (q, _) \<Rightarrow> Some (set_blocks q (blocks (blk h q) OR GC_MARK) h, SOS_OK))"
  using assms
proof (induction as2 arbitrary: as1)
  case Nil
  then show ?case by (subst gc_mark_walk.simps) (simp add: rep_def)
next
  case (Cons a as2)
  let ?b = "tot as1"
  have s: "settled as2" "\<not> is_held a" using Cons.prems(2) by auto
  note w = rep_walk [OF Cons.prems(1) s]
  have n: "0 < asz a" using rep_pos [OF Cons.prems(1)] by simp
  have later: "List.find (\<lambda>(q, a). blk_addr h q = ba \<and> aown a = pid) (live (?b + asz a) as2) = None"
    if "blk_addr h ?b = ba"
    using that n by (auto simp: find_None_iff blk_addr_def BLOCK_SIZE_def elim!: live_split)
  have ow: "is_used a \<Longrightarrow> owner (blk h ?b) = aown a"
    using rep_area [OF Cons.prems(1)] by (cases a) auto
  have IH: "gc_mark_walk pid ba (?b + asz a) h =
    (case List.find (\<lambda>(q, a). blk_addr h q = ba \<and> aown a = pid) (live (?b + asz a) as2) of
       None \<Rightarrow> Some (h, - EINVAL)
     | Some (q, _) \<Rightarrow> Some (set_blocks q (blocks (blk h q) OR GC_MARK) h, SOS_OK))"
    using Cons.IH [of "as1 @ [a]"] Cons.prems(1) s by simp
  show ?case
    using w ow later IH by (subst gc_mark_walk.simps) auto
qed

section \<open>The start\<close>

lemma rep_mem_init:
  assumes len: "2 \<le> length arr" and bound: "base + BLOCK_SIZE * length arr \<le> 65536"
  shows "\<exists>h. mem_init base arr = Some h \<and> rep h [Free (length arr - 1)] \<and> malloc_heap h = base"
proof -
  define s where "s = length arr - 1"
  define h2 where "h2 = set_blocks s (blocks (blk (set_blocks s 1 \<lparr>malloc_heap = base, mem = arr, mSentinel = s\<rparr>) s) OR RESERVED)
     (set_blocks s 1 \<lparr>malloc_heap = base, mem = arr, mSentinel = s\<rparr>)"
  define h4 where "h4 = set_next s s (set_prev s s h2)"
  define h5 where "h5 = set_blocks 0 (of_nat s) h4"
  have s: "s < length arr" "0 < s" "Suc s = length arr" using len by (auto simp: s_def)
  have f2: "length (mem h2) = length arr" "malloc_heap h2 = base" "mSentinel h2 = s"
    by (simp_all add: h2_def)
  have b2: "blocks (blk h2 s) = RESERVED OR 1"
    using s by (simp add: h2_def mem_set_blocks or.commute)
  have f4: "length (mem h4) = length arr" "malloc_heap h4 = base" "mSentinel h4 = s"
    using f2 by (simp_all add: h4_def)
  have pos: "0 < length (mem h4)" using f4(1) s(1) by linarith
  have small: "s < 65536" "blk_addr h2 s < 65536"
    using bound s f2 by (simp_all add: blk_addr_def BLOCK_SIZE_def)
  have nodes: "is_node h2 s" using s f2 small by (simp add: is_node_def)
  have "nextp h4 s = s" "prevp h4 s = s"
    using nodes by (simp_all add: h4_def fl.store_simps)
  then have "ring (nextp h4) (prevp h4) s []" by (simp add: ring_def)
  moreover have "blocks (blk h5 s) = RESERVED OR 1" "unat (blocks (blk h5 0)) = s"
    unfolding h5_def mem_set_blocks [OF pos] using s(2) b2 small
    by (simp_all add: unat_of_nat16) (simp add: h4_def)
  ultimately have "rep h5 ([] @ Held s # [])"
    using s f4 bound by (simp add: rep_def h5_def)
  then obtain h' where h': "InsertAfter 0 h5 = Some h'" "rep h' [Free s]" "frame {} h5 h'"
    by (rule rep_InsertAfter) simp
  moreover have "malloc_heap h' = base" using h'(3) f4 by (simp add: frame_def h5_def)
  moreover have "mem_init base arr = InsertAfter 0 h5"
    by (simp add: mem_init_def Let_def NUM_HEAP_BLOCKS_def h5_def h4_def h2_def s_def)
  ultimately show ?thesis by (simp add: s_def)
qed

end
