(* ===== verification/Malloc_Props.thy ===== *)
theory Malloc_Props
  imports Malloc_Release
begin

text \<open>
  The properties of the memory manager, stated over the operations of \<^verbatim>\<open>kernel/malloc.c\<close>
  and the areas in use: \<open>live 0 as\<close> is the set of the areas in use with the block they start
  at, \<open>frame U h h'\<close> says that no byte of the blocks in \<open>U\<close> has changed.
\<close>

section \<open>Facts about the areas in use\<close>

lemma live_pos: "(q, a) \<in> set (live p as) \<Longrightarrow> p \<le> q \<and> q \<le> p + tot as"
  by (induction as arbitrary: p) (fastforce split: if_splits)+

lemma live_at:
  assumes "\<forall>a \<in> set (as1 @ a # as2). 0 < asz a"
  shows "(tot as1, b) \<in> set (live 0 (as1 @ a # as2)) \<longleftrightarrow> is_used a \<and> b = a"
proof -
  have "(tot as1, b) \<notin> set (live 0 as1)"
  proof
    assume "(tot as1, b) \<in> set (live 0 as1)"
    then obtain cs1 cs2 where "as1 = cs1 @ b # cs2" "tot as1 = 0 + tot cs1" by (rule live_split)
    with assms show False by auto
  qed
  moreover have "(tot as1, b) \<notin> set (live (tot as1 + asz a) as2)"
    using live_pos [of "tot as1" b "tot as1 + asz a" as2] assms by auto
  ultimately show ?thesis by (auto simp: live_append)
qed

lemma live_replace:
  assumes "\<forall>c \<in> set (as1 @ a # as2). 0 < asz c" "asz b = asz a" "is_used a"
  shows "set (live 0 (as1 @ b # as2)) =
    set (live 0 (as1 @ a # as2)) - {(tot as1, a)} \<union> (if is_used b then {(tot as1, b)} else {})"
proof -
  have "(tot as1, a) \<notin> set (live 0 as1 @ live (tot as1 + asz a) as2)"
    using live_at [OF assms(1), of a] live_at [of as1 "Free (asz a)" as2 a] assms
    by (auto simp: live_append)
  then show ?thesis using assms(2,3) by (auto simp: live_append)
qed

lemma other_used_eq: "is_used a \<Longrightarrow> other_used as1 (asz a) as2 = used_idx 0 (as1 @ a # as2) - {tot as1..<tot as1 + asz a}"
  using used_idx_bounds [of _ 0 as1] used_idx_bounds [of _ "tot as1 + asz a" as2]
  by (fastforce simp: other_used_def used_idx_append)

lemma used_idx_member: "(q, a) \<in> set (live 0 as) \<Longrightarrow> {q..<q + asz a} \<subseteq> used_idx 0 as"
  by (auto simp: used_idx_live)

lemma live_asz_pos: "rep h as \<Longrightarrow> (q, a) \<in> set (live p as) \<Longrightarrow> 0 < asz a"
  by (erule live_split) (auto dest: rep_pos)

lemma behind:
  assumes "as1 @ a # as2 = bs1 @ b # bs2" "tot as1 < tot bs1"
  shows "b \<in> set as2"
proof -
  from assms(1) consider us where "as1 = bs1 @ us" | us where "bs1 = as1 @ us" "a # as2 = us @ b # bs2"
    by (auto simp: append_eq_append_conv2)
  then show ?thesis
  proof cases
    case 2
    with assms(2) show ?thesis by (cases us) auto
  qed (use assms(2) in auto)
qed

lemma live_map:
  assumes "\<And>a. asz (f a) = asz a" "\<And>a. \<not> is_used a \<Longrightarrow> \<not> is_used (f a)"
  shows "set (live p (map f as)) = {(q, f a) | q a. (q, a) \<in> set (live p as) \<and> is_used (f a)}"
proof (induction as arbitrary: p)
  case (Cons a as)
  then show ?case using assms by (cases "is_used a") auto
qed simp

lemma release_used: "is_used (release P a) \<longleftrightarrow> is_used a \<and> \<not> (P a \<and> aown a = aguard a)"
  and release_id: "is_used (release P a) \<Longrightarrow> release P a = a"
  by (cases a; auto)+

lemma release_held: "\<not> is_held a \<Longrightarrow> \<not> is_held (release P a)"
  and sweep_held: "\<not> is_held a \<Longrightarrow> \<not> is_held (sweep pid a)"
  by (cases a; simp)+

lemma live_release:
  "set (live p (map (release (\<lambda>a. aown a = pid)) as)) =
     {(q, a) \<in> set (live p as). \<not> (aown a = pid \<and> aguard a = pid)}"
proof (induction as arbitrary: p)
  case (Cons a as)
  then show ?case by (cases a) auto
qed simp

lemma live_sweep:
  "set (live p (map (sweep pid) as)) =
     (\<lambda>(q, a). (q, if aown a = pid then Used (asz a) (aown a) (aguard a) False else a)) `
      {(q, a) \<in> set (live p as). aown a = pid \<and> aguard a = pid \<longrightarrow> amark a}"
proof (induction as arbitrary: p)
  case (Cons a as)
  have ins: "{(q, a) \<in> insert (p, c) S. P a} = (if P c then insert (p, c) {(q, a) \<in> S. P a} else {(q, a) \<in> S. P a})"
    for c S and P :: "area \<Rightarrow> bool" by auto
  show ?case
  proof (cases a)
    case (Used n own g k)
    then have l: "set (live p (a # as)) = insert (p, a) (set (live (p + n) as))" by simp
    show ?thesis unfolding l ins using Cons.IH [of "p + n"] Used by simp
  qed (simp_all add: Cons.IH)
qed simp

lemma sweep_used: "\<not> is_used a \<Longrightarrow> \<not> is_used (sweep pid a)"
  by (cases a) auto

lemma settled_map: "settled as \<Longrightarrow> (\<And>a. \<not> is_held a \<Longrightarrow> \<not> is_held (f a)) \<Longrightarrow> settled (map f as)"
  by (induction as) auto

lemma max_free_split_off:
  "req \<le> n \<Longrightarrow> max_free c (as1 @ Free req # split_off req n @ as2) = max_free c (as1 @ Free n # as2)"
  by (induction as1 arbitrary: c) (auto simp: split_off_def)

lemma max_free_quick:
  "max_free c (Free (fst (merge_quick req n as)) # snd (merge_quick req n as)) = max_free c (Free n # as)"
  by (induction req n as rule: merge_quick.induct) (auto simp: add.assoc)

text \<open>The place of a first-fit allocation, and what freeing it again gives.\<close>

lemma alloc_areas_place:
  "snd (alloc_areas req pid p as) = Some q \<Longrightarrow>
   \<exists>as1 n as2. fst (alloc_areas req pid p as) = as1 @ Used req pid pid False # split_off req n @ as2 \<and>
     req \<le> n \<and> q = p + tot as1 \<and> (\<forall>c. max_free c (as1 @ Free n # as2) = max_free c as)"
proof (induction req pid p as rule: alloc_areas.induct)
  case (2 req pid p n as)
  define n' as' where "n' = fst (merge_quick req n as)" and "as' = snd (merge_quick req n as)"
  have m: "max_free c (Free n' # as') = max_free c (Free n # as)" for c
    unfolding n'_def as'_def by (rule max_free_quick)
  show ?case
  proof (cases "req \<le> n'")
    case True
    with 2(3) m show ?thesis
      unfolding alloc_areas.simps Let_def n'_def [symmetric] as'_def [symmetric]
      by (intro exI [of _ "[]"] exI [of _ n'] exI [of _ as']) auto
  next
    case False
    then obtain as1 k as2 where
      "fst (alloc_areas req pid (p + n') as') = as1 @ Used req pid pid False # split_off req k @ as2"
      "req \<le> k" "q = p + n' + tot as1" "\<forall>c. max_free c (as1 @ Free k # as2) = max_free c as'"
      using 2(1) [OF n'_def as'_def] 2(3)
      unfolding alloc_areas.simps Let_def n'_def [symmetric] as'_def [symmetric] by auto
    with False 2(3) m show ?thesis
      unfolding alloc_areas.simps Let_def n'_def [symmetric] as'_def [symmetric]
      by (intro exI [of _ "Free n' # as1"] exI [of _ k] exI [of _ as2]) auto
  qed
next
  case (3 req pid p n pid' g k as)
  then obtain as1 m as2 where
    "fst (alloc_areas req pid (p + n) as) = as1 @ Used req pid pid False # split_off req m @ as2"
    "req \<le> m" "q = p + n + tot as1" "\<forall>c. max_free c (as1 @ Free m # as2) = max_free c as" by auto
  then show ?case by (intro exI [of _ "Used n pid' g k # as1"] exI [of _ m] exI [of _ as2]) auto
next
  case (4 req pid p n as)
  then obtain as1 m as2 where
    "fst (alloc_areas req pid (p + n) as) = as1 @ Used req pid pid False # split_off req m @ as2"
    "req \<le> m" "q = p + n + tot as1" "\<forall>c. max_free c (as1 @ Free m # as2) = max_free c as" by auto
  then show ?case by (intro exI [of _ "Held n # as1"] exI [of _ m] exI [of _ as2]) auto
qed simp

text \<open>A heap of twelve blocks after the start, and after one allocation.\<close>

definition zero_block :: block where
  "zero_block = \<lparr>blocks = 0, owner = 0, prev = 0, nxt = 0, last_byte = 0\<rparr>"

lemma small_heap: "\<exists>h. mem_init 256 (replicate 12 zero_block) = Some h \<and> rep h [Free 11]"
  using rep_mem_init [of "replicate 12 zero_block" 256] by (auto simp: BLOCK_SIZE_def)

lemma small_heap_used:
  "\<exists>h0 h. mem_init 256 (replicate 12 zero_block) = Some h0 \<and>
     sos_blk_mem_alloc 20 130 h0 = Some (h, user_part h 0) \<and> rep h [Used 3 130 130 False, Free 8]"
proof -
  obtain h0 where h0: "mem_init 256 (replicate 12 zero_block) = Some h0" "rep h0 [Free 11]"
    using small_heap by blast
  have req: "unat (req_blocks 20) = 3" by (simp add: unat_req_blocks)
  have "alloc_areas 3 130 0 [Free 11] = ([Used 3 130 130 False, Free 8], Some 0)"
    by (simp add: Let_def split_off_def)
  with rep_alloc [OF h0(2), of 20 _ "Some 0" 130] req obtain h where
    h: "sos_blk_mem_alloc 20 130 h0 = Some (h, user_part h0 0)" "rep h [Used 3 130 130 False, Free 8]"
      "frame {} h0 h"
    by auto
  then have "user_part h 0 = user_part h0 0" by (intro user_part_cong) (simp add: frame_def)
  with h0 h show ?thesis by metis
qed

section \<open>Allocation and release\<close>

text \<open>
  C3. \<^verbatim>\<open>ker_malloc\<close> (\<^verbatim>\<open>sos_blk_mem_alloc\<close>) on a well-formed heap always returns, and
  leaves a well-formed heap in which no byte of an area in use has changed. It returns
  \<^verbatim>\<open>NULL\<close> exactly if no run of adjacent free areas holds the requested number of blocks;
  otherwise it returns the user part of an area that has room for the request, the header and
  the guard byte, lies in the heap, overlaps no area in use, and is owned by the caller.
\<close>

theorem ker_malloc_correct:
  assumes "rep h as" "settled as" "sz \<noteq> 0" "unat sz \<le> 65524" "req = unat (req_blocks sz)"
  shows "\<exists>h' p as'. sos_blk_mem_alloc sz pid h = Some (h', p) \<and> rep h' as' \<and> settled as' \<and>
    frame (used_idx 0 as) h h' \<and>
    (if max_free 0 as < req then p = NULL \<and> set (live 0 as') = set (live 0 as)
     else \<exists>q. p = user_part h q \<and> unat sz + BLOCKOVERHEAD \<le> BLOCK_SIZE * req \<and>
       q + req \<le> tot as \<and> {q..<q + req} \<inter> used_idx 0 as = {} \<and>
       set (live 0 as') = insert (q, Used req pid pid False) (set (live 0 as)))"
  by (rule first_fit.alloc_contract [OF assms])

theorem ker_malloc_correct_witness:
  "\<exists>h h' p as'. mem_init 256 (replicate 12 zero_block) = Some h \<and> rep h [Free 11] \<and>
     sos_blk_mem_alloc 20 130 h = Some (h', p) \<and> rep h' as' \<and> p \<noteq> NULL"
proof -
  obtain h where h: "mem_init 256 (replicate 12 zero_block) = Some h" "rep h [Free 11]"
    using small_heap by blast
  from ker_malloc_correct [OF h(2), of 20 3 130] h show ?thesis
    by (auto simp: unat_req_blocks user_part_def HEADER_SIZE_def)
qed

text \<open>
  C30. \<^verbatim>\<open>malloc_longterm\<close> (\<^verbatim>\<open>sos_blk_mem_longterm_alloc\<close>) keeps the same contract: it
  returns, fails exactly if no run of adjacent free areas is large enough, and what it returns
  overlaps no area in use, none of which changes.
\<close>

theorem malloc_longterm_correct:
  assumes "rep h as" "settled as" "sz \<noteq> 0" "unat sz \<le> 65524" "req = unat (req_blocks sz)"
  shows "\<exists>h' p as'. sos_blk_mem_longterm_alloc sz pid h = Some (h', p) \<and> rep h' as' \<and> settled as' \<and>
    frame (used_idx 0 as) h h' \<and>
    (if max_free 0 as < req then p = NULL \<and> set (live 0 as') = set (live 0 as)
     else \<exists>q. p = user_part h q \<and> unat sz + BLOCKOVERHEAD \<le> BLOCK_SIZE * req \<and>
       q + req \<le> tot as \<and> {q..<q + req} \<inter> used_idx 0 as = {} \<and>
       set (live 0 as') = insert (q, Used req pid pid False) (set (live 0 as)))"
  by (rule far_end.alloc_contract [OF assms])

theorem malloc_longterm_correct_witness:
  "\<exists>h h' p as'. mem_init 256 (replicate 12 zero_block) = Some h \<and> rep h [Free 11] \<and>
     sos_blk_mem_longterm_alloc 20 130 h = Some (h', p) \<and> rep h' as' \<and> p \<noteq> NULL"
proof -
  obtain h where h: "mem_init 256 (replicate 12 zero_block) = Some h" "rep h [Free 11]"
    using small_heap by blast
  from malloc_longterm_correct [OF h(2), of 20 3 130] h show ?thesis
    by (auto simp: unat_req_blocks user_part_def HEADER_SIZE_def)
qed

text \<open>
  C29. \<^verbatim>\<open>ker_free\<close> of a pointer to an area in use with an intact guard byte returns, removes
  exactly this area from the areas in use, and changes no byte of the other ones.
\<close>

theorem ker_free_correct:
  assumes "rep h as" "settled as" "(q, Used n pid pid k) \<in> set (live 0 as)"
  shows "\<exists>h' as'. sos_blk_mem_free (user_part h q) h = Some h' \<and> rep h' as' \<and> settled as' \<and>
    set (live 0 as') = set (live 0 as) - {(q, Used n pid pid k)} \<and>
    frame (used_idx 0 as - {q..<q + n}) h h'"
proof -
  obtain as1 as2 where as: "as = as1 @ Used n pid pid k # as2" "q = 0 + tot as1"
    by (rule live_split [OF assms(3)])
  then have r: "rep h (as1 @ Used n pid pid k # as2)" using assms(1) by simp
  then obtain h' where "sos_blk_mem_free (user_part h q) h = Some h'" "rep h' (as1 @ Free n # as2)"
    "frame (other_used as1 n as2) h h'"
    using rep_free as(2) by fastforce
  then show ?thesis
    using live_replace [OF rep_pos [OF r], of "Free n"] other_used_eq [of "Used n pid pid k" as1 as2]
      as assms(2) by (intro exI [of _ h'] exI [of _ "as1 @ Free n # as2"]) auto
qed

theorem ker_free_correct_witness:
  "\<exists>h h'. rep h [Used 3 130 130 False, Free 8] \<and> sos_blk_mem_free (user_part h 0) h = Some h'"
proof -
  obtain h where h: "rep h [Used 3 130 130 False, Free 8]" using small_heap_used by blast
  with ker_free_correct [OF h, of 0 3 130 False] show ?thesis by auto
qed

text \<open>
  Long-term allocation is at the far end of the heap: when \<^verbatim>\<open>malloc_longterm\<close>
  returns an area, every free area behind it is too small for the request.
\<close>

theorem malloc_longterm_far_end:
  assumes "rep h as" "settled as" "sz \<noteq> 0" "unat sz \<le> 65524"
    and res: "sos_blk_mem_longterm_alloc sz pid h = Some (h', user_part h q)"
  shows "\<exists>as'. rep h' as' \<and>
    (\<forall>as1 m as2. as' = as1 @ Free m # as2 \<and> q < tot as1 \<longrightarrow> m < unat (req_blocks sz))"
proof -
  let ?req = "unat (req_blocks sz)"
  have r: "rep h' (fst (longterm_areas ?req pid 0 as))"
    "user_part h q = (case snd (longterm_areas ?req pid 0 as) of None \<Rightarrow> NULL | Some b \<Rightarrow> user_part h b)"
    using rep_longterm_alloc [OF assms(1-3) req_blocks_pos [OF assms(4)] prod.collapse, of pid] res by auto
  then obtain bs where t: "take_last ?req pid 0 (defrag as) = Some (bs, q)"
    and bs: "fst (longterm_areas ?req pid 0 as) = bs"
    by (auto simp: longterm_areas_def user_part_def HEADER_SIZE_def blk_addr_def BLOCK_SIZE_def
          split: option.splits)
  obtain as1 n as2 where a: "q = 0 + tot as1 + (n - ?req)" "?req \<le> n"
    "bs = (as1 @ split_off ?req n) @ Used ?req pid pid False # as2"
    "\<not> (\<exists>a \<in> set as2. is_free a \<and> ?req \<le> asz a)"
    by (rule take_last_SomeE [OF t]) simp
  have "m < ?req" if "bs = bs1 @ Free m # bs2" "q < tot bs1" for bs1 m bs2
  proof -
    have "Free m \<in> set as2"
      using that a by (intro behind [of "as1 @ split_off ?req n"]) (auto simp: split_off_def)
    with a(4) show ?thesis by force
  qed
  with r(1) bs show ?thesis by auto
qed

theorem malloc_longterm_far_end_witness:
  "\<exists>h h' as'. rep h [Free 11] \<and> sos_blk_mem_longterm_alloc 20 130 h = Some (h', user_part h 8) \<and>
     rep h' as' \<and> (\<forall>as1 m as2. as' = as1 @ Free m # as2 \<and> 8 < tot as1 \<longrightarrow> m < 3)"
proof -
  obtain h where h: "rep h [Free 11]" using small_heap by blast
  have req: "unat (req_blocks 20) = 3" by (simp add: unat_req_blocks)
  obtain h' where h': "sos_blk_mem_longterm_alloc 20 130 h = Some (h', user_part h 8)"
    using rep_longterm_alloc [OF h, of 20 "[Free 8, Used 3 130 130 False]" "Some 8" 130] req
    by (auto simp: longterm_areas_def)
  with malloc_longterm_far_end [OF h, of 20 130 h' 8] h req show ?thesis by auto
qed

text \<open>
  Releasing what was just allocated undoes the allocation for every client: the same areas
  are in use, no byte of them has changed, and the largest run of free blocks, which decides
  what can be allocated, is what it was.
\<close>

theorem malloc_free_roundtrip:
  assumes r: "rep h as" "settled as" and sz: "sz \<noteq> 0" "unat sz \<le> 65524"
    and fits: "unat (req_blocks sz) \<le> max_free 0 as"
  shows "\<exists>h1 p h2 as'. sos_blk_mem_alloc sz pid h = Some (h1, p) \<and> sos_blk_mem_free p h1 = Some h2 \<and>
    rep h2 as' \<and> settled as' \<and> set (live 0 as') = set (live 0 as) \<and>
    max_free 0 as' = max_free 0 as \<and> frame (used_idx 0 as) h h2"
proof -
  let ?req = "unat (req_blocks sz)"
  let ?s = "alloc_areas ?req pid 0 as"
  have pos: "0 < ?req" using sz(2) by (rule req_blocks_pos)
  obtain q where q: "snd ?s = Some q" using first_fit.spec_None [OF pos, of pid 0 as] fits by fastforce
  obtain as1 n as2 where a: "fst ?s = as1 @ Used ?req pid pid False # split_off ?req n @ as2"
    "?req \<le> n" "q = tot as1" "max_free 0 (as1 @ Free n # as2) = max_free 0 as"
    using alloc_areas_place [OF q] by auto
  let ?bs = "split_off ?req n @ as2"
  obtain h1 where h1: "sos_blk_mem_alloc sz pid h = Some (h1, user_part h q)"
    "rep h1 (as1 @ Used ?req pid pid False # ?bs)" "frame (used_idx 0 as) h h1"
    using rep_alloc [OF r sz(1) pos prod.collapse, of pid] q a(1) by auto
  obtain h2 where h2: "sos_blk_mem_free (user_part h1 q) h1 = Some h2" "rep h2 (as1 @ Free ?req # ?bs)"
    "frame (other_used as1 ?req ?bs) h1 h2"
    using rep_free [OF h1(2)] a(3) by auto
  have up: "user_part h1 q = user_part h q" using h1(3) by (intro user_part_cong) (simp add: frame_def)
  have U: "other_used as1 ?req ?bs = used_idx 0 (fst ?s) - {q..<q + ?req}"
    using other_used_eq [of "Used ?req pid pid False" as1 ?bs] a(1,3) by simp
  have "used_idx 0 as \<subseteq> other_used as1 ?req ?bs"
    using alloc_areas_used [OF q] alloc_areas_fresh [OF q] unfolding U by blast
  then have fr: "frame (used_idx 0 as) h h2" using frame_trans [OF h1(3) frame_mono [OF h2(3)]] by blast
  have "q \<notin> used_idx 0 as" using alloc_areas_fresh [OF q] pos by (auto simp: disjoint_iff)
  then have "(q, Used ?req pid pid False) \<notin> set (live 0 as)"
    using pos by (force simp: used_idx_live)
  then have "set (live 0 (as1 @ Free ?req # ?bs)) = set (live 0 as)"
    using live_replace [OF rep_pos [OF h1(2)], of "Free ?req"] alloc_areas_live [of 0 ?req pid as] a(1,3) q
    by auto
  moreover have "settled (as1 @ Free ?req # ?bs)"
    using alloc_areas_settled [OF r(2), of ?req pid 0] a(1) by simp
  ultimately show ?thesis
    using h1(1) h2(1,2) up fr a(4) max_free_split_off [OF a(2), of 0 as1 as2]
    by (intro exI [of _ h1] exI [of _ "user_part h q"] exI [of _ h2] exI [of _ "as1 @ Free ?req # ?bs"]) simp
qed

theorem malloc_free_roundtrip_witness:
  "\<exists>h h1 p h2 as'. rep h [Used 3 130 130 False, Free 8] \<and>
     sos_blk_mem_alloc 40 131 h = Some (h1, p) \<and> sos_blk_mem_free p h1 = Some h2 \<and>
     rep h2 as' \<and> set (live 0 as') = {(0, Used 3 130 130 False)}"
proof -
  obtain h where h: "rep h [Used 3 130 130 False, Free 8]" using small_heap_used by blast
  obtain h1 p h2 as' where r: "sos_blk_mem_alloc 40 131 h = Some (h1, p)" "sos_blk_mem_free p h1 = Some h2"
    "rep h2 as'" "set (live 0 as') = {(0, Used 3 130 130 False)}"
    using malloc_free_roundtrip [OF h, of 40 131] by (fastforce simp: unat_req_blocks)
  show ?thesis by (intro exI conjI) (fact h r)+
qed

lemma damaged_area:
  assumes "rep h as" "(q, Used n pid g k) \<in> set (live 0 as)" "pid \<noteq> g" "new \<noteq> NULL_PID"
  shows "sos_blk_mem_free (user_part h q) h = Some h \<and>
    sos_blk_mem_change_own (user_part h q) new h = Some (h, - EINVAL)"
proof -
  obtain as1 as2 where as: "as = as1 @ Used n pid g k # as2" "q = 0 + tot as1"
    by (rule live_split [OF assms(2)])
  then have r: "rep h (as1 @ Used n pid g k # as2)" using assms(1) by simp
  show ?thesis
    using rep_free_damaged [OF r assms(3)] rep_ptr [OF r refl] rep_used_word [OF r refl] assms(3,4) as(2)
    by (simp add: sos_blk_mem_change_own_def)
qed

text \<open>
  The guard byte: \<^verbatim>\<open>ker_free\<close> and \<^verbatim>\<open>ker_change_own\<close> of an area whose guard
  byte no longer agrees with its owner, as after a write past its end, leave the heap alone,
  and the latter reports the error.
\<close>

theorem damaged_guard:
  assumes "rep h as" "(q, Used n pid g k) \<in> set (live 0 as)" "pid \<noteq> g" "new \<noteq> NULL_PID"
  shows "sos_blk_mem_free (user_part h q) h = Some h \<and>
    sos_blk_mem_change_own (user_part h q) new h = Some (h, - EINVAL)"
  by (rule damaged_area [OF assms])

lemma damaged_heap: "\<exists>h. rep h [Used 3 130 131 False, Free 8]"
proof -
  obtain h where h: "rep h [Used 3 130 130 False, Free 8]" using small_heap_used by blast
  let ?h = "set_guard 0 131 h"
  have "rep ?h ([] @ Used 3 130 131 False # [Free 8])"
    by (rule rep_header [of h "[]" "Used 3 130 130 False" "[Free 8]"])
       (use h rep_len [OF h] rep_used_word [of h "[]" 3 130 130 False "[Free 8]" 0] rep_area [of h "[]" "Used 3 130 130 False" "[Free 8]"] in
         \<open>auto simp: mem_set_guard\<close>)
  then show ?thesis by auto
qed

theorem damaged_guard_witness:
  "\<exists>h. rep h [Used 3 130 131 False, Free 8] \<and> sos_blk_mem_free (user_part h 0) h = Some h"
proof -
  obtain h where h: "rep h [Used 3 130 131 False, Free 8]" using damaged_heap by blast
  have "sos_blk_mem_free (user_part h 0) h = Some h"
    using damaged_guard [OF h, of 0 3 130 131 False 132] by (simp add: pid_defs)
  with h show ?thesis by (intro exI [of _ h] conjI)
qed

text \<open>
  C31. \<^verbatim>\<open>mem_remove_all\<close>, which the kernel calls when a module is removed, returns and
  releases exactly the areas of this module (those with an intact guard byte); all other areas
  stay in use with every byte as it was.
\<close>

theorem mem_remove_all_correct:
  assumes "rep h as" "settled as"
  shows "\<exists>h' as'. mem_remove_all pid h = Some (h', SOS_OK) \<and> rep h' as' \<and> settled as' \<and>
    set (live 0 as') = {(q, a) \<in> set (live 0 as). \<not> (aown a = pid \<and> aguard a = pid)} \<and>
    frame (used_idx 0 as') h h'"
proof -
  let ?f = "release (\<lambda>a. aown a = pid)"
  obtain h' where "remove_walk pid 0 h = Some h'" "rep h' (map ?f as)" "frame (used_idx 0 (map ?f as)) h h'"
    using rep_remove_walk [of h "[]" as pid] assms by auto
  moreover have "settled (map ?f as)"
    by (rule settled_map [OF assms(2)]) (rule release_held)
  moreover have "set (live 0 (map ?f as)) = {(q, a) \<in> set (live 0 as). \<not> (aown a = pid \<and> aguard a = pid)}"
    by (rule live_release)
  ultimately show ?thesis
    by (intro exI [of _ h'] exI [of _ "map ?f as"]) (simp add: mem_remove_all_def)
qed

theorem mem_remove_all_correct_witness:
  "\<exists>h h' as'. rep h [Used 3 130 130 False, Free 8] \<and> mem_remove_all 130 h = Some (h', SOS_OK) \<and>
     rep h' as' \<and> live 0 as' = []"
proof -
  obtain h where h: "rep h [Used 3 130 130 False, Free 8]" using small_heap_used by blast
  have s: "settled [Used 3 130 130 False, Free 8]" by simp
  from mem_remove_all_correct [OF h s, of 130] obtain h' as' where
    r: "mem_remove_all 130 h = Some (h', SOS_OK)" "rep h' as'" and
    l: "set (live 0 as') = {(q, a) \<in> set (live 0 [Used 3 130 130 False, Free 8]).
          \<not> (aown a = 130 \<and> aguard a = 130)}"
    by blast
  have "set (live 0 as') = {}" unfolding l by auto
  then have e: "live 0 as' = []" by simp
  show ?thesis by (intro exI conjI) (fact h r e)+
qed

lemma find_live:
  assumes "\<forall>a \<in> set as. 0 < asz a" "(q, a) \<in> set (live 0 as)"
  shows "List.find (\<lambda>(r, c). blk_addr h r = blk_addr h q \<and> aown c = pid) (live 0 as) =
    (if aown a = pid then Some (q, a) else None)"
proof -
  have uniq: "c = a" if "(q, c) \<in> set (live 0 as)" for c
  proof -
    obtain as1 as2 where as: "as = as1 @ a # as2" "q = 0 + tot as1" by (rule live_split [OF assms(2)])
    with live_at [of as1 a as2 c] assms(1) that show ?thesis by simp
  qed
  have eq: "blk_addr h r = blk_addr h q \<longleftrightarrow> r = q" for r by (simp add: blk_addr_def BLOCK_SIZE_def)
  show ?thesis
  proof (cases "List.find (\<lambda>(r, c). blk_addr h r = blk_addr h q \<and> aown c = pid) (live 0 as)")
    case None
    then show ?thesis using assms(2) by (auto simp: find_None_iff)
  next
    case (Some t)
    from find_SomeD [OF this] uniq Some show ?thesis by (cases t) (auto simp: eq)
  qed
qed

text \<open>
  \<^verbatim>\<open>ker_gc_mark\<close> finds an area of the module by its pointer and marks it, and
  reports \<^verbatim>\<open>-EINVAL\<close> without a change for the pointer of an area of another module.
\<close>

theorem ker_gc_mark_correct:
  assumes "rep h as" "settled as" "(q, Used n own g k) \<in> set (live 0 as)"
  shows "\<exists>h' as'. ker_gc_mark pid (user_part h q) h = Some (h', if own = pid then SOS_OK else - EINVAL) \<and>
    rep h' as' \<and> same_user (used_idx 0 as) h h' \<and>
    set (live 0 as') = (if own = pid then set (live 0 as) - {(q, Used n own g k)} \<union> {(q, Used n own g True)}
       else set (live 0 as))"
proof -
  obtain as1 as2 where as: "as = as1 @ Used n own g k # as2" "q = 0 + tot as1"
    by (rule live_split [OF assms(3)])
  then have r: "rep h (as1 @ Used n own g k # as2)" using assms(1) by simp
  let ?h = "set_blocks q (blocks (blk h q) OR GC_MARK) h"
  have "gc_mark_walk pid (blk_addr h q) 0 h = Some (if own = pid then (?h, SOS_OK) else (h, - EINVAL))"
    using rep_gc_mark_walk [of h "[]" as pid "blk_addr h q"] find_live [OF rep_pos [OF assms(1)] assms(3)] assms
    by simp
  then have g: "ker_gc_mark pid (user_part h q) h = Some (if own = pid then (?h, SOS_OK) else (h, - EINVAL))"
    using rep_ptr [OF r] as(2) by (simp add: ker_gc_mark_def)
  show ?thesis
  proof (cases "own = pid")
    case True
    then show ?thesis
      using g rep_mark(1) [OF r refl] as live_replace [OF rep_pos [OF r], of "Used n own g True"]
      by (intro exI [of _ ?h] exI [of _ "as1 @ Used n own g True # as2"]) (simp add: set_blocks_same_user)
  next
    case False
    with g assms(1) show ?thesis by (intro exI [of _ h] exI [of _ as]) (simp add: frame_same_user)
  qed
qed

theorem ker_gc_mark_correct_witness:
  "\<exists>h h' as'. rep h [Used 3 130 130 False, Free 8] \<and>
     ker_gc_mark 130 (user_part h 0) h = Some (h', SOS_OK) \<and> rep h' as' \<and>
     set (live 0 as') = {(0, Used 3 130 130 True)}"
proof -
  obtain h where h: "rep h [Used 3 130 130 False, Free 8]" using small_heap_used by blast
  have s: "settled [Used 3 130 130 False, Free 8]" by simp
  have l: "(0, Used 3 130 130 False) \<in> set (live 0 [Used 3 130 130 False, Free 8])" by simp
  from ker_gc_mark_correct [OF h s l, of 130] obtain h' as' where
    r: "ker_gc_mark 130 (user_part h 0) h = Some (h', SOS_OK)" "rep h' as'" and
    l': "set (live 0 as') = set (live 0 [Used 3 130 130 False, Free 8]) - {(0, Used 3 130 130 False)}
       \<union> {(0, Used 3 130 130 True)}"
    unfolding if_P [OF refl] by blast
  have e: "set (live 0 as') = {(0, Used 3 130 130 True)}" unfolding l' by simp
  show ?thesis by (intro exI conjI) (fact h r e)+
qed

text \<open>
  C32. The collection of a module's memory, \<^verbatim>\<open>malloc_gc\<close>: exactly the unmarked areas of
  the module (with an intact guard byte) are released, the marked ones stay and lose their
  mark, and all areas that stay in use keep their owner, guard byte and contents.
\<close>

theorem malloc_gc_correct:
  assumes "rep h as" "settled as"
  shows "\<exists>h' as'. malloc_gc pid h = Some h' \<and> rep h' as' \<and> settled as' \<and>
    set (live 0 as') = (\<lambda>(q, a). (q, if aown a = pid then Used (asz a) (aown a) (aguard a) False else a)) `
      {(q, a) \<in> set (live 0 as). aown a = pid \<and> aguard a = pid \<longrightarrow> amark a} \<and>
    same_user (used_idx 0 as') h h'"
proof -
  obtain h' where "gc_walk pid 0 h = Some h'" "rep h' (map (sweep pid) as)"
    "same_user (used_idx 0 (map (sweep pid) as)) h h'"
    using rep_gc_walk [of h "[]" as pid] assms by auto
  moreover have "settled (map (sweep pid) as)" by (rule settled_map [OF assms(2)]) (rule sweep_held)
  moreover have "set (live 0 (map (sweep pid) as)) =
    (\<lambda>(q, a). (q, if aown a = pid then Used (asz a) (aown a) (aguard a) False else a)) `
      {(q, a) \<in> set (live 0 as). aown a = pid \<and> aguard a = pid \<longrightarrow> amark a}"
    by (rule live_sweep)
  ultimately show ?thesis
    unfolding malloc_gc_def by (intro exI [of _ h'] exI [of _ "map (sweep pid) as"] conjI)
qed

theorem malloc_gc_correct_witness:
  "\<exists>h h' as'. rep h [Used 3 130 130 False, Free 8] \<and> malloc_gc 130 h = Some h' \<and>
     rep h' as' \<and> live 0 as' = []"
proof -
  obtain h where h: "rep h [Used 3 130 130 False, Free 8]" using small_heap_used by blast
  have s: "settled [Used 3 130 130 False, Free 8]" by simp
  from malloc_gc_correct [OF h s, of 130] obtain h' as' where
    r: "malloc_gc 130 h = Some h'" "rep h' as'" and
    l: "set (live 0 as') = (\<lambda>(q, a). (q, if aown a = 130 then Used (asz a) (aown a) (aguard a) False else a)) `
      {(q, a) \<in> set (live 0 [Used 3 130 130 False, Free 8]). aown a = 130 \<and> aguard a = 130 \<longrightarrow> amark a}"
    by blast
  have "set (live 0 as') = {}" unfolding l by auto
  then have e: "live 0 as' = []" by simp
  show ?thesis by (intro exI conjI) (fact h r e)+
qed

text \<open>
  \<^verbatim>\<open>ker_change_own\<close> hands an area in use over to another module: its owner and its
  guard byte are rewritten, nothing else of the heap changes, and no area is created or lost.
\<close>

theorem ker_change_own_correct:
  assumes "rep h as" "settled as" "(q, Used n own own k) \<in> set (live 0 as)" "pid \<noteq> NULL_PID"
  shows "\<exists>h' as'. sos_blk_mem_change_own (user_part h q) pid h = Some (h', SOS_OK) \<and> rep h' as' \<and>
    settled as' \<and>
    set (live 0 as') = set (live 0 as) - {(q, Used n own own k)} \<union> {(q, Used n pid pid k)} \<and>
    frame (used_idx 0 as - {q..<q + n}) h h' \<and>
    (\<forall>i. prev (blk h' i) = prev (blk h i) \<and> nxt (blk h' i) = nxt (blk h i))"
proof -
  obtain as1 as2 where as: "as = as1 @ Used n own own k # as2" "q = 0 + tot as1"
    by (rule live_split [OF assms(3)])
  then have r: "rep h (as1 @ Used n own own k # as2)" using assms(1) by simp
  let ?as = "as1 @ Used n pid pid k # as2"
  obtain h' where h': "sos_blk_mem_change_own (user_part h q) pid h = Some (h', SOS_OK)" "rep h' ?as"
    "frame (other_used as1 n as2) h h'" "\<forall>i. prev (blk h' i) = prev (blk h i) \<and> nxt (blk h' i) = nxt (blk h i)"
    using rep_change_own [OF r assms(4)] as(2) by auto
  then show ?thesis
    using live_replace [OF rep_pos [OF r], of "Used n pid pid k"] other_used_eq [of "Used n own own k" as1 as2]
      as assms(2) by (intro exI [of _ h'] exI [of _ ?as]) auto
qed

theorem ker_change_own_correct_witness:
  "\<exists>h h' as'. rep h [Used 3 130 130 False, Free 8] \<and>
     sos_blk_mem_change_own (user_part h 0) 131 h = Some (h', SOS_OK) \<and> rep h' as' \<and>
     set (live 0 as') = {(0, Used 3 131 131 False)}"
proof -
  let ?as = "[Used 3 130 130 False, Free 8]"
  obtain h where h: "rep h ?as" using small_heap_used by blast
  have p: "settled ?as" "(0, Used 3 130 130 False) \<in> set (live 0 ?as)" "131 \<noteq> NULL_PID"
    by (simp_all add: pid_defs)
  from ker_change_own_correct [OF h p] obtain h' as' where
    r: "sos_blk_mem_change_own (user_part h 0) 131 h = Some (h', SOS_OK)" "rep h' as'" and
    l: "set (live 0 as') = set (live 0 ?as) - {(0, Used 3 130 130 False)} \<union> {(0, Used 3 131 131 False)}"
    by blast
  have e: "set (live 0 as') = {(0, Used 3 131 131 False)}" unfolding l by simp
  show ?thesis by (intro exI conjI) (fact h r e)+
qed

lemma req_blocks_wrapped: "65524 < unat sz \<Longrightarrow> unat (req_blocks sz) = (unat sz - 65525) div 8"
proof -
  assume a: "65524 < unat sz"
  have e: "sz + of_nat BLOCKOVERHEAD + of_nat BLOCK_SIZE - 1 = sz + 11" by (simp add: malloc_consts)
  have b: "unat sz < 65536" by (rule unat16_less)
  have "unat (sz + 11) = (unat sz + 11) mod 65536" by (simp add: unat_word_ariths)
  also have "\<dots> = unat sz - 65525"
    using a b by (simp add: mod_if)
  finally show ?thesis
    unfolding req_blocks_def e SHIFT_VALUE_def by (simp add: drop_bit_eq_div unat_div)
qed

text \<open>
  The number of blocks of a request has room for it, with the header and the guard byte,
  exactly for the sizes up to 65524: above, the 16-bit sum wraps around.
\<close>

theorem req_blocks_room: "unat sz + BLOCKOVERHEAD \<le> BLOCK_SIZE * unat (req_blocks sz) \<longleftrightarrow> unat sz \<le> 65524"
proof (cases "unat sz \<le> 65524")
  case True
  then show ?thesis by (simp add: unat_req_blocks malloc_consts)
next
  case False
  have b: "unat sz < 65536" by (rule unat16_less)
  from False have "unat (req_blocks sz) = (unat sz - 65525) div 8" by (simp add: req_blocks_wrapped)
  with False b show ?thesis by (simp add: malloc_consts)
qed

text \<open>
  C40. What the wrap-around means: a request for 65533 bytes or more is granted with an area of
  one block, four bytes for the user, wherever a block is free.
\<close>

theorem ker_malloc_huge:
  assumes "rep h as" "settled as" "65533 \<le> unat sz" "1 \<le> max_free 0 as"
  shows "\<exists>h' as' q. sos_blk_mem_alloc sz pid h = Some (h', user_part h q) \<and> rep h' as' \<and>
    (q, Used 1 pid pid False) \<in> set (live 0 as')"
proof -
  have b: "unat sz < 65536" by (rule unat16_less)
  have "(unat sz - 65525) div 8 = 1" using assms(3) b by simp
  then have q: "unat (req_blocks sz) = 1" using assms(3) by (simp add: req_blocks_wrapped)
  have z: "sz \<noteq> 0" using assms(3) by auto
  let ?s = "alloc_areas 1 pid 0 as"
  obtain c where c: "snd ?s = Some c" using alloc_areas_None [of 1 pid 0 as] assms(4) by (cases "snd ?s") auto
  obtain h' where h': "sos_blk_mem_alloc sz pid h = Some (h', user_part h c)" "rep h' (fst ?s)"
    using rep_alloc [OF assms(1,2) z _ prod.collapse, of pid] q c by auto
  moreover have "(c, Used 1 pid pid False) \<in> set (live 0 (fst ?s))"
    using alloc_areas_live [of 0 1 pid as] c by simp
  ultimately show ?thesis by blast
qed

theorem ker_malloc_huge_witness:
  "\<exists>h h' as' q. rep h [Free 11] \<and> sos_blk_mem_alloc 65535 130 h = Some (h', user_part h q) \<and>
     rep h' as' \<and> (q, Used 1 130 130 False) \<in> set (live 0 as')"
proof -
  obtain h where h: "rep h [Free 11]" using small_heap by blast
  have "settled [Free 11]" "65533 \<le> unat (65535 :: u16)" "1 \<le> max_free 0 [Free 11]" by simp_all
  from ker_malloc_huge [OF h this, of 130] obtain h' as' q where
    r: "sos_blk_mem_alloc 65535 130 h = Some (h', user_part h q)" "rep h' as'"
      "(q, Used 1 130 130 False) \<in> set (live 0 as')" by blast
  show ?thesis by (intro exI conjI) (fact h r)+
qed

end
