(* ===== verification/Malloc_Realloc.thy ===== *)
theory Malloc_Realloc
  imports Malloc_Props
begin

text \<open>
  Reallocation, \<^verbatim>\<open>sos_blk_mem_realloc\<close>: the area grows or shrinks in place if the free
  areas behind it suffice, and moves otherwise. Both keep the bytes of the user.
\<close>

section \<open>The blocks that merging and splitting write to\<close>

abbreviation link_blocks :: "area list \<Rightarrow> nat set" where
  "link_blocks as \<equiv> set (tot as # fstarts 0 as)"

lemma frame_step: "frame V h h1 \<Longrightarrow> frame W h1 h2 \<Longrightarrow> U \<subseteq> V \<Longrightarrow> U \<subseteq> W \<Longrightarrow> frame U h h2"
  using frame_trans frame_mono by metis

lemma same_user_step:
  "same_user V h h1 \<Longrightarrow> same_user W h1 h2 \<Longrightarrow> U \<subseteq> V \<Longrightarrow> U \<subseteq> W \<Longrightarrow> same_user U h h2"
  using same_user_trans same_user_mono by metis

lemma link_blocks_merge:
  "link_blocks (as1 @ Held (fst (merge_all n as2)) # snd (merge_all n as2)) \<subseteq> link_blocks (as1 @ Held n # as2)"
proof -
  have "set (fstarts (p + fst (merge_all n as2)) (snd (merge_all n as2))) \<subseteq> set (fstarts (p + n) as2)" for p
    by (induction n as2 rule: merge_all.induct) (auto simp: add.assoc)
  then show ?thesis using merge_all_tot [of n as2] by (auto simp: fstarts_append)
qed

lemma MergeBlocks_writes:
  assumes "rep h (as1 @ Held n # as2)" "settled as2" "MergeBlocks (tot as1) h = Some h'"
  shows "frame (- insert (tot as1) (link_blocks (as1 @ Held n # as2))) h h' \<and>
    same_user (- link_blocks (as1 @ Held n # as2)) h h'"
  using assms
proof (induction as2 arbitrary: n h)
  case Nil
  then show ?case using merge_stop(1) [of h as1 False n "[]"] by (simp add: frame_same_user)
next
  case (Cons a as)
  show ?case
  proof (cases a)
    case (Free m)
    let ?b = "tot as1" and ?L = "link_blocks (as1 @ Held n # Free m # as)"
    let ?s = "?b + unat (blocks (blk h ?b))"
    let ?h1 = "Unlink ?s h"
    let ?h2 = "set_blocks ?b (blocks (blk ?h1 ?b) + blocks (blk ?h1 ?s)) ?h1"
    have r: "rep h (as1 @ vacant False n # Free m # as)" and s: "settled (Free m # as)"
      and r': "rep h ((as1 @ [Held n]) @ Free m # as)"
      using Cons.prems Free by simp_all
    have sn: "?s = tot (as1 @ [Held n])" using vacant_size [OF r] by simp
    have ab: "rep ?h2 (as1 @ Held (n + m) # as)"
      using rep_absorb(1) [OF r refl refl refl refl] by simp
    have "\<not> is_reserved h ?s" using succ_reserved [OF r s] vacant_size [OF r] by simp
    then have "MergeBlocks ?b ?h2 = Some h'"
      using Cons.prems(3) by (subst (asm) MergeBlocks.simps) (simp add: Let_def)
    then have IH: "frame (- insert ?b (link_blocks (as1 @ Held (n + m) # as))) ?h2 h'"
      "same_user (- link_blocks (as1 @ Held (n + m) # as)) ?h2 h'"
      using Cons.IH [OF ab] s by auto
    have sub: "link_blocks (as1 @ Held (n + m) # as) \<subseteq> ?L" by (auto simp: fstarts_append add.assoc)
    have u: "frame (- ?L) h ?h1" using Unlink_writes [OF r'] unfolding sn by simp
    have "frame (- insert ?b ?L) ?h1 ?h2" unfolding set_blocks_def by (rule frame_upd) simp
    then have "frame (- insert ?b ?L) h ?h2" by (rule frame_step [OF u]) auto
    then have 1: "frame (- insert ?b ?L) h h'" by (rule frame_step [OF _ IH(1)]) (use sub in auto)
    have "same_user (- ?L) h ?h2"
      using frame_same_user [OF u] set_blocks_same_user by (rule same_user_trans)
    then have 2: "same_user (- ?L) h h'" by (rule same_user_step [OF _ IH(2)]) (use sub in auto)
    from 1 2 show ?thesis unfolding Free by (rule conjI)
  next
    case (Used m pid g k)
    then show ?thesis
      using merge_stop(1) [of h as1 False n "a # as"] Cons.prems by (simp add: frame_same_user)
  qed (use Cons.prems in simp)
qed

lemma SplitBlock_writes:
  assumes r: "rep h (as1 @ Held n # as2)" and q: "0 < unat q" "unat q < n"
    and sp: "SplitBlock (tot as1) q h = Some h'"
  shows "frame (- insert (tot as1) (insert (tot as1 + unat q) (link_blocks (as1 @ Held n # as2)))) h h' \<and>
    same_user (- insert (tot as1 + unat q) (link_blocks (as1 @ Held n # as2))) h h'"
proof -
  define b h1 where "b = tot as1" and "h1 = set_blocks (b + unat q) (blocks (blk h b) - q) h"
  define h2 where "h2 = set_blocks b q h1"
  define h3 where "h3 = set_blocks (b + unat q) (blocks (blk h2 (b + unat q)) AND NOT MEM_MASK) h2"
  let ?L = "insert (b + unat q) (link_blocks (as1 @ Held n # as2))"
  have r': "rep h (as1 @ vacant False n # as2)" using r by simp
  have c: "rep h3 ((as1 @ [Held (unat q)]) @ Held (n - unat q) # as2)"
    using rep_cut(1) [OF r' q b_def h1_def h2_def h3_def] by simp
  have ins: "InsertAfter (tot (as1 @ [Held (unat q)])) h3 = Some h'"
    using sp by (simp add: SplitBlock_def Let_def b_def h1_def h2_def h3_def)
  have w: "frame (- set (tot ((as1 @ [Held (unat q)]) @ Free (n - unat q) # as2) #
      fstarts 0 ((as1 @ [Held (unat q)]) @ Free (n - unat q) # as2))) h3 h'"
    by (rule rep_InsertAfter [OF c]) (use ins in auto)
  have L: "set (tot ((as1 @ [Held (unat q)]) @ Free (n - unat q) # as2) #
      fstarts 0 ((as1 @ [Held (unat q)]) @ Free (n - unat q) # as2)) = ?L"
    using q by (auto simp: fstarts_append b_def)
  have "frame (- insert b ?L) h h3"
    unfolding h1_def h2_def h3_def set_blocks_def
    by (intro frame_trans [OF frame_trans [OF frame_upd frame_upd] frame_upd]) auto
  then have 1: "frame (- insert b ?L) h h'" by (rule frame_step [OF _ w [unfolded L]]) auto
  have "same_user (- ?L) h h3"
    unfolding h1_def h2_def h3_def 
    by (rule same_user_trans [OF same_user_trans [OF set_blocks_same_user set_blocks_same_user] set_blocks_same_user])
  then have "same_user (- ?L) h h'" by (rule same_user_trans [OF _ frame_same_user [OF w [unfolded L]]])
  with 1 show ?thesis unfolding b_def by (rule conjI)
qed

section \<open>The bytes of the user\<close>

text \<open>
  \<open>kept b c n h h'\<close>: the user part of \<open>n\<close> blocks at \<open>b\<close> in \<open>h\<close>, without the byte that is the
  guard byte of an area of \<open>n\<close> blocks, is found at \<open>c\<close> in \<open>h'\<close>.
\<close>

definition kept :: "nat \<Rightarrow> nat \<Rightarrow> nat \<Rightarrow> heap \<Rightarrow> heap \<Rightarrow> bool" where
  "kept b c n h h' \<longleftrightarrow>
     (\<forall>i < n. prev (blk h' (c + i)) = prev (blk h (b + i)) \<and> nxt (blk h' (c + i)) = nxt (blk h (b + i)) \<and>
       (0 < i \<longrightarrow> blocks (blk h' (c + i)) = blocks (blk h (b + i)) \<and>
                  owner (blk h' (c + i)) = owner (blk h (b + i))) \<and>
       (Suc i < n \<longrightarrow> last_byte (blk h' (c + i)) = last_byte (blk h (b + i))))"

lemma kept_trans: "kept b c n h h1 \<Longrightarrow> kept c d n h1 h2 \<Longrightarrow> kept b d n h h2"
  by (simp add: kept_def)

lemma kept_frame: "frame U h h' \<Longrightarrow> {b..<b + n} \<subseteq> U \<Longrightarrow> kept b b n h h'"
  by (auto simp: kept_def frame_def subset_iff)

lemma kept_writes:
  assumes f: "frame (- insert b L) h h'" and u: "same_user (- L) h h'" and L: "{b..<b + n} \<inter> L = {}"
  shows "kept b b n h h'"
proof -
  have 1: "mem h' ! (b + i) = mem h ! (b + i)" if "0 < i" "i < n" for i
    using f that L by (auto simp: frame_def disjoint_iff)
  have 2: "prev (blk h' b) = prev (blk h b)" "nxt (blk h' b) = nxt (blk h b)"
    "last_byte (blk h' b) = last_byte (blk h b)" if "0 < n"
    using u that L by (auto simp: same_user_def disjoint_iff)
  show ?thesis unfolding kept_def
  proof (intro allI impI)
    fix i assume "i < n"
    then show "prev (blk h' (b + i)) = prev (blk h (b + i)) \<and> nxt (blk h' (b + i)) = nxt (blk h (b + i)) \<and>
       (0 < i \<longrightarrow> blocks (blk h' (b + i)) = blocks (blk h (b + i)) \<and>
                  owner (blk h' (b + i)) = owner (blk h (b + i))) \<and>
       (Suc i < n \<longrightarrow> last_byte (blk h' (b + i)) = last_byte (blk h (b + i)))"
      using 1 [of i] 2 by (cases "i = 0") simp_all
  qed
qed

lemma link_blocks_Held:
  assumes "rep h (as1 @ Held n # as2)"
  shows "{tot as1..<tot as1 + n} \<inter> link_blocks (as1 @ Held n # as2) = {}"
proof -
  have pos: "\<forall>a \<in> set as1. 0 < asz a" "\<forall>a \<in> set as2. 0 < asz a" using rep_pos [OF assms] by auto
  have "x \<notin> set (fstarts 0 as1)" "x \<notin> set (fstarts (tot as1 + n) as2)"
    if "tot as1 \<le> x" "x < tot as1 + n" for x
    using that fstarts_less [OF pos(1), of x 0] fstarts_less [OF pos(2), of x "tot as1 + n"] by auto
  then show ?thesis by (auto simp: fstarts_append)
qed

lemma kept_reserve:
  assumes r: "rep h (as1 @ Held n # as2)" and m: "m \<le> n"
  shows "kept (tot as1) (tot as1) m h (reserve (tot as1) pid h)"
proof -
  let ?b = "tot as1" and ?w = "blocks (blk h (tot as1)) OR RESERVED"
  let ?h2 = "set_owner ?b pid (set_blocks ?b ?w h)"
  have len: "?b < length (mem h)" "?b + n - 1 < length (mem h)" using rep_len [OF r] by auto
  have a: "0 < n" "unat (blocks (blk h ?b)) = n" using rep_area [OF r] by auto
  have m2: "mem ?h2 ! j = (if j = ?b then (blk h ?b)\<lparr>blocks := ?w, owner := pid\<rparr> else blk h j)" for j
    using len by (simp add: mem_set_owner mem_set_blocks)
  have ab: "area_blocks ?h2 ?b = n"
    using a rep_small [OF r] by (simp add: area_blocks_def m2 mask_or_RESERVED)
  have "mem (reserve ?b pid h) ! j =
      (if j = ?b + n - 1 then (mem ?h2 ! j)\<lparr>last_byte := pid\<rparr> else mem ?h2 ! j)" for j
    unfolding reserve_def Let_def using len ab by (subst mem_set_guard) auto
  then show ?thesis using m unfolding kept_def m2 by auto
qed

section \<open>Growing and shrinking in place\<close>

lemma kept_mono: "kept b c n h h' \<Longrightarrow> m \<le> n \<Longrightarrow> kept b c m h h'"
  by (simp add: kept_def)

text \<open>Exposing the size and merging: the common start of all cases.\<close>

lemma rep_realloc_start:
  assumes r: "rep h (as1 @ Used n pid g False # as2)" and s: "settled as2" and b: "b = tot as1"
    and h1: "h1 = set_blocks b (blocks (blk h b) AND NOT RESERVED) h"
  shows "\<exists>h2. MergeBlocks b h1 = Some h2 \<and> owner (blk h2 b) = pid \<and>
    rep h2 (as1 @ Held (fst (merge_all n as2)) # snd (merge_all n as2)) \<and>
    frame (other_used as1 n as2) h h2 \<and> kept b b n h h2 \<and>
    (\<forall>i. b \<le> i \<and> i < b + n \<longrightarrow> last_byte (blk h2 i) = last_byte (blk h i))"
proof -
  have r1: "rep h1 (as1 @ Held n # as2)" "frame (other_used as1 n as2) h h1"
    using rep_expose [OF r b] h1 by simp_all
  have k1: "same_user UNIV h h1" unfolding h1 by (rule set_blocks_same_user)
  obtain h2 where h2: "MergeBlocks b h1 = Some h2"
    "rep h2 (as1 @ Held (fst (merge_all n as2)) # snd (merge_all n as2))" "frame (other_used as1 n as2) h1 h2"
    using rep_MergeBlocks [of h1 as1 False n as2] r1(1) s b by auto
  have w: "frame (- insert b (link_blocks (as1 @ Held n # as2))) h1 h2"
    "same_user (- link_blocks (as1 @ Held n # as2)) h1 h2"
    using MergeBlocks_writes [OF r1(1) s] h2(1) b by auto
  have d: "{b..<b + n} \<inter> link_blocks (as1 @ Held n # as2) = {}"
    using link_blocks_Held [OF r1(1)] b by simp
  have f1: "frame (- insert b {}) h h1" unfolding h1 set_blocks_def by (rule frame_upd) simp
  have "kept b b n h h1"
    by (rule kept_writes [OF f1 same_user_mono [OF k1]]) auto
  moreover have "kept b b n h1 h2" by (rule kept_writes [OF w d])
  ultimately have k: "kept b b n h h2" by (rule kept_trans)
  have su: "same_user {b..<b + n} h h2"
    by (rule same_user_step [OF k1 w(2)]) (use d in auto)
  have "0 < n" using rep_area [OF r] by simp
  then have "owner (blk h2 b) = pid"
    using su rep_used_word(4) [OF r b] by (simp add: same_user_def)
  then show ?thesis
    using h2 frame_trans [OF r1(2) h2(3)] k su by (auto simp: same_user_def)
qed

lemma rep_realloc_split:
  assumes r: "rep h (as1 @ Held n # as2)" and q: "0 < unat q" "unat q < n" and b: "b = tot as1"
  shows "\<exists>h'. SplitBlock b q h = Some h' \<and> rep h' (as1 @ Held (unat q) # Free (n - unat q) # as2) \<and>
    frame (other_used as1 n as2) h h' \<and> kept b b (unat q) h h'"
proof -
  obtain h' where h': "SplitBlock b q h = Some h'" "rep h' (as1 @ Held (unat q) # Free (n - unat q) # as2)"
    "frame (other_used as1 n as2) h h'"
    using rep_SplitBlock [of h as1 False n as2 q] r q b by auto
  let ?L = "insert (b + unat q) (link_blocks (as1 @ Held n # as2))"
  have "frame (- insert b ?L) h h'" "same_user (- ?L) h h'"
    using SplitBlock_writes [OF r q] h'(1) b by auto
  then have "kept b b (unat q) h h'"
    by (rule kept_writes) (use link_blocks_Held [OF r] q b in \<open>auto simp: disjoint_iff\<close>)
  with h' show ?thesis by blast
qed

lemma rep_realloc_in_place:
  assumes r: "rep h (as1 @ Used n pid g False # as2)" and s: "settled as2" and b: "b = tot as1"
    and sz: "sz \<noteq> 0" "unat sz \<le> 65524" and req: "req = unat (req_blocks sz)"
    and m: "(n', as') = merge_all n as2" and fits: "req \<le> n'"
  shows "\<exists>h'. sos_blk_mem_realloc (user_part h b) sz h = Some (h', user_part h b) \<and>
    rep h' (as1 @ Used req pid pid False # split_off req n' @ as') \<and>
    frame (other_used as1 n as2) h h' \<and> kept b b (min n req) h h'"
proof -
  let ?q = "req_blocks sz" and ?h1 = "set_blocks b (blocks (blk h b) AND NOT RESERVED) h"
  have pos: "0 < unat ?q" using sz(2) by (rule req_blocks_pos)
  obtain h2 where h2: "MergeBlocks b ?h1 = Some h2" "rep h2 (as1 @ Held n' # as')"
    "frame (other_used as1 n as2) h h2" "kept b b n h h2"
    using rep_realloc_start [OF r s b refl] unfolding m [symmetric] by auto
  have n': "unat (blocks (blk h2 b)) = n'" using rep_area [OF h2(2)] b by simp
  have ou: "other_used as1 n as2 = other_used as1 n' as'"
    using merge_all_used [of "tot as1" n as2] unfolding m [symmetric] by (simp add: other_used_def)
  define h3o where "h3o = (if blocks (blk h2 b) > ?q then SplitBlock b ?q h2 else Some h2)"
  obtain h3 where h3: "h3o = Some h3" "rep h3 (as1 @ Held req # split_off req n' @ as')"
    "frame (other_used as1 n' as') h2 h3" "kept b b req h2 h3"
  proof (cases "req < n'")
    case True
    with rep_realloc_split [OF h2(2) pos _ b] that req n' show thesis
      by (auto simp: h3o_def split_off_def word_less_nat_alt)
  next
    case False
    with fits that [of h2] h2(2) req n' show thesis
      by (auto simp: h3o_def split_off_def word_less_nat_alt kept_def)
  qed
  let ?h4 = "reserve b pid h3"
  note r4 = rep_reserve [OF h3(2) b, of pid]
  have ou': "other_used as1 req (split_off req n' @ as') = other_used as1 n' as'"
    using fits by (auto simp: other_used_def split_off_def)
  have fr: "frame (other_used as1 n as2) h ?h4"
    using frame_trans [OF h2(3) frame_trans [OF h3(3) r4(2) [unfolded ou'], folded ou]] .
  have "kept b b (min n req) h h2" "kept b b (min n req) h2 h3" "kept b b (min n req) h3 ?h4"
    using kept_mono [OF h2(4)] kept_mono [OF h3(4)] kept_reserve [OF h3(2), of "min n req" pid] b by simp_all
  then have "kept b b (min n req) h ?h4" by (blast intro: kept_trans)
  moreover have "user_part ?h4 b = user_part h b"
    using fr by (intro user_part_cong) (simp add: frame_def)
  moreover have "sos_blk_mem_realloc (user_part h b) sz h = Some (?h4, user_part ?h4 b)"
    using rep_ptr [OF r b] sz(1) h2(1) h3(1) fits n' req rep_used_word(4) [OF r b]
    by (auto simp: sos_blk_mem_realloc_def Let_def h3o_def word_less_nat_alt)
  ultimately show ?thesis using r4(1) fr by auto
qed

section \<open>Moving\<close>

text \<open>
  If the area behind is not free, exposing the size, merging and reserving again change
  nothing, and what is left of the operation is allocation, copy and release.
\<close>

lemma upd_upd: "upd i f (upd i g h) = upd i (f \<circ> g) h"
  by (cases "i < length (mem h)") (simp_all add: upd_def list_update_beyond)

lemma upd_id: "f (blk h i) = blk h i \<Longrightarrow> upd i f h = h"
  by (simp add: upd_def list_update_id)

lemma realloc_blocked:
  assumes r: "rep h (as1 @ Used n pid g False # as2)" and s: "settled as2" and b: "b = tot as1"
    and nx: "as2 = [] \<or> is_used (hd as2)"
    and sz: "sz \<noteq> 0" "n < unat (req_blocks sz)"
  shows "sos_blk_mem_realloc (user_part h b) sz h = do {
    (h4, p) \<leftarrow> sos_blk_mem_alloc sz pid h;
    if p \<noteq> NULL then do {
      newb \<leftarrow> addr_blk h4 (TO_BLOCK_PTR p);
      h5 \<leftarrow> sos_blk_mem_free (user_part h b) (copy_user newb b n h4);
      let h6 = reserve newb pid h5;
      Some (h6, user_part h6 newb)
    } else Some (h4, NULL) }"
proof -
  let ?w = "blocks (blk h b)" and ?h1 = "set_blocks b (blocks (blk h b) AND NOT RESERVED) h"
  have r1: "rep ?h1 (as1 @ Held n # as2)" using rep_expose(1) [OF r b] by simp
  then have m: "MergeBlocks b ?h1 = Some ?h1"
    using merge_stop(1) [of ?h1 as1 False n as2] s nx b by simp
  have len: "b < length (mem h)" using rep_len [OF r] b by simp
  have w1: "blocks (blk ?h1 b) = ?w AND NOT RESERVED" using len by (simp add: mem_set_blocks)
  have "bit ?w 15" using rep_used_word(2) [OF r b] .
  then have ww: "(?w AND NOT RESERVED) OR RESERVED = ?w"
    by (intro bit_word_eqI) (auto simp: hdr_bits)
  have n: "unat (?w AND NOT RESERVED) = n" using rep_area [OF r1] b w1 by simp
  have restore: "set_blocks b ?w ?h1 = h"
    by (simp add: set_blocks_def upd_upd upd_id)
  have ab: "area_blocks ?h1 b = n"
    using n rep_small [OF r1] by (simp add: area_blocks_def w1 mask_free)
  have "\<not> req_blocks sz < ?w AND NOT RESERVED" "?w AND NOT RESERVED < req_blocks sz"
    using sz(2) n by (simp_all add: word_less_nat_alt)
  then show ?thesis
    using rep_ptr [OF r b] sz(1) m unfolding rep_used_word(4) [OF r b, symmetric]
    by (simp add: sos_blk_mem_realloc_def Let_def w1 ww restore ab)
qed

lemma reserve_again:
  assumes r: "rep h (as1 @ Used n pid pid False # as2)" and b: "b = tot as1"
  shows "reserve b pid h = h"
proof -
  note u = rep_used_word [OF r b]
  have "blocks (blk h b) OR RESERVED = blocks (blk h b)"
    using u(2) by (intro bit_word_eqI) (auto simp: hdr_bits)
  then have "set_blocks b (blocks (blk h b) OR RESERVED) h = h" by (simp add: set_blocks_def upd_id)
  moreover have "set_owner b pid h = h" using u(4) by (simp add: set_owner_def upd_id)
  moreover have "set_guard b pid h = h"
    using u(8) by (simp add: set_guard_def upd_id BLOCK_GUARD_BYTE_def)
  ultimately show ?thesis by (simp add: reserve_def)
qed

text \<open>Writes inside an area in use, links included, do not concern the free list.\<close>

lemma rep_inside:
  assumes r: "rep h (as1 @ a # as2)" and a: "is_used a"
    and eqs: "length (mem h') = length (mem h)" "malloc_heap h' = malloc_heap h" "mSentinel h' = mSentinel h"
    and out: "\<And>i. i < length (mem h) \<Longrightarrow> i < tot as1 \<or> tot as1 + asz a \<le> i \<Longrightarrow> mem h' ! i = mem h ! i"
    and at: "area_at (mem h') (tot as1) a"
  shows "rep h' (as1 @ a # as2)"
proof -
  let ?as = "as1 @ a # as2"
  have len: "length (mem h) = Suc (tot ?as)" using rep_len [OF r] .
  have "layout (mem h') 0 as1 = layout (mem h) 0 as1"
    by (rule layout_cong) (use len in \<open>simp add: out\<close>)
  moreover have "layout (mem h') (tot as1 + asz a) as2 = layout (mem h) (tot as1 + asz a) as2"
    by (rule layout_cong) (use len in \<open>simp add: out\<close>)
  ultimately have lay: "layout (mem h') 0 ?as" using r at by (simp add: rep_def layout_append)
  have node: "mem h' ! x = mem h ! x" if x: "x \<in> set (tot ?as # fstarts 0 ?as)" for x
  proof -
    have "x \<notin> used_idx 0 ?as" "x \<le> tot ?as" using rep_frame_start [OF r x] by auto
    then show ?thesis using a len by (intro out) (auto simp: used_idx_append)
  qed
  have "ring (nextp h') (prevp h') (tot ?as) (fstarts 0 ?as) = ring (nextp h) (prevp h) (tot ?as) (fstarts 0 ?as)"
    by (rule ring_cong) (simp_all only: nextp_def prevp_def ptr_blk_def node eqs)
  then show ?thesis
    using r lay node [of "tot ?as"] eqs unfolding rep_def by simp
qed

lemma rep_copy_user:
  assumes r: "rep h (as1 @ Used m pid g k # as2)" and q: "q = tot as1" and n: "0 < n" "n < m"
    and src: "{c..<c + n} \<inter> {q..<q + m} = {}" and c: "c + n \<le> length (mem h)"
  shows "rep (copy_user q c n h) (as1 @ Used m pid g k # as2)"
    "frame (other_used as1 m as2) h (copy_user q c n h)" "kept c q n h (copy_user q c n h)"
proof -
  let ?h = "copy_user q c n h"
  have len: "q + m \<le> length (mem h)" using rep_len [OF r] q by simp
  have mm: "mem ?h ! i = (if i = q then (blk h q)\<lparr>prev := prev (blk h c), nxt := nxt (blk h c),
        last_byte := last_byte (blk h c)\<rparr>
      else if q < i \<and> i < q + n then blk h (c + (i - q)) else blk h i)" if "i < length (mem h)" for i
    using that n by (simp add: copy_user_def)
  have eqs: "length (mem ?h) = length (mem h)" "malloc_heap ?h = malloc_heap h" "mSentinel ?h = mSentinel h"
    by (simp_all add: copy_user_def)
  show "kept c q n h ?h"
    unfolding kept_def using len n by (auto simp: mm)
  have out: "mem ?h ! i = mem h ! i" if "i < length (mem h)" "i < q \<or> q + m \<le> i" for i
    using that n by (auto simp: mm)
  have at: "area_at (mem ?h) (tot as1) (Used m pid g k)"
    using rep_area [OF r] len n unfolding q [symmetric] by (auto simp: mm)
  show "rep ?h (as1 @ Used m pid g k # as2)"
    by (rule rep_inside [OF r _ eqs]) (use out at q in auto)
  have "i < length (mem h) \<and> (i < q \<or> q + m \<le> i)" if "i \<in> other_used as1 m as2" for i
    using that used_idx_bounds [of i 0 as1] used_idx_bounds [of i "tot as1 + m" as2] rep_len [OF r] q
    by (auto simp: other_used_def)
  then show "frame (other_used as1 m as2) h ?h" using out eqs(2) by (auto simp: frame_def)
qed

lemma used_idx_insert:
  "set (live 0 as') = insert (q, a) (set (live 0 as)) \<Longrightarrow> used_idx 0 as' = {q..<q + asz a} \<union> used_idx 0 as"
  by (simp add: used_idx_live)

text \<open>Copying into a fresh area and releasing the old one, on any heap in which both are in use.\<close>

lemma copy_and_free:
  assumes r: "rep h as" and q: "(q, Used m pid pid False) \<in> set (live 0 as)"
    and b: "(b, Used n pid pid False) \<in> set (live 0 as)"
    and n: "n < m" and d: "{b..<b + n} \<inter> {q..<q + m} = {}"
  shows "\<exists>h' as'. sos_blk_mem_free (user_part h b) (copy_user q b n h) = Some h' \<and> rep h' as' \<and>
    (settled as \<longrightarrow> settled as') \<and> reserve q pid h' = h' \<and>
    set (live 0 as') = set (live 0 as) - {(b, Used n pid pid False)} \<and> kept b q n h h' \<and>
    frame (used_idx 0 as - {b..<b + n} - {q..<q + m}) h h'"
proof -
  obtain cs1 cs2 where cs: "as = cs1 @ Used m pid pid False # cs2" "q = 0 + tot cs1"
    by (rule live_split [OF q])
  obtain ds1 ds2 where ds: "as = ds1 @ Used n pid pid False # ds2" "b = 0 + tot ds1"
    by (rule live_split [OF b])
  let ?h = "copy_user q b n h"
  have pos: "0 < n" using rep_pos [OF r] ds by simp
  have r1: "rep h (cs1 @ Used m pid pid False # cs2)" "rep h (ds1 @ Used n pid pid False # ds2)"
    using r cs ds by simp_all
  have len: "b + n \<le> length (mem h)" using rep_len [OF r1(2)] ds by simp
  have c: "rep ?h as" "frame (other_used cs1 m cs2) h ?h" "kept b q n h ?h"
    using rep_copy_user [OF r1(1) _ pos n d len] cs by simp_all
  have rc: "rep ?h (ds1 @ Used n pid pid False # ds2)" using c(1) ds(1) by simp
  obtain h' where h': "sos_blk_mem_free (user_part ?h b) ?h = Some h'" "rep h' (ds1 @ Free n # ds2)"
    "frame (other_used ds1 n ds2) ?h h'"
    using rep_free [OF rc] ds(2) by auto
  have up: "user_part ?h b = user_part h b" by (rule user_part_cong) (simp add: copy_user_def)
  have live: "set (live 0 (ds1 @ Free n # ds2)) = set (live 0 as) - {(b, Used n pid pid False)}"
    using live_replace [OF rep_pos [OF r1(2)], of "Free n"] ds by simp
  then have "(q, Used m pid pid False) \<in> set (live 0 (ds1 @ Free n # ds2))" using q n by auto
  then obtain es1 es2 where es: "ds1 @ Free n # ds2 = es1 @ Used m pid pid False # es2" "q = 0 + tot es1"
    by (rule live_split)
  have again: "reserve q pid h' = h'" using reserve_again [of h' es1 m pid es2 q] h'(2) es by simp
  have U: "other_used cs1 m cs2 = used_idx 0 as - {q..<q + m}" "other_used ds1 n ds2 = used_idx 0 as - {b..<b + n}"
    using other_used_eq [of "Used m pid pid False" cs1 cs2] other_used_eq [of "Used n pid pid False" ds1 ds2] cs ds
    by simp_all
  have "{q..<q + n} \<subseteq> used_idx 0 as - {b..<b + n}"
    using used_idx_member [OF q] d n by (force simp: disjoint_iff)
  then have "kept q q n ?h h'" by (rule kept_frame [OF h'(3) [unfolded U(2)]])
  with c(3) have "kept b q n h h'" by (rule kept_trans)
  moreover have "frame (used_idx 0 as - {b..<b + n} - {q..<q + m}) h h'"
    by (rule frame_step [OF c(2) [unfolded U(1)] h'(3) [unfolded U(2)]]) auto
  moreover have "settled as \<longrightarrow> settled (ds1 @ Free n # ds2)" using ds by simp
  ultimately show ?thesis using h'(1,2) up live again by metis
qed

text \<open>Two heaps for the examples: two areas in use side by side, and one with a hole between.\<close>

lemma two_areas: "\<exists>h. rep h [Used 3 130 130 False, Used 2 131 131 False, Free 6]"
proof -
  obtain h where h: "rep h [Used 3 130 130 False, Free 8]" using small_heap_used by blast
  have "unat (req_blocks 10) = 2" by (simp add: unat_req_blocks)
  then have "([Used 3 130 130 False, Used 2 131 131 False, Free 6], Some 3) =
      alloc_areas (unat (req_blocks 10)) 131 0 [Used 3 130 130 False, Free 8]"
    by (simp add: Let_def split_off_def)
  from rep_alloc [OF h _ _ _ this] show ?thesis by (auto simp: req_blocks_pos)
qed

lemma hole_between:
  "\<exists>h. rep h [Used 3 130 130 False, Free 2, Used 6 132 132 False] \<and> last_byte (blk h 4) = 131"
proof -
  obtain h where h: "rep h [Used 3 130 130 False, Used 2 131 131 False, Free 6]" using two_areas by blast
  have "unat (req_blocks 40) = 6" by (simp add: unat_req_blocks)
  then have a: "([Used 3 130 130 False, Used 2 131 131 False, Used 6 132 132 False], Some 5) =
      alloc_areas (unat (req_blocks 40)) 132 0 [Used 3 130 130 False, Used 2 131 131 False, Free 6]"
    by (simp add: Let_def split_off_def)
  obtain h1 where h1: "rep h1 ([Used 3 130 130 False] @ Used 2 131 131 False # [Used 6 132 132 False])"
    using rep_alloc [OF h _ _ _ a] by (auto simp: req_blocks_pos)
  let ?h = "set_owner 3 NULL_PID (set_blocks 3 (blocks (blk h1 3) AND NOT MEM_MASK) h1)"
  have u: "rep ?h ([Used 3 130 130 False] @ Held 2 # [Used 6 132 132 False])"
    by (rule rep_unreserve [OF h1]) simp_all
  obtain h2 where h2: "rep h2 ([Used 3 130 130 False] @ Free 2 # [Used 6 132 132 False])"
    "\<And>i. last_byte (mem h2 ! i) = last_byte (mem ?h ! i)"
    by (rule rep_InsertAfter [OF u]) (rule that)
  have "last_byte (blk h1 4) = 131" using rep_area [OF h1] by simp
  then have "last_byte (blk h2 4) = 131"
    unfolding h2(2) by (simp add: set_owner_def set_blocks_def upd_field_cong)
  with h2(1) show ?thesis by auto
qed

section \<open>Properties\<close>

text \<open>
  \<^verbatim>\<open>ker_realloc\<close> in place: if the area and the free areas directly behind it have
  room for the new size, the pointer stays the same, the area gets the requested size (also
  when it shrinks), the bytes of the user up to the smaller of both sizes are kept, and no
  other area in use changes.
\<close>

theorem realloc_in_place:
  assumes "rep h as" "settled as" "as = as1 @ Used n pid g False # as2" "b = tot as1"
    and "sz \<noteq> 0" "unat sz \<le> 65524" "req = unat (req_blocks sz)" "req \<le> fst (merge_all n as2)"
  shows "\<exists>h' as'. sos_blk_mem_realloc (user_part h b) sz h = Some (h', user_part h b) \<and> rep h' as' \<and>
    settled as' \<and>
    set (live 0 as') = set (live 0 as) - {(b, Used n pid g False)} \<union> {(b, Used req pid pid False)} \<and>
    frame (used_idx 0 as - {b..<b + n}) h h' \<and> kept b b (min n req) h h'"
proof -
  define n' as' where "n' = fst (merge_all n as2)" and "as' = snd (merge_all n as2)"
  have r: "rep h (as1 @ Used n pid g False # as2)" and s: "settled as1" "settled as2"
    using assms(1-3) by simp_all
  have m: "(n', as') = merge_all n as2" by (simp add: n'_def as'_def)
  let ?as = "as1 @ Used req pid pid False # split_off req n' @ as'"
  obtain h' where h': "sos_blk_mem_realloc (user_part h b) sz h = Some (h', user_part h b)" "rep h' ?as"
    "frame (other_used as1 n as2) h h'" "kept b b (min n req) h h'"
    using rep_realloc_in_place [OF r s(2) assms(4-7) m] assms(8) n'_def by auto
  have "settled ?as" using s merge_all_settled [OF s(2), of n] by (simp add: as'_def split_off_def)
  moreover have l: "live (tot as1 + n') as' = live (tot as1 + n) as2"
    by (simp add: n'_def as'_def merge_all_live)
  have "set (live 0 ?as) = set (live 0 (as1 @ Free n # as2)) \<union> {(b, Used req pid pid False)}"
    using l assms(4,8) n'_def by (simp add: live_append split_off_def)
  then have "set (live 0 ?as) = set (live 0 as) - {(b, Used n pid g False)} \<union> {(b, Used req pid pid False)}"
    using live_replace [OF rep_pos [OF r], of "Free n"] assms(3,4) by simp
  moreover have "other_used as1 n as2 = used_idx 0 as - {b..<b + n}"
    using other_used_eq [of "Used n pid g False" as1 as2] assms(3,4) by simp
  ultimately show ?thesis using h' by (intro exI [of _ h'] exI [of _ ?as]) simp
qed

theorem realloc_in_place_witness:
  "\<exists>h h' as'. rep h [Used 3 130 130 False, Free 8] \<and>
     sos_blk_mem_realloc (user_part h 0) 60 h = Some (h', user_part h 0) \<and> rep h' as' \<and> kept 0 0 3 h h'"
proof -
  obtain h where h: "rep h [Used 3 130 130 False, Free 8]" using small_heap_used by blast
  have "unat (req_blocks 60) = 8" by (simp add: unat_req_blocks)
  then have "\<exists>h' as'. sos_blk_mem_realloc (user_part h 0) 60 h = Some (h', user_part h 0) \<and> rep h' as' \<and>
    settled as' \<and> set (live 0 as') = set (live 0 [Used 3 130 130 False, Free 8]) -
      {(0, Used 3 130 130 False)} \<union> {(0, Used 8 130 130 False)} \<and>
    frame (used_idx 0 [Used 3 130 130 False, Free 8] - {0..<0 + 3}) h h' \<and> kept 0 0 (min 3 8) h h'"
    by (intro realloc_in_place [OF h, of "[]" 3 130 130 "[Free 8]" 0 60 8]) simp_all
  then obtain h' as' where r: "sos_blk_mem_realloc (user_part h 0) 60 h = Some (h', user_part h 0)" "rep h' as'"
    and k: "kept 0 0 (min 3 8) h h'" by blast
  have k': "kept 0 0 3 h h'" using k by simp
  show ?thesis by (intro exI conjI) (fact h r k')+
qed

text \<open>
  C28. \<^verbatim>\<open>ker_realloc\<close> that has to move: if the area behind is in use and the new size is
  larger, the result is a new area of the requested size with the contents of the old one,
  which is released; no other area in use changes. Without room the result is
  \<^verbatim>\<open>NULL\<close> and the old area is untouched.
\<close>

theorem realloc_moves:
  assumes "rep h as" "settled as" "as = as1 @ Used n pid pid False # as2" "b = tot as1"
    and "as2 = [] \<or> is_used (hd as2)"
    and "sz \<noteq> 0" "unat sz \<le> 65524" "req = unat (req_blocks sz)" "n < req"
  shows "\<exists>h' as' p. sos_blk_mem_realloc (user_part h b) sz h = Some (h', p) \<and> rep h' as' \<and> settled as' \<and>
    (if max_free 0 as < req
     then p = NULL \<and> set (live 0 as') = set (live 0 as) \<and> frame (used_idx 0 as) h h'
     else \<exists>q. p = user_part h q \<and> kept b q n h h' \<and> frame (used_idx 0 as - {b..<b + n}) h h' \<and>
       set (live 0 as') = insert (q, Used req pid pid False) (set (live 0 as) - {(b, Used n pid pid False)}))"
proof -
  have r: "rep h (as1 @ Used n pid pid False # as2)" and s: "settled as2" using assms(1-3) by simp_all
  have bl: "(b, Used n pid pid False) \<in> set (live 0 as)" using assms(3,4) by (simp add: live_append)
  obtain h4 p as4 where a: "sos_blk_mem_alloc sz pid h = Some (h4, p)" "rep h4 as4" "settled as4"
    "frame (used_idx 0 as) h h4"
    "if max_free 0 as < req then p = NULL \<and> set (live 0 as4) = set (live 0 as)
     else \<exists>q. p = user_part h q \<and> unat sz + BLOCKOVERHEAD \<le> BLOCK_SIZE * req \<and>
       q + req \<le> tot as \<and> {q..<q + req} \<inter> used_idx 0 as = {} \<and>
       set (live 0 as4) = insert (q, Used req pid pid False) (set (live 0 as))"
    using first_fit.alloc_contract [OF assms(1,2,6,7,8), of pid] by blast
  note blocked = realloc_blocked [OF r s assms(4,5,6), unfolded assms(8) [symmetric], OF assms(9), unfolded a(1), simplified]
  show ?thesis
  proof (cases "max_free 0 as < req")
    case True
    with a blocked show ?thesis by (intro exI [of _ h4] exI [of _ as4] exI [of _ NULL]) simp
  next
    case False
    then obtain q where q: "p = user_part h q" "{q..<q + req} \<inter> used_idx 0 as = {}"
      "set (live 0 as4) = insert (q, Used req pid pid False) (set (live 0 as))"
      using a(5) by auto
    have ql: "(q, Used req pid pid False) \<in> set (live 0 as4)" "(b, Used n pid pid False) \<in> set (live 0 as4)"
      using q(3) bl by auto
    have "{b..<b + n} \<subseteq> used_idx 0 as" using used_idx_member [OF bl] by simp
    with q(2) have d: "{b..<b + n} \<inter> {q..<q + req} = {}" by blast
    have up: "user_part h4 i = user_part h i" for i using a(4) by (intro user_part_cong) (simp add: frame_def)
    obtain h5 as5 where c: "sos_blk_mem_free (user_part h b) (copy_user q b n h4) = Some h5" "rep h5 as5"
      "settled as5" "reserve q pid h5 = h5" "set (live 0 as5) = set (live 0 as4) - {(b, Used n pid pid False)}"
      "kept b q n h4 h5" "frame (used_idx 0 as4 - {b..<b + n} - {q..<q + req}) h4 h5"
      using copy_and_free [OF a(2) ql assms(9) d] a(3) unfolding up by blast
    obtain cs1 cs2 where cs: "as4 = cs1 @ Used req pid pid False # cs2" "q = 0 + tot cs1"
      by (rule live_split [OF ql(1)])
    have ptr: "addr_blk h4 (TO_BLOCK_PTR p) = Some q" "p \<noteq> NULL"
      using rep_ptr [of h4 cs1 "Used req pid pid False" cs2 q] a(2) cs q(1) up by auto
    have k: "kept b q n h h5"
      using kept_trans [OF kept_frame [OF a(4)] c(6)] used_idx_member [OF bl] by simp
    have fr: "frame (used_idx 0 as - {b..<b + n}) h h5"
      by (rule frame_step [OF a(4) c(7)]) (use used_idx_insert [OF q(3)] q(2) in auto)
    then have up5: "user_part h5 q = user_part h q" by (intro user_part_cong) (simp add: frame_def)
    have res: "sos_blk_mem_realloc (user_part h b) sz h = Some (h5, user_part h q)"
      using blocked ptr c(1,4) up5 by simp
    have "set (live 0 as5) = insert (q, Used req pid pid False) (set (live 0 as) - {(b, Used n pid pid False)})"
      using c(5) q(3) assms(9) by auto
    with res c(2,3) k fr False show ?thesis by (intro exI [of _ h5] exI [of _ as5] exI [of _ "user_part h q"]) auto
  qed
qed

theorem realloc_moves_witness:
  "\<exists>h h' as' p. rep h [Used 3 130 130 False, Used 2 131 131 False, Free 6] \<and>
     sos_blk_mem_realloc (user_part h 0) 30 h = Some (h', p) \<and> rep h' as' \<and>
     (\<exists>q. p = user_part h q \<and> kept 0 q 3 h h')"
proof -
  let ?as = "[Used 3 130 130 False, Used 2 131 131 False, Free 6]"
  obtain h where h: "rep h ?as" using two_areas by blast
  have "unat (req_blocks 30) = 5" by (simp add: unat_req_blocks)
  then have "\<exists>h' as' p. sos_blk_mem_realloc (user_part h 0) 30 h = Some (h', p) \<and> rep h' as' \<and> settled as' \<and>
    (if max_free 0 ?as < 5
     then p = NULL \<and> set (live 0 as') = set (live 0 ?as) \<and> frame (used_idx 0 ?as) h h'
     else \<exists>q. p = user_part h q \<and> kept 0 q 3 h h' \<and> frame (used_idx 0 ?as - {0..<0 + 3}) h h' \<and>
       set (live 0 as') = insert (q, Used 5 130 130 False) (set (live 0 ?as) - {(0, Used 3 130 130 False)}))"
    by (intro realloc_moves [OF h, of "[]" 3 130 "[Used 2 131 131 False, Free 6]" 0 30 5]) simp_all
  moreover have nf: "\<not> max_free 0 ?as < 5" by simp
  ultimately obtain h' as' p q where r: "sos_blk_mem_realloc (user_part h 0) 30 h = Some (h', p)" "rep h' as'"
    and q: "p = user_part h q" "kept 0 q 3 h h'"
    unfolding if_not_P [OF nf] by blast
  show ?thesis by (intro exI conjI) (fact h r q)+
qed

lemma set_blocks_last_byte: "last_byte (blk (set_blocks j v h) i) = last_byte (blk h i)"
  by (simp add: set_blocks_def upd_field_cong)

lemma MergeBlocks_last_byte:
  assumes "MergeBlocks b h = Some h'"
  shows "last_byte (blk h' i) = last_byte (blk h i)"
proof (rule MergeBlocks.raw_induct [where P = "\<lambda>b h h'. last_byte (blk h' i) = last_byte (blk h i)", OF _ assms])
  fix f b h h'
  assume IH: "\<And>b h h'. f b h = Some h' \<Longrightarrow> last_byte (blk h' i) = last_byte (blk h i)"
    and body: "(let successor = b + unat (blocks (blk h b))
       in if is_reserved h successor then Some h
          else let h1 = Unlink successor h
               in Let (set_blocks b (blocks (blk h1 b) + blocks (blk h1 successor)) h1) (f b)) = Some h'"
  show "last_byte (blk h' i) = last_byte (blk h i)"
  proof (cases "is_reserved h (b + unat (blocks (blk h b)))")
    case True
    with body show ?thesis by (simp add: Let_def)
  next
    case False
    with body IH show ?thesis by (auto simp: Let_def set_blocks_last_byte)
  qed
qed

text \<open>
  C27. A failing \<^verbatim>\<open>ker_realloc\<close> can lose the area. If the area behind is free but too
  small, and nothing else is large enough, the call returns \<^verbatim>\<open>NULL\<close> after the merge has
  already enlarged the area, without writing its new guard byte. When the byte found there is
  not the owner, the area that the header file calls still valid can no longer be released:
  \<^verbatim>\<open>ker_free\<close> ignores the pointer and \<^verbatim>\<open>ker_change_own\<close> rejects it.
\<close>

theorem realloc_failure_loses_area:
  assumes "rep h as" "settled as" "as = as1 @ Used n pid pid False # Free m # as2" "b = tot as1"
    and nx: "as2 = [] \<or> is_used (hd as2)"
    and "sz \<noteq> 0" "unat sz \<le> 65524" "req = unat (req_blocks sz)" "n + m < req"
    and room: "max_free 0 as1 < req" "max_free 0 as2 < req"
    and guard: "last_byte (blk h (b + n + m - 1)) \<noteq> pid" and new: "new \<noteq> NULL_PID"
  shows "\<exists>h'. sos_blk_mem_realloc (user_part h b) sz h = Some (h', NULL) \<and>
    sos_blk_mem_free (user_part h b) h' = Some h' \<and>
    sos_blk_mem_change_own (user_part h b) new h' = Some (h', - EINVAL)"
proof -
  let ?g = "last_byte (blk h (b + n + m - 1))"
  let ?bs = "as1 @ Used (n + m) pid ?g False # as2"
  let ?h1 = "set_blocks b (blocks (blk h b) AND NOT RESERVED) h"
  have r: "rep h (as1 @ Used n pid pid False # Free m # as2)" and s: "settled (Free m # as2)" "settled as1"
    using assms(1-3) by simp_all
  have mg: "merge_all n (Free m # as2) = (n + m, as2)" using nx by (cases as2) (auto elim: is_used.elims)
  obtain h2 where h2: "MergeBlocks b ?h1 = Some h2" "owner (blk h2 b) = pid" "rep h2 (as1 @ Held (n + m) # as2)"
    "frame (other_used as1 n (Free m # as2)) h h2"
    using rep_realloc_start [OF r s(1) assms(4) refl] unfolding mg by auto
  have "last_byte (blk h2 (b + n + m - 1)) = ?g"
    using MergeBlocks_last_byte [OF h2(1)] by (simp add: set_blocks_last_byte)
  then have r3: "rep (set_blocks b (blocks (blk h2 b) OR RESERVED) h2) ?bs"
    using rep_hide(1) [OF h2(3) assms(4)] h2(2) by (simp add: add.assoc)
  let ?h3 = "set_blocks b (blocks (blk h2 b) OR RESERVED) h2"
  have sb: "settled ?bs" using s by simp
  have "max_free c (as1 @ Used k p g' f # as2) = max (max_free c as1) (max_free 0 as2)" for c k p g' f
    by (induction as1 arbitrary: c) auto
  then have full: "max_free 0 ?bs < req" using room by simp
  obtain h4 as4 where h4: "sos_blk_mem_alloc sz pid ?h3 = Some (h4, NULL)" "rep h4 as4"
    "set (live 0 as4) = set (live 0 ?bs)" "frame (used_idx 0 ?bs) ?h3 h4"
    using first_fit.alloc_contract [OF r3 sb assms(6-8), of pid] unfolding if_P [OF full] by blast
  have n': "unat (blocks (blk h2 b)) = n + m" using rep_area [OF h2(3)] assms(4) by simp
  have res: "sos_blk_mem_realloc (user_part h b) sz h = Some (h4, NULL)"
    using rep_ptr [OF r assms(4)] assms(6,8,9) h2(1) h4(1) n' rep_used_word(4) [OF r assms(4)]
    by (simp add: sos_blk_mem_realloc_def Let_def word_less_nat_alt)
  have "malloc_heap h4 = malloc_heap h" using h2(4) h4(4) by (simp add: frame_def)
  then have up: "user_part h4 b = user_part h b" by (rule user_part_cong)
  have "(b, Used (n + m) pid ?g False) \<in> set (live 0 as4)"
    unfolding h4(3) using assms(4) by (simp add: live_append)
  then have "sos_blk_mem_free (user_part h b) h4 = Some h4 \<and>
    sos_blk_mem_change_own (user_part h b) new h4 = Some (h4, - EINVAL)"
    unfolding up [symmetric] by (rule damaged_area [OF h4(2)]) (use guard new in auto)
  with res show ?thesis by blast
qed

theorem realloc_failure_loses_area_witness:
  "\<exists>h h'. rep h [Used 3 130 130 False, Free 2, Used 6 132 132 False] \<and>
     sos_blk_mem_realloc (user_part h 0) 60 h = Some (h', NULL) \<and>
     sos_blk_mem_free (user_part h 0) h' = Some h'"
proof -
  obtain h where h: "rep h [Used 3 130 130 False, Free 2, Used 6 132 132 False]" "last_byte (blk h 4) = 131"
    using hole_between by blast
  have "unat (req_blocks 60) = 8" by (simp add: unat_req_blocks)
  then have "\<exists>h'. sos_blk_mem_realloc (user_part h 0) 60 h = Some (h', NULL) \<and>
    sos_blk_mem_free (user_part h 0) h' = Some h' \<and>
    sos_blk_mem_change_own (user_part h 0) 131 h' = Some (h', - EINVAL)"
    using h(2) by (intro realloc_failure_loses_area [OF h(1), of "[]" 3 130 2 "[Used 6 132 132 False]" 0 60 8 131])
      (simp_all add: pid_defs)
  then obtain h' where r: "sos_blk_mem_realloc (user_part h 0) 60 h = Some (h', NULL)"
    "sos_blk_mem_free (user_part h 0) h' = Some h'" by blast
  show ?thesis by (intro exI conjI) (fact h(1) r)+
qed

end
