(* ===== verification/Sos_List.thy ===== *)
theory Sos_List
  imports Links
begin

text \<open>
  The generic list of the kernel, \<^verbatim>\<open>kernel/sos_list.c\<close>: circular doubly linked lists
  whose links are embedded in the items. The memory is a store of links, one for every address
  of a head or of an item. The theorems say that the operations implement a sequence: what they
  do to the list they are called for, and that they leave every other list alone. The timer
  component works on these sequences.
\<close>

section \<open>Definitions\<close>

record list_link =
  l_next :: addr
  l_prev :: addr

type_synonym links_mem = "addr \<Rightarrow> list_link"

definition set_l_next :: "addr \<Rightarrow> addr \<Rightarrow> links_mem \<Rightarrow> links_mem" where
  "set_l_next a v m = m(a := (m a)\<lparr>l_next := v\<rparr>)"

definition set_l_prev :: "addr \<Rightarrow> addr \<Rightarrow> links_mem \<Rightarrow> links_mem" where
  "set_l_prev a v m = m(a := (m a)\<lparr>l_prev := v\<rparr>)"

definition list_insert_before :: "addr \<Rightarrow> addr \<Rightarrow> links_mem \<Rightarrow> links_mem" where
  "list_insert_before before toInsert m =
     (let m1 = set_l_next toInsert before m;
          m2 = set_l_prev toInsert (l_prev (m1 before)) m1;
          m3 = set_l_next (l_prev (m2 before)) toInsert m2
      in set_l_prev before toInsert m3)"

definition list_insert_head :: "addr \<Rightarrow> addr \<Rightarrow> links_mem \<Rightarrow> links_mem" where
  "list_insert_head list element m = list_insert_before (l_next (m list)) element m"

definition list_insert_tail :: "addr \<Rightarrow> addr \<Rightarrow> links_mem \<Rightarrow> links_mem" where
  "list_insert_tail list element m = list_insert_before list element m"

definition list_remove :: "addr \<Rightarrow> links_mem \<Rightarrow> links_mem" where
  "list_remove ll m =
     (let before = l_prev (m ll); after = l_next (m ll)
      in if l_next (m before) \<noteq> ll \<and> l_prev (m after) \<noteq> ll
         then set_l_prev ll NULL (set_l_next ll NULL m)
         else if l_next (m before) \<noteq> ll \<or> l_prev (m after) \<noteq> ll then m
         else let m1 = set_l_next before after m;
                  m2 = set_l_prev after before m1;
                  m3 = set_l_next ll NULL m2
              in set_l_prev ll NULL m3)"

definition list_remove_head :: "addr \<Rightarrow> links_mem \<Rightarrow> links_mem" where
  "list_remove_head list m = list_remove (l_next (m list)) m"

definition list_remove_tail :: "addr \<Rightarrow> links_mem \<Rightarrow> links_mem" where
  "list_remove_tail list m = list_remove (l_prev (m list)) m"

definition list_init :: "addr \<Rightarrow> links_mem \<Rightarrow> links_mem" where
  "list_init list m = set_l_next list list (set_l_prev list list m)"

definition list_empty :: "addr \<Rightarrow> links_mem \<Rightarrow> bool" where
  "list_empty list m \<longleftrightarrow> l_next (m list) = list"

section \<open>The sequence a list stands for\<close>

definition is_list :: "links_mem \<Rightarrow> addr \<Rightarrow> addr list \<Rightarrow> bool" where
  "is_list m s xs \<longleftrightarrow> ring (\<lambda>a. l_next (m a)) (\<lambda>a. l_prev (m a)) s xs"

interpretation ls: link_store "\<lambda>m a. l_next (m a)" "\<lambda>m a. l_prev (m a)" set_l_next set_l_prev "\<lambda>_ _. True"
  by unfold_locales (auto simp: set_l_next_def set_l_prev_def fun_eq_iff)

text \<open>The nodes an operation writes to; every other list is untouched.\<close>

lemma is_list_cong:
  assumes "\<And>i. i \<in> set (s # xs) \<Longrightarrow> m' i = m i"
  shows "is_list m' s xs = is_list m s xs"
  unfolding is_list_def by (rule ring_cong) (use assms in auto)

lemma is_list_distinct: "is_list m s xs \<Longrightarrow> distinct (s # xs)"
  by (auto simp: is_list_def dest: ring_distinct)

lemma list_insert_before_other:
  "i \<noteq> toInsert \<Longrightarrow> i \<noteq> before \<Longrightarrow> i \<noteq> l_prev (m before) \<Longrightarrow> before \<noteq> toInsert \<Longrightarrow>
   list_insert_before before toInsert m i = m i"
  by (simp add: list_insert_before_def set_l_next_def set_l_prev_def Let_def)

lemma list_remove_other:
  "i \<noteq> ll \<Longrightarrow> i \<noteq> l_prev (m ll) \<Longrightarrow> i \<noteq> l_next (m ll) \<Longrightarrow> list_remove ll m i = m i"
  by (simp add: list_remove_def set_l_next_def set_l_prev_def Let_def)

lemma is_list_insert_before:
  assumes "is_list m s (xs @ ys)" "b \<notin> set (s # xs @ ys)" "c = hd (ys @ [s])"
  shows "is_list (list_insert_before c b m) s (xs @ b # ys)"
  unfolding is_list_def list_insert_before_def Let_def
  by (rule ls.ring_link_new_first [OF assms(1) [unfolded is_list_def] assms(2,3) _ refl refl refl refl]) simp

lemma is_list_prev_in:
  assumes "is_list m s (xs @ ys)"
  shows "l_prev (m (hd (ys @ [s]))) \<in> set (s # xs)"
proof -
  have r: "ring (\<lambda>a. l_next (m a)) (\<lambda>a. l_prev (m a)) s (xs @ ys)" using assms by (simp add: is_list_def)
  have "l_prev (m (hd (ys @ [s]))) = last (s # xs)"
  proof (cases ys)
    case Nil
    with r show ?thesis using ring_prev_head [of _ "\<lambda>a. l_prev (m a)" s xs] by simp
  next
    case (Cons y zs)
    with r show ?thesis using ring_prev [of _ "\<lambda>a. l_prev (m a)" s xs y zs] by simp
  qed
  then show ?thesis by (metis last_in_set list.distinct(1))
qed

lemma is_list_next_in:
  assumes "is_list m s (xs @ b # ys)"
  shows "l_next (m b) = hd (ys @ [s])" "l_prev (m b) = last (s # xs)"
    "l_next (m b) \<in> set (s # ys)" "l_prev (m b) \<in> set (s # xs)"
proof -
  have r: "ring (\<lambda>a. l_next (m a)) (\<lambda>a. l_prev (m a)) s (xs @ b # ys)" using assms by (simp add: is_list_def)
  show n: "l_next (m b) = hd (ys @ [s])" and p: "l_prev (m b) = last (s # xs)"
    using ring_next [OF r] ring_prev [OF r] by auto
  show "l_next (m b) \<in> set (s # ys)" unfolding n by (cases ys) auto
  show "l_prev (m b) \<in> set (s # xs)" unfolding p by (metis last_in_set list.distinct(1))
qed

lemma is_list_remove:
  assumes l: "is_list m s (xs @ b # ys)"
  shows "is_list (list_remove b m) s (xs @ ys)" "l_next (list_remove b m b) = NULL" "l_prev (list_remove b m b) = NULL"
proof -
  note nb = is_list_next_in [OF l]
  have d: "b \<notin> set (s # xs @ ys)" using is_list_distinct [OF l] by auto
  let ?b = "l_prev (m b)" and ?a = "l_next (m b)"
  have r: "ring (\<lambda>a. l_next (m a)) (\<lambda>a. l_prev (m a)) s (xs @ b # ys)" using l by (simp add: is_list_def)
  have nx: "l_next (m ?b) = b"
  proof (cases xs rule: rev_cases)
    case Nil
    then show ?thesis using nb(2) r ring_next_head [OF r] by simp
  next
    case (snoc zs z)
    then show ?thesis
      using nb(2) ring_next [of "\<lambda>a. l_next (m a)" "\<lambda>a. l_prev (m a)" s zs z "b # ys"] r by simp
  qed
  have pv: "l_prev (m ?a) = b"
  proof (cases ys)
    case Nil
    then show ?thesis using nb(1) ring_prev_head [OF r] by simp
  next
    case (Cons z zs)
    then show ?thesis
      using nb(1) ring_prev [of "\<lambda>a. l_next (m a)" "\<lambda>a. l_prev (m a)" s "xs @ [b]" z zs] r by simp
  qed
  let ?m1 = "set_l_next ?b ?a m"
  let ?m2 = "set_l_prev ?a ?b ?m1"
  have eq: "list_remove b m = set_l_prev b NULL (set_l_next b NULL ?m2)"
    using nx pv by (simp add: list_remove_def Let_def)
  have same: "l_next (?m1 b) = ?a" "l_prev (?m1 b) = ?b"
    using nb(4) d by (auto simp: set_l_next_def)
  have "is_list ?m2 s (xs @ ys)"
    unfolding is_list_def
    by (rule ls.ring_unlink [OF r _ refl]) (simp_all add: same)
  then show "is_list (list_remove b m) s (xs @ ys)"
    by (subst is_list_cong [of _ _ _ ?m2]) (use d in \<open>auto simp: eq set_l_next_def set_l_prev_def\<close>)
  show "l_next (list_remove b m b) = NULL" "l_prev (list_remove b m b) = NULL"
    by (simp_all add: eq set_l_next_def set_l_prev_def)
qed

lemma list_init_empty: "is_list (list_init s m) s []"
  by (simp add: is_list_def ring_def list_init_def set_l_next_def set_l_prev_def)

lemma list_empty_iff: "is_list m s xs \<Longrightarrow> list_empty s m \<longleftrightarrow> xs = []"
  using is_list_distinct [of m s xs] ring_next_head [of "\<lambda>a. l_next (m a)" "\<lambda>a. l_prev (m a)" s xs]
  by (cases xs) (auto simp: is_list_def list_empty_def)

section \<open>Properties\<close>

lemma list_head_tail:
  assumes "is_list m s xs" "xs \<noteq> []"
  shows "l_next (m s) = hd xs" "l_prev (m s) = last xs"
  using assms ring_next_head [of "\<lambda>a. l_next (m a)" "\<lambda>a. l_prev (m a)" s xs]
    ring_prev_head [of "\<lambda>a. l_next (m a)" "\<lambda>a. l_prev (m a)" s xs]
  by (auto simp: is_list_def hd_append)

lemma is_list_head_ops:
  assumes l: "is_list m s xs" and b: "b \<notin> set (s # xs)"
  shows "is_list (list_insert_head s b m) s (b # xs)" "is_list (list_insert_tail s b m) s (xs @ [b])"
    "xs \<noteq> [] \<Longrightarrow> is_list (list_remove_head s m) s (tl xs)"
    "xs \<noteq> [] \<Longrightarrow> is_list (list_remove_tail s m) s (butlast xs)"
proof -
  have n: "l_next (m s) = hd (xs @ [s])"
    using l ring_next_head [of "\<lambda>a. l_next (m a)" "\<lambda>a. l_prev (m a)" s xs] by (simp add: is_list_def)
  show "is_list (list_insert_head s b m) s (b # xs)"
    using is_list_insert_before [of m s "[]" xs b "hd (xs @ [s])"] l b n by (simp add: list_insert_head_def)
  show "is_list (list_insert_tail s b m) s (xs @ [b])"
    using is_list_insert_before [of m s xs "[]" b s] l b by (simp add: list_insert_tail_def)
  show "is_list (list_remove_head s m) s (tl xs)" if "xs \<noteq> []"
    using is_list_remove(1) [of m s "[]" "hd xs" "tl xs"] l that list_head_tail(1) [OF l that]
    by (simp add: list_remove_head_def)
  show "is_list (list_remove_tail s m) s (butlast xs)" if "xs \<noteq> []"
    using is_list_remove(1) [of m s "butlast xs" "last xs" "[]"] l that list_head_tail(2) [OF l that]
    by (simp add: list_remove_tail_def)
qed

text \<open>
  The list operations implement a sequence: insertion at the head, at the tail and before
  any node, removal of the head, of the tail and of any node, and the test for emptiness do
  what their names say to the sequence of the nodes.
\<close>

theorem sos_list_sequence:
  assumes "is_list m s (xs @ y # ys)" "b \<notin> set (s # xs @ y # ys)"
  shows "is_list (list_insert_head s b m) s (b # xs @ y # ys) \<and>
    is_list (list_insert_tail s b m) s (xs @ y # ys @ [b]) \<and>
    is_list (list_insert_before y b m) s (xs @ b # y # ys) \<and>
    is_list (list_remove_head s m) s (tl (xs @ y # ys)) \<and>
    is_list (list_remove_tail s m) s (butlast (xs @ y # ys)) \<and>
    is_list (list_remove y m) s (xs @ ys) \<and> \<not> list_empty s m"
  using is_list_head_ops [OF assms] is_list_insert_before [of m s xs "y # ys" b] is_list_remove(1) [OF assms(1)]
    list_empty_iff [OF assms(1)] assms by simp

text \<open>
  An operation on one list leaves every list that shares no node with it as it was, and a
  removed node has both links cleared.
\<close>

theorem sos_list_separate:
  assumes "is_list m s (xs @ y # ys)" "is_list m t zs" "set (s # xs @ y # ys) \<inter> set (t # zs) = {}"
    and "b \<notin> set (s # xs @ y # ys)" "b \<notin> set (t # zs)"
  shows "is_list (list_insert_before y b m) t zs \<and> is_list (list_remove y m) t zs \<and>
    l_next (list_remove y m y) = NULL \<and> l_prev (list_remove y m y) = NULL"
proof -
  have "l_prev (m y) \<in> set (s # xs)" "l_next (m y) \<in> set (s # ys)"
    using is_list_next_in [OF assms(1)] by auto
  then have n: "i \<noteq> y" "i \<noteq> l_prev (m y)" "i \<noteq> l_next (m y)" "i \<noteq> b" if "i \<in> set (t # zs)" for i
    using that assms(3,5) by auto
  have "y \<noteq> b" using assms(4) by auto
  then have "is_list (list_insert_before y b m) t zs"
    using is_list_cong [of t zs "list_insert_before y b m" m] assms(2) list_insert_before_other n by metis
  moreover have "is_list (list_remove y m) t zs"
    using is_list_cong [of t zs "list_remove y m" m] assms(2) list_remove_other n by metis
  ultimately show ?thesis using is_list_remove(2,3) [OF assms(1)] by blast
qed

text \<open>Two lists, with the heads 100 and 200: one of the items 10 and 20, one of the item 30.\<close>

definition two_lists :: links_mem where
  "two_lists = list_insert_tail 200 30 (list_insert_tail 100 20 (list_insert_tail 100 10
     (list_init 200 (list_init 100 (\<lambda>_. \<lparr>l_next = 0, l_prev = 0\<rparr>)))))"

lemma two_lists: "is_list two_lists 100 ([10] @ 20 # [])" "is_list two_lists 200 [30]"
  by (simp_all add: two_lists_def is_list_def ring_def list_insert_tail_def list_insert_before_def
        list_init_def set_l_next_def set_l_prev_def Let_def)

theorem sos_list_sequence_witness:
  "is_list (list_insert_before 20 40 two_lists) 100 [10, 40, 20] \<and>
   is_list (list_remove_head 100 two_lists) 100 [20]"
  using sos_list_sequence [OF two_lists(1), of 40] by simp

theorem sos_list_separate_witness:
  "is_list (list_remove 20 two_lists) 200 [30] \<and> l_next (list_remove 20 two_lists 20) = NULL"
  using sos_list_separate [OF two_lists, of 40] by simp

end
