(* ===== verification/Malloc_Client.thy ===== *)
theory Malloc_Client
  imports Malloc_Props
begin

text \<open>
  The memory manager as its clients in the kernel see it: a set of chunks, each with its
  address, its size in bytes and its owner, that never overlap. The locale \<open>mem_provider\<close> is
  this interface; both allocation functions implement it.
\<close>

section \<open>Chunks\<close>

definition heap_ok :: "heap \<Rightarrow> bool" where
  "heap_ok h \<longleftrightarrow> (\<exists>as. rep h as \<and> settled as)"

definition chunks :: "heap \<Rightarrow> (addr \<times> nat \<times> u8) set" where
  "chunks h = {(user_part h q, BLOCK_SIZE * n - BLOCKOVERHEAD, pid) | q n pid.
     \<exists>as k. rep h as \<and> settled as \<and> (q, Used n pid pid k) \<in> set (live 0 as)}"

text \<open>A heap represents one list of areas only.\<close>

lemma layout_unique:
  assumes "layout m p as" "layout m p bs" "tot as = tot bs" "settled as" "settled bs" "tot as < 16384"
  shows "as = bs"
  using assms
proof (induction as arbitrary: p bs)
  case Nil
  then show ?case by (cases bs) (auto dest: area_at_pos)
next
  case (Cons a as)
  then obtain b bs' where bs: "bs = b # bs'" by (cases bs) (auto dest: area_at_pos)
  have at: "area_at m p a" "area_at m p b" "\<not> is_held a" "\<not> is_held b" "asz a < 16384" "asz b < 16384"
    using Cons.prems bs by auto
  then have ab: "a = b"
    by (cases a; cases b) (auto dest: bit_small)
  then show ?case using Cons.IH [of "p + asz a" bs'] Cons.prems bs by simp
qed

lemma rep_unique: "rep h as \<Longrightarrow> settled as \<Longrightarrow> rep h bs \<Longrightarrow> settled bs \<Longrightarrow> as = bs"
  using layout_unique [of "mem h" 0 as bs] rep_small [of h as] by (simp add: rep_def)

lemma chunks_rep:
  assumes "rep h as" "settled as"
  shows "chunks h = {(user_part h q, BLOCK_SIZE * n - BLOCKOVERHEAD, pid) | q n pid.
    \<exists>k. (q, Used n pid pid k) \<in> set (live 0 as)}"
  unfolding chunks_def using rep_unique [OF assms] assms by blast

lemma user_part_eq: "user_part h q = user_part h q' \<longleftrightarrow> q = q'"
  by (simp add: user_part_def blk_addr_def BLOCK_SIZE_def)

text \<open>The areas in use of one list do not overlap.\<close>

lemma live_disjoint:
  assumes "\<forall>a \<in> set as. 0 < asz a" "(q, a) \<in> set (live p as)" "(r, b) \<in> set (live p as)" "q \<noteq> r"
  shows "q + asz a \<le> r \<or> r + asz b \<le> q"
  using assms
proof (induction as arbitrary: p)
  case (Cons c as)
  from Cons.prems(2,3) consider "(q, a) \<in> set (live (p + asz c) as)" "(r, b) \<in> set (live (p + asz c) as)"
    | "(q, a) = (p, c)" "(r, b) \<in> set (live (p + asz c) as)"
    | "(r, b) = (p, c)" "(q, a) \<in> set (live (p + asz c) as)"
    using Cons.prems(4) by (auto split: if_splits)
  then show ?case
  proof cases
    case 1
    with Cons show ?thesis by auto
  next
    case 2
    with live_pos [of r b "p + asz c" as] show ?thesis by auto
  next
    case 3
    with live_pos [of q a "p + asz c" as] show ?thesis by auto
  qed
qed simp

lemma live_unique:
  assumes "\<forall>a \<in> set as. 0 < asz a" "(q, a) \<in> set (live 0 as)" "(q, b) \<in> set (live 0 as)"
  shows "a = b"
proof -
  obtain as1 as2 where "as = as1 @ a # as2" "q = 0 + tot as1" by (rule live_split [OF assms(2)])
  with live_at [of as1 a as2 b] assms(1,3) show ?thesis by simp
qed

lemma live_end: "(q, a) \<in> set (live p as) \<Longrightarrow> q + asz a \<le> p + tot as"
  by (induction as arbitrary: p) (fastforce split: if_splits)+

lemma chunk_bounds:
  assumes "(p, n, pid) \<in> chunks h"
  shows "p \<noteq> NULL \<and> p + n < 65536"
proof -
  obtain q k c as where c: "p = user_part h q" "n = BLOCK_SIZE * k - BLOCKOVERHEAD" "rep h as"
    "(q, Used k pid pid c) \<in> set (live 0 as)"
    using assms by (auto simp: chunks_def)
  have "0 < k" using live_asz_pos [OF c(3,4)] by simp
  moreover have "q + k \<le> tot as" using live_end [OF c(4)] by simp
  moreover have "malloc_heap h + BLOCK_SIZE * Suc (tot as) \<le> 65536" using c(3) by (simp add: rep_def)
  ultimately show ?thesis
    unfolding c(1,2) by (simp add: user_part_def blk_addr_def malloc_consts)
qed

lemma chunks_disjoint:
  assumes "(p, n, x) \<in> chunks h" "(r, m, y) \<in> chunks h"
  shows "(p, n, x) = (r, m, y) \<or> p + n < r \<or> r + m < p"
proof -
  obtain q i k as where c: "p = user_part h q" "n = BLOCK_SIZE * i - BLOCKOVERHEAD" "rep h as" "settled as"
    "(q, Used i x x k) \<in> set (live 0 as)"
    using assms(1) by (auto simp: chunks_def)
  obtain q' j k' where d: "r = user_part h q'" "m = BLOCK_SIZE * j - BLOCKOVERHEAD" "(q', Used j y y k') \<in> set (live 0 as)"
    using assms(2) unfolding chunks_rep [OF c(3,4)] by auto
  have pos: "0 < i" "0 < j"
    using live_asz_pos [OF c(3) c(5)] live_asz_pos [OF c(3) d(3)] by simp_all
  show ?thesis
  proof (cases "q = q'")
    case True
    with live_unique [OF rep_pos [OF c(3)] c(5)] d(3) c d show ?thesis by auto
  next
    case False
    with live_disjoint [OF rep_pos [OF c(3)] c(5) d(3)] pos c(1,2) d(1,2) show ?thesis
      by (auto simp: user_part_def blk_addr_def malloc_consts)
  qed
qed

lemma finite_chunks: "finite (chunks h)"
proof (cases "heap_ok h")
  case True
  then obtain as where as: "rep h as" "settled as" by (auto simp: heap_ok_def)
  have "chunks h \<subseteq> (\<lambda>(q, a). (user_part h q, BLOCK_SIZE * asz a - BLOCKOVERHEAD, aown a)) ` set (live 0 as)"
    unfolding chunks_rep [OF as] by force
  then show ?thesis by (rule finite_subset) simp
next
  case False
  then have "chunks h = {}" by (auto simp: chunks_def heap_ok_def)
  then show ?thesis by simp
qed

section \<open>What the operations do to the chunks\<close>

lemma chunks_insert:
  assumes "rep h as" "settled as" "rep h' as'" "settled as'" "malloc_heap h' = malloc_heap h"
    and "set (live 0 as') = insert (q, Used n pid pid k) (set (live 0 as))"
  shows "chunks h' = insert (user_part h q, BLOCK_SIZE * n - BLOCKOVERHEAD, pid) (chunks h)"
proof -
  have "user_part h' = user_part h" using assms(5) by (simp add: fun_eq_iff user_part_def blk_addr_def)
  then show ?thesis unfolding chunks_rep [OF assms(1,2)] chunks_rep [OF assms(3,4)] assms(6) by auto
qed

lemma chunks_remove:
  assumes "rep h as" "settled as" "rep h' as'" "settled as'" "malloc_heap h' = malloc_heap h"
    and l: "set (live 0 as') = set (live 0 as) - {(q, Used n pid pid k)}" "(q, Used n pid pid k) \<in> set (live 0 as)"
  shows "chunks h' = chunks h - {(user_part h q, BLOCK_SIZE * n - BLOCKOVERHEAD, pid)}"
proof -
  have u: "user_part h' = user_part h" using assms(5) by (simp add: fun_eq_iff user_part_def blk_addr_def)
  let ?c = "(user_part h q, BLOCK_SIZE * n - BLOCKOVERHEAD, pid)"
  have uq: "a = Used n pid pid k" if "(q, a) \<in> set (live 0 as)" for a
    by (rule live_unique [OF rep_pos [OF assms(1)] that l(2)])
  show ?thesis
  proof (intro equalityI subsetI)
    fix x assume "x \<in> chunks h'"
    then obtain r m own j where x: "x = (user_part h r, BLOCK_SIZE * m - BLOCKOVERHEAD, own)"
      "(r, Used m own own j) \<in> set (live 0 as)" "(r, Used m own own j) \<noteq> (q, Used n pid pid k)"
      unfolding chunks_rep [OF assms(3,4)] l(1) u by blast
    moreover have "r \<noteq> q" using x(2,3) uq by blast
    ultimately show "x \<in> chunks h - {?c}" unfolding chunks_rep [OF assms(1,2)] by (auto simp: user_part_eq)
  next
    fix x assume "x \<in> chunks h - {?c}"
    then obtain r m own j where x: "x = (user_part h r, BLOCK_SIZE * m - BLOCKOVERHEAD, own)"
      "(r, Used m own own j) \<in> set (live 0 as)" "x \<noteq> ?c"
      unfolding chunks_rep [OF assms(1,2)] by blast
    then have "(r, Used m own own j) \<in> set (live 0 as')" unfolding l(1) by auto
    then show "x \<in> chunks h'" unfolding chunks_rep [OF assms(3,4)] u x(1) by blast
  qed
qed

lemma frame_heap: "frame U h h' \<Longrightarrow> malloc_heap h' = malloc_heap h"
  by (simp add: frame_def)

lemma chunks_cong:
  assumes "rep h as" "settled as" "rep h' as'" "settled as'" "malloc_heap h' = malloc_heap h"
    and "set (live 0 as') = set (live 0 as)"
  shows "chunks h' = chunks h"
proof -
  have "user_part h' = user_part h" using assms(5) by (simp add: fun_eq_iff user_part_def blk_addr_def)
  then show ?thesis unfolding chunks_rep [OF assms(1,2)] chunks_rep [OF assms(3,4)] assms(6) by simp
qed

text \<open>The interface of the memory manager.\<close>

locale mem_provider =
  fixes alloc :: "u16 \<Rightarrow> sos_pid_t \<Rightarrow> 'h \<Rightarrow> ('h \<times> addr) option"
    and dealloc :: "addr \<Rightarrow> 'h \<Rightarrow> 'h option"
    and chk :: "'h \<Rightarrow> (addr \<times> nat \<times> u8) set"
    and ok :: "'h \<Rightarrow> bool"
  assumes alloc_law: "ok h \<Longrightarrow> unat sz \<le> 65524 \<Longrightarrow>
      \<exists>h' p. alloc sz pid h = Some (h', p) \<and> ok h' \<and>
        (if p = NULL then chk h' = chk h
         else \<exists>n. unat sz \<le> n \<and> chk h' = insert (p, n, pid) (chk h) \<and> (p, n, pid) \<notin> chk h)"
    and dealloc_law: "ok h \<Longrightarrow> (p, n, pid) \<in> chk h \<Longrightarrow>
      \<exists>h'. dealloc p h = Some h' \<and> ok h' \<and> chk h' = chk h - {(p, n, pid)}"
    and dealloc_null: "dealloc NULL h = Some h"
    and disjoint_law: "(p, n, x) \<in> chk h \<Longrightarrow> (r, m, y) \<in> chk h \<Longrightarrow>
      (p, n, x) = (r, m, y) \<or> p + n < r \<or> r + m < p"
    and bounds_law: "(p, n, x) \<in> chk h \<Longrightarrow> p \<noteq> NULL \<and> p + n < 65536"
begin

text \<open>A new chunk overlaps none of the old ones, which all survive.\<close>

lemma alloc_fresh:
  assumes "ok h" "unat sz \<le> 65524" "alloc sz pid h = Some (h', p)" "p \<noteq> NULL"
  shows "\<exists>n. unat sz \<le> n \<and> (p, n, pid) \<in> chk h' \<and> chk h \<subseteq> chk h' \<and>
    (\<forall>(r, m, y) \<in> chk h. p + n < r \<or> r + m < p)"
proof -
  obtain n where n: "unat sz \<le> n" "chk h' = insert (p, n, pid) (chk h)" "(p, n, pid) \<notin> chk h"
    using alloc_law [OF assms(1,2), of pid] assms(3,4) by auto
  moreover have "p + n < r \<or> r + m < p" if "(r, m, y) \<in> chk h" for r m y
    using disjoint_law [of p n pid h' r m y] n that by auto
  ultimately show ?thesis by blast
qed

lemma chunk_unique: "(p, n, x) \<in> chk h \<Longrightarrow> (p, m, y) \<in> chk h \<Longrightarrow> n = m \<and> x = y"
  using disjoint_law by fastforce

text \<open>Allocation and release in sequence.\<close>

lemma alloc_dealloc:
  assumes "ok h" "unat sz \<le> 65524" "alloc sz pid h = Some (h', p)" "p \<noteq> NULL"
  shows "\<exists>h''. dealloc p h' = Some h'' \<and> ok h'' \<and> chk h'' = chk h"
proof -
  obtain n where n: "ok h'" "chk h' = insert (p, n, pid) (chk h)" "(p, n, pid) \<notin> chk h"
    using alloc_law [OF assms(1,2), of pid] assms(3,4) by auto
  then show ?thesis using dealloc_law [of h' p n pid] by auto
qed

end

lemma alloc_law_of:
  assumes contract: "\<And>as. rep h as \<Longrightarrow> settled as \<Longrightarrow> sz \<noteq> 0 \<Longrightarrow>
      \<exists>h' p as'. alloc sz pid h = Some (h', p) \<and> rep h' as' \<and> settled as' \<and> frame (used_idx 0 as) h h' \<and>
        (if max_free 0 as < req then p = NULL \<and> set (live 0 as') = set (live 0 as)
         else \<exists>q. p = user_part h q \<and> unat sz + BLOCKOVERHEAD \<le> BLOCK_SIZE * req \<and>
           q + req \<le> tot as \<and> {q..<q + req} \<inter> used_idx 0 as = {} \<and>
           set (live 0 as') = insert (q, Used req pid pid False) (set (live 0 as)))"
    and zero: "alloc 0 pid h = Some (h, NULL)" and "heap_ok h"
  shows "\<exists>h' p. alloc sz pid h = Some (h', p) \<and> heap_ok h' \<and>
    (if p = NULL then chunks h' = chunks h
     else \<exists>n. unat sz \<le> n \<and> chunks h' = insert (p, n, pid) (chunks h) \<and> (p, n, pid) \<notin> chunks h)"
proof (cases "sz = 0")
  case True
  then show ?thesis using zero \<open>heap_ok h\<close> by simp
next
  case False
  obtain as where as: "rep h as" "settled as" using \<open>heap_ok h\<close> by (auto simp: heap_ok_def)
  obtain h' p as' where a: "alloc sz pid h = Some (h', p)" "rep h' as'" "settled as'" "malloc_heap h' = malloc_heap h"
    "if max_free 0 as < req then p = NULL \<and> set (live 0 as') = set (live 0 as)
     else \<exists>q. p = user_part h q \<and> unat sz + BLOCKOVERHEAD \<le> BLOCK_SIZE * req \<and>
       q + req \<le> tot as \<and> {q..<q + req} \<inter> used_idx 0 as = {} \<and>
       set (live 0 as') = insert (q, Used req pid pid False) (set (live 0 as))"
    using contract [OF as False] unfolding frame_def by blast
  have ok: "heap_ok h'" using a(2,3) by (auto simp: heap_ok_def)
  show ?thesis
  proof (cases "max_free 0 as < req")
    case True
    with a ok chunks_cong [OF as a(2-4)] show ?thesis by auto
  next
    case False
    then obtain q where q: "p = user_part h q" "unat sz + BLOCKOVERHEAD \<le> BLOCK_SIZE * req"
      "{q..<q + req} \<inter> used_idx 0 as = {}"
      "set (live 0 as') = insert (q, Used req pid pid False) (set (live 0 as))"
      using a(5) by auto
    have "0 < req" using q(2) by (cases req) (simp_all add: malloc_consts)
    then have "q \<notin> used_idx 0 as" using q(3) by (auto simp: disjoint_iff)
    then have "(q, Used m own own k) \<notin> set (live 0 as)" for m own k
      using used_idx_member [of q "Used m own own k" as] live_asz_pos [OF as(1), of q "Used m own own k" 0]
      by (auto simp: subset_iff)
    then have "(p, BLOCK_SIZE * req - BLOCKOVERHEAD, pid) \<notin> chunks h"
      unfolding chunks_rep [OF as] q(1) by (auto simp: user_part_eq)
    moreover have "p \<noteq> NULL" unfolding q(1) by (simp add: user_part_def HEADER_SIZE_def)
    ultimately show ?thesis
      using a(1) ok chunks_insert [OF as a(2-4) q(4)] q(1,2)
      by (intro exI [of _ h'] exI [of _ p]) (auto intro!: exI [of _ "BLOCK_SIZE * req - BLOCKOVERHEAD"])
  qed
qed

lemma free_chunk:
  assumes "heap_ok h" "(p, n, pid) \<in> chunks h"
  shows "\<exists>h'. sos_blk_mem_free p h = Some h' \<and> heap_ok h' \<and> chunks h' = chunks h - {(p, n, pid)}"
proof -
  obtain as where as: "rep h as" "settled as" using assms(1) by (auto simp: heap_ok_def)
  obtain q i k where c: "p = user_part h q" "n = BLOCK_SIZE * i - BLOCKOVERHEAD" "(q, Used i pid pid k) \<in> set (live 0 as)"
    using assms(2) unfolding chunks_rep [OF as] by auto
  obtain as1 as2 where d: "as = as1 @ Used i pid pid k # as2" "q = 0 + tot as1"
    by (rule live_split [OF c(3)])
  then have r: "rep h (as1 @ Used i pid pid k # as2)" using as(1) by simp
  let ?as = "as1 @ Free i # as2"
  obtain h' where h': "sos_blk_mem_free p h = Some h'" "rep h' ?as" "malloc_heap h' = malloc_heap h"
    using rep_free [OF r] c(1) d(2) by (auto dest: frame_heap)
  have s: "settled ?as" using as(2) d(1) by simp
  have l: "set (live 0 ?as) = set (live 0 as) - {(q, Used i pid pid k)}"
    using live_replace [OF rep_pos [OF r], of "Free i"] d by simp
  have "chunks h' = chunks h - {(p, n, pid)}"
    using chunks_remove [OF as h'(2) s h'(3) l c(3)] c(1,2) by simp
  moreover have "heap_ok h'" using h'(2) s by (auto simp: heap_ok_def)
  ultimately show ?thesis using h'(1) by blast
qed

lemma free_null: "sos_blk_mem_free NULL h = Some h"
  by (simp add: sos_blk_mem_free_def)

interpretation short_term: mem_provider sos_blk_mem_alloc sos_blk_mem_free chunks heap_ok
proof
  show "\<exists>h' p. sos_blk_mem_alloc sz pid h = Some (h', p) \<and> heap_ok h' \<and>
    (if p = NULL then chunks h' = chunks h
     else \<exists>n. unat sz \<le> n \<and> chunks h' = insert (p, n, pid) (chunks h) \<and> (p, n, pid) \<notin> chunks h)"
    if "heap_ok h" "unat sz \<le> 65524" for h sz pid
    by (rule alloc_law_of [where req = "unat (req_blocks sz)"])
       (rule first_fit.alloc_contract [OF _ _ _ that(2) refl] first_fit.alloc_zero that(1); assumption)+
qed (rule free_chunk free_null chunks_disjoint chunk_bounds; assumption)+

interpretation long_term: mem_provider sos_blk_mem_longterm_alloc sos_blk_mem_free chunks heap_ok
proof
  show "\<exists>h' p. sos_blk_mem_longterm_alloc sz pid h = Some (h', p) \<and> heap_ok h' \<and>
    (if p = NULL then chunks h' = chunks h
     else \<exists>n. unat sz \<le> n \<and> chunks h' = insert (p, n, pid) (chunks h) \<and> (p, n, pid) \<notin> chunks h)"
    if "heap_ok h" "unat sz \<le> 65524" for h sz pid
    by (rule alloc_law_of [where req = "unat (req_blocks sz)"])
       (rule far_end.alloc_contract [OF _ _ _ that(2) refl] far_end.alloc_zero that(1); assumption)+
qed (rule free_chunk free_null chunks_disjoint chunk_bounds; assumption)+

lemma change_own_chunk:
  assumes "heap_ok h" "(p, n, own) \<in> chunks h" "pid \<noteq> NULL_PID"
  shows "\<exists>h'. sos_blk_mem_change_own p pid h = Some (h', SOS_OK) \<and> heap_ok h' \<and>
    chunks h' = insert (p, n, pid) (chunks h - {(p, n, own)})"
proof -
  obtain as where as: "rep h as" "settled as" using assms(1) by (auto simp: heap_ok_def)
  obtain q i k where c: "p = user_part h q" "n = BLOCK_SIZE * i - BLOCKOVERHEAD" "(q, Used i own own k) \<in> set (live 0 as)"
    using assms(2) unfolding chunks_rep [OF as] by auto
  obtain as1 as2 where d: "as = as1 @ Used i own own k # as2" "q = 0 + tot as1"
    by (rule live_split [OF c(3)])
  then have r: "rep h (as1 @ Used i own own k # as2)" using as(1) by simp
  let ?as = "as1 @ Used i pid pid k # as2"
  obtain h' where h': "sos_blk_mem_change_own p pid h = Some (h', SOS_OK)" "rep h' ?as" "malloc_heap h' = malloc_heap h"
    using rep_change_own [OF r assms(3)] c(1) d(2) by (auto dest: frame_heap)
  have s: "settled ?as" using as(2) d(1) by simp
  have u: "user_part h' = user_part h" using h'(3) by (simp add: fun_eq_iff user_part_def blk_addr_def)
  have l: "set (live 0 ?as) = set (live 0 as) - {(q, Used i own own k)} \<union> {(q, Used i pid pid k)}"
    using live_replace [OF rep_pos [OF r], of "Used i pid pid k"] d by simp
  have uq: "a = Used i own own k" if "(q, a) \<in> set (live 0 as)" for a
    by (rule live_unique [OF rep_pos [OF as(1)] that c(3)])
  have "chunks h' = insert (p, n, pid) (chunks h - {(p, n, own)})"
  proof (intro equalityI subsetI)
    fix x assume "x \<in> chunks h'"
    then obtain t m o' j where x: "x = (user_part h t, BLOCK_SIZE * m - BLOCKOVERHEAD, o')"
      "(t, Used m o' o' j) \<in> set (live 0 as) - {(q, Used i own own k)} \<union> {(q, Used i pid pid k)}"
      unfolding chunks_rep [OF h'(2) s] l u by blast
    show "x \<in> insert (p, n, pid) (chunks h - {(p, n, own)})"
    proof (cases "t = q")
      case True
      then show ?thesis using x uq c(1,2) by auto
    next
      case False
      then show ?thesis using x c(1,2) unfolding chunks_rep [OF as] by (auto simp: user_part_eq)
    qed
  next
    fix x assume "x \<in> insert (p, n, pid) (chunks h - {(p, n, own)})"
    then consider "x = (p, n, pid)" | "x \<in> chunks h" "x \<noteq> (p, n, own)" by blast
    then show "x \<in> chunks h'"
    proof cases
      case 1
      then show ?thesis unfolding chunks_rep [OF h'(2) s] l u c(1,2) by blast
    next
      case 2
      then show ?thesis unfolding chunks_rep [OF h'(2) s] chunks_rep [OF as] l u c(1,2) by blast
    qed
  qed
  moreover have "heap_ok h'" using h'(2) s by (auto simp: heap_ok_def)
  ultimately show ?thesis using h'(1) by blast
qed

lemma remove_all_chunks:
  assumes "heap_ok h"
  shows "\<exists>h'. mem_remove_all pid h = Some (h', SOS_OK) \<and> heap_ok h' \<and> chunks h' = {(p, n, x) \<in> chunks h. x \<noteq> pid}"
proof -
  obtain as where as: "rep h as" "settled as" using assms by (auto simp: heap_ok_def)
  let ?f = "release (\<lambda>a. aown a = pid)"
  obtain h' where h': "remove_walk pid 0 h = Some h'" "rep h' (map ?f as)" "malloc_heap h' = malloc_heap h"
    using rep_remove_walk [of h "[]" as pid] as by (auto dest: frame_heap)
  have s: "settled (map ?f as)" by (rule settled_map [OF as(2)]) (rule release_held)
  have u: "user_part h' = user_part h" using h'(3) by (simp add: fun_eq_iff user_part_def blk_addr_def)
  have "chunks h' = {(p, n, x) \<in> chunks h. x \<noteq> pid}"
    unfolding chunks_rep [OF h'(2) s] chunks_rep [OF as] live_release u by auto
  moreover have "heap_ok h'" using h'(2) s by (auto simp: heap_ok_def)
  ultimately show ?thesis using h'(1) by (auto simp: mem_remove_all_def)
qed

lemma mem_init_chunks:
  assumes "2 \<le> length arr" "base + BLOCK_SIZE * length arr \<le> 65536"
  shows "\<exists>h. mem_init base arr = Some h \<and> heap_ok h \<and> chunks h = {}"
proof -
  obtain h where h: "mem_init base arr = Some h" "rep h [Free (length arr - 1)]"
    using rep_mem_init [OF assms] by blast
  have "settled [Free (length arr - 1)]" by simp
  then show ?thesis using h chunks_rep [OF h(2)] by (auto simp: heap_ok_def)
qed

end
