(* ===== verification/Slab.thy ===== *)
theory Slab
  imports Malloc_Client
begin

text \<open>
  The slab allocator, \<^verbatim>\<open>kernel/slab.c\<close>: items of one size, up to eight of them in a
  pool, with an allocation vector per pool and the pools in a singly linked list. The pools are
  chunks of the memory manager. The invariant \<open>slab_inv\<close> names the pools; \<open>slab_used\<close> is the
  set of the addresses that are handed out.

  \<open>None\<close> stands for a list of pools that does not end and for the use of a slab without any
  pool, where the code would follow a null pointer.
\<close>

section \<open>Definitions\<close>

record slab_item_t =
  next_item :: addr
  alloc_vec :: u8
  gc_vec :: u8

record slab_t =
  slab_head :: addr
  num_items_per_pool :: u8
  empty_vector :: u8
  item_size :: u8
  slab_flag :: u8

text \<open>The memory a slab works on: the heap, and the headers of the pools in it.\<close>

record slab_mem =
  s_heap :: heap
  s_items :: "addr \<Rightarrow> slab_item_t"

definition SLAB_LONGTERM :: u8 where "SLAB_LONGTERM = 0x80"

text \<open>\<^verbatim>\<open>sizeof(slab_item_t)\<close>, which is also the offset of \<^verbatim>\<open>mem\<close>.\<close>

definition SLAB_ITEM_HDR :: nat where "SLAB_ITEM_HDR = 4"

definition set_item :: "addr \<Rightarrow> (slab_item_t \<Rightarrow> slab_item_t) \<Rightarrow> slab_mem \<Rightarrow> slab_mem" where
  "set_item p f w = w\<lparr>s_items := (s_items w)(p := f (s_items w p))\<rparr>"

definition item_mem :: "addr \<Rightarrow> addr" where
  "item_mem p = p + SLAB_ITEM_HDR"

text \<open>The loop that builds the empty vector.\<close>

fun build_vector :: "nat \<Rightarrow> u8 \<Rightarrow> u8" where
  "build_vector 0 v = v"
| "build_vector (Suc n) v = build_vector n (push_bit 1 v OR 1)"

text \<open>The allocation of a pool, by the kind of the slab.\<close>

definition pool_alloc :: "slab_t \<Rightarrow> sos_pid_t \<Rightarrow> slab_mem \<Rightarrow> (slab_mem \<times> addr) option" where
  "pool_alloc slab pid w = do {
     let sz = of_nat (SLAB_ITEM_HDR + unat (num_items_per_pool slab) * unat (item_size slab));
     (h, p) \<leftarrow> (if slab_flag slab AND SLAB_LONGTERM \<noteq> 0 then malloc_longterm sz pid (s_heap w)
               else ker_malloc sz pid (s_heap w));
     Some (w\<lparr>s_heap := h\<rparr>, p)
   }"

definition ker_slab_init ::
    "sos_pid_t \<Rightarrow> slab_t \<Rightarrow> u8 \<Rightarrow> u8 \<Rightarrow> u8 \<Rightarrow> slab_mem \<Rightarrow> (slab_mem \<times> slab_t \<times> int) option" where
  "ker_slab_init pid slab isz items_per_pool flg w =
     (if items_per_pool > 8 then Some (w, slab, - EINVAL)
      else do {
        let slab1 = slab\<lparr>slab_head := NULL, num_items_per_pool := items_per_pool, empty_vector := 0,
                         item_size := isz, slab_flag := flg\<rparr>;
        let slab2 = slab1\<lparr>empty_vector := build_vector (unat items_per_pool) (empty_vector slab1)\<rparr>;
        (w1, p) \<leftarrow> pool_alloc slab2 pid w;
        let slab3 = slab2\<lparr>slab_head := p\<rparr>;
        if p = NULL then Some (w1, slab3, - ENOMEM)
        else Some (set_item p (\<lambda>_. \<lparr>next_item = NULL, alloc_vec = 0, gc_vec = 0\<rparr>) w1, slab3, SOS_OK)
      })"

text \<open>The search for a pool with room, with the last pool seen.\<close>

partial_function (option) slab_find ::
    "(addr \<Rightarrow> slab_item_t) \<Rightarrow> u8 \<Rightarrow> addr \<Rightarrow> addr \<Rightarrow> (addr \<times> addr) option" where
  "slab_find items ev itr prv =
     (if itr = NULL then Some (itr, prv)
      else if alloc_vec (items itr) \<noteq> ev then Some (itr, prv)
      else slab_find items ev (next_item (items itr)) itr)"

declare slab_find.simps [code]

text \<open>The search for a free slot; \<open>n\<close> slots are left to look at, the next one is \<open>i\<close>.\<close>

fun find_slot :: "nat \<Rightarrow> nat \<Rightarrow> u8 \<Rightarrow> u8 \<Rightarrow> (nat \<times> u8) option" where
  "find_slot 0 i msk v = None"
| "find_slot (Suc n) i msk v =
     (if v AND msk = 0 then Some (i, msk) else find_slot n (Suc i) (push_bit 1 msk) v)"

definition ker_slab_alloc :: "slab_t \<Rightarrow> sos_pid_t \<Rightarrow> slab_mem \<Rightarrow> (slab_mem \<times> addr) option" where
  "ker_slab_alloc slab pid w = do {
     (itr, prv) \<leftarrow> slab_find (s_items w) (empty_vector slab) (slab_head slab) (slab_head slab);
     if itr = NULL then
       if prv = NULL then None
       else do {
         (w1, p) \<leftarrow> pool_alloc slab pid w;
         let w2 = set_item prv (\<lambda>it. it\<lparr>next_item := p\<rparr>) w1;
         if p = NULL then Some (w2, NULL)
         else Some (set_item p (\<lambda>_. \<lparr>next_item = NULL, alloc_vec = 0x01, gc_vec = 0\<rparr>) w2, item_mem p)
       }
     else case find_slot (unat (num_items_per_pool slab)) 0 0x01 (alloc_vec (s_items w itr)) of
         Some (i, msk) \<Rightarrow>
           Some (set_item itr (\<lambda>it. it\<lparr>alloc_vec := alloc_vec it OR msk\<rparr>) w,
                 item_mem itr + i * unat (item_size slab))
       | None \<Rightarrow> Some (w, NULL)
   }"

definition in_pool :: "slab_t \<Rightarrow> addr \<Rightarrow> addr \<Rightarrow> bool" where
  "in_pool slab p a \<longleftrightarrow> item_mem p \<le> a \<and>
     a < item_mem p + unat (num_items_per_pool slab) * unat (item_size slab)"

definition slot_mask :: "slab_t \<Rightarrow> addr \<Rightarrow> addr \<Rightarrow> u8" where
  "slot_mask slab p a = push_bit ((a - item_mem p) div unat (item_size slab)) 1"

partial_function (option) slab_free_walk ::
    "slab_t \<Rightarrow> addr \<Rightarrow> addr \<Rightarrow> addr \<Rightarrow> slab_mem \<Rightarrow> slab_mem outcome option" where
  "slab_free_walk slab a itr prv w =
     (if itr = NULL then Some Panic
      else if in_pool slab itr a then
        (let w1 = set_item itr (\<lambda>it. it\<lparr>alloc_vec := alloc_vec it AND NOT (slot_mask slab itr a)\<rparr>) w
         in if alloc_vec (s_items w1 itr) = 0 \<and> itr \<noteq> slab_head slab
            then do {
              let w2 = set_item prv (\<lambda>it. it\<lparr>next_item := next_item (s_items w1 itr)\<rparr>) w1;
              h \<leftarrow> ker_free itr (s_heap w2);
              Some (Done (w2\<lparr>s_heap := h\<rparr>))
            }
            else Some (Done w1))
      else slab_free_walk slab a (next_item (s_items w itr)) itr w)"

declare slab_free_walk.simps [code]

definition ker_slab_free :: "slab_t \<Rightarrow> addr \<Rightarrow> slab_mem \<Rightarrow> slab_mem outcome option" where
  "ker_slab_free slab a w = slab_free_walk slab a (slab_head slab) NULL w"

partial_function (option) slab_gc_mark_walk ::
    "slab_t \<Rightarrow> addr \<Rightarrow> addr \<Rightarrow> slab_mem \<Rightarrow> slab_mem option" where
  "slab_gc_mark_walk slab a itr w =
     (if itr = NULL then Some w
      else if in_pool slab itr a then
        (if (a - item_mem itr) mod unat (item_size slab) = 0 \<and>
            alloc_vec (s_items w itr) AND slot_mask slab itr a \<noteq> 0
         then Some (set_item itr (\<lambda>it. it\<lparr>gc_vec := gc_vec it OR slot_mask slab itr a\<rparr>) w)
         else Some w)
      else slab_gc_mark_walk slab a (next_item (s_items w itr)) w)"

declare slab_gc_mark_walk.simps [code]

definition slab_gc_mark :: "slab_t \<Rightarrow> addr \<Rightarrow> slab_mem \<Rightarrow> slab_mem option" where
  "slab_gc_mark slab a w = slab_gc_mark_walk slab a (slab_head slab) w"

text \<open>\<^verbatim>\<open>ker_gc_mark\<close> on the pool itself; its result is ignored.\<close>

definition keep_pool :: "sos_pid_t \<Rightarrow> addr \<Rightarrow> slab_mem \<Rightarrow> slab_mem option" where
  "keep_pool pid p w = do {
     let w1 = set_item p (\<lambda>it. it\<lparr>gc_vec := 0\<rparr>) w;
     (h, r) \<leftarrow> ker_gc_mark pid p (s_heap w1);
     Some (w1\<lparr>s_heap := h\<rparr>)
   }"

partial_function (option) slab_gc_walk ::
    "slab_t \<Rightarrow> sos_pid_t \<Rightarrow> addr \<Rightarrow> addr \<Rightarrow> slab_mem \<Rightarrow> slab_mem option" where
  "slab_gc_walk slab pid itr prv w =
     (if itr = NULL then Some w
      else if alloc_vec (s_items w itr) \<noteq> gc_vec (s_items w itr) then
        (let w1 = set_item itr (\<lambda>it. it\<lparr>alloc_vec := gc_vec it\<rparr>) w
         in if alloc_vec (s_items w1 itr) = 0 \<and> itr \<noteq> slab_head slab
            then do {
              let w2 = set_item prv (\<lambda>it. it\<lparr>next_item := next_item (s_items w1 itr)\<rparr>) w1;
              h \<leftarrow> ker_free itr (s_heap w2);
              let w3 = w2\<lparr>s_heap := h\<rparr>;
              slab_gc_walk slab pid (next_item (s_items w3 prv)) prv w3
            }
            else do {
              w2 \<leftarrow> keep_pool pid itr w1;
              slab_gc_walk slab pid (next_item (s_items w2 itr)) itr w2
            })
      else do {
        w1 \<leftarrow> keep_pool pid itr w;
        slab_gc_walk slab pid (next_item (s_items w1 itr)) itr w1
      })"

declare slab_gc_walk.simps [code]

definition slab_gc :: "slab_t \<Rightarrow> sos_pid_t \<Rightarrow> slab_mem \<Rightarrow> slab_mem option" where
  "slab_gc slab pid w = slab_gc_walk slab pid (slab_head slab) NULL w"

end
