(* ===== verification/Slab_Correct.thy ===== *)
theory Slab_Correct
  imports Slab
begin

text \<open>
  The slab allocator hands out a slot only once, takes back exactly the slot it is given, and
  keeps its pools inside chunks of the memory manager.
\<close>

section \<open>The invariant\<close>

fun chain :: "(addr \<Rightarrow> slab_item_t) \<Rightarrow> addr \<Rightarrow> addr list \<Rightarrow> bool" where
  "chain items p [] \<longleftrightarrow> p = NULL"
| "chain items p (x # xs) \<longleftrightarrow> p = x \<and> x \<noteq> NULL \<and> chain items (next_item (items x)) xs"

abbreviation slab_num :: "slab_t \<Rightarrow> nat" where "slab_num s \<equiv> unat (num_items_per_pool s)"
abbreviation slab_size :: "slab_t \<Rightarrow> nat" where "slab_size s \<equiv> unat (item_size s)"

definition slab_shape :: "slab_t \<Rightarrow> bool" where
  "slab_shape s \<longleftrightarrow> 0 < slab_num s \<and> slab_num s \<le> 8 \<and> 0 < slab_size s \<and> empty_vector s = mask (slab_num s)"

definition pool_ok :: "slab_t \<Rightarrow> slab_mem \<Rightarrow> addr \<Rightarrow> bool" where
  "pool_ok s w p \<longleftrightarrow>
     (\<exists>n pid. (p, n, pid) \<in> chunks (s_heap w) \<and> SLAB_ITEM_HDR + slab_num s * slab_size s \<le> n) \<and>
     (\<forall>i. bit (alloc_vec (s_items w p)) i \<longrightarrow> i < slab_num s)"

definition slab_inv :: "slab_t \<Rightarrow> addr list \<Rightarrow> slab_mem \<Rightarrow> bool" where
  "slab_inv s ps w \<longleftrightarrow>
     heap_ok (s_heap w) \<and> slab_shape s \<and> ps \<noteq> [] \<and> distinct ps \<and>
     chain (s_items w) (slab_head s) ps \<and> (\<forall>p \<in> set ps. pool_ok s w p)"

definition slot_addr :: "slab_t \<Rightarrow> addr \<Rightarrow> nat \<Rightarrow> addr" where
  "slot_addr s p i = item_mem p + i * slab_size s"

definition slab_used :: "slab_t \<Rightarrow> addr list \<Rightarrow> slab_mem \<Rightarrow> addr set" where
  "slab_used s ps w = {slot_addr s p i | p i. p \<in> set ps \<and> bit (alloc_vec (s_items w p)) i}"

text \<open>The chunks that are not pools of the slab.\<close>

definition others :: "addr list \<Rightarrow> slab_mem \<Rightarrow> (addr \<times> nat \<times> u8) set" where
  "others ps w = {c \<in> chunks (s_heap w). fst c \<notin> set ps}"

text \<open>No slot is left: every pool is full and the memory manager has no room for a further one.\<close>

definition slab_full :: "slab_t \<Rightarrow> addr list \<Rightarrow> sos_pid_t \<Rightarrow> slab_mem \<Rightarrow> bool" where
  "slab_full s ps pid w \<longleftrightarrow> (\<forall>p \<in> set ps. alloc_vec (s_items w p) = empty_vector s) \<and> (\<exists>w1. pool_alloc s pid w = Some (w1, NULL))"

text \<open>The pools behind the first one that have no slot in use but \<open>a\<close>.\<close>

definition last_used :: "slab_t \<Rightarrow> addr list \<Rightarrow> addr \<Rightarrow> slab_mem \<Rightarrow> addr set" where
  "last_used s ps a w = {p \<in> set ps. p \<noteq> hd ps \<and> slab_used s [p] w = {a}}"

section \<open>Vectors and lists of pools\<close>

lemma build_vector_mask: "build_vector n (mask k) = mask (n + k)"
proof (induction n arbitrary: k)
  case (Suc n)
  have "push_bit 1 (mask k) OR 1 = (mask (Suc k) :: u8)"
    by (simp add: mask_Suc_double or.commute push_bit_double mult.commute)
  with Suc [of "Suc k"] show ?case by simp
qed simp

lemma find_slot_Some:
  "find_slot n i (2 ^ i) v = Some (j, msk) \<Longrightarrow> i \<le> j \<and> j < i + n \<and> \<not> bit v j \<and> msk = 2 ^ j"
proof (induction n arbitrary: i)
  case (Suc n)
  have p: "push_bit 1 (2 ^ i) = (2 ^ Suc i :: u8)" by (simp add: push_bit_double mult.commute)
  from Suc.IH [of "Suc i"] Suc.prems show ?case
    unfolding find_slot.simps and_exp_eq_0_iff_not_bit p by (auto split: if_splits)
qed simp

lemma find_slot_None: "find_slot n i (2 ^ i) v = None \<longleftrightarrow> (\<forall>j. i \<le> j \<and> j < i + n \<longrightarrow> bit v j)"
proof (induction n arbitrary: i)
  case (Suc n)
  have p: "push_bit 1 (2 ^ i) = (2 ^ Suc i :: u8)" by (simp add: push_bit_double mult.commute)
  have "(\<forall>j. i \<le> j \<and> j < i + Suc n \<longrightarrow> bit v j) \<longleftrightarrow> bit v i \<and> (\<forall>j. Suc i \<le> j \<and> j < Suc i + n \<longrightarrow> bit v j)"
    by (metis Suc_leD add_Suc_shift le_SucE le_add1 less_Suc_eq_le not_less_eq_eq le_eq_less_or_eq order_refl Suc_leI)
  with Suc.IH [of "Suc i"] show ?case
    unfolding find_slot.simps and_exp_eq_0_iff_not_bit p by simp
qed auto

lemma full_vector:
  "(\<forall>i. bit v i \<longrightarrow> i < n) \<Longrightarrow> n \<le> 8 \<Longrightarrow> (v :: u8) = mask n \<longleftrightarrow> (\<forall>i < n. bit v i)"
  by (auto simp: bit_eq_iff bit_mask_iff)

lemma chain_unlink:
  "chain items h (qs @ q # p # rs) \<Longrightarrow> distinct (qs @ q # p # rs) \<Longrightarrow>
   chain (items(q := (items q)\<lparr>next_item := next_item (items p)\<rparr>)) h (qs @ q # rs)"
proof (induction qs arbitrary: h)
  case Nil
  have "chain (items(q := x)) a xs = chain items a xs" if "q \<notin> set xs" for x a xs
    using that by (induction xs arbitrary: a) auto
  note c = this [of rs]
  have "q \<notin> set rs" "q \<noteq> p" using Nil.prems by auto
  from c [OF this(1)] Nil this(2) show ?case by (simp del: fun_upd_apply) simp
qed auto

lemma chain_cong: "(\<And>x. x \<in> set xs \<Longrightarrow> next_item (items' x) = next_item (items x)) \<Longrightarrow>
  chain items' a xs = chain items a xs"
  by (induction xs arbitrary: a) auto

lemma chain_append_one:
  "chain items h (qs @ [q]) \<Longrightarrow> p \<noteq> NULL \<Longrightarrow> p \<notin> set (qs @ [q]) \<Longrightarrow> distinct (qs @ [q]) \<Longrightarrow>
   next_item (items' p) = NULL \<Longrightarrow> next_item (items' q) = p \<Longrightarrow>
   (\<And>x. x \<in> set qs \<Longrightarrow> next_item (items' x) = next_item (items x)) \<Longrightarrow> chain items' h (qs @ [q, p])"
  by (induction qs arbitrary: h) auto

lemma slab_find_chain:
  assumes "chain items itr ps"
  shows "case List.find (\<lambda>p. alloc_vec (items p) \<noteq> ev) ps of
      Some p \<Rightarrow> \<exists>prv'. slab_find items ev itr prv = Some (p, prv')
    | None \<Rightarrow> slab_find items ev itr prv = Some (NULL, last (prv # ps))"
  using assms
proof (induction ps arbitrary: itr prv)
  case Nil
  then show ?case by (simp add: slab_find.simps)
next
  case (Cons p ps)
  from Cons.prems Cons.IH [of "next_item (items p)" p] show ?case
    by (subst (1 2) slab_find.simps) (auto split: option.splits)
qed

section \<open>Slots and their addresses\<close>

lemma pool_sep:
  assumes "pool_ok s w p" "pool_ok s w r" "in_pool s p a" "in_pool s r a"
  shows "p = r"
proof -
  obtain n x where n: "(p, n, x) \<in> chunks (s_heap w)" "SLAB_ITEM_HDR + slab_num s * slab_size s \<le> n"
    using assms(1) by (auto simp: pool_ok_def)
  obtain m y where m: "(r, m, y) \<in> chunks (s_heap w)" "SLAB_ITEM_HDR + slab_num s * slab_size s \<le> m"
    using assms(2) by (auto simp: pool_ok_def)
  from chunks_disjoint [OF n(1) m(1)] n(2) m(2) assms(3,4) show ?thesis
    by (auto simp: in_pool_def item_mem_def)
qed

lemma slot_in_pool: "i < slab_num s \<Longrightarrow> 0 < slab_size s \<Longrightarrow> in_pool s p (slot_addr s p i)"
  by (simp add: in_pool_def slot_addr_def)

lemma slot_index: "0 < slab_size s \<Longrightarrow> (slot_addr s p i - item_mem p) div slab_size s = i"
  by (simp add: slot_addr_def)

lemma slot_inj:
  assumes "slab_shape s" "pool_ok s w p" "pool_ok s w r" "i < slab_num s" "j < slab_num s"
    and eq: "slot_addr s p i = slot_addr s r j"
  shows "p = r \<and> i = j"
proof -
  have sz: "0 < slab_size s" using assms(1) by (simp add: slab_shape_def)
  have "in_pool s p (slot_addr s p i)" by (rule slot_in_pool [OF assms(4) sz])
  moreover have "in_pool s r (slot_addr s p i)" unfolding eq by (rule slot_in_pool [OF assms(5) sz])
  ultimately have pr: "p = r" by (rule pool_sep [OF assms(2,3)])
  then have "i * slab_size s = j * slab_size s" using eq by (simp add: slot_addr_def)
  with pr sz show ?thesis by simp
qed

lemma slab_shape_small: "slab_shape s \<Longrightarrow> SLAB_ITEM_HDR + slab_num s * slab_size s \<le> 2044"
proof -
  assume "slab_shape s"
  then have "slab_num s \<le> 8" by (simp add: slab_shape_def)
  moreover have "slab_size s \<le> 255" using unat8_less [of "item_size s"] by simp
  ultimately have "slab_num s * slab_size s \<le> 8 * 255" by (rule mult_le_mono)
  then show ?thesis by (simp add: SLAB_ITEM_HDR_def)
qed

lemma pool_alloc_law:
  assumes sh: "slab_shape s" and ok: "heap_ok (s_heap w)"
  shows "\<exists>w' p. pool_alloc s pid w = Some (w', p) \<and> s_items w' = s_items w \<and> heap_ok (s_heap w') \<and>
    (if p = NULL then chunks (s_heap w') = chunks (s_heap w)
     else \<exists>n. SLAB_ITEM_HDR + slab_num s * slab_size s \<le> n \<and>
       chunks (s_heap w') = insert (p, n, pid) (chunks (s_heap w)) \<and> (p, n, pid) \<notin> chunks (s_heap w))"
proof -
  let ?sz = "of_nat (SLAB_ITEM_HDR + slab_num s * slab_size s) :: u16"
  have un: "unat ?sz = SLAB_ITEM_HDR + slab_num s * slab_size s" and le: "unat ?sz \<le> 65524"
    using slab_shape_small [OF sh] by (simp_all only: unat_of_nat16)
  show ?thesis
  proof (cases "slab_flag s AND SLAB_LONGTERM \<noteq> 0")
    case True
    from long_term.alloc_law [OF ok le, of pid] obtain h' p where
      "sos_blk_mem_longterm_alloc ?sz pid (s_heap w) = Some (h', p)" "heap_ok h'"
      "if p = NULL then chunks h' = chunks (s_heap w)
       else \<exists>n. SLAB_ITEM_HDR + slab_num s * slab_size s \<le> n \<and> chunks h' = insert (p, n, pid) (chunks (s_heap w)) \<and>
         (p, n, pid) \<notin> chunks (s_heap w)"
      unfolding un by blast
    with True show ?thesis
      by (intro exI [of _ "w\<lparr>s_heap := h'\<rparr>"] exI [of _ p]) (simp add: pool_alloc_def Let_def)
  next
    case False
    from short_term.alloc_law [OF ok le, of pid] obtain h' p where
      "sos_blk_mem_alloc ?sz pid (s_heap w) = Some (h', p)" "heap_ok h'"
      "if p = NULL then chunks h' = chunks (s_heap w)
       else \<exists>n. SLAB_ITEM_HDR + slab_num s * slab_size s \<le> n \<and> chunks h' = insert (p, n, pid) (chunks (s_heap w)) \<and>
         (p, n, pid) \<notin> chunks (s_heap w)"
      unfolding un by blast
    with False show ?thesis
      by (intro exI [of _ "w\<lparr>s_heap := h'\<rparr>"] exI [of _ p]) (simp add: pool_alloc_def Let_def)
  qed
qed

lemma pool_ok_mono:
  "pool_ok s w p \<Longrightarrow> chunks (s_heap w) \<subseteq> chunks (s_heap w') \<Longrightarrow>
   alloc_vec (s_items w' p) = alloc_vec (s_items w p) \<Longrightarrow> pool_ok s w' p"
  by (auto simp: pool_ok_def)

lemma set_item_simps [simp]:
  "s_heap (set_item p f w) = s_heap w" "s_items (set_item p f w) q = (if q = p then f (s_items w p) else s_items w q)"
  by (simp_all add: set_item_def)

section \<open>Allocation\<close>

lemma slab_used_image:
  "slab_used s ps w = (\<lambda>(p, i). slot_addr s p i) ` {(p, i). p \<in> set ps \<and> bit (alloc_vec (s_items w p)) i}"
  by (auto simp: slab_used_def)

lemma used_slots:
  assumes "p \<in> S" "\<And>q j. f q j \<longleftrightarrow> g q j \<or> q = p \<and> j = i"
  shows "{(q, j). q \<in> S \<and> f q j} = insert (p, i) {(q, j). q \<in> S \<and> g q j}"
  unfolding assms(2) using assms(1) by blast

text \<open>A slot of a pool that has room.\<close>

lemma slab_alloc_in_pool:
  assumes inv: "slab_inv s ps w" and p: "p \<in> set ps" "i < slab_num s" "\<not> bit (alloc_vec (s_items w p)) i"
    and w': "w' = set_item p (\<lambda>it. it\<lparr>alloc_vec := alloc_vec it OR 2 ^ i\<rparr>) w"
  shows "slab_inv s ps w'" "slot_addr s p i \<notin> slab_used s ps w"
    "slab_used s ps w' = insert (slot_addr s p i) (slab_used s ps w)"
proof -
  have sh: "slab_shape s" and ok: "\<forall>p \<in> set ps. pool_ok s w p" using inv by (simp_all add: slab_inv_def)
  have i8: "i < 8" using p(2) sh by (simp add: slab_shape_def)
  have bits: "bit (alloc_vec (s_items w' q)) j \<longleftrightarrow> bit (alloc_vec (s_items w q)) j \<or> q = p \<and> j = i" for q j
    using i8 by (auto simp: w' bit_or_iff bit_exp_iff possible_bit_word)
  have "chain (s_items w') (slab_head s) ps = chain (s_items w) (slab_head s) ps"
    by (rule chain_cong) (simp add: w')
  then have "chain (s_items w') (slab_head s) ps" using inv by (simp add: slab_inv_def)
  moreover have "pool_ok s w' q" if "q \<in> set ps" for q
    using bspec [OF ok that] p(2) unfolding pool_ok_def bits by (auto simp: w')
  ultimately show "slab_inv s ps w'" using inv by (simp add: slab_inv_def w')
  show "slot_addr s p i \<notin> slab_used s ps w"
  proof
    assume "slot_addr s p i \<in> slab_used s ps w"
    then obtain q j where q: "slot_addr s p i = slot_addr s q j" "q \<in> set ps" "bit (alloc_vec (s_items w q)) j"
      by (auto simp: slab_used_def)
    then have "j < slab_num s" using ok by (auto simp: pool_ok_def)
    with slot_inj [OF sh _ _ p(2) _ q(1)] ok p(1) q(2) have "p = q \<and> i = j" by blast
    with p(3) q(3) show False by simp
  qed
  show "slab_used s ps w' = insert (slot_addr s p i) (slab_used s ps w)"
    unfolding slab_used_image used_slots [OF p(1) bits] by simp
qed

text \<open>A new pool at the end of the list, with its first slot handed out.\<close>

lemma slab_new_pool:
  assumes inv: "slab_inv s ps w" and ok: "heap_ok (s_heap w1)" and it: "s_items w1 = s_items w"
    and c: "chunks (s_heap w1) = insert (p, n, pid) (chunks (s_heap w))" "(p, n, pid) \<notin> chunks (s_heap w)"
      "SLAB_ITEM_HDR + slab_num s * slab_size s \<le> n"
    and w': "w' = set_item p (\<lambda>_. \<lparr>next_item = NULL, alloc_vec = 1, gc_vec = 0\<rparr>)
               (set_item (last ps) (\<lambda>it. it\<lparr>next_item := p\<rparr>) w1)"
  shows "slab_inv s (ps @ [p]) w'" "item_mem p \<notin> slab_used s ps w"
    "slab_used s (ps @ [p]) w' = insert (item_mem p) (slab_used s ps w)"
proof -
  have sh: "slab_shape s" and oks: "\<forall>p \<in> set ps. pool_ok s w p" and ne: "ps \<noteq> []" "distinct ps"
    and ch: "chain (s_items w) (slab_head s) ps"
    using inv by (simp_all add: slab_inv_def)
  have pn: "p \<noteq> NULL" using chunk_bounds [of p n pid "s_heap w1"] c(1) by simp
  have fresh: "p \<notin> set ps"
  proof
    assume "p \<in> set ps"
    then obtain m y where "(p, m, y) \<in> chunks (s_heap w)" using oks by (auto simp: pool_ok_def)
    with c(1,2) short_term.chunk_unique [of p n pid "s_heap w1" m y] show False by auto
  qed
  have al: "alloc_vec (s_items w' q) = (if q = p then 1 else alloc_vec (s_items w q))" for q
    by (simp add: w' it)
  have split: "butlast ps @ [last ps] = ps" using ne(1) by simp
  have lb: "last ps \<notin> set (butlast ps)" using ne by (metis distinct_append disjoint_iff list.set_intros(1) split)
  have lp: "last ps \<noteq> p" using fresh ne(1) last_in_set by blast
  have "chain (s_items w') (slab_head s) (butlast ps @ [last ps, p])"
    using pn fresh ne ch lb lp
    by (intro chain_append_one [of "s_items w"]) (auto simp: w' it split dest: in_set_butlastD)
  then have ch': "chain (s_items w') (slab_head s) (ps @ [p])"
    using split by (metis append_assoc append_Cons append_Nil)
  have hp: "s_heap w' = s_heap w1" by (simp add: w')
  have new: "pool_ok s w' p"
    unfolding pool_ok_def al hp using c(1,3) sh by (auto simp: slab_shape_def bit_1_iff)
  have old: "pool_ok s w' q" if "q \<in> set ps" for q
    by (rule pool_ok_mono [of s w]) (use oks that fresh c(1) in \<open>auto simp: al hp\<close>)
  from new ch' old show "slab_inv s (ps @ [p]) w'"
    using inv ok fresh by (auto simp: slab_inv_def w')
  have sz: "0 < slab_size s" "0 < slab_num s" using sh by (simp_all add: slab_shape_def)
  have s0: "slot_addr s p 0 = item_mem p" by (simp add: slot_addr_def)
  show used: "slab_used s (ps @ [p]) w' = insert (item_mem p) (slab_used s ps w)"
  proof -
    have "{(q, j). q \<in> set (ps @ [p]) \<and> bit (alloc_vec (s_items w' q)) j} =
      insert (p, 0) {(q, j). q \<in> set ps \<and> bit (alloc_vec (s_items w q)) j}"
      using fresh by (auto simp: al bit_1_iff split: if_splits)
    then show ?thesis unfolding slab_used_image by (simp add: s0)
  qed
  show "item_mem p \<notin> slab_used s ps w"
  proof
    assume "item_mem p \<in> slab_used s ps w"
    then obtain q j where q: "slot_addr s p 0 = slot_addr s q j" "q \<in> set ps" "bit (alloc_vec (s_items w q)) j"
      using s0 by (auto simp: slab_used_def)
    then have j: "j < slab_num s" using oks by (auto simp: pool_ok_def)
    from slot_inj [OF sh new old [OF q(2)] sz(2) j q(1)] q(2) fresh show False by auto
  qed
qed

lemma pool_nonnull: "pool_ok s w p \<Longrightarrow> p \<noteq> NULL"
  unfolding pool_ok_def by (elim conjE exE, drule chunk_bounds) simp

lemma pool_room:
  assumes "slab_shape s" "pool_ok s w p" "alloc_vec (s_items w p) \<noteq> empty_vector s"
  shows "\<exists>i < slab_num s. \<not> bit (alloc_vec (s_items w p)) i \<and>
    find_slot (slab_num s) 0 1 (alloc_vec (s_items w p)) = Some (i, 2 ^ i)"
proof -
  have "\<forall>i. bit (alloc_vec (s_items w p)) i \<longrightarrow> i < slab_num s" "slab_num s \<le> 8" "empty_vector s = mask (slab_num s)"
    using assms(1,2) by (auto simp: pool_ok_def slab_shape_def)
  with full_vector assms(3) have "\<not> (\<forall>i < slab_num s. bit (alloc_vec (s_items w p)) i)" by metis
  then obtain i msk where i: "find_slot (slab_num s) 0 (2 ^ 0) (alloc_vec (s_items w p)) = Some (i, msk)"
    using find_slot_None [of "slab_num s" 0 "alloc_vec (s_items w p)"] by fastforce
  from find_slot_Some [OF i] i show ?thesis by auto
qed

lemma others_new_pool:
  assumes "chunks h' = insert (p, n, pid) (chunks (s_heap w))" "(p, n, pid) \<notin> chunks (s_heap w)" "s_heap w' = h'"
  shows "others (ps @ [p]) w' = others ps w"
proof -
  have "fst c \<noteq> p" if "c \<in> chunks (s_heap w)" for c
  proof
    assume "fst c = p"
    obtain m y where c: "c = (p, m, y)" using \<open>fst c = p\<close> by (cases c) auto
    have "c = (p, n, pid)"
      using chunks_disjoint [of p m y h' p n pid] that assms(1) unfolding c by auto
    with that assms(2) show False by simp
  qed
  then show ?thesis unfolding others_def assms(3) assms(1) by auto
qed

lemma slab_granted:
  assumes "res = Some (w', a)" "slab_inv s ps' w'" "a \<noteq> NULL" "a \<notin> U" "slab_used s ps' w' = insert a U"
    and "(p, n, x) \<in> chunks (s_heap w')" "p \<in> set ps'" "p \<le> a" "a + slab_size s \<le> p + n"
    and "others ps' w' = others ps w" "\<And>q. q \<notin> set ps' \<Longrightarrow> s_items w' q = s_items w q"
  shows "\<exists>w' a ps'. res = Some (w', a) \<and> slab_inv s ps' w' \<and> others ps' w' = others ps w \<and>
    (\<forall>q. q \<notin> set ps' \<longrightarrow> s_items w' q = s_items w q) \<and>
    (if a = NULL then ps' = ps \<and> slab_used s ps w' = U \<and> full
     else a \<notin> U \<and> slab_used s ps' w' = insert a U \<and>
       (\<exists>p n x. (p, n, x) \<in> chunks (s_heap w') \<and> p \<in> set ps' \<and> p \<le> a \<and> a + slab_size s \<le> p + n))"
  using assms by (intro exI [of _ w'] exI [of _ a] exI [of _ ps']) auto

text \<open>A slab of two items of eight bytes in the first chunk of a small heap.\<close>

definition small_slab :: "heap \<Rightarrow> slab_t" where
  "small_slab h = \<lparr>slab_head = user_part h 0, num_items_per_pool = 2, empty_vector = 3, item_size = 8, slab_flag = 0\<rparr>"

definition small_slab_mem :: "heap \<Rightarrow> u8 \<Rightarrow> slab_mem" where
  "small_slab_mem h v = \<lparr>s_heap = h, s_items = (\<lambda>_. \<lparr>next_item = NULL, alloc_vec = v, gc_vec = 0\<rparr>)\<rparr>"

lemma small_slab_inv:
  assumes r: "rep h [Used 3 130 130 False, Free 8]" and v: "\<And>i. bit v i \<Longrightarrow> i < 2"
  shows "slab_inv (small_slab h) [user_part h 0] (small_slab_mem h v)"
proof -
  have "(user_part h 0, 20, 130) \<in> chunks h"
    unfolding chunks_rep [OF r, simplified] by (auto simp: malloc_consts)
  then have "pool_ok (small_slab h) (small_slab_mem h v) (user_part h 0)"
    using v by (auto simp: pool_ok_def small_slab_def small_slab_mem_def SLAB_ITEM_HDR_def)
  moreover have "heap_ok h" unfolding heap_ok_def by (rule exI, rule conjI, rule r) simp
  moreover have "(3 :: u8) = mask 2" by (simp add: mask_eq_exp_minus_1)
  ultimately show ?thesis
    using pool_nonnull [of "small_slab h" "small_slab_mem h v" "user_part h 0"]
    by (simp add: slab_inv_def slab_shape_def) (simp add: small_slab_def small_slab_mem_def)
qed

lemma slab_alloc_law:
  assumes inv: "slab_inv s ps w"
  shows "\<exists>w' a ps'. ker_slab_alloc s pid w = Some (w', a) \<and> slab_inv s ps' w' \<and> others ps' w' = others ps w \<and>
    (\<forall>q. q \<notin> set ps' \<longrightarrow> s_items w' q = s_items w q) \<and>
    (if a = NULL then ps' = ps \<and> slab_used s ps w' = slab_used s ps w \<and> slab_full s ps pid w
     else a \<notin> slab_used s ps w \<and> slab_used s ps' w' = insert a (slab_used s ps w) \<and>
       (\<exists>p n x. (p, n, x) \<in> chunks (s_heap w') \<and> p \<in> set ps' \<and> p \<le> a \<and> a + slab_size s \<le> p + n))"
proof -
  have sh: "slab_shape s" and oks: "\<forall>p \<in> set ps. pool_ok s w p" and ne: "ps \<noteq> []"
    and ch: "chain (s_items w) (slab_head s) ps" and ok: "heap_ok (s_heap w)"
    using inv by (simp_all add: slab_inv_def)
  have hd: "slab_head s \<in> set ps" using ne ch by (cases ps) auto
  have nn: "p \<noteq> NULL" if "p \<in> set ps" for p using oks that pool_nonnull by blast
  note find = slab_find_chain [OF ch, of "empty_vector s" "slab_head s"]
  show ?thesis
  proof (cases "List.find (\<lambda>p. alloc_vec (s_items w p) \<noteq> empty_vector s) ps")
    case (Some p)
    then have p: "p \<in> set ps" "alloc_vec (s_items w p) \<noteq> empty_vector s" by (auto dest: find_SomeD)
    obtain i where i: "i < slab_num s" "\<not> bit (alloc_vec (s_items w p)) i"
      "find_slot (slab_num s) 0 1 (alloc_vec (s_items w p)) = Some (i, 2 ^ i)"
      using pool_room [OF sh _ p(2)] oks p(1) by blast
    let ?w = "set_item p (\<lambda>it. it\<lparr>alloc_vec := alloc_vec it OR 2 ^ i\<rparr>) w"
    obtain prv' where "slab_find (s_items w) (empty_vector s) (slab_head s) (slab_head s) = Some (p, prv')"
      using find unfolding Some by auto
    then have a: "ker_slab_alloc s pid w = Some (?w, slot_addr s p i)"
      using nn [OF p(1)] i(3) by (simp add: ker_slab_alloc_def slot_addr_def)
    note r = slab_alloc_in_pool [OF inv p(1) i(1,2) refl]
    obtain n x where n: "(p, n, x) \<in> chunks (s_heap w)" "SLAB_ITEM_HDR + slab_num s * slab_size s \<le> n"
      using oks p(1) by (auto simp: pool_ok_def)
    have "Suc i * slab_size s \<le> slab_num s * slab_size s" using i(1) by (intro mult_le_mono) auto
    then have "p \<le> slot_addr s p i" "slot_addr s p i + slab_size s \<le> p + n"
      using n(2) by (simp_all add: slot_addr_def item_mem_def)
    moreover have an: "slot_addr s p i \<noteq> NULL" using nn [OF p(1)] by (simp add: slot_addr_def item_mem_def)
    moreover have "(p, n, x) \<in> chunks (s_heap ?w)" "others ps ?w = others ps w" using n(1) by (simp_all add: others_def)
    moreover have "s_items ?w q = s_items w q" if "q \<notin> set ps" for q using that p(1) by auto
    ultimately show ?thesis using p(1) by (intro slab_granted [OF a r(1) an r(2,3)])
  next
    case None
    then have full: "\<forall>p \<in> set ps. alloc_vec (s_items w p) = empty_vector s" by (auto simp: find_None_iff)
    have f: "slab_find (s_items w) (empty_vector s) (slab_head s) (slab_head s) = Some (NULL, last ps)"
      using find None ne by simp
    have ln: "last ps \<noteq> NULL" using nn ne by simp
    obtain w1 p where w1: "pool_alloc s pid w = Some (w1, p)" "s_items w1 = s_items w" "heap_ok (s_heap w1)"
      "if p = NULL then chunks (s_heap w1) = chunks (s_heap w)
       else \<exists>n. SLAB_ITEM_HDR + slab_num s * slab_size s \<le> n \<and>
         chunks (s_heap w1) = insert (p, n, pid) (chunks (s_heap w)) \<and> (p, n, pid) \<notin> chunks (s_heap w)"
      using pool_alloc_law [OF sh ok, of pid] by blast
    show ?thesis
    proof (cases "p = NULL")
      case True
      let ?w = "set_item (last ps) (\<lambda>it. it\<lparr>next_item := p\<rparr>) w1"
      have "chain items h qs \<Longrightarrow> qs \<noteq> [] \<Longrightarrow> next_item (items (last qs)) = NULL" for items h qs
        by (induction qs arbitrary: h) auto
      then have "next_item (s_items w (last ps)) = NULL" using ch ne by blast
      then have same: "s_items ?w q = s_items w q" for q using True w1(2) by simp
      have "slab_inv s ps ?w"
        using inv w1 True same chain_cong [of ps "s_items ?w" "s_items w" "slab_head s"]
        by (simp add: slab_inv_def pool_ok_def)
      moreover have "slab_used s ps ?w = slab_used s ps w" by (simp only: slab_used_def same)
      moreover have "ker_slab_alloc s pid w = Some (?w, NULL)"
        using f ln w1(1) True by (simp add: ker_slab_alloc_def Let_def)
      moreover have "others ps ?w = others ps w" using w1(4) True by (simp add: others_def)
      moreover have "slab_full s ps pid w" using full w1(1) True by (simp add: slab_full_def)
      ultimately show ?thesis using same by (intro exI [of _ ?w] exI [of _ NULL] exI [of _ ps]) simp
    next
      case False
      then obtain n where n: "SLAB_ITEM_HDR + slab_num s * slab_size s \<le> n"
        "chunks (s_heap w1) = insert (p, n, pid) (chunks (s_heap w))" "(p, n, pid) \<notin> chunks (s_heap w)"
        using w1(4) by auto
      let ?w = "set_item p (\<lambda>_. \<lparr>next_item = NULL, alloc_vec = 1, gc_vec = 0\<rparr>)
        (set_item (last ps) (\<lambda>it. it\<lparr>next_item := p\<rparr>) w1)"
      note r = slab_new_pool [OF inv w1(3,2) n(2,3,1) refl]
      have "1 * slab_size s \<le> slab_num s * slab_size s"
        by (rule mult_le_mono1) (use sh in \<open>simp add: slab_shape_def\<close>)
      then have "p \<le> item_mem p" "item_mem p + slab_size s \<le> p + n"
        using n(1) unfolding item_mem_def SLAB_ITEM_HDR_def by linarith+
      moreover have "(p, n, pid) \<in> chunks (s_heap ?w)" using n(2) by simp
      moreover have an: "item_mem p \<noteq> NULL" by (simp add: item_mem_def SLAB_ITEM_HDR_def)
      moreover have "ker_slab_alloc s pid w = Some (?w, item_mem p)"
        using f ln w1(1) False by (simp add: ker_slab_alloc_def Let_def)
      moreover have "others (ps @ [p]) ?w = others ps w" by (rule others_new_pool [OF n(2,3)]) simp
      moreover have "s_items ?w q = s_items w q" if "q \<notin> set (ps @ [p])" for q using that ne w1(2) by auto
      ultimately show ?thesis by (intro slab_granted [OF _ r(1) an r(2,3)]) auto
    qed
  qed
qed

text \<open>
  C38. \<^verbatim>\<open>ker_slab_alloc\<close> returns, and keeps the invariant of the slab. If it hands out an
  address, this address was not in use, it is now, and nothing else changed; the item lies in a
  pool of the slab, and the chunks that are not pools are the same as before. It fails only if all pools are full and \<^verbatim>\<open>pool_alloc\<close>
  gets no memory for a further one, and then nothing changed.
\<close>

theorem ker_slab_alloc_correct:
  assumes inv: "slab_inv s ps w"
  shows "\<exists>w' a ps'. ker_slab_alloc s pid w = Some (w', a) \<and> slab_inv s ps' w' \<and> others ps' w' = others ps w \<and>
    (\<forall>q. q \<notin> set ps' \<longrightarrow> s_items w' q = s_items w q) \<and>
    (if a = NULL then ps' = ps \<and> slab_used s ps w' = slab_used s ps w \<and> slab_full s ps pid w
     else a \<notin> slab_used s ps w \<and> slab_used s ps' w' = insert a (slab_used s ps w) \<and>
       (\<exists>p n x. (p, n, x) \<in> chunks (s_heap w') \<and> p \<in> set ps' \<and> p \<le> a \<and> a + slab_size s \<le> p + n))"
  by (rule slab_alloc_law [OF inv])

theorem ker_slab_alloc_correct_witness:
  "\<exists>h w' a ps'. slab_inv (small_slab h) [user_part h 0] (small_slab_mem h 1) \<and>
     ker_slab_alloc (small_slab h) 130 (small_slab_mem h 1) = Some (w', a) \<and> slab_inv (small_slab h) ps' w'"
proof -
  obtain h where h: "rep h [Used 3 130 130 False, Free 8]" using small_heap_used by blast
  have i: "slab_inv (small_slab h) [user_part h 0] (small_slab_mem h 1)"
    by (rule small_slab_inv [OF h]) (simp add: bit_1_iff)
  from ker_slab_alloc_correct [OF i, of 130] obtain w' a ps' where
    r: "ker_slab_alloc (small_slab h) 130 (small_slab_mem h 1) = Some (w', a)" "slab_inv (small_slab h) ps' w'"
    by blast
  show ?thesis by (intro exI conjI) (fact i r)+
qed

section \<open>Release\<close>

lemma slab_free_walk_to:
  assumes "chain (s_items w) itr (qs @ p # rs)" "\<forall>q \<in> set qs. \<not> in_pool s q a"
  shows "slab_free_walk s a itr prv w = slab_free_walk s a p (last (prv # qs)) w"
  using assms
proof (induction qs arbitrary: itr prv)
  case (Cons q qs)
  from Cons.prems Cons.IH [of "next_item (s_items w q)" q] show ?case
    by (subst slab_free_walk.simps) auto
qed simp

lemma slab_free_walk_end:
  assumes "chain (s_items w) itr ps" "\<forall>q \<in> set ps. \<not> in_pool s q a"
  shows "slab_free_walk s a itr prv w = Some Panic"
  using assms
proof (induction ps arbitrary: itr prv)
  case (Cons q qs)
  from Cons.prems Cons.IH [of "next_item (s_items w q)" q] show ?case
    by (subst slab_free_walk.simps) auto
qed (simp add: slab_free_walk.simps)

text \<open>Clearing the bit of a slot.\<close>

lemma slab_clear:
  assumes inv: "slab_inv s ps w" and p: "p \<in> set ps" "bit (alloc_vec (s_items w p)) i"
    and w': "w' = set_item p (\<lambda>it. it\<lparr>alloc_vec := alloc_vec it AND NOT (2 ^ i)\<rparr>) w"
  shows "slab_inv s ps w'" "slab_used s ps w' = slab_used s ps w - {slot_addr s p i}"
    "alloc_vec (s_items w' p) = 0 \<Longrightarrow> slab_used s (remove1 p ps) w' = slab_used s ps w'"
proof -
  have sh: "slab_shape s" and ok: "\<forall>p \<in> set ps. pool_ok s w p" and d: "distinct ps"
    using inv by (simp_all add: slab_inv_def)
  have i: "i < slab_num s" using ok p by (auto simp: pool_ok_def)
  have i8: "i < 8" using i sh by (simp add: slab_shape_def)
  have bits: "bit (alloc_vec (s_items w' q)) j \<longleftrightarrow> bit (alloc_vec (s_items w q)) j \<and> (q, j) \<noteq> (p, i)" for q j
    using i8 by (auto simp: w' bit_and_iff bit_not_iff bit_exp_iff possible_bit_word dest: bit_imp_le_length)
  have "chain (s_items w') (slab_head s) ps = chain (s_items w) (slab_head s) ps"
    by (rule chain_cong) (simp add: w')
  then have "chain (s_items w') (slab_head s) ps" using inv by (simp add: slab_inv_def)
  moreover have "pool_ok s w' q" if "q \<in> set ps" for q
    using bspec [OF ok that] unfolding pool_ok_def bits by (auto simp: w')
  ultimately show "slab_inv s ps w'" using inv by (simp add: slab_inv_def w')
  let ?S = "{(q, j). q \<in> set ps \<and> bit (alloc_vec (s_items w q)) j}"
  have S: "{(q, j). q \<in> set ps \<and> bit (alloc_vec (s_items w' q)) j} = ?S - {(p, i)}"
    unfolding bits by blast
  have inj: "inj_on (\<lambda>(q, j). slot_addr s q j) ?S"
  proof (rule inj_onI, clarify)
    fix q j q' j'
    assume a: "slot_addr s q j = slot_addr s q' j'" "q \<in> set ps" "q' \<in> set ps"
      "bit (alloc_vec (s_items w q)) j" "bit (alloc_vec (s_items w q')) j'"
    have "j < slab_num s" "j' < slab_num s" using ok a by (auto simp: pool_ok_def)
    with slot_inj [OF sh bspec [OF ok a(2)] bspec [OF ok a(3)] _ _ a(1)] show "q = q' \<and> j = j'" by blast
  qed
  show "slab_used s ps w' = slab_used s ps w - {slot_addr s p i}"
    unfolding slab_used_image S using inj_on_image_set_diff [OF inj, of ?S "{(p, i)}"] p by auto
  show "slab_used s (remove1 p ps) w' = slab_used s ps w'" if z: "alloc_vec (s_items w' p) = 0"
  proof -
    have "{(q, j). q \<in> set (remove1 p ps) \<and> bit (alloc_vec (s_items w' q)) j} =
      {(q, j). q \<in> set ps \<and> bit (alloc_vec (s_items w' q)) j}"
      using d z by auto
    then show ?thesis unfolding slab_used_image by simp
  qed
qed

text \<open>An empty pool behind the first one is unlinked and given back.\<close>

lemma slab_drop_pool:
  assumes inv: "slab_inv s (qs @ u # p # rs) w" and z: "alloc_vec (s_items w p) = 0"
    and w2: "w2 = set_item u (\<lambda>it. it\<lparr>next_item := next_item (s_items w p)\<rparr>) w"
  shows "\<exists>h. ker_free p (s_heap w2) = Some h \<and> slab_inv s (qs @ u # rs) (w2\<lparr>s_heap := h\<rparr>) \<and>
    slab_used s (qs @ u # rs) (w2\<lparr>s_heap := h\<rparr>) = slab_used s (qs @ u # p # rs) w \<and>
    others (qs @ u # rs) (w2\<lparr>s_heap := h\<rparr>) = others (qs @ u # p # rs) w \<and> chunks h = {c \<in> chunks (s_heap w). fst c \<noteq> p}"
proof -
  have oks: "\<forall>q \<in> set (qs @ u # p # rs). pool_ok s w q" and d: "distinct (qs @ u # p # rs)"
    and ch: "chain (s_items w) (slab_head s) (qs @ u # p # rs)" and ok: "heap_ok (s_heap w)" and sh: "slab_shape s"
    using inv by (simp_all add: slab_inv_def)
  obtain n x where n: "(p, n, x) \<in> chunks (s_heap w)" using oks by (auto simp: pool_ok_def)
  obtain h where h: "ker_free p (s_heap w) = Some h" "heap_ok h" "chunks h = chunks (s_heap w) - {(p, n, x)}"
    using free_chunk [OF ok n] by blast
  let ?w = "w2\<lparr>s_heap := h\<rparr>"
  have al: "alloc_vec (s_items ?w q) = alloc_vec (s_items w q)" for q by (simp add: w2)
  have "s_items ?w = (s_items w)(u := (s_items w u)\<lparr>next_item := next_item (s_items w p)\<rparr>)"
    by (simp add: w2 fun_eq_iff)
  then have ch': "chain (s_items ?w) (slab_head s) (qs @ u # rs)"
    using chain_unlink [OF ch d] by (simp del: fun_upd_apply)
  have po: "pool_ok s ?w q" if q: "q \<in> set (qs @ u # rs)" for q
  proof -
    have "q \<noteq> p" using q d by auto
    moreover have "pool_ok s w q" using oks q by auto
    ultimately show ?thesis unfolding pool_ok_def al using h(3) by auto
  qed
  have "slab_inv s (qs @ u # rs) ?w" unfolding slab_inv_def using h(2) sh d ch' po by auto
  moreover have "{(q, j). q \<in> set (qs @ u # rs) \<and> bit (alloc_vec (s_items ?w q)) j} =
      {(q, j). q \<in> set (qs @ u # p # rs) \<and> bit (alloc_vec (s_items w q)) j}"
    unfolding al using z by auto
  then have "slab_used s (qs @ u # rs) ?w = slab_used s (qs @ u # p # rs) w" unfolding slab_used_image by simp
  moreover have "others (qs @ u # rs) ?w = others (qs @ u # p # rs) w"
    unfolding others_def using h(3) chunks_disjoint [OF n] d by (fastforce simp: w2)
  moreover have "chunks h = {c \<in> chunks (s_heap w). fst c \<noteq> p}"
    using h(3) chunks_disjoint [OF n] by fastforce
  ultimately show ?thesis using h(1) by (intro exI [of _ h]) (simp add: w2)
qed

lemma last_used_iff:
  assumes inv: "slab_inv s ps w" and p: "p \<in> set ps" "bit (alloc_vec (s_items w p)) i"
    and w1: "w1 = set_item p (\<lambda>it. it\<lparr>alloc_vec := alloc_vec it AND NOT (2 ^ i)\<rparr>) w"
  shows "last_used s ps (slot_addr s p i) w = (if alloc_vec (s_items w1 p) = 0 \<and> p \<noteq> slab_head s then {p} else {})"
proof -
  have sh: "slab_shape s" and oks: "\<forall>p \<in> set ps. pool_ok s w p" and hd: "hd ps = slab_head s"
    using inv by (cases ps; simp add: slab_inv_def)+
  have less: "j < slab_num s" if "q \<in> set ps" "bit (alloc_vec (s_items w q)) j" for q j
    using oks that by (auto simp: pool_ok_def)
  have i8: "i < 8" using less [OF p] sh by (simp add: slab_shape_def)
  have bits: "bit (alloc_vec (s_items w1 p)) j \<longleftrightarrow> bit (alloc_vec (s_items w p)) j \<and> j \<noteq> i" for j
    using i8 by (auto simp: w1 bit_and_iff bit_not_iff bit_exp_iff possible_bit_word dest: bit_imp_le_length)
  have inj: "q = p \<and> j = i" if "q \<in> set ps" "bit (alloc_vec (s_items w q)) j" "slot_addr s q j = slot_addr s p i" for q j
    using slot_inj [OF sh bspec [OF oks that(1)] bspec [OF oks p(1)] less [OF that(1,2)] less [OF p] that(3)] by blast
  have "slab_used s [q] w = {slot_addr s p i} \<longleftrightarrow> q = p \<and> alloc_vec (s_items w1 p) = 0" if q: "q \<in> set ps" for q
  proof
    assume u: "slab_used s [q] w = {slot_addr s p i}"
    then have all: "slot_addr s q j = slot_addr s p i" if "bit (alloc_vec (s_items w q)) j" for j
      using that by (fastforce simp: slab_used_def)
    obtain j where "bit (alloc_vec (s_items w q)) j" using u by (fastforce simp: slab_used_def)
    then have "q = p" using inj [OF q] all by blast
    moreover have "\<not> bit (alloc_vec (s_items w1 p)) j" for j
      using all inj [OF q] bits calculation by blast
    ultimately show "q = p \<and> alloc_vec (s_items w1 p) = 0" by (simp add: bit_eq_iff)
  next
    assume z: "q = p \<and> alloc_vec (s_items w1 p) = 0"
    then have "bit (alloc_vec (s_items w q)) j \<longleftrightarrow> j = i" for j using bits [of j] p(2) by auto
    then show "slab_used s [q] w = {slot_addr s p i}" using z by (auto simp: slab_used_def)
  qed
  then show ?thesis using p(1) hd by (auto simp: last_used_def)
qed

lemma slab_free_law:
  assumes inv: "slab_inv s ps w" and a: "a \<in> slab_used s ps w"
  shows "\<exists>w' ps'. ker_slab_free s a w = Some (Done w') \<and> slab_inv s ps' w' \<and>
    slab_used s ps' w' = slab_used s ps w - {a} \<and> hd ps' = hd ps \<and> set ps' \<subseteq> set ps \<and>
    (\<forall>p \<in> set ps - set ps'. alloc_vec (s_items w' p) = 0) \<and> others ps' w' = others ps w \<and>
    (\<forall>q. q \<notin> set ps \<longrightarrow> s_items w' q = s_items w q) \<and>
    set ps' = set ps - last_used s ps a w \<and> chunks (s_heap w') = {c \<in> chunks (s_heap w). fst c \<notin> last_used s ps a w}"
proof -
  have sh: "slab_shape s" and oks: "\<forall>p \<in> set ps. pool_ok s w p" and d: "distinct ps"
    and ch: "chain (s_items w) (slab_head s) ps"
    using inv by (simp_all add: slab_inv_def)
  obtain p i where p: "a = slot_addr s p i" "p \<in> set ps" "bit (alloc_vec (s_items w p)) i"
    using a by (auto simp: slab_used_def)
  have pok: "pool_ok s w p" using oks p(2) by blast
  have i: "i < slab_num s" "0 < slab_size s" using pok p(3) sh by (auto simp: pool_ok_def slab_shape_def)
  have ip: "in_pool s p a" unfolding p(1) by (rule slot_in_pool [OF i])
  have msk: "slot_mask s p a = 2 ^ i"
    unfolding slot_mask_def p(1) slot_index [OF i(2)] by (simp add: push_bit_of_1)
  obtain qs rs where ps: "ps = qs @ p # rs" "p \<notin> set qs" using split_list_first [OF p(2)] by blast
  have "\<forall>q \<in> set qs. \<not> in_pool s q a"
  proof (rule ballI, rule notI)
    fix q assume q: "q \<in> set qs" "in_pool s q a"
    have "pool_ok s w q" using oks q(1) ps(1) by simp
    from pool_sep [OF this pok q(2) ip] q(1) ps(2) show False by simp
  qed
  then have walk: "ker_slab_free s a w = slab_free_walk s a p (last (NULL # qs)) w"
    unfolding ker_slab_free_def using slab_free_walk_to [of w "slab_head s" qs p rs s a] ch ps(1) by blast
  define w1 where "w1 = set_item p (\<lambda>it. it\<lparr>alloc_vec := alloc_vec it AND NOT (2 ^ i)\<rparr>) w"
  note c = slab_clear [OF inv p(2,3) w1_def, folded p(1)]
  have lu: "last_used s ps a w = (if alloc_vec (s_items w1 p) = 0 \<and> p \<noteq> slab_head s then {p} else {})"
    using last_used_iff [OF inv p(2,3) w1_def] p(1) by simp
  have pn: "p \<noteq> NULL" by (rule pool_nonnull [OF pok])
  show ?thesis
  proof (cases "alloc_vec (s_items w1 p) = 0 \<and> p \<noteq> slab_head s")
    case False
    then have "ker_slab_free s a w = Some (Done w1)"
      unfolding walk using pn ip by (subst slab_free_walk.simps) (auto simp: msk w1_def Let_def)
    moreover have "last_used s ps a w = {}" using False lu by simp
    ultimately show ?thesis using c(1,2) p(2) by (intro exI [of _ w1] exI [of _ ps]) (auto simp: others_def w1_def)
  next
    case True
    then have "qs \<noteq> []" using ch ps(1) by auto
    then obtain us u where qs: "qs = us @ [u]" by (cases qs rule: rev_cases) auto
    let ?w2 = "set_item u (\<lambda>it. it\<lparr>next_item := next_item (s_items w1 p)\<rparr>) w1"
    have inv1: "slab_inv s (us @ u # p # rs) w1" using c(1) ps(1) qs by simp
    obtain h where h: "ker_free p (s_heap ?w2) = Some h" "slab_inv s (us @ u # rs) (?w2\<lparr>s_heap := h\<rparr>)"
      "slab_used s (us @ u # rs) (?w2\<lparr>s_heap := h\<rparr>) = slab_used s (us @ u # p # rs) w1"
      "others (us @ u # rs) (?w2\<lparr>s_heap := h\<rparr>) = others (us @ u # p # rs) w1" "chunks h = {c \<in> chunks (s_heap w1). fst c \<noteq> p}"
      using slab_drop_pool [OF inv1 _ refl] True by blast
    have w1': "set_item p (\<lambda>it. it\<lparr>alloc_vec := alloc_vec it AND NOT (slot_mask s p a)\<rparr>) w = w1"
      by (simp add: w1_def msk)
    have la: "last (NULL # qs) = u" using qs by simp
    have "ker_slab_free s a w = Some (Done (?w2\<lparr>s_heap := h\<rparr>))"
      unfolding walk slab_free_walk.simps [of s a p] w1' la Let_def using pn ip True h(1) by simp
    moreover have "slab_used s (us @ u # rs) (?w2\<lparr>s_heap := h\<rparr>) = slab_used s ps w - {a}"
      using h(3) c(2) ps(1) qs by simp
    moreover have "\<forall>q \<in> set ps - set (us @ u # rs). alloc_vec (s_items (?w2\<lparr>s_heap := h\<rparr>) q) = 0"
      using True unfolding ps(1) qs by auto
    moreover have "hd (us @ u # rs) = hd ps" "set (us @ u # rs) \<subseteq> set ps"
      unfolding ps(1) qs by (simp_all add: hd_append subset_iff)
    moreover have "others (us @ u # rs) (?w2\<lparr>s_heap := h\<rparr>) = others ps w"
      unfolding h(4) ps(1) qs by (simp add: others_def w1_def)
    moreover have "\<forall>q. q \<notin> set ps \<longrightarrow> s_items (?w2\<lparr>s_heap := h\<rparr>) q = s_items w q"
      unfolding ps(1) qs by (auto simp: w1_def)
    moreover have lu': "last_used s ps a w = {p}" using True lu by simp
    moreover have sp: "set (us @ u # rs) = set ps - {p}" using d unfolding ps(1) qs by auto
    moreover from sp have "set (us @ u # rs) = set ps - last_used s ps a w" unfolding lu' .
    moreover have "chunks (s_heap (?w2\<lparr>s_heap := h\<rparr>)) = {c \<in> chunks (s_heap w). fst c \<notin> last_used s ps a w}"
      using h(5) lu' by (simp add: w1_def)
    ultimately show ?thesis
      using h(2) by (intro exI [of _ "?w2\<lparr>s_heap := h\<rparr>"] exI [of _ "us @ u # rs"] conjI)
  qed
qed

text \<open>
  C39. \<^verbatim>\<open>ker_slab_free\<close> of an address that the slab has handed out returns without a
  panic, keeps the invariant, and takes exactly this address out of use; a pool that becomes
  empty is given back to the memory manager unless it is the first one: it leaves the list of pools, its chunk is
  the only one that is no longer allocated, and the pools stay as they are when none becomes empty.
\<close>

theorem ker_slab_free_correct:
  assumes inv: "slab_inv s ps w" and a: "a \<in> slab_used s ps w"
  shows "\<exists>w' ps'. ker_slab_free s a w = Some (Done w') \<and> slab_inv s ps' w' \<and>
    slab_used s ps' w' = slab_used s ps w - {a} \<and> hd ps' = hd ps \<and> set ps' \<subseteq> set ps \<and>
    (\<forall>p \<in> set ps - set ps'. alloc_vec (s_items w' p) = 0) \<and> others ps' w' = others ps w \<and>
    (\<forall>q. q \<notin> set ps \<longrightarrow> s_items w' q = s_items w q) \<and>
    set ps' = set ps - last_used s ps a w \<and> chunks (s_heap w') = {c \<in> chunks (s_heap w). fst c \<notin> last_used s ps a w}"
  by (rule slab_free_law [OF inv a])

theorem ker_slab_free_correct_witness:
  "\<exists>h w' ps'. slab_inv (small_slab h) [user_part h 0] (small_slab_mem h 1) \<and>
     ker_slab_free (small_slab h) (item_mem (user_part h 0)) (small_slab_mem h 1) = Some (Done w') \<and>
     slab_inv (small_slab h) ps' w'"
proof -
  obtain h where h: "rep h [Used 3 130 130 False, Free 8]" using small_heap_used by blast
  have i: "slab_inv (small_slab h) [user_part h 0] (small_slab_mem h 1)"
    by (rule small_slab_inv [OF h]) (simp add: bit_1_iff)
  have a: "item_mem (user_part h 0) \<in> slab_used (small_slab h) [user_part h 0] (small_slab_mem h 1)"
    by (auto simp: slab_used_def slot_addr_def small_slab_mem_def intro!: exI [of _ 0])
  from ker_slab_free_correct [OF i a] obtain w' ps' where
    r: "ker_slab_free (small_slab h) (item_mem (user_part h 0)) (small_slab_mem h 1) = Some (Done w')"
      "slab_inv (small_slab h) ps' w'" by blast
  show ?thesis by (intro exI conjI) (fact i r)+
qed

section \<open>The chunks beside the pools\<close>

text \<open>A change of the heap that keeps the pools keeps the slab.\<close>

lemma slab_heap_change:
  assumes inv: "slab_inv s ps w" and "heap_ok h" "\<And>p n x. p \<in> set ps \<Longrightarrow> (p, n, x) \<in> chunks (s_heap w) \<Longrightarrow> \<exists>y. (p, n, y) \<in> chunks h"
  shows "slab_inv s ps (w\<lparr>s_heap := h\<rparr>)" "slab_used s ps (w\<lparr>s_heap := h\<rparr>) = slab_used s ps w"
proof -
  have "pool_ok s (w\<lparr>s_heap := h\<rparr>) p" if p: "p \<in> set ps" for p
  proof -
    have "pool_ok s w p" using inv p by (simp add: slab_inv_def)
    then obtain n x where n: "(p, n, x) \<in> chunks (s_heap w)" "SLAB_ITEM_HDR + slab_num s * slab_size s \<le> n"
      "\<forall>i. bit (alloc_vec (s_items w p)) i \<longrightarrow> i < slab_num s"
      by (auto simp: pool_ok_def)
    obtain y where "(p, n, y) \<in> chunks h" using assms(3) [OF p n(1)] by blast
    with n(2,3) show ?thesis by (auto simp: pool_ok_def)
  qed
  then show "slab_inv s ps (w\<lparr>s_heap := h\<rparr>)" using inv assms(2) by (simp add: slab_inv_def)
  show "slab_used s ps (w\<lparr>s_heap := h\<rparr>) = slab_used s ps w" by (simp add: slab_used_def)
qed

lemma slab_other_free:
  assumes inv: "slab_inv s ps w" and c: "(p, n, own) \<in> others ps w"
  shows "\<exists>h. ker_free p (s_heap w) = Some h \<and> slab_inv s ps (w\<lparr>s_heap := h\<rparr>) \<and>
    slab_used s ps (w\<lparr>s_heap := h\<rparr>) = slab_used s ps w \<and> others ps (w\<lparr>s_heap := h\<rparr>) = others ps w - {(p, n, own)}"
proof -
  have ok: "heap_ok (s_heap w)" and m: "(p, n, own) \<in> chunks (s_heap w)" "p \<notin> set ps"
    using inv c by (simp_all add: slab_inv_def others_def)
  obtain h where h: "ker_free p (s_heap w) = Some h" "heap_ok h" "chunks h = chunks (s_heap w) - {(p, n, own)}"
    using free_chunk [OF ok m(1)] by blast
  have "\<exists>y. (q, k, y) \<in> chunks h" if "q \<in> set ps" "(q, k, x) \<in> chunks (s_heap w)" for q k x
    using that m(2) h(3) by auto
  from slab_heap_change [OF inv h(2) this] h show ?thesis by (auto simp: others_def)
qed

lemma slab_other_own:
  assumes inv: "slab_inv s ps w" and c: "(p, n, own) \<in> others ps w" and pid: "pid \<noteq> NULL_PID"
  shows "\<exists>h. ker_change_own p pid (s_heap w) = Some (h, SOS_OK) \<and> slab_inv s ps (w\<lparr>s_heap := h\<rparr>) \<and>
    slab_used s ps (w\<lparr>s_heap := h\<rparr>) = slab_used s ps w \<and>
    others ps (w\<lparr>s_heap := h\<rparr>) = insert (p, n, pid) (others ps w - {(p, n, own)})"
proof -
  have ok: "heap_ok (s_heap w)" and m: "(p, n, own) \<in> chunks (s_heap w)" "p \<notin> set ps"
    using inv c by (simp_all add: slab_inv_def others_def)
  obtain h where h: "ker_change_own p pid (s_heap w) = Some (h, SOS_OK)" "heap_ok h"
    "chunks h = insert (p, n, pid) (chunks (s_heap w) - {(p, n, own)})"
    using change_own_chunk [OF ok m(1) pid] by blast
  have "\<exists>y. (q, k, y) \<in> chunks h" if "q \<in> set ps" "(q, k, x) \<in> chunks (s_heap w)" for q k x
    using that m(2) h(3) by auto
  from slab_heap_change [OF inv h(2) this] h m(2) show ?thesis by (auto simp: others_def)
qed

lemma slab_other_alloc:
  assumes inv: "slab_inv s ps w" and sz: "unat sz \<le> 65524"
    and alloc: "alloc = ker_malloc \<or> alloc = malloc_longterm"
  shows "\<exists>h p. alloc sz pid (s_heap w) = Some (h, p) \<and> slab_inv s ps (w\<lparr>s_heap := h\<rparr>) \<and>
    slab_used s ps (w\<lparr>s_heap := h\<rparr>) = slab_used s ps w \<and>
    (if p = NULL then others ps (w\<lparr>s_heap := h\<rparr>) = others ps w
     else \<exists>n. unat sz \<le> n \<and> (p, n, pid) \<notin> chunks (s_heap w) \<and> p \<notin> set ps \<and>
       others ps (w\<lparr>s_heap := h\<rparr>) = insert (p, n, pid) (others ps w))"
proof -
  have ok: "heap_ok (s_heap w)" and pools: "\<forall>q \<in> set ps. pool_ok s w q" using inv by (simp_all add: slab_inv_def)
  obtain h p where h: "alloc sz pid (s_heap w) = Some (h, p)" "heap_ok h"
    "if p = NULL then chunks h = chunks (s_heap w)
     else \<exists>n. unat sz \<le> n \<and> chunks h = insert (p, n, pid) (chunks (s_heap w)) \<and> (p, n, pid) \<notin> chunks (s_heap w)"
    using alloc
  proof
    assume "alloc = ker_malloc"
    with short_term.alloc_law [OF ok sz, of pid] that show ?thesis by blast
  next
    assume "alloc = malloc_longterm"
    with long_term.alloc_law [OF ok sz, of pid] that show ?thesis by blast
  qed
  have "\<exists>y. (q, k, y) \<in> chunks h" if "q \<in> set ps" "(q, k, x) \<in> chunks (s_heap w)" for q k x
    using that h(3) by (auto split: if_splits)
  note r = slab_heap_change [OF inv h(2) this]
  show ?thesis
  proof (cases "p = NULL")
    case True
    with h r show ?thesis by (intro exI [of _ h] exI [of _ p]) (simp add: others_def)
  next
    case False
    then obtain n where n: "unat sz \<le> n" "chunks h = insert (p, n, pid) (chunks (s_heap w))" "(p, n, pid) \<notin> chunks (s_heap w)"
      using h(3) by auto
    have "p \<notin> set ps"
    proof
      assume "p \<in> set ps"
      then obtain m y where "(p, m, y) \<in> chunks (s_heap w)" using pools by (auto simp: pool_ok_def)
      with chunks_disjoint [of p m y h p n pid] n(2,3) show False by auto
    qed
    with h(1) r n False show ?thesis by (intro exI [of _ h] exI [of _ p]) (auto simp: others_def)
  qed
qed

text \<open>Operations on one slab do not disturb another one.\<close>

lemma slab_separate:
  assumes inv: "slab_inv t qs w" and ok: "heap_ok (s_heap w')" and o: "others ps' w' = others ps w"
    and d: "set ps \<inter> set qs = {}" and it: "\<And>q. q \<in> set qs \<Longrightarrow> s_items w' q = s_items w q"
  shows "slab_inv t qs w'" "slab_used t qs w' = slab_used t qs w" "set ps' \<inter> set qs = {}"
proof -
  have mem: "(q, n, x) \<in> chunks (s_heap w') \<and> q \<notin> set ps'" if "q \<in> set qs" "(q, n, x) \<in> chunks (s_heap w)" for q n x
  proof -
    have "(q, n, x) \<in> others ps w" using that d by (auto simp: others_def)
    then show ?thesis unfolding o [symmetric] by (simp add: others_def)
  qed
  have po: "pool_ok t w q" if "q \<in> set qs" for q using inv that by (simp add: slab_inv_def)
  have "pool_ok t w' q \<and> q \<notin> set ps'" if q: "q \<in> set qs" for q
  proof -
    obtain n x where n: "(q, n, x) \<in> chunks (s_heap w)" "SLAB_ITEM_HDR + slab_num t * slab_size t \<le> n"
      "\<forall>i. bit (alloc_vec (s_items w q)) i \<longrightarrow> i < slab_num t"
      using po [OF q] by (auto simp: pool_ok_def)
    with mem [OF q n(1)] it [OF q] show ?thesis by (auto simp: pool_ok_def)
  qed
  note pools = this
  have "chain (s_items w') (slab_head t) qs"
    using inv chain_cong [of qs "s_items w'" "s_items w" "slab_head t"] it by (simp add: slab_inv_def)
  with pools show "slab_inv t qs w'" using inv ok by (simp add: slab_inv_def)
  have "{(q, i). q \<in> set qs \<and> bit (alloc_vec (s_items w' q)) i} = {(q, i). q \<in> set qs \<and> bit (alloc_vec (s_items w q)) i}"
    by (auto simp: it)
  then show "slab_used t qs w' = slab_used t qs w" by (simp only: slab_used_image)
  show "set ps' \<inter> set qs = {}" using pools by auto
qed

section \<open>The start\<close>

lemma ker_slab_init_inv:
  assumes ok: "heap_ok (s_heap w)" and n: "0 < unat items" "unat items \<le> 8" "0 < unat isz"
  shows "\<exists>w' s' r. ker_slab_init pid s isz items flg w = Some (w', s', r) \<and>
    (if slab_head s' = NULL then r = - ENOMEM
     else r = SOS_OK \<and> slab_inv s' [slab_head s'] w' \<and> slab_used s' [slab_head s'] w' = {})"
proof -
  let ?s1 = "s\<lparr>slab_head := NULL, num_items_per_pool := items, empty_vector := 0, item_size := isz, slab_flag := flg\<rparr>"
  let ?s = "?s1\<lparr>empty_vector := build_vector (unat items) (empty_vector ?s1)\<rparr>"
  have i8: "\<not> items > 8" using n(2) by (simp add: word_less_nat_alt)
  have "build_vector (unat items) (mask 0) = mask (unat items + 0)" by (rule build_vector_mask)
  then have sh: "slab_shape ?s" using n by (simp add: slab_shape_def)
  obtain w1 p where w1: "pool_alloc ?s pid w = Some (w1, p)" "heap_ok (s_heap w1)"
    "if p = NULL then chunks (s_heap w1) = chunks (s_heap w)
     else \<exists>n. SLAB_ITEM_HDR + slab_num ?s * slab_size ?s \<le> n \<and>
       chunks (s_heap w1) = insert (p, n, pid) (chunks (s_heap w)) \<and> (p, n, pid) \<notin> chunks (s_heap w)"
    using pool_alloc_law [OF sh ok, of pid] by blast
  let ?s' = "?s\<lparr>slab_head := p\<rparr>" and ?w = "set_item p (\<lambda>_. \<lparr>next_item = NULL, alloc_vec = 0, gc_vec = 0\<rparr>) w1"
  have sh': "slab_shape ?s'" using sh by (simp add: slab_shape_def)
  show ?thesis
  proof (cases "p = NULL")
    case True
    have "ker_slab_init pid s isz items flg w = Some (w1, ?s', - ENOMEM)"
      unfolding ker_slab_init_def Let_def w1(1) using i8 True by simp
    with True show ?thesis by (intro exI [of _ w1] exI [of _ ?s'] exI) simp
  next
    case False
    have "pool_ok ?s' ?w p" using w1(3) False by (auto simp: pool_ok_def)
    then have "slab_inv ?s' [p] ?w" using w1(2) sh' False by (simp add: slab_inv_def)
    moreover have "slab_used ?s' [p] ?w = {}" by (simp add: slab_used_def)
    moreover have "ker_slab_init pid s isz items flg w = Some (?w, ?s', SOS_OK)"
      unfolding ker_slab_init_def Let_def w1(1) using i8 False by simp
    ultimately show ?thesis using False by (intro exI [of _ ?w] exI [of _ ?s'] exI) simp
  qed
qed

end
