(* ===== verification/Message_Queue.thy ===== *)
theory Message_Queue
  imports Slab_Correct
begin

text \<open>
  The message queues, \<^verbatim>\<open>kernel/message_queue.c\<close>, on the message headers of
  \<^verbatim>\<open>kernel/include/message_types.h\<close>. A header lives in a store of headers, one for
  every address; the four bytes of its static payload are bytes of the byte store, at the
  offset of the field \<^verbatim>\<open>payload\<close>. The queue exists in two builds: three first-in
  first-out queues, one per class of priority, and, with \<^verbatim>\<open>SOS_USE_PREEMPTION\<close>, a
  single list in the order of the priorities (the operations with the suffix \<open>_pre\<close>). Both are
  the same abstract queue, given by the locale \<open>prio_queue\<close>: a sequence in which a new message
  is placed behind all messages of the same or a higher priority.
\<close>

section \<open>Definitions\<close>

record Message =
  m_did :: sos_pid_t
  m_sid :: sos_pid_t
  m_daddr :: u16
  m_saddr :: u16
  m_type :: u8
  m_len :: u8
  m_data :: addr
  m_flag :: u16
  m_rssi :: u8
  m_priority :: u8
  m_next :: addr

type_synonym msgs = "addr \<Rightarrow> Message"
type_synonym bytes = "addr \<Rightarrow> u8"

text \<open>\<^verbatim>\<open>sizeof(Message)\<close> and the offset of \<^verbatim>\<open>payload\<close>.\<close>

definition MESSAGE_SIZE :: nat where "MESSAGE_SIZE = 20"
definition PAYLOAD_OFFSET :: nat where "PAYLOAD_OFFSET = 12"

definition SOS_MSG_FROM_NETWORK :: u16 where "SOS_MSG_FROM_NETWORK = 0x0100"
definition SOS_MSG_RADIO_IO :: u16 where "SOS_MSG_RADIO_IO = 0x0200"
definition SOS_MSG_I2C_IO :: u16 where "SOS_MSG_I2C_IO = 0x0400"
definition SOS_MSG_UART_IO :: u16 where "SOS_MSG_UART_IO = 0x0800"
definition SOS_MSG_SPI_IO :: u16 where "SOS_MSG_SPI_IO = 0x1000"
definition SOS_MSG_ALL_LINK_IO :: u16 where "SOS_MSG_ALL_LINK_IO = 0x1E00"
definition SOS_MSG_LINK_AUTO :: u16 where "SOS_MSG_LINK_AUTO = 0x2000"
definition SOS_MSG_RAW :: u16 where "SOS_MSG_RAW = 0x4000"
definition SOS_MSG_SYSTEM_PRIORITY :: u16 where "SOS_MSG_SYSTEM_PRIORITY = 0x0080"
definition SOS_MSG_HIGH_PRIORITY :: u16 where "SOS_MSG_HIGH_PRIORITY = 0x0040"
definition SOS_MSG_RELIABLE :: u16 where "SOS_MSG_RELIABLE = 0x0008"
definition SOS_MSG_RELEASE :: u16 where "SOS_MSG_RELEASE = 0x0004"
definition SOS_MSG_SEND_FAIL :: u16 where "SOS_MSG_SEND_FAIL = 0x0002"

lemmas flag_defs =
  SOS_MSG_FROM_NETWORK_def SOS_MSG_RADIO_IO_def SOS_MSG_I2C_IO_def SOS_MSG_UART_IO_def SOS_MSG_SPI_IO_def
  SOS_MSG_ALL_LINK_IO_def SOS_MSG_LINK_AUTO_def SOS_MSG_RAW_def SOS_MSG_SYSTEM_PRIORITY_def
  SOS_MSG_HIGH_PRIORITY_def SOS_MSG_RELIABLE_def SOS_MSG_RELEASE_def SOS_MSG_SEND_FAIL_def

definition flag_msg_from_network :: "u16 \<Rightarrow> bool" where "flag_msg_from_network f \<longleftrightarrow> f AND SOS_MSG_FROM_NETWORK \<noteq> 0"
definition flag_system :: "u16 \<Rightarrow> bool" where "flag_system f \<longleftrightarrow> f AND SOS_MSG_SYSTEM_PRIORITY \<noteq> 0"
definition flag_high_priority :: "u16 \<Rightarrow> bool" where "flag_high_priority f \<longleftrightarrow> f AND SOS_MSG_HIGH_PRIORITY \<noteq> 0"
definition flag_msg_release :: "u16 \<Rightarrow> bool" where "flag_msg_release f \<longleftrightarrow> f AND SOS_MSG_RELEASE \<noteq> 0"
definition flag_msg_reliable :: "u16 \<Rightarrow> bool" where "flag_msg_reliable f \<longleftrightarrow> f AND SOS_MSG_RELIABLE \<noteq> 0"

definition set_msg :: "addr \<Rightarrow> (Message \<Rightarrow> Message) \<Rightarrow> msgs \<Rightarrow> msgs" where
  "set_msg p f ms = ms(p := f (ms p))"

subsection \<open>The queue of the build without preemption\<close>

record mq_t =
  msg_cnt :: u8
  lm_cnt :: u8
  sm_cnt :: u8
  hm_cnt :: u8
  hq_head :: addr
  hq_tail :: addr
  sq_head :: addr
  sq_tail :: addr
  lq_head :: addr
  lq_tail :: addr

definition mq_init :: mq_t where
  "mq_init = \<lparr>msg_cnt = 0, lm_cnt = 0, sm_cnt = 0, hm_cnt = 0, hq_head = NULL, hq_tail = NULL,
              sq_head = NULL, sq_tail = NULL, lq_head = NULL, lq_tail = NULL\<rparr>"

definition mq_enqueue :: "mq_t \<Rightarrow> addr \<Rightarrow> msgs \<Rightarrow> mq_t \<times> msgs" where
  "mq_enqueue q m ms0 =
     (let ms = set_msg m (\<lambda>x. x\<lparr>m_next := NULL\<rparr>) ms0;
          f = m_flag (ms m);
          (q1, ms1) =
            (if flag_high_priority f then
               (let (q', ms') =
                  (if hq_head q = NULL then (q\<lparr>hq_head := m, hq_tail := m\<rparr>, ms)
                   else (q\<lparr>hq_tail := m\<rparr>, set_msg (hq_tail q) (\<lambda>x. x\<lparr>m_next := m\<rparr>) ms))
                in (q'\<lparr>hm_cnt := hm_cnt q' + 1\<rparr>, ms'))
             else if flag_system f then
               (let (q', ms') =
                  (if sq_head q = NULL then (q\<lparr>sq_head := m, sq_tail := m\<rparr>, ms)
                   else (q\<lparr>sq_tail := m\<rparr>, set_msg (sq_tail q) (\<lambda>x. x\<lparr>m_next := m\<rparr>) ms))
                in (q'\<lparr>sm_cnt := sm_cnt q' + 1\<rparr>, ms'))
             else
               (let (q', ms') =
                  (if lq_head q = NULL then (q\<lparr>lq_head := m, lq_tail := m\<rparr>, ms)
                   else (q\<lparr>lq_tail := m\<rparr>, set_msg (lq_tail q) (\<lambda>x. x\<lparr>m_next := m\<rparr>) ms))
                in (q'\<lparr>lm_cnt := lm_cnt q' + 1\<rparr>, ms')))
      in (q1\<lparr>msg_cnt := msg_cnt q1 + 1\<rparr>, ms1))"

definition mq_dequeue :: "mq_t \<Rightarrow> msgs \<Rightarrow> mq_t \<times> addr" where
  "mq_dequeue q ms =
     (if hq_head q \<noteq> NULL then
        (let tmp = hq_head q; q1 = q\<lparr>hq_head := m_next (ms tmp), hm_cnt := hm_cnt q - 1\<rparr>
         in (q1\<lparr>msg_cnt := msg_cnt q1 - 1\<rparr>, tmp))
      else if sq_head q \<noteq> NULL then
        (let tmp = sq_head q; q1 = q\<lparr>sq_head := m_next (ms tmp), sm_cnt := sm_cnt q - 1\<rparr>
         in (q1\<lparr>msg_cnt := msg_cnt q1 - 1\<rparr>, tmp))
      else if lq_head q \<noteq> NULL then
        (let tmp = lq_head q; q1 = q\<lparr>lq_head := m_next (ms tmp), lm_cnt := lm_cnt q - 1\<rparr>
         in (q1\<lparr>msg_cnt := msg_cnt q1 - 1\<rparr>, tmp))
      else (q, NULL))"

text \<open>The comparison of the headers and of the \<^verbatim>\<open>len\<close> bytes of data.\<close>

definition msg_matched :: "msgs \<Rightarrow> bytes \<Rightarrow> addr \<Rightarrow> addr \<Rightarrow> bool" where
  "msg_matched ms bt m cur \<longleftrightarrow>
     m_did (ms m) = m_did (ms cur) \<and> m_sid (ms m) = m_sid (ms cur) \<and>
     m_daddr (ms m) = m_daddr (ms cur) \<and> m_saddr (ms m) = m_saddr (ms cur) \<and>
     m_type (ms m) = m_type (ms cur) \<and> m_len (ms m) = m_len (ms cur) \<and>
     list_all (\<lambda>i. bt (m_data (ms m) + i) = bt (m_data (ms cur) + i)) [0..<unat (m_len (ms m))]"

text \<open>
  The loop of \<^verbatim>\<open>mq_real_get\<close>; the result is the new head, the new tail, the new
  headers and the message found.
\<close>

partial_function (option) real_get_walk ::
    "bytes \<Rightarrow> addr \<Rightarrow> addr \<Rightarrow> addr \<Rightarrow> addr \<Rightarrow> addr \<Rightarrow> msgs \<Rightarrow> (addr \<times> addr \<times> msgs \<times> addr) option" where
  "real_get_walk bt head tail m prv cur ms =
     (if cur = NULL then Some (head, tail, ms, NULL)
      else if msg_matched ms bt m cur then
        (if cur = head then
           (let head' = m_next (ms cur) in Some (head', if head' = NULL then NULL else tail, ms, cur))
         else if cur = tail then Some (head, prv, set_msg prv (\<lambda>x. x\<lparr>m_next := NULL\<rparr>) ms, cur)
         else Some (head, tail, set_msg prv (\<lambda>x. x\<lparr>m_next := m_next (ms cur)\<rparr>) ms, cur))
      else real_get_walk bt head tail m cur (m_next (ms cur)) ms)"

declare real_get_walk.simps [code]

definition mq_real_get ::
    "bytes \<Rightarrow> addr \<Rightarrow> addr \<Rightarrow> addr \<Rightarrow> msgs \<Rightarrow> (addr \<times> addr \<times> msgs \<times> addr) option" where
  "mq_real_get bt head tail m ms = real_get_walk bt head tail m head head ms"

definition mq_get :: "bytes \<Rightarrow> mq_t \<Rightarrow> addr \<Rightarrow> msgs \<Rightarrow> (mq_t \<times> msgs \<times> addr) option" where
  "mq_get bt q m ms =
     (if msg_cnt q = 0 then Some (q, ms, NULL)
      else do {
        (h1, t1, ms1, ret) \<leftarrow> mq_real_get bt (hq_head q) (hq_tail q) m ms;
        let q1 = q\<lparr>hq_head := h1, hq_tail := t1\<rparr>;
        if ret \<noteq> NULL then Some (q1\<lparr>msg_cnt := msg_cnt q1 - 1\<rparr>, ms1, ret)
        else do {
          (h2, t2, ms2, ret2) \<leftarrow> mq_real_get bt (lq_head q1) (lq_tail q1) m ms1;
          let q2 = q1\<lparr>lq_head := h2, lq_tail := t2\<rparr>;
          if ret2 \<noteq> NULL then Some (q2\<lparr>msg_cnt := msg_cnt q2 - 1\<rparr>, ms2, ret2)
          else Some (q2, ms2, ret2)
        }
      })"

subsection \<open>The queue of the build with preemption\<close>

record mq_pre_t =
  pq_head :: addr
  pq_cnt :: u8

definition mq_init_pre :: mq_pre_t where
  "mq_init_pre = \<lparr>pq_head = NULL, pq_cnt = 0\<rparr>"

text \<open>The search for the place of a new message, and its insertion there.\<close>

partial_function (option) enqueue_walk :: "addr \<Rightarrow> addr \<Rightarrow> addr \<Rightarrow> msgs \<Rightarrow> msgs option" where
  "enqueue_walk m prv cur ms =
     (if cur = NULL then
        Some (set_msg prv (\<lambda>x. x\<lparr>m_next := m\<rparr>) (set_msg m (\<lambda>x. x\<lparr>m_next := NULL\<rparr>) ms))
      else if m_priority (ms cur) < m_priority (ms m) then
        Some (set_msg prv (\<lambda>x. x\<lparr>m_next := m\<rparr>) (set_msg m (\<lambda>x. x\<lparr>m_next := cur\<rparr>) ms))
      else enqueue_walk m cur (m_next (ms cur)) ms)"

declare enqueue_walk.simps [code]

definition mq_enqueue_pre :: "mq_pre_t \<Rightarrow> addr \<Rightarrow> msgs \<Rightarrow> (mq_pre_t \<times> msgs) option" where
  "mq_enqueue_pre q m ms =
     (if pq_head q = NULL then
        Some (q\<lparr>pq_head := m, pq_cnt := pq_cnt q + 1\<rparr>, set_msg m (\<lambda>x. x\<lparr>m_next := NULL\<rparr>) ms)
      else if m_priority (ms (pq_head q)) < m_priority (ms m) then
        Some (q\<lparr>pq_head := m, pq_cnt := pq_cnt q + 1\<rparr>, set_msg m (\<lambda>x. x\<lparr>m_next := pq_head q\<rparr>) ms)
      else do {
        ms1 \<leftarrow> enqueue_walk m (pq_head q) (m_next (ms (pq_head q))) ms;
        Some (q\<lparr>pq_cnt := pq_cnt q + 1\<rparr>, ms1)
      })"

definition mq_dequeue_pre :: "mq_pre_t \<Rightarrow> msgs \<Rightarrow> mq_pre_t \<times> addr" where
  "mq_dequeue_pre q ms =
     (if pq_head q \<noteq> NULL then (q\<lparr>pq_head := m_next (ms (pq_head q)), pq_cnt := pq_cnt q - 1\<rparr>, pq_head q)
      else (q, NULL))"

partial_function (option) real_get_walk_pre ::
    "bytes \<Rightarrow> addr \<Rightarrow> addr \<Rightarrow> addr \<Rightarrow> addr \<Rightarrow> msgs \<Rightarrow> (addr \<times> msgs \<times> addr) option" where
  "real_get_walk_pre bt head m prv cur ms =
     (if cur = NULL then Some (head, ms, NULL)
      else if msg_matched ms bt m cur then
        (if cur = head then Some (m_next (ms cur), ms, cur)
         else Some (head, set_msg prv (\<lambda>x. x\<lparr>m_next := m_next (ms cur)\<rparr>) ms, cur))
      else real_get_walk_pre bt head m cur (m_next (ms cur)) ms)"

declare real_get_walk_pre.simps [code]

definition mq_get_pre :: "bytes \<Rightarrow> mq_pre_t \<Rightarrow> addr \<Rightarrow> msgs \<Rightarrow> (mq_pre_t \<times> msgs \<times> addr) option" where
  "mq_get_pre bt q m ms =
     (if pq_head q = NULL then Some (q, ms, NULL)
      else do {
        (h, ms1, ret) \<leftarrow> real_get_walk_pre bt (pq_head q) m (pq_head q) (pq_head q) ms;
        Some (q\<lparr>pq_head := h\<rparr>, ms1, ret)
      })"

end
