(* ===== verification/Message_Queue_Correct.thy ===== *)
theory Message_Queue_Correct
  imports Message_Queue
begin

text \<open>
  The message queue implements a stable priority queue, in both builds; what \<^verbatim>\<open>mq_get\<close>
  finds and removes.
\<close>

section \<open>The abstract queue\<close>

text \<open>A new element goes behind all elements of the same or a higher key.\<close>

fun stable_insert :: "('a \<Rightarrow> nat) \<Rightarrow> 'a \<Rightarrow> 'a list \<Rightarrow> 'a list" where
  "stable_insert k x [] = [x]"
| "stable_insert k x (y # ys) = (if k y < k x then x # y # ys else y # stable_insert k x ys)"

text \<open>Operations in sequence.\<close>

fun enqueue_all :: "('q \<Rightarrow> addr \<Rightarrow> 's \<Rightarrow> ('q \<times> 's) option) \<Rightarrow> 'q \<Rightarrow> 's \<Rightarrow> addr list \<Rightarrow> ('q \<times> 's) option" where
  "enqueue_all enq q s [] = Some (q, s)"
| "enqueue_all enq q s (m # ms) = do { (q1, s1) \<leftarrow> enq q m s; enqueue_all enq q1 s1 ms }"

fun dequeue_n :: "('q \<Rightarrow> 's \<Rightarrow> 'q \<times> addr) \<Rightarrow> 'q \<Rightarrow> 's \<Rightarrow> nat \<Rightarrow> addr list" where
  "dequeue_n deq q s 0 = []"
| "dequeue_n deq q s (Suc n) = (let (q1, m) = deq q s in m # dequeue_n deq q1 s n)"

lemma stable_insert_set [simp]: "set (stable_insert k x xs) = insert x (set xs)"
  by (induction xs) auto

lemma stable_insert_length [simp]: "length (stable_insert k x xs) = Suc (length xs)"
  by (induction xs) auto

lemma stable_insert_cong: "(\<And>y. y \<in> insert x (set xs) \<Longrightarrow> k y = k' y) \<Longrightarrow> stable_insert k x xs = stable_insert k' x xs"
  by (induction xs) auto

lemma stable_insert_mid:
  assumes "\<forall>x \<in> set xs. k m \<le> k x" "\<forall>y \<in> set ys. k y < k m"
  shows "stable_insert k m (xs @ ys) = xs @ m # ys"
  using assms
proof (induction xs)
  case Nil
  then show ?case by (cases ys) auto
next
  case (Cons x xs)
  then show ?case by auto
qed

text \<open>Insertion of a sequence, one element after the other, is a stable sort.\<close>

lemma stable_insert_sorted:
  assumes "sorted_wrt (\<lambda>x y. k y \<le> k x) xs"
  shows "sorted_wrt (\<lambda>x y. k y \<le> k x) (stable_insert k x xs)"
  using assms by (induction xs) (auto simp: not_less intro: order_trans less_imp_le)

lemma stable_insert_filter:
  assumes "sorted_wrt (\<lambda>x y. k y \<le> k x) xs"
  shows "filter (\<lambda>y. k y = c) (stable_insert k x xs) = filter (\<lambda>y. k y = c) xs @ (if k x = c then [x] else [])"
  using assms
proof (induction xs)
  case (Cons y ys)
  have "filter (\<lambda>z. k z = c) (y # ys) = []" if "k y < k x" "k x = c"
    using Cons.prems that by (auto simp: filter_empty_conv)
  with Cons show ?case by auto
qed simp

text \<open>The interface: what the scheduler relies on.\<close>

locale prio_queue =
  fixes enq :: "'q \<Rightarrow> addr \<Rightarrow> 's \<Rightarrow> ('q \<times> 's) option"
    and deq :: "'q \<Rightarrow> 's \<Rightarrow> 'q \<times> addr"
    and holds :: "'s \<Rightarrow> 'q \<Rightarrow> addr list \<Rightarrow> bool"
    and key :: "'s \<Rightarrow> addr \<Rightarrow> nat"
    and empty_q :: 'q
  assumes enq_law: "holds s q xs \<Longrightarrow> m \<notin> set xs \<Longrightarrow> m \<noteq> NULL \<Longrightarrow>
      \<exists>q' s'. enq q m s = Some (q', s') \<and> key s' = key s \<and> holds s' q' (stable_insert (key s) m xs)"
    and deq_law: "holds s q (x # xs) \<Longrightarrow> \<exists>q'. deq q s = (q', x) \<and> holds s q' xs"
    and deq_empty: "holds s q [] \<Longrightarrow> deq q s = (q, NULL)"
    and empty_law: "holds s empty_q []"
    and sorted_law: "holds s q xs \<Longrightarrow> sorted_wrt (\<lambda>x y. key s y \<le> key s x) xs"
begin

lemma enqueue_all_holds:
  assumes "holds s q xs" "distinct (xs @ ms)" "NULL \<notin> set ms"
  shows "\<exists>q' s'. enqueue_all enq q s ms = Some (q', s') \<and> key s' = key s \<and>
    holds s' q' (fold (stable_insert (key s)) ms xs)"
  using assms
proof (induction ms arbitrary: q s xs)
  case (Cons m ms)
  then have "m \<notin> set xs" "m \<noteq> NULL" by auto
  then obtain q1 s1 where 1: "enq q m s = Some (q1, s1)" "key s1 = key s" "holds s1 q1 (stable_insert (key s) m xs)"
    using enq_law [OF Cons.prems(1)] by blast
  have "distinct (stable_insert (key s) m xs @ ms)"
    using Cons.prems(2) by (auto simp: card_distinct distinct_card intro!: card_distinct)
  with Cons.IH [OF 1(3)] Cons.prems(3) 1(1,2) show ?case by auto
qed auto

lemma dequeue_all: "holds s q xs \<Longrightarrow> dequeue_n deq q s (length xs) = xs"
proof (induction xs arbitrary: q)
  case (Cons x xs)
  then obtain q1 where "deq q s = (q1, x)" "holds s q1 xs" using deq_law by blast
  with Cons.IH show ?case by simp
qed simp

lemma fold_stable:
  assumes "sorted_wrt (\<lambda>x y. k y \<le> k x) xs"
  shows "sorted_wrt (\<lambda>x y. k y \<le> k x) (fold (stable_insert k) ms xs) \<and>
    filter (\<lambda>y. k y = c) (fold (stable_insert k) ms xs) = filter (\<lambda>y. k y = c) (xs @ ms) \<and>
    length (fold (stable_insert k) ms xs) = length (xs @ ms)"
  using assms
proof (induction ms arbitrary: xs)
  case (Cons m ms)
  from Cons.IH [OF stable_insert_sorted [OF Cons.prems]] show ?case
    by (simp add: stable_insert_filter [OF Cons.prems])
qed simp

text \<open>
  Messages that are put into an empty queue come out by descending key, and messages of the
  same key in the order in which they went in.
\<close>

lemma served_in_order:
  assumes "distinct ms" "NULL \<notin> set ms"
  shows "\<exists>q' s' out. enqueue_all enq empty_q s ms = Some (q', s') \<and>
    dequeue_n deq q' s' (length ms) = out \<and> sorted_wrt (\<lambda>x y. key s y \<le> key s x) out \<and>
    (\<forall>c. filter (\<lambda>y. key s y = c) out = filter (\<lambda>y. key s y = c) ms)"
proof -
  let ?out = "fold (stable_insert (key s)) ms []"
  obtain q' s' where 1: "enqueue_all enq empty_q s ms = Some (q', s')" "key s' = key s" "holds s' q' ?out"
    using enqueue_all_holds [OF empty_law, of ms s] assms by auto
  have "length ?out = length ms" "sorted_wrt (\<lambda>x y. key s y \<le> key s x) ?out"
    "filter (\<lambda>y. key s y = c) ?out = filter (\<lambda>y. key s y = c) ms" for c
    using fold_stable [of "key s" "[]" ms c] by simp_all
  with 1(1) dequeue_all [OF 1(3)] show ?thesis by simp
qed

end

section \<open>The build without preemption\<close>

text \<open>The class of a message: 2 for high priority, 1 for the system, 0 otherwise.\<close>

definition msg_class :: "msgs \<Rightarrow> addr \<Rightarrow> nat" where
  "msg_class ms m = (if flag_high_priority (m_flag (ms m)) then 2 else if flag_system (m_flag (ms m)) then 1 else 0)"

definition queue_at :: "msgs \<Rightarrow> addr \<Rightarrow> addr \<Rightarrow> addr list \<Rightarrow> bool" where
  "queue_at ms h t xs \<longleftrightarrow> path (\<lambda>a. m_next (ms a)) h xs NULL \<and> (xs \<noteq> [] \<longrightarrow> t = last xs)"

definition mq_parts :: "msgs \<Rightarrow> mq_t \<Rightarrow> addr list \<Rightarrow> addr list \<Rightarrow> addr list \<Rightarrow> bool" where
  "mq_parts ms q hs ss ls \<longleftrightarrow>
     queue_at ms (hq_head q) (hq_tail q) hs \<and> queue_at ms (sq_head q) (sq_tail q) ss \<and>
     queue_at ms (lq_head q) (lq_tail q) ls \<and> distinct (hs @ ss @ ls) \<and>
     msg_cnt q = of_nat (length (hs @ ss @ ls)) \<and>
     (\<forall>x \<in> set hs. msg_class ms x = 2) \<and> (\<forall>x \<in> set ss. msg_class ms x = 1) \<and> (\<forall>x \<in> set ls. msg_class ms x = 0)"

definition mq_holds :: "msgs \<Rightarrow> mq_t \<Rightarrow> addr list \<Rightarrow> bool" where
  "mq_holds ms q xs \<longleftrightarrow> (\<exists>hs ss ls. xs = hs @ ss @ ls \<and> mq_parts ms q hs ss ls)"

lemma msg_class_set_next [simp]: "msg_class (set_msg p (\<lambda>x. x\<lparr>m_next := v\<rparr>) ms) = msg_class ms"
  by (auto simp: msg_class_def set_msg_def fun_eq_iff)

lemma next_set_next: "(\<lambda>a. m_next (set_msg p (\<lambda>x. x\<lparr>m_next := v\<rparr>) ms a)) = (\<lambda>a. m_next (ms a))(p := v)"
  by (auto simp: set_msg_def fun_eq_iff)

lemma next_set_next_at: "m_next (set_msg p (\<lambda>x. x\<lparr>m_next := v\<rparr>) ms a) = (if a = p then v else m_next (ms a))"
  by (simp add: set_msg_def)

lemma queue_at_other:
  assumes "p \<notin> set xs"
  shows "queue_at (set_msg p (\<lambda>x. x\<lparr>m_next := v\<rparr>) ms) h t xs = queue_at ms h t xs"
  using assms by (simp add: queue_at_def next_set_next path_update)

lemma queue_at_head: "queue_at ms h t xs \<Longrightarrow> h = NULL \<longleftrightarrow> xs = []"
  by (auto simp: queue_at_def dest: path_empty_iff)

lemma queue_at_single: "m \<noteq> NULL \<Longrightarrow> queue_at (set_msg m (\<lambda>x. x\<lparr>m_next := NULL\<rparr>) ms) m m [m]"
  by (simp add: queue_at_def set_msg_def)

lemma queue_at_append:
  assumes "queue_at ms h t xs" "xs \<noteq> []" "m \<noteq> NULL" "m \<notin> set xs"
  shows "queue_at (set_msg t (\<lambda>x. x\<lparr>m_next := m\<rparr>) (set_msg m (\<lambda>x. x\<lparr>m_next := NULL\<rparr>) ms)) h m (xs @ [m])"
proof -
  obtain ys y where xs: "xs = ys @ [y]" using assms(2) by (cases xs rule: rev_cases) auto
  with assms have "t = y" "path (\<lambda>a. m_next (ms a)) h (ys @ [y]) NULL" by (auto simp: queue_at_def)
  with path_snoc [of "\<lambda>a. m_next (ms a)" h ys y m] assms(3,4) xs show ?thesis
    by (simp add: queue_at_def next_set_next)
qed

text \<open>One of the three branches: the headers it leaves, and the queue it changes.\<close>

definition link_behind :: "addr \<Rightarrow> addr \<Rightarrow> addr \<Rightarrow> msgs \<Rightarrow> msgs" where
  "link_behind h t m ms =
     (if h = NULL then set_msg m (\<lambda>x. x\<lparr>m_next := NULL\<rparr>) ms
      else set_msg t (\<lambda>x. x\<lparr>m_next := m\<rparr>) (set_msg m (\<lambda>x. x\<lparr>m_next := NULL\<rparr>) ms))"

lemma link_behind_class [simp]: "msg_class (link_behind h t m ms) = msg_class ms"
  by (simp add: link_behind_def)

lemma link_behind_queue:
  assumes "queue_at ms h t xs" "m \<noteq> NULL" "m \<notin> set xs"
  shows "queue_at (link_behind h t m ms) (if h = NULL then m else h) m (xs @ [m])"
  using queue_at_append [OF assms(1) _ assms(2,3)] queue_at_single [OF assms(2)] queue_at_head [OF assms(1)]
  by (cases "xs = []") (simp_all add: link_behind_def)

lemma link_behind_other:
  assumes "queue_at ms h t xs" "set xs \<inter> set ys = {}" "m \<notin> set ys"
  shows "queue_at (link_behind h t m ms) h' t' ys = queue_at ms h' t' ys"
proof -
  have "t \<notin> set ys" if "h \<noteq> NULL"
    using assms(1,2) that queue_at_head [OF assms(1)] by (auto simp: queue_at_def disjoint_iff)
  with assms(3) show ?thesis by (simp add: link_behind_def queue_at_other)
qed

lemma mq_enqueue_cases:
  assumes "mq_enqueue q m ms = (q', ms')"
  shows "msg_class ms m = 2 \<Longrightarrow> ms' = link_behind (hq_head q) (hq_tail q) m ms \<and>
      q' = q\<lparr>msg_cnt := msg_cnt q + 1, hm_cnt := hm_cnt q + 1,
             hq_head := if hq_head q = NULL then m else hq_head q, hq_tail := m\<rparr>"
    "msg_class ms m = 1 \<Longrightarrow> ms' = link_behind (sq_head q) (sq_tail q) m ms \<and>
      q' = q\<lparr>msg_cnt := msg_cnt q + 1, sm_cnt := sm_cnt q + 1,
             sq_head := if sq_head q = NULL then m else sq_head q, sq_tail := m\<rparr>"
    "msg_class ms m = 0 \<Longrightarrow> ms' = link_behind (lq_head q) (lq_tail q) m ms \<and>
      q' = q\<lparr>msg_cnt := msg_cnt q + 1, lm_cnt := lm_cnt q + 1,
             lq_head := if lq_head q = NULL then m else lq_head q, lq_tail := m\<rparr>"
  using assms by (auto simp: mq_enqueue_def msg_class_def link_behind_def set_msg_def Let_def split: if_splits)

lemma msg_class_range: "msg_class ms m = 2 \<or> msg_class ms m = 1 \<or> msg_class ms m = 0"
  by (simp add: msg_class_def)

lemma mq_enqueue_parts:
  assumes p: "mq_parts ms q hs ss ls" and m: "m \<notin> set (hs @ ss @ ls)" "m \<noteq> NULL"
    and e: "mq_enqueue q m ms = (q', ms')"
  shows "msg_class ms' = msg_class ms"
    "msg_class ms m = 2 \<Longrightarrow> mq_parts ms' q' (hs @ [m]) ss ls"
    "msg_class ms m = 1 \<Longrightarrow> mq_parts ms' q' hs (ss @ [m]) ls"
    "msg_class ms m = 0 \<Longrightarrow> mq_parts ms' q' hs ss (ls @ [m])"
proof -
  note c = mq_enqueue_cases [OF e]
  show "msg_class ms' = msg_class ms" using c msg_class_range [of ms m] by fastforce
  have d: "set hs \<inter> set ss = {}" "set hs \<inter> set ls = {}" "set ss \<inter> set ls = {}" "set ss \<inter> set hs = {}"
    "set ls \<inter> set hs = {}" "set ls \<inter> set ss = {}" "m \<notin> set hs" "m \<notin> set ss" "m \<notin> set ls"
    using p m by (auto simp: mq_parts_def)
  have qs: "queue_at ms (hq_head q) (hq_tail q) hs" "queue_at ms (sq_head q) (sq_tail q) ss" "queue_at ms (lq_head q) (lq_tail q) ls"
    using p by (simp_all add: mq_parts_def)
  note q1 = link_behind_queue [OF qs(1) m(2) d(7)] link_behind_other [OF qs(1) d(1) d(8)] link_behind_other [OF qs(1) d(2) d(9)]
  note q2 = link_behind_queue [OF qs(2) m(2) d(8)] link_behind_other [OF qs(2) d(4) d(7)] link_behind_other [OF qs(2) d(3) d(9)]
  note q3 = link_behind_queue [OF qs(3) m(2) d(9)] link_behind_other [OF qs(3) d(5) d(7)] link_behind_other [OF qs(3) d(6) d(8)]
  show "mq_parts ms' q' (hs @ [m]) ss ls" if "msg_class ms m = 2"
    using c(1) [OF that] p m that q1 by (simp add: mq_parts_def ac_simps)
  show "mq_parts ms' q' hs (ss @ [m]) ls" if "msg_class ms m = 1"
    using c(2) [OF that] p m that q2 by (simp add: mq_parts_def ac_simps)
  show "mq_parts ms' q' hs ss (ls @ [m])" if "msg_class ms m = 0"
    using c(3) [OF that] p m that q3 by (simp add: mq_parts_def ac_simps)
qed

lemma mq_dequeue_parts:
  assumes p: "mq_parts ms q hs ss ls"
  shows "hs = x # hs' \<Longrightarrow> \<exists>q'. mq_dequeue q ms = (q', x) \<and> mq_parts ms q' hs' ss ls"
    "hs = [] \<Longrightarrow> ss = x # ss' \<Longrightarrow> \<exists>q'. mq_dequeue q ms = (q', x) \<and> mq_parts ms q' [] ss' ls"
    "hs = [] \<Longrightarrow> ss = [] \<Longrightarrow> ls = x # ls' \<Longrightarrow> \<exists>q'. mq_dequeue q ms = (q', x) \<and> mq_parts ms q' [] [] ls'"
    "hs = [] \<Longrightarrow> ss = [] \<Longrightarrow> ls = [] \<Longrightarrow> mq_dequeue q ms = (q, NULL)"
  using p by (auto simp: mq_parts_def mq_dequeue_def queue_at_def)

lemma mq_holdsI: "mq_parts ms q hs ss ls \<Longrightarrow> xs = hs @ ss @ ls \<Longrightarrow> mq_holds ms q xs"
  by (auto simp: mq_holds_def)

lemma sorted_wrt_all: "(\<And>x y. x \<in> set xs \<Longrightarrow> y \<in> set xs \<Longrightarrow> P x y) \<Longrightarrow> sorted_wrt P xs"
  by (induction xs) auto

lemma mq_holds_sorted:
  assumes "mq_holds ms q xs"
  shows "sorted_wrt (\<lambda>x y. msg_class ms y \<le> msg_class ms x) xs"
proof -
  obtain hs ss ls where p: "xs = hs @ ss @ ls" "mq_parts ms q hs ss ls" using assms by (auto simp: mq_holds_def)
  then have k: "\<forall>x \<in> set hs. msg_class ms x = 2" "\<forall>x \<in> set ss. msg_class ms x = 1" "\<forall>x \<in> set ls. msg_class ms x = 0"
    by (simp_all add: mq_parts_def)
  have "sorted_wrt (\<lambda>x y. msg_class ms y \<le> msg_class ms x) zs" if "zs \<in> {hs, ss, ls}" for zs
    using that k by (intro sorted_wrt_all) auto
  with k p(1) show ?thesis by (simp add: sorted_wrt_append ball_Un)
qed

lemma mq_init_holds: "mq_holds ms mq_init []"
  by (simp add: mq_holds_def mq_parts_def queue_at_def mq_init_def)

interpretation classed: prio_queue "\<lambda>q m ms. Some (mq_enqueue q m ms)" mq_dequeue mq_holds msg_class mq_init
proof
  show "\<exists>q' s'. Some (mq_enqueue q m s) = Some (q', s') \<and> msg_class s' = msg_class s \<and>
      mq_holds s' q' (stable_insert (msg_class s) m xs)"
    if h: "mq_holds s q xs" and m: "m \<notin> set xs" "m \<noteq> NULL" for s q xs m
  proof -
    obtain hs ss ls where p: "xs = hs @ ss @ ls" "mq_parts s q hs ss ls" using h by (auto simp: mq_holds_def)
    obtain q' s' where e: "mq_enqueue q m s = (q', s')" by fastforce
    have k: "\<forall>x \<in> set hs. msg_class s x = 2" "\<forall>x \<in> set ss. msg_class s x = 1" "\<forall>x \<in> set ls. msg_class s x = 0"
      using p(2) by (simp_all add: mq_parts_def)
    note r = mq_enqueue_parts [OF p(2) m(1) [unfolded p(1)] m(2) e]
    have "mq_holds s' q' (stable_insert (msg_class s) m (hs @ ss @ ls))"
    proof -
      consider "msg_class s m = 2" | "msg_class s m = 1" | "msg_class s m = 0"
        using msg_class_range [of s m] by argo
      then show ?thesis
      proof cases
        case 1
        with stable_insert_mid [of hs "msg_class s" m "ss @ ls"] k show ?thesis
          by (intro mq_holdsI [OF r(2)]) (simp_all add: ball_Un)
      next
        case 2
        with stable_insert_mid [of "hs @ ss" "msg_class s" m ls] k show ?thesis
          by (intro mq_holdsI [OF r(3)]) (simp_all add: ball_Un)
      next
        case 3
        with stable_insert_mid [of "hs @ ss @ ls" "msg_class s" m "[]"] k show ?thesis
          by (intro mq_holdsI [OF r(4)]) (simp_all add: ball_Un)
      qed
    qed
    with e r(1) p(1) show ?thesis by auto
  qed
  show "\<exists>q'. mq_dequeue q s = (q', x) \<and> mq_holds s q' xs" if h: "mq_holds s q (x # xs)" for s q x xs
  proof -
    obtain hs ss ls where p: "x # xs = hs @ ss @ ls" "mq_parts s q hs ss ls" using h by (auto simp: mq_holds_def)
    note d = mq_dequeue_parts [OF p(2)]
    consider hs' where "hs = x # hs'" "xs = hs' @ ss @ ls" | ss' where "hs = []" "ss = x # ss'" "xs = ss' @ ls"
      | "hs = []" "ss = []" "ls = x # xs"
      using p(1) by (cases hs; cases ss) auto
    then show ?thesis
    proof cases
      case 1
      with d(1) show ?thesis unfolding mq_holds_def by blast
    next
      case 2
      with d(2) show ?thesis unfolding mq_holds_def by (metis append_Nil)
    next
      case 3
      with d(3) show ?thesis unfolding mq_holds_def by (metis append_Nil)
    qed
  qed
  show "mq_dequeue q s = (q, NULL)" if "mq_holds s q []" for s q
    using that mq_dequeue_parts(4) by (auto simp: mq_holds_def)
  show "mq_holds s mq_init []" for s by (rule mq_init_holds)
  show "sorted_wrt (\<lambda>x y. msg_class s y \<le> msg_class s x) xs" if "mq_holds s q xs" for s q xs
    using that by (rule mq_holds_sorted)
qed

section \<open>The build with preemption\<close>

definition msg_pri :: "msgs \<Rightarrow> addr \<Rightarrow> nat" where
  "msg_pri ms m = unat (m_priority (ms m))"

definition mq_holds_pre :: "msgs \<Rightarrow> mq_pre_t \<Rightarrow> addr list \<Rightarrow> bool" where
  "mq_holds_pre ms q xs \<longleftrightarrow>
     path (\<lambda>a. m_next (ms a)) (pq_head q) xs NULL \<and> sorted_wrt (\<lambda>x y. msg_pri ms y \<le> msg_pri ms x) xs \<and>
     pq_cnt q = of_nat (length xs)"

lemma msg_pri_set_next [simp]: "msg_pri (set_msg p (\<lambda>x. x\<lparr>m_next := v\<rparr>) ms) = msg_pri ms"
  by (auto simp: msg_pri_def set_msg_def fun_eq_iff)

lemma pri_less: "m_priority (ms a) < m_priority (ms b) \<longleftrightarrow> msg_pri ms a < msg_pri ms b"
  by (simp add: msg_pri_def word_less_nat_alt)

text \<open>
  The walk, at the node \<open>p\<close> whose priority is not below the one of the new message.
\<close>

lemma enqueue_walk_path:
  assumes "path (\<lambda>a. m_next (ms a)) h (xs @ p # ys) NULL" "m \<noteq> NULL" "m \<notin> set (xs @ p # ys)"
    and "msg_pri ms m \<le> msg_pri ms p"
  shows "\<exists>ms'. enqueue_walk m p (m_next (ms p)) ms = Some ms' \<and> msg_pri ms' = msg_pri ms \<and>
    path (\<lambda>a. m_next (ms' a)) h (xs @ p # stable_insert (msg_pri ms) m ys) NULL"
  using assms
proof (induction ys arbitrary: xs p)
  case Nil
  then have n: "m_next (ms p) = NULL" by (auto simp: path_append)
  from path_snoc [of "\<lambda>a. m_next (ms a)" h xs p m] Nil n show ?case
    by (subst enqueue_walk.simps) (simp add: next_set_next)
next
  case (Cons y ys)
  then have n: "m_next (ms p) = y" "y \<noteq> NULL" by (auto simp: path_append)
  show ?case
  proof (cases "msg_pri ms y < msg_pri ms m")
    case True
    with path_insert [of "\<lambda>a. m_next (ms a)" h xs p "y # ys" m] Cons.prems n show ?thesis
      by (subst enqueue_walk.simps) (simp add: next_set_next pri_less)
  next
    case False
    with Cons.IH [of "xs @ [p]" y] Cons.prems n show ?thesis
      by (subst enqueue_walk.simps) (simp add: pri_less)
  qed
qed

lemma mq_enqueue_pre_holds:
  assumes h: "mq_holds_pre ms q xs" and m: "m \<notin> set xs" "m \<noteq> NULL"
  shows "\<exists>q' ms'. mq_enqueue_pre q m ms = Some (q', ms') \<and> msg_pri ms' = msg_pri ms \<and>
    mq_holds_pre ms' q' (stable_insert (msg_pri ms) m xs)"
proof (cases xs)
  case Nil
  with h m have "mq_holds_pre (set_msg m (\<lambda>x. x\<lparr>m_next := NULL\<rparr>) ms) (q\<lparr>pq_head := m, pq_cnt := pq_cnt q + 1\<rparr>) [m]"
    by (simp add: mq_holds_pre_def next_set_next_at)
  with h Nil show ?thesis by (simp add: mq_enqueue_pre_def mq_holds_pre_def)
next
  case (Cons x ys)
  then have x: "pq_head q = x" "x \<noteq> NULL" "path (\<lambda>a. m_next (ms a)) x (x # ys) NULL"
    and s: "sorted_wrt (\<lambda>x y. msg_pri ms y \<le> msg_pri ms x) xs" and c: "pq_cnt q = of_nat (length xs)"
    using h by (auto simp: mq_holds_pre_def)
  have s': "sorted_wrt (\<lambda>x y. msg_pri ms y \<le> msg_pri ms x) (stable_insert (msg_pri ms) m xs)"
    by (rule stable_insert_sorted [OF s])
  show ?thesis
  proof (cases "msg_pri ms x < msg_pri ms m")
    case True
    moreover have "path ((\<lambda>a. m_next (ms a))(m := x)) x (x # ys) NULL"
      using x(3) m Cons by (subst path_update) auto
    ultimately show ?thesis using x c s' m Cons
      by (simp add: mq_enqueue_pre_def mq_holds_pre_def next_set_next_at pri_less fun_upd_def)
  next
    case False
    with enqueue_walk_path [of ms x "[]" x ys m] x m Cons obtain ms' where
      "enqueue_walk m x (m_next (ms x)) ms = Some ms'" "msg_pri ms' = msg_pri ms"
      "path (\<lambda>a. m_next (ms' a)) x (x # stable_insert (msg_pri ms) m ys) NULL" by auto
    with x c s' m Cons False show ?thesis
      by (auto simp: mq_enqueue_pre_def mq_holds_pre_def pri_less)
  qed
qed

interpretation preemptive: prio_queue mq_enqueue_pre mq_dequeue_pre mq_holds_pre msg_pri mq_init_pre
proof
  show "\<exists>q' s'. mq_enqueue_pre q m s = Some (q', s') \<and> msg_pri s' = msg_pri s \<and>
      mq_holds_pre s' q' (stable_insert (msg_pri s) m xs)"
    if "mq_holds_pre s q xs" "m \<notin> set xs" "m \<noteq> NULL" for s q xs m
    using that by (rule mq_enqueue_pre_holds)
qed (auto simp: mq_holds_pre_def mq_dequeue_pre_def mq_init_pre_def)

section \<open>Taking out a given message\<close>

text \<open>What the removal of a node changes: one link of a node of the same queue.\<close>

definition relinked :: "addr list \<Rightarrow> msgs \<Rightarrow> msgs \<Rightarrow> bool" where
  "relinked xs ms ms' \<longleftrightarrow> ms' = ms \<or> (\<exists>u \<in> set xs. \<exists>v. ms' = set_msg u (\<lambda>x. x\<lparr>m_next := v\<rparr>) ms)"

lemma relinked_class: "relinked xs ms ms' \<Longrightarrow> msg_class ms' = msg_class ms"
  by (auto simp: relinked_def)

lemma relinked_other: "relinked xs ms ms' \<Longrightarrow> set xs \<inter> set ys = {} \<Longrightarrow> queue_at ms' h t ys = queue_at ms h t ys"
  unfolding relinked_def by (metis disjoint_iff queue_at_other)

lemma queue_at_distinct: "queue_at ms h t xs \<Longrightarrow> distinct xs"
  unfolding queue_at_def by (elim conjE) (rule path_distinct)

lemma queue_at_remove:
  assumes "queue_at ms h t (xs @ p # y # ys)"
    and "ms' = set_msg p (\<lambda>x. x\<lparr>m_next := m_next (ms y)\<rparr>) ms" "t' = (if y = t then p else t)"
  shows "queue_at ms' h t' (xs @ p # ys)"
proof -
  have "path (\<lambda>a. m_next (ms' a)) h (xs @ p # ys) NULL"
    using path_remove [of "\<lambda>a. m_next (ms a)" h xs p y ys] assms(1,2) by (simp add: queue_at_def next_set_next)
  moreover have "distinct (xs @ p # y # ys)" by (rule queue_at_distinct [OF assms(1)])
  ultimately show ?thesis using assms(1,3) by (cases ys rule: rev_cases) (auto simp: queue_at_def)
qed

lemma tail_end:
  assumes "queue_at ms h t (xs @ y # ys)" "y = t"
  shows "m_next (ms y) = NULL"
proof -
  have "distinct (xs @ y # ys)" by (rule queue_at_distinct [OF assms(1)])
  then have "ys = []" using assms by (cases ys rule: rev_cases) (auto simp: queue_at_def)
  then show ?thesis using assms(1) by (auto simp: queue_at_def path_append)
qed

lemma real_get_walk_queue:
  assumes "queue_at ms h t (xs @ p # ys)"
  shows "case List.find (msg_matched ms bt m) ys of
      None \<Rightarrow> real_get_walk bt h t m p (m_next (ms p)) ms = Some (h, t, ms, NULL)
    | Some y \<Rightarrow> \<exists>t' ms'. real_get_walk bt h t m p (m_next (ms p)) ms = Some (h, t', ms', y) \<and>
        queue_at ms' h t' (xs @ p # remove1 y ys) \<and> relinked (xs @ p # ys) ms ms'"
  using assms
proof (induction ys arbitrary: xs p)
  case Nil
  then have "m_next (ms p) = NULL" by (auto simp: queue_at_def path_append)
  then show ?case by (simp add: real_get_walk.simps)
next
  case (Cons y ys)
  then have n: "m_next (ms p) = y" "y \<noteq> NULL" by (auto simp: queue_at_def path_append)
  have "distinct (xs @ p # y # ys)" "path (\<lambda>a. m_next (ms a)) h (xs @ p # y # ys) NULL"
    using queue_at_distinct [OF Cons.prems] Cons.prems by (simp_all add: queue_at_def)
  then have yh: "y \<noteq> h" by (cases xs) auto
  show ?case
  proof (cases "msg_matched ms bt m y")
    case True
    have "y = t \<Longrightarrow> m_next (ms y) = NULL" using tail_end [of ms h t "xs @ [p]" y ys] Cons.prems by simp
    then have w: "real_get_walk bt h t m p y ms =
        Some (h, if y = t then p else t, set_msg p (\<lambda>x. x\<lparr>m_next := m_next (ms y)\<rparr>) ms, y)"
      using True n yh by (subst real_get_walk.simps) simp
    show ?thesis using True n(1) w queue_at_remove [OF Cons.prems refl refl] by (auto simp: relinked_def)
  next
    case False
    have w: "real_get_walk bt h t m p y ms = real_get_walk bt h t m y (m_next (ms y)) ms"
      using False n(2) yh by (subst real_get_walk.simps) simp
    from Cons.prems have "queue_at ms h t ((xs @ [p]) @ y # ys)" by simp
    from Cons.IH [OF this] False n(1) w show ?thesis
      by (auto split: option.splits dest: find_SomeD)
  qed
qed

lemma mq_real_get_queue:
  assumes q: "queue_at ms h t xs"
  shows "case List.find (msg_matched ms bt m) xs of
      None \<Rightarrow> mq_real_get bt h t m ms = Some (h, t, ms, NULL)
    | Some y \<Rightarrow> \<exists>h' t' ms'. mq_real_get bt h t m ms = Some (h', t', ms', y) \<and>
        queue_at ms' h' t' (remove1 y xs) \<and> relinked xs ms ms'"
proof (cases xs)
  case Nil
  with q show ?thesis by (simp add: queue_at_def mq_real_get_def real_get_walk.simps)
next
  case (Cons x ys)
  then have h: "h = x" "x \<noteq> NULL" using q by (auto simp: queue_at_def)
  show ?thesis
  proof (cases "msg_matched ms bt m x")
    case True
    then have "mq_real_get bt h t m ms = Some (m_next (ms x), if m_next (ms x) = NULL then NULL else t, ms, x)"
      unfolding mq_real_get_def h(1) using h(2) by (subst real_get_walk.simps) (simp add: Let_def)
    moreover have "queue_at ms (m_next (ms x)) (if m_next (ms x) = NULL then NULL else t) ys"
      using q Cons by (cases ys) (auto simp: queue_at_def)
    ultimately show ?thesis using True Cons by (auto simp: relinked_def)
  next
    case False
    then have w: "mq_real_get bt h t m ms = real_get_walk bt h t m x (m_next (ms x)) ms"
      unfolding mq_real_get_def h(1) using h(2) by (subst real_get_walk.simps) simp
    have "queue_at ms h t ([] @ x # ys)" using q Cons by simp
    from real_get_walk_queue [OF this, of bt m] w False Cons show ?thesis
      by (auto split: option.splits dest: find_SomeD)
  qed
qed

text \<open>What is left of the queue after a message of the high or of the low priority queue is taken out.\<close>

lemma mq_parts_taken:
  assumes p: "mq_parts ms q hs ss ls"
  shows "x \<in> set hs \<Longrightarrow> relinked hs ms ms' \<Longrightarrow> queue_at ms' h t (remove1 x hs) \<Longrightarrow>
      mq_parts ms' (q\<lparr>hq_head := h, hq_tail := t, msg_cnt := msg_cnt q - 1\<rparr>) (remove1 x hs) ss ls"
    "x \<in> set ls \<Longrightarrow> relinked ls ms ms' \<Longrightarrow> queue_at ms' h t (remove1 x ls) \<Longrightarrow>
      mq_parts ms' (q\<lparr>lq_head := h, lq_tail := t, msg_cnt := msg_cnt q - 1\<rparr>) hs ss (remove1 x ls)"
proof -
  have d: "set hs \<inter> set ss = {}" "set hs \<inter> set ls = {}" "set ls \<inter> set hs = {}" "set ls \<inter> set ss = {}"
    using p by (auto simp: mq_parts_def)
  have c: "of_nat n - 1 = (of_nat (n - 1) :: u8)" if "0 < n" for n using that by simp
  show "mq_parts ms' (q\<lparr>hq_head := h, hq_tail := t, msg_cnt := msg_cnt q - 1\<rparr>) (remove1 x hs) ss ls"
    if "x \<in> set hs" "relinked hs ms ms'" "queue_at ms' h t (remove1 x hs)"
    using p that relinked_class [OF that(2)] relinked_other [OF that(2) d(1)] relinked_other [OF that(2) d(2)]
      length_pos_if_in_set [OF that(1)] notin_set_remove1
    by (auto simp: mq_parts_def length_remove1 c)
  show "mq_parts ms' (q\<lparr>lq_head := h, lq_tail := t, msg_cnt := msg_cnt q - 1\<rparr>) hs ss (remove1 x ls)"
    if "x \<in> set ls" "relinked ls ms ms'" "queue_at ms' h t (remove1 x ls)"
    using p that relinked_class [OF that(2)] relinked_other [OF that(2) d(3)] relinked_other [OF that(2) d(4)]
      length_pos_if_in_set [OF that(1)] notin_set_remove1
    by (auto simp: mq_parts_def length_remove1 c)
qed

lemma mq_get_parts:
  assumes p: "mq_parts ms q hs ss ls" and n: "msg_cnt q \<noteq> 0"
  shows "case List.find (msg_matched ms bt m) hs of
      Some y \<Rightarrow> \<exists>q' ms'. mq_get bt q m ms = Some (q', ms', y) \<and> mq_parts ms' q' (remove1 y hs) ss ls \<and>
        relinked hs ms ms' \<and> hm_cnt q' = hm_cnt q
    | None \<Rightarrow> (case List.find (msg_matched ms bt m) ls of
        Some y \<Rightarrow> \<exists>q' ms'. mq_get bt q m ms = Some (q', ms', y) \<and> mq_parts ms' q' hs ss (remove1 y ls) \<and>
          relinked ls ms ms' \<and> lm_cnt q' = lm_cnt q
      | None \<Rightarrow> mq_get bt q m ms = Some (q, ms, NULL))"
proof -
  have q: "queue_at ms (hq_head q) (hq_tail q) hs" "queue_at ms (lq_head q) (lq_tail q) ls"
    using p by (simp_all add: mq_parts_def)
  note h = mq_real_get_queue [OF q(1), of bt m] and l = mq_real_get_queue [OF q(2), of bt m]
  have nn: "y \<noteq> NULL" if "List.find (msg_matched ms bt m) xs = Some y" "queue_at ms a b xs" for y xs a b
    using path_nonnull [of "\<lambda>a. m_next (ms a)" a xs NULL] that(2) find_SomeD [OF that(1)] unfolding queue_at_def by metis
  show ?thesis
  proof (cases "List.find (msg_matched ms bt m) hs")
    case (Some y)
    with h obtain h' t' ms' where g: "mq_real_get bt (hq_head q) (hq_tail q) m ms = Some (h', t', ms', y)"
      "queue_at ms' h' t' (remove1 y hs)" "relinked hs ms ms'" by auto
    have "mq_get bt q m ms = Some (q\<lparr>hq_head := h', hq_tail := t', msg_cnt := msg_cnt q - 1\<rparr>, ms', y)"
      using n g(1) nn [OF Some q(1)] by (simp add: mq_get_def)
    with Some g(3) mq_parts_taken(1) [OF p _ g(3,2)] find_SomeD [OF Some] show ?thesis by simp
  next
    case None
    with h have g: "mq_real_get bt (hq_head q) (hq_tail q) m ms = Some (hq_head q, hq_tail q, ms, NULL)" by simp
    show ?thesis
    proof (cases "List.find (msg_matched ms bt m) ls")
      case (Some y)
      with l obtain h' t' ms' where g2: "mq_real_get bt (lq_head q) (lq_tail q) m ms = Some (h', t', ms', y)"
        "queue_at ms' h' t' (remove1 y ls)" "relinked ls ms ms'" by auto
      have "mq_get bt q m ms = Some (q\<lparr>lq_head := h', lq_tail := t', msg_cnt := msg_cnt q - 1\<rparr>, ms', y)"
        using n g g2(1) nn [OF Some q(2)] by (simp add: mq_get_def)
      with None Some g2(3) mq_parts_taken(2) [OF p _ g2(3,2)] find_SomeD [OF Some] show ?thesis by simp
    next
      case N2: None
      with l have "mq_real_get bt (lq_head q) (lq_tail q) m ms = Some (lq_head q, lq_tail q, ms, NULL)" by simp
      with n g None N2 show ?thesis by (simp add: mq_get_def)
    qed
  qed
qed

section \<open>Properties\<close>

text \<open>Messages with the addresses 10, 20, 30, ...: 10 and 40 are of low priority, 20 is a system message, 30 has high priority.\<close>

definition some_msgs :: msgs where
  "some_msgs a = \<lparr>m_did = 130, m_sid = 131, m_daddr = 0, m_saddr = 0, m_type = 32, m_len = 0, m_data = 0,
     m_flag = (if a = 20 then 0x80 else if a = 30 then 0x40 else 0), m_rssi = 0,
     m_priority = (if a = 20 then 1 else if a = 30 then 2 else 0), m_next = 0\<rparr>"

lemma some_msgs_class: "msg_class some_msgs 10 = 0" "msg_class some_msgs 20 = 1" "msg_class some_msgs 30 = 2" "msg_class some_msgs 40 = 0"
  by (simp_all add: msg_class_def some_msgs_def flag_high_priority_def flag_system_def flag_defs)

lemma some_msgs_pri: "msg_pri some_msgs 10 = 0" "msg_pri some_msgs 20 = 1" "msg_pri some_msgs 30 = 2" "msg_pri some_msgs 40 = 0"
  by (simp_all add: msg_pri_def some_msgs_def)

text \<open>The order and the order within each key determine the sequence.\<close>

lemma stable_unique:
  fixes k :: "'a \<Rightarrow> nat"
  assumes "sorted_wrt (\<lambda>x y. k y \<le> k x) xs" "sorted_wrt (\<lambda>x y. k y \<le> k x) ys"
    and "\<And>c. filter (\<lambda>y. k y = c) xs = filter (\<lambda>y. k y = c) ys"
  shows "xs = ys"
  using assms
proof (induction xs arbitrary: ys)
  case Nil
  have "y \<notin> set ys" for y
  proof
    assume "y \<in> set ys"
    then have "y \<in> set (filter (\<lambda>z. k z = k y) ys)" by simp
    then show False unfolding Nil.prems(3) [symmetric] by simp
  qed
  then show ?case by (cases ys) auto
next
  case (Cons x xs)
  have "x \<in> set (filter (\<lambda>z. k z = k x) ys)" unfolding Cons.prems(3) [symmetric] by simp
  then have x: "x \<in> set ys" by simp
  then obtain y ys' where ys: "ys = y # ys'" by (cases ys) auto
  have "y \<in> set (filter (\<lambda>z. k z = k y) (x # xs))" unfolding Cons.prems(3) ys by simp
  then have "y \<in> set (x # xs)" by (simp split: if_splits)
  then have "k y \<le> k x" using Cons.prems(1) by auto
  moreover have "k x \<le> k y" using x Cons.prems(2) ys by auto
  ultimately have k: "k x = k y" by simp
  have xy: "x = y" using Cons.prems(3) [of "k y"] unfolding ys by (simp add: k)
  have "filter (\<lambda>y. k y = c) xs = filter (\<lambda>y. k y = c) ys'" for c
    using Cons.prems(3) [of c] unfolding ys xy by (cases "k y = c") simp_all
  then have "xs = ys'" using Cons.prems(1,2) unfolding ys by (intro Cons.IH) simp_all
  with ys xy show ?case by simp
qed

lemma out_of_order:
  assumes "sorted_wrt (\<lambda>x y. k y \<le> k x) out" "\<forall>c. filter (\<lambda>y. k y = c) out = filter (\<lambda>y. k y = c) [10, 20, 30, 40]"
    and "k 10 = 0" "k 20 = 1" "k 30 = 2" "k 40 = (0 :: nat)"
  shows "out = [30, 20, 10, 40 :: nat]"
proof (rule stable_unique [OF assms(1)])
  show "sorted_wrt (\<lambda>x y. k y \<le> k x) [30, 20, 10, 40]" using assms(3-) by simp
  show "filter (\<lambda>y. k y = c) out = filter (\<lambda>y. k y = c) [30, 20, 10, 40]" for c
    unfolding assms(2) [rule_format] by (simp add: assms(3-))
qed

text \<open>
  C4. The message queue of the build without preemption is a stable priority queue: a new
  message goes behind all messages of the same or a higher class (high priority, system, low
  priority) and before all others, and the first message of this order is the one that is taken
  out. An empty queue gives the null pointer.
\<close>

theorem mq_refines_priority_queue:
  assumes "mq_holds ms q xs" "m \<notin> set xs" "m \<noteq> NULL"
  shows "(\<exists>q' ms'. mq_enqueue q m ms = (q', ms') \<and> mq_holds ms' q' (stable_insert (msg_class ms) m xs)) \<and>
    (case xs of [] \<Rightarrow> mq_dequeue q ms = (q, NULL)
     | x # xs' \<Rightarrow> \<exists>q'. mq_dequeue q ms = (q', x) \<and> mq_holds ms q' xs')"
proof
  show "\<exists>q' ms'. mq_enqueue q m ms = (q', ms') \<and> mq_holds ms' q' (stable_insert (msg_class ms) m xs)"
    using classed.enq_law [OF assms] by auto
  show "case xs of [] \<Rightarrow> mq_dequeue q ms = (q, NULL)
     | x # xs' \<Rightarrow> \<exists>q'. mq_dequeue q ms = (q', x) \<and> mq_holds ms q' xs'"
    using assms(1) by (cases xs) (simp_all add: classed.deq_empty classed.deq_law)
qed

theorem mq_refines_priority_queue_witness:
  "\<exists>q' ms'. mq_enqueue mq_init 30 some_msgs = (q', ms') \<and> mq_holds ms' q' [30]"
  using mq_refines_priority_queue [OF mq_init_holds, of 30 some_msgs] by simp

text \<open>
  C36. Messages that are put into an empty queue come out by descending class, and messages of
  the same class in the order in which they were put in.
\<close>

theorem mq_serves_in_order:
  assumes "distinct xs" "NULL \<notin> set xs"
  shows "\<exists>q' ms' out. enqueue_all (\<lambda>q m ms. Some (mq_enqueue q m ms)) mq_init ms xs = Some (q', ms') \<and>
    dequeue_n mq_dequeue q' ms' (length xs) = out \<and> sorted_wrt (\<lambda>x y. msg_class ms y \<le> msg_class ms x) out \<and>
    (\<forall>c. filter (\<lambda>y. msg_class ms y = c) out = filter (\<lambda>y. msg_class ms y = c) xs)"
  by (rule classed.served_in_order [OF assms])

theorem mq_serves_in_order_witness:
  "\<exists>q' ms'. enqueue_all (\<lambda>q m ms. Some (mq_enqueue q m ms)) mq_init some_msgs [10, 20, 30, 40] = Some (q', ms') \<and>
    dequeue_n mq_dequeue q' ms' 4 = [30, 20, 10, 40]"
proof -
  obtain q' ms' out where o: "enqueue_all (\<lambda>q m ms. Some (mq_enqueue q m ms)) mq_init some_msgs [10, 20, 30, 40] = Some (q', ms')"
    "dequeue_n mq_dequeue q' ms' (length [10, 20, 30, 40 :: nat]) = out"
    "sorted_wrt (\<lambda>x y. msg_class some_msgs y \<le> msg_class some_msgs x) out"
    "\<forall>c. filter (\<lambda>y. msg_class some_msgs y = c) out = filter (\<lambda>y. msg_class some_msgs y = c) [10, 20, 30, 40]"
    using mq_serves_in_order [of "[10, 20, 30, 40]" some_msgs] by auto
  have "out = [30, 20, 10, 40]" by (rule out_of_order [OF o(3,4) some_msgs_class])
  moreover have "length [10, 20, 30, 40 :: nat] = 4" by simp
  ultimately show ?thesis using o(1,2) by metis
qed

text \<open>
  The message queue of the build with preemption serves messages by descending priority,
  and messages of the same priority in the order in which they were put in; the insertion into
  the sorted list returns.
\<close>

theorem mq_pre_serves_in_order:
  assumes "distinct xs" "NULL \<notin> set xs"
  shows "\<exists>q' ms' out. enqueue_all mq_enqueue_pre mq_init_pre ms xs = Some (q', ms') \<and>
    dequeue_n mq_dequeue_pre q' ms' (length xs) = out \<and> sorted_wrt (\<lambda>x y. msg_pri ms y \<le> msg_pri ms x) out \<and>
    (\<forall>c. filter (\<lambda>y. msg_pri ms y = c) out = filter (\<lambda>y. msg_pri ms y = c) xs)"
  by (rule preemptive.served_in_order [OF assms])

theorem mq_pre_serves_in_order_witness:
  "\<exists>q' ms'. enqueue_all mq_enqueue_pre mq_init_pre some_msgs [10, 20, 30, 40] = Some (q', ms') \<and>
    dequeue_n mq_dequeue_pre q' ms' 4 = [30, 20, 10, 40]"
proof -
  obtain q' ms' out where o: "enqueue_all mq_enqueue_pre mq_init_pre some_msgs [10, 20, 30, 40] = Some (q', ms')"
    "dequeue_n mq_dequeue_pre q' ms' (length [10, 20, 30, 40 :: nat]) = out"
    "sorted_wrt (\<lambda>x y. msg_pri some_msgs y \<le> msg_pri some_msgs x) out"
    "\<forall>c. filter (\<lambda>y. msg_pri some_msgs y = c) out = filter (\<lambda>y. msg_pri some_msgs y = c) [10, 20, 30, 40]"
    using mq_pre_serves_in_order [of "[10, 20, 30, 40]" some_msgs] by auto
  have "out = [30, 20, 10, 40]" by (rule out_of_order [OF o(3,4) some_msgs_pri])
  moreover have "length [10, 20, 30, 40 :: nat] = 4" by simp
  ultimately show ?thesis using o(1,2) by metis
qed

text \<open>
  \<^verbatim>\<open>mq_get\<close> returns the first message of the high priority queue that has the
  same header fields, length and data as the given one and takes exactly this message out, by a
  change of one link of this queue; if there is none, the first one of the low priority queue;
  otherwise it returns the null pointer and changes nothing. The counter of the class of the removed message keeps its old value.
\<close>

theorem mq_get_correct:
  assumes "mq_parts ms q hs ss ls" "msg_cnt q \<noteq> 0"
  shows "case List.find (msg_matched ms bt m) hs of
      Some y \<Rightarrow> \<exists>q' ms'. mq_get bt q m ms = Some (q', ms', y) \<and> mq_parts ms' q' (remove1 y hs) ss ls \<and>
        relinked hs ms ms' \<and> hm_cnt q' = hm_cnt q
    | None \<Rightarrow> (case List.find (msg_matched ms bt m) ls of
        Some y \<Rightarrow> \<exists>q' ms'. mq_get bt q m ms = Some (q', ms', y) \<and> mq_parts ms' q' hs ss (remove1 y ls) \<and>
          relinked ls ms ms' \<and> lm_cnt q' = lm_cnt q
      | None \<Rightarrow> mq_get bt q m ms = Some (q, ms, NULL))"
  by (rule mq_get_parts [OF assms])

lemma some_msgs_matched: "msg_matched some_msgs bt 40 x"
  by (simp add: msg_matched_def some_msgs_def)

text \<open>A queue of the messages 10 (low priority) and 20 (system).\<close>

definition some_queue :: mq_t where
  "some_queue = \<lparr>msg_cnt = 2, lm_cnt = 1, sm_cnt = 1, hm_cnt = 0, hq_head = 0, hq_tail = 0,
     sq_head = 20, sq_tail = 20, lq_head = 10, lq_tail = 10\<rparr>"

lemma some_queue_parts: "mq_parts some_msgs some_queue [] [20] [10]"
  using some_msgs_class by (simp add: mq_parts_def queue_at_def some_queue_def some_msgs_def)

theorem mq_get_correct_witness:
  "\<exists>q' ms'. mq_get (\<lambda>_. 0) some_queue 40 some_msgs = Some (q', ms', 10) \<and> mq_parts ms' q' [] [20] [] \<and> lm_cnt q' = 1"
proof -
  have n: "msg_cnt some_queue \<noteq> 0" "lm_cnt some_queue = 1" by (simp_all add: some_queue_def)
  have f: "List.find (msg_matched some_msgs (\<lambda>_. 0) 40) [10] = Some 10" using some_msgs_matched by simp
  show ?thesis using mq_get_correct [OF some_queue_parts n(1), of "\<lambda>_. 0" 40] unfolding f n(2) by auto
qed

text \<open>
  C37. A message that waits in the system queue is never found by \<^verbatim>\<open>mq_get\<close>: with no
  match in the other two queues the result is the null pointer, although a message that matches
  is in the queue.
\<close>

theorem mq_get_misses_system:
  assumes "mq_parts ms q hs ss ls" "x \<in> set ss" "msg_matched ms bt m x"
    and "\<forall>y \<in> set (hs @ ls). \<not> msg_matched ms bt m y"
  shows "mq_get bt q m ms = Some (q, ms, NULL)"
proof (cases "msg_cnt q = 0")
  case True
  then show ?thesis by (simp add: mq_get_def)
next
  case False
  have "List.find (msg_matched ms bt m) hs = None" "List.find (msg_matched ms bt m) ls = None"
    unfolding find_None_iff using assms(4) by auto
  with mq_get_parts [OF assms(1) False, of bt m] show ?thesis by simp
qed

definition sys_queue :: mq_t where
  "sys_queue = some_queue\<lparr>msg_cnt := 1, lm_cnt := 0, lq_head := 0\<rparr>"

lemma sys_queue_parts: "mq_parts some_msgs sys_queue [] [20] []"
  using some_msgs_class by (simp add: mq_parts_def queue_at_def sys_queue_def some_queue_def some_msgs_def)

theorem mq_get_misses_system_witness:
  "msg_matched some_msgs (\<lambda>_. 0) 40 20 \<and> mq_get (\<lambda>_. 0) sys_queue 40 some_msgs = Some (sys_queue, some_msgs, NULL)"
  using mq_get_misses_system [OF sys_queue_parts, of 20 "\<lambda>_. 0" 40] by (simp add: some_msgs_matched)

end
