(* ===== verification/Messages.thy ===== *)
theory Messages
  imports Message_Queue_Correct
begin

text \<open>
  Messages: their life from \<^verbatim>\<open>msg_create\<close> to \<^verbatim>\<open>msg_dispose\<close>
  (\<^verbatim>\<open>kernel/message_queue.c\<close>), the functions that post them
  (\<^verbatim>\<open>kernel/message.c\<close>) and the functions of \<^verbatim>\<open>kernel/sched.c\<close> that
  work on the scheduler's queue alone. The state \<open>msg_sys\<close> is the memory (heap, pools, headers,
  payload bytes), the slab of the headers, the queue \<^verbatim>\<open>schedpq\<close>, the address of the
  node and the running module. The records of the later components extend it, and the operations
  are defined for every extension.

  A result \<open>None\<close> means that the call does not return because of a corrupted list or heap,
  \<open>Panic\<close> that it ends in \<^verbatim>\<open>ker_panic\<close>, which never returns.
\<close>

section \<open>Definitions\<close>

record msg_sys =
  smem :: slab_mem
  msg_slab :: slab_t
  headers :: msgs
  bytes_of :: bytes
  schedpq :: mq_t
  node_address :: u16
  curr_pid :: sos_pid_t

definition MSG_INIT :: u8 where "MSG_INIT = 0"
definition MSG_TIMER_TIMEOUT :: u8 where "MSG_TIMER_TIMEOUT = 2"
definition MSG_PKT_SENDDONE :: u8 where "MSG_PKT_SENDDONE = 3"
definition MSG_DATA_READY :: u8 where "MSG_DATA_READY = 4"
definition MSG_FINAL :: u8 where "MSG_FINAL = 6"
definition BCAST_ADDRESS :: u16 where "BCAST_ADDRESS = 0xFFFF"
definition MSG_QUEUE_NUM_ITEMS :: u8 where "MSG_QUEUE_NUM_ITEMS = 4"

lemmas msg_type_defs = MSG_INIT_def MSG_TIMER_TIMEOUT_def MSG_PKT_SENDDONE_def MSG_DATA_READY_def MSG_FINAL_def

text \<open>A call that may panic, and what follows it.\<close>

definition continue :: "'a outcome option \<Rightarrow> ('a \<Rightarrow> 'b outcome option) \<Rightarrow> 'b outcome option" where
  "continue r f = do { x \<leftarrow> r; case x of Panic \<Rightarrow> Some Panic | Done a \<Rightarrow> f a }"

text \<open>Assignments to a header and to bytes of memory.\<close>

definition upd_msg :: "addr \<Rightarrow> (Message \<Rightarrow> Message) \<Rightarrow> 'a msg_sys_scheme \<Rightarrow> 'a msg_sys_scheme" where
  "upd_msg m f k = k\<lparr>headers := set_msg m f (headers k)\<rparr>"

fun put_bytes :: "addr \<Rightarrow> u8 list \<Rightarrow> bytes \<Rightarrow> bytes" where
  "put_bytes a [] b = b"
| "put_bytes a (x # xs) b = put_bytes (Suc a) xs (b(a := x))"

text \<open>\<^verbatim>\<open>memcpy\<close>: the source is read before anything is written.\<close>

definition copy_bytes :: "addr \<Rightarrow> addr \<Rightarrow> nat \<Rightarrow> bytes \<Rightarrow> bytes" where
  "copy_bytes dst src n b = put_bytes dst (map (\<lambda>i. b (src + i)) [0..<n]) b"

text \<open>Little-endian storage of 16 and 32 bit values.\<close>

definition word_bytes :: "u16 \<Rightarrow> u8 list" where
  "word_bytes w = [ucast w, ucast (drop_bit 8 w)]"

definition long_bytes :: "u32 \<Rightarrow> u8 list" where
  "long_bytes w = [ucast w, ucast (drop_bit 8 w), ucast (drop_bit 16 w), ucast (drop_bit 24 w)]"

definition heap_of :: "'a msg_sys_scheme \<Rightarrow> heap" where
  "heap_of k = s_heap (smem k)"

definition set_heap :: "heap \<Rightarrow> 'a msg_sys_scheme \<Rightarrow> 'a msg_sys_scheme" where
  "set_heap h k = k\<lparr>smem := (smem k)\<lparr>s_heap := h\<rparr>\<rparr>"

text \<open>The memory manager on the whole state; a caller that ignores the result of \<^verbatim>\<open>ker_change_own\<close>.\<close>

definition k_free :: "addr \<Rightarrow> 'a msg_sys_scheme \<Rightarrow> 'a msg_sys_scheme option" where
  "k_free p k = do { h \<leftarrow> ker_free p (heap_of k); Some (set_heap h k) }"

definition k_change_own :: "addr \<Rightarrow> sos_pid_t \<Rightarrow> 'a msg_sys_scheme \<Rightarrow> 'a msg_sys_scheme option" where
  "k_change_own p pid k = do { (h, r) \<leftarrow> ker_change_own p pid (heap_of k); Some (set_heap h k) }"

definition k_malloc :: "u16 \<Rightarrow> sos_pid_t \<Rightarrow> 'a msg_sys_scheme \<Rightarrow> ('a msg_sys_scheme \<times> addr) option" where
  "k_malloc sz pid k = do { (h, p) \<leftarrow> ker_malloc sz pid (heap_of k); Some (set_heap h k, p) }"

subsection \<open>Creation and disposal\<close>

definition msg_queue_init :: "'a msg_sys_scheme \<Rightarrow> ('a msg_sys_scheme \<times> int) option" where
  "msg_queue_init k = do {
     (w, s, r) \<leftarrow> ker_slab_init MSG_QUEUE_PID (msg_slab k) (of_nat MESSAGE_SIZE) MSG_QUEUE_NUM_ITEMS 0 (smem k);
     Some (k\<lparr>smem := w, msg_slab := s\<rparr>, 0)
   }"

definition msg_create :: "'a msg_sys_scheme \<Rightarrow> ('a msg_sys_scheme \<times> addr) option" where
  "msg_create k = do {
     (w, tmp) \<leftarrow> ker_slab_alloc (msg_slab k) MSG_QUEUE_PID (smem k);
     let k1 = k\<lparr>smem := w\<rparr>;
     if tmp = NULL then Some (k1, NULL)
     else Some (upd_msg tmp (\<lambda>x. x\<lparr>m_data := tmp + PAYLOAD_OFFSET, m_flag := 0\<rparr>) k1, tmp)
   }"

definition msg_dispose :: "addr \<Rightarrow> 'a msg_sys_scheme \<Rightarrow> 'a msg_sys_scheme outcome option" where
  "msg_dispose m k = do {
     k1 \<leftarrow> (if flag_msg_release (m_flag (headers k m)) then k_free (m_data (headers k m)) k else Some k);
     w \<leftarrow> ker_slab_free (msg_slab k1) m (smem k1);
     case w of Panic \<Rightarrow> Some Panic | Done w' \<Rightarrow> Some (Done (k1\<lparr>smem := w'\<rparr>))
   }"

subsection \<open>Posting\<close>

text \<open>\<^verbatim>\<open>sched_msg_alloc\<close> of the build without preemption.\<close>

definition sched_msg_alloc :: "addr \<Rightarrow> 'a msg_sys_scheme \<Rightarrow> 'a msg_sys_scheme option" where
  "sched_msg_alloc m k = do {
     k1 \<leftarrow> (if flag_msg_release (m_flag (headers k m)) then k_change_own (m_data (headers k m)) KER_SCHED_PID k
           else Some k);
     let (q, ms) = mq_enqueue (schedpq k1) m (headers k1);
     Some (k1\<lparr>headers := ms, schedpq := q\<rparr>)
   }"

text \<open>\<^verbatim>\<open>(sos_ker_flag_t)(~SOS_MSG_RELEASE)\<close>: the cast to eight bits clears the upper byte.\<close>

definition NO_RELEASE_MASK :: u16 where "NO_RELEASE_MASK = ucast (ucast (NOT SOS_MSG_RELEASE) :: u8)"

definition post_short ::
    "sos_pid_t \<Rightarrow> sos_pid_t \<Rightarrow> u8 \<Rightarrow> u8 \<Rightarrow> u16 \<Rightarrow> u16 \<Rightarrow> 'a msg_sys_scheme \<Rightarrow> ('a msg_sys_scheme \<times> int) option" where
  "post_short did sid type byte word flag k = do {
     (k1, m) \<leftarrow> msg_create k;
     if m = NULL then Some (k1, - ENOMEM)
     else do {
       let k2 = upd_msg m (\<lambda>x. x\<lparr>m_daddr := node_address k1, m_did := did, m_type := type,
                                m_saddr := node_address k1, m_sid := sid, m_len := 3\<rparr>) k1;
       let k3 = k2\<lparr>bytes_of := put_bytes (m + PAYLOAD_OFFSET) (byte # word_bytes word) (bytes_of k2)\<rparr>;
       let k4 = upd_msg m (\<lambda>x. x\<lparr>m_flag := flag AND NO_RELEASE_MASK\<rparr>) k3;
       k5 \<leftarrow> sched_msg_alloc m k4;
       Some (k5, SOS_OK)
     }
   }"

definition post_longer ::
    "sos_pid_t \<Rightarrow> sos_pid_t \<Rightarrow> u8 \<Rightarrow> u8 \<Rightarrow> addr \<Rightarrow> u16 \<Rightarrow> u16 \<Rightarrow> 'a msg_sys_scheme \<Rightarrow> ('a msg_sys_scheme \<times> int) option" where
  "post_longer did sid type len data flag saddr k = do {
     (k1, m) \<leftarrow> msg_create k;
     if m = NULL then do {
       k2 \<leftarrow> (if flag_msg_release flag then k_free data k1 else Some k1);
       Some (k2, - ENOMEM)
     } else do {
       let k2 = upd_msg m (\<lambda>x. x\<lparr>m_daddr := node_address k1, m_did := did, m_type := type, m_saddr := saddr,
                                m_sid := sid, m_len := len, m_data := data, m_flag := flag\<rparr>) k1;
       k3 \<leftarrow> sched_msg_alloc m k2;
       Some (k3, SOS_OK)
     }
   }"

definition post_long ::
    "sos_pid_t \<Rightarrow> sos_pid_t \<Rightarrow> u8 \<Rightarrow> u8 \<Rightarrow> addr \<Rightarrow> u16 \<Rightarrow> 'a msg_sys_scheme \<Rightarrow> ('a msg_sys_scheme \<times> int) option" where
  "post_long did sid type len data flag k = post_longer did sid type len data flag (node_address k) k"

text \<open>\<^verbatim>\<open>ker_mod_panic\<close> without exception handling is \<^verbatim>\<open>ker_panic\<close>.\<close>

definition ker_sys_post ::
    "sos_pid_t \<Rightarrow> u8 \<Rightarrow> u8 \<Rightarrow> addr \<Rightarrow> u16 \<Rightarrow> 'a msg_sys_scheme \<Rightarrow> ('a msg_sys_scheme \<times> int) outcome option" where
  "ker_sys_post did type sz data flag k = do {
     (k1, r) \<leftarrow> post_long did (curr_pid k) type sz data flag k;
     if r \<noteq> SOS_OK then Some Panic else Some (Done (k1, SOS_OK))
   }"

definition ker_sys_post_value ::
    "sos_pid_t \<Rightarrow> u8 \<Rightarrow> u32 \<Rightarrow> u16 \<Rightarrow> 'a msg_sys_scheme \<Rightarrow> ('a msg_sys_scheme \<times> int) outcome option" where
  "ker_sys_post_value dst type data flag k = do {
     (k1, m) \<leftarrow> msg_create k;
     if m = NULL then Some Panic
     else do {
       let k2 = upd_msg m (\<lambda>x. x\<lparr>m_daddr := node_address k1, m_did := dst, m_type := type,
                                m_saddr := node_address k1, m_sid := curr_pid k1, m_len := 4\<rparr>) k1;
       let k3 = k2\<lparr>bytes_of := put_bytes (m_data (headers k2 m)) (long_bytes data) (bytes_of k2)\<rparr>;
       let k4 = upd_msg m (\<lambda>x. x\<lparr>m_flag := flag AND NO_RELEASE_MASK\<rparr>) k3;
       k5 \<leftarrow> sched_msg_alloc m k4;
       Some (Done (k5, SOS_OK))
     }
   }"

text \<open>Taking the payload out of a message, or a copy of it.\<close>

definition ker_msg_take_data :: "sos_pid_t \<Rightarrow> addr \<Rightarrow> 'a msg_sys_scheme \<Rightarrow> ('a msg_sys_scheme \<times> addr) option" where
  "ker_msg_take_data pid msg_in k =
     (let msg = (if m_type (headers k msg_in) = MSG_PKT_SENDDONE then m_data (headers k msg_in) else msg_in)
      in if flag_msg_release (m_flag (headers k msg)) then do {
           k1 \<leftarrow> k_change_own (m_data (headers k msg)) pid k;
           let ret = m_data (headers k1 msg);
           Some (upd_msg msg (\<lambda>x. x\<lparr>m_len := 0, m_data := NULL, m_flag := m_flag x AND NOT SOS_MSG_RELEASE\<rparr>) k1, ret)
         } else do {
           (k1, ret) \<leftarrow> k_malloc (ucast (m_len (headers k msg))) pid k;
           if ret = NULL then Some (k1, NULL)
           else Some (k1\<lparr>bytes_of := copy_bytes ret (m_data (headers k1 msg)) (unat (m_len (headers k1 msg))) (bytes_of k1)\<rparr>, ret)
         })"

definition ker_sys_msg_take_data :: "addr \<Rightarrow> 'a msg_sys_scheme \<Rightarrow> ('a msg_sys_scheme \<times> addr) outcome option" where
  "ker_sys_msg_take_data msg k = do {
     (k1, ret) \<leftarrow> ker_msg_take_data (curr_pid k) msg k;
     if ret \<noteq> NULL then Some (Done (k1, ret)) else Some Panic
   }"

subsection \<open>The end of a delivery\<close>

definition msg_send_senddone :: "addr \<Rightarrow> bool \<Rightarrow> sos_pid_t \<Rightarrow> 'a msg_sys_scheme \<Rightarrow> 'a msg_sys_scheme outcome option" where
  "msg_send_senddone msg_sent succ msg_owner k =
     (if \<not> flag_msg_reliable (m_flag (headers k msg_sent)) then msg_dispose msg_sent k
      else do {
        k1 \<leftarrow> (if flag_msg_release (m_flag (headers k msg_sent)) then do {
                 k' \<leftarrow> k_free (m_data (headers k msg_sent)) k;
                 Some (upd_msg msg_sent (\<lambda>x. x\<lparr>m_flag := m_flag x AND NOT SOS_MSG_RELEASE, m_data := NULL\<rparr>) k')
               } else Some k);
        let flag = (if \<not> succ then SOS_MSG_SEND_FAIL else 0);
        (k2, r) \<leftarrow> post_long (m_sid (headers k1 msg_sent)) msg_owner MSG_PKT_SENDDONE (of_nat MESSAGE_SIZE) msg_sent flag k1;
        if r < 0 then msg_dispose msg_sent k2 else Some (Done k2)
      })"

subsection \<open>Removal of messages from the scheduler's queue\<close>

partial_function (option) sched_msg_remove :: "addr \<Rightarrow> 'a msg_sys_scheme \<Rightarrow> 'a msg_sys_scheme outcome option" where
  "sched_msg_remove m k = do {
     (q, ms, tmp) \<leftarrow> mq_get (bytes_of k) (schedpq k) m (headers k);
     let k1 = k\<lparr>headers := ms, schedpq := q\<rparr>;
     if tmp \<noteq> NULL then do {
       r \<leftarrow> msg_dispose tmp k1;
       case r of Panic \<Rightarrow> Some Panic | Done k2 \<Rightarrow> sched_msg_remove m k2
     } else Some (Done k1)
   }"

declare sched_msg_remove.simps [code]

subsection \<open>Marking for the garbage collector\<close>

partial_function (option) mark_payloads :: "msgs \<Rightarrow> sos_pid_t \<Rightarrow> addr \<Rightarrow> heap \<Rightarrow> heap option" where
  "mark_payloads ms pid m h =
     (if m = NULL then Some h
      else do {
        h1 \<leftarrow> (if flag_msg_release (m_flag (ms m)) then do { (h', r) \<leftarrow> ker_gc_mark pid (m_data (ms m)) h; Some h' }
              else Some h);
        mark_payloads ms pid (m_next (ms m)) h1
      })"

declare mark_payloads.simps [code]

definition mq_gc_mark_payload :: "mq_t \<Rightarrow> sos_pid_t \<Rightarrow> 'a msg_sys_scheme \<Rightarrow> 'a msg_sys_scheme option" where
  "mq_gc_mark_payload q pid k = do {
     h1 \<leftarrow> mark_payloads (headers k) pid (hq_head q) (heap_of k);
     h2 \<leftarrow> mark_payloads (headers k) pid (sq_head q) h1;
     h3 \<leftarrow> mark_payloads (headers k) pid (lq_head q) h2;
     Some (set_heap h3 k)
   }"

partial_function (option) mark_headers :: "slab_t \<Rightarrow> msgs \<Rightarrow> addr \<Rightarrow> slab_mem \<Rightarrow> slab_mem option" where
  "mark_headers s ms m w =
     (if m = NULL then Some w
      else do { w1 \<leftarrow> slab_gc_mark s m w; mark_headers s ms (m_next (ms m)) w1 })"

declare mark_headers.simps [code]

definition mq_gc_mark_hdr :: "mq_t \<Rightarrow> 'a msg_sys_scheme \<Rightarrow> 'a msg_sys_scheme option" where
  "mq_gc_mark_hdr q k = do {
     w1 \<leftarrow> mark_headers (msg_slab k) (headers k) (hq_head q) (smem k);
     w2 \<leftarrow> mark_headers (msg_slab k) (headers k) (sq_head q) w1;
     w3 \<leftarrow> mark_headers (msg_slab k) (headers k) (lq_head q) w2;
     Some (k\<lparr>smem := w3\<rparr>)
   }"

definition mq_gc_mark_one_hdr :: "addr \<Rightarrow> 'a msg_sys_scheme \<Rightarrow> 'a msg_sys_scheme option" where
  "mq_gc_mark_one_hdr m k = do { w \<leftarrow> slab_gc_mark (msg_slab k) m (smem k); Some (k\<lparr>smem := w\<rparr>) }"

definition sched_msg_gc :: "'a msg_sys_scheme \<Rightarrow> 'a msg_sys_scheme option" where
  "sched_msg_gc k = mq_gc_mark_hdr (schedpq k) k"

end
