(* ===== verification/Messages_Correct.thy ===== *)
theory Messages_Correct
  imports Messages
begin

text \<open>
  The ownership of messages and payloads. The invariant \<open>mq_inv k ps L xs\<close> says that the slab of
  the headers is well-formed with the pools \<open>ps\<close>, that \<open>L\<close> is a set of headers in use, that the
  scheduler's queue holds the sequence \<open>xs\<close> of them, and that the payload of every message of \<open>L\<close>
  with the release flag is a chunk of its own. Posting, disposal and the removal of messages keep
  it: no payload is lost and none is freed twice.
\<close>

section \<open>The invariant\<close>

definition releases :: "'a msg_sys_scheme \<Rightarrow> addr set \<Rightarrow> addr set" where
  "releases k L = {x \<in> L. flag_msg_release (m_flag (headers k x))}"

definition payloads_ok :: "'a msg_sys_scheme \<Rightarrow> addr list \<Rightarrow> addr set \<Rightarrow> bool" where
  "payloads_ok k ps L \<longleftrightarrow>
     (\<forall>x \<in> releases k L. \<exists>n own. (m_data (headers k x), n, own) \<in> others ps (smem k)) \<and>
     inj_on (\<lambda>x. m_data (headers k x)) (releases k L)"

definition msgs_inv :: "'a msg_sys_scheme \<Rightarrow> addr list \<Rightarrow> addr set \<Rightarrow> bool" where
  "msgs_inv k ps L \<longleftrightarrow>
     slab_inv (msg_slab k) ps (smem k) \<and> slab_size (msg_slab k) = MESSAGE_SIZE \<and> L \<subseteq> slab_used (msg_slab k) ps (smem k) \<and> payloads_ok k ps L"

definition mq_inv :: "'a msg_sys_scheme \<Rightarrow> addr list \<Rightarrow> addr set \<Rightarrow> addr list \<Rightarrow> bool" where
  "mq_inv k ps L xs \<longleftrightarrow> msgs_inv k ps L \<and> mq_holds (headers k) (schedpq k) xs \<and> set xs \<subseteq> L"

text \<open>The message headers in use, and the reason for which \<^verbatim>\<open>msg_create\<close> may fail.\<close>

abbreviation headers_used :: "'a msg_sys_scheme \<Rightarrow> addr list \<Rightarrow> addr set" where
  "headers_used k ps \<equiv> slab_used (msg_slab k) ps (smem k)"

definition no_header :: "'a msg_sys_scheme \<Rightarrow> addr list \<Rightarrow> bool" where
  "no_header k ps \<longleftrightarrow> slab_full (msg_slab k) ps MSG_QUEUE_PID (smem k)"

lemma slab_used_heap [simp]: "slab_used s ps (w\<lparr>s_heap := h\<rparr>) = slab_used s ps w"
  by (simp add: slab_used_def)

text \<open>Only links differ.\<close>

definition same_fields :: "msgs \<Rightarrow> msgs \<Rightarrow> bool" where
  "same_fields ms ms' \<longleftrightarrow> (\<forall>x. ms' x = (ms x)\<lparr>m_next := m_next (ms' x)\<rparr>)"

lemma same_fieldsD:
  assumes "same_fields ms ms'"
  shows "m_did (ms' x) = m_did (ms x)" "m_sid (ms' x) = m_sid (ms x)" "m_daddr (ms' x) = m_daddr (ms x)"
    "m_saddr (ms' x) = m_saddr (ms x)" "m_type (ms' x) = m_type (ms x)" "m_len (ms' x) = m_len (ms x)"
    "m_data (ms' x) = m_data (ms x)" "m_flag (ms' x) = m_flag (ms x)"
proof -
  have "ms' x = (ms x)\<lparr>m_next := m_next (ms' x)\<rparr>" using assms by (simp add: same_fields_def)
  then have "f (ms' x) = f ((ms x)\<lparr>m_next := m_next (ms' x)\<rparr>)" for f :: "Message \<Rightarrow> 'a" by (rule arg_cong)
  note e = arg_cong [OF \<open>ms' x = (ms x)\<lparr>m_next := m_next (ms' x)\<rparr>\<close>]
  show "m_did (ms' x) = m_did (ms x)" using e [of m_did] by simp
  show "m_sid (ms' x) = m_sid (ms x)" using e [of m_sid] by simp
  show "m_daddr (ms' x) = m_daddr (ms x)" using e [of m_daddr] by simp
  show "m_saddr (ms' x) = m_saddr (ms x)" using e [of m_saddr] by simp
  show "m_type (ms' x) = m_type (ms x)" using e [of m_type] by simp
  show "m_len (ms' x) = m_len (ms x)" using e [of m_len] by simp
  show "m_data (ms' x) = m_data (ms x)" using e [of m_data] by simp
  show "m_flag (ms' x) = m_flag (ms x)" using e [of m_flag] by simp
qed

lemma same_fields_refl [simp]: "same_fields ms ms"
  by (simp add: same_fields_def)

lemma same_fields_set_next [simp]: "same_fields ms (set_msg p (\<lambda>x. x\<lparr>m_next := v\<rparr>) ms)"
  by (simp add: same_fields_def set_msg_def)

lemma same_fields_trans: "same_fields a b \<Longrightarrow> same_fields b c \<Longrightarrow> same_fields a c"
  unfolding same_fields_def by (metis (no_types, lifting) Message.surjective Message.update_convs(11))

lemma same_fields_link_behind: "same_fields ms (link_behind h t m ms)"
  unfolding link_behind_def
  by (simp, intro impI, rule same_fields_trans [OF same_fields_set_next same_fields_set_next])

lemma same_fields_enqueue: "mq_enqueue q m ms = (q', ms') \<Longrightarrow> same_fields ms ms'"
  using mq_enqueue_cases [of q m ms q' ms'] msg_class_range [of ms m] same_fields_link_behind by metis

lemma mq_holds_cong:
  assumes "\<And>x. x \<in> set xs \<Longrightarrow> ms' x = ms x"
  shows "mq_holds ms' q xs = mq_holds ms q xs"
proof -
  have q: "queue_at ms' h t zs = queue_at ms h t zs" if "set zs \<subseteq> set xs" for h t zs
  proof -
    have "path (\<lambda>a. m_next (ms' a)) h zs NULL = path (\<lambda>a. m_next (ms a)) h zs NULL"
      by (rule path_cong) (use assms that in auto)
    then show ?thesis by (simp add: queue_at_def)
  qed
  have c: "msg_class ms' x = msg_class ms x" if "x \<in> set xs" for x using assms [OF that] by (simp add: msg_class_def)
  have "mq_parts ms' q hs ss ls = mq_parts ms q hs ss ls" if xs: "xs = hs @ ss @ ls" for hs ss ls
  proof -
    have s: "set hs \<subseteq> set xs" "set ss \<subseteq> set xs" "set ls \<subseteq> set xs" using xs by auto
    have "(\<forall>x \<in> set zs. msg_class ms' x = c) = (\<forall>x \<in> set zs. msg_class ms x = c)" if "set zs \<subseteq> set xs" for zs c
      by (rule ball_cong) (use that c in auto)
    then show ?thesis unfolding mq_parts_def q [OF s(1)] q [OF s(2)] q [OF s(3)] using s by simp
  qed
  then show ?thesis unfolding mq_holds_def by (intro ex_cong1 conj_cong refl)
qed

lemma upd_msg_simps [simp]:
  "smem (upd_msg m f k) = smem k" "msg_slab (upd_msg m f k) = msg_slab k" "schedpq (upd_msg m f k) = schedpq k"
  "node_address (upd_msg m f k) = node_address k" "curr_pid (upd_msg m f k) = curr_pid k" "bytes_of (upd_msg m f k) = bytes_of k"
  "headers (upd_msg m f k) = (headers k)(m := f (headers k m))"
  by (simp_all add: upd_msg_def set_msg_def)

lemma set_heap_simps [simp]:
  "smem (set_heap h k) = (smem k)\<lparr>s_heap := h\<rparr>" "msg_slab (set_heap h k) = msg_slab k" "schedpq (set_heap h k) = schedpq k"
  "node_address (set_heap h k) = node_address k" "curr_pid (set_heap h k) = curr_pid k" "bytes_of (set_heap h k) = bytes_of k"
  "headers (set_heap h k) = headers k"
  by (simp_all add: set_heap_def)

lemma payloads_cong:
  assumes "\<And>x. x \<in> L \<Longrightarrow> m_flag (headers k' x) = m_flag (headers k x) \<and> m_data (headers k' x) = m_data (headers k x)"
    and "others ps' (smem k') = others ps (smem k)"
  shows "payloads_ok k' ps' L = payloads_ok k ps L"
proof -
  have "releases k' L = releases k L" using assms(1) by (auto simp: releases_def)
  moreover have "m_data (headers k' x) = m_data (headers k x)" if "x \<in> releases k L" for x
    using that assms(1) by (simp add: releases_def)
  moreover have "inj_on (\<lambda>x. m_data (headers k' x)) (releases k L) = inj_on (\<lambda>x. m_data (headers k x)) (releases k L)"
    by (rule inj_on_cong) (rule calculation(2))
  ultimately show ?thesis unfolding payloads_ok_def assms(2) by simp
qed

section \<open>Creation\<close>

lemma msg_create_law:
  assumes inv: "msgs_inv k ps L"
  shows "\<exists>w m ps'. slab_inv (msg_slab k) ps' w \<and> others ps' w = others ps (smem k) \<and> 
    (if m = NULL then ps' = ps \<and> msg_create k = Some (k\<lparr>smem := w\<rparr>, NULL) \<and>
       slab_used (msg_slab k) ps w = slab_used (msg_slab k) ps (smem k) \<and> no_header k ps
     else m \<notin> slab_used (msg_slab k) ps (smem k) \<and>
       slab_used (msg_slab k) ps' w = insert m (slab_used (msg_slab k) ps (smem k)) \<and>
       msg_create k = Some (upd_msg m (\<lambda>x. x\<lparr>m_data := m + PAYLOAD_OFFSET, m_flag := 0\<rparr>) (k\<lparr>smem := w\<rparr>), m))"
proof -
  have s: "slab_inv (msg_slab k) ps (smem k)" using inv by (simp add: msgs_inv_def)
  obtain w m ps' where a: "ker_slab_alloc (msg_slab k) MSG_QUEUE_PID (smem k) = Some (w, m)"
    "slab_inv (msg_slab k) ps' w" "others ps' w = others ps (smem k)"
    "if m = NULL then ps' = ps \<and> slab_used (msg_slab k) ps w = slab_used (msg_slab k) ps (smem k) \<and> no_header k ps
     else m \<notin> slab_used (msg_slab k) ps (smem k) \<and> slab_used (msg_slab k) ps' w = insert m (slab_used (msg_slab k) ps (smem k))"
    using slab_alloc_law [OF s, of MSG_QUEUE_PID] unfolding no_header_def by (metis (no_types, lifting))
  then show ?thesis by (intro exI [of _ w] exI [of _ m] exI [of _ ps']) (simp add: msg_create_def)
qed

text \<open>The invariant after a creation, with any values in the fields of the new header.\<close>

lemma msgs_inv_fail:
  assumes "msgs_inv k ps L" "slab_inv (msg_slab k) ps w" "others ps w = others ps (smem k)"
    "slab_used (msg_slab k) ps w = slab_used (msg_slab k) ps (smem k)"
  shows "msgs_inv (k\<lparr>smem := w\<rparr>) ps L"
  using assms payloads_cong [of L "k\<lparr>smem := w\<rparr>" k ps ps] by (simp add: msgs_inv_def)

lemma flag_release_0 [simp]: "\<not> flag_msg_release 0"
  by (simp add: flag_msg_release_def)

lemma msgs_inv_new:
  assumes inv: "msgs_inv k ps L" and w: "slab_inv (msg_slab k) ps' (smem k')" "others ps' (smem k') = others ps (smem k)"
      "slab_used (msg_slab k) ps' (smem k') = insert m (slab_used (msg_slab k) ps (smem k))" "m \<notin> slab_used (msg_slab k) ps (smem k)"
    and k': "msg_slab k' = msg_slab k" "headers k' = (headers k)(m := x)"
    and pay: "flag_msg_release (m_flag x) \<Longrightarrow>
      (\<exists>n own. (m_data x, n, own) \<in> others ps (smem k)) \<and> m_data x \<notin> (\<lambda>y. m_data (headers k y)) ` releases k L"
  shows "msgs_inv k' ps' (insert m L)"
proof -
  have mL: "m \<notin> L" using inv w(4) by (auto simp: msgs_inv_def)
  have r: "releases k' (insert m L) = (if flag_msg_release (m_flag x) then insert m (releases k L) else releases k L)"
    using mL by (auto simp: releases_def k'(2))
  have d: "m_data (headers k' y) = m_data (headers k y)" if "y \<in> releases k L" for y
    using that mL by (auto simp: releases_def k'(2))
  have "m \<notin> releases k L" using mL by (simp add: releases_def)
  have p: "payloads_ok k ps L" using inv by (simp add: msgs_inv_def)
  have i: "inj_on (\<lambda>y. m_data (headers k' y)) (releases k L) = inj_on (\<lambda>y. m_data (headers k y)) (releases k L)"
    by (rule inj_on_cong) (rule d)
  have im: "(\<lambda>y. m_data (headers k' y)) ` releases k L = (\<lambda>y. m_data (headers k y)) ` releases k L"
    by (rule image_cong) (simp_all add: d)
  have "payloads_ok k' ps' (insert m L)"
  proof (cases "flag_msg_release (m_flag x)")
    case True
    have "m_data (headers k' m) = m_data x" by (simp add: k'(2))
    then have "inj_on (\<lambda>y. m_data (headers k' y)) (insert m (releases k L))"
      using pay [OF True] p \<open>m \<notin> releases k L\<close> unfolding inj_on_insert i payloads_ok_def by (simp add: im)
    then show ?thesis using True p pay [OF True] unfolding payloads_ok_def r w(2) by (auto simp: d k'(2))
  next
    case False
    then show ?thesis using p i unfolding payloads_ok_def r w(2) by (auto simp: d)
  qed
  then show ?thesis using inv w k'(1) by (auto simp: msgs_inv_def)
qed

section \<open>Posting\<close>

text \<open>A change of the owner of one payload.\<close>

lemma k_change_own_law:
  assumes inv: "msgs_inv k ps L" and c: "(p, n, own) \<in> others ps (smem k)" and pid: "pid \<noteq> NULL_PID"
  shows "\<exists>h. k_change_own p pid k = Some (set_heap h k) \<and> msgs_inv (set_heap h k) ps L \<and>
    others ps (smem (set_heap h k)) = insert (p, n, pid) (others ps (smem k) - {(p, n, own)})"
proof -
  have s: "slab_inv (msg_slab k) ps (smem k)" using inv by (simp add: msgs_inv_def)
  obtain h where h: "ker_change_own p pid (heap_of k) = Some (h, SOS_OK)" "slab_inv (msg_slab k) ps ((smem k)\<lparr>s_heap := h\<rparr>)"
    "slab_used (msg_slab k) ps ((smem k)\<lparr>s_heap := h\<rparr>) = slab_used (msg_slab k) ps (smem k)"
    "others ps ((smem k)\<lparr>s_heap := h\<rparr>) = insert (p, n, pid) (others ps (smem k) - {(p, n, own)})"
    using slab_other_own [OF s c pid] unfolding heap_of_def by blast
  have "releases (set_heap h k) L = releases k L" by (simp add: releases_def)
  moreover have "\<exists>n' own'. (a, n', own') \<in> others ps (smem (set_heap h k))" if a: "\<exists>n' own'. (a, n', own') \<in> others ps (smem k)" for a
  proof -
    obtain n' own' where "(a, n', own') \<in> others ps (smem k)" using a by blast
    then show ?thesis unfolding set_heap_simps h(4) by (cases "(a, n', own') = (p, n, own)") auto
  qed
  ultimately have "payloads_ok (set_heap h k) ps L" using inv by (simp add: payloads_ok_def msgs_inv_def)
  then have "msgs_inv (set_heap h k) ps L" using inv h(2,3) by (simp add: msgs_inv_def)
  with h(1,4) show ?thesis by (intro exI [of _ h]) (simp add: k_change_own_def)
qed

lemma image_replace: "c \<in> A \<Longrightarrow> f b = f c \<Longrightarrow> f ` insert b (A - {c}) = f ` A"
  by (auto simp: image_iff)

lemma KER_SCHED_PID_ok [simp]: "KER_SCHED_PID \<noteq> NULL_PID"
  by (simp add: pid_defs)

lemma msgs_inv_relink:
  assumes "msgs_inv k ps L" "same_fields (headers k) ms"
  shows "msgs_inv (k\<lparr>headers := ms, schedpq := q\<rparr>) ps L"
  using assms payloads_cong [of L "k\<lparr>headers := ms, schedpq := q\<rparr>" k ps ps] same_fieldsD [OF assms(2)]
  by (simp add: msgs_inv_def)

lemma sched_msg_alloc_law:
  assumes inv: "msgs_inv k ps L" and q: "mq_holds (headers k) (schedpq k) xs" and m: "m \<in> L" "m \<notin> set xs" "m \<noteq> NULL"
  shows "\<exists>k'. sched_msg_alloc m k = Some k' \<and> msgs_inv k' ps L \<and> same_fields (headers k) (headers k') \<and>
    mq_holds (headers k') (schedpq k') (stable_insert (msg_class (headers k)) m xs) \<and>
    node_address k' = node_address k \<and> curr_pid k' = curr_pid k \<and> bytes_of k' = bytes_of k \<and> msg_slab k' = msg_slab k \<and>
    fst ` others ps (smem k') = fst ` others ps (smem k) \<and>
    (flag_msg_release (m_flag (headers k m)) \<longrightarrow> (\<exists>n. (m_data (headers k m), n, KER_SCHED_PID) \<in> others ps (smem k'))) \<and>
    headers_used k' ps = headers_used k ps"
proof -
  let ?d = "m_data (headers k m)"
  obtain k1 where k1: "(if flag_msg_release (m_flag (headers k m)) then k_change_own ?d KER_SCHED_PID k else Some k) = Some k1"
    "msgs_inv k1 ps L" "headers k1 = headers k" "schedpq k1 = schedpq k" "node_address k1 = node_address k"
    "curr_pid k1 = curr_pid k" "bytes_of k1 = bytes_of k" "msg_slab k1 = msg_slab k"
    "fst ` others ps (smem k1) = fst ` others ps (smem k)"
    "flag_msg_release (m_flag (headers k m)) \<longrightarrow> (\<exists>n. (?d, n, KER_SCHED_PID) \<in> others ps (smem k1))"
    "headers_used k1 ps = headers_used k ps"
  proof (cases "flag_msg_release (m_flag (headers k m))")
    case False
    with that [of k] inv show ?thesis by simp
  next
    case True
    then have "m \<in> releases k L" using m(1) by (simp add: releases_def)
    then obtain n own where c: "(?d, n, own) \<in> others ps (smem k)" using inv by (auto simp: msgs_inv_def payloads_ok_def)
    obtain h where h: "k_change_own ?d KER_SCHED_PID k = Some (set_heap h k)" "msgs_inv (set_heap h k) ps L"
      "others ps (smem (set_heap h k)) = insert (?d, n, KER_SCHED_PID) (others ps (smem k) - {(?d, n, own)})"
      using k_change_own_law [OF inv c KER_SCHED_PID_ok] by blast
    have "fst ` others ps (smem (set_heap h k)) = fst ` others ps (smem k)"
      unfolding h(3) by (rule image_replace [OF c]) simp
    moreover have "\<exists>n. (?d, n, KER_SCHED_PID) \<in> others ps (smem (set_heap h k))" unfolding h(3) by blast
    ultimately show ?thesis using True h(1,2) by (intro that [of "set_heap h k"]) simp_all
  qed
  obtain q' ms where e: "mq_enqueue (schedpq k) m (headers k) = (q', ms)" by fastforce
  have sf: "same_fields (headers k) ms" by (rule same_fields_enqueue [OF e])
  have "mq_holds ms q' (stable_insert (msg_class (headers k)) m xs)"
    using classed.enq_law [OF q m(2,3)] e by auto
  moreover have "msgs_inv (k1\<lparr>headers := ms, schedpq := q'\<rparr>) ps L"
    using msgs_inv_relink [OF k1(2)] sf k1(3) by simp
  moreover have "sched_msg_alloc m k = Some (k1\<lparr>headers := ms, schedpq := q'\<rparr>)"
    unfolding sched_msg_alloc_def k1(1) using e k1(3,4) by simp
  ultimately show ?thesis using k1 sf by (intro exI [of _ "k1\<lparr>headers := ms, schedpq := q'\<rparr>"]) simp
qed

lemma k_free_law:
  assumes inv: "slab_inv (msg_slab k) ps (smem k)" and c: "(p, n, own) \<in> others ps (smem k)"
  shows "\<exists>h. k_free p k = Some (set_heap h k) \<and> slab_inv (msg_slab k) ps (smem (set_heap h k)) \<and>
    slab_used (msg_slab k) ps (smem (set_heap h k)) = slab_used (msg_slab k) ps (smem k) \<and>
    others ps (smem (set_heap h k)) = others ps (smem k) - {(p, n, own)}"
  using slab_other_free [OF inv c] unfolding k_free_def heap_of_def by fastforce

lemma others_inj: "inj_on fst (others ps w)"
proof (rule inj_onI)
  fix c c' assume c: "c \<in> others ps w" "c' \<in> others ps w" "fst c = fst c'"
  obtain p n x m y where "c = (p, n, x)" "c' = (p, m, y)" using c(3) by (cases c; cases c') auto
  with c(1,2) chunks_disjoint [of p n x "s_heap w" p m y] show "c = c'" by (simp add: others_def)
qed

lemma payload_freed:
  assumes "c \<in> others ps w"
  shows "fst ` (others ps w - {c}) = fst ` others ps w - {fst c}"
  using inj_on_image_set_diff [OF others_inj [of ps w], of "others ps w" "{c}"] assms by simp

text \<open>A payload that belongs to no message can be freed.\<close>

lemma msgs_inv_free:
  assumes inv: "msgs_inv k ps L" and c: "(p, n, own) \<in> others ps (smem k)"
    and p: "p \<notin> (\<lambda>y. m_data (headers k y)) ` releases k L"
  shows "\<exists>h. k_free p k = Some (set_heap h k) \<and> msgs_inv (set_heap h k) ps L \<and>
    others ps (smem (set_heap h k)) = others ps (smem k) - {(p, n, own)}"
proof -
  have s: "slab_inv (msg_slab k) ps (smem k)" using inv by (simp add: msgs_inv_def)
  obtain h where h: "k_free p k = Some (set_heap h k)" "slab_inv (msg_slab k) ps (smem (set_heap h k))"
    "slab_used (msg_slab k) ps (smem (set_heap h k)) = slab_used (msg_slab k) ps (smem k)"
    "others ps (smem (set_heap h k)) = others ps (smem k) - {(p, n, own)}"
    using k_free_law [OF s c] by blast
  have r: "releases (set_heap h k) L = releases k L" by (simp add: releases_def)
  have "\<exists>n' own'. (m_data (headers k x), n', own') \<in> others ps (smem k) - {(p, n, own)}" if x: "x \<in> releases k L" for x
  proof -
    have "m_data (headers k x) \<noteq> p" using p x by blast
    moreover obtain n' own' where "(m_data (headers k x), n', own') \<in> others ps (smem k)"
      using inv x by (auto simp: msgs_inv_def payloads_ok_def)
    ultimately show ?thesis by auto
  qed
  then have "payloads_ok (set_heap h k) ps L"
    using inv unfolding payloads_ok_def r h(4) msgs_inv_def by simp
  with inv h show ?thesis by (intro exI [of _ h]) (simp add: msgs_inv_def)
qed

text \<open>What a payload must be when it is posted with the release flag.\<close>

definition postable :: "'a msg_sys_scheme \<Rightarrow> addr list \<Rightarrow> addr set \<Rightarrow> u16 \<Rightarrow> addr \<Rightarrow> bool" where
  "postable k ps L flag data \<longleftrightarrow> (flag_msg_release flag \<longrightarrow>
     (\<exists>n own. (data, n, own) \<in> others ps (smem k)) \<and> data \<notin> (\<lambda>y. m_data (headers k y)) ` releases k L)"

text \<open>
  The result of posting: the message \<open>m\<close> is new and stands in the queue behind the messages of
  its class, the other messages are as before, the payload now belongs to the scheduler, the
  chunks in use are the same, and its header is the only one that is now in use besides those before.
\<close>

definition posted :: "'a msg_sys_scheme \<Rightarrow> addr list \<Rightarrow> addr set \<Rightarrow> addr list \<Rightarrow> addr \<Rightarrow> 'a msg_sys_scheme \<Rightarrow> bool" where
  "posted k ps L xs m k' \<longleftrightarrow> m \<notin> L \<and> m \<noteq> NULL \<and>
     (\<forall>x \<in> L. headers k' x = (headers k x)\<lparr>m_next := m_next (headers k' x)\<rparr>) \<and>
     (\<exists>ps'. mq_inv k' ps' (insert m L) (stable_insert (msg_class (headers k')) m xs) \<and>
       fst ` others ps' (smem k') = fst ` others ps (smem k) \<and>
       (flag_msg_release (m_flag (headers k' m)) \<longrightarrow>
         (\<exists>n. (m_data (headers k' m), n, KER_SCHED_PID) \<in> others ps' (smem k'))) \<and>
       m \<notin> headers_used k ps \<and> headers_used k' ps' = insert m (headers_used k ps))"

lemma msg_class_same:
  assumes "same_fields ms ms'"
  shows "msg_class ms' = msg_class ms"
  by (simp add: msg_class_def same_fieldsD [OF assms] fun_eq_iff)

lemma post_core:
  assumes inv: "mq_inv k ps L xs" and w: "slab_inv (msg_slab k) ps' w" "others ps' w = others ps (smem k)"
      "slab_used (msg_slab k) ps' w = insert m (slab_used (msg_slab k) ps (smem k))" "m \<notin> slab_used (msg_slab k) ps (smem k)"
    and m: "m \<noteq> NULL" and k2: "smem k2 = w" "msg_slab k2 = msg_slab k" "schedpq k2 = schedpq k" "headers k2 = (headers k)(m := x)"
    and pay: "postable k ps L (m_flag x) (m_data x)"
  shows "\<exists>k'. sched_msg_alloc m k2 = Some k' \<and> posted k ps L xs m k' \<and> same_fields (headers k2) (headers k') \<and>
    node_address k' = node_address k2 \<and> curr_pid k' = curr_pid k2 \<and> bytes_of k' = bytes_of k2"
proof -
  have inv': "msgs_inv k ps L" "mq_holds (headers k) (schedpq k) xs" "set xs \<subseteq> L" using inv by (simp_all add: mq_inv_def)
  have mL: "m \<notin> L" using inv'(1) w(4) by (auto simp: msgs_inv_def)
  have i2: "msgs_inv k2 ps' (insert m L)"
    by (rule msgs_inv_new [OF inv'(1) w(1-4) [folded k2(1)] k2(2,4)]) (use pay in \<open>simp add: postable_def\<close>)
  have q2: "mq_holds (headers k2) (schedpq k2) xs"
    unfolding k2(3,4) by (subst mq_holds_cong [of xs _ "headers k"]) (use inv'(2,3) mL in auto)
  have "m \<notin> set xs" using mL inv'(3) by auto
  then obtain k' where k': "sched_msg_alloc m k2 = Some k'" "msgs_inv k' ps' (insert m L)" "same_fields (headers k2) (headers k')"
    "mq_holds (headers k') (schedpq k') (stable_insert (msg_class (headers k2)) m xs)"
    "node_address k' = node_address k2" "curr_pid k' = curr_pid k2" "bytes_of k' = bytes_of k2"
    "fst ` others ps' (smem k') = fst ` others ps' (smem k2)"
    "flag_msg_release (m_flag (headers k2 m)) \<longrightarrow> (\<exists>n. (m_data (headers k2 m), n, KER_SCHED_PID) \<in> others ps' (smem k'))"
    "msg_slab k' = msg_slab k2" "headers_used k' ps' = headers_used k2 ps'"
    using sched_msg_alloc_law [OF i2 q2 insertI1 _ m] by blast
  have used: "m \<notin> headers_used k ps" "headers_used k' ps' = insert m (headers_used k ps)"
    using k'(11) w(3,4) k2(1,2) by simp_all
  have "mq_inv k' ps' (insert m L) (stable_insert (msg_class (headers k')) m xs)"
    using k'(2,4) inv'(3) unfolding mq_inv_def msg_class_same [OF k'(3)] by auto
  moreover have "headers k' y = (headers k y)\<lparr>m_next := m_next (headers k' y)\<rparr>" if "y \<in> L" for y
    using k'(3) mL that unfolding same_fields_def k2(4) by (metis fun_upd_other)
  ultimately have "posted k ps L xs m k'"
    unfolding posted_def using mL m k'(8,9) w(2) same_fieldsD [OF k'(3)] k2(1) used by (intro conjI exI [of _ ps']) auto
  with k' show ?thesis by blast
qed

lemma mq_inv_fail:
  assumes "mq_inv k ps L xs" "slab_inv (msg_slab k) ps w" "others ps w = others ps (smem k)"
    "slab_used (msg_slab k) ps w = slab_used (msg_slab k) ps (smem k)"
  shows "mq_inv (k\<lparr>smem := w\<rparr>) ps L xs"
  using assms msgs_inv_fail [of k ps L w] by (simp add: mq_inv_def)

lemma post_longer_law:
  assumes inv: "mq_inv k ps L xs" and pay: "postable k ps L flag data"
  shows "\<exists>k' r. post_longer did sid type len data flag saddr k = Some (k', r) \<and>
    (if r = SOS_OK then
       \<exists>m. posted k ps L xs m k' \<and> m_did (headers k' m) = did \<and> m_sid (headers k' m) = sid \<and>
         m_type (headers k' m) = type \<and> m_len (headers k' m) = len \<and> m_data (headers k' m) = data \<and>
         m_flag (headers k' m) = flag \<and> m_daddr (headers k' m) = node_address k \<and> m_saddr (headers k' m) = saddr
     else r = - ENOMEM \<and> mq_inv k' ps L xs \<and> headers k' = headers k \<and>
       fst ` others ps (smem k') = fst ` others ps (smem k) - (if flag_msg_release flag then {data} else {}) \<and>
       headers_used k' ps = headers_used k ps \<and> no_header k ps)"
proof -
  have inv': "msgs_inv k ps L" using inv by (simp add: mq_inv_def)
  obtain w m ps' where c: "slab_inv (msg_slab k) ps' w" "others ps' w = others ps (smem k)"
    "if m = NULL then ps' = ps \<and> msg_create k = Some (k\<lparr>smem := w\<rparr>, NULL) \<and>
       slab_used (msg_slab k) ps w = slab_used (msg_slab k) ps (smem k) \<and> no_header k ps
     else m \<notin> slab_used (msg_slab k) ps (smem k) \<and>
       slab_used (msg_slab k) ps' w = insert m (slab_used (msg_slab k) ps (smem k)) \<and>
       msg_create k = Some (upd_msg m (\<lambda>x. x\<lparr>m_data := m + PAYLOAD_OFFSET, m_flag := 0\<rparr>) (k\<lparr>smem := w\<rparr>), m)"
    using msg_create_law [OF inv'] by blast
  show ?thesis
  proof (cases "m = NULL")
    case True
    let ?k = "k\<lparr>smem := w\<rparr>"
    have c': "ps' = ps" "msg_create k = Some (?k, NULL)" "slab_used (msg_slab k) ps w = slab_used (msg_slab k) ps (smem k)"
      "no_header k ps"
      using c(3) True by simp_all
    have i: "mq_inv ?k ps L xs" using mq_inv_fail [OF inv _ _ c'(3)] c(1,2) c'(1) by simp
    show ?thesis
    proof (cases "flag_msg_release flag")
      case False
      then have "post_longer did sid type len data flag saddr k = Some (?k, - ENOMEM)"
        using c'(2) by (simp add: post_longer_def)
      with i False c(2) c'(1,3,4) show ?thesis by (intro exI [of _ ?k] exI [of _ "- ENOMEM"]) (simp add: errno_defs)
    next
      case rel: True
      then obtain n own where d: "(data, n, own) \<in> others ps (smem ?k)" "data \<notin> (\<lambda>y. m_data (headers ?k y)) ` releases ?k L"
        using pay c(2) c'(1) by (auto simp: postable_def releases_def)
      have "msgs_inv ?k ps L" using i by (simp add: mq_inv_def)
      from msgs_inv_free [OF this d] obtain h where h: "k_free data ?k = Some (set_heap h ?k)"
        "msgs_inv (set_heap h ?k) ps L" "others ps (smem (set_heap h ?k)) = others ps (smem ?k) - {(data, n, own)}" by blast
      have "fst ` (others ps (smem ?k) - {(data, n, own)}) = fst ` others ps (smem ?k) - {data}"
        using payload_freed [OF d(1)] by simp
      then have "fst ` others ps (smem (set_heap h ?k)) = fst ` others ps (smem k) - {data}"
        unfolding h(3) using c(2) c'(1) by simp
      moreover have "mq_inv (set_heap h ?k) ps L xs" using h(2) i by (simp add: mq_inv_def)
      moreover have "post_longer did sid type len data flag saddr k = Some (set_heap h ?k, - ENOMEM)"
        using c'(2) rel h(1) by (simp add: post_longer_def)
      ultimately show ?thesis using rel c'(3,4) by (intro exI [of _ "set_heap h ?k"] exI [of _ "- ENOMEM"]) (simp add: errno_defs)
    qed
  next
    case False
    let ?k = "upd_msg m (\<lambda>x. x\<lparr>m_data := m + PAYLOAD_OFFSET, m_flag := 0\<rparr>) (k\<lparr>smem := w\<rparr>)"
    let ?f = "\<lambda>x. x\<lparr>m_daddr := node_address k, m_did := did, m_type := type, m_saddr := saddr,
                    m_sid := sid, m_len := len, m_data := data, m_flag := flag\<rparr>"
    let ?k2 = "upd_msg m ?f ?k"
    have c': "m \<notin> slab_used (msg_slab k) ps (smem k)" "slab_used (msg_slab k) ps' w = insert m (slab_used (msg_slab k) ps (smem k))"
      "msg_create k = Some (?k, m)"
      using c(3) False by simp_all
    obtain k' where k': "sched_msg_alloc m ?k2 = Some k'" "posted k ps L xs m k'" "same_fields (headers ?k2) (headers k')"
      using post_core [OF inv c(1,2) c'(2,1) False, of ?k2 "headers ?k2 m"] pay by auto
    have "post_longer did sid type len data flag saddr k = Some (k', SOS_OK)"
      using c'(3) k'(1) False by (simp add: post_longer_def)
    with k'(2) same_fieldsD [OF k'(3), of m] show ?thesis
      by (intro exI [of _ k'] exI [of _ SOS_OK]) auto
  qed
qed

section \<open>Disposal\<close>

lemma msgs_inv_without:
  assumes "msgs_inv k ps L"
  shows "msgs_inv k ps (L - {m})"
proof -
  have "releases k (L - {m}) \<subseteq> releases k L" by (auto simp: releases_def)
  then show ?thesis using assms inj_on_subset by (fastforce simp: msgs_inv_def payloads_ok_def)
qed

lemma msg_dispose_law:
  assumes inv: "msgs_inv k ps L" and m: "m \<in> L"
  shows "\<exists>w ps'. msg_dispose m k = Some (Done (k\<lparr>smem := w\<rparr>)) \<and> msgs_inv (k\<lparr>smem := w\<rparr>) ps' (L - {m}) \<and>
    slab_used (msg_slab k) ps' w = slab_used (msg_slab k) ps (smem k) - {m} \<and>
    fst ` others ps' w =
      fst ` others ps (smem k) - (if flag_msg_release (m_flag (headers k m)) then {m_data (headers k m)} else {})"
proof -
  let ?d = "m_data (headers k m)" and ?rel = "flag_msg_release (m_flag (headers k m))"
  note inv1 = msgs_inv_without [OF inv, of m]
  obtain w1 where w1: "(if ?rel then k_free ?d k else Some k) = Some (k\<lparr>smem := w1\<rparr>)" "msgs_inv (k\<lparr>smem := w1\<rparr>) ps (L - {m})"
    "slab_used (msg_slab k) ps w1 = slab_used (msg_slab k) ps (smem k)"
    "fst ` others ps w1 = fst ` others ps (smem k) - (if ?rel then {?d} else {})"
  proof (cases ?rel)
    case False
    with inv1 show ?thesis by (intro that [of "smem k"]) simp_all
  next
    case True
    then have r: "m \<in> releases k L" using m by (simp add: releases_def)
    then obtain n own where c: "(?d, n, own) \<in> others ps (smem k)" using inv by (auto simp: msgs_inv_def payloads_ok_def)
    have "inj_on (\<lambda>x. m_data (headers k x)) (releases k L)" using inv by (simp add: msgs_inv_def payloads_ok_def)
    then have "?d \<notin> (\<lambda>y. m_data (headers k y)) ` releases k (L - {m})"
      using r by (auto simp: inj_on_def releases_def)
    from msgs_inv_free [OF inv1 c this] obtain h where h: "k_free ?d k = Some (set_heap h k)" "msgs_inv (set_heap h k) ps (L - {m})"
      "others ps (smem (set_heap h k)) = others ps (smem k) - {(?d, n, own)}" by blast
    have "fst ` others ps (smem (set_heap h k)) = fst ` others ps (smem k) - {?d}"
      unfolding h(3) using payload_freed [OF c] by simp
    with True h(1,2) show ?thesis
      by (intro that [of "(smem k)\<lparr>s_heap := h\<rparr>"]) (simp_all add: set_heap_def slab_used_def)
  qed
  have mu: "m \<in> slab_used (msg_slab k) ps w1" using inv m w1(3) by (auto simp: msgs_inv_def)
  have s: "slab_inv (msg_slab k) ps w1" using w1(2) by (simp add: msgs_inv_def)
  obtain w ps' where w: "ker_slab_free (msg_slab k) m w1 = Some (Done w)" "slab_inv (msg_slab k) ps' w"
    "slab_used (msg_slab k) ps' w = slab_used (msg_slab k) ps w1 - {m}" "others ps' w = others ps w1"
    using slab_free_law [OF s mu] by blast
  have "msg_dispose m k = Some (Done (k\<lparr>smem := w\<rparr>))"
    unfolding msg_dispose_def w1(1) using w(1) by simp
  moreover have "msgs_inv (k\<lparr>smem := w\<rparr>) ps' (L - {m})"
    using w1(2) w payloads_cong [of "L - {m}" "k\<lparr>smem := w\<rparr>" "k\<lparr>smem := w1\<rparr>" ps' ps] by (auto simp: msgs_inv_def)
  ultimately show ?thesis using w1(3,4) w(3,4) by (intro exI [of _ w] exI [of _ ps']) simp
qed

lemma mq_holds_distinct: "mq_holds ms q xs \<Longrightarrow> distinct xs"
  by (auto simp: mq_holds_def mq_parts_def)

lemma mq_inv_dequeue:
  assumes inv: "mq_inv k ps L (x # xs)" and d: "mq_dequeue (schedpq k) (headers k) = (q, m)"
  shows "m = x \<and> x \<in> L \<and> x \<notin> set xs \<and> mq_inv (k\<lparr>schedpq := q\<rparr>) ps L xs"
proof -
  have h: "mq_holds (headers k) (schedpq k) (x # xs)" using inv by (simp add: mq_inv_def)
  obtain q' where "mq_dequeue (schedpq k) (headers k) = (q', x)" "mq_holds (headers k) q' xs"
    using classed.deq_law [OF h] by blast
  then have "m = x" "mq_holds (headers k) q xs" using d by simp_all
  moreover have "msgs_inv (k\<lparr>schedpq := q\<rparr>) ps L"
    using inv payloads_cong [of L "k\<lparr>schedpq := q\<rparr>" k ps ps] by (simp add: mq_inv_def msgs_inv_def)
  ultimately show ?thesis using inv mq_holds_distinct [OF h] by (simp add: mq_inv_def)
qed

text \<open>A message that is not in the queue is disposed of.\<close>

lemma mq_inv_dispose:
  assumes inv: "mq_inv k ps L xs" and m: "m \<in> L" "m \<notin> set xs"
  shows "\<exists>w ps'. msg_dispose m k = Some (Done (k\<lparr>smem := w\<rparr>)) \<and> mq_inv (k\<lparr>smem := w\<rparr>) ps' (L - {m}) xs \<and>
    fst ` others ps' w =
      fst ` others ps (smem k) - (if flag_msg_release (m_flag (headers k m)) then {m_data (headers k m)} else {}) \<and>
    slab_used (msg_slab k) ps' w = headers_used k ps - {m}"
proof -
  have i: "msgs_inv k ps L" using inv by (simp add: mq_inv_def)
  have "mq_inv (k\<lparr>smem := w\<rparr>) ps' (L - {m}) xs" if "msgs_inv (k\<lparr>smem := w\<rparr>) ps' (L - {m})" for w ps'
    using that inv m(2) by (auto simp: mq_inv_def)
  with msg_dispose_law [OF i m(1)] show ?thesis by (elim exE conjE) (intro exI conjI, assumption+)
qed

section \<open>Removal from the queue\<close>

lemma relinked_fields: "relinked xs ms ms' \<Longrightarrow> same_fields ms ms'"
  by (auto simp: relinked_def)

lemma msg_matched_same:
  assumes "same_fields ms ms'"
  shows "msg_matched ms' bt m = msg_matched ms bt m"
  by (simp add: msg_matched_def same_fieldsD [OF assms] fun_eq_iff)

lemma filter_remove1_not: "P y \<Longrightarrow> filter (\<lambda>x. \<not> P x) (remove1 y xs) = filter (\<lambda>x. \<not> P x) xs"
  by (induction xs) auto

definition removed_parts :: "(addr \<Rightarrow> bool) \<Rightarrow> addr list \<Rightarrow> addr list \<Rightarrow> addr list \<Rightarrow> addr list" where
  "removed_parts P hs ss ls = filter (\<lambda>x. \<not> P x) hs @ ss @ filter (\<lambda>x. \<not> P x) ls"

lemma parts_count:
  assumes "mq_parts ms q hs ss ls" "length (hs @ ss @ ls) < 256"
  shows "unat (msg_cnt q) = length (hs @ ss @ ls)"
proof -
  have "msg_cnt q = of_nat (length (hs @ ss @ ls))" using assms(1) by (simp only: mq_parts_def)
  then show ?thesis using assms(2) by (simp only: unat_of_nat) simp
qed

lemma mq_parts_nonnull: "mq_parts ms q hs ss ls \<Longrightarrow> NULL \<notin> set (hs @ ss @ ls)"
  unfolding mq_parts_def queue_at_def by (auto dest: path_nonnull)

lemma mq_get_found:
  assumes p: "mq_parts ms q hs ss ls" and c: "msg_cnt q \<noteq> 0" and x: "\<exists>x \<in> set (hs @ ls). msg_matched ms bt m x"
  obtains q' ms' y hs' ls' where "mq_get bt q m ms = Some (q', ms', y)" "mq_parts ms' q' hs' ss ls'" "same_fields ms ms'"
    "msg_matched ms bt m y" "y \<in> set (hs @ ls)"
    "hs' = remove1 y hs \<and> y \<in> set hs \<and> ls' = ls \<or> hs' = hs \<and> ls' = remove1 y ls \<and> y \<in> set ls"
proof (cases "List.find (msg_matched ms bt m) hs")
  case (Some y)
  with mq_get_parts [OF p c, of bt m] obtain q' ms' where g: "mq_get bt q m ms = Some (q', ms', y)"
    "mq_parts ms' q' (remove1 y hs) ss ls" "relinked hs ms ms'" by auto
  have y: "y \<in> set hs" "msg_matched ms bt m y" using find_SomeD [OF Some] by blast+
  show ?thesis by (rule that [OF g(1,2) relinked_fields [OF g(3)] y(2)]) (simp_all add: y(1))
next
  case None
  then obtain y where y: "List.find (msg_matched ms bt m) ls = Some y"
    using x by (cases "List.find (msg_matched ms bt m) ls") (auto simp: find_None_iff)
  with None mq_get_parts [OF p c, of bt m] obtain q' ms' where g: "mq_get bt q m ms = Some (q', ms', y)"
    "mq_parts ms' q' hs ss (remove1 y ls)" "relinked ls ms ms'" by auto
  have y: "y \<in> set ls" "msg_matched ms bt m y" using find_SomeD [OF y] by blast+
  show ?thesis by (rule that [OF g(1,2) relinked_fields [OF g(3)] y(2)]) (simp_all add: y(1))
qed

lemma sched_msg_remove_law:
  assumes "msgs_inv k ps L" "mq_parts (headers k) (schedpq k) hs ss ls" "set (hs @ ss @ ls) \<subseteq> L"
    and "length (hs @ ss @ ls) < 256"
  shows "\<exists>k' ps'. sched_msg_remove m k = Some (Done k') \<and>
    mq_inv k' ps' (L - {x \<in> set (hs @ ls). msg_matched (headers k) (bytes_of k) m x})
      (removed_parts (msg_matched (headers k) (bytes_of k) m) hs ss ls) \<and> same_fields (headers k) (headers k') \<and>
    headers_used k' ps' = headers_used k ps - {x \<in> set (hs @ ls). msg_matched (headers k) (bytes_of k) m x} \<and>
    fst ` others ps' (smem k') = fst ` others ps (smem k) -
      (\<lambda>x. m_data (headers k x)) ` releases k {x \<in> set (hs @ ls). msg_matched (headers k) (bytes_of k) m x}"
  using assms
proof (induction "length (hs @ ls)" arbitrary: k ps L hs ls rule: less_induct)
  case less
  let ?P = "msg_matched (headers k) (bytes_of k) m"
  note p = less.prems(2)
  show ?case
  proof (cases "\<exists>x \<in> set (hs @ ls). ?P x")
    case False
    then have n: "List.find ?P hs = None" "List.find ?P ls = None" unfolding find_None_iff by auto
    have "mq_get (bytes_of k) (schedpq k) m (headers k) = Some (schedpq k, headers k, NULL)"
    proof (cases "msg_cnt (schedpq k) = 0")
      case True
      then show ?thesis by (simp add: mq_get_def)
    next
      case F: False
      from mq_get_parts [OF p F, of "bytes_of k" m] show ?thesis unfolding n by simp
    qed
    then have "sched_msg_remove m k = Some (Done k)" by (subst sched_msg_remove.simps) simp
    moreover have "removed_parts ?P hs ss ls = hs @ ss @ ls"
      using False by (auto simp: removed_parts_def filter_id_conv)
    moreover have none: "{x \<in> set (hs @ ls). ?P x} = {}" using False by auto
    moreover have "mq_inv k ps (L - {}) (hs @ ss @ ls)"
      using less.prems(1,3) mq_holdsI [OF p refl] by (simp add: mq_inv_def)
    ultimately show ?thesis unfolding none by (intro exI [of _ k] exI [of _ ps]) (simp add: releases_def)
  next
    case True
    have c: "msg_cnt (schedpq k) \<noteq> 0"
    proof
      assume "msg_cnt (schedpq k) = 0"
      then have "length (hs @ ss @ ls) = 0" using parts_count [OF p less.prems(4)] by simp
      with True show False by simp
    qed
    obtain q ms y hs1 ls1 where g: "mq_get (bytes_of k) (schedpq k) m (headers k) = Some (q, ms, y)"
      "mq_parts ms q hs1 ss ls1" "same_fields (headers k) ms" "?P y" "y \<in> set (hs @ ls)"
      "hs1 = remove1 y hs \<and> y \<in> set hs \<and> ls1 = ls \<or> hs1 = hs \<and> ls1 = remove1 y ls \<and> y \<in> set ls"
      by (rule mq_get_found [OF p c True])
    let ?k = "k\<lparr>headers := ms, schedpq := q\<rparr>"
    have d: "distinct (hs @ ss @ ls)" using p by (simp add: mq_parts_def)
    have yn: "0 < y" using g(5) mq_parts_nonnull [OF p] by (metis Un_iff gr0I set_append)
    have sets: "set (hs1 @ ss @ ls1) = set (hs @ ss @ ls) - {y}" and set2: "set (hs1 @ ls1) = set (hs @ ls) - {y}"
      and len: "length (hs1 @ ls1) < length (hs @ ls)" "length (hs1 @ ss @ ls1) < 256"
      using g(6) d less.prems(4) length_pos_if_in_set [of y hs] length_pos_if_in_set [of y ls]
      by (elim disjE; auto simp: length_remove1)+
    have rem: "removed_parts ?P hs1 ss ls1 = removed_parts ?P hs ss ls"
      using g(6) filter_remove1_not [of ?P y, OF g(4)] by (elim disjE) (simp_all add: removed_parts_def)
    have i: "msgs_inv ?k ps L" by (rule msgs_inv_relink [OF less.prems(1) g(3)])
    have "y \<in> L" using g(5) less.prems(3) by auto
    from msg_dispose_law [OF i this] obtain w ps2 where k2: "msg_dispose y ?k = Some (Done (?k\<lparr>smem := w\<rparr>))"
      "msgs_inv (?k\<lparr>smem := w\<rparr>) ps2 (L - {y})" "slab_used (msg_slab ?k) ps2 w = headers_used ?k ps - {y}"
      "fst ` others ps2 w = fst ` others ps (smem ?k) - (if flag_msg_release (m_flag (headers ?k y)) then {m_data (headers ?k y)} else {})"
      by (elim exE conjE) (rule that)
    let ?k2 = "?k\<lparr>smem := w\<rparr>"
    have P2: "msg_matched (headers ?k2) (bytes_of ?k2) m = ?P" using msg_matched_same [OF g(3)] by simp
    have "set (hs1 @ ss @ ls1) \<subseteq> L - {y}" using sets less.prems(3) by auto
    from less.hyps [OF len(1) k2(2) _ this len(2)] g(2) obtain k' ps' where k': "sched_msg_remove m ?k2 = Some (Done k')"
      "mq_inv k' ps' (L - {y} - {x \<in> set (hs1 @ ls1). ?P x}) (removed_parts ?P hs1 ss ls1)" "same_fields ms (headers k')"
      "headers_used k' ps' = slab_used (msg_slab k) ps2 w - {x \<in> set (hs1 @ ls1). ?P x}"
      "fst ` others ps' (smem k') = fst ` others ps2 w - (\<lambda>x. m_data (ms x)) ` releases ?k2 {x \<in> set (hs1 @ ls1). ?P x}"
      unfolding P2 by auto
    note sf = same_fieldsD [OF g(3)]
    have S: "{x \<in> set (hs @ ls). ?P x} = insert y {x \<in> set (hs1 @ ls1). ?P x}" unfolding set2 using g(4,5) by auto
    have "headers_used k' ps' = headers_used k ps - {x \<in> set (hs @ ls). ?P x}" using k'(4) k2(3) unfolding S by auto
    moreover have "fst ` others ps' (smem k') = fst ` others ps (smem k) - (\<lambda>x. m_data (headers k x)) ` releases k {x \<in> set (hs @ ls). ?P x}"
      unfolding S k'(5) k2(4) by (auto simp: releases_def sf)
    moreover have "L - {y} - {x \<in> set (hs1 @ ls1). ?P x} = L - {x \<in> set (hs @ ls). ?P x}" unfolding S by auto
    moreover have "sched_msg_remove m k = Some (Done k')"
      by (subst sched_msg_remove.simps) (simp add: g(1) yn k2(1) k'(1) Let_def)
    ultimately show ?thesis
      using k'(2) same_fields_trans [OF g(3) k'(3)] rem by (intro exI [of _ k'] exI [of _ ps']) simp
  qed
qed

section \<open>The end of a delivery\<close>

lemma release_cleared [simp]: "\<not> flag_msg_release (f AND NOT SOS_MSG_RELEASE)"
  by (simp add: flag_msg_release_def and.assoc)

text \<open>The message has no payload any more.\<close>

lemma mq_inv_drop_payload:
  assumes inv: "mq_inv k ps L xs" and m: "m \<in> L" "m \<notin> set xs"
    and r: "flag_msg_release (m_flag (headers k m))"
  shows "\<exists>h. k_free (m_data (headers k m)) k = Some (set_heap h k) \<and>
    mq_inv (upd_msg m (\<lambda>x. x\<lparr>m_flag := m_flag x AND NOT SOS_MSG_RELEASE, m_data := NULL\<rparr>) (set_heap h k)) ps L xs \<and>
    fst ` others ps (smem (set_heap h k)) = fst ` others ps (smem k) - {m_data (headers k m)}"
proof -
  let ?d = "m_data (headers k m)"
  have i: "msgs_inv k ps L" using inv by (simp add: mq_inv_def)
  have mr: "m \<in> releases k L" using m r by (simp add: releases_def)
  then obtain n own where c: "(?d, n, own) \<in> others ps (smem k)" using i by (auto simp: msgs_inv_def payloads_ok_def)
  have "inj_on (\<lambda>x. m_data (headers k x)) (releases k L)" using i by (simp add: msgs_inv_def payloads_ok_def)
  then have "?d \<notin> (\<lambda>y. m_data (headers k y)) ` releases k (L - {m})"
    using mr by (auto simp: inj_on_def releases_def)
  from msgs_inv_free [OF msgs_inv_without [OF i] c this] obtain h where h: "k_free ?d k = Some (set_heap h k)"
    "msgs_inv (set_heap h k) ps (L - {m})" "others ps (smem (set_heap h k)) = others ps (smem k) - {(?d, n, own)}" by blast
  let ?k = "upd_msg m (\<lambda>x. x\<lparr>m_flag := m_flag x AND NOT SOS_MSG_RELEASE, m_data := NULL\<rparr>) (set_heap h k)"
  have "payloads_ok ?k ps (L - {m}) = payloads_ok (set_heap h k) ps (L - {m})" by (rule payloads_cong) auto
  moreover have "releases ?k L = releases ?k (L - {m})" by (auto simp: releases_def)
  ultimately have "payloads_ok ?k ps L" using h(2) by (simp add: msgs_inv_def payloads_ok_def)
  moreover have "slab_inv (msg_slab k) ps (smem (set_heap h k))" using h(2) by (simp add: msgs_inv_def)
  moreover have "slab_used (msg_slab k) ps (smem (set_heap h k)) = slab_used (msg_slab k) ps (smem k)" by (simp add: slab_used_def)
  ultimately have "msgs_inv ?k ps L" using i by (simp add: msgs_inv_def)
  moreover have "mq_holds (headers ?k) (schedpq k) xs"
    by (subst mq_holds_cong [of xs _ "headers k"]) (use inv m(2) in \<open>auto simp: mq_inv_def\<close>)
  ultimately have "mq_inv ?k ps L xs" using inv by (simp add: mq_inv_def)
  with h(1,3) payload_freed [OF c] show ?thesis by (intro exI [of _ h]) simp
qed

definition senddone_for :: "'a msg_sys_scheme \<Rightarrow> addr \<Rightarrow> sos_pid_t \<Rightarrow> bool \<Rightarrow> 'a msg_sys_scheme \<Rightarrow> addr \<Rightarrow> bool" where
  "senddone_for k m own succ k' n \<longleftrightarrow>
     m_type (headers k' n) = MSG_PKT_SENDDONE \<and> m_data (headers k' n) = m \<and> m_sid (headers k' n) = own \<and>
     m_did (headers k' n) = m_sid (headers k m) \<and> m_flag (headers k' n) = (if succ then 0 else SOS_MSG_SEND_FAIL)"

text \<open>There is no header for the notification, even after the payload of the message has been freed.\<close>

definition no_notice :: "'a msg_sys_scheme \<Rightarrow> addr list \<Rightarrow> addr \<Rightarrow> bool" where
  "no_notice k ps m \<longleftrightarrow>
     (\<exists>k1. (if flag_msg_release (m_flag (headers k m)) then k_free (m_data (headers k m)) k else Some k) = Some k1 \<and> no_header k1 ps)"

lemma senddone_law:
  assumes inv: "mq_inv k ps L xs" and m: "m \<in> L" "m \<notin> set xs"
  shows "\<exists>k' ps'. msg_send_senddone m succ own k = Some (Done k') \<and>
    fst ` others ps' (smem k') =
      fst ` others ps (smem k) - (if flag_msg_release (m_flag (headers k m)) then {m_data (headers k m)} else {}) \<and>
    ((\<not> flag_msg_reliable (m_flag (headers k m)) \<or> no_notice k ps m) \<and>
     mq_inv k' ps' (L - {m}) xs \<and> headers_used k' ps' = headers_used k ps - {m} \<or>
     flag_msg_reliable (m_flag (headers k m)) \<and>
     (\<exists>n. n \<notin> headers_used k ps \<and> headers_used k' ps' = insert n (headers_used k ps) \<and>
       senddone_for k m own succ k' n \<and> \<not> flag_msg_release (m_flag (headers k' m)) \<and>
       mq_inv k' ps' (insert n L) (stable_insert (msg_class (headers k')) n xs)))"
proof (cases "flag_msg_reliable (m_flag (headers k m))")
  case False
  then have e: "msg_send_senddone m succ own k = msg_dispose m k" by (simp add: msg_send_senddone_def)
  obtain w ps' where w: "msg_dispose m k = Some (Done (k\<lparr>smem := w\<rparr>))" "mq_inv (k\<lparr>smem := w\<rparr>) ps' (L - {m}) xs"
    "fst ` others ps' w = fst ` others ps (smem k) - (if flag_msg_release (m_flag (headers k m)) then {m_data (headers k m)} else {})"
    "slab_used (msg_slab k) ps' w = headers_used k ps - {m}"
    using mq_inv_dispose [OF inv m] by (elim exE conjE) (rule that)
  show ?thesis unfolding e by (intro exI [of _ "k\<lparr>smem := w\<rparr>"] exI [of _ ps']) (use w False in simp)
next
  case True
  let ?rel = "flag_msg_release (m_flag (headers k m))" and ?d = "m_data (headers k m)"
  let ?fl = "if \<not> succ then SOS_MSG_SEND_FAIL else 0"
  have nr: "\<not> flag_msg_release ?fl" by (simp add: flag_msg_release_def flag_defs)
  obtain k1 where k1: "(if ?rel then do {
           k' \<leftarrow> k_free ?d k;
           Some (upd_msg m (\<lambda>x. x\<lparr>m_flag := m_flag x AND NOT SOS_MSG_RELEASE, m_data := NULL\<rparr>) k')
         } else Some k) = Some k1" "mq_inv k1 ps L xs" "m_sid (headers k1 m) = m_sid (headers k m)"
    "\<not> flag_msg_release (m_flag (headers k1 m))" "fst ` others ps (smem k1) = fst ` others ps (smem k) - (if ?rel then {?d} else {})"
    "headers_used k1 ps = headers_used k ps" "no_header k1 ps \<Longrightarrow> no_notice k ps m"
  proof (cases ?rel)
    case False
    with inv show ?thesis by (intro that [of k]) (simp_all add: no_notice_def)
  next
    case rel: True
    from mq_inv_drop_payload [OF inv m rel] obtain h where h: "k_free ?d k = Some (set_heap h k)"
      "mq_inv (upd_msg m (\<lambda>x. x\<lparr>m_flag := m_flag x AND NOT SOS_MSG_RELEASE, m_data := NULL\<rparr>) (set_heap h k)) ps L xs"
      "fst ` others ps (smem (set_heap h k)) = fst ` others ps (smem k) - {?d}" by (elim exE conjE) (rule that)
    with rel show ?thesis by (intro that [OF _ h(2)]) (simp_all add: no_notice_def no_header_def)
  qed
  have pay: "postable k1 ps L ?fl m" using nr by (simp add: postable_def)
  obtain k2 r where p: "post_long (m_sid (headers k1 m)) own MSG_PKT_SENDDONE (of_nat MESSAGE_SIZE) m ?fl k1 = Some (k2, r)"
    "if r = SOS_OK then
       \<exists>n. posted k1 ps L xs n k2 \<and> m_did (headers k2 n) = m_sid (headers k1 m) \<and> m_sid (headers k2 n) = own \<and>
         m_type (headers k2 n) = MSG_PKT_SENDDONE \<and> m_len (headers k2 n) = of_nat MESSAGE_SIZE \<and> m_data (headers k2 n) = m \<and>
         m_flag (headers k2 n) = ?fl \<and> m_daddr (headers k2 n) = node_address k1 \<and> m_saddr (headers k2 n) = node_address k1
     else r = - ENOMEM \<and> mq_inv k2 ps L xs \<and> headers k2 = headers k1 \<and>
       fst ` others ps (smem k2) = fst ` others ps (smem k1) - (if flag_msg_release ?fl then {m} else {}) \<and>
       headers_used k2 ps = headers_used k1 ps \<and> no_header k1 ps"
    using post_longer_law [OF k1(2) pay, where did = "m_sid (headers k1 m)" and sid = own and type = MSG_PKT_SENDDONE
      and len = "of_nat MESSAGE_SIZE" and saddr = "node_address k1", folded post_long_def]
    by (elim exE conjE) (rule that)
  have s: "msg_send_senddone m succ own k = (if r < 0 then msg_dispose m k2 else Some (Done k2))"
    unfolding msg_send_senddone_def using True p(1) k1(1) by simp
  show ?thesis
  proof (cases "r = SOS_OK")
    case True
    then obtain n where n: "posted k1 ps L xs n k2" "senddone_for k m own succ k2 n"
      using p(2) k1(3) by (auto simp: senddone_for_def)
    then obtain ps' where ps': "n \<notin> headers_used k1 ps" "mq_inv k2 ps' (insert n L) (stable_insert (msg_class (headers k2)) n xs)"
      "fst ` others ps' (smem k2) = fst ` others ps (smem k1)" "headers k2 m = (headers k1 m)\<lparr>m_next := m_next (headers k2 m)\<rparr>"
      "headers_used k2 ps' = insert n (headers_used k1 ps)"
      using m(1) by (auto simp: posted_def)
    have "m_flag (headers k2 m) = m_flag (headers k1 m)" by (subst ps'(4)) simp
    then have "\<not> flag_msg_release (m_flag (headers k2 m))" using k1(4) by simp
    with s True ps' n(2) k1(5,6) \<open>flag_msg_reliable (m_flag (headers k m))\<close> show ?thesis
      by (intro exI [of _ k2] exI [of _ ps']) (auto simp: errno_defs)
  next
    case False
    then have r: "r = - ENOMEM" "mq_inv k2 ps L xs" "headers k2 = headers k1"
      "fst ` others ps (smem k2) = fst ` others ps (smem k1)" "headers_used k2 ps = headers_used k1 ps" "no_header k1 ps" using p(2) nr by auto
    obtain w ps' where w: "msg_dispose m k2 = Some (Done (k2\<lparr>smem := w\<rparr>))" "mq_inv (k2\<lparr>smem := w\<rparr>) ps' (L - {m}) xs"
      "fst ` others ps' w = fst ` others ps (smem k2) - (if flag_msg_release (m_flag (headers k2 m)) then {m_data (headers k2 m)} else {})"
      "slab_used (msg_slab k2) ps' w = headers_used k2 ps - {m}"
      using mq_inv_dispose [OF r(2) m] by (elim exE conjE) (rule that)
    show ?thesis unfolding s by (intro exI [of _ "k2\<lparr>smem := w\<rparr>"] exI [of _ ps']) (use w r k1 in \<open>simp add: errno_defs\<close>)
  qed
qed

section \<open>Taking the payload\<close>

lemma take_data_law:
  assumes inv: "mq_inv k ps L xs" and m: "m \<in> L" "m \<notin> set xs" and t: "m_type (headers k m) \<noteq> MSG_PKT_SENDDONE"
    and r: "flag_msg_release (m_flag (headers k m))" and pid: "pid \<noteq> NULL_PID"
  shows "\<exists>k' n. ker_msg_take_data pid m k = Some (k', m_data (headers k m)) \<and> mq_inv k' ps L xs \<and>
    (m_data (headers k m), n, pid) \<in> others ps (smem k') \<and> \<not> flag_msg_release (m_flag (headers k' m)) \<and>
    m_data (headers k m) \<notin> (\<lambda>y. m_data (headers k' y)) ` releases k' L"
proof -
  let ?d = "m_data (headers k m)"
  let ?f = "\<lambda>x. x\<lparr>m_len := 0, m_data := NULL, m_flag := m_flag x AND NOT SOS_MSG_RELEASE\<rparr>"
  have i: "msgs_inv k ps L" using inv by (simp add: mq_inv_def)
  have mr: "m \<in> releases k L" using m r by (simp add: releases_def)
  then obtain n own where c: "(?d, n, own) \<in> others ps (smem k)" using i by (auto simp: msgs_inv_def payloads_ok_def)
  obtain h where h: "k_change_own ?d pid k = Some (set_heap h k)" "msgs_inv (set_heap h k) ps L"
    "others ps (smem (set_heap h k)) = insert (?d, n, pid) (others ps (smem k) - {(?d, n, own)})"
    using k_change_own_law [OF i c pid] by blast
  let ?k = "upd_msg m ?f (set_heap h k)"
  have rel: "releases ?k L = releases k L - {m}" by (auto simp: releases_def)
  have inj: "inj_on (\<lambda>x. m_data (headers k x)) (releases k L)" using i by (simp add: msgs_inv_def payloads_ok_def)
  have same: "m_data (headers ?k x) = m_data (headers k x)" if "x \<in> releases k L - {m}" for x using that by auto
  have "inj_on (\<lambda>x. m_data (headers ?k x)) (releases k L - {m}) = inj_on (\<lambda>x. m_data (headers k x)) (releases k L - {m})"
    by (rule inj_on_cong) (rule same)
  then have "payloads_ok ?k ps L"
    using h(2) inj_on_diff [OF inj] unfolding payloads_ok_def msgs_inv_def rel by (auto simp: releases_def)
  then have "msgs_inv ?k ps L" using h(2) by (simp add: msgs_inv_def)
  moreover have "mq_holds (headers ?k) (schedpq k) xs"
    by (subst mq_holds_cong [of xs _ "headers k"]) (use inv m(2) in \<open>auto simp: mq_inv_def\<close>)
  ultimately have "mq_inv ?k ps L xs" using inv by (simp add: mq_inv_def)
  moreover have "?d \<notin> (\<lambda>y. m_data (headers ?k y)) ` releases ?k L"
    unfolding rel using inj mr same by (auto simp: inj_on_def)
  moreover have "ker_msg_take_data pid m k = Some (?k, ?d)" using t r h(1) by (simp add: ker_msg_take_data_def)
  ultimately show ?thesis using h(3) by (intro exI [of _ ?k] exI [of _ n]) simp
qed

section \<open>A concrete state\<close>

text \<open>
  A heap of 64 blocks at address 256. The first chunk, at 259, is the pool of four message headers
  of which the first one, at 263, is in use; the second chunk, at 347, is its payload.
\<close>

lemma boot_heap: "\<exists>h. malloc_heap h = 256 \<and> rep h [Used 11 11 11 False, Used 3 130 130 False, Free 49]"
proof -
  obtain h0 where h0: "mem_init 256 (replicate 64 zero_block) = Some h0" "rep h0 [Free 63]" and m0: "malloc_heap h0 = 256"
    using rep_mem_init [of "replicate 64 zero_block" 256] by (auto simp: BLOCK_SIZE_def)
  have req: "unat (req_blocks 84) = 11" "unat (req_blocks 20) = 3" by (simp_all add: unat_req_blocks)
  have "alloc_areas 11 11 0 [Free 63] = ([Used 11 11 11 False, Free 52], Some 0)"
    by (simp add: Let_def split_off_def)
  with rep_alloc [OF h0(2), of 84 _ "Some 0" 11] req(1) obtain h1 where
    h1: "rep h1 [Used 11 11 11 False, Free 52]" "malloc_heap h1 = 256"
    using m0 by (auto simp: frame_def)
  have "alloc_areas 3 130 0 [Used 11 11 11 False, Free 52] = ([Used 11 11 11 False, Used 3 130 130 False, Free 49], Some 11)"
    by (simp add: Let_def split_off_def)
  with rep_alloc [OF h1(1), of 20 _ "Some 11" 130] req(2) h1(2) show ?thesis by (auto simp: frame_def)
qed

definition boot_sys :: "heap \<Rightarrow> mq_t \<Rightarrow> msg_sys" where
  "boot_sys h q = \<lparr>
     smem = \<lparr>s_heap = h, s_items = (\<lambda>_. \<lparr>next_item = NULL, alloc_vec = 1, gc_vec = 0\<rparr>)\<rparr>,
     msg_slab = \<lparr>slab_head = 259, num_items_per_pool = 4, empty_vector = 15, item_size = 20, slab_flag = 0\<rparr>,
     headers = (\<lambda>_. \<lparr>m_did = 130, m_sid = 131, m_daddr = 1, m_saddr = 1, m_type = 32, m_len = 20, m_data = 347,
       m_flag = 0xC, m_rssi = 0, m_priority = 0, m_next = NULL\<rparr>),
     bytes_of = (\<lambda>_. 0), schedpq = q, node_address = 1, curr_pid = 130\<rparr>"

definition boot_queue :: mq_t where
  "boot_queue = mq_init\<lparr>msg_cnt := 1, lm_cnt := 1, lq_head := 263, lq_tail := 263\<rparr>"

lemma two_used_areas:
  "{(f q, g n, pid) | q n pid. \<exists>k. (q, Used n pid pid k) \<in> {(a, Used n1 p1 p1 k1), (b, Used n2 p2 p2 k2)}} =
   {(f a, g n1, p1), (f b, g n2, p2)}"
  by auto

lemma boot_others:
  assumes "malloc_heap h = 256" "rep h [Used 11 11 11 False, Used 3 130 130 False, Free 49]"
  shows "chunks h = {(259, 84, 11), (347, 20, 130)}" "others [259] (smem (boot_sys h q)) = {(347, 20, 130)}"
proof -
  have l: "set (live 0 [Used 11 11 11 False, Used 3 130 130 False, Free 49]) = {(0, Used 11 11 11 False), (11, Used 3 130 130 False)}"
    by simp
  have u: "user_part h 0 = 259" "user_part h 11 = 347"
    using assms(1) by (simp_all add: user_part_def blk_addr_def malloc_consts)
  have s: "settled [Used 11 11 11 False, Used 3 130 130 False, Free 49]" by simp
  have "chunks h = {(user_part h 0, BLOCK_SIZE * 11 - BLOCKOVERHEAD, 11), (user_part h 11, BLOCK_SIZE * 3 - BLOCKOVERHEAD, 130)}"
    unfolding chunks_rep [OF assms(2) s] l
    by (rule two_used_areas [where f = "user_part h" and g = "\<lambda>n. BLOCK_SIZE * n - BLOCKOVERHEAD"])
  then show "chunks h = {(259, 84, 11), (347, 20, 130)}" unfolding u by (simp add: malloc_consts)
  then have "others [259] (smem (boot_sys h q)) = {c \<in> {(259, 84, 11), (347, 20, 130)}. fst c \<noteq> 259}"
    by (simp add: others_def boot_sys_def)
  also have "\<dots> = {(347, 20, 130)}" by (simp add: set_eq_iff) (use nat_neq_iff in force)
  finally show "others [259] (smem (boot_sys h q)) = {(347, 20, 130)}" .
qed

lemma boot_msgs_inv:
  assumes h: "malloc_heap h = 256" "rep h [Used 11 11 11 False, Used 3 130 130 False, Free 49]"
  shows "msgs_inv (boot_sys h q) [259] {263}"
proof -
  have "heap_ok h" unfolding heap_ok_def by (rule exI, rule conjI, rule h(2)) simp
  moreover have "pool_ok (msg_slab (boot_sys h q)) (smem (boot_sys h q)) 259"
    using boot_others(1) [OF h] by (auto simp: pool_ok_def boot_sys_def SLAB_ITEM_HDR_def bit_1_iff)
  moreover have "(15 :: u8) = mask 4" by (simp add: mask_eq_exp_minus_1)
  ultimately have "slab_inv (msg_slab (boot_sys h q)) [259] (smem (boot_sys h q))"
    by (simp add: slab_inv_def slab_shape_def) (simp add: boot_sys_def)
  moreover have "slab_used (msg_slab (boot_sys h q)) [259] (smem (boot_sys h q)) = {263}"
    by (auto simp: slab_used_def slot_addr_def item_mem_def SLAB_ITEM_HDR_def boot_sys_def bit_1_iff)
  moreover have "payloads_ok (boot_sys h q) [259] {263}"
    using boot_others(2) [OF h] by (auto simp: payloads_ok_def releases_def inj_on_def) (simp add: boot_sys_def)
  ultimately show ?thesis by (simp add: msgs_inv_def) (simp add: boot_sys_def MESSAGE_SIZE_def)
qed

lemma boot_inv:
  assumes h: "malloc_heap h = 256" "rep h [Used 11 11 11 False, Used 3 130 130 False, Free 49]"
  shows "mq_inv (boot_sys h mq_init) [259] {263} []"
    "mq_parts (headers (boot_sys h boot_queue)) (schedpq (boot_sys h boot_queue)) [] [] [263]"
    "flag_msg_release (m_flag (headers (boot_sys h q) a))" "flag_msg_reliable (m_flag (headers (boot_sys h q) a))"
  using boot_msgs_inv [OF h] mq_init_holds
  by (simp_all add: mq_inv_def)
     (simp_all add: boot_sys_def boot_queue_def mq_parts_def queue_at_def mq_init_def msg_class_def flag_high_priority_def
        flag_system_def flag_msg_release_def flag_msg_reliable_def flag_defs)

section \<open>Properties\<close>

text \<open>
  C33. \<^verbatim>\<open>post_long\<close> returns. If it succeeds, a new message with exactly the given fields
  stands in the scheduler's queue behind the messages of the same or a higher class, every other
  message keeps its fields, the payload belongs to the scheduler if it is to be released, and no
  chunk is created or freed for the payload. If no header is available, it returns
  \<^verbatim>\<open>-ENOMEM\<close>, the queue is unchanged, and a payload that was to be released is freed.
\<close>

theorem post_long_correct:
  assumes inv: "mq_inv k ps L xs" and pay: "postable k ps L flag data"
  shows "\<exists>k' r. post_long did sid type len data flag k = Some (k', r) \<and>
    (if r = SOS_OK then
       \<exists>m. posted k ps L xs m k' \<and> m_did (headers k' m) = did \<and> m_sid (headers k' m) = sid \<and>
         m_type (headers k' m) = type \<and> m_len (headers k' m) = len \<and> m_data (headers k' m) = data \<and>
         m_flag (headers k' m) = flag \<and> m_daddr (headers k' m) = node_address k \<and> m_saddr (headers k' m) = node_address k
     else r = - ENOMEM \<and> mq_inv k' ps L xs \<and> headers k' = headers k \<and>
       fst ` others ps (smem k') = fst ` others ps (smem k) - (if flag_msg_release flag then {data} else {}) \<and>
       headers_used k' ps = headers_used k ps \<and> no_header k ps)"
  unfolding post_long_def by (rule post_longer_law [OF inv pay])

theorem post_long_correct_witness:
  "\<exists>h k' r. mq_inv (boot_sys h mq_init) [259] {263} [] \<and>
     post_long 130 131 32 0 NULL 0 (boot_sys h mq_init) = Some (k', r)"
proof -
  obtain h where h: "malloc_heap h = 256" "rep h [Used 11 11 11 False, Used 3 130 130 False, Free 49]" using boot_heap by blast
  have "postable (boot_sys h mq_init) [259] {263} 0 NULL" by (simp add: postable_def)
  from post_long_correct [OF boot_inv(1) [OF h] this, of 130 131 32 0] boot_inv(1) [OF h] show ?thesis
    by (elim exE conjE) (intro exI conjI, assumption+)
qed

text \<open>
  C20. \<^verbatim>\<open>msg_dispose\<close> of a message that is in no queue returns without a panic, gives its
  header back to the slab, and no other one, frees the payload exactly if the release flag is set, and keeps the invariant.
\<close>

theorem msg_dispose_correct:
  assumes inv: "mq_inv k ps L xs" and m: "m \<in> L" "m \<notin> set xs"
  shows "\<exists>w ps'. msg_dispose m k = Some (Done (k\<lparr>smem := w\<rparr>)) \<and> mq_inv (k\<lparr>smem := w\<rparr>) ps' (L - {m}) xs \<and>
    fst ` others ps' w =
      fst ` others ps (smem k) - (if flag_msg_release (m_flag (headers k m)) then {m_data (headers k m)} else {}) \<and>
    slab_used (msg_slab k) ps' w = headers_used k ps - {m}"
  by (rule mq_inv_dispose [OF inv m])

theorem msg_dispose_correct_witness:
  "\<exists>h w ps'. msg_dispose 263 (boot_sys h mq_init) = Some (Done ((boot_sys h mq_init)\<lparr>smem := w\<rparr>)) \<and> fst ` others ps' w = {}"
proof -
  obtain h where h: "malloc_heap h = 256" "rep h [Used 11 11 11 False, Used 3 130 130 False, Free 49]" using boot_heap by blast
  have d: "m_data (headers (boot_sys h mq_init) 263) = 347" by (simp add: boot_sys_def)
  from msg_dispose_correct [OF boot_inv(1) [OF h], of 263] obtain w ps' where
    w: "msg_dispose 263 (boot_sys h mq_init) = Some (Done ((boot_sys h mq_init)\<lparr>smem := w\<rparr>))"
    "fst ` others ps' w = fst ` others [259] (smem (boot_sys h mq_init)) - {347}"
    using boot_inv(3) [OF h] d by auto
  have "fst ` others ps' w = {}" using w(2) unfolding boot_others(2) [OF h] by simp
  with w(1) show ?thesis by blast
qed

text \<open>
  C34. \<^verbatim>\<open>msg_send_senddone\<close> of a message that is in no queue returns without a panic and frees its payload, exactly if that was to be
  released. If the message was sent with the reliable flag and there is a header for a notification, the message stays in use as
  the payload of a new message of type \<^verbatim>\<open>MSG_PKT_SENDDONE\<close> to its sender, whose flags
  tell whether the delivery failed. Only if it was not sent with this flag, or all pools of headers are full and the memory
  manager has no room for a further one, its header goes back to the slab.
\<close>

theorem msg_send_senddone_correct:
  assumes inv: "mq_inv k ps L xs" and m: "m \<in> L" "m \<notin> set xs"
  shows "\<exists>k' ps'. msg_send_senddone m succ own k = Some (Done k') \<and>
    fst ` others ps' (smem k') =
      fst ` others ps (smem k) - (if flag_msg_release (m_flag (headers k m)) then {m_data (headers k m)} else {}) \<and>
    ((\<not> flag_msg_reliable (m_flag (headers k m)) \<or> no_notice k ps m) \<and>
     mq_inv k' ps' (L - {m}) xs \<and> headers_used k' ps' = headers_used k ps - {m} \<or>
     flag_msg_reliable (m_flag (headers k m)) \<and>
     (\<exists>n. n \<notin> headers_used k ps \<and> headers_used k' ps' = insert n (headers_used k ps) \<and>
       senddone_for k m own succ k' n \<and> \<not> flag_msg_release (m_flag (headers k' m)) \<and>
       mq_inv k' ps' (insert n L) (stable_insert (msg_class (headers k')) n xs)))"
  by (rule senddone_law [OF inv m])

theorem msg_send_senddone_correct_witness:
  "\<exists>h k' ps'. msg_send_senddone 263 True 10 (boot_sys h mq_init) = Some (Done k') \<and> 347 \<notin> fst ` others ps' (smem k')"
proof -
  obtain h where h: "malloc_heap h = 256" "rep h [Used 11 11 11 False, Used 3 130 130 False, Free 49]" using boot_heap by blast
  have d: "m_data (headers (boot_sys h mq_init) 263) = 347" by (simp add: boot_sys_def)
  from msg_send_senddone_correct [OF boot_inv(1) [OF h], of 263 True 10] obtain k' ps' where
    k': "msg_send_senddone 263 True 10 (boot_sys h mq_init) = Some (Done k')"
    "fst ` others ps' (smem k') = fst ` others [259] (smem (boot_sys h mq_init)) - {347}"
    using boot_inv(3) [OF h, of mq_init 263] unfolding d by auto
  have "347 \<notin> fst ` others ps' (smem k')" unfolding k'(2) by simp
  with k'(1) show ?thesis by blast
qed

text \<open>
  C35. \<^verbatim>\<open>sched_msg_remove\<close> ends, for every queue of fewer than 256 messages, and disposes of
  exactly the high and low priority messages that match the given one: their headers go back to the slab and their
  payloads with the release flag are freed; system messages and all others stay in their order.
\<close>

theorem sched_msg_remove_correct:
  assumes "msgs_inv k ps L" "mq_parts (headers k) (schedpq k) hs ss ls" "set (hs @ ss @ ls) \<subseteq> L"
    and "length (hs @ ss @ ls) < 256" "m \<notin> set (hs @ ss @ ls)"
  shows "\<exists>k' ps'. sched_msg_remove m k = Some (Done k') \<and>
    mq_inv k' ps' (L - {x \<in> set (hs @ ls). msg_matched (headers k) (bytes_of k) m x})
      (removed_parts (msg_matched (headers k) (bytes_of k) m) hs ss ls) \<and>
    headers_used k' ps' = headers_used k ps - {x \<in> set (hs @ ls). msg_matched (headers k) (bytes_of k) m x} \<and>
    fst ` others ps' (smem k') = fst ` others ps (smem k) -
      (\<lambda>x. m_data (headers k x)) ` releases k {x \<in> set (hs @ ls). msg_matched (headers k) (bytes_of k) m x}"
  using sched_msg_remove_law [OF assms(1-4), of m] by (elim exE conjE) (intro exI conjI)

theorem sched_msg_remove_correct_witness:
  "\<exists>h k' ps'. sched_msg_remove 300 (boot_sys h boot_queue) = Some (Done k') \<and> mq_inv k' ps' {} []"
proof -
  obtain h where h: "malloc_heap h = 256" "rep h [Used 11 11 11 False, Used 3 130 130 False, Free 49]" using boot_heap by blast
  let ?k = "boot_sys h boot_queue"
  have P: "msg_matched (headers ?k) (bytes_of ?k) 300 x" for x by (simp add: msg_matched_def boot_sys_def list_all_iff)
  have s: "{263 :: nat} - {x \<in> set ([] @ [263]). msg_matched (headers ?k) (bytes_of ?k) 300 x} = {}"
    "removed_parts (msg_matched (headers ?k) (bytes_of ?k) 300) [] [] [263] = []"
    using P by (auto simp: removed_parts_def)
  from sched_msg_remove_correct [OF boot_msgs_inv [OF h] boot_inv(2) [OF h], of 300] show ?thesis unfolding s by auto
qed

text \<open>
  A module that takes the payload of a message with the release flag becomes its owner, and the
  message no longer refers to it: it cannot be freed a second time with the message.
\<close>

theorem ker_msg_take_data_correct:
  assumes inv: "mq_inv k ps L xs" and m: "m \<in> L" "m \<notin> set xs" and t: "m_type (headers k m) \<noteq> MSG_PKT_SENDDONE"
    and r: "flag_msg_release (m_flag (headers k m))" and pid: "pid \<noteq> NULL_PID"
  shows "\<exists>k' n. ker_msg_take_data pid m k = Some (k', m_data (headers k m)) \<and> mq_inv k' ps L xs \<and>
    (m_data (headers k m), n, pid) \<in> others ps (smem k') \<and> \<not> flag_msg_release (m_flag (headers k' m)) \<and>
    m_data (headers k m) \<notin> (\<lambda>y. m_data (headers k' y)) ` releases k' L"
  by (rule take_data_law [OF inv m t r pid])

theorem ker_msg_take_data_correct_witness:
  "\<exists>h k' n. ker_msg_take_data 140 263 (boot_sys h mq_init) = Some (k', 347) \<and> (347, n, 140) \<in> others [259] (smem k')"
proof -
  obtain h where h: "malloc_heap h = 256" "rep h [Used 11 11 11 False, Used 3 130 130 False, Free 49]" using boot_heap by blast
  have d: "m_data (headers (boot_sys h mq_init) 263) = 347" "m_type (headers (boot_sys h mq_init) 263) \<noteq> MSG_PKT_SENDDONE"
    by (simp_all add: boot_sys_def msg_type_defs)
  have n: "(140 :: sos_pid_t) \<noteq> NULL_PID" by (simp add: pid_defs)
  from ker_msg_take_data_correct [OF boot_inv(1) [OF h] _ _ d(2) boot_inv(3) [OF h] n] show ?thesis unfolding d(1) by auto
qed

end
