(* ===== verification/Chains.thy ===== *)
theory Chains
  imports Links Sos_Prelude
begin

text \<open>
  Hash tables of singly linked lists, which the scheduler has for modules and the shared memory service for its
  control blocks, and the search loops over such lists. A table represents a finite map from keys
  to nodes; looking up, pushing a node on a list and taking a node out of one are operations on the map.
\<close>

section \<open>The search loops\<close>

text \<open>The first node with a property, or NULL.\<close>

partial_function (option) chain_search :: "(addr \<Rightarrow> bool) \<Rightarrow> (addr \<Rightarrow> addr) \<Rightarrow> addr \<Rightarrow> addr option" where
  "chain_search P nx cur =
     (if cur = NULL then Some NULL else if P cur then Some cur else chain_search P nx (nx cur))"

declare chain_search.simps [code]

text \<open>The same with the node before it; at the head this is the node the search was started with.\<close>

partial_function (option) chain_find :: "(addr \<Rightarrow> bool) \<Rightarrow> (addr \<Rightarrow> addr) \<Rightarrow> addr \<Rightarrow> addr \<Rightarrow> (addr \<times> addr) option" where
  "chain_find P nx cur prv =
     (if cur = NULL then Some (NULL, prv) else if P cur then Some (cur, prv) else chain_find P nx (nx cur) cur)"

declare chain_find.simps [code]

definition node_of :: "addr option \<Rightarrow> addr" where
  "node_of x = (case x of Some h \<Rightarrow> h | None \<Rightarrow> NULL)"

lemma node_of_simps [simp]: "node_of None = NULL" "node_of (Some h) = h"
  by (simp_all add: node_of_def)

lemma chain_search_path: "path nx p xs NULL \<Longrightarrow> chain_search P nx p = Some (node_of (find P xs))"
proof (induction xs arbitrary: p)
  case Nil
  then show ?case by (simp add: chain_search.simps)
next
  case (Cons x xs)
  then show ?case by (subst chain_search.simps) auto
qed

lemma chain_find_none: "path nx p xs NULL \<Longrightarrow> \<forall>x \<in> set xs. \<not> P x \<Longrightarrow> \<exists>q. chain_find P nx p prv = Some (NULL, q)"
proof (induction xs arbitrary: p prv)
  case Nil
  then show ?case by (simp add: chain_find.simps)
next
  case (Cons x xs)
  then show ?case by (subst chain_find.simps) auto
qed

lemma chain_find_some:
  "path nx p (xs @ x # ys) NULL \<Longrightarrow> \<forall>y \<in> set xs. \<not> P y \<Longrightarrow> P x \<Longrightarrow>
   chain_find P nx p prv = Some (x, if xs = [] then prv else last xs)"
proof (induction xs arbitrary: p prv)
  case Nil
  then show ?case by (subst chain_find.simps) auto
next
  case (Cons z xs)
  then show ?case by (subst chain_find.simps) (auto simp del: last.simps simp: last_ConsL last_ConsR)
qed

section \<open>Tables\<close>

definition chains :: "(addr \<Rightarrow> addr) \<Rightarrow> (addr \<Rightarrow> 'k) \<Rightarrow> ('k \<Rightarrow> nat) \<Rightarrow> nat \<Rightarrow> addr list \<Rightarrow> addr list list \<Rightarrow> bool" where
  "chains nx key hash n bin bs \<longleftrightarrow>
     length bin = n \<and> length bs = n \<and>
     (\<forall>i < n. path nx (bin ! i) (bs ! i) NULL \<and> (\<forall>h \<in> set (bs ! i). h \<noteq> NULL \<and> hash (key h) = i)) \<and>
     distinct (map key (concat bs))"

text \<open>The map that a table represents.\<close>

definition members :: "(addr \<Rightarrow> 'k) \<Rightarrow> addr list list \<Rightarrow> 'k \<rightharpoonup> addr" where
  "members key bs = map_of (map (\<lambda>h. (key h, h)) (concat bs))"

lemma find_map_of: "map_of (map (\<lambda>h. (f h, h)) xs) = (\<lambda>p. find (\<lambda>h. f h = p) xs)"
  by (induction xs) (auto simp: fun_eq_iff)

lemma find_append: "find P (xs @ ys) = (case find P xs of None \<Rightarrow> find P ys | Some z \<Rightarrow> Some z)"
  by (induction xs) auto

lemma find_map: "find P (map f xs) = map_option f (find (P \<circ> f) xs)"
  by (induction xs) auto

lemma set_concat_nth: "x \<in> set (concat xs) \<longleftrightarrow> (\<exists>i < length xs. x \<in> set (xs ! i))"
  unfolding set_concat UN_iff by (metis in_set_conv_nth)

lemma concat_split: "i < length bs \<Longrightarrow> concat bs = concat (take i bs) @ bs ! i @ concat (drop (Suc i) bs)"
  by (metis append_take_drop_id concat.simps(2) concat_append Cons_nth_drop_Suc)

lemma concat_update: "i < length bs \<Longrightarrow> concat (bs[i := xs]) = concat (take i bs) @ xs @ concat (drop (Suc i) bs)"
  by (simp add: upd_conv_take_nth_drop)

lemma find_unique:
  assumes "h \<in> set xs" "P h" "\<And>y. y \<in> set xs \<Longrightarrow> P y \<Longrightarrow> y = h"
  shows "find P xs = Some h"
proof (cases "find P xs")
  case None
  then show ?thesis using assms(1,2) by (simp add: find_None_iff)
next
  case (Some y)
  then show ?thesis using assms(3) [of y] find_SomeD [OF Some] by simp
qed

lemma option_ext: "(\<And>x. f = Some x \<longleftrightarrow> g = Some x) \<Longrightarrow> f = g"
  by (cases f; cases g) auto

locale chained_hash =
  fixes hash :: "'k \<Rightarrow> nat" and n :: nat
  assumes hash_less: "hash k < n"
begin

lemma members_iff:
  assumes "chains nx key hash n bin bs"
  shows "members key bs k = Some h \<longleftrightarrow> h \<in> set (concat bs) \<and> key h = k"
proof -
  have "distinct (map fst (map (\<lambda>h. (key h, h)) (concat bs)))"
    using assms by (simp add: chains_def comp_def)
  then have "members key bs k = Some h \<longleftrightarrow> (k, h) \<in> set (map (\<lambda>h. (key h, h)) (concat bs))"
    unfolding members_def by (rule map_of_eq_Some_iff)
  then show ?thesis by (auto simp del: set_concat)
qed

lemma members_none:
  assumes "chains nx key hash n bin bs"
  shows "members key bs k = None \<longleftrightarrow> (\<forall>h \<in> set (concat bs). key h \<noteq> k)"
  using members_iff [OF assms, of k] by (metis not_Some_eq)

lemma member_bin:
  assumes "chains nx key hash n bin bs" "h \<in> set (concat bs)"
  shows "h \<in> set (bs ! hash (key h))" "h \<noteq> NULL"
  using assms by (auto simp: chains_def set_concat_nth simp del: set_concat)

lemma bin_member:
  assumes "chains nx key hash n bin bs" "h \<in> set (bs ! i)" "i < n"
  shows "h \<in> set (concat bs)"
  using assms by (auto simp: chains_def set_concat_nth simp del: set_concat)

text \<open>Looking up in the bin of the key is looking up in the table.\<close>

lemma members_find:
  assumes "chains nx key hash n bin bs"
  shows "members key bs k = find (\<lambda>h. key h = k) (bs ! hash k)"
proof (cases "members key bs k")
  case None
  then have "\<forall>h \<in> set (bs ! hash k). key h \<noteq> k"
    using members_none [OF assms, of k] bin_member [OF assms _ hash_less, of _ k] by auto
  then have "find (\<lambda>h. key h = k) (bs ! hash k) = None"
    by (simp add: find_None_iff)
  then show ?thesis using None by simp
next
  case (Some h)
  then have h: "h \<in> set (concat bs)" "key h = k"
    using members_iff [OF assms, of k h] by auto
  have "find (\<lambda>h. key h = k) (bs ! hash k) = Some h"
  proof (rule find_unique)
    show "h \<in> set (bs ! hash k)" "key h = k"
      using member_bin(1) [OF assms h(1)] h(2) by simp_all
    fix y assume y: "y \<in> set (bs ! hash k)" "key y = k"
    show "y = h"
      using members_iff [OF assms, of k y] bin_member [OF assms y(1) hash_less] y(2) Some by simp
  qed
  with Some show ?thesis by simp
qed

lemma search_members:
  assumes "chains nx key hash n bin bs"
  shows "chain_search (\<lambda>h. key h = k) nx (bin ! hash k) = Some (node_of (members key bs k))"
  unfolding members_find [OF assms] by (rule chain_search_path) (use assms hash_less in \<open>simp add: chains_def\<close>)

text \<open>Only the nodes of the table matter.\<close>

lemma chains_cong:
  assumes "chains nx key hash n bin bs" "\<forall>h \<in> set (concat bs). nx' h = nx h \<and> key' h = key h"
  shows "chains nx' key' hash n bin bs" "members key' bs = members key bs"
proof -
  have m: "map key' (concat bs) = map key (concat bs)" "map (\<lambda>h. (key' h, h)) (concat bs) = map (\<lambda>h. (key h, h)) (concat bs)"
    using assms(2) by (auto simp del: set_concat map_concat)
  have "path nx' (bin ! i) (bs ! i) NULL \<and> (\<forall>h \<in> set (bs ! i). h \<noteq> NULL \<and> hash (key' h) = i)" if "i < n" for i
  proof -
    have "\<forall>h \<in> set (bs ! i). nx' h = nx h \<and> key' h = key h"
      using assms(2) bin_member [OF assms(1) _ that] by auto
    then show ?thesis
      using assms(1) that path_cong [of "bs ! i" nx' nx] by (simp add: chains_def)
  qed
  moreover have "distinct (map key' (concat bs))" "length bin = n" "length bs = n"
    unfolding m(1) using assms(1) by (simp_all add: chains_def del: map_concat)
  ultimately show "chains nx' key' hash n bin bs"
    unfolding chains_def by blast
  show "members key' bs = members key bs"
    unfolding members_def m(2) by (rule refl)
qed

text \<open>A new node at the head of the list of its bin.\<close>

lemma chains_push:
  assumes "chains nx key hash n bin bs" "h \<noteq> NULL" "h \<notin> set (concat bs)" "nx h = bin ! hash (key h)" "members key bs (key h) = None"
  shows "chains nx key hash n (bin[hash (key h) := h]) (bs[hash (key h) := h # bs ! hash (key h)])"
    "members key (bs[hash (key h) := h # bs ! hash (key h)]) = (members key bs)(key h \<mapsto> h)"
proof -
  let ?i = "hash (key h)" and ?bs = "bs[hash (key h) := h # bs ! hash (key h)]"
  have len: "length bin = n" "length bs = n" "?i < n"
    using assms(1) hash_less by (simp_all add: chains_def)
  define ls rs where "ls = concat (take ?i bs)" and "rs = concat (drop (Suc ?i) bs)"
  have cs1: "concat bs = ls @ bs ! ?i @ rs"
    unfolding ls_def rs_def by (rule concat_split) (simp add: len)
  have cs2: "concat ?bs = ls @ (h # bs ! ?i) @ rs"
    unfolding ls_def rs_def by (rule concat_update) (simp add: len)
  have mset: "set (concat ?bs) = insert h (set (concat bs))"
    unfolding cs1 cs2 by auto
  have d: "distinct (map key (concat bs))" and kn: "\<forall>x \<in> set (concat bs). key x \<noteq> key h"
    using assms(1) members_none [OF assms(1), of "key h"] assms(5) unfolding chains_def by blast+
  have "distinct (map key (concat ?bs))"
    using d kn unfolding cs1 cs2 by auto
  moreover have "path nx (bin[?i := h] ! i) (?bs ! i) NULL \<and> (\<forall>x \<in> set (?bs ! i). x \<noteq> NULL \<and> hash (key x) = i)" if "i < n" for i
  proof -
    have p: "path nx (bin ! i) (bs ! i) NULL" "\<forall>x \<in> set (bs ! i). x \<noteq> NULL \<and> hash (key x) = i"
      using assms(1) that unfolding chains_def by blast+
    show ?thesis
    proof (cases "i = ?i")
      case True
      then show ?thesis using p assms(2,4) len by simp
    next
      case False
      then show ?thesis using p by simp
    qed
  qed
  ultimately show c: "chains nx key hash n (bin[?i := h]) ?bs"
    using len unfolding chains_def length_list_update by blast
  have "members key ?bs k = Some x \<longleftrightarrow> ((members key bs)(key h \<mapsto> h)) k = Some x" for k x
    using members_iff [OF c, of k x] members_iff [OF assms(1), of k x] kn
    unfolding mset by (auto simp del: set_concat)
  then show "members key ?bs = (members key bs)(key h \<mapsto> h)"
    by (intro ext option_ext)
qed

text \<open>Taking a node out of the list of its bin, by the link before it or the head.\<close>

lemma chains_take:
  assumes "chains nx key hash n bin bs" "members key bs k = Some h"
  shows "\<exists>xs ys. bs ! hash k = xs @ h # ys \<and> chain_find (\<lambda>h. key h = k) nx (bin ! hash k) prv = Some (h, if xs = [] then prv else last xs) \<and>
    chains (if xs = [] then nx else nx(last xs := nx h)) key hash n (if xs = [] then bin[hash k := nx h] else bin) (bs[hash k := xs @ ys]) \<and>
    members key (bs[hash k := xs @ ys]) = (members key bs)(k := None)"
proof -
  let ?i = "hash k"
  have h: "h \<in> set (concat bs)" "key h = k"
    using members_iff [OF assms(1)] assms(2) by auto
  obtain xs ys where bi: "bs ! ?i = xs @ h # ys"
    using member_bin(1) [OF assms(1) h(1)] h(2) split_list by metis
  let ?bs = "bs[?i := xs @ ys]" and ?nx = "if xs = [] then nx else nx(last xs := nx h)" and ?bin = "if xs = [] then bin[?i := nx h] else bin"
  have len: "length bin = n" "length bs = n" "?i < n"
    using assms(1) hash_less by (simp_all add: chains_def)
  define ls rs where "ls = concat (take ?i bs)" and "rs = concat (drop (Suc ?i) bs)"
  have cs1: "concat bs = ls @ (xs @ h # ys) @ rs"
    unfolding ls_def rs_def bi [symmetric] by (rule concat_split) (simp add: len)
  have cs2: "concat ?bs = ls @ (xs @ ys) @ rs"
    unfolding ls_def rs_def by (rule concat_update) (simp add: len)
  have d: "distinct (map key (concat bs))"
    using assms(1) unfolding chains_def by blast
  then have "key h \<notin> key ` set (concat ?bs)" and dk: "distinct (map key (concat ?bs))"
    unfolding cs1 cs2 by auto
  then have nk: "\<forall>x \<in> set (concat ?bs). key x \<noteq> k"
    using h(2) image_eqI [of _ key] by metis
  have ms: "set (concat bs) = insert h (set (concat ?bs))"
    unfolding cs1 cs2 by auto
  have p: "path nx (bin ! i) (bs ! i) NULL" "\<forall>x \<in> set (bs ! i). x \<noteq> NULL \<and> hash (key x) = i" if "i < n" for i
    using assms(1) that unfolding chains_def by blast+
  have pi: "path nx (bin ! ?i) (xs @ h # ys) NULL"
    using p(1) [OF len(3)] bi by simp
  have c: "chains ?nx key hash n ?bin ?bs"
  proof -
    have "path ?nx (?bin ! i) (?bs ! i) NULL \<and> (\<forall>x \<in> set (?bs ! i). x \<noteq> NULL \<and> hash (key x) = i)" if i: "i < n" for i
    proof (cases "i = ?i")
      case True
      have "\<forall>x \<in> set (xs @ ys). x \<noteq> NULL \<and> hash (key x) = ?i"
        using p(2) [OF len(3)] bi by auto
      moreover have "path ?nx (?bin ! ?i) (xs @ ys) NULL"
      proof (cases xs rule: rev_cases)
        case Nil
        then show ?thesis using pi len by simp
      next
        case (snoc zs z)
        then show ?thesis using path_remove [of nx "bin ! ?i" zs z h ys] pi by simp
      qed
      ultimately show ?thesis using True len by simp
    next
      case False
      have "last xs \<notin> set (bs ! i)" if "xs \<noteq> []"
      proof
        assume l: "last xs \<in> set (bs ! i)"
        have "hash (key (last xs)) = i" "hash (key (last xs)) = ?i"
          using p(2) [OF i] l p(2) [OF len(3)] bi that by auto
        then show False using False by simp
      qed
      then have "path ?nx (bin ! i) (bs ! i) NULL"
        using p(1) [OF i] by (simp add: path_update)
      then show ?thesis using False p(2) [OF i] by (cases "xs = []") simp_all
    qed
    then show ?thesis
      using dk len unfolding chains_def by simp
  qed
  have "members key ?bs k' = Some x \<longleftrightarrow> ((members key bs)(k := None)) k' = Some x" for k' x
    using members_iff [OF c, of k' x] members_iff [OF assms(1), of k' x] nk h(2) unfolding ms
    by (auto simp del: set_concat)
  then have "members key ?bs = (members key bs)(k := None)"
    by (intro ext option_ext)
  moreover have "chain_find (\<lambda>h. key h = k) nx (bin ! ?i) prv = Some (h, if xs = [] then prv else last xs)"
    by (rule chain_find_some [OF pi]) (use nk h(2) in \<open>auto simp: cs2 simp del: set_concat\<close>)
  ultimately show ?thesis using bi c by blast
qed

end

end
