(* ===== verification/Module_Table.thy ===== *)
theory Module_Table
  imports Messages_Correct Chains
begin

text \<open>
  The table of the modules in \<^verbatim>\<open>kernel/sched.c\<close>: a hash table of four bins, each a
  singly linked list of module control blocks, the cache of \<^verbatim>\<open>ker_get_module\<close>, the pool
  of thread identifiers, the stack of calling modules, the message rules and the direct dispatch of
  short messages. Module headers and function control blocks lie in read-only memory
  (\<^verbatim>\<open>kernel/include/sos_module_types.h\<close>, \<^verbatim>\<open>kernel/include/fntable_types.h\<close>).
  The code of the modules is a parameter, the function \<open>run\<close> that a handler address stands for.
\<close>

section \<open>Definitions\<close>

text \<open>The fixed fields of a module header; the function control blocks follow it in memory.\<close>

record mod_header_t =
  state_size :: u16
  mod_id :: sos_pid_t
  num_timers :: u8
  num_sub_func :: u8
  num_prov_func :: u8
  num_dfunc :: u8
  version :: u8
  code_id :: u16
  processor_type :: u8
  platform_type :: u8
  init_priority :: u8
  num_out_port :: u8
  module_handler :: addr

record func_cb_t =
  cb_ptr :: addr
  cb_proto :: "u8 list"
  cb_pid :: sos_pid_t
  cb_fid :: u8

record sos_module_t =
  mod_next :: addr
  mod_header :: addr
  mod_pid :: sos_pid_t
  mod_flag :: u8
  handler_state :: addr

record mod_sys = msg_sys +
  mod_rom :: "addr \<Rightarrow> mod_header_t"
  cb_rom :: "addr \<Rightarrow> func_cb_t"
  ram_ptr :: "addr \<Rightarrow> addr"
  mods :: "addr \<Rightarrow> sos_module_t"
  mod_bin :: "addr list"
  mod_cache :: addr
  pid_pool :: "u8 list"
  pid_stack :: "sos_pid_t list"
  pid_sp :: nat
  sched_slab :: slab_t
  short_msg :: addr
  int_ready :: u8
  int_array :: "addr list"
  sched_stalled :: bool

text \<open>A handler is called with the module state and the message.\<close>

type_synonym 'k handler = "addr \<Rightarrow> addr \<Rightarrow> addr \<Rightarrow> 'k \<Rightarrow> ('k \<times> int) outcome option"

definition SCHED_NUMBER_BINS :: nat where "SCHED_NUMBER_BINS = 4"
definition SCHED_NUM_INTS :: nat where "SCHED_NUM_INTS = 4"
definition SOS_PID_STACK_SIZE :: nat where "SOS_PID_STACK_SIZE = 16"
definition SCHED_MIN_THREAD_PID :: sos_pid_t where "SCHED_MIN_THREAD_PID = APP_MOD_MAX_PID + 1"
definition SCHED_NUM_THREAD_PIDS :: u8 where "SCHED_NUM_THREAD_PIDS = SOS_MAX_PID - APP_MOD_MAX_PID"
definition SCHED_PID_SLOTS :: nat where "SCHED_PID_SLOTS = (unat SCHED_NUM_THREAD_PIDS + 7) div 8"
definition RUNTIME_PID :: sos_pid_t where "RUNTIME_PID = NULL_PID"
definition SOS_MSG_RULES_PROMISCUOUS :: u8 where "SOS_MSG_RULES_PROMISCUOUS = 0x40"
definition SOS_KER_STATIC_MODULE :: u8 where "SOS_KER_STATIC_MODULE = 0x02"

lemmas sched_consts =
  SCHED_NUMBER_BINS_def SCHED_NUM_INTS_def SOS_PID_STACK_SIZE_def SCHED_MIN_THREAD_PID_def SCHED_NUM_THREAD_PIDS_def
  SCHED_PID_SLOTS_def RUNTIME_PID_def SOS_MSG_RULES_PROMISCUOUS_def SOS_KER_STATIC_MODULE_def

definition hash_pid :: "sos_pid_t \<Rightarrow> nat" where
  "hash_pid pid = unat pid mod SCHED_NUMBER_BINS"

definition upd_mod :: "addr \<Rightarrow> (sos_module_t \<Rightarrow> sos_module_t) \<Rightarrow> 'a mod_sys_scheme \<Rightarrow> 'a mod_sys_scheme" where
  "upd_mod p f k = k\<lparr>mods := (mods k)(p := f (mods k p))\<rparr>"

text \<open>A slab on the whole state.\<close>

definition k_slab_alloc :: "slab_t \<Rightarrow> sos_pid_t \<Rightarrow> 'a msg_sys_scheme \<Rightarrow> ('a msg_sys_scheme \<times> addr) option" where
  "k_slab_alloc s pid k = do { (w, p) \<leftarrow> ker_slab_alloc s pid (smem k); Some (k\<lparr>smem := w\<rparr>, p) }"

definition k_slab_free :: "slab_t \<Rightarrow> addr \<Rightarrow> 'a msg_sys_scheme \<Rightarrow> 'a msg_sys_scheme outcome option" where
  "k_slab_free s p k = continue (ker_slab_free s p (smem k)) (\<lambda>w. Some (Done (k\<lparr>smem := w\<rparr>)))"

subsection \<open>Look-up\<close>

definition nx_of :: "(addr \<Rightarrow> sos_module_t) \<Rightarrow> addr \<Rightarrow> addr" where
  "nx_of ms p = mod_next (ms p)"

definition ker_get_module :: "sos_pid_t \<Rightarrow> 'a mod_sys_scheme \<Rightarrow> ('a mod_sys_scheme \<times> addr) option" where
  "ker_get_module pid k =
     (if mod_cache k \<noteq> NULL \<and> mod_pid (mods k (mod_cache k)) = pid then Some (k, mod_cache k)
      else do {
        h \<leftarrow> chain_search (\<lambda>h. mod_pid (mods k h) = pid) (nx_of (mods k)) (mod_bin k ! hash_pid pid);
        if h \<noteq> NULL then Some (k\<lparr>mod_cache := h\<rparr>, h) else Some (k, NULL)
      })"

definition ker_get_module_state :: "sos_pid_t \<Rightarrow> 'a mod_sys_scheme \<Rightarrow> ('a mod_sys_scheme \<times> addr) option" where
  "ker_get_module_state pid k = do {
     (k1, m) \<leftarrow> ker_get_module pid k;
     if m = NULL then Some (k1, NULL) else Some (k1, handler_state (mods k1 m))
   }"

definition ker_sys_get_module_state :: "'a mod_sys_scheme \<Rightarrow> ('a mod_sys_scheme \<times> addr) option" where
  "ker_sys_get_module_state k = do {
     (k1, m) \<leftarrow> ker_get_module (curr_pid k) k;
     if m = NULL then Some (k1, NULL) else Some (k1, handler_state (mods k1 m))
   }"

definition ker_query_task :: "sos_pid_t \<Rightarrow> 'a mod_sys_scheme \<Rightarrow> ('a mod_sys_scheme \<times> int) option" where
  "ker_query_task pid k = do {
     (k1, h) \<leftarrow> ker_get_module pid k;
     Some (k1, if h = NULL then - EINVAL else 0)
   }"

subsection \<open>The running module\<close>

definition ker_set_current_pid :: "sos_pid_t \<Rightarrow> 'a mod_sys_scheme \<Rightarrow> 'a mod_sys_scheme \<times> sos_pid_t" where
  "ker_set_current_pid pid k =
     (if pid \<noteq> RUNTIME_PID then (k\<lparr>curr_pid := pid\<rparr>, curr_pid k) else (k, curr_pid k))"

definition ker_get_current_pid :: "'a mod_sys_scheme \<Rightarrow> sos_pid_t" where
  "ker_get_current_pid k = curr_pid k"

text \<open>A read below the stack is undefined.\<close>

definition ker_get_caller_pid :: "'a mod_sys_scheme \<Rightarrow> sos_pid_t option" where
  "ker_get_caller_pid k = (if pid_sp k = 0 \<or> length (pid_stack k) < pid_sp k then None else Some (pid_stack k ! (pid_sp k - 1)))"

subsection \<open>Thread identifiers\<close>

text \<open>
  The two loops of \<^verbatim>\<open>sched_get_pid_from_pool\<close>: \<open>n\<close> bits of the slot \<open>i\<close> are left, the next
  one has the mask \<open>msk\<close> and the number \<open>p\<close>.
\<close>

fun pool_slot :: "nat \<Rightarrow> u8 \<Rightarrow> u8 \<Rightarrow> u8 \<Rightarrow> (u8 \<times> u8 option) + u8" where
  "pool_slot 0 msk p v = Inr p"
| "pool_slot (Suc n) msk p v =
     (if p = SCHED_NUM_THREAD_PIDS then Inl (v, None)
      else if msk AND v = 0 then Inl (v OR msk, Some (p + SCHED_MIN_THREAD_PID))
      else pool_slot n (push_bit 1 msk) (p + 1) v)"

fun pool_scan :: "nat list \<Rightarrow> u8 \<Rightarrow> u8 list \<Rightarrow> u8 list \<times> sos_pid_t" where
  "pool_scan [] p pool = (pool, NULL_PID)"
| "pool_scan (i # is) p pool =
     (case pool_slot 8 1 p (pool ! i) of
        Inl (v, None) \<Rightarrow> (pool, NULL_PID)
      | Inl (v, Some pid) \<Rightarrow> (pool[i := v], pid)
      | Inr p' \<Rightarrow> pool_scan is p' pool)"

definition sched_get_pid_from_pool :: "'a mod_sys_scheme \<Rightarrow> 'a mod_sys_scheme \<times> sos_pid_t" where
  "sched_get_pid_from_pool k =
     (let (pool, pid) = pool_scan [0..<SCHED_PID_SLOTS] 0 (pid_pool k) in (k\<lparr>pid_pool := pool\<rparr>, pid))"

text \<open>Giving an identifier back, in \<^verbatim>\<open>ker_deregister_module\<close>.\<close>

definition pool_release :: "sos_pid_t \<Rightarrow> u8 list \<Rightarrow> u8 list" where
  "pool_release pid pool =
     (if SCHED_MIN_THREAD_PID \<le> pid then
        (let i = unat (pid - SCHED_MIN_THREAD_PID) in pool[i div 8 := pool ! (i div 8) AND NOT (push_bit (i mod 8) 1)])
      else pool)"

subsection \<open>Message rules\<close>

definition ker_msg_change_rules :: "sos_pid_t \<Rightarrow> u8 \<Rightarrow> 'a mod_sys_scheme \<Rightarrow> ('a mod_sys_scheme \<times> int) option" where
  "ker_msg_change_rules sid rules_in k = do {
     (k1, h) \<leftarrow> ker_get_module sid k;
     if h = NULL then Some (k1, - EINVAL)
     else Some (upd_mod h (\<lambda>m. m\<lparr>mod_flag := mod_flag m AND 0x0F OR (rules_in AND 0xF0)\<rparr>) k1, 0)
   }"

definition sched_get_msg_rule :: "sos_pid_t \<Rightarrow> 'a mod_sys_scheme \<Rightarrow> ('a mod_sys_scheme \<times> int \<times> u8 option) option" where
  "sched_get_msg_rule pid k = do {
     (k1, h) \<leftarrow> ker_get_module pid k;
     if h = NULL then Some (k1, - EINVAL, None)
     else Some (k1, 0, Some (mod_flag (mods k1 h) AND 0xF0))
   }"

definition sched_message_filtered :: "addr \<Rightarrow> addr \<Rightarrow> 'a mod_sys_scheme \<Rightarrow> bool" where
  "sched_message_filtered h m k =
     (if \<not> flag_msg_from_network (m_flag (headers k m)) then False
      else if mod_flag (mods k h) AND SOS_MSG_RULES_PROMISCUOUS = 0 then
        m_daddr (headers k m) \<noteq> node_address k \<and> m_daddr (headers k m) \<noteq> BCAST_ADDRESS
      else False)"

subsection \<open>Soft interrupts and short messages\<close>

definition sched_add_interrupt :: "u8 \<Rightarrow> addr \<Rightarrow> 'a mod_sys_scheme \<Rightarrow> 'a mod_sys_scheme" where
  "sched_add_interrupt i f k =
     (if SCHED_NUM_INTS \<le> unat i then k else k\<lparr>int_ready := 1, int_array := (int_array k)[unat i := f]\<rparr>)"

text \<open>The loop of \<^verbatim>\<open>handle_callback\<close>; \<open>call f\<close> is the function at the address \<open>f\<close>.\<close>

fun callback_loop ::
    "(addr \<Rightarrow> 'a mod_sys_scheme \<Rightarrow> 'a mod_sys_scheme outcome option) \<Rightarrow> nat list \<Rightarrow> 'a mod_sys_scheme \<Rightarrow> 'a mod_sys_scheme outcome option" where
  "callback_loop call [] k = Some (Done k)"
| "callback_loop call (i # is) k =
     (if int_array k ! i \<noteq> NULL then
        continue (call (int_array k ! i) (k\<lparr>int_array := (int_array k)[i := NULL]\<rparr>)) (callback_loop call is)
      else callback_loop call is k)"

definition handle_callback ::
    "(addr \<Rightarrow> 'a mod_sys_scheme \<Rightarrow> 'a mod_sys_scheme outcome option) \<Rightarrow> 'a mod_sys_scheme \<Rightarrow> 'a mod_sys_scheme outcome option" where
  "handle_callback call k = callback_loop call [0..<SCHED_NUM_INTS] (k\<lparr>int_ready := 0\<rparr>)"

definition sched_dispatch_short_message ::
    "'a mod_sys_scheme handler \<Rightarrow> sos_pid_t \<Rightarrow> sos_pid_t \<Rightarrow> u8 \<Rightarrow> u8 \<Rightarrow> u16 \<Rightarrow> u16 \<Rightarrow> 'a mod_sys_scheme \<Rightarrow> 'a mod_sys_scheme outcome option" where
  "sched_dispatch_short_message run dst src type byte word flag k = do {
     (k1, h) \<leftarrow> ker_get_module dst k;
     if h = NULL then Some (Done k1)
     else do {
       let sm = short_msg k1;
       let k2 = upd_msg sm (\<lambda>x. x\<lparr>m_did := dst, m_sid := src, m_type := type\<rparr>) k1;
       let k3 = k2\<lparr>bytes_of := put_bytes (m_data (headers k2 sm)) (byte # word_bytes word) (bytes_of k2)\<rparr>;
       let k4 = upd_msg sm (\<lambda>x. x\<lparr>m_flag := flag\<rparr>) k3;
       r \<leftarrow> run (module_handler (mod_rom k1 (mod_header (mods k1 h)))) (handler_state (mods k1 h)) sm (k4\<lparr>curr_pid := dst\<rparr>);
       case r of Panic \<Rightarrow> Some Panic | Done (k5, ret) \<Rightarrow> Some (Done k5)
     }
   }"

end
