(* ===== verification/Timer.thy ===== *)
theory Timer
  imports Module_Table
begin

text \<open>
  The timers of \<^verbatim>\<open>kernel/sos_timer.c\<close> in the build without preemption, and the compare timer
  of \<^verbatim>\<open>processor/avr/timer.c\<close>. Running timers are in a delta queue, initialised ones in a pool,
  blocks reserved at load time in a second pool; periodic timers that have expired wait in a third
  list until the soft interrupt puts them back.

  The four lists are circular doubly linked lists of \<^verbatim>\<open>sos_list.c\<close>, which implement
  sequences; here they are the sequences themselves, of the addresses of the timers. Ticks, deltas
  and the outstanding ticks are \<^verbatim>\<open>int32_t\<close>: every sum and difference of them goes through
  \<^verbatim>\<open>to_int32\<close>, and an operation in which one of them overflows has no result. The counter of the
  hardware stands still during an operation.
\<close>

section \<open>Definitions\<close>

record sos_timer_t =
  t_type :: u8
  t_pid :: sos_pid_t
  t_tid :: u8
  t_ticks :: int
  t_delta :: int
  t_flag :: u8

record timer_realtime_t =
  rt_value :: u16
  rt_interval :: u16
  rt_f :: addr

record timer_sys = mod_sys +
  timers :: "addr \<Rightarrow> sos_timer_t"
  deltaq :: "addr list"
  timer_pool :: "addr list"
  prealloc_timer_pool :: "addr list"
  periodic_pool :: "addr list"
  outstanding_ticks :: int
  num_realtime_clock :: u8
  realtime :: "timer_realtime_t list"
  timer_slab :: slab_t
  TCNT0 :: u8
  OCR0 :: u8

text \<open>The functions that callbacks stand for, by their addresses.\<close>

type_synonym 'k callbacks = "addr \<Rightarrow> 'k \<Rightarrow> 'k outcome option"

definition MAX_SLEEP_INTERVAL :: int where "MAX_SLEEP_INTERVAL = 250"
definition MAX_REALTIME_CLOCK :: nat where "MAX_REALTIME_CLOCK = 4"
definition TIMER_MIN_INTERVAL :: int where "TIMER_MIN_INTERVAL = 5"
definition MAX_PRE_ALLOCATED_TIMERS :: u8 where "MAX_PRE_ALLOCATED_TIMERS = 10"
definition PERMANENT_TIMER_MASK :: u8 where "PERMANENT_TIMER_MASK = 0x04"
definition SLOW_TIMER_MASK :: u8 where "SLOW_TIMER_MASK = 0x02"
definition ONE_SHOT_TIMER_MASK :: u8 where "ONE_SHOT_TIMER_MASK = 0x01"
definition TIMER_PRE_ALLOCATED :: u8 where "TIMER_PRE_ALLOCATED = 0x02"
definition SCHED_TIMER_INT :: u8 where "SCHED_TIMER_INT = 0"

text \<open>\<^verbatim>\<open>sizeof(sos_timer_t)\<close>, and the address of the function \<^verbatim>\<open>soft_interrupt\<close>.\<close>

definition TIMER_SIZE :: u8 where "TIMER_SIZE = 16"
definition SOFT_INTERRUPT :: addr where "SOFT_INTERRUPT = 1"

lemmas timer_consts =
  MAX_SLEEP_INTERVAL_def MAX_REALTIME_CLOCK_def TIMER_MIN_INTERVAL_def MAX_PRE_ALLOCATED_TIMERS_def
  PERMANENT_TIMER_MASK_def SLOW_TIMER_MASK_def ONE_SHOT_TIMER_MASK_def TIMER_PRE_ALLOCATED_def
  SCHED_TIMER_INT_def TIMER_SIZE_def SOFT_INTERRUPT_def

text \<open>
  The range of \<^verbatim>\<open>int32_t\<close>, and the value of a sum or difference of two of them: the overflow of a
  signed number is undefined in C.
\<close>

definition INT32_MAX :: int where "INT32_MAX = 2147483647"

definition int32 :: "int \<Rightarrow> bool" where
  "int32 x \<longleftrightarrow> - INT32_MAX - 1 \<le> x \<and> x \<le> INT32_MAX"

definition to_int32 :: "int \<Rightarrow> int option" where
  "to_int32 x = (if int32 x then Some x else None)"

definition upd_timer :: "addr \<Rightarrow> (sos_timer_t \<Rightarrow> sos_timer_t) \<Rightarrow> 'a timer_sys_scheme \<Rightarrow> 'a timer_sys_scheme" where
  "upd_timer p f k = k\<lparr>timers := (timers k)(p := f (timers k p))\<rparr>"

definition set_delta :: "addr \<Rightarrow> int \<Rightarrow> 'a timer_sys_scheme \<Rightarrow> 'a timer_sys_scheme" where
  "set_delta p d k = upd_timer p (\<lambda>t. t\<lparr>t_delta := d\<rparr>) k"

definition put_delta :: "addr \<Rightarrow> int \<Rightarrow> 'a timer_sys_scheme \<Rightarrow> 'a timer_sys_scheme option" where
  "put_delta p x k = do { d \<leftarrow> to_int32 x; Some (set_delta p d k) }"

definition delta_of :: "'a timer_sys_scheme \<Rightarrow> addr \<Rightarrow> int" where
  "delta_of k p = t_delta (timers k p)"

subsection \<open>The hardware\<close>

definition timer_setInterval :: "int \<Rightarrow> 'a timer_sys_scheme \<Rightarrow> 'a timer_sys_scheme" where
  "timer_setInterval val k =
     k\<lparr>TCNT0 := 0, OCR0 := (if 250 < val then 250 else if val \<le> 2 then 2 else of_int val - 1)\<rparr>"

definition timer_getInterval :: "'a timer_sys_scheme \<Rightarrow> u8" where
  "timer_getInterval k = OCR0 k + 1"

definition timer_hardware_get_counter :: "'a timer_sys_scheme \<Rightarrow> u8" where
  "timer_hardware_get_counter k = TCNT0 k"

definition timer_set_hw_interval :: "int \<Rightarrow> 'a timer_sys_scheme \<Rightarrow> 'a timer_sys_scheme" where
  "timer_set_hw_interval cnt k =
     (if cnt < TIMER_MIN_INTERVAL then timer_setInterval TIMER_MIN_INTERVAL k
      else if MAX_SLEEP_INTERVAL < cnt then timer_setInterval MAX_SLEEP_INTERVAL k
      else timer_setInterval (uint (of_int cnt :: u8)) k)"

subsection \<open>Real-time clocks\<close>

text \<open>The first loop of \<^verbatim>\<open>timer_update_realtime_clock\<close>, with the least value and the callbacks so far.\<close>

fun realtime_loop :: "u8 \<Rightarrow> nat list \<Rightarrow> u16 \<Rightarrow> addr list \<Rightarrow> 'a timer_sys_scheme \<Rightarrow> 'a timer_sys_scheme \<times> u16 \<times> addr list" where
  "realtime_loop cnt [] mn fs k = (k, mn, fs)"
| "realtime_loop cnt (i # is) mn fs k =
     (let r = realtime k ! i in
      if rt_f r = NULL then realtime_loop cnt is mn (fs @ [NULL]) k
      else if rt_value r \<le> ucast cnt then
        (if rt_interval r \<noteq> 0 then
           (let v = rt_value r + (rt_interval r - ucast cnt)
            in realtime_loop cnt is (if v < mn then v else mn) (fs @ [rt_f r]) (k\<lparr>realtime := (realtime k)[i := r\<lparr>rt_value := v\<rparr>]\<rparr>))
         else realtime_loop cnt is mn (fs @ [rt_f r])
                (k\<lparr>num_realtime_clock := num_realtime_clock k - 1, realtime := (realtime k)[i := r\<lparr>rt_f := NULL\<rparr>]\<rparr>))
      else
        (let v = rt_value r - ucast cnt
         in realtime_loop cnt is (if v < mn then v else mn) (fs @ [NULL]) (k\<lparr>realtime := (realtime k)[i := r\<lparr>rt_value := v\<rparr>]\<rparr>)))"

fun realtime_calls :: "'a timer_sys_scheme callbacks \<Rightarrow> addr list \<Rightarrow> 'a timer_sys_scheme \<Rightarrow> 'a timer_sys_scheme outcome option" where
  "realtime_calls call [] k = Some (Done k)"
| "realtime_calls call (f # fs) k =
     (if f \<noteq> NULL then continue (call f k) (realtime_calls call fs) else realtime_calls call fs k)"

definition timer_update_realtime_clock ::
    "'a timer_sys_scheme callbacks \<Rightarrow> u8 \<Rightarrow> 'a timer_sys_scheme \<Rightarrow> ('a timer_sys_scheme \<times> u16) outcome option" where
  "timer_update_realtime_clock call cnt k =
     (let (k1, mn, fs) = realtime_loop cnt [0..<MAX_REALTIME_CLOCK] 65535 [] k
      in continue (realtime_calls call fs k1) (\<lambda>k2. Some (Done (k2, mn))))"

definition timer_set_hw_top ::
    "'a timer_sys_scheme callbacks \<Rightarrow> int \<Rightarrow> bool \<Rightarrow> 'a timer_sys_scheme \<Rightarrow> 'a timer_sys_scheme outcome option" where
  "timer_set_hw_top call cnt update_outstanding k = do {
     let hw_cnt = timer_hardware_get_counter k;
     n \<leftarrow> (if update_outstanding then to_int32 (outstanding_ticks k + uint hw_cnt) else Some 0);
     let k1 = k\<lparr>outstanding_ticks := n\<rparr>;
     if 0 < num_realtime_clock k1 then
       continue (timer_update_realtime_clock call hw_cnt k1)
         (\<lambda>(k2, rt_cnt). Some (Done (timer_set_hw_interval (if uint rt_cnt < cnt then uint rt_cnt else cnt) k2)))
     else Some (Done (timer_set_hw_interval cnt k1))
   }"

text \<open>The comparison is one of 16 bit unsigned numbers: \<^verbatim>\<open>int\<close> has 16 bits on this processor.\<close>

definition timer_realtime_set_hw_top ::
    "'a timer_sys_scheme callbacks \<Rightarrow> u16 \<Rightarrow> 'a timer_sys_scheme \<Rightarrow> 'a timer_sys_scheme outcome option" where
  "timer_realtime_set_hw_top call value k =
     (if deltaq k = [] then timer_set_hw_top call (uint value) False k
      else if value \<le> ucast (timer_getInterval k) - ucast (timer_hardware_get_counter k) then
        timer_set_hw_top call (uint value) True k
      else Some (Done k))"

fun realtime_free :: "timer_realtime_t list \<Rightarrow> nat list \<Rightarrow> nat option" where
  "realtime_free rs [] = None"
| "realtime_free rs (i # is) = (if rt_f (rs ! i) = NULL then Some i else realtime_free rs is)"

definition timer_realtime_start ::
    "'a timer_sys_scheme callbacks \<Rightarrow> u16 \<Rightarrow> u16 \<Rightarrow> addr \<Rightarrow> 'a timer_sys_scheme \<Rightarrow> ('a timer_sys_scheme \<times> int) outcome option" where
  "timer_realtime_start call value interval f k =
     (if unat (num_realtime_clock k) = MAX_REALTIME_CLOCK then Some (Done (k, - ENOMEM))
      else case realtime_free (realtime k) [0..<MAX_REALTIME_CLOCK] of
          None \<Rightarrow> Some (Done (k, - ENOMEM))
        | Some i \<Rightarrow> continue (timer_realtime_set_hw_top call value k)
            (\<lambda>k1. Some (Done (k1\<lparr>num_realtime_clock := num_realtime_clock k1 + 1,
                               realtime := (realtime k1)[i := \<lparr>rt_value = value, rt_interval = interval, rt_f = f\<rparr>]\<rparr>, SOS_OK))))"

fun realtime_find :: "timer_realtime_t list \<Rightarrow> addr \<Rightarrow> nat list \<Rightarrow> nat option" where
  "realtime_find rs f [] = None"
| "realtime_find rs f (i # is) = (if rt_f (rs ! i) = f then Some i else realtime_find rs f is)"

definition timer_realtime_stop :: "addr \<Rightarrow> 'a timer_sys_scheme \<Rightarrow> 'a timer_sys_scheme \<times> int" where
  "timer_realtime_stop f k =
     (case realtime_find (realtime k) f [0..<MAX_REALTIME_CLOCK] of
        None \<Rightarrow> (k, - EINVAL)
      | Some i \<Rightarrow> (k\<lparr>num_realtime_clock := num_realtime_clock k - 1,
                     realtime := (realtime k)[i := (realtime k ! i)\<lparr>rt_f := NULL\<rparr>]\<rparr>, SOS_OK))"

subsection \<open>The delta queue\<close>

text \<open>The search for the position in \<^verbatim>\<open>timer_delta_q_insert\<close>: \<open>done\<close> are the timers passed.\<close>

fun delta_walk :: "addr \<Rightarrow> addr list \<Rightarrow> addr list \<Rightarrow> 'a timer_sys_scheme \<Rightarrow> 'a timer_sys_scheme option" where
  "delta_walk h passed [] k = Some (k\<lparr>deltaq := passed @ [h]\<rparr>)"
| "delta_walk h passed (c # cs) k =
     (if delta_of k h < delta_of k c then do {
        k1 \<leftarrow> put_delta c (delta_of k c - delta_of k h) k;
        Some (k1\<lparr>deltaq := passed @ h # c # cs\<rparr>)
      } else do {
        k1 \<leftarrow> put_delta h (delta_of k h - delta_of k c) k;
        delta_walk h (passed @ [c]) cs k1
      })"

definition timer_delta_q_insert ::
    "'a timer_sys_scheme callbacks \<Rightarrow> addr \<Rightarrow> bool \<Rightarrow> 'a timer_sys_scheme \<Rightarrow> 'a timer_sys_scheme outcome option" where
  "timer_delta_q_insert call h new_timer k =
     (case deltaq k of
        [] \<Rightarrow> continue (if new_timer then timer_set_hw_top call (delta_of k h) False k else Some (Done k))
               (\<lambda>k1. Some (Done (k1\<lparr>deltaq := h # deltaq k1\<rparr>)))
      | l # ls \<Rightarrow> do {
          hw_cnt \<leftarrow> to_int32 (outstanding_ticks k + uint (timer_hardware_get_counter k));
          k1 \<leftarrow> (if new_timer then put_delta h (delta_of k h + hw_cnt) k else Some k);
          if delta_of k1 h < delta_of k1 l then do {
            k2 \<leftarrow> put_delta l (delta_of k1 l - delta_of k1 h) k1;
            continue
              (if new_timer then do {
                 cnt \<leftarrow> to_int32 (delta_of k2 h - hw_cnt);
                 timer_set_hw_top call cnt True k2
               } else Some (Done k2))
              (\<lambda>k3. Some (Done (k3\<lparr>deltaq := h # deltaq k3\<rparr>)))
          } else do {
            k2 \<leftarrow> delta_walk h [] (l # ls) k1;
            Some (Done k2)
          }
        })"

definition find_timer :: "(addr \<Rightarrow> sos_timer_t) \<Rightarrow> sos_pid_t \<Rightarrow> u8 \<Rightarrow> addr list \<Rightarrow> addr" where
  "find_timer ts pid tid xs = (case find (\<lambda>p. t_pid (ts p) = pid \<and> t_tid (ts p) = tid) xs of Some p \<Rightarrow> p | None \<Rightarrow> NULL)"

definition find_timer_block :: "sos_pid_t \<Rightarrow> u8 \<Rightarrow> 'a timer_sys_scheme \<Rightarrow> addr" where
  "find_timer_block pid tid k = find_timer (timers k) pid tid (deltaq k)"

definition find_timer_in_periodic_pool :: "sos_pid_t \<Rightarrow> u8 \<Rightarrow> 'a timer_sys_scheme \<Rightarrow> 'a timer_sys_scheme \<times> addr" where
  "find_timer_in_periodic_pool pid tid k =
     (let tt = find_timer (timers k) pid tid (periodic_pool k)
      in if tt = NULL then (k, NULL) else (k\<lparr>periodic_pool := remove1 tt (periodic_pool k)\<rparr>, tt))"

definition alloc_from_preallocated_timer_pool :: "sos_pid_t \<Rightarrow> 'a timer_sys_scheme \<Rightarrow> 'a timer_sys_scheme \<times> addr" where
  "alloc_from_preallocated_timer_pool pid k =
     (case find (\<lambda>p. t_pid (timers k p) = pid) (prealloc_timer_pool k) of
        None \<Rightarrow> (k, NULL)
      | Some tt \<Rightarrow> (k\<lparr>prealloc_timer_pool := remove1 tt (prealloc_timer_pool k)\<rparr>, tt))"

definition alloc_from_timer_pool :: "sos_pid_t \<Rightarrow> u8 \<Rightarrow> 'a timer_sys_scheme \<Rightarrow> 'a timer_sys_scheme \<times> addr" where
  "alloc_from_timer_pool pid tid k =
     (let tt = find_timer (timers k) pid tid (timer_pool k)
      in if tt = NULL then (k, NULL) else (k\<lparr>timer_pool := remove1 tt (timer_pool k)\<rparr>, tt))"

text \<open>The successor of a timer in the queue, if there is one.\<close>

fun next_in :: "addr \<Rightarrow> addr list \<Rightarrow> addr option" where
  "next_in p [] = None"
| "next_in p (x # xs) = (if x = p then (case xs of [] \<Rightarrow> None | y # ys \<Rightarrow> Some y) else next_in p xs)"

text \<open>\<^verbatim>\<open>timer_remove_timer\<close> of a timer of the queue; the links of a list member are not NULL.\<close>

definition timer_remove_timer :: "addr \<Rightarrow> 'a timer_sys_scheme \<Rightarrow> 'a timer_sys_scheme option" where
  "timer_remove_timer tt k = do {
     k1 \<leftarrow> (case next_in tt (deltaq k) of
              Some n \<Rightarrow> if 0 < delta_of k tt then put_delta n (delta_of k n + delta_of k tt) k else Some k
            | None \<Rightarrow> Some k);
     Some (k1\<lparr>deltaq := remove1 tt (deltaq k1)\<rparr>)
   }"

fun update_walk :: "int \<Rightarrow> addr list \<Rightarrow> 'a timer_sys_scheme \<Rightarrow> 'a timer_sys_scheme option" where
  "update_walk delta [] k = Some k"
| "update_walk delta (h # hs) k =
     (if delta \<le> delta_of k h then put_delta h (delta_of k h - delta) k
      else do {
        let tmp = delta_of k h;
        k1 \<leftarrow> put_delta h (delta_of k h - delta) k;
        rest \<leftarrow> to_int32 (delta - tmp);
        update_walk rest hs k1
      })"

definition timer_update_delta :: "'a timer_sys_scheme \<Rightarrow> 'a timer_sys_scheme option" where
  "timer_update_delta k = update_walk (outstanding_ticks k) (deltaq k) (k\<lparr>outstanding_ticks := 0\<rparr>)"

subsection \<open>Initialisation and the blocks of a module\<close>

definition timer_init :: "'a timer_sys_scheme \<Rightarrow> 'a timer_sys_scheme option" where
  "timer_init k = do {
     let k1 = k\<lparr>deltaq := [], timer_pool := [], prealloc_timer_pool := [], periodic_pool := [],
               realtime := map (\<lambda>r. r\<lparr>rt_f := NULL\<rparr>) (realtime k)\<rparr>;
     (w, s, r) \<leftarrow> ker_slab_init TIMER_PID (timer_slab k1) TIMER_SIZE 4 SLAB_LONGTERM (smem k1);
     Some (k1\<lparr>smem := w, timer_slab := s\<rparr>)
   }"

definition timer_pre_alloc_block_init :: "addr \<Rightarrow> sos_pid_t \<Rightarrow> 'a timer_sys_scheme \<Rightarrow> 'a timer_sys_scheme" where
  "timer_pre_alloc_block_init h pid k =
     (upd_timer h (\<lambda>t. t\<lparr>t_pid := pid, t_flag := TIMER_PRE_ALLOCATED\<rparr>) k)\<lparr>prealloc_timer_pool := prealloc_timer_pool k @ [h]\<rparr>"

text \<open>Giving back blocks of the timer slab, one after the other.\<close>

fun free_timers :: "addr list \<Rightarrow> 'a timer_sys_scheme \<Rightarrow> 'a timer_sys_scheme outcome option" where
  "free_timers [] k = Some (Done k)"
| "free_timers (t # ts) k = continue (k_slab_free (timer_slab k) t k) (free_timers ts)"

text \<open>The allocation loop of \<^verbatim>\<open>timer_preallocate\<close>: the blocks, or None after giving all of them back.\<close>

fun preallocate_loop :: "nat \<Rightarrow> addr list \<Rightarrow> 'a timer_sys_scheme \<Rightarrow> ('a timer_sys_scheme \<times> addr list option) outcome option" where
  "preallocate_loop 0 tt k = Some (Done (k, Some tt))"
| "preallocate_loop (Suc n) tt k = do {
     (k1, p) \<leftarrow> k_slab_alloc (timer_slab k) TIMER_PID k;
     if p = NULL then continue (free_timers tt k1) (\<lambda>k2. Some (Done (k2, None)))
     else preallocate_loop n (tt @ [p]) k1
   }"

definition timer_preallocate :: "sos_pid_t \<Rightarrow> u8 \<Rightarrow> 'a timer_sys_scheme \<Rightarrow> ('a timer_sys_scheme \<times> int) outcome option" where
  "timer_preallocate pid num k =
     (if MAX_PRE_ALLOCATED_TIMERS < num then Some (Done (k, - EINVAL))
      else continue (preallocate_loop (unat num) [] k)
        (\<lambda>(k1, r). case r of
            None \<Rightarrow> Some (Done (k1, - ENOMEM))
          | Some tt \<Rightarrow> Some (Done (fold (\<lambda>h. timer_pre_alloc_block_init h pid) tt k1, SOS_OK))))"

text \<open>The loops of \<^verbatim>\<open>timer_remove_all\<close>: over the delta queue, and over one of the pools.\<close>

fun remove_running :: "sos_pid_t \<Rightarrow> addr list \<Rightarrow> 'a timer_sys_scheme \<Rightarrow> 'a timer_sys_scheme outcome option" where
  "remove_running pid [] k = Some (Done k)"
| "remove_running pid (h # hs) k =
     (if t_pid (timers k h) = pid then do {
        k1 \<leftarrow> timer_remove_timer h k;
        continue (k_slab_free (timer_slab k1) h k1) (remove_running pid hs)
      } else remove_running pid hs k)"

fun remove_pooled ::
    "(addr \<Rightarrow> 'a timer_sys_scheme \<Rightarrow> 'a timer_sys_scheme) \<Rightarrow> sos_pid_t \<Rightarrow> addr list \<Rightarrow> 'a timer_sys_scheme \<Rightarrow> 'a timer_sys_scheme outcome option" where
  "remove_pooled unlink pid [] k = Some (Done k)"
| "remove_pooled unlink pid (h # hs) k =
     (if t_pid (timers k h) = pid then
        continue (k_slab_free (timer_slab k) h (unlink h k)) (remove_pooled unlink pid hs)
      else remove_pooled unlink pid hs k)"

definition timer_remove_all :: "sos_pid_t \<Rightarrow> 'a timer_sys_scheme \<Rightarrow> ('a timer_sys_scheme \<times> int) outcome option" where
  "timer_remove_all pid k =
     continue (remove_running pid (deltaq k) k) (\<lambda>k1.
     continue (remove_pooled (\<lambda>h k. k\<lparr>timer_pool := remove1 h (timer_pool k)\<rparr>) pid (timer_pool k1) k1) (\<lambda>k2.
     continue (remove_pooled (\<lambda>h k. k\<lparr>prealloc_timer_pool := remove1 h (prealloc_timer_pool k)\<rparr>) pid (prealloc_timer_pool k2) k2) (\<lambda>k3.
     continue (remove_pooled (\<lambda>h k. k\<lparr>periodic_pool := remove1 h (periodic_pool k)\<rparr>) pid (periodic_pool k3) k3) (\<lambda>k4.
     Some (Done (k4, SOS_OK))))))"

subsection \<open>The timer interface\<close>

definition to_pool :: "addr \<Rightarrow> 'a timer_sys_scheme \<Rightarrow> 'a timer_sys_scheme" where
  "to_pool tt k = k\<lparr>timer_pool := timer_pool k @ [tt]\<rparr>"

definition ker_timer_stop :: "sos_pid_t \<Rightarrow> u8 \<Rightarrow> 'a timer_sys_scheme \<Rightarrow> ('a timer_sys_scheme \<times> int) option" where
  "ker_timer_stop pid tid k = do {
     let (k1, tt) = find_timer_in_periodic_pool pid tid k;
     if tt = NULL then do {
       let tt = find_timer_block pid tid k1;
       if tt = NULL then Some (k1, - EINVAL)
       else do {
         k2 \<leftarrow> timer_remove_timer tt k1;
         Some (to_pool tt k2, SOS_OK)
       }
     } else Some (to_pool tt k1, SOS_OK)
   }"

definition ker_timer_init :: "sos_pid_t \<Rightarrow> u8 \<Rightarrow> u8 \<Rightarrow> 'a timer_sys_scheme \<Rightarrow> ('a timer_sys_scheme \<times> int) option" where
  "ker_timer_init pid tid type k = do {
     let (k1, tt) = find_timer_in_periodic_pool pid tid k;
     if tt \<noteq> NULL then Some (to_pool tt (upd_timer tt (\<lambda>t. t\<lparr>t_type := type\<rparr>) k1), SOS_OK)
     else do {
       let tt = find_timer_block pid tid k1;
       if tt \<noteq> NULL then do {
         (k2, r) \<leftarrow> ker_timer_stop pid tid k1;
         Some (upd_timer tt (\<lambda>t. t\<lparr>t_type := type\<rparr>) k2, SOS_OK)
       } else do {
         let (k2, tt) = alloc_from_timer_pool pid tid k1;
         (k3, tt) \<leftarrow>
           (if tt \<noteq> NULL then Some (k2, tt)
            else do {
              let (k3, tt) = alloc_from_preallocated_timer_pool pid k2;
              if tt = NULL then k_slab_alloc (timer_slab k3) TIMER_PID k3 else Some (k3, tt)
            });
         if tt = NULL then Some (k3, - ENOMEM)
         else Some (to_pool tt (upd_timer tt (\<lambda>t. t\<lparr>t_type := type, t_pid := pid, t_tid := tid\<rparr>) k3), SOS_OK)
       }
     }
   }"

definition ker_permanent_timer_init :: "addr \<Rightarrow> sos_pid_t \<Rightarrow> u8 \<Rightarrow> u8 \<Rightarrow> 'a timer_sys_scheme \<Rightarrow> 'a timer_sys_scheme \<times> int" where
  "ker_permanent_timer_init tt pid tid type k =
     (to_pool tt (upd_timer tt (\<lambda>t. t\<lparr>t_type := type OR PERMANENT_TIMER_MASK, t_pid := pid, t_tid := tid\<rparr>) k), SOS_OK)"

definition ker_timer_start ::
    "'a timer_sys_scheme callbacks \<Rightarrow> sos_pid_t \<Rightarrow> u8 \<Rightarrow> int \<Rightarrow> 'a timer_sys_scheme \<Rightarrow> ('a timer_sys_scheme \<times> int) outcome option" where
  "ker_timer_start call pid tid interval k =
     (let (k1, tt) = alloc_from_timer_pool pid tid k in
      if tt = NULL then Some (Done (k1, - EINVAL))
      else continue (timer_delta_q_insert call tt True (upd_timer tt (\<lambda>t. t\<lparr>t_ticks := interval, t_delta := interval\<rparr>) k1))
             (\<lambda>k2. Some (Done (k2, SOS_OK))))"

definition ker_timer_stop_and_release :: "sos_pid_t \<Rightarrow> u8 \<Rightarrow> 'a timer_sys_scheme \<Rightarrow> ('a timer_sys_scheme \<times> int) outcome option" where
  "ker_timer_stop_and_release pid tid k = do {
     (k1, r) \<leftarrow> ker_timer_stop pid tid k;
     let (k2, tt) = alloc_from_timer_pool pid tid k1;
     if tt = NULL then Some (Done (k2, - EINVAL))
     else continue (k_slab_free (timer_slab k2) tt k2) (\<lambda>k3. Some (Done (k3, SOS_OK)))
   }"

definition ker_timer_restart ::
    "'a timer_sys_scheme callbacks \<Rightarrow> sos_pid_t \<Rightarrow> u8 \<Rightarrow> int \<Rightarrow> 'a timer_sys_scheme \<Rightarrow> ('a timer_sys_scheme \<times> int) outcome option" where
  "ker_timer_restart call pid tid interval k = do {
     let (k1, tt) = find_timer_in_periodic_pool pid tid k;
     (k2, tt) \<leftarrow>
       (if tt \<noteq> NULL then Some (k1, tt)
        else do {
          let tt = find_timer_block pid tid k1;
          if tt \<noteq> NULL then do {
            k2 \<leftarrow> timer_remove_timer tt k1;
            Some (k2, tt)
          } else Some (alloc_from_timer_pool pid tid k1)
        });
     if tt = NULL then Some (Done (k2, - EINVAL))
     else do {
       let interval = (if interval \<le> 0 then t_ticks (timers k2 tt) else interval);
       if interval < TIMER_MIN_INTERVAL then Some (Done (to_pool tt k2, - EPERM))
       else continue (timer_delta_q_insert call tt True (upd_timer tt (\<lambda>t. t\<lparr>t_ticks := interval, t_delta := interval\<rparr>) k2))
              (\<lambda>k3. Some (Done (k3, SOS_OK)))
     }
   }"

text \<open>The calls of modules; an error of the kernel is a panic of the module.\<close>

definition ker_sys_timer_start ::
    "'a timer_sys_scheme callbacks \<Rightarrow> u8 \<Rightarrow> int \<Rightarrow> u8 \<Rightarrow> 'a timer_sys_scheme \<Rightarrow> ('a timer_sys_scheme \<times> int) outcome option" where
  "ker_sys_timer_start call tid interval type k = do {
     let my_id = ker_get_current_pid k;
     (k1, r) \<leftarrow> ker_timer_init my_id tid type k;
     if r \<noteq> SOS_OK then Some Panic
     else continue (ker_timer_start call my_id tid interval k1)
            (\<lambda>(k2, r). if r \<noteq> SOS_OK then Some Panic else Some (Done (k2, SOS_OK)))
   }"

definition ker_sys_timer_restart ::
    "'a timer_sys_scheme callbacks \<Rightarrow> u8 \<Rightarrow> int \<Rightarrow> 'a timer_sys_scheme \<Rightarrow> ('a timer_sys_scheme \<times> int) outcome option" where
  "ker_sys_timer_restart call tid interval k =
     continue (ker_timer_restart call (ker_get_current_pid k) tid interval k)
       (\<lambda>(k1, r). if r \<noteq> SOS_OK then Some Panic else Some (Done (k1, SOS_OK)))"

definition ker_sys_timer_stop :: "u8 \<Rightarrow> 'a timer_sys_scheme \<Rightarrow> ('a timer_sys_scheme \<times> int) outcome option" where
  "ker_sys_timer_stop tid k = ker_timer_stop_and_release (ker_get_current_pid k) tid k"

subsection \<open>Expiry\<close>

text \<open>\<^verbatim>\<open>while(h->delta <= 0) h->delta += h->ticks\<close>; it does not return if the ticks are not positive.\<close>

partial_function (option) next_delta :: "int \<Rightarrow> int \<Rightarrow> int option" where
  "next_delta ticks d =
     (if d \<le> 0 then do {
        d1 \<leftarrow> to_int32 (d + ticks);
        next_delta ticks d1
      } else Some d)"

declare next_delta.simps [code]

text \<open>The timeout of the timer at the head of the queue, up to the dispatch of its message.\<close>

definition expire_head :: "addr \<Rightarrow> addr list \<Rightarrow> 'a timer_sys_scheme \<Rightarrow> 'a timer_sys_scheme option" where
  "expire_head h q k = do {
     let k1 = k\<lparr>deltaq := q\<rparr>;
     if t_type (timers k1 h) AND ONE_SHOT_TIMER_MASK = 0 then do {
       d \<leftarrow> next_delta (t_ticks (timers k1 h)) (delta_of k1 h);
       Some ((set_delta h d k1)\<lparr>periodic_pool := periodic_pool k1 @ [h]\<rparr>)
     } else Some (to_pool h k1)
   }"

partial_function (option) expire_loop ::
    "'a timer_sys_scheme handler \<Rightarrow> 'a timer_sys_scheme \<Rightarrow> 'a timer_sys_scheme outcome option" where
  "expire_loop run k =
     (case deltaq k of
        [] \<Rightarrow> Some (Done k)
      | h # q \<Rightarrow>
          if delta_of k h \<le> 0 then do {
            k1 \<leftarrow> expire_head h q k;
            r \<leftarrow> sched_dispatch_short_message run (t_pid (timers k h)) TIMER_PID MSG_TIMER_TIMEOUT (t_tid (timers k h)) 0
                  (if t_type (timers k h) AND SLOW_TIMER_MASK = 0 then ucast (ucast SOS_MSG_HIGH_PRIORITY :: u8) else 0) k1;
            case r of Panic \<Rightarrow> Some Panic | Done k2 \<Rightarrow> expire_loop run k2
          } else Some (Done k))"

declare expire_loop.simps [code]

text \<open>The second loop of \<^verbatim>\<open>soft_interrupt\<close>; its insertions do not touch the hardware.\<close>

fun reinsert_loop :: "'a timer_sys_scheme callbacks \<Rightarrow> addr list \<Rightarrow> 'a timer_sys_scheme \<Rightarrow> 'a timer_sys_scheme outcome option" where
  "reinsert_loop call [] k = Some (Done k)"
| "reinsert_loop call (p # ps) k = continue (timer_delta_q_insert call p False (k\<lparr>periodic_pool := ps\<rparr>)) (reinsert_loop call ps)"

text \<open>The last part of \<^verbatim>\<open>soft_interrupt\<close>: the next interrupt of the hardware.\<close>

definition schedule_next :: "'a timer_sys_scheme callbacks \<Rightarrow> 'a timer_sys_scheme \<Rightarrow> 'a timer_sys_scheme outcome option" where
  "schedule_next call k =
     (case deltaq k of
        [] \<Rightarrow> timer_set_hw_top call MAX_SLEEP_INTERVAL False k
      | h # q \<Rightarrow> do {
          hw_cnt \<leftarrow> to_int32 (outstanding_ticks k - uint (timer_hardware_get_counter k));
          cnt \<leftarrow> to_int32 (delta_of k h - hw_cnt);
          if 0 < cnt then timer_set_hw_top call cnt True k
          else Some (Done (sched_add_interrupt SCHED_TIMER_INT SOFT_INTERRUPT k))
        })"

definition soft_interrupt ::
    "'a timer_sys_scheme handler \<Rightarrow> 'a timer_sys_scheme callbacks \<Rightarrow> 'a timer_sys_scheme \<Rightarrow> 'a timer_sys_scheme outcome option" where
  "soft_interrupt run call k = do {
     k0 \<leftarrow> timer_update_delta k;
     continue (expire_loop run k0) (\<lambda>k1.
     continue (reinsert_loop call (periodic_pool k1) k1) (schedule_next call))
   }"

definition timer_interrupt :: "'a timer_sys_scheme callbacks \<Rightarrow> 'a timer_sys_scheme \<Rightarrow> 'a timer_sys_scheme outcome option" where
  "timer_interrupt call k = do {
     let cnt = timer_getInterval k;
     n \<leftarrow> to_int32 (outstanding_ticks k + uint cnt);
     let k1 = sched_add_interrupt SCHED_TIMER_INT SOFT_INTERRUPT (k\<lparr>outstanding_ticks := n\<rparr>);
     if 0 < num_realtime_clock k1 then
       continue (timer_update_realtime_clock call cnt k1) (\<lambda>(k2, mn). Some (Done (timer_set_hw_interval (uint mn) k2)))
     else Some (Done k1)
   }"

subsection \<open>Garbage collection\<close>

fun mark_timers :: "addr list \<Rightarrow> 'a timer_sys_scheme \<Rightarrow> 'a timer_sys_scheme option" where
  "mark_timers [] k = Some k"
| "mark_timers (p # ps) k =
     (if t_type (timers k p) AND PERMANENT_TIMER_MASK = 0 then do {
        w \<leftarrow> slab_gc_mark (timer_slab k) p (smem k);
        mark_timers ps (k\<lparr>smem := w\<rparr>)
      } else mark_timers ps k)"

definition timer_gc :: "'a timer_sys_scheme \<Rightarrow> 'a timer_sys_scheme option" where
  "timer_gc k = do {
     k1 \<leftarrow> mark_timers (deltaq k) k;
     k2 \<leftarrow> mark_timers (timer_pool k) k1;
     k3 \<leftarrow> mark_timers (prealloc_timer_pool k) k2;
     k4 \<leftarrow> mark_timers (periodic_pool k) k3;
     w \<leftarrow> slab_gc (timer_slab k4) TIMER_PID (smem k4);
     h \<leftarrow> malloc_gc TIMER_PID (s_heap w);
     Some (k4\<lparr>smem := w\<lparr>s_heap := h\<rparr>\<rparr>)
   }"

end
