(* ===== verification/Timer_Range.thy ===== *)
theory Timer_Range
  imports Timer
begin

text \<open>
  The timers compute with \<^verbatim>\<open>int32_t\<close>. Ticks, deltas and the outstanding ticks are in its range at all
  times: an operation that returns has kept all of them there, when the interval that it was given, the
  handlers and the callbacks did.
\<close>

section \<open>Numbers of 32 bits\<close>

lemma int32_between: "- INT32_MAX \<le> x \<Longrightarrow> x \<le> INT32_MAX \<Longrightarrow> int32 x"
  by (simp add: int32_def)

lemma to_int32_fits: "int32 x \<Longrightarrow> to_int32 x = Some x"
  by (simp add: to_int32_def)

lemma put_delta_fits: "int32 x \<Longrightarrow> put_delta p x k = Some (set_delta p x k)"
  by (simp add: put_delta_def to_int32_def)

lemma uint8_small: "uint (c :: u8) \<le> 255"
  using uint_lt2p [of c] by simp

text \<open>Every number of the timers is one of 32 bits.\<close>

definition int32_timers :: "'a timer_sys_scheme \<Rightarrow> bool" where
  "int32_timers k \<longleftrightarrow> int32 (outstanding_ticks k) \<and> (\<forall>p. int32 (t_ticks (timers k p)) \<and> int32 (delta_of k p))"

lemma int32_timersD:
  assumes "int32_timers k"
  shows "outstanding_ticks k \<le> INT32_MAX" "delta_of k p \<le> INT32_MAX" "t_ticks (timers k p) \<le> INT32_MAX"
  using assms by (simp_all add: int32_timers_def int32_def)

lemma delta_of_set [simp]: "delta_of (set_delta p d k) = (delta_of k)(p := d)"
  by (auto simp: delta_of_def set_delta_def upd_timer_def)

lemma set_delta_frame [simp]:
  "deltaq (set_delta p d k) = deltaq k" "outstanding_ticks (set_delta p d k) = outstanding_ticks k"
  "TCNT0 (set_delta p d k) = TCNT0 k" "OCR0 (set_delta p d k) = OCR0 k" "num_realtime_clock (set_delta p d k) = num_realtime_clock k"
  "timer_pool (set_delta p d k) = timer_pool k" "periodic_pool (set_delta p d k) = periodic_pool k"
  "prealloc_timer_pool (set_delta p d k) = prealloc_timer_pool k"
  by (simp_all add: set_delta_def upd_timer_def)

lemma delta_of_frame [simp]:
  "delta_of (k\<lparr>deltaq := q\<rparr>) = delta_of k" "delta_of (k\<lparr>outstanding_ticks := n\<rparr>) = delta_of k"
  "delta_of (k\<lparr>TCNT0 := c\<rparr>) = delta_of k" "delta_of (k\<lparr>OCR0 := c\<rparr>) = delta_of k"
  "delta_of (k\<lparr>timer_pool := q\<rparr>) = delta_of k" "delta_of (k\<lparr>periodic_pool := q\<rparr>) = delta_of k"
  by (auto simp: delta_of_def)

definition keeps_int32 :: "('a timer_sys_scheme \<Rightarrow> 'a timer_sys_scheme outcome option) \<Rightarrow> bool" where
  "keeps_int32 g \<longleftrightarrow> (\<forall>k k'. int32_timers k \<longrightarrow> g k = Some (Done k') \<longrightarrow> int32_timers k')"

lemma keeps_int32D: "keeps_int32 g \<Longrightarrow> int32_timers k \<Longrightarrow> g k = Some (Done k') \<Longrightarrow> int32_timers k'"
  by (simp add: keeps_int32_def)

lemma continue_Done: "continue r f = Some (Done y) \<longleftrightarrow> (\<exists>x. r = Some (Done x) \<and> f x = Some (Done y))"
  by (cases r rule: option.exhaust; cases "the r") (auto simp: continue_def)

lemma case_Done: "(case r of Panic \<Rightarrow> Some Panic | Done x \<Rightarrow> f x) = Some (Done y) \<longleftrightarrow> (\<exists>x. r = Done x \<and> f x = Some (Done y))"
  by (cases r) auto

lemma int32_timers_cong:
  assumes "timers k' = timers k" "outstanding_ticks k' = outstanding_ticks k"
  shows "int32_timers k' = int32_timers k"
  using assms by (simp add: int32_timers_def delta_of_def)

lemma int32_timers_frame [simp]:
  "int32_timers (k\<lparr>deltaq := q\<rparr>) = int32_timers k" "int32_timers (k\<lparr>timer_pool := q\<rparr>) = int32_timers k"
  "int32_timers (k\<lparr>periodic_pool := q\<rparr>) = int32_timers k" "int32_timers (k\<lparr>prealloc_timer_pool := q\<rparr>) = int32_timers k"
  "int32_timers (k\<lparr>TCNT0 := c\<rparr>) = int32_timers k" "int32_timers (k\<lparr>OCR0 := c\<rparr>) = int32_timers k"
  "int32_timers (k\<lparr>realtime := rs\<rparr>) = int32_timers k" "int32_timers (k\<lparr>num_realtime_clock := m\<rparr>) = int32_timers k"
  "int32_timers (k\<lparr>mod_cache := p\<rparr>) = int32_timers k" "int32_timers (to_pool tt k) = int32_timers k"
  "int32_timers (timer_set_hw_interval n k) = int32_timers k" "int32_timers (sched_add_interrupt i a k) = int32_timers k"
  by (rule int32_timers_cong;
      simp add: to_pool_def timer_set_hw_interval_def timer_setInterval_def sched_add_interrupt_def Let_def)+

lemma int32_outstanding: "int32_timers k \<Longrightarrow> int32 n \<Longrightarrow> int32_timers (k\<lparr>outstanding_ticks := n\<rparr>)"
  by (simp add: int32_timers_def)

lemma int32_zero: "int32 0"
  by (simp add: int32_def INT32_MAX_def)

lemma to_int32_Some: "to_int32 x = Some y \<longleftrightarrow> y = x \<and> int32 x"
  by (auto simp: to_int32_def)

lemma int32_set_delta: "int32_timers k \<Longrightarrow> int32 x \<Longrightarrow> int32_timers (set_delta p x k)"
  by (simp add: int32_timers_def) (simp add: set_delta_def upd_timer_def)

lemma int32_put_delta: "int32_timers k \<Longrightarrow> put_delta p x k = Some k' \<Longrightarrow> int32_timers k'"
  by (auto simp: put_delta_def to_int32_Some int32_set_delta split: bind_splits)

lemma int32_timers_interval: "int32_timers k \<Longrightarrow> int32 n \<Longrightarrow> int32_timers (upd_timer p (\<lambda>t. t\<lparr>t_ticks := n, t_delta := n\<rparr>) k)"
  by (simp add: int32_timers_def upd_timer_def delta_of_def)

section \<open>The clock and the delta queue\<close>

lemma realtime_loop_int32: "realtime_loop cnt is mn fs k = (k', r) \<Longrightarrow> int32_timers k' = int32_timers k"
  by (induction cnt "is" mn fs k arbitrary: k' r rule: realtime_loop.induct) (auto simp: Let_def split: if_splits)

lemma realtime_calls_int32: "\<forall>f. keeps_int32 (call f) \<Longrightarrow> int32_timers k \<Longrightarrow> realtime_calls call fs k = Some (Done k') \<Longrightarrow> int32_timers k'"
  by (induction fs arbitrary: k) (auto simp: continue_Done split: if_splits dest: keeps_int32D)

lemma update_realtime_int32:
  assumes "\<forall>f. keeps_int32 (call f)" "int32_timers k" "timer_update_realtime_clock call cnt k = Some (Done (k', mn))"
  shows "int32_timers k'"
proof -
  obtain k1 fs where "realtime_loop cnt [0..<MAX_REALTIME_CLOCK] 65535 [] k = (k1, mn, fs)" "realtime_calls call fs k1 = Some (Done k')"
    using assms(3) by (auto simp: timer_update_realtime_clock_def continue_Done split: prod.splits)
  then show ?thesis
    using realtime_loop_int32 realtime_calls_int32 [OF assms(1)] assms(2) by blast
qed

text \<open>Callbacks run only for real-time clocks.\<close>

lemma set_hw_top_int32:
  assumes "num_realtime_clock k = 0 \<or> (\<forall>f. keeps_int32 (call f))" "int32_timers k" "timer_set_hw_top call n u k = Some (Done k')"
  shows "int32_timers k'"
proof -
  obtain m where m: "int32 m" "(if 0 < num_realtime_clock k then
      continue (timer_update_realtime_clock call (timer_hardware_get_counter k) (k\<lparr>outstanding_ticks := m\<rparr>))
        (\<lambda>(k2, c). Some (Done (timer_set_hw_interval (if uint c < n then uint c else n) k2)))
    else Some (Done (timer_set_hw_interval n (k\<lparr>outstanding_ticks := m\<rparr>)))) = Some (Done k')"
    using assms(3) int32_zero by (auto simp: timer_set_hw_top_def Let_def to_int32_Some split: bind_splits if_splits)
  have k: "int32_timers (k\<lparr>outstanding_ticks := m\<rparr>)"
    using assms(2) m(1) by (rule int32_outstanding)
  show ?thesis
  proof (cases "0 < num_realtime_clock k")
    case True
    then show ?thesis
      using m(2) assms(1) update_realtime_int32 [OF _ k, of call] by (auto simp: continue_Done)
  next
    case False
    then show ?thesis using m(2) k by auto
  qed
qed

lemma delta_walk_int32: "int32_timers k \<Longrightarrow> delta_walk h ps cs k = Some k' \<Longrightarrow> int32_timers k'"
  by (induction h ps cs k rule: delta_walk.induct) (auto split: if_splits bind_splits dest: int32_put_delta)

lemma put_delta_frame: "put_delta p x k = Some k' \<Longrightarrow> num_realtime_clock k' = num_realtime_clock k"
  by (auto simp: put_delta_def split: bind_splits)

lemma insert_int32:
  assumes "num_realtime_clock k = 0 \<or> (\<forall>f. keeps_int32 (call f))" "int32_timers k" "timer_delta_q_insert call h b k = Some (Done k')"
  shows "int32_timers k'"
proof (cases "deltaq k")
  case Nil
  then show ?thesis
    using assms(2,3) set_hw_top_int32 [OF assms(1,2)] by (auto simp: timer_delta_q_insert_def continue_Done split: if_splits)
next
  case (Cons l ls)
  then obtain k1 where k1: "int32_timers k1" "num_realtime_clock k1 = num_realtime_clock k" and
    r: "(if delta_of k1 h < delta_of k1 l then do {
       k2 \<leftarrow> put_delta l (delta_of k1 l - delta_of k1 h) k1;
       continue (if b then do { cnt \<leftarrow> to_int32 (delta_of k2 h - (outstanding_ticks k + uint (TCNT0 k))); timer_set_hw_top call cnt True k2 } else Some (Done k2))
         (\<lambda>k3. Some (Done (k3\<lparr>deltaq := h # deltaq k3\<rparr>)))
     } else do { k2 \<leftarrow> delta_walk h [] (l # ls) k1; Some (Done k2) }) = Some (Done k')"
  proof -
    let ?e = "outstanding_ticks k + uint (TCNT0 k)"
    have fits: "to_int32 ?e = Some ?e"
      using assms(3) Cons by (auto simp: timer_delta_q_insert_def timer_hardware_get_counter_def to_int32_def split: bind_splits if_splits)
    obtain k1 where k1: "(if b then put_delta h (delta_of k h + ?e) k else Some k) = Some k1"
      using assms(3) fits unfolding timer_delta_q_insert_def Cons list.case timer_hardware_get_counter_def
      by (cases "if b then put_delta h (delta_of k h + ?e) k else Some k") auto
    have "int32_timers k1" "num_realtime_clock k1 = num_realtime_clock k"
      using k1 int32_put_delta [OF assms(2)] put_delta_frame assms(2) by (auto split: if_splits)
    then show ?thesis
      using assms(3) that unfolding timer_delta_q_insert_def Cons list.case timer_hardware_get_counter_def
      by (simp only: fits k1 Option.bind.bind_lunit)
  qed
  show ?thesis
  proof (cases "delta_of k1 h < delta_of k1 l")
    case False
    then show ?thesis
      using r delta_walk_int32 [OF k1(1)] by (auto simp del: delta_walk.simps split: bind_splits)
  next
    case True
    then obtain k2 k3 where k2: "put_delta l (delta_of k1 l - delta_of k1 h) k1 = Some k2" "k' = k3\<lparr>deltaq := h # deltaq k3\<rparr>"
      "(if b then do { cnt \<leftarrow> to_int32 (delta_of k2 h - (outstanding_ticks k + uint (TCNT0 k))); timer_set_hw_top call cnt True k2 } else Some (Done k2)) = Some (Done k3)"
    proof -
      from r True obtain k2 where p: "put_delta l (delta_of k1 l - delta_of k1 h) k1 = Some k2"
        by (cases "put_delta l (delta_of k1 l - delta_of k1 h) k1") auto
      with r True that show ?thesis
        by (simp only: if_True Option.bind.bind_lunit continue_Done option.inject outcome.inject) blast
    qed
    have "int32_timers k2" "num_realtime_clock k2 = num_realtime_clock k"
      using int32_put_delta [OF k1(1) k2(1)] put_delta_frame [OF k2(1)] k1(2) by simp_all
    then have "int32_timers k3"
      using k2(3) assms(1) set_hw_top_int32 [of k2 call _ True k3] by (auto split: if_splits bind_splits)
    then show ?thesis
      by (simp add: k2(2))
  qed
qed

lemma remove_timer_int32: "int32_timers k \<Longrightarrow> timer_remove_timer tt k = Some k' \<Longrightarrow> int32_timers k'"
  by (auto simp: timer_remove_timer_def split: bind_splits option.splits if_splits dest: int32_put_delta)

lemma update_walk_int32: "int32_timers k \<Longrightarrow> update_walk d hs k = Some k' \<Longrightarrow> int32_timers k'"
  by (induction d hs k rule: update_walk.induct) (auto simp: Let_def split: if_splits bind_splits dest: int32_put_delta)

lemma update_delta_int32: "int32_timers k \<Longrightarrow> timer_update_delta k = Some k' \<Longrightarrow> int32_timers k'"
  unfolding timer_update_delta_def by (rule update_walk_int32 [OF int32_outstanding [OF _ int32_zero]])

section \<open>The interface and the interrupts\<close>

lemma ker_timer_start_int32:
  assumes "num_realtime_clock k = 0 \<or> (\<forall>f. keeps_int32 (call f))" "int32_timers k" "int32 interval"
    "ker_timer_start call pid tid interval k = Some (Done (k', r))"
  shows "int32_timers k'"
proof -
  obtain k1 tt where a: "alloc_from_timer_pool pid tid k = (k1, tt)" by fastforce
  then have k1: "int32_timers k1" "num_realtime_clock k1 = num_realtime_clock k"
    using assms(2) by (auto simp: alloc_from_timer_pool_def Let_def split: if_splits)
  let ?k = "upd_timer tt (\<lambda>t. t\<lparr>t_ticks := interval, t_delta := interval\<rparr>) k1"
  have "num_realtime_clock ?k = num_realtime_clock k" "int32_timers ?k"
    using k1 int32_timers_interval [OF k1(1) assms(3)] by (simp_all add: upd_timer_def)
  then show ?thesis
    using assms(1,4) a k1(1) insert_int32 [of ?k call tt True k'] by (auto simp: ker_timer_start_def continue_Done split: if_splits)
qed

lemma ker_timer_stop_int32: "int32_timers k \<Longrightarrow> ker_timer_stop pid tid k = Some (k', r) \<Longrightarrow> int32_timers k'"
  by (auto simp: ker_timer_stop_def find_timer_in_periodic_pool_def Let_def split: if_splits bind_splits dest: remove_timer_int32)

lemma next_delta_int32: "next_delta ticks d = Some r \<Longrightarrow> int32 d \<longrightarrow> int32 r"
proof (rule next_delta.raw_induct [where P = "\<lambda>t d r. int32 d \<longrightarrow> int32 r"])
  fix nd :: "int \<Rightarrow> int \<Rightarrow> int option" and t d r
  assume "\<And>t d r. nd t d = Some r \<Longrightarrow> int32 d \<longrightarrow> int32 r"
    "(if d \<le> 0 then do { d1 \<leftarrow> to_int32 (d + t); nd t d1 } else Some d) = Some r"
  then show "int32 d \<longrightarrow> int32 r"
    by (auto simp: to_int32_Some split: if_splits bind_splits)
qed

lemma expire_head_int32: "int32_timers k \<Longrightarrow> expire_head h q k = Some k' \<Longrightarrow> int32_timers k'"
  using next_delta_int32
  by (fastforce simp: expire_head_def Let_def int32_timers_def [of k] split: if_splits bind_splits
      intro!: int32_set_delta simp del: delta_of_set)

lemma get_module_frame: "ker_get_module pid k = Some (k', h) \<Longrightarrow> \<exists>c. k' = k\<lparr>mod_cache := c\<rparr>"
  by (auto simp: ker_get_module_def split: if_splits bind_splits intro: exI [of _ "mod_cache k"])

text \<open>The same for the handlers of the modules.\<close>

definition handlers_int32 :: "'a timer_sys_scheme handler \<Rightarrow> bool" where
  "handlers_int32 run \<longleftrightarrow> (\<forall>f s m k k' r. int32_timers k \<longrightarrow> run f s m k = Some (Done (k', r)) \<longrightarrow> int32_timers k')"

lemma dispatch_int32:
  assumes "handlers_int32 run" "int32_timers k" "sched_dispatch_short_message run dst src ty b w fl k = Some (Done k')"
  shows "int32_timers k'"
proof -
  obtain k1 h where k1: "ker_get_module dst k = Some (k1, h)"
    using assms(3) by (auto simp: sched_dispatch_short_message_def split: bind_splits)
  have i1: "int32_timers k1"
    using get_module_frame [OF k1] assms(2) by auto
  show ?thesis
  proof (cases "h = NULL")
    case True
    then show ?thesis
      using assms(3) i1 by (simp add: sched_dispatch_short_message_def k1)
  next
    case False
    define k2 where "k2 = upd_msg (short_msg k1) (\<lambda>x. x\<lparr>m_did := dst, m_sid := src, m_type := ty\<rparr>) k1"
    define k3 where "k3 = k2\<lparr>bytes_of := put_bytes (m_data (headers k2 (short_msg k1))) (b # word_bytes w) (bytes_of k2)\<rparr>"
    define k4 where "k4 = (upd_msg (short_msg k1) (\<lambda>x. x\<lparr>m_flag := fl\<rparr>) k3)\<lparr>curr_pid := dst\<rparr>"
    have k4: "timers k4 = timers k1" "outstanding_ticks k4 = outstanding_ticks k1"
      by (simp_all add: k4_def k3_def k2_def upd_msg_def set_msg_def)
    obtain r where "run (module_handler (mod_rom k1 (mod_header (mods k1 h)))) (handler_state (mods k1 h)) (short_msg k1) k4 = Some (Done (k', r))"
      using assms(3) False
      by (auto simp: sched_dispatch_short_message_def k1 Let_def k2_def k3_def k4_def bind_eq_Some_conv case_Done)
    then show ?thesis
      using assms(1) i1 int32_timers_cong [OF k4(1,2)] unfolding handlers_int32_def by blast
  qed
qed

lemma expire_loop_int32:
  assumes "handlers_int32 run" "int32_timers k" "expire_loop run k = Some (Done k')"
  shows "int32_timers k'"
proof -
  have "expire_loop run k = Some r \<Longrightarrow> handlers_int32 run \<longrightarrow> int32_timers k \<longrightarrow> (\<forall>k'. r = Done k' \<longrightarrow> int32_timers k')" for r
  proof (rule expire_loop.raw_induct [where P = "\<lambda>run k r. handlers_int32 run \<longrightarrow> int32_timers k \<longrightarrow> (\<forall>k'. r = Done k' \<longrightarrow> int32_timers k')"])
    fix loop :: "'a timer_sys_scheme handler \<Rightarrow> 'a timer_sys_scheme \<Rightarrow> 'a timer_sys_scheme outcome option" and run k r
    assume IH: "\<And>run k r. loop run k = Some r \<Longrightarrow> handlers_int32 run \<longrightarrow> int32_timers k \<longrightarrow> (\<forall>k'. r = Done k' \<longrightarrow> int32_timers k')"
      and eq: "(case deltaq k of
        [] \<Rightarrow> Some (Done k)
      | h # q \<Rightarrow>
          if delta_of k h \<le> 0 then do {
            k1 \<leftarrow> expire_head h q k;
            r \<leftarrow> sched_dispatch_short_message run (t_pid (timers k h)) TIMER_PID MSG_TIMER_TIMEOUT (t_tid (timers k h)) 0
                  (if t_type (timers k h) AND SLOW_TIMER_MASK = 0 then ucast (ucast SOS_MSG_HIGH_PRIORITY :: u8) else 0) k1;
            case r of Panic \<Rightarrow> Some Panic | Done k2 \<Rightarrow> loop run k2
          } else Some (Done k)) = Some r"
    show "handlers_int32 run \<longrightarrow> int32_timers k \<longrightarrow> (\<forall>k'. r = Done k' \<longrightarrow> int32_timers k')"
    proof (intro impI allI)
      fix k' assume h: "handlers_int32 run" "int32_timers k" "r = Done k'"
      show "int32_timers k'"
      proof (cases "\<exists>h q. deltaq k = h # q \<and> delta_of k h \<le> 0")
        case False
        then show ?thesis using eq h by (auto split: list.splits if_splits)
      next
        case True
        then obtain x q where x: "deltaq k = x # q" "delta_of k x \<le> 0" by blast
        let ?fl = "if t_type (timers k x) AND SLOW_TIMER_MASK = 0 then ucast (ucast SOS_MSG_HIGH_PRIORITY :: u8) else 0"
        obtain k1 k2 where k1: "expire_head x q k = Some k1" "loop run k2 = Some (Done k')"
          "sched_dispatch_short_message run (t_pid (timers k x)) TIMER_PID MSG_TIMER_TIMEOUT (t_tid (timers k x)) 0 ?fl k1 = Some (Done k2)"
          using eq x h(3) by (auto simp: bind_eq_Some_conv case_Done)
        then show ?thesis
          using IH [OF k1(2)] dispatch_int32 [OF h(1) expire_head_int32 [OF h(2) k1(1)] k1(3)] h(1) by blast
      qed
    qed
  qed
  then show ?thesis using assms by blast
qed

lemma reinsert_loop_int32:
  "\<forall>f. keeps_int32 (call f) \<Longrightarrow> int32_timers k \<Longrightarrow> reinsert_loop call ps k = Some (Done k') \<Longrightarrow> int32_timers k'"
  by (induction ps arbitrary: k) (auto simp: continue_Done dest!: insert_int32 [rotated 2])

lemma schedule_next_int32:
  assumes "\<forall>f. keeps_int32 (call f)" "int32_timers k" "schedule_next call k = Some (Done k')"
  shows "int32_timers k'"
  using assms(2,3) set_hw_top_int32 [of k call _ _ k'] assms(1)
  by (auto simp: schedule_next_def split: list.splits bind_splits if_splits)

lemma soft_interrupt_int32:
  assumes "handlers_int32 run" "\<forall>f. keeps_int32 (call f)"
  shows "keeps_int32 (soft_interrupt run call)"
  unfolding keeps_int32_def
proof (intro allI impI)
  fix k k' assume k: "int32_timers k" "soft_interrupt run call k = Some (Done k')"
  then obtain k0 k1 k2 where "timer_update_delta k = Some k0" "expire_loop run k0 = Some (Done k1)"
    "reinsert_loop call (periodic_pool k1) k1 = Some (Done k2)" "schedule_next call k2 = Some (Done k')"
    by (auto simp: soft_interrupt_def bind_eq_Some_conv continue_Done)
  with k(1) show "int32_timers k'"
    using update_delta_int32 expire_loop_int32 [OF assms(1)] reinsert_loop_int32 [OF assms(2)] schedule_next_int32 [OF assms(2)] by blast
qed

lemma timer_interrupt_int32:
  assumes "\<forall>f. keeps_int32 (call f)"
  shows "keeps_int32 (timer_interrupt call)"
  unfolding keeps_int32_def
proof (intro allI impI)
  fix k k' assume k: "int32_timers k" "timer_interrupt call k = Some (Done k')"
  let ?n = "outstanding_ticks k + uint (timer_getInterval k)"
  let ?k = "sched_add_interrupt SCHED_TIMER_INT SOFT_INTERRUPT (k\<lparr>outstanding_ticks := ?n\<rparr>)"
  have n: "int32 ?n"
    using k(2) by (auto simp: timer_interrupt_def Let_def to_int32_def split: if_splits)
  have "int32_timers ?k"
    using int32_outstanding [OF k(1) n] by simp
  then show "int32_timers k'"
    using k(2) update_realtime_int32 [OF assms, of ?k]
    by (auto simp: timer_interrupt_def Let_def to_int32_fits [OF n] continue_Done split: if_splits)
qed

end
