(* ===== verification/Module_Table_Correct.thy ===== *)
theory Module_Table_Correct
  imports Module_Table
begin

text \<open>
  Correctness of the module table. The bins represent a finite map from identifiers to control
  blocks; \<^verbatim>\<open>ker_get_module\<close> is its look-up as long as the cached block is registered. The pool
  of thread identifiers represents a set of the numbers 0 to 30 and hands out the smallest free one.
\<close>

section \<open>Bins\<close>

text \<open>The bins hold the lists of blocks \<open>bs\<close>, every block in the bin of its identifier; the map they represent.\<close>

definition bins_ok :: "(addr \<Rightarrow> sos_module_t) \<Rightarrow> addr list \<Rightarrow> addr list list \<Rightarrow> bool" where
  "bins_ok ms bin bs \<longleftrightarrow> chains (nx_of ms) (\<lambda>h. mod_pid (ms h)) hash_pid SCHED_NUMBER_BINS bin bs"

definition registered :: "(addr \<Rightarrow> sos_module_t) \<Rightarrow> addr list list \<Rightarrow> sos_pid_t \<rightharpoonup> addr" where
  "registered ms bs = members (\<lambda>h. mod_pid (ms h)) bs"

definition cache_ok :: "'a mod_sys_scheme \<Rightarrow> addr list list \<Rightarrow> bool" where
  "cache_ok k bs \<longleftrightarrow> mod_cache k = NULL \<or> mod_cache k \<in> set (concat bs)"

lemma hash_pid_less: "hash_pid p < SCHED_NUMBER_BINS"
  by (simp add: hash_pid_def SCHED_NUMBER_BINS_def)

interpretation mod_bins: chained_hash hash_pid SCHED_NUMBER_BINS
  by unfold_locales (rule hash_pid_less)

lemma bins_ok_iff:
  "bins_ok ms bin bs \<longleftrightarrow>
     length bin = SCHED_NUMBER_BINS \<and> length bs = SCHED_NUMBER_BINS \<and>
     (\<forall>i < SCHED_NUMBER_BINS. path (nx_of ms) (bin ! i) (bs ! i) NULL \<and> (\<forall>h \<in> set (bs ! i). h \<noteq> NULL \<and> hash_pid (mod_pid (ms h)) = i)) \<and>
     distinct (map (\<lambda>h. mod_pid (ms h)) (concat bs))"
  by (simp add: bins_ok_def chains_def)

lemma registered_iff:
  "bins_ok ms bin bs \<Longrightarrow> registered ms bs pid = Some h \<longleftrightarrow> h \<in> set (concat bs) \<and> mod_pid (ms h) = pid"
  unfolding bins_ok_def registered_def by (rule mod_bins.members_iff)

lemma registered_nonnull: "bins_ok ms bin bs \<Longrightarrow> registered ms bs pid = Some h \<Longrightarrow> h \<noteq> NULL"
  using registered_iff [of ms bin bs pid h] mod_bins.member_bin(2) [of "nx_of ms" "\<lambda>h. mod_pid (ms h)" bin bs h]
  by (simp add: bins_ok_def)

lemma bin_search_registered:
  "bins_ok ms bin bs \<Longrightarrow>
   chain_search (\<lambda>h. mod_pid (ms h) = pid) (nx_of ms) (bin ! hash_pid pid) = Some (node_of (registered ms bs pid))"
  unfolding bins_ok_def registered_def by (rule mod_bins.search_members)

lemma get_module_law:
  assumes "bins_ok (mods k) (mod_bin k) bs" "cache_ok k bs"
  shows "\<exists>c. ker_get_module pid k = Some (k\<lparr>mod_cache := c\<rparr>, node_of (registered (mods k) bs pid)) \<and>
    cache_ok (k\<lparr>mod_cache := c\<rparr>) bs"
proof (cases "mod_cache k \<noteq> NULL \<and> mod_pid (mods k (mod_cache k)) = pid")
  case True
  then have "registered (mods k) bs pid = Some (mod_cache k)"
    using assms by (simp add: registered_iff [OF assms(1)] cache_ok_def)
  then show ?thesis
    using True assms(2) by (intro exI [of _ "mod_cache k"]) (simp add: ker_get_module_def)
next
  case False
  note s = bin_search_registered [OF assms(1), of pid]
  show ?thesis
  proof (cases "registered (mods k) bs pid")
    case None
    then show ?thesis
      using False s assms(2) by (intro exI [of _ "mod_cache k"]) (auto simp: ker_get_module_def)
  next
    case (Some h)
    then have "h \<noteq> NULL" "h \<in> set (concat bs)"
      using registered_nonnull [OF assms(1)] registered_iff [OF assms(1)] by auto
    then show ?thesis
      using False s Some by (intro exI [of _ h]) (auto simp: ker_get_module_def cache_ok_def)
  qed
qed

section \<open>Thread identifiers\<close>

definition pool_bit :: "u8 list \<Rightarrow> nat \<Rightarrow> bool" where
  "pool_bit pool i = bit (pool ! (i div 8)) (i mod 8)"

text \<open>The identifiers that are handed out.\<close>

definition threads :: "u8 list \<Rightarrow> sos_pid_t set" where
  "threads pool = {pid. SCHED_MIN_THREAD_PID \<le> pid \<and> pid \<le> SOS_MAX_PID \<and> pool_bit pool (unat (pid - SCHED_MIN_THREAD_PID))}"

lemma mask_and_zero: "push_bit j 1 AND v = 0 \<longleftrightarrow> \<not> bit v j" if "j < 8" for v :: u8
  using that unfolding bit_eq_iff [of "push_bit j 1 AND v" 0] by (auto simp: bit_simps)

lemma mask_or: "bit (v OR push_bit j 1) b \<longleftrightarrow> bit v b \<or> b = j" if "j < 8" for v :: u8
  using that by (auto simp: bit_simps)

lemma mask_clear: "bit (v AND NOT (push_bit j 1)) b \<longleftrightarrow> bit v b \<and> b \<noteq> j" if "j < 8" for v :: u8
  using that by (auto simp: bit_simps dest: bit_imp_le_length)

lemma thread_consts: "unat SCHED_NUM_THREAD_PIDS = 31" "unat SCHED_MIN_THREAD_PID = 224" "SCHED_PID_SLOTS = 4"
  by (simp_all add: sched_consts APP_MOD_MAX_PID_def SOS_MAX_PID_def)

text \<open>What one slot gives, from its bit \<open>j\<close> on; \<open>a\<close> is the number of the bit \<open>j\<close>.\<close>

lemma pool_slot_law:
  assumes "n + j = 8" "a + n \<le> 32"
  shows "pool_slot n (push_bit j 1) (of_nat a) v =
    (case find (\<lambda>b. a + (b - j) = 31 \<or> \<not> bit v b) [j..<8] of
       None \<Rightarrow> Inr (of_nat (a + n))
     | Some b \<Rightarrow> if a + (b - j) = 31 then Inl (v, None)
                 else Inl (v OR push_bit b 1, Some (of_nat (a + (b - j)) + SCHED_MIN_THREAD_PID)))"
  using assms
proof (induction n arbitrary: j a)
  case 0
  then show ?case by simp
next
  case (Suc n)
  have upt: "[j..<8] = j # [Suc j..<8]"
    using Suc.prems by (simp add: upt_conv_Cons)
  have last: "of_nat a = SCHED_NUM_THREAD_PIDS \<longleftrightarrow> a = 31"
    using Suc.prems thread_consts(1) by (auto simp: word_unat_eq_iff unat_of_nat take_bit_nat_eq_self)
  have shift: "find (\<lambda>b. a + (b - j) = 31 \<or> \<not> bit v b) [Suc j..<8] = find (\<lambda>b. Suc a + (b - Suc j) = 31 \<or> \<not> bit v b) [Suc j..<8]"
    by (rule find_cong) (auto simp: Suc_diff_le)
  have pb: "push_bit (Suc 0) (push_bit j (1 :: u8)) = push_bit (Suc j) 1"
    by (simp add: push_bit_push_bit)
  show ?case
  proof (cases "a = 31 \<or> \<not> bit v j")
    case True
    then show ?thesis
      using Suc.prems last mask_and_zero [of j v] by (auto simp: upt)
  next
    case False
    have "pool_slot (Suc n) (push_bit j 1) (of_nat a) v = pool_slot n (push_bit (Suc j) 1) (of_nat (Suc a)) v"
      using False last mask_and_zero [of j v] Suc.prems by (simp add: pb add.commute mult.commute)
    also have "\<dots> = (case find (\<lambda>b. Suc a + (b - Suc j) = 31 \<or> \<not> bit v b) [Suc j..<8] of
       None \<Rightarrow> Inr (of_nat (Suc a + n))
     | Some b \<Rightarrow> if Suc a + (b - Suc j) = 31 then Inl (v, None)
                 else Inl (v OR push_bit b 1, Some (of_nat (Suc a + (b - Suc j)) + SCHED_MIN_THREAD_PID)))"
      by (rule Suc.IH) (use Suc.prems in auto)
    finally have step: "pool_slot (Suc n) (push_bit j 1) (of_nat a) v = \<dots>" .
    show ?thesis
    proof (cases "find (\<lambda>b. Suc a + (b - Suc j) = 31 \<or> \<not> bit v b) [Suc j..<8]")
      case None
      then show ?thesis
        unfolding step upt using False shift by (simp del: pool_slot.simps)
    next
      case (Some b)
      then have "b \<in> set [Suc j..<8]"
        unfolding find_Some_iff by (metis nth_mem)
      then have "Suc a + (b - Suc j) = a + (b - j)"
        by auto
      then show ?thesis
        unfolding step upt find.simps(2) shift Some using False by (simp only: option.case) simp
    qed
  qed
qed

text \<open>The scan finds the smallest number that is free, or the end of the identifiers.\<close>

definition pool_pick :: "nat list \<Rightarrow> u8 list \<Rightarrow> u8 list \<times> sos_pid_t" where
  "pool_pick as pool =
     (case find (\<lambda>a. a = 31 \<or> \<not> pool_bit pool a) as of
        None \<Rightarrow> (pool, NULL_PID)
      | Some a \<Rightarrow> if a = 31 then (pool, NULL_PID)
                  else (pool[a div 8 := pool ! (a div 8) OR push_bit (a mod 8) 1], of_nat a + SCHED_MIN_THREAD_PID))"

lemma pool_scan_step:
  assumes "i < 4"
  shows "pool_scan (i # is) (of_nat (8 * i)) pool =
    (case find (\<lambda>a. a = 31 \<or> \<not> pool_bit pool a) [8 * i..<8 * Suc i] of
        None \<Rightarrow> pool_scan is (of_nat (8 * Suc i)) pool
      | Some a \<Rightarrow> pool_pick [a] pool)"
proof -
  have upt: "[8 * i..<8 * Suc i] = map (\<lambda>b. 8 * i + b) [0..<8]"
    by (simp add: map_add_upt add.commute)
  have f: "find (\<lambda>a. a = 31 \<or> \<not> pool_bit pool a) [8 * i..<8 * Suc i] =
     map_option (\<lambda>b. 8 * i + b) (find (\<lambda>b. 8 * i + (b - 0) = 31 \<or> \<not> bit (pool ! i) b) [0..<8])"
    unfolding upt find_map comp_def
    by (intro arg_cong [of _ _ "map_option _"] find_cong) (auto simp: pool_bit_def)
  have slot: "pool_slot 8 1 (of_nat (8 * i)) (pool ! i) =
    (case find (\<lambda>b. 8 * i + (b - 0) = 31 \<or> \<not> bit (pool ! i) b) [0..<8] of
       None \<Rightarrow> Inr (of_nat (8 * i + 8))
     | Some b \<Rightarrow> if 8 * i + (b - 0) = 31 then Inl (pool ! i, None)
                 else Inl (pool ! i OR push_bit b 1, Some (of_nat (8 * i + (b - 0)) + SCHED_MIN_THREAD_PID)))"
    using pool_slot_law [of 8 0 "8 * i" "pool ! i"] assms by simp
  show ?thesis
  proof (cases "find (\<lambda>b. 8 * i + (b - 0) = 31 \<or> \<not> bit (pool ! i) b) [0..<8]")
    case None
    then show ?thesis unfolding pool_scan.simps slot f by (simp add: add.commute)
  next
    case (Some b)
    then have "b < 8" "8 * i + b = 31 \<or> \<not> bit (pool ! i) b"
      unfolding find_Some_iff by auto
    then show ?thesis
      unfolding pool_scan.simps slot f Some by (auto simp: pool_pick_def pool_bit_def)
  qed
qed

lemma pool_pick_find: "find (\<lambda>a. a = 31 \<or> \<not> pool_bit pool a) as = Some a \<Longrightarrow> pool_pick as pool = pool_pick [a] pool"
proof -
  assume f: "find (\<lambda>a. a = 31 \<or> \<not> pool_bit pool a) as = Some a"
  then have "a = 31 \<or> \<not> pool_bit pool a"
    unfolding find_Some_iff by auto
  then show ?thesis
    using f by (simp add: pool_pick_def)
qed

lemma pool_scan_law: "i \<le> 4 \<Longrightarrow> pool_scan [i..<4] (of_nat (8 * i)) pool = pool_pick [8 * i..<32] pool"
proof (induction "4 - i" arbitrary: i)
  case 0
  then show ?case by (simp add: pool_pick_def)
next
  case (Suc n)
  have u4: "[i..<4] = i # [Suc i..<4]"
    using Suc.hyps by (simp add: upt_conv_Cons)
  have u32: "[8 * i..<32] = [8 * i..<8 * Suc i] @ [8 * Suc i..<32]"
    using upt_add_eq_append [of "8 * i" "8 * Suc i" "32 - 8 * Suc i"] Suc.hyps by simp
  have IH: "pool_scan [Suc i..<4] (of_nat (8 * Suc i)) pool = pool_pick [8 * Suc i..<32] pool"
    by (rule Suc.hyps) (use Suc.hyps in auto)
  show ?case
  proof (cases "find (\<lambda>a. a = 31 \<or> \<not> pool_bit pool a) [8 * i..<8 * Suc i]")
    case None
    then have "pool_pick [8 * i..<32] pool = pool_pick [8 * Suc i..<32] pool"
      unfolding u32 pool_pick_def find_append by simp
    then show ?thesis
      unfolding u4 using IH None pool_scan_step [of i "[Suc i..<4]" pool] Suc.hyps by simp
  next
    case (Some a)
    then have "pool_pick [8 * i..<32] pool = pool_pick [a] pool"
      unfolding u32 by (intro pool_pick_find) (simp only: find_append option.case)
    then show ?thesis
      unfolding u4 using Some pool_scan_step [of i "[Suc i..<4]" pool] Suc.hyps by simp
  qed
qed

text \<open>The number of a thread identifier.\<close>

lemma thread_pidE:
  assumes "SCHED_MIN_THREAD_PID \<le> pid" "pid \<le> SOS_MAX_PID"
  obtains a where "a < 31" "pid = of_nat a + SCHED_MIN_THREAD_PID" "unat (pid - SCHED_MIN_THREAD_PID) = a"
proof
  have u: "unat (pid - SCHED_MIN_THREAD_PID) = unat pid - 224" "unat pid \<le> 254"
    using assms by (simp_all add: unat_sub thread_consts(2) word_le_nat_alt SOS_MAX_PID_def)
  then show "unat (pid - SCHED_MIN_THREAD_PID) < 31"
    by simp
  show "pid = of_nat (unat (pid - SCHED_MIN_THREAD_PID)) + SCHED_MIN_THREAD_PID"
    by simp
qed simp

lemma thread_pid_number:
  assumes "a < 31"
  shows "unat (of_nat a + SCHED_MIN_THREAD_PID :: sos_pid_t) = a + 224"
    "unat ((of_nat a + SCHED_MIN_THREAD_PID :: sos_pid_t) - SCHED_MIN_THREAD_PID) = a"
  using assms by (simp_all add: unat_word_ariths thread_consts(2) unat_of_nat take_bit_eq_mod)

lemma thread_pid_inj:
  assumes "a < 32" "b < 32"
  shows "(of_nat a + SCHED_MIN_THREAD_PID :: sos_pid_t) = of_nat b + SCHED_MIN_THREAD_PID \<longleftrightarrow> a = b"
  unfolding add_right_cancel using assms by (simp add: word_unat_eq_iff unat_of_nat take_bit_eq_mod)

lemma thread_pid_mem:
  assumes "a < 31"
  shows "of_nat a + SCHED_MIN_THREAD_PID \<in> threads pool \<longleftrightarrow> pool_bit pool a"
  using assms thread_pid_number [OF assms]
  by (simp add: threads_def word_le_nat_alt thread_consts SOS_MAX_PID_def)

lemma threads_eqI:
  assumes "\<And>pid. pid \<in> A \<Longrightarrow> SCHED_MIN_THREAD_PID \<le> pid \<and> pid \<le> SOS_MAX_PID"
    "\<And>a. a < 31 \<Longrightarrow> of_nat a + SCHED_MIN_THREAD_PID \<in> A \<longleftrightarrow> pool_bit pool a"
  shows "threads pool = A"
proof (rule set_eqI)
  fix pid
  show "pid \<in> threads pool \<longleftrightarrow> pid \<in> A"
  proof (cases "SCHED_MIN_THREAD_PID \<le> pid \<and> pid \<le> SOS_MAX_PID")
    case True
    then obtain a where "a < 31" "pid = of_nat a + SCHED_MIN_THREAD_PID"
      using thread_pidE by blast
    then show ?thesis using assms(2) thread_pid_mem by simp
  next
    case False
    then show ?thesis using assms(1) by (auto simp: threads_def)
  qed
qed

lemma pool_set_bit:
  assumes "length pool = 4" "a < 32"
  shows "pool_bit (pool[a div 8 := pool ! (a div 8) OR push_bit (a mod 8) 1]) b \<longleftrightarrow> pool_bit pool b \<or> b = a"
proof -
  have "b = a \<longleftrightarrow> b div 8 = a div 8 \<and> b mod 8 = a mod 8"
    by (metis div_mult_mod_eq)
  then show ?thesis
    using assms mask_or [of "a mod 8" "pool ! (a div 8)" "b mod 8"]
    by (auto simp: pool_bit_def nth_list_update less_mult_imp_div_less)
qed

lemma pool_clear_bit:
  assumes "length pool = 4" "a < 32"
  shows "pool_bit (pool[a div 8 := pool ! (a div 8) AND NOT (push_bit (a mod 8) 1)]) b \<longleftrightarrow> pool_bit pool b \<and> b \<noteq> a"
proof -
  have "b = a \<longleftrightarrow> b div 8 = a div 8 \<and> b mod 8 = a mod 8"
    by (metis div_mult_mod_eq)
  then show ?thesis
    using assms mask_clear [of "a mod 8" "pool ! (a div 8)" "b mod 8"]
    by (auto simp: pool_bit_def nth_list_update less_mult_imp_div_less)
qed

lemma release_law:
  assumes "length pool = 4"
  shows "threads (pool_release pid pool) = threads pool - {pid}"
proof (cases "SCHED_MIN_THREAD_PID \<le> pid")
  case True
  define a where "a = unat (pid - SCHED_MIN_THREAD_PID)"
  have a: "a < 32" "pid = of_nat a + SCHED_MIN_THREAD_PID"
    using True unat8_less [of pid] by (simp add: a_def unat_sub thread_consts(2), simp add: a_def)
  have "of_nat b + SCHED_MIN_THREAD_PID = pid \<longleftrightarrow> b = a" if "b < 31" for b
    using that a thread_pid_inj [of b a] by simp
  then show ?thesis
    using True pool_clear_bit [OF assms a(1)] thread_pid_mem
    by (intro threads_eqI) (auto simp: pool_release_def Let_def a_def [symmetric] threads_def)
next
  case False
  then show ?thesis by (auto simp: pool_release_def threads_def)
qed

definition thread_pids :: "sos_pid_t set" where
  "thread_pids = {SCHED_MIN_THREAD_PID..SOS_MAX_PID}"

lemma get_pid_law:
  assumes "length (pid_pool k) = 4"
  shows "if threads (pid_pool k) = thread_pids then sched_get_pid_from_pool k = (k, NULL_PID)
    else \<exists>pool pid. sched_get_pid_from_pool k = (k\<lparr>pid_pool := pool\<rparr>, pid) \<and> length pool = 4 \<and>
      pid \<in> thread_pids - threads (pid_pool k) \<and> (\<forall>q \<in> thread_pids - threads (pid_pool k). pid \<le> q) \<and>
      threads pool = insert pid (threads (pid_pool k))"
proof -
  let ?p = "pid_pool k"
  have scan: "sched_get_pid_from_pool k = (let (pool, pid) = pool_pick [0..<32] ?p in (k\<lparr>pid_pool := pool\<rparr>, pid))"
    using pool_scan_law [of 0 ?p] by (simp add: sched_get_pid_from_pool_def thread_consts)
  obtain a where a: "find (\<lambda>a. a = 31 \<or> \<not> pool_bit ?p a) [0..<32] = Some a"
    by (cases "find (\<lambda>a. a = 31 \<or> \<not> pool_bit ?p a) [0..<32]") (auto simp: find_None_iff dest: spec [of _ 31])
  then have le: "a \<le> 31" "a = 31 \<or> \<not> pool_bit ?p a" "\<forall>b < a. pool_bit ?p b"
    unfolding find_Some_iff by auto
  have sub: "SCHED_MIN_THREAD_PID \<le> of_nat b + SCHED_MIN_THREAD_PID \<and> of_nat b + SCHED_MIN_THREAD_PID \<le> SOS_MAX_PID" if "b < 31" for b
    using thread_pid_number(1) [OF that] that by (simp add: word_le_nat_alt thread_consts SOS_MAX_PID_def)
  show ?thesis
  proof (cases "a = 31")
    case True
    then have "threads ?p = thread_pids"
      using le sub by (intro threads_eqI) (auto simp: thread_pids_def)
    then show ?thesis using a True by (simp add: scan pool_pick_def)
  next
    case False
    define pid where "pid = (of_nat a + SCHED_MIN_THREAD_PID :: sos_pid_t)"
    have pid: "pid \<in> thread_pids - threads ?p"
      using False le sub [of a] thread_pid_mem [of a ?p] by (simp add: pid_def thread_pids_def)
    have least: "pid \<le> q" if q: "q \<in> thread_pids - threads ?p" for q
    proof -
      obtain b where b: "b < 31" "q = of_nat b + SCHED_MIN_THREAD_PID"
        using q thread_pidE [of q] by (auto simp: thread_pids_def)
      then have "a \<le> b"
        using q le(3) thread_pid_mem [OF b(1), of ?p] by (auto simp: not_less [symmetric])
      then show ?thesis
        using b thread_pid_number(1) [OF b(1)] thread_pid_number(1) [of a] by (simp add: pid_def word_le_nat_alt)
    qed
    have ins: "threads (?p[a div 8 := ?p ! (a div 8) OR push_bit (a mod 8) 1]) = insert pid (threads ?p)"
    proof (rule threads_eqI)
      fix b :: nat
      assume b: "b < 31"
      then have "of_nat b + SCHED_MIN_THREAD_PID = pid \<longleftrightarrow> b = a"
        using False le thread_pid_inj [of b a] by (simp add: pid_def)
      then show "of_nat b + SCHED_MIN_THREAD_PID \<in> insert pid (threads ?p) \<longleftrightarrow>
          pool_bit (?p[a div 8 := ?p ! (a div 8) OR push_bit (a mod 8) 1]) b"
        using pool_set_bit [OF assms, of a b] le thread_pid_mem [OF b] by auto
    qed (use pid in \<open>auto simp: threads_def thread_pids_def\<close>)
    have "sched_get_pid_from_pool k = (k\<lparr>pid_pool := ?p[a div 8 := ?p ! (a div 8) OR push_bit (a mod 8) 1]\<rparr>, pid)"
      using a False by (simp add: scan pool_pick_def pid_def)
    then show ?thesis
      using pid least ins assms by auto
  qed
qed

section \<open>A concrete table\<close>

text \<open>Two modules, 130 and 134, in the third bin.\<close>

definition demo_modules :: "addr \<Rightarrow> sos_module_t" where
  "demo_modules = (\<lambda>p. \<lparr>mod_next = (if p = 40 then 50 else NULL), mod_header = 600, mod_pid = (if p = 40 then 130 else 134),
     mod_flag = 0, handler_state = NULL\<rparr>)"

definition demo_header :: mod_header_t where
  "demo_header = \<lparr>state_size = 0, mod_id = 130, num_timers = 0, num_sub_func = 0, num_prov_func = 0, num_dfunc = 0, version = 0,
     code_id = 7, processor_type = 0, platform_type = 0, init_priority = 0, num_out_port = 0, module_handler = 700\<rparr>"

definition demo_sys :: "heap \<Rightarrow> 'a \<Rightarrow> 'a mod_sys_scheme" where
  "demo_sys h x = \<lparr>
     smem = smem (boot_sys h mq_init), msg_slab = msg_slab (boot_sys h mq_init), headers = headers (boot_sys h mq_init),
     bytes_of = (\<lambda>_. 0), schedpq = mq_init, node_address = 1, curr_pid = 130,
     mod_rom = (\<lambda>_. demo_header), cb_rom = (\<lambda>_. \<lparr>cb_ptr = 0, cb_proto = [118, 118, 118, 48], cb_pid = 130, cb_fid = 0\<rparr>),
     ram_ptr = (\<lambda>_. NULL), mods = demo_modules, mod_bin = [NULL, NULL, 40, NULL], mod_cache = NULL, pid_pool = [0, 0, 0, 0],
     pid_stack = replicate SOS_PID_STACK_SIZE 0, pid_sp = 0,
     sched_slab = \<lparr>slab_head = NULL, num_items_per_pool = 4, empty_vector = 15, item_size = 8, slab_flag = 0x80\<rparr>,
     short_msg = 263, int_ready = 0, int_array = [NULL, NULL, NULL, NULL], sched_stalled = False, \<dots> = x\<rparr>"

definition demo_heap :: heap where
  "demo_heap = \<lparr>malloc_heap = 256, mem = [], mSentinel = 0\<rparr>"

lemma demo_bins: "bins_ok demo_modules [NULL, NULL, 40, NULL] [[], [], [40, 50], []]"
proof -
  have "path (nx_of demo_modules) ([NULL, NULL, 40, NULL] ! i) ([[], [], [40, 50], []] ! i) NULL \<and>
      (\<forall>h \<in> set ([[], [], [40, 50], []] ! i). h \<noteq> NULL \<and> hash_pid (mod_pid (demo_modules h)) = i)" if "i < 4" for i
  proof -
    have "i = 0 \<or> i = 1 \<or> i = 2 \<or> i = 3" using that by auto
    then show ?thesis
      by (elim disjE) (simp_all add: nx_of_def demo_modules_def hash_pid_def SCHED_NUMBER_BINS_def)
  qed
  then show ?thesis
    by (simp add: bins_ok_iff SCHED_NUMBER_BINS_def) (simp add: demo_modules_def)
qed

section \<open>Properties\<close>

text \<open>
  C19. \<^verbatim>\<open>ker_get_module\<close>, with its cache, is the look-up in the map that the four bins
  represent: whatever was looked up before, it returns the registered control block of the
  identifier or NULL, changes nothing but the cache, and leaves in the cache a registered block, so
  that a sequence of look-ups answers every query from the same map.
\<close>

theorem ker_get_module_correct:
  assumes "bins_ok (mods k) (mod_bin k) bs" "cache_ok k bs"
  shows "\<exists>c. ker_get_module pid k = Some (k\<lparr>mod_cache := c\<rparr>, node_of (registered (mods k) bs pid)) \<and>
    cache_ok (k\<lparr>mod_cache := c\<rparr>) bs"
  by (rule get_module_law [OF assms])

theorem ker_get_module_correct_witness:
  "\<exists>c. ker_get_module 134 (demo_sys demo_heap ()) = Some ((demo_sys demo_heap ())\<lparr>mod_cache := c\<rparr>, 50)"
  using ker_get_module_correct [of "demo_sys demo_heap ()" "[[], [], [40, 50], []]" 134] demo_bins
  by (auto simp: demo_sys_def cache_ok_def registered_def members_def) (auto simp: demo_modules_def)

text \<open>
  C21. The pool of thread identifiers: \<^verbatim>\<open>sched_get_pid_from_pool\<close> hands out the smallest
  identifier of 224 to 254 that is not in use and marks exactly it, or returns NULL_PID and changes
  nothing when all 31 are in use; giving an identifier back makes exactly it free again.
\<close>

theorem thread_pids_correct:
  assumes "length (pid_pool k) = SCHED_PID_SLOTS"
  shows "(if threads (pid_pool k) = thread_pids then sched_get_pid_from_pool k = (k, NULL_PID)
    else \<exists>pool pid. sched_get_pid_from_pool k = (k\<lparr>pid_pool := pool\<rparr>, pid) \<and>
      pid \<in> thread_pids - threads (pid_pool k) \<and> (\<forall>q \<in> thread_pids - threads (pid_pool k). pid \<le> q) \<and>
      threads pool = insert pid (threads (pid_pool k)) \<and> threads (pool_release pid pool) = threads (pid_pool k))"
proof (cases "threads (pid_pool k) = thread_pids")
  case True
  then show ?thesis
    using get_pid_law [of k] assms by (simp add: thread_consts)
next
  case False
  then obtain pool pid where "sched_get_pid_from_pool k = (k\<lparr>pid_pool := pool\<rparr>, pid)" "length pool = 4"
    "pid \<in> thread_pids - threads (pid_pool k)" "\<forall>q \<in> thread_pids - threads (pid_pool k). pid \<le> q"
    "threads pool = insert pid (threads (pid_pool k))"
    using get_pid_law [of k] assms by (auto simp: thread_consts)
  then show ?thesis
    using False release_law [of pool pid] by auto
qed

theorem thread_pids_correct_witness:
  "\<exists>pool pid. sched_get_pid_from_pool (demo_sys demo_heap ()) = ((demo_sys demo_heap ())\<lparr>pid_pool := pool\<rparr>, pid) \<and>
     pid \<in> thread_pids \<and> threads (pool_release pid pool) = {}"
proof -
  have p: "pid_pool (demo_sys demo_heap ()) = replicate SCHED_PID_SLOTS 0"
    by (simp add: demo_sys_def thread_consts numeral_eq_Suc)
  have e: "threads (pid_pool (demo_sys demo_heap ())) = {}"
    unfolding p by (rule threads_eqI) (simp_all add: pool_bit_def thread_consts less_mult_imp_div_less)
  have ne: "threads (pid_pool (demo_sys demo_heap ())) \<noteq> thread_pids"
    unfolding e thread_pids_def by (simp add: sched_consts APP_MOD_MAX_PID_def SOS_MAX_PID_def)
  have "length (pid_pool (demo_sys demo_heap ())) = SCHED_PID_SLOTS"
    unfolding p by simp
  from thread_pids_correct [OF this] ne show ?thesis
    unfolding e by auto
qed

end
