(* ===== verification/Timer_Correct.thy ===== *)
theory Timer_Correct
  imports Timer_Range Module_Table_Correct
begin

text \<open>
  Correctness of the timers. The delta queue represents a list of running timers with the times
  that remain until they are due, in the order of these times: a positive delta counts from the timer
  before, an overdue timer has a delta that is not positive and counts from the last update. Starting,
  stopping and updating are operations on this list.
\<close>

section \<open>Due times\<close>

fun dues :: "int \<Rightarrow> (addr \<Rightarrow> int) \<Rightarrow> addr list \<Rightarrow> (int \<times> addr) list" where
  "dues b f [] = []"
| "dues b f (x # xs) = (b + f x, x) # dues (b + max 0 (f x)) f xs"

text \<open>The ticks since the last update, and the list of the running timers with their remaining times.\<close>

definition elapsed :: "'a timer_sys_scheme \<Rightarrow> int" where
  "elapsed k = outstanding_ticks k + uint (TCNT0 k)"

definition remaining :: "'a timer_sys_scheme \<Rightarrow> (int \<times> addr) list" where
  "remaining k = dues (- elapsed k) (delta_of k) (deltaq k)"

text \<open>The specification of an insertion: behind all timers that are not due later.\<close>

fun insert_due :: "int \<Rightarrow> addr \<Rightarrow> (int \<times> addr) list \<Rightarrow> (int \<times> addr) list" where
  "insert_due t h [] = [(t, h)]"
| "insert_due t h ((u, x) # r) = (if t < u then (t, h) # (u, x) # r else (u, x) # insert_due t h r)"

text \<open>Overdue timers come first.\<close>

fun deltas_ok :: "(addr \<Rightarrow> int) \<Rightarrow> addr list \<Rightarrow> bool" where
  "deltas_ok f [] \<longleftrightarrow> True"
| "deltas_ok f (x # xs) \<longleftrightarrow> (0 < f x \<longrightarrow> (\<forall>y \<in> set xs. 0 \<le> f y)) \<and> deltas_ok f xs"

definition no_overdue :: "'a timer_sys_scheme \<Rightarrow> bool" where
  "no_overdue k \<longleftrightarrow> (\<forall>x \<in> set (deltaq k). 0 \<le> delta_of k x)"

subsection \<open>Deltas\<close>

lemma delta_of_eta: "(\<lambda>p. t_delta (timers k p)) = delta_of k"
  by (simp add: delta_of_def fun_eq_iff)

lemma dues_cong: "(\<And>x. x \<in> set xs \<Longrightarrow> f x = g x) \<Longrightarrow> dues b f xs = dues b g xs"
  by (induction xs arbitrary: b) auto

lemma dues_upd [simp]: "p \<notin> set xs \<Longrightarrow> dues b (f(p := d)) xs = dues b f xs"
  by (rule dues_cong) auto

definition span :: "(addr \<Rightarrow> int) \<Rightarrow> addr list \<Rightarrow> int" where
  "span f xs = (\<Sum>x\<leftarrow>xs. max 0 (f x))"

lemma span_upd [simp]: "y \<notin> set xs \<Longrightarrow> span (f(y := v)) xs = span f xs"
  unfolding span_def by (intro arg_cong [of _ _ sum_list] map_cong) auto

lemma dues_append: "dues b f (xs @ ys) = dues b f xs @ dues (b + span f xs) f ys"
  by (induction xs arbitrary: b) (auto simp: span_def add.assoc)

lemma dues_shift: "map (\<lambda>(t, p). (t - c, p)) (dues b f xs) = dues (b - c) f xs"
  by (induction xs arbitrary: b) (auto simp: algebra_simps)

lemma set_dues: "set (map snd (dues b f xs)) = set xs"
  by (induction xs arbitrary: b) auto

lemma map_snd_dues [simp]: "map snd (dues b f xs) = xs"
  by (induction xs arbitrary: b) auto

lemma insert_due_append:
  "(\<forall>(u, x) \<in> set xs. u \<le> t) \<Longrightarrow> insert_due t h (xs @ ys) = xs @ insert_due t h ys"
  by (induction xs) auto

subsection \<open>Insertion\<close>

lemma delta_walk_law:
  assumes "distinct (passed @ h # cs)" "\<forall>c \<in> set cs. 0 \<le> delta_of k c \<and> delta_of k c \<le> INT32_MAX" "0 \<le> delta_of k h" "delta_of k h \<le> INT32_MAX"
  shows "\<exists>f cs'. delta_walk h passed cs k = Some ((k\<lparr>timers := f\<rparr>)\<lparr>deltaq := passed @ cs'\<rparr>) \<and>
    dues b (\<lambda>p. t_delta (f p)) cs' = insert_due (b + delta_of k h) h (dues b (delta_of k) cs) \<and>
    (\<forall>p. p \<noteq> h \<and> p \<notin> set cs \<longrightarrow> f p = timers k p) \<and> (\<forall>p. (f p)\<lparr>t_delta := 0\<rparr> = (timers k p)\<lparr>t_delta := 0\<rparr>) \<and>
    set cs' = insert h (set cs) \<and> distinct cs' \<and> (\<forall>p \<in> set cs'. 0 \<le> t_delta (f p)) \<and> (\<forall>p. t_delta (f p) \<le> delta_of k p)"
  using assms
proof (induction cs arbitrary: passed k b)
  case Nil
  then show ?case
    by (intro exI [of _ "timers k"] exI [of _ "[h]"]) (auto simp: delta_of_def)
next
  case (Cons c cs)
  show ?case
  proof (cases "delta_of k h < delta_of k c")
    case True
    let ?f = "(timers k)(c := (timers k c)\<lparr>t_delta := delta_of k c - delta_of k h\<rparr>)"
    have d: "dues b' (\<lambda>p. t_delta (?f p)) cs = dues b' (delta_of k) cs" for b'
      using Cons.prems(1) by (intro dues_cong) (auto simp: delta_of_def)
    have "int32 (delta_of k c - delta_of k h)"
      using True Cons.prems(2,3) by (intro int32_between) auto
    then have "delta_walk h passed (c # cs) k = Some ((k\<lparr>timers := ?f\<rparr>)\<lparr>deltaq := passed @ h # c # cs\<rparr>)"
      using True by (simp add: put_delta_fits) (simp add: set_delta_def upd_timer_def)
    moreover have "dues b (\<lambda>p. t_delta (?f p)) (h # c # cs) = insert_due (b + delta_of k h) h (dues b (delta_of k) (c # cs))"
    proof -
      have "t_delta (?f h) = delta_of k h" "t_delta (?f c) = delta_of k c - delta_of k h"
        using Cons.prems(1) by (auto simp: delta_of_def)
      then show ?thesis
        using True Cons.prems(2,3) d by simp
    qed
    moreover have "\<forall>p \<in> set (h # c # cs). 0 \<le> t_delta (?f p)" "\<forall>p. t_delta (?f p) \<le> delta_of k p"
      using True Cons.prems by (auto simp: delta_of_def)
    moreover have "\<forall>p. p \<noteq> h \<and> p \<notin> set (c # cs) \<longrightarrow> ?f p = timers k p" "\<forall>p. (?f p)\<lparr>t_delta := 0\<rparr> = (timers k p)\<lparr>t_delta := 0\<rparr>"
      by auto
    moreover have "set (h # c # cs) = insert h (set (c # cs))" "distinct (h # c # cs)"
      using Cons.prems(1) by auto
    ultimately show ?thesis
      by (intro exI [of _ ?f] exI [of _ "h # c # cs"] conjI)
  next
    case False
    let ?k = "set_delta h (delta_of k h - delta_of k c) k"
    have fits: "int32 (delta_of k h - delta_of k c)"
      using False Cons.prems(2-4) by (intro int32_between) auto
    have "\<exists>f cs'. delta_walk h (passed @ [c]) cs ?k = Some ((?k\<lparr>timers := f\<rparr>)\<lparr>deltaq := (passed @ [c]) @ cs'\<rparr>) \<and>
      dues (b + delta_of k c) (\<lambda>p. t_delta (f p)) cs' = insert_due (b + delta_of k c + delta_of ?k h) h (dues (b + delta_of k c) (delta_of ?k) cs) \<and>
      (\<forall>p. p \<noteq> h \<and> p \<notin> set cs \<longrightarrow> f p = timers ?k p) \<and> (\<forall>p. (f p)\<lparr>t_delta := 0\<rparr> = (timers ?k p)\<lparr>t_delta := 0\<rparr>) \<and>
      set cs' = insert h (set cs) \<and> distinct cs' \<and> (\<forall>p \<in> set cs'. 0 \<le> t_delta (f p)) \<and> (\<forall>p. t_delta (f p) \<le> delta_of ?k p)"
      by (rule Cons.IH) (use Cons.prems False in auto)
    then obtain f cs' where f: "delta_walk h (passed @ [c]) cs ?k = Some ((?k\<lparr>timers := f\<rparr>)\<lparr>deltaq := (passed @ [c]) @ cs'\<rparr>)"
      "dues (b + delta_of k c) (\<lambda>p. t_delta (f p)) cs' = insert_due (b + delta_of k c + delta_of ?k h) h (dues (b + delta_of k c) (delta_of ?k) cs)"
      "\<forall>p. p \<noteq> h \<and> p \<notin> set cs \<longrightarrow> f p = timers ?k p" "\<forall>p. (f p)\<lparr>t_delta := 0\<rparr> = (timers ?k p)\<lparr>t_delta := 0\<rparr>"
      "set cs' = insert h (set cs)" "distinct cs'" "\<forall>p \<in> set cs'. 0 \<le> t_delta (f p)" "\<forall>p. t_delta (f p) \<le> delta_of ?k p"
      by (elim exE conjE) (rule that)
    have c: "f c = timers k c"
      using f(3) Cons.prems by (auto simp: set_delta_def upd_timer_def)
    have "delta_walk h passed (c # cs) k = Some ((k\<lparr>timers := f\<rparr>)\<lparr>deltaq := passed @ c # cs'\<rparr>)"
      using False f(1) by (simp add: put_delta_fits [OF fits]) (simp add: set_delta_def upd_timer_def)
    moreover have "t_delta (f p) \<le> delta_of k p" for p
      using f(8) [rule_format, of p] Cons.prems(2) by (auto split: if_splits)
    then have "\<forall>p. t_delta (f p) \<le> delta_of k p"
      by blast
    moreover have "dues b (\<lambda>p. t_delta (f p)) (c # cs') = insert_due (b + delta_of k h) h (dues b (delta_of k) (c # cs))"
    proof -
      have "t_delta (f c) = delta_of k c" "0 \<le> delta_of k c"
        using c Cons.prems(2) by (simp_all add: delta_of_def)
      moreover have "dues (b + delta_of k c) (delta_of ?k) cs = dues (b + delta_of k c) (delta_of k) cs"
        using Cons.prems(1) by simp
      ultimately show ?thesis
        using f(2) False by simp
    qed
    moreover have "\<forall>p. p \<noteq> h \<and> p \<notin> set (c # cs) \<longrightarrow> f p = timers k p" "\<forall>p. (f p)\<lparr>t_delta := 0\<rparr> = (timers k p)\<lparr>t_delta := 0\<rparr>"
      using f(3,4) by (simp_all add: set_delta_def upd_timer_def)
    moreover have "set (c # cs') = insert h (set (c # cs))" "distinct (c # cs')" "\<forall>p \<in> set (c # cs'). 0 \<le> t_delta (f p)"
      using f(5-7) c Cons.prems by (auto simp: delta_of_def)
    ultimately show ?thesis
      by (intro exI [of _ f] exI [of _ "c # cs'"] conjI)
  qed
qed

text \<open>The hardware interval for a wanted number of ticks.\<close>

definition clip :: "int \<Rightarrow> int" where
  "clip n = max TIMER_MIN_INTERVAL (min MAX_SLEEP_INTERVAL n)"

lemma set_hw_interval_law:
  "timer_set_hw_interval n k = k\<lparr>TCNT0 := 0, OCR0 := of_int (clip n - 1)\<rparr>"
proof -
  have "uint (of_int n :: u8) = n" if "5 \<le> n" "n \<le> 250"
    using that by (simp add: uint_word_of_int take_bit_eq_mod)
  then show ?thesis
    by (auto simp: timer_set_hw_interval_def timer_setInterval_def clip_def timer_consts)
qed

lemma interval_of_clip: "uint ((of_int (clip n - 1) :: u8) + 1) = clip n"
proof -
  have "5 \<le> clip n" "clip n \<le> 250"
    by (auto simp: clip_def timer_consts)
  moreover have "(of_int (clip n - 1) :: u8) + 1 = of_int (clip n)"
    by simp
  ultimately show ?thesis
    by (simp add: uint_word_of_int take_bit_eq_mod)
qed

lemma set_hw_top_law:
  assumes "num_realtime_clock k = 0" "u \<longrightarrow> int32 (elapsed k)"
  shows "timer_set_hw_top call n u k =
    Some (Done (k\<lparr>outstanding_ticks := (if u then elapsed k else 0), TCNT0 := 0, OCR0 := of_int (clip n - 1)\<rparr>))"
  using assms by (cases u)
    (simp_all add: timer_set_hw_top_def set_hw_interval_law elapsed_def timer_hardware_get_counter_def Let_def to_int32_fits)

text \<open>What an insertion leaves alone: everything but deltas, the queue and the clock.\<close>

definition requeued :: "'a timer_sys_scheme \<Rightarrow> (addr \<Rightarrow> sos_timer_t) \<Rightarrow> addr list \<Rightarrow> int \<Rightarrow> u8 \<Rightarrow> u8 \<Rightarrow> 'a timer_sys_scheme" where
  "requeued k f q n c r = k\<lparr>timers := f, deltaq := q, outstanding_ticks := n, TCNT0 := c, OCR0 := r\<rparr>"

definition same_timers :: "(addr \<Rightarrow> sos_timer_t) \<Rightarrow> (addr \<Rightarrow> sos_timer_t) \<Rightarrow> bool" where
  "same_timers f g \<longleftrightarrow> (\<forall>p. (f p)\<lparr>t_delta := 0\<rparr> = (g p)\<lparr>t_delta := 0\<rparr>)"

lemma requeued_simps [simp]:
  "timers (requeued k f q n c r) = f" "deltaq (requeued k f q n c r) = q"
  "outstanding_ticks (requeued k f q n c r) = n" "TCNT0 (requeued k f q n c r) = c" "OCR0 (requeued k f q n c r) = r"
  "delta_of (requeued k f q n c r) = (\<lambda>p. t_delta (f p))"
  "timer_pool (requeued k f q n c r) = timer_pool k" "periodic_pool (requeued k f q n c r) = periodic_pool k"
  "num_realtime_clock (requeued k f q n c r) = num_realtime_clock k"
  by (auto simp: requeued_def delta_of_def)

lemma same_timers_refl [simp]: "same_timers f f"
  by (simp add: same_timers_def)

lemma same_timers_delta: "same_timers (f(p := (f p)\<lparr>t_delta := d\<rparr>)) f"
  by (simp add: same_timers_def)

lemma same_timers_trans: "same_timers f g \<Longrightarrow> same_timers g h \<Longrightarrow> same_timers f h"
  by (simp add: same_timers_def)

lemma same_timersD:
  assumes "same_timers f g"
  shows "t_pid (f p) = t_pid (g p)" "t_tid (f p) = t_tid (g p)" "t_type (f p) = t_type (g p)" "t_ticks (f p) = t_ticks (g p)"
proof -
  have "(f p)\<lparr>t_delta := 0\<rparr> = (g p)\<lparr>t_delta := 0\<rparr>"
    using assms by (simp add: same_timers_def)
  then show "t_pid (f p) = t_pid (g p)" "t_tid (f p) = t_tid (g p)" "t_type (f p) = t_type (g p)" "t_ticks (f p) = t_ticks (g p)"
    by (metis sos_timer_t.select_convs sos_timer_t.surjective sos_timer_t.update_convs(5))+
qed

lemma insert_behind_law:
  assumes "distinct (h # deltaq k)" "no_overdue k" "deltaq k = l # ls" "delta_of k l \<le> delta_of k h" "0 \<le> delta_of k h"
    "\<forall>p. delta_of k p \<le> INT32_MAX"
  shows "\<exists>f q. delta_walk h [] (l # ls) k = Some (requeued k f q (outstanding_ticks k) (TCNT0 k) (OCR0 k)) \<and>
    dues b (\<lambda>p. t_delta (f p)) q = insert_due (b + delta_of k h) h (dues b (delta_of k) (deltaq k)) \<and>
    same_timers f (timers k) \<and> (\<forall>p. p \<noteq> h \<and> p \<notin> set (deltaq k) \<longrightarrow> f p = timers k p) \<and>
    set q = insert h (set (deltaq k)) \<and> distinct q \<and> (\<forall>p \<in> set q. 0 \<le> t_delta (f p)) \<and> (\<forall>p. t_delta (f p) \<le> delta_of k p)"
proof -
  obtain f q where f: "delta_walk h [] (l # ls) k = Some ((k\<lparr>timers := f\<rparr>)\<lparr>deltaq := [] @ q\<rparr>)"
    "dues b (\<lambda>p. t_delta (f p)) q = insert_due (b + delta_of k h) h (dues b (delta_of k) (l # ls))"
    "\<forall>p. p \<noteq> h \<and> p \<notin> set (l # ls) \<longrightarrow> f p = timers k p" "\<forall>p. (f p)\<lparr>t_delta := 0\<rparr> = (timers k p)\<lparr>t_delta := 0\<rparr>"
    "set q = insert h (set (l # ls))" "distinct q" "\<forall>p \<in> set q. 0 \<le> t_delta (f p)" "\<forall>p. t_delta (f p) \<le> delta_of k p"
  proof -
    have "distinct ([] @ h # l # ls)" "\<forall>c \<in> set (l # ls). 0 \<le> delta_of k c \<and> delta_of k c \<le> INT32_MAX"
      using assms by (auto simp: no_overdue_def)
    from delta_walk_law [OF this assms(5) assms(6) [rule_format], of b] show ?thesis
      by (elim exE conjE) (rule that)
  qed
  have "delta_walk h [] (l # ls) k = Some (requeued k f q (outstanding_ticks k) (TCNT0 k) (OCR0 k))"
    unfolding f(1) by (simp add: requeued_def)
  then show ?thesis
    using f(2-8) assms(3) by (intro exI [of _ f] exI [of _ q] conjI) (simp_all add: same_timers_def)
qed

text \<open>The state an insertion is made in.\<close>

definition insertable :: "addr \<Rightarrow> bool \<Rightarrow> 'a timer_sys_scheme \<Rightarrow> bool" where
  "insertable h new_timer k \<longleftrightarrow> distinct (h # deltaq k) \<and> no_overdue k \<and> 0 \<le> delta_of k h \<and>
     num_realtime_clock k = 0 \<and> 0 \<le> outstanding_ticks k \<and> (\<forall>p. delta_of k p \<le> INT32_MAX) \<and>
     elapsed k \<le> INT32_MAX \<and> (new_timer \<longrightarrow> delta_of k h + elapsed k \<le> INT32_MAX)"

text \<open>Its result; the interrupt is due with a new head.\<close>

definition inserted :: "addr \<Rightarrow> bool \<Rightarrow> 'a timer_sys_scheme \<Rightarrow> 'a timer_sys_scheme \<Rightarrow> bool" where
  "inserted h new_timer k k' \<longleftrightarrow> (\<exists>f q n c r. k' = requeued k f q n c r \<and>
     remaining k' = insert_due (if new_timer then delta_of k h else delta_of k h - elapsed k) h (remaining k) \<and>
     (if new_timer \<and> hd q = h then uint (timer_getInterval k') = clip (delta_of k h) \<and> c = 0 else c = TCNT0 k \<and> r = OCR0 k \<and> n = outstanding_ticks k) \<and>
     same_timers f (timers k) \<and> (\<forall>p. p \<noteq> h \<and> p \<notin> set (deltaq k) \<longrightarrow> f p = timers k p) \<and>
     set q = insert h (set (deltaq k)) \<and> distinct q \<and> (\<forall>p \<in> set q. 0 \<le> t_delta (f p)) \<and> 0 \<le> n \<and>
     (\<forall>p. new_timer \<or> t_delta (f p) \<le> delta_of k p))"

lemma insertedI:
  assumes "k' = requeued k f q n c r"
    "remaining k' = insert_due (if new_timer then delta_of k h else delta_of k h - elapsed k) h (remaining k)"
    "if new_timer \<and> hd q = h then uint (timer_getInterval k') = clip (delta_of k h) \<and> c = 0 else c = TCNT0 k \<and> r = OCR0 k \<and> n = outstanding_ticks k"
    "same_timers f (timers k)" "\<forall>p. p \<noteq> h \<and> p \<notin> set (deltaq k) \<longrightarrow> f p = timers k p"
    "set q = insert h (set (deltaq k))" "distinct q" "\<forall>p \<in> set q. 0 \<le> t_delta (f p)" "0 \<le> n"
    "\<forall>p. new_timer \<or> t_delta (f p) \<le> delta_of k p"
  shows "inserted h new_timer k k'"
  unfolding inserted_def using assms by (intro exI [of _ f] exI [of _ q] exI [of _ n]) (rule exI [of _ c], rule exI [of _ r], intro conjI)

lemma getInterval_requeued [simp]: "timer_getInterval (requeued k f q n c r) = r + 1"
  by (simp add: timer_getInterval_def)

lemma remaining_requeued: "remaining (requeued k f q n c r) = dues (- (n + uint c)) (\<lambda>p. t_delta (f p)) q"
  by (simp add: remaining_def elapsed_def)

lemma insert_empty_law:
  assumes "insertable h new_timer k" "deltaq k = []"
  shows "\<exists>k'. timer_delta_q_insert call h new_timer k = Some (Done k') \<and> inserted h new_timer k k'"
proof -
  let ?k = "if new_timer then requeued k (timers k) [h] 0 0 (of_int (clip (delta_of k h) - 1))
    else requeued k (timers k) [h] (outstanding_ticks k) (TCNT0 k) (OCR0 k)"
  have "timer_delta_q_insert call h new_timer k = Some (Done ?k)"
    using assms by (simp add: timer_delta_q_insert_def insertable_def set_hw_top_law continue_def requeued_def)
  moreover have "inserted h new_timer k ?k"
  proof (cases new_timer)
    case True
    then show ?thesis
      using assms interval_of_clip by (intro insertedI) (auto simp: remaining_def elapsed_def delta_of_def insertable_def)
  next
    case False
    then show ?thesis
      using assms by (intro insertedI) (auto simp: remaining_def elapsed_def delta_of_def insertable_def)
  qed
  ultimately show ?thesis by blast
qed

text \<open>The new timer, with the ticks added that the next update subtracts.\<close>

definition aligned :: "addr \<Rightarrow> bool \<Rightarrow> 'a timer_sys_scheme \<Rightarrow> 'a timer_sys_scheme" where
  "aligned h new_timer k = (if new_timer then set_delta h (delta_of k h + elapsed k) k else k)"

lemma aligned_simps [simp]:
  "deltaq (aligned h b k) = deltaq k" "outstanding_ticks (aligned h b k) = outstanding_ticks k"
  "TCNT0 (aligned h b k) = TCNT0 k" "OCR0 (aligned h b k) = OCR0 k" "num_realtime_clock (aligned h b k) = num_realtime_clock k"
  "p \<noteq> h \<Longrightarrow> timers (aligned h b k) p = timers k p" "p \<noteq> h \<Longrightarrow> delta_of (aligned h b k) p = delta_of k p"
  "delta_of (aligned h b k) h = (if b then delta_of k h + elapsed k else delta_of k h)"
  "same_timers (timers (aligned h b k)) (timers k)"
  by (simp_all add: aligned_def) (simp_all add: set_delta_def upd_timer_def same_timers_delta)

lemma aligned_frame: "requeued (aligned h b k) f q n c r = requeued k f q n c r"
  by (simp add: aligned_def requeued_def set_delta_def upd_timer_def)

lemma aligned_remaining: "h \<notin> set (deltaq k) \<Longrightarrow> dues b (delta_of (aligned h nw k)) (deltaq k) = dues b (delta_of k) (deltaq k)"
  by (rule dues_cong) (metis aligned_simps(7))

lemma insert_unfold:
  assumes "deltaq k = l # ls" "int32 (elapsed k)" "new_timer \<longrightarrow> int32 (delta_of k h + elapsed k)"
  shows "timer_delta_q_insert call h new_timer k =
    (let k1 = aligned h new_timer k in
     if delta_of k1 h < delta_of k1 l then do {
       k2 \<leftarrow> put_delta l (delta_of k1 l - delta_of k1 h) k1;
       continue (if new_timer then do { cnt \<leftarrow> to_int32 (delta_of k2 h - elapsed k); timer_set_hw_top call cnt True k2 } else Some (Done k2))
         (\<lambda>k3. Some (Done (k3\<lparr>deltaq := h # deltaq k3\<rparr>)))
     } else do { k2 \<leftarrow> delta_walk h [] (l # ls) k1; Some (Done k2) })"
proof -
  have "to_int32 (outstanding_ticks k + uint (TCNT0 k)) = Some (elapsed k)"
    using to_int32_fits [OF assms(2)] by (simp add: elapsed_def)
  moreover have "(if new_timer then put_delta h (delta_of k h + elapsed k) k else Some k) = Some (aligned h new_timer k)"
    using assms(3) put_delta_fits by (auto simp: aligned_def)
  ultimately show ?thesis
    unfolding timer_delta_q_insert_def assms(1) list.case Let_def timer_hardware_get_counter_def by (simp only: Option.bind.bind_lunit)
qed

lemma insert_head_law:
  assumes "insertable h new_timer k" "deltaq k = l # ls" "delta_of (aligned h new_timer k) h < delta_of (aligned h new_timer k) l"
  shows "\<exists>k'. timer_delta_q_insert call h new_timer k = Some (Done k') \<and> inserted h new_timer k k'"
proof -
  let ?a = "aligned h new_timer k"
  define d where "d = delta_of ?a h"
  define f where "f = (timers ?a)(l := (timers ?a l)\<lparr>t_delta := delta_of k l - d\<rparr>)"
  let ?k = "requeued k f (h # l # ls) (if new_timer then elapsed k else outstanding_ticks k)
    (if new_timer then 0 else TCNT0 k) (if new_timer then of_int (clip (delta_of k h) - 1) else OCR0 k)"
  have hl: "h \<noteq> l" "h \<notin> set ls" "l \<notin> set ls" "num_realtime_clock k = 0" "distinct ls"
    and pos: "0 \<le> delta_of k h" "0 \<le> outstanding_ticks k" "\<forall>p \<in> set (l # ls). 0 \<le> delta_of k p"
    using assms by (auto simp: insertable_def no_overdue_def)
  have e: "0 \<le> elapsed k" and d: "d = (if new_timer then delta_of k h + elapsed k else delta_of k h)" "d < delta_of k l"
    using pos assms(3) hl by (simp_all add: elapsed_def d_def)
  have fits: "int32 (elapsed k)" "new_timer \<longrightarrow> int32 (delta_of k h + elapsed k)" "int32 (delta_of k h)" "int32 (delta_of k l - d)"
    using assms(1) pos(1) e d by (auto simp: insertable_def intro!: int32_between) (smt (verit, ccfv_threshold))+
  have f: "t_delta (f h) = d" "t_delta (f l) = delta_of k l - d" "\<forall>p. p \<noteq> h \<and> p \<noteq> l \<longrightarrow> f p = timers k p"
    using hl by (simp_all add: f_def d_def delta_of_def)
  have "timer_delta_q_insert call h new_timer k = Some (Done ?k)"
    unfolding insert_unfold [OF assms(2) fits(1,2)] using assms(2,3) hl(1,4) d fits
    by (cases new_timer)
      (simp_all add: Let_def continue_def put_delta_fits to_int32_fits set_hw_top_law requeued_def aligned_def set_delta_def upd_timer_def delta_of_def elapsed_def f_def)
  moreover have "inserted h new_timer k ?k"
  proof (rule insertedI [OF refl])
    have "dues b (\<lambda>p. t_delta (f p)) ls = dues b (delta_of k) ls" for b
      using f(3) hl by (intro dues_cong) (metis delta_of_def)
    then have "dues b (\<lambda>p. t_delta (f p)) (h # l # ls) = insert_due (b + d) h (dues b (delta_of k) (l # ls))" for b
      using f(1,2) d pos e by auto
    from this [of "- elapsed k"]
    show "remaining ?k = insert_due (if new_timer then delta_of k h else delta_of k h - elapsed k) h (remaining k)"
    proof -
      have "(if new_timer then delta_of k h else delta_of k h - elapsed k) = - elapsed k + d"
        "(if new_timer then elapsed k else outstanding_ticks k) + uint (if new_timer then 0 else TCNT0 k) = elapsed k"
        using d(1) by (simp_all add: elapsed_def)
      with \<open>dues (- elapsed k) (\<lambda>p. t_delta (f p)) (h # l # ls) = _\<close> show ?thesis
        unfolding remaining_requeued remaining_def [of k] assms(2) by (simp only:)
    qed
    show "same_timers f (timers k)"
      unfolding f_def using same_timers_trans [OF same_timers_delta] by (metis aligned_simps(9))
    have "0 \<le> t_delta (f p)" if "p \<in> set ls" for p
      using f(3) that hl pos(3) by (metis delta_of_def list.set_intros(2))
    then show "\<forall>p \<in> set (h # l # ls). 0 \<le> t_delta (f p)"
      using f(1,2) d pos e by simp
    show "\<forall>p. new_timer \<or> t_delta (f p) \<le> delta_of k p"
    proof (intro allI)
      fix p show "new_timer \<or> t_delta (f p) \<le> delta_of k p"
        using f d pos(1) e by (cases "p = h"; cases "p = l") (auto simp: delta_of_def)
    qed
  qed (use f(3) assms(2) hl pos e interval_of_clip in auto)
  ultimately show ?thesis by blast
qed

lemma insert_walk_law:
  assumes "insertable h new_timer k" "deltaq k = l # ls" "\<not> delta_of (aligned h new_timer k) h < delta_of (aligned h new_timer k) l"
  shows "\<exists>k'. timer_delta_q_insert call h new_timer k = Some (Done k') \<and> inserted h new_timer k k'"
proof -
  let ?a = "aligned h new_timer k"
  have hl: "distinct (h # deltaq k)" "h \<noteq> l" "0 \<le> outstanding_ticks k" "0 \<le> elapsed k" "0 \<le> delta_of k h"
    using assms by (auto simp: insertable_def elapsed_def)
  have fits: "int32 (elapsed k)" "new_timer \<longrightarrow> int32 (delta_of k h + elapsed k)"
    using assms(1) hl by (auto simp: insertable_def intro!: int32_between)
  have bound: "delta_of ?a p \<le> INT32_MAX" for p
    using assms(1) by (cases "p = h") (simp_all add: insertable_def)
  have "no_overdue ?a"
    unfolding no_overdue_def using assms(1) hl(1)
    by (metis aligned_simps(1,7) distinct.simps(2) insertable_def no_overdue_def)
  moreover have "0 \<le> delta_of ?a h" "distinct (h # deltaq ?a)" "deltaq ?a = l # ls"
    using hl assms(2) by simp_all
  ultimately obtain f q where f: "delta_walk h [] (l # ls) ?a = Some (requeued ?a f q (outstanding_ticks ?a) (TCNT0 ?a) (OCR0 ?a))"
    "dues (- elapsed k) (\<lambda>p. t_delta (f p)) q = insert_due (- elapsed k + delta_of ?a h) h (dues (- elapsed k) (delta_of ?a) (deltaq ?a))"
    "same_timers f (timers ?a)" "\<forall>p. p \<noteq> h \<and> p \<notin> set (deltaq ?a) \<longrightarrow> f p = timers ?a p"
    "set q = insert h (set (deltaq ?a))" "distinct q" "\<forall>p \<in> set q. 0 \<le> t_delta (f p)" "\<forall>p. t_delta (f p) \<le> delta_of ?a p"
    using insert_behind_law [of h ?a l ls "- elapsed k"] assms(3) bound by (force simp del: aligned_simps)
  let ?k = "requeued k f q (outstanding_ticks k) (TCNT0 k) (OCR0 k)"
  have ins: "timer_delta_q_insert call h new_timer k = Some (Done ?k)"
    unfolding insert_unfold [OF assms(2) fits] using assms(3) f(1) by (simp add: Let_def aligned_frame)
  have r: "remaining ?k = insert_due (if new_timer then delta_of k h else delta_of k h - elapsed k) h (remaining k)"
  proof -
    have "(if new_timer then delta_of k h else delta_of k h - elapsed k) = - elapsed k + delta_of ?a h"
      "outstanding_ticks k + uint (TCNT0 k) = elapsed k" "dues (- elapsed k) (delta_of ?a) (deltaq k) = dues (- elapsed k) (delta_of k) (deltaq k)"
      using hl(1) aligned_remaining [of h k "- elapsed k" new_timer] by (simp_all add: elapsed_def)
    with f(2) show ?thesis
      unfolding remaining_requeued remaining_def [of k] aligned_simps(1) by (simp only:)
  qed
  have "map snd (remaining ?k) = q"
    by (simp add: remaining_def)
  then have "hd q = l"
    using assms(2,3) hl(2) unfolding r by (auto simp: remaining_def split: if_splits)
  moreover have "\<forall>p. new_timer \<or> t_delta (f p) \<le> delta_of k p"
    using f(8) by (auto simp: aligned_def)
  ultimately have "inserted h new_timer k ?k"
    using r f(3-7) same_timers_trans [OF f(3)] hl assms(2) by (intro insertedI [OF refl]) auto
  with ins show ?thesis by blast
qed

lemma insert_law:
  assumes "insertable h new_timer k"
  shows "\<exists>k'. timer_delta_q_insert call h new_timer k = Some (Done k') \<and> inserted h new_timer k k'"
proof (cases "deltaq k")
  case Nil
  then show ?thesis by (rule insert_empty_law [OF assms])
next
  case (Cons l ls)
  then show ?thesis using insert_head_law [OF assms Cons] insert_walk_law [OF assms Cons] by blast
qed

subsection \<open>Removal and update\<close>

lemma next_in_split: "tt \<notin> set xs \<Longrightarrow> next_in tt (xs @ tt # ys) = (case ys of [] \<Rightarrow> None | y # _ \<Rightarrow> Some y)"
  by (induction xs) auto

lemma deltas_ok_append: "deltas_ok f (xs @ ys) \<longleftrightarrow> deltas_ok f xs \<and> deltas_ok f ys \<and> ((\<exists>x \<in> set xs. 0 < f x) \<longrightarrow> (\<forall>y \<in> set ys. 0 \<le> f y))"
  by (induction xs) auto

lemma deltas_ok_nonneg: "\<forall>x \<in> set xs. 0 \<le> f x \<Longrightarrow> deltas_ok f xs"
  by (induction xs) auto

lemma filter_dues: "p \<notin> set xs \<Longrightarrow> filter (\<lambda>(t, x). x \<noteq> p) (dues b f xs) = dues b f xs"
  by (induction xs arbitrary: b) auto

lemma remove_timer_law:
  assumes "deltaq k = xs @ tt # ys" "distinct (deltaq k)" "deltas_ok (delta_of k) (deltaq k)"
    "ys = [] \<or> delta_of k tt \<le> 0 \<or> delta_of k (hd ys) + delta_of k tt \<le> INT32_MAX"
  shows "\<exists>f. timer_remove_timer tt k = Some ((k\<lparr>timers := f\<rparr>)\<lparr>deltaq := xs @ ys\<rparr>) \<and> same_timers f (timers k) \<and>
    dues b (\<lambda>p. t_delta (f p)) (xs @ ys) = filter (\<lambda>(t, x). x \<noteq> tt) (dues b (delta_of k) (deltaq k)) \<and>
    (\<forall>p. p \<notin> set ys \<longrightarrow> f p = timers k p)"
proof (cases "ys = [] \<or> delta_of k tt \<le> 0")
  case True
  have "timer_remove_timer tt k = Some ((k\<lparr>timers := timers k\<rparr>)\<lparr>deltaq := xs @ ys\<rparr>)"
    using True assms by (auto simp: timer_remove_timer_def next_in_split remove1_append Let_def split: list.split)
  moreover have "dues b (delta_of k) (xs @ ys) = filter (\<lambda>(t, x). x \<noteq> tt) (dues b (delta_of k) (deltaq k))"
    using assms True by (auto simp: dues_append filter_dues)
  ultimately show ?thesis
    by (intro exI [of _ "timers k"]) (auto simp: delta_of_def [abs_def])
next
  case False
  then obtain y zs where ys: "ys = y # zs" "0 < delta_of k tt" by (cases ys) auto
  let ?f = "(timers k)(y := (timers k y)\<lparr>t_delta := delta_of k y + delta_of k tt\<rparr>)"
  have "int32 (delta_of k y + delta_of k tt)"
    using assms ys by (intro int32_between) (auto simp: deltas_ok_append INT32_MAX_def)
  then have "timer_remove_timer tt k = Some ((k\<lparr>timers := ?f\<rparr>)\<lparr>deltaq := xs @ ys\<rparr>)"
    using ys assms by (simp add: timer_remove_timer_def next_in_split put_delta_fits remove1_append) (simp add: set_delta_def upd_timer_def)
  moreover have "dues b (\<lambda>p. t_delta (?f p)) (xs @ ys) = filter (\<lambda>(t, x). x \<noteq> tt) (dues b (delta_of k) (deltaq k))"
  proof -
    have y: "0 \<le> delta_of k y" "y \<notin> set xs" "y \<notin> set zs" "tt \<notin> set xs" "tt \<notin> set zs" "tt \<noteq> y"
      using assms ys by (auto simp: deltas_ok_append)
    have f: "(\<lambda>p. t_delta (?f p)) = (delta_of k)(y := delta_of k y + delta_of k tt)"
      by (auto simp: delta_of_def)
    show ?thesis
      unfolding f using y ys assms(1) by (simp add: dues_append filter_dues algebra_simps)
  qed
  ultimately show ?thesis
    using ys by (intro exI [of _ ?f]) (simp add: same_timers_delta)
qed

lemma update_walk_law:
  assumes "distinct hs" "\<forall>h \<in> set hs. 0 \<le> delta_of k h \<and> delta_of k h \<le> INT32_MAX" "0 \<le> d" "d \<le> INT32_MAX"
  shows "\<exists>f. update_walk d hs k = Some (k\<lparr>timers := f\<rparr>) \<and> same_timers f (timers k) \<and>
    dues b (\<lambda>p. t_delta (f p)) hs = dues (b - d) (delta_of k) hs \<and> (\<forall>p. p \<notin> set hs \<longrightarrow> f p = timers k p) \<and>
    deltas_ok (\<lambda>p. t_delta (f p)) hs \<and> (\<forall>p \<in> set hs. - INT32_MAX \<le> t_delta (f p) \<and> t_delta (f p) \<le> delta_of k p)"
  using assms
proof (induction hs arbitrary: k d)
  case Nil
  then show ?case by (intro exI [of _ "timers k"]) simp
next
  case (Cons h hs)
  let ?k = "set_delta h (delta_of k h - d) k"
  have h: "0 \<le> delta_of k h" "h \<notin> set hs" "\<forall>x \<in> set hs. 0 \<le> delta_of k x" using Cons.prems by auto
  have fits: "int32 (delta_of k h - d)"
    using Cons.prems by (intro int32_between) auto
  show ?case
  proof (cases "d \<le> delta_of k h")
    case True
    have "dues b' (delta_of ?k) hs = dues b' (delta_of k) hs" for b'
      using h by simp
    then have "dues b (delta_of ?k) (h # hs) = dues (b - d) (delta_of k) (h # hs)"
      using True h(1) by (simp add: algebra_simps)
    moreover have "deltas_ok (delta_of ?k) (h # hs)"
      using True h by (intro deltas_ok_nonneg) auto
    moreover have "delta_of ?k = (\<lambda>p. t_delta (timers ?k p))"
      by (rule ext) (rule delta_of_def)
    ultimately have "dues b (\<lambda>p. t_delta (timers ?k p)) (h # hs) = dues (b - d) (delta_of k) (h # hs)"
      "deltas_ok (\<lambda>p. t_delta (timers ?k p)) (h # hs)"
      by (simp_all only:)
    moreover have "update_walk d (h # hs) k = Some (k\<lparr>timers := timers ?k\<rparr>)" "same_timers (timers ?k) (timers k)"
      "\<forall>p. p \<notin> set (h # hs) \<longrightarrow> timers ?k p = timers k p"
      using True by (simp_all add: put_delta_fits [OF fits]) (simp_all add: set_delta_def upd_timer_def same_timers_delta)
    moreover have "\<forall>p \<in> set (h # hs). - INT32_MAX \<le> t_delta (timers ?k p) \<and> t_delta (timers ?k p) \<le> delta_of k p"
      unfolding delta_of_def [of ?k, symmetric] using True h Cons.prems(3) by (auto simp: INT32_MAX_def)
    ultimately show ?thesis
      by (intro exI [of _ "timers ?k"] conjI)
  next
    case False
    have rest: "to_int32 (d - delta_of k h) = Some (d - delta_of k h)"
      using False Cons.prems by (intro to_int32_fits int32_between) auto
    have "\<exists>f. update_walk (d - delta_of k h) hs ?k = Some (?k\<lparr>timers := f\<rparr>) \<and> same_timers f (timers ?k) \<and>
      dues b (\<lambda>p. t_delta (f p)) hs = dues (b - (d - delta_of k h)) (delta_of ?k) hs \<and> (\<forall>p. p \<notin> set hs \<longrightarrow> f p = timers ?k p) \<and>
      deltas_ok (\<lambda>p. t_delta (f p)) hs \<and> (\<forall>p \<in> set hs. - INT32_MAX \<le> t_delta (f p) \<and> t_delta (f p) \<le> delta_of ?k p)"
      by (rule Cons.IH) (use Cons.prems False in auto)
    then obtain f where f: "update_walk (d - delta_of k h) hs ?k = Some (?k\<lparr>timers := f\<rparr>)" "same_timers f (timers ?k)"
      "dues b (\<lambda>p. t_delta (f p)) hs = dues (b - (d - delta_of k h)) (delta_of ?k) hs" "\<forall>p. p \<notin> set hs \<longrightarrow> f p = timers ?k p"
      "deltas_ok (\<lambda>p. t_delta (f p)) hs" "\<forall>p \<in> set hs. - INT32_MAX \<le> t_delta (f p) \<and> t_delta (f p) \<le> delta_of ?k p"
      by (elim exE conjE) (rule that)
    have fh: "t_delta (f h) = delta_of k h - d"
      using f(4) h by (simp add: set_delta_def upd_timer_def)
    moreover have "dues b' (delta_of ?k) hs = dues b' (delta_of k) hs" for b'
      using h by simp
    moreover have "update_walk d (h # hs) k = Some (k\<lparr>timers := f\<rparr>)"
      using False f(1) rest by (simp add: put_delta_fits [OF fits]) (simp add: set_delta_def upd_timer_def)
    moreover have "\<forall>p \<in> set (h # hs). - INT32_MAX \<le> t_delta (f p) \<and> t_delta (f p) \<le> delta_of k p"
    proof -
      have "\<forall>p \<in> set hs. delta_of ?k p = delta_of k p"
        using h(2) by auto
      then show ?thesis
        using f(6) fh h(1) Cons.prems(3,4) by auto
    qed
    moreover have "same_timers f (timers k)" "\<forall>p. p \<notin> set (h # hs) \<longrightarrow> f p = timers k p"
      using same_timers_trans [OF f(2)] f(4) by (simp_all add: set_delta_def upd_timer_def same_timers_delta)
    ultimately show ?thesis
      using False h(1) f(3,5) by (intro exI [of _ f]) (simp add: algebra_simps)
  qed
qed

subsection \<open>Expiry\<close>

lemma next_delta_pos: "0 < ticks \<Longrightarrow> ticks \<le> INT32_MAX \<Longrightarrow> - INT32_MAX \<le> d \<Longrightarrow>
  next_delta ticks d = Some (if d \<le> 0 then d + ticks * (- d div ticks + 1) else d)"
proof (induction "nat (1 - d)" arbitrary: d rule: less_induct)
  case less
  show ?case
  proof (cases "d \<le> 0")
    case True
    have "int32 (d + ticks)"
      using True less.prems by (intro int32_between) auto
    then have "next_delta ticks d = next_delta ticks (d + ticks)"
      using True by (subst next_delta.simps) (simp add: to_int32_fits)
    also have "\<dots> = Some (if d + ticks \<le> 0 then d + ticks + ticks * (- (d + ticks) div ticks + 1) else d + ticks)"
      by (rule less.hyps) (use less.prems True in auto)
    also have "\<dots> = Some (d + ticks * (- d div ticks + 1))"
    proof (cases "d + ticks \<le> 0")
      case True
      have "- (d + ticks) div ticks = - d div ticks - 1"
        using div_mult_self1 [of ticks "- d" "- 1"] less.prems(1) by (simp add: algebra_simps)
      then show ?thesis using True by (simp add: algebra_simps)
    next
      case False
      then have "- d div ticks = 0" using \<open>d \<le> 0\<close> by (simp add: div_pos_pos_trivial)
      then show ?thesis using False by simp
    qed
    finally show ?thesis using True by simp
  next
    case False
    then show ?thesis by (subst next_delta.simps) simp
  qed
qed

text \<open>Without a positive period the loop does not end.\<close>

lemma next_delta_stuck: "ticks \<le> 0 \<Longrightarrow> d \<le> 0 \<Longrightarrow> next_delta ticks d = None"
proof -
  have "next_delta ticks d = Some r \<Longrightarrow> \<not> (ticks \<le> 0 \<and> d \<le> 0)" for r
  proof (rule next_delta.raw_induct [where P = "\<lambda>t d r. \<not> (t \<le> 0 \<and> d \<le> 0)"])
    fix nd :: "int \<Rightarrow> int \<Rightarrow> int option" and t d r
    assume IH: "\<And>t d r. nd t d = Some r \<Longrightarrow> \<not> (t \<le> 0 \<and> d \<le> 0)" and
      eq: "(if d \<le> 0 then do { d1 \<leftarrow> to_int32 (d + t); nd t d1 } else Some d) = Some r"
    have "nd t (d + t) = Some r" if "d \<le> 0"
      using eq that by (auto simp: to_int32_def split: if_splits)
    then show "\<not> (t \<le> 0 \<and> d \<le> 0)"
      using IH [of t "d + t" r] by linarith
  qed
  then show "ticks \<le> 0 \<Longrightarrow> d \<le> 0 \<Longrightarrow> next_delta ticks d = None"
    by (cases "next_delta ticks d") auto
qed

text \<open>
  What the theorems on expiry ask of the modules: a handler returns, leaves the timers and the module
  table alone, and may change everything else; \<open>note\<close> is what it does to a part of the state that the
  kernel does not know, from the module and the timer that the message names.
\<close>

definition quiet :: "'a timer_sys_scheme handler \<Rightarrow> (sos_pid_t \<Rightarrow> u8 \<Rightarrow> 'a \<Rightarrow> 'a) \<Rightarrow> bool" where
  "quiet run note \<longleftrightarrow> (\<forall>f s m k. \<exists>k' r. run f s m k = Some (Done (k', r)) \<and>
     timers k' = timers k \<and> deltaq k' = deltaq k \<and> timer_pool k' = timer_pool k \<and> periodic_pool k' = periodic_pool k \<and>
     outstanding_ticks k' = outstanding_ticks k \<and> TCNT0 k' = TCNT0 k \<and> OCR0 k' = OCR0 k \<and>
     num_realtime_clock k' = num_realtime_clock k \<and> mods k' = mods k \<and> mod_bin k' = mod_bin k \<and> mod_cache k' = mod_cache k \<and>
     timer_sys.more k' = note (m_did (headers k m)) (bytes_of k (m_data (headers k m))) (timer_sys.more k))"

text \<open>The same of one step of the kernel.\<close>

definition keeps :: "'a timer_sys_scheme \<Rightarrow> 'a timer_sys_scheme \<Rightarrow> bool" where
  "keeps k k' \<longleftrightarrow> timers k' = timers k \<and> deltaq k' = deltaq k \<and> timer_pool k' = timer_pool k \<and> periodic_pool k' = periodic_pool k \<and>
     outstanding_ticks k' = outstanding_ticks k \<and> TCNT0 k' = TCNT0 k \<and> OCR0 k' = OCR0 k \<and>
     num_realtime_clock k' = num_realtime_clock k \<and> mods k' = mods k \<and> mod_bin k' = mod_bin k"

definition table_ok :: "'a mod_sys_scheme \<Rightarrow> addr list list \<Rightarrow> bool" where
  "table_ok k bs \<longleftrightarrow> bins_ok (mods k) (mod_bin k) bs \<and> cache_ok k bs"

definition known :: "'a mod_sys_scheme \<Rightarrow> addr list list \<Rightarrow> sos_pid_t \<Rightarrow> bool" where
  "known k bs pid \<longleftrightarrow> registered (mods k) bs pid \<noteq> None"

lemma put_bytes_frame: "p < a \<Longrightarrow> put_bytes a xs b p = b p"
  by (induction xs arbitrary: a b) auto

lemma put_bytes_first: "put_bytes a (x # xs) b a = x"
  by (simp add: put_bytes_frame)

lemma dispatch_law:
  assumes "quiet run note" "table_ok k bs"
  shows "\<exists>k'. sched_dispatch_short_message run dst src ty b w fl k = Some (Done k') \<and> keeps k k' \<and> table_ok k' bs \<and>
    timer_sys.more k' = (if known k bs dst then note dst b (timer_sys.more k) else timer_sys.more k)"
proof -
  obtain c where c: "ker_get_module dst k = Some (k\<lparr>mod_cache := c\<rparr>, node_of (registered (mods k) bs dst))"
    "cache_ok (k\<lparr>mod_cache := c\<rparr>) bs"
    using get_module_law [of k bs dst] assms(2) by (auto simp: table_ok_def)
  show ?thesis
  proof (cases "registered (mods k) bs dst")
    case None
    then show ?thesis
      using c assms(2) by (intro exI [of _ "k\<lparr>mod_cache := c\<rparr>"])
        (simp add: sched_dispatch_short_message_def keeps_def table_ok_def known_def)
  next
    case (Some h)
    then have h: "h \<noteq> NULL"
      using assms(2) registered_nonnull by (auto simp: table_ok_def)
    define k1 where "k1 = k\<lparr>mod_cache := c\<rparr>"
    define sm where "sm = short_msg k1"
    define k2 where "k2 = upd_msg sm (\<lambda>x. x\<lparr>m_did := dst, m_sid := src, m_type := ty\<rparr>) k1"
    define k3 where "k3 = k2\<lparr>bytes_of := put_bytes (m_data (headers k2 sm)) (b # word_bytes w) (bytes_of k2)\<rparr>"
    define k4 where "k4 = (upd_msg sm (\<lambda>x. x\<lparr>m_flag := fl\<rparr>) k3)\<lparr>curr_pid := dst\<rparr>"
    have k4: "keeps k k4" "mod_cache k4 = c" "m_did (headers k4 sm) = dst" "timer_sys.more k4 = timer_sys.more k"
      "m_data (headers k4 sm) = m_data (headers k2 sm)" "bytes_of k4 = put_bytes (m_data (headers k2 sm)) (b # word_bytes w) (bytes_of k2)"
      by (simp_all add: k4_def k3_def k2_def k1_def keeps_def upd_msg_def set_msg_def)
    have byte: "bytes_of k4 (m_data (headers k4 sm)) = b"
      unfolding k4(5,6) by (rule put_bytes_first)
    obtain k5 r where k5: "run (module_handler (mod_rom k1 (mod_header (mods k1 h)))) (handler_state (mods k1 h)) sm k4 = Some (Done (k5, r))"
      "keeps k4 k5" "mod_cache k5 = mod_cache k4" "timer_sys.more k5 = note dst b (timer_sys.more k4)"
      using assms(1) [unfolded quiet_def, rule_format, of "module_handler (mod_rom k1 (mod_header (mods k1 h)))" "handler_state (mods k1 h)" sm k4]
      unfolding k4(3) byte keeps_def by blast
    have "sched_dispatch_short_message run dst src ty b w fl k = Some (Done k5)"
      using Some h c(1) k5(1) by (simp add: sched_dispatch_short_message_def k4_def k3_def k2_def sm_def k1_def Let_def)
    moreover have "keeps k k5" "table_ok k5 bs"
      using k4(1,2) k5(2,3) assms(2) c(2) by (simp_all add: keeps_def table_ok_def cache_ok_def)
    ultimately show ?thesis
      using Some k4(4) k5(4) by (intro exI [of _ k5]) (simp add: known_def)
  qed
qed

text \<open>The timers that the loop leaves: periodic ones have their next delta.\<close>

definition periodic :: "sos_timer_t \<Rightarrow> bool" where
  "periodic t \<longleftrightarrow> t_type t AND ONE_SHOT_TIMER_MASK = 0"

definition renew :: "sos_timer_t \<Rightarrow> sos_timer_t" where
  "renew t = (if periodic t then t\<lparr>t_delta := (if t_delta t \<le> 0 then t_delta t + t_ticks t * (- t_delta t div t_ticks t + 1) else t_delta t)\<rparr> else t)"

lemma renew_fields [simp]:
  "t_pid (renew t) = t_pid t" "t_tid (renew t) = t_tid t" "t_type (renew t) = t_type t" "t_ticks (renew t) = t_ticks t"
  "periodic (renew t) = periodic t"
  by (simp_all add: renew_def periodic_def)

text \<open>The observations of the expired timers, in order.\<close>

fun observe :: "(sos_pid_t \<Rightarrow> u8 \<Rightarrow> 'a \<Rightarrow> 'a) \<Rightarrow> (sos_pid_t \<Rightarrow> bool) \<Rightarrow> (addr \<Rightarrow> sos_timer_t) \<Rightarrow> addr list \<Rightarrow> 'a \<Rightarrow> 'a" where
  "observe note kn ts [] x = x"
| "observe note kn ts (h # hs) x =
     observe note kn ts hs (if kn (t_pid (ts h)) then note (t_pid (ts h)) (t_tid (ts h)) x else x)"

lemma observe_cong: "(\<And>h. h \<in> set hs \<Longrightarrow> t_pid (f h) = t_pid (g h) \<and> t_tid (f h) = t_tid (g h)) \<Longrightarrow> observe note kn f hs x = observe note kn g hs x"
  by (induction hs arbitrary: x) auto

definition renewed :: "addr list \<Rightarrow> (addr \<Rightarrow> sos_timer_t) \<Rightarrow> addr \<Rightarrow> sos_timer_t" where
  "renewed xs ts p = (if p \<in> set xs then renew (ts p) else ts p)"

lemma expire_head_law:
  assumes "periodic (timers k h) \<longrightarrow> 0 < t_ticks (timers k h)" "- INT32_MAX \<le> delta_of k h" "t_ticks (timers k h) \<le> INT32_MAX"
  shows "expire_head h q k = Some (k\<lparr>timers := (timers k)(h := renew (timers k h)), deltaq := q,
    timer_pool := timer_pool k @ filter (\<lambda>p. \<not> periodic (timers k p)) [h],
    periodic_pool := periodic_pool k @ filter (\<lambda>p. periodic (timers k p)) [h]\<rparr>)"
proof (cases "periodic (timers k h)")
  case True
  then have m: "t_type (timers k h) AND ONE_SHOT_TIMER_MASK = 0" "0 < t_ticks (timers k h)"
    using assms by (simp_all add: periodic_def)
  show ?thesis
    using True m(1) next_delta_pos [OF m(2) assms(3), of "t_delta (timers k h)"] assms(2)
    by (simp add: expire_head_def renew_def delta_of_def set_delta_def upd_timer_def)
next
  case False
  then show ?thesis
    by (simp add: expire_head_def renew_def to_pool_def periodic_def)
qed

lemma expire_loop_law:
  assumes "quiet run note" "table_ok k bs" "deltaq k = xs @ ys" "distinct xs" "\<forall>x \<in> set xs. delta_of k x \<le> 0"
    "ys = [] \<or> 0 < delta_of k (hd ys)" "set xs \<inter> set ys = {}" "\<forall>x \<in> set xs. periodic (timers k x) \<longrightarrow> 0 < t_ticks (timers k x)"
    "\<forall>x \<in> set xs. - INT32_MAX \<le> delta_of k x \<and> t_ticks (timers k x) \<le> INT32_MAX"
  shows "\<exists>k'. expire_loop run k = Some (Done k') \<and> table_ok k' bs \<and> timers k' = renewed xs (timers k) \<and> deltaq k' = ys \<and>
    timer_pool k' = timer_pool k @ filter (\<lambda>p. \<not> periodic (timers k p)) xs \<and>
    periodic_pool k' = periodic_pool k @ filter (\<lambda>p. periodic (timers k p)) xs \<and>
    outstanding_ticks k' = outstanding_ticks k \<and> TCNT0 k' = TCNT0 k \<and> OCR0 k' = OCR0 k \<and>
    num_realtime_clock k' = num_realtime_clock k \<and> timer_sys.more k' = observe note (known k bs) (timers k) xs (timer_sys.more k)"
  using assms(2-)
proof (induction xs arbitrary: k)
  case Nil
  then show ?case
    by (intro exI [of _ k]) (auto simp: expire_loop.simps renewed_def split: list.split)
next
  case (Cons h xs)
  let ?k = "k\<lparr>timers := (timers k)(h := renew (timers k h)), deltaq := xs @ ys,
    timer_pool := timer_pool k @ filter (\<lambda>p. \<not> periodic (timers k p)) [h],
    periodic_pool := periodic_pool k @ filter (\<lambda>p. periodic (timers k p)) [h]\<rparr>"
  let ?fl = "if t_type (timers k h) AND SLOW_TIMER_MASK = 0 then ucast (ucast SOS_MSG_HIGH_PRIORITY :: u8) else 0"
  have "table_ok ?k bs"
    using Cons.prems(1) by (simp add: table_ok_def cache_ok_def)
  from dispatch_law [OF assms(1) this, of "t_pid (timers k h)" TIMER_PID MSG_TIMER_TIMEOUT "t_tid (timers k h)" 0 ?fl]
  obtain k2 where k2: "sched_dispatch_short_message run (t_pid (timers k h)) TIMER_PID MSG_TIMER_TIMEOUT (t_tid (timers k h)) 0 ?fl ?k = Some (Done k2)"
    "keeps ?k k2" "table_ok k2 bs" "timer_sys.more k2 = (if known k bs (t_pid (timers k h)) then note (t_pid (timers k h)) (t_tid (timers k h)) (timer_sys.more k) else timer_sys.more k)"
    by (auto simp: known_def)
  have step: "expire_loop run k = expire_loop run k2"
    using Cons.prems expire_head_law [of k h "xs @ ys"] k2(1) by (subst expire_loop.simps) simp
  have "timers k2 = (timers k)(h := renew (timers k h))"
    using k2(2) by (simp add: keeps_def)
  then have same: "\<forall>p \<in> set xs. timers k2 p = timers k p" "\<forall>p \<in> set ys. timers k2 p = timers k p"
    using Cons.prems(3,6) by auto
  have flt: "filter (\<lambda>p. \<not> periodic (timers k2 p)) xs = filter (\<lambda>p. \<not> periodic (timers k p)) xs"
    "filter (\<lambda>p. periodic (timers k2 p)) xs = filter (\<lambda>p. periodic (timers k p)) xs"
    using same(1) by (auto intro!: filter_cong)
  have kn: "known k2 bs = known k bs"
    using k2(2) by (auto simp: known_def keeps_def)
  have nt: "observe note (known k bs) (timers k2) xs x = observe note (known k bs) (timers k) xs x" for x
    using same(1) by (intro observe_cong) auto
  have "\<exists>k'. expire_loop run k2 = Some (Done k') \<and> table_ok k' bs \<and> timers k' = renewed xs (timers k2) \<and> deltaq k' = ys \<and>
    timer_pool k' = timer_pool k2 @ filter (\<lambda>p. \<not> periodic (timers k2 p)) xs \<and>
    periodic_pool k' = periodic_pool k2 @ filter (\<lambda>p. periodic (timers k2 p)) xs \<and>
    outstanding_ticks k' = outstanding_ticks k2 \<and> TCNT0 k' = TCNT0 k2 \<and> OCR0 k' = OCR0 k2 \<and>
    num_realtime_clock k' = num_realtime_clock k2 \<and> timer_sys.more k' = observe note (known k2 bs) (timers k2) xs (timer_sys.more k2)"
  proof (rule Cons.IH)
    show "deltaq k2 = xs @ ys"
      using k2(2) by (simp add: keeps_def)
    show "ys = [] \<or> 0 < delta_of k2 (hd ys)"
      using Cons.prems(5) same(2) by (cases ys) (auto simp: delta_of_def)
    show "\<forall>x \<in> set xs. delta_of k2 x \<le> 0" "\<forall>x \<in> set xs. periodic (timers k2 x) \<longrightarrow> 0 < t_ticks (timers k2 x)"
      "\<forall>x \<in> set xs. - INT32_MAX \<le> delta_of k2 x \<and> t_ticks (timers k2 x) \<le> INT32_MAX"
      using Cons.prems(4,7,8) same(1) by (auto simp: delta_of_def)
  qed (use Cons.prems k2(3) in auto)
  moreover have "renewed xs (timers k2) = renewed (h # xs) (timers k)"
    using k2(2) Cons.prems(3) by (auto simp: renewed_def keeps_def fun_eq_iff)
  moreover have "timer_pool k2 @ filter (\<lambda>p. \<not> periodic (timers k p)) xs = timer_pool k @ filter (\<lambda>p. \<not> periodic (timers k p)) (h # xs)"
    "periodic_pool k2 @ filter (\<lambda>p. periodic (timers k p)) xs = periodic_pool k @ filter (\<lambda>p. periodic (timers k p)) (h # xs)"
    "outstanding_ticks k2 = outstanding_ticks k" "TCNT0 k2 = TCNT0 k" "OCR0 k2 = OCR0 k" "num_realtime_clock k2 = num_realtime_clock k"
    using k2(2) by (simp_all add: keeps_def)
  ultimately show ?case
    unfolding step flt kn nt k2(4) by (simp only: observe.simps)
qed

lemma insertedE:
  assumes "inserted h False k k'"
  obtains f q where "k' = requeued k f q (outstanding_ticks k) (TCNT0 k) (OCR0 k)" "remaining k' = insert_due (delta_of k h - elapsed k) h (remaining k)"
    "\<forall>p. p \<noteq> h \<and> p \<notin> set (deltaq k) \<longrightarrow> f p = timers k p" "set q = insert h (set (deltaq k))" "distinct q"
    "\<forall>p \<in> set q. 0 \<le> t_delta (f p)" "same_timers f (timers k)" "\<forall>p. t_delta (f p) \<le> delta_of k p"
  using assms unfolding inserted_def by auto

lemma requeued_pool: "requeued (k\<lparr>periodic_pool := ps\<rparr>) f q n c r = (requeued k f q n c r)\<lparr>periodic_pool := ps\<rparr>"
  by (simp add: requeued_def)

lemma requeued_requeued: "requeued (requeued k f q n c r) f' q' n' c' r' = requeued k f' q' n' c' r'"
  by (simp add: requeued_def)

lemma remaining_pool [simp]: "remaining (k\<lparr>periodic_pool := ps\<rparr>) = remaining k"
  by (simp add: remaining_def elapsed_def)

lemma reinsert_law:
  assumes "distinct (ps @ deltaq k)" "no_overdue k" "\<forall>p \<in> set ps. 0 \<le> delta_of k p" "num_realtime_clock k = 0" "0 \<le> outstanding_ticks k"
    "periodic_pool k = ps" "\<forall>p. delta_of k p \<le> INT32_MAX" "elapsed k \<le> INT32_MAX"
  shows "\<exists>f q. reinsert_loop call ps k = Some (Done ((requeued k f q (outstanding_ticks k) (TCNT0 k) (OCR0 k))\<lparr>periodic_pool := []\<rparr>)) \<and>
    dues (- elapsed k) (\<lambda>p. t_delta (f p)) q = fold (\<lambda>p. insert_due (delta_of k p - elapsed k) p) ps (remaining k) \<and>
    same_timers f (timers k) \<and> set q = set ps \<union> set (deltaq k) \<and> distinct q \<and> (\<forall>p \<in> set q. 0 \<le> t_delta (f p)) \<and>
    (\<forall>p. t_delta (f p) \<le> delta_of k p)"
  using assms
proof (induction ps arbitrary: k)
  case Nil
  then show ?case
    by (intro exI [of _ "timers k"] exI [of _ "deltaq k"])
      (auto simp: requeued_def remaining_def no_overdue_def delta_of_eta delta_of_def [symmetric])
next
  case (Cons p ps)
  let ?k = "k\<lparr>periodic_pool := ps\<rparr>"
  have "insertable p False ?k"
    using Cons.prems by (auto simp: insertable_def no_overdue_def elapsed_def)
  from insert_law [OF this, of call] obtain k1 where k1: "timer_delta_q_insert call p False ?k = Some (Done k1)" "inserted p False ?k k1"
    by blast
  obtain f q where f: "k1 = requeued ?k f q (outstanding_ticks k) (TCNT0 k) (OCR0 k)" "remaining k1 = insert_due (delta_of k p - elapsed k) p (remaining k)"
    "\<forall>x. x \<noteq> p \<and> x \<notin> set (deltaq k) \<longrightarrow> f x = timers k x" "set q = insert p (set (deltaq k))" "distinct q"
    "\<forall>x \<in> set q. 0 \<le> t_delta (f x)" "same_timers f (timers k)" "\<forall>x. t_delta (f x) \<le> delta_of k x"
    using insertedE [OF k1(2)] by (auto simp: elapsed_def)
  have less: "\<forall>x. delta_of k1 x \<le> delta_of k x"
    using f(1,8) by simp
  have same: "\<forall>x \<in> set ps. delta_of k1 x = delta_of k x"
    using f(1,3) Cons.prems(1) by (auto simp: delta_of_def)
  have e: "elapsed k1 = elapsed k" "num_realtime_clock k1 = 0" "0 \<le> outstanding_ticks k1" "periodic_pool k1 = ps" "deltaq k1 = q"
    "outstanding_ticks k1 = outstanding_ticks k" "TCNT0 k1 = TCNT0 k" "OCR0 k1 = OCR0 k"
    using f(1) Cons.prems(4,5) by (simp_all add: elapsed_def)
  have "\<exists>g r. reinsert_loop call ps k1 = Some (Done ((requeued k1 g r (outstanding_ticks k1) (TCNT0 k1) (OCR0 k1))\<lparr>periodic_pool := []\<rparr>)) \<and>
    dues (- elapsed k1) (\<lambda>x. t_delta (g x)) r = fold (\<lambda>x. insert_due (delta_of k1 x - elapsed k1) x) ps (remaining k1) \<and>
    same_timers g (timers k1) \<and> set r = set ps \<union> set (deltaq k1) \<and> distinct r \<and> (\<forall>x \<in> set r. 0 \<le> t_delta (g x)) \<and>
    (\<forall>x. t_delta (g x) \<le> delta_of k1 x)"
  proof (rule Cons.IH)
    show "distinct (ps @ deltaq k1)"
      using Cons.prems(1) f(4,5) e(5) by auto
    show "no_overdue k1"
      using f(1,6) by (auto simp: no_overdue_def)
    show "\<forall>x \<in> set ps. 0 \<le> delta_of k1 x"
      using same Cons.prems(3) by auto
    show "\<forall>x. delta_of k1 x \<le> INT32_MAX"
      using less Cons.prems(7) order_trans by blast
    show "elapsed k1 \<le> INT32_MAX"
      unfolding e by (rule Cons.prems(8))
  qed (use e in auto)
  then obtain g r where g: "reinsert_loop call ps k1 = Some (Done ((requeued k1 g r (outstanding_ticks k) (TCNT0 k) (OCR0 k))\<lparr>periodic_pool := []\<rparr>))"
    "dues (- elapsed k) (\<lambda>x. t_delta (g x)) r = fold (\<lambda>x. insert_due (delta_of k1 x - elapsed k) x) ps (remaining k1)"
    "same_timers g (timers k1)" "set r = set ps \<union> set q" "distinct r" "\<forall>x \<in> set r. 0 \<le> t_delta (g x)" "\<forall>x. t_delta (g x) \<le> delta_of k1 x"
    unfolding e by (elim exE conjE) (rule that)
  have "fold (\<lambda>x. insert_due (delta_of k1 x - elapsed k) x) ps y = fold (\<lambda>x. insert_due (delta_of k x - elapsed k) x) ps y" for y
    using same by (intro fold_cong) auto
  then have "dues (- elapsed k) (\<lambda>x. t_delta (g x)) r = fold (\<lambda>x. insert_due (delta_of k x - elapsed k) x) (p # ps) (remaining k)"
    using g(2) f(2) by simp
  moreover have "reinsert_loop call (p # ps) k = Some (Done ((requeued k g r (outstanding_ticks k) (TCNT0 k) (OCR0 k))\<lparr>periodic_pool := []\<rparr>))"
    using k1(1) g(1) f(1) by (simp add: continue_def requeued_requeued requeued_pool)
  moreover have "same_timers g (timers k)" "set r = set (p # ps) \<union> set (deltaq k)"
    using same_timers_trans [OF g(3)] f(1,4,7) g(4) by auto
  moreover have "\<forall>x. t_delta (g x) \<le> delta_of k x"
    using g(7) less order_trans by blast
  ultimately show ?case
    using g(5,6) by (intro exI [of _ g] exI [of _ r]) simp
qed

lemma schedule_next_law:
  assumes "num_realtime_clock k = 0" "0 \<le> outstanding_ticks k" "outstanding_ticks k \<le> INT32_MAX - 255"
    "\<forall>h \<in> set (deltaq k). 0 \<le> delta_of k h \<and> delta_of k h \<le> INT32_MAX - 255"
  shows "\<exists>n c r ir ia. schedule_next call k = Some (Done ((requeued k (timers k) (deltaq k) n c r)\<lparr>int_ready := ir, int_array := ia\<rparr>)) \<and>
    (deltaq k \<noteq> [] \<longrightarrow> n + uint c = elapsed k)"
proof (cases "deltaq k")
  case Nil
  then have "schedule_next call k = Some (Done ((requeued k (timers k) (deltaq k) 0 0 (of_int (clip MAX_SLEEP_INTERVAL - 1)))\<lparr>int_ready := int_ready k, int_array := int_array k\<rparr>))"
    using assms(1) by (simp add: schedule_next_def set_hw_top_law requeued_def)
  then show ?thesis using Nil by blast
next
  case (Cons h q)
  let ?w = "outstanding_ticks k - uint (TCNT0 k)"
  have "0 \<le> uint (TCNT0 k)" "uint (TCNT0 k) \<le> 255" "0 \<le> delta_of k h" "delta_of k h \<le> INT32_MAX - 255"
    using uint8_small assms(4) Cons by auto
  then have fits: "int32 ?w" "int32 (delta_of k h - ?w)" "int32 (elapsed k)"
    using assms(2,3) unfolding int32_def elapsed_def INT32_MAX_def by linarith+
  show ?thesis
  proof (cases "0 < delta_of k h - ?w")
    case True
    then have "schedule_next call k = Some (Done ((requeued k (timers k) (deltaq k) (elapsed k) 0 (of_int (clip (delta_of k h - ?w) - 1)))\<lparr>int_ready := int_ready k, int_array := int_array k\<rparr>))"
      using assms(1) Cons fits by (simp add: schedule_next_def set_hw_top_law to_int32_fits requeued_def timer_hardware_get_counter_def)
    moreover have "elapsed k + uint (0 :: u8) = elapsed k" by simp
    ultimately show ?thesis by blast
  next
    case False
    then have "schedule_next call k = Some (Done ((requeued k (timers k) (deltaq k) (outstanding_ticks k) (TCNT0 k) (OCR0 k))\<lparr>int_ready := 1, int_array := (int_array k)[0 := SOFT_INTERRUPT]\<rparr>))"
      using Cons fits by (simp add: schedule_next_def to_int32_fits requeued_def timer_hardware_get_counter_def sched_add_interrupt_def sched_consts timer_consts)
    moreover have "outstanding_ticks k + uint (TCNT0 k) = elapsed k" by (simp add: elapsed_def)
    ultimately show ?thesis by blast
  qed
qed

text \<open>A due timer and the time of its next expiry, from the time that remains and the counter \<open>c\<close>.\<close>

definition is_due :: "int \<Rightarrow> int \<times> addr \<Rightarrow> bool" where
  "is_due c e \<longleftrightarrow> fst e + c \<le> 0"

definition next_time :: "int \<Rightarrow> int \<Rightarrow> int \<Rightarrow> int" where
  "next_time c ticks t = t + ticks * (- (t + c) div ticks + 1)"

text \<open>The timers of the queue after an update: overdue ones in front, with their lateness as the delta.\<close>

lemma dues_split:
  assumes "deltas_ok f xs"
  shows "\<exists>us vs. xs = us @ vs \<and> (\<forall>x \<in> set us. f x \<le> 0) \<and> (vs = [] \<or> 0 < f (hd vs)) \<and> (\<forall>x \<in> set vs. 0 \<le> f x) \<and>
    dues b f xs = map (\<lambda>x. (b + f x, x)) us @ dues b f vs \<and> (\<forall>e \<in> set (dues b f vs). b < fst e)"
  using assms
proof (induction xs)
  case Nil
  then show ?case by simp
next
  case (Cons x xs)
  show ?case
  proof (cases "f x \<le> 0")
    case True
    from Cons obtain us vs where "xs = us @ vs" "\<forall>x \<in> set us. f x \<le> 0" "vs = [] \<or> 0 < f (hd vs)" "\<forall>x \<in> set vs. 0 \<le> f x"
      "dues b f xs = map (\<lambda>x. (b + f x, x)) us @ dues b f vs" "\<forall>e \<in> set (dues b f vs). b < fst e"
      by (auto simp del: dues.simps)
    then show ?thesis
      using True by (intro exI [of _ "x # us"] exI [of _ vs]) simp
  next
    case False
    have "\<forall>e \<in> set (dues c f ys). c \<le> fst e" if "\<forall>y \<in> set ys. 0 \<le> f y" for c ys
      using that by (induction ys arbitrary: c) fastforce+
    moreover have "\<forall>y \<in> set xs. 0 \<le> f y"
      using False Cons.prems by auto
    ultimately have "\<forall>e \<in> set (dues (b + f x) f xs). b + f x \<le> fst e"
      by blast
    then show ?thesis
      using False Cons.prems by (intro exI [of _ "[]"] exI [of _ "x # xs"]) (auto simp: max_def)
  qed
qed

text \<open>
  The state that the soft interrupt starts from. Deltas and periods keep a distance of 255 ticks, the
  range of the counter, from the largest 32 bit number.
\<close>

definition soft_ready :: "'a timer_sys_scheme \<Rightarrow> addr list list \<Rightarrow> bool" where
  "soft_ready k bs \<longleftrightarrow> table_ok k bs \<and> distinct (deltaq k) \<and> no_overdue k \<and> 0 \<le> outstanding_ticks k \<and>
     num_realtime_clock k = 0 \<and> periodic_pool k = [] \<and> (\<forall>p \<in> set (deltaq k). periodic (timers k p) \<longrightarrow> 0 < t_ticks (timers k p)) \<and>
     int32_timers k \<and> (\<forall>p \<in> set (deltaq k). delta_of k p \<le> INT32_MAX - 255 \<and> t_ticks (timers k p) \<le> INT32_MAX - 255)"

lemma update_law:
  assumes "distinct (deltaq k)" "no_overdue k" "0 \<le> outstanding_ticks k" "int32_timers k"
  shows "\<exists>f. timer_update_delta k = Some (k\<lparr>timers := f, outstanding_ticks := 0\<rparr>) \<and> same_timers f (timers k) \<and>
    dues (- uint (TCNT0 k)) (\<lambda>p. t_delta (f p)) (deltaq k) = remaining k \<and> deltas_ok (\<lambda>p. t_delta (f p)) (deltaq k) \<and>
    (\<forall>p \<in> set (deltaq k). - INT32_MAX \<le> t_delta (f p)) \<and> (\<forall>p. t_delta (f p) \<le> delta_of k p)"
proof -
  have "distinct (deltaq k)" "\<forall>h \<in> set (deltaq k). 0 \<le> delta_of (k\<lparr>outstanding_ticks := 0\<rparr>) h \<and> delta_of (k\<lparr>outstanding_ticks := 0\<rparr>) h \<le> INT32_MAX"
    using assms int32_timersD(2) by (auto simp: no_overdue_def)
  from update_walk_law [OF this assms(3) int32_timersD(1) [OF assms(4)], of "- uint (TCNT0 k)"]
  obtain f where f: "update_walk (outstanding_ticks k) (deltaq k) (k\<lparr>outstanding_ticks := 0\<rparr>) = Some (k\<lparr>outstanding_ticks := 0\<rparr>\<lparr>timers := f\<rparr>)"
    "same_timers f (timers (k\<lparr>outstanding_ticks := 0\<rparr>))"
    "dues (- uint (TCNT0 k)) (\<lambda>p. t_delta (f p)) (deltaq k) = dues (- uint (TCNT0 k) - outstanding_ticks k) (delta_of (k\<lparr>outstanding_ticks := 0\<rparr>)) (deltaq k)"
    "deltas_ok (\<lambda>p. t_delta (f p)) (deltaq k)" "\<forall>p. p \<notin> set (deltaq k) \<longrightarrow> f p = timers (k\<lparr>outstanding_ticks := 0\<rparr>) p"
    "\<forall>p \<in> set (deltaq k). - INT32_MAX \<le> t_delta (f p) \<and> t_delta (f p) \<le> delta_of (k\<lparr>outstanding_ticks := 0\<rparr>) p"
    by (elim exE conjE) (rule that)
  have "- uint (TCNT0 k) - outstanding_ticks k = - elapsed k"
    by (simp add: elapsed_def)
  moreover have "t_delta (f p) \<le> delta_of k p" for p
    using f(5,6) by (cases "p \<in> set (deltaq k)") (simp_all add: delta_of_def)
  ultimately show ?thesis
    using f by (intro exI [of _ f]) (simp add: timer_update_delta_def remaining_def)
qed

lemma due_parts:
  assumes "\<forall>x \<in> set us. f x \<le> 0" "\<forall>e \<in> set ds. - c < fst e"
  shows "filter (is_due c) (map (\<lambda>x. (- c + f x, x)) us @ ds) = map (\<lambda>x. (- c + f x, x)) us"
    "filter (\<lambda>e. \<not> is_due c e) (map (\<lambda>x. (- c + f x, x)) us @ ds) = ds"
  using assms by (auto simp: is_due_def filter_empty_conv filter_id_conv)

lemma renew_pos: "0 < t_ticks t \<Longrightarrow> periodic t \<Longrightarrow> t_delta t \<le> 0 \<Longrightarrow> 0 < t_delta (renew t)"
proof -
  assume t: "0 < t_ticks t" "periodic t" "t_delta t \<le> 0"
  have "- t_delta t = t_ticks t * (- t_delta t div t_ticks t) + - t_delta t mod t_ticks t"
    by (rule mult_div_mod_eq [symmetric])
  moreover have "- t_delta t mod t_ticks t < t_ticks t"
    using t(1) by (rule pos_mod_bound)
  ultimately have "- t_delta t < t_ticks t * (- t_delta t div t_ticks t + 1)"
    unfolding distrib_left by linarith
  then show ?thesis
    using t by (simp add: renew_def)
qed

lemma renew_le: "0 < t_ticks t \<Longrightarrow> periodic t \<Longrightarrow> t_delta t \<le> 0 \<Longrightarrow> t_delta (renew t) \<le> t_ticks t"
proof -
  assume t: "0 < t_ticks t" "periodic t" "t_delta t \<le> 0"
  have "- t_delta t = t_ticks t * (- t_delta t div t_ticks t) + - t_delta t mod t_ticks t" "0 \<le> - t_delta t mod t_ticks t"
    using t(1) by (simp_all add: mult_div_mod_eq [symmetric])
  then have "t_delta t + t_ticks t * (- t_delta t div t_ticks t + 1) \<le> t_ticks t"
    unfolding distrib_left by linarith
  then show ?thesis
    using t by (simp add: renew_def)
qed

lemma renewed_le:
  assumes "\<forall>x \<in> set us. t_delta (f x) \<le> 0 \<and> (periodic (f x) \<longrightarrow> 0 < t_ticks (f x))"
    "t_delta (f p) \<le> n" "p \<in> set us \<longrightarrow> t_ticks (f p) \<le> n"
  shows "t_delta (renewed us f p) \<le> n"
  using assms renew_le [of "f p"] by (cases "p \<in> set us \<and> periodic (f p)") (auto simp: renewed_def renew_def)

text \<open>The first phase of the soft interrupt: the due timers expire.\<close>

lemma expire_phase:
  assumes "quiet run note" "soft_ready k bs"
  shows "\<exists>k0 k2 f us vs. timer_update_delta k = Some k0 \<and> expire_loop run k0 = Some (Done k2) \<and> same_timers f (timers k) \<and> deltaq k = us @ vs \<and>
    filter (is_due (uint (TCNT0 k))) (remaining k) = map (\<lambda>x. (- uint (TCNT0 k) + t_delta (f x), x)) us \<and>
    filter (\<lambda>e. \<not> is_due (uint (TCNT0 k)) e) (remaining k) = dues (- uint (TCNT0 k)) (\<lambda>p. t_delta (f p)) vs \<and>
    (\<forall>x \<in> set us. t_delta (f x) \<le> 0) \<and> (\<forall>x \<in> set vs. 0 \<le> t_delta (f x)) \<and> timers k2 = renewed us f \<and> deltaq k2 = vs \<and>
    timer_pool k2 = timer_pool k @ filter (\<lambda>p. \<not> periodic (timers k p)) us \<and> periodic_pool k2 = filter (\<lambda>p. periodic (timers k p)) us \<and>
    outstanding_ticks k2 = 0 \<and> TCNT0 k2 = TCNT0 k \<and> num_realtime_clock k2 = 0 \<and>
    timer_sys.more k2 = observe note (known k bs) (timers k) us (timer_sys.more k) \<and>
    (\<forall>p. delta_of k2 p \<le> INT32_MAX) \<and> (\<forall>p \<in> set (deltaq k). delta_of k2 p \<le> INT32_MAX - 255)"
proof -
  let ?c = "uint (TCNT0 k)"
  note r = assms(2) [unfolded soft_ready_def]
  obtain f where f: "timer_update_delta k = Some (k\<lparr>timers := f, outstanding_ticks := 0\<rparr>)" "same_timers f (timers k)"
    "dues (- ?c) (\<lambda>p. t_delta (f p)) (deltaq k) = remaining k" "deltas_ok (\<lambda>p. t_delta (f p)) (deltaq k)"
    "\<forall>p \<in> set (deltaq k). - INT32_MAX \<le> t_delta (f p)" "\<forall>p. t_delta (f p) \<le> delta_of k p"
    using update_law [of k] r by blast
  have ff: "\<And>p. periodic (f p) = periodic (timers k p)" "\<And>p. t_ticks (f p) = t_ticks (timers k p)"
    using same_timersD [OF f(2)] by (simp_all add: periodic_def)
  from dues_split [OF f(4), of "- ?c"] obtain us vs where u: "deltaq k = us @ vs" "\<forall>x \<in> set us. t_delta (f x) \<le> 0"
    "vs = [] \<or> 0 < t_delta (f (hd vs))" "\<forall>x \<in> set vs. 0 \<le> t_delta (f x)"
    "remaining k = map (\<lambda>x. (- ?c + t_delta (f x), x)) us @ dues (- ?c) (\<lambda>p. t_delta (f p)) vs"
    "\<forall>e \<in> set (dues (- ?c) (\<lambda>p. t_delta (f p)) vs). - ?c < fst e"
    unfolding f(3) by blast
  let ?k1 = "k\<lparr>timers := f, outstanding_ticks := 0\<rparr>"
  have dis: "distinct us" "distinct vs" "set us \<inter> set vs = {}"
    using r u(1) by auto
  have kn: "known ?k1 bs = known k bs"
    by (simp add: known_def fun_eq_iff)
  have ob: "observe note (known k bs) f us x = observe note (known k bs) (timers k) us x" for x
    using same_timersD [OF f(2)] by (intro observe_cong) simp
  have "\<exists>k2. expire_loop run ?k1 = Some (Done k2) \<and> table_ok k2 bs \<and> timers k2 = renewed us (timers ?k1) \<and> deltaq k2 = vs \<and>
    timer_pool k2 = timer_pool ?k1 @ filter (\<lambda>p. \<not> periodic (timers ?k1 p)) us \<and>
    periodic_pool k2 = periodic_pool ?k1 @ filter (\<lambda>p. periodic (timers ?k1 p)) us \<and>
    outstanding_ticks k2 = outstanding_ticks ?k1 \<and> TCNT0 k2 = TCNT0 ?k1 \<and> OCR0 k2 = OCR0 ?k1 \<and>
    num_realtime_clock k2 = num_realtime_clock ?k1 \<and> timer_sys.more k2 = observe note (known ?k1 bs) (timers ?k1) us (timer_sys.more ?k1)"
    by (rule expire_loop_law [OF assms(1)]) (use r u(1-3) dis ff f(5) int32_timersD(3) in \<open>auto simp: table_ok_def cache_ok_def delta_of_def\<close>)
  then obtain k2 where k2: "expire_loop run ?k1 = Some (Done k2)" "timers k2 = renewed us f" "deltaq k2 = vs"
    "timer_pool k2 = timer_pool k @ filter (\<lambda>p. \<not> periodic (timers k p)) us" "periodic_pool k2 = filter (\<lambda>p. periodic (timers k p)) us"
    "outstanding_ticks k2 = 0" "TCNT0 k2 = TCNT0 k" "num_realtime_clock k2 = 0"
    "timer_sys.more k2 = observe note (known k bs) (timers k) us (timer_sys.more k)"
    unfolding kn using r ff ob by auto
  have us: "\<forall>x \<in> set us. t_delta (f x) \<le> 0 \<and> (periodic (f x) \<longrightarrow> 0 < t_ticks (f x))"
    using r u(1,2) ff by auto
  have lim: "delta_of k2 p \<le> n" if "delta_of k p \<le> n" "p \<in> set us \<longrightarrow> t_ticks (timers k p) \<le> n" for p n
  proof -
    have "t_delta (f p) \<le> n"
      using f(6) [rule_format, of p] that(1) by (rule order_trans)
    then show ?thesis
      unfolding delta_of_def [of k2] k2(2) using that(2) ff(2) by (intro renewed_le [OF us]) simp_all
  qed
  have "\<forall>p. delta_of k2 p \<le> INT32_MAX"
    using lim int32_timersD r by blast
  moreover have "\<forall>p \<in> set (deltaq k). delta_of k2 p \<le> INT32_MAX - 255"
    using lim r by blast
  ultimately show ?thesis
    using f(1) k2 f(2) u(1,2,4) due_parts [OF u(2,6), folded u(5)]
    by - (rule exI [of _ ?k1], rule exI [of _ k2], rule exI [of _ f], rule exI [of _ us], rule exI [of _ vs], intro conjI)
qed

text \<open>The second phase: the periodic ones are queued again and the next interrupt is set.\<close>

lemma finish_phase:
  assumes "distinct (periodic_pool k @ deltaq k)" "no_overdue k" "\<forall>p \<in> set (periodic_pool k). 0 \<le> delta_of k p"
    "num_realtime_clock k = 0" "outstanding_ticks k = 0" "\<forall>p. delta_of k p \<le> INT32_MAX"
    "\<forall>p \<in> set (periodic_pool k @ deltaq k). delta_of k p \<le> INT32_MAX - 255"
  shows "\<exists>k'. continue (reinsert_loop call (periodic_pool k) k) (schedule_next call) = Some (Done k') \<and>
    remaining k' = fold (\<lambda>p. insert_due (delta_of k p - elapsed k) p) (periodic_pool k) (remaining k) \<and>
    timer_pool k' = timer_pool k \<and> periodic_pool k' = [] \<and> timer_sys.more k' = timer_sys.more k"
proof -
  obtain f q where f: "reinsert_loop call (periodic_pool k) k = Some (Done ((requeued k f q (outstanding_ticks k) (TCNT0 k) (OCR0 k))\<lparr>periodic_pool := []\<rparr>))"
    "dues (- elapsed k) (\<lambda>p. t_delta (f p)) q = fold (\<lambda>p. insert_due (delta_of k p - elapsed k) p) (periodic_pool k) (remaining k)"
    "set q = set (periodic_pool k) \<union> set (deltaq k)" "\<forall>p \<in> set q. 0 \<le> t_delta (f p)" "\<forall>p. t_delta (f p) \<le> delta_of k p"
  proof -
    have "0 \<le> outstanding_ticks k" "elapsed k \<le> INT32_MAX"
      using uint8_small [of "TCNT0 k"] assms(5) by (simp_all add: elapsed_def INT32_MAX_def)
    from reinsert_law [OF assms(1-4) this(1) refl assms(6) this(2), of call] show ?thesis
      by (elim exE conjE) (rule that)
  qed
  define k1 where "k1 = (requeued k f q (outstanding_ticks k) (TCNT0 k) (OCR0 k))\<lparr>periodic_pool := []\<rparr>"
  have k1: "timers k1 = f" "deltaq k1 = q" "num_realtime_clock k1 = 0" "elapsed k1 = elapsed k" "timer_pool k1 = timer_pool k"
    "periodic_pool k1 = []" "timer_sys.more k1 = timer_sys.more k"
    using assms(4) by (simp_all add: k1_def elapsed_def) (simp add: requeued_def)
  have "\<forall>p \<in> set (deltaq k1). 0 \<le> delta_of k1 p \<and> delta_of k1 p \<le> INT32_MAX - 255"
    using f(3-5) assms(7) k1(1,2) order_trans by (fastforce simp: delta_of_def)
  moreover have "0 \<le> outstanding_ticks k1" "outstanding_ticks k1 \<le> INT32_MAX - 255"
    using assms(5) by (simp_all add: k1_def INT32_MAX_def)
  ultimately obtain n c r ir ia where
    s: "schedule_next call k1 = Some (Done ((requeued k1 f q n c r)\<lparr>int_ready := ir, int_array := ia\<rparr>))" "q \<noteq> [] \<longrightarrow> n + uint c = elapsed k"
    using schedule_next_law [OF k1(3), of call] unfolding k1(1,2,4) by blast
  let ?k = "(requeued k1 f q n c r)\<lparr>int_ready := ir, int_array := ia\<rparr>"
  have "delta_of ?k = (\<lambda>p. t_delta (f p))" "deltaq ?k = q" "elapsed ?k = n + uint c" "timer_sys.more ?k = timer_sys.more k"
    "timer_pool ?k = timer_pool k" "periodic_pool ?k = []"
    using k1 by (simp_all add: requeued_def elapsed_def delta_of_def fun_eq_iff)
  moreover from this have "remaining ?k = dues (- elapsed k) (\<lambda>p. t_delta (f p)) q"
    using s(2) by (cases "q = []") (simp_all add: remaining_def)
  moreover have "continue (reinsert_loop call (periodic_pool k) k) (schedule_next call) = Some (Done ?k)"
    unfolding f(1) using s(1) by (simp add: continue_def k1_def)
  ultimately show ?thesis
    using f(2) by (intro exI [of _ ?k] conjI) (simp_all only:)
qed

lemma filter_map_conj: "filter (\<lambda>e. P e \<and> Q (snd e)) xs = filter (\<lambda>e. Q (snd e)) (filter P xs)"
  by (induction xs) auto

lemma soft_interrupt_law:
  assumes "quiet run note" "soft_ready k bs"
  shows "\<exists>k'. soft_interrupt run call k = Some (Done k') \<and>
    remaining k' = fold (\<lambda>(t, p). insert_due (next_time (uint (TCNT0 k)) (t_ticks (timers k p)) t) p)
      (filter (\<lambda>e. is_due (uint (TCNT0 k)) e \<and> periodic (timers k (snd e))) (remaining k))
      (filter (\<lambda>e. \<not> is_due (uint (TCNT0 k)) e) (remaining k)) \<and>
    timer_pool k' = timer_pool k @ filter (\<lambda>p. \<not> periodic (timers k p)) (map snd (filter (is_due (uint (TCNT0 k))) (remaining k))) \<and>
    periodic_pool k' = [] \<and>
    timer_sys.more k' = observe note (known k bs) (timers k) (map snd (filter (is_due (uint (TCNT0 k))) (remaining k))) (timer_sys.more k)"
proof -
  let ?c = "uint (TCNT0 k)"
  from expire_phase [OF assms] obtain k0 k2 f us vs where k0: "timer_update_delta k = Some k0" and
    k2: "expire_loop run k0 = Some (Done k2)" "same_timers f (timers k)"
    "deltaq k = us @ vs" "filter (is_due ?c) (remaining k) = map (\<lambda>x. (- ?c + t_delta (f x), x)) us"
    "filter (\<lambda>e. \<not> is_due ?c e) (remaining k) = dues (- ?c) (\<lambda>p. t_delta (f p)) vs"
    "\<forall>x \<in> set us. t_delta (f x) \<le> 0" "\<forall>x \<in> set vs. 0 \<le> t_delta (f x)" "timers k2 = renewed us f" "deltaq k2 = vs"
    "timer_pool k2 = timer_pool k @ filter (\<lambda>p. \<not> periodic (timers k p)) us" "periodic_pool k2 = filter (\<lambda>p. periodic (timers k p)) us"
    "outstanding_ticks k2 = 0" "TCNT0 k2 = TCNT0 k" "num_realtime_clock k2 = 0"
    "timer_sys.more k2 = observe note (known k bs) (timers k) us (timer_sys.more k)"
    "\<forall>p. delta_of k2 p \<le> INT32_MAX" "\<forall>p \<in> set (deltaq k). delta_of k2 p \<le> INT32_MAX - 255"
    by (elim exE conjE) (rule that)
  have ff: "\<And>p. periodic (f p) = periodic (timers k p)" "\<And>p. t_ticks (f p) = t_ticks (timers k p)"
    using same_timersD [OF k2(2)] by (simp_all add: periodic_def)
  have dis: "distinct (us @ vs)" and ticks: "\<forall>p \<in> set us. periodic (timers k p) \<longrightarrow> 0 < t_ticks (timers k p)"
    using assms(2) k2(3) by (auto simp: soft_ready_def)
  have rv: "\<forall>p \<in> set vs. delta_of k2 p = t_delta (f p)" "\<forall>p \<in> set us. delta_of k2 p = t_delta (renew (f p))"
    using dis k2(8) by (auto simp: renewed_def delta_of_def)
  have e2: "elapsed k2 = ?c"
    using k2(12,13) by (simp add: elapsed_def)
  have rem2: "remaining k2 = dues (- ?c) (\<lambda>p. t_delta (f p)) vs"
    unfolding remaining_def e2 k2(9) using rv(1) by (intro dues_cong) simp
  have "\<exists>k'. continue (reinsert_loop call (periodic_pool k2) k2) (schedule_next call) = Some (Done k') \<and>
    remaining k' = fold (\<lambda>p. insert_due (delta_of k2 p - elapsed k2) p) (periodic_pool k2) (remaining k2) \<and>
    timer_pool k' = timer_pool k2 \<and> periodic_pool k' = [] \<and> timer_sys.more k' = timer_sys.more k2"
  proof (rule finish_phase)
    show "\<forall>p \<in> set (periodic_pool k2). 0 \<le> delta_of k2 p"
      using renew_pos rv(2) k2(6) ticks ff by (auto simp: k2(11) intro!: less_imp_le)
    show "no_overdue k2"
      using rv(1) k2(7) by (simp add: no_overdue_def k2(9))
    show "\<forall>p \<in> set (periodic_pool k2 @ deltaq k2). delta_of k2 p \<le> INT32_MAX - 255"
      using k2(3,17) by (auto simp: k2(9,11))
  qed (use k2 dis in auto)
  then obtain k' where k': "continue (reinsert_loop call (periodic_pool k2) k2) (schedule_next call) = Some (Done k')"
    "remaining k' = fold (\<lambda>p. insert_due (delta_of k2 p - ?c) p) (filter (\<lambda>p. periodic (timers k p)) us) (remaining k2)"
    "timer_pool k' = timer_pool k2" "periodic_pool k' = []" "timer_sys.more k' = timer_sys.more k2"
    unfolding e2 k2(11) by blast
  have "delta_of k2 p - ?c = next_time ?c (t_ticks (timers k p)) (- ?c + t_delta (f p))" if "p \<in> set us" "periodic (timers k p)" for p
    using rv(2) that k2(6) ff by (simp add: next_time_def renew_def)
  then have "remaining k' = fold (\<lambda>(t, p). insert_due (next_time ?c (t_ticks (timers k p)) t) p)
      (filter (\<lambda>e. periodic (timers k (snd e))) (map (\<lambda>x. (- ?c + t_delta (f x), x)) us)) (remaining k2)"
    unfolding k'(2) filter_map fold_map comp_def by (intro fold_cong) auto
  moreover have "soft_interrupt run call k = Some (Done k')"
    unfolding soft_interrupt_def k0 using k2(1) k'(1) by (simp add: continue_def)
  moreover have "map snd (map (\<lambda>x. (- ?c + t_delta (f x), x)) us) = us"
    by (simp add: comp_def)
  moreover have "filter (\<lambda>e. is_due ?c e \<and> periodic (timers k (snd e))) (remaining k) =
      filter (\<lambda>e. periodic (timers k (snd e))) (map (\<lambda>x. (- ?c + t_delta (f x), x)) us)"
    unfolding k2(4) [symmetric] by (rule filter_map_conj)
  ultimately show ?thesis
    unfolding k2(4,5) using k'(3-5) k2(10,15) rem2 by (intro exI [of _ k'] conjI) (simp_all only:)
qed

section \<open>A concrete state\<close>

text \<open>
  Three timers of module 130: the periodic 900 of 100 ticks is the head of the queue, the one-shot
  timer 901 follows 50 ticks later, and 902 is initialised. Of the last interval of 120 ticks nothing is
  accounted for yet, and 7 more have passed. Handlers keep a log of their timeouts.
\<close>

definition demo_timers :: "addr \<Rightarrow> sos_timer_t" where
  "demo_timers = (\<lambda>p. \<lparr>t_type = (if p = 900 then 0 else 1), t_pid = 130, t_tid = of_nat (p - 900), t_ticks = 100,
     t_delta = (if p = 900 then 100 else 50), t_flag = 0\<rparr>)"

definition demo_timer_sys :: "(sos_pid_t \<times> u8) list timer_sys_scheme" where
  "demo_timer_sys = demo_sys demo_heap \<lparr>timers = demo_timers, deltaq = [900, 901], timer_pool = [902], prealloc_timer_pool = [],
     periodic_pool = [], outstanding_ticks = 120, num_realtime_clock = 0,
     realtime = replicate 4 \<lparr>rt_value = 0, rt_interval = 0, rt_f = NULL\<rparr>,
     timer_slab = \<lparr>slab_head = NULL, num_items_per_pool = 4, empty_vector = 15, item_size = 16, slab_flag = 0x80\<rparr>,
     TCNT0 = 7, OCR0 = 249, \<dots> = []\<rparr>"

definition log_handler :: "(sos_pid_t \<times> u8) list timer_sys_scheme handler" where
  "log_handler f s m k =
     Some (Done (timer_sys.more_update (\<lambda>l. l @ [(m_did (headers k m), bytes_of k (m_data (headers k m)))]) k, 0))"

lemma log_quiet: "quiet log_handler (\<lambda>pid tid l. l @ [(pid, tid)])"
  by (simp add: quiet_def log_handler_def)

lemma demo_timer_simps:
  "timers demo_timer_sys = demo_timers" "deltaq demo_timer_sys = [900, 901]" "timer_pool demo_timer_sys = [902]" "periodic_pool demo_timer_sys = []"
  "outstanding_ticks demo_timer_sys = 120" "num_realtime_clock demo_timer_sys = 0" "TCNT0 demo_timer_sys = 7" "OCR0 demo_timer_sys = 249"
  "mods demo_timer_sys = demo_modules" "mod_bin demo_timer_sys = [NULL, NULL, 40, NULL]" "mod_cache demo_timer_sys = NULL"
  "delta_of demo_timer_sys p = (if p = 900 then 100 else 50)" "timer_sys.more demo_timer_sys = []"
  by (simp_all add: demo_timer_sys_def demo_sys_def delta_of_def demo_timers_def)

lemma demo_int32: "int32_timers demo_timer_sys"
  by (simp add: int32_timers_def demo_timer_simps) (simp add: demo_timers_def int32_def INT32_MAX_def)

lemma demo_remaining: "remaining demo_timer_sys = [(- 27, 900), (23, 901)]"
  by (simp add: remaining_def elapsed_def demo_timer_simps)

lemma demo_ready: "soft_ready demo_timer_sys [[], [], [40, 50], []]"
  using demo_bins
  by (simp add: soft_ready_def table_ok_def cache_ok_def no_overdue_def demo_timer_simps demo_int32) (simp add: demo_timers_def INT32_MAX_def)

lemma demo_known: "known demo_timer_sys [[], [], [40, 50], []] 130"
  by (simp add: known_def registered_def members_def demo_timer_simps) (simp add: demo_modules_def)

section \<open>Properties\<close>

lemma find_timer_Some:
  assumes "find_timer ts pid tid xs = tt" "tt \<noteq> NULL"
  shows "tt \<in> set xs" "t_pid (ts tt) = pid" "t_tid (ts tt) = tid"
  using assms by (auto simp: find_timer_def find_Some_iff split: option.splits)

lemma timer_start_law:
  assumes "find_timer (timers k) pid tid (timer_pool k) = tt" "tt \<noteq> NULL" "distinct (tt # deltaq k)" "no_overdue k"
    "num_realtime_clock k = 0" "0 \<le> outstanding_ticks k" "0 \<le> interval" "int32_timers k" "interval + elapsed k \<le> INT32_MAX"
  shows "\<exists>k'. ker_timer_start call pid tid interval k = Some (Done (k', SOS_OK)) \<and>
    remaining k' = insert_due interval tt (remaining k) \<and> timer_pool k' = remove1 tt (timer_pool k) \<and> no_overdue k' \<and>
    t_ticks (timers k' tt) = interval \<and> int32_timers k' \<and>
    (hd (deltaq k') = tt \<longrightarrow> uint (timer_getInterval k') = clip interval \<and> timer_hardware_get_counter k' = 0) \<and>
    (hd (deltaq k') \<noteq> tt \<longrightarrow> timer_getInterval k' = timer_getInterval k \<and> timer_hardware_get_counter k' = timer_hardware_get_counter k)"
proof -
  let ?k = "upd_timer tt (\<lambda>t. t\<lparr>t_ticks := interval, t_delta := interval\<rparr>) (k\<lparr>timer_pool := remove1 tt (timer_pool k)\<rparr>)"
  have d: "delta_of ?k = (delta_of k)(tt := interval)"
    by (auto simp: upd_timer_def delta_of_def)
  have q: "deltaq ?k = deltaq k" "num_realtime_clock ?k = 0" "outstanding_ticks ?k = outstanding_ticks k" "elapsed ?k = elapsed k"
    "timer_pool ?k = remove1 tt (timer_pool k)" "t_ticks (timers ?k tt) = interval" "TCNT0 ?k = TCNT0 k" "OCR0 ?k = OCR0 k"
    using assms(5) by (simp_all add: upd_timer_def elapsed_def)
  have "0 \<le> elapsed k" "\<forall>p. delta_of k p \<le> INT32_MAX"
    using assms(6) int32_timersD(2) [OF assms(8)] by (simp_all add: elapsed_def)
  then have "insertable tt True ?k"
    using assms(3,4,6,7,9) q d by (auto simp: insertable_def no_overdue_def)
  from insert_law [OF this, of call] obtain k' where k': "timer_delta_q_insert call tt True ?k = Some (Done k')" "inserted tt True ?k k'"
    by blast
  have rem: "remaining ?k = remaining k"
    unfolding remaining_def q d using assms(3) by simp
  from k'(2) obtain f w n c r where i: "k' = requeued ?k f w n c r"
     "remaining k' = insert_due (if True then delta_of ?k tt else delta_of ?k tt - elapsed ?k) tt (remaining ?k)"
     "if True \<and> hd w = tt then uint (timer_getInterval k') = clip (delta_of ?k tt) \<and> c = 0
      else c = TCNT0 ?k \<and> r = OCR0 ?k \<and> n = outstanding_ticks ?k"
     "same_timers f (timers ?k)" "\<forall>p \<in> set w. 0 \<le> t_delta (f p)"
    unfolding inserted_def by (elim exE conjE) (rule that)
  have i2: "remaining k' = insert_due interval tt (remaining k)"
    using i(2) unfolding rem d by simp
  have i3: "if hd w = tt then uint (timer_getInterval k') = clip interval \<and> c = 0 else c = TCNT0 k \<and> r = OCR0 k"
    using i(3) unfolding q d by (auto split: if_splits)
  have "ker_timer_start call pid tid interval k = Some (Done (k', SOS_OK))"
    using assms(1,2) k'(1) by (simp add: ker_timer_start_def alloc_from_timer_pool_def Let_def continue_def)
  moreover from this have "int32_timers k'"
  proof -
    have "int32 interval"
      using \<open>0 \<le> elapsed k\<close> assms(7,9) by (intro int32_between) (auto simp: INT32_MAX_def)
    then show "ker_timer_start call pid tid interval k = Some (Done (k', SOS_OK)) \<Longrightarrow> int32_timers k'"
      by (rule ker_timer_start_int32 [OF disjI1 [OF assms(5)] assms(8)])
  qed
  moreover have "no_overdue k'" "t_ticks (timers k' tt) = interval" "timer_pool k' = remove1 tt (timer_pool k)"
    using i(1,5) same_timersD(4) [OF i(4), of tt] q by (simp_all add: no_overdue_def)
  moreover have "hd (deltaq k') = tt \<longrightarrow> uint (timer_getInterval k') = clip interval \<and> timer_hardware_get_counter k' = 0"
    "hd (deltaq k') \<noteq> tt \<longrightarrow> timer_getInterval k' = timer_getInterval k \<and> timer_hardware_get_counter k' = timer_hardware_get_counter k"
    using i(1) i3 by (simp_all add: timer_hardware_get_counter_def timer_getInterval_def split: if_splits)
  ultimately show ?thesis
    using i2 by (intro exI [of _ k'] conjI)
qed

text \<open>
  C15. Starting a timer, with the delta queue as a list of remaining times, while no real-time clock runs
  and no timer of the queue is overdue (no delta is negative; \<open>start_behind_overdue_late\<close> below is what
  happens otherwise): \<^verbatim>\<open>ker_timer_start\<close> of an initialised timer that is not running puts it, with the
  whole interval remaining, behind all timers that are not due later and leaves the remaining time of every
  other timer as it is, however many ticks the clock and the queue have not accounted for yet. The interval
  and these ticks together are a number of 32 bits; all numbers of the timers are, before and after. If the
  timer is now the first one, the hardware interrupt is set to its interval, within the bounds of the
  hardware; otherwise the hardware is not touched. The result is SOS_OK for every interval that is not
  negative, also below the five ticks for which \<^verbatim>\<open>sos_timer.h\<close> promises -EPERM.
\<close>

theorem ker_timer_start_correct:
  assumes "find_timer (timers k) pid tid (timer_pool k) = tt" "tt \<noteq> NULL" "distinct (tt # deltaq k)" "no_overdue k"
    "num_realtime_clock k = 0" "0 \<le> outstanding_ticks k" "0 \<le> interval" "int32_timers k" "interval + elapsed k \<le> INT32_MAX"
  shows "\<exists>k'. ker_timer_start call pid tid interval k = Some (Done (k', SOS_OK)) \<and>
    remaining k' = insert_due interval tt (remaining k) \<and> timer_pool k' = remove1 tt (timer_pool k) \<and> no_overdue k' \<and>
    t_ticks (timers k' tt) = interval \<and> int32_timers k' \<and>
    (hd (deltaq k') = tt \<longrightarrow> uint (timer_getInterval k') = clip interval \<and> timer_hardware_get_counter k' = 0) \<and>
    (hd (deltaq k') \<noteq> tt \<longrightarrow> timer_getInterval k' = timer_getInterval k \<and> timer_hardware_get_counter k' = timer_hardware_get_counter k)"
  by (rule timer_start_law [OF assms])

theorem ker_timer_start_correct_witness:
  "\<exists>k'. ker_timer_start (\<lambda>f k. None) 130 2 20 demo_timer_sys = Some (Done (k', SOS_OK)) \<and>
     remaining k' = [(- 27, 900), (20, 902), (23, 901)]"
proof -
  have "find_timer (timers demo_timer_sys) 130 2 (timer_pool demo_timer_sys) = 902"
    by (simp add: demo_timer_simps find_timer_def) (simp add: demo_timers_def)
  then obtain k' where "ker_timer_start (\<lambda>f k. None) 130 2 20 demo_timer_sys = Some (Done (k', SOS_OK))"
    "remaining k' = insert_due 20 902 (remaining demo_timer_sys)"
    using ker_timer_start_correct [of demo_timer_sys 130 2 902 20 "\<lambda>f k. None"] demo_int32
    by (auto simp: demo_timer_simps no_overdue_def elapsed_def INT32_MAX_def)
  then show ?thesis
    by (simp add: demo_remaining)
qed

text \<open>
  Stopping a running timer: \<^verbatim>\<open>ker_timer_stop\<close> takes exactly this timer out of the delta queue
  and puts it into the pool of initialised timers; the remaining times of all the others stay as they
  are, also when timers are overdue.
\<close>

theorem ker_timer_stop_correct:
  assumes "find_timer (timers k) pid tid (periodic_pool k) = NULL" "find_timer (timers k) pid tid (deltaq k) = tt" "tt \<noteq> NULL"
    "distinct (deltaq k)" "deltas_ok (delta_of k) (deltaq k)" "\<forall>p \<in> set (deltaq k). delta_of k p + delta_of k tt \<le> INT32_MAX"
  shows "\<exists>k'. ker_timer_stop pid tid k = Some (k', SOS_OK) \<and> remaining k' = filter (\<lambda>(t, x). x \<noteq> tt) (remaining k) \<and>
    timer_pool k' = timer_pool k @ [tt] \<and> same_timers (timers k') (timers k)"
proof -
  obtain xs ys where q: "deltaq k = xs @ tt # ys"
    using find_timer_Some(1) [OF assms(2,3)] by (auto dest: split_list)
  have "ys = [] \<or> delta_of k tt \<le> 0 \<or> delta_of k (hd ys) + delta_of k tt \<le> INT32_MAX"
    using assms(6) q by (cases ys) auto
  from remove_timer_law [OF q assms(4,5) this, of "- elapsed k"]
  obtain f where f: "timer_remove_timer tt k = Some ((k\<lparr>timers := f\<rparr>)\<lparr>deltaq := xs @ ys\<rparr>)"
    "same_timers f (timers k)" "dues (- elapsed k) (\<lambda>p. t_delta (f p)) (xs @ ys) = filter (\<lambda>(t, x). x \<noteq> tt) (dues (- elapsed k) (delta_of k) (deltaq k))"
    by (elim exE conjE) (rule that)
  let ?k = "to_pool tt ((k\<lparr>timers := f\<rparr>)\<lparr>deltaq := xs @ ys\<rparr>)"
  have "ker_timer_stop pid tid k = Some (?k, SOS_OK)"
    using assms(1-3) f(1) by (simp add: ker_timer_stop_def find_timer_in_periodic_pool_def find_timer_block_def Let_def)
  moreover have "delta_of ?k = (\<lambda>p. t_delta (f p))" "deltaq ?k = xs @ ys" "elapsed ?k = elapsed k"
    "timers ?k = f" "timer_pool ?k = timer_pool k @ [tt]"
    by (simp_all add: to_pool_def elapsed_def delta_of_def fun_eq_iff)
  ultimately show ?thesis
    using f(2,3) by (intro exI [of _ ?k]) (simp add: remaining_def)
qed

theorem ker_timer_stop_correct_witness:
  "\<exists>k'. ker_timer_stop 130 0 demo_timer_sys = Some (k', SOS_OK) \<and> remaining k' = [(23, 901)]"
proof -
  have "find_timer (timers demo_timer_sys) 130 0 (deltaq demo_timer_sys) = 900"
    by (simp add: demo_timer_simps find_timer_def) (simp add: demo_timers_def)
  then obtain k' where "ker_timer_stop 130 0 demo_timer_sys = Some (k', SOS_OK)" "remaining k' = filter (\<lambda>(t, x). x \<noteq> 900) (remaining demo_timer_sys)"
    using ker_timer_stop_correct [of demo_timer_sys 130 0 900] by (auto simp: demo_timer_simps find_timer_def INT32_MAX_def)
  then show ?thesis
    by (simp add: demo_remaining)
qed

text \<open>
  C2. The soft interrupt of the timers returns, whatever is in the queue, when no delta of the queue was
  negative before, no real-time clock runs, periodic timers have a positive period, deltas and periods are
  at least 255 ticks below the largest 32 bit number, and the handlers return and leave the timers alone.
  Every timer whose time is over at the last hardware interrupt is reported to its module exactly once, in
  the order of the due times; one-shot timers go back to the pool; a periodic timer keeps its phase: it is
  due again at the first multiple of its period after the last interrupt. The remaining times of all other
  timers do not change.
\<close>

theorem soft_interrupt_correct:
  assumes "quiet run note" "soft_ready k bs"
  shows "\<exists>k'. soft_interrupt run call k = Some (Done k') \<and>
    remaining k' = fold (\<lambda>(t, p). insert_due (next_time (uint (TCNT0 k)) (t_ticks (timers k p)) t) p)
      (filter (\<lambda>e. is_due (uint (TCNT0 k)) e \<and> periodic (timers k (snd e))) (remaining k))
      (filter (\<lambda>e. \<not> is_due (uint (TCNT0 k)) e) (remaining k)) \<and>
    timer_pool k' = timer_pool k @ filter (\<lambda>p. \<not> periodic (timers k p)) (map snd (filter (is_due (uint (TCNT0 k))) (remaining k))) \<and>
    periodic_pool k' = [] \<and>
    timer_sys.more k' = observe note (known k bs) (timers k) (map snd (filter (is_due (uint (TCNT0 k))) (remaining k))) (timer_sys.more k)"
  by (rule soft_interrupt_law [OF assms])

theorem soft_interrupt_correct_witness:
  "\<exists>k'. soft_interrupt log_handler (\<lambda>f k. None) demo_timer_sys = Some (Done k') \<and>
     remaining k' = [(23, 901), (73, 900)] \<and> timer_sys.more k' = [(130, 0)]"
proof -
  have "is_due 7 (- 27, 900)" "\<not> is_due 7 (23, 901)" "periodic (demo_timers 900)" "t_ticks (demo_timers 900) = 100"
    "next_time 7 100 (- 27) = 73" "t_pid (demo_timers 900) = 130" "t_tid (demo_timers 900) = 0"
    by (simp_all add: is_due_def periodic_def demo_timers_def next_time_def)
  then show ?thesis
    using soft_interrupt_correct [OF log_quiet demo_ready, of "\<lambda>f k. None"] demo_known
    by (auto simp: demo_remaining demo_timer_simps)
qed

text \<open>
  C23. What the soft interrupt programs when ticks have passed since the hardware interrupt: the first
  timer has \<open>t\<close> ticks left and the counter stands at \<open>c\<close>, but the next interrupt is set \<open>t + 2 * c\<close> ticks
  ahead, since the counter is subtracted from the outstanding ticks instead of being added to them. The
  timer expires late by twice the time the interrupt waited. No real-time clock runs, and no 32 bit number
  overflows.
\<close>

theorem schedule_next_late:
  assumes "num_realtime_clock k = 0" "remaining k = (t, h) # rs" "0 < t + 2 * uint (timer_hardware_get_counter k)"
    "int32 (outstanding_ticks k - uint (timer_hardware_get_counter k))" "int32 (outstanding_ticks k + uint (timer_hardware_get_counter k))"
    "t + 2 * uint (timer_hardware_get_counter k) \<le> INT32_MAX"
  shows "\<exists>k'. schedule_next call k = Some (Done k') \<and> remaining k' = remaining k \<and>
    uint (timer_getInterval k') = clip (t + 2 * uint (timer_hardware_get_counter k)) \<and> timer_hardware_get_counter k' = 0"
proof -
  obtain q where q: "deltaq k = h # q"
    using arg_cong [OF assms(2), of "map snd"] by (cases "deltaq k") (simp_all add: remaining_def)
  have t: "delta_of k h - (outstanding_ticks k - uint (TCNT0 k)) = t + 2 * uint (TCNT0 k)"
    using assms(2) unfolding remaining_def q by (auto simp: elapsed_def)
  let ?k = "k\<lparr>outstanding_ticks := elapsed k, TCNT0 := 0, OCR0 := of_int (clip (t + 2 * uint (TCNT0 k)) - 1)\<rparr>"
  have "int32 (t + 2 * uint (TCNT0 k))" "int32 (elapsed k)" "int32 (outstanding_ticks k - uint (TCNT0 k))"
    using assms(3-6) by (auto intro!: int32_between simp: timer_hardware_get_counter_def elapsed_def INT32_MAX_def)
  then have "schedule_next call k = Some (Done ?k)"
    using assms(3) unfolding schedule_next_def timer_hardware_get_counter_def q list.case
    by (simp add: set_hw_top_law [OF assms(1)] to_int32_fits t)
  moreover have "remaining ?k = remaining k"
    by (simp add: remaining_def elapsed_def)
  moreover have "uint (timer_getInterval ?k) = clip (t + 2 * uint (TCNT0 k))"
    using interval_of_clip by (simp add: timer_getInterval_def)
  ultimately show ?thesis
    by (intro exI [of _ ?k]) (simp add: timer_hardware_get_counter_def)
qed

theorem schedule_next_late_witness:
  "\<exists>k'. schedule_next (\<lambda>f k. None) (demo_timer_sys\<lparr>deltaq := [901], outstanding_ticks := 0\<rparr>) = Some (Done k') \<and>
     remaining k' = [(43, 901)] \<and> uint (timer_getInterval k') = 57"
proof -
  let ?k = "demo_timer_sys\<lparr>deltaq := [901], outstanding_ticks := 0\<rparr>"
  have "remaining ?k = [(43, 901)]" "num_realtime_clock ?k = 0" "uint (timer_hardware_get_counter ?k) = 7"
    by (simp_all add: remaining_def elapsed_def timer_hardware_get_counter_def demo_timer_simps)
  then show ?thesis
    using schedule_next_late [of ?k 43 901 "[]" "\<lambda>f k. None"] 
    by (auto simp: clip_def timer_consts int32_def INT32_MAX_def demo_timer_simps)
qed

text \<open>
  A handler that runs while another timer is overdue, and starts a timer: the insertion takes the negative
  delta of the overdue timer as a distance, and the new timer is late by as much as the other one.
\<close>

theorem start_behind_overdue_late:
  assumes "find_timer (timers k) pid tid (timer_pool k) = tt" "tt \<noteq> NULL" "deltaq k = [l]" "tt \<noteq> l" "delta_of k l < 0"
    "0 \<le> outstanding_ticks k" "0 \<le> interval" "interval + elapsed k - delta_of k l \<le> INT32_MAX"
  shows "\<exists>k'. ker_timer_start call pid tid interval k = Some (Done (k', SOS_OK)) \<and>
    remaining k' = [(delta_of k l - elapsed k, l), (interval - delta_of k l, tt)]"
proof -
  let ?k = "upd_timer tt (\<lambda>t. t\<lparr>t_ticks := interval, t_delta := interval\<rparr>) (k\<lparr>timer_pool := remove1 tt (timer_pool k)\<rparr>)"
  have d: "delta_of ?k = (delta_of k)(tt := interval)"
    by (auto simp: upd_timer_def delta_of_def)
  have q: "deltaq ?k = [l]" "elapsed ?k = elapsed k" "outstanding_ticks ?k = outstanding_ticks k" "TCNT0 ?k = TCNT0 k"
    using assms(3) by (simp_all add: upd_timer_def elapsed_def)
  let ?k' = "(set_delta tt (interval + elapsed k - delta_of k l) (set_delta tt (interval + elapsed k) ?k))\<lparr>deltaq := [l, tt]\<rparr>"
  have e: "0 \<le> elapsed k"
    using assms(6) by (simp add: elapsed_def)
  then have fits: "int32 (elapsed ?k)" "True \<longrightarrow> int32 (delta_of ?k tt + elapsed ?k)" "int32 (interval + elapsed k - delta_of k l)"
    using assms(5,7,8) unfolding q d by (auto intro!: int32_between simp: INT32_MAX_def)
  have "timer_delta_q_insert call tt True ?k = Some (Done ?k')"
    unfolding insert_unfold [OF q(1) fits(1,2)] aligned_def using assms(4,5,7) e fits(3) by (simp add: Let_def d q put_delta_fits)
  moreover have "remaining ?k' = [(delta_of k l - elapsed k, l), (interval - delta_of k l, tt)]"
    using assms(4,5) by (simp add: remaining_def elapsed_def d q)
  ultimately show ?thesis
    using assms(1,2) by (intro exI [of _ ?k']) (simp add: ker_timer_start_def alloc_from_timer_pool_def Let_def continue_def)
qed

text \<open>
  A periodic timer that was started with an interval of 0 makes the soft interrupt loop for ever; with a
  negative one its delta falls until it overflows.
\<close>

theorem soft_interrupt_stuck:
  assumes "deltaq k = [h]" "periodic (timers k h)" "t_ticks (timers k h) \<le> 0" "delta_of k h \<le> outstanding_ticks k"
  shows "soft_interrupt run call k = None"
proof -
  let ?k = "set_delta h (delta_of k h - outstanding_ticks k) (k\<lparr>outstanding_ticks := 0\<rparr>)"
  have u: "timer_update_delta k = None \<or> timer_update_delta k = Some ?k"
    using assms(1) by (auto simp: timer_update_delta_def put_delta_def to_int32_def Let_def)
  have "next_delta (t_ticks (timers k h)) (delta_of k h - outstanding_ticks k) = None"
    using assms(3,4) by (intro next_delta_stuck) auto
  moreover have "timers ?k h = (timers k h)\<lparr>t_delta := delta_of k h - outstanding_ticks k\<rparr>" "deltaq ?k = [h]"
    using assms(1) by (simp_all add: set_delta_def upd_timer_def)
  ultimately have "expire_head h [] ?k = None"
    using assms(2) by (simp add: expire_head_def delta_of_def) (simp add: periodic_def)
  then have "expire_loop run ?k = None"
    using assms(1,4) by (subst expire_loop.simps) simp
  then show ?thesis
    using u by (auto simp: soft_interrupt_def continue_def)
qed

end
