(* ===== verification/Fntable.thy ===== *)
theory Fntable
  imports Module_Table
begin

text \<open>
  Dynamic linking of functions between modules, \<^verbatim>\<open>kernel/fntable.c\<close> of the build without
  preemption. The header of a module is followed by its function control blocks: those it subscribes
  to, then those it provides. At the start of its state a module has, for every subscription, a
  pointer to the control block the calls go through; it points to the block of a provider, or
  to the module's own block with a stub when there is none.
\<close>

section \<open>Definitions\<close>

text \<open>\<^verbatim>\<open>offsetof(mod_header_t, funct)\<close>, \<^verbatim>\<open>sizeof(func_cb_t)\<close> and the size of a pointer.\<close>

definition FUNCT_OFFSET :: nat where "FUNCT_OFFSET = 16"
definition FUNC_CB_SIZE :: nat where "FUNC_CB_SIZE = 8"
definition POINTER_SIZE :: nat where "POINTER_SIZE = 2"
definition MSG_DFUNC_REMOVED :: u8 where "MSG_DFUNC_REMOVED = 10"

text \<open>The address of a block of a table, of the table of a header, and the pointer in the state of a module.\<close>

definition cb_at :: "addr \<Rightarrow> nat \<Rightarrow> addr" where
  "cb_at funct i = funct + i * FUNC_CB_SIZE"

definition funct_of :: "addr \<Rightarrow> addr" where
  "funct_of hdr = hdr + FUNCT_OFFSET"

definition cb_slot :: "sos_module_t \<Rightarrow> nat \<Rightarrow> addr" where
  "cb_slot m i = handler_state m + i * POINTER_SIZE"

definition set_cb :: "sos_module_t \<Rightarrow> nat \<Rightarrow> addr \<Rightarrow> 'a mod_sys_scheme \<Rightarrow> 'a mod_sys_scheme" where
  "set_cb m i p k = k\<lparr>ram_ptr := (ram_ptr k)(cb_slot m i := p)\<rparr>"

definition fntable_init :: int where
  "fntable_init = SOS_OK"

definition check_proto :: "u8 list \<Rightarrow> u8 list \<Rightarrow> bool" where
  "check_proto p q \<longleftrightarrow> p ! 0 = q ! 0 \<and> p ! 1 = q ! 1 \<and> p ! 2 = q ! 2 \<and> p ! 3 = q ! 3"

text \<open>The search for a provided function; the bounds are eight bit numbers.\<close>

definition fntable_get_prov_cb :: "'a mod_sys_scheme \<Rightarrow> addr \<Rightarrow> u8 \<Rightarrow> u8 \<Rightarrow> u8 \<Rightarrow> addr" where
  "fntable_get_prov_cb k funct fid start en =
     (case find (\<lambda>i. cb_fid (cb_rom k (cb_at funct i)) = fid) [unat start..<unat en] of
        Some i \<Rightarrow> cb_at funct i
      | None \<Rightarrow> NULL)"

definition fntable_real_subscribe ::
    "addr \<Rightarrow> sos_pid_t \<Rightarrow> u8 \<Rightarrow> u8 \<Rightarrow> 'a mod_sys_scheme \<Rightarrow> ('a mod_sys_scheme \<times> addr) option" where
  "fntable_real_subscribe sub_h pub_pid fid table_index k = do {
     (k1, mo) \<leftarrow> ker_get_module pub_pid k;
     if mo = NULL then Some (k1, NULL)
     else do {
       let pub_h = mod_header (mods k1 mo);
       let num_sub = num_sub_func (mod_rom k1 pub_h);
       let num_prov = num_prov_func (mod_rom k1 pub_h);
       let pub_cb = fntable_get_prov_cb k1 (funct_of pub_h) fid num_sub (num_sub + num_prov);
       if pub_cb = NULL then Some (k1, NULL)
       else if check_proto (cb_proto (cb_rom k1 pub_cb)) (cb_proto (cb_rom k1 (cb_at (funct_of sub_h) (unat table_index))))
       then Some (k1, pub_cb)
       else Some (k1, NULL)
     }
   }"

definition ker_fntable_subscribe ::
    "sos_pid_t \<Rightarrow> sos_pid_t \<Rightarrow> u8 \<Rightarrow> u8 \<Rightarrow> 'a mod_sys_scheme \<Rightarrow> ('a mod_sys_scheme \<times> int) outcome option" where
  "ker_fntable_subscribe sub_pid pub_pid fid table_index k = do {
     (k1, mo) \<leftarrow> ker_get_module sub_pid k;
     if mo = NULL then Some Panic
     else do {
       let m = mods k1 mo;
       (k2, cb) \<leftarrow> fntable_real_subscribe (mod_header m) pub_pid fid table_index k1;
       Some (Done (set_cb m (unat table_index)
         (if cb \<noteq> NULL then cb else cb_at (funct_of (mod_header m)) (unat table_index)) k2, SOS_OK))
     }
   }"

definition ker_sys_fntable_subscribe ::
    "sos_pid_t \<Rightarrow> u8 \<Rightarrow> u8 \<Rightarrow> 'a mod_sys_scheme \<Rightarrow> ('a mod_sys_scheme \<times> int) outcome option" where
  "ker_sys_fntable_subscribe pub_pid fid table_index k =
     ker_fntable_subscribe (ker_get_current_pid k) pub_pid fid table_index k"

definition ker_fntable_get_dfunc_addr :: "sos_pid_t \<Rightarrow> u8 \<Rightarrow> 'a mod_sys_scheme \<Rightarrow> ('a mod_sys_scheme \<times> addr) option" where
  "ker_fntable_get_dfunc_addr pub_pid fid k = do {
     (k1, mo) \<leftarrow> ker_get_module pub_pid k;
     if mo = NULL then Some (k1, NULL)
     else do {
       let pub_h = mod_header (mods k1 mo);
       let num_sub = num_sub_func (mod_rom k1 pub_h);
       let num_prov = num_prov_func (mod_rom k1 pub_h);
       let pub_cb = fntable_get_prov_cb k1 (funct_of pub_h) fid num_sub (num_sub + num_prov);
       if pub_cb = NULL then Some (k1, NULL) else Some (k1, cb_ptr (cb_rom k1 pub_cb))
     }
   }"

subsection \<open>Linking a module\<close>

fun link_subscribed :: "addr \<Rightarrow> nat list \<Rightarrow> 'a mod_sys_scheme \<Rightarrow> 'a mod_sys_scheme option" where
  "link_subscribed mo [] k = Some k"
| "link_subscribed mo (i # is) k = do {
     let m = mods k mo;
     let hdr = mod_rom k (mod_header m);
     let cb = cb_rom k (cb_at (funct_of (mod_header m)) i);
     (k1, pub_cb) \<leftarrow>
       (if cb_pid cb = mod_pid m then
          Some (k, fntable_get_prov_cb k (funct_of (mod_header m)) (cb_fid cb) (num_sub_func hdr) (num_sub_func hdr + num_prov_func hdr))
        else if cb_pid cb \<noteq> RUNTIME_PID then fntable_real_subscribe (mod_header m) (cb_pid cb) (cb_fid cb) (of_nat i) k
        else Some (k, NULL));
     link_subscribed mo is
       (set_cb m i (if pub_cb \<noteq> NULL then pub_cb else cb_at (funct_of (mod_header m)) i) k1)
   }"

definition fntable_link_subscribed_functions :: "addr \<Rightarrow> 'a mod_sys_scheme \<Rightarrow> 'a mod_sys_scheme option" where
  "fntable_link_subscribed_functions mo k =
     link_subscribed mo [0..<unat (num_sub_func (mod_rom k (mod_header (mods k mo))))] k"

text \<open>
  One subscription \<open>i\<close> of the module \<open>m\<close> in \<^verbatim>\<open>fntable_link_provided_functions\<close>: it is linked to the
  provided functions, or its link to one of them is removed.
\<close>

definition link_one ::
    "addr \<Rightarrow> u8 \<Rightarrow> u8 \<Rightarrow> bool \<Rightarrow> sos_pid_t \<Rightarrow> sos_module_t \<Rightarrow> nat \<Rightarrow> 'a mod_sys_scheme \<Rightarrow> 'a mod_sys_scheme option" where
  "link_one funct start en link pub_pid m i k = do {
     let own_cb = cb_at (funct_of (mod_header m)) i;
     let sub = cb_rom k own_cb;
     if cb_pid sub = pub_pid then do {
       let pub_cb = fntable_get_prov_cb k funct (cb_fid sub) start en;
       if pub_cb \<noteq> NULL then
         (if link then
            (if check_proto (cb_proto (cb_rom k pub_cb)) (cb_proto sub) then Some (set_cb m i pub_cb k) else Some k)
          else Some (set_cb m i own_cb k))
       else Some k
     }
     else if cb_pid sub = RUNTIME_PID \<and> \<not> link then
       (if list_ex (\<lambda>j. cb_at funct j = ram_ptr k (cb_slot m i)) [unat start..<unat en] then do {
          (k1, r) \<leftarrow> post_short (mod_pid m) FNTABLE_PID MSG_DFUNC_REMOVED (of_nat i) 0 0 (set_cb m i own_cb k);
          Some k1
        } else Some k)
     else Some k
   }"

fun link_subs ::
    "addr \<Rightarrow> u8 \<Rightarrow> u8 \<Rightarrow> bool \<Rightarrow> sos_pid_t \<Rightarrow> addr \<Rightarrow> nat list \<Rightarrow> 'a mod_sys_scheme \<Rightarrow> 'a mod_sys_scheme option" where
  "link_subs funct start en link pub_pid h [] k = Some k"
| "link_subs funct start en link pub_pid h (i # is) k = do {
     k1 \<leftarrow> link_one funct start en link pub_pid (mods k h) i k;
     link_subs funct start en link pub_pid h is k1
   }"

partial_function (option) link_chain ::
    "addr \<Rightarrow> u8 \<Rightarrow> u8 \<Rightarrow> bool \<Rightarrow> sos_pid_t \<Rightarrow> addr \<Rightarrow> 'a mod_sys_scheme \<Rightarrow> 'a mod_sys_scheme option" where
  "link_chain funct start en link pub_pid h k =
     (if h = NULL then Some k
      else do {
        k1 \<leftarrow> link_subs funct start en link pub_pid h [0..<unat (num_sub_func (mod_rom k (mod_header (mods k h))))] k;
        link_chain funct start en link pub_pid (mod_next (mods k1 h)) k1
      })"

declare link_chain.simps [code]

fun link_bins ::
    "addr \<Rightarrow> u8 \<Rightarrow> u8 \<Rightarrow> bool \<Rightarrow> sos_pid_t \<Rightarrow> nat list \<Rightarrow> 'a mod_sys_scheme \<Rightarrow> 'a mod_sys_scheme option" where
  "link_bins funct start en link pub_pid [] k = Some k"
| "link_bins funct start en link pub_pid (b # bs) k = do {
     k1 \<leftarrow> link_chain funct start en link pub_pid (mod_bin k ! b) k;
     link_bins funct start en link pub_pid bs k1
   }"

definition fntable_link_provided_functions :: "addr \<Rightarrow> u8 \<Rightarrow> u8 \<Rightarrow> bool \<Rightarrow> 'a mod_sys_scheme \<Rightarrow> 'a mod_sys_scheme option" where
  "fntable_link_provided_functions funct start en link k =
     link_bins funct start en link (cb_pid (cb_rom k (cb_at funct (unat start)))) [0..<SCHED_NUMBER_BINS] k"

definition fntable_link :: "addr \<Rightarrow> 'a mod_sys_scheme \<Rightarrow> ('a mod_sys_scheme \<times> int) option" where
  "fntable_link mo k = do {
     k1 \<leftarrow> fntable_link_subscribed_functions mo k;
     let hdr = mod_header (mods k1 mo);
     let num_prov = num_prov_func (mod_rom k1 hdr);
     let num_sub = num_sub_func (mod_rom k1 hdr);
     k2 \<leftarrow> (if 0 < num_prov then fntable_link_provided_functions (funct_of hdr) num_sub (num_sub + num_prov) True k1 else Some k1);
     Some (k2, SOS_OK)
   }"

text \<open>The messages to the providers, in \<^verbatim>\<open>fntable_remove_all\<close>.\<close>

fun tell_providers :: "addr \<Rightarrow> nat list \<Rightarrow> 'a mod_sys_scheme \<Rightarrow> 'a mod_sys_scheme option" where
  "tell_providers mo [] k = Some k"
| "tell_providers mo (i # is) k = do {
     let m = mods k mo;
     let pub_pid = cb_pid (cb_rom k (ram_ptr k (cb_slot m i)));
     if pub_pid = mod_pid m \<or> pub_pid = RUNTIME_PID then tell_providers mo is k
     else do {
       (k1, r) \<leftarrow> post_short pub_pid FNTABLE_PID MSG_DFUNC_REMOVED (mod_pid m) 0 0 k;
       tell_providers mo is k1
     }
   }"

definition fntable_remove_all :: "addr \<Rightarrow> 'a mod_sys_scheme \<Rightarrow> ('a mod_sys_scheme \<times> int) option" where
  "fntable_remove_all mo k = do {
     let hdr = mod_header (mods k mo);
     let num_prov = num_prov_func (mod_rom k hdr);
     if num_prov = 0 then Some (k, SOS_OK)
     else do {
       let num_sub = num_sub_func (mod_rom k hdr);
       k1 \<leftarrow> fntable_link_provided_functions (funct_of hdr) num_sub (num_sub + num_prov) False k;
       k2 \<leftarrow> tell_providers mo [0..<unat num_sub] k1;
       Some (k2, SOS_OK)
     }
   }"

subsection \<open>Calls through a control block\<close>

text \<open>\<^verbatim>\<open>ker_get_func_ptr\<close>; the previous identifier is stored only when the caller asks for it.\<close>

definition ker_get_func_ptr :: "addr \<Rightarrow> bool \<Rightarrow> 'a mod_sys_scheme \<Rightarrow> 'a mod_sys_scheme \<times> sos_pid_t option \<times> addr" where
  "ker_get_func_ptr p want_prev k =
     (if want_prev then
        (let (k1, old) = ker_set_current_pid (cb_pid (cb_rom k p)) k in (k1, Some old, cb_ptr (cb_rom k1 p)))
      else (k, None, cb_ptr (cb_rom k p)))"

text \<open>A push on a full stack writes behind the array, which has no defined result.\<close>

definition ker_sys_enter_func :: "addr \<Rightarrow> 'a mod_sys_scheme \<Rightarrow> ('a mod_sys_scheme \<times> addr) option" where
  "ker_sys_enter_func p k =
     (if SOS_PID_STACK_SIZE \<le> pid_sp k then None
      else let (k1, old) = ker_set_current_pid (cb_pid (cb_rom k p)) k
           in Some (k1\<lparr>pid_stack := (pid_stack k1)[pid_sp k1 := old], pid_sp := pid_sp k1 + 1\<rparr>, cb_ptr (cb_rom k1 p)))"

definition ker_sys_leave_func :: "'a mod_sys_scheme \<Rightarrow> 'a mod_sys_scheme option" where
  "ker_sys_leave_func k =
     (if pid_sp k = 0 then None
      else Some (fst (ker_set_current_pid (pid_stack k ! (pid_sp k - 1)) (k\<lparr>pid_sp := pid_sp k - 1\<rparr>))))"

end
