(* ===== verification/Message_Frames.thy ===== *)
theory Message_Frames
  imports Module_Table_Correct
begin

text \<open>
  What the message operations leave alone: the state that later components add to the kernel, which
  is the extension of the record. With it the law of \<^verbatim>\<open>post_short\<close>, whose payload lies in the header.
\<close>

section \<open>The rest of the kernel state\<close>

lemma more_basic [simp]:
  "msg_sys.more (upd_msg m f k) = msg_sys.more k" "msg_sys.more (set_heap h k) = msg_sys.more k"
  by (simp_all add: upd_msg_def set_heap_def)

lemma k_change_own_more: "k_change_own p pid k = Some k' \<Longrightarrow> msg_sys.more k' = msg_sys.more k"
  by (auto simp: k_change_own_def bind_eq_Some_conv)

lemma k_free_more: "k_free p k = Some k' \<Longrightarrow> msg_sys.more k' = msg_sys.more k"
  by (auto simp: k_free_def bind_eq_Some_conv)

lemma msg_create_more: "msg_create k = Some (k', m) \<Longrightarrow> msg_sys.more k' = msg_sys.more k"
  by (auto simp: msg_create_def bind_eq_Some_conv Let_def split: if_splits)

lemma sched_msg_alloc_more: "sched_msg_alloc m k = Some k' \<Longrightarrow> msg_sys.more k' = msg_sys.more k"
  by (auto simp: sched_msg_alloc_def bind_eq_Some_conv Let_def case_prod_beta split: if_splits dest: k_change_own_more)

lemma post_short_more: "post_short did sid type byte word flag k = Some (k', r) \<Longrightarrow> msg_sys.more k' = msg_sys.more k"
  by (auto simp: post_short_def bind_eq_Some_conv Let_def split: if_splits dest!: sched_msg_alloc_more msg_create_more)

lemma post_longer_more: "post_longer did sid type len data flag saddr k = Some (k', r) \<Longrightarrow> msg_sys.more k' = msg_sys.more k"
  by (auto simp: post_longer_def bind_eq_Some_conv Let_def split: if_splits dest!: sched_msg_alloc_more msg_create_more k_free_more)

lemma post_long_more: "post_long did sid type len data flag k = Some (k', r) \<Longrightarrow> msg_sys.more k' = msg_sys.more k"
  unfolding post_long_def by (rule post_longer_more)

lemma msg_dispose_more: "msg_dispose m k = Some (Done k') \<Longrightarrow> msg_sys.more k' = msg_sys.more k"
proof -
  assume "msg_dispose m k = Some (Done k')"
  then obtain k1 w where "(if flag_msg_release (m_flag (headers k m)) then k_free (m_data (headers k m)) k else Some k) = Some k1"
    "(case w of Panic \<Rightarrow> Some Panic | Done w' \<Rightarrow> Some (Done (k1\<lparr>smem := w'\<rparr>))) = Some (Done k')"
    by (auto simp: msg_dispose_def bind_eq_Some_conv)
  then show ?thesis
    by (cases w) (auto split: if_splits dest: k_free_more)
qed

text \<open>The fields of the module table are part of it.\<close>

lemma more_fields:
  fixes k :: "'a mod_sys_scheme"
  assumes "msg_sys.more k' = msg_sys.more k"
  shows "mods k' = mods k" "mod_bin k' = mod_bin k" "mod_cache k' = mod_cache k" "mod_rom k' = mod_rom k" "cb_rom k' = cb_rom k"
    "ram_ptr k' = ram_ptr k" "pid_pool k' = pid_pool k" "sched_slab k' = sched_slab k" "mod_sys.more k' = mod_sys.more k"
    "short_msg k' = short_msg k" "pid_stack k' = pid_stack k" "pid_sp k' = pid_sp k" "int_ready k' = int_ready k" "int_array k' = int_array k"
  using assms by (cases k; cases k'; simp)+

section \<open>Short messages\<close>

lemma no_release_mask: "\<not> flag_msg_release (flag AND NO_RELEASE_MASK)"
proof -
  have "NO_RELEASE_MASK AND SOS_MSG_RELEASE = 0"
    by (simp add: NO_RELEASE_MASK_def SOS_MSG_RELEASE_def)
  then show ?thesis
    by (simp add: flag_msg_release_def and.assoc)
qed

lemma post_short_law:
  assumes inv: "mq_inv k ps L xs"
  shows "\<exists>k' r. post_short did sid type byte word flag k = Some (k', r) \<and>
    (if r = SOS_OK then
       \<exists>m. posted k ps L xs m k' \<and> m_did (headers k' m) = did \<and> m_sid (headers k' m) = sid \<and> m_type (headers k' m) = type \<and>
         m_data (headers k' m) = m + PAYLOAD_OFFSET
     else r = - ENOMEM \<and> mq_inv k' ps L xs \<and> headers k' = headers k)"
proof -
  have inv': "msgs_inv k ps L" using inv by (simp add: mq_inv_def)
  obtain w m ps' where c: "slab_inv (msg_slab k) ps' w" "others ps' w = others ps (smem k)"
    "if m = NULL then ps' = ps \<and> msg_create k = Some (k\<lparr>smem := w\<rparr>, NULL) \<and>
       slab_used (msg_slab k) ps w = slab_used (msg_slab k) ps (smem k) \<and> no_header k ps
     else m \<notin> slab_used (msg_slab k) ps (smem k) \<and>
       slab_used (msg_slab k) ps' w = insert m (slab_used (msg_slab k) ps (smem k)) \<and>
       msg_create k = Some (upd_msg m (\<lambda>x. x\<lparr>m_data := m + PAYLOAD_OFFSET, m_flag := 0\<rparr>) (k\<lparr>smem := w\<rparr>), m)"
    using msg_create_law [OF inv'] by blast
  show ?thesis
  proof (cases "m = NULL")
    case True
    then have "post_short did sid type byte word flag k = Some (k\<lparr>smem := w\<rparr>, - ENOMEM)"
      using c(3) by (simp add: post_short_def)
    moreover have "mq_inv (k\<lparr>smem := w\<rparr>) ps L xs"
      using mq_inv_fail [OF inv, of w] c True by simp
    ultimately show ?thesis by (intro exI [of _ "k\<lparr>smem := w\<rparr>"] exI [of _ "- ENOMEM"]) (simp add: errno_defs)
  next
    case False
    let ?k1 = "upd_msg m (\<lambda>x. x\<lparr>m_data := m + PAYLOAD_OFFSET, m_flag := 0\<rparr>) (k\<lparr>smem := w\<rparr>)"
    let ?k2 = "upd_msg m (\<lambda>x. x\<lparr>m_daddr := node_address ?k1, m_did := did, m_type := type, m_saddr := node_address ?k1, m_sid := sid, m_len := 3\<rparr>) ?k1"
    let ?k3 = "?k2\<lparr>bytes_of := put_bytes (m + PAYLOAD_OFFSET) (byte # word_bytes word) (bytes_of ?k2)\<rparr>"
    let ?k4 = "upd_msg m (\<lambda>x. x\<lparr>m_flag := flag AND NO_RELEASE_MASK\<rparr>) ?k3"
    have c': "m \<notin> slab_used (msg_slab k) ps (smem k)" "slab_used (msg_slab k) ps' w = insert m (slab_used (msg_slab k) ps (smem k))"
      "msg_create k = Some (?k1, m)"
      using c(3) False by simp_all
    have p: "postable k ps L (m_flag (headers ?k4 m)) (m_data (headers ?k4 m))"
      by (simp add: postable_def upd_msg_def set_msg_def no_release_mask)
    have "smem ?k4 = w" "msg_slab ?k4 = msg_slab k" "schedpq ?k4 = schedpq k" "headers ?k4 = (headers k)(m := headers ?k4 m)"
      by (simp_all add: upd_msg_def set_msg_def)
    from post_core [OF inv c(1,2) c'(2,1) False this p] obtain k' where
      k': "sched_msg_alloc m ?k4 = Some k'" "posted k ps L xs m k'" "same_fields (headers ?k4) (headers k')" by blast
    have "post_short did sid type byte word flag k = Some (k', SOS_OK)"
      unfolding post_short_def c'(3) using False k'(1) by (simp add: Let_def)
    moreover have "m_did (headers ?k4 m) = did" "m_sid (headers ?k4 m) = sid" "m_type (headers ?k4 m) = type" "m_data (headers ?k4 m) = m + PAYLOAD_OFFSET"
      by (simp_all add: upd_msg_def set_msg_def)
    ultimately show ?thesis
      using k'(2) same_fieldsD [OF k'(3), of m] by (intro exI [of _ k'] exI [of _ SOS_OK]) auto
  qed
qed

text \<open>What a client needs that ignores the result.\<close>

lemma post_short_total:
  assumes "mq_inv k ps L xs"
  shows "\<exists>k' r ps' L' xs'. post_short did sid type byte word flag k = Some (k', r) \<and> mq_inv k' ps' L' xs' \<and> msg_sys.more k' = msg_sys.more k"
proof -
  obtain k' r where k': "post_short did sid type byte word flag k = Some (k', r)"
    "if r = SOS_OK then
       \<exists>m. posted k ps L xs m k' \<and> m_did (headers k' m) = did \<and> m_sid (headers k' m) = sid \<and> m_type (headers k' m) = type \<and>
         m_data (headers k' m) = m + PAYLOAD_OFFSET
     else r = - ENOMEM \<and> mq_inv k' ps L xs \<and> headers k' = headers k"
    using post_short_law [OF assms, of did sid type byte word flag] by blast
  then have "\<exists>ps' L' xs'. mq_inv k' ps' L' xs'"
    by (cases "r = SOS_OK") (auto simp: posted_def)
  with k'(1) post_short_more [OF k'(1)] show ?thesis by blast
qed

end
