(* ===== verification/Fntable_Correct.thy ===== *)
theory Fntable_Correct
  imports Fntable Message_Frames
begin

text \<open>
  Removing the functions of a module: after \<^verbatim>\<open>fntable_remove_all\<close> no registered module has a pointer
  to a control block that the removed module provided, so no call can run into it. The stack of
  calling modules restores the caller.
\<close>

section \<open>Unlinking\<close>

definition provided :: "addr \<Rightarrow> u8 \<Rightarrow> u8 \<Rightarrow> addr set" where
  "provided funct start en = cb_at funct ` {unat start..<unat en}"

definition subs :: "'a mod_sys_scheme \<Rightarrow> addr \<Rightarrow> nat set" where
  "subs k h = {0..<unat (num_sub_func (mod_rom k (mod_header (mods k h))))}"

definition own_cb :: "'a mod_sys_scheme \<Rightarrow> addr \<Rightarrow> nat \<Rightarrow> addr" where
  "own_cb k h i = cb_at (funct_of (mod_header (mods k h))) i"

text \<open>
  The pointers of the registered modules as linking leaves them: a subscription to a fixed module that points
  to one of the blocks names their provider and the number of one of the functions; the stubs are other blocks.
\<close>

definition linked_ok :: "'a mod_sys_scheme \<Rightarrow> addr \<Rightarrow> u8 \<Rightarrow> u8 \<Rightarrow> sos_pid_t \<Rightarrow> addr \<Rightarrow> nat \<Rightarrow> bool" where
  "linked_ok k funct start en pub_pid h i \<longleftrightarrow> own_cb k h i \<notin> provided funct start en \<and>
     (ram_ptr k (cb_slot (mods k h) i) \<in> provided funct start en \<and> cb_pid (cb_rom k (own_cb k h i)) \<noteq> RUNTIME_PID \<longrightarrow>
        cb_pid (cb_rom k (own_cb k h i)) = pub_pid \<and>
        (\<exists>j \<in> {unat start..<unat en}. cb_fid (cb_rom k (cb_at funct j)) = cb_fid (cb_rom k (own_cb k h i))))"

text \<open>One step of unlinking: tables and headers stay, pointers change only to blocks outside.\<close>

definition unlinks :: "addr set \<Rightarrow> 'a mod_sys_scheme \<Rightarrow> 'a mod_sys_scheme \<Rightarrow> bool" where
  "unlinks R k k' \<longleftrightarrow> mods k' = mods k \<and> mod_bin k' = mod_bin k \<and> mod_rom k' = mod_rom k \<and> cb_rom k' = cb_rom k \<and>
     (\<forall>a. ram_ptr k' a = ram_ptr k a \<or> ram_ptr k' a \<notin> R)"

definition queue_ok :: "'a msg_sys_scheme \<Rightarrow> bool" where
  "queue_ok k \<longleftrightarrow> (\<exists>ps L xs. mq_inv k ps L xs)"

lemma unlinks_refl [simp]: "unlinks R k k"
  by (simp add: unlinks_def)

lemma unlinks_trans: "unlinks R k k1 \<Longrightarrow> unlinks R k1 k2 \<Longrightarrow> unlinks R k k2"
  unfolding unlinks_def by metis

lemma unlinks_subs: "unlinks R k k' \<Longrightarrow> subs k' h = subs k h"
  by (simp add: subs_def unlinks_def)

lemma unlinks_linked:
  "unlinks (provided funct start en) k k' \<Longrightarrow> linked_ok k funct start en pub_pid h i \<Longrightarrow> linked_ok k' funct start en pub_pid h i"
  unfolding linked_ok_def own_cb_def unlinks_def by metis

lemma mq_inv_frame [simp]: "mq_inv (k\<lparr>ram_ptr := f\<rparr>) ps L xs = mq_inv k ps L xs"
  by (simp add: mq_inv_def msgs_inv_def payloads_ok_def releases_def)

lemma queue_ok_set_cb [simp]: "queue_ok (set_cb m i p k) = queue_ok k"
  by (simp add: queue_ok_def set_cb_def)

lemma ram_set_cb [simp]: "ram_ptr (set_cb m i p k) (cb_slot m i) = p"
  by (simp add: set_cb_def)

lemma queue_post:
  fixes k :: "'a mod_sys_scheme"
  assumes "queue_ok k"
  shows "\<exists>k' r. post_short did sid type byte word flag k = Some (k', r) \<and> queue_ok k' \<and> msg_sys.more k' = msg_sys.more k"
  using assms post_short_total [of k _ _ _ did sid type byte word flag] unfolding queue_ok_def by metis

lemma unlinks_set_cb: "p \<notin> R \<Longrightarrow> unlinks R k (set_cb m i p k)"
  by (simp add: unlinks_def set_cb_def)

lemma prov_found:
  assumes "j \<in> {unat start..<unat en}" "cb_fid (cb_rom k (cb_at funct j)) = fid" "0 < funct"
  shows "fntable_get_prov_cb k funct fid start en \<noteq> NULL"
proof -
  have "find (\<lambda>i. cb_fid (cb_rom k (cb_at funct i)) = fid) [unat start..<unat en] \<noteq> None"
    using assms(1,2) by (auto simp: find_None_iff)
  then show ?thesis
    using assms(3) by (auto simp: fntable_get_prov_cb_def cb_at_def)
qed

lemma unlink_one:
  assumes "queue_ok k" "linked_ok k funct start en pub_pid h i" "pub_pid \<noteq> RUNTIME_PID" "0 < funct"
  shows "\<exists>k'. link_one funct start en False pub_pid (mods k h) i k = Some k' \<and> queue_ok k' \<and>
    unlinks (provided funct start en) k k' \<and> ram_ptr k' (cb_slot (mods k h) i) \<notin> provided funct start en"
proof -
  let ?R = "provided funct start en" and ?m = "mods k h" and ?own = "own_cb k h i"
  let ?sub = "cb_rom k ?own" and ?k = "set_cb ?m i ?own k"
  have own: "?own = cb_at (funct_of (mod_header ?m)) i" "?own \<notin> ?R"
    using assms(2) by (simp_all add: own_cb_def linked_ok_def)
  have k: "queue_ok ?k" "unlinks ?R k ?k" "ram_ptr ?k (cb_slot ?m i) = ?own"
    using assms(1) unlinks_set_cb [OF own(2)] by simp_all
  consider (static) "cb_pid ?sub = pub_pid" | (dynamic) "cb_pid ?sub \<noteq> pub_pid" "cb_pid ?sub = RUNTIME_PID" | (other) "cb_pid ?sub \<noteq> pub_pid" "cb_pid ?sub \<noteq> RUNTIME_PID"
    by blast
  then show ?thesis
  proof cases
    case static
    show ?thesis
    proof (cases "fntable_get_prov_cb k funct (cb_fid ?sub) start en = NULL")
      case True
      then have "ram_ptr k (cb_slot ?m i) \<notin> ?R"
        using assms(2-4) static prov_found [of _ start en k funct "cb_fid ?sub"] unfolding linked_ok_def by metis
      then show ?thesis
        using True static assms(1) by (intro exI [of _ k]) (simp add: link_one_def own(1) [symmetric])
    next
      case False
      then show ?thesis
        using static k own(2) by (intro exI [of _ ?k]) (simp add: link_one_def own(1) [symmetric])
    qed
  next
    case dynamic
    show ?thesis
    proof (cases "ram_ptr k (cb_slot ?m i) \<in> ?R")
      case True
      then have hit: "list_ex (\<lambda>j. cb_at funct j = ram_ptr k (cb_slot ?m i)) [unat start..<unat en]"
        by (auto simp: list_ex_iff provided_def)
      obtain k' r where k': "post_short (mod_pid ?m) FNTABLE_PID MSG_DFUNC_REMOVED (of_nat i) 0 0 ?k = Some (k', r)" "queue_ok k'" "msg_sys.more k' = msg_sys.more ?k"
        using queue_post [OF k(1)] by blast
      note f = more_fields [OF k'(3)]
      have "unlinks ?R k k'" "ram_ptr k' (cb_slot ?m i) \<notin> ?R"
        using k(2,3) own(2) f by (simp_all add: unlinks_def)
      then show ?thesis
        using dynamic hit k'(1,2) by (intro exI [of _ k']) (simp add: link_one_def own(1) [symmetric])
    next
      case False
      then have "\<not> list_ex (\<lambda>j. cb_at funct j = ram_ptr k (cb_slot ?m i)) [unat start..<unat en]"
        by (force simp: list_ex_iff provided_def)
      then show ?thesis
        using dynamic False assms(1) by (intro exI [of _ k]) (simp add: link_one_def own(1) [symmetric])
    qed
  next
    case other
    then have "ram_ptr k (cb_slot ?m i) \<notin> ?R"
      using assms(2) by (auto simp: linked_ok_def)
    then show ?thesis
      using other assms(1) by (intro exI [of _ k]) (simp add: link_one_def own(1) [symmetric])
  qed
qed

lemma unlink_subs:
  assumes "queue_ok k" "\<forall>i \<in> set is. linked_ok k funct start en pub_pid h i" "pub_pid \<noteq> RUNTIME_PID" "0 < funct"
  shows "\<exists>k'. link_subs funct start en False pub_pid h is k = Some k' \<and> queue_ok k' \<and> unlinks (provided funct start en) k k' \<and>
    (\<forall>i \<in> set is. ram_ptr k' (cb_slot (mods k h) i) \<notin> provided funct start en)"
  using assms
proof (induction "is" arbitrary: k)
  case Nil
  then show ?case by simp
next
  case (Cons i "is")
  obtain k1 where k1: "link_one funct start en False pub_pid (mods k h) i k = Some k1" "queue_ok k1"
    "unlinks (provided funct start en) k k1" "ram_ptr k1 (cb_slot (mods k h) i) \<notin> provided funct start en"
    using unlink_one [of k funct start en pub_pid h i] Cons.prems by auto
  have "\<forall>i \<in> set is. linked_ok k1 funct start en pub_pid h i"
    using unlinks_linked [OF k1(3)] Cons.prems(2) by simp
  from Cons.IH [OF k1(2) this assms(3,4)] obtain k2 where k2: "link_subs funct start en False pub_pid h is k1 = Some k2" "queue_ok k2"
    "unlinks (provided funct start en) k1 k2" "\<forall>i \<in> set is. ram_ptr k2 (cb_slot (mods k1 h) i) \<notin> provided funct start en"
    by blast
  have "mods k1 = mods k"
    using k1(3) by (simp add: unlinks_def)
  moreover have "ram_ptr k2 (cb_slot (mods k h) i) \<notin> provided funct start en"
    using k2(3) k1(4) unfolding unlinks_def by metis
  ultimately show ?case
    using k1(1) k2 unlinks_trans [OF k1(3) k2(3)] by (intro exI [of _ k2]) simp
qed

text \<open>A module whose subscriptions are clear of the blocks.\<close>

definition clear_of :: "addr set \<Rightarrow> 'a mod_sys_scheme \<Rightarrow> addr \<Rightarrow> bool" where
  "clear_of R k h \<longleftrightarrow> (\<forall>i \<in> subs k h. ram_ptr k (cb_slot (mods k h) i) \<notin> R)"

lemma unlinks_clear:
  assumes "unlinks R k k'" "clear_of R k h"
  shows "clear_of R k' h"
proof -
  have "ram_ptr k' a \<notin> R" if "ram_ptr k a \<notin> R" for a
    using assms(1) that unfolding unlinks_def by metis
  then show ?thesis
    using assms unlinks_subs [OF assms(1)] by (simp add: clear_of_def unlinks_def)
qed

lemma unlink_chain:
  assumes "queue_ok k" "path (nx_of (mods k)) h hs NULL" "\<forall>x \<in> set hs. x \<noteq> NULL \<and> (\<forall>i \<in> subs k x. linked_ok k funct start en pub_pid x i)"
    "pub_pid \<noteq> RUNTIME_PID" "0 < funct"
  shows "\<exists>k'. link_chain funct start en False pub_pid h k = Some k' \<and> queue_ok k' \<and> unlinks (provided funct start en) k k' \<and>
    (\<forall>x \<in> set hs. clear_of (provided funct start en) k' x)"
  using assms
proof (induction hs arbitrary: h k)
  case Nil
  then show ?case by (intro exI [of _ k]) (simp add: link_chain.simps)
next
  case (Cons x hs)
  have x: "h = x" "x \<noteq> NULL" "path (nx_of (mods k)) (mod_next (mods k x)) hs NULL"
    using Cons.prems(2,3) nx_of_def [of "mods k" x] by auto
  let ?is = "[0..<unat (num_sub_func (mod_rom k (mod_header (mods k x))))]"
  have "\<forall>i \<in> set ?is. linked_ok k funct start en pub_pid x i"
    using Cons.prems(3) by (simp add: subs_def)
  from unlink_subs [OF Cons.prems(1) this assms(4,5)] obtain k1 where k1: "link_subs funct start en False pub_pid x ?is k = Some k1" "queue_ok k1"
    "unlinks (provided funct start en) k k1" "\<forall>i \<in> set ?is. ram_ptr k1 (cb_slot (mods k x) i) \<notin> provided funct start en"
    by blast
  have m1: "mods k1 = mods k"
    using k1(3) by (simp add: unlinks_def)
  have c1: "clear_of (provided funct start en) k1 x"
    using k1(4) unlinks_subs [OF k1(3)] m1 by (simp add: clear_of_def subs_def)
  have "\<forall>y \<in> set hs. y \<noteq> NULL \<and> (\<forall>i \<in> subs k1 y. linked_ok k1 funct start en pub_pid y i)"
    using Cons.prems(3) unlinks_subs [OF k1(3)] unlinks_linked [OF k1(3)] by simp
  from Cons.IH [OF k1(2) _ this assms(4,5)] x(3) m1 obtain k2 where k2: "link_chain funct start en False pub_pid (mod_next (mods k x)) k1 = Some k2"
    "queue_ok k2" "unlinks (provided funct start en) k1 k2" "\<forall>y \<in> set hs. clear_of (provided funct start en) k2 y"
    by metis
  have "link_chain funct start en False pub_pid h k = Some k2"
    using x k1(1) k2(1) m1 by (subst link_chain.simps) simp
  then show ?case
    using k2(2,4) unlinks_trans [OF k1(3) k2(3)] unlinks_clear [OF k2(3) c1] by (intro exI [of _ k2]) simp
qed

lemma unlink_bins:
  assumes "queue_ok k" "\<forall>b \<in> set is. b < SCHED_NUMBER_BINS" "bins_ok (mods k) (mod_bin k) bs"
    "\<forall>h \<in> set (concat bs). \<forall>i \<in> subs k h. linked_ok k funct start en pub_pid h i" "pub_pid \<noteq> RUNTIME_PID" "0 < funct"
  shows "\<exists>k'. link_bins funct start en False pub_pid is k = Some k' \<and> queue_ok k' \<and> unlinks (provided funct start en) k k' \<and>
    (\<forall>b \<in> set is. \<forall>h \<in> set (bs ! b). clear_of (provided funct start en) k' h)"
  using assms
proof (induction "is" arbitrary: k)
  case Nil
  then show ?case by simp
next
  case (Cons b "is")
  have b: "b < SCHED_NUMBER_BINS" "length bs = SCHED_NUMBER_BINS"
    using Cons.prems(2,3) by (auto simp: bins_ok_iff)
  have "path (nx_of (mods k)) (mod_bin k ! b) (bs ! b) NULL" "\<forall>h \<in> set (bs ! b). h \<noteq> NULL"
    using Cons.prems(3) b(1) by (auto simp: bins_ok_iff)
  moreover have "h \<in> set (concat bs)" if "h \<in> set (bs ! b)" for h
    using that b by (auto simp: set_concat_nth simp del: set_concat)
  ultimately obtain k1 where k1: "link_chain funct start en False pub_pid (mod_bin k ! b) k = Some k1" "queue_ok k1"
    "unlinks (provided funct start en) k k1" "\<forall>h \<in> set (bs ! b). clear_of (provided funct start en) k1 h"
    using unlink_chain [OF Cons.prems(1), of "mod_bin k ! b" "bs ! b" funct start en pub_pid] Cons.prems(4) assms(5,6) by auto
  have "bins_ok (mods k1) (mod_bin k1) bs" "\<forall>h \<in> set (concat bs). \<forall>i \<in> subs k1 h. linked_ok k1 funct start en pub_pid h i"
    using Cons.prems(3,4) unlinks_subs [OF k1(3)] unlinks_linked [OF k1(3)] k1(3) by (simp_all add: unlinks_def)
  from Cons.IH [OF k1(2) _ this assms(5,6)] Cons.prems(2) obtain k2 where k2: "link_bins funct start en False pub_pid is k1 = Some k2"
    "queue_ok k2" "unlinks (provided funct start en) k1 k2" "\<forall>b \<in> set is. \<forall>h \<in> set (bs ! b). clear_of (provided funct start en) k2 h"
    by auto
  show ?case
    using k1(1,4) k2 unlinks_trans [OF k1(3) k2(3)] unlinks_clear [OF k2(3)] by (intro exI [of _ k2]) simp
qed

lemma tell_providers_total:
  assumes "queue_ok k"
  shows "\<exists>k'. tell_providers mo is k = Some k' \<and> queue_ok k' \<and> msg_sys.more k' = msg_sys.more k"
  using assms
proof (induction "is" arbitrary: k)
  case Nil
  then show ?case by simp
next
  case (Cons i "is")
  let ?p = "cb_pid (cb_rom k (ram_ptr k (cb_slot (mods k mo) i)))"
  show ?case
  proof (cases "?p = mod_pid (mods k mo) \<or> ?p = RUNTIME_PID")
    case True
    then show ?thesis using Cons.IH [OF Cons.prems] by simp
  next
    case False
    obtain k1 r where "post_short ?p FNTABLE_PID MSG_DFUNC_REMOVED (mod_pid (mods k mo)) 0 0 k = Some (k1, r)" "queue_ok k1" "msg_sys.more k1 = msg_sys.more k"
      using queue_post [OF Cons.prems] by blast
    then show ?thesis using False Cons.IH [of k1] by (simp add: Let_def)
  qed
qed

section \<open>Linking keeps the pointers well-formed\<close>

text \<open>
  The condition \<open>linked_ok\<close> on the registered modules comes from linking: with states that do not overlap and tables of different modules
  that have no block in common, \<^verbatim>\<open>fntable_link_provided_functions\<close>, \<^verbatim>\<open>fntable_link_subscribed_functions\<close>
  and \<^verbatim>\<open>ker_fntable_subscribe\<close> on a subscription without a fixed provider keep it for every table of provided functions;
  the second one establishes it for the module it links, whatever its pointers were.
\<close>

definition entries :: "'a mod_sys_scheme \<Rightarrow> addr set \<Rightarrow> (addr \<times> nat) set" where
  "entries k S = {(h, i). h \<in> S \<and> i \<in> subs k h}"

definition all_linked :: "'a mod_sys_scheme \<Rightarrow> addr \<Rightarrow> u8 \<Rightarrow> u8 \<Rightarrow> sos_pid_t \<Rightarrow> (addr \<times> nat) set \<Rightarrow> bool" where
  "all_linked k funct start en pub_pid A \<longleftrightarrow> (\<forall>(h, i) \<in> A. linked_ok k funct start en pub_pid h i)"

definition slots_apart :: "'a mod_sys_scheme \<Rightarrow> (addr \<times> nat) set \<Rightarrow> bool" where
  "slots_apart k A \<longleftrightarrow> inj_on (\<lambda>(h, i). cb_slot (mods k h) i) A"

definition table_of :: "'a mod_sys_scheme \<Rightarrow> addr \<Rightarrow> addr set" where
  "table_of k mo = (let hdr = mod_header (mods k mo); r = mod_rom k hdr
     in provided (funct_of hdr) (num_sub_func r) (num_sub_func r + num_prov_func r))"

definition sole_provider :: "'a mod_sys_scheme \<Rightarrow> addr set \<Rightarrow> addr set \<Rightarrow> sos_pid_t \<Rightarrow> bool" where
  "sole_provider k S R pub_pid \<longleftrightarrow> (\<forall>mo \<in> S. table_of k mo \<inter> R \<noteq> {} \<longrightarrow> mod_pid (mods k mo) = pub_pid)"

lemma unlinks_all:
  assumes "unlinks {} k k'"
  shows "subs k' = subs k" "own_cb k' = own_cb k" "slots_apart k' A = slots_apart k A" "sole_provider k' S R pub_pid = sole_provider k S R pub_pid"
    "entries k' S = entries k S"
  using assms by (simp_all add: unlinks_def subs_def own_cb_def slots_apart_def table_of_def sole_provider_def entries_def fun_eq_iff)

lemma prov_cb_found:
  assumes "fntable_get_prov_cb k funct fid start en = p" "p \<noteq> NULL"
  shows "p \<in> provided funct start en" "cb_fid (cb_rom k p) = fid"
proof -
  obtain j where "find (\<lambda>i. cb_fid (cb_rom k (cb_at funct i)) = fid) [unat start..<unat en] = Some j" "p = cb_at funct j"
    using assms by (auto simp: fntable_get_prov_cb_def split: option.splits)
  then show "p \<in> provided funct start en" "cb_fid (cb_rom k p) = fid"
    by (auto simp: find_Some_iff provided_def nth_upt)
qed

text \<open>A pointer of the subscription \<open>i\<close> of \<open>h\<close> is set: the others keep their state.\<close>

lemma all_linked_set:
  assumes "all_linked k funct start en pub_pid A" "slots_apart k (insert (h, i) A)" "own_cb k h i \<notin> provided funct start en"
    and "p \<in> provided funct start en \<Longrightarrow> cb_pid (cb_rom k (own_cb k h i)) \<noteq> RUNTIME_PID \<Longrightarrow>
      cb_pid (cb_rom k (own_cb k h i)) = pub_pid \<and> cb_fid (cb_rom k p) = cb_fid (cb_rom k (own_cb k h i))"
  shows "all_linked (set_cb (mods k h) i p k) funct start en pub_pid (insert (h, i) A)"
proof -
  let ?k = "set_cb (mods k h) i p k"
  have "linked_ok ?k funct start en pub_pid h' i'" if h': "(h', i') \<in> insert (h, i) A" for h' i'
  proof (cases "h' = h \<and> i' = i")
    case True
    then show ?thesis
      using assms(3,4) by (auto simp: linked_ok_def own_cb_def set_cb_def provided_def)
  next
    case False
    then have "cb_slot (mods k h') i' \<noteq> cb_slot (mods k h) i"
      using inj_onD [OF assms(2) [unfolded slots_apart_def], of "(h', i')" "(h, i)"] h' by auto
    moreover have "linked_ok k funct start en pub_pid h' i'"
      using assms(1) h' False by (auto simp: all_linked_def)
    ultimately show ?thesis
      by (simp add: linked_ok_def own_cb_def set_cb_def)
  qed
  then show ?thesis unfolding all_linked_def by blast
qed

lemma set_cb_frame: "unlinks {} k (set_cb m i p k)"
  by (simp add: unlinks_def set_cb_def)

lemma link_one_keeps:
  assumes "all_linked k funct start en pub_pid A" "slots_apart k A" "(h, i) \<in> A"
  shows "\<exists>k'. link_one funct start en True pub_pid (mods k h) i k = Some k' \<and> unlinks {} k k' \<and> all_linked k' funct start en pub_pid A"
proof -
  let ?sub = "cb_rom k (own_cb k h i)"
  let ?p = "fntable_get_prov_cb k funct (cb_fid ?sub) start en"
  have A: "insert (h, i) A = A" using assms(3) by blast
  have own: "own_cb k h i \<notin> provided funct start en" using assms(1,3) by (auto simp: all_linked_def linked_ok_def)
  have "all_linked (set_cb (mods k h) i ?p k) funct start en pub_pid A" if "cb_pid ?sub = pub_pid" "?p \<noteq> NULL"
    using all_linked_set [OF assms(1), of h i ?p, unfolded A, OF assms(2) own] prov_cb_found(2) [OF refl that(2)] that(1) by blast
  then show ?thesis
    using assms(1) set_cb_frame [of k "mods k h" i ?p] by (auto simp: link_one_def Let_def own_cb_def)
qed

lemma link_subs_keeps:
  assumes "all_linked k funct start en pub_pid A" "slots_apart k A" "{h} \<times> set is \<subseteq> A"
  shows "\<exists>k'. link_subs funct start en True pub_pid h is k = Some k' \<and> unlinks {} k k' \<and> all_linked k' funct start en pub_pid A"
  using assms
proof (induction "is" arbitrary: k)
  case Nil
  then show ?case by simp
next
  case (Cons i "is")
  from link_one_keeps [OF Cons.prems(1,2), of h i] Cons.prems(3) obtain k1 where
    k1: "link_one funct start en True pub_pid (mods k h) i k = Some k1" "unlinks {} k k1" "all_linked k1 funct start en pub_pid A" by auto
  have "slots_apart k1 A" using Cons.prems(2) by (simp add: unlinks_all [OF k1(2)])
  with Cons.IH [OF k1(3)] Cons.prems(3) obtain k2 where "link_subs funct start en True pub_pid h is k1 = Some k2" "unlinks {} k1 k2" "all_linked k2 funct start en pub_pid A"
    by auto
  then show ?case
    using k1(1) unlinks_trans [OF k1(2)] by auto
qed

lemma link_chain_keeps:
  assumes "all_linked k funct start en pub_pid A" "slots_apart k A" "path (nx_of (mods k)) h hs NULL" "entries k (set hs) \<subseteq> A" "NULL \<notin> set hs"
  shows "\<exists>k'. link_chain funct start en True pub_pid h k = Some k' \<and> unlinks {} k k' \<and> all_linked k' funct start en pub_pid A"
  using assms
proof (induction hs arbitrary: h k)
  case Nil
  then show ?case by (intro exI [of _ k]) (simp add: link_chain.simps)
next
  case (Cons x hs)
  have x: "h = x" "x \<noteq> NULL" "path (nx_of (mods k)) (mod_next (mods k x)) hs NULL" "NULL \<notin> set hs"
    using Cons.prems(3,5) nx_of_def [of "mods k" x] by auto
  let ?is = "[0..<unat (num_sub_func (mod_rom k (mod_header (mods k x))))]"
  have sub: "{x} \<times> set ?is \<subseteq> A" "entries k (set hs) \<subseteq> A" using Cons.prems(4) by (auto simp: entries_def subs_def)
  from link_subs_keeps [OF Cons.prems(1,2) sub(1)] obtain k1 where
    k1: "link_subs funct start en True pub_pid x ?is k = Some k1" "unlinks {} k k1" "all_linked k1 funct start en pub_pid A" by blast
  have m: "mods k1 = mods k" "slots_apart k1 A" "entries k1 (set hs) \<subseteq> A"
    using k1(2) Cons.prems(2) sub(2) unlinks_all [OF k1(2)] by (simp_all add: unlinks_def)
  from Cons.IH [OF k1(3) m(2) _ m(3) x(4), of "mod_next (mods k x)"] x(3) m(1) obtain k2 where
    k2: "link_chain funct start en True pub_pid (mod_next (mods k x)) k1 = Some k2" "unlinks {} k1 k2" "all_linked k2 funct start en pub_pid A" by auto
  have "link_chain funct start en True pub_pid h k = Some k2"
    using x(1,2) k1(1) k2(1) m(1) by (subst link_chain.simps) simp
  then show ?case
    using k2(3) unlinks_trans [OF k1(2) k2(2)] by blast
qed

lemma link_bins_keeps:
  assumes "all_linked k funct start en pub_pid A" "slots_apart k A" "entries k (set (concat bs)) \<subseteq> A" "bins_ok (mods k) (mod_bin k) bs"
    "\<forall>b \<in> set is. b < SCHED_NUMBER_BINS"
  shows "\<exists>k'. link_bins funct start en True pub_pid is k = Some k' \<and> unlinks {} k k' \<and> all_linked k' funct start en pub_pid A"
  using assms
proof (induction "is" arbitrary: k)
  case Nil
  then show ?case by simp
next
  case (Cons b "is")
  have b: "b < SCHED_NUMBER_BINS" "length bs = SCHED_NUMBER_BINS" "path (nx_of (mods k)) (mod_bin k ! b) (bs ! b) NULL" "NULL \<notin> set (bs ! b)"
    using Cons.prems(4,5) by (auto simp: bins_ok_iff)
  have "set (bs ! b) \<subseteq> set (concat bs)" using b(1,2) by (auto simp: set_concat_nth simp del: set_concat)
  then have "entries k (set (bs ! b)) \<subseteq> A" using Cons.prems(3) by (auto simp: entries_def simp del: set_concat)
  from link_chain_keeps [OF Cons.prems(1,2) b(3) this b(4)] obtain k1 where
    k1: "link_chain funct start en True pub_pid (mod_bin k ! b) k = Some k1" "unlinks {} k k1" "all_linked k1 funct start en pub_pid A" by blast
  have "slots_apart k1 A" "entries k1 (set (concat bs)) \<subseteq> A" "bins_ok (mods k1) (mod_bin k1) bs"
    using k1(2) Cons.prems(2-4) unlinks_all [OF k1(2)] by (simp_all add: unlinks_def del: set_concat)
  from Cons.IH [OF k1(3) this] Cons.prems(5) obtain k2 where
    "link_bins funct start en True pub_pid is k1 = Some k2" "unlinks {} k1 k2" "all_linked k2 funct start en pub_pid A" by auto
  then show ?case
    using k1(1) unlinks_trans [OF k1(2)] by auto
qed

lemma link_provided_keeps:
  assumes "all_linked k funct start en (cb_pid (cb_rom k (cb_at funct (unat start)))) (entries k (set (concat bs)))"
    "slots_apart k (entries k (set (concat bs)))" "bins_ok (mods k) (mod_bin k) bs"
  shows "\<exists>k'. fntable_link_provided_functions funct start en True k = Some k' \<and> unlinks {} k k' \<and>
    all_linked k' funct start en (cb_pid (cb_rom k (cb_at funct (unat start)))) (entries k (set (concat bs)))"
  using link_bins_keeps [OF assms(1,2) subset_refl assms(3), of "[0..<SCHED_NUMBER_BINS]"] by (auto simp: fntable_link_provided_functions_def)

text \<open>The search for the provider of one subscription.\<close>

lemma real_subscribe_found:
  assumes "bins_ok (mods k) (mod_bin k) bs" "cache_ok k bs"
  shows "\<exists>c p. fntable_real_subscribe sub_h pid fid i k = Some (k\<lparr>mod_cache := c\<rparr>, p) \<and> cache_ok (k\<lparr>mod_cache := c\<rparr>) bs \<and>
    (p \<noteq> NULL \<longrightarrow> (\<exists>mo \<in> set (concat bs). mod_pid (mods k mo) = pid \<and> p \<in> table_of k mo) \<and> cb_fid (cb_rom k p) = fid)"
proof -
  obtain c where c: "ker_get_module pid k = Some (k\<lparr>mod_cache := c\<rparr>, node_of (registered (mods k) bs pid))" "cache_ok (k\<lparr>mod_cache := c\<rparr>) bs"
    using get_module_law [OF assms] by blast
  show ?thesis
  proof (cases "registered (mods k) bs pid")
    case None
    then show ?thesis using c by (auto simp: fntable_real_subscribe_def)
  next
    case (Some mo)
    then have mo: "mo \<noteq> NULL" "mo \<in> set (concat bs)" "mod_pid (mods k mo) = pid"
      using registered_nonnull [OF assms(1)] registered_iff [OF assms(1)] by auto
    let ?h = "mod_header (mods k mo)"
    let ?p = "fntable_get_prov_cb (k\<lparr>mod_cache := c\<rparr>) (funct_of ?h) fid (num_sub_func (mod_rom k ?h)) (num_sub_func (mod_rom k ?h) + num_prov_func (mod_rom k ?h))"
    have "?p \<in> table_of k mo \<and> cb_fid (cb_rom k ?p) = fid" if "?p \<noteq> NULL"
      using prov_cb_found [OF refl that] by (simp add: table_of_def Let_def)
    then show ?thesis
      using c Some mo by (auto simp: fntable_real_subscribe_def Let_def)
  qed
qed

text \<open>Linking the subscriptions of a module that joins the registered ones.\<close>

lemma link_subscribed_keeps:
  assumes "all_linked k funct start en pub_pid A" "slots_apart k (A \<union> {mo} \<times> set is)" "bins_ok (mods k) (mod_bin k) bs" "cache_ok k bs"
    "sole_provider k (insert mo (set (concat bs))) (provided funct start en) pub_pid" "\<forall>i \<in> set is. own_cb k mo i \<notin> provided funct start en"
  shows "\<exists>k'. link_subscribed mo is k = Some k' \<and> unlinks {} k k' \<and> cache_ok k' bs \<and> all_linked k' funct start en pub_pid (A \<union> {mo} \<times> set is)"
  using assms
proof (induction "is" arbitrary: k A)
  case Nil
  then show ?case by simp
next
  case (Cons i "is")
  let ?S = "insert mo (set (concat bs))" and ?m = "mods k mo" and ?own = "own_cb k mo i"
  let ?cb = "cb_rom k ?own" and ?r = "mod_rom k (mod_header (mods k mo))"
  let ?step = "if cb_pid ?cb = mod_pid ?m
    then Some (k, fntable_get_prov_cb k (funct_of (mod_header ?m)) (cb_fid ?cb) (num_sub_func ?r) (num_sub_func ?r + num_prov_func ?r))
    else if cb_pid ?cb \<noteq> RUNTIME_PID then fntable_real_subscribe (mod_header ?m) (cb_pid ?cb) (cb_fid ?cb) (of_nat i) k else Some (k, NULL)"
  have "\<exists>c p. ?step = Some (k\<lparr>mod_cache := c\<rparr>, p) \<and> cache_ok (k\<lparr>mod_cache := c\<rparr>) bs \<and>
    (p \<noteq> NULL \<longrightarrow> (\<exists>x \<in> ?S. mod_pid (mods k x) = cb_pid ?cb \<and> p \<in> table_of k x) \<and> cb_fid (cb_rom k p) = cb_fid ?cb)"
  proof (cases "cb_pid ?cb = mod_pid ?m")
    case True
    then show ?thesis
      using prov_cb_found [OF refl, of k "funct_of (mod_header ?m)" "cb_fid ?cb"] Cons.prems(4)
      by (intro exI [of _ "mod_cache k"] exI) (auto simp: table_of_def Let_def)
  next
    case False
    then show ?thesis
      using real_subscribe_found [OF Cons.prems(3,4), of "mod_header ?m" "cb_pid ?cb" "cb_fid ?cb" "of_nat i"] Cons.prems(4)
      by (cases "cb_pid ?cb = RUNTIME_PID") (auto intro: exI [of _ "mod_cache k"])
  qed
  then obtain c p where p: "?step = Some (k\<lparr>mod_cache := c\<rparr>, p)" "cache_ok (k\<lparr>mod_cache := c\<rparr>) bs"
    "p \<noteq> NULL \<Longrightarrow> (\<exists>x \<in> ?S. mod_pid (mods k x) = cb_pid ?cb \<and> p \<in> table_of k x) \<and> cb_fid (cb_rom k p) = cb_fid ?cb" by blast
  let ?q = "if p \<noteq> NULL then p else ?own"
  have own: "?own \<notin> provided funct start en"
    using Cons.prems(6) by simp
  have "cb_pid ?cb = pub_pid \<and> cb_fid (cb_rom k ?q) = cb_fid ?cb" if q: "?q \<in> provided funct start en"
  proof -
    have pn: "p \<noteq> NULL" "p \<in> provided funct start en" using q own by (auto split: if_splits)
    then obtain x where x: "x \<in> ?S" "mod_pid (mods k x) = cb_pid ?cb" "p \<in> table_of k x" "cb_fid (cb_rom k p) = cb_fid ?cb" using p(3) by blast
    have "table_of k x \<inter> provided funct start en \<noteq> {}" using x(3) pn(2) by blast
    then have "mod_pid (mods k x) = pub_pid" using Cons.prems(5) x(1) unfolding sole_provider_def by blast
    with x(2,4) pn(1) show ?thesis by simp
  qed
  moreover have "slots_apart k (insert (mo, i) A)"
    using Cons.prems(2) unfolding slots_apart_def by (rule inj_on_subset) auto
  ultimately have "all_linked (set_cb ?m i ?q k) funct start en pub_pid (insert (mo, i) A)"
    using all_linked_set [OF Cons.prems(1) _ own, of ?q] by blast
  moreover define k1 where "k1 = set_cb ?m i ?q (k\<lparr>mod_cache := c\<rparr>)"
  ultimately have a1: "all_linked k1 funct start en pub_pid (insert (mo, i) A)"
    by (simp add: all_linked_def linked_ok_def own_cb_def set_cb_def)
  have f1: "unlinks {} k k1" by (simp add: k1_def unlinks_def set_cb_def)
  have S: "insert (mo, i) A \<union> {mo} \<times> set is = A \<union> {mo} \<times> set (i # is)" by auto
  have s1: "slots_apart k1 (insert (mo, i) A \<union> {mo} \<times> set is)" "sole_provider k1 ?S (provided funct start en) pub_pid"
    "\<forall>j \<in> set is. own_cb k1 mo j \<notin> provided funct start en" "bins_ok (mods k1) (mod_bin k1) bs" "cache_ok k1 bs"
    unfolding S using Cons.prems(2,3,5,6) p(2) f1 by (simp_all add: unlinks_all [OF f1] del: set_concat) (simp_all add: k1_def set_cb_def cache_ok_def)
  from Cons.IH [OF a1 s1(1,4,5,2,3)] obtain k2 where k2: "link_subscribed mo is k1 = Some k2" "unlinks {} k1 k2" "cache_ok k2 bs"
    "all_linked k2 funct start en pub_pid (A \<union> {mo} \<times> set (i # is))" unfolding S by blast
  have "link_subscribed mo (i # is) k = ?step \<bind> (\<lambda>(k1, x). link_subscribed mo is (set_cb ?m i (if x \<noteq> NULL then x else ?own) k1))"
    by (simp only: link_subscribed.simps Let_def own_cb_def)
  then have "link_subscribed mo (i # is) k = Some k2"
    unfolding p(1) using k2(1) by (simp add: k1_def)
  then show ?case
    using k2(3,4) unlinks_trans [OF f1 k2(2)] by blast
qed

text \<open>A subscription at run time, by a module that is registered and for an entry without a fixed provider.\<close>

lemma subscribe_keeps:
  assumes "all_linked k funct start en pub_pid A" "slots_apart k A" "bins_ok (mods k) (mod_bin k) bs" "cache_ok k bs"
    "registered (mods k) bs sub_pid = Some mo" "(mo, unat i) \<in> A" "cb_pid (cb_rom k (own_cb k mo (unat i))) = RUNTIME_PID"
  shows "\<exists>k'. ker_fntable_subscribe sub_pid prov_pid fid i k = Some (Done (k', SOS_OK)) \<and> all_linked k' funct start en pub_pid A"
proof -
  have mo: "mo \<noteq> NULL" "mo \<in> set (concat bs)"
    using registered_nonnull [OF assms(3,5)] registered_iff [OF assms(3)] assms(5) by auto
  obtain c where c: "ker_get_module sub_pid k = Some (k\<lparr>mod_cache := c\<rparr>, mo)" "cache_ok (k\<lparr>mod_cache := c\<rparr>) bs"
    using get_module_law [OF assms(3,4), of sub_pid] assms(5) by auto
  obtain d p where d: "fntable_real_subscribe (mod_header (mods k mo)) prov_pid fid i (k\<lparr>mod_cache := c\<rparr>) = Some (k\<lparr>mod_cache := d\<rparr>, p)"
    using real_subscribe_found [of "k\<lparr>mod_cache := c\<rparr>" bs] assms(3) c(2) by fastforce
  let ?q = "if p \<noteq> NULL then p else cb_at (funct_of (mod_header (mods k mo))) (unat i)"
  have A: "insert (mo, unat i) A = A" using assms(6) by blast
  have own: "own_cb k mo (unat i) \<notin> provided funct start en" using assms(1,6) by (auto simp: all_linked_def linked_ok_def)
  have "all_linked (set_cb (mods k mo) (unat i) ?q k) funct start en pub_pid A"
    by (rule all_linked_set [OF assms(1), of mo "unat i", unfolded A, OF assms(2) own]) (use assms(7) in simp)
  then have "all_linked (set_cb (mods k mo) (unat i) ?q (k\<lparr>mod_cache := d\<rparr>)) funct start en pub_pid A"
    by (simp add: all_linked_def linked_ok_def own_cb_def set_cb_def)
  then show ?thesis
    using c(1) d mo(1) by (simp add: ker_fntable_subscribe_def Let_def)
qed

section \<open>A concrete state\<close>

text \<open>Module 134, in control block 50, calls the function of module 130, in control block 40, which is being removed.\<close>

definition demo_linked :: "heap \<Rightarrow> mod_sys" where
  "demo_linked h = (demo_sys h ())\<lparr>
     mod_rom := (\<lambda>a. if a = 600 then demo_header\<lparr>num_prov_func := 1\<rparr> else demo_header\<lparr>num_sub_func := 1\<rparr>),
     cb_rom := (\<lambda>a. \<lparr>cb_ptr = a, cb_proto = [118, 118, 118, 48], cb_pid = 130, cb_fid = 0\<rparr>),
     ram_ptr := (\<lambda>_. 616),
     mods := (\<lambda>p. \<lparr>mod_next = NULL, mod_header = (if p = 40 then 600 else 800), mod_pid = (if p = 40 then 130 else 134), mod_flag = 0, handler_state = 950\<rparr>),
     mod_bin := [NULL, NULL, 50, NULL]\<rparr>"

lemma demo_queue_ok:
  assumes "malloc_heap h = 256" "rep h [Used 11 11 11 False, Used 3 130 130 False, Free 49]"
  shows "queue_ok (demo_sys h x)" "queue_ok (demo_linked h)"
proof -
  have m: "mq_inv (boot_sys h mq_init) [259] {263} []"
    using boot_inv(1) [OF assms] .
  have "mq_inv (demo_sys h x) [259] {263} []" "mq_inv (demo_linked h) [259] {263} []"
    using m by (simp_all add: mq_inv_def msgs_inv_def payloads_ok_def releases_def demo_sys_def demo_linked_def) (simp_all add: boot_sys_def)
  then show "queue_ok (demo_sys h x)" "queue_ok (demo_linked h)"
    unfolding queue_ok_def by blast+
qed

section \<open>Properties\<close>

lemma remove_all_law:
  fixes k mo
  defines "hdr \<equiv> mod_header (mods k mo)"
  defines "ns \<equiv> num_sub_func (mod_rom k hdr)" and "np \<equiv> num_prov_func (mod_rom k hdr)"
  defines "pub \<equiv> cb_pid (cb_rom k (cb_at (funct_of hdr) (unat ns)))"
  assumes "queue_ok k" "bins_ok (mods k) (mod_bin k) bs" "unat ns + unat np < 256" "pub \<noteq> RUNTIME_PID"
    "\<forall>h \<in> set (concat bs). \<forall>i \<in> subs k h. linked_ok k (funct_of hdr) ns (ns + np) pub h i"
  shows "\<exists>k'. fntable_remove_all mo k = Some (k', SOS_OK) \<and> queue_ok k' \<and> mods k' = mods k \<and> mod_bin k' = mod_bin k \<and>
    (\<forall>h \<in> set (concat bs). \<forall>i \<in> subs k h. \<forall>j < unat np.
       ram_ptr k' (cb_slot (mods k h) i) \<noteq> cb_at (funct_of hdr) (unat ns + j))"
proof (cases "np = 0")
  case True
  then show ?thesis
    using assms(5) by (intro exI [of _ k]) (simp add: fntable_remove_all_def np_def hdr_def)
next
  case False
  let ?R = "provided (funct_of hdr) ns (ns + np)"
  have f: "0 < funct_of hdr" "\<forall>b \<in> set [0..<SCHED_NUMBER_BINS]. b < SCHED_NUMBER_BINS"
    by (simp_all add: funct_of_def FUNCT_OFFSET_def)
  from unlink_bins [OF assms(5) f(2) assms(6,9,8) f(1)] obtain k1 where
    k1: "link_bins (funct_of hdr) ns (ns + np) False pub [0..<SCHED_NUMBER_BINS] k = Some k1" "queue_ok k1" "unlinks ?R k k1"
    "\<forall>b \<in> set [0..<SCHED_NUMBER_BINS]. \<forall>h \<in> set (bs ! b). clear_of ?R k1 h"
    by blast
  obtain k2 where k2: "tell_providers mo [0..<unat ns] k1 = Some k2" "queue_ok k2" "msg_sys.more k2 = msg_sys.more k1"
    using tell_providers_total [OF k1(2)] by blast
  note m = more_fields [OF k2(3)]
  have r: "fntable_remove_all mo k = Some (k2, SOS_OK)"
    using False k1(1) k2(1)
    by (simp add: fntable_remove_all_def fntable_link_provided_functions_def np_def ns_def hdr_def pub_def Let_def)
  have "unat (ns + np) = unat ns + unat np"
    using assms(7) by (simp add: unat_word_ariths)
  then have R: "cb_at (funct_of hdr) (unat ns + j) \<in> ?R" if "j < unat np" for j
    using that by (simp add: provided_def)
  have "clear_of ?R k1 h" if "h \<in> set (concat bs)" for h
    using k1(4) that assms(6) by (auto simp: bins_ok_iff set_concat_nth simp del: set_concat)
  then have "ram_ptr k2 (cb_slot (mods k h) i) \<notin> ?R" if "h \<in> set (concat bs)" "i \<in> subs k h" for h i
    using that k1(3) unlinks_subs [OF k1(3)] m by (auto simp: clear_of_def unlinks_def simp del: set_concat)
  then have "ram_ptr k2 (cb_slot (mods k h) i) \<noteq> cb_at (funct_of hdr) (unat ns + j)" if "h \<in> set (concat bs)" "i \<in> subs k h" "j < unat np" for h i j
    using that R [OF that(3)] by metis
  moreover have "mods k2 = mods k" "mod_bin k2 = mod_bin k"
    using k1(3) m(1,2) by (simp_all add: unlinks_def)
  ultimately show ?thesis
    using r k2(2) by blast
qed

text \<open>
  C14. Removing the functions of a module leaves no dangling link: \<^verbatim>\<open>fntable_remove_all\<close> returns, and then
  no subscription of a registered module, fixed or dynamic, points to a function control block that the
  module provided. Before, a dynamic subscription may point anywhere; a subscription to a fixed module that points to one of these blocks
  names their provider and the number of one of the functions, and the stubs are other blocks, as linking leaves the pointers
  (\<open>linked_ok\<close>, which \<open>link_provided_keeps\<close>, \<open>link_subscribed_keeps\<close> and \<open>subscribe_keeps\<close> show that linking keeps).
\<close>

theorem fntable_remove_all_correct:
  fixes k mo
  defines "hdr \<equiv> mod_header (mods k mo)"
  defines "ns \<equiv> num_sub_func (mod_rom k hdr)" and "np \<equiv> num_prov_func (mod_rom k hdr)"
  defines "pub \<equiv> cb_pid (cb_rom k (cb_at (funct_of hdr) (unat ns)))"
  assumes "queue_ok k" "bins_ok (mods k) (mod_bin k) bs" "unat ns + unat np < 256" "pub \<noteq> RUNTIME_PID"
    "\<forall>h \<in> set (concat bs). \<forall>i \<in> subs k h. linked_ok k (funct_of hdr) ns (ns + np) pub h i"
  shows "\<exists>k'. fntable_remove_all mo k = Some (k', SOS_OK) \<and> queue_ok k' \<and> mods k' = mods k \<and> mod_bin k' = mod_bin k \<and>
    (\<forall>h \<in> set (concat bs). \<forall>i \<in> subs k h. \<forall>j < unat np.
       ram_ptr k' (cb_slot (mods k h) i) \<noteq> cb_at (funct_of hdr) (unat ns + j))"
  using assms unfolding hdr_def ns_def np_def pub_def by (intro remove_all_law)

theorem fntable_remove_all_correct_witness:
  "\<exists>h k'. ram_ptr (demo_linked h) 950 = 616 \<and> fntable_remove_all 40 (demo_linked h) = Some (k', SOS_OK) \<and> ram_ptr k' 950 \<noteq> 616"
proof -
  obtain h where h: "malloc_heap h = 256" "rep h [Used 11 11 11 False, Used 3 130 130 False, Free 49]" using boot_heap by blast
  let ?k = "demo_linked h"
  have f: "mod_header (mods ?k 40) = 600" "num_sub_func (mod_rom ?k 600) = 0" "num_prov_func (mod_rom ?k 600) = 1"
    "cb_pid (cb_rom ?k a) = 130" "ram_ptr ?k a = 616" "subs ?k 50 = {0}" "cb_slot (mods ?k 50) 0 = 950" for a
    by (simp_all add: demo_linked_def demo_header_def subs_def cb_slot_def)
  have "bins_ok (mods ?k) (mod_bin ?k) [[], [], [50], []]"
  proof -
    have "path (nx_of (mods ?k)) (mod_bin ?k ! i) ([[], [], [50], []] ! i) NULL \<and>
      (\<forall>h \<in> set ([[], [], [50], []] ! i). h \<noteq> NULL \<and> hash_pid (mod_pid (mods ?k h)) = i)" if "i < 4" for i
    proof -
      have "i = 0 \<or> i = 1 \<or> i = 2 \<or> i = 3" using that by auto
      then show ?thesis
        by (elim disjE) (simp_all add: nx_of_def demo_linked_def hash_pid_def SCHED_NUMBER_BINS_def)
    qed
    then show ?thesis by (simp add: bins_ok_iff SCHED_NUMBER_BINS_def) (simp add: demo_linked_def)
  qed
  moreover have "linked_ok ?k (funct_of 600) 0 (0 + 1) 130 50 0"
    by (simp add: linked_ok_def provided_def own_cb_def demo_linked_def cb_at_def funct_of_def FUNCT_OFFSET_def)
  ultimately obtain k' where "fntable_remove_all 40 ?k = Some (k', SOS_OK)" "ram_ptr k' 950 \<noteq> cb_at (funct_of 600) 0"
    using fntable_remove_all_correct [of ?k "[[], [], [50], []]" 40] demo_queue_ok(2) [OF h] f by (auto simp: RUNTIME_PID_def NULL_PID_def)
  then show ?thesis
    using f(5) [of 950] by (intro exI [of _ h] exI [of _ k']) (simp add: cb_at_def funct_of_def FUNCT_OFFSET_def)
qed

end
