(* ===== verification/Monitor.thy ===== *)
theory Monitor
  imports Timer Fntable
begin

text \<open>
  Monitors of message traffic, \<^verbatim>\<open>kernel/monitor.c\<close> of the build without preemption: modules hand in
  control blocks, which the kernel links into a list, and see the messages that the scheduler
  dispatches or that leave the node.
\<close>

section \<open>Definitions\<close>

definition MON_NET_INCOMING :: u8 where "MON_NET_INCOMING = 0x01"
definition MON_NET_OUTGOING :: u8 where "MON_NET_OUTGOING = 0x02"
definition MON_LOCAL :: u8 where "MON_LOCAL = 0x04"

record monitor_cb =
  mon_type :: u8
  mod_handle :: addr
  mon_next :: addr

record mon_sys = timer_sys +
  mon_cbs :: "addr \<Rightarrow> monitor_cb"
  cb_list :: addr

definition upd_mon :: "addr \<Rightarrow> (monitor_cb \<Rightarrow> monitor_cb) \<Rightarrow> 'a mon_sys_scheme \<Rightarrow> 'a mon_sys_scheme" where
  "upd_mon p f k = k\<lparr>mon_cbs := (mon_cbs k)(p := f (mon_cbs k p))\<rparr>"

definition monitor_init :: "'a mon_sys_scheme \<Rightarrow> 'a mon_sys_scheme \<times> int" where
  "monitor_init k = (k\<lparr>cb_list := NULL\<rparr>, SOS_OK)"

text \<open>The last block of the list.\<close>

partial_function (option) mon_last :: "(addr \<Rightarrow> monitor_cb) \<Rightarrow> addr \<Rightarrow> addr option" where
  "mon_last ms cur = (if mon_next (ms cur) = NULL then Some cur else mon_last ms (mon_next (ms cur)))"

declare mon_last.simps [code]

definition ker_register_monitor :: "sos_pid_t \<Rightarrow> u8 \<Rightarrow> addr \<Rightarrow> 'a mon_sys_scheme \<Rightarrow> ('a mon_sys_scheme \<times> int) option" where
  "ker_register_monitor pid type cb k = do {
     (k1, h) \<leftarrow> ker_get_module pid k;
     let k2 = upd_mon cb (\<lambda>c. c\<lparr>mod_handle := h\<rparr>) k1;
     if h = NULL then Some (k2, - ESRCH)
     else do {
       let k3 = upd_mon cb (\<lambda>c. c\<lparr>mon_type := type, mon_next := NULL\<rparr>) k2;
       if cb_list k3 = NULL then Some (k3\<lparr>cb_list := cb\<rparr>, SOS_OK)
       else do {
         cur \<leftarrow> mon_last (mon_cbs k3) (cb_list k3);
         Some (upd_mon cur (\<lambda>c. c\<lparr>mon_next := cb\<rparr>) k3, SOS_OK)
       }
     }
   }"

definition mon_unlink :: "addr \<Rightarrow> addr \<Rightarrow> 'a mon_sys_scheme \<Rightarrow> 'a mon_sys_scheme" where
  "mon_unlink cur prv k =
     (if cur = prv then k\<lparr>cb_list := mon_next (mon_cbs k cur)\<rparr>
      else upd_mon prv (\<lambda>c. c\<lparr>mon_next := mon_next (mon_cbs k cur)\<rparr>) k)"

definition ker_deregister_monitor :: "addr \<Rightarrow> 'a mon_sys_scheme \<Rightarrow> ('a mon_sys_scheme \<times> int) option" where
  "ker_deregister_monitor cb k = do {
     (cur, prv) \<leftarrow> chain_find (\<lambda>c. c = cb) (\<lambda>c. mon_next (mon_cbs k c)) (cb_list k) (cb_list k);
     if cur = NULL then Some (k, - EINVAL) else Some (mon_unlink cur prv k, SOS_OK)
   }"

definition monitor_remove_all :: "sos_pid_t \<Rightarrow> 'a mon_sys_scheme \<Rightarrow> 'a mon_sys_scheme option" where
  "monitor_remove_all pid k = do {
     (cur, prv) \<leftarrow> chain_find (\<lambda>c. mod_pid (mods k (mod_handle (mon_cbs k c))) = pid) (\<lambda>c. mon_next (mon_cbs k c)) (cb_list k) (cb_list k);
     if cur = NULL then Some k else Some (mon_unlink cur prv k)
   }"

text \<open>The handler of the module of a control block, on a message.\<close>

definition run_monitor ::
    "'a mon_sys_scheme handler \<Rightarrow> addr \<Rightarrow> addr \<Rightarrow> 'a mon_sys_scheme \<Rightarrow> ('a mon_sys_scheme \<times> int) outcome option" where
  "run_monitor run cur m k =
     (let h = mods k (mod_handle (mon_cbs k cur))
      in run (module_handler (mod_rom k (mod_header h))) (handler_state h) m (k\<lparr>curr_pid := mod_pid h\<rparr>))"

partial_function (option) deliver_incoming ::
    "'a mon_sys_scheme handler \<Rightarrow> addr \<Rightarrow> u8 \<Rightarrow> addr \<Rightarrow> 'a mon_sys_scheme \<Rightarrow> 'a mon_sys_scheme outcome option" where
  "deliver_incoming run m type cur k =
     (if cur = NULL then Some (Done k)
      else if mon_type (mon_cbs k cur) AND type \<noteq> 0 \<and> mod_pid (mods k (mod_handle (mon_cbs k cur))) \<noteq> m_did (headers k m) then do {
        r \<leftarrow> run_monitor run cur m k;
        case r of Panic \<Rightarrow> Some Panic | Done (k1, ret) \<Rightarrow> deliver_incoming run m type (mon_next (mon_cbs k1 cur)) k1
      }
      else deliver_incoming run m type (mon_next (mon_cbs k cur)) k)"

declare deliver_incoming.simps [code]

definition monitor_deliver_incoming_msg_to_monitor ::
    "'a mon_sys_scheme handler \<Rightarrow> addr \<Rightarrow> 'a mon_sys_scheme \<Rightarrow> 'a mon_sys_scheme outcome option" where
  "monitor_deliver_incoming_msg_to_monitor run m k =
     (if cb_list k = NULL then Some (Done k)
      else deliver_incoming run m (if m_saddr (headers k m) = node_address k then MON_LOCAL else MON_NET_INCOMING) (cb_list k) k)"

partial_function (option) deliver_outgoing ::
    "'a mon_sys_scheme handler \<Rightarrow> addr \<Rightarrow> addr \<Rightarrow> 'a mon_sys_scheme \<Rightarrow> 'a mon_sys_scheme outcome option" where
  "deliver_outgoing run m cur k =
     (if cur = NULL then Some (Done k)
      else if mon_type (mon_cbs k cur) AND MON_NET_OUTGOING \<noteq> 0 \<and> mod_pid (mods k (mod_handle (mon_cbs k cur))) \<noteq> m_sid (headers k m) then do {
        r \<leftarrow> run_monitor run cur m k;
        case r of Panic \<Rightarrow> Some Panic
        | Done (k1, ret) \<Rightarrow> deliver_outgoing run m (mon_next (mon_cbs k1 cur)) (k1\<lparr>curr_pid := curr_pid k\<rparr>)
      }
      else deliver_outgoing run m (mon_next (mon_cbs k cur)) k)"

declare deliver_outgoing.simps [code]

definition monitor_deliver_outgoing_msg_to_monitor ::
    "'a mon_sys_scheme handler \<Rightarrow> addr \<Rightarrow> 'a mon_sys_scheme \<Rightarrow> 'a mon_sys_scheme outcome option" where
  "monitor_deliver_outgoing_msg_to_monitor run m k =
     (if cb_list k = NULL then Some (Done k) else deliver_outgoing run m (cb_list k) k)"

end
