(* ===== verification/Sensor.thy ===== *)
theory Sensor
  imports Monitor
begin

text \<open>
  Sensor drivers and their clients, \<^verbatim>\<open>kernel/sensor.c\<close>: twelve sensors, each with the driver that
  registered it and the client that waits for its data. The kernel calls the drivers through control
  blocks of the function table. An access to the state of a sensor outside the array has no defined result.
\<close>

section \<open>Definitions\<close>

definition MAX_SENSOR_ID :: nat where "MAX_SENSOR_ID = 12"
definition SENSOR_GET_DATA_CMD :: u8 where "SENSOR_GET_DATA_CMD = 0"
definition SENSOR_ENABLE_CMD :: u8 where "SENSOR_ENABLE_CMD = 1"
definition SENSOR_DISABLE_CMD :: u8 where "SENSOR_DISABLE_CMD = 2"
definition SENSOR_CONFIG_CMD :: u8 where "SENSOR_CONFIG_CMD = 3"
definition MSG_ERROR :: u8 where "MSG_ERROR = 15"

record sensor_state_t =
  sn_pid :: sos_pid_t
  client_pid :: sos_pid_t
  sn_ctx :: addr

text \<open>The table of pointers to control blocks is the state of the sensor module; here is its address.\<close>

record sensor_sys = mon_sys +
  sensor_st :: "sensor_state_t list"
  sensor_func_ptr :: addr

text \<open>Driver functions: the address of the function, the control block, the command and the context.\<close>

type_synonym 'k drivers = "addr \<Rightarrow> addr \<Rightarrow> u8 \<Rightarrow> addr \<Rightarrow> 'k \<Rightarrow> ('k \<times> int) outcome option"

definition upd_sensor :: "nat \<Rightarrow> (sensor_state_t \<Rightarrow> sensor_state_t) \<Rightarrow> 'a sensor_sys_scheme \<Rightarrow> 'a sensor_sys_scheme" where
  "upd_sensor i f k = k\<lparr>sensor_st := (sensor_st k)[i := f (sensor_st k ! i)]\<rparr>"

text \<open>\<^verbatim>\<open>SOS_CALL\<close> of a sensor function: the identifier of the driver is current during the call.\<close>

definition sensor_call ::
    "'a sensor_sys_scheme drivers \<Rightarrow> nat \<Rightarrow> u8 \<Rightarrow> addr \<Rightarrow> 'a sensor_sys_scheme \<Rightarrow> ('a sensor_sys_scheme \<times> int) outcome option" where
  "sensor_call drv i cmd ctx k = do {
     let cb = ram_ptr k (sensor_func_ptr k + i * POINTER_SIZE);
     (k1, f) \<leftarrow> ker_sys_enter_func cb k;
     r \<leftarrow> drv f cb cmd ctx k1;
     case r of Panic \<Rightarrow> Some Panic
     | Done (k2, ret) \<Rightarrow> do { k3 \<leftarrow> ker_sys_leave_func k2; Some (Done (k3, ret)) }
   }"

text \<open>The guard on the number of a sensor: an error, an access outside the array, or the state.\<close>

definition sensor_guard ::
    "u8 \<Rightarrow> (sensor_state_t \<Rightarrow> bool) \<Rightarrow> 'a sensor_sys_scheme \<Rightarrow> ('a sensor_sys_scheme \<times> int) outcome option \<Rightarrow> ('a sensor_sys_scheme \<times> int) outcome option" where
  "sensor_guard i bad k body =
     (if MAX_SENSOR_ID < unat i then Some (Done (k, - EINVAL))
      else if unat i \<ge> length (sensor_st k) then None
      else if bad (sensor_st k ! unat i) then Some (Done (k, - EINVAL))
      else body)"

definition sensor_init_states :: "'a sensor_sys_scheme \<Rightarrow> 'a sensor_sys_scheme" where
  "sensor_init_states k = k\<lparr>sensor_st := replicate MAX_SENSOR_ID \<lparr>sn_pid = NULL_PID, client_pid = NULL_PID, sn_ctx = NULL\<rparr>\<rparr>"

definition ker_sensor_register ::
    "sos_pid_t \<Rightarrow> u8 \<Rightarrow> u8 \<Rightarrow> addr \<Rightarrow> 'a sensor_sys_scheme \<Rightarrow> ('a sensor_sys_scheme \<times> int) outcome option" where
  "ker_sensor_register calling_id sensor_id sensor_fid ctx k =
     sensor_guard sensor_id (\<lambda>s. False) k
       (if sn_pid (sensor_st k ! unat sensor_id) \<noteq> NULL_PID then Some (Done (k, - EBUSY))
        else continue (ker_fntable_subscribe KER_SENSOR_PID calling_id sensor_fid sensor_id k)
          (\<lambda>(k1, r). if r < 0 then Some (Done (k1, - EINVAL))
             else Some (Done (upd_sensor (unat sensor_id) (\<lambda>s. s\<lparr>sn_pid := calling_id, sn_ctx := ctx\<rparr>) k1, SOS_OK))))"

definition ker_sensor_deregister ::
    "'a sensor_sys_scheme drivers \<Rightarrow> sos_pid_t \<Rightarrow> u8 \<Rightarrow> 'a sensor_sys_scheme \<Rightarrow> ('a sensor_sys_scheme \<times> int) outcome option" where
  "ker_sensor_deregister drv calling_id sensor_id k =
     sensor_guard sensor_id (\<lambda>s. sn_pid s \<noteq> calling_id) k
       (continue (sensor_call drv (unat sensor_id) SENSOR_DISABLE_CMD (sn_ctx (sensor_st k ! unat sensor_id)) k)
          (\<lambda>(k1, r). Some (Done (upd_sensor (unat sensor_id) (\<lambda>s. s\<lparr>sn_pid := NULL_PID, sn_ctx := NULL\<rparr>) k1, SOS_OK))))"

definition sensor_unusable :: "sensor_state_t \<Rightarrow> bool" where
  "sensor_unusable s \<longleftrightarrow> sn_pid s = NULL_PID \<or> client_pid s \<noteq> NULL_PID"

definition ker_sensor_get_data ::
    "'a sensor_sys_scheme drivers \<Rightarrow> u8 \<Rightarrow> 'a sensor_sys_scheme \<Rightarrow> ('a sensor_sys_scheme \<times> int) outcome option" where
  "ker_sensor_get_data drv sensor_id k =
     sensor_guard sensor_id sensor_unusable k
       (let k1 = upd_sensor (unat sensor_id) (\<lambda>s. s\<lparr>client_pid := ker_get_current_pid k\<rparr>) k
        in continue (sensor_call drv (unat sensor_id) SENSOR_GET_DATA_CMD (sn_ctx (sensor_st k1 ! unat sensor_id)) k1)
             (\<lambda>(k2, r). if r \<noteq> SOS_OK then Some (Done (upd_sensor (unat sensor_id) (\<lambda>s. s\<lparr>client_pid := NULL_PID\<rparr>) k2, - EINVAL))
                else Some (Done (k2, SOS_OK))))"

definition ker_sensor_enable ::
    "'a sensor_sys_scheme drivers \<Rightarrow> u8 \<Rightarrow> 'a sensor_sys_scheme \<Rightarrow> ('a sensor_sys_scheme \<times> int) outcome option" where
  "ker_sensor_enable drv sensor_id k =
     sensor_guard sensor_id sensor_unusable k
       (continue (sensor_call drv (unat sensor_id) SENSOR_ENABLE_CMD (sn_ctx (sensor_st k ! unat sensor_id)) k)
          (\<lambda>(k1, r). Some (Done (k1, if r \<noteq> SOS_OK then - EINVAL else SOS_OK))))"

definition ker_sensor_disable ::
    "'a sensor_sys_scheme drivers \<Rightarrow> u8 \<Rightarrow> 'a sensor_sys_scheme \<Rightarrow> ('a sensor_sys_scheme \<times> int) outcome option" where
  "ker_sensor_disable drv sensor_id k =
     sensor_guard sensor_id sensor_unusable k
       (continue (sensor_call drv (unat sensor_id) SENSOR_DISABLE_CMD (sn_ctx (sensor_st k ! unat sensor_id)) k)
          (\<lambda>(k1, r). if r \<noteq> SOS_OK then Some (Done (k1, - EINVAL))
             else Some (Done (upd_sensor (unat sensor_id) (\<lambda>s. s\<lparr>client_pid := NULL_PID\<rparr>) k1, SOS_OK))))"

definition ker_sensor_control ::
    "'a sensor_sys_scheme drivers \<Rightarrow> u8 \<Rightarrow> addr \<Rightarrow> 'a sensor_sys_scheme \<Rightarrow> ('a sensor_sys_scheme \<times> int) outcome option" where
  "ker_sensor_control drv sensor_id new_state k =
     sensor_guard sensor_id sensor_unusable k
       (continue (sensor_call drv (unat sensor_id) SENSOR_CONFIG_CMD new_state k)
          (\<lambda>(k1, r). Some (Done (k1, if r \<noteq> SOS_OK then - EINVAL else SOS_OK))))"

definition ker_sensor_data_ready ::
    "u8 \<Rightarrow> u16 \<Rightarrow> u8 \<Rightarrow> 'a sensor_sys_scheme \<Rightarrow> ('a sensor_sys_scheme \<times> int) outcome option" where
  "ker_sensor_data_ready sensor_id sensor_data status k =
     sensor_guard sensor_id (\<lambda>s. sn_pid s = NULL_PID \<or> client_pid s = NULL_PID) k
       (do {
          (k1, r) \<leftarrow> post_short (client_pid (sensor_st k ! unat sensor_id)) KER_SENSOR_PID
            (if 0x3F AND status \<noteq> 0 then MSG_ERROR else MSG_DATA_READY) sensor_id sensor_data 0 k;
          Some (Done (upd_sensor (unat sensor_id) (\<lambda>s. s\<lparr>client_pid := NULL_PID\<rparr>) k1, SOS_OK))
        })"

fun sensor_remove_loop ::
    "'a sensor_sys_scheme drivers \<Rightarrow> sos_pid_t \<Rightarrow> nat list \<Rightarrow> 'a sensor_sys_scheme \<Rightarrow> 'a sensor_sys_scheme outcome option" where
  "sensor_remove_loop drv pid [] k = Some (Done k)"
| "sensor_remove_loop drv pid (i # is) k =
     (if sn_pid (sensor_st k ! i) = pid then
        continue (ker_sensor_deregister drv (sn_pid (sensor_st k ! i)) (of_nat i) k) (\<lambda>(k1, r). sensor_remove_loop drv pid is k1)
      else sensor_remove_loop drv pid is k)"

definition sensor_remove_all ::
    "'a sensor_sys_scheme drivers \<Rightarrow> sos_pid_t \<Rightarrow> 'a sensor_sys_scheme \<Rightarrow> ('a sensor_sys_scheme \<times> int) outcome option" where
  "sensor_remove_all drv pid k =
     continue (sensor_remove_loop drv pid [0..<MAX_SENSOR_ID] k) (\<lambda>k1. Some (Done (k1, SOS_OK)))"

end
