(* ===== verification/Timestamp.thy ===== *)
theory Timestamp
  imports Sensor
begin

text \<open>
  Time stamps of packets for one module at a time, \<^verbatim>\<open>kernel/timestamp.c\<close>: a ring of records in a block of
  the heap. The radio switch is the one of \<^verbatim>\<open>platform/mica2/cc1k_radio.c\<close>.
\<close>

section \<open>Definitions\<close>

record ts_rec_t =
  ts_ptr :: addr
  ts_time :: u32

record ts_svc_t =
  ts_pid :: sos_pid_t
  num_rec :: u8
  next_rec :: u8
  ts_recs :: "ts_rec_t list"

record ts_sys = sensor_sys +
  ts_owner :: addr
  ts_svcs :: "addr \<Rightarrow> ts_svc_t"
  bTimeStampEnable :: bool

text \<open>\<^verbatim>\<open>offsetof(struct ts_svc, rec)\<close> and \<^verbatim>\<open>sizeof(ts_rec_t)\<close>.\<close>

definition TS_REC_OFFSET :: u16 where "TS_REC_OFFSET = 3"
definition TS_REC_SIZE :: u16 where "TS_REC_SIZE = 6"

definition radio_set_timestamp :: "bool \<Rightarrow> 'a ts_sys_scheme \<Rightarrow> 'a ts_sys_scheme \<times> int" where
  "radio_set_timestamp on k = (k\<lparr>bTimeStampEnable := on\<rparr>, SOS_OK)"

definition upd_ts :: "addr \<Rightarrow> (ts_svc_t \<Rightarrow> ts_svc_t) \<Rightarrow> 'a ts_sys_scheme \<Rightarrow> 'a ts_sys_scheme" where
  "upd_ts p f k = k\<lparr>ts_svcs := (ts_svcs k)(p := f (ts_svcs k p))\<rparr>"

text \<open>A record outside the block has no defined result.\<close>

definition timestamp_do_timestamp :: "addr \<Rightarrow> u32 \<Rightarrow> 'a ts_sys_scheme \<Rightarrow> 'a ts_sys_scheme option" where
  "timestamp_do_timestamp p t k =
     (let o1 = ts_owner k; s = ts_svcs k o1; i = unat (next_rec s)
      in if length (ts_recs s) \<le> i then None
         else Some (upd_ts o1 (\<lambda>s. s\<lparr>next_rec := (if next_rec s + 1 = num_rec s then 0 else next_rec s + 1),
                                     ts_recs := (ts_recs s)[i := \<lparr>ts_ptr = p, ts_time = t\<rparr>]\<rparr>) k))"

definition timestamp_incoming :: "addr \<Rightarrow> u32 \<Rightarrow> 'a ts_sys_scheme \<Rightarrow> 'a ts_sys_scheme option" where
  "timestamp_incoming m t k =
     (if ts_owner k \<noteq> NULL \<and> ts_pid (ts_svcs k (ts_owner k)) = m_did (headers k m) then timestamp_do_timestamp (m_data (headers k m)) t k
      else Some k)"

definition timestamp_outgoing :: "addr \<Rightarrow> u32 \<Rightarrow> 'a ts_sys_scheme \<Rightarrow> 'a ts_sys_scheme option" where
  "timestamp_outgoing m t k =
     (if ts_owner k \<noteq> NULL \<and> ts_pid (ts_svcs k (ts_owner k)) = m_sid (headers k m) then timestamp_do_timestamp (m_data (headers k m)) t k
      else Some k)"

definition ker_timestamp_register :: "sos_pid_t \<Rightarrow> u8 \<Rightarrow> 'a ts_sys_scheme \<Rightarrow> ('a ts_sys_scheme \<times> int) option" where
  "ker_timestamp_register pid n k = do {
     if ts_owner k \<noteq> NULL then Some (k, - EBUSY)
     else do {
       let (k1, r) = radio_set_timestamp True k;
       if r \<noteq> SOS_OK then Some (k1, - ENXIO)
       else do {
         (k2, p) \<leftarrow> k_malloc (TS_REC_OFFSET + ucast n * TS_REC_SIZE) KER_TS_PID k1;
         let k3 = k2\<lparr>ts_owner := p\<rparr>;
         if p = NULL then Some (fst (radio_set_timestamp False k3), - ENOMEM)
         else Some (upd_ts p (\<lambda>_. \<lparr>ts_pid = pid, num_rec = n, next_rec = 0, ts_recs = replicate (unat n) \<lparr>ts_ptr = NULL, ts_time = 0\<rparr>\<rparr>) k3, SOS_OK)
       }
     }
   }"

definition ker_timestamp_deregister :: "sos_pid_t \<Rightarrow> 'a ts_sys_scheme \<Rightarrow> ('a ts_sys_scheme \<times> int) option" where
  "ker_timestamp_deregister pid k =
     (if ts_owner k \<noteq> NULL \<and> ts_pid (ts_svcs k (ts_owner k)) = pid then do {
        k1 \<leftarrow> k_free (ts_owner k) k;
        Some (fst (radio_set_timestamp False (k1\<lparr>ts_owner := NULL\<rparr>)), SOS_OK)
      } else Some (k, - ESRCH))"

text \<open>A query without an owner reads through a NULL pointer.\<close>

definition ker_timestamp_query :: "sos_pid_t \<Rightarrow> addr \<Rightarrow> 'a ts_sys_scheme \<Rightarrow> ('a ts_sys_scheme \<times> u32) option" where
  "ker_timestamp_query pid data k =
     (if ts_owner k = NULL then None
      else let s = ts_svcs k (ts_owner k)
      in if ts_pid s \<noteq> pid then Some (k, 0)
         else case find (\<lambda>i. ts_ptr (ts_recs s ! i) = data \<and> ts_time (ts_recs s ! i) \<noteq> 0) [0..<unat (num_rec s)] of
             None \<Rightarrow> Some (k, 0)
           | Some i \<Rightarrow> Some (upd_ts (ts_owner k) (\<lambda>s. s\<lparr>ts_recs := (ts_recs s)[i := \<lparr>ts_ptr = NULL, ts_time = 0\<rparr>]\<rparr>) k, ts_time (ts_recs s ! i)))"

end
