(* ===== verification/Shm.thy ===== *)
theory Shm
  imports Timestamp
begin

text \<open>
  Shared memory by name, \<^verbatim>\<open>kernel/sos_shm.c\<close>: a hash table of control blocks, each with the memory, its
  owner and the two modules that wait for changes.
\<close>

section \<open>Definitions\<close>

definition SHM_NUM_BINS :: nat where "SHM_NUM_BINS = 4"
definition SHM_NUM_WAITER :: nat where "SHM_NUM_WAITER = 2"
definition SHM_UPDATED :: u8 where "SHM_UPDATED = 1"
definition SHM_CLOSED :: u8 where "SHM_CLOSED = 2"
definition MSG_SHM :: u8 where "MSG_SHM = 18"
definition SHM_CB_SIZE :: u8 where "SHM_CB_SIZE = 9"

record shm_cb =
  shm_name :: u16
  shm_mem :: addr
  shm_owner :: sos_pid_t
  waiter :: "sos_pid_t list"
  shm_next :: addr

record shm_sys = ts_sys +
  shm_cbs :: "addr \<Rightarrow> shm_cb"
  shm_bin :: "addr list"
  shm_slab :: slab_t

definition upd_shm :: "addr \<Rightarrow> (shm_cb \<Rightarrow> shm_cb) \<Rightarrow> 'a shm_sys_scheme \<Rightarrow> 'a shm_sys_scheme" where
  "upd_shm p f k = k\<lparr>shm_cbs := (shm_cbs k)(p := f (shm_cbs k p))\<rparr>"

definition shm_nx :: "(addr \<Rightarrow> shm_cb) \<Rightarrow> addr \<Rightarrow> addr" where
  "shm_nx cs p = shm_next (cs p)"

definition hash_bin :: "u16 \<Rightarrow> nat" where
  "hash_bin name = unat name mod SHM_NUM_BINS"

definition name_to_bin :: "u16 \<Rightarrow> 'a shm_sys_scheme \<Rightarrow> addr" where
  "name_to_bin name k = shm_bin k ! hash_bin name"

definition shm_lookup :: "u16 \<Rightarrow> 'a shm_sys_scheme \<Rightarrow> addr option" where
  "shm_lookup name k = chain_search (\<lambda>p. shm_name (shm_cbs k p) = name) (shm_nx (shm_cbs k)) (name_to_bin name k)"

fun send_events :: "addr \<Rightarrow> u8 \<Rightarrow> nat list \<Rightarrow> 'a shm_sys_scheme \<Rightarrow> 'a shm_sys_scheme option" where
  "send_events cb type [] k = Some k"
| "send_events cb type (i # is) k =
     (if waiter (shm_cbs k cb) ! i \<noteq> NULL_PID then do {
        (k1, r) \<leftarrow> post_short (waiter (shm_cbs k cb) ! i) KER_SHM_PID MSG_SHM type (shm_name (shm_cbs k cb)) 0 k;
        send_events cb type is k1
      } else send_events cb type is k)"

definition shm_send_event :: "addr \<Rightarrow> u8 \<Rightarrow> 'a shm_sys_scheme \<Rightarrow> 'a shm_sys_scheme option" where
  "shm_send_event cb type k = send_events cb type [0..<SHM_NUM_WAITER] k"

definition ker_shm_open :: "sos_pid_t \<Rightarrow> u16 \<Rightarrow> addr \<Rightarrow> 'a shm_sys_scheme \<Rightarrow> ('a shm_sys_scheme \<times> int) option" where
  "ker_shm_open pid name shm k = do {
     p \<leftarrow> shm_lookup name k;
     if p \<noteq> NULL then Some (k, - EEXIST)
     else do {
       (k1, cb) \<leftarrow> k_slab_alloc (shm_slab k) KER_SHM_PID k;
       if cb = NULL then Some (k1, - ENOMEM)
       else do {
         let k2 = upd_shm cb (\<lambda>_. \<lparr>shm_name = name, shm_mem = shm, shm_owner = pid, waiter = replicate SHM_NUM_WAITER NULL_PID,
                                   shm_next = name_to_bin name k1\<rparr>) k1;
         Some (k2\<lparr>shm_bin := (shm_bin k2)[hash_bin name := cb]\<rparr>, SOS_OK)
       }
     }
   }"

definition ker_shm_update :: "sos_pid_t \<Rightarrow> u16 \<Rightarrow> addr \<Rightarrow> 'a shm_sys_scheme \<Rightarrow> ('a shm_sys_scheme \<times> int) option" where
  "ker_shm_update pid name shm k = do {
     cb \<leftarrow> shm_lookup name k;
     if cb = NULL then Some (k, - EBADF)
     else do {
       k1 \<leftarrow> shm_send_event cb SHM_UPDATED (upd_shm cb (\<lambda>c. c\<lparr>shm_mem := shm\<rparr>) k);
       Some (k1, SOS_OK)
     }
   }"

definition ker_shm_close :: "sos_pid_t \<Rightarrow> u16 \<Rightarrow> 'a shm_sys_scheme \<Rightarrow> ('a shm_sys_scheme \<times> int) outcome option" where
  "ker_shm_close pid name k = do {
     let head = name_to_bin name k;
     if head = NULL then Some (Done (k, - EBADF))
     else do {
       (cur, prv) \<leftarrow> chain_find (\<lambda>p. shm_name (shm_cbs k p) = name) (shm_nx (shm_cbs k)) head head;
       if cur = NULL then Some (Done (k, - EBADF))
       else if pid \<noteq> shm_owner (shm_cbs k cur) then Some (Done (k, - EPERM))
       else do {
         let k1 = (if cur = head then k\<lparr>shm_bin := (shm_bin k)[hash_bin name := shm_next (shm_cbs k head)]\<rparr>
                   else upd_shm prv (\<lambda>c. c\<lparr>shm_next := shm_next (shm_cbs k cur)\<rparr>) k);
         k2 \<leftarrow> shm_send_event cur SHM_CLOSED k1;
         continue (k_slab_free (shm_slab k2) cur k2) (\<lambda>k3. Some (Done (k3, SOS_OK)))
       }
     }
   }"

definition ker_shm_get :: "sos_pid_t \<Rightarrow> u16 \<Rightarrow> 'a shm_sys_scheme \<Rightarrow> addr option" where
  "ker_shm_get pid name k = do {
     cb \<leftarrow> shm_lookup name k;
     Some (if cb \<noteq> NULL then shm_mem (shm_cbs k cb) else NULL)
   }"

text \<open>The first of the waiters that is a given identifier.\<close>

definition waiter_index :: "sos_pid_t \<Rightarrow> shm_cb \<Rightarrow> nat option" where
  "waiter_index pid c = find (\<lambda>i. waiter c ! i = pid) [0..<SHM_NUM_WAITER]"

definition ker_shm_wait :: "sos_pid_t \<Rightarrow> u16 \<Rightarrow> 'a shm_sys_scheme \<Rightarrow> ('a shm_sys_scheme \<times> int) option" where
  "ker_shm_wait pid name k = do {
     cb \<leftarrow> shm_lookup name k;
     if cb = NULL then Some (k, - EBADF)
     else case waiter_index NULL_PID (shm_cbs k cb) of
         Some i \<Rightarrow> Some (upd_shm cb (\<lambda>c. c\<lparr>waiter := (waiter c)[i := pid]\<rparr>) k, SOS_OK)
       | None \<Rightarrow> Some (k, - ENOMEM)
   }"

definition ker_shm_stopwait :: "sos_pid_t \<Rightarrow> u16 \<Rightarrow> 'a shm_sys_scheme \<Rightarrow> ('a shm_sys_scheme \<times> int) option" where
  "ker_shm_stopwait pid name k = do {
     cb \<leftarrow> shm_lookup name k;
     if cb = NULL then Some (k, - EBADF)
     else case waiter_index pid (shm_cbs k cb) of
         Some i \<Rightarrow> Some (upd_shm cb (\<lambda>c. c\<lparr>waiter := (waiter c)[i := NULL_PID]\<rparr>) k, SOS_OK)
       | None \<Rightarrow> Some (k, - EINVAL)
   }"

subsection \<open>The calls of modules\<close>

definition or_panic :: "('k \<times> int) option \<Rightarrow> ('k \<times> int) outcome option" where
  "or_panic r = do { (k, e) \<leftarrow> r; Some (if e \<noteq> SOS_OK then Panic else Done (k, SOS_OK)) }"

definition ker_sys_shm_open :: "u16 \<Rightarrow> addr \<Rightarrow> 'a shm_sys_scheme \<Rightarrow> ('a shm_sys_scheme \<times> int) outcome option" where
  "ker_sys_shm_open name shm k = or_panic (ker_shm_open (ker_get_current_pid k) name shm k)"

definition ker_sys_shm_update :: "u16 \<Rightarrow> addr \<Rightarrow> 'a shm_sys_scheme \<Rightarrow> ('a shm_sys_scheme \<times> int) outcome option" where
  "ker_sys_shm_update name shm k = or_panic (ker_shm_update (ker_get_current_pid k) name shm k)"

definition ker_sys_shm_close :: "u16 \<Rightarrow> 'a shm_sys_scheme \<Rightarrow> ('a shm_sys_scheme \<times> int) outcome option" where
  "ker_sys_shm_close name k =
     continue (ker_shm_close (ker_get_current_pid k) name k) (\<lambda>(k1, e). Some (if e \<noteq> SOS_OK then Panic else Done (k1, SOS_OK)))"

definition ker_sys_shm_get :: "u16 \<Rightarrow> 'a shm_sys_scheme \<Rightarrow> addr option" where
  "ker_sys_shm_get name k = ker_shm_get (ker_get_current_pid k) name k"

definition ker_sys_shm_wait :: "u16 \<Rightarrow> 'a shm_sys_scheme \<Rightarrow> ('a shm_sys_scheme \<times> int) outcome option" where
  "ker_sys_shm_wait name k = or_panic (ker_shm_wait (ker_get_current_pid k) name k)"

definition ker_sys_shm_stopwait :: "u16 \<Rightarrow> 'a shm_sys_scheme \<Rightarrow> ('a shm_sys_scheme \<times> int) outcome option" where
  "ker_sys_shm_stopwait name k = or_panic (ker_shm_stopwait (ker_get_current_pid k) name k)"

subsection \<open>Initialisation, removal of a module, garbage collection\<close>

text \<open>The inner loop of \<^verbatim>\<open>shm_remove_all\<close>, over one bin.\<close>

partial_function (option) shm_remove_walk ::
    "sos_pid_t \<Rightarrow> nat \<Rightarrow> addr \<Rightarrow> addr \<Rightarrow> 'a shm_sys_scheme \<Rightarrow> 'a shm_sys_scheme outcome option" where
  "shm_remove_walk pid i prv cur k =
     (if cur = NULL then Some (Done k)
      else if shm_owner (shm_cbs k cur) = pid then do {
        let k1 = (if cur = shm_bin k ! i then k\<lparr>shm_bin := (shm_bin k)[i := shm_next (shm_cbs k cur)]\<rparr>
                  else upd_shm prv (\<lambda>c. c\<lparr>shm_next := shm_next (shm_cbs k cur)\<rparr>) k);
        let nxt = shm_next (shm_cbs k1 cur);
        k2 \<leftarrow> shm_send_event cur SHM_CLOSED k1;
        r \<leftarrow> k_slab_free (shm_slab k2) cur k2;
        case r of Panic \<Rightarrow> Some Panic | Done k3 \<Rightarrow> shm_remove_walk pid i prv nxt k3
      }
      else do {
        let k1 = upd_shm cur (\<lambda>c. c\<lparr>waiter := map (\<lambda>w. if w = pid then NULL_PID else w) (waiter c)\<rparr>) k;
        shm_remove_walk pid i cur (shm_next (shm_cbs k1 cur)) k1
      })"

declare shm_remove_walk.simps [code]

fun shm_remove_bins :: "sos_pid_t \<Rightarrow> nat list \<Rightarrow> 'a shm_sys_scheme \<Rightarrow> 'a shm_sys_scheme outcome option" where
  "shm_remove_bins pid [] k = Some (Done k)"
| "shm_remove_bins pid (i # is) k = continue (shm_remove_walk pid i (shm_bin k ! i) (shm_bin k ! i) k) (shm_remove_bins pid is)"

definition shm_remove_all :: "sos_pid_t \<Rightarrow> 'a shm_sys_scheme \<Rightarrow> ('a shm_sys_scheme \<times> int) outcome option" where
  "shm_remove_all pid k = continue (shm_remove_bins pid [0..<SHM_NUM_BINS] k) (\<lambda>k1. Some (Done (k1, SOS_OK)))"

definition shm_init :: "'a shm_sys_scheme \<Rightarrow> ('a shm_sys_scheme \<times> int) option" where
  "shm_init k = do {
     (w, s, r) \<leftarrow> ker_slab_init KER_SHM_PID (shm_slab k) SHM_CB_SIZE 4 SLAB_LONGTERM (smem k);
     Some (k\<lparr>smem := w, shm_bin := replicate SHM_NUM_BINS NULL, shm_slab := s\<rparr>, SOS_OK)
   }"

partial_function (option) shm_mark_walk :: "slab_t \<Rightarrow> (addr \<Rightarrow> shm_cb) \<Rightarrow> addr \<Rightarrow> slab_mem \<Rightarrow> slab_mem option" where
  "shm_mark_walk s cs p w =
     (if p = NULL then Some w
      else do { w1 \<leftarrow> slab_gc_mark s p w; shm_mark_walk s cs (shm_next (cs p)) w1 })"

declare shm_mark_walk.simps [code]

fun shm_mark_bins :: "addr list \<Rightarrow> 'a shm_sys_scheme \<Rightarrow> 'a shm_sys_scheme option" where
  "shm_mark_bins [] k = Some k"
| "shm_mark_bins (p # ps) k = do {
     w \<leftarrow> shm_mark_walk (shm_slab k) (shm_cbs k) p (smem k);
     shm_mark_bins ps (k\<lparr>smem := w\<rparr>)
   }"

definition shm_gc :: "'a shm_sys_scheme \<Rightarrow> 'a shm_sys_scheme option" where
  "shm_gc k = do {
     k1 \<leftarrow> shm_mark_bins (shm_bin k) k;
     w \<leftarrow> slab_gc (shm_slab k1) KER_SHM_PID (smem k1);
     h \<leftarrow> malloc_gc KER_SHM_PID (s_heap w);
     Some (k1\<lparr>smem := w\<lparr>s_heap := h\<rparr>\<rparr>)
   }"

end
