(* ===== verification/Sched.thy ===== *)
theory Sched
  imports Shm
begin

text \<open>
  The scheduler, \<^verbatim>\<open>kernel/sched.c\<close> of the build without preemption and without exception handling: registration and
  removal of modules, the dispatch of a message, one pass of the main loop and the garbage
  collection. The state is now the whole kernel: the record extends the one of all services.
  Handlers of modules (\<open>run\<close>), functions of sensor drivers (\<open>drv\<close>) and real-time clocks (\<open>call\<close>) are parameters.
\<close>

section \<open>Definitions\<close>

text \<open>
  The addresses of static objects: the control blocks and headers of the scheduler and of the sensor interface,
  the array of bins, and the message on the stack of \<^verbatim>\<open>ker_deregister_module\<close>.
\<close>

record sos_sys = shm_sys +
  sched_module :: addr
  sched_header :: addr
  mod_bin_at :: addr
  sensor_module :: addr
  sensor_header :: addr
  final_msg :: addr

definition SOS_CREATE_THREAD :: u8 where "SOS_CREATE_THREAD = 1"
definition MODULE_SIZE :: u8 where "MODULE_SIZE = 8"

definition sched_handler :: "addr \<Rightarrow> 'a msg_sys_scheme \<Rightarrow> int" where
  "sched_handler m k = (if m_type (headers k m) = MSG_INIT then SOS_OK else - EINVAL)"

definition sensor_handler :: "addr \<Rightarrow> 'a msg_sys_scheme \<Rightarrow> int" where
  "sensor_handler m k = - EINVAL"

subsection \<open>Registration\<close>

definition sched_register_module ::
    "addr \<Rightarrow> addr \<Rightarrow> addr \<Rightarrow> u8 \<Rightarrow> 'a sos_sys_scheme \<Rightarrow> ('a sos_sys_scheme \<times> int) outcome option" where
  "sched_register_module h p init init_size k = do {
     let pid = mod_pid (mods k h);
     let bins = hash_pid pid;
     (k1, old) \<leftarrow> ker_get_module pid k;
     if old \<noteq> NULL then Some (Done (k1, - EEXIST))
     else continue
       (if 0 < num_timers (mod_rom k1 p) then timer_preallocate pid (num_timers (mod_rom k1 p)) k1 else Some (Done (k1, SOS_OK)))
       (\<lambda>(k2, r). if r < 0 then Some (Done (k2, - ENOMEM))
          else do {
            (k3, r) \<leftarrow> fntable_link h k2;
            let k4 = upd_mod h (\<lambda>m. m\<lparr>mod_next := mod_bin k3 ! bins\<rparr>) k3;
            let k5 = k4\<lparr>mod_bin := (mod_bin k4)[bins := h]\<rparr>;
            (k6, r) \<leftarrow> post_long (mod_pid (mods k5 h)) KER_SCHED_PID MSG_INIT init_size init (SOS_MSG_RELEASE OR SOS_MSG_SYSTEM_PRIORITY) k5;
            if r \<noteq> SOS_OK then continue (timer_remove_all (mod_pid (mods k6 h)) k6) (\<lambda>(k7, r). Some (Done (k7, - ENOMEM)))
            else Some (Done (k6, SOS_OK))
          })
   }"

definition sched_register_kernel_module ::
    "addr \<Rightarrow> addr \<Rightarrow> addr \<Rightarrow> 'a sos_sys_scheme \<Rightarrow> ('a sos_sys_scheme \<times> int) outcome option" where
  "sched_register_kernel_module handle h state_ptr k =
     (if h = NULL then Some (Done (k, - EINVAL))
      else let pid = mod_id (mod_rom k h)
      in if APP_MOD_MAX_PID < pid then Some (Done (k, - EINVAL))
         else sched_register_module handle h NULL 0
           (upd_mod handle (\<lambda>m. m\<lparr>handler_state := state_ptr, mod_pid := pid, mod_header := h, mod_flag := SOS_KER_STATIC_MODULE, mod_next := NULL\<rparr>) k))"

text \<open>Memory for the state of a module; a module without state has none.\<close>

definition state_alloc :: "u16 \<Rightarrow> sos_pid_t \<Rightarrow> 'a msg_sys_scheme \<Rightarrow> ('a msg_sys_scheme \<times> addr) option" where
  "state_alloc st_size pid k =
     (if st_size \<noteq> 0 then do { (h, p) \<leftarrow> malloc_longterm st_size pid (heap_of k); Some (set_heap h k, p) }
      else Some (k, NULL))"

definition do_register_module ::
    "addr \<Rightarrow> addr \<Rightarrow> addr \<Rightarrow> u8 \<Rightarrow> u8 \<Rightarrow> 'a sos_sys_scheme \<Rightarrow> ('a sos_sys_scheme \<times> int) outcome option" where
  "do_register_module h handle init init_size flag k = do {
     let (k1, pid) = (if flag = SOS_CREATE_THREAD then sched_get_pid_from_pool k else (k, mod_id (mod_rom k h)));
     if flag = SOS_CREATE_THREAD \<and> pid = NULL_PID then Some (Done (k1, - ENOMEM))
     else if flag \<noteq> SOS_CREATE_THREAD \<and> APP_MOD_MAX_PID < pid then Some (Done (k1, - EINVAL))
     else do {
       let st_size = state_size (mod_rom k1 h);
       (k2, st) \<leftarrow> state_alloc st_size pid k1;
       let k3 = upd_mod handle (\<lambda>m. m\<lparr>handler_state := st\<rparr>) k2;
       if st_size \<noteq> 0 \<and> st = NULL then Some (Done (k3, - ENOMEM))
       else do {
         let k4 = upd_mod handle (\<lambda>m. m\<lparr>mod_header := h, mod_pid := pid, mod_flag := 0, mod_next := NULL\<rparr>) k3;
         continue (sched_register_module handle h init init_size k4)
           (\<lambda>(k5, ret). if ret \<noteq> SOS_OK then do { k6 \<leftarrow> k_free (handler_state (mods k5 handle)) k5; Some (Done (k6, ret)) }
              else Some (Done (k5, SOS_OK)))
       }
     }
   }"

definition ker_spawn_module ::
    "addr \<Rightarrow> addr \<Rightarrow> u8 \<Rightarrow> u8 \<Rightarrow> 'a sos_sys_scheme \<Rightarrow> ('a sos_sys_scheme \<times> sos_pid_t) outcome option" where
  "ker_spawn_module h init init_size flag k =
     (if h = NULL then Some (Done (k, NULL_PID))
      else do {
        (k1, handle) \<leftarrow> k_slab_alloc (sched_slab k) KER_SCHED_PID k;
        if handle = NULL then Some (Done (k1, NULL_PID))
        else continue (do_register_module h handle init init_size flag k1)
          (\<lambda>(k2, r). if r \<noteq> SOS_OK then continue (k_slab_free (sched_slab k2) handle k2) (\<lambda>k3. Some (Done (k3, NULL_PID)))
             else Some (Done (k2, mod_pid (mods k2 handle))))
      })"

definition ker_register_module :: "addr \<Rightarrow> 'a sos_sys_scheme \<Rightarrow> ('a sos_sys_scheme \<times> int) outcome option" where
  "ker_register_module h k =
     (if h = NULL then Some (Done (k, - EINVAL))
      else do {
        (k1, handle) \<leftarrow> k_slab_alloc (sched_slab k) KER_SCHED_PID k;
        if handle = NULL then Some (Done (k1, - ENOMEM))
        else continue (do_register_module h handle NULL 0 0 k1)
          (\<lambda>(k2, ret). if ret \<noteq> SOS_OK then continue (k_slab_free (sched_slab k2) handle k2) (\<lambda>k3. Some (Done (k3, ret)))
             else Some (Done (k2, ret)))
      })"

subsection \<open>Removal\<close>

text \<open>The last message to a module, which lies on the stack: fields that are not assigned keep what is there.\<close>

definition send_final ::
    "'a sos_sys_scheme handler \<Rightarrow> addr \<Rightarrow> 'a sos_sys_scheme \<Rightarrow> 'a sos_sys_scheme outcome option" where
  "send_final run handle k =
     (let h = mods k handle; f = module_handler (mod_rom k (mod_header h)) in
      if f \<noteq> NULL then
        continue (run f (handler_state h) (final_msg k)
            (upd_msg (final_msg k) (\<lambda>x. x\<lparr>m_did := mod_pid h, m_sid := KER_SCHED_PID, m_type := MSG_FINAL, m_len := 0, m_data := NULL, m_flag := 0\<rparr>)
              (k\<lparr>curr_pid := mod_pid h\<rparr>)))
          (\<lambda>(k1, r). Some (Done (k1\<lparr>curr_pid := curr_pid k\<rparr>)))
      else Some (Done k))"

definition unlink_module :: "addr \<Rightarrow> addr \<Rightarrow> nat \<Rightarrow> 'a mod_sys_scheme \<Rightarrow> 'a mod_sys_scheme" where
  "unlink_module handle prv bins k =
     (if prv = NULL then k\<lparr>mod_bin := (mod_bin k)[bins := mod_next (mods k handle)]\<rparr>
      else upd_mod prv (\<lambda>m. m\<lparr>mod_next := mod_next (mods k handle)\<rparr>) k)"

text \<open>The system services of a module are removed, then its control block and its memory.\<close>

definition remove_services ::
    "'a sos_sys_scheme drivers \<Rightarrow> sos_pid_t \<Rightarrow> addr \<Rightarrow> 'a sos_sys_scheme \<Rightarrow> 'a sos_sys_scheme outcome option" where
  "remove_services drv pid handle k =
     continue (timer_remove_all pid k) (\<lambda>(k1, r).
     continue (sensor_remove_all drv pid k1) (\<lambda>(k2, r). do {
       (k3, r) \<leftarrow> ker_timestamp_deregister pid k2;
       k4 \<leftarrow> monitor_remove_all pid k3;
       (k5, r) \<leftarrow> fntable_remove_all handle k4;
       Some (Done k5)
     }))"

definition remove_memory :: "sos_pid_t \<Rightarrow> addr \<Rightarrow> 'a sos_sys_scheme \<Rightarrow> 'a sos_sys_scheme outcome option" where
  "remove_memory pid handle k =
     continue (if SOS_KER_STATIC_MODULE AND mod_flag (mods k handle) = 0 then k_slab_free (sched_slab k) handle k else Some (Done k))
       (\<lambda>k1. do { (h, r) \<leftarrow> mem_remove_all pid (heap_of k1); Some (Done (set_heap h k1)) })"

definition ker_deregister_module ::
    "'a sos_sys_scheme handler \<Rightarrow> 'a sos_sys_scheme drivers \<Rightarrow> sos_pid_t \<Rightarrow> 'a sos_sys_scheme \<Rightarrow> ('a sos_sys_scheme \<times> int) outcome option" where
  "ker_deregister_module run drv pid k = do {
     let bins = hash_pid pid;
     (handle, prv) \<leftarrow> chain_find (\<lambda>h. mod_pid (mods k h) = pid) (nx_of (mods k)) (mod_bin k ! bins) NULL;
     if handle = NULL then Some (Done (k, - EINVAL))
     else continue (send_final run handle k) (\<lambda>k1.
       let k2 = unlink_module handle prv bins k1;
           k3 = k2\<lparr>pid_pool := pool_release (mod_pid (mods k2 handle)) (pid_pool k2)\<rparr>
       in continue (remove_services drv pid handle k3) (\<lambda>k4.
          continue (remove_memory pid handle k4) (\<lambda>k5. Some (Done (k5, 0)))))
   }"

partial_function (option) kill_chain ::
    "'a sos_sys_scheme handler \<Rightarrow> 'a sos_sys_scheme drivers \<Rightarrow> u16 \<Rightarrow> addr \<Rightarrow> 'a sos_sys_scheme \<Rightarrow> 'a sos_sys_scheme outcome option" where
  "kill_chain run drv code handle k =
     (if handle = NULL then Some (Done k)
      else if code_id (mod_rom k (mod_header (mods k handle))) = code then do {
        r \<leftarrow> ker_deregister_module run drv (mod_pid (mods k handle)) k;
        case r of Panic \<Rightarrow> Some Panic | Done (k1, e) \<Rightarrow> kill_chain run drv code (mod_next (mods k handle)) k1
      }
      else kill_chain run drv code (mod_next (mods k handle)) k)"

declare kill_chain.simps [code]

fun kill_bins ::
    "'a sos_sys_scheme handler \<Rightarrow> 'a sos_sys_scheme drivers \<Rightarrow> u16 \<Rightarrow> nat list \<Rightarrow> 'a sos_sys_scheme \<Rightarrow> 'a sos_sys_scheme outcome option" where
  "kill_bins run drv code [] k = Some (Done k)"
| "kill_bins run drv code (i # is) k = continue (kill_chain run drv code (mod_bin k ! i) k) (kill_bins run drv code is)"

definition ker_killall ::
    "'a sos_sys_scheme handler \<Rightarrow> 'a sos_sys_scheme drivers \<Rightarrow> u16 \<Rightarrow> 'a sos_sys_scheme \<Rightarrow> 'a sos_sys_scheme outcome option" where
  "ker_killall run drv code k = kill_bins run drv code [0..<SCHED_NUMBER_BINS] k"

subsection \<open>Dispatch\<close>

text \<open>
  The handler of the destination on the message \<open>e\<close>; the result is the flag for a reply to the sender.
\<close>

definition deliver ::
    "'a sos_sys_scheme handler \<Rightarrow> addr \<Rightarrow> addr \<Rightarrow> 'a sos_sys_scheme \<Rightarrow> ('a sos_sys_scheme \<times> u16) outcome option" where
  "deliver run handle e k =
     (if handle \<noteq> NULL \<and> \<not> sched_message_filtered handle e k then do {
        let f = module_handler (mod_rom k (mod_header (mods k handle)));
        let st = handler_state (mods k handle);
        k1 \<leftarrow> (if flag_msg_release (m_flag (headers k e)) then k_change_own (m_data (headers k e)) (m_did (headers k e)) k else Some k);
        continue (run f st e (k1\<lparr>curr_pid := mod_pid (mods k1 handle)\<rparr>))
          (\<lambda>(k2, ret). Some (Done (k2, if ret = SOS_OK then 0 else SOS_MSG_SEND_FAIL)))
      } else Some (Done (k, SOS_MSG_SEND_FAIL)))"

text \<open>
  After the delivery: a \<open>MSG_PKT_SENDDONE\<close> is disposed of with the message it carries, a reliable message goes back
  to its sender, every other message is disposed of.
\<close>

definition end_delivery :: "addr \<Rightarrow> addr \<Rightarrow> sos_pid_t \<Rightarrow> u16 \<Rightarrow> 'a sos_sys_scheme \<Rightarrow> 'a sos_sys_scheme outcome option" where
  "end_delivery e inner dst flag k =
     (if inner \<noteq> NULL then continue (msg_dispose inner k) (msg_dispose e)
      else if dst \<noteq> NULL_PID then do {
        (k1, r) \<leftarrow> post_long dst KER_SCHED_PID MSG_PKT_SENDDONE (of_nat MESSAGE_SIZE) e flag k;
        if r < 0 then msg_dispose e k1 else Some (Done k1)
      }
      else msg_dispose e k)"

definition do_dispatch :: "'a sos_sys_scheme handler \<Rightarrow> 'a sos_sys_scheme \<Rightarrow> 'a sos_sys_scheme outcome option" where
  "do_dispatch run k =
     (let (q, e) = mq_dequeue (schedpq k) (headers k); k0 = k\<lparr>schedpq := q\<rparr>
      in if e = NULL then Some (Done k0)
         else do {
           (k1, handle) \<leftarrow> ker_get_module (m_did (headers k0 e)) k0;
           let inner = (if m_type (headers k1 e) = MSG_PKT_SENDDONE then m_data (headers k1 e) else NULL);
           let dst = (if flag_msg_reliable (m_flag (headers k1 e)) then m_sid (headers k1 e) else NULL_PID);
           continue (monitor_deliver_incoming_msg_to_monitor run e k1) (\<lambda>k2.
           continue (deliver run handle e k2) (\<lambda>(k3, flag). end_delivery e inner dst flag k3))
         })"

subsection \<open>The main loop\<close>

text \<open>A soft interrupt is the one of the timers or a function of a driver.\<close>

definition soft_call ::
    "'a timer_sys_scheme handler \<Rightarrow> 'a timer_sys_scheme callbacks \<Rightarrow> 'a timer_sys_scheme callbacks" where
  "soft_call run call f k = (if f = SOFT_INTERRUPT then soft_interrupt run call k else call f k)"

text \<open>One pass of the loop of \<^verbatim>\<open>sched\<close>; with nothing to do the processor sleeps.\<close>

definition sched_pass ::
    "'a sos_sys_scheme handler \<Rightarrow> 'a sos_sys_scheme callbacks \<Rightarrow> 'a sos_sys_scheme \<Rightarrow> 'a sos_sys_scheme outcome option" where
  "sched_pass run call k =
     (if int_ready k \<noteq> 0 then (if sched_stalled k then Some (Done k) else handle_callback (soft_call run call) k)
      else if msg_cnt (schedpq k) \<noteq> 0 then (if sched_stalled k then Some (Done k) else do_dispatch run k)
      else Some (Done k))"

text \<open>The loop never ends; these are its first \<open>n\<close> passes.\<close>

fun sched_passes ::
    "'a sos_sys_scheme handler \<Rightarrow> 'a sos_sys_scheme callbacks \<Rightarrow> nat \<Rightarrow> 'a sos_sys_scheme \<Rightarrow> 'a sos_sys_scheme outcome option" where
  "sched_passes run call 0 k = Some (Done k)"
| "sched_passes run call (Suc n) k = continue (sched_pass run call k) (sched_passes run call n)"

subsection \<open>Initialisation and garbage collection\<close>

definition sched_init :: "'a sos_sys_scheme \<Rightarrow> 'a sos_sys_scheme outcome option" where
  "sched_init k =
     (let k1 = k\<lparr>schedpq := mq_init, mod_bin := replicate SCHED_NUMBER_BINS NULL, pid_pool := replicate SCHED_PID_SLOTS 0, pid_sp := 0\<rparr>;
          k2 = upd_msg (short_msg k1) (\<lambda>x. x\<lparr>m_data := short_msg k1 + PAYLOAD_OFFSET, m_daddr := node_address k1,
                                            m_saddr := node_address k1, m_len := 3\<rparr>) k1
      in continue (sched_register_kernel_module (sched_module k2) (sched_header k2) (mod_bin_at k2) k2) (\<lambda>(k3, r). do {
           let k4 = k3\<lparr>sched_stalled := False, int_array := replicate SCHED_NUM_INTS NULL\<rparr>;
           (w, s, r) \<leftarrow> ker_slab_init KER_SCHED_PID (sched_slab k4) MODULE_SIZE 4 SLAB_LONGTERM (smem k4);
           Some (Done (k4\<lparr>smem := w, sched_slab := s\<rparr>))
         }))"

definition sensor_init :: "'a sos_sys_scheme \<Rightarrow> ('a sos_sys_scheme \<times> int) outcome option" where
  "sensor_init k =
     continue (sched_register_kernel_module (sensor_module k) (sensor_header k) (sensor_func_ptr k) (sensor_init_states k))
       (\<lambda>(k1, r). Some (Done (k1, SOS_OK)))"

partial_function (option) sched_mark_walk :: "slab_t \<Rightarrow> (addr \<Rightarrow> sos_module_t) \<Rightarrow> addr \<Rightarrow> slab_mem \<Rightarrow> slab_mem option" where
  "sched_mark_walk s ms p w =
     (if p = NULL then Some w
      else do { w1 \<leftarrow> slab_gc_mark s p w; sched_mark_walk s ms (mod_next (ms p)) w1 })"

declare sched_mark_walk.simps [code]

fun sched_mark_bins :: "addr list \<Rightarrow> 'a mod_sys_scheme \<Rightarrow> 'a mod_sys_scheme option" where
  "sched_mark_bins [] k = Some k"
| "sched_mark_bins (p # ps) k = do {
     w \<leftarrow> sched_mark_walk (sched_slab k) (mods k) p (smem k);
     sched_mark_bins ps (k\<lparr>smem := w\<rparr>)
   }"

definition sched_gc :: "'a mod_sys_scheme \<Rightarrow> 'a mod_sys_scheme option" where
  "sched_gc k = do {
     k1 \<leftarrow> mq_gc_mark_payload (schedpq k) KER_SCHED_PID k;
     k2 \<leftarrow> sched_mark_bins (mod_bin k1) k1;
     w \<leftarrow> slab_gc (sched_slab k2) KER_SCHED_PID (smem k2);
     h \<leftarrow> malloc_gc KER_SCHED_PID (s_heap w);
     Some (k2\<lparr>smem := w\<lparr>s_heap := h\<rparr>\<rparr>)
   }"

end
