(* ===== verification/Shm_Correct.thy ===== *)
theory Shm_Correct
  imports Shm Message_Frames
begin

text \<open>
  The shared memory service as a map from names to memory, owner and waiters. The hash table is the second
  instance of the table of singly linked lists; its control blocks come from a slab.
\<close>

section \<open>The map\<close>

lemma hash_bin_less: "hash_bin name < SHM_NUM_BINS"
  by (simp add: hash_bin_def SHM_NUM_BINS_def)

interpretation shm_bins: chained_hash hash_bin SHM_NUM_BINS
  by unfold_locales (rule hash_bin_less)

definition shm_table :: "(addr \<Rightarrow> shm_cb) \<Rightarrow> addr list \<Rightarrow> addr list list \<Rightarrow> bool" where
  "shm_table cs bin bs \<longleftrightarrow> chains (shm_nx cs) (\<lambda>p. shm_name (cs p)) hash_bin SHM_NUM_BINS bin bs"

definition shm_map :: "(addr \<Rightarrow> shm_cb) \<Rightarrow> addr list list \<Rightarrow> u16 \<rightharpoonup> addr \<times> sos_pid_t \<times> sos_pid_t list" where
  "shm_map cs bs name = map_option (\<lambda>p. (shm_mem (cs p), shm_owner (cs p), waiter (cs p))) (members (\<lambda>p. shm_name (cs p)) bs name)"

definition shm_inv :: "'a shm_sys_scheme \<Rightarrow> addr list \<Rightarrow> addr list list \<Rightarrow> bool" where
  "shm_inv k qs bs \<longleftrightarrow> shm_table (shm_cbs k) (shm_bin k) bs \<and> slab_inv (shm_slab k) qs (smem k) \<and>
     set (concat bs) \<subseteq> slab_used (shm_slab k) qs (smem k)"

lemma shm_lookup_law:
  assumes "shm_table (shm_cbs k) (shm_bin k) bs"
  shows "shm_lookup name k = Some (node_of (members (\<lambda>p. shm_name (shm_cbs k p)) bs name))"
  unfolding shm_lookup_def name_to_bin_def by (rule shm_bins.search_members) (use assms in \<open>simp add: shm_table_def\<close>)

lemma member_nonnull:
  assumes "shm_table cs bin bs" "members (\<lambda>p. shm_name (cs p)) bs name = Some p"
  shows "p \<noteq> NULL" "p \<in> set (concat bs)"
  using assms shm_bins.members_iff [of "shm_nx cs" "\<lambda>p. shm_name (cs p)" bin bs name p]
    shm_bins.member_bin(2) [of "shm_nx cs" "\<lambda>p. shm_name (cs p)" bin bs p] by (simp_all add: shm_table_def)

lemma shm_get_law:
  assumes "shm_table (shm_cbs k) (shm_bin k) bs"
  shows "ker_shm_get pid name k = Some (case shm_map (shm_cbs k) bs name of Some (m, own, ws) \<Rightarrow> m | None \<Rightarrow> NULL)"
  using member_nonnull(1) [OF assms, of name] shm_lookup_law [OF assms, of name]
  by (cases "members (\<lambda>p. shm_name (shm_cbs k p)) bs name") (auto simp: ker_shm_get_def shm_map_def)

text \<open>A fresh control block at the head of its list.\<close>

lemma shm_push:
  assumes "shm_table cs bin bs" "p \<noteq> NULL" "p \<notin> set (concat bs)" "members (\<lambda>p. shm_name (cs p)) bs (shm_name c) = None"
    "shm_next c = bin ! hash_bin (shm_name c)"
  defines "bs' \<equiv> bs[hash_bin (shm_name c) := p # bs ! hash_bin (shm_name c)]"
  shows "shm_table (cs(p := c)) (bin[hash_bin (shm_name c) := p]) bs'"
    "shm_map (cs(p := c)) bs' = (shm_map cs bs)(shm_name c \<mapsto> (shm_mem c, shm_owner c, waiter c))"
proof -
  let ?cs = "cs(p := c)" and ?key = "\<lambda>q. shm_name ((cs(p := c)) q)"
  have same: "\<forall>h \<in> set (concat bs). shm_nx ?cs h = shm_nx cs h \<and> ?key h = shm_name (cs h)"
    using assms(3) by (auto simp: shm_nx_def simp del: set_concat)
  note c = shm_bins.chains_cong [OF assms(1) [unfolded shm_table_def] same]
  have nx: "shm_nx ?cs p = bin ! hash_bin (?key p)"
    using assms(5) by (simp add: shm_nx_def)
  have none: "members ?key bs (?key p) = None"
    using assms(4) c(2) by simp
  note push = shm_bins.chains_push [OF c(1) assms(2,3) nx none]
  show "shm_table ?cs (bin[hash_bin (shm_name c) := p]) bs'"
    using push(1) by (simp add: shm_table_def fun_upd_def bs'_def)
  have mem: "members ?key bs' = (members (\<lambda>q. shm_name (cs q)) bs)(shm_name c \<mapsto> p)"
    using push(2) c(2) by (simp add: bs'_def)
  have "q \<noteq> p" if "members (\<lambda>q. shm_name (cs q)) bs name = Some q" for q name
    using member_nonnull(2) [OF assms(1) that] assms(3) by (auto simp del: set_concat)
  then show "shm_map ?cs bs' = (shm_map cs bs)(shm_name c \<mapsto> (shm_mem c, shm_owner c, waiter c))"
    unfolding shm_map_def mem by (intro ext) (auto simp: option.map_comp intro!: option.map_cong)
qed

text \<open>The branches of \<^verbatim>\<open>ker_shm_open\<close>: the name is in use, there is no control block, the name is bound.\<close>

lemma shm_open_taken:
  assumes "shm_table (shm_cbs k) (shm_bin k) bs" "shm_map (shm_cbs k) bs name \<noteq> None"
  shows "ker_shm_open pid name shm k = Some (k, - EEXIST)"
  using assms(2) shm_lookup_law [OF assms(1), of name] member_nonnull(1) [OF assms(1), of name]
  by (auto simp: shm_map_def ker_shm_open_def)

lemma shm_open_full:
  assumes "shm_inv k qs bs" "shm_map (shm_cbs k) bs name = None" "ker_slab_alloc (shm_slab k) KER_SHM_PID (smem k) = Some (w, NULL)"
    "slab_inv (shm_slab k) qs w" "slab_used (shm_slab k) qs w = slab_used (shm_slab k) qs (smem k)"
  shows "ker_shm_open pid name shm k = Some (k\<lparr>smem := w\<rparr>, - ENOMEM)" "shm_inv (k\<lparr>smem := w\<rparr>) qs bs"
  using assms shm_lookup_law [of k bs name] by (simp_all add: shm_inv_def shm_map_def ker_shm_open_def k_slab_alloc_def)

lemma shm_open_new:
  assumes "shm_inv k qs bs" "shm_map (shm_cbs k) bs name = None" "ker_slab_alloc (shm_slab k) KER_SHM_PID (smem k) = Some (w, cb)"
    "cb \<noteq> NULL" "slab_inv (shm_slab k) qs' w" "cb \<notin> slab_used (shm_slab k) qs (smem k)"
    "slab_used (shm_slab k) qs' w = insert cb (slab_used (shm_slab k) qs (smem k))"
  shows "\<exists>k' bs'. ker_shm_open pid name shm k = Some (k', SOS_OK) \<and> shm_inv k' qs' bs' \<and>
    shm_map (shm_cbs k') bs' = (shm_map (shm_cbs k) bs)(name \<mapsto> (shm, pid, [NULL_PID, NULL_PID]))"
proof -
  let ?c = "\<lparr>shm_name = name, shm_mem = shm, shm_owner = pid, waiter = [NULL_PID, NULL_PID], shm_next = shm_bin k ! hash_bin name\<rparr>"
  let ?k = "k\<lparr>smem := w, shm_cbs := (shm_cbs k)(cb := ?c), shm_bin := (shm_bin k)[hash_bin name := cb]\<rparr>"
  let ?bs = "bs[hash_bin name := cb # bs ! hash_bin name]"
  have inv: "shm_table (shm_cbs k) (shm_bin k) bs" "set (concat bs) \<subseteq> slab_used (shm_slab k) qs (smem k)"
    using assms(1) by (simp_all add: shm_inv_def)
  have none: "members (\<lambda>p. shm_name (shm_cbs k p)) bs name = None"
    using assms(2) by (simp add: shm_map_def)
  have cb: "cb \<notin> set (concat bs)"
    using assms(6) inv(2) by auto
  have "ker_shm_open pid name shm k = Some (?k, SOS_OK)"
    using shm_lookup_law [OF inv(1), of name] none assms(3,4)
    by (simp add: ker_shm_open_def k_slab_alloc_def upd_shm_def name_to_bin_def SHM_NUM_WAITER_def numeral_2_eq_2)
  moreover note push = shm_push [OF inv(1) assms(4) cb, of ?c, simplified, OF none]
  moreover have "set (concat ?bs) \<subseteq> insert cb (set (concat bs))"
    using inv(1) hash_bin_less [of name] concat_split [of "hash_bin name" bs] concat_update [of "hash_bin name" bs]
    by (auto simp: shm_table_def chains_def)
  ultimately show ?thesis
    using inv(2) assms(5,7) by (intro exI [of _ ?k]) (rule exI [of _ ?bs], auto simp: shm_inv_def simp del: set_concat)
qed

section \<open>A concrete state\<close>

definition demo_shm :: "heap \<Rightarrow> 'a \<Rightarrow> 'a shm_sys_scheme" where
  "demo_shm h x = (demo_sys h \<lparr>timers = (\<lambda>_. \<lparr>t_type = 0, t_pid = 0, t_tid = 0, t_ticks = 0, t_delta = 0, t_flag = 0\<rparr>),
     deltaq = [], timer_pool = [], prealloc_timer_pool = [], periodic_pool = [], outstanding_ticks = 0, num_realtime_clock = 0, realtime = [],
     timer_slab = \<lparr>slab_head = NULL, num_items_per_pool = 4, empty_vector = 15, item_size = 16, slab_flag = 0x80\<rparr>, TCNT0 = 0, OCR0 = 249,
     mon_cbs = (\<lambda>_. \<lparr>mon_type = 0, mod_handle = NULL, mon_next = NULL\<rparr>), cb_list = NULL, sensor_st = [], sensor_func_ptr = NULL,
     ts_owner = NULL, ts_svcs = (\<lambda>_. \<lparr>ts_pid = 0, num_rec = 0, next_rec = 0, ts_recs = []\<rparr>), bTimeStampEnable = False,
     shm_cbs = (\<lambda>_. \<lparr>shm_name = 0, shm_mem = NULL, shm_owner = NULL_PID, waiter = [NULL_PID, NULL_PID], shm_next = NULL\<rparr>),
     shm_bin = [NULL, NULL, NULL, NULL], shm_slab = small_slab h, \<dots> = x\<rparr>)\<lparr>smem := small_slab_mem h 0\<rparr>"

lemma demo_shm_inv:
  assumes "rep h [Used 3 130 130 False, Free 8]"
  shows "shm_inv (demo_shm h x) [user_part h 0] [[], [], [], []]" "shm_map (shm_cbs (demo_shm h x)) [[], [], [], []] = Map.empty"
proof -
  have "slab_inv (small_slab h) [user_part h 0] (small_slab_mem h 0)"
    by (rule small_slab_inv [OF assms]) simp
  then show "shm_inv (demo_shm h x) [user_part h 0] [[], [], [], []]"
    by (auto simp: shm_inv_def shm_table_def chains_def demo_shm_def SHM_NUM_BINS_def demo_sys_def less_Suc_eq numeral_eq_Suc)
  show "shm_map (shm_cbs (demo_shm h x)) [[], [], [], []] = Map.empty"
    by (simp add: shm_map_def members_def fun_eq_iff)
qed

section \<open>Properties\<close>

text \<open>
  C18. Opening shared memory is an insertion into the map of names: \<^verbatim>\<open>ker_shm_open\<close> refuses a name that is in use and
  changes nothing then; otherwise the name is bound to the memory and its owner with no waiters, and all other names
  are bound as before, or there is no memory for a control block and the map does not change. \<^verbatim>\<open>ker_shm_get\<close>
  is the look-up in the resulting map, for every name.
\<close>

theorem ker_shm_open_correct:
  assumes "shm_inv k qs bs"
  shows "\<exists>k' r qs' bs'. ker_shm_open pid name shm k = Some (k', r) \<and> shm_inv k' qs' bs' \<and>
    (if shm_map (shm_cbs k) bs name \<noteq> None then r = - EEXIST \<and> k' = k \<and> bs' = bs
     else if r = SOS_OK then shm_map (shm_cbs k') bs' = (shm_map (shm_cbs k) bs)(name \<mapsto> (shm, pid, [NULL_PID, NULL_PID]))
     else r = - ENOMEM \<and> shm_map (shm_cbs k') bs' = shm_map (shm_cbs k) bs \<and>
       (\<forall>p \<in> set qs. alloc_vec (s_items (smem k) p) = empty_vector (shm_slab k))) \<and>
    (\<forall>q n. ker_shm_get q n k' = Some (case shm_map (shm_cbs k') bs' n of Some (m, own, ws) \<Rightarrow> m | None \<Rightarrow> NULL))"
proof (cases "shm_map (shm_cbs k) bs name")
  case (Some e)
  then show ?thesis
    using assms shm_open_taken [of k bs name pid shm] shm_get_law [of k bs]
    by (intro exI [of _ k] exI [of _ "- EEXIST"] exI [of _ qs]) (rule exI [of _ bs], simp add: shm_inv_def)
next
  case None
  have inv: "slab_inv (shm_slab k) qs (smem k)"
    using assms by (simp add: shm_inv_def)
  from slab_alloc_law [OF inv, of KER_SHM_PID] obtain w cb qs' where a: "ker_slab_alloc (shm_slab k) KER_SHM_PID (smem k) = Some (w, cb)"
    "slab_inv (shm_slab k) qs' w"
    "if cb = NULL then qs' = qs \<and> slab_used (shm_slab k) qs w = slab_used (shm_slab k) qs (smem k) \<and>
       (\<forall>p \<in> set qs. alloc_vec (s_items (smem k) p) = empty_vector (shm_slab k))
     else cb \<notin> slab_used (shm_slab k) qs (smem k) \<and> slab_used (shm_slab k) qs' w = insert cb (slab_used (shm_slab k) qs (smem k))"
    by (elim exE conjE) (rule that, assumption, assumption, simp add: slab_full_def split: if_splits)
  show ?thesis
  proof (cases "cb = NULL")
    case True
    then show ?thesis
      using shm_open_full [OF assms None, of w] a None shm_get_law [of "k\<lparr>smem := w\<rparr>" bs]
      by (intro exI [of _ "k\<lparr>smem := w\<rparr>"] exI [of _ "- ENOMEM"] exI [of _ qs]) (rule exI [of _ bs], simp add: errno_defs shm_inv_def)
  next
    case False
    then obtain k' bs' where "ker_shm_open pid name shm k = Some (k', SOS_OK)" "shm_inv k' qs' bs'"
      "shm_map (shm_cbs k') bs' = (shm_map (shm_cbs k) bs)(name \<mapsto> (shm, pid, [NULL_PID, NULL_PID]))"
      using shm_open_new [OF assms None a(1) _ a(2), of pid shm] a(3) by auto
    then show ?thesis
      using None shm_get_law [of k' bs']
      by (intro exI [of _ k'] exI [of _ SOS_OK] exI [of _ qs']) (rule exI [of _ bs'], simp add: shm_inv_def)
  qed
qed

theorem ker_shm_open_correct_witness:
  "\<exists>h k' bs'. ker_shm_open 130 0x8201 500 (demo_shm h ()) = Some (k', SOS_OK) \<and>
     shm_map (shm_cbs k') bs' = [0x8201 \<mapsto> (500, 130, [NULL_PID, NULL_PID])] \<and> ker_shm_get 131 0x8201 k' = Some 500"
proof -
  obtain h where h: "rep h [Used 3 130 130 False, Free 8]" using small_heap_used by blast
  have room: "alloc_vec (s_items (smem (demo_shm h ())) (user_part h 0)) \<noteq> empty_vector (shm_slab (demo_shm h ()))"
    by (simp add: demo_shm_def demo_sys_def small_slab_def small_slab_mem_def)
  from ker_shm_open_correct [OF demo_shm_inv(1) [OF h, of "()"], where pid = 130 and name = "0x8201" and shm = 500]
  obtain k' r bs' where r: "ker_shm_open 130 0x8201 500 (demo_shm h ()) = Some (k', r)"
    "if r = SOS_OK then shm_map (shm_cbs k') bs' = [0x8201 \<mapsto> (500, 130, [NULL_PID, NULL_PID])]
     else alloc_vec (s_items (smem (demo_shm h ())) (user_part h 0)) = empty_vector (shm_slab (demo_shm h ()))"
    "ker_shm_get 131 0x8201 k' = Some (case shm_map (shm_cbs k') bs' 0x8201 of Some (m, own, ws) \<Rightarrow> m | None \<Rightarrow> NULL)"
    unfolding demo_shm_inv(2) [OF h] by (elim exE conjE) (rule that, assumption, simp split: if_splits, blast)
  with room show ?thesis
    by (intro exI [of _ h] exI [of _ k']) (rule exI [of _ bs'], simp split: if_splits)
qed

end
