(* ===== verification/Sched_Correct.thy ===== *)
theory Sched_Correct
  imports Sched Shm_Correct
begin

text \<open>
  The dispatch of messages. An invariant of the whole message traffic is kept by every dispatch, whatever
  messages the handlers send; handlers that only observe see every queued message exactly once.
\<close>

section \<open>The invariant of the message traffic\<close>

text \<open>
  A queued \<open>MSG_PKT_SENDDONE\<close> carries a message that nothing else refers to. The messages \<open>H\<close> are being delivered: they are
  in use, not queued, and carried by no queued message.
\<close>

definition senddones :: "'a msg_sys_scheme \<Rightarrow> addr list \<Rightarrow> addr set" where
  "senddones k xs = {x \<in> set xs. m_type (headers k x) = MSG_PKT_SENDDONE}"

definition traffic :: "'a msg_sys_scheme \<Rightarrow> addr set \<Rightarrow> addr set \<Rightarrow> addr list \<Rightarrow> bool" where
  "traffic k H L xs \<longleftrightarrow> (\<exists>ps. mq_inv k ps L xs) \<and> H \<subseteq> L - set xs \<and>
     inj_on (\<lambda>x. m_data (headers k x)) (senddones k xs) \<and> (\<lambda>x. m_data (headers k x)) ` senddones k xs \<subseteq> L - set xs - H"

text \<open>With it the lists the dispatcher follows: the bins of the module table and the list of the monitors.\<close>

definition kern_inv :: "'a mon_sys_scheme \<Rightarrow> addr set \<Rightarrow> addr set \<Rightarrow> addr list \<Rightarrow> bool" where
  "kern_inv k H L xs \<longleftrightarrow> traffic k H L xs \<and> (\<exists>bs. bins_ok (mods k) (mod_bin k) bs) \<and>
     (\<exists>cs. path (\<lambda>c. mon_next (mon_cbs k c)) (cb_list k) cs NULL)"

text \<open>
  What a handler has to keep: it returns, keeps the invariant while the messages \<open>H\<close> are being delivered, and leaves the list of
  monitors alone. It may post and take messages, and register and remove modules.
\<close>

definition handler_ok :: "'a mon_sys_scheme handler \<Rightarrow> bool" where
  "handler_ok run \<longleftrightarrow> (\<forall>f st m k H L xs. kern_inv k H L xs \<and> m \<in> H \<longrightarrow>
     (\<exists>k' ret L' xs'. run f st m k = Some (Done (k', ret)) \<and> kern_inv k' H L' xs' \<and> mon_cbs k' = mon_cbs k \<and> cb_list k' = cb_list k))"

lemma handler_okD:
  assumes "handler_ok run" "m \<in> H" "kern_inv k H L xs"
  shows "\<exists>k' ret L' xs'. run f st m k = Some (Done (k', ret)) \<and> kern_inv k' H L' xs' \<and> mon_cbs k' = mon_cbs k \<and> cb_list k' = cb_list k"
  using assms unfolding handler_ok_def by blast

lemma used_nonnull: "x \<in> slab_used s ps w \<Longrightarrow> x \<noteq> NULL"
  by (auto simp: slab_used_def slot_addr_def item_mem_def SLAB_ITEM_HDR_def)

lemma mq_inv_nonnull: "mq_inv k ps L xs \<Longrightarrow> x \<in> L \<Longrightarrow> x \<noteq> NULL"
  using used_nonnull by (auto simp: mq_inv_def msgs_inv_def)

lemma more_monitors:
  fixes k :: "'a mon_sys_scheme"
  assumes "msg_sys.more k' = msg_sys.more k"
  shows "mon_cbs k' = mon_cbs k" "cb_list k' = cb_list k"
  using assms by (cases k; cases k'; simp)+

lemma kern_inv_frame:
  assumes "kern_inv k H L xs" "traffic k' H' L' xs'" "msg_sys.more k' = msg_sys.more k"
  shows "kern_inv k' H' L' xs'"
  using assms more_fields(1,2) [OF assms(3)] more_monitors [OF assms(3)] by (simp add: kern_inv_def)

lemma mq_inv_cong:
  assumes "smem k' = smem k" "msg_slab k' = msg_slab k" "headers k' = headers k" "schedpq k' = schedpq k"
  shows "mq_inv k' ps L xs = mq_inv k ps L xs"
  using assms by (simp add: mq_inv_def msgs_inv_def payloads_ok_def releases_def)

lemma traffic_cong:
  assumes "smem k' = smem k" "msg_slab k' = msg_slab k" "headers k' = headers k" "schedpq k' = schedpq k"
  shows "traffic k' H L xs = traffic k H L xs"
  using assms mq_inv_cong [OF assms] by (simp add: traffic_def senddones_def)

lemma kern_inv_update [simp]:
  "kern_inv (k\<lparr>mod_cache := c\<rparr>) H L xs = kern_inv k H L xs" "kern_inv (k\<lparr>curr_pid := p\<rparr>) H L xs = kern_inv k H L xs"
  using traffic_cong [of "k\<lparr>mod_cache := c\<rparr>" k H L xs] traffic_cong [of "k\<lparr>curr_pid := p\<rparr>" k H L xs] by (simp_all add: kern_inv_def)

lemma handler_ok_pid:
  assumes "handler_ok run" "m \<in> H" "kern_inv k H L xs"
  shows "\<exists>k' ret L' xs'. run f st m (k\<lparr>curr_pid := p\<rparr>) = Some (Done (k', ret)) \<and> kern_inv k' H L' xs' \<and> mon_cbs k' = mon_cbs k"
  using handler_okD [OF assms(1,2), of "k\<lparr>curr_pid := p\<rparr>" L xs f st] assms(3) by auto

section \<open>The steps of a dispatch\<close>

lemma dequeue_traffic:
  assumes "kern_inv k {} L (x # xs)"
  shows "\<exists>q. mq_dequeue (schedpq k) (headers k) = (q, x) \<and> x \<noteq> NULL \<and>
    (if m_type (headers k x) = MSG_PKT_SENDDONE then m_data (headers k x) \<noteq> NULL \<and> m_data (headers k x) \<noteq> x \<and>
       kern_inv (k\<lparr>schedpq := q\<rparr>) {x, m_data (headers k x)} L xs
     else kern_inv (k\<lparr>schedpq := q\<rparr>) {x} L xs)"
proof -
  obtain ps where inv: "mq_inv k ps L (x # xs)"
    using assms by (auto simp: kern_inv_def traffic_def)
  obtain q y where d: "mq_dequeue (schedpq k) (headers k) = (q, y)"
    by (cases "mq_dequeue (schedpq k) (headers k)")
  have y: "y = x" "x \<in> L" "x \<notin> set xs" "mq_inv (k\<lparr>schedpq := q\<rparr>) ps L xs"
    using mq_inv_dequeue [OF inv d] by simp_all
  let ?d = "\<lambda>x. m_data (headers k x)"
  have sd: "inj_on ?d (senddones k (x # xs))" "?d ` senddones k (x # xs) \<subseteq> L - set (x # xs)"
    using assms by (auto simp: kern_inv_def traffic_def)
  have s: "senddones k (x # xs) = (if m_type (headers k x) = MSG_PKT_SENDDONE then insert x (senddones k xs) else senddones k xs)"
    by (auto simp: senddones_def)
  have same: "senddones (k\<lparr>schedpq := q\<rparr>) xs = senddones k xs" "headers (k\<lparr>schedpq := q\<rparr>) = headers k"
    by (simp_all add: senddones_def)
  have nx: "x \<notin> senddones k xs"
    using y(3) by (simp add: senddones_def)
  have "traffic (k\<lparr>schedpq := q\<rparr>) (if m_type (headers k x) = MSG_PKT_SENDDONE then {x, ?d x} else {x}) L xs"
  proof (cases "m_type (headers k x) = MSG_PKT_SENDDONE")
    case True
    then have "inj_on ?d (senddones k xs)" "?d x \<notin> ?d ` senddones k xs" "?d x \<in> L - set (x # xs)" "?d ` senddones k xs \<subseteq> L - set (x # xs)"
      using sd nx unfolding s by simp_all
    then show ?thesis
      using True y unfolding traffic_def same by (auto simp: image_iff)
  next
    case False
    then show ?thesis
      using sd y unfolding s traffic_def same by auto
  qed
  then have "kern_inv (k\<lparr>schedpq := q\<rparr>) (if m_type (headers k x) = MSG_PKT_SENDDONE then {x, ?d x} else {x}) L xs"
    using assms by (simp add: kern_inv_def)
  moreover have "?d x \<in> L \<and> ?d x \<noteq> x" if "m_type (headers k x) = MSG_PKT_SENDDONE"
    using sd(2) that unfolding s by auto
  ultimately show ?thesis
    using d y(1,2) mq_inv_nonnull [OF inv] by auto
qed

lemma get_module_total:
  assumes "kern_inv k H L xs"
  shows "\<exists>c h. ker_get_module pid k = Some (k\<lparr>mod_cache := c\<rparr>, h)"
proof -
  obtain bs where "bins_ok (mods k) (mod_bin k) bs"
    using assms by (auto simp: kern_inv_def)
  then have s: "chain_search (\<lambda>h. mod_pid (mods k h) = pid) (nx_of (mods k)) (mod_bin k ! hash_pid pid) = Some (node_of (registered (mods k) bs pid))"
    by (rule bin_search_registered)
  have "ker_get_module pid k \<in> range (\<lambda>(c, h). Some (k\<lparr>mod_cache := c\<rparr>, h))"
    unfolding ker_get_module_def s
    by (auto simp: image_iff intro: exI [of _ "mod_cache k"])
  then show ?thesis by auto
qed

lemma deliver_incoming_traffic:
  assumes "handler_ok run" "m \<in> H" "kern_inv k H L xs" "path (\<lambda>c. mon_next (mon_cbs k c)) cur cs NULL"
  shows "\<exists>k' L' xs'. deliver_incoming run m type cur k = Some (Done k') \<and> kern_inv k' H L' xs'"
  using assms(3,4)
proof (induction cs arbitrary: cur k L xs)
  case Nil
  then show ?case
    by (subst deliver_incoming.simps) auto
next
  case (Cons c cs)
  then have c: "cur = c" "c \<noteq> NULL" "path (\<lambda>c. mon_next (mon_cbs k c)) (mon_next (mon_cbs k c)) cs NULL"
    by auto
  let ?h = "mods k (mod_handle (mon_cbs k c))"
  obtain k' ret L' xs' where r: "run (module_handler (mod_rom k (mod_header ?h))) (handler_state ?h) m (k\<lparr>curr_pid := mod_pid ?h\<rparr>) = Some (Done (k', ret))"
    "kern_inv k' H L' xs'" "mon_cbs k' = mon_cbs k"
    using handler_ok_pid [OF assms(1,2) Cons.prems(1)] by blast
  from Cons.IH [OF r(2)] c r(3) Cons.IH [OF Cons.prems(1) c(3)] show ?case
    by (subst deliver_incoming.simps) (simp add: run_monitor_def Let_def r(1))
qed

lemma change_own_total:
  assumes "msgs_inv k ps L" "m \<in> L" "flag_msg_release (m_flag (headers k m))"
  shows "\<exists>h. k_change_own (m_data (headers k m)) pid k = Some (set_heap h k) \<and> msgs_inv (set_heap h k) ps L \<and>
    fst ` others ps (smem (set_heap h k)) = fst ` others ps (smem k)"
proof (cases "pid = NULL_PID")
  case True
  then have "k_change_own (m_data (headers k m)) pid k = Some (set_heap (heap_of k) k)"
    by (simp add: k_change_own_def sos_blk_mem_change_own_def)
  moreover have "set_heap (heap_of k) k = k"
    by (simp add: set_heap_def heap_of_def)
  ultimately show ?thesis
    using assms(1) by (intro exI [of _ "heap_of k"]) simp
next
  case False
  obtain n own where c: "(m_data (headers k m), n, own) \<in> others ps (smem k)"
    using assms by (auto simp: msgs_inv_def payloads_ok_def releases_def)
  obtain h where h: "k_change_own (m_data (headers k m)) pid k = Some (set_heap h k)" "msgs_inv (set_heap h k) ps L"
    "others ps (smem (set_heap h k)) = insert (m_data (headers k m), n, pid) (others ps (smem k) - {(m_data (headers k m), n, own)})"
    using k_change_own_law [OF assms(1) c False] by blast
  have "fst ` others ps (smem (set_heap h k)) = fst ` others ps (smem k)"
    unfolding h(3) by (rule image_replace [OF c]) simp
  with h(1,2) show ?thesis by blast
qed

lemma change_own_traffic:
  assumes "kern_inv k H L xs" "m \<in> H"
  shows "\<exists>k'. (if flag_msg_release (m_flag (headers k m)) then k_change_own (m_data (headers k m)) pid k else Some k) = Some k' \<and>
    kern_inv k' H L xs \<and> msg_sys.more k' = msg_sys.more k"
proof (cases "flag_msg_release (m_flag (headers k m))")
  case True
  obtain ps where ps: "mq_inv k ps L xs" "m \<in> L"
    using assms by (auto simp: kern_inv_def traffic_def)
  then obtain h where h: "k_change_own (m_data (headers k m)) pid k = Some (set_heap h k)" "msgs_inv (set_heap h k) ps L"
    using change_own_total [of k ps L m pid] True by (auto simp: mq_inv_def)
  have "mq_inv (set_heap h k) ps L xs"
    using h(2) ps(1) by (simp add: mq_inv_def)
  then have "traffic (set_heap h k) H L xs"
    using assms(1) by (auto simp: kern_inv_def traffic_def senddones_def)
  then have "kern_inv (set_heap h k) H L xs"
    by (rule kern_inv_frame [OF assms(1)]) simp
  then show ?thesis
    using True h(1) by simp
qed (use assms in simp)

lemma deliver_traffic:
  assumes "handler_ok run" "m \<in> H" "kern_inv k H L xs"
  shows "\<exists>k' flag L' xs'. deliver run handle m k = Some (Done (k', flag)) \<and> kern_inv k' H L' xs' \<and> \<not> flag_msg_release flag"
proof (cases "handle \<noteq> NULL \<and> \<not> sched_message_filtered handle m k")
  case True
  obtain k1 where k1: "(if flag_msg_release (m_flag (headers k m)) then k_change_own (m_data (headers k m)) (m_did (headers k m)) k else Some k) = Some k1"
    "kern_inv k1 H L xs"
    using change_own_traffic [OF assms(3,2)] by blast
  let ?k = "k1\<lparr>curr_pid := mod_pid (mods k1 handle)\<rparr>"
  obtain k' ret L' xs' where "run (module_handler (mod_rom k (mod_header (mods k handle)))) (handler_state (mods k handle)) m ?k = Some (Done (k', ret))"
    "kern_inv k' H L' xs'"
    using handler_ok_pid [OF assms(1,2) k1(2)] by blast
  then show ?thesis
    using True by (simp add: deliver_def k1(1) continue_def) (auto simp: flag_msg_release_def SOS_MSG_RELEASE_def SOS_MSG_SEND_FAIL_def)
next
  case False
  then show ?thesis
    using assms(3) by (auto simp: deliver_def flag_msg_release_def SOS_MSG_RELEASE_def SOS_MSG_SEND_FAIL_def)
qed

lemma dispose_traffic:
  assumes "kern_inv k H L xs" "m \<in> H"
  shows "\<exists>k'. msg_dispose m k = Some (Done k') \<and> kern_inv k' (H - {m}) (L - {m}) xs"
proof -
  obtain ps where ps: "mq_inv k ps L xs" "m \<in> L" "m \<notin> set xs"
    using assms by (auto simp: kern_inv_def traffic_def)
  obtain w ps' where w: "msg_dispose m k = Some (Done (k\<lparr>smem := w\<rparr>))" "mq_inv (k\<lparr>smem := w\<rparr>) ps' (L - {m}) xs"
    using mq_inv_dispose [OF ps] by blast
  have "traffic (k\<lparr>smem := w\<rparr>) (H - {m}) (L - {m}) xs"
    using assms w(2) by (auto simp: kern_inv_def traffic_def senddones_def)
  then have "kern_inv (k\<lparr>smem := w\<rparr>) (H - {m}) (L - {m}) xs"
    by (rule kern_inv_frame [OF assms(1)]) simp
  then show ?thesis
    using w(1) by blast
qed

text \<open>A posted message; if it is a \<open>MSG_PKT_SENDDONE\<close>, it takes over a message that was being delivered.\<close>

lemma posted_traffic:
  assumes inv: "kern_inv k H L xs" and p: "posted k ps L xs n k'" and more: "msg_sys.more k' = msg_sys.more k"
    and H: "H' \<subseteq> H" "m_type (headers k' n) = MSG_PKT_SENDDONE \<Longrightarrow> m_data (headers k' n) \<in> H - H'"
  shows "\<exists>xs'. kern_inv k' H' (insert n L) xs'"
proof -
  obtain ps' where n: "n \<notin> L" "mq_inv k' ps' (insert n L) (stable_insert (msg_class (headers k')) n xs)"
    using p by (auto simp: posted_def)
  let ?xs = "stable_insert (msg_class (headers k')) n xs" and ?d = "\<lambda>x. m_data (headers k x)" and ?S = "senddones k xs"
  have t: "set xs \<subseteq> L" "H \<subseteq> L - set xs" "inj_on ?d ?S" "?d ` ?S \<subseteq> L - set xs - H"
    using inv by (auto simp: kern_inv_def traffic_def mq_inv_def)
  have same: "m_type (headers k' x) = m_type (headers k x)" "m_data (headers k' x) = ?d x" if "x \<in> set xs" for x
  proof -
    have "headers k' x = (headers k x)\<lparr>m_next := m_next (headers k' x)\<rparr>"
      using p t(1) that by (auto simp: posted_def)
    note e = arg_cong [OF this]
    show "m_type (headers k' x) = m_type (headers k x)" "m_data (headers k' x) = ?d x"
      using e [of m_type] e [of m_data] by simp_all
  qed
  have S: "senddones k' ?xs = (if m_type (headers k' n) = MSG_PKT_SENDDONE then insert n ?S else ?S)"
    using same by (auto simp: senddones_def)
  have d: "m_data (headers k' x) = ?d x" if "x \<in> ?S" for x
    using same(2) that by (simp add: senddones_def)
  have inj: "inj_on (\<lambda>x. m_data (headers k' x)) ?S" and img: "(\<lambda>x. m_data (headers k' x)) ` ?S = ?d ` ?S"
    using t(3) d by (auto simp: inj_on_def intro!: image_cong)
  have "traffic k' H' (insert n L) ?xs"
  proof (cases "m_type (headers k' n) = MSG_PKT_SENDDONE")
    case True
    then have nd: "m_data (headers k' n) \<in> H" "m_data (headers k' n) \<notin> H'" using H(2) by auto
    have "n \<notin> ?S" using n(1) t(1) by (auto simp: senddones_def)
    moreover have "m_data (headers k' n) \<notin> ?d ` ?S" using nd t(4) by auto
    ultimately have "inj_on (\<lambda>x. m_data (headers k' x)) (insert n ?S)"
      using inj img by simp
    moreover have "(\<lambda>x. m_data (headers k' x)) ` insert n ?S \<subseteq> insert n L - set ?xs - H'"
      using nd H(1) t n(1) unfolding image_insert img by auto
    ultimately show ?thesis
      using True n H(1) t(2) S unfolding traffic_def by auto
  next
    case False
    have "(\<lambda>x. m_data (headers k' x)) ` ?S \<subseteq> insert n L - set ?xs - H'"
      using H(1) t n(1) unfolding img by auto
    then show ?thesis
      using False n H(1) t(2) S inj unfolding traffic_def by auto
  qed
  from kern_inv_frame [OF inv this more] show ?thesis by blast
qed

lemma senddone_traffic:
  assumes "kern_inv k {e} L xs" "\<not> flag_msg_release flag"
  shows "\<exists>k' r L' xs'. post_long dst KER_SCHED_PID MSG_PKT_SENDDONE len e flag k = Some (k', r) \<and>
    kern_inv k' (if r < 0 then {e} else {}) L' xs'"
proof -
  obtain ps where ps: "mq_inv k ps L xs" "e \<in> L" "e \<notin> set xs"
    using assms(1) by (auto simp: kern_inv_def traffic_def)
  have "postable k ps L flag e"
    using assms(2) by (simp add: postable_def)
  from post_longer_law [OF ps(1) this, of dst KER_SCHED_PID MSG_PKT_SENDDONE len "node_address k"]
  obtain k' r where k': "post_long dst KER_SCHED_PID MSG_PKT_SENDDONE len e flag k = Some (k', r)"
    "r = SOS_OK \<Longrightarrow> \<exists>n. posted k ps L xs n k' \<and> m_data (headers k' n) = e"
    "r \<noteq> SOS_OK \<Longrightarrow> r = - ENOMEM \<and> mq_inv k' ps L xs \<and> headers k' = headers k"
    unfolding post_long_def by (metis (no_types, lifting))
  note more = post_long_more [OF k'(1)]
  show ?thesis
  proof (cases "r = SOS_OK")
    case False
    then have "traffic k' {e} L xs"
      using k'(3) assms(1) by (auto simp: kern_inv_def traffic_def senddones_def)
    from kern_inv_frame [OF assms(1) this more] have "kern_inv k' {e} L xs" .
    with k'(1,3) False show ?thesis
      by (intro exI [of _ k'] exI [of _ r] exI [of _ L]) (auto simp: errno_defs)
  next
    case True
    then obtain n where n: "posted k ps L xs n k'" "m_data (headers k' n) = e"
      using k'(2) by blast
    obtain xs' where "kern_inv k' {} (insert n L) xs'"
      using posted_traffic [OF assms(1) n(1) more, of "{}"] n(2) by auto
    with k'(1) True show ?thesis
      by (intro exI [of _ k'] exI [of _ r] exI [of _ "insert n L"]) (auto simp: errno_defs)
  qed
qed

lemma end_delivery_traffic:
  assumes "kern_inv k (if inner = NULL then {e} else {e, inner}) L xs" "inner \<noteq> e" "\<not> flag_msg_release flag"
  shows "\<exists>k' L' xs'. end_delivery e inner dst flag k = Some (Done k') \<and> kern_inv k' {} L' xs'"
proof (cases "inner = NULL")
  case False
  obtain k1 where k1: "msg_dispose inner k = Some (Done k1)" "kern_inv k1 ({e, inner} - {inner}) (L - {inner}) xs"
    using dispose_traffic [of k "{e, inner}" L xs inner] assms(1) False by auto
  have "{e, inner} - {inner} = {e}"
    using assms(2) by auto
  then obtain k2 where "msg_dispose e k1 = Some (Done k2)" "kern_inv k2 {} (L - {inner} - {e}) xs"
    using dispose_traffic [OF k1(2), of e] by auto
  with k1(1) False show ?thesis
    by (auto simp: end_delivery_def continue_def)
next
  case True
  then have inv: "kern_inv k {e} L xs"
    using assms(1) by simp
  show ?thesis
  proof (cases "dst = NULL_PID")
    case False
    obtain k1 r L1 xs1 where k1: "post_long dst KER_SCHED_PID MSG_PKT_SENDDONE (of_nat MESSAGE_SIZE) e flag k = Some (k1, r)"
      "kern_inv k1 (if r < 0 then {e} else {}) L1 xs1"
      using senddone_traffic [OF inv assms(3)] by blast
    show ?thesis
    proof (cases "r < 0")
      case True
      with k1(2) have "kern_inv k1 {e} L1 xs1" by simp
      from dispose_traffic [OF this, of e] show ?thesis
        using True \<open>inner = NULL\<close> False k1(1) by (auto simp: end_delivery_def)
    qed (use True False k1 in \<open>auto simp: end_delivery_def\<close>)
  qed (use dispose_traffic [OF inv, of e] True in \<open>auto simp: end_delivery_def\<close>)
qed

lemma monitors_traffic:
  assumes "handler_ok run" "m \<in> H" "kern_inv k H L xs"
  shows "\<exists>k' L' xs'. monitor_deliver_incoming_msg_to_monitor run m k = Some (Done k') \<and> kern_inv k' H L' xs'"
proof -
  obtain cs where "path (\<lambda>c. mon_next (mon_cbs k c)) (cb_list k) cs NULL"
    using assms(3) by (auto simp: kern_inv_def)
  from deliver_incoming_traffic [OF assms this] show ?thesis
    using assms(3) by (auto simp: monitor_deliver_incoming_msg_to_monitor_def)
qed

lemma dispatch_traffic:
  assumes "handler_ok run" "kern_inv k {} L xs"
  shows "\<exists>k' L' xs'. do_dispatch run k = Some (Done k') \<and> kern_inv k' {} L' xs'"
proof (cases xs)
  case Nil
  obtain ps where "mq_inv k ps L []"
    using assms(2) Nil by (auto simp: kern_inv_def traffic_def)
  then have "mq_dequeue (schedpq k) (headers k) = (schedpq k, NULL)"
    using classed.deq_empty by (simp add: mq_inv_def)
  then show ?thesis
    using assms(2) by (auto simp: do_dispatch_def)
next
  case (Cons e ys)
  let ?inner = "if m_type (headers k e) = MSG_PKT_SENDDONE then m_data (headers k e) else NULL"
  obtain q where q: "mq_dequeue (schedpq k) (headers k) = (q, e)" "e \<noteq> NULL" "?inner \<noteq> e"
    "kern_inv (k\<lparr>schedpq := q\<rparr>) (if ?inner = NULL then {e} else {e, ?inner}) L ys"
    using dequeue_traffic [OF assms(2) [unfolded Cons]] by (auto split: if_splits)
  let ?H = "if ?inner = NULL then {e} else {e, ?inner}" and ?k0 = "k\<lparr>schedpq := q\<rparr>"
  have e: "e \<in> ?H" by simp
  obtain c handle where h: "ker_get_module (m_did (headers ?k0 e)) ?k0 = Some (?k0\<lparr>mod_cache := c\<rparr>, handle)"
    using get_module_total [OF q(4)] by blast
  let ?dst = "if flag_msg_reliable (m_flag (headers k e)) then m_sid (headers k e) else NULL_PID"
  have "kern_inv (?k0\<lparr>mod_cache := c\<rparr>) ?H L ys"
    using q(4) by simp
  from monitors_traffic [OF assms(1) e this] obtain k2 L2 xs2 where
    k2: "monitor_deliver_incoming_msg_to_monitor run e (?k0\<lparr>mod_cache := c\<rparr>) = Some (Done k2)" "kern_inv k2 ?H L2 xs2" by blast
  from deliver_traffic [OF assms(1) e k2(2)] obtain k3 flag L3 xs3 where
    k3: "deliver run handle e k2 = Some (Done (k3, flag))" "kern_inv k3 ?H L3 xs3" "\<not> flag_msg_release flag" by blast
  from end_delivery_traffic [OF k3(2) q(3) k3(3), of ?dst] obtain k4 L4 xs4 where
    k4: "end_delivery e ?inner ?dst flag k3 = Some (Done k4)" "kern_inv k4 {} L4 xs4" by blast
  have "do_dispatch run k = Some (Done k4)"
    using q(1,2) h k2(1) k3(1) k4(1) by (simp add: do_dispatch_def Let_def continue_def cong: if_cong split del: if_split)
  with k4(2) show ?thesis by blast
qed

section \<open>Handlers that only observe\<close>

text \<open>
  A handler that leaves the kernel alone and notes, in the rest of the state, who is called with which message.
\<close>

definition observes :: "'a sos_sys_scheme handler \<Rightarrow> (sos_pid_t \<Rightarrow> u8 \<Rightarrow> addr \<Rightarrow> 'a \<Rightarrow> 'a) \<Rightarrow> bool" where
  "observes run note \<longleftrightarrow> (\<forall>f st m k. \<exists>ret.
     run f st m k = Some (Done (sos_sys.more_update (note (curr_pid k) (m_type (headers k m)) (m_data (headers k m))) k, ret)))"

text \<open>What is noted for a message: nothing if it has no destination on the node or is filtered out.\<close>

definition seen :: "(sos_pid_t \<Rightarrow> u8 \<Rightarrow> addr \<Rightarrow> 'l \<Rightarrow> 'l) \<Rightarrow> 'a mod_sys_scheme \<Rightarrow> addr list list \<Rightarrow> addr \<Rightarrow> 'l \<Rightarrow> 'l" where
  "seen note k bs e =
     (case registered (mods k) bs (m_did (headers k e)) of
        Some h \<Rightarrow> if sched_message_filtered h e k then id else note (m_did (headers k e)) (m_type (headers k e)) (m_data (headers k e))
      | None \<Rightarrow> id)"

text \<open>The parts of the kernel that a delivery to an observer leaves alone.\<close>

definition same_kernel :: "'a mon_sys_scheme \<Rightarrow> 'a mon_sys_scheme \<Rightarrow> bool" where
  "same_kernel k k' \<longleftrightarrow> headers k' = headers k \<and> mods k' = mods k \<and> mod_bin k' = mod_bin k \<and> node_address k' = node_address k \<and>
     cb_list k' = cb_list k \<and> int_ready k' = int_ready k \<and> sched_stalled k' = sched_stalled k"

lemma same_kernel_trans: "same_kernel k1 k2 \<Longrightarrow> same_kernel k2 k3 \<Longrightarrow> same_kernel k1 k3"
  by (simp add: same_kernel_def)

lemma seen_cong: "same_kernel k k' \<Longrightarrow> seen note k' bs e = seen note k bs e"
  by (auto simp: seen_def same_kernel_def sched_message_filtered_def split: option.split)

lemma observed_delivery:
  assumes "observes run note" "mq_inv k ps L xs" "e \<in> L" "bins_ok (mods k) (mod_bin k) bs" "cache_ok k bs"
  shows "\<exists>k' flag. deliver run (node_of (registered (mods k) bs (m_did (headers k e)))) e k = Some (Done (k', flag)) \<and>
    mq_inv k' ps L xs \<and> same_kernel k k' \<and> mod_cache k' = mod_cache k \<and> sos_sys.more k' = seen note k bs e (sos_sys.more k) \<and>
    headers_used k' ps = headers_used k ps \<and> fst ` others ps (smem k') = fst ` others ps (smem k)"
proof -
  let ?r = "registered (mods k) bs (m_did (headers k e))"
  let ?h = "node_of ?r"
  show ?thesis
  proof (cases "?h \<noteq> NULL \<and> \<not> sched_message_filtered ?h e k")
    case False
    then have "?r = None \<or> (\<exists>h. ?r = Some h \<and> sched_message_filtered h e k)"
      using registered_nonnull [OF assms(4)] by (cases ?r) auto
    then have "seen note k bs e = id"
      by (auto simp: seen_def)
    with False assms(2) show ?thesis
      by (auto simp: deliver_def same_kernel_def)
  next
    case True
    then obtain h where h: "?r = Some h" "\<not> sched_message_filtered h e k"
      by (cases ?r) auto
    then have pid: "mod_pid (mods k h) = m_did (headers k e)" "h \<noteq> NULL"
      using registered_iff [OF assms(4)] registered_nonnull [OF assms(4)] by auto
    have "\<exists>w. (if flag_msg_release (m_flag (headers k e)) then k_change_own (m_data (headers k e)) (m_did (headers k e)) k else Some k) = Some (k\<lparr>smem := w\<rparr>) \<and>
      msgs_inv (k\<lparr>smem := w\<rparr>) ps L \<and> slab_used (msg_slab k) ps w = headers_used k ps \<and> fst ` others ps w = fst ` others ps (smem k)"
      using change_own_total [of k ps L e "m_did (headers k e)"] assms(2,3)
      by (cases "flag_msg_release (m_flag (headers k e))") (auto simp: mq_inv_def set_heap_def intro: exI [of _ "smem k"])
    then obtain w where w: "(if flag_msg_release (m_flag (headers k e)) then k_change_own (m_data (headers k e)) (m_did (headers k e)) k else Some k) = Some (k\<lparr>smem := w\<rparr>)"
      "msgs_inv (k\<lparr>smem := w\<rparr>) ps L" "slab_used (msg_slab k) ps w = headers_used k ps" "fst ` others ps w = fst ` others ps (smem k)" by blast
    let ?k1 = "k\<lparr>smem := w, curr_pid := m_did (headers k e)\<rparr>"
    obtain ret where r: "run (module_handler (mod_rom k (mod_header (mods k h)))) (handler_state (mods k h)) e ?k1 =
        Some (Done (sos_sys.more_update (note (m_did (headers k e)) (m_type (headers k e)) (m_data (headers k e))) ?k1, ret))"
      using assms(1) [unfolded observes_def, rule_format, of "module_handler (mod_rom k (mod_header (mods k h)))" "handler_state (mods k h)" e ?k1] by auto
    let ?k2 = "sos_sys.more_update (note (m_did (headers k e)) (m_type (headers k e)) (m_data (headers k e))) ?k1"
    have "deliver run ?h e k = Some (Done (?k2, if ret = SOS_OK then 0 else SOS_MSG_SEND_FAIL))"
      using h pid w(1) r by (simp add: deliver_def continue_def)
    moreover have "mq_inv ?k2 ps L xs"
      using mq_inv_cong [of ?k2 "k\<lparr>smem := w\<rparr>" ps L xs] w(2) assms(2) by (simp add: mq_inv_def)
    moreover have "seen note k bs e = note (m_did (headers k e)) (m_type (headers k e)) (m_data (headers k e))"
      using h by (simp add: seen_def)
    ultimately show ?thesis
      using w(3,4) by (intro exI [of _ ?k2]) (simp add: same_kernel_def)
  qed
qed

lemma observed_dispatch:
  assumes "observes run note" "mq_inv k ps L (e # xs)" "bins_ok (mods k) (mod_bin k) bs" "cache_ok k bs" "cb_list k = NULL"
    "m_type (headers k e) \<noteq> MSG_PKT_SENDDONE" "\<not> flag_msg_reliable (m_flag (headers k e))"
  shows "\<exists>k' ps'. do_dispatch run k = Some (Done k') \<and> mq_inv k' ps' (L - {e}) xs \<and> same_kernel k k' \<and> cache_ok k' bs \<and>
    sos_sys.more k' = seen note k bs e (sos_sys.more k) \<and> headers_used k' ps' = headers_used k ps - {e} \<and>
    fst ` others ps' (smem k') = fst ` others ps (smem k) - (\<lambda>x. m_data (headers k x)) ` releases k {e}"
proof -
  obtain q where d: "mq_dequeue (schedpq k) (headers k) = (q, e)"
    using mq_inv_dequeue [OF assms(2)] by (metis surj_pair)
  have e: "e \<in> L" "e \<notin> set xs" "mq_inv (k\<lparr>schedpq := q\<rparr>) ps L xs" "e \<noteq> NULL"
    using mq_inv_dequeue [OF assms(2) d] mq_inv_nonnull [OF assms(2)] by auto
  have "cache_ok (k\<lparr>schedpq := q\<rparr>) bs"
    using assms(4) by (simp add: cache_ok_def)
  then obtain c where c: "ker_get_module (m_did (headers k e)) (k\<lparr>schedpq := q\<rparr>) =
      Some (k\<lparr>schedpq := q, mod_cache := c\<rparr>, node_of (registered (mods k) bs (m_did (headers k e))))"
    "cache_ok (k\<lparr>schedpq := q, mod_cache := c\<rparr>) bs"
    using get_module_law [of "k\<lparr>schedpq := q\<rparr>" bs "m_did (headers k e)"] assms(3) by auto
  let ?k1 = "k\<lparr>schedpq := q, mod_cache := c\<rparr>"
  have inv1: "mq_inv ?k1 ps L xs"
    using e(3) mq_inv_cong [of ?k1 "k\<lparr>schedpq := q\<rparr>" ps L xs] by simp
  have sk: "same_kernel k ?k1"
    by (simp add: same_kernel_def)
  from observed_delivery [OF assms(1) inv1 e(1), of bs] assms(3) c(2) obtain k2 flag where
    k2: "deliver run (node_of (registered (mods k) bs (m_did (headers k e)))) e ?k1 = Some (Done (k2, flag))" "mq_inv k2 ps L xs"
      "same_kernel ?k1 k2" "mod_cache k2 = c" "sos_sys.more k2 = seen note ?k1 bs e (sos_sys.more ?k1)"
      "headers_used k2 ps = headers_used k ps" "fst ` others ps (smem k2) = fst ` others ps (smem k)"
    by auto
  obtain w ps' where w: "msg_dispose e k2 = Some (Done (k2\<lparr>smem := w\<rparr>))" "mq_inv (k2\<lparr>smem := w\<rparr>) ps' (L - {e}) xs"
    "fst ` others ps' w = fst ` others ps (smem k2) - (if flag_msg_release (m_flag (headers k2 e)) then {m_data (headers k2 e)} else {})"
    "slab_used (msg_slab k2) ps' w = headers_used k2 ps - {e}"
    using mq_inv_dispose [OF k2(2) e(1,2)] by (elim exE conjE) (rule that)
  have "headers k2 = headers k"
    using k2(3) by (simp add: same_kernel_def)
  then have "fst ` others ps' w = fst ` others ps (smem k) - (\<lambda>x. m_data (headers k x)) ` releases k {e}"
    using w(3) k2(7) by (auto simp: releases_def)
  note freed = this w(4) [unfolded k2(6)]
  have "do_dispatch run k = Some (Done (k2\<lparr>smem := w\<rparr>))"
    using d e(4) c(1) k2(1) w(1) assms(5-7)
    by (simp add: do_dispatch_def continue_def monitor_deliver_incoming_msg_to_monitor_def end_delivery_def)
  moreover have "same_kernel k (k2\<lparr>smem := w\<rparr>)"
    using same_kernel_trans [OF sk k2(3)] by (simp add: same_kernel_def)
  moreover have "cache_ok (k2\<lparr>smem := w\<rparr>) bs"
    using c(2) k2(4) by (simp add: cache_ok_def)
  ultimately show ?thesis
    using w(2) k2(5) freed seen_cong [OF sk, of "note" bs e] by (intro exI [of _ "k2\<lparr>smem := w\<rparr>"] exI [of _ ps']) simp
qed

lemma holds_count: "mq_holds ms q xs \<Longrightarrow> length xs < 256 \<Longrightarrow> unat (msg_cnt q) = length xs"
  using parts_count by (auto simp: mq_holds_def)

lemma observed_passes:
  assumes "observes run note" "mq_inv k ps L xs" "bins_ok (mods k) (mod_bin k) bs" "cache_ok k bs" "cb_list k = NULL"
    "\<forall>e \<in> set xs. m_type (headers k e) \<noteq> MSG_PKT_SENDDONE \<and> \<not> flag_msg_reliable (m_flag (headers k e))"
    "length xs < 256" "int_ready k = 0" "\<not> sched_stalled k"
  shows "\<exists>k' ps'. sched_passes run call (length xs) k = Some (Done k') \<and> mq_inv k' ps' (L - set xs) [] \<and> same_kernel k k' \<and>
    sos_sys.more k' = fold (seen note k bs) xs (sos_sys.more k) \<and> headers_used k' ps' = headers_used k ps - set xs \<and>
    fst ` others ps' (smem k') = fst ` others ps (smem k) - (\<lambda>x. m_data (headers k x)) ` releases k (set xs)"
  using assms(2-9)
proof (induction xs arbitrary: k ps L)
  case Nil
  then show ?case
    by (intro exI [of _ k] exI [of _ ps]) (simp add: same_kernel_def releases_def)
next
  case (Cons e xs)
  from observed_dispatch [OF assms(1) Cons.prems(1-4), of] Cons.prems(5) obtain k1 ps1 where
    k1: "do_dispatch run k = Some (Done k1)" "mq_inv k1 ps1 (L - {e}) xs" "same_kernel k k1" "cache_ok k1 bs"
      "sos_sys.more k1 = seen note k bs e (sos_sys.more k)" "headers_used k1 ps1 = headers_used k ps - {e}"
      "fst ` others ps1 (smem k1) = fst ` others ps (smem k) - (\<lambda>x. m_data (headers k x)) ` releases k {e}" by auto
  have "msg_cnt (schedpq k) \<noteq> 0"
    using holds_count [of "headers k" "schedpq k" "e # xs"] Cons.prems(1,6) by (auto simp: mq_inv_def)
  then have p: "sched_pass run call k = Some (Done k1)"
    using Cons.prems(7,8) k1(1) by (simp add: sched_pass_def)
  obtain k2 ps2 where k2: "sched_passes run call (length xs) k1 = Some (Done k2)" "mq_inv k2 ps2 (L - {e} - set xs) []" "same_kernel k1 k2"
    "sos_sys.more k2 = fold (seen note k1 bs) xs (sos_sys.more k1)" "headers_used k2 ps2 = headers_used k1 ps1 - set xs"
    "fst ` others ps2 (smem k2) = fst ` others ps1 (smem k1) - (\<lambda>x. m_data (headers k1 x)) ` releases k1 (set xs)"
    using Cons.IH [OF k1(2), of] Cons.prems k1(3,4) by (auto simp: same_kernel_def)
  have "seen note k1 bs = seen note k bs"
    by (intro ext) (simp add: seen_cong [OF k1(3)])
  moreover have "L - {e} - set xs = L - set (e # xs)"
    by auto
  moreover have "headers k1 = headers k"
    using k1(3) by (simp add: same_kernel_def)
  then have "fst ` others ps2 (smem k2) = fst ` others ps (smem k) - (\<lambda>x. m_data (headers k x)) ` releases k (set (e # xs))"
    "headers_used k2 ps2 = headers_used k ps - set (e # xs)"
    unfolding k2(5,6) k1(6,7) by (auto simp: releases_def)
  ultimately show ?case
    using p k2 k1(5) same_kernel_trans [OF k1(3) k2(3)] by (intro exI [of _ k2] exI [of _ ps2]) (simp add: continue_def)
qed

section \<open>A concrete state\<close>

text \<open>One message with a payload waits for module 130.\<close>

definition demo_kernel :: "heap \<Rightarrow> 'a \<Rightarrow> 'a sos_sys_scheme" where
  "demo_kernel h x = (demo_shm h \<lparr>sched_module = 700, sched_header = 710, mod_bin_at = 720, sensor_module = 730, sensor_header = 740,
     final_msg = 750, \<dots> = x\<rparr>)\<lparr>smem := smem (boot_sys h mq_init), schedpq := boot_queue, mod_cache := NULL,
     headers := (\<lambda>_. (headers (boot_sys h mq_init) 0)\<lparr>m_flag := SOS_MSG_RELEASE\<rparr>)\<rparr>"

lemma demo_kernel_simps [simp]:
  "mods (demo_kernel h x) = demo_modules" "mod_bin (demo_kernel h x) = [NULL, NULL, 40, NULL]" "mod_cache (demo_kernel h x) = NULL"
  "cb_list (demo_kernel h x) = NULL" "int_ready (demo_kernel h x) = 0" "sched_stalled (demo_kernel h x) = False" "sos_sys.more (demo_kernel h x) = x"
  "m_did (headers (demo_kernel h x) a) = 130" "m_type (headers (demo_kernel h x) a) = 32" "m_flag (headers (demo_kernel h x) a) = SOS_MSG_RELEASE"
  "m_data (headers (demo_kernel h x) a) = 347"
  by (simp_all add: demo_kernel_def demo_shm_def demo_sys_def boot_sys_def)

lemma demo_kernel_inv:
  assumes "malloc_heap h = 256" "rep h [Used 11 11 11 False, Used 3 130 130 False, Free 49]"
  shows "mq_inv (demo_kernel h x) [259] {263} [263]" "kern_inv (demo_kernel h x) {} {263} [263]"
proof -
  have "msgs_inv (boot_sys h mq_init) [259] {263}"
    by (rule boot_msgs_inv [OF assms])
  then have "msgs_inv (demo_kernel h x) [259] {263}"
    by (simp add: msgs_inv_def payloads_ok_def releases_def demo_kernel_def demo_shm_def demo_sys_def)
       (simp add: boot_sys_def flag_msg_release_def flag_defs)
  moreover have "mq_parts (headers (demo_kernel h x)) (schedpq (demo_kernel h x)) [] [] [263]"
    by (simp add: demo_kernel_def demo_shm_def demo_sys_def boot_sys_def boot_queue_def mq_parts_def queue_at_def mq_init_def msg_class_def
        flag_high_priority_def flag_system_def flag_defs)
  ultimately show inv: "mq_inv (demo_kernel h x) [259] {263} [263]"
    by (simp add: mq_inv_def mq_holds_def) (rule exI [of _ "[]"], rule exI [of _ "[]"], rule exI [of _ "[263]"], simp)
  have "senddones (demo_kernel h x) [263] = {}"
    by (auto simp: senddones_def MSG_PKT_SENDDONE_def)
  then have "traffic (demo_kernel h x) {} {263} [263]"
    using inv by (auto simp: traffic_def)
  then show "kern_inv (demo_kernel h x) {} {263} [263]"
    using demo_bins by (auto simp: kern_inv_def intro: exI [of _ "[]"])
qed

text \<open>A handler that answers every message with a short message to the sender, and one that keeps a log.\<close>

definition answer_handler :: "'a sos_sys_scheme handler" where
  "answer_handler f st m k = do {
     (k1, r) \<leftarrow> post_short (m_sid (headers k m)) (curr_pid k) 33 0 0 0 k;
     Some (Done (k1, r))
   }"

definition log_messages :: "(sos_pid_t \<times> u8) list sos_sys_scheme handler" where
  "log_messages f st m k = Some (Done (sos_sys.more_update (\<lambda>l. l @ [(curr_pid k, m_type (headers k m))]) k, SOS_OK))"

lemma log_observes: "observes log_messages (\<lambda>pid type data l. l @ [(pid, type)])"
  by (simp add: observes_def log_messages_def)

lemma answer_ok: "handler_ok answer_handler"
  unfolding handler_ok_def
proof (intro allI impI, elim conjE)
  fix f st m and k :: "'a sos_sys_scheme" and H L xs
  assume inv: "kern_inv k H L xs"
  then obtain ps where ps: "mq_inv k ps L xs"
    by (auto simp: kern_inv_def traffic_def)
  obtain k' r where k': "post_short (m_sid (headers k m)) (curr_pid k) 33 0 0 0 k = Some (k', r)"
    "if r = SOS_OK then \<exists>n. posted k ps L xs n k' \<and> m_type (headers k' n) = 33 else mq_inv k' ps L xs \<and> headers k' = headers k"
    using post_short_law [OF ps, of "m_sid (headers k m)" "curr_pid k" 33 0 0 0] by (elim exE conjE) (rule that, assumption, auto split: if_splits)
  note more = post_short_more [OF k'(1)]
  have "\<exists>L' xs'. kern_inv k' H L' xs'"
  proof (cases "r = SOS_OK")
    case True
    then obtain n where "posted k ps L xs n k'" "m_type (headers k' n) = 33"
      using k'(2) by auto
    then show ?thesis
      using posted_traffic [OF inv _ more, of ps n H] by (auto simp: MSG_PKT_SENDDONE_def)
  next
    case False
    then have "traffic k' H L xs"
      using k'(2) inv by (auto simp: kern_inv_def traffic_def senddones_def)
    from kern_inv_frame [OF inv this more] show ?thesis by blast
  qed
  then show "\<exists>k' ret L' xs'. answer_handler f st m k = Some (Done (k', ret)) \<and> kern_inv k' H L' xs' \<and> mon_cbs k' = mon_cbs k \<and> cb_list k' = cb_list k"
    using k'(1) more_monitors [OF more] by (auto simp: answer_handler_def)
qed

section \<open>Properties\<close>

text \<open>
  C1. Dispatching is safe whatever the modules send: if the handlers return, keep the invariant of the message traffic and leave the
  list of monitors alone, then \<^verbatim>\<open>do_dispatch\<close> returns without a panic and keeps it too. So no dispatch disposes of a message twice, loses
  the queue, or disposes of a message that is still queued or carried by another one, for monitored, filtered, reliable and
  \<^verbatim>\<open>MSG_PKT_SENDDONE\<close> messages and for an exhausted memory.
\<close>

theorem do_dispatch_correct:
  assumes "handler_ok run" "kern_inv k {} L xs"
  shows "\<exists>k' L' xs'. do_dispatch run k = Some (Done k') \<and> kern_inv k' {} L' xs'"
  by (rule dispatch_traffic [OF assms])

theorem do_dispatch_correct_witness:
  "\<exists>h k' L' xs'. do_dispatch answer_handler (demo_kernel h ()) = Some (Done k') \<and> kern_inv k' {} L' xs'"
proof -
  obtain h where h: "malloc_heap h = 256" "rep h [Used 11 11 11 False, Used 3 130 130 False, Free 49]" using boot_heap by blast
  from do_dispatch_correct [OF answer_ok demo_kernel_inv(2) [OF h, of "()"]] show ?thesis by blast
qed

text \<open>
  C5. Every queued message is delivered: with no soft interrupt pending, no monitor, a scheduler that is not stalled and handlers that
  only observe, as many passes of
  the loop of \<^verbatim>\<open>sched\<close> as there are messages in the queue (fewer than 256, the range of the counter) empty it; each message is
  delivered exactly once, in the order of the queue, to the registered module it is for, unless the filter holds it back,
  and all of them are disposed of: exactly their headers go back to the slab, and exactly their payloads with the release flag are freed.
  The messages are neither reliable nor of type \<^verbatim>\<open>MSG_PKT_SENDDONE\<close>.
\<close>

theorem sched_delivers_all:
  assumes "observes run note" "mq_inv k ps L xs" "bins_ok (mods k) (mod_bin k) bs" "cache_ok k bs" "cb_list k = NULL"
    "\<forall>e \<in> set xs. m_type (headers k e) \<noteq> MSG_PKT_SENDDONE \<and> \<not> flag_msg_reliable (m_flag (headers k e))"
    "length xs < 256" "int_ready k = 0" "\<not> sched_stalled k"
  shows "\<exists>k' ps'. sched_passes run call (length xs) k = Some (Done k') \<and> mq_inv k' ps' (L - set xs) [] \<and>
    msg_cnt (schedpq k') = 0 \<and> sos_sys.more k' = fold (seen note k bs) xs (sos_sys.more k) \<and>
    headers_used k' ps' = headers_used k ps - set xs \<and>
    fst ` others ps' (smem k') = fst ` others ps (smem k) - (\<lambda>x. m_data (headers k x)) ` releases k (set xs)"
proof -
  obtain k' ps' where k': "sched_passes run call (length xs) k = Some (Done k')" "mq_inv k' ps' (L - set xs) []"
    "sos_sys.more k' = fold (seen note k bs) xs (sos_sys.more k)" "headers_used k' ps' = headers_used k ps - set xs"
    "fst ` others ps' (smem k') = fst ` others ps (smem k) - (\<lambda>x. m_data (headers k x)) ` releases k (set xs)"
    using observed_passes [OF assms, of call] by (elim exE conjE) (rule that)
  moreover have "msg_cnt (schedpq k') = 0"
    using holds_count [of "headers k'" "schedpq k'" "[]"] k'(2) by (simp add: mq_inv_def unat_eq_0)
  ultimately show ?thesis by blast
qed

theorem sched_delivers_all_witness:
  "\<exists>h k'. sched_passes log_messages (\<lambda>f k. None) 1 (demo_kernel h []) = Some (Done k') \<and> sos_sys.more k' = [(130, 32)]"
proof -
  obtain h where h: "malloc_heap h = 256" "rep h [Used 11 11 11 False, Used 3 130 130 False, Free 49]" using boot_heap by blast
  let ?bs = "[[], [], [40, 50], []]"
  have "registered demo_modules ?bs 130 = Some 40"
    by (simp add: registered_def members_def demo_modules_def)
  moreover have "\<not> sched_message_filtered 40 263 (demo_kernel h [])"
    by (simp add: sched_message_filtered_def flag_msg_from_network_def flag_defs)
  ultimately have "seen (\<lambda>pid type data l. l @ [(pid, type)]) (demo_kernel h []) ?bs 263 [] = [(130, 32)]"
    by (simp add: seen_def)
  then show ?thesis
    using sched_delivers_all [OF log_observes demo_kernel_inv(1) [OF h, of "[]"], of ?bs "\<lambda>f k. None"] demo_bins
    by (intro exI [of _ h]) (auto simp: cache_ok_def MSG_PKT_SENDDONE_def flag_msg_reliable_def flag_defs)
qed

end
