(* ===== verification/Removal_Correct.thy ===== *)
theory Removal_Correct
  imports Sched_Correct
begin

text \<open>
  The removal of a module that uses no services any more: it leaves the module table and none of its memory
  stays allocated, but the cache of \<^verbatim>\<open>ker_get_module\<close> still knows it.
\<close>

section \<open>A module without services\<close>

definition no_services :: "'a ts_sys_scheme \<Rightarrow> sos_pid_t \<Rightarrow> addr \<Rightarrow> bool" where
  "no_services k pid h \<longleftrightarrow>
     (\<forall>t \<in> set (deltaq k) \<union> set (timer_pool k) \<union> set (prealloc_timer_pool k) \<union> set (periodic_pool k). t_pid (timers k t) \<noteq> pid) \<and>
     length (sensor_st k) = MAX_SENSOR_ID \<and> (\<forall>s \<in> set (sensor_st k). sn_pid s \<noteq> pid) \<and>
     (ts_owner k = NULL \<or> ts_pid (ts_svcs k (ts_owner k)) \<noteq> pid) \<and>
     (\<exists>cs. path (\<lambda>c. mon_next (mon_cbs k c)) (cb_list k) cs NULL \<and> (\<forall>c \<in> set cs. mod_pid (mods k (mod_handle (mon_cbs k c))) \<noteq> pid)) \<and>
     num_prov_func (mod_rom k (mod_header (mods k h))) = 0"

lemma remove_running_none: "\<forall>t \<in> set hs. t_pid (timers k t) \<noteq> pid \<Longrightarrow> remove_running pid hs k = Some (Done k)"
  by (induction hs) auto

lemma remove_pooled_none: "\<forall>t \<in> set hs. t_pid (timers k t) \<noteq> pid \<Longrightarrow> remove_pooled f pid hs k = Some (Done k)"
  by (induction hs) auto

lemma sensor_remove_none:
  "\<forall>i \<in> set is. sn_pid (sensor_st k ! i) \<noteq> pid \<Longrightarrow> sensor_remove_loop drv pid is k = Some (Done k)"
  by (induction "is") auto

lemma remove_services_none:
  assumes "no_services k pid h"
  shows "remove_services drv pid h k = Some (Done k)"
proof -
  have "timer_remove_all pid k = Some (Done (k, SOS_OK))"
    using assms by (simp add: timer_remove_all_def no_services_def remove_running_none remove_pooled_none continue_def)
  moreover have "sensor_remove_all drv pid k = Some (Done (k, SOS_OK))"
    using assms by (simp add: sensor_remove_all_def no_services_def sensor_remove_none continue_def)
  moreover have "ker_timestamp_deregister pid k = Some (k, - ESRCH)"
    using assms by (auto simp: ker_timestamp_deregister_def no_services_def)
  moreover have "monitor_remove_all pid k = Some k"
  proof -
    obtain cs where "path (\<lambda>c. mon_next (mon_cbs k c)) (cb_list k) cs NULL" "\<forall>c \<in> set cs. mod_pid (mods k (mod_handle (mon_cbs k c))) \<noteq> pid"
      using assms by (auto simp: no_services_def)
    from chain_find_none [OF this, of "cb_list k"] show ?thesis
      by (auto simp: monitor_remove_all_def)
  qed
  moreover have "fntable_remove_all h k = Some (k, SOS_OK)"
    using assms by (simp add: fntable_remove_all_def no_services_def)
  ultimately show ?thesis
    by (simp add: remove_services_def continue_def)
qed

section \<open>The law of the removal\<close>

text \<open>A module that is not part of the kernel image has its control block in the slab of the scheduler.\<close>

abbreviation dynamic_module :: "'a mod_sys_scheme \<Rightarrow> addr \<Rightarrow> bool" where
  "dynamic_module k h \<equiv> SOS_KER_STATIC_MODULE AND mod_flag (mods k h) = 0"

text \<open>The pool that is given back with the control block \<open>h\<close>, if no other block is in it.\<close>

definition given_back :: "'a mod_sys_scheme \<Rightarrow> addr list \<Rightarrow> addr \<Rightarrow> addr set" where
  "given_back k qs h = (if dynamic_module k h then last_used (sched_slab k) qs h (smem k) else {})"

definition foreign_pools :: "'a mod_sys_scheme \<Rightarrow> addr list \<Rightarrow> sos_pid_t \<Rightarrow> bool" where
  "foreign_pools k qs pid \<longleftrightarrow> (\<forall>(p, n, own) \<in> chunks (heap_of k). p \<in> set qs \<longrightarrow> own \<noteq> pid)"

lemma free_block_law:
  assumes "slab_inv (sched_slab k) qs (smem k)" "h \<in> slab_used (sched_slab k) qs (smem k)"
  shows "\<exists>w qs'. (if dynamic_module k h then k_slab_free (sched_slab k) h k else Some (Done k)) = Some (Done (k\<lparr>smem := w\<rparr>)) \<and>
    slab_inv (sched_slab k) qs' w \<and> set qs' \<subseteq> set qs \<and>
    slab_used (sched_slab k) qs' w = slab_used (sched_slab k) qs (smem k) - (if dynamic_module k h then {h} else {}) \<and>
    chunks (s_heap w) = {c \<in> chunks (heap_of k). fst c \<notin> given_back k qs h}"
proof (cases "dynamic_module k h")
  case True
  obtain w qs' where "ker_slab_free (sched_slab k) h (smem k) = Some (Done w)" "slab_inv (sched_slab k) qs' w"
    "slab_used (sched_slab k) qs' w = slab_used (sched_slab k) qs (smem k) - {h}" "set qs' \<subseteq> set qs"
    "chunks (s_heap w) = {c \<in> chunks (s_heap (smem k)). fst c \<notin> last_used (sched_slab k) qs h (smem k)}"
    using slab_free_law [OF assms] by (elim exE conjE) (rule that)
  then show ?thesis
    using True by (intro exI [of _ w] exI [of _ qs']) (simp add: k_slab_free_def continue_def given_back_def heap_of_def)
next
  case False
  then show ?thesis
    using assms(1) by (intro exI [of _ "smem k"] exI [of _ qs]) (simp add: given_back_def heap_of_def)
qed

lemma remove_memory_law:
  assumes "slab_inv (sched_slab k) qs (smem k)" "h \<in> slab_used (sched_slab k) qs (smem k)" "foreign_pools k qs pid"
  shows "\<exists>w qs'. remove_memory pid h k = Some (Done (k\<lparr>smem := w\<rparr>)) \<and> slab_inv (sched_slab k) qs' w \<and>
    slab_used (sched_slab k) qs' w = slab_used (sched_slab k) qs (smem k) - (if dynamic_module k h then {h} else {}) \<and>
    chunks (s_heap w) = {(p, n, own) \<in> chunks (heap_of k). own \<noteq> pid \<and> p \<notin> given_back k qs h}"
proof -
  obtain w qs' where w: "(if dynamic_module k h then k_slab_free (sched_slab k) h k else Some (Done k)) = Some (Done (k\<lparr>smem := w\<rparr>))"
    "slab_inv (sched_slab k) qs' w" "set qs' \<subseteq> set qs"
    "slab_used (sched_slab k) qs' w = slab_used (sched_slab k) qs (smem k) - (if dynamic_module k h then {h} else {})"
    "chunks (s_heap w) = {c \<in> chunks (heap_of k). fst c \<notin> given_back k qs h}"
    using free_block_law [OF assms(1,2)] by (elim exE conjE) (rule that)
  have "heap_ok (s_heap w)" using w(2) by (simp add: slab_inv_def)
  then obtain g where g: "mem_remove_all pid (s_heap w) = Some (g, SOS_OK)" "heap_ok g" "chunks g = {(p, n, x) \<in> chunks (s_heap w). x \<noteq> pid}"
    using remove_all_chunks by blast
  have "\<exists>y. (p, n, y) \<in> chunks g" if "p \<in> set qs'" "(p, n, x) \<in> chunks (s_heap w)" for p n x
    using that assms(3) w(3,5) g(3) by (auto simp: foreign_pools_def)
  note s = slab_heap_change [OF w(2) g(2) this]
  have "remove_memory pid h k = Some (Done (k\<lparr>smem := w\<lparr>s_heap := g\<rparr>\<rparr>))"
    using g(1) by (simp add: remove_memory_def w(1) continue_def heap_of_def set_heap_def)
  moreover have "chunks g = {(p, n, own) \<in> chunks (heap_of k). own \<noteq> pid \<and> p \<notin> given_back k qs h}"
    unfolding g(3) w(5) by auto
  ultimately show ?thesis
    using s w(4) by (intro exI [of _ "w\<lparr>s_heap := g\<rparr>"] exI [of _ qs']) simp
qed

lemma send_final_law:
  assumes "observes run note" "module_handler (mod_rom k (mod_header (mods k h))) \<noteq> NULL"
  shows "\<exists>f g. send_final run h k = Some (Done (sos_sys.more_update g (upd_msg (final_msg k) f k)))"
proof -
  let ?f = "\<lambda>x. x\<lparr>m_did := mod_pid (mods k h), m_sid := KER_SCHED_PID, m_type := MSG_FINAL, m_len := 0, m_data := NULL, m_flag := 0\<rparr>"
  let ?k = "upd_msg (final_msg k) ?f (k\<lparr>curr_pid := mod_pid (mods k h)\<rparr>)"
  obtain ret where "run (module_handler (mod_rom k (mod_header (mods k h)))) (handler_state (mods k h)) (final_msg k) ?k =
      Some (Done (sos_sys.more_update (note (curr_pid ?k) (m_type (headers ?k (final_msg k))) (m_data (headers ?k (final_msg k)))) ?k, ret))"
    using assms(1) unfolding observes_def by blast
  then show ?thesis
    using assms(2) by (intro exI [of _ ?f] exI) (simp add: send_final_def continue_def Let_def upd_msg_def)
qed

lemma unlink_table:
  assumes "bins_ok (mods k) (mod_bin k) bs" "registered (mods k) bs pid = Some h"
  shows "\<exists>prv bs'. chain_find (\<lambda>h. mod_pid (mods k h) = pid) (nx_of (mods k)) (mod_bin k ! hash_pid pid) NULL = Some (h, prv) \<and>
    (\<forall>k1. mods k1 = mods k \<and> mod_bin k1 = mod_bin k \<longrightarrow>
      bins_ok (mods (unlink_module h prv (hash_pid pid) k1)) (mod_bin (unlink_module h prv (hash_pid pid) k1)) bs' \<and>
      registered (mods (unlink_module h prv (hash_pid pid) k1)) bs' = (registered (mods k) bs)(pid := None))"
proof -
  obtain xs ys where t: "bs ! hash_pid pid = xs @ h # ys"
    "chain_find (\<lambda>h. mod_pid (mods k h) = pid) (nx_of (mods k)) (mod_bin k ! hash_pid pid) NULL = Some (h, if xs = [] then NULL else last xs)"
    "chains (if xs = [] then nx_of (mods k) else (nx_of (mods k))(last xs := nx_of (mods k) h)) (\<lambda>h. mod_pid (mods k h)) hash_pid SCHED_NUMBER_BINS
       (if xs = [] then (mod_bin k)[hash_pid pid := nx_of (mods k) h] else mod_bin k) (bs[hash_pid pid := xs @ ys])"
    "members (\<lambda>h. mod_pid (mods k h)) (bs[hash_pid pid := xs @ ys]) = (members (\<lambda>h. mod_pid (mods k h)) bs)(pid := None)"
    using mod_bins.chains_take [OF assms(1) [unfolded bins_ok_def] assms(2) [unfolded registered_def], of NULL] by blast
  let ?prv = "if xs = [] then NULL else last xs"
  have nn: "last xs \<noteq> NULL" if "xs \<noteq> []"
  proof -
    have "last xs \<in> set (bs ! hash_pid pid)" using that t(1) by simp
    then show ?thesis
      using mod_bins.bin_member [OF assms(1) [unfolded bins_ok_def] _ hash_pid_less] mod_bins.member_bin(2) [OF assms(1) [unfolded bins_ok_def]] by blast
  qed
  have "bins_ok (mods (unlink_module h ?prv (hash_pid pid) k1)) (mod_bin (unlink_module h ?prv (hash_pid pid) k1)) (bs[hash_pid pid := xs @ ys]) \<and>
      registered (mods (unlink_module h ?prv (hash_pid pid) k1)) (bs[hash_pid pid := xs @ ys]) = (registered (mods k) bs)(pid := None)"
    if k1: "mods k1 = mods k" "mod_bin k1 = mod_bin k" for k1
  proof (cases "xs = []")
    case True
    then show ?thesis
      using t(3,4) k1 by (simp add: unlink_module_def bins_ok_def registered_def nx_of_def)
  next
    case False
    let ?ms = "(mods k)(last xs := (mods k (last xs))\<lparr>mod_next := mod_next (mods k h)\<rparr>)"
    have "nx_of ?ms = (nx_of (mods k))(last xs := nx_of (mods k) h)" "(\<lambda>h. mod_pid (?ms h)) = (\<lambda>h. mod_pid (mods k h))"
      by (auto simp: nx_of_def fun_eq_iff)
    moreover have "unlink_module h ?prv (hash_pid pid) k1 = k1\<lparr>mods := ?ms\<rparr>"
      using False nn k1 by (simp add: unlink_module_def upd_mod_def)
    ultimately show ?thesis
      using False t(3,4) k1(2) by (simp add: bins_ok_def registered_def)
  qed
  with t(2) show ?thesis
    by (intro exI [of _ ?prv] exI [of _ "bs[hash_pid pid := xs @ ys]"]) blast
qed

lemma unlink_fields:
  "mod_pid (mods (unlink_module h prv i k) p) = mod_pid (mods k p)" "mod_header (mods (unlink_module h prv i k) p) = mod_header (mods k p)"
  "mod_cache (unlink_module h prv i k) = mod_cache k" "smem (unlink_module h prv i k) = smem k" "sched_slab (unlink_module h prv i k) = sched_slab k"
  "mod_flag (mods (unlink_module h prv i k) p) = mod_flag (mods k p)"
  by (simp_all add: unlink_module_def upd_mod_def)

lemma unlink_services:
  "no_services ((unlink_module h' prv i k)\<lparr>pid_pool := pool\<rparr>) pid h = no_services k pid h"
proof -
  let ?k = "(unlink_module h' prv i k)\<lparr>pid_pool := pool\<rparr>"
  have "deltaq ?k = deltaq k" "timer_pool ?k = timer_pool k" "prealloc_timer_pool ?k = prealloc_timer_pool k" "periodic_pool ?k = periodic_pool k"
    "timers ?k = timers k" "sensor_st ?k = sensor_st k" "ts_owner ?k = ts_owner k" "ts_svcs ?k = ts_svcs k" "mon_cbs ?k = mon_cbs k" "cb_list ?k = cb_list k"
    "mod_rom ?k = mod_rom k" "mod_pid (mods ?k p) = mod_pid (mods k p)" "mod_header (mods ?k p) = mod_header (mods k p)" for p
    by (simp_all add: unlink_module_def upd_mod_def)
  then show ?thesis by (simp only: no_services_def)
qed

lemma deregister_law:
  fixes k :: "'a sos_sys_scheme"
  assumes table: "bins_ok (mods k) (mod_bin k) bs" "registered (mods k) bs pid = Some h" and run: "observes run note"
    and f: "module_handler (mod_rom k (mod_header (mods k h))) \<noteq> NULL" and idle: "no_services k pid h"
    and slab: "slab_inv (sched_slab k) qs (smem k)" "h \<in> slab_used (sched_slab k) qs (smem k)" "foreign_pools k qs pid"
  shows "\<exists>k' bs' qs'. ker_deregister_module run drv pid k = Some (Done (k', 0)) \<and> bins_ok (mods k') (mod_bin k') bs' \<and>
    registered (mods k') bs' = (registered (mods k) bs)(pid := None) \<and>
    slab_inv (sched_slab k') qs' (smem k') \<and>
    slab_used (sched_slab k') qs' (smem k') = slab_used (sched_slab k) qs (smem k) - (if dynamic_module k h then {h} else {}) \<and>
    chunks (heap_of k') = {(p, n, own) \<in> chunks (heap_of k). own \<noteq> pid \<and> p \<notin> given_back k qs h} \<and>
    mod_cache k' = mod_cache k \<and> mod_pid (mods k' h) = pid \<and> pid_pool k' = pool_release pid (pid_pool k)"
proof -
  obtain prv bs' where prv: "chain_find (\<lambda>h. mod_pid (mods k h) = pid) (nx_of (mods k)) (mod_bin k ! hash_pid pid) NULL = Some (h, prv)"
    "\<And>k1 :: 'a sos_sys_scheme. mods k1 = mods k \<Longrightarrow> mod_bin k1 = mod_bin k \<Longrightarrow>
       bins_ok (mods (unlink_module h prv (hash_pid pid) k1)) (mod_bin (unlink_module h prv (hash_pid pid) k1)) bs' \<and>
       registered (mods (unlink_module h prv (hash_pid pid) k1)) bs' = (registered (mods k) bs)(pid := None)"
    using unlink_table [OF table] by blast
  have h: "h \<noteq> NULL" "mod_pid (mods k h) = pid"
    using registered_nonnull [OF table] registered_iff [OF table(1)] table(2) by auto
  obtain f g where sf: "send_final run h k = Some (Done (sos_sys.more_update g (upd_msg (final_msg k) f k)))"
    using send_final_law [OF run f] by blast
  define k1 where "k1 = sos_sys.more_update g (upd_msg (final_msg k) f k)"
  have k1: "mods k1 = mods k" "mod_bin k1 = mod_bin k" "pid_pool k1 = pid_pool k" "mod_cache k1 = mod_cache k" "smem k1 = smem k" "sched_slab k1 = sched_slab k"
    "no_services k1 pid h"
    using idle by (simp_all add: k1_def upd_msg_def no_services_def)
  define k3 where "k3 = (unlink_module h prv (hash_pid pid) k1)\<lparr>pid_pool := pool_release pid (pid_pool k)\<rparr>"
  have k3: "no_services k3 pid h" "bins_ok (mods k3) (mod_bin k3) bs'" "registered (mods k3) bs' = (registered (mods k) bs)(pid := None)"
    "mod_cache k3 = mod_cache k" "mod_pid (mods k3 h) = pid" "smem k3 = smem k" "sched_slab k3 = sched_slab k" "pid_pool k3 = pool_release pid (pid_pool k)"
    using prv(2) [OF k1(1,2)] k1 h(2) by (simp_all add: k3_def unlink_services unlink_fields)
  have flag: "dynamic_module k3 h = dynamic_module k h"
    using k1(1) by (simp add: k3_def unlink_fields)
  then have gb: "given_back k3 qs h = given_back k qs h" "foreign_pools k3 qs pid = foreign_pools k qs pid" "heap_of k3 = heap_of k"
    using k3(6,7) by (simp_all add: given_back_def foreign_pools_def heap_of_def)
  obtain w qs' where w: "remove_memory pid h k3 = Some (Done (k3\<lparr>smem := w\<rparr>))" "slab_inv (sched_slab k3) qs' w"
    "slab_used (sched_slab k3) qs' w = slab_used (sched_slab k3) qs (smem k3) - (if dynamic_module k3 h then {h} else {})"
    "chunks (s_heap w) = {(p, n, own) \<in> chunks (heap_of k3). own \<noteq> pid \<and> p \<notin> given_back k3 qs h}"
    using remove_memory_law [of k3 qs h pid] slab k3(6,7) gb(2) by auto
  note w' = w(2-4) [unfolded k3(6,7) flag gb]
  have pool: "pool_release (mod_pid (mods (unlink_module h prv (hash_pid pid) k1) h)) (pid_pool (unlink_module h prv (hash_pid pid) k1)) = pool_release pid (pid_pool k)"
    using h(2) k1(1,3) unlink_fields(1) [of h prv "hash_pid pid" k1 h] by (simp add: unlink_module_def upd_mod_def)
  have "ker_deregister_module run drv pid k = Some (Done (k3\<lparr>smem := w\<rparr>, 0))"
    unfolding ker_deregister_module_def Let_def prv(1)
    by (simp add: h(1) sf [folded k1_def] continue_def pool k3_def [symmetric] remove_services_none [OF k3(1)] w(1))
  then show ?thesis
    using k3(2-5,7,8) w' by (intro exI [of _ "k3\<lparr>smem := w\<rparr>"] exI [of _ bs'] exI [of _ qs']) (simp add: heap_of_def)
qed

section \<open>A concrete state\<close>

text \<open>Module 134 has its control block in the first slot of a pool; it was looked up last.\<close>

definition demo_removal :: "heap \<Rightarrow> (sos_pid_t \<times> u8) list sos_sys_scheme" where
  "demo_removal h = (demo_kernel h [])\<lparr>smem := small_slab_mem h 1, sched_slab := small_slab h,
     mods := (\<lambda>_. \<lparr>mod_next = NULL, mod_header = 600, mod_pid = 134, mod_flag = 0, handler_state = NULL\<rparr>),
     mod_bin := [NULL, NULL, item_mem (user_part h 0), NULL], mod_cache := item_mem (user_part h 0),
     sensor_st := replicate MAX_SENSOR_ID \<lparr>sn_pid = NULL_PID, client_pid = NULL_PID, sn_ctx = NULL\<rparr>\<rparr>"

lemma demo_removal_facts:
  assumes "rep h [Used 3 130 130 False, Free 8]"
  defines "a \<equiv> item_mem (user_part h 0)" and "k \<equiv> demo_removal h"
  shows "bins_ok (mods k) (mod_bin k) [[], [], [a], []]" "registered (mods k) [[], [], [a], []] 134 = Some a"
    "module_handler (mod_rom k (mod_header (mods k a))) \<noteq> NULL" "no_services k 134 a" "mod_cache k = a"
    "slab_inv (sched_slab k) [user_part h 0] (smem k)" "a \<in> slab_used (sched_slab k) [user_part h 0] (smem k)"
    "foreign_pools k [user_part h 0] 134" "dynamic_module k a" "length (pid_pool k) = SCHED_PID_SLOTS"
proof -
  have "path (nx_of (mods k)) (mod_bin k ! i) ([[], [], [a], []] ! i) NULL \<and>
      (\<forall>h \<in> set ([[], [], [a], []] ! i). h \<noteq> NULL \<and> hash_pid (mod_pid (mods k h)) = i)" if "i < 4" for i
  proof -
    have "i = 0 \<or> i = 1 \<or> i = 2 \<or> i = 3" using that by auto
    then show ?thesis
      by (elim disjE) (simp_all add: k_def a_def nx_of_def demo_removal_def hash_pid_def SCHED_NUMBER_BINS_def item_mem_def SLAB_ITEM_HDR_def)
  qed
  then show "bins_ok (mods k) (mod_bin k) [[], [], [a], []]"
    by (simp add: bins_ok_iff SCHED_NUMBER_BINS_def) (simp add: k_def demo_removal_def)
  show "registered (mods k) [[], [], [a], []] 134 = Some a"
    by (simp add: registered_def members_def k_def demo_removal_def)
  show "module_handler (mod_rom k (mod_header (mods k a))) \<noteq> NULL"
    by (simp add: k_def demo_removal_def demo_kernel_def demo_shm_def demo_sys_def demo_header_def)
  show "no_services k 134 a"
    by (simp add: no_services_def k_def demo_removal_def demo_kernel_def demo_shm_def demo_sys_def demo_header_def NULL_PID_def)
  show "mod_cache k = a"
    by (simp add: k_def a_def demo_removal_def)
  show "slab_inv (sched_slab k) [user_part h 0] (smem k)"
    using small_slab_inv [OF assms(1), of 1] by (simp add: k_def demo_removal_def bit_1_iff)
  show "a \<in> slab_used (sched_slab k) [user_part h 0] (smem k)"
    by (auto simp: k_def a_def demo_removal_def slab_used_def slot_addr_def small_slab_mem_def small_slab_def bit_1_iff)
  have "chunks h = {(user_part h 0, BLOCK_SIZE * 3 - BLOCKOVERHEAD, 130)}"
    unfolding chunks_rep [OF assms(1), simplified] by auto
  then show "foreign_pools k [user_part h 0] 134"
    by (simp add: foreign_pools_def k_def demo_removal_def heap_of_def small_slab_mem_def)
  show "dynamic_module k a" "length (pid_pool k) = SCHED_PID_SLOTS"
    by (simp_all add: k_def demo_removal_def demo_kernel_def demo_shm_def demo_sys_def thread_consts)
qed

section \<open>Properties\<close>

text \<open>
  C13. Removing a module that is registered and uses no services, with a handler that only observes its last message:
  \<^verbatim>\<open>ker_deregister_module\<close> returns 0, the module table loses exactly
  this module, and exactly its identifier is no longer taken in the pool of threads. Its control block, if it comes from the slab of
  the scheduler, goes back there, and of the areas of memory with an intact guard byte exactly those are freed that the module owns, and
  the pool of control blocks that became empty. The pools of the scheduler do not belong to the module.
\<close>

theorem ker_deregister_module_correct:
  assumes "bins_ok (mods k) (mod_bin k) bs" "registered (mods k) bs pid = Some h" "observes run note"
    "module_handler (mod_rom k (mod_header (mods k h))) \<noteq> NULL" "no_services k pid h"
    "slab_inv (sched_slab k) qs (smem k)" "h \<in> slab_used (sched_slab k) qs (smem k)" "foreign_pools k qs pid"
    "length (pid_pool k) = SCHED_PID_SLOTS"
  shows "\<exists>k' bs' qs'. ker_deregister_module run drv pid k = Some (Done (k', 0)) \<and> bins_ok (mods k') (mod_bin k') bs' \<and>
    registered (mods k') bs' = (registered (mods k) bs)(pid := None) \<and> threads (pid_pool k') = threads (pid_pool k) - {pid} \<and>
    slab_inv (sched_slab k') qs' (smem k') \<and>
    slab_used (sched_slab k') qs' (smem k') = slab_used (sched_slab k) qs (smem k) - (if dynamic_module k h then {h} else {}) \<and>
    chunks (heap_of k') = {(p, n, own) \<in> chunks (heap_of k). own \<noteq> pid \<and> p \<notin> given_back k qs h}"
proof -
  have "threads (pool_release pid (pid_pool k)) = threads (pid_pool k) - {pid}"
    using release_law [of "pid_pool k" pid] assms(9) by (simp add: thread_consts)
  with deregister_law [OF assms(1-8), of drv] show ?thesis
    by (elim exE conjE) (intro exI conjI, assumption+, simp, assumption+)
qed

theorem ker_deregister_module_correct_witness:
  "\<exists>h k' bs'. ker_deregister_module log_messages (\<lambda>f cb cmd ctx k. None) 134 (demo_removal h) = Some (Done (k', 0)) \<and>
     registered (mods k') bs' 134 = None"
proof -
  obtain h where h: "rep h [Used 3 130 130 False, Free 8]" using small_heap_used by blast
  note f = demo_removal_facts [OF h]
  from ker_deregister_module_correct [OF f(1,2) log_observes f(3,4,6,7,8,10), of "\<lambda>f cb cmd ctx k. None"]
  obtain k' bs' where "ker_deregister_module log_messages (\<lambda>f cb cmd ctx k. None) 134 (demo_removal h) = Some (Done (k', 0))"
    "registered (mods k') bs' = (registered (mods (demo_removal h)) [[], [], [item_mem (user_part h 0)], []])(134 := None)"
    by (elim exE conjE) (rule that)
  then show ?thesis
    by (intro exI [of _ h] exI [of _ k'] exI [of _ bs']) simp
qed

text \<open>
  C22. After the removal of the module that was looked up last, \<^verbatim>\<open>ker_get_module\<close> still returns its control block,
  although it is in no bin and its memory has been given back to the slab, which may hand it out again: the cache is not cleared.
  The module is not part of the kernel image, uses no services, and its handler only observes its last message.
\<close>

theorem deregister_stale_cache:
  assumes "bins_ok (mods k) (mod_bin k) bs" "registered (mods k) bs pid = Some h" "observes run note"
    "module_handler (mod_rom k (mod_header (mods k h))) \<noteq> NULL" "no_services k pid h"
    "slab_inv (sched_slab k) qs (smem k)" "h \<in> slab_used (sched_slab k) qs (smem k)" "foreign_pools k qs pid"
    "dynamic_module k h" "mod_cache k = h"
  shows "\<exists>k' bs' qs'. ker_deregister_module run drv pid k = Some (Done (k', 0)) \<and> bins_ok (mods k') (mod_bin k') bs' \<and>
    registered (mods k') bs' pid = None \<and> slab_inv (sched_slab k') qs' (smem k') \<and> h \<notin> slab_used (sched_slab k') qs' (smem k') \<and>
    ker_get_module pid k' = Some (k', h)"
proof -
  obtain k' bs' qs' where k': "ker_deregister_module run drv pid k = Some (Done (k', 0))" "bins_ok (mods k') (mod_bin k') bs'"
    "registered (mods k') bs' = (registered (mods k) bs)(pid := None)" "slab_inv (sched_slab k') qs' (smem k')"
    "slab_used (sched_slab k') qs' (smem k') = slab_used (sched_slab k) qs (smem k) - (if dynamic_module k h then {h} else {})"
    "mod_cache k' = mod_cache k" "mod_pid (mods k' h) = pid"
    using deregister_law [OF assms(1-8), of drv] by (elim exE conjE) (rule that)
  have "ker_get_module pid k' = Some (k', h)"
    using k'(6,7) assms(10) registered_nonnull [OF assms(1,2)] by (simp add: ker_get_module_def)
  moreover have "h \<notin> slab_used (sched_slab k') qs' (smem k')"
    using k'(5) assms(9) by simp
  ultimately show ?thesis
    using k'(1-4) by (intro exI [of _ k'] exI [of _ bs'] exI [of _ qs']) simp
qed

theorem deregister_stale_cache_witness:
  "\<exists>h k'. ker_deregister_module log_messages (\<lambda>f cb cmd ctx k. None) 134 (demo_removal h) = Some (Done (k', 0)) \<and>
     ker_get_module 134 k' = Some (k', item_mem (user_part h 0))"
proof -
  obtain h where h: "rep h [Used 3 130 130 False, Free 8]" using small_heap_used by blast
  note f = demo_removal_facts [OF h]
  from deregister_stale_cache [OF f(1,2) log_observes f(3,4,6,7,8,9,5), of "\<lambda>f cb cmd ctx k. None"] show ?thesis by blast
qed

end
