(* ===== verification/Crc.thy ===== *)
theory Crc
  imports Sos_Prelude
begin

text \<open>
  The cyclic redundancy check of the link layers. The AVR port computes it from a table of
  256 words in program memory (\<^verbatim>\<open>processor/avr/crc.c\<close>,
  \<^verbatim>\<open>processor/avr/include/crc.h\<close>); the MSP430 and PC ports shift the bits one by
  one (\<^verbatim>\<open>processor/msp430/include/crc.h\<close>,
  \<^verbatim>\<open>processor/posix/include/crc.h\<close>). Nodes of different ports exchange frames, so
  the two routines have to agree: they do on every register and every byte, hence on every
  frame. The checksum is linear and a step of it is injective both in the register and in the
  byte, which gives the errors it always detects.
\<close>

section \<open>The table and the two routines\<close>

definition crcTable :: "u16 list" where
  "crcTable = [
    0x0000, 0x1021, 0x2042, 0x3063, 0x4084, 0x50a5, 0x60c6, 0x70e7,
    0x8108, 0x9129, 0xa14a, 0xb16b, 0xc18c, 0xd1ad, 0xe1ce, 0xf1ef,
    0x1231, 0x0210, 0x3273, 0x2252, 0x52b5, 0x4294, 0x72f7, 0x62d6,
    0x9339, 0x8318, 0xb37b, 0xa35a, 0xd3bd, 0xc39c, 0xf3ff, 0xe3de,
    0x2462, 0x3443, 0x0420, 0x1401, 0x64e6, 0x74c7, 0x44a4, 0x5485,
    0xa56a, 0xb54b, 0x8528, 0x9509, 0xe5ee, 0xf5cf, 0xc5ac, 0xd58d,
    0x3653, 0x2672, 0x1611, 0x0630, 0x76d7, 0x66f6, 0x5695, 0x46b4,
    0xb75b, 0xa77a, 0x9719, 0x8738, 0xf7df, 0xe7fe, 0xd79d, 0xc7bc,
    0x48c4, 0x58e5, 0x6886, 0x78a7, 0x0840, 0x1861, 0x2802, 0x3823,
    0xc9cc, 0xd9ed, 0xe98e, 0xf9af, 0x8948, 0x9969, 0xa90a, 0xb92b,
    0x5af5, 0x4ad4, 0x7ab7, 0x6a96, 0x1a71, 0x0a50, 0x3a33, 0x2a12,
    0xdbfd, 0xcbdc, 0xfbbf, 0xeb9e, 0x9b79, 0x8b58, 0xbb3b, 0xab1a,
    0x6ca6, 0x7c87, 0x4ce4, 0x5cc5, 0x2c22, 0x3c03, 0x0c60, 0x1c41,
    0xedae, 0xfd8f, 0xcdec, 0xddcd, 0xad2a, 0xbd0b, 0x8d68, 0x9d49,
    0x7e97, 0x6eb6, 0x5ed5, 0x4ef4, 0x3e13, 0x2e32, 0x1e51, 0x0e70,
    0xff9f, 0xefbe, 0xdfdd, 0xcffc, 0xbf1b, 0xaf3a, 0x9f59, 0x8f78,
    0x9188, 0x81a9, 0xb1ca, 0xa1eb, 0xd10c, 0xc12d, 0xf14e, 0xe16f,
    0x1080, 0x00a1, 0x30c2, 0x20e3, 0x5004, 0x4025, 0x7046, 0x6067,
    0x83b9, 0x9398, 0xa3fb, 0xb3da, 0xc33d, 0xd31c, 0xe37f, 0xf35e,
    0x02b1, 0x1290, 0x22f3, 0x32d2, 0x4235, 0x5214, 0x6277, 0x7256,
    0xb5ea, 0xa5cb, 0x95a8, 0x8589, 0xf56e, 0xe54f, 0xd52c, 0xc50d,
    0x34e2, 0x24c3, 0x14a0, 0x0481, 0x7466, 0x6447, 0x5424, 0x4405,
    0xa7db, 0xb7fa, 0x8799, 0x97b8, 0xe75f, 0xf77e, 0xc71d, 0xd73c,
    0x26d3, 0x36f2, 0x0691, 0x16b0, 0x6657, 0x7676, 0x4615, 0x5634,
    0xd94c, 0xc96d, 0xf90e, 0xe92f, 0x99c8, 0x89e9, 0xb98a, 0xa9ab,
    0x5844, 0x4865, 0x7806, 0x6827, 0x18c0, 0x08e1, 0x3882, 0x28a3,
    0xcb7d, 0xdb5c, 0xeb3f, 0xfb1e, 0x8bf9, 0x9bd8, 0xabbb, 0xbb9a,
    0x4a75, 0x5a54, 0x6a37, 0x7a16, 0x0af1, 0x1ad0, 0x2ab3, 0x3a92,
    0xfd2e, 0xed0f, 0xdd6c, 0xcd4d, 0xbdaa, 0xad8b, 0x9de8, 0x8dc9,
    0x7c26, 0x6c07, 0x5c64, 0x4c45, 0x3ca2, 0x2c83, 0x1ce0, 0x0cc1,
    0xef1f, 0xff3e, 0xcf5d, 0xdf7c, 0xaf9b, 0xbfba, 0x8fd9, 0x9ff8,
    0x6e17, 0x7e36, 0x4e55, 0x5e74, 0x2e93, 0x3eb2, 0x0ed1, 0x1ef0]"

text \<open>
  \<open>magic\<close> points to the two bytes of an entry, the low one first: the processor is little
  endian.
\<close>

definition crcByte :: "u16 \<Rightarrow> u8 \<Rightarrow> u16" where
  "crcByte oldCrc byte = (let magic = crcTable ! unat (drop_bit 8 oldCrc XOR ucast byte);
     magic0 = ucast magic :: u8; magic1 = ucast (drop_bit 8 magic) :: u8 in
     ucast magic0 OR push_bit 8 (ucast ((ucast oldCrc :: u8) XOR magic1)))"

definition crc_step :: "u16 \<Rightarrow> u16" where
  "crc_step crc = (if crc AND 0x8000 \<noteq> 0 then push_bit 1 crc XOR 0x1021 else push_bit 1 crc)"

definition crcByte_bitwise :: "u16 \<Rightarrow> u8 \<Rightarrow> u16" where
  "crcByte_bitwise crc b = (crc_step ^^ 8) (crc XOR push_bit 8 (ucast b))"

text \<open>The checksum that a link computes over the bytes of a frame.\<close>

definition crc_of :: "u16 \<Rightarrow> u8 list \<Rightarrow> u16" where
  "crc_of crc bs = foldl crcByte crc bs"

section \<open>Linearity\<close>

lemma crc_step_xor: "crc_step (a XOR b) = crc_step a XOR crc_step b"
proof -
  have top: "((c :: u16) AND 0x8000 \<noteq> 0) = bit c 15" for c
    by (simp add: and_exp_eq_0_iff_not_bit [where n = 15, simplified])
  show ?thesis
    unfolding crc_step_def top
    by (simp add: bit_xor_iff) (auto intro!: bit_word_eqI simp: bit_simps)
qed

lemma crc_steps_xor: "(crc_step ^^ n) (a XOR b) = (crc_step ^^ n) a XOR (crc_step ^^ n) b"
  by (induction n) (simp_all add: crc_step_xor)

lemma crc_steps_low: "(crc_step ^^ 8) (ucast (b :: u8)) = push_bit 8 (ucast b)"
proof -
  have top: "((c :: u16) AND 0x8000 \<noteq> 0) = bit c 15" for c
    by (simp add: and_exp_eq_0_iff_not_bit [where n = 15, simplified])
  have "(crc_step ^^ n) (ucast b) = push_bit n (ucast b)" if "n \<le> 8" for n
    using that
  proof (induction n)
    case (Suc n)
    moreover have "\<not> bit (push_bit n (ucast b :: u16)) 15"
      using Suc.prems by (auto simp: bit_simps dest: bit_imp_le_length)
    ultimately show ?case
      by (simp add: crc_step_def top push_bit_push_bit)
  qed simp
  then show ?thesis by simp
qed

text \<open>
  A linear function of a byte is given by its values at the powers of two: its table is built
  by doubling, the second half being the first one shifted by the next value.
\<close>

definition linear_table :: "u16 list \<Rightarrow> u16 list" where
  "linear_table bs = foldl (\<lambda>t b. t @ map (\<lambda>x. b XOR x) t) [0] bs"

lemma linear_table_law:
  assumes lin: "\<And>a b. f (a XOR b) = f a XOR f b" and k: "k \<le> 8"
  shows "linear_table (map (\<lambda>i. f (of_nat (2 ^ i))) [0..<k])
    = map (\<lambda>i. f (of_nat i :: u16)) [0..<2 ^ k]"
  using k
proof (induction k)
  case 0
  have "f 0 = 0" using lin [of 0 0] by simp
  then show ?case by (simp add: linear_table_def)
next
  case (Suc k)
  have "f (of_nat (2 ^ k)) XOR f (of_nat i) = f (of_nat (i + 2 ^ k))" if "i < 2 ^ k" for i
  proof -
    have "of_nat i = (take_bit k (of_nat i) :: u16)"
      using that Suc.prems by (simp add: take_bit_nat_eq_self of_nat_take_bit [symmetric])
    moreover have "(of_nat (2 ^ k) :: u16) AND take_bit k (of_nat i) = 0"
      by (rule bit_word_eqI) (auto simp: bit_simps)
    ultimately have "(of_nat (2 ^ k) :: u16) + of_nat i = of_nat (2 ^ k) XOR of_nat i"
      by (metis disjunctive_add_eq_xor)
    then show ?thesis by (simp add: lin [symmetric] add.commute)
  qed
  then have "map (\<lambda>i. f (of_nat (2 ^ k)) XOR f (of_nat i)) [0..<2 ^ k]
      = map (\<lambda>i. f (of_nat i)) [2 ^ k..<2 ^ k + 2 ^ k]"
    by (intro nth_equalityI) (auto simp: add.commute)
  moreover have "[0..<2 ^ Suc k] = [0..<2 ^ k] @ [2 ^ k..<2 ^ k + 2 ^ k]"
    using upt_add_eq_append [of 0 "2 ^ k" "2 ^ k"] by (simp add: mult_2)
  ultimately show ?case using Suc by (simp add: linear_table_def comp_def del: upt_Suc_append) 
qed

lemma crc_step_eight:
  "(crc_step ^^ 8) x = crc_step (crc_step (crc_step (crc_step (crc_step (crc_step (crc_step (crc_step x)))))))"
  by (simp add: numeral_eq_Suc)

lemma crc_basis: "map (\<lambda>i. (crc_step ^^ 8) (push_bit 8 (of_nat (2 ^ i)))) [0..<8]
    = [0x1021, 0x2042, 0x4084, 0x8108, 0x1231, 0x2462, 0x48c4, 0x9188]"
  by (simp add: upt_conv_Cons crc_step_eight crc_step_def)

lemma crcTable_bitwise: "map (\<lambda>i. (crc_step ^^ 8) (push_bit 8 (of_nat i))) [0..<256] = crcTable"
proof -
  let ?f = "\<lambda>x. (crc_step ^^ 8) (push_bit 8 x)"
  have "map (\<lambda>i. ?f (of_nat i)) [0..<2 ^ 8] = linear_table (map (\<lambda>i. ?f (of_nat (2 ^ i))) [0..<8])"
    by (rule linear_table_law [symmetric]) (simp_all add: crc_steps_xor push_bit_xor)
  also have "\<dots> = crcTable"
    unfolding crc_basis by (simp add: linear_table_def crcTable_def)
  finally show ?thesis by simp
qed

lemma crcTable_nth: "crcTable ! unat (x :: u8) = (crc_step ^^ 8) (push_bit 8 (ucast x))"
proof -
  have "crcTable ! unat x
      = map (\<lambda>i. (crc_step ^^ 8) (push_bit 8 (of_nat i))) [0..<256] ! unat x"
    by (simp only: crcTable_bitwise)
  also have "\<dots> = (crc_step ^^ 8) (push_bit 8 (of_nat (unat x)))"
    using unat8_less [of x] by simp
  finally show ?thesis by simp
qed

lemma crcByte_split: "crcByte crc b
    = crcTable ! unat ((ucast (drop_bit 8 crc) :: u8) XOR b) XOR push_bit 8 crc"
proof -
  have i: "unat (drop_bit 8 crc XOR ucast b) = unat ((ucast (drop_bit 8 crc) :: u8) XOR b)"
  proof -
    have "drop_bit 8 crc XOR ucast b = ucast ((ucast (drop_bit 8 crc) :: u8) XOR b)"
      by (rule bit_word_eqI) (auto simp: bit_simps dest: bit_imp_le_length)
    moreover have "unat (w :: u8) < 2 ^ 16" for w
      using unat8_less [of w] by simp
    ultimately show ?thesis by (simp add: unsigned_ucast_eq take_bit_nat_eq_self)
  qed
  have "ucast (ucast (t :: u16) :: u8) OR push_bit 8 (ucast ((ucast crc :: u8) XOR ucast (drop_bit 8 t)))
      = t XOR push_bit 8 crc" for t
    by (rule bit_word_eqI) (auto simp: bit_simps dest: bit_imp_le_length)
  then show ?thesis unfolding crcByte_def Let_def i by simp
qed

lemma crcByte_eq: "crcByte crc b = crcByte_bitwise crc b"
proof -
  let ?x = "(ucast (drop_bit 8 crc) :: u8) XOR b"
  have "crc XOR push_bit 8 (ucast b) = push_bit 8 (ucast ?x) XOR ucast (ucast crc :: u8)"
    by (rule bit_word_eqI) (auto simp: bit_simps)
  then have "crcByte_bitwise crc b
      = (crc_step ^^ 8) (push_bit 8 (ucast ?x)) XOR push_bit 8 (ucast (ucast crc :: u8))"
    unfolding crcByte_bitwise_def by (simp only: crc_steps_xor crc_steps_low)
  also have "push_bit 8 (ucast (ucast crc :: u8)) = push_bit 8 crc"
    by (rule bit_word_eqI) (auto simp: bit_simps)
  finally show ?thesis by (simp add: crcByte_split crcTable_nth)
qed

section \<open>Error detection\<close>

lemma xor_cancel: "(a :: 'a::len word) XOR c = b XOR c \<longleftrightarrow> a = b"
proof
  assume "a XOR c = b XOR c"
  then have "(a XOR c) XOR c = (b XOR c) XOR c" by (rule arg_cong)
  then show "a = b" by (simp add: xor.assoc)
qed simp

lemma crc_step_zero: "crc_step c = 0 \<Longrightarrow> c = 0"
proof -
  assume z: "crc_step c = 0"
  have top: "(c AND 0x8000 \<noteq> 0) = bit c 15"
    by (simp add: and_exp_eq_0_iff_not_bit [where n = 15, simplified])
  have pb: "bit (push_bit 1 c) m = (1 \<le> m \<and> m < 16 \<and> bit c (m - 1))" for m
    by (auto simp only: bit_push_bit_iff) (auto simp: dest: bit_imp_le_length)
  have "\<not> bit c 15"
  proof
    assume "bit c 15"
    then have "bit (crc_step c) 0" by (simp only: crc_step_def top if_True bit_xor_iff pb) simp
    with z show False by simp
  qed
  with z have s: "push_bit 1 c = 0" by (simp only: crc_step_def top if_False)
  have "\<not> bit c n" if "n < 16" for n
  proof (cases "n = 15")
    case False
    have "bit (push_bit 1 c) (Suc n) = bit c n"
      using that False by (simp only: pb) simp
    with s show ?thesis by simp
  qed (use \<open>\<not> bit c 15\<close> in simp)
  then show "c = 0" by (intro bit_word_eqI) auto
qed

lemma crc_step_inj: "crc_step a = crc_step b \<Longrightarrow> a = b"
proof -
  assume "crc_step a = crc_step b"
  then have "a XOR b = b XOR b" by (simp add: crc_step_zero crc_step_xor)
  then show "a = b" by (simp only: xor_cancel)
qed

lemma crc_steps_inj: "(crc_step ^^ n) a = (crc_step ^^ n) b \<Longrightarrow> a = b"
  by (induction n) (auto dest: crc_step_inj)

lemma crcByte_bits: "crcByte a x = (crc_step ^^ 8) (a XOR push_bit 8 (ucast x))"
  by (simp only: crcByte_eq crcByte_bitwise_def)

lemma crcByte_two: "crcByte (crcByte a x) y
    = (crc_step ^^ 16) (a XOR push_bit 8 (ucast x) XOR ucast y)"
proof -
  have "(crc_step ^^ 16) (a XOR push_bit 8 (ucast x) XOR ucast y)
      = (crc_step ^^ 8) ((crc_step ^^ 8) ((a XOR push_bit 8 (ucast x)) XOR ucast y))"
    using funpow_add [of 8 8 crc_step] by (simp add: xor.assoc)
  also have "\<dots> = (crc_step ^^ 8) (crcByte a x XOR push_bit 8 (ucast y))"
    by (simp only: crc_steps_xor [of 8 "a XOR push_bit 8 (ucast x)"] crc_steps_low crcByte_bits)
  finally show ?thesis by (simp only: crcByte_bits)
qed

lemma crcByte_inj: "crcByte a x = crcByte b x \<longleftrightarrow> a = b"
proof
  assume "crcByte a x = crcByte b x"
  then have "a XOR push_bit 8 (ucast x) = b XOR push_bit 8 (ucast x)"
    unfolding crcByte_bits by (rule crc_steps_inj)
  then show "a = b" by (simp only: xor_cancel)
qed simp

lemma two_bytes_inj:
  assumes "push_bit 8 (ucast (x :: u8)) XOR ucast (y :: u8) = (push_bit 8 (ucast x') XOR ucast y' :: u16)"
  shows "x = x'" and "y = y'"
proof -
  have b: "bit (push_bit 8 (ucast x) XOR ucast y :: u16) n = bit (push_bit 8 (ucast x') XOR ucast y' :: u16) n"
    for n by (simp only: assms)
  show "x = x'"
  proof (rule bit_word_eqI)
    fix n assume "n < LENGTH(8)"
    then show "bit x n = bit x' n" using b [of "n + 8"]
      by (auto simp: bit_simps dest: bit_imp_le_length)
  qed
  show "y = y'"
  proof (rule bit_word_eqI)
    fix n assume "n < LENGTH(8)"
    then show "bit y n = bit y' n" using b [of n] by (auto simp: bit_simps)
  qed
qed

lemma crcByte_two_inj: "crcByte (crcByte a x) y = crcByte (crcByte a x') y' \<longleftrightarrow> x = x' \<and> y = y'"
proof
  assume "crcByte (crcByte a x) y = crcByte (crcByte a x') y'"
  then have "a XOR push_bit 8 (ucast x) XOR ucast y = a XOR push_bit 8 (ucast x') XOR ucast y'"
    unfolding crcByte_two by (rule crc_steps_inj)
  then have "push_bit 8 (ucast x) XOR ucast y = (push_bit 8 (ucast x') XOR ucast y' :: u16)"
    unfolding xor.commute [of a] by (simp only: xor_cancel)
  then show "x = x' \<and> y = y'" using two_bytes_inj by blast
qed simp

lemma crc_of_simps [simp]:
  "crc_of crc [] = crc" "crc_of crc (b # bs) = crc_of (crcByte crc b) bs"
  by (simp_all add: crc_of_def)

lemma crc_of_append [simp]: "crc_of crc (bs @ cs) = crc_of (crc_of crc bs) cs"
  by (simp add: crc_of_def)

lemma crc_of_inj: "crc_of a bs = crc_of b bs \<longleftrightarrow> a = b"
  by (induction bs arbitrary: a b) (simp_all add: crcByte_inj)

section \<open>Properties\<close>

text \<open>
  C24. The checksum that the AVR port reads from its table is the one that the MSP430 and PC
  ports compute bit by bit, for every start value and every sequence of bytes.
\<close>
theorem crc_table_is_bitwise: "crc_of crc bs = foldl crcByte_bitwise crc bs"
  by (simp add: crc_of_def crcByte_eq [abs_def])

text \<open>
  A frame in which up to two adjacent bytes are changed, anywhere in the frame, has
  another checksum: the receiver rejects it.
\<close>
theorem crc_detects_adjacent:
  "crc_of crc (pre @ [x, y] @ post) = crc_of crc (pre @ [x', y'] @ post) \<longleftrightarrow> x = x' \<and> y = y'"
  by (simp add: crc_of_inj crcByte_two_inj)

end
