(* ===== verification/Uart.thy ===== *)
theory Uart
  imports Sched Crc
begin

text \<open>
  The serial link: framing of messages on the line (\<^verbatim>\<open>drivers/uart/uart.c\<close>,
  \<^verbatim>\<open>drivers/include/hdlc.h\<close>), reservation of the line
  (\<^verbatim>\<open>drivers/uart/uart_system.c\<close>), the queue of outgoing messages
  (\<^verbatim>\<open>drivers/uart/sos_uart.c\<close>, \<^verbatim>\<open>drivers/uart/sos_uart_mgr.c\<close>) and the
  entry of received messages into the kernel (\<^verbatim>\<open>kernel/include/net_stack.h\<close>). The
  state extends that of the kernel by the variables of these files.

  The hardware is the data register: \<open>line_out\<close> are the bytes written to it so far, in order,
  and an interrupt of the receiver gets the error bits and the byte it reads. The transmission
  interrupt comes when the register and the shift register are empty, so that both of two
  bytes written in one interrupt are sent. The value of the system time is an argument. The
  processor is little endian: \<^verbatim>\<open>entohs\<close> is the identity. A write outside the heap
  block of the receive buffer has no defined result.
\<close>

section \<open>Constants\<close>

definition UART_PID :: sos_pid_t where "UART_PID = 66"
definition KER_UART_PID :: sos_pid_t where "KER_UART_PID = 72"
definition HDLC_FLAG :: u8 where "HDLC_FLAG = 0x7e"
definition HDLC_CTR_ESC :: u8 where "HDLC_CTR_ESC = 0x7d"
definition HDLC_EXT :: u8 where "HDLC_EXT = 0x03"
definition HDLC_SOS_MSG :: u8 where "HDLC_SOS_MSG = 0x01"
definition HDLC_RAW :: u8 where "HDLC_RAW = 0x05"

lemmas hdlc_defs = HDLC_FLAG_def HDLC_CTR_ESC_def HDLC_EXT_def HDLC_SOS_MSG_def HDLC_RAW_def

definition UART_SYS_SOS_MSG_FLAG :: u8 where "UART_SYS_SOS_MSG_FLAG = 0x80"
definition UART_SYS_TX_FLAG :: u8 where "UART_SYS_TX_FLAG = 0x40"
definition UART_SYS_ERROR_FLAG :: u8 where "UART_SYS_ERROR_FLAG = 0x01"
definition UART_SYS_SHARED_FLAGS_MSK :: u8 where "UART_SYS_SHARED_FLAGS_MSK = 0xD1"
definition UART_SOS_MSG_FLAG :: u8 where "UART_SOS_MSG_FLAG = UART_SYS_SOS_MSG_FLAG"
definition UART_CRC_FLAG :: u8 where "UART_CRC_FLAG = UART_SYS_SOS_MSG_FLAG"
definition UART_ERROR_FLAG :: u8 where "UART_ERROR_FLAG = UART_SYS_ERROR_FLAG"
definition UART_DATA_RDY_FLAG :: u8 where "UART_DATA_RDY_FLAG = 0x20"

lemmas uart_flag_defs =
  UART_SYS_SOS_MSG_FLAG_def UART_SYS_TX_FLAG_def UART_SYS_ERROR_FLAG_def UART_SYS_SHARED_FLAGS_MSK_def
  UART_SOS_MSG_FLAG_def UART_CRC_FLAG_def UART_ERROR_FLAG_def UART_DATA_RDY_FLAG_def

definition UART_MAX_MSG_LEN :: u8 where "UART_MAX_MSG_LEN = 0x80"
definition SOS_MSG_HEADER_SIZE :: u8 where "SOS_MSG_HEADER_SIZE = 8"
definition MSG_TIMESTAMP :: u8 where "MSG_TIMESTAMP = 16"
definition MSG_UART_SEND_DONE :: u8 where "MSG_UART_SEND_DONE = 0x42"
definition READ_ERROR :: u8 where "READ_ERROR = 0"
definition SOS_UART_BACKOFF_TIME :: int where "SOS_UART_BACKOFF_TIME = 256"
definition SOS_UART_TID :: u8 where "SOS_UART_TID = 0"
definition TIMER_ONE_SHOT :: u8 where "TIMER_ONE_SHOT = 1"

section \<open>State\<close>

datatype uart_mode = UART_INIT | UART_IDLE | UART_HDLC_START | UART_PROTOCOL | UART_DATA | UART_HDLC_STOP | UART_END

datatype hdlc_mode =
  HDLC_IDLE | HDLC_START | HDLC_RESTART | HDLC_ADDRESS | HDLC_CONTROL | HDLC_PROTOCOL | HDLC_DATA | HDLC_ESCAPE
  | HDLC_PADDING | HDLC_CRC

datatype msg_mode =
  SOS_MSG_NO_STATE | SOS_MSG_WAIT | SOS_MSG_TX_RAW | SOS_MSG_RX_RAW | SOS_MSG_TX_CRC_ONLY | SOS_MSG_RX_CRC_ONLY
  | SOS_MSG_TX_START | SOS_MSG_TX_HDR | SOS_MSG_TX_DATA | SOS_MSG_TX_CRC_LOW | SOS_MSG_TX_CRC_HIGH | SOS_MSG_TX_END
  | SOS_MSG_RX_START | SOS_MSG_RX_HDR | SOS_MSG_RX_DATA | SOS_MSG_RX_CRC_LOW | SOS_MSG_RX_CRC_HIGH | SOS_MSG_RX_END

record uart_state_t =
  u_state :: uart_mode
  u_msg_state :: msg_mode
  u_hdlc_state :: hdlc_mode
  u_msgHdr :: addr
  u_buff :: addr
  u_crc :: u16
  u_msgLen :: u8
  u_idx :: u8
  u_flags :: u8

datatype uart_sys_mode = UART_SYS_INIT | UART_SYS_IDLE | UART_SYS_WAIT | UART_SYS_BUSY

datatype direction = TX | RX

record uart_system_state_t =
  us_system_state :: uart_sys_mode
  us_calling_mod_id :: "direction \<Rightarrow> sos_pid_t"
  us_state :: "direction \<Rightarrow> uart_sys_mode"
  us_flags :: "direction \<Rightarrow> u8"
  us_txBuf :: addr

datatype sos_uart_mode = SOS_UART_IDLE | SOS_UART_BACKOFF | SOS_UART_TX_MSG

record uart_sys = sos_sys +
  utx :: uart_state_t
  urx :: uart_state_t
  tx_saved_state :: hdlc_mode
  rx_saved_state :: hdlc_mode
  crc_in :: u16
  line_out :: "u8 list"
  tx_interrupt :: bool
  rx_interrupt :: bool
  uart_address :: u16
  usys :: uart_system_state_t
  su_state :: sos_uart_mode
  su_msg_ptr :: addr
  uartpq :: mq_t
  uart_header :: addr

abbreviation upd_tx :: "(uart_state_t \<Rightarrow> uart_state_t) \<Rightarrow> 'a uart_sys_scheme \<Rightarrow> 'a uart_sys_scheme" where
  "upd_tx f k \<equiv> k\<lparr>utx := f (utx k)\<rparr>"

abbreviation upd_rx :: "(uart_state_t \<Rightarrow> uart_state_t) \<Rightarrow> 'a uart_sys_scheme \<Rightarrow> 'a uart_sys_scheme" where
  "upd_rx f k \<equiv> k\<lparr>urx := f (urx k)\<rparr>"

text \<open>A test of flag bits, the write to the data register.\<close>

definition has_flag :: "u8 \<Rightarrow> u8 \<Rightarrow> bool" where
  "has_flag f b \<longleftrightarrow> f AND b \<noteq> 0"

definition uart_setByte :: "u8 \<Rightarrow> 'a uart_sys_scheme \<Rightarrow> 'a uart_sys_scheme" where
  "uart_setByte b k = k\<lparr>line_out := line_out k @ [b]\<rparr>"

text \<open>The bytes of a header, as the pointer \<^verbatim>\<open>(uint8_t * )msgHdr\<close> reads and writes them.\<close>

definition hdr_bytes :: "Message \<Rightarrow> u8 list" where
  "hdr_bytes x = [m_did x, m_sid x] @ word_bytes (m_daddr x) @ word_bytes (m_saddr x) @ [m_type x, m_len x]"

definition lo_byte :: "u8 \<Rightarrow> u16 \<Rightarrow> u16" where
  "lo_byte b w = (w AND 0xFF00) OR ucast b"

definition hi_byte :: "u8 \<Rightarrow> u16 \<Rightarrow> u16" where
  "hi_byte b w = (w AND 0x00FF) OR push_bit 8 (ucast b)"

definition put_hdr_byte :: "u8 \<Rightarrow> u8 \<Rightarrow> Message \<Rightarrow> Message option" where
  "put_hdr_byte i b x =
     (if i = 0 then Some (x\<lparr>m_did := b\<rparr>)
      else if i = 1 then Some (x\<lparr>m_sid := b\<rparr>)
      else if i = 2 then Some (x\<lparr>m_daddr := lo_byte b (m_daddr x)\<rparr>)
      else if i = 3 then Some (x\<lparr>m_daddr := hi_byte b (m_daddr x)\<rparr>)
      else if i = 4 then Some (x\<lparr>m_saddr := lo_byte b (m_saddr x)\<rparr>)
      else if i = 5 then Some (x\<lparr>m_saddr := hi_byte b (m_saddr x)\<rparr>)
      else if i = 6 then Some (x\<lparr>m_type := b\<rparr>)
      else if i = 7 then Some (x\<lparr>m_len := b\<rparr>)
      else None)"

lemma length_hdr_bytes [simp]: "length (hdr_bytes x) = 8"
  by (simp add: hdr_bytes_def word_bytes_def)

text \<open>The number of bytes behind a pointer into the heap.\<close>

definition room_at :: "heap \<Rightarrow> addr \<Rightarrow> nat" where
  "room_at h p = (case addr_blk h (TO_BLOCK_PTR p) of
       None \<Rightarrow> 0
     | Some i \<Rightarrow> BLOCK_SIZE * unat (blocks (blk h i) AND NOT MEM_MASK) - BLOCKOVERHEAD)"

definition store_at :: "addr \<Rightarrow> nat \<Rightarrow> u8 list \<Rightarrow> 'a msg_sys_scheme \<Rightarrow> 'a msg_sys_scheme option" where
  "store_at p i bs k = (if i + length bs \<le> room_at (heap_of k) p
     then Some (k\<lparr>bytes_of := put_bytes (p + i) bs (bytes_of k)\<rparr>) else None)"

section \<open>\<^verbatim>\<open>uart_system.c\<close>: completion of a transfer\<close>

definition uart_send_done :: "u8 \<Rightarrow> 'a uart_sys_scheme \<Rightarrow> 'a uart_sys_scheme option" where
  "uart_send_done status k =
     (let s = usys k in
      if us_calling_mod_id s TX \<noteq> NULL_PID \<and> us_state s TX = UART_SYS_BUSY then do {
        let k1 = k\<lparr>usys := s\<lparr>us_state := (us_state s)(TX := UART_SYS_WAIT)\<rparr>\<rparr>;
        (k2, r) \<leftarrow> post_short (us_calling_mod_id s TX) UART_PID MSG_UART_SEND_DONE 0 0
          (if has_flag status UART_SYS_ERROR_FLAG then SOS_MSG_SEND_FAIL OR SOS_MSG_HIGH_PRIORITY
           else SOS_MSG_HIGH_PRIORITY) k1;
        Some k2
      } else Some k)"

section \<open>\<^verbatim>\<open>uart.c\<close>: transmission\<close>

definition uart_init :: "'a uart_sys_scheme \<Rightarrow> 'a uart_sys_scheme" where
  "uart_init k =
     (let f = \<lambda>s. s\<lparr>u_msgHdr := NULL, u_crc := 0, u_buff := NULL, u_idx := 0, u_flags := 0,
                     u_msg_state := SOS_MSG_NO_STATE, u_hdlc_state := HDLC_IDLE, u_state := UART_IDLE\<rparr>
      in upd_rx f (upd_tx f k))"

definition uart_rx_msg_gc :: "'a uart_sys_scheme \<Rightarrow> 'a uart_sys_scheme option" where
  "uart_rx_msg_gc k = (if u_msgHdr (urx k) \<noteq> NULL then mq_gc_mark_one_hdr (u_msgHdr (urx k)) k else Some k)"

definition escaped :: "u8 \<Rightarrow> bool" where
  "escaped byte \<longleftrightarrow> byte = HDLC_FLAG \<or> byte = HDLC_CTR_ESC \<or> byte = HDLC_EXT"

definition uart_send_byte :: "u8 \<Rightarrow> 'a uart_sys_scheme \<Rightarrow> 'a uart_sys_scheme" where
  "uart_send_byte byte k =
     (let k1 = (if has_flag (u_flags (utx k)) UART_CRC_FLAG \<and> u_hdlc_state (utx k) = HDLC_DATA
                then upd_tx (\<lambda>s. s\<lparr>u_crc := crcByte (u_crc s) byte\<rparr>) k else k)
      in if u_hdlc_state (utx k1) = HDLC_ESCAPE
         then upd_tx (\<lambda>s. s\<lparr>u_hdlc_state := tx_saved_state k1, u_idx := u_idx s + 1\<rparr>)
                (uart_setByte (0x20 XOR byte) k1)
         else if escaped byte
         then uart_setByte HDLC_CTR_ESC
                (upd_tx (\<lambda>s. s\<lparr>u_hdlc_state := HDLC_ESCAPE\<rparr>) (k1\<lparr>tx_saved_state := u_hdlc_state (utx k1)\<rparr>))
         else upd_tx (\<lambda>s. s\<lparr>u_idx := u_idx s + 1\<rparr>) (uart_setByte byte k1))"

definition uart_getState :: "u8 \<Rightarrow> 'a uart_sys_scheme \<Rightarrow> uart_mode" where
  "uart_getState flags k = (if has_flag flags UART_SYS_TX_FLAG then u_state (utx k) else u_state (urx k))"

text \<open>
  The test of the message type reads the header also for a transfer of raw bytes; on a null
  pointer it has no defined result.
\<close>

definition uart_startTransceiverTx ::
    "u32 \<Rightarrow> addr \<Rightarrow> u8 \<Rightarrow> u8 \<Rightarrow> 'a uart_sys_scheme \<Rightarrow> ('a uart_sys_scheme \<times> int) option" where
  "uart_startTransceiverTx now msg msg_len flags k =
     (if u_state (utx k) \<noteq> UART_IDLE then Some (k, - EBUSY)
      else let k1 = upd_tx (\<lambda>s. s\<lparr>u_flags := UART_SYS_SHARED_FLAGS_MSK AND flags\<rparr>) k;
               k2 = (if has_flag (u_flags (utx k1)) UART_SOS_MSG_FLAG
                     then upd_tx (\<lambda>s. s\<lparr>u_msgHdr := msg, u_msgLen := m_len (headers k1 msg), u_buff := m_data (headers k1 msg)\<rparr>) k1
                     else upd_tx (\<lambda>s. s\<lparr>u_buff := msg, u_msgLen := msg_len\<rparr>) k1);
               k3 = upd_tx (\<lambda>s. s\<lparr>u_idx := 0, u_state := UART_HDLC_START, u_hdlc_state := HDLC_START\<rparr>) k2;
               hdr = u_msgHdr (utx k3)
           in if hdr = NULL then None
              else let k4 = (if m_type (headers k3 hdr) = MSG_TIMESTAMP
                             then k3\<lparr>bytes_of := put_bytes (m_data (headers k3 hdr)) (long_bytes now) (bytes_of k3)\<rparr>
                             else k3)
                   in Some (uart_setByte HDLC_FLAG (k4\<lparr>tx_interrupt := True\<rparr>), SOS_OK))"

text \<open>The cases of the transmission interrupt.\<close>

definition tx_protocol_byte :: "'a uart_sys_scheme \<Rightarrow> u8" where
  "tx_protocol_byte k = (if has_flag (u_flags (utx k)) UART_SOS_MSG_FLAG then HDLC_SOS_MSG else HDLC_RAW)"

definition tx_hdr :: "'a uart_sys_scheme \<Rightarrow> 'a uart_sys_scheme option" where
  "tx_hdr k =
     (let x = headers k (u_msgHdr (utx k)); i = unat (u_idx (utx k)) in
      if i < length (hdr_bytes x) then
        let k1 = uart_send_byte (hdr_bytes x ! i) k in
        Some (if u_idx (utx k1) = SOS_MSG_HEADER_SIZE \<and> u_hdlc_state (utx k1) \<noteq> HDLC_ESCAPE then
                (if m_len (headers k1 (u_msgHdr (utx k1))) \<noteq> 0
                 then upd_tx (\<lambda>s. s\<lparr>u_idx := 0, u_msg_state := SOS_MSG_TX_DATA\<rparr>) k1
                 else upd_tx (\<lambda>s. s\<lparr>u_idx := 0, u_hdlc_state := HDLC_CRC, u_msg_state := SOS_MSG_TX_CRC_LOW\<rparr>) k1)
              else k1)
      else None)"

definition tx_data :: "'a uart_sys_scheme \<Rightarrow> 'a uart_sys_scheme" where
  "tx_data k =
     (let k1 = uart_send_byte (bytes_of k (u_buff (utx k) + unat (u_idx (utx k)))) k in
      if u_idx (utx k1) = u_msgLen (utx k1) \<and> u_hdlc_state (utx k1) \<noteq> HDLC_ESCAPE then
        (if has_flag (u_flags (utx k1)) UART_CRC_FLAG
         then upd_tx (\<lambda>s. s\<lparr>u_hdlc_state := HDLC_CRC, u_msg_state := SOS_MSG_TX_CRC_LOW\<rparr>) k1
         else uart_setByte HDLC_FLAG (upd_tx (\<lambda>s. s\<lparr>u_state := UART_END\<rparr>) k1))
      else k1)"

definition tx_crc_low :: "'a uart_sys_scheme \<Rightarrow> 'a uart_sys_scheme" where
  "tx_crc_low k =
     (let k1 = uart_send_byte (ucast (u_crc (utx k))) k in
      if u_hdlc_state (utx k1) \<noteq> HDLC_ESCAPE then upd_tx (\<lambda>s. s\<lparr>u_msg_state := SOS_MSG_TX_CRC_HIGH\<rparr>) k1 else k1)"

definition tx_crc_high :: "'a uart_sys_scheme \<Rightarrow> 'a uart_sys_scheme" where
  "tx_crc_high k =
     (let k1 = uart_send_byte (ucast (drop_bit 8 (u_crc (utx k)))) k in
      if u_hdlc_state (utx k1) \<noteq> HDLC_ESCAPE
      then upd_tx (\<lambda>s. s\<lparr>u_msg_state := SOS_MSG_TX_END, u_state := UART_HDLC_STOP\<rparr>) k1 else k1)"

definition tx_payload :: "'a uart_sys_scheme \<Rightarrow> 'a uart_sys_scheme option" where
  "tx_payload k = (case u_msg_state (utx k) of
       SOS_MSG_TX_HDR \<Rightarrow> tx_hdr k
     | SOS_MSG_TX_DATA \<Rightarrow> Some (tx_data k)
     | SOS_MSG_TX_RAW \<Rightarrow> Some (tx_data k)
     | SOS_MSG_TX_CRC_LOW \<Rightarrow> Some (tx_crc_low k)
     | SOS_MSG_TX_CRC_HIGH \<Rightarrow> Some (tx_crc_high k)
     | _ \<Rightarrow> Some k)"

definition uart_send_interrupt :: "'a uart_sys_scheme \<Rightarrow> 'a uart_sys_scheme option" where
  "uart_send_interrupt k = (case u_state (utx k) of
       UART_HDLC_START \<Rightarrow>
         (let k1 = upd_tx (\<lambda>s. s\<lparr>u_hdlc_state := HDLC_DATA, u_state := UART_PROTOCOL\<rparr>) (uart_setByte (tx_protocol_byte k) k)
          in Some (if has_flag (u_flags (utx k1)) UART_CRC_FLAG
                   then upd_tx (\<lambda>s. s\<lparr>u_crc := crcByte 0 (tx_protocol_byte k1)\<rparr>) k1 else k1))
     | UART_PROTOCOL \<Rightarrow>
         tx_payload (upd_tx (\<lambda>s. s\<lparr>u_state := UART_DATA, u_msg_state :=
           (if has_flag (u_flags s) UART_SOS_MSG_FLAG then SOS_MSG_TX_HDR else SOS_MSG_TX_RAW)\<rparr>) k)
     | UART_DATA \<Rightarrow> tx_payload k
     | UART_HDLC_STOP \<Rightarrow>
         Some (upd_tx (\<lambda>s. s\<lparr>u_state := UART_END, u_msg_state := SOS_MSG_NO_STATE\<rparr>) (uart_setByte HDLC_FLAG k))
     | UART_END \<Rightarrow>
         uart_send_done (u_flags (utx k) AND NOT UART_ERROR_FLAG)
           (upd_tx (\<lambda>s. s\<lparr>u_state := UART_IDLE, u_hdlc_state := HDLC_IDLE\<rparr>) (k\<lparr>tx_interrupt := False\<rparr>))
     | _ \<Rightarrow>
         (let k1 = upd_tx (\<lambda>s. s\<lparr>u_flags := u_flags s OR UART_ERROR_FLAG, u_state := UART_IDLE, u_hdlc_state := HDLC_IDLE\<rparr>)
                     (k\<lparr>tx_interrupt := False\<rparr>)
          in uart_send_done (u_flags (utx k1) AND NOT UART_ERROR_FLAG) k1))"

section \<open>\<^verbatim>\<open>net_stack.h\<close> and \<^verbatim>\<open>sos_uart_mgr.c\<close>\<close>

definition handle_incoming_msg :: "addr \<Rightarrow> u16 \<Rightarrow> 'a msg_sys_scheme \<Rightarrow> 'a msg_sys_scheme option" where
  "handle_incoming_msg msg channel_flag k =
     sched_msg_alloc msg (upd_msg msg (\<lambda>x. x\<lparr>m_flag := m_flag x OR SOS_MSG_FROM_NETWORK OR channel_flag\<rparr>) k)"

definition check_uart_address :: "u16 \<Rightarrow> 'a uart_sys_scheme \<Rightarrow> int" where
  "check_uart_address a k = (if a \<noteq> uart_address k then - EINVAL else SOS_OK)"

definition set_uart_address :: "u16 \<Rightarrow> 'a uart_sys_scheme \<Rightarrow> 'a uart_sys_scheme" where
  "set_uart_address a k = k\<lparr>uart_address := a\<rparr>"

section \<open>\<^verbatim>\<open>uart.c\<close>: reception\<close>

definition uart_startTransceiverRx :: "u8 \<Rightarrow> u8 \<Rightarrow> 'a uart_sys_scheme \<Rightarrow> ('a uart_sys_scheme \<times> int) option" where
  "uart_startTransceiverRx rx_len flags k =
     (if u_state (urx k) \<noteq> UART_IDLE then Some (k, - EBUSY)
      else do {
        let k1 = upd_rx (\<lambda>s. s\<lparr>u_flags := UART_SYS_SHARED_FLAGS_MSK AND flags\<rparr>) k;
        (k2, p) \<leftarrow> (if has_flag flags UART_SOS_MSG_FLAG then do {
                      (k', m) \<leftarrow> msg_create k1; Some (upd_rx (\<lambda>s. s\<lparr>u_msgHdr := m\<rparr>) k', m) }
                    else do {
                      (k', b) \<leftarrow> k_malloc (ucast rx_len) UART_PID k1; Some (upd_rx (\<lambda>s. s\<lparr>u_buff := b\<rparr>) k', b) });
        if p = NULL then Some (k2, - ENOMEM)
        else Some ((upd_rx (\<lambda>s. s\<lparr>u_msgLen := rx_len, u_idx := 0, u_crc := 0, u_state := UART_HDLC_START,
                                 u_hdlc_state := HDLC_START\<rparr>) k2)\<lparr>rx_interrupt := True\<rparr>, SOS_OK)
      })"

definition uart_getRecievedData :: "'a uart_sys_scheme \<Rightarrow> 'a uart_sys_scheme \<times> addr" where
  "uart_getRecievedData k =
     (if has_flag (u_flags (urx k)) UART_DATA_RDY_FLAG then
        let k1 = upd_rx (\<lambda>s. s\<lparr>u_flags := u_flags s AND NOT UART_DATA_RDY_FLAG\<rparr>) k
        in (k1, if has_flag (u_flags (urx k1)) UART_SOS_MSG_FLAG then u_msgHdr (urx k1) else u_buff (urx k1))
      else (k, NULL))"

definition uart_reset_recv :: "'a uart_sys_scheme \<Rightarrow> 'a uart_sys_scheme outcome option" where
  "uart_reset_recv k =
     continue (if u_msgHdr (urx k) \<noteq> NULL
               then continue (msg_dispose (u_msgHdr (urx k)) k) (\<lambda>k'. Some (Done (upd_rx (\<lambda>s. s\<lparr>u_msgHdr := NULL\<rparr>) k')))
               else Some (Done k))
       (\<lambda>k1. Some (Done (upd_rx (\<lambda>s. s\<lparr>u_state := UART_IDLE, u_msg_state := SOS_MSG_NO_STATE, u_hdlc_state := HDLC_IDLE\<rparr>) k1)))"

text \<open>The start of a message: a header of its own, or the one left over, without its payload.\<close>

definition rx_new_msg :: "'a uart_sys_scheme \<Rightarrow> 'a uart_sys_scheme option" where
  "rx_new_msg k =
     (let m = u_msgHdr (urx k) in
      if m = NULL then do { (k1, m') \<leftarrow> msg_create k; Some (upd_rx (\<lambda>s. s\<lparr>u_msgHdr := m'\<rparr>) k1) }
      else if m_data (headers k m) \<noteq> NULL \<and> flag_msg_release (m_flag (headers k m)) then do {
        k1 \<leftarrow> k_free (m_data (headers k m)) k;
        Some (upd_msg m (\<lambda>x. x\<lparr>m_flag := m_flag x AND NOT SOS_MSG_RELEASE\<rparr>) k1)
      } else Some k)"

definition rx_protocol :: "u8 \<Rightarrow> u8 \<Rightarrow> 'a uart_sys_scheme \<Rightarrow> 'a uart_sys_scheme outcome option" where
  "rx_protocol err byte_in k =
     (if err \<noteq> 0 then uart_reset_recv k
      else if byte_in = HDLC_FLAG then Some (Done (upd_rx (\<lambda>s. s\<lparr>u_state := UART_HDLC_START\<rparr>) k))
      else if byte_in = HDLC_SOS_MSG then do {
        k1 \<leftarrow> rx_new_msg k;
        if u_msgHdr (urx k1) \<noteq> NULL
        then Some (Done (upd_rx (\<lambda>s. s\<lparr>u_msg_state := SOS_MSG_RX_HDR, u_crc := crcByte 0 byte_in,
                      u_flags := u_flags s OR UART_SOS_MSG_FLAG, u_idx := 0, u_state := UART_DATA, u_hdlc_state := HDLC_DATA\<rparr>) k1))
        else uart_reset_recv k1
      }
      else if byte_in = HDLC_RAW then do {
        (k1, b) \<leftarrow> k_malloc (ucast UART_MAX_MSG_LEN) UART_PID k;
        let k2 = upd_rx (\<lambda>s. s\<lparr>u_buff := b\<rparr>) k1;
        continue (if b \<noteq> NULL
                  then let k3 = upd_rx (\<lambda>s. s\<lparr>u_msg_state := SOS_MSG_RX_RAW\<rparr>) k2;
                           k4 = (if has_flag (u_flags (urx k3)) UART_CRC_FLAG
                                 then upd_rx (\<lambda>s. s\<lparr>u_crc := crcByte 0 byte_in\<rparr>) k3 else k3)
                       in Some (Done (upd_rx (\<lambda>s. s\<lparr>u_state := UART_DATA, u_hdlc_state := HDLC_DATA\<rparr>) k4))
                  else uart_reset_recv k2)
          (\<lambda>k5. Some (Done (upd_rx (\<lambda>s. s\<lparr>u_idx := 0\<rparr>) k5)))
      }
      else uart_reset_recv k)"

text \<open>The end of the header: the block for the payload.\<close>

definition rx_hdr_end :: "'a uart_sys_scheme \<Rightarrow> 'a uart_sys_scheme outcome option" where
  "rx_hdr_end k =
     (let m = u_msgHdr (urx k);
          k1 = upd_rx (\<lambda>s. s\<lparr>u_msgLen := m_len (headers k m)\<rparr>) k
      in if u_msgLen (urx k1) < UART_MAX_MSG_LEN then
           if u_msgLen (urx k1) \<noteq> 0 then do {
             (k2, b) \<leftarrow> k_malloc (ucast (u_msgLen (urx k1))) UART_PID k1;
             let k3 = upd_rx (\<lambda>s. s\<lparr>u_buff := b\<rparr>) k2;
             if b \<noteq> NULL
             then Some (Done (upd_rx (\<lambda>s. s\<lparr>u_msg_state := SOS_MSG_RX_DATA, u_idx := 0\<rparr>)
                    (upd_msg m (\<lambda>x. x\<lparr>m_data := b, m_flag := SOS_MSG_RELEASE\<rparr>) k3)))
             else uart_reset_recv k3
           }
           else Some (Done (upd_rx (\<lambda>s. s\<lparr>u_msg_state := SOS_MSG_RX_CRC_LOW\<rparr>)
                  (upd_msg m (\<lambda>x. x\<lparr>m_flag := m_flag x AND NOT SOS_MSG_RELEASE, m_data := NULL\<rparr>) k1)))
         else uart_reset_recv k1)"

definition rx_hdr :: "u8 \<Rightarrow> 'a uart_sys_scheme \<Rightarrow> 'a uart_sys_scheme outcome option" where
  "rx_hdr byte_in k =
     (if byte_in = HDLC_FLAG then uart_reset_recv k
      else do {
        x \<leftarrow> put_hdr_byte (u_idx (urx k)) byte_in (headers k (u_msgHdr (urx k)));
        let k1 = upd_rx (\<lambda>s. s\<lparr>u_idx := u_idx s + 1, u_crc := crcByte (u_crc s) byte_in\<rparr>)
                   (upd_msg (u_msgHdr (urx k)) (\<lambda>_. x) k);
        if u_idx (urx k1) = SOS_MSG_HEADER_SIZE then rx_hdr_end k1 else Some (Done k1)
      })"

definition rx_data :: "u8 \<Rightarrow> 'a uart_sys_scheme \<Rightarrow> 'a uart_sys_scheme outcome option" where
  "rx_data byte_in k = do {
     k1 \<leftarrow> store_at (u_buff (urx k)) (unat (u_idx (urx k))) [byte_in] k;
     let k2 = upd_rx (\<lambda>s. s\<lparr>u_idx := u_idx s + 1\<rparr>) k1;
     let k3 = (if has_flag (u_flags (urx k2)) UART_CRC_FLAG
               then upd_rx (\<lambda>s. s\<lparr>u_crc := crcByte (u_crc s) byte_in\<rparr>) k2 else k2);
     if u_idx (urx k3) = u_msgLen (urx k3) then
       if has_flag (u_flags (urx k3)) UART_SOS_MSG_FLAG
       then Some (Done (upd_rx (\<lambda>s. s\<lparr>u_hdlc_state := HDLC_CRC, u_msg_state := SOS_MSG_RX_CRC_LOW\<rparr>) k3))
       else uart_reset_recv k3
     else Some (Done k3)
   }"

definition rx_byte :: "u8 \<Rightarrow> 'a uart_sys_scheme \<Rightarrow> 'a uart_sys_scheme outcome option" where
  "rx_byte b k = (case u_msg_state (urx k) of
       SOS_MSG_RX_HDR \<Rightarrow> rx_hdr b k
     | SOS_MSG_RX_RAW \<Rightarrow> rx_data b k
     | SOS_MSG_RX_DATA \<Rightarrow> rx_data b k
     | SOS_MSG_RX_CRC_LOW \<Rightarrow>
         Some (Done (upd_rx (\<lambda>s. s\<lparr>u_msg_state := SOS_MSG_RX_CRC_HIGH\<rparr>) (k\<lparr>crc_in := ucast b\<rparr>)))
     | SOS_MSG_RX_CRC_HIGH \<Rightarrow>
         Some (Done (upd_rx (\<lambda>s. s\<lparr>u_hdlc_state := HDLC_PADDING, u_msg_state := SOS_MSG_RX_END, u_state := UART_HDLC_STOP\<rparr>)
           (k\<lparr>crc_in := crc_in k OR push_bit 8 (ucast b)\<rparr>)))
     | _ \<Rightarrow> uart_reset_recv k)"

definition rx_payload :: "u8 \<Rightarrow> u8 \<Rightarrow> 'a uart_sys_scheme \<Rightarrow> 'a uart_sys_scheme outcome option" where
  "rx_payload err byte_in k =
     (if err \<noteq> 0 then uart_reset_recv k
      else if byte_in = HDLC_CTR_ESC
      then Some (Done (upd_rx (\<lambda>s. s\<lparr>u_hdlc_state := HDLC_ESCAPE\<rparr>) (k\<lparr>rx_saved_state := u_hdlc_state (urx k)\<rparr>)))
      else if byte_in = HDLC_FLAG then uart_reset_recv k
      else if u_hdlc_state (urx k) = HDLC_ESCAPE
      then rx_byte (byte_in XOR 0x20) (upd_rx (\<lambda>s. s\<lparr>u_hdlc_state := rx_saved_state k\<rparr>) k)
      else rx_byte byte_in k)"

text \<open>The stop symbol: the message enters the kernel, or is dropped with a wrong checksum.\<close>

definition rx_stop :: "u32 \<Rightarrow> u8 \<Rightarrow> 'a uart_sys_scheme \<Rightarrow> 'a uart_sys_scheme outcome option" where
  "rx_stop now byte_in k =
     (if byte_in \<noteq> HDLC_FLAG then Some (Done k)
      else let k0 = upd_rx (\<lambda>s. s\<lparr>u_hdlc_state := HDLC_IDLE\<rparr>) k; m = u_msgHdr (urx k0) in
        continue (if crc_in k0 = u_crc (urx k0) then do {
                    let k1 = set_uart_address (m_saddr (headers k0 m)) k0;
                    k2 \<leftarrow> (if m_type (headers k1 m) = MSG_TIMESTAMP
                          then store_at (m_data (headers k1 m)) 4 (long_bytes now) k1 else Some k1);
                    k3 \<leftarrow> handle_incoming_msg m SOS_MSG_UART_IO k2;
                    Some (Done k3)
                  } else msg_dispose m k0)
          (\<lambda>k4. Some (Done (upd_rx (\<lambda>s. s\<lparr>u_msgHdr := NULL, u_state := UART_IDLE, u_msg_state := SOS_MSG_NO_STATE,
                                      u_hdlc_state := HDLC_IDLE\<rparr>) k4))))"

definition uart_recv_interrupt :: "u32 \<Rightarrow> u8 \<Rightarrow> u8 \<Rightarrow> 'a uart_sys_scheme \<Rightarrow> 'a uart_sys_scheme outcome option" where
  "uart_recv_interrupt now err byte_in k = (case u_state (urx k) of
       UART_IDLE \<Rightarrow>
         Some (Done (if err \<noteq> 0 \<or> byte_in \<noteq> HDLC_FLAG then k else upd_rx (\<lambda>s. s\<lparr>u_state := UART_HDLC_START\<rparr>) k))
     | UART_HDLC_START \<Rightarrow> rx_protocol err byte_in k
     | UART_PROTOCOL \<Rightarrow> rx_protocol err byte_in k
     | UART_DATA \<Rightarrow> rx_payload err byte_in k
     | UART_HDLC_STOP \<Rightarrow> rx_stop now byte_in k
     | _ \<Rightarrow> uart_reset_recv k)"

section \<open>\<^verbatim>\<open>uart_system.c\<close>: reservation and transfers\<close>

definition uart_system_init :: "'a uart_sys_scheme \<Rightarrow> 'a uart_sys_scheme \<times> int" where
  "uart_system_init k =
     ((uart_init k)\<lparr>usys := (usys k)\<lparr>us_calling_mod_id := (\<lambda>_. NULL_PID), us_flags := (\<lambda>_. 0), us_txBuf := NULL,
                              us_system_state := UART_SYS_IDLE, us_state := (\<lambda>_. UART_SYS_IDLE)\<rparr>\<rparr>, SOS_OK)"

definition ker_uart_reserve_bus :: "sos_pid_t \<Rightarrow> u8 \<Rightarrow> 'a uart_sys_scheme \<Rightarrow> 'a uart_sys_scheme \<times> int" where
  "ker_uart_reserve_bus calling_id flags k =
     (let s = usys k; d = (if has_flag flags UART_SYS_TX_FLAG then TX else RX) in
      if us_calling_mod_id s d \<noteq> NULL_PID \<and> (us_calling_mod_id s d \<noteq> calling_id \<or> us_state s d \<noteq> UART_SYS_WAIT)
      then (k, - EBUSY)
      else (k\<lparr>usys := s\<lparr>us_calling_mod_id := (us_calling_mod_id s)(d := calling_id), us_system_state := UART_SYS_BUSY,
                       us_flags := (us_flags s)(d := flags), us_state := (us_state s)(d := UART_SYS_WAIT)\<rparr>\<rparr>, SOS_OK))"

definition bus_quiet :: "uart_system_state_t \<Rightarrow> direction \<Rightarrow> bool" where
  "bus_quiet s d \<longleftrightarrow> us_state s d = UART_SYS_IDLE \<or> us_state s d = UART_SYS_WAIT"

definition release_direction :: "sos_pid_t \<Rightarrow> direction \<Rightarrow> uart_system_state_t \<Rightarrow> uart_system_state_t" where
  "release_direction calling_id d s =
     (if us_calling_mod_id s d = calling_id \<and> bus_quiet s d
      then s\<lparr>us_flags := (us_flags s)(d := 0), us_calling_mod_id := (us_calling_mod_id s)(d := NULL_PID),
             us_state := (us_state s)(d := UART_SYS_IDLE)\<rparr>
      else s)"

definition ker_uart_release_bus :: "sos_pid_t \<Rightarrow> 'a uart_sys_scheme \<Rightarrow> 'a uart_sys_scheme \<times> int" where
  "ker_uart_release_bus calling_id k =
     (let s = usys k in
      if calling_id \<noteq> UART_PID \<and> us_calling_mod_id s TX \<noteq> calling_id \<and> us_calling_mod_id s RX \<noteq> calling_id then (k, - EPERM)
      else if calling_id \<noteq> UART_PID \<and> (us_calling_mod_id s TX = calling_id \<and> \<not> bus_quiet s TX) \<and>
              (us_calling_mod_id s RX = calling_id \<and> \<not> bus_quiet s RX) then (k, - EBUSY)
      else let s1 = release_direction calling_id RX (release_direction calling_id TX s)
           in (k\<lparr>usys := (if us_state s1 TX = UART_SYS_IDLE \<and> us_state s1 RX = UART_SYS_IDLE
                         then s1\<lparr>us_system_state := UART_SYS_IDLE\<rparr> else s1)\<rparr>, SOS_OK))"

definition ker_uart_send_data ::
    "u32 \<Rightarrow> addr \<Rightarrow> u8 \<Rightarrow> sos_pid_t \<Rightarrow> 'a uart_sys_scheme \<Rightarrow> ('a uart_sys_scheme \<times> int) option" where
  "ker_uart_send_data now buff msg_size calling_id k =
     (let s = usys k in
      if us_state s TX = UART_SYS_IDLE then Some (k, - EINVAL)
      else if us_calling_mod_id s TX \<noteq> calling_id \<or> us_state s TX \<noteq> UART_SYS_WAIT then Some (k, - EBUSY)
      else do {
        (k1, r) \<leftarrow> uart_startTransceiverTx now buff msg_size (us_flags s TX) (k\<lparr>usys := s\<lparr>us_txBuf := buff\<rparr>\<rparr>);
        if r = SOS_OK
        then Some (k1\<lparr>usys := (usys k1)\<lparr>us_state := (us_state (usys k1))(TX := UART_SYS_BUSY), us_system_state := UART_SYS_BUSY\<rparr>\<rparr>, SOS_OK)
        else Some (k1, - EBUSY)
      })"

definition ker_uart_read_data :: "u8 \<Rightarrow> sos_pid_t \<Rightarrow> 'a uart_sys_scheme \<Rightarrow> ('a uart_sys_scheme \<times> int) option" where
  "ker_uart_read_data read_size calling_id k =
     (let s = usys k in
      if us_state s RX = UART_SYS_IDLE then Some (k, - EINVAL)
      else if us_calling_mod_id s RX \<noteq> calling_id \<or> us_state s RX \<noteq> UART_SYS_WAIT then Some (k, - EBUSY)
      else do {
        (k1, r) \<leftarrow> uart_startTransceiverRx read_size (us_flags s RX) k;
        if r = SOS_OK
        then Some (k1\<lparr>usys := (usys k1)\<lparr>us_state := (us_state (usys k1))(RX := UART_SYS_BUSY), us_system_state := UART_SYS_BUSY\<rparr>\<rparr>, SOS_OK)
        else Some (k1, - EBUSY)
      })"

text \<open>
  \<^verbatim>\<open>uart_read_done\<close>: the first test returns or jumps to the error message; the rest of
  the function is not reached.
\<close>

definition uart_read_done :: "u8 \<Rightarrow> u8 \<Rightarrow> 'a uart_sys_scheme \<Rightarrow> 'a uart_sys_scheme option" where
  "uart_read_done len status k =
     (if has_flag status UART_SYS_ERROR_FLAG \<and> us_calling_mod_id (usys k) RX \<noteq> NULL_PID then do {
        (k1, r) \<leftarrow> post_short (us_calling_mod_id (usys k) RX) UART_PID MSG_ERROR READ_ERROR 0 SOS_MSG_HIGH_PRIORITY k;
        Some k1
      } else Some k)"

section \<open>\<^verbatim>\<open>sos_uart.c\<close>: the queue of outgoing messages\<close>

definition uart_enqueue :: "addr \<Rightarrow> 'a uart_sys_scheme \<Rightarrow> 'a uart_sys_scheme" where
  "uart_enqueue m k = (let (q, ms) = mq_enqueue (uartpq k) m (headers k) in k\<lparr>uartpq := q, headers := ms\<rparr>)"

definition uart_dequeue :: "'a uart_sys_scheme \<Rightarrow> 'a uart_sys_scheme" where
  "uart_dequeue k = (let (q, m) = mq_dequeue (uartpq k) (headers k) in k\<lparr>uartpq := q, su_msg_ptr := m\<rparr>)"

definition sos_uart_init :: "'a uart_sys_scheme \<Rightarrow> 'a uart_sys_scheme outcome option" where
  "sos_uart_init k =
     continue (ker_register_module (uart_header k)
                 (set_uart_address (node_address k) (k\<lparr>su_state := SOS_UART_IDLE, su_msg_ptr := NULL\<rparr>)))
       (\<lambda>(k1, r). Some (Done (k1\<lparr>uartpq := mq_init\<rparr>)))"

text \<open>The label \<^verbatim>\<open>queue_and_backoff\<close>.\<close>

definition queue_and_backoff ::
    "'a uart_sys_scheme callbacks \<Rightarrow> addr \<Rightarrow> 'a uart_sys_scheme \<Rightarrow> 'a uart_sys_scheme outcome option" where
  "queue_and_backoff call m k =
     continue (ker_timer_restart call KER_UART_PID SOS_UART_TID SOS_UART_BACKOFF_TIME
                 (uart_enqueue m (k\<lparr>su_state := SOS_UART_BACKOFF\<rparr>)))
       (\<lambda>(k1, r). Some (Done k1))"

definition uart_try_send_reserved_bus ::
    "'a uart_sys_scheme callbacks \<Rightarrow> u32 \<Rightarrow> addr \<Rightarrow> 'a uart_sys_scheme \<Rightarrow> 'a uart_sys_scheme outcome option" where
  "uart_try_send_reserved_bus call now m k = do {
     (k1, r) \<leftarrow> ker_uart_send_data now m (m_len (headers k m)) KER_UART_PID k;
     if r \<noteq> SOS_OK then queue_and_backoff call m k1
     else Some (Done (k1\<lparr>su_state := SOS_UART_TX_MSG\<rparr>))
   }"

definition uart_try_reserve_and_send ::
    "'a uart_sys_scheme callbacks \<Rightarrow> u32 \<Rightarrow> addr \<Rightarrow> 'a uart_sys_scheme \<Rightarrow> 'a uart_sys_scheme outcome option" where
  "uart_try_reserve_and_send call now m k =
     (let (k1, r) = ker_uart_reserve_bus KER_UART_PID (UART_SYS_TX_FLAG OR UART_SYS_SOS_MSG_FLAG) k in
      if r \<noteq> SOS_OK then queue_and_backoff call m (fst (ker_uart_release_bus KER_UART_PID k1))
      else uart_try_send_reserved_bus call now m k1)"

definition uart_msg_alloc ::
    "'a uart_sys_scheme callbacks \<Rightarrow> u32 \<Rightarrow> addr \<Rightarrow> 'a uart_sys_scheme \<Rightarrow> 'a uart_sys_scheme outcome option" where
  "uart_msg_alloc call now m k = do {
     k1 \<leftarrow> (if flag_msg_release (m_flag (headers k m)) then k_change_own (m_data (headers k m)) KER_UART_PID k else Some k);
     if su_state k1 = SOS_UART_IDLE then uart_try_reserve_and_send call now m (k1\<lparr>su_msg_ptr := m\<rparr>)
     else Some (Done (uart_enqueue m k1))
   }"

definition uart_gc :: "'a uart_sys_scheme \<Rightarrow> 'a uart_sys_scheme option" where
  "uart_gc k = do {
     k1 \<leftarrow> mq_gc_mark_payload (uartpq k) KER_UART_PID k;
     let m = su_msg_ptr k1;
     h \<leftarrow> (if m \<noteq> NULL \<and> flag_msg_release (m_flag (headers k1 m))
          then do { (h', r) \<leftarrow> ker_gc_mark KER_UART_PID (m_data (headers k1 m)) (heap_of k1); Some h' }
          else Some (heap_of k1));
     h2 \<leftarrow> malloc_gc KER_UART_PID h;
     Some (set_heap h2 k1)
   }"

definition uart_msg_gc :: "'a uart_sys_scheme \<Rightarrow> 'a uart_sys_scheme option" where
  "uart_msg_gc k = do {
     k1 \<leftarrow> uart_rx_msg_gc k;
     k2 \<leftarrow> (if su_msg_ptr k1 \<noteq> NULL then mq_gc_mark_one_hdr (su_msg_ptr k1) k1 else Some k1);
     mq_gc_mark_hdr (uartpq k2) k2
   }"

definition flag_send_fail :: "u16 \<Rightarrow> bool" where "flag_send_fail f \<longleftrightarrow> f AND SOS_MSG_SEND_FAIL \<noteq> 0"

definition sos_uart_msg_senddone ::
    "'a uart_sys_scheme callbacks \<Rightarrow> u32 \<Rightarrow> bool \<Rightarrow> 'a uart_sys_scheme \<Rightarrow> 'a uart_sys_scheme outcome option" where
  "sos_uart_msg_senddone call now failed k =
     continue (msg_send_senddone (su_msg_ptr k) (\<not> failed) KER_UART_PID (k\<lparr>su_msg_ptr := NULL\<rparr>)) (\<lambda>k1.
       let k2 = uart_dequeue k1 in
       if su_msg_ptr k2 \<noteq> NULL then uart_try_send_reserved_bus call now (su_msg_ptr k2) k2
       else Some (Done ((fst (ker_uart_release_bus KER_UART_PID k2))\<lparr>su_state := SOS_UART_IDLE\<rparr>)))"

definition sos_uart_msg_handler ::
    "'a uart_sys_scheme callbacks \<Rightarrow> u32 \<Rightarrow> addr \<Rightarrow> 'a uart_sys_scheme \<Rightarrow> ('a uart_sys_scheme \<times> int) outcome option" where
  "sos_uart_msg_handler call now msg k =
     (let t = m_type (headers k msg) in
      if t = MSG_INIT then do {
        (k1, r) \<leftarrow> ker_timer_init KER_UART_PID SOS_UART_TID TIMER_ONE_SHOT (k\<lparr>su_state := SOS_UART_IDLE\<rparr>);
        Some (Done (k1, SOS_OK))
      }
      else if t = MSG_FINAL then do { (k1, r) \<leftarrow> ker_timer_stop KER_UART_PID 0 k; Some (Done (k1, SOS_OK)) }
      else if t = MSG_UART_SEND_DONE then
        continue (sos_uart_msg_senddone call now (flag_send_fail (m_flag (headers k msg))) k) (\<lambda>k1. Some (Done (k1, SOS_OK)))
      else if t = MSG_TIMER_TIMEOUT then
        continue (let k1 = uart_dequeue k in
                  if su_msg_ptr k1 \<noteq> NULL then uart_try_reserve_and_send call now (su_msg_ptr k1) k1
                  else Some (Done ((fst (ker_uart_release_bus KER_UART_PID k1))\<lparr>su_state := SOS_UART_IDLE\<rparr>)))
          (\<lambda>k2. Some (Done (k2, SOS_OK)))
      else if t = MSG_ERROR then
        continue (let k1 = fst (ker_uart_release_bus KER_UART_PID k)
                  in msg_send_senddone (su_msg_ptr k1) False KER_UART_PID (k1\<lparr>su_msg_ptr := NULL\<rparr>))
          (\<lambda>k2. continue (ker_timer_restart call KER_UART_PID SOS_UART_TID SOS_UART_BACKOFF_TIME (k2\<lparr>su_state := SOS_UART_BACKOFF\<rparr>))
            (\<lambda>(k3, r). Some (Done (k3, SOS_OK))))
      else Some (Done (k, - EINVAL)))"

end
