(* ===== verification/Uart_Send.thy ===== *)
theory Uart_Send
  imports Uart
begin

text \<open>
  The transmitter of the serial link: once it has been started for a message, one interrupt per
  byte puts exactly the frame of the message on the line, with its header, its payload and its
  checksum escaped byte by byte, and the kernel is not touched until the last interrupt reports
  the end of the transfer.
\<close>

section \<open>The frame of a message\<close>

definition stuff :: "u8 \<Rightarrow> u8 list" where
  "stuff b = (if escaped b then [HDLC_CTR_ESC, 0x20 XOR b] else [b])"

definition stuff_all :: "u8 list \<Rightarrow> u8 list" where
  "stuff_all bs = concat (map stuff bs)"

definition uart_frame :: "u8 list \<Rightarrow> u8 list" where
  "uart_frame bs = [HDLC_FLAG, HDLC_SOS_MSG] @
     stuff_all (bs @ word_bytes (crc_of 0 (HDLC_SOS_MSG # bs))) @ [HDLC_FLAG]"

definition payload :: "'a msg_sys_scheme \<Rightarrow> addr \<Rightarrow> u8 list" where
  "payload k m = map (\<lambda>i. bytes_of k (m_data (headers k m) + i)) [0..<unat (m_len (headers k m))]"

definition msg_bytes :: "'a msg_sys_scheme \<Rightarrow> addr \<Rightarrow> u8 list" where
  "msg_bytes k m = hdr_bytes (headers k m) @ payload k m"

fun tx_run :: "nat \<Rightarrow> 'a uart_sys_scheme \<Rightarrow> 'a uart_sys_scheme option" where
  "tx_run 0 k = Some k"
| "tx_run (Suc n) k = do { k1 \<leftarrow> uart_send_interrupt k; tx_run n k1 }"

lemma tx_run_add: "tx_run (a + b) k = do { k1 \<leftarrow> tx_run a k; tx_run b k1 }"
  by (induction a arbitrary: k) (auto intro!: Option.bind_cong)

lemma stuff_all_simps [simp]:
  "stuff_all [] = []" "stuff_all (b # bs) = stuff b @ stuff_all bs" "stuff_all (bs @ cs) = stuff_all bs @ stuff_all cs"
  by (simp_all add: stuff_all_def)

section \<open>One byte\<close>

text \<open>The state in which the transmitter has sent a byte, whether or not it had to escape it.\<close>

definition tx_at :: "'a uart_sys_scheme \<Rightarrow> uart_state_t \<Rightarrow> u8 list \<Rightarrow> 'a uart_sys_scheme \<Rightarrow> bool" where
  "tx_at k0 s out k \<longleftrightarrow> (\<exists>sv. k = k0\<lparr>utx := s, tx_saved_state := sv, line_out := out\<rparr>)"

definition crc_if :: "uart_state_t \<Rightarrow> u8 \<Rightarrow> uart_state_t" where
  "crc_if s b = (if has_flag (u_flags s) UART_CRC_FLAG \<and> u_hdlc_state s = HDLC_DATA then s\<lparr>u_crc := crcByte (u_crc s) b\<rparr> else s)"

lemma crc_if_simps [simp]:
  "u_state (crc_if s b) = u_state s" "u_msg_state (crc_if s b) = u_msg_state s" "u_hdlc_state (crc_if s b) = u_hdlc_state s"
  "u_msgHdr (crc_if s b) = u_msgHdr s" "u_buff (crc_if s b) = u_buff s" "u_msgLen (crc_if s b) = u_msgLen s"
  "u_idx (crc_if s b) = u_idx s" "u_flags (crc_if s b) = u_flags s"
  by (simp_all add: crc_if_def)

lemma crc_if_restore: "(crc_if s b)\<lparr>u_hdlc_state := u_hdlc_state s, u_idx := i\<rparr> = (crc_if s b)\<lparr>u_idx := i\<rparr>"
  by (simp add: crc_if_def)

lemma tx_atE:
  assumes "tx_at k0 s out k"
  obtains sv where "k = k0\<lparr>utx := s, tx_saved_state := sv, line_out := out\<rparr>"
  using assms by (auto simp: tx_at_def)

lemma tx_atI: "k = k0\<lparr>utx := s, tx_saved_state := sv, line_out := out\<rparr> \<Longrightarrow> tx_at k0 s out k"
  by (auto simp: tx_at_def)

lemma send_byte_eqs:
  "\<not> escaped b \<Longrightarrow> u_hdlc_state (utx k) \<noteq> HDLC_ESCAPE \<Longrightarrow>
    uart_send_byte b k = k\<lparr>utx := (crc_if (utx k) b)\<lparr>u_idx := u_idx (utx k) + 1\<rparr>, line_out := line_out k @ [b]\<rparr>"
  "escaped b \<Longrightarrow> u_hdlc_state (utx k) \<noteq> HDLC_ESCAPE \<Longrightarrow>
    uart_send_byte b k = k\<lparr>utx := (crc_if (utx k) b)\<lparr>u_hdlc_state := HDLC_ESCAPE\<rparr>, tx_saved_state := u_hdlc_state (utx k),
      line_out := line_out k @ [HDLC_CTR_ESC]\<rparr>"
  "u_hdlc_state (utx k) = HDLC_ESCAPE \<Longrightarrow>
    uart_send_byte b k = k\<lparr>utx := (utx k)\<lparr>u_hdlc_state := tx_saved_state k, u_idx := u_idx (utx k) + 1\<rparr>,
      line_out := line_out k @ [0x20 XOR b]\<rparr>"
proof -
  obtain c where c: "(has_flag (u_flags (utx k)) UART_CRC_FLAG \<and> u_hdlc_state (utx k) = HDLC_DATA) = c" by simp
  show "uart_send_byte b k = k\<lparr>utx := (crc_if (utx k) b)\<lparr>u_idx := u_idx (utx k) + 1\<rparr>, line_out := line_out k @ [b]\<rparr>"
    if "\<not> escaped b" "u_hdlc_state (utx k) \<noteq> HDLC_ESCAPE"
    unfolding uart_send_byte_def crc_if_def c using that by (cases c) (simp_all add: uart_setByte_def)
  show "uart_send_byte b k = k\<lparr>utx := (crc_if (utx k) b)\<lparr>u_hdlc_state := HDLC_ESCAPE\<rparr>, tx_saved_state := u_hdlc_state (utx k),
      line_out := line_out k @ [HDLC_CTR_ESC]\<rparr>"
    if "escaped b" "u_hdlc_state (utx k) \<noteq> HDLC_ESCAPE"
    unfolding uart_send_byte_def crc_if_def c using that by (cases c) (simp_all add: uart_setByte_def)
  show "uart_send_byte b k = k\<lparr>utx := (utx k)\<lparr>u_hdlc_state := tx_saved_state k, u_idx := u_idx (utx k) + 1\<rparr>,
      line_out := line_out k @ [0x20 XOR b]\<rparr>"
    if "u_hdlc_state (utx k) = HDLC_ESCAPE"
    using that by (simp add: uart_send_byte_def uart_setByte_def)
qed

lemma send_plain:
  assumes "tx_at k0 s out k" "\<not> escaped b" "u_hdlc_state s \<noteq> HDLC_ESCAPE"
  shows "tx_at k0 ((crc_if s b)\<lparr>u_idx := u_idx s + 1\<rparr>) (out @ [b]) (uart_send_byte b k)"
  using assms(1)
proof (rule tx_atE)
  fix sv assume k: "k = k0\<lparr>utx := s, tx_saved_state := sv, line_out := out\<rparr>"
  have "utx k = s" "line_out k = out" unfolding k by simp_all
  then have "uart_send_byte b k = k\<lparr>utx := (crc_if s b)\<lparr>u_idx := u_idx s + 1\<rparr>, line_out := out @ [b]\<rparr>"
    using send_byte_eqs(1) [OF assms(2), of k] assms(3) by simp
  also have "\<dots> = k0\<lparr>utx := (crc_if s b)\<lparr>u_idx := u_idx s + 1\<rparr>, tx_saved_state := sv, line_out := out @ [b]\<rparr>"
    unfolding k by simp
  finally show ?thesis by (rule tx_atI)
qed

lemma send_escape:
  assumes "tx_at k0 s out k" "escaped b" "u_hdlc_state s \<noteq> HDLC_ESCAPE"
  shows "tx_at k0 ((crc_if s b)\<lparr>u_hdlc_state := HDLC_ESCAPE\<rparr>) (out @ [HDLC_CTR_ESC]) (uart_send_byte b k)"
    and "tx_saved_state (uart_send_byte b k) = u_hdlc_state s"
proof -
  obtain sv where k: "k = k0\<lparr>utx := s, tx_saved_state := sv, line_out := out\<rparr>" using assms(1) by (rule tx_atE)
  have "utx k = s" "line_out k = out" unfolding k by simp_all
  then have "uart_send_byte b k = k\<lparr>utx := (crc_if s b)\<lparr>u_hdlc_state := HDLC_ESCAPE\<rparr>,
      tx_saved_state := u_hdlc_state s, line_out := out @ [HDLC_CTR_ESC]\<rparr>"
    using send_byte_eqs(2) [OF assms(2), of k] assms(3) by simp
  also have "\<dots> = k0\<lparr>utx := (crc_if s b)\<lparr>u_hdlc_state := HDLC_ESCAPE\<rparr>,
      tx_saved_state := u_hdlc_state s, line_out := out @ [HDLC_CTR_ESC]\<rparr>"
    unfolding k by simp
  finally have e: "uart_send_byte b k = \<dots>" .
  show "tx_at k0 ((crc_if s b)\<lparr>u_hdlc_state := HDLC_ESCAPE\<rparr>) (out @ [HDLC_CTR_ESC]) (uart_send_byte b k)"
    using e by (rule tx_atI)
  show "tx_saved_state (uart_send_byte b k) = u_hdlc_state s" unfolding e by simp
qed

lemma send_escaped:
  assumes "tx_at k0 s out k" "u_hdlc_state s = HDLC_ESCAPE"
  shows "tx_at k0 (s\<lparr>u_hdlc_state := tx_saved_state k, u_idx := u_idx s + 1\<rparr>) (out @ [0x20 XOR b]) (uart_send_byte b k)"
  using assms(1)
proof (rule tx_atE)
  fix sv assume k: "k = k0\<lparr>utx := s, tx_saved_state := sv, line_out := out\<rparr>"
  have f: "utx k = s" "line_out k = out" "tx_saved_state k = sv" unfolding k by simp_all
  then have "uart_send_byte b k = k\<lparr>utx := s\<lparr>u_hdlc_state := sv, u_idx := u_idx s + 1\<rparr>, line_out := out @ [0x20 XOR b]\<rparr>"
    using send_byte_eqs(3) [of k b] assms(2) by simp
  also have "\<dots> = k0\<lparr>utx := s\<lparr>u_hdlc_state := sv, u_idx := u_idx s + 1\<rparr>, tx_saved_state := sv, line_out := out @ [0x20 XOR b]\<rparr>"
    unfolding k by simp
  finally show ?thesis unfolding f(3) by (rule tx_atI)
qed

lemma tx_at_utx: "tx_at k0 s out k \<Longrightarrow> utx k = s"
  by (auto simp: tx_at_def)

lemma tx_at_upd:
  assumes "tx_at k0 s out k"
  shows "tx_at k0 (g s) out (upd_tx g k)"
  using assms
proof (rule tx_atE)
  fix sv assume "k = k0\<lparr>utx := s, tx_saved_state := sv, line_out := out\<rparr>"
  then show ?thesis by (intro tx_atI [where sv = sv]) simp
qed

text \<open>
  A case of the interrupt that sends the byte \<open>b\<close> and, when it is out, changes the state of the
  transmitter by \<open>g\<close>.
\<close>

definition sends :: "u8 \<Rightarrow> (uart_state_t \<Rightarrow> uart_state_t) \<Rightarrow> 'a uart_sys_scheme \<Rightarrow> bool" where
  "sends b g k \<longleftrightarrow> uart_send_interrupt k =
     Some (let k1 = uart_send_byte b k in if u_hdlc_state (utx k1) = HDLC_ESCAPE then k1 else upd_tx g k1)"

lemma sends_byte:
  assumes k: "tx_at k0 s out k" "u_hdlc_state s \<noteq> HDLC_ESCAPE"
    and plain: "sends b g k"
    and esc: "\<And>k'. tx_at k0 ((crc_if s b)\<lparr>u_hdlc_state := HDLC_ESCAPE\<rparr>) (out @ [HDLC_CTR_ESC]) k' \<Longrightarrow> sends b g k'"
  shows "\<exists>k'. tx_run (length (stuff b)) k = Some k' \<and>
    tx_at k0 (g ((crc_if s b)\<lparr>u_idx := u_idx s + 1\<rparr>)) (out @ stuff b) k'"
proof (cases "escaped b")
  case False
  note t = send_plain [OF k(1) False k(2)]
  have "uart_send_interrupt k = Some (upd_tx g (uart_send_byte b k))"
    using plain k(2) tx_at_utx [OF t] by (simp add: sends_def)
  then have "tx_run (length (stuff b)) k = Some (upd_tx g (uart_send_byte b k))"
    using False by (simp add: stuff_def)
  moreover have "out @ stuff b = out @ [b]" using False by (simp add: stuff_def)
  ultimately show ?thesis using tx_at_upd [OF t, of g] by metis
next
  case True
  let ?k1 = "uart_send_byte b k"
  let ?k2 = "uart_send_byte b ?k1"
  note t = send_escape [OF k(1) True k(2)]
  have t2: "tx_at k0 ((crc_if s b)\<lparr>u_idx := u_idx s + 1\<rparr>) (out @ stuff b) ?k2"
    using send_escaped [OF t(1), of b] t(2) True by (simp add: stuff_def crc_if_restore)
  have "uart_send_interrupt k = Some ?k1"
    using plain tx_at_utx [OF t(1)] by (simp add: sends_def)
  moreover have "uart_send_interrupt ?k1 = Some (upd_tx g ?k2)"
    using esc [OF t(1)] tx_at_utx [OF t2] k(2) by (simp add: sends_def)
  ultimately have "tx_run (length (stuff b)) k = Some (upd_tx g ?k2)"
    using True by (simp add: stuff_def)
  with tx_at_upd [OF t2, of g] show ?thesis by blast
qed

section \<open>The phases of a message\<close>

lemma send_byte_frame [simp]:
  "headers (uart_send_byte b k) = headers k" "bytes_of (uart_send_byte b k) = bytes_of k"
  "u_msgHdr (utx (uart_send_byte b k)) = u_msgHdr (utx k)" "u_flags (utx (uart_send_byte b k)) = u_flags (utx k)"
  "u_msgLen (utx (uart_send_byte b k)) = u_msgLen (utx k)"
  by (cases "u_hdlc_state (utx k) = HDLC_ESCAPE"; cases "escaped b"; simp add: send_byte_eqs)+

lemma tx_at_frame:
  assumes "tx_at k0 s out k"
  shows "utx k = s" "headers k = headers k0" "bytes_of k = bytes_of k0"
  using assms by (auto simp: tx_at_def)

definition after_hdr :: "u8 \<Rightarrow> uart_state_t \<Rightarrow> uart_state_t" where
  "after_hdr len s = (if u_idx s = SOS_MSG_HEADER_SIZE then
     (if len \<noteq> 0 then s\<lparr>u_idx := 0, u_msg_state := SOS_MSG_TX_DATA\<rparr>
      else s\<lparr>u_idx := 0, u_hdlc_state := HDLC_CRC, u_msg_state := SOS_MSG_TX_CRC_LOW\<rparr>) else s)"

definition after_data :: "uart_state_t \<Rightarrow> uart_state_t" where
  "after_data s = (if u_idx s = u_msgLen s then s\<lparr>u_hdlc_state := HDLC_CRC, u_msg_state := SOS_MSG_TX_CRC_LOW\<rparr> else s)"

lemma sends_hdr:
  assumes "tx_at k0 s out k" "u_state s = UART_DATA" "u_msg_state s = SOS_MSG_TX_HDR" "unat (u_idx s) = i" "i < 8"
  shows "sends (hdr_bytes (headers k0 (u_msgHdr s)) ! i) (after_hdr (m_len (headers k0 (u_msgHdr s)))) k"
proof -
  let ?b = "hdr_bytes (headers k0 (u_msgHdr s)) ! i"
  note f = tx_at_frame [OF assms(1)]
  have l: "length (hdr_bytes x) = 8" for x by (simp add: word_bytes_def)
  have "uart_send_interrupt k = tx_hdr k"
    by (simp add: uart_send_interrupt_def tx_payload_def f assms(2,3))
  also have "\<dots> = Some (let k1 = uart_send_byte ?b k in if u_hdlc_state (utx k1) = HDLC_ESCAPE then k1
      else upd_tx (after_hdr (m_len (headers k0 (u_msgHdr s)))) k1)"
    using assms(4,5) l by (simp add: tx_hdr_def f after_hdr_def Let_def)
  finally show ?thesis by (simp only: sends_def)
qed

lemma sends_data:
  assumes "tx_at k0 s out k" "u_state s = UART_DATA" "u_msg_state s = SOS_MSG_TX_DATA" "has_flag (u_flags s) UART_CRC_FLAG"
  shows "sends (bytes_of k0 (u_buff s + unat (u_idx s))) after_data k"
proof -
  note f = tx_at_frame [OF assms(1)]
  have "uart_send_interrupt k = Some (tx_data k)"
    by (simp add: uart_send_interrupt_def tx_payload_def f assms(2,3))
  also have "\<dots> = Some (let k1 = uart_send_byte (bytes_of k0 (u_buff s + unat (u_idx s))) k in
      if u_hdlc_state (utx k1) = HDLC_ESCAPE then k1 else upd_tx after_data k1)"
    using assms(4) by (simp add: tx_data_def f after_data_def Let_def)
  finally show ?thesis by (simp only: sends_def)
qed

lemma sends_crc_low:
  assumes "tx_at k0 s out k" "u_state s = UART_DATA" "u_msg_state s = SOS_MSG_TX_CRC_LOW"
  shows "sends (ucast (u_crc s)) (\<lambda>t. t\<lparr>u_msg_state := SOS_MSG_TX_CRC_HIGH\<rparr>) k"
  using assms(2,3) tx_at_frame(1) [OF assms(1)]
  by (simp add: sends_def uart_send_interrupt_def tx_payload_def tx_crc_low_def Let_def)

lemma sends_crc_high:
  assumes "tx_at k0 s out k" "u_state s = UART_DATA" "u_msg_state s = SOS_MSG_TX_CRC_HIGH"
  shows "sends (ucast (drop_bit 8 (u_crc s))) (\<lambda>t. t\<lparr>u_msg_state := SOS_MSG_TX_END, u_state := UART_HDLC_STOP\<rparr>) k"
  using assms(2,3) tx_at_frame(1) [OF assms(1)]
  by (simp add: sends_def uart_send_interrupt_def tx_payload_def tx_crc_high_def Let_def)

lemma tx_run_then:
  assumes "tx_run a k = Some k1" "tx_run b k1 = Some k2"
  shows "tx_run (a + b) k = Some k2"
  using assms by (simp add: tx_run_add)

text \<open>A phase that sends a list of bytes, with the states \<open>st 0\<close>, \<open>st 1\<close>, ... between them.\<close>

lemma phase_run:
  assumes "tx_at k0 (st 0) out k" "\<And>j. j < length bs \<Longrightarrow> u_hdlc_state (st j) \<noteq> HDLC_ESCAPE"
    and "\<And>j s out k. j < length bs \<Longrightarrow> tx_at k0 s out k \<Longrightarrow>
      s = st j \<or> s = (crc_if (st j) (bs ! j))\<lparr>u_hdlc_state := HDLC_ESCAPE\<rparr> \<Longrightarrow> sends (bs ! j) g k"
    and "\<And>j. j < length bs \<Longrightarrow> g ((crc_if (st j) (bs ! j))\<lparr>u_idx := u_idx (st j) + 1\<rparr>) = st (Suc j)"
  shows "\<exists>k'. tx_run (length (stuff_all bs)) k = Some k' \<and> tx_at k0 (st (length bs)) (out @ stuff_all bs) k'"
  using assms
proof (induction bs arbitrary: st out k)
  case (Cons b bs)
  obtain k1 where k1: "tx_run (length (stuff b)) k = Some k1" "tx_at k0 (st 1) (out @ stuff b) k1"
    using sends_byte [OF Cons.prems(1), of b g] Cons.prems(2,4) [of 0] Cons.prems(3) [of 0] Cons.prems(1) by fastforce
  obtain k2 where k2: "tx_run (length (stuff_all bs)) k1 = Some k2"
    "tx_at k0 (st (Suc (length bs))) ((out @ stuff b) @ stuff_all bs) k2"
    using Cons.IH [of "\<lambda>j. st (Suc j)" "out @ stuff b" k1] k1(2) Cons.prems(2-4) [of "Suc _"] by fastforce
  from tx_run_then [OF k1(1) k2(1)] k2(2) show ?case by simp
qed simp

lemma of_nat_idx: "j < 256 \<Longrightarrow> unat (of_nat j :: u8) = j"
  by (simp add: unat_of_nat)

definition progress :: "uart_state_t \<Rightarrow> u8 list \<Rightarrow> nat \<Rightarrow> uart_state_t" where
  "progress s bs j = s\<lparr>u_crc := crc_of (u_crc s) (take j bs), u_idx := of_nat j\<rparr>"

lemma progress_simps [simp]:
  "u_state (progress s bs j) = u_state s" "u_msg_state (progress s bs j) = u_msg_state s"
  "u_hdlc_state (progress s bs j) = u_hdlc_state s" "u_msgHdr (progress s bs j) = u_msgHdr s"
  "u_buff (progress s bs j) = u_buff s" "u_msgLen (progress s bs j) = u_msgLen s" "u_flags (progress s bs j) = u_flags s"
  "u_idx (progress s bs j) = of_nat j"
  by (simp_all add: progress_def)

lemma progress_step:
  assumes "j < length bs" "has_flag (u_flags s) UART_CRC_FLAG" "u_hdlc_state s = HDLC_DATA"
  shows "(crc_if (progress s bs j) (bs ! j))\<lparr>u_idx := of_nat j + 1\<rparr> = progress s bs (Suc j)"
  using assms by (simp add: progress_def crc_if_def take_Suc_conv_app_nth add.commute)

lemma hdr_run:
  assumes k: "tx_at k0 s out k" and s: "u_state s = UART_DATA" "u_msg_state s = SOS_MSG_TX_HDR" "u_hdlc_state s = HDLC_DATA"
    "has_flag (u_flags s) UART_CRC_FLAG" "u_idx s = 0" and hs: "hs = hdr_bytes (headers k0 (u_msgHdr s))"
  shows "\<exists>k'. tx_run (length (stuff_all hs)) k = Some k' \<and>
    tx_at k0 (after_hdr (m_len (headers k0 (u_msgHdr s))) (progress s hs 8)) (out @ stuff_all hs) k'"
proof -
  have l: "length hs = 8" by (simp add: hs word_bytes_def)
  let ?g = "after_hdr (m_len (headers k0 (u_msgHdr s)))"
  have id: "?g (progress s hs j) = progress s hs j" if "j < 8" for j
    using that of_nat_idx [of j] by (auto simp: after_hdr_def SOS_MSG_HEADER_SIZE_def)
  have "\<exists>k'. tx_run (length (stuff_all hs)) k = Some k' \<and> tx_at k0 (?g (progress s hs (length hs))) (out @ stuff_all hs) k'"
  proof (rule phase_run [where g = ?g])
    have "progress s hs 0 = s" using s(5) by (simp add: progress_def)
    then show "tx_at k0 (?g (progress s hs 0)) out k" using k id [of 0] by simp
    show "u_hdlc_state (?g (progress s hs j)) \<noteq> HDLC_ESCAPE" if "j < length hs" for j
      using that id [of j] l s(3) by simp
    show "sends (hs ! j) ?g k'" if "j < length hs" "tx_at k0 t o' k'"
        "t = ?g (progress s hs j) \<or> t = (crc_if (?g (progress s hs j)) (hs ! j))\<lparr>u_hdlc_state := HDLC_ESCAPE\<rparr>" for j t o' k'
      using sends_hdr [OF that(2), of j] that(1,3) id [of j] l s(1,2) of_nat_idx [of j]
      by (auto simp: hs)
    show "?g ((crc_if (?g (progress s hs j)) (hs ! j))\<lparr>u_idx := u_idx (?g (progress s hs j)) + 1\<rparr>) = ?g (progress s hs (Suc j))"
      if "j < length hs" for j
      using that id [of j] l progress_step [OF that s(4,3)] by simp
  qed
  then show ?thesis by (simp add: l)
qed

lemma data_run:
  assumes k: "tx_at k0 s out k" and s: "u_state s = UART_DATA" "u_msg_state s = SOS_MSG_TX_DATA" "u_hdlc_state s = HDLC_DATA"
    "has_flag (u_flags s) UART_CRC_FLAG" "u_idx s = 0" "u_msgLen s \<noteq> 0"
    and ds: "ds = map (\<lambda>i. bytes_of k0 (u_buff s + i)) [0..<unat (u_msgLen s)]"
  shows "\<exists>k'. tx_run (length (stuff_all ds)) k = Some k' \<and> tx_at k0 (after_data (progress s ds (length ds))) (out @ stuff_all ds) k'"
proof -
  have l: "length ds = unat (u_msgLen s)" "length ds < 256" using unat8_less by (simp_all add: ds)
  have id: "after_data (progress s ds j) = progress s ds j" if "j < length ds" for j
    using that of_nat_idx [of j] l by (auto simp: after_data_def)
  show ?thesis
  proof (rule phase_run [where g = after_data])
    have "progress s ds 0 = s" using s(5) by (simp add: progress_def)
    moreover have "0 < length ds" using s(6) l(1) by (simp add: unat_gt_0)
    ultimately show "tx_at k0 (after_data (progress s ds 0)) out k" using k id [of 0] by simp
    show "u_hdlc_state (after_data (progress s ds j)) \<noteq> HDLC_ESCAPE" if "j < length ds" for j
      using that id [of j] s(3) by simp
    show "sends (ds ! j) after_data k'" if "j < length ds" "tx_at k0 t o' k'"
        "t = after_data (progress s ds j) \<or> t = (crc_if (after_data (progress s ds j)) (ds ! j))\<lparr>u_hdlc_state := HDLC_ESCAPE\<rparr>"
      for j t o' k'
      using sends_data [OF that(2)] that(1,3) id [of j] l s(1,2,4) of_nat_idx [of j] by (auto simp: ds)
    show "after_data ((crc_if (after_data (progress s ds j)) (ds ! j))\<lparr>u_idx := u_idx (after_data (progress s ds j)) + 1\<rparr>)
        = after_data (progress s ds (Suc j))" if "j < length ds" for j
      using that id [of j] progress_step [OF that s(4,3)] by simp
  qed
qed

lemma sends_crc_byte:
  assumes k: "tx_at k0 s out k" and s: "u_hdlc_state s = HDLC_CRC"
    and g: "\<And>t o' k'. tx_at k0 t o' k' \<Longrightarrow> t = s \<or> t = s\<lparr>u_hdlc_state := HDLC_ESCAPE\<rparr> \<Longrightarrow> sends b g k'"
  shows "\<exists>k'. tx_run (length (stuff b)) k = Some k' \<and> tx_at k0 (g (s\<lparr>u_idx := u_idx s + 1\<rparr>)) (out @ stuff b) k'"
proof -
  have c: "crc_if s b = s" using s by (simp add: crc_if_def)
  have "\<exists>k'. tx_run (length (stuff b)) k = Some k' \<and> tx_at k0 (g ((crc_if s b)\<lparr>u_idx := u_idx s + 1\<rparr>)) (out @ stuff b) k'"
    by (rule sends_byte [OF k]) (use s g [OF k] g c in auto)
  then show ?thesis by (simp only: c)
qed

lemma crc_run:
  assumes k: "tx_at k0 s out k" and s: "u_state s = UART_DATA" "u_msg_state s = SOS_MSG_TX_CRC_LOW" "u_hdlc_state s = HDLC_CRC"
  shows "\<exists>k'. tx_run (length (stuff_all (word_bytes (u_crc s)))) k = Some k' \<and>
    tx_at k0 (s\<lparr>u_idx := u_idx s + 1 + 1, u_msg_state := SOS_MSG_TX_END, u_state := UART_HDLC_STOP\<rparr>)
      (out @ stuff_all (word_bytes (u_crc s))) k'"
proof -
  let ?g = "\<lambda>t. t\<lparr>u_msg_state := SOS_MSG_TX_CRC_HIGH\<rparr>" and ?g' = "\<lambda>t. t\<lparr>u_msg_state := SOS_MSG_TX_END, u_state := UART_HDLC_STOP\<rparr>"
  let ?s = "?g (s\<lparr>u_idx := u_idx s + 1\<rparr>)"
  have "sends (ucast (u_crc s)) ?g k'" if "tx_at k0 t o' k'" "t = s \<or> t = s\<lparr>u_hdlc_state := HDLC_ESCAPE\<rparr>" for t o' k'
    using sends_crc_low [OF that(1)] that(2) s by auto
  then obtain k1 where k1: "tx_run (length (stuff (ucast (u_crc s)))) k = Some k1" "tx_at k0 ?s (out @ stuff (ucast (u_crc s))) k1"
    using sends_crc_byte [OF k s(3), of "ucast (u_crc s)" ?g] by blast
  have "sends (ucast (drop_bit 8 (u_crc s))) ?g' k'" if "tx_at k0 t o' k'" "t = ?s \<or> t = ?s\<lparr>u_hdlc_state := HDLC_ESCAPE\<rparr>" for t o' k'
    using sends_crc_high [OF that(1)] that(2) s by auto
  then obtain k2 where k2: "tx_run (length (stuff (ucast (drop_bit 8 (u_crc s))))) k1 = Some k2"
    "tx_at k0 (?g' (?s\<lparr>u_idx := u_idx ?s + 1\<rparr>)) ((out @ stuff (ucast (u_crc s))) @ stuff (ucast (drop_bit 8 (u_crc s)))) k2"
    using sends_crc_byte [OF k1(2), of "ucast (drop_bit 8 (u_crc s))" ?g'] s(3) by auto
  from tx_run_then [OF k1(1) k2(1)] k2(2) show ?thesis by (simp add: word_bytes_def)
qed

section \<open>A whole frame\<close>

definition tx_started :: "addr \<Rightarrow> u8 \<Rightarrow> 'a uart_sys_scheme \<Rightarrow> uart_state_t" where
  "tx_started m flags k = (utx k)\<lparr>u_flags := UART_SYS_SHARED_FLAGS_MSK AND flags, u_msgHdr := m, u_msgLen := m_len (headers k m),
     u_buff := m_data (headers k m), u_idx := 0, u_state := UART_HDLC_START, u_hdlc_state := HDLC_START\<rparr>"

lemma shared_flags: "has_flag (UART_SYS_SHARED_FLAGS_MSK AND f) UART_SOS_MSG_FLAG = has_flag f UART_SOS_MSG_FLAG"
proof -
  have "(UART_SYS_SHARED_FLAGS_MSK AND f) AND UART_SOS_MSG_FLAG = f AND (UART_SYS_SHARED_FLAGS_MSK AND UART_SOS_MSG_FLAG)"
    by (simp only: ac_simps)
  also have "UART_SYS_SHARED_FLAGS_MSK AND UART_SOS_MSG_FLAG = UART_SOS_MSG_FLAG" by (simp add: uart_flag_defs)
  finally show ?thesis by (simp add: has_flag_def)
qed

lemma tx_start:
  assumes "u_state (utx k) = UART_IDLE" "has_flag flags UART_SOS_MSG_FLAG" "m \<noteq> NULL" "m_type (headers k m) \<noteq> MSG_TIMESTAMP"
  shows "\<exists>k1. uart_startTransceiverTx now m l flags k = Some (k1, SOS_OK) \<and>
    tx_at (k\<lparr>tx_interrupt := True\<rparr>) (tx_started m flags k) (line_out k @ [HDLC_FLAG]) k1"
proof -
  let ?k = "k\<lparr>utx := tx_started m flags k, tx_interrupt := True, line_out := line_out k @ [HDLC_FLAG]\<rparr>"
  have "uart_startTransceiverTx now m l flags k = Some (?k, SOS_OK)"
    using assms by (simp add: uart_startTransceiverTx_def shared_flags tx_started_def uart_setByte_def)
  moreover have "tx_at (k\<lparr>tx_interrupt := True\<rparr>) (tx_started m flags k) (line_out k @ [HDLC_FLAG]) ?k"
    by (rule tx_atI [where sv = "tx_saved_state k"]) simp
  ultimately show ?thesis by blast
qed

lemma tx_first:
  assumes k: "tx_at k0 s out k" and s: "u_state s = UART_HDLC_START" "has_flag (u_flags s) UART_SOS_MSG_FLAG"
  shows "\<exists>k'. uart_send_interrupt k = Some k' \<and>
    tx_at k0 (s\<lparr>u_hdlc_state := HDLC_DATA, u_state := UART_PROTOCOL, u_crc := crcByte 0 HDLC_SOS_MSG\<rparr>) (out @ [HDLC_SOS_MSG]) k'"
  using k
proof (rule tx_atE)
  fix sv assume e: "k = k0\<lparr>utx := s, tx_saved_state := sv, line_out := out\<rparr>"
  have f: "utx k = s" "line_out k = out" unfolding e by simp_all
  have c: "has_flag (u_flags s) UART_CRC_FLAG" using s(2) by (simp add: uart_flag_defs)
  let ?s = "s\<lparr>u_hdlc_state := HDLC_DATA, u_state := UART_PROTOCOL, u_crc := crcByte 0 HDLC_SOS_MSG\<rparr>"
  have "uart_send_interrupt k = Some (k\<lparr>utx := ?s, line_out := out @ [HDLC_SOS_MSG]\<rparr>)"
    using s c by (simp add: uart_send_interrupt_def f tx_protocol_byte_def uart_setByte_def)
  moreover have "tx_at k0 ?s (out @ [HDLC_SOS_MSG]) (k\<lparr>utx := ?s, line_out := out @ [HDLC_SOS_MSG]\<rparr>)"
    by (rule tx_atI [where sv = sv]) (simp add: e)
  ultimately show ?thesis by blast
qed

lemma tx_enter:
  assumes k: "tx_at k0 s out k" and s: "u_state s = UART_PROTOCOL" "has_flag (u_flags s) UART_SOS_MSG_FLAG"
  shows "\<exists>k'. tx_at k0 (s\<lparr>u_state := UART_DATA, u_msg_state := SOS_MSG_TX_HDR\<rparr>) out k' \<and> (\<forall>n > 0. tx_run n k = tx_run n k')"
proof -
  let ?g = "\<lambda>t. t\<lparr>u_state := UART_DATA, u_msg_state := SOS_MSG_TX_HDR\<rparr>"
  have f: "utx k = s" by (rule tx_at_utx [OF k])
  have "uart_send_interrupt k = uart_send_interrupt (upd_tx ?g k)"
    using s by (simp add: uart_send_interrupt_def f)
  then have "tx_run n k = tx_run n (upd_tx ?g k)" if "n > 0" for n using that by (cases n) simp_all
  with tx_at_upd [OF k, of ?g] show ?thesis by blast
qed

lemma tx_stop:
  assumes k: "tx_at k0 s out k" and s: "u_state s = UART_HDLC_STOP"
  shows "\<exists>k'. uart_send_interrupt k = Some k' \<and>
    tx_at k0 (s\<lparr>u_state := UART_END, u_msg_state := SOS_MSG_NO_STATE\<rparr>) (out @ [HDLC_FLAG]) k'"
  using k
proof (rule tx_atE)
  fix sv assume e: "k = k0\<lparr>utx := s, tx_saved_state := sv, line_out := out\<rparr>"
  have f: "utx k = s" "line_out k = out" unfolding e by simp_all
  let ?s = "s\<lparr>u_state := UART_END, u_msg_state := SOS_MSG_NO_STATE\<rparr>"
  have "uart_send_interrupt k = Some (k\<lparr>utx := ?s, line_out := out @ [HDLC_FLAG]\<rparr>)"
    using s by (simp add: uart_send_interrupt_def f uart_setByte_def)
  moreover have "tx_at k0 ?s (out @ [HDLC_FLAG]) (k\<lparr>utx := ?s, line_out := out @ [HDLC_FLAG]\<rparr>)"
    by (rule tx_atI [where sv = sv]) (simp add: e)
  ultimately show ?thesis by blast
qed

text \<open>Header and payload of a message, up to the checksum.\<close>

lemma body_run:
  assumes k: "tx_at k0 s out k" and s: "u_state s = UART_DATA" "u_msg_state s = SOS_MSG_TX_HDR" "u_hdlc_state s = HDLC_DATA"
    "has_flag (u_flags s) UART_CRC_FLAG" "u_idx s = 0"
    and m: "u_msgLen s = m_len (headers k0 (u_msgHdr s))" "u_buff s = m_data (headers k0 (u_msgHdr s))"
  shows "\<exists>k' t. tx_run (length (stuff_all (msg_bytes k0 (u_msgHdr s)))) k = Some k' \<and>
    tx_at k0 t (out @ stuff_all (msg_bytes k0 (u_msgHdr s))) k' \<and> u_crc t = crc_of (u_crc s) (msg_bytes k0 (u_msgHdr s)) \<and>
    u_state t = UART_DATA \<and> u_msg_state t = SOS_MSG_TX_CRC_LOW \<and> u_hdlc_state t = HDLC_CRC \<and> u_msgHdr t = u_msgHdr s"
proof -
  let ?m = "u_msgHdr s" let ?x = "headers k0 ?m" let ?hs = "hdr_bytes ?x" let ?t = "progress s ?hs 8"
  have l: "length ?hs = 8" "u_idx ?t = SOS_MSG_HEADER_SIZE" by (simp_all add: word_bytes_def SOS_MSG_HEADER_SIZE_def)
  have c: "u_crc ?t = crc_of (u_crc s) ?hs" using l(1) by (simp add: progress_def)
  obtain k1 where k1: "tx_run (length (stuff_all ?hs)) k = Some k1" "tx_at k0 (after_hdr (m_len ?x) ?t) (out @ stuff_all ?hs) k1"
    using hdr_run [OF k s refl] by blast
  show ?thesis
  proof (cases "m_len ?x = 0")
    case True
    then have "msg_bytes k0 ?m = ?hs" by (simp add: msg_bytes_def payload_def)
    moreover have "after_hdr (m_len ?x) ?t = ?t\<lparr>u_idx := 0, u_hdlc_state := HDLC_CRC, u_msg_state := SOS_MSG_TX_CRC_LOW\<rparr>"
      using True l(2) by (simp add: after_hdr_def)
    ultimately show ?thesis using k1 s(1) c by (intro exI [of _ k1] exI [of _ "after_hdr (m_len ?x) ?t"]) simp
  next
    case False
    let ?u = "?t\<lparr>u_idx := 0, u_msg_state := SOS_MSG_TX_DATA\<rparr>"
    have "after_hdr (m_len ?x) ?t = ?u" using False l(2) by (simp add: after_hdr_def)
    then have u: "tx_at k0 ?u (out @ stuff_all ?hs) k1" using k1(2) by simp
    let ?ds = "payload k0 ?m"
    obtain k2 where k2: "tx_run (length (stuff_all ?ds)) k1 = Some k2"
      "tx_at k0 (after_data (progress ?u ?ds (length ?ds))) ((out @ stuff_all ?hs) @ stuff_all ?ds) k2"
      using data_run [OF u, of ?ds] s m False by (auto simp: payload_def)
    have "after_data (progress ?u ?ds (length ?ds)) = (progress ?u ?ds (length ?ds))\<lparr>u_hdlc_state := HDLC_CRC, u_msg_state := SOS_MSG_TX_CRC_LOW\<rparr>"
      using m(1) by (simp add: after_data_def payload_def)
    with tx_run_then [OF k1(1) k2(1)] k2(2) s(1) c show ?thesis
      by (intro exI [of _ k2] exI [of _ "after_data (progress ?u ?ds (length ?ds))"])
        (simp add: msg_bytes_def progress_def)
  qed
qed

text \<open>
  The frame of a message: one interrupt for each byte but the first one, which is sent by the
  start of the transfer.
\<close>

lemma frame_law:
  assumes idle: "u_state (utx k) = UART_IDLE" and flag: "has_flag flags UART_SOS_MSG_FLAG" and m: "m \<noteq> NULL" "m_type (headers k m) \<noteq> MSG_TIMESTAMP"
  shows "\<exists>k1 k2 s. uart_startTransceiverTx now m l flags k = Some (k1, SOS_OK) \<and>
    tx_run (length (uart_frame (msg_bytes k m)) - 1) k1 = Some k2 \<and> u_state s = UART_END \<and> u_msgHdr s = m \<and>
    tx_at (k\<lparr>tx_interrupt := True\<rparr>) s (line_out k @ uart_frame (msg_bytes k m)) k2"
proof -
  let ?k = "k\<lparr>tx_interrupt := True\<rparr>" let ?s = "tx_started m flags k"
  obtain k1 where k1: "uart_startTransceiverTx now m l flags k = Some (k1, SOS_OK)" "tx_at ?k ?s (line_out k @ [HDLC_FLAG]) k1"
    using tx_start [OF idle flag m] by blast
  have s: "u_state ?s = UART_HDLC_START" "has_flag (u_flags ?s) UART_SOS_MSG_FLAG" using flag by (simp_all add: tx_started_def shared_flags)
  let ?t = "?s\<lparr>u_hdlc_state := HDLC_DATA, u_state := UART_PROTOCOL, u_crc := crcByte 0 HDLC_SOS_MSG\<rparr>"
  obtain k2 where k2: "uart_send_interrupt k1 = Some k2" "tx_at ?k ?t ((line_out k @ [HDLC_FLAG]) @ [HDLC_SOS_MSG]) k2"
    using tx_first [OF k1(2) s] by blast
  let ?u = "?t\<lparr>u_state := UART_DATA, u_msg_state := SOS_MSG_TX_HDR\<rparr>"
  have "has_flag (u_flags ?t) UART_SOS_MSG_FLAG" using s(2) by simp
  then obtain k3 where k3: "tx_at ?k ?u ((line_out k @ [HDLC_FLAG]) @ [HDLC_SOS_MSG]) k3" "\<forall>n > 0. tx_run n k2 = tx_run n k3"
    using tx_enter [OF k2(2)] by auto
  let ?b = "msg_bytes k m"
  have bm: "msg_bytes ?k (u_msgHdr ?u) = ?b" by (simp add: tx_started_def msg_bytes_def payload_def)
  have cf: "has_flag (u_flags ?u) UART_CRC_FLAG" using s(2) by (simp add: uart_flag_defs)
  obtain k4 t where k4: "tx_run (length (stuff_all ?b)) k3 = Some k4" "u_crc t = crc_of (crcByte 0 HDLC_SOS_MSG) ?b"
    "tx_at ?k t (((line_out k @ [HDLC_FLAG]) @ [HDLC_SOS_MSG]) @ stuff_all ?b) k4"
    "u_state t = UART_DATA" "u_msg_state t = SOS_MSG_TX_CRC_LOW" "u_hdlc_state t = HDLC_CRC" "u_msgHdr t = m"
    using body_run [OF k3(1) _ _ _ cf] unfolding bm by (auto simp: tx_started_def)
  let ?c = "word_bytes (crc_of 0 (HDLC_SOS_MSG # ?b))"
  obtain k5 where k5: "tx_run (length (stuff_all ?c)) k4 = Some k5"
    "tx_at ?k (t\<lparr>u_idx := u_idx t + 1 + 1, u_msg_state := SOS_MSG_TX_END, u_state := UART_HDLC_STOP\<rparr>)
      ((((line_out k @ [HDLC_FLAG]) @ [HDLC_SOS_MSG]) @ stuff_all ?b) @ stuff_all ?c) k5"
    using crc_run [OF k4(3-6)] k4(2) by auto
  obtain k6 s6 where k6: "uart_send_interrupt k5 = Some k6" "tx_at ?k s6 (line_out k @ uart_frame ?b) k6"
    "u_state s6 = UART_END" "u_msgHdr s6 = m"
    using tx_stop [OF k5(2)] k4(7) by (auto simp: uart_frame_def)
  have "tx_run (length (stuff_all ?b) + length (stuff_all ?c) + 1) k3 = Some k6"
    using tx_run_then [OF tx_run_then [OF k4(1) k5(1)], of 1 k6] k6(1) by simp
  then have "tx_run (length (stuff_all ?b) + length (stuff_all ?c) + 1) k2 = Some k6"
    using k3(2) by (metis add_gr_0 zero_less_one)
  with k2(1) have "tx_run (1 + (length (stuff_all ?b) + length (stuff_all ?c) + 1)) k1 = Some k6"
    using tx_run_then [of 1 k1 k2] by simp
  moreover have "length (uart_frame ?b) - 1 = 1 + (length (stuff_all ?b) + length (stuff_all ?c) + 1)"
    by (simp add: uart_frame_def)
  ultimately have "tx_run (length (uart_frame ?b) - 1) k1 = Some k6" by (simp only:)
  with k1(1) k6(2-4) show ?thesis by blast
qed

end
