(* ===== verification/Uart_Receive.thy ===== *)
theory Uart_Receive
  imports Uart_Send Message_Frames
begin

text \<open>
  The receiver of the serial link. Fed with the frame of a message it builds a header and a block
  for the payload, fills them with what was sent and hands the message to the scheduler, if there
  is memory for both; together with the transmitter this is a round trip over the line.
\<close>

section \<open>Feeding bytes\<close>

fun uart_feed :: "u32 \<Rightarrow> u8 list \<Rightarrow> 'a uart_sys_scheme \<Rightarrow> 'a uart_sys_scheme outcome option" where
  "uart_feed now [] k = Some (Done k)"
| "uart_feed now (b # bs) k = continue (uart_recv_interrupt now 0 b k) (uart_feed now bs)"

lemma continue_simps [simp]:
  "continue (Some (Done a)) f = f a" "continue (Some Panic) f = Some Panic" "continue None f = None"
  by (simp_all add: continue_def)

lemma continue_assoc: "continue (continue r f) g = continue r (\<lambda>x. continue (f x) g)"
  by (cases r) (auto simp: continue_def split: outcome.splits)

lemma uart_feed_append: "uart_feed now (bs @ cs) k = continue (uart_feed now bs k) (uart_feed now cs)"
  by (induction bs arbitrary: k) (auto simp: continue_assoc intro!: arg_cong [where f = "continue _"])

definition same_rx :: "'a uart_sys_scheme \<Rightarrow> 'a uart_sys_scheme \<Rightarrow> bool" where
  "same_rx k k' \<longleftrightarrow> (\<exists>sv. k' = k\<lparr>rx_saved_state := sv\<rparr>)"

lemma same_rx_refl [simp]: "same_rx k k"
  unfolding same_rx_def by (rule exI [of _ "rx_saved_state k"]) simp

lemma escaped_cases:
  assumes "escaped b"
  shows "0x20 XOR b \<noteq> HDLC_CTR_ESC" "0x20 XOR b \<noteq> HDLC_FLAG"
  using assms by (auto simp: escaped_def hdlc_defs)

text \<open>The two bytes of an escaped byte are received like the byte itself.\<close>

lemma feed_stuff:
  assumes "u_state (urx k) = UART_DATA" "u_hdlc_state (urx k) \<noteq> HDLC_ESCAPE"
  shows "\<exists>k'. same_rx k k' \<and> uart_feed now (stuff b @ bs) k = continue (rx_byte b k') (uart_feed now bs)"
proof (cases "escaped b")
  case False
  then show ?thesis using assms
    by (intro exI [of _ k]) (auto simp: stuff_def uart_recv_interrupt_def rx_payload_def escaped_def)
next
  case True
  let ?k1 = "k\<lparr>rx_saved_state := u_hdlc_state (urx k), urx := (urx k)\<lparr>u_hdlc_state := HDLC_ESCAPE\<rparr>\<rparr>"
  let ?k2 = "k\<lparr>rx_saved_state := u_hdlc_state (urx k)\<rparr>"
  have 1: "uart_recv_interrupt now 0 HDLC_CTR_ESC k = Some (Done ?k1)"
    using assms(1) by (simp add: uart_recv_interrupt_def rx_payload_def)
  have "?k1\<lparr>urx := (urx ?k1)\<lparr>u_hdlc_state := rx_saved_state ?k1\<rparr>\<rparr> = ?k2" by simp
  moreover have "(0x20 XOR b) XOR 0x20 = b" by (simp add: xor.commute xor.left_commute)
  ultimately have "uart_recv_interrupt now 0 (0x20 XOR b) ?k1 = rx_byte b ?k2"
    using assms(1) escaped_cases [OF True] by (simp add: uart_recv_interrupt_def rx_payload_def)
  with 1 True show ?thesis by (intro exI [of _ ?k2]) (auto simp: stuff_def same_rx_def)
qed

section \<open>The header\<close>

fun fill_hdr :: "nat \<Rightarrow> u8 list \<Rightarrow> Message \<Rightarrow> Message option" where
  "fill_hdr i [] x = Some x"
| "fill_hdr i (b # bs) x = do { y \<leftarrow> put_hdr_byte (of_nat i) b x; fill_hdr (Suc i) bs y }"

lemma hi_lo_byte: "hi_byte (ucast (drop_bit 8 w)) (lo_byte (ucast w) v) = w"
  unfolding hi_byte_def lo_byte_def
proof (rule bit_word_eqI)
  fix n assume "n < LENGTH(16)"
  then have "n < 16" by simp
  then have "n \<in> set [0..<16]" by simp
  then have "bit (0xFF :: u16) n = (n < 8)" "bit (0xFF00 :: u16) n = (8 \<le> n)"
    by (auto simp: upt_rec bit_numeral_rec)
  then show "bit ((v AND 0xFF00 OR ucast (ucast w :: u8)) AND 0xFF OR push_bit 8 (ucast (ucast (drop_bit 8 w) :: u8))) n = bit w n"
    using \<open>n < 16\<close> by (auto simp: bit_simps)
qed

lemma fill_hdr_all:
  "fill_hdr 0 (hdr_bytes y) x = Some (x\<lparr>m_did := m_did y, m_sid := m_sid y, m_daddr := m_daddr y, m_saddr := m_saddr y,
    m_type := m_type y, m_len := m_len y\<rparr>)"
  by (simp add: hdr_bytes_def word_bytes_def put_hdr_byte_def hi_lo_byte)

lemma same_rxE:
  assumes "same_rx k k'"
  obtains sv where "k' = k\<lparr>rx_saved_state := sv\<rparr>"
  using assms by (auto simp: same_rx_def)

lemma same_rx_frame:
  assumes "same_rx k k'"
  shows "urx k' = urx k" "headers k' = headers k" "heap_of k' = heap_of k" "bytes_of k' = bytes_of k"
  using assms by (auto simp: same_rx_def heap_of_def)

definition rx_progress :: "addr \<Rightarrow> Message \<Rightarrow> u8 list \<Rightarrow> 'a uart_sys_scheme \<Rightarrow> 'a uart_sys_scheme" where
  "rx_progress m x bs k = k\<lparr>headers := (headers k)(m := x),
     urx := (urx k)\<lparr>u_idx := u_idx (urx k) + of_nat (length bs), u_crc := crc_of (u_crc (urx k)) bs\<rparr>\<rparr>"

lemma rx_progress_simps [simp]:
  "u_state (urx (rx_progress m x bs k)) = u_state (urx k)" "u_msg_state (urx (rx_progress m x bs k)) = u_msg_state (urx k)"
  "u_hdlc_state (urx (rx_progress m x bs k)) = u_hdlc_state (urx k)" "u_msgHdr (urx (rx_progress m x bs k)) = u_msgHdr (urx k)"
  "u_idx (urx (rx_progress m x bs k)) = u_idx (urx k) + of_nat (length bs)" "headers (rx_progress m x bs k) m = x"
  by (simp_all add: rx_progress_def)

lemma rx_hdr_step:
  assumes k: "same_rx k k'" and b: "b \<noteq> HDLC_FLAG"
    and x: "put_hdr_byte (u_idx (urx k)) b (headers k (u_msgHdr (urx k))) = Some x" and s: "u_msg_state (urx k) = SOS_MSG_RX_HDR"
  shows "\<exists>k1. same_rx (rx_progress (u_msgHdr (urx k)) x [b] k) k1 \<and>
    rx_byte b k' = (if u_idx (urx k) + 1 = SOS_MSG_HEADER_SIZE then rx_hdr_end k1 else Some (Done k1))"
proof -
  let ?m = "u_msgHdr (urx k)"
  obtain sv where k': "k' = k\<lparr>rx_saved_state := sv\<rparr>" using k by (rule same_rxE)
  note f = same_rx_frame [OF k]
  let ?k = "(rx_progress ?m x [b] k)\<lparr>rx_saved_state := sv\<rparr>"
  have "k'\<lparr>headers := (headers k)(?m := x), urx := (urx k)\<lparr>u_idx := u_idx (urx k) + 1, u_crc := crcByte (u_crc (urx k)) b\<rparr>\<rparr> = ?k"
    by (simp add: k' rx_progress_def)
  then have "rx_byte b k' = (if u_idx (urx k) + 1 = SOS_MSG_HEADER_SIZE then rx_hdr_end ?k else Some (Done ?k))"
    using b x s by (simp add: rx_byte_def rx_hdr_def f upd_msg_def set_msg_def)
  moreover have "same_rx (rx_progress ?m x [b] k) ?k" by (auto simp: same_rx_def)
  ultimately show ?thesis by blast
qed

lemma same_rx_trans: "same_rx a b \<Longrightarrow> same_rx b c \<Longrightarrow> same_rx a c"
  by (auto simp: same_rx_def)

lemma rx_progress_append:
  "rx_progress m y cs (rx_progress m x bs k) = rx_progress m y (bs @ cs) k"
  by (simp add: rx_progress_def add.assoc)

lemma same_rx_progress: "same_rx k k' \<Longrightarrow> same_rx (rx_progress m x bs k) (rx_progress m x bs k')"
proof (erule same_rxE)
  fix sv assume "k' = k\<lparr>rx_saved_state := sv\<rparr>"
  then have "rx_progress m x bs k' = (rx_progress m x bs k)\<lparr>rx_saved_state := sv\<rparr>" by (simp add: rx_progress_def)
  then show ?thesis unfolding same_rx_def by (rule exI)
qed

lemma rx_progress_nil: "headers k m = x \<Longrightarrow> rx_progress m x [] k = k"
  by (auto simp: rx_progress_def)

lemma rx_hdr_run:
  assumes "u_state (urx k) = UART_DATA" "u_msg_state (urx k) = SOS_MSG_RX_HDR" "u_hdlc_state (urx k) \<noteq> HDLC_ESCAPE"
    "u_msgHdr (urx k) = m" "u_idx (urx k) = of_nat i" "i + length bs < 8" "HDLC_FLAG \<notin> set bs" "fill_hdr i bs (headers k m) = Some x"
  shows "\<exists>k1. same_rx (rx_progress m x bs k) k1 \<and> uart_feed now (stuff_all bs @ cs) k = uart_feed now cs k1"
  using assms
proof (induction bs arbitrary: i k)
  case Nil
  then show ?case by (intro exI [of _ k]) (simp add: rx_progress_nil)
next
  case (Cons b bs)
  obtain y where y: "put_hdr_byte (of_nat i) b (headers k m) = Some y" "fill_hdr (Suc i) bs y = Some x"
    using Cons.prems(8) by auto
  obtain k2 where k2: "same_rx k k2" "uart_feed now (stuff b @ stuff_all bs @ cs) k = continue (rx_byte b k2) (uart_feed now (stuff_all bs @ cs))"
    using feed_stuff [OF Cons.prems(1,3)] by blast
  have n: "u_idx (urx k) + 1 = of_nat (Suc i)" using Cons.prems(5) by simp
  have "unat (of_nat (Suc i) :: u8) \<noteq> 8" using Cons.prems(6) of_nat_idx [of "Suc i"] by simp
  then have "u_idx (urx k) + 1 \<noteq> SOS_MSG_HEADER_SIZE" unfolding n by (auto simp: SOS_MSG_HEADER_SIZE_def)
  then obtain k3 where k3: "same_rx (rx_progress m y [b] k) k3" "rx_byte b k2 = Some (Done k3)"
    using rx_hdr_step [OF k2(1) _ _ Cons.prems(2), of b y] y(1) Cons.prems(4,5,7) by auto
  note f = same_rx_frame [OF k3(1)]
  obtain k1 where "same_rx (rx_progress m x bs k3) k1" "uart_feed now (stuff_all bs @ cs) k3 = uart_feed now cs k1"
    using Cons.IH [of k3 "Suc i"] Cons.prems f y(2) n by auto
  moreover have "same_rx (rx_progress m x (b # bs) k) (rx_progress m x bs k3)"
    using same_rx_progress [OF k3(1), of m x bs] by (simp add: rx_progress_append)
  ultimately show ?case using k2(2) k3(2) same_rx_trans by (intro exI [of _ k1]) auto
qed

text \<open>A whole header: the receiver looks for a block for the payload.\<close>

lemma fill_hdr_append: "fill_hdr i (bs @ cs) x = do { y \<leftarrow> fill_hdr i bs x; fill_hdr (i + length bs) cs y }"
  by (induction bs arbitrary: i x) (auto simp: Option.bind_assoc intro!: Option.bind_cong)

lemma rx_hdr_all:
  assumes k: "u_state (urx k) = UART_DATA" "u_msg_state (urx k) = SOS_MSG_RX_HDR" "u_hdlc_state (urx k) \<noteq> HDLC_ESCAPE"
    "u_msgHdr (urx k) = m" "u_idx (urx k) = 0" and hs: "hs = hdr_bytes y" "HDLC_FLAG \<notin> set hs"
    and x: "x = (headers k m)\<lparr>m_did := m_did y, m_sid := m_sid y, m_daddr := m_daddr y, m_saddr := m_saddr y,
      m_type := m_type y, m_len := m_len y\<rparr>"
  shows "\<exists>k1. same_rx (rx_progress m x hs k) k1 \<and> uart_feed now (stuff_all hs @ cs) k = continue (rx_hdr_end k1) (uart_feed now cs)"
proof -
  let ?bs = "take 7 hs" and ?b = "hs ! 7"
  have l: "length hs = 8" by (simp add: hs(1) word_bytes_def)
  then have d: "hs = ?bs @ [?b]" using take_Suc_conv_app_nth [of 7 hs] by simp
  have "fill_hdr 0 (?bs @ [?b]) (headers k m) = Some x"
    using d fill_hdr_all [of y "headers k m"] x hs(1) by (simp)
  then obtain z where z: "fill_hdr 0 ?bs (headers k m) = Some z" "put_hdr_byte 7 ?b z = Some x"
    using l by (auto simp: fill_hdr_append)
  have nf: "HDLC_FLAG \<notin> set ?bs" "?b \<noteq> HDLC_FLAG" using hs(2) l by (auto dest: in_set_takeD simp: in_set_conv_nth)
  obtain k1 where k1: "same_rx (rx_progress m z ?bs k) k1"
    "uart_feed now (stuff_all ?bs @ (stuff ?b @ cs)) k = uart_feed now (stuff ?b @ cs) k1"
    using rx_hdr_run [OF k(1-4), of 0 ?bs z now "stuff ?b @ cs"] k(5) l nf(1) z(1) by auto
  note f = same_rx_frame [OF k1(1)]
  have i: "u_idx (urx k1) = 7" using f k(5) l by simp
  obtain k2 where k2: "same_rx k1 k2" "uart_feed now (stuff ?b @ cs) k1 = continue (rx_byte ?b k2) (uart_feed now cs)"
    using feed_stuff [of k1 now ?b cs] f k by auto
  obtain k3 where k3: "same_rx (rx_progress m x [?b] k1) k3" "rx_byte ?b k2 = rx_hdr_end k3"
    using rx_hdr_step [OF k2(1) nf(2), of x] i f k z(2) by (auto simp: SOS_MSG_HEADER_SIZE_def)
  have "same_rx (rx_progress m x (?bs @ [?b]) k) (rx_progress m x [?b] k1)"
    using same_rx_progress [OF k1(1), of m x "[?b]"] by (simp only: rx_progress_append)
  then have "same_rx (rx_progress m x hs k) k3" using same_rx_trans k3(1) d by metis
  moreover have "stuff_all hs @ cs = stuff_all ?bs @ (stuff ?b @ cs)" by (subst d) simp
  ultimately show ?thesis using k1(2) k2(2) k3(2) by auto
qed

section \<open>The payload\<close>

lemma put_bytes_append: "put_bytes a (xs @ ys) b = put_bytes (a + length xs) ys (put_bytes a xs b)"
  by (induction xs arbitrary: a b) simp_all

definition data_progress :: "u8 list \<Rightarrow> 'a uart_sys_scheme \<Rightarrow> 'a uart_sys_scheme" where
  "data_progress bs k = k\<lparr>bytes_of := put_bytes (u_buff (urx k) + unat (u_idx (urx k))) bs (bytes_of k),
     urx := (urx k)\<lparr>u_idx := u_idx (urx k) + of_nat (length bs), u_crc := crc_of (u_crc (urx k)) bs\<rparr>\<rparr>"

definition data_end :: "'a uart_sys_scheme \<Rightarrow> 'a uart_sys_scheme" where
  "data_end k = (if u_idx (urx k) = u_msgLen (urx k)
     then upd_rx (\<lambda>s. s\<lparr>u_hdlc_state := HDLC_CRC, u_msg_state := SOS_MSG_RX_CRC_LOW\<rparr>) k else k)"

lemma data_progress_simps [simp]:
  "u_state (urx (data_progress bs k)) = u_state (urx k)" "u_msg_state (urx (data_progress bs k)) = u_msg_state (urx k)"
  "u_hdlc_state (urx (data_progress bs k)) = u_hdlc_state (urx k)" "u_msgHdr (urx (data_progress bs k)) = u_msgHdr (urx k)"
  "u_idx (urx (data_progress bs k)) = u_idx (urx k) + of_nat (length bs)" "u_msgLen (urx (data_progress bs k)) = u_msgLen (urx k)"
  "u_flags (urx (data_progress bs k)) = u_flags (urx k)" "u_buff (urx (data_progress bs k)) = u_buff (urx k)"
  "heap_of (data_progress bs k) = heap_of k"
  by (simp_all add: data_progress_def heap_of_def)

lemma same_rx_data:
  assumes "same_rx k k'"
  shows "same_rx (data_progress bs k) (data_progress bs k')" "same_rx (data_end k) (data_end k')"
proof -
  obtain sv where k': "k' = k\<lparr>rx_saved_state := sv\<rparr>" using assms by (rule same_rxE)
  have "data_progress bs k' = (data_progress bs k)\<lparr>rx_saved_state := sv\<rparr>" by (simp add: k' data_progress_def)
  moreover have "data_end k' = (data_end k)\<lparr>rx_saved_state := sv\<rparr>"
    by (cases "u_idx (urx k) = u_msgLen (urx k)") (simp_all add: k' data_end_def)
  ultimately show "same_rx (data_progress bs k) (data_progress bs k')" "same_rx (data_end k) (data_end k')"
    unfolding same_rx_def by blast+
qed

lemma data_progress_append:
  assumes "unat (u_idx (urx k)) + length bs < 256"
  shows "data_progress cs (data_progress bs k) = data_progress (bs @ cs) k"
proof -
  have "unat (of_nat (length bs) :: u8) = length bs" using assms of_nat_idx by simp
  then have "unat (u_idx (urx k) + of_nat (length bs)) = unat (u_idx (urx k)) + length bs"
    using unat_plus_no_wrap [of "u_idx (urx k)" "of_nat (length bs)"] assms by simp
  then show ?thesis by (simp add: data_progress_def put_bytes_append add.assoc)
qed

lemma rx_data_step:
  assumes k: "same_rx k k'" and s: "u_msg_state (urx k) = SOS_MSG_RX_DATA" "has_flag (u_flags (urx k)) UART_SOS_MSG_FLAG"
    and room: "unat (u_idx (urx k)) < room_at (heap_of k) (u_buff (urx k))"
  shows "\<exists>k1. same_rx (data_end (data_progress [b] k)) k1 \<and> rx_byte b k' = Some (Done k1)"
proof -
  note f = same_rx_frame [OF k]
  have c: "has_flag (u_flags (urx k)) UART_CRC_FLAG" using s(2) by (simp add: uart_flag_defs)
  have i: "u_idx (urx (data_progress [b] k')) = u_idx (urx k) + 1" by (simp add: f)
  have "rx_byte b k' = Some (Done (data_end (data_progress [b] k')))"
  proof (cases "u_idx (urx k) + 1 = u_msgLen (urx k)")
    case True
    then have "data_end (data_progress [b] k')
        = upd_rx (\<lambda>s. s\<lparr>u_hdlc_state := HDLC_CRC, u_msg_state := SOS_MSG_RX_CRC_LOW\<rparr>) (data_progress [b] k')"
      unfolding data_end_def i by (simp add: f)
    with True s c room show ?thesis by (simp add: rx_byte_def rx_data_def f store_at_def data_progress_def)
  next
    case False
    then have "data_end (data_progress [b] k') = data_progress [b] k'" unfolding data_end_def i by (simp add: f)
    with False s c room show ?thesis by (simp add: rx_byte_def rx_data_def f store_at_def data_progress_def)
  qed
  with same_rx_data(2) [OF same_rx_data(1) [OF k, of "[b]"]] show ?thesis by blast
qed

lemma rx_data_run:
  assumes "u_state (urx k) = UART_DATA" "u_msg_state (urx k) = SOS_MSG_RX_DATA" "u_hdlc_state (urx k) \<noteq> HDLC_ESCAPE"
    "has_flag (u_flags (urx k)) UART_SOS_MSG_FLAG" "unat (u_idx (urx k)) < unat (u_msgLen (urx k))"
    "unat (u_idx (urx k)) + length bs \<le> unat (u_msgLen (urx k))" "unat (u_msgLen (urx k)) \<le> room_at (heap_of k) (u_buff (urx k))"
  shows "\<exists>k1. same_rx (data_end (data_progress bs k)) k1 \<and> uart_feed now (stuff_all bs @ cs) k = uart_feed now cs k1"
  using assms
proof (induction bs arbitrary: k)
  case Nil
  have "u_idx (urx k) \<noteq> u_msgLen (urx k)" using Nil.prems(5) by auto
  moreover have "data_progress [] k = k" by (simp add: data_progress_def)
  ultimately have "data_end (data_progress [] k) = k" by (simp only: data_end_def if_False)
  then show ?case by (intro exI [of _ k]) simp
next
  case (Cons b bs)
  let ?i = "unat (u_idx (urx k))"
  have i: "?i < 255" using Cons.prems(5) unat8_less [of "u_msgLen (urx k)"] by simp
  obtain k2 where k2: "same_rx k k2" "uart_feed now (stuff b @ stuff_all bs @ cs) k = continue (rx_byte b k2) (uart_feed now (stuff_all bs @ cs))"
    using feed_stuff [OF Cons.prems(1,3)] by blast
  obtain k3 where k3: "same_rx (data_end (data_progress [b] k)) k3" "rx_byte b k2 = Some (Done k3)"
    using rx_data_step [OF k2(1) Cons.prems(2,4)] Cons.prems(5,7) by auto
  have j: "unat (u_idx (urx k) + 1) = Suc ?i" using unat_plus_no_wrap [of "u_idx (urx k)" 1] i by simp
  show ?case
  proof (cases "u_idx (urx k) + 1 = u_msgLen (urx k)")
    case True
    then have "bs = []" using Cons.prems(6) j by simp
    with k2(2) k3 show ?thesis by (intro exI [of _ k3]) simp
  next
    case False
    then have e: "data_end (data_progress [b] k) = data_progress [b] k" by (simp add: data_end_def)
    note f = same_rx_frame [OF k3(1)]
    have "unat (u_idx (urx k) + 1) \<noteq> unat (u_msgLen (urx k))"
      using False by (simp only: word_unat_eq_iff simp_thms)
    then have "unat (u_idx (urx k) + 1) < unat (u_msgLen (urx k))" using j Cons.prems(5) by linarith
    then obtain k1 where k1: "same_rx (data_end (data_progress bs k3)) k1" "uart_feed now (stuff_all bs @ cs) k3 = uart_feed now cs k1"
      using Cons.IH [of k3] Cons.prems j by (simp add: f e) blast
    have "same_rx (data_end (data_progress (b # bs) k)) (data_end (data_progress bs k3))"
      using same_rx_data(2) [OF same_rx_data(1) [OF k3(1) [unfolded e], of bs]] data_progress_append [of k "[b]" bs] i by simp
    from same_rx_trans [OF this k1(1)] k1(2) k2(2) k3(2) show ?thesis by (intro exI [of _ k1]) simp
  qed
qed

section \<open>The checksum and the end of the frame\<close>

lemma word_bytes_join: "(ucast (ucast (w :: u16) :: u8) :: u16) OR push_bit 8 (ucast (ucast (drop_bit 8 w) :: u8)) = w"
  by (rule bit_word_eqI) (auto simp: bit_simps)

definition crc_taken :: "u16 \<Rightarrow> 'a uart_sys_scheme \<Rightarrow> 'a uart_sys_scheme" where
  "crc_taken w k = k\<lparr>crc_in := w, urx := (urx k)\<lparr>u_hdlc_state := HDLC_PADDING, u_msg_state := SOS_MSG_RX_END, u_state := UART_HDLC_STOP\<rparr>\<rparr>"

lemma rx_crc_run:
  assumes k: "u_state (urx k) = UART_DATA" "u_msg_state (urx k) = SOS_MSG_RX_CRC_LOW" "u_hdlc_state (urx k) \<noteq> HDLC_ESCAPE"
  shows "\<exists>k1. same_rx (crc_taken w k) k1 \<and> uart_feed now (stuff_all (word_bytes w) @ cs) k = uart_feed now cs k1"
proof -
  let ?b = "ucast w :: u8" and ?c = "ucast (drop_bit 8 w) :: u8"
  obtain sv where a: "uart_feed now (stuff ?b @ stuff ?c @ cs) k = continue (rx_byte ?b (k\<lparr>rx_saved_state := sv\<rparr>)) (uart_feed now (stuff ?c @ cs))"
    using feed_stuff [OF k(1,3)] unfolding same_rx_def by blast
  let ?k1 = "k\<lparr>rx_saved_state := sv, crc_in := ucast ?b, urx := (urx k)\<lparr>u_msg_state := SOS_MSG_RX_CRC_HIGH\<rparr>\<rparr>"
  have "rx_byte ?b (k\<lparr>rx_saved_state := sv\<rparr>) = Some (Done ?k1)" using k(2) by (simp add: rx_byte_def)
  with a have a: "uart_feed now (stuff ?b @ stuff ?c @ cs) k = uart_feed now (stuff ?c @ cs) ?k1" by simp
  obtain sv' where b: "uart_feed now (stuff ?c @ cs) ?k1 = continue (rx_byte ?c (?k1\<lparr>rx_saved_state := sv'\<rparr>)) (uart_feed now cs)"
    using feed_stuff [of ?k1 now ?c cs] k unfolding same_rx_def by auto
  have "rx_byte ?c (?k1\<lparr>rx_saved_state := sv'\<rparr>) = Some (Done ((crc_taken w k)\<lparr>rx_saved_state := sv'\<rparr>))"
    by (simp add: rx_byte_def crc_taken_def word_bytes_join)
  with a b have "uart_feed now (stuff_all (word_bytes w) @ cs) k = uart_feed now cs ((crc_taken w k)\<lparr>rx_saved_state := sv'\<rparr>)"
    by (simp add: word_bytes_def)
  then show ?thesis unfolding same_rx_def by blast
qed

lemma rx_stop_ok:
  assumes "u_state (urx k) = UART_HDLC_STOP" "crc_in k = u_crc (urx k)" "u_msgHdr (urx k) = m" "m_type (headers k m) \<noteq> MSG_TIMESTAMP"
    and h: "handle_incoming_msg m SOS_MSG_UART_IO
      (set_uart_address (m_saddr (headers k m)) (upd_rx (\<lambda>s. s\<lparr>u_hdlc_state := HDLC_IDLE\<rparr>) k)) = Some k1"
  shows "uart_feed now [HDLC_FLAG] k = Some (Done (upd_rx (\<lambda>s. s\<lparr>u_msgHdr := NULL, u_state := UART_IDLE,
    u_msg_state := SOS_MSG_NO_STATE, u_hdlc_state := HDLC_IDLE\<rparr>) k1))"
  using assms(1-4) h by (simp add: uart_recv_interrupt_def rx_stop_def set_uart_address_def)

section \<open>The kernel\<close>

lemma msgs_inv_frame:
  assumes "smem k' = smem k" "msg_slab k' = msg_slab k"
    and h: "\<And>x. x \<in> L \<Longrightarrow> flag_msg_release (m_flag (headers k' x)) = flag_msg_release (m_flag (headers k x)) \<and>
      (flag_msg_release (m_flag (headers k x)) \<longrightarrow> m_data (headers k' x) = m_data (headers k x))"
  shows "msgs_inv k' ps L = msgs_inv k ps L"
proof -
  have r: "releases k' L = releases k L" using h by (auto simp: releases_def)
  have "inj_on (\<lambda>x. m_data (headers k' x)) (releases k L) = inj_on (\<lambda>x. m_data (headers k x)) (releases k L)"
    by (rule inj_on_cong) (use h in \<open>auto simp: releases_def\<close>)
  moreover have "(\<forall>x \<in> releases k L. \<exists>n own. (m_data (headers k' x), n, own) \<in> others ps (smem k)) =
      (\<forall>x \<in> releases k L. \<exists>n own. (m_data (headers k x), n, own) \<in> others ps (smem k))"
    by (rule ball_cong) (use h in \<open>auto simp: releases_def\<close>)
  ultimately show ?thesis unfolding msgs_inv_def payloads_ok_def r assms(1,2) by blast
qed

text \<open>A block is allocated, and becomes the payload of a message without one.\<close>

lemma malloc_law:
  assumes inv: "msgs_inv k ps L" and a: "ker_malloc sz pid (heap_of k) = Some (h, p)" "p \<noteq> NULL" and sz: "unat sz \<le> 65524"
  shows "\<exists>n. unat sz \<le> n \<and> msgs_inv (set_heap h k) ps L \<and> (p, n, pid) \<in> chunks h \<and> p \<notin> fst ` others ps (smem k) \<and>
    others ps (smem (set_heap h k)) = insert (p, n, pid) (others ps (smem k))"
proof -
  have s: "slab_inv (msg_slab k) ps (smem k)" using inv by (simp add: msgs_inv_def)
  let ?w = "(smem k)\<lparr>s_heap := h\<rparr>"
  obtain n where n: "slab_inv (msg_slab k) ps ?w" "slab_used (msg_slab k) ps ?w = slab_used (msg_slab k) ps (smem k)"
    "unat sz \<le> n" "(p, n, pid) \<notin> chunks (s_heap (smem k))" "others ps ?w = insert (p, n, pid) (others ps (smem k))"
  proof -
    obtain h' p' where "ker_malloc sz pid (s_heap (smem k)) = Some (h', p')"
      "slab_inv (msg_slab k) ps ((smem k)\<lparr>s_heap := h'\<rparr>)"
      "slab_used (msg_slab k) ps ((smem k)\<lparr>s_heap := h'\<rparr>) = slab_used (msg_slab k) ps (smem k)"
      "if p' = NULL then others ps ((smem k)\<lparr>s_heap := h'\<rparr>) = others ps (smem k)
       else \<exists>n. unat sz \<le> n \<and> (p', n, pid) \<notin> chunks (s_heap (smem k)) \<and> p' \<notin> set ps \<and>
         others ps ((smem k)\<lparr>s_heap := h'\<rparr>) = insert (p', n, pid) (others ps (smem k))"
      using slab_other_alloc [OF s sz disjI1 [OF refl], of pid] by blast
    moreover have "h' = h" "p' = p" using a(1) calculation(1) by (simp_all add: heap_of_def)
    ultimately show ?thesis using that a(2) by auto
  qed
  have "(p, n, pid) \<in> others ps ?w" unfolding n(5) by (rule insertI1)
  then have in_h: "(p, n, pid) \<in> chunks h" by (simp add: others_def)
  have "p \<noteq> q" if c: "(q, i, x) \<in> others ps (smem k)" for q i x
  proof
    assume "p = q"
    have "(q, i, x) \<in> others ps ?w" unfolding n(5) using c by (rule insertI2)
    then have "(q, i, x) \<in> chunks h" by (simp add: others_def)
    then have "(p, n, pid) = (q, i, x)" using chunks_disjoint [OF in_h] \<open>p = q\<close> by fastforce
    with c n(4) show False by (simp add: others_def)
  qed
  then have "p \<notin> fst ` others ps (smem k)" by force
  moreover have "\<exists>i own. (a, i, own) \<in> others ps ?w" if "\<exists>i own. (a, i, own) \<in> others ps (smem k)" for a
    using that unfolding n(5) by blast
  then have "payloads_ok (set_heap h k) ps L"
    using inv unfolding msgs_inv_def payloads_ok_def releases_def set_heap_def by simp
  then have "msgs_inv (set_heap h k) ps L" using inv n(1,2) by (simp add: msgs_inv_def set_heap_def)
  ultimately show ?thesis using n(3,5) in_h by (intro exI [of _ n]) (simp add: set_heap_def)
qed

lemma msgs_inv_attach:
  assumes inv: "msgs_inv k ps L" and m: "m \<in> L" "\<not> flag_msg_release (m_flag (headers k m))"
    and c: "(p, n, own) \<in> others ps (smem k)" "p \<notin> (\<lambda>x. m_data (headers k x)) ` releases k L"
    and k': "smem k' = smem k" "msg_slab k' = msg_slab k" "headers k' = (headers k)(m := y)" "m_data y = p" "flag_msg_release (m_flag y)"
  shows "msgs_inv k' ps L"
proof -
  have r: "releases k' L = insert m (releases k L)" using m k' by (auto simp: releases_def)
  have mr: "m \<notin> releases k L" using m by (simp add: releases_def)
  have d: "m_data (headers k' x) = m_data (headers k x)" if "x \<in> releases k L" for x using that mr k'(3) by auto
  have p: "payloads_ok k ps L" using inv by (simp add: msgs_inv_def)
  have "inj_on (\<lambda>x. m_data (headers k' x)) (releases k L)"
    using p d inj_on_cong [of "releases k L" "\<lambda>x. m_data (headers k' x)" "\<lambda>x. m_data (headers k x)"] by (auto simp: payloads_ok_def)
  moreover have "(\<lambda>x. m_data (headers k' x)) ` releases k L = (\<lambda>x. m_data (headers k x)) ` releases k L"
    by (rule image_cong) (simp_all add: d)
  ultimately have "inj_on (\<lambda>x. m_data (headers k' x)) (releases k' L)"
    unfolding r inj_on_insert using c(2) k'(3,4) mr by simp
  moreover have "\<exists>n own. (m_data (headers k' x), n, own) \<in> others ps (smem k')" if "x \<in> releases k' L" for x
    using that p c(1) k' d unfolding r by (cases "x = m") (auto simp: payloads_ok_def)
  ultimately have "payloads_ok k' ps L" by (simp add: payloads_ok_def)
  then show ?thesis using inv k'(1,2) by (simp add: msgs_inv_def)
qed

lemma chunk_room: "(p, n, own) \<in> chunks h \<Longrightarrow> room_at h p = n"
proof -
  assume "(p, n, own) \<in> chunks h"
  then obtain q i c as where c: "p = user_part h q" "n = BLOCK_SIZE * i - BLOCKOVERHEAD" "rep h as"
    "(q, Used i own own c) \<in> set (live 0 as)" by (auto simp: chunks_def)
  obtain as1 as2 where d: "as = as1 @ Used i own own c # as2" "q = 0 + tot as1" by (rule live_split [OF c(4)])
  have q: "q = tot as1" using d(2) by simp
  have r: "rep h (as1 @ Used i own own c # as2)" using c(3) d(1) by simp
  have "unat (blocks (blk h q) AND NOT MEM_MASK) = i" using rep_area [OF r] unfolding q by simp
  moreover have "addr_blk h (TO_BLOCK_PTR p) = Some q" unfolding c(1) rep_ptr(1) [OF r q] by (rule rep_ptr(3) [OF r q])
  ultimately show ?thesis by (simp add: room_at_def c(2))
qed

section \<open>Reception of a message\<close>

lemma uart_fields:
  fixes k :: "'a uart_sys_scheme"
  assumes "msg_sys.more k' = msg_sys.more k"
  shows "urx k' = urx k" "utx k' = utx k" "uart_address k' = uart_address k" "crc_in k' = crc_in k" "rx_saved_state k' = rx_saved_state k"
  using assms by (cases k; cases k'; simp)+

definition rx_filled :: "'a uart_sys_scheme \<Rightarrow> addr \<Rightarrow> Message \<Rightarrow> bytes \<Rightarrow> u16 \<Rightarrow> 'a uart_sys_scheme \<Rightarrow> bool" where
  "rx_filled k0 m x b c k \<longleftrightarrow> headers k = (headers k0)(m := x) \<and> bytes_of k = b \<and> schedpq k = schedpq k0 \<and>
     u_state (urx k) = UART_DATA \<and> u_msg_state (urx k) = SOS_MSG_RX_CRC_LOW \<and> u_hdlc_state (urx k) \<noteq> HDLC_ESCAPE \<and>
     u_msgHdr (urx k) = m \<and> u_crc (urx k) = c"

definition net_flag :: "u16 \<Rightarrow> u16" where
  "net_flag f = f OR SOS_MSG_FROM_NETWORK OR SOS_MSG_UART_IO"

lemma net_flag_release [simp]: "flag_msg_release (net_flag f) = flag_msg_release f"
proof -
  have "net_flag f AND SOS_MSG_RELEASE = (f AND SOS_MSG_RELEASE) OR ((SOS_MSG_FROM_NETWORK OR SOS_MSG_UART_IO) AND SOS_MSG_RELEASE)"
    unfolding net_flag_def by (rule bit_word_eqI) (auto simp: bit_simps)
  also have "(SOS_MSG_FROM_NETWORK OR SOS_MSG_UART_IO) AND SOS_MSG_RELEASE = 0" by (simp add: flag_defs)
  finally show ?thesis by (simp add: flag_msg_release_def)
qed

text \<open>The checksum is right: the message enters the queue of the scheduler.\<close>

lemma rx_finish:
  assumes f: "rx_filled k0 m x b c k" and inv: "msgs_inv k ps (insert m L)"
    and q: "mq_holds (headers k0) (schedpq k0) xs" "set xs \<subseteq> L" and m: "m \<notin> L" "m \<noteq> NULL" and t: "m_type x \<noteq> MSG_TIMESTAMP"
  shows "\<exists>k'. uart_feed now (stuff_all (word_bytes c) @ [HDLC_FLAG]) k = Some (Done k') \<and>
    mq_inv k' ps (insert m L) (stable_insert (msg_class (headers k')) m xs) \<and>
    same_fields ((headers k0)(m := x\<lparr>m_flag := net_flag (m_flag x)\<rparr>)) (headers k') \<and> bytes_of k' = b \<and>
    u_state (urx k') = UART_IDLE \<and> u_msgHdr (urx k') = NULL \<and> uart_address k' = m_saddr x"
proof -
  note f = f [unfolded rx_filled_def]
  obtain sv where r: "uart_feed now (stuff_all (word_bytes c) @ [HDLC_FLAG]) k = uart_feed now [HDLC_FLAG] ((crc_taken c k)\<lparr>rx_saved_state := sv\<rparr>)"
    using rx_crc_run [of k c now "[HDLC_FLAG]"] f unfolding same_rx_def by blast
  let ?k1 = "(crc_taken c k)\<lparr>rx_saved_state := sv\<rparr>"
  let ?k2 = "set_uart_address (m_saddr x) (upd_rx (\<lambda>s. s\<lparr>u_hdlc_state := HDLC_IDLE\<rparr>) ?k1)"
  let ?x = "x\<lparr>m_flag := net_flag (m_flag x)\<rparr>"
  let ?K = "upd_msg m (\<lambda>y. y\<lparr>m_flag := m_flag y OR SOS_MSG_FROM_NETWORK OR SOS_MSG_UART_IO\<rparr>) ?k2"
  have h: "headers ?K = (headers k0)(m := ?x)" "schedpq ?K = schedpq k0" "smem ?K = smem k" "msg_slab ?K = msg_slab k" "bytes_of ?K = b"
    using f by (simp_all add: set_uart_address_def crc_taken_def upd_msg_def set_msg_def net_flag_def fun_eq_iff)
  have "msgs_inv ?K ps (insert m L) = msgs_inv k ps (insert m L)"
    by (rule msgs_inv_frame [OF h(3,4)]) (unfold h(1) conjunct1 [OF f], simp)
  then have i: "msgs_inv ?K ps (insert m L)" using inv by simp
  have mx: "m \<notin> set xs" using m(1) q(2) by auto
  then have qK: "mq_holds (headers ?K) (schedpq ?K) xs"
    unfolding h(1,2) by (subst mq_holds_cong [of xs _ "headers k0"]) (use q(1) in auto)
  obtain k' where k': "sched_msg_alloc m ?K = Some k'" "msgs_inv k' ps (insert m L)" "same_fields (headers ?K) (headers k')"
    "mq_holds (headers k') (schedpq k') (stable_insert (msg_class (headers ?K)) m xs)" "bytes_of k' = bytes_of ?K"
    using sched_msg_alloc_law [OF i qK insertI1 mx m(2)] by blast
  let ?k' = "upd_rx (\<lambda>s. s\<lparr>u_msgHdr := NULL, u_state := UART_IDLE, u_msg_state := SOS_MSG_NO_STATE, u_hdlc_state := HDLC_IDLE\<rparr>) k'"
  have "uart_feed now [HDLC_FLAG] ?k1 = Some (Done ?k')"
    by (rule rx_stop_ok [where m = m]) (use f t k'(1) in \<open>simp_all add: crc_taken_def handle_incoming_msg_def\<close>)
  moreover have "msgs_inv ?k' ps (insert m L)"
    using k'(2) msgs_inv_frame [of ?k' k' "insert m L" ps] by simp
  then have "mq_inv ?k' ps (insert m L) (stable_insert (msg_class (headers ?k')) m xs)"
    using k'(3,4) q(2) msg_class_same [OF k'(3)] by (auto simp: mq_inv_def)
  moreover have "uart_address k' = m_saddr x"
    using uart_fields(3) [OF sched_msg_alloc_more [OF k'(1)]] by (simp add: upd_msg_def set_uart_address_def)
  ultimately show ?thesis using r k'(3,5) h(1,5) by (intro exI [of _ ?k']) simp
qed

lemma msg_create_urx:
  assumes "msg_create k = Some (k1, m)"
  shows "msg_create (k\<lparr>urx := s\<rparr>) = Some (k1\<lparr>urx := s\<rparr>, m)" "urx k1 = urx k"
proof -
  show "urx k1 = urx k" by (rule uart_fields(1) [OF msg_create_more [OF assms]])
  obtain w where w: "ker_slab_alloc (msg_slab k) MSG_QUEUE_PID (smem k) = Some (w, m)"
    "k1 = (if m = NULL then k\<lparr>smem := w\<rparr> else upd_msg m (\<lambda>x. x\<lparr>m_data := m + PAYLOAD_OFFSET, m_flag := 0\<rparr>) (k\<lparr>smem := w\<rparr>))"
    using assms by (auto simp: msg_create_def Let_def split: if_splits)
  then show "msg_create (k\<lparr>urx := s\<rparr>) = Some (k1\<lparr>urx := s\<rparr>, m)"
    by (cases "m = NULL") (simp_all add: msg_create_def upd_msg_def)
qed

definition rx_fresh :: "addr \<Rightarrow> uart_state_t \<Rightarrow> uart_state_t" where
  "rx_fresh m s = s\<lparr>u_msgHdr := m, u_msg_state := SOS_MSG_RX_HDR, u_crc := crcByte 0 HDLC_SOS_MSG,
     u_flags := u_flags s OR UART_SOS_MSG_FLAG, u_idx := 0, u_state := UART_DATA, u_hdlc_state := HDLC_DATA\<rparr>"

lemma rx_begin:
  assumes k: "u_state (urx k) = UART_IDLE" "u_msgHdr (urx k) = NULL" and c: "msg_create k = Some (k1, m)" "m \<noteq> NULL"
  shows "uart_feed now ([HDLC_FLAG, HDLC_SOS_MSG] @ cs) k = uart_feed now cs (k1\<lparr>urx := rx_fresh m (urx k)\<rparr>)"
proof -
  let ?s = "(urx k)\<lparr>u_state := UART_HDLC_START\<rparr>"
  have 1: "uart_recv_interrupt now 0 HDLC_FLAG k = Some (Done (k\<lparr>urx := ?s\<rparr>))"
    using k(1) by (simp add: uart_recv_interrupt_def)
  have "rx_new_msg (k\<lparr>urx := ?s\<rparr>) = Some (k1\<lparr>urx := ?s\<lparr>u_msgHdr := m\<rparr>\<rparr>)"
    using k(2) msg_create_urx [OF c(1)] by (simp add: rx_new_msg_def)
  then have "uart_recv_interrupt now 0 HDLC_SOS_MSG (k\<lparr>urx := ?s\<rparr>) = Some (Done (k1\<lparr>urx := rx_fresh m (urx k)\<rparr>))"
    using c(2) by (simp add: uart_recv_interrupt_def rx_protocol_def rx_fresh_def hdlc_defs)
  with 1 show ?thesis by simp
qed

lemma rx_hdr_end_empty:
  assumes "u_msgHdr (urx k) = m" "m_len (headers k m) = 0"
  shows "rx_hdr_end k = Some (Done (k\<lparr>headers := (headers k)(m := (headers k m)\<lparr>m_flag := m_flag (headers k m) AND NOT SOS_MSG_RELEASE, m_data := NULL\<rparr>),
    urx := (urx k)\<lparr>u_msgLen := 0, u_msg_state := SOS_MSG_RX_CRC_LOW\<rparr>\<rparr>))"
  using assms by (simp add: rx_hdr_end_def UART_MAX_MSG_LEN_def upd_msg_def set_msg_def)

lemma rx_hdr_end_data:
  assumes "u_msgHdr (urx k) = m" "m_len (headers k m) \<noteq> 0" "m_len (headers k m) < UART_MAX_MSG_LEN"
    "ker_malloc (ucast (m_len (headers k m))) UART_PID (heap_of k) = Some (h, p)" "p \<noteq> NULL"
  shows "rx_hdr_end k = Some (Done ((set_heap h k)\<lparr>headers := (headers k)(m := (headers k m)\<lparr>m_data := p, m_flag := SOS_MSG_RELEASE\<rparr>),
    urx := (urx k)\<lparr>u_msgLen := m_len (headers k m), u_buff := p, u_msg_state := SOS_MSG_RX_DATA, u_idx := 0\<rparr>\<rparr>))"
proof -
  let ?k1 = "k\<lparr>urx := (urx k)\<lparr>u_msgLen := m_len (headers k m)\<rparr>\<rparr>"
  have "k_malloc (ucast (m_len (headers k m))) UART_PID ?k1 = Some (set_heap h ?k1, p)"
    using assms(4) by (simp add: k_malloc_def heap_of_def)
  then show ?thesis using assms by (simp add: rx_hdr_end_def upd_msg_def set_msg_def set_heap_def)
qed

lemma created_inv:
  assumes inv: "mq_inv k ps L xs" and c: "msg_create k = Some (k1, m)" "m \<noteq> NULL"
  shows "\<exists>ps'. msgs_inv k1 ps' (insert m L) \<and> m \<notin> L \<and> others ps' (smem k1) = others ps (smem k) \<and>
      m \<notin> headers_used k ps \<and> headers_used k1 ps' = insert m (headers_used k ps)"
    and "headers k1 = (headers k)(m := (headers k m)\<lparr>m_data := m + PAYLOAD_OFFSET, m_flag := 0\<rparr>)"
    and "schedpq k1 = schedpq k" "bytes_of k1 = bytes_of k" "msg_slab k1 = msg_slab k"
proof -
  have i: "msgs_inv k ps L" using inv by (simp add: mq_inv_def)
  let ?x = "(headers k m)\<lparr>m_data := m + PAYLOAD_OFFSET, m_flag := 0\<rparr>"
  obtain w ps' where w: "slab_inv (msg_slab k) ps' w" "others ps' w = others ps (smem k)"
    "m \<notin> slab_used (msg_slab k) ps (smem k)" "slab_used (msg_slab k) ps' w = insert m (slab_used (msg_slab k) ps (smem k))"
    "k1 = upd_msg m (\<lambda>x. x\<lparr>m_data := m + PAYLOAD_OFFSET, m_flag := 0\<rparr>) (k\<lparr>smem := w\<rparr>)"
    using msg_create_law [OF i] c by (auto split: if_splits)
  show h: "headers k1 = (headers k)(m := ?x)" and f: "schedpq k1 = schedpq k" "bytes_of k1 = bytes_of k" "msg_slab k1 = msg_slab k"
    by (simp_all add: w(5) upd_msg_def set_msg_def)
  have s: "smem k1 = w" by (simp add: w(5) upd_msg_def)
  have "msgs_inv k1 ps' (insert m L)"
    by (rule msgs_inv_new [OF i w(1,2,4,3) [folded s] f(3) h]) simp
  moreover have "m \<notin> L" using i w(3) by (auto simp: msgs_inv_def)
  ultimately show "\<exists>ps'. msgs_inv k1 ps' (insert m L) \<and> m \<notin> L \<and> others ps' (smem k1) = others ps (smem k) \<and>
      m \<notin> headers_used k ps \<and> headers_used k1 ps' = insert m (headers_used k ps)"
    using w(2-4) s f(3) by (intro exI [of _ ps']) simp
qed

lemma put_bytes_other: "c < a \<or> a + length xs \<le> c \<Longrightarrow> put_bytes a xs b c = b c"
  by (induction xs arbitrary: a b) auto

lemma put_bytes_nth: "i < length xs \<Longrightarrow> put_bytes a xs b (a + i) = xs ! i"
proof (induction xs arbitrary: a b i)
  case (Cons x xs)
  then show ?case
  proof (cases i)
    case (Suc j)
    then show ?thesis using Cons.IH [of j "Suc a"] Cons.prems by simp
  qed (simp add: put_bytes_other)
qed simp

text \<open>Header and payload, up to the checksum.\<close>

definition rx_message :: "addr \<Rightarrow> Message \<Rightarrow> addr \<Rightarrow> Message \<Rightarrow> Message" where
  "rx_message m y p x = x\<lparr>m_did := m_did y, m_sid := m_sid y, m_daddr := m_daddr y, m_saddr := m_saddr y,
     m_type := m_type y, m_len := m_len y, m_data := p, m_flag := (if m_len y = 0 then 0 else SOS_MSG_RELEASE)\<rparr>"

lemma rx_header_law:
  assumes k1: "headers k1 = (headers k)(m := (headers k m)\<lparr>m_data := m + PAYLOAD_OFFSET, m_flag := 0\<rparr>)"
    and y: "HDLC_FLAG \<notin> set (hdr_bytes y)"
  shows "\<exists>k3 x. uart_feed now (stuff_all (hdr_bytes y) @ cs) (k1\<lparr>urx := rx_fresh m s\<rparr>) = continue (rx_hdr_end k3) (uart_feed now cs) \<and>
    headers k3 = (headers k)(m := x) \<and> m_len x = m_len y \<and> m_flag x = 0 \<and>
    (\<forall>f p. x\<lparr>m_data := p, m_flag := f\<rparr> = (rx_message m y p (headers k m))\<lparr>m_flag := f\<rparr>) \<and>
    smem k3 = smem k1 \<and> msg_slab k3 = msg_slab k1 \<and> schedpq k3 = schedpq k1 \<and> bytes_of k3 = bytes_of k1 \<and>
    urx k3 = (rx_fresh m s)\<lparr>u_idx := 8, u_crc := crc_of 0 (HDLC_SOS_MSG # hdr_bytes y)\<rparr>"
proof -
  let ?k2 = "k1\<lparr>urx := rx_fresh m s\<rparr>" and ?hs = "hdr_bytes y"
  let ?x = "(headers ?k2 m)\<lparr>m_did := m_did y, m_sid := m_sid y, m_daddr := m_daddr y, m_saddr := m_saddr y,
      m_type := m_type y, m_len := m_len y\<rparr>"
  obtain k3 where k3: "same_rx (rx_progress m ?x ?hs ?k2) k3"
    "uart_feed now (stuff_all ?hs @ cs) ?k2 = continue (rx_hdr_end k3) (uart_feed now cs)"
    using rx_hdr_all [of ?k2 m ?hs y ?x now cs] y by (auto simp: rx_fresh_def)
  have "smem k3 = smem k1" "msg_slab k3 = msg_slab k1" "schedpq k3 = schedpq k1" "bytes_of k3 = bytes_of k1"
    using k3(1) by (auto simp: same_rx_def rx_progress_def)
  moreover have "headers k3 = (headers k)(m := ?x)"
    by (simp add: same_rx_frame [OF k3(1)] rx_progress_def k1 fun_eq_iff)
  moreover have "urx k3 = (rx_fresh m s)\<lparr>u_idx := 8, u_crc := crc_of 0 (HDLC_SOS_MSG # ?hs)\<rparr>"
    by (simp add: same_rx_frame [OF k3(1)] rx_progress_def rx_fresh_def)
  moreover have "\<forall>f p. ?x\<lparr>m_data := p, m_flag := f\<rparr> = (rx_message m y p (headers k m))\<lparr>m_flag := f\<rparr>"
    by (simp add: rx_message_def k1)
  moreover have "m_len ?x = m_len y" "m_flag ?x = 0" by (simp_all add: k1)
  ultimately show ?thesis using k3(2) by blast
qed

lemma rx_body_empty:
  assumes k1: "headers k1 = (headers k)(m := (headers k m)\<lparr>m_data := m + PAYLOAD_OFFSET, m_flag := 0\<rparr>)" "schedpq k1 = schedpq k"
    and inv: "msgs_inv k1 ps (insert m L)" and y: "HDLC_FLAG \<notin> set (hdr_bytes y)" "m_len y = 0"
  shows "\<exists>k'. uart_feed now (stuff_all (hdr_bytes y) @ cs) (k1\<lparr>urx := rx_fresh m s\<rparr>) = uart_feed now cs k' \<and>
    rx_filled k m (rx_message m y NULL (headers k m)) (bytes_of k1) (crc_of 0 (HDLC_SOS_MSG # hdr_bytes y)) k' \<and>
    msgs_inv k' ps (insert m L)"
proof -
  let ?x = "rx_message m y NULL (headers k m)"
  obtain k3 x where k3: "uart_feed now (stuff_all (hdr_bytes y) @ cs) (k1\<lparr>urx := rx_fresh m s\<rparr>) = continue (rx_hdr_end k3) (uart_feed now cs)"
    "headers k3 = (headers k)(m := x)" "m_len x = m_len y" "m_flag x = 0"
    "\<forall>f p. x\<lparr>m_data := p, m_flag := f\<rparr> = (rx_message m y p (headers k m))\<lparr>m_flag := f\<rparr>"
    "smem k3 = smem k1" "msg_slab k3 = msg_slab k1" "schedpq k3 = schedpq k1" "bytes_of k3 = bytes_of k1"
    "urx k3 = (rx_fresh m s)\<lparr>u_idx := 8, u_crc := crc_of 0 (HDLC_SOS_MSG # hdr_bytes y)\<rparr>"
    using rx_header_law [OF k1(1) y(1)] by blast
  have "x\<lparr>m_flag := 0, m_data := NULL\<rparr> = x\<lparr>m_data := NULL, m_flag := 0\<rparr>" by simp
  then have xe: "x\<lparr>m_flag := 0, m_data := NULL\<rparr> = ?x" using y(2) k3(5) by (simp add: rx_message_def)
  let ?k4 = "k3\<lparr>headers := (headers k)(m := ?x), urx := (urx k3)\<lparr>u_msgLen := 0, u_msg_state := SOS_MSG_RX_CRC_LOW\<rparr>\<rparr>"
  have r: "rx_hdr_end k3 = Some (Done ?k4)"
    using rx_hdr_end_empty [of k3 m] y(2) k3(2-4,10) xe by (simp add: rx_fresh_def)
  have "msgs_inv ?k4 ps (insert m L) = msgs_inv k1 ps (insert m L)"
    by (intro msgs_inv_frame) (simp_all add: k1 rx_message_def y(2) k3)
  then have "rx_filled k m ?x (bytes_of k1) (crc_of 0 (HDLC_SOS_MSG # hdr_bytes y)) ?k4" "msgs_inv ?k4 ps (insert m L)"
    using inv k1(2) k3 by (simp_all add: rx_filled_def rx_fresh_def)
  then show ?thesis using k3(1) r by (intro exI [of _ ?k4]) simp
qed

lemma rx_data_all:
  assumes u: "u_state (urx k) = UART_DATA" "u_msg_state (urx k) = SOS_MSG_RX_DATA" "u_hdlc_state (urx k) = HDLC_DATA"
    "has_flag (u_flags (urx k)) UART_SOS_MSG_FLAG" "u_idx (urx k) = 0" "u_msgLen (urx k) \<noteq> 0"
    and ds: "length ds = unat (u_msgLen (urx k))" and room: "length ds \<le> room_at (heap_of k) (u_buff (urx k))"
  shows "\<exists>k'. uart_feed now (stuff_all ds @ cs) k = uart_feed now cs k' \<and> headers k' = headers k \<and> smem k' = smem k \<and>
    msg_slab k' = msg_slab k \<and> schedpq k' = schedpq k \<and> bytes_of k' = put_bytes (u_buff (urx k)) ds (bytes_of k) \<and>
    urx k' = (urx k)\<lparr>u_idx := u_msgLen (urx k), u_crc := crc_of (u_crc (urx k)) ds, u_hdlc_state := HDLC_CRC, u_msg_state := SOS_MSG_RX_CRC_LOW\<rparr>"
proof -
  have "0 < unat (u_msgLen (urx k))" using u(6) by (simp add: unat_gt_0)
  then obtain k' where k': "same_rx (data_end (data_progress ds k)) k'" "uart_feed now (stuff_all ds @ cs) k = uart_feed now cs k'"
    using rx_data_run [OF u(1,2) _ u(4), of ds now cs] u(3,5) ds room by auto
  have "data_end (data_progress ds k) = k\<lparr>bytes_of := put_bytes (u_buff (urx k)) ds (bytes_of k),
      urx := (urx k)\<lparr>u_idx := u_msgLen (urx k), u_crc := crc_of (u_crc (urx k)) ds, u_hdlc_state := HDLC_CRC, u_msg_state := SOS_MSG_RX_CRC_LOW\<rparr>\<rparr>"
    using u(5) ds by (simp add: data_end_def data_progress_def)
  with k' show ?thesis by (auto simp: same_rx_def)
qed

lemma unat_ucast8: "unat (ucast (w :: u8) :: u16) = unat w"
  using unat8_less [of w] by (simp add: unsigned_ucast_eq take_bit_nat_eq_self)

lemma has_flag_or: "has_flag (f OR UART_SOS_MSG_FLAG) UART_SOS_MSG_FLAG"
proof -
  have "(f OR UART_SOS_MSG_FLAG) AND UART_SOS_MSG_FLAG = UART_SOS_MSG_FLAG" by (rule bit_word_eqI) (auto simp: bit_simps)
  then show ?thesis by (simp add: has_flag_def uart_flag_defs)
qed

lemma rx_body_data:
  assumes k1: "headers k1 = (headers k)(m := (headers k m)\<lparr>m_data := m + PAYLOAD_OFFSET, m_flag := 0\<rparr>)" "schedpq k1 = schedpq k"
    and inv: "msgs_inv k1 ps (insert m L)" and y: "HDLC_FLAG \<notin> set (hdr_bytes y)" "m_len y \<noteq> 0" "m_len y < UART_MAX_MSG_LEN"
    and a: "ker_malloc (ucast (m_len y)) UART_PID (heap_of k1) = Some (h, p)" "p \<noteq> NULL" and ds: "length ds = unat (m_len y)"
  shows "\<exists>k'. uart_feed now (stuff_all (hdr_bytes y @ ds) @ cs) (k1\<lparr>urx := rx_fresh m s\<rparr>) = uart_feed now cs k' \<and>
    rx_filled k m (rx_message m y p (headers k m)) (put_bytes p ds (bytes_of k1)) (crc_of 0 (HDLC_SOS_MSG # hdr_bytes y @ ds)) k' \<and>
    msgs_inv k' ps (insert m L)"
proof -
  let ?x = "rx_message m y p (headers k m)" and ?cs = "stuff_all ds @ cs"
  obtain k3 x where k3: "uart_feed now (stuff_all (hdr_bytes y) @ ?cs) (k1\<lparr>urx := rx_fresh m s\<rparr>) = continue (rx_hdr_end k3) (uart_feed now ?cs)"
    "headers k3 = (headers k)(m := x)" "m_len x = m_len y" "m_flag x = 0"
    "\<forall>f p. x\<lparr>m_data := p, m_flag := f\<rparr> = (rx_message m y p (headers k m))\<lparr>m_flag := f\<rparr>"
    "smem k3 = smem k1" "msg_slab k3 = msg_slab k1" "schedpq k3 = schedpq k1" "bytes_of k3 = bytes_of k1"
    "urx k3 = (rx_fresh m s)\<lparr>u_idx := 8, u_crc := crc_of 0 (HDLC_SOS_MSG # hdr_bytes y)\<rparr>"
    using rx_header_law [OF k1(1) y(1)] by blast
  have xe: "x\<lparr>m_data := p, m_flag := SOS_MSG_RELEASE\<rparr> = ?x" using y(2) k3(5) by (simp add: rx_message_def)
  let ?k4 = "(set_heap h k3)\<lparr>headers := (headers k)(m := ?x),
    urx := (urx k3)\<lparr>u_msgLen := m_len y, u_buff := p, u_msg_state := SOS_MSG_RX_DATA, u_idx := 0\<rparr>\<rparr>"
  have "heap_of k3 = heap_of k1" using k3(6) by (simp add: heap_of_def)
  then have r: "rx_hdr_end k3 = Some (Done ?k4)"
    using rx_hdr_end_data [of k3 m h p] y a k3(2,3,10) xe by (simp add: rx_fresh_def)
  obtain n where n: "unat (m_len y) \<le> n" "msgs_inv (set_heap h k1) ps (insert m L)" "(p, n, UART_PID) \<in> chunks h"
    "p \<notin> fst ` others ps (smem k1)" "others ps (smem (set_heap h k1)) = insert (p, n, UART_PID) (others ps (smem k1))"
    using malloc_law [OF inv a] unat8_less [of "m_len y"] unfolding unat_ucast8 by auto
  have "room_at (heap_of ?k4) p = n" using chunk_room [OF n(3)] by (simp add: heap_of_def set_heap_def)
  then obtain k5 where k5: "uart_feed now (stuff_all ds @ cs) ?k4 = uart_feed now cs k5" "headers k5 = headers ?k4" "smem k5 = smem ?k4"
    "msg_slab k5 = msg_slab ?k4" "schedpq k5 = schedpq ?k4" "bytes_of k5 = put_bytes p ds (bytes_of ?k4)"
    "urx k5 = (urx ?k4)\<lparr>u_idx := m_len y, u_crc := crc_of (u_crc (urx ?k4)) ds, u_hdlc_state := HDLC_CRC, u_msg_state := SOS_MSG_RX_CRC_LOW\<rparr>"
    using rx_data_all [of ?k4 ds now cs] y(2) ds n(1) by (auto simp: k3(10) rx_fresh_def has_flag_or)
  have "p \<notin> (\<lambda>z. m_data (headers k1 z)) ` releases k1 (insert m L)"
    using inv n(4) by (force simp: msgs_inv_def payloads_ok_def)
  then have "msgs_inv k5 ps (insert m L)"
    using k5(2-4) k3(6,7) n(5) y(2)
    by (intro msgs_inv_attach [OF n(2) insertI1, where p = p and n = n and own = UART_PID and y = ?x])
      (simp_all add: k1 releases_def rx_message_def set_heap_def flag_msg_release_def SOS_MSG_RELEASE_def)
  moreover have "rx_filled k m ?x (put_bytes p ds (bytes_of k1)) (crc_of 0 (HDLC_SOS_MSG # hdr_bytes y @ ds)) k5"
    using k5 k3(8,9) k1(2) by (simp add: rx_filled_def k3(10) rx_fresh_def)
  ultimately show ?thesis using k3(1) r k5(1) by (intro exI [of _ k5]) simp
qed

text \<open>A frame is received: the message is in the queue of the scheduler, with the header and the payload that were sent.\<close>

definition received :: "'a uart_sys_scheme \<Rightarrow> addr set \<Rightarrow> addr list \<Rightarrow> addr \<Rightarrow> Message \<Rightarrow> u8 list \<Rightarrow> 'a uart_sys_scheme \<Rightarrow> bool" where
  "received k L xs m y ds k' \<longleftrightarrow>
     (\<exists>ps. mq_inv k' ps (insert m L) (stable_insert (msg_class (headers k')) m xs)) \<and>
     hdr_bytes (headers k' m) = hdr_bytes y \<and> payload k' m = ds \<and>
     m_flag (headers k' m) = net_flag (if m_len y = 0 then 0 else SOS_MSG_RELEASE) \<and>
     (\<forall>x \<in> L. headers k' x = (headers k x)\<lparr>m_next := m_next (headers k' x)\<rparr>) \<and>
     (\<forall>a. a < m_data (headers k' m) \<or> m_data (headers k' m) + length ds \<le> a \<longrightarrow> bytes_of k' a = bytes_of k a) \<and>
     u_state (urx k') = UART_IDLE \<and> u_msgHdr (urx k') = NULL \<and> uart_address k' = m_saddr y"

lemma receive_law:
  assumes inv: "mq_inv k ps L xs" and idle: "u_state (urx k) = UART_IDLE" "u_msgHdr (urx k) = NULL"
    and y: "HDLC_FLAG \<notin> set (hdr_bytes y)" "m_type y \<noteq> MSG_TIMESTAMP" "m_len y < UART_MAX_MSG_LEN" and ds: "length ds = unat (m_len y)"
    and c: "msg_create k = Some (k1, m)" "m \<noteq> NULL"
    and a: "m_len y \<noteq> 0 \<Longrightarrow> ker_malloc (ucast (m_len y)) UART_PID (heap_of k1) = Some (h, p) \<and> p \<noteq> NULL"
  shows "\<exists>k'. uart_feed now (uart_frame (hdr_bytes y @ ds)) k = Some (Done k') \<and> m \<notin> L \<and> received k L xs m y ds k'"
proof -
  obtain ps' where i1: "msgs_inv k1 ps' (insert m L)" "m \<notin> L" using created_inv(1) [OF inv c] by blast
  note h1 = created_inv(2-4) [OF inv c]
  let ?p = "if m_len y = 0 then NULL else p" and ?c = "crc_of 0 (HDLC_SOS_MSG # hdr_bytes y @ ds)"
  let ?cs = "stuff_all (word_bytes ?c) @ [HDLC_FLAG]" let ?x = "rx_message m y ?p (headers k m)"
  have b: "uart_feed now (uart_frame (hdr_bytes y @ ds)) k = uart_feed now (stuff_all (hdr_bytes y @ ds) @ ?cs) (k1\<lparr>urx := rx_fresh m (urx k)\<rparr>)"
    using rx_begin [OF idle c] by (simp add: uart_frame_def)
  obtain k2 where k2: "uart_feed now (stuff_all (hdr_bytes y @ ds) @ ?cs) (k1\<lparr>urx := rx_fresh m (urx k)\<rparr>) = uart_feed now ?cs k2"
    "rx_filled k m ?x (put_bytes ?p ds (bytes_of k)) ?c k2" "msgs_inv k2 ps' (insert m L)"
  proof (cases "m_len y = 0")
    case True
    with that ds rx_body_empty [OF h1(1,2) i1(1) y(1), of now ?cs "urx k"] show ?thesis by (auto simp: h1(3))
  next
    case False
    with that rx_body_data [OF h1(1,2) i1(1) y(1) False y(3) _ _ ds, of h p now ?cs "urx k"] a show ?thesis by (auto simp: h1(3))
  qed
  have q: "mq_holds (headers k) (schedpq k) xs" "set xs \<subseteq> L" using inv by (simp_all add: mq_inv_def)
  obtain k' where k': "uart_feed now ?cs k2 = Some (Done k')" "mq_inv k' ps' (insert m L) (stable_insert (msg_class (headers k')) m xs)"
    "same_fields ((headers k)(m := ?x\<lparr>m_flag := net_flag (m_flag ?x)\<rparr>)) (headers k')" "bytes_of k' = put_bytes ?p ds (bytes_of k)"
    "u_state (urx k') = UART_IDLE" "u_msgHdr (urx k') = NULL" "uart_address k' = m_saddr ?x"
    using rx_finish [OF k2(2,3) q i1(2) c(2), of now] y(2) by (auto simp: rx_message_def)
  have hm: "headers k' m = ?x\<lparr>m_flag := net_flag (m_flag ?x), m_next := m_next (headers k' m)\<rparr>"
    using k'(3) unfolding same_fields_def by (metis fun_upd_same)
  have f: "m_did (headers k' m) = m_did y" "m_sid (headers k' m) = m_sid y" "m_daddr (headers k' m) = m_daddr y"
    "m_saddr (headers k' m) = m_saddr y" "m_type (headers k' m) = m_type y" "m_len (headers k' m) = m_len y"
    "m_data (headers k' m) = ?p" "m_flag (headers k' m) = net_flag (if m_len y = 0 then 0 else SOS_MSG_RELEASE)"
    by (subst hm, simp add: rx_message_def)+
  have "payload k' m = ds"
    using ds by (intro nth_equalityI) (simp_all add: payload_def f k'(4) put_bytes_nth)
  moreover have "headers k' x = (headers k x)\<lparr>m_next := m_next (headers k' x)\<rparr>" if "x \<in> L" for x
    using k'(3) that i1(2) unfolding same_fields_def by (metis fun_upd_other)
  moreover have "hdr_bytes (headers k' m) = hdr_bytes y" by (simp add: hdr_bytes_def f)
  ultimately have "received k L xs m y ds k'"
    unfolding received_def using k' f(7,8) by (auto simp: put_bytes_other rx_message_def)
  with b k2(1) k'(1) i1(2) show ?thesis by auto
qed

end
