(* ===== verification/Uart_Correct.thy ===== *)
theory Uart_Correct
  imports Uart_Receive Sched_Correct
begin

text \<open>
  The properties of the serial link: what one node sends, the other receives; a message with a
  start symbol in its header is lost; no input on the line breaks the invariant of the kernel,
  as long as no raw frame and no time stamp packet is received; raw frames overflow their buffer.
\<close>

section \<open>A start symbol in the header\<close>

lemma idle_run:
  assumes "u_state (urx k) = UART_IDLE" "HDLC_FLAG \<notin> set bs"
  shows "uart_feed now (bs @ cs) k = uart_feed now cs k"
  using assms by (induction bs) (auto simp: uart_recv_interrupt_def)

lemma stuff_no_flag: "HDLC_FLAG \<notin> set (stuff_all bs)"
proof -
  have "HDLC_FLAG \<notin> set (stuff b)" for b
  proof (cases "escaped b")
    case True
    then show ?thesis using escaped_cases [OF True] by (auto simp: stuff_def hdlc_defs)
  next
    case False
    then show ?thesis by (auto simp: stuff_def escaped_def)
  qed
  then show ?thesis by (induction bs) auto
qed

lemma fill_hdr_some: "i + length bs \<le> 8 \<Longrightarrow> \<exists>y. fill_hdr i bs x = Some y"
proof (induction bs arbitrary: i x)
  case (Cons b bs)
  have "i < 8" using Cons.prems by simp
  then have "i \<in> {0, 1, 2, 3, 4, 5, 6, 7}" by auto
  then obtain y where "put_hdr_byte (of_nat i) b x = Some y" by (auto simp: put_hdr_byte_def)
  with Cons.IH [of "Suc i" y] Cons.prems show ?case by simp
qed simp

lemma fill_hdr_keeps: "fill_hdr i bs x = Some y \<Longrightarrow> m_flag y = m_flag x \<and> m_data y = m_data x"
  by (induction bs arbitrary: i x) (fastforce simp: put_hdr_byte_def split: if_splits)+

text \<open>The receiver gives up: the message is disposed of, and the kernel is as before.\<close>

lemma reset_law:
  assumes inv: "mq_inv k ps L xs" and m: "u_msgHdr (urx k) = m" "m \<noteq> NULL" "m \<in> L" "m \<notin> set xs"
  shows "\<exists>k' ps'. uart_reset_recv k = Some (Done k') \<and> mq_inv k' ps' (L - {m}) xs \<and> u_state (urx k') = UART_IDLE \<and>
    u_msgHdr (urx k') = NULL \<and> headers k' = headers k \<and> bytes_of k' = bytes_of k \<and>
    fst ` others ps' (smem k') =
      fst ` others ps (smem k) - (if flag_msg_release (m_flag (headers k m)) then {m_data (headers k m)} else {})"
proof -
  obtain w ps' where w: "msg_dispose m k = Some (Done (k\<lparr>smem := w\<rparr>))" "mq_inv (k\<lparr>smem := w\<rparr>) ps' (L - {m}) xs"
    "fst ` others ps' w = fst ` others ps (smem k) - (if flag_msg_release (m_flag (headers k m)) then {m_data (headers k m)} else {})"
    using mq_inv_dispose [OF inv m(3,4)] by blast
  let ?k = "k\<lparr>smem := w, urx := (urx k)\<lparr>u_msgHdr := NULL, u_state := UART_IDLE, u_msg_state := SOS_MSG_NO_STATE, u_hdlc_state := HDLC_IDLE\<rparr>\<rparr>"
  have "uart_reset_recv k = Some (Done ?k)" using m(1,2) w(1) by (simp add: uart_reset_recv_def)
  moreover have "msgs_inv ?k ps' (L - {m}) = msgs_inv (k\<lparr>smem := w\<rparr>) ps' (L - {m})" by (rule msgs_inv_frame) simp_all
  then have "mq_inv ?k ps' (L - {m}) xs" using w(2) by (simp add: mq_inv_def)
  ultimately show ?thesis using w(3) by (intro exI [of _ ?k] exI [of _ ps']) simp
qed

lemma first_flag: "x \<in> set bs \<Longrightarrow> \<exists>pre post. bs = pre @ x # post \<and> x \<notin> set pre"
  by (metis split_list_first)

text \<open>The header up to the first start symbol in it.\<close>

lemma hdr_until_flag:
  assumes inv: "msgs_inv k1 ps (insert m L)" "mq_holds (headers k) (schedpq k) xs" "set xs \<subseteq> L" "m \<notin> L"
    and h1: "headers k1 = (headers k)(m := (headers k m)\<lparr>m_data := m + PAYLOAD_OFFSET, m_flag := 0\<rparr>)" "schedpq k1 = schedpq k"
    and p: "HDLC_FLAG \<notin> set pre" "length pre < 8"
  shows "\<exists>k4. uart_feed now (stuff_all pre @ stuff HDLC_FLAG @ cs) (k1\<lparr>urx := rx_fresh m s\<rparr>) = continue (uart_reset_recv k4) (uart_feed now cs) \<and>
    mq_inv k4 ps (insert m L) xs \<and> u_msgHdr (urx k4) = m \<and> \<not> flag_msg_release (m_flag (headers k4 m)) \<and>
    (\<forall>x \<in> L. headers k4 x = headers k x) \<and> bytes_of k4 = bytes_of k1 \<and> smem k4 = smem k1"
proof -
  let ?k2 = "k1\<lparr>urx := rx_fresh m s\<rparr>"
  obtain z where z: "fill_hdr 0 pre (headers ?k2 m) = Some z" using fill_hdr_some [of 0 pre] p(2) by auto
  obtain k3 where k3: "same_rx (rx_progress m z pre ?k2) k3"
    "uart_feed now (stuff_all pre @ stuff HDLC_FLAG @ cs) ?k2 = uart_feed now (stuff HDLC_FLAG @ cs) k3"
    using rx_hdr_run [of ?k2 m 0 pre z now "stuff HDLC_FLAG @ cs"] z p by (auto simp: rx_fresh_def)
  obtain k4 where k4: "same_rx k3 k4" "uart_feed now (stuff HDLC_FLAG @ cs) k3 = continue (rx_byte HDLC_FLAG k4) (uart_feed now cs)"
    using feed_stuff [of k3 now HDLC_FLAG cs] same_rx_frame(1) [OF k3(1)] by (auto simp: rx_fresh_def)
  have f4: "urx k4 = urx (rx_progress m z pre ?k2)" "headers k4 = (headers k)(m := z)" "bytes_of k4 = bytes_of k1"
    "smem k4 = smem k1" "msg_slab k4 = msg_slab k1" "schedpq k4 = schedpq k"
    using same_rx_trans [OF k3(1) k4(1)] by (auto simp: same_rx_def rx_progress_def h1 fun_eq_iff)
  have "rx_byte HDLC_FLAG k4 = uart_reset_recv k4" by (simp add: rx_byte_def rx_hdr_def f4(1) rx_fresh_def)
  moreover have "msgs_inv k4 ps (insert m L) = msgs_inv k1 ps (insert m L)"
    by (rule msgs_inv_frame) (use fill_hdr_keeps [OF z] in \<open>auto simp: f4 h1\<close>)
  moreover have "mq_holds (headers k4) (schedpq k4) xs"
    unfolding f4(2,6) by (subst mq_holds_cong [of xs _ "headers k"]) (use inv(2-4) in auto)
  ultimately show ?thesis using inv fill_hdr_keeps [OF z] k3(2) k4(2)
    by (intro exI [of _ k4]) (auto simp: mq_inv_def f4 h1 rx_fresh_def)
qed

lemma lost_law:
  assumes inv: "mq_inv k ps L xs" and idle: "u_state (urx k) = UART_IDLE" "u_msgHdr (urx k) = NULL"
    and y: "HDLC_FLAG \<in> set (hdr_bytes y)" and c: "msg_create k = Some (k1, m)" "m \<noteq> NULL"
  shows "\<exists>k' ps'. uart_feed now (uart_frame (hdr_bytes y @ ds)) k = Some (Done k') \<and> mq_inv k' ps' L xs \<and>
    (\<forall>x \<in> L. headers k' x = headers k x) \<and> bytes_of k' = bytes_of k \<and> fst ` others ps' (smem k') = fst ` others ps (smem k)"
proof -
  obtain ps' where i1: "msgs_inv k1 ps' (insert m L)" "m \<notin> L" "others ps' (smem k1) = others ps (smem k)"
    using created_inv(1) [OF inv c] by blast
  note h1 = created_inv(2-5) [OF inv c]
  have q: "mq_holds (headers k) (schedpq k) xs" "set xs \<subseteq> L" using inv by (simp_all add: mq_inv_def)
  obtain pre post where p: "hdr_bytes y = pre @ HDLC_FLAG # post" "HDLC_FLAG \<notin> set pre" using first_flag [OF y] by blast
  have l: "length pre < 8" using arg_cong [OF p(1), of length] by simp
  let ?k2 = "k1\<lparr>urx := rx_fresh m (urx k)\<rparr>"
  let ?bs = "post @ ds @ word_bytes (crc_of 0 (HDLC_SOS_MSG # hdr_bytes y @ ds))"
  let ?cs = "stuff_all ?bs @ [HDLC_FLAG]"
  have b: "uart_feed now (uart_frame (hdr_bytes y @ ds)) k = uart_feed now (stuff_all pre @ stuff HDLC_FLAG @ ?cs) ?k2"
    using rx_begin [OF idle c] by (simp add: uart_frame_def p(1))
  obtain k4 where k4: "uart_feed now (stuff_all pre @ stuff HDLC_FLAG @ ?cs) ?k2 = continue (uart_reset_recv k4) (uart_feed now ?cs)"
    "mq_inv k4 ps' (insert m L) xs" "u_msgHdr (urx k4) = m" "\<not> flag_msg_release (m_flag (headers k4 m))"
    "\<forall>x \<in> L. headers k4 x = headers k x" "bytes_of k4 = bytes_of k1" "smem k4 = smem k1"
    using hdr_until_flag [OF i1(1) q i1(2) h1(1,2) p(2) l, of now ?cs "urx k"] by blast
  have mx: "m \<notin> set xs" using q(2) i1(2) by auto
  obtain k5 ps5 where k5: "uart_reset_recv k4 = Some (Done k5)" "mq_inv k5 ps5 (insert m L - {m}) xs" "u_state (urx k5) = UART_IDLE"
    "headers k5 = headers k4" "bytes_of k5 = bytes_of k4" "fst ` others ps5 (smem k5) = fst ` others ps' (smem k4)"
    using reset_law [OF k4(2,3) c(2) insertI1 mx] k4(4) by auto
  have d: "insert m L - {m} = L" using i1(2) by auto
  let ?k6 = "k5\<lparr>urx := (urx k5)\<lparr>u_state := UART_HDLC_START\<rparr>\<rparr>"
  have e: "uart_feed now ?cs k5 = Some (Done ?k6)"
    unfolding idle_run [OF k5(3) stuff_no_flag] using k5(3) by (simp add: uart_recv_interrupt_def)
  have "msgs_inv ?k6 ps5 L = msgs_inv k5 ps5 L" by (rule msgs_inv_frame) simp_all
  then have "mq_inv ?k6 ps5 L xs" using k5(2) unfolding d by (simp add: mq_inv_def)
  then show ?thesis
    using b k4(1,5-7) k5(1,4-6) e h1(3) i1(3) by (intro exI [of _ ?k6] exI [of _ ps5]) simp
qed

section \<open>Arbitrary input\<close>

text \<open>
  The invariant of the receiver over that of the kernel: the message under construction is live
  and not yet queued, and while the payload is read its buffer is a block with room for it.
\<close>

definition rx_stage_ok :: "'a uart_sys_scheme \<Rightarrow> addr list \<Rightarrow> bool" where
  "rx_stage_ok k ps \<longleftrightarrow> (let s = urx k; x = headers k (u_msgHdr s) in
     (case u_msg_state s of
        SOS_MSG_RX_HDR \<Rightarrow> has_flag (u_flags s) UART_SOS_MSG_FLAG \<and> unat (u_idx s) < 8 \<and> \<not> flag_msg_release (m_flag x)
      | SOS_MSG_RX_DATA \<Rightarrow> has_flag (u_flags s) UART_SOS_MSG_FLAG \<and> unat (u_idx s) < unat (u_msgLen s) \<and>
          (\<exists>n own. (u_buff s, n, own) \<in> chunks (heap_of k) \<and> unat (u_msgLen s) \<le> n)
      | SOS_MSG_RX_CRC_LOW \<Rightarrow> True
      | SOS_MSG_RX_CRC_HIGH \<Rightarrow> True
      | _ \<Rightarrow> False))"

definition rx_ok :: "'a uart_sys_scheme \<Rightarrow> addr list \<Rightarrow> addr set \<Rightarrow> addr list \<Rightarrow> bool" where
  "rx_ok k ps L xs \<longleftrightarrow> mq_inv k ps L xs \<and> (let s = urx k; m = u_msgHdr s in
     (m \<noteq> NULL \<longrightarrow> m \<in> L \<and> m \<notin> set xs) \<and>
     (u_state s \<in> {UART_IDLE, UART_HDLC_START, UART_PROTOCOL} \<and> m \<noteq> NULL \<longrightarrow> \<not> flag_msg_release (m_flag (headers k m))) \<and>
     (u_state s = UART_DATA \<longrightarrow> m \<noteq> NULL \<and> rx_stage_ok k ps) \<and>
     (u_state s = UART_HDLC_STOP \<longrightarrow> m \<noteq> NULL))"

text \<open>Input that is not the start of a raw frame and does not complete a time stamp packet.\<close>

definition plain_input :: "u8 \<Rightarrow> u8 \<Rightarrow> 'a uart_sys_scheme \<Rightarrow> bool" where
  "plain_input err b k \<longleftrightarrow>
     (u_state (urx k) \<in> {UART_HDLC_START, UART_PROTOCOL} \<longrightarrow> err = 0 \<longrightarrow> b \<noteq> HDLC_RAW) \<and>
     (u_state (urx k) = UART_HDLC_STOP \<longrightarrow> b = HDLC_FLAG \<longrightarrow> m_type (headers k (u_msgHdr (urx k))) \<noteq> MSG_TIMESTAMP)"

lemma mq_inv_same:
  assumes "mq_inv k ps L xs" "smem k' = smem k" "msg_slab k' = msg_slab k" "headers k' = headers k" "schedpq k' = schedpq k"
  shows "mq_inv k' ps L xs"
  using assms msgs_inv_frame [of k' k L ps] by (simp add: mq_inv_def)

definition rx_safe :: "'a uart_sys_scheme outcome option \<Rightarrow> bool" where
  "rx_safe r \<longleftrightarrow> (\<exists>k' ps' L' xs'. r = Some (Done k') \<and> rx_ok k' ps' L' xs')"

lemma rx_safeI: "r = Some (Done k') \<Longrightarrow> rx_ok k' ps' L' xs' \<Longrightarrow> rx_safe r"
  by (auto simp: rx_safe_def)

lemma reset_safe:
  assumes inv: "mq_inv k ps L xs" and m: "u_msgHdr (urx k) \<noteq> NULL \<Longrightarrow> u_msgHdr (urx k) \<in> L \<and> u_msgHdr (urx k) \<notin> set xs"
  shows "rx_safe (uart_reset_recv k)"
proof (cases "u_msgHdr (urx k) = NULL")
  case True
  let ?k = "k\<lparr>urx := (urx k)\<lparr>u_state := UART_IDLE, u_msg_state := SOS_MSG_NO_STATE, u_hdlc_state := HDLC_IDLE\<rparr>\<rparr>"
  have "mq_inv ?k ps L xs" by (rule mq_inv_same [OF inv]) simp_all
  then have "rx_ok ?k ps L xs" using True by (simp add: rx_ok_def)
  moreover have "uart_reset_recv k = Some (Done ?k)" using True by (simp add: uart_reset_recv_def)
  ultimately show ?thesis by (rule rx_safeI [rotated])
next
  case False
  then obtain k' ps' where "uart_reset_recv k = Some (Done k')" "mq_inv k' ps' (L - {u_msgHdr (urx k)}) xs"
    "u_state (urx k') = UART_IDLE" "u_msgHdr (urx k') = NULL"
    using reset_law [OF inv refl False] m by blast
  then show ?thesis by (intro rx_safeI) (auto simp: rx_ok_def)
qed

lemma fresh_ok:
  assumes inv: "mq_inv k ps L xs" and m: "m \<noteq> NULL" "m \<in> L" "m \<notin> set xs" "\<not> flag_msg_release (m_flag (headers k m))"
  shows "rx_ok (k\<lparr>urx := rx_fresh m s\<rparr>) ps L xs"
proof -
  have "mq_inv (k\<lparr>urx := rx_fresh m s\<rparr>) ps L xs" by (rule mq_inv_same [OF inv]) simp_all
  then show ?thesis using m by (simp add: rx_ok_def rx_stage_ok_def rx_fresh_def has_flag_or)
qed

lemma created_mq_inv:
  assumes inv: "mq_inv k ps L xs" and c: "msg_create k = Some (k1, m)" "m \<noteq> NULL"
  shows "\<exists>ps'. mq_inv k1 ps' (insert m L) xs \<and> m \<notin> set xs \<and> \<not> flag_msg_release (m_flag (headers k1 m))"
proof -
  obtain ps' where i: "msgs_inv k1 ps' (insert m L)" "m \<notin> L" using created_inv(1) [OF inv c] by blast
  note h = created_inv(2,3) [OF inv c]
  have q: "mq_holds (headers k) (schedpq k) xs" "set xs \<subseteq> L" using inv by (simp_all add: mq_inv_def)
  have "mq_holds (headers k1) (schedpq k1) xs"
    unfolding h by (subst mq_holds_cong [of xs _ "headers k"]) (use q i(2) in auto)
  then have "mq_inv k1 ps' (insert m L) xs" using i(1) q(2) by (auto simp: mq_inv_def)
  moreover have "m \<notin> set xs" using q(2) i(2) by auto
  ultimately show ?thesis using h(1) by auto
qed

lemma new_msg_safe:
  assumes inv: "mq_inv k ps L xs"
    and m: "u_msgHdr (urx k) \<noteq> NULL \<Longrightarrow> u_msgHdr (urx k) \<in> L \<and> u_msgHdr (urx k) \<notin> set xs \<and>
      \<not> flag_msg_release (m_flag (headers k (u_msgHdr (urx k))))"
  shows "\<exists>k1 ps' L'. rx_new_msg k = Some k1 \<and> mq_inv k1 ps' L' xs \<and> urx k1 = (urx k)\<lparr>u_msgHdr := u_msgHdr (urx k1)\<rparr> \<and>
    (u_msgHdr (urx k1) \<noteq> NULL \<longrightarrow> u_msgHdr (urx k1) \<in> L' \<and> u_msgHdr (urx k1) \<notin> set xs \<and>
      \<not> flag_msg_release (m_flag (headers k1 (u_msgHdr (urx k1)))))"
proof (cases "u_msgHdr (urx k) = NULL")
  case False
  with m inv show ?thesis by (intro exI [of _ k] exI [of _ ps] exI [of _ L]) (simp add: rx_new_msg_def)
next
  case True
  have i: "msgs_inv k ps L" using inv by (simp add: mq_inv_def)
  obtain k1 m' where c: "msg_create k = Some (k1, m')"
    using msg_create_law [OF i] by (metis (no_types, lifting))
  have "\<exists>ps' L'. mq_inv k1 ps' L' xs \<and> (m' \<noteq> NULL \<longrightarrow> m' \<in> L' \<and> m' \<notin> set xs \<and> \<not> flag_msg_release (m_flag (headers k1 m')))"
  proof (cases "m' = NULL")
    case False
    with created_mq_inv [OF inv c] show ?thesis by auto
  next
    case True
    then obtain w where "slab_inv (msg_slab k) ps w" "others ps w = others ps (smem k)" "k1 = k\<lparr>smem := w\<rparr>"
      "slab_used (msg_slab k) ps w = slab_used (msg_slab k) ps (smem k)"
      using msg_create_law [OF i] c by (auto split: if_splits)
    with mq_inv_fail [OF inv] True show ?thesis by auto
  qed
  then obtain ps' L' where k1: "mq_inv k1 ps' L' xs"
    "m' \<noteq> NULL \<longrightarrow> m' \<in> L' \<and> m' \<notin> set xs \<and> \<not> flag_msg_release (m_flag (headers k1 m'))" by blast
  let ?k = "k1\<lparr>urx := (urx k)\<lparr>u_msgHdr := m'\<rparr>\<rparr>"
  have "mq_inv ?k ps' L' xs" by (rule mq_inv_same [OF k1(1)]) simp_all
  moreover have "rx_new_msg k = Some ?k" using True c msg_create_urx(2) [OF c] by (simp add: rx_new_msg_def)
  ultimately show ?thesis using k1(2) by (intro exI [of _ ?k] exI [of _ ps'] exI [of _ L']) simp
qed

lemma protocol_safe:
  assumes ok: "rx_ok k ps L xs" and s: "u_state (urx k) \<in> {UART_HDLC_START, UART_PROTOCOL}" and b: "err = 0 \<longrightarrow> b \<noteq> HDLC_RAW"
  shows "rx_safe (rx_protocol err b k)"
proof -
  have inv: "mq_inv k ps L xs" and m: "u_msgHdr (urx k) \<noteq> NULL \<Longrightarrow> u_msgHdr (urx k) \<in> L \<and> u_msgHdr (urx k) \<notin> set xs"
    and nr: "u_msgHdr (urx k) \<noteq> NULL \<Longrightarrow> \<not> flag_msg_release (m_flag (headers k (u_msgHdr (urx k))))"
    using ok s by (auto simp: rx_ok_def Let_def)
  note reset = reset_safe [OF inv m]
  show ?thesis
  proof (cases "err = 0 \<and> b = HDLC_SOS_MSG")
    case False
    let ?k = "k\<lparr>urx := (urx k)\<lparr>u_state := UART_HDLC_START\<rparr>\<rparr>"
    have "mq_inv ?k ps L xs" by (rule mq_inv_same [OF inv]) simp_all
    then have "rx_ok ?k ps L xs" using m nr by (simp add: rx_ok_def)
    then have "rx_safe (Some (Done ?k))" by (intro rx_safeI) simp_all
    with False b reset show ?thesis by (simp add: rx_protocol_def)
  next
    case True
    obtain k1 ps' L' where k1: "rx_new_msg k = Some k1" "mq_inv k1 ps' L' xs" "urx k1 = (urx k)\<lparr>u_msgHdr := u_msgHdr (urx k1)\<rparr>"
      "u_msgHdr (urx k1) \<noteq> NULL \<longrightarrow> u_msgHdr (urx k1) \<in> L' \<and> u_msgHdr (urx k1) \<notin> set xs \<and>
        \<not> flag_msg_release (m_flag (headers k1 (u_msgHdr (urx k1))))"
      using new_msg_safe [OF inv] m nr by blast
    show ?thesis
    proof (cases "u_msgHdr (urx k1) = NULL")
      case nul: True
      with reset_safe [OF k1(2)] k1(1) True show ?thesis by (simp add: rx_protocol_def hdlc_defs)
    next
      case False
      have "rx_protocol err b k = Some (Done (k1\<lparr>urx := rx_fresh (u_msgHdr (urx k1)) (urx k1)\<rparr>))"
        using False True k1(1) by (simp add: rx_protocol_def rx_fresh_def hdlc_defs)
      with fresh_ok [OF k1(2) False] k1(4) False show ?thesis by (intro rx_safeI) auto
    qed
  qed
qed

lemma mq_inv_hdr:
  assumes inv: "mq_inv k ps L xs" and m: "m \<notin> set xs" "\<not> flag_msg_release (m_flag (headers k m))" "\<not> flag_msg_release (m_flag y)"
    and k': "smem k' = smem k" "msg_slab k' = msg_slab k" "headers k' = (headers k)(m := y)" "schedpq k' = schedpq k"
  shows "mq_inv k' ps L xs"
proof -
  have "msgs_inv k' ps L = msgs_inv k ps L" by (rule msgs_inv_frame [OF k'(1,2)]) (use m in \<open>auto simp: k'(3)\<close>)
  moreover have "mq_holds (headers k') (schedpq k') xs"
    unfolding k'(3,4) by (subst mq_holds_cong [of xs _ "headers k"]) (use inv m(1) in \<open>auto simp: mq_inv_def\<close>)
  ultimately show ?thesis using inv by (simp add: mq_inv_def)
qed

lemma malloc_total:
  assumes inv: "msgs_inv k ps L" and sz: "unat sz \<le> 65524"
  shows "\<exists>h p. ker_malloc sz pid (heap_of k) = Some (h, p) \<and> msgs_inv (set_heap h k) ps L"
proof -
  have s: "slab_inv (msg_slab k) ps (smem k)" using inv by (simp add: msgs_inv_def)
  obtain h p where a: "ker_malloc sz pid (s_heap (smem k)) = Some (h, p)" "slab_inv (msg_slab k) ps ((smem k)\<lparr>s_heap := h\<rparr>)"
    "slab_used (msg_slab k) ps ((smem k)\<lparr>s_heap := h\<rparr>) = slab_used (msg_slab k) ps (smem k)"
    "if p = NULL then others ps ((smem k)\<lparr>s_heap := h\<rparr>) = others ps (smem k)
     else \<exists>n. unat sz \<le> n \<and> (p, n, pid) \<notin> chunks (s_heap (smem k)) \<and> p \<notin> set ps \<and>
       others ps ((smem k)\<lparr>s_heap := h\<rparr>) = insert (p, n, pid) (others ps (smem k))"
    using slab_other_alloc [OF s sz disjI1 [OF refl], of pid] by blast
  have "\<exists>i own. (q, i, own) \<in> others ps ((smem k)\<lparr>s_heap := h\<rparr>)" if "\<exists>i own. (q, i, own) \<in> others ps (smem k)" for q
  proof (cases "p = NULL")
    case True
    with that a(4) show ?thesis by simp
  next
    case False
    then obtain n where "others ps ((smem k)\<lparr>s_heap := h\<rparr>) = insert (p, n, pid) (others ps (smem k))" using a(4) by auto
    with that show ?thesis by blast
  qed
  then have "payloads_ok (set_heap h k) ps L"
    using inv unfolding msgs_inv_def payloads_ok_def releases_def set_heap_def by simp
  then have "msgs_inv (set_heap h k) ps L" using inv a(2,3) by (simp add: msgs_inv_def set_heap_def)
  with a(1) show ?thesis by (auto simp: heap_of_def)
qed

lemma attach_safe:
  assumes inv: "mq_inv k ps L xs" and m: "u_msgHdr (urx k) = m" "m \<noteq> NULL" "m \<in> L" "m \<notin> set xs" "\<not> flag_msg_release (m_flag (headers k m))"
    and u: "u_state (urx k) = UART_DATA" "has_flag (u_flags (urx k)) UART_SOS_MSG_FLAG"
    and len: "m_len (headers k m) \<noteq> 0" "m_len (headers k m) < UART_MAX_MSG_LEN"
    and a: "ker_malloc (ucast (m_len (headers k m))) UART_PID (heap_of k) = Some (h, p)" "p \<noteq> NULL"
  shows "rx_safe (rx_hdr_end k)"
proof -
  let ?x = "(headers k m)\<lparr>m_data := p, m_flag := SOS_MSG_RELEASE\<rparr>"
  let ?k = "(set_heap h k)\<lparr>headers := (headers k)(m := ?x),
    urx := (urx k)\<lparr>u_msgLen := m_len (headers k m), u_buff := p, u_msg_state := SOS_MSG_RX_DATA, u_idx := 0\<rparr>\<rparr>"
  have i: "msgs_inv k ps L" using inv by (simp add: mq_inv_def)
  obtain n where n: "unat (m_len (headers k m)) \<le> n" "msgs_inv (set_heap h k) ps L" "(p, n, UART_PID) \<in> chunks h"
    "p \<notin> fst ` others ps (smem k)" "others ps (smem (set_heap h k)) = insert (p, n, UART_PID) (others ps (smem k))"
    using malloc_law [OF i a] unat8_less [of "m_len (headers k m)"] unfolding unat_ucast8 by auto
  have "p \<notin> (\<lambda>z. m_data (headers k z)) ` releases k L" using i n(4) by (force simp: msgs_inv_def payloads_ok_def)
  then have "msgs_inv ?k ps L"
    using n(5) m(5) by (intro msgs_inv_attach [OF n(2) m(3), where p = p and n = n and own = UART_PID and y = ?x])
      (simp_all add: releases_def set_heap_def flag_msg_release_def SOS_MSG_RELEASE_def)
  moreover have "mq_holds (headers ?k) (schedpq ?k) xs"
    by (simp add: set_heap_def) (subst mq_holds_cong [of xs _ "headers k"], use inv m(4) in \<open>auto simp: mq_inv_def\<close>)
  ultimately have "mq_inv ?k ps L xs" using inv by (simp add: mq_inv_def)
  moreover have "rx_stage_ok ?k ps"
    using u(2) len(1) n(1,3) by (auto simp: rx_stage_ok_def heap_of_def set_heap_def unat_gt_0)
  ultimately have "rx_ok ?k ps L xs" using m u(1) by (simp add: rx_ok_def)
  then show ?thesis using rx_hdr_end_data [OF m(1) len a] by (intro rx_safeI) auto
qed

lemma hdr_end_safe:
  assumes inv: "mq_inv k ps L xs" and m: "u_msgHdr (urx k) = m" "m \<noteq> NULL" "m \<in> L" "m \<notin> set xs" "\<not> flag_msg_release (m_flag (headers k m))"
    and u: "u_state (urx k) = UART_DATA" "has_flag (u_flags (urx k)) UART_SOS_MSG_FLAG"
  shows "rx_safe (rx_hdr_end k)"
proof -
  let ?len = "m_len (headers k m)"
  let ?k1 = "k\<lparr>urx := (urx k)\<lparr>u_msgLen := ?len\<rparr>\<rparr>"
  have i: "msgs_inv k ps L" using inv by (simp add: mq_inv_def)
  have i1: "mq_inv ?k1 ps L xs" by (rule mq_inv_same [OF inv]) simp_all
  obtain h p where a: "ker_malloc (ucast ?len) UART_PID (heap_of k) = Some (h, p)" "msgs_inv (set_heap h k) ps L"
    using malloc_total [OF i, of "ucast ?len" UART_PID] unat8_less [of ?len] unfolding unat_ucast8 by auto
  consider "\<not> ?len < UART_MAX_MSG_LEN" | "?len = 0" | "?len \<noteq> 0" "?len < UART_MAX_MSG_LEN" "p = NULL"
    | "?len \<noteq> 0" "?len < UART_MAX_MSG_LEN" "p \<noteq> NULL" by blast
  then show ?thesis
  proof cases
    case 1
    then have "rx_hdr_end k = uart_reset_recv ?k1" using m(1) by (simp add: rx_hdr_end_def)
    with reset_safe [OF i1] m show ?thesis by simp
  next
    case 2
    let ?x = "(headers k m)\<lparr>m_flag := m_flag (headers k m) AND NOT SOS_MSG_RELEASE, m_data := NULL\<rparr>"
    let ?k = "k\<lparr>headers := (headers k)(m := ?x), urx := (urx k)\<lparr>u_msgLen := 0, u_msg_state := SOS_MSG_RX_CRC_LOW\<rparr>\<rparr>"
    have "mq_inv ?k ps L xs" by (rule mq_inv_hdr [OF inv m(4,5)]) simp_all
    then have "rx_ok ?k ps L xs" using m u(1) by (simp add: rx_ok_def rx_stage_ok_def)
    then show ?thesis using rx_hdr_end_empty [OF m(1) 2] by (intro rx_safeI) auto
  next
    case 3
    let ?k = "(set_heap h k)\<lparr>urx := (urx k)\<lparr>u_msgLen := ?len, u_buff := NULL\<rparr>\<rparr>"
    have "msgs_inv ?k ps L = msgs_inv (set_heap h k) ps L" by (rule msgs_inv_frame) simp_all
    then have "mq_inv ?k ps L xs" using a(2) inv by (simp add: mq_inv_def)
    moreover have "rx_hdr_end k = uart_reset_recv ?k"
      using 3 m(1) a(1) by (simp add: rx_hdr_end_def k_malloc_def heap_of_def set_heap_def)
    ultimately show ?thesis using reset_safe [of ?k ps L xs] m by simp
  next
    case 4
    from attach_safe [OF inv m u 4(1,2) a(1) 4(3)] show ?thesis .
  qed
qed

lemma rx_ok_same: "same_rx k k' \<Longrightarrow> rx_ok k ps L xs \<Longrightarrow> rx_ok k' ps L xs"
proof -
  assume "same_rx k k'" and ok: "rx_ok k ps L xs"
  then obtain sv where k': "k' = k\<lparr>rx_saved_state := sv\<rparr>" by (auto simp: same_rx_def)
  have "mq_inv k' ps L xs" by (rule mq_inv_same [of k]) (use ok in \<open>simp_all add: k' rx_ok_def\<close>)
  moreover have e: "urx k' = urx k" "headers k' = headers k" "heap_of k' = heap_of k" by (simp_all add: k' heap_of_def)
  ultimately show "rx_ok k' ps L xs" using ok unfolding rx_ok_def rx_stage_ok_def e by (simp only: simp_thms)
qed

lemma hdr_byte_safe:
  assumes ok: "rx_ok k ps L xs" and u: "u_state (urx k) = UART_DATA" "u_msg_state (urx k) = SOS_MSG_RX_HDR"
  shows "rx_safe (rx_byte b k)"
proof -
  let ?m = "u_msgHdr (urx k)"
  have inv: "mq_inv k ps L xs" and m: "?m \<noteq> NULL" "?m \<in> L" "?m \<notin> set xs" "\<not> flag_msg_release (m_flag (headers k ?m))"
    and i: "unat (u_idx (urx k)) < 8" "has_flag (u_flags (urx k)) UART_SOS_MSG_FLAG"
    using ok u by (auto simp: rx_ok_def rx_stage_ok_def Let_def)
  show ?thesis
  proof (cases "b = HDLC_FLAG")
    case True
    then have "rx_byte b k = uart_reset_recv k" using u by (simp add: rx_byte_def rx_hdr_def)
    with reset_safe [OF inv] m show ?thesis by simp
  next
    case False
    obtain x where x: "put_hdr_byte (u_idx (urx k)) b (headers k ?m) = Some x"
      using fill_hdr_some [of "unat (u_idx (urx k))" "[b]" "headers k ?m"] i(1) by auto
    then have nr: "\<not> flag_msg_release (m_flag x)" using m(4) fill_hdr_keeps [of "unat (u_idx (urx k))" "[b]" "headers k ?m" x] by simp
    obtain k1 where k1: "same_rx (rx_progress ?m x [b] k) k1"
      "rx_byte b k = (if u_idx (urx k) + 1 = SOS_MSG_HEADER_SIZE then rx_hdr_end k1 else Some (Done k1))"
      using rx_hdr_step [OF same_rx_refl False x u(2)] by blast
    have f: "urx k1 = (urx k)\<lparr>u_idx := u_idx (urx k) + 1, u_crc := crcByte (u_crc (urx k)) b\<rparr>" "headers k1 = (headers k)(?m := x)"
      "smem k1 = smem k" "msg_slab k1 = msg_slab k" "schedpq k1 = schedpq k"
      using k1(1) by (auto simp: same_rx_def rx_progress_def)
    have inv1: "mq_inv k1 ps L xs" by (rule mq_inv_hdr [OF inv m(3,4) nr f(3,4,2,5)])
    show ?thesis
    proof (cases "u_idx (urx k) + 1 = SOS_MSG_HEADER_SIZE")
      case True
      with hdr_end_safe [OF inv1, of ?m] m nr u i(2) k1(2) show ?thesis by (simp add: f)
    next
      case no: False
      have j: "unat (u_idx (urx k) + 1) = Suc (unat (u_idx (urx k)))"
        using unat_plus_no_wrap [of "u_idx (urx k)" 1] i(1) by simp
      have "unat (u_idx (urx k) + 1) \<noteq> unat SOS_MSG_HEADER_SIZE" using no by (simp only: word_unat_eq_iff simp_thms)
      then have "unat (u_idx (urx k) + 1) < 8" using j i(1) by (simp add: SOS_MSG_HEADER_SIZE_def)
      then have "rx_ok k1 ps L xs" using inv1 m nr u i(2) by (simp add: rx_ok_def rx_stage_ok_def f)
      with no k1(2) show ?thesis by (intro rx_safeI) auto
    qed
  qed
qed

lemma data_byte_safe:
  assumes ok: "rx_ok k ps L xs" and u: "u_state (urx k) = UART_DATA" "u_msg_state (urx k) = SOS_MSG_RX_DATA"
  shows "rx_safe (rx_byte b k)"
proof -
  let ?m = "u_msgHdr (urx k)" and ?i = "u_idx (urx k)"
  obtain n own where c: "(u_buff (urx k), n, own) \<in> chunks (heap_of k)" "unat (u_msgLen (urx k)) \<le> n"
    and i: "unat ?i < unat (u_msgLen (urx k))" "has_flag (u_flags (urx k)) UART_SOS_MSG_FLAG"
    using ok u by (auto simp: rx_ok_def rx_stage_ok_def Let_def)
  have inv: "mq_inv k ps L xs" and m: "?m \<noteq> NULL" "?m \<in> L" "?m \<notin> set xs" using ok u by (auto simp: rx_ok_def Let_def)
  obtain k1 where k1: "same_rx (data_end (data_progress [b] k)) k1" "rx_byte b k = Some (Done k1)"
    using rx_data_step [OF same_rx_refl u(2) i(2)] i(1) c(2) chunk_room [OF c(1)] by force
  let ?k = "data_end (data_progress [b] k)"
  have f: "smem ?k = smem k" "msg_slab ?k = msg_slab k" "headers ?k = headers k" "schedpq ?k = schedpq k" "heap_of ?k = heap_of k"
    by (simp_all add: data_end_def data_progress_def heap_of_def)
  have "mq_inv ?k ps L xs" by (rule mq_inv_same [OF inv f(1-4)])
  moreover have "rx_stage_ok ?k ps"
  proof (cases "?i + 1 = u_msgLen (urx k)")
    case True
    then show ?thesis by (simp add: rx_stage_ok_def data_end_def)
  next
    case False
    have "unat (?i + 1) \<noteq> unat (u_msgLen (urx k))" using False by (simp only: word_unat_eq_iff simp_thms)
    moreover have "unat (?i + 1) = Suc (unat ?i)"
      using unat_plus_no_wrap [of ?i 1] i(1) unat8_less [of "u_msgLen (urx k)"] by simp
    ultimately have "unat (?i + 1) < unat (u_msgLen (urx k))" using i(1) by linarith
    with False c i(2) u(2) show ?thesis by (auto simp: rx_stage_ok_def data_end_def)
  qed
  moreover have "u_msgHdr (urx ?k) = ?m" "u_state (urx ?k) = UART_DATA" using u(1) by (simp_all add: data_end_def)
  ultimately have "rx_ok ?k ps L xs" using m by (simp add: rx_ok_def)
  from rx_safeI [OF k1(2) rx_ok_same [OF k1(1) this]] show ?thesis .
qed

lemma byte_safe:
  assumes ok: "rx_ok k ps L xs" and u: "u_state (urx k) = UART_DATA"
  shows "rx_safe (rx_byte b k)"
proof -
  have inv: "mq_inv k ps L xs" and m: "u_msgHdr (urx k) \<noteq> NULL" "u_msgHdr (urx k) \<in> L" "u_msgHdr (urx k) \<notin> set xs"
    and st: "rx_stage_ok k ps" using ok u by (auto simp: rx_ok_def Let_def)
  let ?k1 = "k\<lparr>crc_in := ucast b, urx := (urx k)\<lparr>u_msg_state := SOS_MSG_RX_CRC_HIGH\<rparr>\<rparr>"
  let ?k2 = "k\<lparr>crc_in := crc_in k OR push_bit 8 (ucast b),
    urx := (urx k)\<lparr>u_hdlc_state := HDLC_PADDING, u_msg_state := SOS_MSG_RX_END, u_state := UART_HDLC_STOP\<rparr>\<rparr>"
  have "mq_inv ?k1 ps L xs" "mq_inv ?k2 ps L xs" by (rule mq_inv_same [OF inv]; simp)+
  then have o: "rx_ok ?k1 ps L xs" "rx_ok ?k2 ps L xs" using m u by (simp_all add: rx_ok_def rx_stage_ok_def)
  consider "u_msg_state (urx k) = SOS_MSG_RX_HDR" | "u_msg_state (urx k) = SOS_MSG_RX_DATA"
    | "u_msg_state (urx k) = SOS_MSG_RX_CRC_LOW" | "u_msg_state (urx k) = SOS_MSG_RX_CRC_HIGH"
    using st by (auto simp: rx_stage_ok_def Let_def split: msg_mode.splits)
  then show ?thesis
  proof cases
    case 1
    then show ?thesis by (rule hdr_byte_safe [OF ok u])
  next
    case 2
    then show ?thesis by (rule data_byte_safe [OF ok u])
  next
    case 3
    then show ?thesis using o(1) by (intro rx_safeI) (simp_all add: rx_byte_def)
  next
    case 4
    then show ?thesis using o(2) by (intro rx_safeI) (simp_all add: rx_byte_def)
  qed
qed

lemma payload_safe:
  assumes ok: "rx_ok k ps L xs" and u: "u_state (urx k) = UART_DATA"
  shows "rx_safe (rx_payload err b k)"
proof -
  have inv: "mq_inv k ps L xs" and m: "u_msgHdr (urx k) \<noteq> NULL" "u_msgHdr (urx k) \<in> L" "u_msgHdr (urx k) \<notin> set xs"
    and st: "rx_stage_ok k ps" using ok u by (auto simp: rx_ok_def Let_def)
  have h: "rx_ok (k\<lparr>urx := (urx k)\<lparr>u_hdlc_state := d\<rparr>\<rparr>) ps L xs" for d
  proof -
    let ?k = "k\<lparr>urx := (urx k)\<lparr>u_hdlc_state := d\<rparr>\<rparr>"
    have "mq_inv ?k ps L xs" by (rule mq_inv_same [OF inv]) simp_all
    moreover have "rx_stage_ok ?k ps" using st by (simp add: rx_stage_ok_def heap_of_def Let_def split: msg_mode.splits)
    ultimately show ?thesis using m u by (simp add: rx_ok_def)
  qed
  have "same_rx (k\<lparr>urx := (urx k)\<lparr>u_hdlc_state := HDLC_ESCAPE\<rparr>\<rparr>)
      (k\<lparr>rx_saved_state := u_hdlc_state (urx k), urx := (urx k)\<lparr>u_hdlc_state := HDLC_ESCAPE\<rparr>\<rparr>)"
    unfolding same_rx_def by (rule exI [of _ "u_hdlc_state (urx k)"]) simp
  from rx_ok_same [OF this h]
  have e: "rx_safe (Some (Done (k\<lparr>rx_saved_state := u_hdlc_state (urx k), urx := (urx k)\<lparr>u_hdlc_state := HDLC_ESCAPE\<rparr>\<rparr>)))"
    by (rule rx_safeI [OF refl])
  have "rx_safe (rx_byte c (k\<lparr>urx := (urx k)\<lparr>u_hdlc_state := d\<rparr>\<rparr>))" for c d by (rule byte_safe [OF h]) (simp add: u)
  with e reset_safe [OF inv] m byte_safe [OF ok u] show ?thesis by (simp add: rx_payload_def)
qed

lemma stop_safe:
  assumes ok: "rx_ok k ps L xs" and u: "u_state (urx k) = UART_HDLC_STOP"
    and t: "b = HDLC_FLAG \<longrightarrow> m_type (headers k (u_msgHdr (urx k))) \<noteq> MSG_TIMESTAMP"
  shows "rx_safe (rx_stop now b k)"
proof -
  let ?m = "u_msgHdr (urx k)"
  have inv: "mq_inv k ps L xs" and m: "?m \<noteq> NULL" "?m \<in> L" "?m \<notin> set xs" using ok u by (auto simp: rx_ok_def Let_def)
  consider "b \<noteq> HDLC_FLAG" | "b = HDLC_FLAG" "crc_in k = u_crc (urx k)" | "b = HDLC_FLAG" "crc_in k \<noteq> u_crc (urx k)" by blast
  then show ?thesis
  proof cases
    case 1
    then show ?thesis using ok by (intro rx_safeI) (simp_all add: rx_stop_def)
  next
    case 2
    let ?k0 = "set_uart_address (m_saddr (headers k ?m)) (k\<lparr>urx := (urx k)\<lparr>u_hdlc_state := HDLC_IDLE\<rparr>\<rparr>)"
    let ?K = "upd_msg ?m (\<lambda>y. y\<lparr>m_flag := m_flag y OR SOS_MSG_FROM_NETWORK OR SOS_MSG_UART_IO\<rparr>) ?k0"
    have h: "headers ?K = (headers k)(?m := (headers k ?m)\<lparr>m_flag := net_flag (m_flag (headers k ?m))\<rparr>)"
      "schedpq ?K = schedpq k" "smem ?K = smem k" "msg_slab ?K = msg_slab k"
      by (simp_all add: set_uart_address_def upd_msg_def set_msg_def net_flag_def)
    have "msgs_inv ?K ps L = msgs_inv k ps L" by (rule msgs_inv_frame [OF h(3,4)]) (unfold h(1), simp)
    then have i: "msgs_inv ?K ps L" using inv by (simp add: mq_inv_def)
    have "mq_holds (headers ?K) (schedpq ?K) xs"
      unfolding h(1,2) by (subst mq_holds_cong [of xs _ "headers k"]) (use inv m(3) in \<open>auto simp: mq_inv_def\<close>)
    then obtain k' where k': "sched_msg_alloc ?m ?K = Some k'" "msgs_inv k' ps L"
      "mq_holds (headers k') (schedpq k') (stable_insert (msg_class (headers ?K)) ?m xs)"
      using sched_msg_alloc_law [OF i _ m(2,3,1)] by blast
    let ?k' = "k'\<lparr>urx := (urx k')\<lparr>u_msgHdr := NULL, u_state := UART_IDLE, u_msg_state := SOS_MSG_NO_STATE, u_hdlc_state := HDLC_IDLE\<rparr>\<rparr>"
    have "mq_inv k' ps L (stable_insert (msg_class (headers ?K)) ?m xs)" using k'(2,3) inv m(2) by (simp add: mq_inv_def)
    then have "mq_inv ?k' ps L (stable_insert (msg_class (headers ?K)) ?m xs)" by (rule mq_inv_same) simp_all
    then have "rx_ok ?k' ps L (stable_insert (msg_class (headers ?K)) ?m xs)" by (simp add: rx_ok_def)
    moreover have "rx_stop now b k = Some (Done ?k')"
      using 2 t k'(1) by (simp add: rx_stop_def handle_incoming_msg_def set_uart_address_def)
    ultimately show ?thesis by (rule rx_safeI [rotated])
  next
    case 3
    let ?k0 = "k\<lparr>urx := (urx k)\<lparr>u_hdlc_state := HDLC_IDLE\<rparr>\<rparr>"
    have "mq_inv ?k0 ps L xs" by (rule mq_inv_same [OF inv]) simp_all
    from mq_inv_dispose [OF this m(2,3)] obtain w ps' where w: "msg_dispose ?m ?k0 = Some (Done (?k0\<lparr>smem := w\<rparr>))"
      "mq_inv (?k0\<lparr>smem := w\<rparr>) ps' (L - {?m}) xs" by blast
    let ?k' = "k\<lparr>smem := w, urx := (urx k)\<lparr>u_msgHdr := NULL, u_state := UART_IDLE, u_msg_state := SOS_MSG_NO_STATE, u_hdlc_state := HDLC_IDLE\<rparr>\<rparr>"
    have "mq_inv ?k' ps' (L - {?m}) xs" by (rule mq_inv_same [OF w(2)]) simp_all
    then have "rx_ok ?k' ps' (L - {?m}) xs" by (simp add: rx_ok_def)
    moreover have "rx_stop now b k = Some (Done ?k')" using 3 w(1) by (simp add: rx_stop_def)
    ultimately show ?thesis by (rule rx_safeI [rotated])
  qed
qed

lemma recv_safe:
  assumes ok: "rx_ok k ps L xs" and p: "plain_input err b k"
  shows "rx_safe (uart_recv_interrupt now err b k)"
proof -
  have inv: "mq_inv k ps L xs" and m: "u_msgHdr (urx k) \<noteq> NULL \<Longrightarrow> u_msgHdr (urx k) \<in> L \<and> u_msgHdr (urx k) \<notin> set xs"
    and nr: "u_state (urx k) = UART_IDLE \<Longrightarrow> u_msgHdr (urx k) \<noteq> NULL \<Longrightarrow> \<not> flag_msg_release (m_flag (headers k (u_msgHdr (urx k))))"
    using ok by (auto simp: rx_ok_def Let_def)
  note reset = reset_safe [OF inv m]
  show ?thesis
  proof (cases "u_state (urx k)")
    case UART_IDLE
    let ?k = "k\<lparr>urx := (urx k)\<lparr>u_state := UART_HDLC_START\<rparr>\<rparr>"
    have "mq_inv ?k ps L xs" by (rule mq_inv_same [OF inv]) simp_all
    then have "rx_ok ?k ps L xs" using m nr UART_IDLE by (simp add: rx_ok_def)
    then have "rx_safe (Some (Done ?k))" "rx_safe (Some (Done k))" using ok by (auto intro: rx_safeI)
    with UART_IDLE show ?thesis by (simp add: uart_recv_interrupt_def)
  next
    case UART_HDLC_STOP
    with stop_safe [OF ok] p show ?thesis by (simp add: uart_recv_interrupt_def plain_input_def)
  qed (use protocol_safe [OF ok] payload_safe [OF ok] p reset in \<open>simp_all add: uart_recv_interrupt_def plain_input_def\<close>)
qed

text \<open>The states of the kernel after any sequence of such input bytes.\<close>

inductive uart_reach :: "'a uart_sys_scheme \<Rightarrow> 'a uart_sys_scheme \<Rightarrow> bool" for k0 where
  reach_start: "uart_reach k0 k0"
| reach_input: "uart_reach k0 k \<Longrightarrow> plain_input err b k \<Longrightarrow> uart_recv_interrupt now err b k = Some (Done k') \<Longrightarrow> uart_reach k0 k'"

lemma uart_reach_ok:
  assumes "uart_reach k0 k" "rx_ok k0 ps L xs"
  shows "\<exists>ps' L' xs'. rx_ok k ps' L' xs'"
  using assms
proof (induction rule: uart_reach.induct)
  case reach_start
  then show ?case by blast
next
  case (reach_input k err b now k')
  then obtain ps' L' xs' where "rx_ok k ps' L' xs'" by blast
  from recv_safe [OF this reach_input.hyps(2), of now] reach_input.hyps(3) show ?case by (auto simp: rx_safe_def)
qed

section \<open>A kernel with an idle serial port\<close>

definition idle_port :: uart_state_t where
  "idle_port = \<lparr>u_state = UART_IDLE, u_msg_state = SOS_MSG_NO_STATE, u_hdlc_state = HDLC_IDLE, u_msgHdr = NULL, u_buff = NULL,
     u_crc = 0, u_msgLen = 0, u_idx = 0, u_flags = 0\<rparr>"

definition uart_node :: "heap \<Rightarrow> uart_sys" where
  "uart_node h = demo_kernel h \<lparr>utx = idle_port, urx = idle_port, tx_saved_state = HDLC_IDLE, rx_saved_state = HDLC_IDLE, crc_in = 0,
     line_out = [], tx_interrupt = False, rx_interrupt = True, uart_address = 0xFFFF,
     usys = \<lparr>us_system_state = UART_SYS_IDLE, us_calling_mod_id = (\<lambda>_. NULL_PID), us_state = (\<lambda>_. UART_SYS_IDLE), us_flags = (\<lambda>_. 0), us_txBuf = NULL\<rparr>,
     su_state = SOS_UART_IDLE, su_msg_ptr = NULL, uartpq = mq_init, uart_header = 760\<rparr>"

lemma uart_node_simps [simp]:
  "utx (uart_node h) = idle_port" "urx (uart_node h) = idle_port" "smem (uart_node h) = smem (boot_sys h mq_init)"
  "msg_slab (uart_node h) = msg_slab (boot_sys h mq_init)"
  "headers (uart_node h) = (\<lambda>_. (headers (boot_sys h mq_init) 0)\<lparr>m_flag := SOS_MSG_RELEASE\<rparr>)"
  by (simp_all add: uart_node_def demo_kernel_def demo_shm_def demo_sys_def boot_sys_def)

lemma uart_node_create: "\<exists>k1. msg_create (uart_node h) = Some (k1, 283) \<and> heap_of k1 = h"
proof -
  have f: "slab_find (s_items (smem (boot_sys h mq_init))) 15 259 259 = Some (259, 259)"
    by (subst slab_find.simps) (simp add: boot_sys_def)
  have g: "find_slot 4 0 1 1 = Some (1, 2)" by (simp add: numeral_eq_Suc)
  show ?thesis
    unfolding msg_create_def ker_slab_alloc_def using f g
    by (simp add: boot_sys_def set_item_def item_mem_def upd_msg_def set_msg_def SLAB_ITEM_HDR_def heap_of_def)
qed

lemma uart_node_malloc:
  assumes "malloc_heap h = 256" "rep h [Used 11 11 11 False, Used 3 130 130 False, Free 49]"
  shows "\<exists>h' p. ker_malloc 20 UART_PID h = Some (h', p) \<and> p \<noteq> NULL"
proof -
  have r: "unat (req_blocks 20) = 3" by (simp add: unat_req_blocks)
  have "alloc_areas 3 UART_PID 0 [Used 11 11 11 False, Used 3 130 130 False, Free 49] =
    ([Used 11 11 11 False, Used 3 130 130 False, Used 3 UART_PID UART_PID False, Free 46], Some 14)"
    by (simp add: Let_def split_off_def)
  with rep_alloc [OF assms(2), of 20 _ "Some 14" UART_PID] r show ?thesis
    by (auto simp: user_part_def HEADER_SIZE_def)
qed

lemma uart_node_inv:
  assumes "malloc_heap h = 256" "rep h [Used 11 11 11 False, Used 3 130 130 False, Free 49]"
  shows "mq_inv (uart_node h) [259] {263} [263]"
  unfolding uart_node_def by (rule demo_kernel_inv(1) [OF assms])

section \<open>Properties\<close>

text \<open>
  C6. The two ends of the serial link agree. A message given to an idle transmitter is put on the line as
  one frame, and an idle receiver which reads these bytes, and has memory for the message, queues a message with the same
  eight header bytes and the same payload, marked as coming from the network and owning its payload; its
  other messages, the rest of its memory and its invariant are kept, and it is ready for the next frame. The
  message must have no start symbol in its header, not be a time stamp and be shorter than the 128 bytes
  the receiver accepts; its payload is arbitrary, start and escape symbols included.
\<close>

theorem uart_roundtrip:
  assumes "u_state (utx ka) = UART_IDLE" "has_flag flags UART_SOS_MSG_FLAG" "m \<noteq> NULL"
    and "HDLC_FLAG \<notin> set (hdr_bytes (headers ka m))" "m_type (headers ka m) \<noteq> MSG_TIMESTAMP" "m_len (headers ka m) < UART_MAX_MSG_LEN"
    and "mq_inv kb ps L xs" "u_state (urx kb) = UART_IDLE" "u_msgHdr (urx kb) = NULL"
    and "msg_create kb = Some (kc, n)" "n \<noteq> NULL"
    and "m_len (headers ka m) \<noteq> 0 \<Longrightarrow> ker_malloc (ucast (m_len (headers ka m))) UART_PID (heap_of kc) = Some (h, p) \<and> p \<noteq> NULL"
  shows "\<exists>k1 k2 out kb'. uart_startTransceiverTx now m l flags ka = Some (k1, SOS_OK) \<and> tx_run (length out - 1) k1 = Some k2 \<and>
    line_out k2 = line_out ka @ out \<and> u_state (utx k2) = UART_END \<and> uart_feed now' out kb = Some (Done kb') \<and> n \<notin> L \<and>
    received kb L xs n (headers ka m) (payload ka m) kb'"
proof -
  let ?out = "uart_frame (msg_bytes ka m)"
  obtain k1 k2 s where "uart_startTransceiverTx now m l flags ka = Some (k1, SOS_OK)" "tx_run (length ?out - 1) k1 = Some k2"
    "u_state s = UART_END" "tx_at (ka\<lparr>tx_interrupt := True\<rparr>) s (line_out ka @ ?out) k2"
    using frame_law [OF assms(1,2,3,5)] by blast
  moreover have "length (payload ka m) = unat (m_len (headers ka m))" by (simp add: payload_def)
  with receive_law [OF assms(7-9,4-6) _ assms(10-12)] obtain kb' where "uart_feed now' ?out kb = Some (Done kb')" "n \<notin> L"
    "received kb L xs n (headers ka m) (payload ka m) kb'" unfolding msg_bytes_def by blast
  ultimately show ?thesis by (intro exI [of _ k1] exI [of _ k2] exI [of _ ?out] exI [of _ kb']) (auto simp: tx_at_def)
qed

theorem uart_roundtrip_witness:
  "\<exists>h k1 k2 out kb'. uart_startTransceiverTx 0 263 28 UART_SOS_MSG_FLAG (uart_node h) = Some (k1, SOS_OK) \<and>
    tx_run (length out - 1) k1 = Some k2 \<and> line_out k2 = line_out (uart_node h) @ out \<and> u_state (utx k2) = UART_END \<and>
    uart_feed 0 out (uart_node h) = Some (Done kb') \<and> 283 \<notin> {263::addr} \<and>
    received (uart_node h) {263} [263] 283 (headers (uart_node h) 263) (payload (uart_node h) 263) kb'"
proof -
  obtain h where h: "malloc_heap h = 256" "rep h [Used 11 11 11 False, Used 3 130 130 False, Free 49]" using boot_heap by blast
  obtain kc where c: "msg_create (uart_node h) = Some (kc, 283)" "heap_of kc = h" using uart_node_create by blast
  obtain h' p where p: "ker_malloc 20 UART_PID h = Some (h', p)" "p \<noteq> NULL" using uart_node_malloc [OF h] by blast
  show ?thesis
    by (rule exI [of _ h], rule uart_roundtrip [OF _ _ _ _ _ _ uart_node_inv [OF h] _ _ c(1), of _ _ _ h' p])
      (use p c(2) in \<open>simp_all add: idle_port_def has_flag_def hdr_bytes_def boot_sys_def word_bytes_def HDLC_FLAG_def
        MSG_TIMESTAMP_def UART_MAX_MSG_LEN_def UART_SOS_MSG_FLAG_def UART_SYS_SOS_MSG_FLAG_def\<close>)
qed

text \<open>
  C25. A message whose header contains the start symbol 0x7e, as the number of a module, a byte of an address, the type or the length, is
  never received over the serial link, although the sender escapes the symbol: the receiver discards the message
  at that byte and skips the rest of the frame. Its messages, its memory and its invariant are what they were.
\<close>

theorem uart_header_flag_lost:
  assumes "mq_inv k ps L xs" "u_state (urx k) = UART_IDLE" "u_msgHdr (urx k) = NULL" "HDLC_FLAG \<in> set (hdr_bytes y)"
    "msg_create k = Some (kc, m)" "m \<noteq> NULL"
  shows "\<exists>k' ps'. uart_feed now (uart_frame (hdr_bytes y @ ds)) k = Some (Done k') \<and> mq_inv k' ps' L xs \<and>
    (\<forall>x \<in> L. headers k' x = headers k x) \<and> bytes_of k' = bytes_of k \<and> fst ` others ps' (smem k') = fst ` others ps (smem k)"
  by (rule lost_law [OF assms])

theorem uart_header_flag_lost_witness:
  "\<exists>h k' ps'. uart_feed 0 (uart_frame (hdr_bytes ((headers (uart_node h) 263)\<lparr>m_sid := 0x7e\<rparr>) @ [5])) (uart_node h) = Some (Done k') \<and>
    mq_inv k' ps' {263} [263] \<and> (\<forall>x \<in> {263}. headers k' x = headers (uart_node h) x) \<and> bytes_of k' = bytes_of (uart_node h) \<and>
    fst ` others ps' (smem k') = fst ` others [259] (smem (uart_node h))"
proof -
  obtain h where h: "malloc_heap h = 256" "rep h [Used 11 11 11 False, Used 3 130 130 False, Free 49]" using boot_heap by blast
  obtain kc where c: "msg_create (uart_node h) = Some (kc, 283)" using uart_node_create by blast
  show ?thesis
    by (rule exI [of _ h], rule uart_header_flag_lost [OF uart_node_inv [OF h] _ _ _ c])
      (simp_all add: idle_port_def hdr_bytes_def HDLC_FLAG_def)
qed

text \<open>
  C7. No noise on the line breaks the receiver: from an idle receiver, after any sequence of received bytes and line errors, the next one is handled
  without a panic or an access outside a block, and the invariant of messages, slab, heap and queue holds again. Excluded are
  only the start of a raw frame and the end of a time stamp packet.
\<close>

theorem uart_recv_invariant:
  assumes "mq_inv k0 ps L xs" "u_state (urx k0) = UART_IDLE" "u_msgHdr (urx k0) = NULL" "uart_reach k0 k" "plain_input err b k"
  shows "\<exists>k' ps' L' xs'. uart_recv_interrupt now err b k = Some (Done k') \<and> uart_reach k0 k' \<and> mq_inv k' ps' L' xs' \<and>
    (u_msgHdr (urx k') \<noteq> NULL \<longrightarrow> u_msgHdr (urx k') \<in> L' - set xs')"
proof -
  have "rx_ok k0 ps L xs" using assms(1-3) by (simp add: rx_ok_def)
  then obtain ps1 L1 xs1 where "rx_ok k ps1 L1 xs1" using uart_reach_ok [OF assms(4)] by blast
  from recv_safe [OF this assms(5), of now] obtain k' ps' L' xs' where
    k': "uart_recv_interrupt now err b k = Some (Done k')" "rx_ok k' ps' L' xs'" by (auto simp: rx_safe_def)
  moreover have "mq_inv k' ps' L' xs' \<and> (u_msgHdr (urx k') \<noteq> NULL \<longrightarrow> u_msgHdr (urx k') \<in> L' - set xs')"
    using k'(2) unfolding rx_ok_def Let_def by blast
  ultimately show ?thesis using reach_input [OF assms(4,5)] by blast
qed

theorem uart_recv_invariant_witness:
  "\<exists>h k' ps' L' xs'. uart_recv_interrupt 0 0 HDLC_FLAG (uart_node h) = Some (Done k') \<and> uart_reach (uart_node h) k' \<and>
    mq_inv k' ps' L' xs' \<and> (u_msgHdr (urx k') \<noteq> NULL \<longrightarrow> u_msgHdr (urx k') \<in> L' - set xs')"
proof -
  obtain h where h: "malloc_heap h = 256" "rep h [Used 11 11 11 False, Used 3 130 130 False, Free 49]" using boot_heap by blast
  show ?thesis
    by (rule exI [of _ h], rule uart_recv_invariant [OF uart_node_inv [OF h] _ _ reach_start])
      (simp_all add: idle_port_def plain_input_def)
qed

end
