(* ===== verification/Flash.thy ===== *)
theory Flash
  imports Sos_Prelude
begin

text \<open>
  Program memory: the flash driver of the AVR port (\<^verbatim>\<open>processor/avr/flash_api.c\<close>) and the
  parts of \<^verbatim>\<open>kernel/codemem.c\<close> that work on flash memory alone: the map of allocated
  pages and the cache of one page in front of the flash.

  The flash is a function from byte addresses to bytes. The temporary buffer of the processor is
  filled in ascending order, so that it is a list of bytes; a page write stores it. The
  \<^verbatim>\<open>len\<close> bytes behind a pointer are a list. The block of the page cache and that of the map of pages are
  lists too; reading or writing outside of a list has no defined result, as has the overflow of a
  signed product. \<^verbatim>\<open>FLASHMEM_PAGE_SIZE\<close> is an enumerator and so an
  \<^verbatim>\<open>int\<close> of 16 bits. The end of the program text, a symbol of the linker, is a parameter.
\<close>

section \<open>The flash driver\<close>

definition FLASHMEM_PAGE_SIZE :: nat where "FLASHMEM_PAGE_SIZE = 256"
definition FLASHMEM_SIZE :: nat where "FLASHMEM_SIZE = 480 * 256"

type_synonym flash = "nat \<Rightarrow> u8"

definition flash_init :: "u16 \<Rightarrow> u32" where
  "flash_init text_end =
     (if 65536 - FLASHMEM_PAGE_SIZE < unat text_end then of_nat (256 * FLASHMEM_PAGE_SIZE)
      else if unat text_end < 20 * 1024
      then ucast (of_nat (unat (text_end + of_nat (FLASHMEM_PAGE_SIZE - 1)) div FLASHMEM_PAGE_SIZE + 256) :: u16) * of_nat FLASHMEM_PAGE_SIZE
      else of_nat (unat (ucast text_end + of_nat (FLASHMEM_PAGE_SIZE - 1) :: u32) div FLASHMEM_PAGE_SIZE) * of_nat FLASHMEM_PAGE_SIZE)"

definition flash_erase :: "u32 \<Rightarrow> u16 \<Rightarrow> flash \<Rightarrow> flash" where
  "flash_erase address len f = f"

text \<open>The loops that fill the temporary buffer, from the flash and from the data.\<close>

function fill_kept :: "flash \<Rightarrow> nat \<Rightarrow> nat \<Rightarrow> nat \<Rightarrow> u8 list" where
  "fill_kept f page_address i bound =
     (if i < bound then f (page_address + i) # f (page_address + i + 1) # fill_kept f page_address (i + 2) bound else [])"
  by auto
termination by (relation "measure (\<lambda>(f, p, i, bound). bound - i)") auto

function fill_new :: "nat \<Rightarrow> u8 list \<Rightarrow> u16 \<Rightarrow> (u8 list \<times> u8 list \<times> u16) option" where
  "fill_new i bs len =
     (if len \<noteq> 0 \<and> i < 256 then
        (case bs of
           b # c # cs \<Rightarrow> do { (new, rest, len') \<leftarrow> fill_new (i + 2) cs (len - 2); Some (b # c # new, rest, len') }
         | _ \<Rightarrow> None)
      else Some ([], bs, len))"
  by auto
termination by (relation "measure (\<lambda>(i, bs, len). length bs)") auto

declare fill_kept.simps [simp del] fill_new.simps [simp del]

text \<open>The address of a page from its number: \<^verbatim>\<open>RAMPZ\<close> is the upper bit, the rest has 16 bits.\<close>

definition spm_page :: "u16 \<Rightarrow> nat" where
  "spm_page page = (if 256 \<le> page then 65536 else 0) + unat (push_bit 8 page)"

definition spm_write :: "nat \<Rightarrow> u8 list \<Rightarrow> flash \<Rightarrow> flash" where
  "spm_write p bs f = (\<lambda>a. if p \<le> a \<and> a < p + length bs then bs ! (a - p) else f a)"

partial_function (option) flash_write :: "u32 \<Rightarrow> u8 list \<Rightarrow> u16 \<Rightarrow> flash \<Rightarrow> flash option" where
  "flash_write address bs len f =
     (if len = 0 then Some f
      else do {
        let page = ucast (drop_bit 8 address);
        let offset = unat (address AND 0xff);
        let page_address = unat (address AND 0xffffff00);
        let old = fill_kept f page_address 0 offset;
        (new, rest, len') \<leftarrow> fill_new (length old) bs len;
        let kept = fill_kept f page_address (length old + length new) 256;
        flash_write (address + (256 - of_nat offset)) rest len' (spm_write (spm_page page) (old @ new @ kept) f)
      })"

declare flash_write.simps [code]

text \<open>
  \<^verbatim>\<open>flash_read\<close>: words or bytes, in ascending order.
\<close>

definition flash_read :: "u32 \<Rightarrow> nat \<Rightarrow> flash \<Rightarrow> u8 list" where
  "flash_read address n f = map (\<lambda>i. f (unat (address + of_nat i))) [0..<n]"

section \<open>The state of \<^verbatim>\<open>codemem.c\<close>\<close>

definition CODEMEM_MAX_LOADABLE_MODULES :: nat where "CODEMEM_MAX_LOADABLE_MODULES = 16"
definition NUM_COMPILED_MODULES :: nat where "NUM_COMPILED_MODULES = 16"
definition CODEMEM_EXECUTABLE_FLAG :: u8 where "CODEMEM_EXECUTABLE_FLAG = 0x01"

record codemem_hdr_t =
  cm_start_addr :: u32
  cm_size :: u16
  cm_salt :: u8
  cm_flag :: u8

record codemem =
  flash :: flash
  flash_start_page_addr :: u32
  flash_alloc_bitmap :: "u8 list"
  flash_bitmap_length :: u8
  flash_num_pages :: u16
  codemem_handle_list :: "addr list"
  codemem_hdrs :: "addr \<Rightarrow> codemem_hdr_t"
  codemem_salt :: u8
  compiled_modules :: "u16 list"
  compiled_header_ptr :: u8
  flash_cache_page :: addr
  cache_bytes :: "u8 list"
  flash_cache_addr :: u32

section \<open>The map of pages\<close>

text \<open>The inner loop over the bits of a byte, and the loop over the bytes.\<close>

function set_run :: "bool \<Rightarrow> nat \<Rightarrow> nat \<Rightarrow> u8 \<Rightarrow> u8 \<times> nat" where
  "set_run val j len v =
     (if j < 8 \<and> 0 < len
      then set_run val (j + 1) (len - 1) (if val then v OR push_bit j 1 else v AND NOT (push_bit j 1))
      else (v, len))"
  by auto
termination by (relation "measure (\<lambda>(val, j, len, v). len)") auto

function set_bytes :: "bool \<Rightarrow> nat \<Rightarrow> nat \<Rightarrow> nat \<Rightarrow> u8 list \<Rightarrow> u8 list option" where
  "set_bytes val n i len bm =
     (if i < n \<and> 0 < len then
        if i < length bm then let (v, len') = set_run val 0 len (bm ! i) in set_bytes val n (i + 1) len' (bm[i := v])
        else None
      else Some bm)"
  by auto
termination by (relation "measure (\<lambda>(val, n, i, len, bm). n - i)") auto

declare set_run.simps [simp del] set_bytes.simps [simp del]

definition flash_setbitmap :: "u16 \<Rightarrow> nat \<Rightarrow> bool \<Rightarrow> codemem \<Rightarrow> codemem option" where
  "flash_setbitmap start len val c = do {
     let i = unat (ucast (start div 8) :: u8);
     let j = unat (start mod 8);
     (bm, len') \<leftarrow> (if len = 0 then Some (flash_alloc_bitmap c, 0)
        else if i < length (flash_alloc_bitmap c) then
          let (v, len') = set_run val j len (flash_alloc_bitmap c ! i) in Some ((flash_alloc_bitmap c)[i := v], len')
        else None);
     bm' \<leftarrow> set_bytes val (unat (flash_bitmap_length c)) ((i + 1) mod 256) len' bm;
     Some (c\<lparr>flash_alloc_bitmap := bm'\<rparr>)
   }"

definition pages_of :: "u16 \<Rightarrow> u8" where
  "pages_of sz = ucast ((sz + of_nat (FLASHMEM_PAGE_SIZE - 1)) div of_nat FLASHMEM_PAGE_SIZE)"

text \<open>
  The two nested loops of \<^verbatim>\<open>flash_alloc\<close> over the bytes and their bits, as one loop over
  the pages \<open>p = 8 * i + j\<close>. The result is the number of the first page.
\<close>

function find_pages :: "u8 list \<Rightarrow> nat \<Rightarrow> u8 \<Rightarrow> u8 \<Rightarrow> nat \<Rightarrow> nat option" where
  "find_pages bm n num_blocks free_blocks p =
     (if p < 8 * n then
        let free = (if bm ! (p div 8) AND push_bit (p mod 8) 1 \<noteq> 0 then 0 else free_blocks + 1) in
        if free = num_blocks then Some (p + 1 - unat num_blocks) else find_pages bm n num_blocks free (p + 1)
      else None)"
  by auto
termination by (relation "measure (\<lambda>(bm, n, nb, fb, p). 8 * n - p)") auto

declare find_pages.simps [simp del]

text \<open>\<^verbatim>\<open>flash_alloc\<close> after the allocation of the cache: the address, 0 for a full flash.\<close>

definition alloc_pages :: "u16 \<Rightarrow> codemem \<Rightarrow> (codemem \<times> u32) option" where
  "alloc_pages sz c =
     (if length (flash_alloc_bitmap c) < unat (flash_bitmap_length c) then None
      else case find_pages (flash_alloc_bitmap c) (unat (flash_bitmap_length c)) (pages_of sz) 0 0 of
        None \<Rightarrow> Some (c, 0)
      | Some p \<Rightarrow> do {
          c1 \<leftarrow> flash_setbitmap (of_nat p) (unat (pages_of sz)) True c;
          if p * FLASHMEM_PAGE_SIZE < 2 ^ 15
          then Some (c1, flash_start_page_addr c1 + of_nat (p * FLASHMEM_PAGE_SIZE))
          else None
        })"

definition flash_free :: "u32 \<Rightarrow> u16 \<Rightarrow> codemem \<Rightarrow> codemem option" where
  "flash_free a sz c = do {
     c1 \<leftarrow> flash_setbitmap (ucast ((a - flash_start_page_addr c) div of_nat FLASHMEM_PAGE_SIZE)) (unat (pages_of sz)) False c;
     Some (c1\<lparr>flash := flash_erase a sz (flash c1)\<rparr>)
   }"

section \<open>The page cache\<close>

definition page_start :: "u32 \<Rightarrow> u32" where
  "page_start a = a AND NOT (of_nat (FLASHMEM_PAGE_SIZE - 1))"

definition page_offset :: "u32 \<Rightarrow> nat" where
  "page_offset a = unat a mod FLASHMEM_PAGE_SIZE"

text \<open>The cached page goes back to the flash.\<close>

definition cache_store :: "codemem \<Rightarrow> codemem option" where
  "cache_store c = do {
     f \<leftarrow> flash_write (flash_cache_addr c) (cache_bytes c) (of_nat FLASHMEM_PAGE_SIZE)
            (flash_erase (flash_cache_addr c) (of_nat FLASHMEM_PAGE_SIZE) (flash c));
     Some (c\<lparr>flash := f\<rparr>)
   }"

definition codemem_cache_write :: "u32 \<Rightarrow> u8 list \<Rightarrow> codemem \<Rightarrow> codemem option" where
  "codemem_cache_write a bs c = do {
     let start = page_start a;
     let offset = page_offset a;
     c1 \<leftarrow> (if flash_cache_page c = NULL then None
            else if flash_cache_addr c \<noteq> start then do {
              c' \<leftarrow> (if flash_cache_addr c \<noteq> 0 then cache_store c else Some c);
              Some (c'\<lparr>flash_cache_addr := start, cache_bytes := flash_read start FLASHMEM_PAGE_SIZE (flash c')\<rparr>)
            } else Some c);
     if offset + length bs \<le> length (cache_bytes c1)
     then Some (c1\<lparr>cache_bytes := take offset (cache_bytes c1) @ bs @ drop (offset + length bs) (cache_bytes c1)\<rparr>)
     else None
   }"

definition codemem_cache_read :: "u32 \<Rightarrow> nat \<Rightarrow> codemem \<Rightarrow> u8 list option" where
  "codemem_cache_read a nbytes c =
     (let offset = page_offset a in
      if flash_cache_addr c = page_start a then
        let n = min (FLASHMEM_PAGE_SIZE - offset) nbytes in
        if n \<noteq> 0 \<and> (flash_cache_page c = NULL \<or> length (cache_bytes c) < offset + n) then None
        else Some (take n (drop offset (cache_bytes c)) @ flash_read (a + of_nat n) (nbytes - n) (flash c))
      else Some (flash_read a nbytes (flash c)))"

text \<open>
  The writes of \<^verbatim>\<open>ker_codemem_direct_write\<close>: up to the end of the first page, then whole
  pages, then the rest. \<open>bs\<close> are the bytes not yet written.
\<close>

function write_pages :: "u32 \<Rightarrow> u8 list \<Rightarrow> codemem \<Rightarrow> codemem option" where
  "write_pages a bs c =
     (if FLASHMEM_PAGE_SIZE < length bs then do {
        c1 \<leftarrow> codemem_cache_write a (take FLASHMEM_PAGE_SIZE bs) c;
        write_pages (a + of_nat FLASHMEM_PAGE_SIZE) (drop FLASHMEM_PAGE_SIZE bs) c1
      }
      else if bs \<noteq> [] then codemem_cache_write a bs c
      else Some c)"
  by auto
termination by (relation "measure (\<lambda>(a, bs, c). length bs)") (auto simp: FLASHMEM_PAGE_SIZE_def)

declare write_pages.simps [simp del]

definition write_bytes :: "u32 \<Rightarrow> u8 list \<Rightarrow> codemem \<Rightarrow> codemem option" where
  "write_bytes a bs c =
     (let remaining = FLASHMEM_PAGE_SIZE - unat a mod FLASHMEM_PAGE_SIZE in
      if remaining < length bs then do {
        c1 \<leftarrow> codemem_cache_write a (take remaining bs) c;
        write_pages (a + of_nat remaining) (drop remaining bs) c1
      }
      else write_pages a bs c)"

end
