(* ===== verification/Codemem.thy ===== *)
theory Codemem
  imports Flash Uart
begin

text \<open>
  Sections of program memory (\<^verbatim>\<open>kernel/codemem.c\<close>): allocation, writing and reading
  through the page cache, and the table of the modules that are linked with the kernel. The state of the file is one
  field of the kernel state; the descriptors and the page cache are blocks of the heap.

  A buffer of the caller is the list of its bytes: an operation that reads it gets the list, one that fills it returns the
  list. Log entries are not modelled. \<^verbatim>\<open>pid\<close> is used for them only.
\<close>

definition ENOENT :: int where "ENOENT = 2"
definition KER_CODEMEM_PID :: sos_pid_t where "KER_CODEMEM_PID = 15"
definition CODEMEM_INVALID :: u16 where "CODEMEM_INVALID = 0xffff"

datatype codemem_type_t = CODEMEM_TYPE_NORMAL | CODEMEM_TYPE_EXECUTABLE

definition CODEMEM_HDR_SIZE :: u16 where "CODEMEM_HDR_SIZE = 8"

record cm_sys = uart_sys +
  cm :: codemem

abbreviation upd_cm :: "(codemem \<Rightarrow> codemem) \<Rightarrow> 'a cm_sys_scheme \<Rightarrow> 'a cm_sys_scheme" where
  "upd_cm f k \<equiv> k\<lparr>cm := f (cm k)\<rparr>"

definition set_hdr :: "addr \<Rightarrow> (codemem_hdr_t \<Rightarrow> codemem_hdr_t) \<Rightarrow> codemem \<Rightarrow> codemem" where
  "set_hdr p f c = c\<lparr>codemem_hdrs := (codemem_hdrs c)(p := f (codemem_hdrs c p))\<rparr>"

section \<open>Handles\<close>

text \<open>
  The test lets the index 16 pass, which is read behind the end of the table.
\<close>

definition check_codemem_t :: "u16 \<Rightarrow> codemem \<Rightarrow> bool option" where
  "check_codemem_t h c =
     (let real_h = unat (h AND 0x00ff); salt = ucast (drop_bit 8 h) in
      if CODEMEM_MAX_LOADABLE_MODULES < real_h then Some False
      else if length (codemem_handle_list c) \<le> real_h then None
      else Some (codemem_handle_list c ! real_h \<noteq> NULL \<and> cm_salt (codemem_hdrs c (codemem_handle_list c ! real_h)) = salt))"

definition handle_hdr :: "u16 \<Rightarrow> codemem \<Rightarrow> codemem_hdr_t" where
  "handle_hdr h c = codemem_hdrs c (codemem_handle_list c ! unat (h AND 0x00ff))"

section \<open>The page cache\<close>

definition codemem_cache_alloc :: "'a cm_sys_scheme \<Rightarrow> ('a cm_sys_scheme \<times> int) option" where
  "codemem_cache_alloc k =
     (if flash_cache_page (cm k) = NULL then do {
        (k1, p) \<leftarrow> k_malloc (of_nat FLASHMEM_PAGE_SIZE) KER_CODEMEM_PID k;
        let k2 = upd_cm (\<lambda>c. c\<lparr>flash_cache_page := p\<rparr>) k1;
        if p = NULL then Some (k2, - ENOMEM)
        else Some (upd_cm (\<lambda>c. c\<lparr>cache_bytes := map (\<lambda>i. bytes_of k2 (p + i)) [0..<FLASHMEM_PAGE_SIZE], flash_cache_addr := 0\<rparr>) k2, SOS_OK)
      } else Some (k, SOS_OK))"

definition codemem_cache_flush :: "'a cm_sys_scheme \<Rightarrow> 'a cm_sys_scheme option" where
  "codemem_cache_flush k =
     (if flash_cache_page (cm k) \<noteq> NULL then do {
        c \<leftarrow> cache_store (cm k);
        k1 \<leftarrow> k_free (flash_cache_page c) (k\<lparr>cm := c\<rparr>);
        Some (upd_cm (\<lambda>c. c\<lparr>flash_cache_page := NULL, flash_cache_addr := 0\<rparr>) k1)
      } else Some k)"

section \<open>Allocation\<close>

definition flash_alloc :: "u16 \<Rightarrow> 'a cm_sys_scheme \<Rightarrow> ('a cm_sys_scheme \<times> u32) option" where
  "flash_alloc sz k = do {
     (k1, r) \<leftarrow> codemem_cache_alloc k;
     if r \<noteq> SOS_OK then Some (k1, of_int (- ENOMEM))
     else do { (c, a) \<leftarrow> alloc_pages sz (cm k1); Some (k1\<lparr>cm := c\<rparr>, a) }
   }"

definition ker_codemem_alloc :: "u16 \<Rightarrow> codemem_type_t \<Rightarrow> 'a cm_sys_scheme \<Rightarrow> ('a cm_sys_scheme \<times> u16) option" where
  "ker_codemem_alloc sz type k =
     (case find (\<lambda>i. codemem_handle_list (cm k) ! i = NULL) [0..<CODEMEM_MAX_LOADABLE_MODULES] of
        None \<Rightarrow> Some (k, CODEMEM_INVALID)
      | Some i \<Rightarrow> do {
          (h, hdr) \<leftarrow> malloc_longterm CODEMEM_HDR_SIZE KER_CODEMEM_PID (heap_of k);
          let k1 = set_heap h k;
          if hdr = NULL then Some (k1, CODEMEM_INVALID)
          else do {
            (k2, a) \<leftarrow> flash_alloc sz k1;
            let k3 = upd_cm (set_hdr hdr (\<lambda>x. x\<lparr>cm_start_addr := a\<rparr>)) k2;
            if a = 0 then do { k4 \<leftarrow> k_free hdr k3; Some (k4, CODEMEM_INVALID) }
            else
              let salt = codemem_salt (cm k3) + 1;
                  k4 = upd_cm (\<lambda>c. set_hdr hdr (\<lambda>x. x\<lparr>cm_size := sz, cm_salt := salt, cm_flag := 0\<rparr>)
                         (c\<lparr>codemem_handle_list := (codemem_handle_list c)[i := hdr], codemem_salt := salt\<rparr>)) k3
              in Some (k4, of_nat i OR push_bit 8 (ucast salt))
          }
        })"

section \<open>Writing and reading\<close>

definition ker_codemem_direct_write ::
    "u32 \<Rightarrow> sos_pid_t \<Rightarrow> u8 list \<Rightarrow> u16 \<Rightarrow> 'a cm_sys_scheme \<Rightarrow> ('a cm_sys_scheme \<times> int) option" where
  "ker_codemem_direct_write start_addr pid buf offset k = do {
     (k1, r) \<leftarrow> codemem_cache_alloc k;
     if r \<noteq> SOS_OK then Some (k1, - ENOMEM)
     else do { c \<leftarrow> write_bytes (start_addr + ucast offset) buf (cm k1); Some (k1\<lparr>cm := c\<rparr>, SOS_OK) }
   }"

definition ker_codemem_write ::
    "u16 \<Rightarrow> sos_pid_t \<Rightarrow> u8 list \<Rightarrow> u16 \<Rightarrow> 'a cm_sys_scheme \<Rightarrow> ('a cm_sys_scheme \<times> int) option" where
  "ker_codemem_write h pid buf offset k = do {
     ok \<leftarrow> check_codemem_t h (cm k);
     if \<not> ok then Some (k, - ENOENT)
     else ker_codemem_direct_write (cm_start_addr (handle_hdr h (cm k))) pid buf offset k
   }"

definition ker_codemem_direct_read :: "u32 \<Rightarrow> sos_pid_t \<Rightarrow> u16 \<Rightarrow> u16 \<Rightarrow> 'a cm_sys_scheme \<Rightarrow> (u8 list \<times> int) option" where
  "ker_codemem_direct_read start_addr pid nbytes offset k = do {
     buf \<leftarrow> codemem_cache_read (start_addr + ucast offset) (unat nbytes) (cm k);
     Some (buf, SOS_OK)
   }"

definition ker_codemem_read :: "u16 \<Rightarrow> sos_pid_t \<Rightarrow> u16 \<Rightarrow> u16 \<Rightarrow> 'a cm_sys_scheme \<Rightarrow> (u8 list \<times> int) option" where
  "ker_codemem_read h pid nbytes offset k = do {
     ok \<leftarrow> check_codemem_t h (cm k);
     if \<not> ok then Some ([], - ENOENT)
     else ker_codemem_direct_read (cm_start_addr (handle_hdr h (cm k))) pid nbytes offset k
   }"

definition ker_sys_codemem_read :: "u16 \<Rightarrow> u16 \<Rightarrow> u16 \<Rightarrow> 'a cm_sys_scheme \<Rightarrow> (u8 list \<times> int) option" where
  "ker_sys_codemem_read h nbytes offset k = ker_codemem_read h (ker_get_current_pid k) nbytes offset k"

definition ker_codemem_flush :: "u16 \<Rightarrow> sos_pid_t \<Rightarrow> 'a cm_sys_scheme \<Rightarrow> ('a cm_sys_scheme \<times> int) option" where
  "ker_codemem_flush h pid k = do { k1 \<leftarrow> codemem_cache_flush k; Some (k1, SOS_OK) }"

section \<open>Executable sections and the modules of the kernel image\<close>

definition ker_codemem_mark_executable :: "u16 \<Rightarrow> 'a cm_sys_scheme \<Rightarrow> ('a cm_sys_scheme \<times> int) option" where
  "ker_codemem_mark_executable h k = do {
     ok \<leftarrow> check_codemem_t h (cm k);
     if \<not> ok then Some (k, - ENOENT)
     else Some (upd_cm (\<lambda>c. set_hdr (codemem_handle_list c ! unat (h AND 0x00ff))
                  (\<lambda>x. x\<lparr>cm_flag := cm_flag x OR CODEMEM_EXECUTABLE_FLAG\<rparr>) c) k, SOS_OK)
   }"

definition ker_codemem_get_start_address :: "u16 \<Rightarrow> 'a cm_sys_scheme \<Rightarrow> u32 option" where
  "ker_codemem_get_start_address h k = do {
     ok \<leftarrow> check_codemem_t h (cm k);
     Some (if ok then cm_start_addr (handle_hdr h (cm k)) else 0)
   }"

definition codemem_register_module :: "u16 \<Rightarrow> 'a cm_sys_scheme \<Rightarrow> 'a cm_sys_scheme \<times> int" where
  "codemem_register_module h k =
     (if NUM_COMPILED_MODULES \<le> unat (compiled_header_ptr (cm k)) then (k, - EINVAL)
      else (upd_cm (\<lambda>c. c\<lparr>compiled_modules := (compiled_modules c)[unat (compiled_header_ptr c) := h],
                          compiled_header_ptr := compiled_header_ptr c + 1\<rparr>) k, SOS_OK))"

text \<open>
  A header lies in program memory at a word address; \<^verbatim>\<open>code_id\<close> is its word at offset 8.
\<close>

definition FlashGetProgmem :: "u32 \<Rightarrow> u32" where
  "FlashGetProgmem a = drop_bit 1 a"

definition sos_read_header_word :: "u16 \<Rightarrow> nat \<Rightarrow> flash \<Rightarrow> u16" where
  "sos_read_header_word p offset f = ucast (f (2 * unat p + offset)) + push_bit 8 (ucast (f (2 * unat p + offset + 1)))"

definition CODE_ID_OFFSET :: nat where "CODE_ID_OFFSET = 8"

definition match_cid :: "u32 \<Rightarrow> u16 \<Rightarrow> flash \<Rightarrow> u16" where
  "match_cid a cid f = (let modptr = ucast (FlashGetProgmem a) in
     if sos_read_header_word modptr CODE_ID_OFFSET f = cid then modptr else 0)"

definition loaded_match :: "codemem \<Rightarrow> u16 \<Rightarrow> nat \<Rightarrow> u16" where
  "loaded_match c cid i = (let p = codemem_handle_list c ! i in
     if p \<noteq> NULL \<and> cm_flag (codemem_hdrs c p) AND CODEMEM_EXECUTABLE_FLAG \<noteq> 0
     then match_cid (cm_start_addr (codemem_hdrs c p)) cid (flash c) else 0)"

definition ker_codemem_get_header_from_code_id :: "u16 \<Rightarrow> 'a cm_sys_scheme \<Rightarrow> u16" where
  "ker_codemem_get_header_from_code_id cid k =
     (case find (\<lambda>i. loaded_match (cm k) cid i \<noteq> 0) [0..<CODEMEM_MAX_LOADABLE_MODULES] of
        Some i \<Rightarrow> loaded_match (cm k) cid i
      | None \<Rightarrow> (case find (\<lambda>p. sos_read_header_word p CODE_ID_OFFSET (flash (cm k)) = cid)
                   (take (unat (compiled_header_ptr (cm k))) (compiled_modules (cm k))) of
                   Some p \<Rightarrow> p
                 | None \<Rightarrow> 0))"

section \<open>Initialisation\<close>

definition codemem_init :: "u16 \<Rightarrow> 'a cm_sys_scheme \<Rightarrow> 'a cm_sys_scheme option" where
  "codemem_init text_end k = do {
     let start = flash_init text_end;
     let num_pages = (ucast ((of_nat FLASHMEM_SIZE - start) div of_nat FLASHMEM_PAGE_SIZE) :: u16);
     let len = (ucast ((num_pages + 7) div 8) :: u8);
     (h, p) \<leftarrow> malloc_longterm (ucast len) KER_CODEMEM_PID (heap_of k);
     if p = NULL \<and> len \<noteq> 0 then None
     else Some (upd_cm (\<lambda>c. c\<lparr>flash_start_page_addr := start, flash_num_pages := num_pages, flash_bitmap_length := len,
         flash_alloc_bitmap := replicate (unat len) 0, codemem_handle_list := replicate CODEMEM_MAX_LOADABLE_MODULES NULL,
         codemem_salt := 0, flash_cache_page := NULL, flash_cache_addr := 0\<rparr>) (set_heap h k))
   }"

end
