(* ===== verification/Melf.thy ===== *)
theory Melf
  imports Codemem
begin

text \<open>
  The loader of module images (\<^verbatim>\<open>tools/elfloader/soslib/melfloader.c\<close> and \<^verbatim>\<open>avr_melfloader.c\<close>), which
  relocates the code of a Mini-ELF image inside its section of code memory, and the operations of
  \<^verbatim>\<open>kernel/codemem.c\<close> that need it: the address of the module header and the release of a section.

  The records of the image are packed and in the byte order of the processor, so that the conversions
  \<^verbatim>\<open>entoh_*\<close> do nothing. An operation that fills a structure of its caller returns
  \<open>Inr\<close> of it, or \<open>Inl\<close> of the error number. A variable that is not initialised is \<open>None\<close>, and its
  use has no result.
\<close>

section \<open>Records of an image\<close>

definition EFAULT :: int where "EFAULT = 14"
definition KER_DFT_LOADER_PID :: sos_pid_t where "KER_DFT_LOADER_PID = 17"

record Melf_Mhdr =
  m_modhdrndx :: u16
  m_shnum :: u8

record Melf_Shdr =
  sh_id :: u8
  sh_type :: u8
  sh_offset :: u16
  sh_size :: u16
  sh_link :: u8
  sh_info :: u8

record Melf_Sym =
  st_value :: u16
  st_info :: u8
  st_shid :: u8

record Melf_Rela =
  r_offset :: u16
  r_symbol :: u16
  r_addend :: u16
  r_type :: u8

record melf_desc_t =
  cmhdl :: u16
  mhdr :: Melf_Mhdr
  base_addr :: u32

definition word_of :: "u8 \<Rightarrow> u8 \<Rightarrow> u16" where
  "word_of lo hi = ucast lo OR push_bit 8 (ucast hi)"

fun Mhdr_of :: "u8 list \<Rightarrow> Melf_Mhdr option" where
  "Mhdr_of [a, b, c, d] = Some \<lparr>m_modhdrndx = word_of a b, m_shnum = c\<rparr>"
| "Mhdr_of _ = None"

fun Shdr_of :: "u8 list \<Rightarrow> Melf_Shdr option" where
  "Shdr_of [a, b, c, d, e, f, g, h] =
     Some \<lparr>sh_id = a, sh_type = b, sh_offset = word_of c d, sh_size = word_of e f, sh_link = g, sh_info = h\<rparr>"
| "Shdr_of _ = None"

fun Sym_of :: "u8 list \<Rightarrow> Melf_Sym option" where
  "Sym_of [a, b, c, d] = Some \<lparr>st_value = word_of a b, st_info = c, st_shid = d\<rparr>"
| "Sym_of _ = None"

fun Rela_of :: "u8 list \<Rightarrow> Melf_Rela option" where
  "Rela_of [a, b, c, d, e, f, g, h] = Some \<lparr>r_offset = word_of a b, r_symbol = word_of c d, r_addend = word_of e f, r_type = g\<rparr>"
| "Rela_of _ = None"

definition SHT_PROGBITS :: u8 where "SHT_PROGBITS = 1"
definition SHT_SYMTAB :: u8 where "SHT_SYMTAB = 2"
definition SHT_RELA :: u8 where "SHT_RELA = 4"
definition STT_SOS_DFUNC :: u8 where "STT_SOS_DFUNC = 5"

definition MELF_ST_TYPE :: "u8 \<Rightarrow> u8" where
  "MELF_ST_TYPE i = i AND 0x0f"

section \<open>Reading an image\<close>

definition melf_begin :: "u16 \<Rightarrow> 'a cm_sys_scheme \<Rightarrow> (int + melf_desc_t) option" where
  "melf_begin h k = do {
     (bs, r) \<leftarrow> ker_codemem_read h KER_DFT_LOADER_PID 4 0 k;
     if r \<noteq> SOS_OK then Some (Inl (- EFAULT))
     else do {
       m \<leftarrow> Mhdr_of bs;
       a \<leftarrow> ker_codemem_get_start_address h k;
       Some (Inr \<lparr>cmhdl = h, mhdr = m, base_addr = a\<rparr>)
     }
   }"

definition melf_read_shdr_ndx :: "melf_desc_t \<Rightarrow> u8 \<Rightarrow> 'a cm_sys_scheme \<Rightarrow> (int + Melf_Shdr) option" where
  "melf_read_shdr_ndx mdesc shndx k =
     (if m_shnum (mhdr mdesc) \<le> shndx then Some (Inl (- EINVAL))
      else do {
        (bs, r) \<leftarrow> ker_codemem_read (cmhdl mdesc) KER_DFT_LOADER_PID 8 (ucast shndx * 8 + 4) k;
        if r \<noteq> SOS_OK then Some (Inl (- EFAULT)) else do { s \<leftarrow> Shdr_of bs; Some (Inr s) }
      })"

definition melf_read_symbol :: "melf_desc_t \<Rightarrow> Melf_Shdr \<Rightarrow> u16 \<Rightarrow> 'a cm_sys_scheme \<Rightarrow> (int + Melf_Sym) option" where
  "melf_read_symbol mdesc symshdr symndx k = do {
     (bs, r) \<leftarrow> ker_codemem_read (cmhdl mdesc) KER_DFT_LOADER_PID 4 (sh_offset symshdr + symndx * 4) k;
     if r \<noteq> SOS_OK then Some (Inl (- EFAULT)) else do { s \<leftarrow> Sym_of bs; Some (Inr s) }
   }"

definition melf_read_rela :: "melf_desc_t \<Rightarrow> Melf_Shdr \<Rightarrow> u16 \<Rightarrow> 'a cm_sys_scheme \<Rightarrow> (int + Melf_Rela) option" where
  "melf_read_rela mdesc relashdr relandx k = do {
     (bs, r) \<leftarrow> ker_codemem_read (cmhdl mdesc) KER_DFT_LOADER_PID 8 (sh_offset relashdr + relandx * 8) k;
     if r \<noteq> SOS_OK then Some (Inl (- EFAULT)) else do { s \<leftarrow> Rela_of bs; Some (Inr s) }
   }"

text \<open>The first section header of a type, with the loop of \<^verbatim>\<open>melf_read_progbits_shdr\<close> and \<^verbatim>\<open>melf_read_symtab_shdr\<close>.\<close>

fun find_shdr :: "u8 \<Rightarrow> melf_desc_t \<Rightarrow> nat list \<Rightarrow> 'a cm_sys_scheme \<Rightarrow> (int + Melf_Shdr) option" where
  "find_shdr ty mdesc [] k = Some (Inl (- EFAULT))"
| "find_shdr ty mdesc (i # is) k = do {
     r \<leftarrow> melf_read_shdr_ndx mdesc (of_nat i) k;
     case r of Inl e \<Rightarrow> Some (Inl (- EFAULT))
     | Inr s \<Rightarrow> if sh_type s = ty then Some (Inr s) else find_shdr ty mdesc is k
   }"

definition melf_read_progbits_shdr :: "melf_desc_t \<Rightarrow> 'a cm_sys_scheme \<Rightarrow> (int + Melf_Shdr) option" where
  "melf_read_progbits_shdr mdesc k = find_shdr SHT_PROGBITS mdesc [0..<unat (m_shnum (mhdr mdesc))] k"

definition melf_read_symtab_shdr :: "melf_desc_t \<Rightarrow> 'a cm_sys_scheme \<Rightarrow> (int + Melf_Shdr) option" where
  "melf_read_symtab_shdr mdesc k = find_shdr SHT_SYMTAB mdesc [0..<unat (m_shnum (mhdr mdesc))] k"

definition melf_get_header_address :: "u16 \<Rightarrow> 'a cm_sys_scheme \<Rightarrow> u16 option" where
  "melf_get_header_address h k = do {
     d \<leftarrow> melf_begin h k;
     case d of Inl e \<Rightarrow> Some 0 | Inr mdesc \<Rightarrow> do {
       p \<leftarrow> melf_read_progbits_shdr mdesc k;
       case p of Inl e \<Rightarrow> Some 0 | Inr progshdr \<Rightarrow> do {
         s \<leftarrow> melf_read_symtab_shdr mdesc k;
         case s of Inl e \<Rightarrow> Some 0 | Inr symshdr \<Rightarrow> do {
           y \<leftarrow> melf_read_symbol mdesc symshdr (m_modhdrndx (mhdr mdesc)) k;
           case y of Inl e \<Rightarrow> Some 0 | Inr modhdrsym \<Rightarrow>
             Some (ucast (FlashGetProgmem (base_addr mdesc + ucast (sh_offset progshdr) + ucast (st_value modhdrsym))))
         }
       }
     }
   }"

section \<open>Relocation on the AVR\<close>

abbreviation (input) R_AVR_7_PCREL :: u8 where "R_AVR_7_PCREL \<equiv> 2"
abbreviation (input) R_AVR_13_PCREL :: u8 where "R_AVR_13_PCREL \<equiv> 3"
abbreviation (input) R_AVR_16 :: u8 where "R_AVR_16 \<equiv> 4"
abbreviation (input) R_AVR_16_PM :: u8 where "R_AVR_16_PM \<equiv> 5"
abbreviation (input) R_AVR_LO8_LDI :: u8 where "R_AVR_LO8_LDI \<equiv> 6"
abbreviation (input) R_AVR_HI8_LDI :: u8 where "R_AVR_HI8_LDI \<equiv> 7"
abbreviation (input) R_AVR_HH8_LDI :: u8 where "R_AVR_HH8_LDI \<equiv> 8"
abbreviation (input) R_AVR_LO8_LDI_NEG :: u8 where "R_AVR_LO8_LDI_NEG \<equiv> 9"
abbreviation (input) R_AVR_HI8_LDI_NEG :: u8 where "R_AVR_HI8_LDI_NEG \<equiv> 10"
abbreviation (input) R_AVR_HH8_LDI_NEG :: u8 where "R_AVR_HH8_LDI_NEG \<equiv> 11"
abbreviation (input) R_AVR_LO8_LDI_PM :: u8 where "R_AVR_LO8_LDI_PM \<equiv> 12"
abbreviation (input) R_AVR_HI8_LDI_PM :: u8 where "R_AVR_HI8_LDI_PM \<equiv> 13"
abbreviation (input) R_AVR_HH8_LDI_PM :: u8 where "R_AVR_HH8_LDI_PM \<equiv> 14"
abbreviation (input) R_AVR_LO8_LDI_PM_NEG :: u8 where "R_AVR_LO8_LDI_PM_NEG \<equiv> 15"
abbreviation (input) R_AVR_HI8_LDI_PM_NEG :: u8 where "R_AVR_HI8_LDI_PM_NEG \<equiv> 16"
abbreviation (input) R_AVR_HH8_LDI_PM_NEG :: u8 where "R_AVR_HH8_LDI_PM_NEG \<equiv> 17"
abbreviation (input) R_AVR_CALL :: u8 where "R_AVR_CALL \<equiv> 18"

fun WRITE_LDI :: "u8 list \<Rightarrow> u8 \<Rightarrow> u8 list" where
  "WRITE_LDI (i0 # i1 # is) byte = ((i0 AND 0xf0) OR (byte AND 0x0f)) # ((i1 AND 0xf0) OR drop_bit 4 byte) # is"
| "WRITE_LDI is byte = is"

text \<open>
  The distance of a relative jump, in words. It is an \<^verbatim>\<open>int\<close> of 16 bits, whose overflow is undefined.
\<close>

definition pcrel :: "Melf_Rela \<Rightarrow> Melf_Sym \<Rightarrow> u16 option" where
  "pcrel rela symb =
     (let pc = drop_bit 1 (r_offset rela);
          target_addr = (ucast (drop_bit 1 (ucast (st_value symb) + ucast (r_addend rela) :: u32)) :: u16);
          d = sint target_addr - sint pc
      in if - (2 ^ 15) \<le> d - 1 \<and> d < 2 ^ 15 then Some (of_int (d - 1)) else None)"

text \<open>
  The bytes that replace the instruction \<open>instr\<close>; none if the type asks for no change.
\<close>

fun relocated :: "Melf_Rela \<Rightarrow> Melf_Sym \<Rightarrow> u32 \<Rightarrow> u8 list \<Rightarrow> u8 list option" where
  "relocated rela symb reloc_addr [i0, i1, i2, i3] =
     (let ty = r_type rela in
      if ty = R_AVR_7_PCREL then do {
        k \<leftarrow> pcrel rela symb;
        Some [i0 OR ucast (push_bit 3 k AND 0xf8), i1 OR ucast (drop_bit 5 k AND 0x03)]
      }
      else if ty = R_AVR_13_PCREL then do {
        k \<leftarrow> pcrel rela symb;
        Some [ucast k, (i1 AND 0xF0) OR ucast (drop_bit 8 k AND 0x0F)]
      }
      else if ty = R_AVR_16 then Some [ucast reloc_addr, ucast (drop_bit 8 reloc_addr)]
      else if ty = R_AVR_16_PM then Some [ucast (drop_bit 1 reloc_addr), ucast (drop_bit 8 (drop_bit 1 reloc_addr))]
      else if ty = R_AVR_LO8_LDI then Some (WRITE_LDI [i0, i1] (ucast reloc_addr))
      else if ty = R_AVR_HI8_LDI then Some (WRITE_LDI [i0, i1] (ucast (drop_bit 8 reloc_addr)))
      else if ty = R_AVR_HH8_LDI then Some (WRITE_LDI [i0, i1] (ucast (drop_bit 16 reloc_addr)))
      else if ty = R_AVR_LO8_LDI_NEG then Some (WRITE_LDI [i0, i1] (ucast (- reloc_addr)))
      else if ty = R_AVR_HI8_LDI_NEG then Some (WRITE_LDI [i0, i1] (ucast (drop_bit 8 (- reloc_addr))))
      else if ty = R_AVR_HH8_LDI_NEG then Some (WRITE_LDI [i0, i1] (ucast (drop_bit 16 (- reloc_addr))))
      else if ty = R_AVR_LO8_LDI_PM then Some (WRITE_LDI [i0, i1] (ucast (drop_bit 1 reloc_addr)))
      else if ty = R_AVR_HI8_LDI_PM then Some (WRITE_LDI [i0, i1] (ucast (drop_bit 9 reloc_addr)))
      else if ty = R_AVR_HH8_LDI_PM then Some (WRITE_LDI [i0, i1] (ucast (drop_bit 17 reloc_addr)))
      else if ty = R_AVR_LO8_LDI_PM_NEG then Some (WRITE_LDI [i0, i1] (ucast (drop_bit 1 (- reloc_addr))))
      else if ty = R_AVR_HI8_LDI_PM_NEG then Some (WRITE_LDI [i0, i1] (ucast (drop_bit 9 (- reloc_addr))))
      else if ty = R_AVR_HH8_LDI_PM_NEG then Some (WRITE_LDI [i0, i1] (ucast (drop_bit 17 (- reloc_addr))))
      else if ty = R_AVR_CALL then Some [i0, i1, ucast (drop_bit 1 reloc_addr), ucast (drop_bit 8 (drop_bit 1 reloc_addr))]
      else Some [])"
| "relocated rela symb reloc_addr _ = None"

text \<open>The address that an instruction refers to; \<open>None\<close> for a function that no module provides.\<close>

definition reloc_target ::
    "melf_desc_t \<Rightarrow> Melf_Rela \<Rightarrow> Melf_Sym \<Rightarrow> Melf_Shdr \<Rightarrow> 'a cm_sys_scheme \<Rightarrow> ('a cm_sys_scheme \<times> u32 option) option" where
  "reloc_target mdesc rela symb progshdr k =
     (if MELF_ST_TYPE (st_info symb) = STT_SOS_DFUNC then do {
        (k1, p) \<leftarrow> ker_fntable_get_dfunc_addr (ucast (drop_bit 8 (st_value symb) AND 0x00ff)) (ucast (st_value symb AND 0x00ff)) k;
        let a = ucast (of_nat p :: u16);
        Some (k1, if a = 0 then None else Some a)
      }
      else Some (k, Some (base_addr mdesc + ucast (sh_offset progshdr) + ucast (st_value symb) + ucast (r_addend rela))))"

definition melf_arch_relocate ::
    "melf_desc_t \<Rightarrow> Melf_Rela \<Rightarrow> Melf_Sym \<Rightarrow> Melf_Shdr \<Rightarrow> 'a cm_sys_scheme \<Rightarrow> ('a cm_sys_scheme \<times> int) option" where
  "melf_arch_relocate mdesc rela symb progshdr k = do {
     let reloc_offset = sh_offset progshdr + r_offset rela;
     (k1, t) \<leftarrow> reloc_target mdesc rela symb progshdr k;
     case t of None \<Rightarrow> Some (k1, - 1)
     | Some reloc_addr \<Rightarrow> do {
         (instr, r) \<leftarrow> ker_codemem_read (cmhdl mdesc) KER_DFT_LOADER_PID 4 reloc_offset k1;
         bs \<leftarrow> relocated rela symb reloc_addr instr;
         if bs = [] then Some (k1, 0)
         else do {
           (k2, r) \<leftarrow> ker_codemem_write (cmhdl mdesc) KER_DFT_LOADER_PID bs reloc_offset k1;
           Some (k2, 0)
         }
       }
   }"

section \<open>Loading a module\<close>

text \<open>
  The results of the reads and of the relocation are ignored: after a failed read the loop works on the record of the
  last pass.
\<close>

definition read_into :: "'b option \<Rightarrow> (int + 'b) \<Rightarrow> 'b option" where
  "read_into old r = (case r of Inl e \<Rightarrow> old | Inr x \<Rightarrow> Some x)"

fun relocate_loop ::
    "melf_desc_t \<Rightarrow> Melf_Shdr \<Rightarrow> Melf_Shdr option \<Rightarrow> Melf_Shdr option \<Rightarrow> nat list \<Rightarrow> Melf_Rela option \<Rightarrow> Melf_Sym option \<Rightarrow>
     'a cm_sys_scheme \<Rightarrow> 'a cm_sys_scheme option" where
  "relocate_loop mdesc relashdr progshdr symshdr [] rela symb k = Some k"
| "relocate_loop mdesc relashdr progshdr symshdr (i # is) rela symb k = do {
     r \<leftarrow> melf_read_rela mdesc relashdr (of_nat i) k;
     rela1 \<leftarrow> read_into rela r;
     symsh \<leftarrow> symshdr;
     s \<leftarrow> melf_read_symbol mdesc symsh (r_symbol rela1) k;
     sym1 \<leftarrow> read_into symb s;
     progsh \<leftarrow> progshdr;
     (k1, e) \<leftarrow> melf_arch_relocate mdesc rela1 sym1 progsh k;
     relocate_loop mdesc relashdr progshdr symshdr is (Some rela1) (Some sym1) k1
   }"

definition melf_relocate ::
    "melf_desc_t \<Rightarrow> Melf_Shdr \<Rightarrow> Melf_Shdr option \<Rightarrow> Melf_Shdr option \<Rightarrow> 'a cm_sys_scheme \<Rightarrow> ('a cm_sys_scheme \<times> int) option" where
  "melf_relocate mdesc relashdr progshdr symshdr k = do {
     k1 \<leftarrow> relocate_loop mdesc relashdr progshdr symshdr [0..<unat (sh_size relashdr) div 8] None None k;
     (k2, r) \<leftarrow> ker_codemem_flush (cmhdl mdesc) KER_DFT_LOADER_PID k1;
     Some (k2, SOS_OK)
   }"

text \<open>The section headers of the image; the last one of each type counts.\<close>

record image_shdrs =
  im_sym :: "Melf_Shdr option"
  im_prog :: "Melf_Shdr option"
  im_rela :: "Melf_Shdr option"

definition note_shdr :: "Melf_Shdr \<Rightarrow> image_shdrs \<Rightarrow> image_shdrs" where
  "note_shdr s m =
     (let m1 = (if sh_type s = SHT_SYMTAB then m\<lparr>im_sym := Some s\<rparr> else m);
          m2 = (if sh_type s = SHT_PROGBITS then m1\<lparr>im_prog := Some s\<rparr> else m1)
      in if sh_type s = SHT_RELA then m2\<lparr>im_rela := Some s\<rparr> else m2)"

fun read_shdrs :: "melf_desc_t \<Rightarrow> nat list \<Rightarrow> image_shdrs \<Rightarrow> 'a cm_sys_scheme \<Rightarrow> (int + image_shdrs) option" where
  "read_shdrs mdesc [] m k = Some (Inr m)"
| "read_shdrs mdesc (i # is) m k = do {
     r \<leftarrow> melf_read_shdr_ndx mdesc (of_nat i) k;
     case r of Inl e \<Rightarrow> Some (Inl (- EFAULT)) | Inr s \<Rightarrow> read_shdrs mdesc is (note_shdr s m) k
   }"

definition melf_load_module :: "u16 \<Rightarrow> 'a cm_sys_scheme \<Rightarrow> ('a cm_sys_scheme \<times> int) option" where
  "melf_load_module h k = do {
     d \<leftarrow> melf_begin h k;
     case d of Inl e \<Rightarrow> Some (k, - EFAULT) | Inr mdesc \<Rightarrow> do {
       m \<leftarrow> read_shdrs mdesc [0..<unat (m_shnum (mhdr mdesc))] \<lparr>im_sym = None, im_prog = None, im_rela = None\<rparr> k;
       case m of Inl e \<Rightarrow> Some (k, - EFAULT) | Inr im \<Rightarrow> do {
         relashdr \<leftarrow> im_rela im;
         (k1, r) \<leftarrow> melf_relocate mdesc relashdr (im_prog im) (im_sym im) k;
         Some (k1, SOS_OK)
       }
     }
   }"

section \<open>Releasing a section\<close>

definition ker_codemem_get_header_address :: "u16 \<Rightarrow> 'a cm_sys_scheme \<Rightarrow> u16 option" where
  "ker_codemem_get_header_address h k = melf_get_header_address h k"

definition codemem_do_killall ::
    "'a cm_sys_scheme handler \<Rightarrow> 'a cm_sys_scheme drivers \<Rightarrow> u16 \<Rightarrow> 'a cm_sys_scheme \<Rightarrow> 'a cm_sys_scheme outcome option" where
  "codemem_do_killall run drv h k = do {
     p \<leftarrow> ker_codemem_get_header_address h k;
     if p = 0 then Some (Done k)
     else ker_killall run drv (sos_read_header_word p CODE_ID_OFFSET (flash (cm k))) k
   }"

definition ker_codemem_free ::
    "'a cm_sys_scheme handler \<Rightarrow> 'a cm_sys_scheme drivers \<Rightarrow> u16 \<Rightarrow> 'a cm_sys_scheme \<Rightarrow> ('a cm_sys_scheme \<times> int) outcome option" where
  "ker_codemem_free run drv h k = do {
     ok \<leftarrow> check_codemem_t h (cm k);
     let cmt = unat (h AND 0x00ff);
     let hdr = codemem_handle_list (cm k) ! cmt;
     if \<not> ok then Some (Done (k, - ENOENT))
     else continue (if cm_flag (codemem_hdrs (cm k) hdr) AND CODEMEM_EXECUTABLE_FLAG \<noteq> 0 then codemem_do_killall run drv h k else Some (Done k))
       (\<lambda>k1. do {
          c \<leftarrow> flash_free (cm_start_addr (codemem_hdrs (cm k1) hdr)) (cm_size (codemem_hdrs (cm k1) hdr)) (cm k1);
          k2 \<leftarrow> k_free hdr (k1\<lparr>cm := c\<lparr>codemem_handle_list := (codemem_handle_list c)[cmt := NULL]\<rparr>\<rparr>);
          Some (Done (k2, SOS_OK))
        })
   }"

end
