(* ===== verification/Message_Net.thy ===== *)
theory Message_Net
  imports Melf
begin

text \<open>
  Messages to other nodes: \<^verbatim>\<open>kernel/message_net.c\<close> in the build with radio, serial line and I2C, and the list of
  I2C neighbours, \<^verbatim>\<open>drivers/i2c/sos_i2c_mgr.c\<close>, which the choice of the link looks up. A message to the own node goes into
  the scheduler's queue. Any other one is offered to the routing module, unless it is raw or a broadcast, and then given to
  the links its flags name, with a copy for every link but the first.

  The serial link is the one of the theory \<open>Uart\<close>. The link layers of radio and I2C end in hardware drivers and are parameters,
  as are the handlers of the monitors, the routing function of a module and the time.
\<close>

section \<open>State and environment\<close>

definition KER_ROUTING_PID :: sos_pid_t where "KER_ROUTING_PID = 20"
definition KER_I2C_MGR_PID :: sos_pid_t where "KER_I2C_MGR_PID = 74"
definition EIO :: int where "EIO = 5"
definition MSG_DISCOVERY :: u8 where "MSG_DISCOVERY = 17"
definition MSG_I2C_SEND_DONE :: u8 where "MSG_I2C_SEND_DONE = 0x40"
definition SOS_MSG_PAYLOAD_LENGTH :: nat where "SOS_MSG_PAYLOAD_LENGTH = 4"

datatype i2c_mgr_mode = SOS_I2C_MGR_INIT | SOS_I2C_MGR_IDLE | SOS_I2C_MGR_DISCOVER | SOS_I2C_MGR_ERROR

record i2c_neighbor_t =
  node_addr :: u16
  i2c_addr :: u8
  nb_next :: addr

text \<open>
  The static variables; \<open>routing_state\<close> is the address of \<^verbatim>\<open>routing_func_ptr\<close>, the state of the routing module.
\<close>

record net_sys = cm_sys +
  routing_module :: addr
  routing_header :: addr
  routing_state :: addr
  i2c_mgr_header :: addr
  i2c_mgr_state :: i2c_mgr_mode
  addrList :: addr
  neighbors :: "addr \<Rightarrow> i2c_neighbor_t"
  i2c_id :: u8

text \<open>The parameters: \<open>route\<close> takes the address of a function, its control block and the message.\<close>

record 'k net_env =
  ne_run :: "'k handler"
  ne_call :: "'k callbacks"
  ne_now :: u32
  route :: "addr \<Rightarrow> addr \<Rightarrow> addr \<Rightarrow> 'k \<Rightarrow> ('k \<times> int) outcome option"
  radio_msg_alloc :: "addr \<Rightarrow> 'k \<Rightarrow> 'k outcome option"
  i2c_msg_alloc :: "addr \<Rightarrow> 'k \<Rightarrow> 'k outcome option"

definition flag_msg_from_radio :: "u16 \<Rightarrow> bool" where "flag_msg_from_radio f \<longleftrightarrow> f AND SOS_MSG_RADIO_IO \<noteq> 0"
definition flag_msg_from_i2c :: "u16 \<Rightarrow> bool" where "flag_msg_from_i2c f \<longleftrightarrow> f AND SOS_MSG_I2C_IO \<noteq> 0"
definition flag_msg_from_uart :: "u16 \<Rightarrow> bool" where "flag_msg_from_uart f \<longleftrightarrow> f AND SOS_MSG_UART_IO \<noteq> 0"
definition flag_msg_link_auto :: "u16 \<Rightarrow> bool" where "flag_msg_link_auto f \<longleftrightarrow> f AND SOS_MSG_LINK_AUTO \<noteq> 0"
definition flag_msg_raw :: "u16 \<Rightarrow> bool" where "flag_msg_raw f \<longleftrightarrow> f AND SOS_MSG_RAW \<noteq> 0"

section \<open>The I2C neighbours\<close>

definition upd_neighbor :: "addr \<Rightarrow> (i2c_neighbor_t \<Rightarrow> i2c_neighbor_t) \<Rightarrow> 'a net_sys_scheme \<Rightarrow> 'a net_sys_scheme" where
  "upd_neighbor p f k = k\<lparr>neighbors := (neighbors k)(p := f (neighbors k p))\<rparr>"

definition check_i2c_address :: "u16 \<Rightarrow> 'a net_sys_scheme \<Rightarrow> int option" where
  "check_i2c_address dest_addr k = do {
     p \<leftarrow> chain_search (\<lambda>p. node_addr (neighbors k p) = dest_addr) (\<lambda>p. nb_next (neighbors k p)) (addrList k);
     Some (if p \<noteq> NULL then SOS_OK else - EINVAL)
   }"

definition add_i2c_address :: "u16 \<Rightarrow> u8 \<Rightarrow> 'a net_sys_scheme \<Rightarrow> ('a net_sys_scheme \<times> int) option" where
  "add_i2c_address na ia k = do {
     (k1, p) \<leftarrow> k_malloc 5 KER_I2C_MGR_PID k;
     if p \<noteq> NULL
     then Some ((upd_neighbor p (\<lambda>_. \<lparr>node_addr = na, i2c_addr = ia, nb_next = addrList k1\<rparr>) k1)\<lparr>addrList := p\<rparr>, SOS_OK)
     else Some (k1, - ENOMEM)
   }"

text \<open>
  The removal of all entries with one of the addresses, first at the head of the list, then behind it. Behind an entry that was
  the last one and when the list became empty, the second loop reads the field \<^verbatim>\<open>next\<close> of the null pointer.
\<close>

definition nb_matches :: "u16 \<Rightarrow> u8 \<Rightarrow> i2c_neighbor_t \<Rightarrow> bool" where
  "nb_matches na ia n \<longleftrightarrow> node_addr n = na \<or> i2c_addr n = ia"

partial_function (option) rm_head :: "u16 \<Rightarrow> u8 \<Rightarrow> addr \<Rightarrow> int \<Rightarrow> 'a net_sys_scheme \<Rightarrow> ('a net_sys_scheme \<times> addr \<times> int) option" where
  "rm_head na ia p r k =
     (if p \<noteq> NULL \<and> nb_matches na ia (neighbors k p) then do {
        let nx = nb_next (neighbors k p);
        k1 \<leftarrow> k_free p k;
        rm_head na ia nx SOS_OK (k1\<lparr>addrList := nx\<rparr>)
      }
      else Some (k, p, r))"

declare rm_head.simps [code]

partial_function (option) rm_rest :: "u16 \<Rightarrow> u8 \<Rightarrow> addr \<Rightarrow> int \<Rightarrow> 'a net_sys_scheme \<Rightarrow> ('a net_sys_scheme \<times> int) option" where
  "rm_rest na ia p r k =
     (if p = NULL then None
      else if nb_next (neighbors k p) = NULL then Some (k, r)
      else if nb_matches na ia (neighbors k (nb_next (neighbors k p))) then do {
        let t = nb_next (neighbors k p);
        let k1 = upd_neighbor p (\<lambda>x. x\<lparr>nb_next := nb_next (neighbors k t)\<rparr>) k;
        k2 \<leftarrow> k_free t k1;
        rm_rest na ia (nb_next (neighbors k2 p)) SOS_OK k2
      }
      else rm_rest na ia (nb_next (neighbors k p)) r k)"

declare rm_rest.simps [code]

definition rm_i2c_address :: "u16 \<Rightarrow> u8 \<Rightarrow> 'a net_sys_scheme \<Rightarrow> ('a net_sys_scheme \<times> int) option" where
  "rm_i2c_address na ia k = do {
     (k1, p, r) \<leftarrow> rm_head na ia (addrList k) (- EINVAL) k;
     rm_rest na ia p r k1
   }"

section \<open>Copies of messages\<close>

text \<open>Assignment of a whole message, which includes its static payload.\<close>

definition copy_msg :: "addr \<Rightarrow> addr \<Rightarrow> 'a msg_sys_scheme \<Rightarrow> 'a msg_sys_scheme" where
  "copy_msg dst src k = (upd_msg dst (\<lambda>_. headers k src) k)
     \<lparr>bytes_of := copy_bytes (dst + PAYLOAD_OFFSET) (src + PAYLOAD_OFFSET) SOS_MSG_PAYLOAD_LENGTH (bytes_of k)\<rparr>"

definition msg_change_endian :: "addr \<Rightarrow> 'a msg_sys_scheme \<Rightarrow> 'a msg_sys_scheme" where
  "msg_change_endian e k = upd_msg e (\<lambda>x. x\<lparr>m_daddr := m_daddr x, m_saddr := m_saddr x\<rparr>) k"

definition msg_duplicate :: "addr \<Rightarrow> 'a msg_sys_scheme \<Rightarrow> ('a msg_sys_scheme \<times> addr) outcome option" where
  "msg_duplicate m k = do {
     (k1, mcopy) \<leftarrow> msg_create k;
     if mcopy = NULL then Some (Done (k1, NULL))
     else do {
       (k2, d) \<leftarrow> k_malloc (ucast (m_len (headers k1 m))) KER_SCHED_PID k1;
       if d = NULL \<and> m_len (headers k2 m) \<noteq> 0 then continue (msg_dispose mcopy k2) (\<lambda>k3. Some (Done (k3, NULL)))
       else
         let k3 = upd_msg mcopy (\<lambda>x. x\<lparr>m_data := d, m_flag := m_flag x OR SOS_MSG_RELEASE\<rparr>) (copy_msg mcopy m k2)
         in Some (Done (k3\<lparr>bytes_of := copy_bytes d (m_data (headers k3 m)) (unat (m_len (headers k3 m))) (bytes_of k3)\<rparr>, mcopy))
     }
   }"

definition null_link_msg_alloc :: "addr \<Rightarrow> 'a msg_sys_scheme \<Rightarrow> 'a msg_sys_scheme outcome option" where
  "null_link_msg_alloc m k = msg_dispose m k"

section \<open>Routing\<close>

definition no_router :: "addr \<Rightarrow> addr \<Rightarrow> 'k \<Rightarrow> ('k \<times> int) outcome option" where
  "no_router p msg k = Some (Done (k, - 1))"

definition routing_handler :: "addr \<Rightarrow> addr \<Rightarrow> 'k \<Rightarrow> ('k \<times> int) outcome option" where
  "routing_handler state msg k = Some (Done (k, - EINVAL))"

definition set_flag :: "bool \<Rightarrow> u16 \<Rightarrow> addr \<Rightarrow> 'a msg_sys_scheme \<Rightarrow> 'a msg_sys_scheme" where
  "set_flag b f m k = upd_msg m (\<lambda>x. x\<lparr>m_flag := (if b then m_flag x OR f else m_flag x AND NOT f)\<rparr>) k"

definition sos_msg_find_right_link :: "addr \<Rightarrow> 'a net_sys_scheme \<Rightarrow> ('a net_sys_scheme \<times> bool) option" where
  "sos_msg_find_right_link m k = do {
     let u = (check_uart_address (m_daddr (headers k m)) k = SOS_OK);
     let k1 = set_flag u SOS_MSG_UART_IO m k;
     r \<leftarrow> check_i2c_address (m_daddr (headers k1 m)) k1;
     let i = (r = SOS_OK);
     let k2 = set_flag i SOS_MSG_I2C_IO m k1;
     Some (set_flag (\<not> (u \<or> i)) SOS_MSG_RADIO_IO m k2, u \<or> i)
   }"

text \<open>\<^verbatim>\<open>SOS_CALL\<close> of the routing function.\<close>

definition routing_call :: "'a net_sys_scheme net_env \<Rightarrow> addr \<Rightarrow> 'a net_sys_scheme \<Rightarrow> ('a net_sys_scheme \<times> int) outcome option" where
  "routing_call env m k = do {
     let cb = ram_ptr k (routing_state k);
     (k1, f) \<leftarrow> ker_sys_enter_func cb k;
     continue (route env f cb m k1) (\<lambda>(k2, ret). do { k3 \<leftarrow> ker_sys_leave_func k2; Some (Done (k3, ret)) })
   }"

text \<open>The part of the dispatch before the links: a result, or \<open>None\<close> if the message goes on to the links.\<close>

definition route_msg :: "'a net_sys_scheme net_env \<Rightarrow> addr \<Rightarrow> 'a net_sys_scheme \<Rightarrow> ('a net_sys_scheme \<times> int option) outcome option" where
  "route_msg env m k =
     (if m_daddr (headers k m) \<noteq> BCAST_ADDRESS \<and> \<not> flag_msg_raw (m_flag (headers k m)) then do {
        (k1, found) \<leftarrow> sos_msg_find_right_link m k;
        if found then Some (Done (k1, None))
        else continue (routing_call env m k1) (\<lambda>(k2, ret).
          if ret = SOS_OK + 1 then continue (msg_dispose m k2) (\<lambda>k3. Some (Done (k3, Some SOS_OK)))
          else if ret = SOS_OK then continue (msg_send_senddone m True KER_ROUTING_PID k2) (\<lambda>k3. Some (Done (k3, Some SOS_OK)))
          else Some (Done (k2, None)))
      }
      else Some (Done (k, None)))"

section \<open>The links\<close>

text \<open>
  The message for one link: none if its flag is not set, the message itself for the first one, a copy
  otherwise. The result tells whether the memory was enough.
\<close>

definition link_copy :: "bool \<Rightarrow> bool \<Rightarrow> addr \<Rightarrow> 'a msg_sys_scheme \<Rightarrow> ('a msg_sys_scheme \<times> addr \<times> bool) outcome option" where
  "link_copy used first m k =
     (if \<not> used then Some (Done (k, NULL, True))
      else if first then Some (Done (k, m, True))
      else continue (msg_duplicate m k) (\<lambda>(k1, c).
        if c = NULL then Some (Done (k1, NULL, False)) else Some (Done (set_flag False SOS_MSG_RELIABLE c k1, c, True))))"

fun dispose_copies :: "addr list \<Rightarrow> 'a msg_sys_scheme \<Rightarrow> 'a msg_sys_scheme outcome option" where
  "dispose_copies [] k = Some (Done k)"
| "dispose_copies (c # cs) k =
     continue (if c \<noteq> NULL then msg_dispose c k else Some (Done k)) (dispose_copies cs)"

text \<open>The messages for radio, I2C and serial line, or \<open>None\<close> if there is not enough memory.\<close>

definition link_copies :: "addr \<Rightarrow> 'a msg_sys_scheme \<Rightarrow> ('a msg_sys_scheme \<times> (addr \<times> addr \<times> addr) option) outcome option" where
  "link_copies m k =
     (let radio = flag_msg_from_radio (m_flag (headers k m));
          r = (if radio then m else NULL);
          uart = flag_msg_from_uart (m_flag (headers k m))
      in continue (link_copy uart (\<not> radio) m k) (\<lambda>(k1, u, ok).
        if \<not> ok then continue (dispose_copies [r] k1) (\<lambda>k2. Some (Done (k2, None)))
        else continue (link_copy (flag_msg_from_i2c (m_flag (headers k1 m))) (\<not> radio \<and> \<not> uart) m k1) (\<lambda>(k2, i, ok).
          if \<not> ok then continue (dispose_copies [r, u] k2) (\<lambda>k3. Some (Done (k3, None)))
          else Some (Done (k2, Some (r, i, u))))))"

definition link_dispatch :: "(addr \<Rightarrow> 'a msg_sys_scheme \<Rightarrow> 'a msg_sys_scheme outcome option) \<Rightarrow> addr \<Rightarrow> 'a msg_sys_scheme \<Rightarrow> 'a msg_sys_scheme outcome option" where
  "link_dispatch f c k = (if c \<noteq> NULL then f c (msg_change_endian c k) else Some (Done k))"

definition sos_msg_dispatch :: "'a net_sys_scheme net_env \<Rightarrow> addr \<Rightarrow> 'a net_sys_scheme \<Rightarrow> ('a net_sys_scheme \<times> int) outcome option" where
  "sos_msg_dispatch env m k =
     (if node_address k = m_daddr (headers k m) then do { k1 \<leftarrow> sched_msg_alloc m k; Some (Done (k1, SOS_OK)) }
      else continue (route_msg env m k) (\<lambda>(k1, ret). case ret of Some r \<Rightarrow> Some (Done (k1, r))
      | None \<Rightarrow> do {
          (k2, found) \<leftarrow> (if flag_msg_link_auto (m_flag (headers k1 m)) \<and> m_daddr (headers k1 m) \<noteq> BCAST_ADDRESS
                        then sos_msg_find_right_link m k1 else Some (k1, False));
          if m_flag (headers k2 m) AND SOS_MSG_ALL_LINK_IO = 0
          then continue (null_link_msg_alloc m k2) (\<lambda>k3. Some (Done (k3, SOS_OK)))
          else continue (link_copies m k2) (\<lambda>(k3, cs). case cs of None \<Rightarrow> Some (Done (k3, - ENOMEM))
            | Some (r, i, u) \<Rightarrow>
                continue (monitor_deliver_outgoing_msg_to_monitor (ne_run env) m k3) (\<lambda>k4.
                continue (link_dispatch (radio_msg_alloc env) r k4) (\<lambda>k5.
                continue (link_dispatch (uart_msg_alloc (ne_call env) (ne_now env)) u k5) (\<lambda>k6.
                continue (link_dispatch (i2c_msg_alloc env) i k6) (\<lambda>k7. Some (Done (k7, SOS_OK)))))))
        }))"

section \<open>Posting to other nodes\<close>

definition post :: "'a net_sys_scheme net_env \<Rightarrow> addr \<Rightarrow> 'a net_sys_scheme \<Rightarrow> ('a net_sys_scheme \<times> int) outcome option" where
  "post env e k = do {
     (k1, m) \<leftarrow> msg_create k;
     if m = NULL then
       (if flag_msg_release (m_flag (headers k1 e)) then do {
          k2 \<leftarrow> k_free (m_data (headers k1 e)) k1;
          Some (Done (upd_msg e (\<lambda>x. x\<lparr>m_data := NULL, m_len := 0\<rparr>) k2, - ENOMEM))
        } else Some (Done (k1, - ENOMEM)))
     else
       let k2 = copy_msg m e k1;
           k3 = upd_msg e (\<lambda>x. x\<lparr>m_len := 0, m_data := NULL, m_flag := m_flag x AND NOT SOS_MSG_RELEASE\<rparr>) k2
       in sos_msg_dispatch env m k3
   }"

definition post_link ::
    "'a net_sys_scheme net_env \<Rightarrow> sos_pid_t \<Rightarrow> sos_pid_t \<Rightarrow> u8 \<Rightarrow> u8 \<Rightarrow> addr \<Rightarrow> u16 \<Rightarrow> u16 \<Rightarrow>
     'a net_sys_scheme \<Rightarrow> ('a net_sys_scheme \<times> int) outcome option" where
  "post_link env did sid type len data flag daddr k = do {
     (k1, m) \<leftarrow> msg_create k;
     if m = NULL then do {
       k2 \<leftarrow> (if flag_msg_release flag then k_free data k1 else Some k1);
       Some (Done (k2, - ENOMEM))
     }
     else sos_msg_dispatch env m (upd_msg m (\<lambda>x. x\<lparr>m_daddr := daddr, m_did := did, m_type := type, m_saddr := node_address k1,
            m_sid := sid, m_len := len, m_data := data, m_flag := flag\<rparr>) k1)
   }"

definition post_i2c ::
    "'a net_sys_scheme net_env \<Rightarrow> sos_pid_t \<Rightarrow> sos_pid_t \<Rightarrow> u8 \<Rightarrow> u8 \<Rightarrow> addr \<Rightarrow> u16 \<Rightarrow> u16 \<Rightarrow>
     'a net_sys_scheme \<Rightarrow> ('a net_sys_scheme \<times> int) outcome option" where
  "post_i2c env did sid type len data flag daddr k = post_link env did sid type len data (flag OR SOS_MSG_I2C_IO) daddr k"

definition ker_sys_post_link ::
    "'a net_sys_scheme net_env \<Rightarrow> sos_pid_t \<Rightarrow> u8 \<Rightarrow> u8 \<Rightarrow> addr \<Rightarrow> u16 \<Rightarrow> u16 \<Rightarrow> 'a net_sys_scheme \<Rightarrow> ('a net_sys_scheme \<times> int) outcome option" where
  "ker_sys_post_link env dst type sz data flag daddr k =
     continue (post_link env dst (ker_get_current_pid k) type sz data flag daddr k)
       (\<lambda>(k1, r). if r \<noteq> SOS_OK then Some Panic else Some (Done (k1, SOS_OK)))"

definition ker_sys_routing_register :: "u8 \<Rightarrow> 'a net_sys_scheme \<Rightarrow> ('a net_sys_scheme \<times> int) outcome option" where
  "ker_sys_routing_register fid k =
     continue (ker_fntable_subscribe KER_ROUTING_PID (ker_get_current_pid k) fid 0 k)
       (\<lambda>(k1, r). Some (Done (k1, if r \<noteq> SOS_OK then - EINVAL else SOS_OK)))"

definition routing_init :: "'a net_sys_scheme \<Rightarrow> 'a net_sys_scheme outcome option" where
  "routing_init k = continue (sched_register_kernel_module (routing_module k) (routing_header k) (routing_state k) k) (\<lambda>(k1, r). Some (Done k1))"

section \<open>Discovery of I2C neighbours\<close>

definition DISCOVERY_MSG_LEN :: u8 where "DISCOVERY_MSG_LEN = 2"
definition SOS_I2C_MGR_TYPE_DISCOVERY :: u8 where "SOS_I2C_MGR_TYPE_DISCOVERY = 0"
definition SOS_I2C_MGR_TID :: u8 where "SOS_I2C_MGR_TID = 0"
definition TIMER_REPEAT :: u8 where "TIMER_REPEAT = 0"

definition sos_i2c_mgr_init :: "'a net_sys_scheme \<Rightarrow> 'a net_sys_scheme outcome option" where
  "sos_i2c_mgr_init k = continue (ker_register_module (i2c_mgr_header k) k) (\<lambda>(k1, r). Some (Done k1))"

text \<open>The payload is freed after a failed \<^verbatim>\<open>post_i2c\<close>, which has freed it already.\<close>

definition send_discovery_msg :: "'a net_sys_scheme net_env \<Rightarrow> u16 \<Rightarrow> u8 \<Rightarrow> 'a net_sys_scheme \<Rightarrow> ('a net_sys_scheme \<times> int) outcome option" where
  "send_discovery_msg env ia type k = do {
     (k1, data) \<leftarrow> k_malloc (ucast DISCOVERY_MSG_LEN) KER_I2C_MGR_PID k;
     if data = NULL then Some (Done (k1, - ENOMEM))
     else continue (post_i2c env KER_I2C_MGR_PID KER_I2C_MGR_PID MSG_DISCOVERY DISCOVERY_MSG_LEN data (SOS_MSG_RELEASE OR SOS_MSG_RELIABLE) ia
            (k1\<lparr>bytes_of := put_bytes data [i2c_id k1, type] (bytes_of k1)\<rparr>))
       (\<lambda>(k2, r). if r = SOS_OK then Some (Done (k2, SOS_OK)) else do { k3 \<leftarrow> k_free data k2; Some (Done (k3, - EIO)) })
   }"

text \<open>Discovery is active, so that a request is never answered.\<close>

definition sos_i2c_mgr_msg_handler :: "'a net_sys_scheme net_env \<Rightarrow> addr \<Rightarrow> 'a net_sys_scheme \<Rightarrow> ('a net_sys_scheme \<times> int) outcome option" where
  "sos_i2c_mgr_msg_handler env msg k =
     (let type = m_type (headers k msg);
          discover = (\<lambda>k. continue (send_discovery_msg env BCAST_ADDRESS SOS_I2C_MGR_TYPE_DISCOVERY k)
            (\<lambda>(k1, r). if r \<noteq> SOS_OK then Some (Done (k1, r)) else Some (Done (k1\<lparr>i2c_mgr_state := SOS_I2C_MGR_DISCOVER\<rparr>, SOS_OK))))
      in if type = MSG_INIT then do {
           (k1, r) \<leftarrow> ker_timer_init KER_I2C_MGR_PID SOS_I2C_MGR_TID TIMER_ONE_SHOT k;
           continue (ker_timer_start (ne_call env) KER_I2C_MGR_PID SOS_I2C_MGR_TID 1000 k1)
             (\<lambda>(k2, r). Some (Done (k2\<lparr>addrList := NULL, i2c_mgr_state := SOS_I2C_MGR_INIT\<rparr>, SOS_OK)))
         }
      else if type = MSG_TIMER_TIMEOUT then
        (case i2c_mgr_state k of
           SOS_I2C_MGR_INIT \<Rightarrow> do {
             (k1, r) \<leftarrow> ker_timer_init KER_I2C_MGR_PID SOS_I2C_MGR_TID TIMER_REPEAT k;
             continue (ker_timer_start (ne_call env) KER_I2C_MGR_PID SOS_I2C_MGR_TID 5000 k1) (\<lambda>(k2, r). discover k2)
           }
         | SOS_I2C_MGR_IDLE \<Rightarrow> discover k
         | SOS_I2C_MGR_DISCOVER \<Rightarrow> Some (Done (k\<lparr>i2c_mgr_state := SOS_I2C_MGR_IDLE\<rparr>, SOS_OK))
         | SOS_I2C_MGR_ERROR \<Rightarrow> Some (Done (k, SOS_OK)))
      else if type = MSG_I2C_SEND_DONE then Some (Done (k\<lparr>i2c_mgr_state := SOS_I2C_MGR_IDLE\<rparr>, SOS_OK))
      else if type = MSG_DISCOVERY then do {
        let na = m_saddr (headers k msg);
        r \<leftarrow> check_i2c_address na k;
        if r \<noteq> SOS_OK then do { (k1, e) \<leftarrow> add_i2c_address na (bytes_of k (m_data (headers k msg))) k; Some (Done (k1, SOS_OK)) }
        else Some (Done (k, SOS_OK))
      }
      else Some (Done (k, SOS_OK)))"

end
