(* ===== verification/Flash_Correct.thy ===== *)
theory Flash_Correct
  imports Flash
begin

text \<open>
  The page cache implements a byte array: what the caller sees of the program memory is the
  flash with the cached page laid over it, a write changes exactly the bytes it is given, and a read
  returns them unless it runs from another page into the cached one. The map of pages implements
  a set of page numbers; the search finds the first free run.
\<close>

section \<open>Pages\<close>

lemma page_start_unat: "unat (page_start a) = 256 * (unat a div 256)"
proof -
  have m: "(255 :: u32) = mask 8" by (simp add: mask_eq_exp_minus_1)
  have "page_start a = push_bit 8 (drop_bit 8 a)"
    by (rule bit_eqI) (auto simp: page_start_def FLASHMEM_PAGE_SIZE_def m bit_simps)
  also have "\<dots> = (a div 256) * 256" by (simp add: push_bit_eq_mult drop_bit_eq_div)
  also have "unat \<dots> = 256 * (unat a div 256)"
  proof -
    have "unat a < 4294967296" by (rule less_le_trans [OF unsigned_less]) simp
    then have "unat a div 256 * 256 < 4294967296" "unat a div 256 < 4294967296" by linarith+
    then show ?thesis by (simp add: unat_word_ariths unat_div)
  qed
  finally show ?thesis .
qed

lemma page_offset_less: "page_offset a < 256"
  by (simp add: page_offset_def FLASHMEM_PAGE_SIZE_def)

lemma page_parts: "unat a = unat (page_start a) + page_offset a"
  by (simp add: page_start_unat page_offset_def FLASHMEM_PAGE_SIZE_def)

lemma page_start_self: "unat a mod 256 = 0 \<Longrightarrow> page_start a = a"
  by (simp add: word_unat_eq_iff page_start_unat minus_mod_eq_mult_div [symmetric])

section \<open>Writing a page\<close>

lemma fill_new_all:
  assumes "length bs = unat len" "even (length bs)" "i + length bs \<le> 256"
  shows "fill_new i bs len = Some (bs, [], 0)"
  using assms
proof (induction i bs len rule: fill_new.induct)
  case (1 i bs len)
  show ?case
  proof (cases bs)
    case Nil
    then have "len = 0" using 1(2) by (simp add: unat_eq_zero)
    then show ?thesis using Nil by (subst fill_new.simps) simp
  next
    case (Cons b cs)
    then obtain c ds where ds: "bs = b # c # ds" using 1(3) by (cases cs) auto
    have n: "len \<noteq> 0" "i < 256" using 1(2,4) ds by auto
    have "2 \<le> len" using 1(2) ds by (simp add: word_le_nat_alt)
    then have "length ds = unat (len - 2)" using 1(2) ds by (simp add: unat_sub)
    moreover have "even (length ds)" "i + 2 + length ds \<le> 256" using 1(3,4) ds by auto
    ultimately have "fill_new (i + 2) ds (len - 2) = Some (ds, [], 0)"
      using 1(1) [of b "c # ds" c ds] n ds by auto
    then show ?thesis using n ds by (subst fill_new.simps) simp
  qed
qed

lemma spm_page_start:
  fixes a :: u32
  assumes "unat a mod 256 = 0" "unat a < 2 ^ 17"
  shows "spm_page (ucast (drop_bit 8 a)) = unat a"
proof -
  have d: "unat (drop_bit 8 a) = unat a div 256" by (simp add: drop_bit_eq_div unat_div)
  have "unat a div 256 < 512" using assms(2) by auto
  then have u: "unat (ucast (drop_bit 8 a) :: u16) = unat a div 256"
    by (simp add: unsigned_ucast_eq d take_bit_nat_eq_self_iff)
  have p: "unat (push_bit 8 (ucast (drop_bit 8 a) :: u16)) = (unat a div 256 * 256) mod 65536"
    using u by (simp add: push_bit_eq_mult unat_word_ariths)
  obtain q where q: "unat a = 256 * q" "q < 512" using assms by (auto elim!: dvdE simp: mod_eq_0_iff_dvd)
  show ?thesis
  proof (cases "q < 256")
    case True
    then show ?thesis using q by (simp add: spm_page_def p word_le_nat_alt u)
  next
    case False
    then have "q * 256 mod 65536 = q * 256 - 65536" using q(2) by (subst le_mod_geq) auto
    then show ?thesis using q False by (simp add: spm_page_def p word_le_nat_alt u)
  qed
qed

lemma flash_write_page:
  assumes a: "unat a mod 256 = 0" "unat a < 2 ^ 17" and bs: "length bs = 256"
  shows "flash_write a bs 256 f = Some (spm_write (unat a) bs f)"
proof -
  have "a AND 0xff = a AND mask 8" by (simp add: mask_eq_exp_minus_1)
  also have "unat \<dots> = unat a mod 256" by (simp flip: take_bit_eq_mask add: take_bit_eq_mod unat_mod)
  finally have o: "unat (a AND 0xff) = 0" using a(1) by simp
  have "fill_new 0 bs 256 = Some (bs, [], 0)" by (rule fill_new_all) (simp_all add: bs)
  then show ?thesis
    by (subst flash_write.simps) (simp add: o Let_def fill_kept.simps bs spm_page_start [OF a], subst flash_write.simps, simp)
qed

section \<open>The contents of program memory\<close>

text \<open>
  What a caller of \<^verbatim>\<open>codemem.c\<close> sees: the flash, and over it the page in the cache. The
  value 0 of \<^verbatim>\<open>flash_cache_addr\<close> means that no page is cached.
\<close>

definition code_view :: "codemem \<Rightarrow> flash" where
  "code_view c = (if flash_cache_page c \<noteq> NULL \<and> flash_cache_addr c \<noteq> 0
     then spm_write (unat (flash_cache_addr c)) (cache_bytes c) (flash c) else flash c)"

definition page_cache_ok :: "codemem \<Rightarrow> bool" where
  "page_cache_ok c \<longleftrightarrow> (flash_cache_page c = NULL \<longrightarrow> flash_cache_addr c = 0) \<and>
     (flash_cache_page c \<noteq> NULL \<longrightarrow> length (cache_bytes c) = 256) \<and>
     unat (flash_cache_addr c) mod 256 = 0 \<and> unat (flash_cache_addr c) < 2 ^ 17"

lemma spm_write_nil [simp]: "spm_write p [] f = f"
  by (auto simp: spm_write_def fun_eq_iff)

lemma spm_write_append: "spm_write (p + length xs) ys (spm_write p xs f) = spm_write p (xs @ ys) f"
  by (auto simp: spm_write_def fun_eq_iff nth_append)

lemma spm_write_part:
  assumes "i + length bs \<le> length xs"
  shows "spm_write (p + i) bs (spm_write p xs f) = spm_write p (take i xs @ bs @ drop (i + length bs) xs) f"
  using assms by (auto simp: spm_write_def fun_eq_iff nth_append min_def)

lemma spm_write_same: "(\<And>i. i < length bs \<Longrightarrow> bs ! i = f (p + i)) \<Longrightarrow> spm_write p bs f = f"
  by (auto simp: spm_write_def fun_eq_iff)

lemma unat_plus_of_nat: "unat a + i < 2 ^ 32 \<Longrightarrow> unat (a + of_nat i :: u32) = unat a + i"
  by (simp add: unat_word_ariths unat_of_nat)

lemma flash_read_nth:
  "unat a + n \<le> 2 ^ 32 \<Longrightarrow> flash_read a n f = map (\<lambda>i. f (unat a + i)) [0..<n]"
  by (simp add: flash_read_def unat_plus_of_nat)

lemma cache_store_law:
  assumes "page_cache_ok c" "flash_cache_page c \<noteq> NULL" "flash_cache_addr c \<noteq> 0"
  shows "cache_store c = Some (c\<lparr>flash := code_view c\<rparr>)"
  using assms flash_write_page [of "flash_cache_addr c" "cache_bytes c" "flash c"]
  by (simp add: cache_store_def page_cache_ok_def code_view_def FLASHMEM_PAGE_SIZE_def flash_erase_def)

text \<open>The page of the cache is changed to the one at \<open>s\<close>: the contents stay.\<close>

definition with_page :: "u32 \<Rightarrow> codemem \<Rightarrow> codemem" where
  "with_page s c = c\<lparr>flash := code_view c, flash_cache_addr := s, cache_bytes := map (\<lambda>i. code_view c (unat s + i)) [0..<256]\<rparr>"

lemma with_page_view:
  assumes "flash_cache_page c \<noteq> NULL" "s \<noteq> 0"
  shows "code_view (with_page s c) = code_view c"
  using assms spm_write_same [of "map (\<lambda>i. code_view c (unat s + i)) [0..<256]" "code_view c" "unat s"]
  by (simp add: code_view_def [of "with_page s c"]) (simp add: with_page_def)

text \<open>A write inside one page.\<close>

definition same_codemem :: "codemem \<Rightarrow> codemem \<Rightarrow> bool" where
  "same_codemem c c' \<longleftrightarrow> c' = c\<lparr>flash := flash c', cache_bytes := cache_bytes c', flash_cache_addr := flash_cache_addr c'\<rparr>"

lemma same_codemem_trans: "same_codemem c c' \<Longrightarrow> same_codemem c' c'' \<Longrightarrow> same_codemem c c''"
  unfolding same_codemem_def by (cases c; cases c'; cases c''; simp)

lemma cache_write_law:
  assumes ok: "page_cache_ok c" "flash_cache_page c \<noteq> NULL" and a: "256 \<le> unat a" "unat a < 2 ^ 17"
    and bs: "page_offset a + length bs \<le> 256"
  shows "\<exists>c'. codemem_cache_write a bs c = Some c' \<and> page_cache_ok c' \<and> same_codemem c c' \<and>
    code_view c' = spm_write (unat a) bs (code_view c) \<and> flash_cache_addr c' \<noteq> 0"
proof -
  let ?s = "page_start a"
  have s: "unat ?s mod 256 = 0" "unat ?s < 2 ^ 17" "?s \<noteq> 0"
    using a page_start_unat [of a] by (auto simp: unat_eq_zero [symmetric] simp del: unat_eq_zero)
  obtain c1 where c1: "(if flash_cache_addr c \<noteq> ?s then do {
              c' \<leftarrow> (if flash_cache_addr c \<noteq> 0 then cache_store c else Some c);
              Some (c'\<lparr>flash_cache_addr := ?s, cache_bytes := flash_read ?s FLASHMEM_PAGE_SIZE (flash c')\<rparr>)
            } else Some c) = Some c1" "page_cache_ok c1" "same_codemem c c1" "code_view c1 = code_view c"
    "flash_cache_addr c1 = ?s" "flash_cache_page c1 \<noteq> NULL"
  proof (cases "flash_cache_addr c = ?s")
    case True
    with that [of c] ok show ?thesis by (simp add: same_codemem_def)
  next
    case False
    have r: "flash_read ?s 256 (code_view c) = map (\<lambda>i. code_view c (unat ?s + i)) [0..<256]"
      by (rule flash_read_nth) (use s(2) in simp)
    have "(if flash_cache_addr c \<noteq> 0 then cache_store c else Some c) = Some (c\<lparr>flash := code_view c\<rparr>)"
      using cache_store_law [OF ok] by (simp add: code_view_def)
    with False r have "(if flash_cache_addr c \<noteq> ?s then do {
              c' \<leftarrow> (if flash_cache_addr c \<noteq> 0 then cache_store c else Some c);
              Some (c'\<lparr>flash_cache_addr := ?s, cache_bytes := flash_read ?s FLASHMEM_PAGE_SIZE (flash c')\<rparr>)
            } else Some c) = Some (with_page ?s c)"
      by (simp add: with_page_def FLASHMEM_PAGE_SIZE_def)
    moreover have "page_cache_ok (with_page ?s c)" using s ok by (simp add: page_cache_ok_def with_page_def)
    moreover have "same_codemem c (with_page ?s c)" by (simp add: same_codemem_def with_page_def)
    ultimately show ?thesis using that [of "with_page ?s c"] with_page_view [OF ok(2) s(3)] ok(2) by (simp add: with_page_def)
  qed
  let ?o = "page_offset a"
  let ?c' = "c1\<lparr>cache_bytes := take ?o (cache_bytes c1) @ bs @ drop (?o + length bs) (cache_bytes c1)\<rparr>"
  have l: "length (cache_bytes c1) = 256" using c1(2,6) by (simp add: page_cache_ok_def)
  have "codemem_cache_write a bs c = Some ?c'"
    unfolding codemem_cache_write_def Let_def using c1(1) ok(2) bs l by simp
  moreover have "page_cache_ok ?c'" using c1(2) bs l by (simp add: page_cache_ok_def)
  moreover have "same_codemem c ?c'" using c1(3) unfolding same_codemem_def by (cases c; cases c1; simp)
  moreover have "code_view ?c' = spm_write (unat a) bs (code_view c)"
    using spm_write_part [of ?o bs "cache_bytes c1" "unat ?s" "flash c1"] bs l c1(4-6) s(3) page_parts [of a]
    by (simp add: code_view_def)
  moreover have "flash_cache_addr ?c' \<noteq> 0" using c1(5) s(3) by simp
  ultimately show ?thesis by blast
qed

lemma same_codemem_page: "same_codemem c c' \<Longrightarrow> flash_cache_page c' = flash_cache_page c"
  unfolding same_codemem_def by (cases c; cases c'; simp)

lemma write_pages_law:
  assumes "page_cache_ok c" "flash_cache_page c \<noteq> NULL" "unat a mod 256 = 0" "256 \<le> unat a" "unat a + length bs \<le> 2 ^ 17"
  shows "\<exists>c'. write_pages a bs c = Some c' \<and> page_cache_ok c' \<and> same_codemem c c' \<and>
    code_view c' = spm_write (unat a) bs (code_view c) \<and> (bs \<noteq> [] \<longrightarrow> flash_cache_addr c' \<noteq> 0)"
  using assms
proof (induction a bs c rule: write_pages.induct)
  case (1 a bs c)
  have o: "page_offset a = 0" using 1(4) unfolding page_offset_def FLASHMEM_PAGE_SIZE_def by simp
  consider "256 < length bs" | "bs = []" | "length bs \<le> 256" "bs \<noteq> []" by linarith
  then show ?case
  proof cases
    case 1
    let ?a = "a + 256" let ?x = "take 256 bs" and ?y = "drop 256 bs"
    obtain c1 where c1: "codemem_cache_write a ?x c = Some c1" "page_cache_ok c1" "same_codemem c c1"
      "code_view c1 = spm_write (unat a) ?x (code_view c)"
      using cache_write_law [of c a ?x] "1.prems" 1 o by auto
    have u: "unat ?a = unat a + 256" using unat_plus_of_nat [of a 256] "1.prems"(5) 1 by simp
    have "\<exists>c'. write_pages ?a ?y c1 = Some c' \<and> page_cache_ok c' \<and> same_codemem c1 c' \<and>
        code_view c' = spm_write (unat ?a) ?y (code_view c1) \<and> (?y \<noteq> [] \<longrightarrow> flash_cache_addr c' \<noteq> 0)"
      using "1.IH" [of c1] "1.prems" 1 c1(1,2) same_codemem_page [OF c1(3)] u
      by (simp add: FLASHMEM_PAGE_SIZE_def)
    then obtain c' where c': "write_pages ?a ?y c1 = Some c'" "page_cache_ok c'" "same_codemem c1 c'"
        "code_view c' = spm_write (unat ?a) ?y (code_view c1)" "flash_cache_addr c' \<noteq> 0" using 1 by auto
    have "code_view c' = spm_write (unat a) bs (code_view c)"
      using c'(4) c1(4) u 1 spm_write_append [of "unat a" ?x ?y "code_view c"] by (simp add: min_def)
    then show ?thesis
      using c' c1(1) 1 same_codemem_trans [OF c1(3)] by (subst write_pages.simps) (simp add: FLASHMEM_PAGE_SIZE_def)
  next
    case 2
    then show ?thesis using "1.prems"(1) by (subst write_pages.simps) (simp add: same_codemem_def)
  next
    case 3
    then have "unat a < 2 ^ 17" using "1.prems"(5) by (cases bs) auto
    then show ?thesis using 3 cache_write_law [of c a bs] "1.prems" o
      by (subst write_pages.simps) (simp add: FLASHMEM_PAGE_SIZE_def)
  qed
qed

lemma write_bytes_law:
  assumes ok: "page_cache_ok c" "flash_cache_page c \<noteq> NULL" and a: "256 \<le> unat a" "unat a + length bs \<le> 2 ^ 17"
  shows "\<exists>c'. write_bytes a bs c = Some c' \<and> page_cache_ok c' \<and> same_codemem c c' \<and>
    code_view c' = spm_write (unat a) bs (code_view c) \<and> (bs \<noteq> [] \<longrightarrow> flash_cache_addr c' \<noteq> 0)"
proof -
  let ?r = "256 - unat a mod 256"
  have po: "page_offset a = unat a mod 256" by (simp add: page_offset_def FLASHMEM_PAGE_SIZE_def)
  have r: "0 < ?r" "?r \<le> 256" by auto
  show ?thesis
  proof (cases "?r < length bs")
    case True
    obtain c1 where c1: "codemem_cache_write a (take ?r bs) c = Some c1" "page_cache_ok c1" "same_codemem c c1"
      "code_view c1 = spm_write (unat a) (take ?r bs) (code_view c)"
      using cache_write_law [OF ok a(1), of "take ?r bs"] a True r po by auto
    have u: "unat (a + of_nat ?r) = unat a + ?r" by (rule unat_plus_of_nat) (use a True in auto)
    have "unat a + ?r = 256 * (unat a div 256) + 256" using mod_less_divisor [of 256 "unat a"] mult_div_mod_eq [of 256 "unat a"] by linarith
    then have m: "(unat a + ?r) mod 256 = 0" by simp
    obtain c' where c': "write_pages (a + of_nat ?r) (drop ?r bs) c1 = Some c'" "page_cache_ok c'" "same_codemem c1 c'"
      "code_view c' = spm_write (unat a + ?r) (drop ?r bs) (code_view c1)" "flash_cache_addr c' \<noteq> 0"
    proof -
      have "drop ?r bs \<noteq> []" using True by simp
      moreover have "256 \<le> unat a + ?r" "unat a + ?r + length (drop ?r bs) \<le> 2 ^ 17" using a True by auto
      moreover have "flash_cache_page c1 \<noteq> NULL" using same_codemem_page [OF c1(3)] ok(2) by simp
      ultimately show ?thesis
        using that write_pages_law [OF c1(2), of "a + of_nat ?r" "drop ?r bs"] m unfolding u by blast
    qed
    have "code_view c' = spm_write (unat a) bs (code_view c)"
      using c'(4) c1(4) True spm_write_append [of "unat a" "take ?r bs" "drop ?r bs" "code_view c"] by (simp add: min_def)
    then show ?thesis
      using c' c1(1) True same_codemem_trans [OF c1(3)] by (simp add: write_bytes_def Let_def FLASHMEM_PAGE_SIZE_def)
  next
    case False
    have n: "\<not> 256 < length bs" using False r by linarith
    have "write_bytes a bs c = (if bs \<noteq> [] then codemem_cache_write a bs c else Some c)"
      using False n by (simp add: write_bytes_def Let_def FLASHMEM_PAGE_SIZE_def write_pages.simps)
    moreover have "unat a < 2 ^ 17" if "bs \<noteq> []" using that a(2) by (cases bs) auto
    moreover have "page_offset a + length bs \<le> 256" using False po r by linarith
    ultimately show ?thesis using cache_write_law [OF ok a(1), of bs] ok by (cases "bs = []") (auto simp: same_codemem_def)
  qed
qed

section \<open>Reading\<close>

text \<open>
  A read is fresh if it starts in the cached page or does not reach it: a cached page behind the
  first one is not looked at.
\<close>

definition fresh_read :: "u32 \<Rightarrow> nat \<Rightarrow> codemem \<Rightarrow> bool" where
  "fresh_read a n c \<longleftrightarrow> flash_cache_addr c = 0 \<or> flash_cache_addr c \<le> a \<or> unat a + n \<le> unat (flash_cache_addr c)"

lemma code_view_outside:
  assumes "page_cache_ok c" "flash_cache_addr c = 0 \<or> p < unat (flash_cache_addr c) \<or> unat (flash_cache_addr c) + 256 \<le> p"
  shows "code_view c p = flash c p"
  using assms by (auto simp: code_view_def page_cache_ok_def spm_write_def)

lemma code_view_inside:
  assumes "page_cache_ok c" "flash_cache_addr c \<noteq> 0" "i < 256"
  shows "code_view c (unat (flash_cache_addr c) + i) = cache_bytes c ! i"
  using assms by (auto simp: code_view_def page_cache_ok_def spm_write_def)

lemma page_behind:
  assumes "unat s mod 256 = 0" "s \<le> a" "s \<noteq> page_start a"
  shows "unat s + 256 \<le> unat a"
proof -
  obtain q where q: "unat s = 256 * q" using assms(1) by (auto elim!: dvdE simp: mod_eq_0_iff_dvd)
  have "unat s \<le> unat a" "unat s \<noteq> 256 * (unat a div 256)"
    using assms(2,3) page_start_unat [of a] by (auto simp: word_le_nat_alt word_unat_eq_iff)
  then have "q < unat a div 256" using q by (metis div_le_mono le_neq_implies_less nonzero_mult_div_cancel_left zero_neq_numeral)
  then show ?thesis using q by (auto simp: less_eq_Suc_le)
qed

lemma cache_read_law:
  assumes ok: "page_cache_ok c" and a: "256 \<le> unat a" "unat a + n \<le> 2 ^ 17" and fr: "fresh_read a n c"
  shows "codemem_cache_read a n c = Some (map (\<lambda>i. code_view c (unat a + i)) [0..<n])"
proof (cases "flash_cache_addr c = page_start a")
  case True
  let ?s = "page_start a" and ?o = "page_offset a"
  have s0: "?s \<noteq> 0" using a(1) page_start_unat [of a] by (auto simp: unat_eq_zero [symmetric] simp del: unat_eq_zero)
  have pg: "flash_cache_page c \<noteq> NULL" "length (cache_bytes c) = 256" using ok True s0 by (auto simp: page_cache_ok_def)
  have o: "?o < 256" by (rule page_offset_less)
  let ?m = "min (256 - ?o) n"
  have u: "unat (a + of_nat ?m) = unat a + ?m" by (rule unat_plus_of_nat) (use a in auto)
  have r: "flash_read (a + of_nat ?m) (n - ?m) (flash c) = map (\<lambda>i. flash c (unat a + ?m + i)) [0..<n - ?m]"
    using flash_read_nth [of "a + of_nat ?m" "n - ?m" "flash c"] a u by simp
  have x: "take ?m (drop ?o (cache_bytes c)) ! i = code_view c (unat a + i)" if "i < ?m" for i
    using code_view_inside [OF ok, of "?o + i"] that True s0 o pg(2) page_parts [of a] by (auto simp: add.assoc)
  have y: "flash c (unat a + j) = code_view c (unat a + j)" if "256 - ?o \<le> j" for j
  proof -
    have "unat (flash_cache_addr c) + 256 \<le> unat a + j" using that o page_parts [of a] unfolding True by linarith
    then show ?thesis using code_view_outside [OF ok] by simp
  qed
  have "take ?m (drop ?o (cache_bytes c)) @ map (\<lambda>i. flash c (unat a + ?m + i)) [0..<n - ?m] = map (\<lambda>i. code_view c (unat a + i)) [0..<n]"
    (is "?l = ?r")
  proof (rule nth_equalityI)
    show "length ?l = length ?r" using pg(2) o by simp
    fix i
    assume "i < length ?l"
    then have i: "i < n" using pg(2) o by (simp add: min_def split: if_splits)
    show "?l ! i = ?r ! i"
    proof (cases "i < ?m")
      case True
      then show ?thesis using x [OF True] pg(2) i by (simp add: nth_append)
    next
      case False
      then have "?m = 256 - ?o" using i by (simp add: min_def split: if_splits)
      then show ?thesis using y [of i] False i pg(2) by (simp add: nth_append min_def)
    qed
  qed
  moreover have "\<not> 256 < ?o + ?m" using o by linarith
  ultimately show ?thesis using True pg r by (simp add: codemem_cache_read_def Let_def FLASHMEM_PAGE_SIZE_def)
next
  case False
  have "flash c (unat a + i) = code_view c (unat a + i)" if "i < n" for i
  proof -
    have "flash_cache_addr c = 0 \<or> unat a + i < unat (flash_cache_addr c) \<or> unat (flash_cache_addr c) + 256 \<le> unat a + i"
      using fr that page_behind [of "flash_cache_addr c" a] ok False by (auto simp: fresh_read_def page_cache_ok_def)
    then show ?thesis using code_view_outside [OF ok] by simp
  qed
  then show ?thesis using False a flash_read_nth [of a n "flash c"] by (simp add: codemem_cache_read_def Let_def)
qed

text \<open>A read that runs into the cached page returns the old bytes of the flash instead.\<close>

lemma stale_read_law:
  assumes "page_cache_ok c" "256 \<le> unat a" "unat a + n \<le> 2 ^ 17" "page_start a < flash_cache_addr c"
  shows "codemem_cache_read a n c = Some (map (\<lambda>i. flash c (unat a + i)) [0..<n])"
  using assms flash_read_nth [of a n "flash c"] by (auto simp: codemem_cache_read_def Let_def)

section \<open>The map of pages\<close>

definition page_bit :: "u8 list \<Rightarrow> nat \<Rightarrow> bool" where
  "page_bit bm p = bit (bm ! (p div 8)) (p mod 8)"

definition used_pages :: "codemem \<Rightarrow> nat set" where
  "used_pages c = {p. p < 8 * length (flash_alloc_bitmap c) \<and> page_bit (flash_alloc_bitmap c) p}"

lemma set_run_law:
  assumes "j \<le> 8"
  shows "\<exists>v'. set_run val j len v = (v', len - min len (8 - j)) \<and>
    (\<forall>i < 8. bit v' i = (if j \<le> i \<and> i < j + len then val else bit v i))"
  using assms
proof (induction val j len v rule: set_run.induct)
  case (1 val j len v)
  show ?case
  proof (cases "j < 8 \<and> 0 < len")
    case False
    then show ?thesis using 1(2) by (subst set_run.simps) auto
  next
    case True
    let ?v = "if val then v OR push_bit j 1 else v AND NOT (push_bit j 1)"
    obtain v' where v': "set_run val (j + 1) (len - 1) ?v = (v', len - 1 - min (len - 1) (8 - (j + 1)))"
      "\<forall>i < 8. bit v' i = (if j + 1 \<le> i \<and> i < j + 1 + (len - 1) then val else bit ?v i)"
      using 1(1) True by fastforce
    have "bit ?v i = (if i = j then val else bit v i)" if "i < 8" for i
      using that by (auto simp: bit_simps)
    then have "\<forall>i < 8. bit v' i = (if j \<le> i \<and> i < j + len then val else bit v i)" using v'(2) True by auto
    moreover have "len - 1 - min (len - 1) (8 - (j + 1)) = len - min len (8 - j)" using True by linarith
    ultimately show ?thesis using v'(1) True by (subst set_run.simps) simp
  qed
qed

lemma page_bit_update:
  assumes "i < length bm"
  shows "page_bit (bm[i := v]) p = (if p div 8 = i then bit v (p mod 8) else page_bit bm p)"
  using assms by (auto simp: page_bit_def)

lemma set_byte_law:
  assumes i: "i < length bm" and j: "j < 8"
  shows "\<exists>v. set_run val j len (bm ! i) = (v, len - min len (8 - j)) \<and>
    (\<forall>p. page_bit (bm[i := v]) p = (if 8 * i + j \<le> p \<and> p < 8 * i + j + min len (8 - j) then val else page_bit bm p))"
proof -
  obtain v where v: "set_run val j len (bm ! i) = (v, len - min len (8 - j))"
    "\<forall>k < 8. bit v k = (if j \<le> k \<and> k < j + len then val else bit (bm ! i) k)"
    using set_run_law [of j val len "bm ! i"] j by auto
  have "page_bit (bm[i := v]) p = (if 8 * i + j \<le> p \<and> p < 8 * i + j + min len (8 - j) then val else page_bit bm p)" for p
  proof (cases "p div 8 = i")
    case True
    have p: "p = 8 * i + p mod 8" using mult_div_mod_eq [of 8 p] True by simp
    have "p mod 8 < 8" by simp
    then have "bit v (p mod 8) = (if j \<le> p mod 8 \<and> p mod 8 < j + len then val else bit (bm ! i) (p mod 8))" using v(2) by blast
    moreover have "(j \<le> p mod 8 \<and> p mod 8 < j + len) = (8 * i + j \<le> p \<and> p < 8 * i + j + min len (8 - j))"
      using p \<open>p mod 8 < 8\<close> by linarith
    ultimately show ?thesis unfolding page_bit_update [OF i] using True by (simp add: page_bit_def)
  next
    case False
    then have "\<not> (8 * i + j \<le> p \<and> p < 8 * i + j + min len (8 - j))" using j by auto
    then show ?thesis unfolding page_bit_update [OF i] if_not_P [OF False] by (rule if_not_P [symmetric])
  qed
  with v(1) show ?thesis by blast
qed

lemma set_bytes_law:
  assumes "length bm = n" "8 * i + len \<le> 8 * n"
  shows "\<exists>bm'. set_bytes val n i len bm = Some bm' \<and> length bm' = n \<and>
    (\<forall>p. page_bit bm' p = (if 8 * i \<le> p \<and> p < 8 * i + len then val else page_bit bm p))"
  using assms
proof (induction val n i len bm rule: set_bytes.induct)
  case (1 val n i len bm)
  show ?case
  proof (cases "i < n \<and> 0 < len")
    case False
    then have "len = 0" using 1(3) by auto
    then show ?thesis using 1(2) by (subst set_bytes.simps) auto
  next
    case True
    then have i: "i < n" "0 < len" "i < length bm" using 1(2) by auto
    obtain v where v: "set_run val 0 len (bm ! i) = (v, len - min len 8)"
      "\<forall>p. page_bit (bm[i := v]) p = (if 8 * i \<le> p \<and> p < 8 * i + min len 8 then val else page_bit bm p)"
      using set_byte_law [OF i(3), of 0 val len] by auto
    have "8 * (i + 1) + (len - min len 8) \<le> 8 * n" using 1(3) i(1) by (cases "len \<le> 8") auto
    then obtain bm' where b: "set_bytes val n (i + 1) (len - min len 8) (bm[i := v]) = Some bm'" "length bm' = n"
      "\<forall>p. page_bit bm' p = (if 8 * (i + 1) \<le> p \<and> p < 8 * (i + 1) + (len - min len 8) then val else page_bit (bm[i := v]) p)"
      using 1(1) [OF True i(3) refl v(1) [symmetric]] 1(2) by (simp only: length_list_update) blast
    have "page_bit bm' p = (if 8 * i \<le> p \<and> p < 8 * i + len then val else page_bit bm p)" for p
      unfolding b(3) [rule_format] v(2) [rule_format] by (cases "len \<le> 8") auto
    then show ?thesis using i v(1) b(1,2) by (subst set_bytes.simps) simp
  qed
qed

lemma setbitmap_law:
  assumes n: "length (flash_alloc_bitmap c) = unat (flash_bitmap_length c)" "p + len \<le> 8 * length (flash_alloc_bitmap c)" "0 < len"
  shows "\<exists>bm. flash_setbitmap (of_nat p) len val c = Some (c\<lparr>flash_alloc_bitmap := bm\<rparr>) \<and> length bm = length (flash_alloc_bitmap c) \<and>
    (\<forall>q. page_bit bm q = (if p \<le> q \<and> q < p + len then val else page_bit (flash_alloc_bitmap c) q))"
proof -
  let ?bm = "flash_alloc_bitmap c"
  define i j where "i = p div 8" and "j = p mod 8"
  have e: "p = 8 * i + j" "j < 8" by (simp_all add: i_def j_def)
  have "unat (flash_bitmap_length c) < 256" by (rule unat8_less)
  then have l: "length ?bm < 256" using n by simp
  then have p: "p < 2048" using n by auto
  then have u: "unat (ucast (of_nat p div 8 :: u16) :: u8) = i" "unat (of_nat p mod 8 :: u16) = j"
    by (simp_all add: i_def j_def unsigned_ucast_eq unat_div unat_mod unat_of_nat take_bit_eq_mod)
  have il: "i < length ?bm" using n e by linarith
  obtain v where v: "set_run val j len (?bm ! i) = (v, len - min len (8 - j))"
    "\<forall>q. page_bit (?bm[i := v]) q = (if 8 * i + j \<le> q \<and> q < 8 * i + j + min len (8 - j) then val else page_bit ?bm q)"
    using set_byte_law [OF il e(2), of val len] by blast
  have "8 * (i + 1) + (len - min len (8 - j)) \<le> 8 * length ?bm"
  proof (cases "len \<le> 8 - j")
    case True
    then show ?thesis using il by (simp add: less_eq_Suc_le)
  next
    case False
    then show ?thesis using n(2) e by simp
  qed
  from set_bytes_law [OF length_list_update this, of val i v] obtain bm where bm:
    "set_bytes val (length ?bm) (i + 1) (len - min len (8 - j)) (?bm[i := v]) = Some bm" "length bm = length ?bm"
    "\<forall>q. page_bit bm q = (if 8 * (i + 1) \<le> q \<and> q < 8 * (i + 1) + (len - min len (8 - j)) then val else page_bit (?bm[i := v]) q)"
    by blast
  have "page_bit bm q = (if p \<le> q \<and> q < p + len then val else page_bit ?bm q)" for q
    unfolding bm(3) [rule_format] v(2) [rule_format] e(1) using e(2) by (cases "len \<le> 8 - j") auto
  moreover have "flash_setbitmap (of_nat p) len val c = Some (c\<lparr>flash_alloc_bitmap := bm\<rparr>)"
    using bm(1) v(1) u il n l by (simp add: flash_setbitmap_def Let_def)
  ultimately show ?thesis using bm(2) by blast
qed

text \<open>The first run of free pages.\<close>

definition free_run :: "u8 list \<Rightarrow> nat \<Rightarrow> nat \<Rightarrow> bool" where
  "free_run bm n p \<longleftrightarrow> p + n \<le> 8 * length bm \<and> (\<forall>q \<in> {p..<p + n}. \<not> page_bit bm q)"

lemma page_test [simp]: "(bm ! (p div 8) AND 2 ^ (p mod 8) = 0) = (\<not> page_bit bm p)" for bm :: "u8 list"
  by (simp add: page_bit_def and_exp_eq_0_iff_not_bit)

lemma find_pages_law:
  assumes "0 < nb" "unat fb < unat nb" "unat fb \<le> p" "p \<le> 8 * length bm" "\<forall>q \<in> {p - unat fb..<p}. \<not> page_bit bm q"
    "\<forall>q < p - unat fb. \<not> free_run bm (unat nb) q"
  shows "case find_pages bm (length bm) nb fb p of
      Some q \<Rightarrow> free_run bm (unat nb) q \<and> (\<forall>r < q. \<not> free_run bm (unat nb) r)
    | None \<Rightarrow> \<forall>q. \<not> free_run bm (unat nb) q"
  using assms
proof (induction bm "length bm" nb fb p rule: find_pages.induct)
  case (1 bm nb fb p)
  have nz: "nb \<noteq> 0" "0 < unat nb" using 1(2) by (auto simp: word_gt_0 unat_gt_0)
  show ?case
  proof (cases "p < 8 * length bm")
    case False
    have "\<not> free_run bm (unat nb) q" for q
    proof
      assume r: "free_run bm (unat nb) q"
      then have "q + unat nb \<le> p" using 1(5) False by (simp add: free_run_def)
      then have "q < p - unat fb" using 1(3) by linarith
      with r 1(7) show False by blast
    qed
    then show ?thesis using False by (subst find_pages.simps) simp
  next
    case True
    show ?thesis
    proof (cases "page_bit bm p")
      case used: True
      have "\<not> free_run bm (unat nb) q" if "q < p + 1" for q
      proof (cases "q < p - unat fb")
        case False
        then have "p \<in> {q..<q + unat nb}" using that 1(3,4) by auto
        then show ?thesis using used by (auto simp: free_run_def)
      qed (use 1(7) in blast)
      then have "case find_pages bm (length bm) nb 0 (p + 1) of
          Some q \<Rightarrow> free_run bm (unat nb) q \<and> (\<forall>r < q. \<not> free_run bm (unat nb) r)
        | None \<Rightarrow> \<forall>q. \<not> free_run bm (unat nb) q"
        using 1(1) [of 0] True used 1(2) nz by simp
      then show ?thesis using True used nz by (subst find_pages.simps) (simp add: Let_def)
    next
      case free: False
      have u: "unat (fb + 1) = unat fb + 1"
        using 1(3) unat8_less [of nb] by (simp add: unat_word_ariths)
      have run: "\<forall>q \<in> {p - unat fb..<p + 1}. \<not> page_bit bm q" using 1(6) free by (auto simp: less_Suc_eq)
      show ?thesis
      proof (cases "fb + 1 = nb")
        case eq: True
        then have n: "unat nb = unat fb + 1" using u by simp
        have "free_run bm (unat nb) (p - unat fb)" using run True 1(4) n by (simp add: free_run_def)
        then show ?thesis using True free eq n 1(7) by (subst find_pages.simps) (simp add: Let_def)
      next
        case ne: False
        then have "unat (fb + 1) < unat nb" using u 1(3) by (metis Suc_eq_plus1 Suc_leI le_neq_implies_less word_unat_eq_iff)
        then have "case find_pages bm (length bm) nb (fb + 1) (p + 1) of
            Some q \<Rightarrow> free_run bm (unat nb) q \<and> (\<forall>r < q. \<not> free_run bm (unat nb) r)
          | None \<Rightarrow> \<forall>q. \<not> free_run bm (unat nb) q"
          using 1(1) [of "fb + 1"] True free ne run 1(2,4,7) u by (simp add: Let_def)
        then show ?thesis using True free ne by (subst find_pages.simps) (simp add: Let_def)
      qed
    qed
  qed
qed

definition bitmap_ok :: "codemem \<Rightarrow> bool" where
  "bitmap_ok c \<longleftrightarrow> length (flash_alloc_bitmap c) = unat (flash_bitmap_length c)"

lemma pages_of_size:
  assumes "unat sz \<le> 65280"
  shows "unat (pages_of sz) = (unat sz + 255) div 256"
proof -
  have "unat (sz + 255) = unat sz + 255" using assms by (simp add: unat_word_ariths)
  moreover have "(unat sz + 255) div 256 < 256" using assms by linarith
  ultimately show ?thesis
    by (simp add: pages_of_def FLASHMEM_PAGE_SIZE_def unsigned_ucast_eq unat_div take_bit_nat_eq_self_iff)
qed

lemma used_pages_update:
  assumes "length bm = length (flash_alloc_bitmap c)" "p + n \<le> 8 * length (flash_alloc_bitmap c)"
    "\<forall>q. page_bit bm q = (if p \<le> q \<and> q < p + n then val else page_bit (flash_alloc_bitmap c) q)"
  shows "used_pages (c\<lparr>flash_alloc_bitmap := bm\<rparr>) = (if val then used_pages c \<union> {p..<p + n} else used_pages c - {p..<p + n})"
  using assms by (auto simp: used_pages_def)

lemma alloc_pages_law:
  assumes ok: "bitmap_ok c" and sz: "0 < unat sz" "unat sz \<le> 65280"
  shows "(alloc_pages sz c = Some (c, 0) \<and> (\<forall>p. \<not> free_run (flash_alloc_bitmap c) (unat (pages_of sz)) p)) \<or>
    (\<exists>p bm. free_run (flash_alloc_bitmap c) (unat (pages_of sz)) p \<and> (\<forall>r < p. \<not> free_run (flash_alloc_bitmap c) (unat (pages_of sz)) r) \<and>
      alloc_pages sz c = (if p < 128 then Some (c\<lparr>flash_alloc_bitmap := bm\<rparr>, flash_start_page_addr c + of_nat (256 * p)) else None) \<and>
      length bm = length (flash_alloc_bitmap c) \<and>
      used_pages (c\<lparr>flash_alloc_bitmap := bm\<rparr>) = used_pages c \<union> {p..<p + unat (pages_of sz)} \<and>
      used_pages c \<inter> {p..<p + unat (pages_of sz)} = {})"
proof -
  let ?n = "unat (pages_of sz)" and ?bm = "flash_alloc_bitmap c"
  have n: "0 < ?n" using pages_of_size [OF sz(2)] sz(1) by auto
  have l: "length ?bm = unat (flash_bitmap_length c)" using ok by (simp add: bitmap_ok_def)
  have f: "case find_pages ?bm (length ?bm) (pages_of sz) 0 0 of
      Some q \<Rightarrow> free_run ?bm ?n q \<and> (\<forall>r < q. \<not> free_run ?bm ?n r) | None \<Rightarrow> \<forall>q. \<not> free_run ?bm ?n q"
    by (rule find_pages_law) (use n in \<open>auto simp: word_gt_0 unat_gt_0\<close>)
  show ?thesis
  proof (cases "find_pages ?bm (length ?bm) (pages_of sz) 0 0")
    case None
    then show ?thesis using f l by (simp add: alloc_pages_def)
  next
    case (Some p)
    then have p: "free_run ?bm ?n p" "\<forall>r < p. \<not> free_run ?bm ?n r" using f by auto
    have pn: "p + ?n \<le> 8 * length ?bm" using p(1) by (simp add: free_run_def)
    obtain bm where bm: "flash_setbitmap (of_nat p) ?n True c = Some (c\<lparr>flash_alloc_bitmap := bm\<rparr>)" "length bm = length ?bm"
      "\<forall>q. page_bit bm q = (if p \<le> q \<and> q < p + ?n then True else page_bit ?bm q)"
      using setbitmap_law [OF l pn n, of True] by blast
    have "alloc_pages sz c = (if p < 128 then Some (c\<lparr>flash_alloc_bitmap := bm\<rparr>, flash_start_page_addr c + of_nat (256 * p)) else None)"
      using Some l bm(1) by (simp add: alloc_pages_def FLASHMEM_PAGE_SIZE_def mult.commute)
    moreover have "used_pages (c\<lparr>flash_alloc_bitmap := bm\<rparr>) = used_pages c \<union> {p..<p + ?n}"
      using used_pages_update [OF bm(2) pn bm(3)] by simp
    moreover have "used_pages c \<inter> {p..<p + ?n} = {}" using p(1) by (auto simp: used_pages_def free_run_def)
    ultimately show ?thesis using p bm(2) by blast
  qed
qed

lemma flash_free_law:
  assumes ok: "bitmap_ok c" and sz: "0 < unat sz" "unat sz \<le> 65280" and p: "p + unat (pages_of sz) \<le> 8 * length (flash_alloc_bitmap c)"
  shows "\<exists>bm. flash_free (flash_start_page_addr c + of_nat (256 * p)) sz c = Some (c\<lparr>flash_alloc_bitmap := bm\<rparr>) \<and>
    length bm = length (flash_alloc_bitmap c) \<and>
    used_pages (c\<lparr>flash_alloc_bitmap := bm\<rparr>) = used_pages c - {p..<p + unat (pages_of sz)}"
proof -
  let ?n = "unat (pages_of sz)" and ?bm = "flash_alloc_bitmap c"
  have n: "0 < ?n" using pages_of_size [OF sz(2)] sz(1) by auto
  have l: "length ?bm = unat (flash_bitmap_length c)" using ok by (simp add: bitmap_ok_def)
  have "8 * length ?bm < 2048" using l unat8_less [of "flash_bitmap_length c"] by simp
  then have pl: "p < 2048" using p by linarith
  then have "ucast (of_nat (256 * p) div 256 :: u32) = (of_nat p :: u16)"
    by (simp add: word_unat_eq_iff unsigned_ucast_eq unat_div unat_of_nat unat_word_ariths take_bit_eq_mod)
  moreover obtain bm where bm: "flash_setbitmap (of_nat p) ?n False c = Some (c\<lparr>flash_alloc_bitmap := bm\<rparr>)" "length bm = length ?bm"
      "\<forall>q. page_bit bm q = (if p \<le> q \<and> q < p + ?n then False else page_bit ?bm q)"
    using setbitmap_law [OF l p n, of False] by blast
  ultimately have "flash_free (flash_start_page_addr c + of_nat (256 * p)) sz c = Some (c\<lparr>flash_alloc_bitmap := bm\<rparr>)"
    by (simp add: flash_free_def FLASHMEM_PAGE_SIZE_def flash_erase_def)
  with bm(2) used_pages_update [OF bm(2) p bm(3)] show ?thesis by auto
qed

end
