(* ===== verification/Codemem_Correct.thy ===== *)
theory Codemem_Correct
  imports Flash_Correct Codemem Uart_Correct
begin

text \<open>
  The sections of program memory: every live handle has a descriptor of its own in the heap and pages of its own in the flash,
  allocation keeps this, and a write through a handle changes the bytes of its section only. After a flush
  the flash holds what was written.
\<close>

section \<open>Invariant\<close>

definition live_hdrs :: "codemem \<Rightarrow> addr set" where
  "live_hdrs c = set (codemem_handle_list c) - {NULL}"

definition first_page :: "codemem \<Rightarrow> addr \<Rightarrow> nat" where
  "first_page c p = (unat (cm_start_addr (codemem_hdrs c p)) - unat (flash_start_page_addr c)) div 256"

definition section_pages :: "codemem \<Rightarrow> addr \<Rightarrow> nat set" where
  "section_pages c p = {first_page c p..<first_page c p + unat (pages_of (cm_size (codemem_hdrs c p)))}"

definition hdr_ok :: "codemem \<Rightarrow> addr \<Rightarrow> bool" where
  "hdr_ok c p \<longleftrightarrow> 0 < unat (cm_size (codemem_hdrs c p)) \<and> unat (cm_size (codemem_hdrs c p)) \<le> 65280 \<and>
     cm_start_addr (codemem_hdrs c p) = flash_start_page_addr c + of_nat (256 * first_page c p) \<and>
     section_pages c p \<subseteq> used_pages c"

definition flash_ok :: "codemem \<Rightarrow> bool" where
  "flash_ok c \<longleftrightarrow> page_cache_ok c \<and> bitmap_ok c \<and> unat (flash_start_page_addr c) mod 256 = 0 \<and> 256 \<le> unat (flash_start_page_addr c) \<and>
     unat (flash_start_page_addr c) + 2048 * length (flash_alloc_bitmap c) \<le> 2 ^ 17"

definition owned :: "heap \<Rightarrow> addr \<Rightarrow> bool" where
  "owned h p \<longleftrightarrow> (\<exists>n. (p, n, KER_CODEMEM_PID) \<in> chunks h)"

definition code_inv :: "heap \<Rightarrow> codemem \<Rightarrow> bool" where
  "code_inv h c \<longleftrightarrow> heap_ok h \<and> flash_ok c \<and> length (codemem_handle_list c) = CODEMEM_MAX_LOADABLE_MODULES \<and>
     (flash_cache_page c \<noteq> NULL \<longrightarrow> owned h (flash_cache_page c) \<and> flash_cache_page c \<notin> live_hdrs c) \<and>
     (\<forall>p \<in> live_hdrs c. owned h p \<and> hdr_ok c p) \<and>
     (\<forall>i < CODEMEM_MAX_LOADABLE_MODULES. \<forall>j < CODEMEM_MAX_LOADABLE_MODULES.
        codemem_handle_list c ! i = codemem_handle_list c ! j \<and> codemem_handle_list c ! i \<noteq> NULL \<longrightarrow> i = j) \<and>
     (\<forall>p \<in> live_hdrs c. \<forall>q \<in> live_hdrs c. p \<noteq> q \<longrightarrow> section_pages c p \<inter> section_pages c q = {})"

lemma cm_frames [simp]:
  "cm (set_heap h k) = cm k" "heap_of (k\<lparr>cm := c\<rparr>) = heap_of k" "heap_of (set_heap h k) = h" "bytes_of (set_heap h k) = bytes_of k"
  "set_heap h (k\<lparr>cm := c\<rparr>) = (set_heap h k)\<lparr>cm := c\<rparr>"
  by (simp_all add: set_heap_def heap_of_def)

text \<open>What a change of the cache keeps.\<close>

lemma same_codemem_fields:
  assumes "same_codemem c c'"
  shows "flash_alloc_bitmap c' = flash_alloc_bitmap c" "flash_bitmap_length c' = flash_bitmap_length c"
    "flash_start_page_addr c' = flash_start_page_addr c" "codemem_handle_list c' = codemem_handle_list c"
    "codemem_hdrs c' = codemem_hdrs c" "flash_cache_page c' = flash_cache_page c" "codemem_salt c' = codemem_salt c"
    "compiled_modules c' = compiled_modules c" "compiled_header_ptr c' = compiled_header_ptr c"
  using assms unfolding same_codemem_def by (cases c; cases c'; simp)+

lemma code_inv_frame:
  assumes "code_inv h c" "heap_ok h'" "\<forall>q. owned h q \<longrightarrow> owned h' q" "page_cache_ok c'" "flash_alloc_bitmap c' = flash_alloc_bitmap c"
    "flash_bitmap_length c' = flash_bitmap_length c" "flash_start_page_addr c' = flash_start_page_addr c"
    "codemem_handle_list c' = codemem_handle_list c" "\<forall>q \<in> live_hdrs c. codemem_hdrs c' q = codemem_hdrs c q"
    "flash_cache_page c' = flash_cache_page c \<or> owned h' (flash_cache_page c') \<and> flash_cache_page c' \<notin> live_hdrs c"
  shows "code_inv h' c'"
proof -
  have u: "used_pages c' = used_pages c" "live_hdrs c' = live_hdrs c" using assms(5,8) by (simp_all add: used_pages_def live_hdrs_def)
  have s: "section_pages c' q = section_pages c q" "hdr_ok c' q = hdr_ok c q" if "q \<in> live_hdrs c" for q
    using assms(7,9) that u(1) by (simp_all add: first_page_def section_pages_def hdr_ok_def)
  have "flash_ok c'" using assms(1,4-7) by (simp add: code_inv_def flash_ok_def bitmap_ok_def)
  then show ?thesis using assms(1-3,8,10) u(2) s unfolding code_inv_def by auto
qed

section \<open>Writing\<close>

lemma section_end:
  assumes "code_inv h c" "p \<in> live_hdrs c"
  shows "unat (cm_start_addr (codemem_hdrs c p)) = unat (flash_start_page_addr c) + 256 * first_page c p"
    "first_page c p + unat (pages_of (cm_size (codemem_hdrs c p))) \<le> 8 * length (flash_alloc_bitmap c)"
    "unat (cm_start_addr (codemem_hdrs c p)) + unat (cm_size (codemem_hdrs c p)) \<le> 2 ^ 17"
proof -
  let ?x = "codemem_hdrs c p" let ?n = "unat (pages_of (cm_size ?x))"
  have f: "flash_ok c" and x: "hdr_ok c p" using assms by (simp_all add: code_inv_def)
  have n: "?n = (unat (cm_size ?x) + 255) div 256" "0 < ?n" using x pages_of_size [of "cm_size ?x"] by (auto simp: hdr_ok_def)
  have "first_page c p + (?n - 1) \<in> section_pages c p" using n(2) by (simp add: section_pages_def)
  then have "first_page c p + (?n - 1) \<in> used_pages c" using x by (auto simp: hdr_ok_def)
  then show e: "first_page c p + ?n \<le> 8 * length (flash_alloc_bitmap c)" using n(2) unfolding used_pages_def by auto
  then have b: "unat (flash_start_page_addr c) + 256 * first_page c p + 256 * ?n \<le> 2 ^ 17" using f by (simp add: flash_ok_def)
  then have "unat (flash_start_page_addr c + of_nat (256 * first_page c p)) = unat (flash_start_page_addr c) + 256 * first_page c p"
    by (intro unat_plus_of_nat) simp
  then show a: "unat (cm_start_addr ?x) = unat (flash_start_page_addr c) + 256 * first_page c p" using x by (simp add: hdr_ok_def)
  have "unat (cm_size ?x) \<le> 256 * ?n" using n(1) by linarith
  then show "unat (cm_start_addr ?x) + unat (cm_size ?x) \<le> 2 ^ 17" using a b by linarith
qed

lemma handle_live:
  assumes "check_codemem_t h c = Some True"
  shows "codemem_handle_list c ! unat (h AND 0x00ff) \<in> live_hdrs c" "unat (h AND 0x00ff) < length (codemem_handle_list c)"
  using assms by (auto simp: check_codemem_t_def Let_def live_hdrs_def split: if_splits)

lemma write_law:
  assumes inv: "code_inv (heap_of k) (cm k)" and pg: "flash_cache_page (cm k) \<noteq> NULL" and h: "check_codemem_t h (cm k) = Some True"
    and sz: "unat offset + length bs \<le> unat (cm_size (handle_hdr h (cm k)))"
  shows "\<exists>c. ker_codemem_write h pid bs offset k = Some (k\<lparr>cm := c\<rparr>, SOS_OK) \<and> code_inv (heap_of k) c \<and> same_codemem (cm k) c \<and>
    code_view c = spm_write (unat (cm_start_addr (handle_hdr h (cm k))) + unat offset) bs (code_view (cm k)) \<and>
    (bs \<noteq> [] \<longrightarrow> flash_cache_addr c \<noteq> 0)"
proof -
  let ?x = "handle_hdr h (cm k)" and ?c = "cm k"
  let ?a = "cm_start_addr ?x + ucast offset"
  note l = section_end [OF inv handle_live(1) [OF h], folded handle_hdr_def]
  have f: "flash_ok ?c" using inv by (simp add: code_inv_def)
  have o: "(ucast offset :: u32) = of_nat (unat offset)" by (simp add: word_unat_eq_iff unsigned_ucast_eq unat_of_nat take_bit_eq_mod)
  have u: "unat ?a = unat (cm_start_addr ?x) + unat offset" unfolding o by (rule unat_plus_of_nat) (use l(3) sz in simp)
  have a: "256 \<le> unat ?a" "unat ?a + length bs \<le> 2 ^ 17" using u l(1,3) f sz by (simp_all add: flash_ok_def)
  obtain c where c: "write_bytes ?a bs ?c = Some c" "page_cache_ok c" "same_codemem ?c c" "code_view c = spm_write (unat ?a) bs (code_view ?c)"
    "bs \<noteq> [] \<longrightarrow> flash_cache_addr c \<noteq> 0"
    using write_bytes_law [OF _ pg a] f by (auto simp: flash_ok_def)
  have "code_inv (heap_of k) c" by (rule code_inv_frame [OF inv _ _ c(2)]) (use inv in \<open>simp_all add: same_codemem_fields [OF c(3)] code_inv_def\<close>)
  moreover have "ker_codemem_write h pid bs offset k = Some (k\<lparr>cm := c\<rparr>, SOS_OK)"
    using h pg c(1) by (simp add: ker_codemem_write_def ker_codemem_direct_write_def codemem_cache_alloc_def)
  ultimately show ?thesis using c(3-5) u by auto
qed

section \<open>Flushing\<close>

lemma owned_remove:
  assumes "owned h q" "chunks h' = chunks h - {(p, n, x)}" "q \<noteq> p"
  shows "owned h' q"
  using assms by (auto simp: owned_def)

lemma flush_law:
  assumes inv: "code_inv (heap_of k) (cm k)" and pg: "flash_cache_page (cm k) \<noteq> NULL" "flash_cache_addr (cm k) \<noteq> 0"
  shows "\<exists>h. ker_codemem_flush d pid k = Some ((set_heap h k)\<lparr>cm := (cm k)\<lparr>flash := code_view (cm k), flash_cache_page := NULL, flash_cache_addr := 0\<rparr>\<rparr>, SOS_OK) \<and>
    code_inv h ((cm k)\<lparr>flash := code_view (cm k), flash_cache_page := NULL, flash_cache_addr := 0\<rparr>)"
proof -
  let ?c = "(cm k)\<lparr>flash := code_view (cm k), flash_cache_page := NULL, flash_cache_addr := 0\<rparr>" and ?p = "flash_cache_page (cm k)"
  have ok: "page_cache_ok (cm k)" "heap_ok (heap_of k)" using inv by (simp_all add: code_inv_def flash_ok_def)
  obtain n where n: "(?p, n, KER_CODEMEM_PID) \<in> chunks (heap_of k)" using inv pg(1) by (auto simp: code_inv_def owned_def)
  obtain h where h: "ker_free ?p (heap_of k) = Some h" "heap_ok h" "chunks h = chunks (heap_of k) - {(?p, n, KER_CODEMEM_PID)}"
    using free_chunk [OF ok(2) n] by blast
  have "ker_codemem_flush d pid k = Some ((set_heap h k)\<lparr>cm := ?c\<rparr>, SOS_OK)"
    using cache_store_law [OF ok(1) pg] pg(1) h(1) by (simp add: ker_codemem_flush_def codemem_cache_flush_def k_free_def)
  moreover have "code_inv h ?c"
  proof -
    have u: "used_pages ?c = used_pages (cm k)" "live_hdrs ?c = live_hdrs (cm k)" by (simp_all add: used_pages_def live_hdrs_def)
    have s: "first_page ?c = first_page (cm k)" "section_pages ?c = section_pages (cm k)"
      by (simp_all add: fun_eq_iff first_page_def section_pages_def)
    then have "hdr_ok ?c = hdr_ok (cm k)" using u(1) by (simp add: fun_eq_iff hdr_ok_def)
    moreover have "owned h q" if "q \<in> live_hdrs (cm k)" for q
      using owned_remove [OF _ h(3), of q] inv that pg(1) by (auto simp: code_inv_def)
    ultimately show ?thesis using inv h(2) u s by (simp add: code_inv_def flash_ok_def bitmap_ok_def page_cache_ok_def)
  qed
  ultimately show ?thesis by blast
qed

section \<open>Allocation\<close>

context mem_provider
begin

lemma alloc_owner:
  assumes "ok h" "alloc sz pid h = Some (h', p)" "unat sz \<le> 65524"
  shows "ok h' \<and> chk h \<subseteq> chk h' \<and> (p \<noteq> NULL \<longrightarrow> (\<exists>n. (p, n, pid) \<in> chk h') \<and> (\<forall>n x. (p, n, x) \<notin> chk h))"
proof (cases "p = NULL")
  case True
  then show ?thesis using alloc_law [OF assms(1,3), of pid] assms(2) by auto
next
  case False
  obtain n where n: "(p, n, pid) \<in> chk h'" "chk h \<subseteq> chk h'" "\<forall>(r, m, y) \<in> chk h. p + n < r \<or> r + m < p"
    using alloc_fresh [OF assms(1,3,2) False] by blast
  then have "(p, m, x) \<notin> chk h" for m x by force
  with n(1,2) show ?thesis using alloc_law [OF assms(1,3), of pid] assms(2) by auto
qed

end

lemma owned_add:
  assumes "heap_ok h" "malloc_longterm sz KER_CODEMEM_PID h = Some (h', p)" "unat sz \<le> 65524"
  shows "heap_ok h' \<and> (\<forall>q. owned h q \<longrightarrow> owned h' q) \<and> (p \<noteq> NULL \<longrightarrow> owned h' p \<and> \<not> owned h p)"
  using long_term.alloc_owner [OF assms] by (auto simp: owned_def)

lemma owned_malloc:
  assumes "heap_ok h" "ker_malloc sz KER_CODEMEM_PID h = Some (h', p)" "unat sz \<le> 65524"
  shows "heap_ok h' \<and> (\<forall>q. owned h q \<longrightarrow> owned h' q) \<and> (p \<noteq> NULL \<longrightarrow> owned h' p \<and> \<not> owned h p)"
  using short_term.alloc_owner [OF assms] by (auto simp: owned_def)

text \<open>The state with a new section at page \<open>p\<close>, described by the block \<open>hdr\<close> in slot \<open>i\<close>.\<close>

definition new_section :: "nat \<Rightarrow> addr \<Rightarrow> nat \<Rightarrow> u16 \<Rightarrow> u8 list \<Rightarrow> codemem \<Rightarrow> codemem" where
  "new_section i hdr p sz bm c = set_hdr hdr (\<lambda>_. \<lparr>cm_start_addr = flash_start_page_addr c + of_nat (256 * p), cm_size = sz, cm_salt = codemem_salt c + 1, cm_flag = 0\<rparr>)
     (c\<lparr>flash_alloc_bitmap := bm, codemem_handle_list := (codemem_handle_list c)[i := hdr], codemem_salt := codemem_salt c + 1\<rparr>)"

lemma hdr_eta: "(x :: codemem_hdr_t)\<lparr>cm_start_addr := a, cm_size := b, cm_salt := c, cm_flag := d\<rparr> = \<lparr>cm_start_addr = a, cm_size = b, cm_salt = c, cm_flag = d\<rparr>"
  by (cases x) simp

lemma new_section_fields [simp]:
  "flash_alloc_bitmap (new_section i hdr p sz bm c) = bm" "codemem_handle_list (new_section i hdr p sz bm c) = (codemem_handle_list c)[i := hdr]"
  "flash_start_page_addr (new_section i hdr p sz bm c) = flash_start_page_addr c" "flash_bitmap_length (new_section i hdr p sz bm c) = flash_bitmap_length c"
  "flash_cache_page (new_section i hdr p sz bm c) = flash_cache_page c" "codemem_salt (new_section i hdr p sz bm c) = codemem_salt c + 1"
  "page_cache_ok (new_section i hdr p sz bm c) = page_cache_ok c" "code_view (new_section i hdr p sz bm c) = code_view c"
  "codemem_hdrs (new_section i hdr p sz bm c) hdr = \<lparr>cm_start_addr = flash_start_page_addr c + of_nat (256 * p), cm_size = sz, cm_salt = codemem_salt c + 1, cm_flag = 0\<rparr>"
  "q \<noteq> hdr \<Longrightarrow> codemem_hdrs (new_section i hdr p sz bm c) q = codemem_hdrs c q"
  by (simp_all add: new_section_def set_hdr_def page_cache_ok_def code_view_def)

lemma new_section_live:
  assumes "i < length (codemem_handle_list c)" "codemem_handle_list c ! i = NULL" "hdr \<noteq> NULL"
  shows "live_hdrs (new_section i hdr p sz bm c) = insert hdr (live_hdrs c)"
proof -
  let ?xs = "codemem_handle_list c"
  have "set (?xs[i := hdr]) \<subseteq> insert hdr (set ?xs)" by (rule set_update_subset_insert)
  moreover have "hdr \<in> set (?xs[i := hdr])" using assms(1) by (rule set_update_memI)
  moreover have "x \<in> set (?xs[i := hdr])" if x: "x \<in> set ?xs" "x \<noteq> NULL" for x
  proof -
    obtain j where "j < length ?xs" "x = ?xs ! j" using x(1) by (auto simp: in_set_conv_nth)
    moreover from this have "j \<noteq> i" using x(2) assms(2) by auto
    ultimately show ?thesis by (auto simp: in_set_conv_nth intro!: exI [of _ j])
  qed
  ultimately show ?thesis using assms(3) unfolding live_hdrs_def new_section_fields by blast
qed

lemma new_section_first:
  assumes "flash_ok c" "p + n \<le> 8 * length (flash_alloc_bitmap c)" "0 < n"
  shows "first_page (new_section i hdr p sz bm c) hdr = p" "unat (flash_start_page_addr c + of_nat (256 * p)) = unat (flash_start_page_addr c) + 256 * p"
proof -
  have "unat (flash_start_page_addr c) + 256 * p < 2 ^ 32" using assms by (simp add: flash_ok_def)
  then show u: "unat (flash_start_page_addr c + of_nat (256 * p)) = unat (flash_start_page_addr c) + 256 * p" by (rule unat_plus_of_nat)
  then show "first_page (new_section i hdr p sz bm c) hdr = p" by (simp add: first_page_def)
qed

lemma new_section_inv:
  assumes inv: "code_inv h c" and i: "i < CODEMEM_MAX_LOADABLE_MODULES" "codemem_handle_list c ! i = NULL"
    and h: "heap_ok h'" "\<forall>q. owned h q \<longrightarrow> owned h' q" "hdr \<noteq> NULL" "owned h' hdr" "\<not> owned h hdr"
    and sz: "0 < unat sz" "unat sz \<le> 65280" and bm: "length bm = length (flash_alloc_bitmap c)"
    and p: "p + unat (pages_of sz) \<le> 8 * length bm" "used_pages (c\<lparr>flash_alloc_bitmap := bm\<rparr>) = used_pages c \<union> {p..<p + unat (pages_of sz)}"
      "used_pages c \<inter> {p..<p + unat (pages_of sz)} = {}"
  shows "code_inv h' (new_section i hdr p sz bm c)" "section_pages (new_section i hdr p sz bm c) hdr = {p..<p + unat (pages_of sz)}"
    "used_pages (new_section i hdr p sz bm c) = used_pages c \<union> {p..<p + unat (pages_of sz)}"
proof -
  let ?c = "new_section i hdr p sz bm c" and ?n = "unat (pages_of sz)"
  have f: "flash_ok c" and len: "length (codemem_handle_list c) = CODEMEM_MAX_LOADABLE_MODULES" using inv by (simp_all add: code_inv_def)
  have n: "0 < ?n" using pages_of_size [OF sz(2)] sz(1) by auto
  have live: "live_hdrs ?c = insert hdr (live_hdrs c)" by (rule new_section_live) (use i len h(3) in auto)
  have new: "q \<noteq> hdr" if "q \<in> live_hdrs c" for q using inv that h(5) by (auto simp: code_inv_def)
  have "p + ?n \<le> 8 * length (flash_alloc_bitmap c)" using p(1) bm by simp
  note first = new_section_first [OF f this n]
  show sec: "section_pages ?c hdr = {p..<p + ?n}" by (simp add: section_pages_def first(1))
  show used: "used_pages ?c = used_pages c \<union> {p..<p + ?n}" using p(2) by (simp add: used_pages_def)
  have old: "section_pages ?c q = section_pages c q" "hdr_ok ?c q" if "q \<in> live_hdrs c" for q
  proof -
    have fp: "first_page ?c q = first_page c q" using new [OF that] by (simp add: first_page_def)
    then show s: "section_pages ?c q = section_pages c q" using new [OF that] by (simp add: section_pages_def)
    have "hdr_ok c q" using inv that by (simp add: code_inv_def)
    then show "hdr_ok ?c q" using new [OF that] fp s used by (auto simp: hdr_ok_def)
  qed
  have "hdr_ok ?c hdr" using sz sec used first(1) by (simp add: hdr_ok_def)
  moreover have "flash_ok ?c" using f bm by (simp add: flash_ok_def bitmap_ok_def)
  moreover have sep: "section_pages c q \<inter> {p..<p + ?n} = {}" if "q \<in> live_hdrs c" for q
    using inv that p(3) by (fastforce simp: code_inv_def hdr_ok_def)
  moreover have "a = b" if ab: "a < CODEMEM_MAX_LOADABLE_MODULES" "b < CODEMEM_MAX_LOADABLE_MODULES"
      "(codemem_handle_list c)[i := hdr] ! a = (codemem_handle_list c)[i := hdr] ! b" "(codemem_handle_list c)[i := hdr] ! a \<noteq> NULL" for a b
  proof -
    have nh: "codemem_handle_list c ! j \<noteq> hdr" if "j < CODEMEM_MAX_LOADABLE_MODULES" for j
      using new [of "codemem_handle_list c ! j"] that len h(3) by (auto simp: live_hdrs_def)
    have "codemem_handle_list c ! a = codemem_handle_list c ! b \<Longrightarrow> codemem_handle_list c ! a \<noteq> NULL \<Longrightarrow> a = b"
      using inv ab(1,2) unfolding code_inv_def by blast
    then show ?thesis using ab(3,4) nh [OF ab(1)] nh [OF ab(2)] ab(1,2) len i(1)
      by (cases "a = i"; cases "b = i") simp_all
  qed
  moreover have "flash_cache_page c \<noteq> NULL \<longrightarrow> owned h' (flash_cache_page c) \<and> flash_cache_page c \<notin> live_hdrs ?c"
    using inv h(2,5) unfolding live by (auto simp: code_inv_def)
  moreover have "owned h' q \<and> hdr_ok ?c q" if "q \<in> live_hdrs ?c" for q
    using that calculation(1) old(2) h(2,4) inv unfolding live by (auto simp: code_inv_def)
  moreover have "section_pages ?c q \<inter> section_pages ?c r = {}" if qr: "q \<in> live_hdrs ?c" "r \<in> live_hdrs ?c" "q \<noteq> r" for q r
  proof -
    have o: "section_pages c q \<inter> section_pages c r = {}" if "q \<in> live_hdrs c" "r \<in> live_hdrs c"
      using inv that qr(3) by (simp add: code_inv_def)
    consider "q = hdr" "r \<in> live_hdrs c" | "q \<in> live_hdrs c" "r = hdr" | "q \<in> live_hdrs c" "r \<in> live_hdrs c"
      using qr unfolding live by blast
    then show ?thesis by cases (use o in \<open>simp_all add: old(1) sec sep Int_commute\<close>)
  qed
  ultimately show "code_inv h' ?c" using h(1) len unfolding code_inv_def new_section_fields length_list_update by blast
qed

lemma handle_parts:
  fixes salt :: u8
  assumes "i < 16"
  shows "unat ((of_nat i OR push_bit 8 (ucast salt) :: u16) AND 0x00ff) = i" "ucast (drop_bit 8 (of_nat i OR push_bit 8 (ucast salt) :: u16)) = salt"
proof -
  let ?x = "of_nat i :: u16"
  have x: "take_bit 8 ?x = ?x" "drop_bit 8 ?x = 0"
    using assms by (simp_all add: word_unat_eq_iff unsigned_take_bit_eq take_bit_nat_eq_self_iff unat_of_nat drop_bit_eq_div unat_div take_bit_eq_mod unat_mod)
  have "(?x OR push_bit 8 (ucast salt)) AND mask 8 = ?x" by (simp flip: take_bit_eq_mask add: x take_bit_push_bit)
  then show "unat ((?x OR push_bit 8 (ucast salt)) AND 0x00ff) = i" using assms by (simp add: mask_eq_exp_minus_1 unat_of_nat)
  have "drop_bit 8 (?x OR push_bit 8 (ucast salt)) = drop_bit 8 (push_bit 8 (ucast salt) :: u16)" using x(2) by simp
  then show "ucast (drop_bit 8 (?x OR push_bit 8 (ucast salt))) = salt"
    by (auto intro!: bit_eqI simp: bit_simps)
qed

definition granted :: "u16 \<Rightarrow> u16 \<Rightarrow> codemem \<Rightarrow> codemem \<Rightarrow> bool" where
  "granted r sz c c' \<longleftrightarrow> check_codemem_t r c' = Some True \<and>
     (let hdr = codemem_handle_list c' ! unat (r AND 0x00ff) in
      hdr \<notin> live_hdrs c \<and> live_hdrs c' = insert hdr (live_hdrs c) \<and> cm_size (codemem_hdrs c' hdr) = sz \<and>
      section_pages c' hdr \<inter> used_pages c = {} \<and> used_pages c' = used_pages c \<union> section_pages c' hdr)"

lemma invalid_handle: "i < 16 \<Longrightarrow> (of_nat i OR push_bit 8 (ucast (salt :: u8)) :: u16) \<noteq> CODEMEM_INVALID"
  using handle_parts(1) [of i salt] by (auto simp: CODEMEM_INVALID_def)

lemma find_slot_free:
  assumes "find (\<lambda>i. xs ! i = NULL) [0..<n] = Some i"
  shows "i < n" "xs ! i = NULL"
  using assms by (auto simp: find_Some_iff)

lemma flash_alloc_law:
  assumes inv: "code_inv (heap_of k) (cm k)" and pg: "flash_cache_page (cm k) \<noteq> NULL" and sz: "0 < unat sz" "unat sz \<le> 65280"
    and low: "\<And>p. free_run (flash_alloc_bitmap (cm k)) (unat (pages_of sz)) p \<Longrightarrow>
      (\<And>r. r < p \<Longrightarrow> \<not> free_run (flash_alloc_bitmap (cm k)) (unat (pages_of sz)) r) \<Longrightarrow> p < 128"
  shows "flash_alloc sz k = Some (k, 0) \<or>
    (\<exists>p bm. flash_alloc sz k = Some (k\<lparr>cm := (cm k)\<lparr>flash_alloc_bitmap := bm\<rparr>\<rparr>, flash_start_page_addr (cm k) + of_nat (256 * p)) \<and>
      length bm = length (flash_alloc_bitmap (cm k)) \<and> p + unat (pages_of sz) \<le> 8 * length bm \<and>
      used_pages ((cm k)\<lparr>flash_alloc_bitmap := bm\<rparr>) = used_pages (cm k) \<union> {p..<p + unat (pages_of sz)} \<and>
      used_pages (cm k) \<inter> {p..<p + unat (pages_of sz)} = {} \<and> flash_start_page_addr (cm k) + of_nat (256 * p) \<noteq> 0)"
proof -
  let ?c = "cm k" and ?n = "unat (pages_of sz)"
  have f: "flash_ok ?c" using inv by (simp add: code_inv_def)
  have fa: "flash_alloc sz k = do { (c, a) \<leftarrow> alloc_pages sz ?c; Some (k\<lparr>cm := c\<rparr>, a) }"
    using pg by (simp add: flash_alloc_def codemem_cache_alloc_def)
  have b: "bitmap_ok ?c" using f by (simp add: flash_ok_def)
  from alloc_pages_law [OF b sz] show ?thesis
  proof (elim disjE conjE exE)
    assume "alloc_pages sz ?c = Some (?c, 0)"
    then show ?thesis by (simp add: fa)
  next
    fix p bm
    assume p: "free_run (flash_alloc_bitmap ?c) ?n p" "\<forall>r < p. \<not> free_run (flash_alloc_bitmap ?c) ?n r"
      and a: "alloc_pages sz ?c = (if p < 128 then Some (?c\<lparr>flash_alloc_bitmap := bm\<rparr>, flash_start_page_addr ?c + of_nat (256 * p)) else None)"
      and u: "length bm = length (flash_alloc_bitmap ?c)" "used_pages (?c\<lparr>flash_alloc_bitmap := bm\<rparr>) = used_pages ?c \<union> {p..<p + ?n}"
        "used_pages ?c \<inter> {p..<p + ?n} = {}"
    have p128: "p < 128" using low [of p] p by blast
    have pn: "p + ?n \<le> 8 * length bm" using p(1) u(1) by (simp add: free_run_def)
    have n: "0 < ?n" using pages_of_size [OF sz(2)] sz(1) by auto
    have "unat (flash_start_page_addr ?c + of_nat (256 * p)) \<noteq> 0"
      using new_section_first(2) [OF f, of p ?n] pn n u(1) f by (simp add: flash_ok_def)
    then have "flash_start_page_addr ?c + of_nat (256 * p) \<noteq> 0" using unat_0 by metis
    moreover have "flash_alloc sz k = Some (k\<lparr>cm := ?c\<lparr>flash_alloc_bitmap := bm\<rparr>\<rparr>, flash_start_page_addr ?c + of_nat (256 * p))"
      unfolding fa a if_P [OF p128] by simp
    ultimately show ?thesis using u pn by blast
  qed
qed

lemma refused_inv:
  assumes inv: "code_inv h c" and m: "malloc_longterm CODEMEM_HDR_SIZE KER_CODEMEM_PID h = Some (h1, hdr)" "hdr \<noteq> NULL"
  shows "\<exists>h2. ker_free hdr h1 = Some h2 \<and> code_inv h2 (set_hdr hdr f c) \<and> code_view (set_hdr hdr f c) = code_view c \<and>
    live_hdrs (set_hdr hdr f c) = live_hdrs c \<and> used_pages (set_hdr hdr f c) = used_pages c \<and>
    (\<forall>q \<in> live_hdrs c. codemem_hdrs (set_hdr hdr f c) q = codemem_hdrs c q)"
proof -
  have ok: "heap_ok h" using inv by (simp add: code_inv_def)
  have sz: "unat CODEMEM_HDR_SIZE \<le> 65524" by (simp add: CODEMEM_HDR_SIZE_def)
  obtain h2 where h2: "ker_free hdr h1 = Some h2" "heap_ok h2" "chunks h2 = chunks h"
    using long_term.alloc_dealloc [OF ok sz m] by blast
  have new: "hdr \<notin> live_hdrs c" using owned_add [OF ok m(1) sz] m(2) inv by (auto simp: code_inv_def)
  then have q: "\<forall>q \<in> live_hdrs c. codemem_hdrs (set_hdr hdr f c) q = codemem_hdrs c q" by (auto simp: set_hdr_def)
  have pg: "page_cache_ok c" using inv by (simp add: code_inv_def flash_ok_def)
  have "code_inv h2 (set_hdr hdr f c)"
    by (rule code_inv_frame [OF inv h2(2)]) (use h2(3) q pg in \<open>simp_all add: owned_def set_hdr_def page_cache_ok_def\<close>)
  then show ?thesis using h2(1) q by (simp add: set_hdr_def code_view_def live_hdrs_def used_pages_def)
qed

lemma new_section_granted:
  assumes "i < 16" "length (codemem_handle_list c) = 16" "codemem_handle_list c ! i = NULL" "hdr \<noteq> NULL" "hdr \<notin> live_hdrs c"
    "section_pages (new_section i hdr p sz bm c) hdr \<inter> used_pages c = {}"
    "used_pages (new_section i hdr p sz bm c) = used_pages c \<union> section_pages (new_section i hdr p sz bm c) hdr"
  shows "granted (of_nat i OR push_bit 8 (ucast (codemem_salt c + 1))) sz c (new_section i hdr p sz bm c)"
  unfolding granted_def handle_parts [OF assms(1)] check_codemem_t_def Let_def
  using assms new_section_live [of i c hdr p sz bm] by (simp add: CODEMEM_MAX_LOADABLE_MODULES_def)

lemma codemem_alloc_law:
  assumes inv: "code_inv (heap_of k) (cm k)" and pg: "flash_cache_page (cm k) \<noteq> NULL" and sz: "0 < unat sz" "unat sz \<le> 65280"
    and low: "\<And>p. free_run (flash_alloc_bitmap (cm k)) (unat (pages_of sz)) p \<Longrightarrow>
      (\<And>r. r < p \<Longrightarrow> \<not> free_run (flash_alloc_bitmap (cm k)) (unat (pages_of sz)) r) \<Longrightarrow> p < 128"
  shows "\<exists>k' r. ker_codemem_alloc sz t k = Some (k', r) \<and> code_inv (heap_of k') (cm k') \<and> code_view (cm k') = code_view (cm k) \<and>
    (\<forall>q \<in> live_hdrs (cm k). codemem_hdrs (cm k') q = codemem_hdrs (cm k) q) \<and>
    (if r = CODEMEM_INVALID then live_hdrs (cm k') = live_hdrs (cm k) \<and> used_pages (cm k') = used_pages (cm k) else granted r sz (cm k) (cm k'))"
proof (cases "find (\<lambda>i. codemem_handle_list (cm k) ! i = NULL) [0..<CODEMEM_MAX_LOADABLE_MODULES]")
  case None
  then show ?thesis using inv by (simp add: ker_codemem_alloc_def)
next
  case (Some i)
  note i = find_slot_free [OF Some]
  have ok: "heap_ok (heap_of k)" and hz: "unat CODEMEM_HDR_SIZE \<le> 65524" and pc: "page_cache_ok (cm k)"
    and len: "length (codemem_handle_list (cm k)) = CODEMEM_MAX_LOADABLE_MODULES"
    using inv by (simp_all add: code_inv_def flash_ok_def CODEMEM_HDR_SIZE_def)
  obtain h hdr where h: "malloc_longterm CODEMEM_HDR_SIZE KER_CODEMEM_PID (heap_of k) = Some (h, hdr)"
    using long_term.alloc_law [OF ok hz] by blast
  note o = owned_add [OF ok h hz]
  let ?k = "set_heap h k"
  have inv1: "code_inv h (cm k)" by (rule code_inv_frame [OF inv]) (use o pc in simp_all)
  show ?thesis
  proof (cases "hdr = NULL")
    case True
    then show ?thesis using Some h inv1 by (simp add: ker_codemem_alloc_def)
  next
    case False
    from flash_alloc_law [of ?k sz, unfolded cm_frames(1,3), OF inv1 pg sz low] consider (full) "flash_alloc sz ?k = Some (?k, 0)"
      | (new) p bm where "flash_alloc sz ?k = Some (?k\<lparr>cm := (cm k)\<lparr>flash_alloc_bitmap := bm\<rparr>\<rparr>, flash_start_page_addr (cm k) + of_nat (256 * p))"
        "length bm = length (flash_alloc_bitmap (cm k))" "p + unat (pages_of sz) \<le> 8 * length bm"
        "used_pages ((cm k)\<lparr>flash_alloc_bitmap := bm\<rparr>) = used_pages (cm k) \<union> {p..<p + unat (pages_of sz)}"
        "used_pages (cm k) \<inter> {p..<p + unat (pages_of sz)} = {}" "flash_start_page_addr (cm k) + of_nat (256 * p) \<noteq> 0"
      by blast
    then show ?thesis
    proof cases
      case full
      obtain h2 where h2: "ker_free hdr h = Some h2" "code_inv h2 (set_hdr hdr (\<lambda>x. x\<lparr>cm_start_addr := 0\<rparr>) (cm k))"
        "code_view (set_hdr hdr (\<lambda>x. x\<lparr>cm_start_addr := 0\<rparr>) (cm k)) = code_view (cm k)"
        "live_hdrs (set_hdr hdr (\<lambda>x. x\<lparr>cm_start_addr := 0\<rparr>) (cm k)) = live_hdrs (cm k)"
        "used_pages (set_hdr hdr (\<lambda>x. x\<lparr>cm_start_addr := 0\<rparr>) (cm k)) = used_pages (cm k)"
        "\<forall>q \<in> live_hdrs (cm k). codemem_hdrs (set_hdr hdr (\<lambda>x. x\<lparr>cm_start_addr := 0\<rparr>) (cm k)) q = codemem_hdrs (cm k) q"
        using refused_inv [OF inv h False, of "\<lambda>x. x\<lparr>cm_start_addr := 0\<rparr>"] by blast
      have "ker_codemem_alloc sz t k = Some ((set_heap h2 ?k)\<lparr>cm := set_hdr hdr (\<lambda>x. x\<lparr>cm_start_addr := 0\<rparr>) (cm k)\<rparr>, CODEMEM_INVALID)"
        using Some h False full h2(1) by (simp add: ker_codemem_alloc_def k_free_def)
      then show ?thesis using h2(2-6) by simp
    next
      case new
      let ?c = "new_section i hdr p sz bm (cm k)"
      have own: "heap_ok h" "\<forall>q. owned (heap_of k) q \<longrightarrow> owned h q" "owned h hdr" "\<not> owned (heap_of k) hdr" using o False by blast+
      have fresh: "hdr \<notin> live_hdrs (cm k)" using inv own(4) by (auto simp: code_inv_def)
      note n = new_section_inv [OF inv i own(1,2) False own(3,4) sz new(2-5)]
      have "ker_codemem_alloc sz t k = Some (?k\<lparr>cm := ?c\<rparr>, of_nat i OR push_bit 8 (ucast (codemem_salt (cm k) + 1)))"
        using Some h False new(1,6) by (simp add: ker_codemem_alloc_def Let_def new_section_def set_hdr_def hdr_eta)
      moreover have "granted (of_nat i OR push_bit 8 (ucast (codemem_salt (cm k) + 1))) sz (cm k) ?c"
      proof (rule new_section_granted)
        show "section_pages ?c hdr \<inter> used_pages (cm k) = {}" unfolding n(2) using new(5) by blast
        show "used_pages ?c = used_pages (cm k) \<union> section_pages ?c hdr" unfolding n(2,3) ..
      qed (use i len False fresh in \<open>simp_all add: CODEMEM_MAX_LOADABLE_MODULES_def\<close>)
      moreover have "\<forall>q \<in> live_hdrs (cm k). codemem_hdrs ?c q = codemem_hdrs (cm k) q"
      proof
        fix q
        assume "q \<in> live_hdrs (cm k)"
        then have "q \<noteq> hdr" using fresh by blast
        then show "codemem_hdrs ?c q = codemem_hdrs (cm k) q" by simp
      qed
      ultimately show ?thesis
        using n(1) invalid_handle [of i "codemem_salt (cm k) + 1"] i(1) by (simp add: CODEMEM_MAX_LOADABLE_MODULES_def)
    qed
  qed
qed

text \<open>The bytes of a section; those of two live sections are apart.\<close>

definition section_bytes :: "codemem \<Rightarrow> addr \<Rightarrow> nat set" where
  "section_bytes c p = {unat (cm_start_addr (codemem_hdrs c p))..<unat (cm_start_addr (codemem_hdrs c p)) + unat (cm_size (codemem_hdrs c p))}"

lemma section_byte_page:
  assumes inv: "code_inv h c" and p: "p \<in> live_hdrs c" and a: "a \<in> section_bytes c p"
  shows "(a - unat (flash_start_page_addr c)) div 256 \<in> section_pages c p" "unat (flash_start_page_addr c) \<le> a"
proof -
  let ?x = "codemem_hdrs c p"
  note e = section_end(1) [OF inv p]
  have "hdr_ok c p" using inv p by (simp add: code_inv_def)
  then have n: "unat (pages_of (cm_size ?x)) = (unat (cm_size ?x) + 255) div 256" using pages_of_size by (simp add: hdr_ok_def)
  obtain j where j: "a = unat (flash_start_page_addr c) + 256 * first_page c p + j" "j < unat (cm_size ?x)"
    using a e by (auto simp: section_bytes_def nat_le_iff_add)
  then have "(a - unat (flash_start_page_addr c)) div 256 = first_page c p + j div 256" by simp
  moreover have "j div 256 < unat (pages_of (cm_size ?x))" using j(2) n by linarith
  ultimately show "(a - unat (flash_start_page_addr c)) div 256 \<in> section_pages c p" by (simp add: section_pages_def)
  show "unat (flash_start_page_addr c) \<le> a" using j(1) by simp
qed

lemma sections_apart:
  assumes inv: "code_inv h c" and p: "p \<in> live_hdrs c" and q: "q \<in> live_hdrs c" "p \<noteq> q" and a: "a \<in> section_bytes c p"
  shows "a \<notin> section_bytes c q"
proof
  assume "a \<in> section_bytes c q"
  then have "(a - unat (flash_start_page_addr c)) div 256 \<in> section_pages c p \<inter> section_pages c q"
    using section_byte_page(1) [OF inv p a] section_byte_page(1) [OF inv q(1)] by blast
  moreover have "section_pages c p \<inter> section_pages c q = {}" using inv p q by (simp add: code_inv_def)
  ultimately show False by blast
qed

lemma flushed_read:
  assumes inv: "code_inv h0 c" and h: "check_codemem_t h c = Some True" and sz: "unat offset + length bs \<le> unat (cm_size (handle_hdr h c))"
    and d: "page_cache_ok (cm k)" "flash_cache_addr (cm k) = 0" "codemem_handle_list (cm k) = codemem_handle_list c" "codemem_hdrs (cm k) = codemem_hdrs c"
      "code_view (cm k) = spm_write (unat (cm_start_addr (handle_hdr h c)) + unat offset) bs f"
  shows "ker_codemem_read h pid (of_nat (length bs)) offset k = Some (bs, SOS_OK)"
proof -
  let ?x = "handle_hdr h c" let ?a = "cm_start_addr ?x + ucast offset"
  note l = section_end [OF inv handle_live(1) [OF h], folded handle_hdr_def]
  have hd: "handle_hdr h (cm k) = ?x" "check_codemem_t h (cm k) = Some True" using h unfolding handle_hdr_def check_codemem_t_def d(3,4) by simp_all
  have o: "(ucast offset :: u32) = of_nat (unat offset)" by (simp add: word_unat_eq_iff unsigned_ucast_eq unat_of_nat take_bit_eq_mod)
  have u: "unat ?a = unat (cm_start_addr ?x) + unat offset" unfolding o by (rule unat_plus_of_nat) (use l(3) sz in simp)
  have "256 \<le> unat (flash_start_page_addr c)" using inv by (simp add: code_inv_def flash_ok_def)
  then have a: "256 \<le> unat ?a" "unat ?a + length bs \<le> 2 ^ 17" using u l(1,3) sz by simp_all
  have "length bs < 65536" using sz unsigned_less [of "cm_size ?x", where ?'a = nat] by simp
  then have n: "unat (of_nat (length bs) :: u16) = length bs" by (simp add: unat_of_nat)
  have "codemem_cache_read ?a (length bs) (cm k) = Some (map (\<lambda>i. code_view (cm k) (unat ?a + i)) [0..<length bs])"
    by (rule cache_read_law [OF d(1) a]) (simp add: fresh_read_def d(2))
  also have "map (\<lambda>i. code_view (cm k) (unat ?a + i)) [0..<length bs] = bs"
    unfolding d(5) u by (rule nth_equalityI) (simp_all add: spm_write_def)
  finally show ?thesis using hd n by (simp add: ker_codemem_read_def ker_codemem_direct_read_def)
qed

section \<open>A kernel with a section of program memory\<close>

definition code_node :: "heap \<Rightarrow> codemem \<Rightarrow> cm_sys" where
  "code_node h c = uart_sys.extend (uart_node h) (cm_sys.fields c)"

lemma code_node_simps [simp]: "cm (code_node h c) = c" "heap_of (code_node h c) = h"
  by (simp_all add: code_node_def uart_node_def uart_sys.defs cm_sys.defs demo_kernel_def demo_shm_def demo_sys_def boot_sys_def heap_of_def)

definition empty_code :: "addr \<Rightarrow> codemem" where
  "empty_code p = \<lparr>flash = (\<lambda>_. 0xff), flash_start_page_addr = 65536, flash_alloc_bitmap = [0, 0], flash_bitmap_length = 2,
     flash_num_pages = 16, codemem_handle_list = replicate CODEMEM_MAX_LOADABLE_MODULES NULL,
     codemem_hdrs = (\<lambda>_. \<lparr>cm_start_addr = 0, cm_size = 0, cm_salt = 0, cm_flag = 0\<rparr>), codemem_salt = 0,
     compiled_modules = replicate 16 0, compiled_header_ptr = 0, flash_cache_page = p, cache_bytes = replicate 256 0, flash_cache_addr = 0\<rparr>"

lemma empty_code_pages: "\<not> page_bit (flash_alloc_bitmap (empty_code p)) q" if "q < 16"
proof -
  have "q div 8 < 2" using that by simp
  then have "[0 :: u8, 0] ! (q div 8) = 0" by (auto simp: less_2_cases_iff)
  then show ?thesis by (simp add: page_bit_def empty_code_def)
qed

lemma empty_code_run: "free_run (flash_alloc_bitmap (empty_code p)) 3 0"
  using empty_code_pages [of _ p] by (auto simp: free_run_def empty_code_def)

lemma empty_code_inv:
  assumes "heap_ok h" "p \<noteq> NULL \<Longrightarrow> owned h p"
  shows "code_inv h (empty_code p)"
proof -
  have "live_hdrs (empty_code p) = {}" by (auto simp: live_hdrs_def empty_code_def)
  then show ?thesis using assms by (simp add: code_inv_def) (simp add: flash_ok_def page_cache_ok_def bitmap_ok_def empty_code_def)
qed

lemma code_heap:
  "\<exists>h p h' hdr. heap_ok h \<and> owned h p \<and> p \<noteq> NULL \<and> malloc_longterm CODEMEM_HDR_SIZE KER_CODEMEM_PID h = Some (h', hdr) \<and> hdr \<noteq> NULL"
proof -
  obtain h0 where h0: "rep h0 [Used 11 11 11 False, Used 3 130 130 False, Free 49]" using boot_heap by blast
  have r: "unat (req_blocks 256) = 33" "unat (req_blocks 8) = 2" by (simp_all add: unat_req_blocks)
  have "alloc_areas 33 15 0 [Used 11 11 11 False, Used 3 130 130 False, Free 49] =
      ([Used 11 11 11 False, Used 3 130 130 False, Used 33 15 15 False, Free 16], Some 14)"
    by (simp add: Let_def split_off_def)
  with rep_alloc [OF h0, of 256 _ "Some 14" 15] r obtain h where
    h: "rep h [Used 11 11 11 False, Used 3 130 130 False, Used 33 15 15 False, Free 16]" by auto
  have "longterm_areas 2 15 0 [Used 11 11 11 False, Used 3 130 130 False, Used 33 15 15 False, Free 16] =
      ([Used 11 11 11 False, Used 3 130 130 False, Used 33 15 15 False, Free 14, Used 2 15 15 False], Some 61)"
    by (simp add: longterm_areas_def)
  with rep_longterm_alloc [OF h, of 8 _ "Some 61" 15] r(2) obtain h' where
    h': "malloc_longterm 8 15 h = Some (h', user_part h 61)" by auto
  have "settled [Used 11 11 11 False, Used 3 130 130 False, Used 33 15 15 False, Free 16]" by simp
  then have "(user_part h 14, BLOCK_SIZE * 33 - BLOCKOVERHEAD, 15) \<in> chunks h"
    unfolding chunks_rep [OF h \<open>settled _\<close>] by (intro CollectI exI [of _ 14] exI [of _ 33] exI [of _ 15] conjI exI [of _ False]) simp_all
  then have "owned h (user_part h 14)" unfolding owned_def KER_CODEMEM_PID_def by blast
  moreover have "heap_ok h" using h by (intro exI [of _ "[Used 11 11 11 False, Used 3 130 130 False, Used 33 15 15 False, Free 16]"] iffD2 [OF heap_ok_def]) simp
  moreover have "user_part h i \<noteq> NULL" for i by (simp add: user_part_def HEADER_SIZE_def)
  ultimately show ?thesis using h' unfolding CODEMEM_HDR_SIZE_def KER_CODEMEM_PID_def by blast
qed

lemma code_demo:
  "\<exists>h c. code_inv h c \<and> flash_cache_page c \<noteq> NULL \<and> check_codemem_t 0x0100 c = Some True \<and> cm_size (handle_hdr 0x0100 c) = 600"
proof -
  obtain h p h' hdr where h: "heap_ok h" "owned h p" "p \<noteq> NULL" "malloc_longterm CODEMEM_HDR_SIZE KER_CODEMEM_PID h = Some (h', hdr)" "hdr \<noteq> NULL"
    using code_heap by blast
  let ?c = "empty_code p"
  have inv: "code_inv h ?c" by (rule empty_code_inv) (use h(1,2) in simp_all)
  have o: "heap_ok h'" "\<forall>q. owned h q \<longrightarrow> owned h' q" "owned h' hdr" "\<not> owned h hdr"
    using owned_add [OF h(1,4)] h(5) by (auto simp: CODEMEM_HDR_SIZE_def)
  have n: "unat (pages_of 600) = 3" by (simp add: pages_of_size)
  have b: "bitmap_ok ?c" using inv by (simp add: code_inv_def flash_ok_def)
  from alloc_pages_law [OF b, of 600] n empty_code_run [of p] obtain q bm where
    q: "free_run (flash_alloc_bitmap ?c) 3 q" "length bm = length (flash_alloc_bitmap ?c)"
      "used_pages (?c\<lparr>flash_alloc_bitmap := bm\<rparr>) = used_pages ?c \<union> {q..<q + 3}" "used_pages ?c \<inter> {q..<q + 3} = {}"
    by auto
  have i: "0 < CODEMEM_MAX_LOADABLE_MODULES" "codemem_handle_list ?c ! 0 = NULL"
    by (simp_all add: empty_code_def CODEMEM_MAX_LOADABLE_MODULES_def)
  have qn: "q + unat (pages_of 600) \<le> 8 * length bm" using q(1,2) n by (simp add: free_run_def)
  have "code_inv h' (new_section 0 hdr q 600 bm ?c)"
    by (rule new_section_inv(1) [OF inv i o(1,2) h(5) o(3,4) _ _ q(2) qn]) (use q(3,4) n in simp_all)
  moreover have "check_codemem_t 0x0100 (new_section 0 hdr q 600 bm ?c) = Some True" "handle_hdr 0x0100 (new_section 0 hdr q 600 bm ?c) =
      codemem_hdrs (new_section 0 hdr q 600 bm ?c) hdr" "flash_cache_page (new_section 0 hdr q 600 bm ?c) = p"
    using h(5) by (simp_all add: check_codemem_t_def handle_hdr_def empty_code_def CODEMEM_MAX_LOADABLE_MODULES_def Let_def)
  ultimately show ?thesis using h(3) by (intro exI [of _ h'] exI [of _ "new_section 0 hdr q 600 bm ?c"]) simp
qed

section \<open>Properties\<close>

text \<open>
  C11. Allocation of program memory. From a state in which every handle has pages of its own,
  \<^verbatim>\<open>ker_codemem_alloc\<close> returns; either it fails with \<^verbatim>\<open>CODEMEM_INVALID\<close> and the handles and pages in use are as before, or
  the new handle is accepted by the other operations, its section has the requested size and consists of pages that were
  free, which are now in use. The contents of program memory and the other sections are kept, and so is the invariant. The size lies
  between 1 and 65280, the page cache is allocated and the first free run starts below page 128.
\<close>

theorem codemem_alloc_correct:
  assumes "code_inv (heap_of k) (cm k)" "flash_cache_page (cm k) \<noteq> NULL" "0 < unat sz" "unat sz \<le> 65280"
    and "\<And>p. free_run (flash_alloc_bitmap (cm k)) (unat (pages_of sz)) p \<Longrightarrow>
      (\<And>r. r < p \<Longrightarrow> \<not> free_run (flash_alloc_bitmap (cm k)) (unat (pages_of sz)) r) \<Longrightarrow> p < 128"
  shows "\<exists>k' r. ker_codemem_alloc sz t k = Some (k', r) \<and> code_inv (heap_of k') (cm k') \<and> code_view (cm k') = code_view (cm k) \<and>
    (\<forall>q \<in> live_hdrs (cm k). codemem_hdrs (cm k') q = codemem_hdrs (cm k) q) \<and>
    (if r = CODEMEM_INVALID then live_hdrs (cm k') = live_hdrs (cm k) \<and> used_pages (cm k') = used_pages (cm k) else granted r sz (cm k) (cm k'))"
  by (rule codemem_alloc_law [OF assms])

theorem codemem_alloc_correct_witness:
  "\<exists>h p k' r. ker_codemem_alloc 600 CODEMEM_TYPE_EXECUTABLE (code_node h (empty_code p)) = Some (k', r) \<and> code_inv (heap_of k') (cm k') \<and>
    (if r = CODEMEM_INVALID then used_pages (cm k') = used_pages (empty_code p) else granted r 600 (empty_code p) (cm k'))"
proof -
  obtain h p where h: "heap_ok h" "owned h p" "p \<noteq> NULL" using code_heap by blast
  let ?k = "code_node h (empty_code p)"
  have inv: "code_inv h (empty_code p)" by (rule empty_code_inv) (use h(1,2) in simp_all)
  have pg: "flash_cache_page (empty_code p) \<noteq> NULL" using h(3) by (simp add: empty_code_def)
  have low: "q < 128" if "free_run (flash_alloc_bitmap (empty_code p)) (unat (pages_of 600)) q" for q
    using that by (simp add: free_run_def empty_code_def)
  have sz: "0 < unat (600 :: u16)" "unat (600 :: u16) \<le> 65280" by simp_all
  from codemem_alloc_correct [of ?k 600 CODEMEM_TYPE_EXECUTABLE, unfolded code_node_simps, OF inv pg sz low] show ?thesis
    by (metis (full_types))
qed

text \<open>
  C9. Writing program memory, once the page cache has been allocated. A write through a handle, inside its section, succeeds and changes exactly the bytes written in the contents
  that the callers see; after \<^verbatim>\<open>ker_codemem_flush\<close> these are the contents of the flash, a read at the same offset returns the bytes written,
  and the bytes of all other sections are what they were. The invariant is kept by both steps.
\<close>

theorem codemem_write_read:
  assumes inv: "code_inv (heap_of k) (cm k)" and pg: "flash_cache_page (cm k) \<noteq> NULL" and h: "check_codemem_t h (cm k) = Some True"
    and sz: "unat offset + length bs \<le> unat (cm_size (handle_hdr h (cm k)))" and bs: "bs \<noteq> []"
  shows "\<exists>k1 k2. ker_codemem_write h pid bs offset k = Some (k1, SOS_OK) \<and> code_inv (heap_of k1) (cm k1) \<and>
    code_view (cm k1) = spm_write (unat (cm_start_addr (handle_hdr h (cm k))) + unat offset) bs (code_view (cm k)) \<and>
    ker_codemem_flush h pid k1 = Some (k2, SOS_OK) \<and> code_inv (heap_of k2) (cm k2) \<and> flash (cm k2) = code_view (cm k1) \<and>
    ker_codemem_read h pid (of_nat (length bs)) offset k2 = Some (bs, SOS_OK) \<and>
    (\<forall>q \<in> live_hdrs (cm k). q \<noteq> codemem_handle_list (cm k) ! unat (h AND 0x00ff) \<longrightarrow>
      (\<forall>a \<in> section_bytes (cm k) q. flash (cm k2) a = code_view (cm k) a))"
proof -
  let ?c = "cm k" let ?x = "handle_hdr h ?c" and ?p = "codemem_handle_list ?c ! unat (h AND 0x00ff)"
  let ?a = "unat (cm_start_addr ?x) + unat offset"
  obtain c where c: "ker_codemem_write h pid bs offset k = Some (k\<lparr>cm := c\<rparr>, SOS_OK)" "code_inv (heap_of k) c" "same_codemem ?c c"
    "code_view c = spm_write ?a bs (code_view ?c)" "flash_cache_addr c \<noteq> 0"
    using write_law [OF inv pg h sz, of pid] bs by blast
  note same = same_codemem_fields [OF c(3)]
  let ?d = "c\<lparr>flash := code_view c, flash_cache_page := NULL, flash_cache_addr := 0\<rparr>"
  obtain h2 where h2: "ker_codemem_flush h pid (k\<lparr>cm := c\<rparr>) = Some ((set_heap h2 k)\<lparr>cm := ?d\<rparr>, SOS_OK)" "code_inv h2 ?d"
    using flush_law [of "k\<lparr>cm := c\<rparr>" h pid] c(2,5) same(6) pg by auto
  have read: "ker_codemem_read h pid (of_nat (length bs)) offset ((set_heap h2 k)\<lparr>cm := ?d\<rparr>) = Some (bs, SOS_OK)"
  proof (rule flushed_read [OF inv h sz])
    show "page_cache_ok (cm ((set_heap h2 k)\<lparr>cm := ?d\<rparr>))" using h2(2) by (simp add: code_inv_def flash_ok_def)
    have v: "code_view (cm ((set_heap h2 k)\<lparr>cm := ?d\<rparr>)) = code_view c" by (simp add: code_view_def [of ?d])
    show "code_view (cm ((set_heap h2 k)\<lparr>cm := ?d\<rparr>)) = spm_write ?a bs (code_view ?c)" unfolding v by (rule c(4))
  qed (simp_all add: same)
  have other: "code_view c a = code_view ?c a" if "q \<in> live_hdrs ?c" "q \<noteq> ?p" "a \<in> section_bytes ?c q" for q a
    using sections_apart [OF inv that(1) handle_live(1) [OF h] that(2) that(3)] sz unfolding c(4)
    by (auto simp: spm_write_def section_bytes_def handle_hdr_def)
  show ?thesis
    by (rule exI [of _ "k\<lparr>cm := c\<rparr>"], rule exI [of _ "(set_heap h2 k)\<lparr>cm := ?d\<rparr>"]) (use c h2 read other in simp)
qed

theorem codemem_write_read_witness:
  "\<exists>h c k1 k2. code_inv h c \<and> ker_codemem_write 0x0100 130 [1, 2, 3] 254 (code_node h c) = Some (k1, SOS_OK) \<and>
    ker_codemem_flush 0x0100 130 k1 = Some (k2, SOS_OK) \<and> ker_codemem_read 0x0100 130 3 254 k2 = Some ([1, 2, 3], SOS_OK)"
proof -
  obtain h c where c: "code_inv h c" "flash_cache_page c \<noteq> NULL" "check_codemem_t 0x0100 c = Some True" "cm_size (handle_hdr 0x0100 c) = 600"
    using code_demo by blast
  from codemem_write_read [of "code_node h c" "0x0100" 254 "[1, 2, 3]" 130] c show ?thesis by auto
qed

text \<open>
  C26. Allocation without memory for the page cache. If the descriptor can be allocated but the block of the page cache can not,
  \<^verbatim>\<open>flash_alloc\<close> returns the negated error number as an address, which \<^verbatim>\<open>ker_codemem_alloc\<close> takes for a success: the caller gets a
  valid handle for a section that starts at the address 0xFFFFFFF4, outside of the flash, with no page in use for it.
\<close>

theorem codemem_alloc_nomem:
  assumes "length (codemem_handle_list (cm k)) = CODEMEM_MAX_LOADABLE_MODULES" "codemem_handle_list (cm k) ! i = NULL" "i < CODEMEM_MAX_LOADABLE_MODULES"
    "malloc_longterm CODEMEM_HDR_SIZE KER_CODEMEM_PID (heap_of k) = Some (h, hdr)" "hdr \<noteq> NULL" "flash_cache_page (cm k) = NULL"
    "ker_malloc 256 KER_CODEMEM_PID h = Some (h', NULL)"
  shows "\<exists>k' r. ker_codemem_alloc sz t k = Some (k', r) \<and> check_codemem_t r (cm k') = Some True \<and>
    cm_start_addr (handle_hdr r (cm k')) = 0xFFFFFFF4 \<and> cm_size (handle_hdr r (cm k')) = sz \<and> used_pages (cm k') = used_pages (cm k)"
proof -
  obtain j where j: "find (\<lambda>i. codemem_handle_list (cm k) ! i = NULL) [0..<CODEMEM_MAX_LOADABLE_MODULES] = Some j"
    using assms(2,3) by (cases "find (\<lambda>i. codemem_handle_list (cm k) ! i = NULL) [0..<CODEMEM_MAX_LOADABLE_MODULES]") (auto simp: find_None_iff)
  have j16: "j < 16" using find_slot_free(1) [OF j] by (simp add: CODEMEM_MAX_LOADABLE_MODULES_def)
  let ?salt = "codemem_salt (cm k) + 1" let ?r = "of_nat j OR push_bit 8 (ucast ?salt) :: u16"
  let ?c = "set_hdr hdr (\<lambda>_. \<lparr>cm_start_addr = 0xFFFFFFF4, cm_size = sz, cm_salt = ?salt, cm_flag = 0\<rparr>)
    ((cm k)\<lparr>flash_cache_page := NULL, codemem_handle_list := (codemem_handle_list (cm k))[j := hdr], codemem_salt := ?salt\<rparr>)"
  have "flash_alloc sz (set_heap h k) = Some ((set_heap h' (set_heap h k))\<lparr>cm := (cm k)\<lparr>flash_cache_page := NULL\<rparr>\<rparr>, 0xFFFFFFF4)"
    using assms(6,7) by (simp add: flash_alloc_def codemem_cache_alloc_def k_malloc_def FLASHMEM_PAGE_SIZE_def ENOMEM_def SOS_OK_def)
  then have "ker_codemem_alloc sz t k = Some ((set_heap h' (set_heap h k))\<lparr>cm := ?c\<rparr>, ?r)"
    using j assms(4,5) by (simp add: ker_codemem_alloc_def Let_def set_hdr_def hdr_eta)
  moreover have "check_codemem_t ?r ?c = Some True" "handle_hdr ?r ?c = codemem_hdrs ?c hdr"
    unfolding check_codemem_t_def handle_hdr_def handle_parts [OF j16] Let_def
    using assms(1,5) j16 by (simp_all add: set_hdr_def CODEMEM_MAX_LOADABLE_MODULES_def)
  ultimately show ?thesis
    by (intro exI [of _ "(set_heap h' (set_heap h k))\<lparr>cm := ?c\<rparr>"] exI [of _ ?r]) (simp add: set_hdr_def used_pages_def)
qed

theorem codemem_alloc_nomem_witness:
  "\<exists>h k' r. ker_codemem_alloc 600 CODEMEM_TYPE_NORMAL (code_node h (empty_code NULL)) = Some (k', r) \<and> check_codemem_t r (cm k') = Some True \<and>
    cm_start_addr (handle_hdr r (cm k')) = 0xFFFFFFF4"
proof -
  obtain h0 where h0: "rep h0 [Free 11]" using small_heap by blast
  have r: "unat (req_blocks 256) = 33" "unat (req_blocks 8) = 2" by (simp_all add: unat_req_blocks)
  have "longterm_areas 2 KER_CODEMEM_PID 0 [Free 11] = ([Free 9, Used 2 KER_CODEMEM_PID KER_CODEMEM_PID False], Some 9)" by (simp add: longterm_areas_def)
  with rep_longterm_alloc [OF h0, of 8 _ "Some 9" KER_CODEMEM_PID] r(2) obtain h where
    h: "malloc_longterm 8 KER_CODEMEM_PID h0 = Some (h, user_part h0 9)" "rep h [Free 9, Used 2 KER_CODEMEM_PID KER_CODEMEM_PID False]" by auto
  have "alloc_areas 33 KER_CODEMEM_PID 0 [Free 9, Used 2 KER_CODEMEM_PID KER_CODEMEM_PID False] = ([Free 9, Used 2 KER_CODEMEM_PID KER_CODEMEM_PID False], None)"
    by (simp add: Let_def)
  with rep_alloc [OF h(2), of 256 _ None KER_CODEMEM_PID] r(1) obtain h' where h': "ker_malloc 256 KER_CODEMEM_PID h = Some (h', NULL)" by auto
  have u: "user_part h0 9 \<noteq> NULL" by (simp add: user_part_def HEADER_SIZE_def)
  from codemem_alloc_nomem [of "code_node h0 (empty_code NULL)" 0 h "user_part h0 9" h' 600 CODEMEM_TYPE_NORMAL] h(1) h' u show ?thesis
    by (simp add: empty_code_def CODEMEM_MAX_LOADABLE_MODULES_def CODEMEM_HDR_SIZE_def) blast
qed

end
