(* ===== verification/Melf_Correct.thy ===== *)
theory Melf_Correct
  imports Melf Codemem_Correct
begin

text \<open>
  Loading a module relocates its code: every instruction that the relocation table names for a symbol of the image refers to the address of this symbol
  afterwards, and no other byte of program memory changes. Releasing a section frees its pages.
\<close>

section \<open>Reads during a sequence of writes\<close>

text \<open>
  A byte is settled if the flash holds what the cache would write there. Writes elsewhere keep it settled, and
  any read of settled bytes is right, also one that runs into the cached page.
\<close>

definition in_flash :: "codemem \<Rightarrow> nat \<Rightarrow> bool" where
  "in_flash c x \<longleftrightarrow> flash c x = code_view c x"

lemma cache_write_flash:
  assumes "page_cache_ok c" "flash_cache_page c \<noteq> NULL" "codemem_cache_write a bs c = Some c'"
  shows "flash c' = flash c \<or> flash c' = code_view c"
  using assms cache_store_law [OF assms(1,2)] by (auto simp: codemem_cache_write_def Let_def code_view_def split: if_splits)

lemma cache_write_settled:
  assumes "page_cache_ok c" "flash_cache_page c \<noteq> NULL" "256 \<le> unat a" "unat a < 2 ^ 17" "page_offset a + length bs \<le> 256"
    "codemem_cache_write a bs c = Some c'" "x \<notin> {unat a..<unat a + length bs}" "in_flash c x"
  shows "in_flash c' x"
proof -
  have "code_view c' x = code_view c x"
    using cache_write_law [OF assms(1-5)] assms(6,7) by (auto simp: spm_write_def)
  then show ?thesis
    using cache_write_flash [OF assms(1,2,6)] assms(8) by (auto simp: in_flash_def)
qed

lemma write_pages_short:
  "length bs \<le> 256 \<Longrightarrow> write_pages a bs c = (if bs \<noteq> [] then codemem_cache_write a bs c else Some c)"
  by (subst write_pages.simps) (simp add: FLASHMEM_PAGE_SIZE_def)

lemma write_bytes_settled:
  assumes ok: "page_cache_ok c" "flash_cache_page c \<noteq> NULL" and a: "256 \<le> unat a" "unat a + length bs \<le> 2 ^ 17" and l: "length bs \<le> 256"
    and w: "write_bytes a bs c = Some c'" and x: "x \<notin> {unat a..<unat a + length bs}" "in_flash c x"
  shows "in_flash c' x"
proof -
  let ?r = "256 - unat a mod 256"
  have po: "page_offset a = unat a mod 256" by (simp add: page_offset_def FLASHMEM_PAGE_SIZE_def)
  have r: "0 < ?r" "?r \<le> 256" by auto
  show ?thesis
  proof (cases "?r < length bs")
    case True
    obtain c1 where c1: "codemem_cache_write a (take ?r bs) c = Some c1" "page_cache_ok c1" "same_codemem c c1"
      using cache_write_law [OF ok a(1), of "take ?r bs"] a True r po by auto
    have u: "unat (a + of_nat ?r) = unat a + ?r" by (rule unat_plus_of_nat) (use a True in auto)
    have "unat a + ?r = 256 * (unat a div 256) + 256" using mod_less_divisor [of 256 "unat a"] mult_div_mod_eq [of 256 "unat a"] by linarith
    then have m: "(unat a + ?r) mod 256 = 0" by simp
    have s1: "in_flash c1 x"
      by (rule cache_write_settled [OF ok a(1) _ _ c1(1) _ x(2)]) (use a True r po x(1) in auto)
    have w2: "codemem_cache_write (a + of_nat ?r) (drop ?r bs) c1 = Some c'"
      using w c1(1) True l by (simp add: write_bytes_def Let_def FLASHMEM_PAGE_SIZE_def write_pages_short)
    have "page_offset (a + of_nat ?r) + length (drop ?r bs) \<le> 256" using m l r unfolding page_offset_def u FLASHMEM_PAGE_SIZE_def by simp
    moreover have "flash_cache_page c1 \<noteq> NULL" using same_codemem_page [OF c1(3)] ok(2) by simp
    moreover have "256 \<le> unat a + ?r" "unat a + ?r < 2 ^ 17" "x \<notin> {unat a + ?r..<unat a + ?r + length (drop ?r bs)}" using a True x(1) by auto
    ultimately show ?thesis using cache_write_settled [OF c1(2) _ _ _ _ w2 _ s1] unfolding u by blast
  next
    case False
    then have e: "write_bytes a bs c = (if bs \<noteq> [] then codemem_cache_write a bs c else Some c)"
      using l by (simp add: write_bytes_def Let_def FLASHMEM_PAGE_SIZE_def write_pages_short)
    have "page_offset a + length bs \<le> 256" using False po r by linarith
    moreover have "unat a < 2 ^ 17" if "bs \<noteq> []" using that a(2) by (cases bs) auto
    ultimately show ?thesis using cache_write_settled [OF ok a(1), of bs c' x] w x unfolding e by (cases "bs = []") auto
  qed
qed

lemma settled_read:
  assumes ok: "page_cache_ok c" and a: "256 \<le> unat a" "unat a + n \<le> 2 ^ 17"
  shows "\<exists>bs. codemem_cache_read a n c = Some bs \<and> length bs = n \<and> (\<forall>i < n. in_flash c (unat a + i) \<longrightarrow> bs ! i = code_view c (unat a + i))"
proof (cases "fresh_read a n c")
  case True
  then show ?thesis using cache_read_law [OF ok a] by simp
next
  case False
  then have "page_start a < flash_cache_addr c"
    using page_parts [of a] by (auto simp: fresh_read_def word_less_nat_alt word_le_nat_alt)
  then show ?thesis using stale_read_law [OF ok a] by (simp add: in_flash_def)
qed

definition bytes_at :: "flash \<Rightarrow> nat \<Rightarrow> nat \<Rightarrow> u8 list" where
  "bytes_at f a n = map (\<lambda>i. f (a + i)) [0..<n]"

lemma bytes_at_simps [simp]: "length (bytes_at f a n) = n" "i < n \<Longrightarrow> bytes_at f a n ! i = f (a + i)"
  by (simp_all add: bytes_at_def)

lemma section_addr:
  assumes "code_inv h0 c" "check_codemem_t h c = Some True" "unat offset + n \<le> unat (cm_size (handle_hdr h c))"
  shows "unat (cm_start_addr (handle_hdr h c) + ucast offset) = unat (cm_start_addr (handle_hdr h c)) + unat offset"
    "256 \<le> unat (cm_start_addr (handle_hdr h c) + ucast offset)" "unat (cm_start_addr (handle_hdr h c) + ucast offset) + n \<le> 2 ^ 17"
proof -
  note l = section_end [OF assms(1) handle_live(1) [OF assms(2)], folded handle_hdr_def]
  have o: "(ucast offset :: u32) = of_nat (unat offset)" by (simp add: word_unat_eq_iff unsigned_ucast_eq unat_of_nat take_bit_eq_mod)
  show u: "unat (cm_start_addr (handle_hdr h c) + ucast offset) = unat (cm_start_addr (handle_hdr h c)) + unat offset"
    unfolding o by (rule unat_plus_of_nat) (use l(3) assms(3) in simp)
  show "256 \<le> unat (cm_start_addr (handle_hdr h c) + ucast offset)" "unat (cm_start_addr (handle_hdr h c) + ucast offset) + n \<le> 2 ^ 17"
    using u l(1,3) assms(1,3) by (simp_all add: code_inv_def flash_ok_def)
qed

lemma section_read:
  assumes inv: "code_inv h0 (cm k)" and h: "check_codemem_t h (cm k) = Some True"
    and sz: "unat offset + unat n \<le> unat (cm_size (handle_hdr h (cm k)))"
  shows "\<exists>bs. ker_codemem_read h pid n offset k = Some (bs, SOS_OK) \<and> length bs = unat n \<and>
    (\<forall>i < unat n. in_flash (cm k) (unat (cm_start_addr (handle_hdr h (cm k))) + unat offset + i) \<longrightarrow>
       bs ! i = code_view (cm k) (unat (cm_start_addr (handle_hdr h (cm k))) + unat offset + i))"
proof -
  note s = section_addr [OF inv h sz]
  have "page_cache_ok (cm k)" using inv by (simp add: code_inv_def flash_ok_def)
  then show ?thesis
    using settled_read [of "cm k", OF _ s(2,3)] h unfolding s(1) by (auto simp: ker_codemem_read_def ker_codemem_direct_read_def)
qed

lemma settled_section_read:
  assumes "code_inv h0 (cm k)" "check_codemem_t h (cm k) = Some True" "unat offset + unat n \<le> unat (cm_size (handle_hdr h (cm k)))"
    and "\<And>i. i < unat n \<Longrightarrow> in_flash (cm k) (unat (cm_start_addr (handle_hdr h (cm k))) + unat offset + i)"
  shows "ker_codemem_read h pid n offset k = Some (bytes_at (code_view (cm k)) (unat (cm_start_addr (handle_hdr h (cm k))) + unat offset) (unat n), SOS_OK)"
  using section_read [OF assms(1-3), of pid] assms(4) by (auto intro!: nth_equalityI)

section \<open>Writes with and without a page in the cache\<close>

definition cache_room :: "'a cm_sys_scheme \<Rightarrow> bool" where
  "cache_room k \<longleftrightarrow> (\<exists>h p. ker_malloc 256 KER_CODEMEM_PID (heap_of k) = Some (h, p) \<and> p \<noteq> NULL)"

lemma cache_alloc_law:
  assumes inv: "code_inv (heap_of k) (cm k)" and pg: "flash_cache_page (cm k) = NULL" and room: "cache_room k"
  shows "\<exists>h p bs. codemem_cache_alloc k = Some ((set_heap h k)\<lparr>cm := (cm k)\<lparr>flash_cache_page := p, cache_bytes := bs, flash_cache_addr := 0\<rparr>\<rparr>, SOS_OK) \<and>
    p \<noteq> NULL \<and> code_inv h ((cm k)\<lparr>flash_cache_page := p, cache_bytes := bs, flash_cache_addr := 0\<rparr>)"
proof -
  obtain h p where h: "ker_malloc 256 KER_CODEMEM_PID (heap_of k) = Some (h, p)" "p \<noteq> NULL" using room by (auto simp: cache_room_def)
  let ?bs = "map (\<lambda>i. bytes_of k (p + i)) [0..<256]"
  let ?c = "(cm k)\<lparr>flash_cache_page := p, cache_bytes := ?bs, flash_cache_addr := 0\<rparr>"
  have hk: "heap_ok (heap_of k)" using inv by (simp add: code_inv_def)
  note o = owned_malloc [OF hk h(1)]
  have "p \<notin> live_hdrs (cm k)" using o h(2) inv by (auto simp: code_inv_def)
  then have "code_inv h ?c"
    by (intro code_inv_frame [OF inv]) (use o h(2) in \<open>simp_all add: page_cache_ok_def\<close>)
  moreover have "codemem_cache_alloc k = Some ((set_heap h k)\<lparr>cm := ?c\<rparr>, SOS_OK)"
    using pg h by (simp add: codemem_cache_alloc_def k_malloc_def FLASHMEM_PAGE_SIZE_def)
  ultimately show ?thesis using h(2) by blast
qed

text \<open>What a write leaves as it is.\<close>

definition same_table :: "codemem \<Rightarrow> codemem \<Rightarrow> bool" where
  "same_table c c' \<longleftrightarrow> codemem_handle_list c' = codemem_handle_list c \<and> codemem_hdrs c' = codemem_hdrs c"

lemma same_table_handle:
  assumes "same_table c c'"
  shows "check_codemem_t h c' = check_codemem_t h c" "handle_hdr h c' = handle_hdr h c"
  using assms by (simp_all add: same_table_def check_codemem_t_def handle_hdr_def Let_def)

lemma page_write:
  assumes inv: "code_inv (heap_of k) (cm k)" and pg: "flash_cache_page (cm k) \<noteq> NULL" and h: "check_codemem_t h (cm k) = Some True"
    and sz: "unat offset + length bs \<le> unat (cm_size (handle_hdr h (cm k)))" "length bs \<le> 256"
  shows "\<exists>k'. ker_codemem_write h pid bs offset k = Some (k', SOS_OK) \<and> code_inv (heap_of k') (cm k') \<and> same_table (cm k) (cm k') \<and>
    code_view (cm k') = spm_write (unat (cm_start_addr (handle_hdr h (cm k))) + unat offset) bs (code_view (cm k)) \<and>
    (\<forall>x. in_flash (cm k) x \<and> x \<notin> {unat (cm_start_addr (handle_hdr h (cm k))) + unat offset..<unat (cm_start_addr (handle_hdr h (cm k))) + unat offset + length bs} \<longrightarrow> in_flash (cm k') x) \<and>
    flash_cache_page (cm k') \<noteq> NULL \<and> (bs \<noteq> [] \<longrightarrow> flash_cache_addr (cm k') \<noteq> 0)"
proof -
  obtain c where c: "ker_codemem_write h pid bs offset k = Some (k\<lparr>cm := c\<rparr>, SOS_OK)" "code_inv (heap_of k) c" "same_codemem (cm k) c"
    "code_view c = spm_write (unat (cm_start_addr (handle_hdr h (cm k))) + unat offset) bs (code_view (cm k))" "bs \<noteq> [] \<longrightarrow> flash_cache_addr c \<noteq> 0"
    using write_law [OF inv pg h sz(1), of pid] by blast
  note s = section_addr [OF inv h sz(1)]
  have inj: "k\<lparr>cm := x\<rparr> = k\<lparr>cm := c\<rparr> \<Longrightarrow> x = c" for x by (drule arg_cong [of _ _ cm]) simp
  have w: "write_bytes (cm_start_addr (handle_hdr h (cm k)) + ucast offset) bs (cm k) = Some c"
    using c(1) pg h by (auto simp: ker_codemem_write_def ker_codemem_direct_write_def codemem_cache_alloc_def dest: inj)
  have ok: "page_cache_ok (cm k)" using inv by (simp add: code_inv_def flash_ok_def)
  note st = write_bytes_settled [OF ok pg s(2,3) sz(2) w, unfolded s(1)]
  show ?thesis
    by (rule exI [of _ "k\<lparr>cm := c\<rparr>"]) (use c st same_codemem_fields [OF c(3)] pg in \<open>simp add: same_table_def\<close>)
qed

lemma first_write:
  assumes inv: "code_inv (heap_of k) (cm k)" and pg: "flash_cache_page (cm k) = NULL \<longrightarrow> cache_room k" and h: "check_codemem_t h (cm k) = Some True"
    and sz: "unat offset + length bs \<le> unat (cm_size (handle_hdr h (cm k)))" "length bs \<le> 256"
  shows "\<exists>k'. ker_codemem_write h pid bs offset k = Some (k', SOS_OK) \<and> code_inv (heap_of k') (cm k') \<and> same_table (cm k) (cm k') \<and>
    code_view (cm k') = spm_write (unat (cm_start_addr (handle_hdr h (cm k))) + unat offset) bs (code_view (cm k)) \<and>
    (\<forall>x. in_flash (cm k) x \<and> x \<notin> {unat (cm_start_addr (handle_hdr h (cm k))) + unat offset..<unat (cm_start_addr (handle_hdr h (cm k))) + unat offset + length bs} \<longrightarrow> in_flash (cm k') x) \<and>
    flash_cache_page (cm k') \<noteq> NULL \<and> (bs \<noteq> [] \<longrightarrow> flash_cache_addr (cm k') \<noteq> 0)"
proof (cases "flash_cache_page (cm k) = NULL")
  case True
  obtain g p b where g: "codemem_cache_alloc k = Some ((set_heap g k)\<lparr>cm := (cm k)\<lparr>flash_cache_page := p, cache_bytes := b, flash_cache_addr := 0\<rparr>\<rparr>, SOS_OK)"
    "p \<noteq> NULL" "code_inv g ((cm k)\<lparr>flash_cache_page := p, cache_bytes := b, flash_cache_addr := 0\<rparr>)"
    using cache_alloc_law [OF inv True] pg True by blast
  let ?c = "(cm k)\<lparr>flash_cache_page := p, cache_bytes := b, flash_cache_addr := 0\<rparr>" let ?k = "(set_heap g k)\<lparr>cm := ?c\<rparr>"
  have t: "check_codemem_t h ?c = check_codemem_t h (cm k)" "handle_hdr h ?c = handle_hdr h (cm k)"
    by (simp_all add: check_codemem_t_def handle_hdr_def Let_def)
  have v: "code_view ?c = code_view (cm k)" "in_flash ?c x = in_flash (cm k) x" for x
    using True by (simp_all add: code_view_def in_flash_def)
  have "ker_codemem_write h pid bs offset k = ker_codemem_write h pid bs offset ?k"
    using g(1,2) h t by (simp add: ker_codemem_write_def ker_codemem_direct_write_def codemem_cache_alloc_def [of ?k])
  then show ?thesis using page_write [of ?k h offset bs pid] g(2,3) h sz t v by (simp add: same_table_def)
qed (use page_write [OF inv _ h sz] in blast)

section \<open>What a relocated instruction refers to\<close>

text \<open>
  The operands of AVR instructions: the constant of \<^verbatim>\<open>LDI\<close>, the distance of \<^verbatim>\<open>RJMP\<close> and
  \<^verbatim>\<open>RCALL\<close>, and the distance of a conditional branch.
\<close>

definition ldi_byte :: "u8 list \<Rightarrow> u8" where
  "ldi_byte b = (b ! 0 AND 0x0f) OR push_bit 4 (b ! 1 AND 0x0f)"

definition rjmp_dist :: "u8 list \<Rightarrow> int" where
  "rjmp_dist b = sint (ucast (word_of (b ! 0) (b ! 1)) :: 12 word)"

definition branch_dist :: "u8 list \<Rightarrow> int" where
  "branch_dist b = sint (ucast (drop_bit 3 (word_of (b ! 0) (b ! 1))) :: 7 word)"

definition ldi_value :: "u8 \<Rightarrow> u32 \<Rightarrow> u8" where
  "ldi_value ty a =
     (let v = (if ty \<in> {9, 10, 11, 15, 16, 17} then - a else a);
          w = (if 12 \<le> ty then drop_bit 1 v else v)
      in ucast (drop_bit (8 * (unat (ty - 6) mod 3)) w))"

definition jump_dist :: "Melf_Rela \<Rightarrow> Melf_Sym \<Rightarrow> int" where
  "jump_dist r s = int ((unat (st_value s) + unat (r_addend r)) div 2) - int (unat (r_offset r) div 2) - 1"

definition refers :: "Melf_Rela \<Rightarrow> Melf_Sym \<Rightarrow> u32 \<Rightarrow> u8 list \<Rightarrow> u8 list \<Rightarrow> bool" where
  "refers r s a old new \<longleftrightarrow>
     (let ty = r_type r in
      if ty = R_AVR_7_PCREL then
        (- 64 \<le> jump_dist r s \<and> jump_dist r s < 64 \<and> old ! 0 AND 0xf8 = 0 \<and> old ! 1 AND 0x03 = 0 \<longrightarrow> branch_dist new = jump_dist r s) \<and>
        new ! 0 AND 0x07 = old ! 0 AND 0x07 \<and> new ! 1 AND 0xfc = old ! 1 AND 0xfc
      else if ty = R_AVR_13_PCREL then
        (- 2048 \<le> jump_dist r s \<and> jump_dist r s < 2048 \<longrightarrow> rjmp_dist new = jump_dist r s) \<and> new ! 1 AND 0xf0 = old ! 1 AND 0xf0
      else if ty = R_AVR_16 then word_of (new ! 0) (new ! 1) = ucast a
      else if ty = R_AVR_16_PM then word_of (new ! 0) (new ! 1) = ucast (drop_bit 1 a)
      else if ty = R_AVR_CALL then new ! 0 = old ! 0 \<and> new ! 1 = old ! 1 \<and> word_of (new ! 2) (new ! 3) = ucast (drop_bit 1 a)
      else ldi_byte new = ldi_value ty a \<and> new ! 0 AND 0xf0 = old ! 0 AND 0xf0 \<and> new ! 1 AND 0xf0 = old ! 1 AND 0xf0)"

lemma byte_masks:
  "(0x0f :: u8) = mask 4" "(0xf0 :: u8) = push_bit 4 (mask 4)" "(0xf8 :: u8) = push_bit 3 (mask 5)" "(0x03 :: u8) = mask 2" "(0x07 :: u8) = mask 3"
  "(0xfc :: u8) = push_bit 2 (mask 6)" "(0xf8 :: u16) = push_bit 3 (mask 5)" "(0x03 :: u16) = mask 2" "(0x0f :: u16) = mask 4"
  by (simp_all add: mask_eq_exp_minus_1)

lemma ldi_parts:
  "ldi_byte (WRITE_LDI [i0, i1] b) = b" "WRITE_LDI [i0, i1] b ! 0 AND 0xf0 = i0 AND 0xf0" "WRITE_LDI [i0, i1] b ! 1 AND 0xf0 = i1 AND 0xf0"
  unfolding ldi_byte_def byte_masks WRITE_LDI.simps by (rule bit_eqI; auto simp: bit_simps dest: bit_imp_le_length)+

lemma word_parts: "word_of (ucast a) (ucast (drop_bit 8 a)) = ucast (a :: u32)"
  unfolding word_of_def by (rule bit_eqI) (auto simp: bit_simps)

lemma rjmp_parts:
  fixes k :: u16
  shows "(ucast (word_of (ucast k) ((i1 AND 0xf0) OR ucast (drop_bit 8 k AND 0x0f))) :: 12 word) = ucast k"
    "((i1 AND 0xf0) OR ucast (drop_bit 8 k AND 0x0f)) AND 0xf0 = i1 AND 0xf0"
  unfolding word_of_def byte_masks by (rule bit_eqI; auto simp: bit_simps)+

lemma branch_parts:
  fixes k :: u16
  assumes "i0 AND 0xf8 = 0" "i1 AND 0x03 = 0"
  shows "(ucast (drop_bit 3 (word_of (i0 OR ucast (push_bit 3 k AND 0xf8)) (i1 OR ucast (drop_bit 5 k AND 0x03)))) :: 7 word) = ucast k"
proof -
  have b: "\<not> bit i0 n" if "3 \<le> n" for n
    using assms(1) that bit_imp_le_length [of i0 n] unfolding byte_masks bit_eq_iff by (auto simp: bit_simps)
  have c: "\<not> bit i1 n" if "n < 2" for n
  proof
    assume "bit i1 n"
    then have "bit (i1 AND 0x03) n" unfolding byte_masks using that by (simp add: bit_simps)
    then show False using assms(2) by simp
  qed
  show ?thesis unfolding word_of_def byte_masks by (rule bit_eqI) (auto simp: bit_simps b c)
qed

lemma branch_rest:
  fixes k :: u16 and i0 i1 :: u8
  shows "(i0 OR ucast (push_bit 3 k AND 0xf8)) AND 0x07 = i0 AND 0x07" "(i1 OR ucast (drop_bit 5 k AND 0x03)) AND 0xfc = i1 AND 0xfc"
  unfolding byte_masks by (rule bit_eqI; auto simp: bit_simps)+

lemma pcrel_dist:
  assumes "pcrel r s = Some k"
  shows "k = of_int (jump_dist r s)"
proof -
  have l: "unat (st_value s) < 65536" "unat (r_addend r) < 65536" "unat (r_offset r) < 65536"
    using unsigned_less [of "st_value s"] unsigned_less [of "r_addend r"] unsigned_less [of "r_offset r"] by simp_all
  have "(ucast (drop_bit 1 (ucast (st_value s) + ucast (r_addend r) :: u32)) :: u16) = of_nat ((unat (st_value s) + unat (r_addend r)) div 2)"
    using l by (simp add: word_unat_eq_iff unsigned_ucast_eq unat_of_nat take_bit_eq_mod drop_bit_eq_div unat_div unat_word_ariths)
  moreover have "drop_bit 1 (r_offset r) = of_nat (unat (r_offset r) div 2)"
    using l by (simp add: word_unat_eq_iff unat_of_nat drop_bit_eq_div unat_div)
  ultimately show ?thesis using assms by (auto simp: pcrel_def Let_def jump_dist_def split: if_splits)
qed

lemma sint_range:
  "- 2048 \<le> d \<Longrightarrow> d < 2048 \<Longrightarrow> sint (ucast (of_int d :: u16) :: 12 word) = d"
  "- 64 \<le> d \<Longrightarrow> d < 64 \<Longrightarrow> sint (ucast (of_int d :: u16) :: 7 word) = d"
proof -
  have u: "(ucast (of_int d :: u16) :: 12 word) = of_int d" "(ucast (of_int d :: u16) :: 7 word) = of_int d"
    by (simp_all add: word_uint_eq_iff uint_word_of_int_eq unsigned_ucast_eq take_bit_take_bit)
  show "- 2048 \<le> d \<Longrightarrow> d < 2048 \<Longrightarrow> sint (ucast (of_int d :: u16) :: 12 word) = d"
    "- 64 \<le> d \<Longrightarrow> d < 64 \<Longrightarrow> sint (ucast (of_int d :: u16) :: 7 word) = d"
    unfolding u by (simp_all add: sint_sbintrunc' signed_take_bit_int_eq_self)
qed

lemma ldi_relocated:
  assumes "6 \<le> r_type r" "r_type r \<le> 17"
  shows "relocated r s a [i0, i1, i2, i3] = Some (WRITE_LDI [i0, i1] (ldi_value (r_type r) a))"
proof -
  have "unat (r_type r) \<in> {6, 7, 8, 9, 10, 11, 12, 13, 14, 15, 16, 17}" using assms unfolding word_le_nat_alt by simp presburger
  then have "r_type r \<in> {6, 7, 8, 9, 10, 11, 12, 13, 14, 15, 16, 17}" by (auto simp: word_unat_eq_iff)
  then show ?thesis by (auto simp: ldi_value_def Let_def simp del: WRITE_LDI.simps)
qed

lemma relocated_refers:
  assumes "relocated r s a [i0, i1, i2, i3] = Some bs" "2 \<le> r_type r" "r_type r \<le> 18"
  shows "refers r s a [i0, i1, i2, i3] bs"
proof -
  consider "r_type r = 2" | "r_type r = 3" | "r_type r = 4" | "r_type r = 5" | "r_type r = 18" | "6 \<le> r_type r" "r_type r \<le> 17"
  proof -
    have "unat (r_type r) = 2 \<or> unat (r_type r) = 3 \<or> unat (r_type r) = 4 \<or> unat (r_type r) = 5 \<or> unat (r_type r) = 18 \<or> 6 \<le> unat (r_type r) \<and> unat (r_type r) \<le> 17"
      using assms(2,3) by (auto simp: word_le_nat_alt)
    then show thesis using that by (auto simp: word_unat_eq_iff word_le_nat_alt)
  qed
  then show ?thesis
  proof cases
    case 1
    then obtain k where k: "pcrel r s = Some k" "bs = [i0 OR ucast (push_bit 3 k AND 0xf8), i1 OR ucast (drop_bit 5 k AND 0x03)]"
      using assms(1) by auto
    show ?thesis using 1 branch_parts [of i0 i1 k] branch_rest sint_range(2) [of "jump_dist r s"]
      by (simp add: refers_def Let_def k(2) branch_dist_def pcrel_dist [OF k(1)])
  next
    case 2
    then obtain k where k: "pcrel r s = Some k" "bs = [ucast k, (i1 AND 0xF0) OR ucast (drop_bit 8 k AND 0x0F)]"
      using assms(1) by auto
    show ?thesis using 2 rjmp_parts sint_range(1) [of "jump_dist r s"] by (simp add: refers_def Let_def k(2) rjmp_dist_def pcrel_dist [OF k(1)])
  next
    case 6
    then have "r_type r \<notin> {2, 3, 4, 5, 18}" by (auto simp: word_le_nat_alt)
    then show ?thesis using assms(1) ldi_parts [of i0 i1] unfolding ldi_relocated [OF 6] by (auto simp: refers_def Let_def simp del: WRITE_LDI.simps)
  qed (use assms(1) word_parts [of "drop_bit 1 a"] in \<open>auto simp: refers_def word_parts\<close>)
qed

section \<open>The relocation of an image\<close>

text \<open>
  What the relocation table of an image asks for, read from the program memory \<open>f\<close> before loading: for each record the place
  of the instruction, the value to insert and the bytes of the new instruction.
\<close>

record image =
  i_base :: u32
  i_sym :: Melf_Shdr
  i_prog :: Melf_Shdr
  i_rela :: Melf_Shdr

definition rela_at :: "flash \<Rightarrow> image \<Rightarrow> nat \<Rightarrow> Melf_Rela" where
  "rela_at f im i = the (Rela_of (bytes_at f (unat (i_base im) + unat (sh_offset (i_rela im)) + 8 * i) 8))"

definition sym_at :: "flash \<Rightarrow> image \<Rightarrow> nat \<Rightarrow> Melf_Sym" where
  "sym_at f im i = the (Sym_of (bytes_at f (unat (i_base im) + unat (sh_offset (i_sym im)) + 4 * unat (r_symbol (rela_at f im i))) 4))"

definition site :: "flash \<Rightarrow> image \<Rightarrow> nat \<Rightarrow> nat" where
  "site f im i = unat (i_base im) + unat (sh_offset (i_prog im)) + unat (r_offset (rela_at f im i))"

definition reloc_value :: "flash \<Rightarrow> image \<Rightarrow> nat \<Rightarrow> u32" where
  "reloc_value f im i = i_base im + ucast (sh_offset (i_prog im)) + ucast (st_value (sym_at f im i)) + ucast (r_addend (rela_at f im i))"

definition patch_of :: "flash \<Rightarrow> image \<Rightarrow> nat \<Rightarrow> u8 list option" where
  "patch_of f im i = relocated (rela_at f im i) (sym_at f im i) (reloc_value f im i) (bytes_at f (site f im i) 4)"

definition patched :: "flash \<Rightarrow> image \<Rightarrow> nat \<Rightarrow> nat set" where
  "patched f im i = {site f im i..<site f im i + length (the (patch_of f im i))}"

text \<open>
  The conditions on an image: its records lie in the section, no symbol is a function of another module, jump distances
  do not overflow, and the instructions overlap neither each other nor the tables.
\<close>

definition rela_ok :: "flash \<Rightarrow> image \<Rightarrow> nat \<Rightarrow> nat \<Rightarrow> bool" where
  "rela_ok f im sz i \<longleftrightarrow>
     unat (sh_offset (i_sym im)) + 4 * unat (r_symbol (rela_at f im i)) + 4 \<le> sz \<and>
     unat (sh_offset (i_prog im)) + unat (r_offset (rela_at f im i)) + 4 \<le> sz \<and>
     MELF_ST_TYPE (st_info (sym_at f im i)) \<noteq> STT_SOS_DFUNC \<and> patch_of f im i \<noteq> None"

definition apart :: "flash \<Rightarrow> image \<Rightarrow> nat \<Rightarrow> nat \<Rightarrow> bool" where
  "apart f im i j \<longleftrightarrow>
     patched f im i \<inter> {unat (i_base im) + unat (sh_offset (i_rela im)) + 8 * j..<unat (i_base im) + unat (sh_offset (i_rela im)) + 8 * j + 8} = {} \<and>
     patched f im i \<inter> {unat (i_base im) + unat (sh_offset (i_sym im)) + 4 * unat (r_symbol (rela_at f im j))..<
       unat (i_base im) + unat (sh_offset (i_sym im)) + 4 * unat (r_symbol (rela_at f im j)) + 4} = {} \<and>
     (i \<noteq> j \<longrightarrow> patched f im i \<inter> patched f im j = {})"

definition rela_num :: "image \<Rightarrow> nat" where
  "rela_num im = unat (sh_size (i_rela im)) div 8"

definition image_ok :: "flash \<Rightarrow> image \<Rightarrow> nat \<Rightarrow> bool" where
  "image_ok f im sz \<longleftrightarrow> unat (sh_offset (i_rela im)) + 8 * rela_num im \<le> sz \<and>
     (\<forall>i < rela_num im. rela_ok f im sz i \<and> (\<forall>j < rela_num im. apart f im i j))"

text \<open>Only the first two bytes of an instruction matter, and only where something is written.\<close>

lemma relocated_first:
  "relocated r s a [i0, i1, i2, i3] = relocated r s a [i0, i1, j2, j3]"
  by simp

lemma relocated_nothing:
  "relocated r s a [i0, i1, i2, i3] = Some [] \<Longrightarrow> relocated r s a [j0, j1, j2, j3] = Some []"
  by (auto simp: Let_def split: if_splits)

lemma relocated_length:
  "relocated r s a [i0, i1, i2, i3] = Some bs \<Longrightarrow> bs \<noteq> [] \<Longrightarrow> length bs = (if r_type r = R_AVR_CALL then 4 else 2)"
  by (auto simp: Let_def split: if_splits)

lemma list_of_four: "length xs = 4 \<Longrightarrow> \<exists>a b c d. xs = [a, b, c, d]"
  by (auto simp: length_Suc_conv numeral_eq_Suc)

lemma relocated_same:
  assumes "length xs = 4" "length ys = 4" "relocated r s a xs = Some bs" "\<And>i. i < length bs \<Longrightarrow> ys ! i = xs ! i"
  shows "relocated r s a ys = Some bs"
proof -
  obtain i0 i1 i2 i3 j0 j1 j2 j3 where l: "xs = [i0, i1, i2, i3]" "ys = [j0, j1, j2, j3]"
    using list_of_four [OF assms(1)] list_of_four [OF assms(2)] by blast
  show ?thesis
  proof (cases "bs = []")
    case True
    then show ?thesis using relocated_nothing assms(3) unfolding l by blast
  next
    case False
    have n: "0 < length bs" "1 < length bs" using relocated_length [OF assms(3) [unfolded l(1)] False] by (simp_all split: if_splits)
    have "j0 = i0" "j1 = i1" using assms(4) [OF n(1)] assms(4) [OF n(2)] unfolding l by simp_all
    then show ?thesis using relocated_first assms(3) unfolding l by metis
  qed
qed

declare relocated.simps [simp del]

definition load_inv :: "flash \<Rightarrow> image \<Rightarrow> u16 \<Rightarrow> nat \<Rightarrow> nat set \<Rightarrow> 'a cm_sys_scheme \<Rightarrow> bool" where
  "load_inv f im h sz D k \<longleftrightarrow> code_inv (heap_of k) (cm k) \<and> check_codemem_t h (cm k) = Some True \<and>
     cm_start_addr (handle_hdr h (cm k)) = i_base im \<and> unat (cm_size (handle_hdr h (cm k))) = sz \<and>
     (\<forall>x. (\<forall>i \<in> D. x \<notin> patched f im i) \<longrightarrow> in_flash (cm k) x \<and> code_view (cm k) x = f x) \<and>
     (\<forall>i \<in> D. bytes_at (code_view (cm k)) (site f im i) (length (the (patch_of f im i))) = the (patch_of f im i)) \<and>
     (if flash_cache_page (cm k) = NULL then cache_room k else flash_cache_addr (cm k) \<noteq> 0)"

lemma load_read:
  assumes inv: "load_inv f im h sz D k" and n: "unat offset + unat n \<le> sz"
    and x: "\<And>j. j \<in> D \<Longrightarrow> patched f im j \<inter> {unat (i_base im) + unat offset..<unat (i_base im) + unat offset + unat n} = {}"
  shows "ker_codemem_read h pid n offset k = Some (bytes_at f (unat (i_base im) + unat offset) (unat n), SOS_OK)"
proof -
  have s: "in_flash (cm k) (unat (i_base im) + unat offset + i) \<and> code_view (cm k) (unat (i_base im) + unat offset + i) = f (unat (i_base im) + unat offset + i)"
    if "i < unat n" for i
  proof -
    have "unat (i_base im) + unat offset + i \<in> {unat (i_base im) + unat offset..<unat (i_base im) + unat offset + unat n}" using that by simp
    then have "unat (i_base im) + unat offset + i \<notin> patched f im j" if "j \<in> D" for j using x [OF that] by blast
    then show ?thesis using inv unfolding load_inv_def by blast
  qed
  have "ker_codemem_read h pid n offset k = Some (bytes_at (code_view (cm k)) (unat (i_base im) + unat offset) (unat n), SOS_OK)"
    using settled_section_read [of "heap_of k" k h offset n pid] inv n s by (simp add: load_inv_def)
  moreover have "bytes_at (code_view (cm k)) (unat (i_base im) + unat offset) (unat n) = bytes_at f (unat (i_base im) + unat offset) (unat n)"
    using s by (simp add: bytes_at_def)
  ultimately show ?thesis by simp
qed

lemma offset_sum:
  fixes a b :: u16
  assumes "unat a + m * unat b < 65536"
  shows "unat (a + b * of_nat m) = unat a + m * unat b"
proof -
  have "unat (a + b * of_nat m) = (unat a + unat b * m) mod 65536"
    by (simp add: unat_word_ariths unat_of_nat mod_simps)
  then show ?thesis using assms by (simp add: mult.commute)
qed

lemma sec_small: "code_inv h0 c \<Longrightarrow> check_codemem_t h c = Some True \<Longrightarrow> unat (cm_size (handle_hdr h c)) \<le> 65280"
  using handle_live(1) [of h c] by (auto simp: code_inv_def hdr_ok_def handle_hdr_def)

lemma Rela_of_some: "length bs = 8 \<Longrightarrow> \<exists>r. Rela_of bs = Some r"
  by (auto simp: length_Suc_conv numeral_eq_Suc)

lemma Sym_of_some: "length bs = 4 \<Longrightarrow> \<exists>r. Sym_of bs = Some r"
  by (auto simp: length_Suc_conv numeral_eq_Suc)

lemma read_records:
  assumes inv: "load_inv f im h sz D k" and ok: "image_ok f im sz" "D \<subseteq> {..<rela_num im}" "i < rela_num im"
    and d: "cmhdl mdesc = h"
  shows "melf_read_rela mdesc (i_rela im) (of_nat i) k = Some (Inr (rela_at f im i))"
    "melf_read_symbol mdesc (i_sym im) (r_symbol (rela_at f im i)) k = Some (Inr (sym_at f im i))"
proof -
  have sz: "sz \<le> 65280" using inv sec_small by (auto simp: load_inv_def)
  have ap: "apart f im j i" if "j \<in> D" for j using ok that by (auto simp: image_ok_def)
  have ro: "rela_ok f im sz i" using ok by (auto simp: image_ok_def)
  have r8: "unat (sh_offset (i_rela im)) + 8 * i + 8 \<le> sz" using ok(1,3) by (auto simp: image_ok_def)
  have oi: "unat (of_nat i :: u16) = i" using r8 sz by (simp add: unat_of_nat)
  have o: "unat (sh_offset (i_rela im) + of_nat i * 8) = unat (sh_offset (i_rela im)) + 8 * i"
    using offset_sum [of "sh_offset (i_rela im)" 8 "of_nat i"] r8 sz oi by simp
  have rd: "ker_codemem_read h KER_DFT_LOADER_PID 8 (sh_offset (i_rela im) + of_nat i * 8) k =
    Some (bytes_at f (unat (i_base im) + unat (sh_offset (i_rela im) + of_nat i * 8)) (unat (8 :: u16)), SOS_OK)"
  proof (rule load_read [OF inv])
    show "patched f im j \<inter> {unat (i_base im) + unat (sh_offset (i_rela im) + of_nat i * 8)..<
      unat (i_base im) + unat (sh_offset (i_rela im) + of_nat i * 8) + unat (8 :: u16)} = {}" if "j \<in> D" for j
      using ap [OF that] unfolding o apart_def by (simp add: add.assoc)
  qed (use r8 in \<open>simp add: o\<close>)
  obtain r where r: "Rela_of (bytes_at f (unat (i_base im) + (unat (sh_offset (i_rela im)) + 8 * i)) (unat (8 :: u16))) = Some r"
    using Rela_of_some bytes_at_simps(1) by fastforce
  then have "rela_at f im i = r" by (simp add: rela_at_def add.assoc)
  then show "melf_read_rela mdesc (i_rela im) (of_nat i) k = Some (Inr (rela_at f im i))"
    unfolding melf_read_rela_def d rd o using r by simp
  let ?s = "r_symbol (rela_at f im i)"
  have s4: "unat (sh_offset (i_sym im)) + 4 * unat ?s + 4 \<le> sz" using ro by (simp add: rela_ok_def)
  have o: "unat (sh_offset (i_sym im) + ?s * 4) = unat (sh_offset (i_sym im)) + 4 * unat ?s"
    using offset_sum [of "sh_offset (i_sym im)" 4 ?s] s4 sz by simp
  have rs: "ker_codemem_read h KER_DFT_LOADER_PID 4 (sh_offset (i_sym im) + ?s * 4) k =
    Some (bytes_at f (unat (i_base im) + unat (sh_offset (i_sym im) + ?s * 4)) (unat (4 :: u16)), SOS_OK)"
  proof (rule load_read [OF inv])
    show "patched f im j \<inter> {unat (i_base im) + unat (sh_offset (i_sym im) + ?s * 4)..<
      unat (i_base im) + unat (sh_offset (i_sym im) + ?s * 4) + unat (4 :: u16)} = {}" if "j \<in> D" for j
      using ap [OF that] unfolding o apart_def by (simp add: add.assoc)
  qed (use s4 in \<open>simp add: o\<close>)
  obtain y where y: "Sym_of (bytes_at f (unat (i_base im) + (unat (sh_offset (i_sym im)) + 4 * unat ?s)) (unat (4 :: u16))) = Some y"
    using Sym_of_some bytes_at_simps(1) by fastforce
  then have "sym_at f im i = y" by (simp add: sym_at_def add.assoc)
  then show "melf_read_symbol mdesc (i_sym im) ?s k = Some (Inr (sym_at f im i))"
    unfolding melf_read_symbol_def d rs o using y by simp
qed

lemma patch_size:
  assumes "patch_of f im i = Some bs"
  shows "length bs \<le> 4"
proof -
  obtain a b c d where l: "bytes_at f (site f im i) 4 = [a, b, c, d]" using list_of_four bytes_at_simps(1) by blast
  show ?thesis using relocated_length [OF assms [unfolded patch_of_def l]] by (cases "bs = []") simp_all
qed

lemma site_offset:
  assumes "load_inv f im h sz D k" "rela_ok f im sz i"
  shows "unat (sh_offset (i_prog im) + r_offset (rela_at f im i)) = unat (sh_offset (i_prog im)) + unat (r_offset (rela_at f im i))"
    "unat (sh_offset (i_prog im) + r_offset (rela_at f im i)) + 4 \<le> sz"
    "unat (i_base im) + unat (sh_offset (i_prog im) + r_offset (rela_at f im i)) = site f im i"
proof -
  have "sz \<le> 65280" using assms(1) sec_small by (auto simp: load_inv_def)
  then have "unat (sh_offset (i_prog im)) + unat (r_offset (rela_at f im i)) < 65536" using assms(2) by (simp add: rela_ok_def)
  then show o: "unat (sh_offset (i_prog im) + r_offset (rela_at f im i)) = unat (sh_offset (i_prog im)) + unat (r_offset (rela_at f im i))"
    using offset_sum [of "sh_offset (i_prog im)" 1 "r_offset (rela_at f im i)"] by simp
  show "unat (sh_offset (i_prog im) + r_offset (rela_at f im i)) + 4 \<le> sz" using assms(2) unfolding o by (simp add: rela_ok_def)
  show "unat (i_base im) + unat (sh_offset (i_prog im) + r_offset (rela_at f im i)) = site f im i" unfolding o site_def by simp
qed

text \<open>The instruction that is read is still the one of the image, as far as the relocation uses it.\<close>

lemma read_instr:
  assumes inv: "load_inv f im h sz D k" and ro: "rela_ok f im sz i" and D: "\<And>j. j \<in> D \<Longrightarrow> patched f im j \<inter> patched f im i = {}"
    and bs: "patch_of f im i = Some bs"
  shows "\<exists>xs. ker_codemem_read h pid 4 (sh_offset (i_prog im) + r_offset (rela_at f im i)) k = Some (xs, SOS_OK) \<and>
    relocated (rela_at f im i) (sym_at f im i) (reloc_value f im i) xs = Some bs"
proof -
  let ?o = "sh_offset (i_prog im) + r_offset (rela_at f im i)"
  note o = site_offset [OF inv ro]
  have ci: "code_inv (heap_of k) (cm k)" "check_codemem_t h (cm k) = Some True" "cm_start_addr (handle_hdr h (cm k)) = i_base im"
    "unat (cm_size (handle_hdr h (cm k))) = sz" using inv by (simp_all add: load_inv_def)
  have "unat ?o + unat (4 :: u16) \<le> unat (cm_size (handle_hdr h (cm k)))" using o(2) ci(4) by simp
  from section_read [OF ci(1,2) this, of pid] obtain xs where xs: "ker_codemem_read h pid 4 ?o k = Some (xs, SOS_OK)" "length xs = 4"
    "\<forall>j < 4. in_flash (cm k) (site f im i + j) \<longrightarrow> xs ! j = code_view (cm k) (site f im i + j)"
    unfolding ci(3) o(3) by auto
  have "xs ! j = bytes_at f (site f im i) 4 ! j" if j: "j < length bs" for j
  proof -
    have p: "site f im i + j \<in> patched f im i" using j bs by (simp add: patched_def)
    have "in_flash (cm k) (site f im i + j) \<and> code_view (cm k) (site f im i + j) = f (site f im i + j)"
      using inv D p unfolding load_inv_def by blast
    then show ?thesis using xs(3) j patch_size [OF bs] by simp
  qed
  then have "relocated (rela_at f im i) (sym_at f im i) (reloc_value f im i) xs = Some bs"
    by (rule relocated_same [OF bytes_at_simps(1) xs(2) bs [unfolded patch_of_def]])
  with xs(1) show ?thesis by blast
qed

lemma load_inv_write:
  assumes inv: "load_inv f im h sz D k" and ro: "rela_ok f im sz i" and D: "\<And>j. j \<in> D \<Longrightarrow> patched f im j \<inter> patched f im i = {}"
    and bs: "patch_of f im i = Some bs" "bs \<noteq> []"
  shows "\<exists>k'. ker_codemem_write h pid bs (sh_offset (i_prog im) + r_offset (rela_at f im i)) k = Some (k', SOS_OK) \<and> load_inv f im h sz (insert i D) k'"
proof -
  let ?o = "sh_offset (i_prog im) + r_offset (rela_at f im i)"
  note o = site_offset [OF inv ro]
  have l: "length bs \<le> 4" by (rule patch_size [OF bs(1)])
  have ci: "code_inv (heap_of k) (cm k)" "check_codemem_t h (cm k) = Some True" "cm_start_addr (handle_hdr h (cm k)) = i_base im"
    "unat (cm_size (handle_hdr h (cm k))) = sz" "flash_cache_page (cm k) = NULL \<longrightarrow> cache_room k" using inv by (simp_all add: load_inv_def split: if_splits)
  have s: "unat ?o + length bs \<le> unat (cm_size (handle_hdr h (cm k)))" "length bs \<le> 256" using o(2) ci(4) l by simp_all
  obtain k' where k': "ker_codemem_write h pid bs ?o k = Some (k', SOS_OK)" "code_inv (heap_of k') (cm k')" "same_table (cm k) (cm k')"
    "code_view (cm k') = spm_write (site f im i) bs (code_view (cm k))"
    "\<forall>x. in_flash (cm k) x \<and> x \<notin> {site f im i..<site f im i + length bs} \<longrightarrow> in_flash (cm k') x"
    "flash_cache_page (cm k') \<noteq> NULL" "flash_cache_addr (cm k') \<noteq> 0"
    using first_write [OF ci(1,5,2) s, of pid] bs(2) unfolding ci(3) o(3) by blast
  have pi: "patched f im i = {site f im i..<site f im i + length bs}" using bs(1) by (simp add: patched_def)
  have v: "code_view (cm k') x = code_view (cm k) x" if "x \<notin> patched f im i" for x
    using that unfolding pi k'(4) by (auto simp: spm_write_def)
  have new: "bytes_at (code_view (cm k')) (site f im i) (length bs) = bs" unfolding k'(4) by (rule nth_equalityI) (simp_all add: spm_write_def)
  have old: "bytes_at (code_view (cm k')) (site f im j) (length (the (patch_of f im j))) = the (patch_of f im j)" if "j \<in> D" for j
  proof -
    have "code_view (cm k') (site f im j + x) = code_view (cm k) (site f im j + x)" if "x < length (the (patch_of f im j))" for x
    proof (rule v)
      have "site f im j + x \<in> patched f im j" using that by (simp add: patched_def)
      then show "site f im j + x \<notin> patched f im i" using D [OF \<open>j \<in> D\<close>] by blast
    qed
    then have "bytes_at (code_view (cm k')) (site f im j) (length (the (patch_of f im j))) = bytes_at (code_view (cm k)) (site f im j) (length (the (patch_of f im j)))"
      by (simp add: bytes_at_def)
    then show ?thesis using inv that by (simp add: load_inv_def)
  qed
  have kept: "in_flash (cm k') x \<and> code_view (cm k') x = f x" if x: "\<forall>j \<in> insert i D. x \<notin> patched f im j" for x
    using inv x k'(5) v [of x] unfolding load_inv_def pi [symmetric] by simp
  have "load_inv f im h sz (insert i D) k'"
    unfolding load_inv_def same_table_handle [OF k'(3)] using k'(2,6,7) ci(2-4) kept old new bs(1) by simp
  with k'(1) show ?thesis by blast
qed

lemma relocate_step:
  assumes inv: "load_inv f im h sz D k" and ok: "image_ok f im sz" "D \<subseteq> {..<rela_num im}" "i < rela_num im" "i \<notin> D"
    and d: "cmhdl mdesc = h" "base_addr mdesc = i_base im"
  shows "\<exists>k'. melf_arch_relocate mdesc (rela_at f im i) (sym_at f im i) (i_prog im) k = Some (k', 0) \<and> load_inv f im h sz (insert i D) k'"
proof -
  have ro: "rela_ok f im sz i" using ok by (simp add: image_ok_def)
  have D: "patched f im j \<inter> patched f im i = {}" if "j \<in> D" for j
    using ok that by (auto simp: image_ok_def apart_def)
  obtain bs where bs: "patch_of f im i = Some bs" using ro by (auto simp: rela_ok_def)
  have t: "reloc_target mdesc (rela_at f im i) (sym_at f im i) (i_prog im) k = Some (k, Some (reloc_value f im i))"
    using ro d by (simp add: reloc_target_def reloc_value_def rela_ok_def)
  obtain xs where xs: "ker_codemem_read h KER_DFT_LOADER_PID 4 (sh_offset (i_prog im) + r_offset (rela_at f im i)) k = Some (xs, SOS_OK)"
    "relocated (rela_at f im i) (sym_at f im i) (reloc_value f im i) xs = Some bs"
    using read_instr [OF inv ro D bs] by blast
  have e: "melf_arch_relocate mdesc (rela_at f im i) (sym_at f im i) (i_prog im) k =
    (if bs = [] then Some (k, 0) else do { (k2, r) \<leftarrow> ker_codemem_write h KER_DFT_LOADER_PID bs (sh_offset (i_prog im) + r_offset (rela_at f im i)) k; Some (k2, 0) })"
    unfolding melf_arch_relocate_def Let_def t by (simp add: d xs)
  show ?thesis
  proof (cases "bs = []")
    case True
    then have "load_inv f im h sz (insert i D) k" using inv bs unfolding load_inv_def by (simp add: patched_def bytes_at_def)
    with True e show ?thesis by simp
  next
    case False
    with load_inv_write [OF inv ro D bs False, of KER_DFT_LOADER_PID] e show ?thesis by auto
  qed
qed

lemma relocate_loop_law:
  assumes "load_inv f im h sz D k" "image_ok f im sz" "D \<subseteq> {..<rela_num im}" "set is \<subseteq> {..<rela_num im}" "distinct is" "set is \<inter> D = {}"
    and "cmhdl mdesc = h" "base_addr mdesc = i_base im"
  shows "\<exists>k'. relocate_loop mdesc (i_rela im) (Some (i_prog im)) (Some (i_sym im)) is r s k = Some k' \<and> load_inv f im h sz (D \<union> set is) k'"
  using assms(1,3-6)
proof (induction "is" arbitrary: D k r s)
  case (Cons i "is")
  have i: "i < rela_num im" "i \<notin> D" using Cons.prems by auto
  obtain k1 where k1: "melf_arch_relocate mdesc (rela_at f im i) (sym_at f im i) (i_prog im) k = Some (k1, 0)" "load_inv f im h sz (insert i D) k1"
    using relocate_step [OF Cons.prems(1) assms(2) Cons.prems(2) i assms(7,8)] by blast
  obtain k' where "relocate_loop mdesc (i_rela im) (Some (i_prog im)) (Some (i_sym im)) is (Some (rela_at f im i)) (Some (sym_at f im i)) k1 = Some k'"
    "load_inv f im h sz (insert i D \<union> set is) k'"
    using Cons.IH [OF k1(2), where r = "Some (rela_at f im i)" and s = "Some (sym_at f im i)"] Cons.prems by auto
  then show ?case
    using read_records [OF Cons.prems(1) assms(2) Cons.prems(2) i(1) assms(7)] k1(1) by (simp add: read_into_def)
qed simp

section \<open>The headers of an image\<close>

definition mhdr_at :: "flash \<Rightarrow> image \<Rightarrow> Melf_Mhdr" where
  "mhdr_at f im = the (Mhdr_of (bytes_at f (unat (i_base im)) 4))"

definition shdr_at :: "flash \<Rightarrow> image \<Rightarrow> nat \<Rightarrow> Melf_Shdr" where
  "shdr_at f im i = the (Shdr_of (bytes_at f (unat (i_base im) + 4 + 8 * i) 8))"

definition shdr_num :: "flash \<Rightarrow> image \<Rightarrow> nat" where
  "shdr_num f im = unat (m_shnum (mhdr_at f im))"

definition image_shdrs :: "flash \<Rightarrow> image \<Rightarrow> nat list \<Rightarrow> image_shdrs \<Rightarrow> image_shdrs" where
  "image_shdrs f im is m = fold (\<lambda>i. note_shdr (shdr_at f im i)) is m"

text \<open>An image in a section of \<open>sz\<close> bytes whose headers name the three sections of \<open>im\<close>.\<close>

definition is_image :: "flash \<Rightarrow> image \<Rightarrow> nat \<Rightarrow> bool" where
  "is_image f im sz \<longleftrightarrow> 4 + 8 * shdr_num f im \<le> sz \<and> image_ok f im sz \<and>
     image_shdrs f im [0..<shdr_num f im] \<lparr>im_sym = None, im_prog = None, im_rela = None\<rparr> =
       \<lparr>im_sym = Some (i_sym im), im_prog = Some (i_prog im), im_rela = Some (i_rela im)\<rparr>"

lemma Shdr_of_some: "length bs = 8 \<Longrightarrow> \<exists>r. Shdr_of bs = Some r"
  by (auto simp: length_Suc_conv numeral_eq_Suc)

lemma Mhdr_of_some: "length bs = 4 \<Longrightarrow> \<exists>r. Mhdr_of bs = Some r"
  by (auto simp: length_Suc_conv numeral_eq_Suc)

lemma begin_law:
  assumes inv: "load_inv f im h sz {} k" and n: "4 \<le> sz"
  shows "melf_begin h k = Some (Inr \<lparr>cmhdl = h, mhdr = mhdr_at f im, base_addr = i_base im\<rparr>)"
proof -
  have r: "ker_codemem_read h KER_DFT_LOADER_PID 4 0 k = Some (bytes_at f (unat (i_base im)) 4, SOS_OK)"
    using load_read [OF inv, of 0 4 KER_DFT_LOADER_PID] n by simp
  obtain m where m: "Mhdr_of (bytes_at f (unat (i_base im)) 4) = Some m" using Mhdr_of_some bytes_at_simps(1) by blast
  have "ker_codemem_get_start_address h k = Some (i_base im)"
    using inv by (simp add: ker_codemem_get_start_address_def load_inv_def)
  then show ?thesis using m by (simp add: melf_begin_def r mhdr_at_def)
qed

lemma shdr_law:
  assumes inv: "load_inv f im h sz {} k" and n: "4 + 8 * shdr_num f im \<le> sz" "i < shdr_num f im"
    and d: "cmhdl mdesc = h" "mhdr mdesc = mhdr_at f im"
  shows "melf_read_shdr_ndx mdesc (of_nat i) k = Some (Inr (shdr_at f im i))"
proof -
  have "unat (m_shnum (mhdr_at f im)) < 2 ^ LENGTH(8)" by (rule unsigned_less)
  then have i: "i < 256" using n(2) by (simp add: shdr_num_def)
  then have ui: "unat (of_nat i :: u8) = i" by (simp add: unat_of_nat)
  have o: "unat (ucast (of_nat i :: u8) * 8 + 4 :: u16) = 4 + 8 * i"
    using i by (simp add: unat_word_ariths unsigned_ucast_eq unat_of_nat take_bit_eq_mod)
  have lt: "\<not> m_shnum (mhdr_at f im) \<le> of_nat i" using n(2) ui by (simp add: word_le_nat_alt shdr_num_def)
  have r: "ker_codemem_read h KER_DFT_LOADER_PID 8 (ucast (of_nat i :: u8) * 8 + 4) k =
    Some (bytes_at f (unat (i_base im) + unat (ucast (of_nat i :: u8) * 8 + 4 :: u16)) (unat (8 :: u16)), SOS_OK)"
    by (rule load_read [OF inv]) (use n in \<open>simp_all add: o\<close>)
  obtain s where s: "Shdr_of (bytes_at f (unat (i_base im) + (4 + 8 * i)) (unat (8 :: u16))) = Some s"
    using Shdr_of_some bytes_at_simps(1) by fastforce
  then have "shdr_at f im i = s" by (simp add: shdr_at_def add.assoc)
  then show ?thesis unfolding melf_read_shdr_ndx_def d if_not_P [OF lt] r o using s by simp
qed

lemma shdrs_law:
  assumes "load_inv f im h sz {} k" "4 + 8 * shdr_num f im \<le> sz" "cmhdl mdesc = h" "mhdr mdesc = mhdr_at f im" "\<forall>i \<in> set is. i < shdr_num f im"
  shows "read_shdrs mdesc is m k = Some (Inr (image_shdrs f im is m))"
  using assms(5) by (induction "is" arbitrary: m) (simp_all add: shdr_law [OF assms(1,2) _ assms(3,4)] image_shdrs_def)

section \<open>Loading and releasing\<close>

lemma loader_flush:
  assumes inv: "load_inv f im h sz D k"
  shows "\<exists>k'. ker_codemem_flush h pid k = Some (k', SOS_OK) \<and> code_inv (heap_of k') (cm k') \<and> flash_cache_page (cm k') = NULL \<and>
    flash (cm k') = code_view (cm k) \<and> same_table (cm k) (cm k')"
proof (cases "flash_cache_page (cm k) = NULL")
  case True
  then show ?thesis using inv by (simp add: ker_codemem_flush_def codemem_cache_flush_def load_inv_def code_view_def same_table_def)
next
  case False
  let ?d = "(cm k)\<lparr>flash := code_view (cm k), flash_cache_page := NULL, flash_cache_addr := 0\<rparr>"
  have c: "code_inv (heap_of k) (cm k)" "flash_cache_addr (cm k) \<noteq> 0" using inv False by (simp_all add: load_inv_def)
  obtain g where "ker_codemem_flush h pid k = Some ((set_heap g k)\<lparr>cm := ?d\<rparr>, SOS_OK)" "code_inv g ?d"
    using flush_law [OF c(1) False c(2)] by blast
  then show ?thesis by (intro exI [of _ "(set_heap g k)\<lparr>cm := ?d\<rparr>"]) (simp add: same_table_def)
qed

lemma load_law:
  assumes inv: "code_inv (heap_of k) (cm k)" and h: "check_codemem_t h (cm k) = Some True" and pg: "flash_cache_page (cm k) = NULL" "cache_room k"
    and im: "cm_start_addr (handle_hdr h (cm k)) = i_base im" "is_image (flash (cm k)) im (unat (cm_size (handle_hdr h (cm k))))"
  shows "\<exists>k'. melf_load_module h k = Some (k', SOS_OK) \<and> code_inv (heap_of k') (cm k') \<and> flash_cache_page (cm k') = NULL \<and> check_codemem_t h (cm k') = Some True \<and>
    (\<forall>i < rela_num im. bytes_at (flash (cm k')) (site (flash (cm k)) im i) (length (the (patch_of (flash (cm k)) im i))) = the (patch_of (flash (cm k)) im i)) \<and>
    (\<forall>x. (\<forall>i < rela_num im. x \<notin> patched (flash (cm k)) im i) \<longrightarrow> flash (cm k') x = flash (cm k) x)"
proof -
  let ?f = "flash (cm k)" and ?sz = "unat (cm_size (handle_hdr h (cm k)))" let ?d = "\<lparr>cmhdl = h, mhdr = mhdr_at ?f im, base_addr = i_base im\<rparr>"
  have l0: "load_inv ?f im h ?sz {} k" using inv h pg im(1) by (simp add: load_inv_def in_flash_def code_view_def)
  have n: "4 + 8 * shdr_num ?f im \<le> ?sz" "image_ok ?f im ?sz" "4 \<le> ?sz" using im(2) by (simp_all add: is_image_def)
  have sh: "read_shdrs ?d [0..<unat (m_shnum (mhdr_at ?f im))] \<lparr>im_sym = None, im_prog = None, im_rela = None\<rparr> k =
    Some (Inr \<lparr>im_sym = Some (i_sym im), im_prog = Some (i_prog im), im_rela = Some (i_rela im)\<rparr>)"
    using shdrs_law [OF l0 n(1), of ?d "[0..<shdr_num ?f im]"] im(2) by (simp add: is_image_def shdr_num_def)
  obtain k1 where k1: "relocate_loop ?d (i_rela im) (Some (i_prog im)) (Some (i_sym im)) [0..<rela_num im] None None k = Some k1"
    "load_inv ?f im h ?sz ({} \<union> set [0..<rela_num im]) k1"
    using relocate_loop_law [OF l0 n(2), of "[0..<rela_num im]" ?d None None] by (auto simp: atLeast0LessThan)
  obtain k2 where k2: "ker_codemem_flush h KER_DFT_LOADER_PID k1 = Some (k2, SOS_OK)" "code_inv (heap_of k2) (cm k2)" "flash_cache_page (cm k2) = NULL"
    "flash (cm k2) = code_view (cm k1)" "same_table (cm k1) (cm k2)"
    using loader_flush [OF k1(2)] by blast
  have "melf_load_module h k = Some (k2, SOS_OK)"
    using begin_law [OF l0 n(3)] sh k1(1) k2(1) by (simp add: melf_load_module_def melf_relocate_def rela_num_def)
  moreover have "check_codemem_t h (cm k2) = Some True" using same_table_handle(1) [OF k2(5)] k1(2) by (simp add: load_inv_def)
  ultimately show ?thesis using k2(2-4) k1(2) unfolding load_inv_def by auto
qed

lemma patch_refers:
  assumes "patch_of f im i = Some bs" "2 \<le> r_type (rela_at f im i)" "r_type (rela_at f im i) \<le> 18"
  shows "refers (rela_at f im i) (sym_at f im i) (reloc_value f im i) (bytes_at f (site f im i) 4) bs"
proof -
  obtain a b c d where l: "bytes_at f (site f im i) 4 = [a, b, c, d]" using list_of_four bytes_at_simps(1) by blast
  show ?thesis using relocated_refers [OF assms(1) [unfolded patch_of_def l] assms(2,3)] unfolding l .
qed

text \<open>
  C8. Loading a module. For an image in a flushed section whose tables lie in the section and whose relocated instructions overlap neither
  each other nor the tables, whose relocation records are of the types 2 to 18 and name no function of another module
  (\<^verbatim>\<open>STT_SOS_DFUNC\<close>), whose distances of relative jumps do not overflow 16 bits, and with memory for the page cache,
  \<^verbatim>\<open>melf_load_module\<close> returns \<^verbatim>\<open>SOS_OK\<close> and keeps the invariant of code memory.
  Afterwards each instruction that the relocation table names refers to its symbol: an \<^verbatim>\<open>LDI\<close> loads the selected byte of the
  address, a \<^verbatim>\<open>CALL\<close> goes to it, a data word holds it, and a relative jump goes to it if its distance is in the range of the
  instruction (for a conditional branch also if its operand was zero), while opcode and registers stay. All other bytes of program
  memory are unchanged. This holds although the loader reads the image while the page cache holds relocated instructions.
\<close>

theorem melf_load_correct:
  assumes "code_inv (heap_of k) (cm k)" "check_codemem_t h (cm k) = Some True" "flash_cache_page (cm k) = NULL" "cache_room k"
    "cm_start_addr (handle_hdr h (cm k)) = i_base im" "is_image (flash (cm k)) im (unat (cm_size (handle_hdr h (cm k))))"
    "\<forall>i < rela_num im. 2 \<le> r_type (rela_at (flash (cm k)) im i) \<and> r_type (rela_at (flash (cm k)) im i) \<le> 18"
  shows "\<exists>k'. melf_load_module h k = Some (k', SOS_OK) \<and> code_inv (heap_of k') (cm k') \<and> flash_cache_page (cm k') = NULL \<and> check_codemem_t h (cm k') = Some True \<and>
    (\<forall>i < rela_num im. refers (rela_at (flash (cm k)) im i) (sym_at (flash (cm k)) im i) (reloc_value (flash (cm k)) im i) (bytes_at (flash (cm k)) (site (flash (cm k)) im i) 4)
       (bytes_at (flash (cm k')) (site (flash (cm k)) im i) (length (the (patch_of (flash (cm k)) im i))))) \<and>
    (\<forall>x. (\<forall>i < rela_num im. x \<notin> patched (flash (cm k)) im i) \<longrightarrow> flash (cm k') x = flash (cm k) x)"
proof -
  let ?f = "flash (cm k)"
  obtain k' where k': "melf_load_module h k = Some (k', SOS_OK)" "code_inv (heap_of k') (cm k')" "flash_cache_page (cm k') = NULL" "check_codemem_t h (cm k') = Some True"
    "\<forall>i < rela_num im. bytes_at (flash (cm k')) (site ?f im i) (length (the (patch_of ?f im i))) = the (patch_of ?f im i)"
    "\<forall>x. (\<forall>i < rela_num im. x \<notin> patched ?f im i) \<longrightarrow> flash (cm k') x = ?f x"
    using load_law [OF assms(1-6)] by blast
  have "refers (rela_at ?f im i) (sym_at ?f im i) (reloc_value ?f im i) (bytes_at ?f (site ?f im i) 4) (the (patch_of ?f im i))" if "i < rela_num im" for i
  proof -
    have "patch_of ?f im i \<noteq> None" using assms(6) that unfolding is_image_def image_ok_def rela_ok_def by blast
    then obtain bs where "patch_of ?f im i = Some bs" by blast
    then show ?thesis using patch_refers assms(7) that by simp
  qed
  with k' show ?thesis by (intro exI [of _ k']) simp
qed

section \<open>A small image\<close>

text \<open>One section with the instruction \<^verbatim>\<open>LDI r16, lo8(label)\<close>, one symbol and one relocation record.\<close>

definition demo_bytes :: "u8 list" where
  "demo_bytes = [0, 0, 3, 0,  1, 1, 28, 0, 4, 0, 0, 0,  2, 2, 32, 0, 4, 0, 0, 0,  3, 4, 36, 0, 8, 0, 0, 0,
     0x00, 0xe0, 0, 0,  2, 0, 0, 1,  0, 0, 0, 0, 0, 0, 6, 0]"

definition demo_flash :: flash where
  "demo_flash a = (if 65536 \<le> a \<and> a < 65580 then demo_bytes ! (a - 65536) else 0xff)"

definition demo_image :: image where
  "demo_image = \<lparr>i_base = 65536, i_sym = \<lparr>sh_id = 2, sh_type = 2, sh_offset = 32, sh_size = 4, sh_link = 0, sh_info = 0\<rparr>,
     i_prog = \<lparr>sh_id = 1, sh_type = 1, sh_offset = 28, sh_size = 4, sh_link = 0, sh_info = 0\<rparr>,
     i_rela = \<lparr>sh_id = 3, sh_type = 4, sh_offset = 36, sh_size = 8, sh_link = 0, sh_info = 0\<rparr>\<rparr>"

lemma demo_bytes_at [simp]:
  "bytes_at demo_flash 65536 4 = [0, 0, 3, 0]"
  "bytes_at demo_flash 65540 8 = [1, 1, 28, 0, 4, 0, 0, 0]"
  "bytes_at demo_flash 65548 8 = [2, 2, 32, 0, 4, 0, 0, 0]"
  "bytes_at demo_flash 65556 8 = [3, 4, 36, 0, 8, 0, 0, 0]"
  "bytes_at demo_flash 65564 4 = [0, 0xe0, 0, 0]"
  "bytes_at demo_flash 65568 4 = [2, 0, 0, 1]"
  "bytes_at demo_flash 65572 8 = [0, 0, 0, 0, 0, 0, 6, 0]"
  by (simp_all add: bytes_at_def upt_rec demo_flash_def demo_bytes_def)

lemma demo_fields [simp]:
  "i_base demo_image = 65536" "sh_offset (i_rela demo_image) = 36" "sh_offset (i_sym demo_image) = 32" "sh_offset (i_prog demo_image) = 28"
  "sh_size (i_rela demo_image) = 8" "sh_type (i_rela demo_image) = SHT_RELA" "sh_type (i_sym demo_image) = SHT_SYMTAB" "sh_type (i_prog demo_image) = SHT_PROGBITS"
  by (simp_all add: demo_image_def SHT_SYMTAB_def SHT_PROGBITS_def SHT_RELA_def)

lemma demo_records [simp]:
  "rela_num demo_image = 1" "shdr_num demo_flash demo_image = 3"
  "rela_at demo_flash demo_image 0 = \<lparr>r_offset = 0, r_symbol = 0, r_addend = 0, r_type = 6\<rparr>"
  "sym_at demo_flash demo_image 0 = \<lparr>st_value = 2, st_info = 0, st_shid = 1\<rparr>"
  "site demo_flash demo_image 0 = 65564" "reloc_value demo_flash demo_image 0 = 65566"
proof -
  show r: "rela_at demo_flash demo_image 0 = \<lparr>r_offset = 0, r_symbol = 0, r_addend = 0, r_type = 6\<rparr>"
    by (simp add: rela_at_def word_of_def)
  show s: "sym_at demo_flash demo_image 0 = \<lparr>st_value = 2, st_info = 0, st_shid = 1\<rparr>" by (simp add: sym_at_def r word_of_def)
  show "site demo_flash demo_image 0 = 65564" "reloc_value demo_flash demo_image 0 = 65566" by (simp_all add: site_def reloc_value_def r s)
qed (simp_all add: rela_num_def shdr_num_def mhdr_at_def word_of_def)

lemma demo_shdrs [simp]:
  "shdr_at demo_flash demo_image 0 = i_prog demo_image" "shdr_at demo_flash demo_image (Suc 0) = i_sym demo_image" "shdr_at demo_flash demo_image (Suc (Suc 0)) = i_rela demo_image"
  by (simp_all add: shdr_at_def word_of_def) (simp_all add: demo_image_def)

lemma demo_patch [simp]: "patch_of demo_flash demo_image 0 = Some [0x0e, 0xe1]"
  by (simp add: patch_of_def relocated.simps)

lemma demo_is_image: "is_image demo_flash demo_image 600"
proof -
  have "rela_ok demo_flash demo_image 600 0" "apart demo_flash demo_image 0 0"
    by (auto simp: rela_ok_def apart_def patched_def MELF_ST_TYPE_def STT_SOS_DFUNC_def)
  then have "image_ok demo_flash demo_image 600" by (simp add: image_ok_def)
  moreover have "image_shdrs demo_flash demo_image [0..<3] \<lparr>im_sym = None, im_prog = None, im_rela = None\<rparr> =
       \<lparr>im_sym = Some (i_sym demo_image), im_prog = Some (i_prog demo_image), im_rela = Some (i_rela demo_image)\<rparr>"
    by (simp add: image_shdrs_def upt_rec note_shdr_def SHT_SYMTAB_def SHT_PROGBITS_def SHT_RELA_def)
  ultimately show ?thesis by (simp add: is_image_def)
qed

text \<open>A node with the image in its only section.\<close>

definition demo_code :: "addr \<Rightarrow> codemem" where
  "demo_code hdr = (new_section 0 hdr 0 600 [7, 0] (empty_code NULL))\<lparr>flash := demo_flash\<rparr>"

lemma demo_code_handle:
  assumes "hdr \<noteq> NULL"
  shows "check_codemem_t 0x0100 (demo_code hdr) = Some True"
    "handle_hdr 0x0100 (demo_code hdr) = \<lparr>cm_start_addr = 65536, cm_size = 600, cm_salt = 1, cm_flag = 0\<rparr>"
    "flash_cache_page (demo_code hdr) = NULL" "flash (demo_code hdr) = demo_flash" "codemem_handle_list (demo_code hdr) ! 0 = hdr"
  using assms by (simp_all add: demo_code_def check_codemem_t_def handle_hdr_def empty_code_def CODEMEM_MAX_LOADABLE_MODULES_def Let_def new_section_def set_hdr_def)

lemma demo_code_pages: "page_bit [7, 0] q = (q < 3)" if "q < 16"
proof -
  have m: "(7 :: u8) = mask 3" by (simp add: mask_eq_exp_minus_1)
  have "q div 8 = 0 \<and> q mod 8 = q \<or> q div 8 = 1 \<and> \<not> q < 3" using that by (cases "q < 8") auto
  then show ?thesis unfolding page_bit_def m by (auto simp: bit_simps)
qed

lemma demo_code_inv:
  assumes "heap_ok h" "malloc_longterm CODEMEM_HDR_SIZE KER_CODEMEM_PID h = Some (h', hdr)" "hdr \<noteq> NULL"
  shows "code_inv h' (demo_code hdr)"
proof -
  let ?c = "empty_code NULL"
  have inv: "code_inv h ?c" by (rule empty_code_inv) (use assms(1) in simp_all)
  have o: "heap_ok h'" "\<forall>q. owned h q \<longrightarrow> owned h' q" "owned h' hdr" "\<not> owned h hdr"
    using owned_add [OF assms(1,2)] assms(3) by (auto simp: CODEMEM_HDR_SIZE_def)
  have n: "unat (pages_of 600) = 3" by (simp add: pages_of_size)
  have i: "0 < CODEMEM_MAX_LOADABLE_MODULES" "codemem_handle_list ?c ! 0 = NULL"
    by (simp_all add: empty_code_def CODEMEM_MAX_LOADABLE_MODULES_def)
  have l: "length (flash_alloc_bitmap ?c) = 2" by (simp add: empty_code_def)
  have e: "used_pages ?c = {}" using empty_code_pages [of _ NULL] l by (auto simp: used_pages_def)
  have "used_pages (?c\<lparr>flash_alloc_bitmap := [7, 0]\<rparr>) = {0..<3}" using demo_code_pages by (auto simp: used_pages_def)
  then have "code_inv h' (new_section 0 hdr 0 600 [7, 0] ?c)"
    by (intro new_section_inv(1) [OF inv i o(1,2) assms(3) o(3,4)]) (simp_all add: n l e)
  then show ?thesis unfolding demo_code_def
    by (rule code_inv_frame) (use o(1) in \<open>simp_all add: page_cache_ok_def empty_code_def new_section_def set_hdr_def\<close>)
qed

lemma loader_heap:
  "\<exists>h h' hdr. heap_ok h \<and> malloc_longterm CODEMEM_HDR_SIZE KER_CODEMEM_PID h = Some (h', hdr) \<and> hdr \<noteq> NULL \<and>
     (\<exists>g p. ker_malloc 256 KER_CODEMEM_PID h' = Some (g, p) \<and> p \<noteq> NULL)"
proof -
  let ?a = "[Used 11 11 11 False, Used 3 130 130 False, Free 49]"
  let ?b = "[Used 11 11 11 False, Used 3 130 130 False, Free 47, Used 2 15 15 False]"
  obtain h where h: "rep h ?a" using boot_heap by blast
  have r: "unat (req_blocks 256) = 33" "unat (req_blocks 8) = 2" by (simp_all add: unat_req_blocks)
  have "longterm_areas 2 15 0 ?a = (?b, Some 61)" by (simp add: longterm_areas_def)
  with rep_longterm_alloc [OF h, of 8 _ "Some 61" 15] r(2) obtain h' where
    h': "malloc_longterm 8 15 h = Some (h', user_part h 61)" "rep h' ?b" by auto
  have "alloc_areas 33 15 0 ?b = ([Used 11 11 11 False, Used 3 130 130 False, Used 33 15 15 False, Free 14, Used 2 15 15 False], Some 14)"
    by (simp add: Let_def split_off_def)
  with rep_alloc [OF h'(2), of 256 _ "Some 14" 15] r(1) obtain g where g: "ker_malloc 256 15 h' = Some (g, user_part h' 14)" by auto
  have "heap_ok h" using h by (intro exI [of _ ?a] iffD2 [OF heap_ok_def]) simp
  moreover have "user_part x i \<noteq> NULL" for x i by (simp add: user_part_def HEADER_SIZE_def)
  ultimately show ?thesis using h'(1) g unfolding CODEMEM_HDR_SIZE_def KER_CODEMEM_PID_def by blast
qed

theorem melf_load_correct_witness:
  "\<exists>k k'. melf_load_module 0x0100 k = Some (k', SOS_OK) \<and> code_inv (heap_of k') (cm (k' :: cm_sys)) \<and>
    bytes_at (flash (cm k)) 65564 2 = [0, 0xe0] \<and> ldi_byte (bytes_at (flash (cm k')) 65564 2) = 0x1e"
proof -
  obtain h h' hdr where h: "heap_ok h" "malloc_longterm CODEMEM_HDR_SIZE KER_CODEMEM_PID h = Some (h', hdr)" "hdr \<noteq> NULL"
     "\<exists>g p. ker_malloc 256 KER_CODEMEM_PID h' = Some (g, p) \<and> p \<noteq> NULL"
    using loader_heap by blast
  let ?k = "code_node h' (demo_code hdr)"
  note c = demo_code_handle [OF h(3)]
  have "bytes_at demo_flash 65564 2 = [0, 0xe0]" by (simp add: bytes_at_def upt_rec demo_flash_def demo_bytes_def)
  moreover obtain k' where "melf_load_module 0x0100 ?k = Some (k', SOS_OK)" "code_inv (heap_of k') (cm k')"
    "refers (rela_at demo_flash demo_image 0) (sym_at demo_flash demo_image 0) (reloc_value demo_flash demo_image 0) (bytes_at demo_flash 65564 4) (bytes_at (flash (cm k')) 65564 2)"
    using melf_load_correct [of ?k "0x0100" demo_image] demo_code_inv [OF h(1-3)] c h(4) demo_is_image
    by (auto simp: cache_room_def numeral_2_eq_2 [symmetric])
  moreover have "ldi_value 6 65566 = 0x1e" by (simp add: ldi_value_def Let_def)
  ultimately show ?thesis using c(4) by (intro exI [of _ ?k] exI [of _ k']) (simp add: refers_def Let_def)
qed

lemma code_inv_drop:
  assumes inv: "code_inv h c" and i: "i < CODEMEM_MAX_LOADABLE_MODULES" "codemem_handle_list c ! i = p" "p \<noteq> NULL"
    and h: "heap_ok h'" "\<forall>q. owned h q \<and> q \<noteq> p \<longrightarrow> owned h' q"
    and bm: "length bm = length (flash_alloc_bitmap c)" "used_pages (c\<lparr>flash_alloc_bitmap := bm\<rparr>) = used_pages c - section_pages c p"
  defines "c' \<equiv> c\<lparr>flash_alloc_bitmap := bm, codemem_handle_list := (codemem_handle_list c)[i := NULL]\<rparr>"
  shows "code_inv h' c'" "live_hdrs c' = live_hdrs c - {p}" "used_pages c' = used_pages c - section_pages c p"
proof -
  have l: "length (codemem_handle_list c) = CODEMEM_MAX_LOADABLE_MODULES" using inv by (simp add: code_inv_def)
  have uniq: "j < CODEMEM_MAX_LOADABLE_MODULES \<Longrightarrow> m < CODEMEM_MAX_LOADABLE_MODULES \<Longrightarrow> codemem_handle_list c ! j = codemem_handle_list c ! m \<Longrightarrow>
      codemem_handle_list c ! j \<noteq> NULL \<Longrightarrow> j = m" for j m
    using inv by (simp add: code_inv_def)
  have one: "codemem_handle_list c ! j = p \<longleftrightarrow> j = i" if "j < CODEMEM_MAX_LOADABLE_MODULES" for j
    using uniq [OF that i(1)] i by auto
  have ne: "j \<noteq> i \<Longrightarrow> (codemem_handle_list c)[i := NULL] ! j = codemem_handle_list c ! j" for j by simp
  have ix: "j < CODEMEM_MAX_LOADABLE_MODULES \<Longrightarrow> codemem_handle_list c ! j \<in> set (codemem_handle_list c)" for j using l by simp
  have "x \<in> set ((codemem_handle_list c)[i := NULL]) - {NULL} \<longleftrightarrow> x \<in> set (codemem_handle_list c) - {NULL} - {p}" for x
  proof
    assume "x \<in> set ((codemem_handle_list c)[i := NULL]) - {NULL}"
    then obtain j where j: "j < CODEMEM_MAX_LOADABLE_MODULES" "(codemem_handle_list c)[i := NULL] ! j = x" "x \<noteq> NULL"
      using l by (auto simp: in_set_conv_nth)
    then have "j \<noteq> i" using i(1) l by auto
    with j ne one ix show "x \<in> set (codemem_handle_list c) - {NULL} - {p}" by auto
  next
    assume "x \<in> set (codemem_handle_list c) - {NULL} - {p}"
    then obtain j where j: "j < CODEMEM_MAX_LOADABLE_MODULES" "codemem_handle_list c ! j = x" "x \<noteq> NULL" "x \<noteq> p"
      using l by (auto simp: in_set_conv_nth)
    then have "j \<noteq> i" using i(2) by auto
    then have "(codemem_handle_list c)[i := NULL] ! j = x" using ne j(2) by simp
    then show "x \<in> set ((codemem_handle_list c)[i := NULL]) - {NULL}"
      using j(1,3) l nth_mem [of j "(codemem_handle_list c)[i := NULL]"] by simp
  qed
  then show live: "live_hdrs c' = live_hdrs c - {p}" unfolding live_hdrs_def c'_def by auto
  show used: "used_pages c' = used_pages c - section_pages c p" using bm(2) by (simp add: used_pages_def c'_def)
  have pl: "p \<in> live_hdrs c" using ix [OF i(1)] i by (simp add: live_hdrs_def)
  have s: "section_pages c' q = section_pages c q" "first_page c' q = first_page c q" for q by (simp_all add: section_pages_def first_page_def c'_def)
  have hd: "hdr_ok c' q" if q: "q \<in> live_hdrs c" "q \<noteq> p" for q
  proof -
    have "hdr_ok c q" "section_pages c p \<inter> section_pages c q = {}" using inv pl q by (simp_all add: code_inv_def)
    then show ?thesis unfolding hdr_ok_def s used by (auto simp: c'_def)
  qed
  have fl: "flash_ok c'" using inv bm(1) by (simp add: code_inv_def flash_ok_def bitmap_ok_def page_cache_ok_def c'_def)
  have "(codemem_handle_list c)[i := NULL] ! j = (codemem_handle_list c)[i := NULL] ! m \<and> (codemem_handle_list c)[i := NULL] ! j \<noteq> NULL \<longrightarrow> j = m"
    if "j < CODEMEM_MAX_LOADABLE_MODULES" "m < CODEMEM_MAX_LOADABLE_MODULES" for j m
    using uniq [OF that] i(1) l by (cases "j = i"; cases "m = i"; auto)
  moreover have "flash_cache_page c \<noteq> NULL \<longrightarrow> owned h' (flash_cache_page c) \<and> flash_cache_page c \<notin> live_hdrs c"
    using inv pl h(2) by (auto simp: code_inv_def)
  moreover have "owned h' q" if "q \<in> live_hdrs c" "q \<noteq> p" for q using inv h(2) that by (simp add: code_inv_def)
  moreover have "section_pages c q \<inter> section_pages c r = {}" if "q \<in> live_hdrs c" "r \<in> live_hdrs c" "q \<noteq> r" for q r
    using inv that by (simp add: code_inv_def)
  ultimately show "code_inv h' c'"
    unfolding code_inv_def live s(1) using h(1) fl hd l by (simp add: c'_def)
qed

text \<open>
  C12. Releasing a section. For a valid handle of a section that is not executable, \<^verbatim>\<open>ker_codemem_free\<close> returns \<^verbatim>\<open>SOS_OK\<close>,
  keeps the invariant of code memory, and frees exactly the pages and the descriptor of the section: the chunk of the descriptor, and no
  other one, is given back to the memory manager, the handle is invalid
  afterwards, the other sections keep their descriptors, and no byte of program memory changes.
\<close>

theorem codemem_free_correct:
  assumes inv: "code_inv (heap_of k) (cm k)" and h: "check_codemem_t h (cm k) = Some True"
    and fl: "cm_flag (handle_hdr h (cm k)) AND CODEMEM_EXECUTABLE_FLAG = 0"
  shows "\<exists>k'. ker_codemem_free run drv h k = Some (Done (k', SOS_OK)) \<and> code_inv (heap_of k') (cm k') \<and>
    live_hdrs (cm k') = live_hdrs (cm k) - {codemem_handle_list (cm k) ! unat (h AND 0x00ff)} \<and>
    used_pages (cm k') = used_pages (cm k) - section_pages (cm k) (codemem_handle_list (cm k) ! unat (h AND 0x00ff)) \<and>
    chunks (heap_of k') = {c \<in> chunks (heap_of k). fst c \<noteq> codemem_handle_list (cm k) ! unat (h AND 0x00ff)} \<and>
    check_codemem_t h (cm k') = Some False \<and> codemem_hdrs (cm k') = codemem_hdrs (cm k) \<and> code_view (cm k') = code_view (cm k)"
proof -
  let ?c = "cm k" and ?i = "unat (h AND 0x00ff)" let ?p = "codemem_handle_list ?c ! ?i" let ?x = "codemem_hdrs ?c ?p"
  have lv: "?p \<in> live_hdrs ?c" "?i < length (codemem_handle_list ?c)" using handle_live [OF h] by simp_all
  have l: "length (codemem_handle_list ?c) = CODEMEM_MAX_LOADABLE_MODULES" "bitmap_ok ?c" "heap_ok (heap_of k)"
    using inv by (simp_all add: code_inv_def flash_ok_def)
  have p: "?p \<noteq> NULL" "owned (heap_of k) ?p" "hdr_ok ?c ?p" using lv(1) inv by (auto simp: code_inv_def live_hdrs_def)
  have sz: "0 < unat (cm_size ?x)" "unat (cm_size ?x) \<le> 65280" "cm_start_addr ?x = flash_start_page_addr ?c + of_nat (256 * first_page ?c ?p)"
    using p(3) by (simp_all add: hdr_ok_def)
  obtain bm where bm: "flash_free (cm_start_addr ?x) (cm_size ?x) ?c = Some (?c\<lparr>flash_alloc_bitmap := bm\<rparr>)" "length bm = length (flash_alloc_bitmap ?c)"
    "used_pages (?c\<lparr>flash_alloc_bitmap := bm\<rparr>) = used_pages ?c - section_pages ?c ?p"
    using flash_free_law [OF l(2) sz(1,2) section_end(2) [OF inv lv(1)]] unfolding sz(3) [symmetric] section_pages_def by blast
  obtain n where n: "(?p, n, KER_CODEMEM_PID) \<in> chunks (heap_of k)" using p(2) by (auto simp: owned_def)
  obtain g where g: "ker_free ?p (heap_of k) = Some g" "heap_ok g" "chunks g = chunks (heap_of k) - {(?p, n, KER_CODEMEM_PID)}"
    using free_chunk [OF l(3) n] by blast
  let ?d = "?c\<lparr>flash_alloc_bitmap := bm, codemem_handle_list := (codemem_handle_list ?c)[?i := NULL]\<rparr>" let ?k = "(set_heap g k)\<lparr>cm := ?d\<rparr>"
  have o: "\<forall>q. owned (heap_of k) q \<and> q \<noteq> ?p \<longrightarrow> owned g q" using owned_remove [OF _ g(3)] by blast
  have i: "?i < CODEMEM_MAX_LOADABLE_MODULES" using lv(2) l(1) by simp
  note d = code_inv_drop [OF inv i refl p(1) g(2) o bm(2,3)]
  have "ker_codemem_free run drv h k = Some (Done (?k, SOS_OK))"
    using h fl bm(1) g(1) by (simp add: ker_codemem_free_def handle_hdr_def continue_def k_free_def)
  moreover have "check_codemem_t h ?d = Some False" using i l(1) by (simp add: check_codemem_t_def Let_def)
  moreover have "chunks g = {c \<in> chunks (heap_of k). fst c \<noteq> ?p}"
    using g(3) chunks_disjoint [OF n] by fastforce
  ultimately show ?thesis using d by (intro exI [of _ ?k]) (simp add: code_view_def)
qed

theorem codemem_free_correct_witness:
  "\<exists>h hdr. \<forall>run drv. \<exists>k'. ker_codemem_free run drv 0x0100 (code_node h (demo_code hdr)) = Some (Done (k', SOS_OK)) \<and>
    code_inv (heap_of k') (cm k') \<and> used_pages (cm k') = {}"
proof -
  obtain h h' hdr where h: "heap_ok h" "malloc_longterm CODEMEM_HDR_SIZE KER_CODEMEM_PID h = Some (h', hdr)" "hdr \<noteq> NULL"
    using loader_heap by blast
  let ?k = "code_node h' (demo_code hdr)"
  note c = demo_code_handle [OF h(3)]
  have "used_pages (demo_code hdr) = {0..<3}"
    using demo_code_pages by (auto simp: used_pages_def demo_code_def new_section_def set_hdr_def)
  moreover have "section_pages (demo_code hdr) hdr = {0..<3}"
    using pages_of_size [of 600] by (simp add: section_pages_def first_page_def demo_code_def new_section_def set_hdr_def empty_code_def)
  ultimately show ?thesis
    using codemem_free_correct [of ?k "0x0100"] demo_code_inv [OF h] c
    by (intro exI [of _ h'] exI [of _ hdr]) (fastforce simp: CODEMEM_EXECUTABLE_FLAG_def)
qed

end
