(* ===== verification/Net_Correct.thy ===== *)
theory Net_Correct
  imports Message_Net Melf_Correct
begin

text \<open>
  Messages to other nodes: a message to the own node is queued like one posted locally; the copies for several links
  are complete and independent of each other, and if memory runs out everything is released.
\<close>

section \<open>Memory of copies\<close>

text \<open>The slot of a header lies apart from every block that is no pool.\<close>

lemma slot_apart:
  assumes inv: "slab_inv s ps w" and c: "c \<in> slab_used s ps w" and q: "(q, n, own) \<in> others ps w"
  shows "c + slab_size s \<le> q \<or> q + n < c" "c \<noteq> NULL"
proof -
  obtain p i where p: "c = slot_addr s p i" "p \<in> set ps" "bit (alloc_vec (s_items w p)) i" using c by (auto simp: slab_used_def)
  have ok: "pool_ok s w p" using inv p(2) by (simp add: slab_inv_def)
  then obtain n' pid where ch: "(p, n', pid) \<in> chunks (s_heap w)" "SLAB_ITEM_HDR + slab_num s * slab_size s \<le> n'" by (auto simp: pool_ok_def)
  have i: "i < slab_num s" using ok p(3) by (simp add: pool_ok_def)
  then have "(i + 1) * slab_size s \<le> slab_num s * slab_size s" by (intro mult_right_mono) auto
  then have b: "p \<le> c" "c + slab_size s \<le> p + n'" using ch(2) by (simp_all add: p(1) slot_addr_def item_mem_def)
  have "(p, n', pid) \<noteq> (q, n, own)" "(q, n, own) \<in> chunks (s_heap w)" using q p(2) by (auto simp: others_def)
  then show "c + slab_size s \<le> q \<or> q + n < c" using chunks_disjoint [OF ch(1)] b by fastforce
  show "c \<noteq> NULL" by (simp add: p(1) slot_addr_def item_mem_def SLAB_ITEM_HDR_def)
qed

lemma copy_bytes_other: "a < dst \<or> dst + n \<le> a \<Longrightarrow> copy_bytes dst src n b a = b a"
  by (simp add: copy_bytes_def put_bytes_other)

lemma copy_bytes_nth: "i < n \<Longrightarrow> copy_bytes dst src n b (dst + i) = b (src + i)"
  by (simp add: copy_bytes_def put_bytes_nth)

lemma release_set: "flag_msg_release (f OR SOS_MSG_RELEASE)"
proof -
  have "(f OR SOS_MSG_RELEASE) AND SOS_MSG_RELEASE = SOS_MSG_RELEASE" by (rule bit_word_eqI) (auto simp: bit_simps)
  then show ?thesis by (simp add: flag_msg_release_def flag_defs)
qed

text \<open>The bytes of the blocks that are in use.\<close>

definition same_bytes :: "addr list \<Rightarrow> 'a msg_sys_scheme \<Rightarrow> 'a msg_sys_scheme \<Rightarrow> bool" where
  "same_bytes ps k k' \<longleftrightarrow> (\<forall>(q, n, own) \<in> others ps (smem k). \<forall>a \<in> {q..<q + n}. bytes_of k' a = bytes_of k a)"

lemma same_bytesD:
  assumes "same_bytes ps k k'" "(q, n, own) \<in> others ps (smem k)" "q \<le> a" "a < q + n"
  shows "bytes_of k' a = bytes_of k a"
proof -
  have "case (q, n, own) of (q, n, own) \<Rightarrow> \<forall>a \<in> {q..<q + n}. bytes_of k' a = bytes_of k a"
    by (rule bspec [OF assms(1) [unfolded same_bytes_def] assms(2)])
  then show ?thesis using assms(3,4) by simp
qed

text \<open>\<open>c\<close> is a new message with the fields of \<open>m\<close> and a payload of its own with the same bytes.\<close>

definition copied :: "'a msg_sys_scheme \<Rightarrow> addr \<Rightarrow> addr \<Rightarrow> Message \<Rightarrow> addr list \<Rightarrow> 'a msg_sys_scheme \<Rightarrow> bool" where
  "copied k m c y ps' k' \<longleftrightarrow> flag_msg_release (m_flag y) \<and> y = (headers k m)\<lparr>m_data := m_data y, m_flag := m_flag y\<rparr> \<and>
     (\<exists>n. (m_data y, n, KER_SCHED_PID) \<in> others ps' (smem k') \<and> unat (m_len (headers k m)) \<le> n) \<and>
     (\<forall>i < unat (m_len (headers k m)). bytes_of k' (m_data y + i) = bytes_of k (m_data (headers k m) + i))"

lemma malloc_fail:
  assumes inv: "msgs_inv k ps L" and a: "ker_malloc sz pid (heap_of k) = Some (h, NULL)" and sz: "unat sz \<le> 65524"
  shows "msgs_inv (set_heap h k) ps L" "others ps (smem (set_heap h k)) = others ps (smem k)"
proof -
  have s: "slab_inv (msg_slab k) ps (smem k)" using inv by (simp add: msgs_inv_def)
  show "msgs_inv (set_heap h k) ps L" using malloc_total [OF inv sz, of pid] a by auto
  show "others ps (smem (set_heap h k)) = others ps (smem k)"
    using slab_other_alloc [OF s sz disjI1 [OF refl], of pid] a by (auto simp: heap_of_def)
qed

lemma create_cases:
  assumes inv: "mq_inv k ps L xs"
  obtains (none) w where "msg_create k = Some (k\<lparr>smem := w\<rparr>, NULL)" "mq_inv (k\<lparr>smem := w\<rparr>) ps L xs" "others ps w = others ps (smem k)"
      "slab_used (msg_slab k) ps w = headers_used k ps" "no_header k ps"
  | (new) k1 c ps1 where "msg_create k = Some (k1, c)" "c \<noteq> NULL" "c \<notin> L" "msgs_inv k1 ps1 (insert c L)" "others ps1 (smem k1) = others ps (smem k)"
      "headers k1 = (headers k)(c := (headers k c)\<lparr>m_data := c + PAYLOAD_OFFSET, m_flag := 0\<rparr>)"
      "schedpq k1 = schedpq k" "bytes_of k1 = bytes_of k" "msg_slab k1 = msg_slab k" "c \<notin> headers_used k ps" "headers_used k1 ps1 = insert c (headers_used k ps)"
proof -
  obtain w m ps' where w: "slab_inv (msg_slab k) ps' w" "others ps' w = others ps (smem k)"
    "if m = NULL then ps' = ps \<and> msg_create k = Some (k\<lparr>smem := w\<rparr>, NULL) \<and> slab_used (msg_slab k) ps w = slab_used (msg_slab k) ps (smem k) \<and> no_header k ps
     else \<exists>k1. msg_create k = Some (k1, m)"
    using msg_create_law [of k ps L] inv unfolding mq_inv_def by (metis (no_types, lifting))
  show thesis
  proof (cases "m = NULL")
    case True
    then have e: "ps' = ps" "msg_create k = Some (k\<lparr>smem := w\<rparr>, NULL)" "slab_used (msg_slab k) ps w = slab_used (msg_slab k) ps (smem k)"
      "no_header k ps"
      using w(3) by simp_all
    have "mq_inv (k\<lparr>smem := w\<rparr>) ps L xs" by (rule mq_inv_fail [OF inv]) (use w(1,2) e in simp_all)
    then show thesis using none e w(2) by simp
  next
    case False
    then obtain k1 where c: "msg_create k = Some (k1, m)" using w(3) by auto
    obtain ps1 where "msgs_inv k1 ps1 (insert m L)" "m \<notin> L" "others ps1 (smem k1) = others ps (smem k)" "m \<notin> headers_used k ps"
      "headers_used k1 ps1 = insert m (headers_used k ps)" using created_inv(1) [OF inv c False] by blast
    with created_inv(2-5) [OF inv c False] show thesis using new [OF c False] by blast
  qed
qed

text \<open>A header and a payload for a copy; what fails is given back.\<close>

lemma dispose_new:
  assumes inv: "msgs_inv k ps (insert c L)" and c: "c \<notin> L" "\<not> flag_msg_release (m_flag (headers k c))"
    and q: "mq_holds (headers k) (schedpq k) xs" "set xs \<subseteq> L"
  shows "\<exists>w ps'. msg_dispose c k = Some (Done (k\<lparr>smem := w\<rparr>)) \<and> mq_inv (k\<lparr>smem := w\<rparr>) ps' L xs \<and> fst ` others ps' w = fst ` others ps (smem k) \<and>
    slab_used (msg_slab k) ps' w = headers_used k ps - {c}"
proof -
  have "mq_inv k ps (insert c L) xs" "c \<in> insert c L" "c \<notin> set xs" using assms by (auto simp: mq_inv_def)
  moreover have "insert c L - {c} = L" using c(1) by simp
  ultimately show ?thesis using mq_inv_dispose [of k ps "insert c L" xs c] c(2) by simp
qed

lemma queue_new:
  assumes "mq_inv k ps L xs" "c \<notin> L" "headers k' = (headers k)(c := y)" "schedpq k' = schedpq k"
  shows "mq_holds (headers k') (schedpq k') xs" "set xs \<subseteq> L"
proof -
  show "set xs \<subseteq> L" using assms(1) by (simp add: mq_inv_def)
  then show "mq_holds (headers k') (schedpq k') xs"
    unfolding assms(3,4) by (subst mq_holds_cong [of xs _ "headers k"]) (use assms(1,2) in \<open>auto simp: mq_inv_def\<close>)
qed

text \<open>A block that is not in use is the payload of no message; copying a header changes no other block.\<close>

lemma fresh_payload:
  assumes "msgs_inv k ps L" "d \<notin> fst ` others ps (smem k)"
  shows "d \<notin> (\<lambda>x. m_data (headers k x)) ` releases k L"
proof
  assume "d \<in> (\<lambda>x. m_data (headers k x)) ` releases k L"
  then obtain z where z: "z \<in> releases k L" "d = m_data (headers k z)" by auto
  then obtain i own' where "(d, i, own') \<in> others ps (smem k)" using assms(1) unfolding msgs_inv_def payloads_ok_def by blast
  then show False using assms(2) by force
qed

lemma header_copy_bytes:
  assumes inv: "msgs_inv k ps L" and c: "c \<in> L" and q: "(q, j, z) \<in> others ps (smem k)" "q \<le> a" "a < q + j"
  shows "copy_bytes (c + PAYLOAD_OFFSET) src SOS_MSG_PAYLOAD_LENGTH b a = b a"
proof -
  have "c \<in> slab_used (msg_slab k) ps (smem k)" "slab_inv (msg_slab k) ps (smem k)" "slab_size (msg_slab k) = MESSAGE_SIZE"
    using inv c by (auto simp: msgs_inv_def)
  then show ?thesis using slot_apart(1) [of "msg_slab k" ps "smem k" c q j z] q
    by (intro copy_bytes_other) (auto simp: PAYLOAD_OFFSET_def SOS_MSG_PAYLOAD_LENGTH_def MESSAGE_SIZE_def)
qed

lemma copy_filled:
  assumes inv: "msgs_inv k1 ps1 (insert c L)" and c: "c \<notin> L" "\<not> flag_msg_release (m_flag (headers k1 c))" and m: "m \<in> L"
    and pay: "(m_data (headers k1 m), n0, own) \<in> others ps1 (smem k1)" "unat (m_len (headers k1 m)) \<le> n0"
    and d: "ker_malloc (ucast (m_len (headers k1 m))) KER_SCHED_PID (heap_of k1) = Some (h, d)" "d \<noteq> NULL"
  defines "k2 \<equiv> set_heap h k1"
  defines "k3 \<equiv> upd_msg c (\<lambda>x. x\<lparr>m_data := d, m_flag := m_flag x OR SOS_MSG_RELEASE\<rparr>) (copy_msg c m k2)"
  defines "k4 \<equiv> k3\<lparr>bytes_of := copy_bytes d (m_data (headers k3 m)) (unat (m_len (headers k3 m))) (bytes_of k3)\<rparr>"
  shows "msgs_inv k4 ps1 (insert c L)" "copied k1 m c (headers k4 c) ps1 k4" "same_bytes ps1 k1 k4"
    "\<exists>n. others ps1 (smem k4) = insert (d, n, KER_SCHED_PID) (others ps1 (smem k1))" "d \<notin> fst ` others ps1 (smem k1)" "m_data (headers k4 c) = d"
proof -
  let ?x = "headers k1 m" let ?len = "unat (m_len ?x)" let ?y = "?x\<lparr>m_data := d, m_flag := m_flag ?x OR SOS_MSG_RELEASE\<rparr>"
  have mc: "m \<noteq> c" using m c(1) by auto
  have lt: "?len < 2 ^ LENGTH(8)" by (rule unsigned_less)
  then have sz: "unat (ucast (m_len ?x) :: u16) = ?len" by (simp add: unsigned_ucast_eq take_bit_eq_mod)
  have "unat (ucast (m_len ?x) :: u16) \<le> 65524" unfolding sz using lt by simp
  from malloc_law [OF inv d this] obtain n where n: "?len \<le> n" "msgs_inv k2 ps1 (insert c L)" "(d, n, KER_SCHED_PID) \<in> chunks h"
    "d \<notin> fst ` others ps1 (smem k1)" "others ps1 (smem k2) = insert (d, n, KER_SCHED_PID) (others ps1 (smem k1))"
    unfolding sz k2_def by blast
  have h2: "headers k2 = headers k1" "bytes_of k2 = bytes_of k1" by (simp_all add: k2_def)
  have h3: "headers k3 = (headers k1)(c := ?y)" "bytes_of k3 = copy_bytes (c + PAYLOAD_OFFSET) (m + PAYLOAD_OFFSET) SOS_MSG_PAYLOAD_LENGTH (bytes_of k1)"
    by (simp_all add: k3_def copy_msg_def h2)
  have f4: "smem k4 = smem k2" "msg_slab k4 = msg_slab k2" "headers k4 = (headers k1)(c := ?y)" by (simp_all add: k4_def h3) (simp_all add: k3_def copy_msg_def)
  have b4: "bytes_of k4 = copy_bytes d (m_data ?x) ?len (bytes_of k3)" using mc by (simp add: k4_def h3)
  have dn: "d \<notin> (\<lambda>x. m_data (headers k2 x)) ` releases k2 (insert c L)"
    using fresh_payload [OF inv n(4)] by (simp add: releases_def h2)
  show i4: "msgs_inv k4 ps1 (insert c L)"
    by (rule msgs_inv_attach [OF n(2) _ _ _ dn f4(1,2)]) (use c(2) n(5) f4(3) h2 release_set in auto)
  show o4: "\<exists>n. others ps1 (smem k4) = insert (d, n, KER_SCHED_PID) (others ps1 (smem k1))" unfolding f4(1) using n(5) by blast
  show "d \<notin> fst ` others ps1 (smem k1)" "m_data (headers k4 c) = d" using n(4) f4(3) by simp_all
  have b3: "bytes_of k3 a = bytes_of k1 a" if "(q, j, z) \<in> others ps1 (smem k1)" "q \<le> a" "a < q + j" for q j z a
    unfolding h3(2) by (rule header_copy_bytes [OF inv insertI1 that])
  have "bytes_of k4 a = bytes_of k1 a" if q: "(q, j, z) \<in> others ps1 (smem k1)" "q \<le> a" "a < q + j" for q j z a
  proof -
    have "(q, j, z) \<in> others ps1 (smem k2)" using q(1) n(5) by simp
    then have "(q, j, z) \<in> chunks h" by (simp add: others_def k2_def)
    moreover have "d \<noteq> q" using n(4) q(1) by force
    ultimately have "d + n < q \<or> q + j < d" using chunks_disjoint [OF n(3)] by fastforce
    then show ?thesis unfolding b4 using b3 [OF q] q(2,3) n(1) by (subst copy_bytes_other) auto
  qed
  then show "same_bytes ps1 k1 k4" by (auto simp: same_bytes_def)
  have "bytes_of k4 (d + i) = bytes_of k1 (m_data ?x + i)" if "i < ?len" for i
    unfolding b4 copy_bytes_nth [OF that] using b3 [OF pay(1)] that pay(2) by simp
  then show "copied k1 m c (headers k4 c) ps1 k4"
    using n(1,5) f4 release_set by (auto simp: copied_def)
qed

text \<open>Why a copy of \<open>m\<close> may not be made: there is no header for it, or no block for its payload.\<close>

definition copy_fails :: "'a msg_sys_scheme \<Rightarrow> addr list \<Rightarrow> addr \<Rightarrow> bool" where
  "copy_fails k ps m \<longleftrightarrow> no_header k ps \<or>
     (\<exists>k1 c h. msg_create k = Some (k1, c) \<and> c \<noteq> NULL \<and> ker_malloc (ucast (m_len (headers k m))) KER_SCHED_PID (heap_of k1) = Some (h, NULL))"

lemma duplicate_law:
  assumes inv: "mq_inv k ps L xs" and m: "m \<in> L" "m_len (headers k m) \<noteq> 0"
    and pay: "(m_data (headers k m), n0, own) \<in> others ps (smem k)" "unat (m_len (headers k m)) \<le> n0"
  shows "\<exists>k' c ps'. msg_duplicate m k = Some (Done (k', c)) \<and> (\<forall>x \<in> L. headers k' x = headers k x) \<and>
    (if c = NULL then mq_inv k' ps' L xs \<and> fst ` others ps' (smem k') = fst ` others ps (smem k) \<and> headers_used k' ps' = headers_used k ps \<and> copy_fails k ps m
     else c \<notin> L \<and> mq_inv k' ps' (insert c L) xs \<and> copied k m c (headers k' c) ps' k' \<and> same_bytes ps k k' \<and>
       c \<notin> headers_used k ps \<and> headers_used k' ps' = insert c (headers_used k ps) \<and>
       m_data (headers k' c) \<notin> fst ` others ps (smem k) \<and>
       (\<exists>n. others ps' (smem k') = insert (m_data (headers k' c), n, KER_SCHED_PID) (others ps (smem k))))"
  using inv
proof (cases rule: create_cases)
  case (none w)
  then show ?thesis by (intro exI [of _ "k\<lparr>smem := w\<rparr>"] exI [of _ NULL] exI [of _ ps]) (simp add: msg_duplicate_def copy_fails_def)
next
  case (new k1 c ps1)
  have mc: "m \<noteq> c" using m(1) new(3) by auto
  have h1: "headers k1 m = headers k m" "\<not> flag_msg_release (m_flag (headers k1 c))" using new(6) mc by simp_all
  have lt: "unat (m_len (headers k1 m)) < 2 ^ LENGTH(8)" by (rule unsigned_less)
  then have sz: "unat (ucast (m_len (headers k1 m)) :: u16) \<le> 65524" by (simp add: unsigned_ucast_eq take_bit_eq_mod)
  obtain h d where d: "ker_malloc (ucast (m_len (headers k1 m))) KER_SCHED_PID (heap_of k1) = Some (h, d)" using malloc_total [OF new(4) sz] by blast
  show ?thesis
  proof (cases "d = NULL")
    case True
    note f = malloc_fail [OF new(4) d [unfolded True] sz]
    have q: "mq_holds (headers (set_heap h k1)) (schedpq (set_heap h k1)) xs" "set xs \<subseteq> L"
      using queue_new [OF inv new(3), of "set_heap h k1"] new(6,7) by simp_all
    obtain w ps' where w: "msg_dispose c (set_heap h k1) = Some (Done ((set_heap h k1)\<lparr>smem := w\<rparr>))" "mq_inv ((set_heap h k1)\<lparr>smem := w\<rparr>) ps' L xs"
      "fst ` others ps' w = fst ` others ps1 (smem (set_heap h k1))" "slab_used (msg_slab (set_heap h k1)) ps' w = headers_used (set_heap h k1) ps1 - {c}"
      using dispose_new [OF f(1) new(3) _ q] h1(2) by auto
    have "msg_duplicate m k = Some (Done ((set_heap h k1)\<lparr>smem := w\<rparr>, NULL))"
      using new(1,2) d True w(1) h1(1) m(2) by (simp add: msg_duplicate_def k_malloc_def continue_def)
    moreover have "copy_fails k ps m"
      using new(1,2) d True h1(1) by (auto simp: copy_fails_def)
    moreover have "slab_used (msg_slab k1) ps' w = headers_used k ps"
      using w(4) new(10,11) by simp
    ultimately show ?thesis
      using w(2,3) f(2) new(3,5,6) by (intro exI [of _ "(set_heap h k1)\<lparr>smem := w\<rparr>"] exI [of _ NULL] exI [of _ ps']) auto
  next
    case False
    let ?k3 = "upd_msg c (\<lambda>x. x\<lparr>m_data := d, m_flag := m_flag x OR SOS_MSG_RELEASE\<rparr>) (copy_msg c m (set_heap h k1))"
    let ?k4 = "?k3\<lparr>bytes_of := copy_bytes d (m_data (headers ?k3 m)) (unat (m_len (headers ?k3 m))) (bytes_of ?k3)\<rparr>"
    have p1: "(m_data (headers k1 m), n0, own) \<in> others ps1 (smem k1)" "unat (m_len (headers k1 m)) \<le> n0" using pay new(5) h1(1) by simp_all
    note f = copy_filled [OF new(4,3) h1(2) m(1) p1 d False]
    have e: "msg_duplicate m k = Some (Done (?k4, c))"
      using new(1,2) d False by (simp add: msg_duplicate_def k_malloc_def Let_def)
    have h4: "headers ?k4 = (headers k)(c := headers ?k4 c)" "schedpq ?k4 = schedpq k" using new(6,7) by (simp_all add: copy_msg_def)
    have "mq_inv ?k4 ps1 (insert c L) xs"
      using f(1) queue_new [OF inv new(3) h4] by (auto simp: mq_inv_def)
    moreover have "copied k m c (headers ?k4 c) ps1 ?k4" using f(2) unfolding copied_def h1(1) new(8) .
    moreover have "same_bytes ps k ?k4" using f(3) unfolding same_bytes_def new(5,8) .
    moreover have "headers ?k4 x = headers k x" if "x \<in> L" for x using that new(3) by (subst h4(1)) auto
    moreover have "headers_used ?k4 ps1 = insert c (headers_used k ps)" using new(11) by (simp add: copy_msg_def)
    ultimately show ?thesis
      using e f(4-6) new(2,3,5,10) by (intro exI [of _ ?k4] exI [of _ c] exI [of _ ps1]) simp
  qed
qed

section \<open>The copies for the links\<close>

lemma copied_mono:
  assumes c: "copied k m c y ps1 k1" and b: "same_bytes ps1 k1 k2" and o: "others ps1 (smem k1) \<subseteq> others ps2 (smem k2)"
  shows "copied k m c y ps2 k2"
proof -
  obtain n where n: "(m_data y, n, KER_SCHED_PID) \<in> others ps1 (smem k1)" "unat (m_len (headers k m)) \<le> n" using c by (auto simp: copied_def)
  have "bytes_of k2 (m_data y + i) = bytes_of k1 (m_data y + i)" if "i < unat (m_len (headers k m))" for i
    using b n that unfolding same_bytes_def by (auto dest!: bspec [OF _ n(1)])
  then show ?thesis using c n o unfolding copied_def by auto
qed

lemma copied_from:
  assumes c: "copied k1 m c y ps2 k2" and h: "headers k1 m = headers k m" and b: "same_bytes ps k k1"
    and pay: "(m_data (headers k m), n0, own) \<in> others ps (smem k)" "unat (m_len (headers k m)) \<le> n0"
  shows "copied k m c y ps2 k2"
proof -
  have "bytes_of k1 (m_data (headers k m) + i) = bytes_of k (m_data (headers k m) + i)" if "i < unat (m_len (headers k m))" for i
    using b pay that unfolding same_bytes_def by (auto dest!: bspec [OF _ pay(1)])
  then show ?thesis using c unfolding copied_def h by auto
qed

lemma reliable_cleared: "\<not> flag_msg_reliable (f AND NOT SOS_MSG_RELIABLE)" "flag_msg_release (f AND NOT SOS_MSG_RELIABLE) = flag_msg_release f"
proof -
  have "f AND NOT SOS_MSG_RELIABLE AND SOS_MSG_RELIABLE = 0" by (rule bit_word_eqI) (auto simp: bit_simps)
  then show "\<not> flag_msg_reliable (f AND NOT SOS_MSG_RELIABLE)" by (simp add: flag_msg_reliable_def and.assoc)
  have "NOT SOS_MSG_RELIABLE AND SOS_MSG_RELEASE = SOS_MSG_RELEASE" by (simp add: flag_defs)
  then show "flag_msg_release (f AND NOT SOS_MSG_RELIABLE) = flag_msg_release f" by (simp add: flag_msg_release_def and.assoc)
qed

lemma copied_flag:
  assumes "copied k m c y ps k'" "flag_msg_release f"
  shows "copied k m c (y\<lparr>m_flag := f\<rparr>) ps k'"
  using assms by (cases y; cases "headers k m") (auto simp: copied_def)

text \<open>The state after some copies \<open>C\<close> of \<open>m\<close> were made.\<close>

definition copies_inv :: "'a msg_sys_scheme \<Rightarrow> addr list \<Rightarrow> addr set \<Rightarrow> addr list \<Rightarrow> addr \<Rightarrow> addr set \<Rightarrow> 'a msg_sys_scheme \<Rightarrow> addr list \<Rightarrow> bool" where
  "copies_inv k0 ps0 L xs m C k ps \<longleftrightarrow> mq_inv k ps (L \<union> C) xs \<and> set xs \<subseteq> L \<and> C \<inter> L = {} \<and> NULL \<notin> C \<and> (\<forall>x \<in> L. headers k x = headers k0 x) \<and>
     others ps0 (smem k0) \<subseteq> others ps (smem k) \<and> same_bytes ps0 k0 k \<and>
     (\<forall>c \<in> C. copied k0 m c (headers k c) ps k \<and> \<not> flag_msg_reliable (m_flag (headers k c)) \<and> m_data (headers k c) \<notin> fst ` others ps0 (smem k0)) \<and>
     fst ` others ps (smem k) = fst ` others ps0 (smem k0) \<union> (\<lambda>c. m_data (headers k c)) ` C \<and>
     C \<inter> headers_used k0 ps0 = {} \<and> headers_used k ps = headers_used k0 ps0 \<union> C"

lemma copies_invD:
  assumes "copies_inv k0 ps0 L xs m C k ps"
  shows "mq_inv k ps (L \<union> C) xs" "C \<inter> L = {}" "NULL \<notin> C" "\<forall>x \<in> L. headers k x = headers k0 x"
    "others ps0 (smem k0) \<subseteq> others ps (smem k)" "same_bytes ps0 k0 k"
    "\<forall>c \<in> C. copied k0 m c (headers k c) ps k \<and> \<not> flag_msg_reliable (m_flag (headers k c)) \<and> m_data (headers k c) \<notin> fst ` others ps0 (smem k0)"
    "fst ` others ps (smem k) = fst ` others ps0 (smem k0) \<union> (\<lambda>c. m_data (headers k c)) ` C" "set xs \<subseteq> L"
    "C \<inter> headers_used k0 ps0 = {}" "headers_used k ps = headers_used k0 ps0 \<union> C"
  using assms unfolding copies_inv_def by - (elim conjE, assumption)+

text \<open>The state after a copy failed.\<close>

definition copies_lost :: "'a msg_sys_scheme \<Rightarrow> addr list \<Rightarrow> addr set \<Rightarrow> addr list \<Rightarrow> addr set \<Rightarrow> 'a msg_sys_scheme \<Rightarrow> bool" where
  "copies_lost k ps L xs C k' \<longleftrightarrow> (\<exists>ps'. mq_inv k' ps' (L \<union> C) xs \<and> (\<forall>x \<in> L \<union> C. headers k' x = headers k x) \<and>
     fst ` others ps' (smem k') = fst ` others ps (smem k) \<and> headers_used k' ps' = headers_used k ps)"

lemma same_bytes_trans:
  assumes "same_bytes ps0 k0 k" "others ps0 (smem k0) \<subseteq> others ps (smem k)" "same_bytes ps k k1"
  shows "same_bytes ps0 k0 k1"
  unfolding same_bytes_def
proof clarify
  fix q j z a
  assume "(q, j, z) \<in> others ps0 (smem k0)" "a \<in> {q..<q + j}"
  then have q: "(q, j, z) \<in> others ps0 (smem k0)" "q \<le> a" "a < q + j" by auto
  have "bytes_of k a = bytes_of k0 a" by (rule same_bytesD [OF assms(1) q])
  moreover have "bytes_of k1 a = bytes_of k a" by (rule same_bytesD [OF assms(3) subsetD [OF assms(2) q(1)] q(2,3)])
  ultimately show "bytes_of k1 a = bytes_of k0 a" by simp
qed

lemma clear_reliable:
  fixes k :: "'a msg_sys_scheme" and c :: addr
  defines "k' \<equiv> set_flag False SOS_MSG_RELIABLE c k"
  shows "headers k' = (headers k)(c := (headers k c)\<lparr>m_flag := m_flag (headers k c) AND NOT SOS_MSG_RELIABLE\<rparr>)"
    "smem k' = smem k" "bytes_of k' = bytes_of k" "schedpq k' = schedpq k" "msg_slab k' = msg_slab k"
  by (simp_all add: k'_def set_flag_def)

lemma clear_reliable_inv:
  assumes inv: "mq_inv k ps (insert c M) xs" and c: "c \<notin> M" "set xs \<subseteq> M"
  shows "mq_inv (set_flag False SOS_MSG_RELIABLE c k) ps (insert c M) xs"
proof -
  note h = clear_reliable [of c k]
  have "msgs_inv (set_flag False SOS_MSG_RELIABLE c k) ps (insert c M)"
    using msgs_inv_frame [of "set_flag False SOS_MSG_RELIABLE c k" k "insert c M" ps] inv h reliable_cleared(2) by (simp add: mq_inv_def)
  moreover have "mq_holds (headers (set_flag False SOS_MSG_RELIABLE c k)) (schedpq (set_flag False SOS_MSG_RELIABLE c k)) xs"
    unfolding h(1,4) by (subst mq_holds_cong [of xs _ "headers k"]) (use c inv in \<open>auto simp: mq_inv_def\<close>)
  ultimately show ?thesis using c(2) by (auto simp: mq_inv_def)
qed

text \<open>One more copy.\<close>

lemma copy_added:
  assumes inv: "copies_inv k0 ps0 L xs m C k ps" and hm: "headers k m = headers k0 m" and d: "\<forall>x \<in> L \<union> C. headers k1 x = headers k x"
    and n: "c \<notin> L \<union> C" "c \<noteq> NULL" "mq_inv k1 ps1 (insert c (L \<union> C)) xs" "copied k m c (headers k1 c) ps1 k1" "same_bytes ps k k1"
      "m_data (headers k1 c) \<notin> fst ` others ps (smem k)" "others ps1 (smem k1) = insert (m_data (headers k1 c), n, KER_SCHED_PID) (others ps (smem k))"
      "c \<notin> headers_used k ps" "headers_used k1 ps1 = insert c (headers_used k ps)"
    and pay: "(m_data (headers k0 m), n0, own) \<in> others ps0 (smem k0)" "unat (m_len (headers k0 m)) \<le> n0"
  defines "k2 \<equiv> set_flag False SOS_MSG_RELIABLE c k1"
  shows "copies_inv k0 ps0 L xs m (insert c C) k2 ps1"
proof -
  note i = copies_invD [OF inv] and h2 = clear_reliable [of c k1, folded k2_def]
  have mq: "mq_inv k2 ps1 (L \<union> insert c C) xs" using clear_reliable_inv [OF n(3,1)] i(9) by (auto simp: k2_def)
  have hC: "headers k2 x = headers k x" if "x \<in> L \<union> C" for x using that d n(1) h2(1) by auto
  have sb: "same_bytes ps0 k0 k2" using same_bytes_trans [OF i(6,5) n(5)] by (simp add: same_bytes_def h2(3))
  have oo: "others ps (smem k) \<subseteq> others ps1 (smem k2)" using n(7) h2(2) by auto
  have cp: "copied k0 m c (headers k1 c) ps1 k1" by (rule copied_from [OF n(4) hm i(6) pay])
  then have "flag_msg_release (m_flag (headers k1 c) AND NOT SOS_MSG_RELIABLE)" using reliable_cleared(2) by (simp add: copied_def)
  from copied_flag [OF cp this] have new: "copied k0 m c (headers k2 c) ps1 k2" unfolding copied_def h2(2,3) by (simp add: h2(1))
  have old: "copied k0 m x (headers k2 x) ps1 k2" if "x \<in> C" for x
  proof -
    have "copied k0 m x (headers k x) ps k" using i(7) that by blast
    then have "copied k0 m x (headers k x) ps1 k2" by (rule copied_mono) (use n(5) h2(3) oo in \<open>auto simp: same_bytes_def\<close>)
    then show ?thesis using hC that by simp
  qed
  have "(\<lambda>x. m_data (headers k2 x)) ` C = (\<lambda>x. m_data (headers k x)) ` C" by (rule image_cong) (use hC in auto)
  then have fs: "fst ` others ps1 (smem k2) = fst ` others ps0 (smem k0) \<union> (\<lambda>x. m_data (headers k2 x)) ` insert c C"
    unfolding h2(2) n(7) image_insert i(8) by (simp add: h2(1))
  have "m_data (headers k2 c) \<notin> fst ` others ps0 (smem k0)" using n(6) i(8) h2(1) by auto
  then have "copied k0 m c (headers k2 c) ps1 k2 \<and> \<not> flag_msg_reliable (m_flag (headers k2 c)) \<and> m_data (headers k2 c) \<notin> fst ` others ps0 (smem k0)"
    using new reliable_cleared(1) by (simp add: h2(1))
  moreover have "copied k0 m x (headers k2 x) ps1 k2 \<and> \<not> flag_msg_reliable (m_flag (headers k2 x)) \<and> m_data (headers k2 x) \<notin> fst ` others ps0 (smem k0)"
    if "x \<in> C" for x using old [OF that] bspec [OF i(7) that] hC that by simp
  ultimately have all: "\<forall>x \<in> insert c C. copied k0 m x (headers k2 x) ps1 k2 \<and> \<not> flag_msg_reliable (m_flag (headers k2 x)) \<and>
      m_data (headers k2 x) \<notin> fst ` others ps0 (smem k0)" by blast
  have nl: "insert c C \<inter> L = {}" "NULL \<notin> insert c C" using i(2,3) n(1,2) by auto
  have hL: "\<forall>x \<in> L. headers k2 x = headers k0 x" using hC i(4) by simp
  have "others ps0 (smem k0) \<subseteq> others ps1 (smem k2)" using i(5) oo by blast
  moreover have "insert c C \<inter> headers_used k0 ps0 = {}" "headers_used k2 ps1 = headers_used k0 ps0 \<union> insert c C"
    using i(10,11) n(8,9) h2(2,5) by auto
  ultimately show ?thesis unfolding copies_inv_def by (intro conjI mq i(9) nl hL sb all fs)
qed

lemma link_copy_step:
  assumes inv: "copies_inv k0 ps0 L xs m C k ps" and m: "m \<in> L" "m_len (headers k0 m) \<noteq> 0"
    and pay: "(m_data (headers k0 m), n0, own) \<in> others ps0 (smem k0)" "unat (m_len (headers k0 m)) \<le> n0"
  shows "(\<exists>k'. link_copy True False m k = Some (Done (k', NULL, False)) \<and> copies_lost k ps L xs C k' \<and> copy_fails k ps m) \<or>
    (\<exists>k' c ps'. link_copy True False m k = Some (Done (k', c, True)) \<and> c \<notin> C \<and> c \<notin> L \<and> c \<noteq> NULL \<and> copies_inv k0 ps0 L xs m (insert c C) k' ps')"
proof -
  note i = copies_invD [OF inv]
  have hm: "headers k m = headers k0 m" using i(4) m(1) by blast
  have mL: "m \<in> L \<union> C" "m_len (headers k m) \<noteq> 0" using m hm by simp_all
  have pk: "(m_data (headers k m), n0, own) \<in> others ps (smem k)" "unat (m_len (headers k m)) \<le> n0" unfolding hm using pay i(5) by blast+
  obtain k1 c ps1 where d: "msg_duplicate m k = Some (Done (k1, c))" "\<forall>x \<in> L \<union> C. headers k1 x = headers k x"
    "if c = NULL then mq_inv k1 ps1 (L \<union> C) xs \<and> fst ` others ps1 (smem k1) = fst ` others ps (smem k) \<and> headers_used k1 ps1 = headers_used k ps \<and> copy_fails k ps m
     else c \<notin> L \<union> C \<and> mq_inv k1 ps1 (insert c (L \<union> C)) xs \<and> copied k m c (headers k1 c) ps1 k1 \<and> same_bytes ps k k1 \<and>
       c \<notin> headers_used k ps \<and> headers_used k1 ps1 = insert c (headers_used k ps) \<and>
       m_data (headers k1 c) \<notin> fst ` others ps (smem k) \<and>
       (\<exists>n. others ps1 (smem k1) = insert (m_data (headers k1 c), n, KER_SCHED_PID) (others ps (smem k)))"
    using duplicate_law [OF i(1) mL pk] by blast
  show ?thesis
  proof (cases "c = NULL")
    case True
    then have "link_copy True False m k = Some (Done (k1, NULL, False))" using d(1) by (simp add: link_copy_def)
    moreover have "copies_lost k ps L xs C k1" using d(2,3) True by (auto simp: copies_lost_def)
    ultimately show ?thesis using d(3) True by auto
  next
    case False
    then obtain n where n: "c \<notin> L \<union> C" "mq_inv k1 ps1 (insert c (L \<union> C)) xs" "copied k m c (headers k1 c) ps1 k1" "same_bytes ps k k1"
      "m_data (headers k1 c) \<notin> fst ` others ps (smem k)" "others ps1 (smem k1) = insert (m_data (headers k1 c), n, KER_SCHED_PID) (others ps (smem k))"
      "c \<notin> headers_used k ps" "headers_used k1 ps1 = insert c (headers_used k ps)"
      using d(3) by auto
    have "link_copy True False m k = Some (Done (set_flag False SOS_MSG_RELIABLE c k1, c, True))" using d(1) False by (simp add: link_copy_def)
    then show ?thesis using copy_added [OF inv hm d(2) n(1) False n(2-8) pay] n(1) False by blast
  qed
qed

lemma copies_inv_start:
  assumes "mq_inv k ps L xs"
  shows "copies_inv k ps L xs m {} k ps"
  using assms by (simp add: copies_inv_def same_bytes_def mq_inv_def)

lemma lost_dispose:
  assumes lost: "copies_lost k ps L xs C k'" and inv: "copies_inv k0 ps0 L xs m C k ps" and m: "m \<in> L" "m \<notin> set xs"
  shows "\<exists>w ps'. msg_dispose m k' = Some (Done (k'\<lparr>smem := w\<rparr>)) \<and> mq_inv (k'\<lparr>smem := w\<rparr>) ps' (L - {m} \<union> C) xs \<and>
    (\<forall>c \<in> C. headers k' c = headers k c) \<and>
    fst ` others ps' w = fst ` others ps (smem k) - (if flag_msg_release (m_flag (headers k0 m)) then {m_data (headers k0 m)} else {}) \<and>
    slab_used (msg_slab k') ps' w = headers_used k ps - {m}"
proof -
  obtain ps1 where l: "mq_inv k' ps1 (L \<union> C) xs" "\<forall>x \<in> L \<union> C. headers k' x = headers k x" "fst ` others ps1 (smem k') = fst ` others ps (smem k)"
    "headers_used k' ps1 = headers_used k ps"
    using lost by (auto simp: copies_lost_def)
  note i = copies_invD [OF inv]
  have c: "headers k m = headers k0 m" "C \<inter> L = {}" using i(2,4) m(1) by blast+
  have hm: "headers k' m = headers k0 m" using l(2) m(1) c(1) by simp
  have e: "L \<union> C - {m} = L - {m} \<union> C" using c(2) m(1) by blast
  have mL: "m \<in> L \<union> C" using m(1) by blast
  obtain w ps' where "msg_dispose m k' = Some (Done (k'\<lparr>smem := w\<rparr>))" "mq_inv (k'\<lparr>smem := w\<rparr>) ps' (L - {m} \<union> C) xs"
    "fst ` others ps' w = fst ` others ps (smem k) - (if flag_msg_release (m_flag (headers k0 m)) then {m_data (headers k0 m)} else {})"
    "slab_used (msg_slab k') ps' w = headers_used k ps - {m}"
    using mq_inv_dispose [OF l(1) mL m(2)] unfolding hm e l(3,4) by (elim exE conjE) (rule that)
  then show ?thesis using l(2) by blast
qed

text \<open>Where the first link fails to get a copy, and where the second one does.\<close>

definition all_released :: "'a msg_sys_scheme \<Rightarrow> addr list \<Rightarrow> addr set \<Rightarrow> addr list \<Rightarrow> addr \<Rightarrow> 'a msg_sys_scheme \<Rightarrow> bool" where
  "all_released k ps L xs m k' \<longleftrightarrow> (\<exists>ps'. mq_inv k' ps' (L - {m}) xs \<and>
     fst ` others ps' (smem k') = fst ` others ps (smem k) - (if flag_msg_release (m_flag (headers k m)) then {m_data (headers k m)} else {}) \<and>
     headers_used k' ps' = headers_used k ps - {m})"

lemma lost_first:
  assumes "copies_lost k ps L xs {} k'" "mq_inv k ps L xs" "m \<in> L" "m \<notin> set xs"
  shows "\<exists>k2. msg_dispose m k' = Some (Done k2) \<and> all_released k ps L xs m k2"
proof -
  obtain w ps' where w: "msg_dispose m k' = Some (Done (k'\<lparr>smem := w\<rparr>))" "mq_inv (k'\<lparr>smem := w\<rparr>) ps' (L - {m} \<union> {}) xs"
    "fst ` others ps' w = fst ` others ps (smem k) - (if flag_msg_release (m_flag (headers k m)) then {m_data (headers k m)} else {})"
    "slab_used (msg_slab k') ps' w = headers_used k ps - {m}"
    using lost_dispose [OF assms(1) copies_inv_start [OF assms(2)] assms(3,4)] by (elim exE conjE) (rule that)
  have "all_released k ps L xs m (k'\<lparr>smem := w\<rparr>)"
    unfolding all_released_def by (rule exI [of _ ps']) (use w(2-4) in simp)
  with w(1) show ?thesis by blast
qed

lemma lost_second:
  assumes lost: "copies_lost k ps L xs {u} k'" and inv: "copies_inv k0 ps0 L xs m {u} k ps" and m: "m \<in> L" "m \<notin> set xs"
  shows "\<exists>k1 k2. msg_dispose m k' = Some (Done k1) \<and> msg_dispose u k1 = Some (Done k2) \<and> all_released k0 ps0 L xs m k2"
proof -
  obtain w ps1 where w: "msg_dispose m k' = Some (Done (k'\<lparr>smem := w\<rparr>))" "mq_inv (k'\<lparr>smem := w\<rparr>) ps1 (L - {m} \<union> {u}) xs" "headers k' u = headers k u"
    "fst ` others ps1 w = fst ` others ps (smem k) - (if flag_msg_release (m_flag (headers k0 m)) then {m_data (headers k0 m)} else {})"
    "slab_used (msg_slab k') ps1 w = headers_used k ps - {m}"
    using lost_dispose [OF lost inv m] by auto
  note i = copies_invD [OF inv]
  have u: "u \<notin> L" "u \<notin> set xs" "copied k0 m u (headers k u) ps k" "m_data (headers k u) \<notin> fst ` others ps0 (smem k0)"
    "fst ` others ps (smem k) = insert (m_data (headers k u)) (fst ` others ps0 (smem k0))"
    using i(2,9) i(7) i(8) by (blast, blast, blast, blast, simp)
  have e: "L - {m} \<union> {u} - {u} = L - {m}" using u(1) by auto
  have "flag_msg_release (m_flag (headers k u))" using u(3) by (simp add: copied_def)
  moreover have "u \<in> L - {m} \<union> {u}" by blast
  ultimately obtain w2 ps2 where "msg_dispose u (k'\<lparr>smem := w\<rparr>) = Some (Done (k'\<lparr>smem := w, smem := w2\<rparr>))" "mq_inv (k'\<lparr>smem := w, smem := w2\<rparr>) ps2 (L - {m}) xs"
    "fst ` others ps2 w2 = fst ` others ps1 w - {m_data (headers k u)}" "slab_used (msg_slab k') ps2 w2 = slab_used (msg_slab k') ps1 w - {u}"
    using mq_inv_dispose [OF w(2) _ u(2)] unfolding e by (simp add: w(3)) blast
  moreover have "fst ` others ps1 w - {m_data (headers k u)} =
      fst ` others ps0 (smem k0) - (if flag_msg_release (m_flag (headers k0 m)) then {m_data (headers k0 m)} else {})"
  proof -
    have "insert x A - B - {x} = A - B" if "x \<notin> A" for x :: addr and A B using that by blast
    then show ?thesis unfolding w(4) u(5) using u(4) by simp
  qed
  moreover have "slab_used (msg_slab k') ps1 w - {u} = headers_used k0 ps0 - {m}" using w(5) i(10,11) by auto
  ultimately show ?thesis using w(1) by (auto simp: all_released_def)
qed

text \<open>Why the links may get nothing: one of the one or two copies that are needed cannot be made.\<close>

definition link_count :: "u16 \<Rightarrow> nat" where
  "link_count f = length (filter id [flag_msg_from_radio f, flag_msg_from_uart f, flag_msg_from_i2c f])"

definition no_room :: "'a msg_sys_scheme \<Rightarrow> addr list \<Rightarrow> addr \<Rightarrow> bool" where
  "no_room k ps m \<longleftrightarrow> 2 \<le> link_count (m_flag (headers k m)) \<and> copy_fails k ps m \<or>
     link_count (m_flag (headers k m)) = 3 \<and>
       (\<exists>k1 ps1 u. link_copy True False m k = Some (Done (k1, u, True)) \<and> slab_inv (msg_slab k1) ps1 (smem k1) \<and> copy_fails k1 ps1 m)"

text \<open>What the links get: the message itself for the first one, a copy without the request for an acknowledgement for the others.\<close>

definition links_served :: "'a msg_sys_scheme \<Rightarrow> addr list \<Rightarrow> addr set \<Rightarrow> addr list \<Rightarrow> addr \<Rightarrow> addr \<times> addr \<times> addr \<Rightarrow> 'a msg_sys_scheme \<Rightarrow> bool" where
  "links_served k ps L xs m cs k' \<longleftrightarrow> (case cs of (r, i, u) \<Rightarrow>
     (r \<noteq> NULL) = flag_msg_from_radio (m_flag (headers k m)) \<and> (i \<noteq> NULL) = flag_msg_from_i2c (m_flag (headers k m)) \<and>
     (u \<noteq> NULL) = flag_msg_from_uart (m_flag (headers k m)) \<and> m = (if r \<noteq> NULL then r else if u \<noteq> NULL then u else i) \<and>
     distinct (filter (\<lambda>c. c \<noteq> NULL) [r, u, i]) \<and>
     (\<exists>ps'. copies_inv k ps L xs m ({r, u, i} - {NULL, m}) k' ps'))"

lemma link_copy_none [simp]: "link_copy False first m k = Some (Done (k, NULL, True))" "link_copy True True m k = Some (Done (k, m, True))"
  by (simp_all add: link_copy_def)

text \<open>The message of the first link is the message itself.\<close>

lemma first_link:
  assumes inv: "mq_inv k ps L xs" and m: "m \<in> L" "m \<notin> set xs" "m \<noteq> NULL" "m_len (headers k m) \<noteq> 0"
    and pay: "(m_data (headers k m), n0, own) \<in> others ps (smem k)" "unat (m_len (headers k m)) \<le> n0"
    and f: "\<not> flag_msg_from_radio (m_flag (headers k m))" "flag_msg_from_uart (m_flag (headers k m)) \<or> flag_msg_from_i2c (m_flag (headers k m))"
  shows "\<exists>k' r. link_copies m k = Some (Done (k', r)) \<and> (case r of None \<Rightarrow> all_released k ps L xs m k' \<and> no_room k ps m | Some cs \<Rightarrow> links_served k ps L xs m cs k')"
proof -
  note st = copies_inv_start [OF inv, of m]
  consider "\<not> flag_msg_from_uart (m_flag (headers k m))" "flag_msg_from_i2c (m_flag (headers k m))"
    | "flag_msg_from_uart (m_flag (headers k m))" "\<not> flag_msg_from_i2c (m_flag (headers k m))"
    | "flag_msg_from_uart (m_flag (headers k m))" "flag_msg_from_i2c (m_flag (headers k m))" using f(2) by blast
  then show ?thesis
  proof cases
    case 1
    then have "link_copies m k = Some (Done (k, Some (NULL, m, NULL)))" using f(1) by (simp add: link_copies_def continue_def)
    moreover have "links_served k ps L xs m (NULL, m, NULL) k" using 1 f(1) m(3) st by (auto simp: links_served_def)
    ultimately show ?thesis by auto
  next
    case 2
    then have "link_copies m k = Some (Done (k, Some (NULL, NULL, m)))" using f(1) by (simp add: link_copies_def continue_def)
    moreover have "links_served k ps L xs m (NULL, NULL, m) k" using 2 f(1) m(3) st by (auto simp: links_served_def)
    ultimately show ?thesis by auto
  next
    case 3
    from link_copy_step [OF st m(1,4) pay] show ?thesis
    proof (elim disjE exE conjE)
      fix k1
      assume a: "link_copy True False m k = Some (Done (k1, NULL, False))" "copies_lost k ps L xs {} k1" "copy_fails k ps m"
      obtain k2 where "msg_dispose m k1 = Some (Done k2)" "all_released k ps L xs m k2" using lost_first [OF a(2) inv m(1,2)] by blast
      moreover have "no_room k ps m" using 3 f(1) a(3) by (simp add: no_room_def link_count_def)
      ultimately show ?thesis using 3 f(1) a(1) m(3) by (simp add: link_copies_def continue_def)
    next
      fix k1 c ps1
      assume a: "link_copy True False m k = Some (Done (k1, c, True))" "c \<notin> L" "c \<noteq> NULL" "copies_inv k ps L xs m {c} k1 ps1"
      have "c \<noteq> m" using a(2) m(1) by blast
      then have "links_served k ps L xs m (NULL, c, m) k1" using 3 f(1) m(3) a(3,4) by (auto simp: links_served_def insert_Diff_if)
      moreover have "link_copies m k = Some (Done (k1, Some (NULL, c, m)))" using 3 f(1) a(1) by (simp add: link_copies_def continue_def)
      ultimately show ?thesis by auto
    qed
  qed
qed

text \<open>The radio gets the message itself; the serial line and I2C get copies.\<close>

lemma radio_first:
  assumes inv: "mq_inv k ps L xs" and m: "m \<in> L" "m \<notin> set xs" "m \<noteq> NULL" "m_len (headers k m) \<noteq> 0"
    and pay: "(m_data (headers k m), n0, own) \<in> others ps (smem k)" "unat (m_len (headers k m)) \<le> n0"
    and f: "flag_msg_from_radio (m_flag (headers k m))" "\<not> flag_msg_from_uart (m_flag (headers k m))"
  shows "\<exists>k' r. link_copies m k = Some (Done (k', r)) \<and> (case r of None \<Rightarrow> all_released k ps L xs m k' \<and> no_room k ps m | Some cs \<Rightarrow> links_served k ps L xs m cs k')"
proof -
  note st = copies_inv_start [OF inv, of m]
  show ?thesis
  proof (cases "flag_msg_from_i2c (m_flag (headers k m))")
    case False
    then have "link_copies m k = Some (Done (k, Some (m, NULL, NULL)))" using f by (simp add: link_copies_def continue_def)
    moreover have "links_served k ps L xs m (m, NULL, NULL) k" using False f m(3) st by (auto simp: links_served_def)
    ultimately show ?thesis by auto
  next
    case True
    from link_copy_step [OF st m(1,4) pay] show ?thesis
    proof (elim disjE exE conjE)
      fix k1
      assume a: "link_copy True False m k = Some (Done (k1, NULL, False))" "copies_lost k ps L xs {} k1" "copy_fails k ps m"
      obtain k2 where "msg_dispose m k1 = Some (Done k2)" "all_released k ps L xs m k2" using lost_first [OF a(2) inv m(1,2)] by blast
      moreover have "no_room k ps m" using True f a(3) by (simp add: no_room_def link_count_def)
      ultimately show ?thesis using True f a(1) m(3) by (simp add: link_copies_def continue_def)
    next
      fix k1 c ps1
      assume a: "link_copy True False m k = Some (Done (k1, c, True))" "c \<notin> L" "c \<noteq> NULL" "copies_inv k ps L xs m {c} k1 ps1"
      have "c \<noteq> m" using a(2) m(1) by blast
      then have "links_served k ps L xs m (m, c, NULL) k1" using True f m(3) a(3,4) by (auto simp: links_served_def insert_Diff_if)
      moreover have "link_copies m k = Some (Done (k1, Some (m, c, NULL)))" using True f a(1) by (simp add: link_copies_def continue_def)
      ultimately show ?thesis by auto
    qed
  qed
qed

lemma radio_uart:
  assumes inv: "mq_inv k ps L xs" and m: "m \<in> L" "m \<notin> set xs" "m \<noteq> NULL" "m_len (headers k m) \<noteq> 0"
    and pay: "(m_data (headers k m), n0, own) \<in> others ps (smem k)" "unat (m_len (headers k m)) \<le> n0"
    and f: "flag_msg_from_radio (m_flag (headers k m))" "flag_msg_from_uart (m_flag (headers k m))"
  shows "\<exists>k' r. link_copies m k = Some (Done (k', r)) \<and> (case r of None \<Rightarrow> all_released k ps L xs m k' \<and> no_room k ps m | Some cs \<Rightarrow> links_served k ps L xs m cs k')"
  using link_copy_step [OF copies_inv_start [OF inv] m(1,4) pay]
proof (elim disjE exE conjE)
  fix k1
  assume a: "link_copy True False m k = Some (Done (k1, NULL, False))" "copies_lost k ps L xs {} k1" "copy_fails k ps m"
  obtain k2 where "msg_dispose m k1 = Some (Done k2)" "all_released k ps L xs m k2" using lost_first [OF a(2) inv m(1,2)] by blast
  moreover have "no_room k ps m" using f a(3) by (simp add: no_room_def link_count_def)
  ultimately show ?thesis using f a(1) m(3) by (simp add: link_copies_def continue_def)
next
  fix k1 u ps1
  assume a: "link_copy True False m k = Some (Done (k1, u, True))" "u \<notin> L" "u \<noteq> NULL" "copies_inv k ps L xs m {u} k1 ps1"
  have um: "u \<noteq> m" using a(2) m(1) by blast
  have h1: "headers k1 m = headers k m" using copies_invD(4) [OF a(4)] m(1) by blast
  show ?thesis
  proof (cases "flag_msg_from_i2c (m_flag (headers k m))")
    case False
    then have "links_served k ps L xs m (m, NULL, u) k1" using f m(3) a(3,4) um by (auto simp: links_served_def insert_Diff_if)
    moreover have "link_copies m k = Some (Done (k1, Some (m, NULL, u)))" using False f a(1) h1 by (simp add: link_copies_def continue_def)
    ultimately show ?thesis by auto
  next
    case True
    from link_copy_step [OF a(4) m(1,4) pay] show ?thesis
    proof (elim disjE exE conjE)
      fix k2
      assume b: "link_copy True False m k1 = Some (Done (k2, NULL, False))" "copies_lost k1 ps1 L xs {u} k2" "copy_fails k1 ps1 m"
      obtain k3 k4 where "msg_dispose m k2 = Some (Done k3)" "msg_dispose u k3 = Some (Done k4)" "all_released k ps L xs m k4"
        using lost_second [OF b(2) a(4) m(1,2)] by blast
      moreover have "slab_inv (msg_slab k1) ps1 (smem k1)" using copies_invD(1) [OF a(4)] by (simp add: mq_inv_def msgs_inv_def)
      then have "no_room k ps m" using True f a(1) b(3) by (auto simp: no_room_def link_count_def)
      ultimately show ?thesis using True f a(1,3) b(1) h1 m(3) by (simp add: link_copies_def continue_def)
    next
      fix k2 c ps2
      assume b: "link_copy True False m k1 = Some (Done (k2, c, True))" "c \<notin> {u}" "c \<notin> L" "c \<noteq> NULL" "copies_inv k ps L xs m {c, u} k2 ps2"
      have cm: "c \<noteq> m" "c \<noteq> u" using b(2,3) m(1) by blast+
      then have e: "{m, u, c} - {NULL, m} = {c, u}" using um a(3) b(4) by auto
      have "links_served k ps L xs m (m, c, u) k2"
        unfolding links_served_def case_prod_conv e using True f m(3) a(3) b(4,5) um cm by auto
      moreover have "link_copies m k = Some (Done (k2, Some (m, c, u)))" using True f a(1) b(1) h1 by (simp add: link_copies_def continue_def)
      ultimately show ?thesis by auto
    qed
  qed
qed

lemma link_copies_law:
  assumes inv: "mq_inv k ps L xs" and m: "m \<in> L" "m \<notin> set xs" "m_len (headers k m) \<noteq> 0"
    and pay: "(m_data (headers k m), n0, own) \<in> others ps (smem k)" "unat (m_len (headers k m)) \<le> n0"
    and f: "flag_msg_from_radio (m_flag (headers k m)) \<or> flag_msg_from_uart (m_flag (headers k m)) \<or> flag_msg_from_i2c (m_flag (headers k m))"
  shows "\<exists>k' r. link_copies m k = Some (Done (k', r)) \<and> (case r of None \<Rightarrow> all_released k ps L xs m k' \<and> no_room k ps m | Some cs \<Rightarrow> links_served k ps L xs m cs k')"
proof -
  have "m \<in> slab_used (msg_slab k) ps (smem k)" "slab_inv (msg_slab k) ps (smem k)" using inv m(1) by (auto simp: mq_inv_def msgs_inv_def)
  then have m0: "m \<noteq> NULL" using slot_apart(2) pay(1) by blast
  show ?thesis
    using first_link [OF inv m(1,2) m0 m(3) pay] radio_first [OF inv m(1,2) m0 m(3) pay] radio_uart [OF inv m(1,2) m0 m(3) pay] f by blast
qed

section \<open>The dispatch\<close>

lemma link_flag_any:
  assumes "flag_msg_from_radio f \<or> flag_msg_from_uart f \<or> flag_msg_from_i2c f"
  shows "f AND SOS_MSG_ALL_LINK_IO \<noteq> 0"
proof
  assume z: "f AND SOS_MSG_ALL_LINK_IO = 0"
  have "f AND x = 0" if "SOS_MSG_ALL_LINK_IO AND x = x" for x
  proof -
    have "f AND x = (f AND SOS_MSG_ALL_LINK_IO) AND x" unfolding and.assoc that ..
    then show ?thesis by (simp add: z)
  qed
  then have "f AND SOS_MSG_RADIO_IO = 0" "f AND SOS_MSG_UART_IO = 0" "f AND SOS_MSG_I2C_IO = 0" by (simp_all add: flag_defs)
  then show False using assms by (simp add: flag_msg_from_radio_def flag_msg_from_uart_def flag_msg_from_i2c_def)
qed

text \<open>The monitors see the message, then the links get theirs, in the order radio, serial line, I2C.\<close>

definition send_links :: "'a net_sys_scheme net_env \<Rightarrow> addr \<Rightarrow> addr \<times> addr \<times> addr \<Rightarrow> 'a net_sys_scheme \<Rightarrow> ('a net_sys_scheme \<times> int) outcome option" where
  "send_links env m cs k = (case cs of (r, i, u) \<Rightarrow>
     continue (monitor_deliver_outgoing_msg_to_monitor (ne_run env) m k) (\<lambda>k4.
     continue (link_dispatch (radio_msg_alloc env) r k4) (\<lambda>k5.
     continue (link_dispatch (uart_msg_alloc (ne_call env) (ne_now env)) u k5) (\<lambda>k6.
     continue (link_dispatch (i2c_msg_alloc env) i k6) (\<lambda>k7. Some (Done (k7, SOS_OK)))))))"

definition to_links :: "'a msg_sys_scheme \<Rightarrow> addr \<Rightarrow> bool" where
  "to_links k m \<longleftrightarrow> m_daddr (headers k m) \<noteq> node_address k \<and>
     (m_daddr (headers k m) = BCAST_ADDRESS \<or> flag_msg_raw (m_flag (headers k m)) \<and> \<not> flag_msg_link_auto (m_flag (headers k m)))"

lemma dispatch_links:
  assumes "to_links k m" "m_flag (headers k m) AND SOS_MSG_ALL_LINK_IO \<noteq> 0"
  shows "sos_msg_dispatch env m k = continue (link_copies m k) (\<lambda>(k', cs). case cs of None \<Rightarrow> Some (Done (k', - ENOMEM)) | Some cs \<Rightarrow> send_links env m cs k')"
proof -
  have r: "route_msg env m k = Some (Done (k, None))" "\<not> (flag_msg_link_auto (m_flag (headers k m)) \<and> m_daddr (headers k m) \<noteq> BCAST_ADDRESS)"
    "node_address k \<noteq> m_daddr (headers k m)" using assms(1) by (auto simp: to_links_def route_msg_def)
  show ?thesis
    unfolding sos_msg_dispatch_def r(1) continue_simps send_links_def
    by (simp only: r(2,3) assms(2) if_False prod.case option.case Option.bind.bind_lunit)
qed

lemma net_dispatch_law:
  assumes inv: "mq_inv k ps L xs" and m: "m \<in> L" "m \<notin> set xs" "m_len (headers k m) \<noteq> 0"
    and pay: "(m_data (headers k m), n0, own) \<in> others ps (smem k)" "unat (m_len (headers k m)) \<le> n0"
    and f: "flag_msg_from_radio (m_flag (headers k m)) \<or> flag_msg_from_uart (m_flag (headers k m)) \<or> flag_msg_from_i2c (m_flag (headers k m))"
    and to: "to_links k m"
  shows "\<exists>k' r. link_copies m k = Some (Done (k', r)) \<and>
    sos_msg_dispatch env m k = (case r of None \<Rightarrow> Some (Done (k', - ENOMEM)) | Some cs \<Rightarrow> send_links env m cs k') \<and>
    (case r of None \<Rightarrow> all_released k ps L xs m k' \<and> no_room k ps m | Some cs \<Rightarrow> links_served k ps L xs m cs k')"
proof -
  obtain k' r where "link_copies m k = Some (Done (k', r))" "case r of None \<Rightarrow> all_released k ps L xs m k' \<and> no_room k ps m | Some cs \<Rightarrow> links_served k ps L xs m cs k'"
    using link_copies_law [OF inv m pay f] by blast
  then show ?thesis using dispatch_links [OF to link_flag_any [OF f], of env] by auto
qed

text \<open>A message for a link that the build does not have is neither sent nor released, although the result is success.\<close>

lemma dispatch_spi_leak:
  assumes "to_links k m" "m_flag (headers k m) AND SOS_MSG_ALL_LINK_IO = SOS_MSG_SPI_IO" "cb_list k = NULL"
  shows "sos_msg_dispatch env m k = Some (Done (k, SOS_OK))"
proof -
  have n: "m_flag (headers k m) AND SOS_MSG_ALL_LINK_IO \<noteq> 0" unfolding assms(2) by (simp add: flag_defs)
  have "m_flag (headers k m) AND x = SOS_MSG_SPI_IO AND x" if "SOS_MSG_ALL_LINK_IO AND x = x" for x
    unfolding assms(2) [symmetric] and.assoc that ..
  then have "\<not> flag_msg_from_radio (m_flag (headers k m))" "\<not> flag_msg_from_uart (m_flag (headers k m))" "\<not> flag_msg_from_i2c (m_flag (headers k m))"
    by (simp_all add: flag_msg_from_radio_def flag_msg_from_uart_def flag_msg_from_i2c_def flag_defs)
  then have "link_copies m k = Some (Done (k, Some (NULL, NULL, NULL)))" by (simp add: link_copies_def)
  then show ?thesis
    using dispatch_links [OF assms(1) n, of env] assms(3)
    by (simp add: send_links_def monitor_deliver_outgoing_msg_to_monitor_def link_dispatch_def)
qed

text \<open>
  C17. A message posted over a link to the own node is the same as one posted locally: \<^verbatim>\<open>post_link\<close> gives the result and the state of
  \<^verbatim>\<open>post_long\<close>, whatever links the flags name and in every state.
\<close>

theorem post_link_local:
  "post_link env did sid type len data flag (node_address k) k = map_option Done (post_long did sid type len data flag k)"
proof -
  have "node_address k1 = node_address k" if "msg_create k = Some (k1, m)" for k1 m
    using that by (auto simp: msg_create_def upd_msg_def Let_def split: Option.bind_splits if_splits)
  then show ?thesis
    by (auto simp: post_link_def post_long_def post_longer_def sos_msg_dispatch_def upd_msg_def set_msg_def split: Option.bind_splits)
qed

section \<open>I2C neighbours\<close>

text \<open>The entries \<open>ns\<close> of the list lie in blocks of their own; the nodes they name.\<close>

definition neighbors_inv :: "addr list \<Rightarrow> addr list \<Rightarrow> 'a net_sys_scheme \<Rightarrow> bool" where
  "neighbors_inv ps ns k \<longleftrightarrow> path (\<lambda>p. nb_next (neighbors k p)) (addrList k) ns NULL \<and> set ns \<subseteq> fst ` others ps (smem k)"

definition known_nodes :: "addr list \<Rightarrow> 'a net_sys_scheme \<Rightarrow> u16 list" where
  "known_nodes ns k = map (\<lambda>p. node_addr (neighbors k p)) ns"

lemma check_i2c_law:
  assumes "neighbors_inv ps ns k"
  shows "check_i2c_address d k = Some (if d \<in> set (known_nodes ns k) then SOS_OK else - EINVAL)"
proof -
  have p: "path (\<lambda>p. nb_next (neighbors k p)) (addrList k) ns NULL" using assms by (simp add: neighbors_inv_def)
  have "node_of (find (\<lambda>p. node_addr (neighbors k p) = d) ns) \<noteq> NULL \<longleftrightarrow> d \<in> set (known_nodes ns k)"
  proof (cases "find (\<lambda>p. node_addr (neighbors k p) = d) ns")
    case None
    then have "d \<notin> set (known_nodes ns k)" by (auto simp: find_None_iff known_nodes_def)
    then show ?thesis using None by simp
  next
    case (Some x)
    then have "x \<in> set ns" "node_addr (neighbors k x) = d" by (auto simp: find_Some_iff)
    moreover from this have "x \<noteq> NULL" using path_nonnull [OF p] by metis
    ultimately show ?thesis using Some by (auto simp: known_nodes_def)
  qed
  then show ?thesis using chain_search_path [OF p] by (simp add: check_i2c_address_def)
qed

text \<open>A new entry, or none if there is no memory.\<close>

definition learnt :: "addr list \<Rightarrow> addr list \<Rightarrow> u16 \<Rightarrow> u8 \<Rightarrow> 'a net_sys_scheme \<Rightarrow> addr list \<Rightarrow> 'a net_sys_scheme \<Rightarrow> bool" where
  "learnt ps ns na ia k ns' k' \<longleftrightarrow> neighbors_inv ps ns' k' \<and> known_nodes ns' k' = na # known_nodes ns k \<and> i2c_addr (neighbors k' (hd ns')) = ia \<and>
     fst ` others ps (smem k') = insert (hd ns') (fst ` others ps (smem k))"

lemma add_i2c_law:
  assumes inv: "msgs_inv k ps L" and ns: "neighbors_inv ps ns k"
  shows "\<exists>k' r. add_i2c_address na ia k = Some (k', r) \<and> msgs_inv k' ps L \<and>
    (if r = SOS_OK then \<exists>ns'. learnt ps ns na ia k ns' k'
     else r = - ENOMEM \<and> neighbors_inv ps ns k' \<and> known_nodes ns k' = known_nodes ns k \<and> others ps (smem k') = others ps (smem k) \<and>
       (\<exists>h. ker_malloc 5 KER_I2C_MGR_PID (heap_of k) = Some (h, NULL)))"
proof -
  have sz: "unat (5 :: u16) \<le> 65524" by simp
  obtain h p where a: "ker_malloc 5 KER_I2C_MGR_PID (heap_of k) = Some (h, p)" using malloc_total [OF inv sz] by blast
  show ?thesis
  proof (cases "p = NULL")
    case True
    note f = malloc_fail [OF inv a [unfolded True] sz]
    have "add_i2c_address na ia k = Some (set_heap h k, - ENOMEM)" using a True by (simp add: add_i2c_address_def k_malloc_def)
    moreover have "neighbors_inv ps ns (set_heap h k)" using ns f(2) by (simp add: neighbors_inv_def) (simp add: set_heap_def)
    moreover have "known_nodes ns (set_heap h k) = known_nodes ns k" by (simp add: known_nodes_def set_heap_def)
    ultimately show ?thesis using f a True by (auto simp: errno_defs)
  next
    case False
    obtain n where n: "msgs_inv (set_heap h k) ps L" "p \<notin> fst ` others ps (smem k)"
      "others ps (smem (set_heap h k)) = insert (p, n, KER_I2C_MGR_PID) (others ps (smem k))" using malloc_law [OF inv a False sz] by blast
    let ?k = "(upd_neighbor p (\<lambda>_. \<lparr>node_addr = na, i2c_addr = ia, nb_next = addrList (set_heap h k)\<rparr>) (set_heap h k))\<lparr>addrList := p\<rparr>"
    have e: "add_i2c_address na ia k = Some (?k, SOS_OK)" using a False by (simp add: add_i2c_address_def k_malloc_def)
    have k: "smem ?k = smem (set_heap h k)" "msg_slab ?k = msg_slab (set_heap h k)" "headers ?k = headers (set_heap h k)"
      "addrList ?k = p" "neighbors ?k = (neighbors k)(p := \<lparr>node_addr = na, i2c_addr = ia, nb_next = addrList k\<rparr>)"
      by (simp_all add: upd_neighbor_def) (simp_all add: set_heap_def)
    have i: "msgs_inv ?k ps L" using msgs_inv_frame [of ?k "set_heap h k" L ps] n(1) k by simp
    have pn: "p \<notin> set ns" using n(2) ns by (auto simp: neighbors_inv_def)
    have "path (\<lambda>q. nb_next (neighbors ?k q)) (addrList k) ns NULL = path (\<lambda>q. nb_next (neighbors k q)) (addrList k) ns NULL"
      by (rule path_cong) (use pn k(5) in auto)
    then have "neighbors_inv ps (p # ns) ?k" using ns False n(3) unfolding neighbors_inv_def k by auto
    moreover have "known_nodes (p # ns) ?k = na # known_nodes ns k" using pn unfolding known_nodes_def k by auto
    ultimately have "learnt ps ns na ia k (p # ns) ?k" using n(3) k by (simp add: learnt_def)
    then show ?thesis using e i by (intro exI [of _ ?k] exI [of _ SOS_OK]) auto
  qed
qed

lemma discovery_law:
  assumes inv: "msgs_inv k ps L" and ns: "neighbors_inv ps ns k" "distinct (known_nodes ns k)" and t: "m_type (headers k msg) = MSG_DISCOVERY"
  shows "\<exists>k' ns'. sos_i2c_mgr_msg_handler env msg k = Some (Done (k', SOS_OK)) \<and> msgs_inv k' ps L \<and> neighbors_inv ps ns' k' \<and> distinct (known_nodes ns' k') \<and>
    (\<forall>d. check_i2c_address d k' = Some (if d \<in> set (known_nodes ns' k') then SOS_OK else - EINVAL)) \<and>
    (if m_saddr (headers k msg) \<in> set (known_nodes ns k) then k' = k \<and> ns' = ns
     else learnt ps ns (m_saddr (headers k msg)) (bytes_of k (m_data (headers k msg))) k ns' k' \<or>
       known_nodes ns' k' = known_nodes ns k \<and> others ps (smem k') = others ps (smem k) \<and>
       (\<exists>h. ker_malloc 5 KER_I2C_MGR_PID (heap_of k) = Some (h, NULL)))"
proof -
  let ?na = "m_saddr (headers k msg)" and ?ia = "bytes_of k (m_data (headers k msg))"
  have ty: "MSG_DISCOVERY \<noteq> MSG_INIT" "MSG_DISCOVERY \<noteq> MSG_TIMER_TIMEOUT" "MSG_DISCOVERY \<noteq> MSG_I2C_SEND_DONE"
    by (simp_all add: MSG_DISCOVERY_def MSG_INIT_def MSG_TIMER_TIMEOUT_def MSG_I2C_SEND_DONE_def)
  have run: "sos_i2c_mgr_msg_handler env msg k = do { r \<leftarrow> check_i2c_address ?na k;
      if r \<noteq> SOS_OK then do { (k1, e) \<leftarrow> add_i2c_address ?na ?ia k; Some (Done (k1, SOS_OK)) } else Some (Done (k, SOS_OK)) }"
    unfolding sos_i2c_mgr_msg_handler_def Let_def t using ty by simp
  show ?thesis
  proof (cases "?na \<in> set (known_nodes ns k)")
    case True
    then show ?thesis using run check_i2c_law [OF ns(1)] inv ns by (intro exI [of _ k] exI [of _ ns]) simp
  next
    case False
    have ne: "- EINVAL \<noteq> SOS_OK" by (simp add: errno_defs)
    obtain k' r where a: "add_i2c_address ?na ?ia k = Some (k', r)" "msgs_inv k' ps L"
      "if r = SOS_OK then \<exists>ns'. learnt ps ns ?na ?ia k ns' k'
       else r = - ENOMEM \<and> neighbors_inv ps ns k' \<and> known_nodes ns k' = known_nodes ns k \<and> others ps (smem k') = others ps (smem k) \<and>
         (\<exists>h. ker_malloc 5 KER_I2C_MGR_PID (heap_of k) = Some (h, NULL))"
      using add_i2c_law [OF inv ns(1)] by blast
    have e: "sos_i2c_mgr_msg_handler env msg k = Some (Done (k', SOS_OK))"
      using run check_i2c_law [OF ns(1)] False ne a(1) by simp
    obtain ns' where n: "neighbors_inv ps ns' k'" "distinct (known_nodes ns' k')"
      "learnt ps ns ?na ?ia k ns' k' \<or> known_nodes ns' k' = known_nodes ns k \<and> others ps (smem k') = others ps (smem k) \<and>
         (\<exists>h. ker_malloc 5 KER_I2C_MGR_PID (heap_of k) = Some (h, NULL))"
      using a(3) ns False by (cases "r = SOS_OK") (auto simp: learnt_def)
    show ?thesis using e a(2) n check_i2c_law [OF n(1)] False by (intro exI [of _ k'] exI [of _ ns']) simp
  qed
qed

text \<open>Removing an entry from a list that becomes empty reads the null pointer.\<close>

lemma rm_i2c_last:
  assumes "addrList k = p" "p \<noteq> NULL" "nb_matches na ia (neighbors k p)" "nb_next (neighbors k p) = NULL"
  shows "rm_i2c_address na ia k = None"
proof -
  have e: "rm_head na ia NULL r k' = Some (k', NULL, r)" "rm_rest na ia NULL r k' = None" for r and k' :: "'a net_sys_scheme"
    by (simp_all add: rm_head.simps rm_rest.simps)
  have "rm_head na ia (addrList k) (- EINVAL) k = do { k1 \<leftarrow> k_free p k; Some (k1\<lparr>addrList := NULL\<rparr>, NULL, SOS_OK) }"
    using assms by (subst rm_head.simps) (simp add: e)
  then show ?thesis by (cases "k_free p k") (simp_all add: rm_i2c_address_def e)
qed

section \<open>Properties\<close>

text \<open>A node with one message of five bytes, an announcement of node 7 to all nodes over all links.\<close>

definition demo_env :: "'k net_env" where
  "demo_env = \<lparr>ne_run = (\<lambda>f st m k. Some (Done (k, SOS_OK))), ne_call = (\<lambda>f k. Some (Done k)), ne_now = 0, route = (\<lambda>f. no_router),
     radio_msg_alloc = (\<lambda>m k. Some (Done k)), i2c_msg_alloc = (\<lambda>m k. Some (Done k))\<rparr>"

definition net_node :: "heap \<Rightarrow> net_sys" where
  "net_node h = (cm_sys.extend (code_node h (empty_code NULL)) (net_sys.fields 0 0 0 0 SOS_I2C_MGR_IDLE NULL (\<lambda>_. \<lparr>node_addr = 0, i2c_addr = 0, nb_next = NULL\<rparr>) 1))
     \<lparr>schedpq := mq_init, headers := (\<lambda>_. (headers (boot_sys h mq_init) 0)\<lparr>m_daddr := BCAST_ADDRESS, m_saddr := 7, m_type := MSG_DISCOVERY, m_len := 5,
        m_flag := SOS_MSG_RELEASE OR SOS_MSG_RADIO_IO OR SOS_MSG_UART_IO OR SOS_MSG_I2C_IO\<rparr>)\<rparr>"

lemma net_node_simps:
  "smem (net_node h) = smem (boot_sys h mq_init)" "msg_slab (net_node h) = msg_slab (boot_sys h mq_init)" "schedpq (net_node h) = mq_init"
  "m_flag (headers (net_node h) a) = 0x0E04" "m_daddr (headers (net_node h) a) = BCAST_ADDRESS" "m_type (headers (net_node h) a) = MSG_DISCOVERY"
  "m_len (headers (net_node h) a) = 5" "m_data (headers (net_node h) a) = 347" "m_saddr (headers (net_node h) a) = 7"
  "node_address (net_node h) = 1" "addrList (net_node h) = NULL"
  by (simp_all add: net_node_def code_node_def uart_node_def uart_sys.defs cm_sys.defs net_sys.defs demo_kernel_def demo_shm_def demo_sys_def flag_defs)
     (simp_all add: boot_sys_def)

lemma net_node_inv:
  assumes h: "malloc_heap h = 256" "rep h [Used 11 11 11 False, Used 3 130 130 False, Free 49]"
  shows "msgs_inv (net_node h) [259] {263}" "mq_inv (net_node h) [259] {263} []"
proof -
  show i: "msgs_inv (net_node h) [259] {263}"
    using boot_msgs_inv [OF h, of mq_init] boot_inv(3) [OF h]
    by (simp add: msgs_inv_def payloads_ok_def releases_def net_node_simps) (simp add: boot_sys_def flag_msg_release_def flag_defs)
  show "mq_inv (net_node h) [259] {263} []"
    using i by (simp add: mq_inv_def net_node_simps) (simp add: mq_holds_def mq_parts_def queue_at_def mq_init_def)
qed

text \<open>
  C10. A message that names links is given to all of them or to none. The message is a broadcast, or a raw message to another node that does not ask
  for the choice of a link (\<^verbatim>\<open>SOS_MSG_LINK_AUTO\<close>); it is in no queue, and its payload is not empty and lies in a block of the memory manager.
  The dispatch first prepares one message for every link
  that is named: the message itself for the first of radio, serial line and I2C, for each other one a new message with a header of its own, with the
  same fields but without the request for an acknowledgement, which owns a new block with the same bytes as payload. If this succeeds, the monitors
  see the message and then the links get exactly these messages; all other messages, headers and blocks are unchanged. It fails only if there is no header or no block for
  one of the copies; then the result is \<^verbatim>\<open>-ENOMEM\<close>, no link gets anything, and the message, its payload if it owns one, and the copies made so far are all
  released: of the headers and blocks in use before exactly those of the message are not in use, and no other ones are. In both cases the invariant of
  messages, queue and memory holds.
\<close>

theorem dispatch_links_correct:
  assumes "mq_inv k ps L xs" "m \<in> L" "m \<notin> set xs" "m_len (headers k m) \<noteq> 0"
    "(m_data (headers k m), n0, own) \<in> others ps (smem k)" "unat (m_len (headers k m)) \<le> n0"
    "flag_msg_from_radio (m_flag (headers k m)) \<or> flag_msg_from_uart (m_flag (headers k m)) \<or> flag_msg_from_i2c (m_flag (headers k m))"
    "to_links k m"
  shows "\<exists>k' r. link_copies m k = Some (Done (k', r)) \<and>
    sos_msg_dispatch env m k = (case r of None \<Rightarrow> Some (Done (k', - ENOMEM)) | Some cs \<Rightarrow> send_links env m cs k') \<and>
    (case r of None \<Rightarrow> all_released k ps L xs m k' \<and> no_room k ps m | Some cs \<Rightarrow> links_served k ps L xs m cs k')"
  by (rule net_dispatch_law [OF assms])

theorem dispatch_links_correct_witness:
  "\<exists>h k' r. sos_msg_dispatch demo_env 263 (net_node h) = (case r of None \<Rightarrow> Some (Done (k', - ENOMEM)) | Some cs \<Rightarrow> send_links demo_env 263 cs k') \<and>
    (case r of None \<Rightarrow> all_released (net_node h) [259] {263} [] 263 k' \<and> no_room (net_node h) [259] 263 | Some cs \<Rightarrow> links_served (net_node h) [259] {263} [] 263 cs k')"
proof -
  obtain h where h: "malloc_heap h = 256" "rep h [Used 11 11 11 False, Used 3 130 130 False, Free 49]" using boot_heap by blast
  have "(m_data (headers (net_node h) 263), 20, 130) \<in> others [259] (smem (net_node h))"
    using boot_others(2) [OF h, of mq_init] by (simp add: net_node_simps)
  moreover have "flag_msg_from_radio (m_flag (headers (net_node h) 263))" "to_links (net_node h) 263"
    by (simp_all add: net_node_simps flag_msg_from_radio_def flag_defs to_links_def BCAST_ADDRESS_def)
  moreover have "m_len (headers (net_node h) 263) \<noteq> 0" "unat (m_len (headers (net_node h) 263)) \<le> 20" "263 \<in> {263 :: addr}" "263 \<notin> set ([] :: addr list)"
    by (simp_all add: net_node_simps)
  ultimately show ?thesis
    using dispatch_links_correct [OF net_node_inv(2) [OF h], of 263 20 130 demo_env] by blast
qed

text \<open>
  C16. The handler of the I2C manager keeps the list of neighbours for the messages with which nodes announce themselves: the sender of an announcement is added with its I2C address
  unless it is known or \<^verbatim>\<open>ker_malloc\<close> has no memory for the entry, no node is entered twice, the list stays in blocks of its own, and afterwards
  \<^verbatim>\<open>check_i2c_address\<close> returns success for exactly the nodes of the list.
\<close>

theorem discovery_correct:
  assumes "msgs_inv k ps L" "neighbors_inv ps ns k" "distinct (known_nodes ns k)" "m_type (headers k msg) = MSG_DISCOVERY"
  shows "\<exists>k' ns'. sos_i2c_mgr_msg_handler env msg k = Some (Done (k', SOS_OK)) \<and> msgs_inv k' ps L \<and> neighbors_inv ps ns' k' \<and> distinct (known_nodes ns' k') \<and>
    (\<forall>d. check_i2c_address d k' = Some (if d \<in> set (known_nodes ns' k') then SOS_OK else - EINVAL)) \<and>
    (if m_saddr (headers k msg) \<in> set (known_nodes ns k) then k' = k \<and> ns' = ns
     else learnt ps ns (m_saddr (headers k msg)) (bytes_of k (m_data (headers k msg))) k ns' k' \<or>
       known_nodes ns' k' = known_nodes ns k \<and> others ps (smem k') = others ps (smem k) \<and>
       (\<exists>h. ker_malloc 5 KER_I2C_MGR_PID (heap_of k) = Some (h, NULL)))"
  by (rule discovery_law [OF assms])

theorem discovery_correct_witness:
  "\<exists>h k' ns'. sos_i2c_mgr_msg_handler demo_env 263 (net_node h) = Some (Done (k', SOS_OK)) \<and> neighbors_inv [259] ns' k' \<and> distinct (known_nodes ns' k')"
proof -
  obtain h where h: "malloc_heap h = 256" "rep h [Used 11 11 11 False, Used 3 130 130 False, Free 49]" using boot_heap by blast
  have n: "neighbors_inv [259] [] (net_node h)" "distinct (known_nodes [] (net_node h))" by (simp_all add: neighbors_inv_def known_nodes_def net_node_simps)
  have t: "m_type (headers (net_node h) 263) = MSG_DISCOVERY" by (simp add: net_node_simps)
  obtain k' ns' where "sos_i2c_mgr_msg_handler demo_env 263 (net_node h) = Some (Done (k', SOS_OK))" "neighbors_inv [259] ns' k'" "distinct (known_nodes ns' k')"
    using discovery_correct [OF net_node_inv(1) [OF h] n t, of demo_env] by (elim exE conjE) (rule that)
  then show ?thesis by blast
qed

end
