(* ===== verification/Spec2Isabelle.thy ===== *)
theory Spec2Isabelle
  imports Malloc_Realloc Sos_List Timer_Correct Fntable_Correct Removal_Correct Uart_Correct Net_Correct
begin

text \<open>
  The SOS operating system for sensor nodes: a verification library of its kernel.

  \<^bold>\<open>The program.\<close> SOS runs small modules on microcontrollers. Modules are loaded into program memory while the
  node runs, have a block of memory as state, and communicate by messages, which the scheduler takes from a priority queue and
  gives to the handler of the addressed module, and by functions which they publish and subscribe to. Everything dynamic is
  allocated by one block allocator; message headers and control blocks come from slabs on top of it. Messages for other nodes
  leave over radio, serial line and I2C. The modelled build is the one for the AVR nodes mica2 and micaz: 16-bit pointers and
  \<^verbatim>\<open>int\<close>, no preemption, no protection domains (\<^verbatim>\<open>SOS_SFI\<close>), no exception
  handling, the older sensor interface. Paths below are relative to \<^verbatim>\<open>src/\<close>.

  \<^bold>\<open>Conventions.\<close> \<open>Sos_Prelude\<close> has the machine types, error numbers and collections of rules.
  Integers are words of their width where the code can wrap around; the signed 32 bit numbers of the timers are integers
  whose sums and differences have no result outside their range. Lengths and addresses inside a proof are natural numbers,
  results of type \<^verbatim>\<open>int8_t\<close> are integers. An address is a natural number, 0 is the null pointer. Memory is
  typed: one store for each kind of record the code keeps at addresses, and one store for plain bytes; the allocator says which
  addresses are in use. Operations pass the state explicitly and return an option, where \<open>None\<close> means that the C code
  has no defined result (a loop that does not end, an access through the null pointer or outside an array, the overflow of a signed number); operations that may
  call \<^verbatim>\<open>ker_panic\<close>, which never returns, give an \<open>outcome\<close>, \<open>Done\<close> or
  \<open>Panic\<close>. The kernel state is a record that every component extends by its own static variables, in the order
  messages, module table, timers, monitors, sensors, time stamps, shared memory, scheduler, serial link, code memory, network.
  Handlers of modules, sensor drivers, link layers of radio and I2C, routing functions and the time are parameters of the
  operations that call them.

  \<^bold>\<open>The theories.\<close>

  \<^item> Lists. \<open>Links\<close> is the theory of doubly linked rings and singly linked paths; its locale
    \<open>link_store\<close> is interpreted by \<^verbatim>\<open>kernel/sos_list.c\<close> (\<open>Sos_List\<close>) and by the
    free list of the allocator. \<open>Chains\<close> has the hash tables of linked lists (locale \<open>chained_hash\<close>),
    interpreted by the module table and by shared memory.

  \<^item> Memory. \<open>Malloc\<close> translates \<^verbatim>\<open>kernel/malloc.c\<close>. \<open>Malloc_Spec\<close> is its
    specification as functions on the list of areas, \<open>Malloc_Rep\<close> relates a heap to such a list,
    \<open>Malloc_Correct\<close>, \<open>Malloc_Release\<close> and \<open>Malloc_Realloc\<close> show that every operation
    refines the specification and returns, \<open>Malloc_Props\<close> states what follows for callers,
    \<open>Malloc_Client\<close> is the interface the rest of the kernel uses (locale \<open>mem_provider\<close>).
    \<open>Slab\<close> and \<open>Slab_Correct\<close>: \<^verbatim>\<open>kernel/slab.c\<close>; a slot is handed out once and
    taken back exactly, an allocation fails only if all pools are full and the allocator has no room, and exactly a pool that becomes
    empty is given back.

  \<^item> Messages. \<open>Message_Queue\<close> and \<open>Message_Queue_Correct\<close>:
    \<^verbatim>\<open>kernel/message_queue.c\<close> in both builds is a stable priority queue (locale
    \<open>prio_queue\<close>), with the defects of \<^verbatim>\<open>mq_get\<close>. \<open>Messages\<close>,
    \<open>Messages_Correct\<close> and \<open>Message_Frames\<close>: \<^verbatim>\<open>kernel/message.c\<close> and the life of
    a message; the invariant \<open>mq_inv\<close> states who owns every header and payload. The theorems on messages
    say exactly which headers (\<open>headers_used\<close>) and blocks are in use afterwards.

  \<^item> Modules and scheduler. \<open>Module_Table\<close> and \<open>Sched\<close>: \<^verbatim>\<open>kernel/sched.c\<close>;
    \<open>Module_Table_Correct\<close>, \<open>Sched_Correct\<close> and \<open>Removal_Correct\<close> show that the table is a
    finite map, that every dispatch
    keeps the invariant of the message traffic if the handlers keep it (\<open>handler_ok\<close>), that queued messages are delivered exactly once to handlers that only
    observe, and what removal of a module leaves behind. \<open>Fntable\<close> and
    \<open>Fntable_Correct\<close>: \<^verbatim>\<open>kernel/fntable.c\<close>; no pointer to a removed function stays, if
    the pointers are as linking leaves them, which is shown to be kept by linking and subscribing.

  \<^item> Services. \<open>Timer\<close>, \<open>Timer_Range\<close> and \<open>Timer_Correct\<close>: \<^verbatim>\<open>kernel/sos_timer.c\<close> and
    \<^verbatim>\<open>processor/avr/timer.c\<close>; ticks and deltas stay within 32 bits, the delta queue is a
    list of due times, and the soft interrupt serves the timers that have expired.
    \<open>Monitor\<close>: \<^verbatim>\<open>kernel/monitor.c\<close>. \<open>Sensor\<close>:
    \<^verbatim>\<open>kernel/sensor.c\<close>. \<open>Timestamp\<close>: \<^verbatim>\<open>kernel/timestamp.c\<close>.
    \<open>Shm\<close> and \<open>Shm_Correct\<close>: \<^verbatim>\<open>kernel/sos_shm.c\<close>. Monitors, sensors and time
    stamps take part in the scheduler's and the network's operations and have no theorems of their own.

  \<^item> Serial link. \<open>Crc\<close>: the checksum, by table and bit by bit. \<open>Uart\<close>:
    \<^verbatim>\<open>drivers/uart/\<close>. \<open>Uart_Send\<close>, \<open>Uart_Receive\<close> and
    \<open>Uart_Correct\<close>: what one node sends the other queues, and no input on the line
    breaks the kernel's invariant as long as it has no raw frame and no time stamp packet.

  \<^item> Code memory and loader. \<open>Flash\<close> and \<open>Flash_Correct\<close>:
    \<^verbatim>\<open>processor/avr/flash_api.c\<close> and the page cache; it implements a byte array, except
    for reads that run from another page into the cached one. \<open>Codemem\<close>
    and \<open>Codemem_Correct\<close>: \<^verbatim>\<open>kernel/codemem.c\<close>. \<open>Melf\<close> and
    \<open>Melf_Correct\<close>: \<^verbatim>\<open>tools/elfloader/soslib/\<close>; loading makes every instruction of the
    relocation table refer to its symbol and changes nothing else.

  \<^item> Network. \<open>Message_Net\<close>: \<^verbatim>\<open>kernel/message_net.c\<close> and
    \<^verbatim>\<open>drivers/i2c/sos_i2c_mgr.c\<close>. \<open>Net_Correct\<close>: a raw message or broadcast for several links goes to all of them, with independent copies, or to none with everything released; a message to the own node is posted locally; the list of
    I2C neighbours is the set of nodes that announced themselves while there was memory.

  \<^bold>\<open>Bounds.\<close> There is no fuel. Loops are structural recursions, functions with a termination proof, or partial
  functions in the option type; for the latter the theorems state that they return, under the invariant. The exception is
  \<^verbatim>\<open>rm_i2c_address\<close>, for which a lemma shows that it may not. The allocator's theorems
  hold for every heap the invariant admits and requests up to 65524 bytes;
  what the wrap-around does to larger ones is a theorem of its own. The theorems on timers ask that the interval and the ticks not yet
  accounted for, or the deltas and periods plus the range of the hardware counter, are numbers of 32 bits. The lengths of messages have eight bits and stay below this bound.

  \<^bold>\<open>Composition.\<close> Each component's theorems assume the invariant of the state they run in and show that it
  holds again: the allocator's for the slabs, the slabs' for the messages, \<open>mq_inv\<close> for the scheduler, the receiver
  of the serial link and the network. Witnesses apply the theorems to a node with a heap built by the allocator itself. The typed
  view of module headers (\<open>mod_rom\<close>) is not connected with the bytes that the loader writes to the flash, so that
  loading and registration are verified separately.

  \<^bold>\<open>Not modelled.\<close>

  \<^item> \<^verbatim>\<open>kernel/main.c\<close>: a sequence of initialisations that ends in hardware start-up; those that
    change kernel state are modelled one by one, their order is not.

  \<^item> \<^verbatim>\<open>mq_gc\<close>, \<^verbatim>\<open>malloc_gc_module\<close>,
    \<^verbatim>\<open>malloc_gc_kernel\<close> and the handler of the memory manager: the first, third and fourth call the
    marking functions of the radio drivers; the second is a conservative search that reads the bytes of a module's state as
    pointers, which the typed stores do not represent.

  \<^item> \<^verbatim>\<open>kernel/memmap.c\<close>, \<^verbatim>\<open>kernel/priority.c\<close>,
    \<^verbatim>\<open>kernel/sensor_system.c\<close>: parts of other builds, with protection domains, preemption or the newer
    sensor interface. Of the preemptive build only the message queue is modelled.

  \<^item> \<^verbatim>\<open>kernel/sos_module_fetcher.c\<close>: a protocol whose partner is a program on another machine.

  \<^item> \<^verbatim>\<open>kernel/random.c\<close>, \<^verbatim>\<open>kernel/sos_info.c\<close>,
    \<^verbatim>\<open>kernel/pid.c\<close>, \<^verbatim>\<open>kernel/error_type.c\<close>,
    \<^verbatim>\<open>kernel/sos_logging.c\<close>: stand-alone helpers, name tables and output, which no modelled operation
    depends on; log calls are left out.

  \<^item> Radio and I2C drivers and the other files of \<^verbatim>\<open>drivers/\<close>, \<^verbatim>\<open>processor/\<close>
    and \<^verbatim>\<open>platform/\<close>: they work on device registers and interrupts whose behaviour is not in the
    repository. Interrupts appear only at the points where the modelled handlers run; interleavings inside critical sections are
    excluded by the code and not modelled, those outside of them are not modelled either.

  \<^item> \<^verbatim>\<open>modules/\<close> and \<^verbatim>\<open>extensions/\<close>: applications; the theorems on the
    scheduler hold for any handlers that satisfy the hypotheses named there.
\<close>

end
